(* ===== verification/Prelude.thy ===== *)
theory Prelude
  imports Main "HOL-Library.Word" "HOL-Library.Char_ord" "HOL-Library.List_Lexorder"
    "HOL-Library.Code_Target_Numeral"
begin

text \<open>
  Shared vocabulary of the development: how a Rust result, panic, string, duration and
  hash map are represented, and the generic lemmas the component theories use.

  Strings.  A Rust \<open>str\<close> or \<open>Vec<char>\<close> is a HOL \<open>string\<close>.  Code that walks over
  \<open>chars()\<close> reads the list as a list of Unicode scalar values (HOL's \<open>char\<close> holds those up to
  U+00FF); code that slices by byte offset reads it as the list of UTF-8 bytes.  On ASCII text the
  two readings coincide.  Case folding and the whitespace class are the ASCII parts of Rust's.

  Results.  \<open>Result<T, E>\<close> is a sum with the error on the left; where the code can
  also panic, the left component is a \<open>fault\<close>, either the error or the panic.
\<close>

named_theorems str_simps \<open>evaluation rules of the string helpers\<close>
named_theorems res_simps \<open>rules for results\<close>

section \<open>Results and panics\<close>

datatype panic =
    Char_Boundary \<comment> \<open>a byte index inside a UTF-8 sequence\<close>
  | Slice_Range \<comment> \<open>a slice index past the end\<close>
  | Divide_By_Zero
  | Expect_Failed \<comment> \<open>an \<open>unwrap\<close> or \<open>expect\<close> on the wrong variant\<close>
  | Duration_Range \<comment> \<open>\<open>Duration::from_secs_f64\<close> on a negative, infinite or NaN argument\<close>

datatype 'e fault = Err 'e | Panic panic

type_synonym ('e, 'a) result = "'e fault + 'a"

fun res_bind :: "'e + 'a \<Rightarrow> ('a \<Rightarrow> 'e + 'b) \<Rightarrow> 'e + 'b" where
  "res_bind (Inl e) f = Inl e"
| "res_bind (Inr x) f = f x"

fun is_ok :: "'e + 'a \<Rightarrow> bool" where
  "is_ok (Inl e) = False"
| "is_ok (Inr x) = True"

lemma res_bind_Inr_iff [res_simps]:
  "res_bind r f = Inr y \<longleftrightarrow> (\<exists>x. r = Inr x \<and> f x = Inr y)"
  by (cases r) auto

lemma map_sum_Inr: "map_sum f h r = Inr y \<longleftrightarrow> (\<exists>x. r = Inr x \<and> y = h x)"
  by (cases r) auto

lemma res_bind_cong [fundef_cong]:
  "r = r' \<Longrightarrow> (\<And>x. r' = Inr x \<Longrightarrow> f x = g x) \<Longrightarrow> res_bind r f = res_bind r' g"
  by (cases r') auto

lemma is_ok_iff [res_simps]: "is_ok r \<longleftrightarrow> (\<exists>x. r = Inr x)"
  by (cases r) auto

section \<open>Characters\<close>

definition code :: "char \<Rightarrow> nat" where
  "code c = of_char c"

definition is_ascii_digit :: "char \<Rightarrow> bool" where
  "is_ascii_digit c \<longleftrightarrow> 48 \<le> code c \<and> code c \<le> 57"

definition is_ascii_alpha :: "char \<Rightarrow> bool" where
  "is_ascii_alpha c \<longleftrightarrow> (65 \<le> code c \<and> code c \<le> 90) \<or> (97 \<le> code c \<and> code c \<le> 122)"

definition is_ascii_alnum :: "char \<Rightarrow> bool" where
  "is_ascii_alnum c \<longleftrightarrow> is_ascii_alpha c \<or> is_ascii_digit c"

text \<open>\<open>char::is_ascii_whitespace\<close>: space, tab, LF, FF, CR (not VT).\<close>

definition is_ascii_ws :: "char \<Rightarrow> bool" where
  "is_ascii_ws c \<longleftrightarrow> code c \<in> {9, 10, 12, 13, 32}"

text \<open>The ASCII part of \<open>char::is_whitespace\<close>, the class \<open>str::trim\<close> uses (VT included).\<close>

definition is_ws :: "char \<Rightarrow> bool" where
  "is_ws c \<longleftrightarrow> code c \<in> {9, 10, 11, 12, 13, 32}"

definition lower_char :: "char \<Rightarrow> char" where
  "lower_char c = (if 65 \<le> code c \<and> code c \<le> 90 then char_of (code c + 32) else c)"

definition to_lower :: "string \<Rightarrow> string" where
  "to_lower s = map lower_char s"

abbreviation newline :: char where "newline \<equiv> CHR 0x0A"
abbreviation tabchar :: char where "tabchar \<equiv> CHR 0x09"
abbreviation carriage :: char where "carriage \<equiv> CHR 0x0D"
abbreviation dquote :: char where "dquote \<equiv> CHR 0x22"
abbreviation backslash :: char where "backslash \<equiv> CHR 0x5C"

lemmas char_class_defs = is_ascii_digit_def is_ascii_alpha_def is_ascii_alnum_def
  is_ascii_ws_def is_ws_def code_def

lemma is_ascii_ws_is_ws: "is_ascii_ws c \<Longrightarrow> is_ws c"
  by (auto simp: char_class_defs)

lemma digit_not_ws: "is_ascii_digit c \<Longrightarrow> \<not> is_ws c"
  by (auto simp: char_class_defs)

section \<open>Trimming, prefixes and suffixes\<close>

definition trim_start :: "string \<Rightarrow> string" where
  "trim_start s = dropWhile is_ws s"

definition trim_end :: "string \<Rightarrow> string" where
  "trim_end s = rev (dropWhile is_ws (rev s))"

definition trim :: "string \<Rightarrow> string" where
  "trim s = trim_end (trim_start s)"

definition starts_with :: "string \<Rightarrow> string \<Rightarrow> bool" where
  "starts_with s p \<longleftrightarrow> take (length p) s = p"

definition strip_prefix :: "string \<Rightarrow> string \<Rightarrow> string option" where
  "strip_prefix s p = (if starts_with s p then Some (drop (length p) s) else None)"

definition ends_with :: "string \<Rightarrow> string \<Rightarrow> bool" where
  "ends_with s p \<longleftrightarrow> starts_with (rev s) (rev p)"

definition strip_suffix :: "string \<Rightarrow> string \<Rightarrow> string option" where
  "strip_suffix s p = (if ends_with s p then Some (take (length s - length p) s) else None)"

definition strip_one :: "string \<Rightarrow> string \<Rightarrow> string" where
  \<comment> \<open>\<open>s.strip_prefix(p).unwrap_or(s)\<close>\<close>
  "strip_one s p = (case strip_prefix s p of Some r \<Rightarrow> r | None \<Rightarrow> s)"

lemma length_trim_start: "length (trim_start s) \<le> length s"
  by (simp add: trim_start_def length_dropWhile_le)

lemma length_trim_end: "length (trim_end s) \<le> length s"
  by (metis length_dropWhile_le length_rev trim_end_def)

lemma length_trim: "length (trim s) \<le> length s"
  using length_trim_start length_trim_end unfolding trim_def by (metis le_trans)

lemma trim_Nil [simp]: "trim [] = []" "trim_start [] = []" "trim_end [] = []"
  by (simp_all add: trim_def trim_start_def trim_end_def)

lemma dropWhile_hd: "s \<noteq> [] \<Longrightarrow> \<not> P (hd s) \<Longrightarrow> dropWhile P s = s"
  by (cases s) auto

lemma trim_id: "s = [] \<or> (\<not> is_ws (hd s) \<and> \<not> is_ws (last s)) \<Longrightarrow> trim s = s"
  by (cases "s = []") (auto simp: trim_def trim_start_def trim_end_def dropWhile_hd hd_rev)

lemma trim_no_ws: "\<forall>c\<in>set s. \<not> is_ws c \<Longrightarrow> trim s = s"
  by (rule trim_id) (cases s, auto)

lemma trim_idem [simp]: "trim (trim s) = trim s"
proof (cases "trim s = []")
  case False
  have "\<not> is_ws (hd (trim s)) \<and> \<not> is_ws (last (trim s))"
  proof
    have ne: "trim_end (trim_start s) \<noteq> []" using False by (simp add: trim_def)
    show "\<not> is_ws (last (trim s))"
      using hd_dropWhile [of is_ws "rev (trim_start s)"] ne
      by (simp add: trim_def trim_end_def last_rev)
    have split: "trim_start s = trim_end (trim_start s) @ rev (takeWhile is_ws (rev (trim_start s)))"
      unfolding trim_end_def by (metis rev_append rev_rev_ident takeWhile_dropWhile_id)
    then have "hd (trim_start s) = hd (trim s)"
      using ne unfolding trim_def by (metis hd_append2)
    moreover have "trim_start s \<noteq> []" using split ne by auto
    ultimately show "\<not> is_ws (hd (trim s))"
      using hd_dropWhile [of is_ws s] by (simp add: trim_start_def)
  qed
  then show ?thesis by (rule trim_id [OF disjI2])
qed simp

lemma starts_with_iff: "starts_with s p \<longleftrightarrow> (\<exists>r. s = p @ r)"
  unfolding starts_with_def by (metis append_eq_conv_conj append_take_drop_id)

lemma strip_prefix_Some: "strip_prefix s p = Some r \<longleftrightarrow> s = p @ r"
  by (auto simp: strip_prefix_def starts_with_iff)

lemma strip_prefix_append [simp]: "strip_prefix (p @ r) p = Some r"
  by (simp add: strip_prefix_Some)

lemma ends_with_iff: "ends_with s p \<longleftrightarrow> (\<exists>r. s = r @ p)"
  unfolding ends_with_def starts_with_iff by (metis rev_append rev_rev_ident)

lemma strip_suffix_Some: "strip_suffix s p = Some r \<longleftrightarrow> s = r @ p"
  by (auto simp: strip_suffix_def ends_with_iff)


section \<open>Searching, splitting, joining\<close>

text \<open>\<open>str::find\<close>: the offset of the first occurrence.\<close>

fun find_sub :: "string \<Rightarrow> string \<Rightarrow> nat option" where
  "find_sub p [] = (if p = [] then Some 0 else None)"
| "find_sub p (c # cs) =
     (if starts_with (c # cs) p then Some 0 else map_option Suc (find_sub p cs))"

lemma find_sub_Some:
  "find_sub p s = Some n \<Longrightarrow> n + length p \<le> length s \<and> starts_with (drop n s) p"
proof (induction p s arbitrary: n rule: find_sub.induct)
  case (2 p c cs)
  show ?case
  proof (cases "starts_with (c # cs) p")
    case True
    then have "length p \<le> length (c # cs)"
      unfolding starts_with_iff by (metis length_append le_add1)
    with True 2 show ?thesis by simp
  next
    case False
    with "2.prems" obtain m where "n = Suc m" "find_sub p cs = Some m" by auto
    with "2.IH" False show ?thesis by simp
  qed
qed (auto simp: starts_with_def split: if_splits)

lemma find_sub_notin: "c \<notin> set s \<Longrightarrow> find_sub [c] s = None"
  by (induction s) (auto simp: starts_with_def)

lemma find_sub_append: "c \<notin> set k \<Longrightarrow> find_sub [c] (k @ c # v) = Some (length k)"
  by (induction k) (auto simp: starts_with_def)

text \<open>\<open>str::split_whitespace\<close>.\<close>

function split_ws :: "string \<Rightarrow> string list" where
  "split_ws s =
     (case dropWhile is_ws s of
        [] \<Rightarrow> []
      | c # cs \<Rightarrow> takeWhile (\<lambda>x. \<not> is_ws x) (c # cs)
                 # split_ws (dropWhile (\<lambda>x. \<not> is_ws x) cs))"
  by pat_completeness auto
termination
proof (relation "measure length", goal_cases)
  case (2 s c cs)
  then have "length cs < length s"
    using length_dropWhile_le [of is_ws s] by simp
  then show ?case
    using length_dropWhile_le [of "\<lambda>x. \<not> is_ws x" cs] by simp
qed simp

declare split_ws.simps [simp del]

text \<open>\<open>str::lines\<close>: split at LF, drop one CR before it, no final empty line.\<close>

definition chomp_cr :: "string \<Rightarrow> string" where
  "chomp_cr l = (case strip_suffix l [carriage] of Some r \<Rightarrow> r | None \<Rightarrow> l)"

fun split_nl :: "string \<Rightarrow> string \<Rightarrow> string list" where
  "split_nl acc [] = (if acc = [] then [] else [rev acc])"
| "split_nl acc (c # cs) =
     (if c = newline then chomp_cr (rev acc) # split_nl [] cs else split_nl (c # acc) cs)"

definition str_lines :: "string \<Rightarrow> string list" where
  "str_lines s = split_nl [] s"

fun join :: "string \<Rightarrow> string list \<Rightarrow> string" where
  "join sep [] = []"
| "join sep [x] = x"
| "join sep (x # y # ys) = x @ sep @ join sep (y # ys)"

lemma join_Cons: "ys \<noteq> [] \<Longrightarrow> join sep (x # ys) = x @ sep @ join sep ys"
  by (cases ys) auto

text \<open>A line that \<open>str::lines\<close> gives back.\<close>

definition plain_line :: "string \<Rightarrow> bool" where
  "plain_line l \<longleftrightarrow> newline \<notin> set l \<and> (l = [] \<or> last l \<noteq> carriage)"

definition text_of :: "string list \<Rightarrow> string" where
  "text_of ls = concat (map (\<lambda>l. l @ [newline]) ls)"

lemma text_of_simps [simp]:
  "text_of [] = []" "text_of (l # ls) = l @ newline # text_of ls" "text_of (ls @ ls') = text_of ls @ text_of ls'"
  by (simp_all add: text_of_def)

lemma chomp_plain: "plain_line l \<Longrightarrow> chomp_cr l = l"
  by (auto simp: chomp_cr_def plain_line_def strip_suffix_Some split: option.split)

lemma split_nl_line: "newline \<notin> set l \<Longrightarrow> split_nl acc (l @ newline # r) = chomp_cr (rev acc @ l) # split_nl [] r"
  by (induction l arbitrary: acc) auto

lemma str_lines_text: "list_all plain_line ls \<Longrightarrow> str_lines (text_of ls) = ls"
  unfolding str_lines_def
proof (induction ls)
  case (Cons l ls)
  then show ?case by (simp add: split_nl_line chomp_plain) (simp add: plain_line_def split_nl_line chomp_plain)
qed simp

section \<open>Byte slices\<close>

definition is_cont_byte :: "char \<Rightarrow> bool" where
  "is_cont_byte c \<longleftrightarrow> 128 \<le> code c \<and> code c < 192"

text \<open>\<open>str::is_char_boundary\<close>.\<close>

definition is_char_boundary :: "string \<Rightarrow> nat \<Rightarrow> bool" where
  "is_char_boundary s i \<longleftrightarrow>
     i = 0 \<or> i = length s \<or> (i < length s \<and> \<not> is_cont_byte (s ! i))"

text \<open>\<open>&s[..i]\<close> and \<open>&s[i..]\<close>: a panic when the index is not a character boundary.\<close>

definition slice_to :: "string \<Rightarrow> nat \<Rightarrow> panic + string" where
  "slice_to s i = (if is_char_boundary s i then Inr (take i s) else Inl Char_Boundary)"

definition slice_from :: "string \<Rightarrow> nat \<Rightarrow> panic + string" where
  "slice_from s i = (if is_char_boundary s i then Inr (drop i s) else Inl Char_Boundary)"

definition is_ascii :: "string \<Rightarrow> bool" where
  "is_ascii s \<longleftrightarrow> (\<forall>c\<in>set s. code c < 128)"

lemma ascii_char_boundary: "is_ascii s \<Longrightarrow> is_char_boundary s i \<longleftrightarrow> i \<le> length s"
  by (cases "i < length s")
    (fastforce simp: is_char_boundary_def is_cont_byte_def is_ascii_def dest: nth_mem)+

section \<open>Decimal numerals\<close>

definition digit_char :: "nat \<Rightarrow> char" where
  "digit_char d = char_of (48 + d)"

definition digit_val :: "char \<Rightarrow> nat" where
  "digit_val c = code c - 48"

text \<open>The \<open>Display\<close> text of an unsigned integer.\<close>

fun dec :: "nat \<Rightarrow> string" where
  "dec n = (if n < 10 then [digit_char n] else dec (n div 10) @ [digit_char (n mod 10)])"

declare dec.simps [simp del]

definition digits_val :: "string \<Rightarrow> nat" where
  "digits_val s = fold (\<lambda>c acc. acc * 10 + digit_val c) s 0"

lemma code_digit_char: "d < 10 \<Longrightarrow> code (digit_char d) = 48 + d"
  by (simp add: digit_char_def code_def of_char_of)

lemma digit_char_is_digit: "d < 10 \<Longrightarrow> is_ascii_digit (digit_char d)"
  by (simp add: is_ascii_digit_def code_digit_char)

lemma dec_digits: "\<forall>c\<in>set (dec n). is_ascii_digit c"
proof (induction n rule: dec.induct)
  case (1 n)
  then show ?case by (subst dec.simps) (auto simp: digit_char_is_digit)
qed

lemma dec_not_Nil [simp]: "dec n \<noteq> []"
  by (subst dec.simps) simp

lemma digits_val_append: "digits_val (s @ [c]) = digits_val s * 10 + digit_val c"
  by (simp add: digits_val_def)

lemma digits_val_dec [simp]: "digits_val (dec n) = n"
proof (induction n rule: dec.induct)
  case (1 n)
  show ?case
  proof (cases "n < 10")
    case True
    then show ?thesis
      by (subst dec.simps) (simp add: digits_val_def digit_val_def code_digit_char)
  next
    case False
    with 1 have IH: "digits_val (dec (n div 10)) = n div 10" by simp
    have "dec n = dec (n div 10) @ [digit_char (n mod 10)]"
      using False by (subst dec.simps) simp
    then have "digits_val (dec n) = n div 10 * 10 + n mod 10"
      by (simp add: digits_val_append IH digit_val_def code_digit_char)
    then show ?thesis by simp
  qed
qed

text \<open>
  \<open>str::parse\<close> for an unsigned integer of \<open>w\<close> bits: an optional plus sign, at least one
  digit, no overflow.
\<close>

definition parse_uint :: "nat \<Rightarrow> string \<Rightarrow> nat option" where
  "parse_uint w s =
     (let ds = strip_one s ''+'' in
      if ds \<noteq> [] \<and> list_all is_ascii_digit ds \<and> digits_val ds < 2 ^ w
      then Some (digits_val ds) else None)"

lemma hd_dec_digit: "is_ascii_digit (hd (dec n))"
  using dec_digits [of n] by (metis dec_not_Nil hd_in_set)

lemma strip_one_dec [simp]: "strip_one (dec n) ''+'' = dec n"
proof -
  have "\<not> starts_with (dec n) ''+''"
    using hd_dec_digit [of n] by (cases "dec n") (auto simp: starts_with_def is_ascii_digit_def code_def)
  then show ?thesis by (simp add: strip_one_def strip_prefix_def)
qed

lemma parse_uint_dec: "n < 2 ^ w \<Longrightarrow> parse_uint w (dec n) = Some n"
  using dec_digits [of n] by (simp add: parse_uint_def Let_def list_all_iff)

lemma parse_uint_bound: "parse_uint w s = Some n \<Longrightarrow> n < 2 ^ w"
  by (auto simp: parse_uint_def Let_def split: if_splits)

section \<open>Durations\<close>

text \<open>
  \<open>std::time::Duration\<close> as its number of nanoseconds.
\<close>

type_synonym duration = nat

definition from_nanos :: "nat \<Rightarrow> duration" where "from_nanos n = n"
definition from_millis :: "nat \<Rightarrow> duration" where "from_millis n = n * 10 ^ 6"
definition from_secs :: "nat \<Rightarrow> duration" where "from_secs n = n * 10 ^ 9"
definition as_secs :: "duration \<Rightarrow> nat" where "as_secs d = d div 10 ^ 9"

lemmas duration_defs = from_nanos_def from_millis_def from_secs_def as_secs_def

section \<open>Hash maps\<close>

text \<open>
  A \<open>HashMap<String, V>\<close> is a map \<open>string \<rightharpoonup> 'v\<close> where the code only looks keys up, inserts and
  filters; code that observes the iteration order takes an association list with distinct keys,
  the order being arbitrary.
\<close>

type_synonym 'v str_map = "string \<Rightarrow> 'v option"

definition map_filter_keys :: "(string \<Rightarrow> bool) \<Rightarrow> 'v str_map \<Rightarrow> 'v str_map" where
  "map_filter_keys P m = (\<lambda>k. if P k then m k else None)"

definition map_values :: "('v \<Rightarrow> 'w) \<Rightarrow> 'v str_map \<Rightarrow> 'w str_map" where
  "map_values f m = (\<lambda>k. map_option f (m k))"

fun insert_all :: "('k \<times> 'v) list \<Rightarrow> ('k \<Rightarrow> 'v option) \<Rightarrow> ('k \<Rightarrow> 'v option)" where
  "insert_all [] m = m"
| "insert_all ((k, v) # kvs) m = insert_all kvs (m(k \<mapsto> v))"

lemma insert_all_append: "insert_all (xs @ ys) m = insert_all ys (insert_all xs m)"
  by (induction xs arbitrary: m) auto

lemma insert_all_map_of: "insert_all kvs m = m ++ map_of (rev kvs)"
proof (induction kvs arbitrary: m)
  case (Cons kv kvs)
  obtain k v where kv: "kv = (k, v)" by force
  show ?case unfolding kv insert_all.simps Cons.IH
    by (simp add: map_add_upd_left map_add_assoc)
qed simp

lemma dom_insert_all: "dom (insert_all kvs m) = dom m \<union> fst ` set kvs"
  by (simp add: insert_all_map_of dom_map_of_conv_image_fst Un_commute)

section \<open>Lists\<close>

text \<open>\<open>Iterator::find_map\<close>.\<close>

fun find_map :: "('a \<Rightarrow> 'b option) \<Rightarrow> 'a list \<Rightarrow> 'b option" where
  "find_map f [] = None"
| "find_map f (x # xs) = (case f x of Some y \<Rightarrow> Some y | None \<Rightarrow> find_map f xs)"

lemma find_Some_mem: "List.find P xs = Some x \<Longrightarrow> x \<in> set xs \<and> P x"
  by (induction xs) (auto split: if_splits)

lemma find_None_iff_all: "List.find P xs = None \<longleftrightarrow> (\<forall>x\<in>set xs. \<not> P x)"
  by (induction xs) auto

lemma find_map_append:
  "find_map f (xs @ ys) = (case find_map f xs of Some y \<Rightarrow> Some y | None \<Rightarrow> find_map f ys)"
  by (induction xs) (auto split: option.split)

lemma find_map_None: "find_map f xs = None \<longleftrightarrow> list_all (\<lambda>x. f x = None) xs"
  by (induction xs) (auto split: option.split)

lemma find_map_Some: "find_map f xs = Some y \<Longrightarrow> \<exists>x\<in>set xs. f x = Some y"
  by (induction xs) (auto split: option.splits)

lemma map_filter_append: "List.map_filter f (xs @ ys) = List.map_filter f xs @ List.map_filter f ys"
  by (simp add: List.map_filter_def)

lemma map_filter_none: "list_all (\<lambda>x. f x = None) xs \<Longrightarrow> List.map_filter f xs = []"
  by (induction xs) auto

lemma map_filter_map: "(\<And>x. f (g x) = Some (h x)) \<Longrightarrow> List.map_filter f (map g xs) = map h xs"
  by (induction xs) auto

lemma map_filter_cong: "(\<And>x. x \<in> set xs \<Longrightarrow> f x = g x) \<Longrightarrow> List.map_filter f xs = List.map_filter g xs"
  by (induction xs) (simp_all split: option.split)

end
