(* ===== verification/Float64.thy ===== *)
theory Float64
  imports Prelude
begin

text \<open>
  Rust's \<open>f64\<close> as the source uses it: parsing a decimal literal, comparing, multiplying by
  another double, and the saturating casts \<open>as i32\<close>, \<open>as u32\<close>, \<open>as u64\<close> and \<open>as usize\<close>.
  A finite double is a sign, a 53-bit mantissa and an exponent; every operation that produces one
  rounds the exact value to nearest, ties to even, with overflow to infinity and gradual
  underflow, as IEEE 754 binary64 and Rust's \<open>f64\<close> do.
\<close>

datatype f64 = F_NaN | F_Inf bool | F_Fin bool nat int
  \<comment> \<open>\<open>F_Fin neg m e\<close> is \<open>(-1)^neg * m * 2^e\<close>\<close>

fun nbits :: "nat \<Rightarrow> nat" where
  "nbits n = (if n = 0 then 0 else Suc (nbits (n div 2)))"

declare nbits.simps [simp del]

text \<open>Scaling the fraction \<open>n / d\<close> by \<open>2 ^ (- e)\<close>.\<close>

definition scale_frac :: "nat \<Rightarrow> nat \<Rightarrow> int \<Rightarrow> nat \<times> nat" where
  "scale_frac n d e = (if 0 \<le> e then (n, d * 2 ^ nat e) else (n * 2 ^ nat (- e), d))"

text \<open>Quotient rounded to nearest, ties to even.\<close>

definition round_half_even :: "nat \<Rightarrow> nat \<Rightarrow> nat" where
  "round_half_even n d =
     (let q = n div d; r = n mod d in
      if d < 2 * r \<or> (2 * r = d \<and> odd q) then q + 1 else q)"

text \<open>The double nearest to \<open>(-1)^s * n / d\<close> (with \<open>d > 0\<close>).\<close>

definition round_frac :: "bool \<Rightarrow> nat \<Rightarrow> nat \<Rightarrow> f64" where
  "round_frac s n d =
     (if n = 0 then F_Fin s 0 0
      else
        let e0 = max (-1074) (int (nbits n) - int (nbits d) - 53);
            (n0, d0) = scale_frac n d e0;
            e1 = (if n0 div d0 < 2 ^ 53 then e0 else e0 + 1);
            (n1, d1) = scale_frac n d e1;
            q = round_half_even n1 d1
        in if q = 2 ^ 53
           then (if e1 + 1 > 971 then F_Inf s else F_Fin s (2 ^ 52) (e1 + 1))
           else (if e1 > 971 then F_Inf s else F_Fin s q e1))"

text \<open>The signed value of a finite double scaled by \<open>2 ^ k\<close>, an integer when \<open>k + e \<ge> 0\<close>.\<close>

definition signed_mant :: "bool \<Rightarrow> nat \<Rightarrow> int" where
  "signed_mant s m = (if s then - int m else int m)"

fun f64_lt :: "f64 \<Rightarrow> f64 \<Rightarrow> bool" where
  "f64_lt F_NaN _ = False"
| "f64_lt _ F_NaN = False"
| "f64_lt (F_Inf s) (F_Inf t) = (s \<and> \<not> t)"
| "f64_lt (F_Inf s) (F_Fin _ _ _) = s"
| "f64_lt (F_Fin _ _ _) (F_Inf t) = (\<not> t)"
| "f64_lt (F_Fin s m e) (F_Fin t n f) =
     (let g = min e f in
      signed_mant s m * 2 ^ nat (e - g) < signed_mant t n * 2 ^ nat (f - g))"

fun f64_mul :: "f64 \<Rightarrow> f64 \<Rightarrow> f64" where
  "f64_mul F_NaN _ = F_NaN"
| "f64_mul _ F_NaN = F_NaN"
| "f64_mul (F_Inf s) (F_Inf t) = F_Inf (s \<noteq> t)"
| "f64_mul (F_Inf s) (F_Fin t n f) = (if n = 0 then F_NaN else F_Inf (s \<noteq> t))"
| "f64_mul (F_Fin s m e) (F_Inf t) = (if m = 0 then F_NaN else F_Inf (s \<noteq> t))"
| "f64_mul (F_Fin s m e) (F_Fin t n f) =
     (let g = e + f in
      if 0 \<le> g then round_frac (s \<noteq> t) (m * n * 2 ^ nat g) 1
      else round_frac (s \<noteq> t) (m * n) (2 ^ nat (- g)))"

fun f64_div :: "f64 \<Rightarrow> f64 \<Rightarrow> f64" where
  "f64_div F_NaN _ = F_NaN"
| "f64_div _ F_NaN = F_NaN"
| "f64_div (F_Inf s) (F_Inf t) = F_NaN"
| "f64_div (F_Inf s) (F_Fin t n f) = F_Inf (s \<noteq> t)"
| "f64_div (F_Fin s m e) (F_Inf t) = F_Fin (s \<noteq> t) 0 0"
| "f64_div (F_Fin s m e) (F_Fin t n f) =
     (if n = 0 then (if m = 0 then F_NaN else F_Inf (s \<noteq> t))
      else if 0 \<le> e - f then round_frac (s \<noteq> t) (m * 2 ^ nat (e - f)) n
      else round_frac (s \<noteq> t) m (n * 2 ^ nat (f - e)))"

definition f64_ge :: "f64 \<Rightarrow> f64 \<Rightarrow> bool" where
  "f64_ge x y \<longleftrightarrow> x \<noteq> F_NaN \<and> y \<noteq> F_NaN \<and> \<not> f64_lt x y"

definition f64_of_nat :: "nat \<Rightarrow> f64" where
  "f64_of_nat n = round_frac False n 1"

text \<open>Truncation towards zero of a finite double.\<close>

definition trunc_fin :: "bool \<Rightarrow> nat \<Rightarrow> int \<Rightarrow> int" where
  "trunc_fin s m e =
     (if 0 \<le> e then signed_mant s m * 2 ^ nat e else signed_mant s (m div 2 ^ nat (- e)))"

definition clamp_int :: "int \<Rightarrow> int \<Rightarrow> int \<Rightarrow> int" where
  "clamp_int lo hi x = max lo (min hi x)"

text \<open>A float-to-integer \<open>as\<close> cast: truncates, saturates, and sends NaN to zero.\<close>

fun f64_as :: "int \<Rightarrow> int \<Rightarrow> f64 \<Rightarrow> int" where
  "f64_as lo hi F_NaN = 0"
| "f64_as lo hi (F_Inf s) = (if s then lo else hi)"
| "f64_as lo hi (F_Fin s m e) = clamp_int lo hi (trunc_fin s m e)"

definition f64_as_i32 :: "f64 \<Rightarrow> int" where
  "f64_as_i32 = f64_as (- (2 ^ 31)) (2 ^ 31 - 1)"

definition f64_as_u32 :: "f64 \<Rightarrow> 32 word" where
  "f64_as_u32 x = word_of_int (f64_as 0 (2 ^ 32 - 1) x)"

definition f64_as_u64 :: "f64 \<Rightarrow> nat" where
  "f64_as_u64 x = nat (f64_as 0 (2 ^ 64 - 1) x)"

section \<open>Parsing\<close>

definition lower_eq :: "string \<Rightarrow> string \<Rightarrow> bool" where
  "lower_eq s t \<longleftrightarrow> to_lower s = t"

text \<open>
  \<open>Exp ::= ('e' | 'E') [sign] Digit+\<close>, or nothing.
\<close>

definition parse_exponent :: "string \<Rightarrow> int option" where
  "parse_exponent s =
     (case s of
        [] \<Rightarrow> Some 0
      | c # r \<Rightarrow>
          if c = CHR ''e'' \<or> c = CHR ''E'' then
            let neg = (starts_with r ''-'');
                ds = (if starts_with r ''-'' \<or> starts_with r ''+'' then tl r else r)
            in if ds \<noteq> [] \<and> list_all is_ascii_digit ds
               then Some (if neg then - int (digits_val ds) else int (digits_val ds))
               else None
          else None)"

text \<open>\<open>Number ::= (Digit+ | Digit+ '.' Digit* | Digit* '.' Digit+) Exp?\<close>\<close>

definition parse_number :: "bool \<Rightarrow> string \<Rightarrow> f64 option" where
  "parse_number neg s =
     (let ip = takeWhile is_ascii_digit s;
          r1 = dropWhile is_ascii_digit s;
          dot = starts_with r1 ''.'';
          r2 = (if dot then tl r1 else r1);
          fp = (if dot then takeWhile is_ascii_digit r2 else []);
          r3 = (if dot then dropWhile is_ascii_digit r2 else r2)
      in if ip = [] \<and> fp = [] then None
         else case parse_exponent r3 of
                None \<Rightarrow> None
              | Some ex \<Rightarrow>
                  let m = digits_val (ip @ fp); k = ex - int (length fp)
                  in Some (if 0 \<le> k then round_frac neg (m * 10 ^ nat k) 1
                           else round_frac neg m (10 ^ nat (- k))))"

text \<open>\<open>str::parse::<f64>\<close>.\<close>

definition parse_f64 :: "string \<Rightarrow> f64 option" where
  "parse_f64 s =
     (let neg = starts_with s ''-'';
          b = (if starts_with s ''-'' \<or> starts_with s ''+'' then tl s else s)
      in if lower_eq b ''inf'' \<or> lower_eq b ''infinity'' then Some (F_Inf neg)
         else if lower_eq b ''nan'' then Some F_NaN
         else parse_number neg b)"

section \<open>Integers below \<open>2^53\<close> are exact\<close>

lemma nbits_bounds: "n < 2 ^ nbits n \<and> (0 < n \<longrightarrow> 0 < nbits n \<and> 2 ^ (nbits n - 1) \<le> n)"
proof (induction n rule: nbits.induct)
  case (1 n)
  show ?case
  proof (cases "n = 0")
    case True
    then show ?thesis by (subst nbits.simps, simp)
  next
    case False
    then have nb: "nbits n = Suc (nbits (n div 2))" by (subst nbits.simps) simp
    from 1 False have IH: "n div 2 < 2 ^ nbits (n div 2)"
      "0 < n div 2 \<Longrightarrow> 0 < nbits (n div 2) \<and> 2 ^ (nbits (n div 2) - 1) \<le> n div 2" by auto
    have up: "n < 2 ^ nbits n" using IH(1) unfolding nb by simp
    have lo: "2 ^ (nbits n - 1) \<le> n"
    proof (cases "n div 2 = 0")
      case True
      then show ?thesis using False unfolding nb by (simp add: nbits.simps)
    next
      case h: False
      with IH(2) have k: "0 < nbits (n div 2)" "2 ^ (nbits (n div 2) - 1) \<le> n div 2" by auto
      then have "2 ^ nbits (n div 2) \<le> 2 * (n div 2)"
        by (cases "nbits (n div 2)") auto
      also have "\<dots> \<le> n" by simp
      finally show ?thesis unfolding nb by simp
    qed
    show ?thesis using up lo unfolding nb by simp
  qed
qed

lemma nbits_le: "n < 2 ^ k \<Longrightarrow> nbits n \<le> k"
proof (rule ccontr)
  assume n: "n < 2 ^ k" and "\<not> nbits n \<le> k"
  then have k: "k \<le> nbits n - 1" "0 < nbits n" by auto
  then have "n \<noteq> 0" by (metis less_irrefl nbits.simps)
  then have "2 ^ (nbits n - 1) \<le> n" using nbits_bounds by blast
  moreover have "(2::nat) ^ k \<le> 2 ^ (nbits n - 1)" using k by (intro power_increasing) auto
  ultimately show False using n by linarith
qed

lemma nbits_1: "nbits 1 = 1" "nbits (Suc 0) = 1"
  by (simp_all add: nbits.simps)

lemma round_half_even_1: "round_half_even n 1 = n"
  by (simp add: round_half_even_def)

lemma f64_of_nat_exact:
  assumes "n < 2 ^ 53"
  shows "\<exists>j. f64_of_nat n = F_Fin False (n * 2 ^ j) (- int j)"
proof (cases "n = 0")
  case True
  then show ?thesis by (intro exI [of _ 0]) (simp add: f64_of_nat_def round_frac_def)
next
  case False
  define k where "k = nbits n"
  have k: "n < 2 ^ k" "0 < k" "2 ^ (k - 1) \<le> n" "k \<le> 53"
    using nbits_bounds [of n] nbits_le [OF assms] False by (auto simp: k_def)
  define j where "j = 53 - k"
  have e0: "max (- 1074) (int k - int (nbits 1) - 53) = int k - 54"
    using k by (simp add: nbits_1)
  have "nat (54 - int k) = Suc j" using k by (simp add: j_def)
  then have s0: "scale_frac n 1 (int k - 54) = (n * 2 ^ Suc j, 1)"
    using k by (simp add: scale_frac_def)
  have big: "\<not> n * 2 ^ Suc j < 2 ^ 53"
  proof -
    have "(2::nat) ^ (k - 1) * 2 ^ Suc j \<le> n * 2 ^ Suc j" using k by (intro mult_right_mono) auto
    moreover have "(2::nat) ^ (k - 1) * 2 ^ Suc j = 2 ^ 53"
      using k by (simp only: power_add [symmetric] j_def) (simp add: Suc_diff_Suc)
    ultimately show ?thesis by linarith
  qed
  have s1: "scale_frac n 1 (int k - 54 + 1) = (n * 2 ^ j, 1)"
    using k by (auto simp: scale_frac_def j_def nat_diff_distrib intro!: arg_cong [of _ _ "\<lambda>x. 2 ^ x"])
  have lt: "n * 2 ^ j < 2 ^ 53"
  proof -
    have "n * 2 ^ j < 2 ^ k * 2 ^ j" using k by simp
    also have "(2::nat) ^ k * 2 ^ j = 2 ^ 53" using k by (simp only: power_add [symmetric] j_def) simp
    finally show ?thesis .
  qed
  have "f64_of_nat n = F_Fin False (n * 2 ^ j) (int k - 54 + 1)"
    using False lt k
    unfolding f64_of_nat_def round_frac_def k_def [symmetric] e0 s0 Let_def prod.case
      div_by_1 if_not_P [OF big] s1 round_half_even_1
    by simp
  moreover have "int k - 54 + 1 = - int j" using k by (simp add: j_def)
  ultimately show ?thesis by metis
qed

lemma trunc_fin_exact: "trunc_fin False (n * 2 ^ j) (- int j) = int n"
  by (cases "j = 0") (auto simp: trunc_fin_def signed_mant_def)

lemma f64_as_exact:
  assumes "n < 2 ^ 53" "lo \<le> int n" "int n \<le> hi"
  shows "f64_as lo hi (f64_of_nat n) = int n"
  using f64_of_nat_exact [OF assms(1)] assms(2,3) by (auto simp: trunc_fin_exact clamp_int_def)

lemma f64_as_range: "lo \<le> 0 \<Longrightarrow> 0 \<le> hi \<Longrightarrow> lo \<le> f64_as lo hi x \<and> f64_as lo hi x \<le> hi"
  by (cases x) (auto simp: clamp_int_def)

lemma f64_lt_exact:
  assumes "a < 2 ^ 53" "b < 2 ^ 53"
  shows "f64_lt (f64_of_nat a) (f64_of_nat b) \<longleftrightarrow> a < b"
proof -
  from f64_of_nat_exact [OF assms(1)] f64_of_nat_exact [OF assms(2)] obtain i j where
    ab: "f64_of_nat a = F_Fin False (a * 2 ^ i) (- int i)"
    "f64_of_nat b = F_Fin False (b * 2 ^ j) (- int j)" by auto
  have pw: "int x * 2 ^ l * 2 ^ nat (- int l - min (- int i) (- int j)) = int x * 2 ^ max i j"
    if "l \<le> max i j" for x l
  proof -
    have "nat (- int l - min (- int i) (- int j)) = max i j - l" using that by auto
    then show ?thesis using that by (simp add: power_add [symmetric] mult.assoc)
  qed
  show ?thesis
    by (simp add: ab Let_def signed_mant_def pw [of i a] pw [of j b])
qed

lemma digit_not_sign: "is_ascii_digit c \<Longrightarrow> c \<noteq> CHR ''-'' \<and> c \<noteq> CHR ''+''"
  by (auto simp: is_ascii_digit_def code_def)

lemma lower_digit: "is_ascii_digit c \<Longrightarrow> lower_char c = c"
  by (simp add: is_ascii_digit_def lower_char_def)

lemma parse_f64_dec: "parse_f64 (dec n) = Some (f64_of_nat n)"
proof -
  obtain c cs where c: "dec n = c # cs" "is_ascii_digit c"
    using hd_dec_digit [of n] by (cases "dec n") auto
  then have "\<not> starts_with (dec n) ''-''" "\<not> starts_with (dec n) ''+''"
    using digit_not_sign by (auto simp: starts_with_def)
  moreover have "hd (to_lower (dec n)) = c" using c by (simp add: to_lower_def lower_digit)
  then have "\<not> lower_eq (dec n) ''inf''" "\<not> lower_eq (dec n) ''infinity''" "\<not> lower_eq (dec n) ''nan''"
    using c(2) by (auto simp: lower_eq_def is_ascii_digit_def code_def)
  moreover have "takeWhile is_ascii_digit (dec n) = dec n" "dropWhile is_ascii_digit (dec n) = []"
    using dec_digits [of n] by (auto simp: takeWhile_eq_all_conv)
  ultimately show ?thesis
    by (simp add: parse_f64_def parse_number_def parse_exponent_def Let_def f64_of_nat_def
        starts_with_def del: takeWhile_eq_all_conv dropWhile_eq_Nil_conv)
qed

end
