(* ===== verification/State.thy ===== *)
theory State
  imports Float64 "HOL-Library.AList" "HOL-Library.Multiset"
begin

text \<open>
  The pipeline state of \<open>state.rs\<close>: JSON values, the shared \<open>Context\<close>, node outcomes, checkpoints
  with validation, comparison and sealing.  A hash map whose keys the code lists is an association
  list with distinct keys (\<open>hmap\<close>).  The lock inside \<open>Context\<close> is never poisoned in the model, so
  its operations act on the map.  Timestamps are numbers, the current time is an argument; the JSON
  text (\<open>render\<close>), the serialisation of a checkpoint and SHA-256 are parameters.
\<close>

section \<open>Hash maps with listed keys\<close>

type_synonym 'v hmap = "(string \<times> 'v) list"

definition hm_get :: "'v hmap \<Rightarrow> string \<Rightarrow> 'v option" where
  "hm_get m k = map_of m k"

definition hm_insert :: "string \<Rightarrow> 'v \<Rightarrow> 'v hmap \<Rightarrow> 'v hmap" where
  "hm_insert k v m = AList.update k v m"

definition hm_remove :: "string \<Rightarrow> 'v hmap \<Rightarrow> 'v hmap" where
  "hm_remove k m = AList.delete k m"

definition hm_keys :: "'v hmap \<Rightarrow> string list" where
  "hm_keys m = map fst m"

definition hm_wf :: "'v hmap \<Rightarrow> bool" where
  "hm_wf m \<longleftrightarrow> distinct (map fst m)"

lemma hm_get_insert [simp]: "hm_get (hm_insert k v m) k' = (if k' = k then Some v else hm_get m k')"
  by (simp add: hm_get_def hm_insert_def update_conv)

lemma hm_get_remove [simp]: "hm_get (hm_remove k m) k' = (if k' = k then None else hm_get m k')"
  by (simp add: hm_get_def hm_remove_def delete_conv')

lemma hm_get_Nil [simp]: "hm_get [] k = None"
  by (simp add: hm_get_def)

lemma hm_keys_insert [simp]: "set (hm_keys (hm_insert k v m)) = insert k (set (hm_keys m))"
  by (simp add: hm_keys_def hm_insert_def dom_map_of_conv_image_fst [symmetric] update_conv' insert_commute)

lemma hm_keys_dom: "k \<in> set (hm_keys m) \<longleftrightarrow> hm_get m k \<noteq> None"
  unfolding hm_keys_def hm_get_def by (force simp: map_of_eq_None_iff)

lemma hm_wf_insert [simp]: "hm_wf m \<Longrightarrow> hm_wf (hm_insert k v m)"
  by (simp add: hm_wf_def hm_insert_def distinct_update)

lemma hm_wf_remove [simp]: "hm_wf m \<Longrightarrow> hm_wf (hm_remove k m)"
  by (simp add: hm_wf_def hm_remove_def distinct_delete)

lemma hm_wf_Nil [simp]: "hm_wf []"
  by (simp add: hm_wf_def)

section \<open>JSON values\<close>

datatype json_number = JPosInt nat | JNegInt int | JFloat f64

text \<open>The entries of an object are a \<open>BTreeMap\<close>'s: sorted by key, without repeats.\<close>

datatype json =
    JNull | JBool bool | JNumber json_number | JString string
  | JArray "json list" | JObject "(string \<times> json) list"

text \<open>Inserting into, and collecting into, a \<open>BTreeMap\<close>.\<close>

fun bt_insert :: "string \<Rightarrow> 'v \<Rightarrow> (string \<times> 'v) list \<Rightarrow> (string \<times> 'v) list" where
  "bt_insert k v [] = [(k, v)]"
| "bt_insert k v ((k', v') # m) =
     (if k = k' then (k, v) # m
      else if k < k' then (k, v) # (k', v') # m
      else (k', v') # bt_insert k v m)"

definition bt_collect :: "(string \<times> 'v) list \<Rightarrow> (string \<times> 'v) list" where
  "bt_collect kvs = fold (\<lambda>(k, v). bt_insert k v) kvs []"

fun sort_json_value :: "json \<Rightarrow> json" where
  "sort_json_value (JObject kvs) = JObject (bt_collect (map (\<lambda>(k, v). (k, sort_json_value v)) kvs))"
| "sort_json_value (JArray vs) = JArray (map sort_json_value vs)"
| "sort_json_value other = other"

section \<open>The context\<close>

type_synonym context_map = "json hmap"

definition context_get :: "context_map \<Rightarrow> string \<Rightarrow> json option" where
  "context_get ctx key = hm_get ctx key"

definition context_set :: "string \<Rightarrow> json \<Rightarrow> context_map \<Rightarrow> context_map" where
  "context_set key val ctx = hm_insert key val ctx"

definition context_remove :: "string \<Rightarrow> context_map \<Rightarrow> json option \<times> context_map" where
  "context_remove key ctx = (hm_get ctx key, hm_remove key ctx)"

definition context_get_string :: "context_map \<Rightarrow> string \<Rightarrow> string option" where
  "context_get_string ctx key =
     (case hm_get ctx key of Some (JString s) \<Rightarrow> Some s | _ \<Rightarrow> None)"

definition context_keys :: "context_map \<Rightarrow> string list" where
  "context_keys ctx = hm_keys ctx"

definition json_to_text :: "(json \<Rightarrow> string) \<Rightarrow> json \<Rightarrow> string" where
  "json_to_text render v =
     (case v of
        JString s \<Rightarrow> s
      | JBool b \<Rightarrow> (if b then ''true'' else ''false'')
      | other \<Rightarrow> render other)"

definition to_string_map :: "(json \<Rightarrow> string) \<Rightarrow> context_map \<Rightarrow> string hmap" where
  "to_string_map render ctx = map (\<lambda>(k, v). (k, json_to_text render v)) ctx"

definition snapshot :: "context_map \<Rightarrow> context_map" where
  "snapshot ctx = ctx"

section \<open>Outcomes\<close>

record success_data =
  sd_data :: "json option"
  sd_preferred_label :: "string option"
  sd_suggested_next_ids :: "string list option"
  sd_context_updates :: "json hmap option"
  sd_notes :: "string option"

datatype outcome =
    Success success_data
  | PartialSuccess success_data
  | Failure string bool "string option" \<comment> \<open>error, retryable, notes\<close>
  | Retry string "string option"
  | Skip string "string option"

definition no_data :: success_data where
  "no_data = \<lparr>sd_data = None, sd_preferred_label = None, sd_suggested_next_ids = None,
     sd_context_updates = None, sd_notes = None\<rparr>"

definition success :: outcome where "success = Success no_data"

definition success_with :: "json \<Rightarrow> outcome" where
  "success_with d = Success (no_data\<lparr>sd_data := Some d\<rparr>)"

definition partial_success :: outcome where "partial_success = PartialSuccess no_data"

definition partial_success_with :: "json \<Rightarrow> outcome" where
  "partial_success_with d = PartialSuccess (no_data\<lparr>sd_data := Some d\<rparr>)"

definition failure :: "string \<Rightarrow> outcome" where "failure err = Failure err False None"
definition retryable_failure :: "string \<Rightarrow> outcome" where "retryable_failure err = Failure err True None"
definition retry :: "string \<Rightarrow> outcome" where "retry reason = Retry reason None"
definition skip :: "string \<Rightarrow> outcome" where "skip reason = Skip reason None"

fun with_preferred_label :: "string \<Rightarrow> outcome \<Rightarrow> outcome" where
  "with_preferred_label l (Success d) = Success (d\<lparr>sd_preferred_label := Some l\<rparr>)"
| "with_preferred_label l (PartialSuccess d) = PartialSuccess (d\<lparr>sd_preferred_label := Some l\<rparr>)"
| "with_preferred_label l out = out"

fun with_suggested_next_ids :: "string list \<Rightarrow> outcome \<Rightarrow> outcome" where
  "with_suggested_next_ids ids (Success d) = Success (d\<lparr>sd_suggested_next_ids := Some ids\<rparr>)"
| "with_suggested_next_ids ids (PartialSuccess d) = PartialSuccess (d\<lparr>sd_suggested_next_ids := Some ids\<rparr>)"
| "with_suggested_next_ids ids out = out"

fun with_context_updates :: "json hmap \<Rightarrow> outcome \<Rightarrow> outcome" where
  "with_context_updates u (Success d) = Success (d\<lparr>sd_context_updates := Some u\<rparr>)"
| "with_context_updates u (PartialSuccess d) = PartialSuccess (d\<lparr>sd_context_updates := Some u\<rparr>)"
| "with_context_updates u out = out"

fun with_notes :: "string \<Rightarrow> outcome \<Rightarrow> outcome" where
  "with_notes t (Success d) = Success (d\<lparr>sd_notes := Some t\<rparr>)"
| "with_notes t (PartialSuccess d) = PartialSuccess (d\<lparr>sd_notes := Some t\<rparr>)"
| "with_notes t (Failure e r _) = Failure e r (Some t)"
| "with_notes t (Retry r _) = Retry r (Some t)"
| "with_notes t (Skip r _) = Skip r (Some t)"

fun preferred_label :: "outcome \<Rightarrow> string option" where
  "preferred_label (Success d) = sd_preferred_label d"
| "preferred_label (PartialSuccess d) = sd_preferred_label d"
| "preferred_label _ = None"

fun suggested_next_ids :: "outcome \<Rightarrow> string list option" where
  "suggested_next_ids (Success d) = sd_suggested_next_ids d"
| "suggested_next_ids (PartialSuccess d) = sd_suggested_next_ids d"
| "suggested_next_ids _ = None"

fun context_updates :: "outcome \<Rightarrow> json hmap option" where
  "context_updates (Success d) = sd_context_updates d"
| "context_updates (PartialSuccess d) = sd_context_updates d"
| "context_updates _ = None"

fun outcome_notes :: "outcome \<Rightarrow> string option" where
  "outcome_notes (Success d) = sd_notes d"
| "outcome_notes (PartialSuccess d) = sd_notes d"
| "outcome_notes (Failure _ _ n) = n"
| "outcome_notes (Retry _ n) = n"
| "outcome_notes (Skip _ n) = n"

fun is_success :: "outcome \<Rightarrow> bool" where
  "is_success (Success _) = True"
| "is_success (PartialSuccess _) = True"
| "is_success _ = False"

fun is_failure :: "outcome \<Rightarrow> bool" where
  "is_failure (Failure _ _ _) = True"
| "is_failure _ = False"

fun is_retryable :: "outcome \<Rightarrow> bool" where
  "is_retryable (Failure _ r _) = r"
| "is_retryable (Retry _ _) = True"
| "is_retryable _ = False"

section \<open>Checkpoints\<close>

datatype checkpoint_version = V1

definition from_u32 :: "32 word \<Rightarrow> checkpoint_version option" where
  "from_u32 v = (if v = 1 then Some V1 else None)"

fun as_u32 :: "checkpoint_version \<Rightarrow> 32 word" where
  "as_u32 V1 = 1"

record checkpoint =
  cp_version :: "32 word"
  cp_pipeline_name :: string
  cp_current_node :: string
  cp_visited_nodes :: "string list"
  cp_context_snapshot :: context_map
  cp_node_outcomes :: "outcome hmap"
  cp_created_at :: nat
  cp_node_index :: nat

record checkpoint_diff =
  cd_context_added :: "string list"
  cd_context_removed :: "string list"
  cd_context_changed :: "string list"
  cd_nodes_added :: "string list"
  cd_nodes_removed :: "string list"
  cd_node_index_delta :: int

datatype state_error =
    DeserializationError string
  | SerializationError string
  | IoError
  | NotFound string
  | ValidationError string

definition current_version :: checkpoint_version where
  "current_version = V1"

text \<open>
  \<open>CheckpointMigrator::migrate\<close>: \<open>as u32\<close> keeps the low 32 bits of the stored version; the typed
  deserialisation is the parameter \<open>from_value\<close>.
\<close>

definition stored_version :: "json \<Rightarrow> nat" where
  "stored_version raw =
     (case raw of
        JObject kvs \<Rightarrow> (case map_of kvs ''version'' of Some (JNumber (JPosInt n)) \<Rightarrow> n | _ \<Rightarrow> 1)
      | _ \<Rightarrow> 1)"

definition migrate :: "(json \<Rightarrow> string + checkpoint) \<Rightarrow> json \<Rightarrow> state_error + checkpoint" where
  "migrate from_value raw =
     (let version_num = (word_of_nat (stored_version raw) :: 32 word) in
      case from_u32 version_num of
        None \<Rightarrow> Inl (DeserializationError (''unknown checkpoint version: '' @ dec (unat version_num)))
      | Some _ \<Rightarrow> (case from_value raw of
                     Inl e \<Rightarrow> Inl (DeserializationError e)
                   | Inr cp \<Rightarrow> Inr cp))"

definition checkpoint_new :: "nat \<Rightarrow> string \<Rightarrow> string \<Rightarrow> context_map \<Rightarrow> checkpoint" where
  "checkpoint_new now pipeline_name current_node ctx =
     \<lparr>cp_version = 1, cp_pipeline_name = pipeline_name, cp_current_node = current_node,
      cp_visited_nodes = [], cp_context_snapshot = snapshot ctx, cp_node_outcomes = [],
      cp_created_at = now, cp_node_index = 0\<rparr>"

definition add_outcome :: "string \<Rightarrow> outcome \<Rightarrow> checkpoint \<Rightarrow> checkpoint" where
  "add_outcome node_id out cp = cp\<lparr>cp_node_outcomes := hm_insert node_id out (cp_node_outcomes cp)\<rparr>"

definition mark_visited :: "string \<Rightarrow> checkpoint \<Rightarrow> checkpoint" where
  "mark_visited node_id cp =
     (if node_id \<in> set (cp_visited_nodes cp) then cp
      else cp\<lparr>cp_visited_nodes := cp_visited_nodes cp @ [node_id]\<rparr>)"

definition was_visited :: "string \<Rightarrow> checkpoint \<Rightarrow> bool" where
  "was_visited node_id cp \<longleftrightarrow> list_ex (\<lambda>n. n = node_id) (cp_visited_nodes cp)"

definition validate_checkpoint :: "checkpoint \<Rightarrow> state_error + unit" where
  "validate_checkpoint cp =
     (if from_u32 (cp_version cp) = None
      then Inl (ValidationError (''unknown checkpoint version: '' @ dec (unat (cp_version cp))))
      else if cp_current_node cp \<notin> set (cp_visited_nodes cp)
      then Inl (ValidationError (''current_node '' @ [CHR 0x27] @ cp_current_node cp @ [CHR 0x27] @
             '' is not in visited_nodes''))
      else Inr ())"

text \<open>\<open>BTreeSet\<close>s as sorted lists without repeats, and their difference and intersection.\<close>

definition btree_set :: "string list \<Rightarrow> string list" where
  "btree_set xs = sort (remdups xs)"

definition bt_difference :: "string list \<Rightarrow> string list \<Rightarrow> string list" where
  "bt_difference a b = filter (\<lambda>x. x \<notin> set b) a"

definition bt_intersection :: "string list \<Rightarrow> string list \<Rightarrow> string list" where
  "bt_intersection a b = filter (\<lambda>x. x \<in> set b) a"

text \<open>\<open>a as i64 - b as i64\<close> on \<open>u64\<close>s, wrapping at 64 bits.\<close>

definition to_i64 :: "int \<Rightarrow> int" where
  "to_i64 x = (x + 2 ^ 63) mod 2 ^ 64 - 2 ^ 63"

definition index_delta :: "nat \<Rightarrow> nat \<Rightarrow> int" where
  "index_delta a b = to_i64 (to_i64 (int a) - to_i64 (int b))"

definition checkpoint_diff :: "checkpoint \<Rightarrow> checkpoint \<Rightarrow> checkpoint_diff" where
  "checkpoint_diff self other =
     (let self_ctx_keys = btree_set (hm_keys (cp_context_snapshot self));
          other_ctx_keys = btree_set (hm_keys (cp_context_snapshot other));
          self_visited = btree_set (cp_visited_nodes self);
          other_visited = btree_set (cp_visited_nodes other) in
      \<lparr>cd_context_added = sort (bt_difference other_ctx_keys self_ctx_keys),
       cd_context_removed = sort (bt_difference self_ctx_keys other_ctx_keys),
       cd_context_changed = sort (filter
          (\<lambda>k. hm_get (cp_context_snapshot self) k \<noteq> hm_get (cp_context_snapshot other) k)
          (bt_intersection self_ctx_keys other_ctx_keys)),
       cd_nodes_added = sort (bt_difference other_visited self_visited),
       cd_nodes_removed = sort (bt_difference self_visited other_visited),
       cd_node_index_delta = index_delta (cp_node_index other) (cp_node_index self)\<rparr>)"

definition diff_is_empty :: "checkpoint_diff \<Rightarrow> bool" where
  "diff_is_empty d \<longleftrightarrow> cd_context_added d = [] \<and> cd_context_removed d = [] \<and> cd_context_changed d = [] \<and>
     cd_nodes_added d = [] \<and> cd_nodes_removed d = [] \<and> cd_node_index_delta d = 0"

text \<open>Sealed checkpoints; \<open>digest\<close> is SHA-256 in hex, \<open>to_value\<close> the serialisation.\<close>

record checkpoint_envelope =
  env_checkpoint :: checkpoint
  env_checksum :: string
  env_created_by :: string
  env_format_version :: "32 word"

definition compute_checksum ::
  "(string \<Rightarrow> string) \<Rightarrow> (json \<Rightarrow> string) \<Rightarrow> (checkpoint \<Rightarrow> json) \<Rightarrow> checkpoint \<Rightarrow> string" where
  "compute_checksum digest render to_value cp = digest (render (sort_json_value (to_value cp)))"

definition seal ::
  "(string \<Rightarrow> string) \<Rightarrow> (json \<Rightarrow> string) \<Rightarrow> (checkpoint \<Rightarrow> json) \<Rightarrow> string \<Rightarrow> checkpoint \<Rightarrow> checkpoint_envelope" where
  "seal digest render to_value version cp =
     \<lparr>env_checkpoint = cp, env_checksum = compute_checksum digest render to_value cp,
      env_created_by = ''smasher-engine/'' @ version, env_format_version = 1\<rparr>"

definition verify ::
  "(string \<Rightarrow> string) \<Rightarrow> (json \<Rightarrow> string) \<Rightarrow> (checkpoint \<Rightarrow> json) \<Rightarrow> checkpoint_envelope \<Rightarrow> bool" where
  "verify digest render to_value env \<longleftrightarrow>
     compute_checksum digest render to_value (env_checkpoint env) = env_checksum env"

definition open_envelope ::
  "(string \<Rightarrow> string) \<Rightarrow> (json \<Rightarrow> string) \<Rightarrow> (checkpoint \<Rightarrow> json) \<Rightarrow> checkpoint_envelope \<Rightarrow>
   state_error + checkpoint" where
  "open_envelope digest render to_value env =
     (if \<not> verify digest render to_value env
      then Inl (ValidationError ''checksum mismatch: checkpoint data may have been tampered with'')
      else Inr (env_checkpoint env))"

section \<open>Canonical JSON\<close>

text \<open>
  Two values that differ only in the order in which the entries of their objects are listed.  Such
  lists arise from iterating over a \<open>HashMap\<close>; the keys of each object are distinct.
\<close>

inductive json_perm :: "json \<Rightarrow> json \<Rightarrow> bool" where
  jp_refl: "json_perm v v"
| jp_array: "list_all2 json_perm vs ws \<Longrightarrow> json_perm (JArray vs) (JArray ws)"
| jp_object: "distinct (map fst kvs) \<Longrightarrow> mset (map fst kvs) = mset (map fst kws) \<Longrightarrow>
    (\<And>k v w. (k, v) \<in> set kvs \<Longrightarrow> (k, w) \<in> set kws \<Longrightarrow> json_perm v w) \<Longrightarrow>
    json_perm (JObject kvs) (JObject kws)"

lemma bt_insert_props:
  "sorted_wrt (<) (map fst m) \<Longrightarrow>
     sorted_wrt (<) (map fst (bt_insert k v m)) \<and>
     map_of (bt_insert k v m) = (map_of m)(k \<mapsto> v) \<and>
     set (map fst (bt_insert k v m)) = insert k (set (map fst m))"
  by (induction k v m rule: bt_insert.induct) (auto simp: fun_eq_iff)

lemma bt_fold_props:
  "sorted_wrt (<) (map fst m) \<Longrightarrow>
     sorted_wrt (<) (map fst (fold (\<lambda>(k, v). bt_insert k v) kvs m)) \<and>
     map_of (fold (\<lambda>(k, v). bt_insert k v) kvs m) = map_of m ++ map_of (rev kvs)"
proof (induction kvs arbitrary: m)
  case (Cons kv kvs)
  obtain k v where kv: "kv = (k, v)" by force
  from bt_insert_props [OF Cons.prems, of k v]
  have s: "sorted_wrt (<) (map fst (bt_insert k v m))" "map_of (bt_insert k v m) = (map_of m)(k \<mapsto> v)"
    by auto
  from Cons.IH [OF s(1)] show ?case
    unfolding kv fold_simps o_apply prod.case s(2)
    by (simp add: map_add_assoc map_add_upd del: fun_upd_apply)
qed simp

lemma bt_collect_props:
  "sorted_wrt (<) (map fst (bt_collect kvs))" "map_of (bt_collect kvs) = map_of (rev kvs)"
  using bt_fold_props [of "[]" kvs] by (simp_all add: bt_collect_def)

text \<open>A sorted association list is determined by its map.\<close>

lemma sorted_alist_unique:
  assumes "sorted_wrt (<) (map fst xs)" "sorted_wrt (<) (map fst ys)" "map_of xs = map_of (ys :: (string \<times> 'v) list)"
  shows "xs = ys"
proof -
  have d: "distinct (map fst xs)" "distinct (map fst ys)"
    using assms(1,2) by (auto simp: strict_sorted_iff)
  have "set (map fst xs) = set (map fst ys)"
    using assms(3) by (metis dom_map_of_conv_image_fst set_map)
  then have "map fst xs = map fst ys"
    using assms(1,2) by (intro sorted_distinct_set_unique) (auto simp: strict_sorted_iff)
  moreover have "zs = map (\<lambda>k. (k, the (map_of zs k))) (map fst zs)" if "distinct (map fst zs)" for zs :: "(string \<times> 'v) list"
  proof -
    have "(fst p, the (map_of zs (fst p))) = p" if "p \<in> set zs" for p
      using map_of_is_SomeI [OF \<open>distinct (map fst zs)\<close>, of "fst p" "snd p"] that by simp
    then show ?thesis by (simp add: map_idI)
  qed
  ultimately show ?thesis using d assms(3) by metis
qed

lemma distinct_map_of_rev: "distinct (map fst kvs) \<Longrightarrow> map_of (rev kvs) = map_of kvs"
  by (simp add: map_of_inject_set rev_map [symmetric])

text \<open>Sorting forgets the listing order.\<close>

lemma sort_json_value_perm: "json_perm v w \<Longrightarrow> sort_json_value v = sort_json_value w"
proof (induction rule: json_perm.induct)
  case (jp_array vs ws)
  then have "list_all2 (\<lambda>v w. sort_json_value v = sort_json_value w) vs ws"
    by (auto elim: list_all2_mono)
  then show ?case by (simp add: list_all2_conv_all_nth list_eq_iff_nth_eq)
next
  case (jp_object kvs kws)
  let ?s = "map (\<lambda>(k, v). (k, sort_json_value v))"
  have f: "map fst (?s xs) = map fst xs" for xs :: "(string \<times> json) list"
    by (simp add: o_def case_prod_beta)
  have d: "distinct (map fst kws)" using jp_object(1,2) by (metis mset_eq_imp_distinct_iff)
  have m: "map_of (?s xs) k = map_option sort_json_value (map_of xs k)" for xs k
    by (simp add: map_of_map [unfolded comp_def])
  have ks: "set (map fst kvs) = set (map fst kws)" using jp_object(2) by (rule mset_eq_setD)
  have "map_of (?s kvs) k = map_of (?s kws) k" for k
  proof (cases "map_of kvs k")
    case None
    then have "map_of kws k = None" using ks by (auto simp: map_of_eq_None_iff)
    with None show ?thesis by (simp add: m)
  next
    case (Some v)
    then obtain w where w: "map_of kws k = Some w"
      using ks by (metis map_of_eq_None_iff not_None_eq set_map)
    with Some jp_object(4) show ?thesis by (auto simp: m dest!: map_of_SomeD)
  qed
  then have "map_of (rev (?s kvs)) = map_of (rev (?s kws))"
    using jp_object(1) d distinct_map_of_rev [of "?s kvs"] distinct_map_of_rev [of "?s kws"]
    unfolding f by (simp add: fun_eq_iff)
  then have "bt_collect (?s kvs) = bt_collect (?s kws)"
    by (intro sorted_alist_unique) (simp_all add: bt_collect_props)
  then show ?case by simp
qed simp

lemma bt_collect_sorted:
  "sorted_wrt (<) (map fst kvs) \<Longrightarrow> bt_collect kvs = (kvs :: (string \<times> 'v) list)"
  using strict_sorted_iff [of "map fst kvs"]
  by (intro sorted_alist_unique) (simp_all add: bt_collect_props distinct_map_of_rev)

lemma sort_json_value_idem: "sort_json_value (sort_json_value v) = sort_json_value v"
proof (induction v rule: sort_json_value.induct)
  case (1 kvs)
  let ?s = "map (\<lambda>(k, v). (k, sort_json_value v))"
  have vals: "x \<in> snd ` set m \<or> x = v" if "x \<in> snd ` set (bt_insert k v m)" for x k v and m :: "(string \<times> json) list"
    using that by (induction k v m rule: bt_insert.induct) (auto split: if_splits)
  have fold: "snd ` set (fold (\<lambda>(k, v). bt_insert k v) xs m) \<subseteq> snd ` set m \<union> snd ` set xs"
    for xs m :: "(string \<times> json) list"
  proof (induction xs arbitrary: m)
    case (Cons x xs)
    obtain k v where x: "x = (k, v)" by force
    have "snd ` set (bt_insert k v m) \<subseteq> insert v (snd ` set m)" using vals by blast
    with Cons [of "bt_insert k v m"] show ?case by (auto simp: x)
  qed simp
  have "sort_json_value x = x" if "x \<in> snd ` set (?s kvs)" for x
  proof -
    from that obtain k v where "(k, v) \<in> set kvs" "x = sort_json_value v" by auto
    with 1 [of "(k, v)" k v] show ?thesis by simp
  qed
  moreover have "snd ` set (bt_collect (?s kvs)) \<subseteq> snd ` set (?s kvs)"
    using fold [of "?s kvs" "[]"] by (simp only: bt_collect_def list.set image_empty Un_empty_left)
  ultimately have "sort_json_value (snd p) = snd p" if "p \<in> set (bt_collect (?s kvs))" for p
    using that by blast
  then have "?s (bt_collect (?s kvs)) = bt_collect (?s kvs)"
    by (intro map_idI) (simp add: case_prod_beta)
  then show ?case by (simp add: bt_collect_sorted bt_collect_props)
qed (auto simp: map_idI)

section \<open>The laws of a key-value store\<close>

text \<open>
  What the engine, the goal gates and the stylesheet rely on of the maps they read and write.
\<close>

locale kv_store =
  fixes get :: "'s \<Rightarrow> string \<Rightarrow> 'v option"
    and put :: "string \<Rightarrow> 'v \<Rightarrow> 's \<Rightarrow> 's"
    and del :: "string \<Rightarrow> 's \<Rightarrow> 's"
  assumes get_put: "get (put k v s) k' = (if k' = k then Some v else get s k')"
    and get_del: "get (del k s) k' = (if k' = k then None else get s k')"
begin

lemma get_fold_put:
  "get (fold (\<lambda>(k, v). put k v) kvs s) k' =
     (case map_of (rev kvs) k' of Some v \<Rightarrow> Some v | None \<Rightarrow> get s k')"
proof (induction kvs arbitrary: s)
  case (Cons kv kvs)
  then show ?case
    by (cases kv) (auto simp: get_put map_add_def split: option.split)
qed simp

lemma get_fold_del:
  "get (fold del ks s) k' = (if k' \<in> set ks then None else get s k')"
  by (induction ks arbitrary: s) (auto simp: get_del)

lemma put_put_commute:
  "k \<noteq> j \<Longrightarrow> get (put k v (put j w s)) = get (put j w (put k v s))"
  by (rule ext) (simp add: get_put)

end

interpretation ctx: kv_store context_get context_set "\<lambda>k c. snd (context_remove k c)"
  by unfold_locales (auto simp: context_get_def context_set_def context_remove_def)

interpretation hm: kv_store hm_get hm_insert hm_remove
  by unfold_locales auto

section \<open>Properties\<close>

lemma btree_set_props:
  "set (btree_set xs) = set xs" "sorted (btree_set xs)" "distinct (btree_set xs)"
  by (simp_all add: btree_set_def)

lemma to_i64_mod: "to_i64 x mod 2 ^ 64 = x mod 2 ^ 64"
  by (simp add: to_i64_def mod_diff_left_eq)

lemma to_i64_eq_0: "to_i64 x = 0 \<longleftrightarrow> x mod 2 ^ 64 = 0"
proof
  assume "to_i64 x = 0"
  then show "x mod 2 ^ 64 = 0" using to_i64_mod [of x] by simp
next
  assume "x mod 2 ^ 64 = 0"
  then have "(x + 2 ^ 63) mod 2 ^ 64 = 2 ^ 63 mod 2 ^ 64" by (metis add_0 mod_add_left_eq)
  then show "to_i64 x = 0" by (simp add: to_i64_def)
qed

lemma index_delta_zero:
  assumes "a < 2 ^ 64" "b < 2 ^ 64"
  shows "index_delta a b = 0 \<longleftrightarrow> a = b"
proof -
  have "index_delta a b = 0 \<longleftrightarrow> (to_i64 (int a) - to_i64 (int b)) mod 2 ^ 64 = 0"
    by (simp only: index_delta_def to_i64_eq_0)
  also have "(to_i64 (int a) - to_i64 (int b)) mod 2 ^ 64 = (int a - int b) mod 2 ^ 64"
    by (metis mod_diff_eq to_i64_mod)
  also have "(int a - int b) mod 2 ^ 64 = 0 \<longleftrightarrow> int a mod 2 ^ 64 = int b mod 2 ^ 64"
    by (simp only: mod_eq_dvd_iff mod_eq_0_iff_dvd)
  also have "\<dots> \<longleftrightarrow> a = b"
    using assms by simp
  finally show ?thesis .
qed

lemma bt_difference_Nil: "bt_difference (btree_set xs) (btree_set ys) = [] \<longleftrightarrow> set xs \<subseteq> set ys"
  by (auto simp: bt_difference_def filter_empty_conv btree_set_props)

lemma sort_Nil_iff: "sort xs = [] \<longleftrightarrow> xs = ([] :: string list)"
  by (metis length_0_conv length_sort)

text \<open>Serialising in canonical form forgets the iteration order of hash maps: values that differ
  only in the listing order of object entries, at any depth, have one canonical form, and that
  form is already canonical.\<close>

theorem canonical_json:
  "(json_perm v w \<longrightarrow> sort_json_value v = sort_json_value w) \<and>
   sort_json_value (sort_json_value v) = sort_json_value v"
  using sort_json_value_perm sort_json_value_idem by blast

theorem canonical_json_witness:
  "sort_json_value (JObject [(''b'', JNull), (''a'', JBool True)]) =
   sort_json_value (JObject [(''a'', JBool True), (''b'', JNull)])"
proof -
  have "json_perm (JObject [(''b'', JNull), (''a'', JBool True)]) (JObject [(''a'', JBool True), (''b'', JNull)])"
    by (rule jp_object) (auto intro: jp_refl)
  then show ?thesis using canonical_json by blast
qed

text \<open>The difference of two checkpoints is empty exactly when they agree on the context as a map, on
  the set of visited nodes and on the node index; the wrap-around of the \<open>i64\<close> subtraction never
  hides a change.\<close>

theorem diff_is_empty_iff:
  assumes "cp_node_index a < 2 ^ 64" "cp_node_index b < 2 ^ 64"
  shows "diff_is_empty (checkpoint_diff a b) \<longleftrightarrow>
    hm_get (cp_context_snapshot a) = hm_get (cp_context_snapshot b) \<and>
    set (cp_visited_nodes a) = set (cp_visited_nodes b) \<and> cp_node_index a = cp_node_index b"
proof -
  let ?ka = "hm_keys (cp_context_snapshot a)" and ?kb = "hm_keys (cp_context_snapshot b)"
  let ?ga = "hm_get (cp_context_snapshot a)" and ?gb = "hm_get (cp_context_snapshot b)"
  have ctx: "set ?kb \<subseteq> set ?ka \<and> set ?ka \<subseteq> set ?kb \<and>
      filter (\<lambda>k. ?ga k \<noteq> ?gb k) (bt_intersection (btree_set ?ka) (btree_set ?kb)) = [] \<longleftrightarrow> ?ga = ?gb"
    (is "?L \<longleftrightarrow> _")
  proof
    assume L: ?L
    show "?ga = ?gb"
    proof
      fix k
      have "k \<in> set ?ka \<longleftrightarrow> k \<in> set ?kb" using L by blast
      moreover have "?ga k = ?gb k" if "k \<in> set ?ka" "k \<in> set ?kb"
        using L that by (auto simp: filter_empty_conv bt_intersection_def btree_set_props)
      ultimately show "?ga k = ?gb k" using hm_keys_dom by metis
    qed
  next
    assume "?ga = ?gb"
    then show ?L by (auto simp: filter_empty_conv hm_keys_dom)
  qed
  have idx: "index_delta (cp_node_index b) (cp_node_index a) = 0 \<longleftrightarrow> cp_node_index a = cp_node_index b"
    using index_delta_zero [OF assms(2,1)] by auto
  show ?thesis
    unfolding diff_is_empty_def checkpoint_diff_def Let_def checkpoint_diff.simps sort_Nil_iff
      bt_difference_Nil idx ctx [symmetric]
    by blast
qed

theorem diff_is_empty_iff_witness:
  "diff_is_empty (checkpoint_diff
     (checkpoint_new 0 ''p'' ''a'' [(''k'', JNull), (''l'', JNull)])
     (checkpoint_new 1 ''q'' ''b'' [(''l'', JNull), (''k'', JNull)]))"
proof -
  let ?a = "checkpoint_new 0 ''p'' ''a'' [(''k'', JNull), (''l'', JNull)]"
    and ?b = "checkpoint_new 1 ''q'' ''b'' [(''l'', JNull), (''k'', JNull)]"
  have "hm_get (cp_context_snapshot ?a) = hm_get (cp_context_snapshot ?b)"
    "set (cp_visited_nodes ?a) = set (cp_visited_nodes ?b)"
    "cp_node_index ?a < 2 ^ 64" "cp_node_index ?b < 2 ^ 64" "cp_node_index ?a = cp_node_index ?b"
    by (auto simp: checkpoint_new_def snapshot_def hm_get_def)
  then show ?thesis using diff_is_empty_iff [of ?a ?b] by blast
qed

text \<open>Opening an envelope succeeds exactly when the checksum is the digest of the canonical form, with
  the checkpoint inside; a sealed checkpoint opens to itself, and one that was replaced by a
  checkpoint with another digest is refused.\<close>

theorem envelope_integrity:
  "open_envelope digest render to_value (seal digest render to_value v cp) = Inr cp \<and>
   (open_envelope digest render to_value ((seal digest render to_value v cp)\<lparr>env_checkpoint := cp'\<rparr>) =
      (if digest (render (sort_json_value (to_value cp'))) = digest (render (sort_json_value (to_value cp)))
       then Inr cp'
       else Inl (ValidationError ''checksum mismatch: checkpoint data may have been tampered with'')))"
  by (simp add: open_envelope_def seal_def verify_def compute_checksum_def)

end
