(* ===== verification/Run_Store.thy ===== *)
theory Run_Store
  imports State
begin

text \<open>
  Run stores and run queries of \<open>state.rs\<close>.  The contract of the \<open>RunStore\<close> trait is the locale
  \<open>run_store\<close>, stated over the checkpoints and the metadata a store holds; it is proved for the
  in-memory store and for the filesystem store.  A file holds a text; how serde writes and reads
  values is a parameter.  The filesystem store is modelled for run ids that are plain directory names
  (\<open>plain_id\<close>): the code joins the id to the base directory as a path.  I/O errors other than a
  missing file or directory, or a file in the place of a directory, do not occur.
\<close>

datatype run_status = StRunning | StCompleted | StFailed | StAborted

record run_metadata =
  rm_run_id :: string
  rm_graph_name :: string
  rm_started_at :: nat
  rm_completed_at :: "nat option"
  rm_status :: run_status
  rm_total_nodes_executed :: nat
  rm_variables :: "string hmap"

datatype node_status =
    NodePending
  | NodeRunning
  | NodeDone outcome
  | NodeSkipped string
  | NodeFailedWith string "32 word" \<comment> \<open>error, attempts\<close>

section \<open>Queries\<close>

record run_query =
  rq_status :: "run_status option"
  rq_graph_name :: "string option"
  rq_since :: "nat option"
  rq_limit :: "nat option"

definition run_query_new :: run_query where
  "run_query_new = \<lparr>rq_status = None, rq_graph_name = None, rq_since = None, rq_limit = None\<rparr>"

definition query_status :: "run_status \<Rightarrow> run_query \<Rightarrow> run_query" where
  "query_status st q = q\<lparr>rq_status := Some st\<rparr>"

definition query_graph_name :: "string \<Rightarrow> run_query \<Rightarrow> run_query" where
  "query_graph_name n q = q\<lparr>rq_graph_name := Some n\<rparr>"

definition query_since :: "nat \<Rightarrow> run_query \<Rightarrow> run_query" where
  "query_since t q = q\<lparr>rq_since := Some t\<rparr>"

definition query_limit :: "nat \<Rightarrow> run_query \<Rightarrow> run_query" where
  "query_limit n q = q\<lparr>rq_limit := Some n\<rparr>"

definition retain_opt :: "'a option \<Rightarrow> ('a \<Rightarrow> 'b \<Rightarrow> bool) \<Rightarrow> 'b list \<Rightarrow> 'b list" where
  "retain_opt opt P xs = (case opt of Some a \<Rightarrow> filter (P a) xs | None \<Rightarrow> xs)"

definition query_execute :: "run_query \<Rightarrow> state_error + run_metadata list \<Rightarrow> state_error + run_metadata list" where
  "query_execute q listed =
     res_bind listed (\<lambda>runs.
       (let runs1 = retain_opt (rq_status q) (\<lambda>st r. rm_status r = st) runs;
            runs2 = retain_opt (rq_graph_name q) (\<lambda>n r. rm_graph_name r = n) runs1;
            runs3 = retain_opt (rq_since q) (\<lambda>t r. rm_started_at r \<ge> t) runs2
        in Inr (case rq_limit q of Some n \<Rightarrow> take n runs3 | None \<Rightarrow> runs3)))"

definition newest_first :: "run_metadata list \<Rightarrow> run_metadata list" where
  \<comment> \<open>the stable \<open>sort_by(|a, b| b.started_at.cmp(&a.started_at))\<close>\<close>
  "newest_first xs = sort_key (\<lambda>r. - int (rm_started_at r)) xs"

section \<open>The in-memory store\<close>

record mem_store =
  ms_checkpoints :: "checkpoint hmap"
  ms_metadata :: "run_metadata hmap"

definition mem_new :: mem_store where
  "mem_new = \<lparr>ms_checkpoints = [], ms_metadata = []\<rparr>"

definition mem_save_checkpoint :: "string \<Rightarrow> checkpoint \<Rightarrow> mem_store \<Rightarrow> (state_error + unit) \<times> mem_store" where
  "mem_save_checkpoint i cp s = (Inr (), s\<lparr>ms_checkpoints := hm_insert i cp (ms_checkpoints s)\<rparr>)"

definition mem_load_checkpoint :: "string \<Rightarrow> mem_store \<Rightarrow> state_error + checkpoint option" where
  "mem_load_checkpoint i s = Inr (hm_get (ms_checkpoints s) i)"

definition mem_list_runs :: "mem_store \<Rightarrow> state_error + string list" where
  "mem_list_runs s = Inr (sort (hm_keys (ms_checkpoints s)))"

definition mem_delete_run :: "string \<Rightarrow> mem_store \<Rightarrow> (state_error + unit) \<times> mem_store" where
  "mem_delete_run i s =
     (let removed = hm_get (ms_checkpoints s) i \<noteq> None;
          s1 = s\<lparr>ms_checkpoints := hm_remove i (ms_checkpoints s)\<rparr>;
          meta_removed = hm_get (ms_metadata s1) i \<noteq> None;
          s2 = s1\<lparr>ms_metadata := hm_remove i (ms_metadata s1)\<rparr>
      in (if removed \<or> meta_removed then Inr () else Inl (NotFound i), s2))"

definition mem_save_metadata :: "string \<Rightarrow> run_metadata \<Rightarrow> mem_store \<Rightarrow> (state_error + unit) \<times> mem_store" where
  "mem_save_metadata i m s = (Inr (), s\<lparr>ms_metadata := hm_insert i m (ms_metadata s)\<rparr>)"

definition mem_load_metadata :: "string \<Rightarrow> mem_store \<Rightarrow> state_error + run_metadata" where
  "mem_load_metadata i s = (case hm_get (ms_metadata s) i of Some m \<Rightarrow> Inr m | None \<Rightarrow> Inl (NotFound i))"

definition mem_list_metadata :: "mem_store \<Rightarrow> state_error + run_metadata list" where
  "mem_list_metadata s = Inr (newest_first (map snd (ms_metadata s)))"

section \<open>The filesystem store\<close>

text \<open>\<open>serde_json\<close>: writing gives the text or an error message, and so does reading a value.\<close>

record json_codec =
  jc_write_checkpoint :: "checkpoint \<Rightarrow> string + string"
  jc_read_checkpoint :: "string \<Rightarrow> string + checkpoint"
  jc_write_metadata :: "run_metadata \<Rightarrow> string + string"
  jc_read_metadata :: "string \<Rightarrow> string + run_metadata"

record run_dir =
  rd_checkpoint :: "string option"
  rd_metadata :: "string option"

datatype dir_entry = RunDir run_dir | PlainFile

text \<open>The base directory, in the order \<open>read_dir\<close> lists it; \<open>None\<close> before the first write.\<close>

type_synonym fs_store = "dir_entry hmap option"

definition fs_new :: fs_store where
  "fs_new = None"

definition fs_entry :: "fs_store \<Rightarrow> string \<Rightarrow> dir_entry option" where
  "fs_entry s i = (case s of None \<Rightarrow> None | Some m \<Rightarrow> hm_get m i)"

text \<open>A run id that names a directory in the base directory.\<close>

definition plain_id :: "string \<Rightarrow> bool" where
  "plain_id i \<longleftrightarrow> i \<noteq> [] \<and> i \<noteq> ''.'' \<and> i \<noteq> ''..'' \<and> CHR ''/'' \<notin> set i \<and> CHR 0x00 \<notin> set i \<and> length i \<le> 255"

text \<open>\<open>create_dir_all\<close> of the run's directory, then the JSON, then a write into the directory.\<close>

definition fs_write :: "string \<Rightarrow> string + string \<Rightarrow> (string \<Rightarrow> run_dir \<Rightarrow> run_dir) \<Rightarrow> fs_store \<Rightarrow> (state_error + unit) \<times> fs_store" where
  "fs_write i json upd s =
     (let m = (case s of None \<Rightarrow> [] | Some m \<Rightarrow> m) in
      case hm_get m i of
        Some PlainFile \<Rightarrow> (Inl IoError, Some m)
      | e \<Rightarrow>
          (let d = (case e of Some (RunDir d) \<Rightarrow> d | _ \<Rightarrow> \<lparr>rd_checkpoint = None, rd_metadata = None\<rparr>) in
           case json of
             Inl msg \<Rightarrow> (Inl (SerializationError msg), Some (hm_insert i (RunDir d) m))
           | Inr t \<Rightarrow> (Inr (), Some (hm_insert i (RunDir (upd t d)) m))))"

definition fs_save_checkpoint :: "json_codec \<Rightarrow> string \<Rightarrow> checkpoint \<Rightarrow> fs_store \<Rightarrow> (state_error + unit) \<times> fs_store" where
  "fs_save_checkpoint k i cp s = fs_write i (jc_write_checkpoint k cp) (\<lambda>t d. d\<lparr>rd_checkpoint := Some t\<rparr>) s"

definition fs_load_checkpoint :: "json_codec \<Rightarrow> string \<Rightarrow> fs_store \<Rightarrow> state_error + checkpoint option" where
  "fs_load_checkpoint k i s =
     (case fs_entry s i of
        None \<Rightarrow> Inr None
      | Some PlainFile \<Rightarrow> Inl IoError
      | Some (RunDir d) \<Rightarrow>
          (case rd_checkpoint d of
             None \<Rightarrow> Inr None
           | Some t \<Rightarrow>
               (case jc_read_checkpoint k t of Inl e \<Rightarrow> Inl (DeserializationError e) | Inr cp \<Rightarrow> Inr (Some cp))))"

definition fs_list_runs :: "fs_store \<Rightarrow> state_error + string list" where
  "fs_list_runs s =
     (case s of
        None \<Rightarrow> Inr []
      | Some m \<Rightarrow> Inr (sort (map fst (filter
          (\<lambda>(i, e). case e of RunDir d \<Rightarrow> rd_checkpoint d \<noteq> None | PlainFile \<Rightarrow> False) m))))"

definition fs_delete_run :: "string \<Rightarrow> fs_store \<Rightarrow> (state_error + unit) \<times> fs_store" where
  "fs_delete_run i s =
     (case fs_entry s i of
        None \<Rightarrow> (Inl (NotFound i), s)
      | Some PlainFile \<Rightarrow> (Inl IoError, s)
      | Some (RunDir d) \<Rightarrow> (Inr (), map_option (hm_remove i) s))"

definition fs_save_metadata :: "json_codec \<Rightarrow> string \<Rightarrow> run_metadata \<Rightarrow> fs_store \<Rightarrow> (state_error + unit) \<times> fs_store" where
  "fs_save_metadata k i m s = fs_write i (jc_write_metadata k m) (\<lambda>t d. d\<lparr>rd_metadata := Some t\<rparr>) s"

definition fs_load_metadata :: "json_codec \<Rightarrow> string \<Rightarrow> fs_store \<Rightarrow> state_error + run_metadata" where
  "fs_load_metadata k i s =
     (case fs_entry s i of
        None \<Rightarrow> Inl (NotFound i)
      | Some PlainFile \<Rightarrow> Inl IoError
      | Some (RunDir d) \<Rightarrow>
          (case rd_metadata d of
             None \<Rightarrow> Inl (NotFound i)
           | Some t \<Rightarrow> (case jc_read_metadata k t of Inl e \<Rightarrow> Inl (DeserializationError e) | Inr m \<Rightarrow> Inr m)))"

fun dir_metadata :: "json_codec \<Rightarrow> dir_entry \<Rightarrow> run_metadata option" where
  "dir_metadata k (RunDir d) =
     Option.bind (rd_metadata d) (\<lambda>t. case jc_read_metadata k t of Inl e \<Rightarrow> None | Inr m \<Rightarrow> Some m)"
| "dir_metadata k PlainFile = None"

definition fs_list_metadata :: "json_codec \<Rightarrow> fs_store \<Rightarrow> state_error + run_metadata list" where
  "fs_list_metadata k s =
     (case s of
        None \<Rightarrow> Inr []
      | Some m \<Rightarrow> Inr (newest_first (List.map_filter (\<lambda>(_, e). dir_metadata k e) m)))"

section \<open>The contract\<close>

text \<open>The operations that change a store, and what they mean for its contents.\<close>

datatype store_op = SaveCheckpoint string checkpoint | DeleteRun string | SaveMetadata string run_metadata

type_synonym store_contents = "(string \<Rightarrow> checkpoint option) \<times> (string \<Rightarrow> run_metadata option)"

fun spec_op :: "store_op \<Rightarrow> store_contents \<Rightarrow> store_contents" where
  "spec_op (SaveCheckpoint i cp) (c, m) = (c(i \<mapsto> cp), m)"
| "spec_op (DeleteRun i) (c, m) = (c(i := None), m(i := None))"
| "spec_op (SaveMetadata i md) (c, m) = (c, m(i \<mapsto> md))"

definition listing_of :: "('k \<Rightarrow> 'v option) \<Rightarrow> 'v list \<Rightarrow> bool" where
  "listing_of m xs \<longleftrightarrow> (\<exists>ks. distinct ks \<and> set ks = dom m \<and> mset xs = mset (map (the \<circ> m) ks))"

locale run_store =
  fixes allowed :: "store_op \<Rightarrow> bool"
    and inv :: "'s \<Rightarrow> bool"
    and contents :: "'s \<Rightarrow> store_contents"
    and save_cp :: "string \<Rightarrow> checkpoint \<Rightarrow> 's \<Rightarrow> (state_error + unit) \<times> 's"
    and load_cp :: "string \<Rightarrow> 's \<Rightarrow> state_error + checkpoint option"
    and list_ids :: "'s \<Rightarrow> state_error + string list"
    and delete :: "string \<Rightarrow> 's \<Rightarrow> (state_error + unit) \<times> 's"
    and save_md :: "string \<Rightarrow> run_metadata \<Rightarrow> 's \<Rightarrow> (state_error + unit) \<times> 's"
    and load_md :: "string \<Rightarrow> 's \<Rightarrow> state_error + run_metadata"
    and list_md :: "'s \<Rightarrow> state_error + run_metadata list"
  assumes save_cp_law: "allowed (SaveCheckpoint i cp) \<Longrightarrow> inv s \<Longrightarrow> fst (save_cp i cp s) = Inr () \<and> inv (snd (save_cp i cp s)) \<and>
      contents (snd (save_cp i cp s)) = spec_op (SaveCheckpoint i cp) (contents s)"
    and save_md_law: "allowed (SaveMetadata i md) \<Longrightarrow> inv s \<Longrightarrow> fst (save_md i md s) = Inr () \<and> inv (snd (save_md i md s)) \<and>
      contents (snd (save_md i md s)) = spec_op (SaveMetadata i md) (contents s)"
    and delete_law: "inv s \<Longrightarrow> inv (snd (delete i s)) \<and>
      contents (snd (delete i s)) = spec_op (DeleteRun i) (contents s) \<and>
      fst (delete i s) = (if fst (contents s) i = None \<and> snd (contents s) i = None then Inl (NotFound i) else Inr ())"
    and load_cp_law: "inv s \<Longrightarrow> load_cp i s = Inr (fst (contents s) i)"
    and load_md_law: "inv s \<Longrightarrow>
      load_md i s = (case snd (contents s) i of Some md \<Rightarrow> Inr md | None \<Rightarrow> Inl (NotFound i))"
    and list_ids_law: "inv s \<Longrightarrow>
      \<exists>is. list_ids s = Inr is \<and> sorted is \<and> distinct is \<and> set is = dom (fst (contents s))"
    and list_md_law: "inv s \<Longrightarrow>
      \<exists>mds. list_md s = Inr mds \<and> listing_of (snd (contents s)) mds \<and>
        sorted (map (\<lambda>r. - int (rm_started_at r)) mds)"
begin

fun exec_op :: "store_op \<Rightarrow> 's \<Rightarrow> 's" where
  "exec_op (SaveCheckpoint i cp) s = snd (save_cp i cp s)"
| "exec_op (DeleteRun i) s = snd (delete i s)"
| "exec_op (SaveMetadata i md) s = snd (save_md i md s)"

lemma exec_op_law: "allowed p \<Longrightarrow> inv s \<Longrightarrow> inv (exec_op p s) \<and> contents (exec_op p s) = spec_op p (contents s)"
  using save_cp_law save_md_law delete_law by (cases p) auto

lemma exec_ops_law: "list_all allowed ps \<Longrightarrow> inv s \<Longrightarrow> inv (fold exec_op ps s) \<and> contents (fold exec_op ps s) = fold spec_op ps (contents s)"
  by (induction ps arbitrary: s) (auto simp: exec_op_law)

lemma ids_after: "list_all allowed ps \<Longrightarrow> inv s \<Longrightarrow>
  list_ids (fold exec_op ps s) = Inr (sorted_list_of_set (dom (fst (fold spec_op ps (contents s)))))"
  using list_ids_law [of "fold exec_op ps s"] exec_ops_law [of ps s]
  by (metis sorted_list_of_set.idem_if_sorted_distinct)

lemma query_after:
  assumes "inv s" "query_execute q (list_md s) = Inr rs" "r \<in> set rs"
  shows "\<exists>i. snd (contents s) i = Some r"
proof -
  obtain mds where m: "list_md s = Inr mds" "listing_of (snd (contents s)) mds"
    using list_md_law [OF assms(1)] by blast
  have "r \<in> set mds"
    using assms(2,3) m(1)
    by (auto simp: query_execute_def retain_opt_def Let_def split: option.splits dest: in_set_takeD)
  moreover obtain ks where ks: "set ks = dom (snd (contents s))" "mset mds = mset (map (the \<circ> snd (contents s)) ks)"
    using m(2) by (auto simp: listing_of_def)
  ultimately have "r \<in> set (map (the \<circ> snd (contents s)) ks)" by (metis set_mset_mset)
  then show ?thesis using ks(1) by auto
qed

end

section \<open>Both stores keep the contract\<close>

lemma listing_of_mset: "mset xs = mset ys \<Longrightarrow> listing_of m xs \<longleftrightarrow> listing_of m ys"
  by (simp add: listing_of_def)

lemma newest_first_props:
  "mset (newest_first xs) = mset xs" "sorted (map (\<lambda>r. - int (rm_started_at r)) (newest_first xs))"
  by (simp_all add: newest_first_def)

lemma listing_of_values:
  assumes "hm_wf m"
  shows "listing_of (\<lambda>i. Option.bind (hm_get m i) f) (List.map_filter (\<lambda>(_, e). f e) m)"
proof -
  let ?m = "filter (\<lambda>(_, e). f e \<noteq> None) m" and ?g = "\<lambda>i. Option.bind (hm_get m i) f"
  have get: "hm_get m i = Some e" if "(i, e) \<in> set m" for i e
    using assms that by (simp add: hm_get_def hm_wf_def)
  have "map (the \<circ> ?g) (map fst ?m) = map (\<lambda>(_, e). the (f e)) ?m"
    using get by (auto simp: case_prod_unfold)
  also have "\<dots> = List.map_filter (\<lambda>(_, e). f e) m"
    by (simp add: List.map_filter_def case_prod_unfold o_def)
  finally have "map (the \<circ> ?g) (map fst ?m) = List.map_filter (\<lambda>(_, e). f e) m" .
  moreover have "distinct (map fst ?m)" using assms by (simp add: hm_wf_def distinct_map_filter)
  moreover have "set (map fst ?m) = dom ?g"
    using get by (force simp: bind_eq_Some_conv hm_get_def dest: map_of_SomeD)
  ultimately show ?thesis unfolding listing_of_def by metis
qed

lemma hm_dom: "dom (hm_get m) = set (hm_keys m)"
  using hm_keys_dom [of _ m] by auto

definition mem_contents :: "mem_store \<Rightarrow> store_contents" where
  "mem_contents s = (hm_get (ms_checkpoints s), hm_get (ms_metadata s))"

definition mem_inv :: "mem_store \<Rightarrow> bool" where
  "mem_inv s \<longleftrightarrow> hm_wf (ms_checkpoints s) \<and> hm_wf (ms_metadata s)"

lemma mem_list_md_law:
  assumes "mem_inv s"
  shows "\<exists>mds. mem_list_metadata s = Inr mds \<and> listing_of (snd (mem_contents s)) mds \<and>
    sorted (map (\<lambda>r. - int (rm_started_at r)) mds)"
proof -
  have "List.map_filter (\<lambda>(_, e). Some e) (ms_metadata s) = map snd (ms_metadata s)"
    by (simp add: List.map_filter_def split_beta)
  then have "listing_of (hm_get (ms_metadata s)) (map snd (ms_metadata s))"
    using listing_of_values [of "ms_metadata s" Some] assms by (simp add: mem_inv_def)
  then show ?thesis
    by (simp add: mem_list_metadata_def mem_contents_def listing_of_mset [OF newest_first_props(1)] newest_first_props(2))
qed

interpretation mem: run_store "\<lambda>_. True" mem_inv mem_contents mem_save_checkpoint mem_load_checkpoint mem_list_runs
  mem_delete_run mem_save_metadata mem_load_metadata mem_list_metadata
proof (unfold_locales, goal_cases)
  case (3 s i)
  then show ?case
    by (auto simp: mem_inv_def mem_contents_def mem_delete_run_def Let_def fun_eq_iff)
next
  case (6 s)
  then show ?case
    by (simp add: mem_inv_def mem_contents_def mem_list_runs_def hm_dom) (simp add: hm_keys_def hm_wf_def)
next
  case (7 s)
  then show ?case by (rule mem_list_md_law)
qed (auto simp: mem_inv_def mem_contents_def mem_save_checkpoint_def mem_save_metadata_def
    mem_load_checkpoint_def mem_load_metadata_def fun_eq_iff)

fun dir_checkpoint :: "json_codec \<Rightarrow> dir_entry \<Rightarrow> checkpoint option" where
  "dir_checkpoint k (RunDir d) =
     Option.bind (rd_checkpoint d) (\<lambda>t. case jc_read_checkpoint k t of Inl e \<Rightarrow> None | Inr cp \<Rightarrow> Some cp)"
| "dir_checkpoint k PlainFile = None"

definition fs_contents :: "json_codec \<Rightarrow> fs_store \<Rightarrow> store_contents" where
  "fs_contents k s = (\<lambda>i. Option.bind (fs_entry s i) (dir_checkpoint k), \<lambda>i. Option.bind (fs_entry s i) (dir_metadata k))"

text \<open>What is saved reads back, under an id that is a directory name.\<close>

fun storable :: "json_codec \<Rightarrow> store_op \<Rightarrow> bool" where
  "storable k (SaveCheckpoint i cp) =
     (plain_id i \<and> (case jc_write_checkpoint k cp of Inl e \<Rightarrow> False | Inr t \<Rightarrow> jc_read_checkpoint k t = Inr cp))"
| "storable k (DeleteRun i) = plain_id i"
| "storable k (SaveMetadata i m) =
     (plain_id i \<and> (case jc_write_metadata k m of Inl e \<Rightarrow> False | Inr t \<Rightarrow> jc_read_metadata k t = Inr m))"

text \<open>A directory of a run: what it holds can be read, and it holds something.\<close>

fun entry_ok :: "json_codec \<Rightarrow> dir_entry \<Rightarrow> bool" where
  "entry_ok k (RunDir d) =
     ((\<forall>t. rd_checkpoint d = Some t \<longrightarrow> is_ok (jc_read_checkpoint k t)) \<and>
      (\<forall>t. rd_metadata d = Some t \<longrightarrow> is_ok (jc_read_metadata k t)) \<and>
      (rd_checkpoint d \<noteq> None \<or> rd_metadata d \<noteq> None))"
| "entry_ok k PlainFile = False"

definition fs_inv :: "json_codec \<Rightarrow> fs_store \<Rightarrow> bool" where
  "fs_inv k s \<longleftrightarrow> (case s of None \<Rightarrow> True | Some m \<Rightarrow> hm_wf m \<and> (\<forall>i e. hm_get m i = Some e \<longrightarrow> entry_ok k e))"

lemma entry_ok_dir: "entry_ok k e \<Longrightarrow> \<exists>d. e = RunDir d"
  by (cases e) auto

lemma fs_entry_ok:
  assumes "fs_inv k s" "fs_entry s i = Some e"
  shows "\<exists>d. e = RunDir d \<and> entry_ok k e"
proof -
  have "entry_ok k e" using assms by (auto simp: fs_inv_def fs_entry_def split: option.splits)
  then show ?thesis using entry_ok_dir by blast
qed

lemma entry_contents:
  "entry_ok k (RunDir d) \<Longrightarrow> (dir_checkpoint k (RunDir d) = None \<longleftrightarrow> rd_checkpoint d = None) \<and>
     (dir_metadata k (RunDir d) = None \<longleftrightarrow> rd_metadata d = None)"
  by (cases "rd_checkpoint d"; cases "rd_metadata d") (auto simp: is_ok_iff split: sum.splits)

lemma fs_write_ok:
  assumes "fs_inv k s" "\<And>d. entry_ok k (RunDir d) \<or> d = \<lparr>rd_checkpoint = None, rd_metadata = None\<rparr> \<Longrightarrow> entry_ok k (RunDir (upd t d))"
  shows "fst (fs_write i (Inr t) upd s) = Inr () \<and> fs_inv k (snd (fs_write i (Inr t) upd s)) \<and>
    (\<forall>j. fs_entry (snd (fs_write i (Inr t) upd s)) j =
      (if j = i then Some (RunDir (upd t (case fs_entry s i of Some (RunDir d) \<Rightarrow> d | _ \<Rightarrow> \<lparr>rd_checkpoint = None, rd_metadata = None\<rparr>)))
       else fs_entry s j))"
proof -
  define m where "m = (case s of None \<Rightarrow> [] | Some m \<Rightarrow> m)"
  have e: "fs_entry s j = hm_get m j" for j by (simp add: fs_entry_def m_def split: option.split)
  have wf: "hm_wf m" "hm_get m j = Some x \<Longrightarrow> entry_ok k x" for j x
    using assms(1) by (auto simp: fs_inv_def m_def split: option.splits)
  show ?thesis
  proof (cases "hm_get m i")
    case None
    then show ?thesis using wf assms(2) [of "\<lparr>rd_checkpoint = None, rd_metadata = None\<rparr>"]
      unfolding fs_write_def Let_def m_def [symmetric] e by (auto simp: fs_inv_def fs_entry_def simp del: entry_ok.simps)
  next
    case (Some x)
    then obtain d where d: "x = RunDir d" "entry_ok k (RunDir d)" using wf(2) entry_ok_dir by blast
    then show ?thesis using Some wf assms(2) [of d]
      unfolding fs_write_def Let_def m_def [symmetric] e by (auto simp: fs_inv_def fs_entry_def simp del: entry_ok.simps)
  qed
qed

lemma fs_save_checkpoint_law:
  assumes "storable k (SaveCheckpoint i cp)" "fs_inv k s"
  shows "fst (fs_save_checkpoint k i cp s) = Inr () \<and> fs_inv k (snd (fs_save_checkpoint k i cp s)) \<and>
    fs_contents k (snd (fs_save_checkpoint k i cp s)) = spec_op (SaveCheckpoint i cp) (fs_contents k s)"
proof -
  obtain t where t: "jc_write_checkpoint k cp = Inr t" "jc_read_checkpoint k t = Inr cp"
    using assms(1) by (auto split: sum.splits)
  have p: "entry_ok k (RunDir (d\<lparr>rd_checkpoint := Some t\<rparr>))"
    if "entry_ok k (RunDir d) \<or> d = \<lparr>rd_checkpoint = None, rd_metadata = None\<rparr>" for d
    using that t by auto
  note w = fs_write_ok [OF assms(2), of "\<lambda>t d. d\<lparr>rd_checkpoint := Some t\<rparr>" t i, OF p]
  show ?thesis
  proof (cases "fs_entry s i")
    case None
    then show ?thesis using w t by (simp add: fs_save_checkpoint_def fs_contents_def fun_eq_iff)
  next
    case (Some e)
    then obtain d where "e = RunDir d" using fs_entry_ok [OF assms(2) Some] by blast
    then show ?thesis using w t Some by (simp add: fs_save_checkpoint_def fs_contents_def fun_eq_iff)
  qed
qed

lemma fs_save_metadata_law:
  assumes "storable k (SaveMetadata i md)" "fs_inv k s"
  shows "fst (fs_save_metadata k i md s) = Inr () \<and> fs_inv k (snd (fs_save_metadata k i md s)) \<and>
    fs_contents k (snd (fs_save_metadata k i md s)) = spec_op (SaveMetadata i md) (fs_contents k s)"
proof -
  obtain t where t: "jc_write_metadata k md = Inr t" "jc_read_metadata k t = Inr md"
    using assms(1) by (auto split: sum.splits)
  have p: "entry_ok k (RunDir (d\<lparr>rd_metadata := Some t\<rparr>))"
    if "entry_ok k (RunDir d) \<or> d = \<lparr>rd_checkpoint = None, rd_metadata = None\<rparr>" for d
    using that t by auto
  note w = fs_write_ok [OF assms(2), of "\<lambda>t d. d\<lparr>rd_metadata := Some t\<rparr>" t i, OF p]
  show ?thesis
  proof (cases "fs_entry s i")
    case None
    then show ?thesis using w t by (simp add: fs_save_metadata_def fs_contents_def fun_eq_iff)
  next
    case (Some e)
    then obtain d where "e = RunDir d" using fs_entry_ok [OF assms(2) Some] by blast
    then show ?thesis using w t Some by (simp add: fs_save_metadata_def fs_contents_def fun_eq_iff)
  qed
qed

lemma fs_delete_law:
  assumes "fs_inv k s"
  shows "fs_inv k (snd (fs_delete_run i s)) \<and>
    fs_contents k (snd (fs_delete_run i s)) = spec_op (DeleteRun i) (fs_contents k s) \<and>
    fst (fs_delete_run i s) =
      (if fst (fs_contents k s) i = None \<and> snd (fs_contents k s) i = None then Inl (NotFound i) else Inr ())"
proof (cases "fs_entry s i")
  case None
  then show ?thesis using assms by (auto simp: fs_delete_run_def fs_contents_def fun_eq_iff)
next
  case (Some e)
  then obtain d m where d: "e = RunDir d" "entry_ok k (RunDir d)" and s: "s = Some m"
    using fs_entry_ok [OF assms Some] by (cases s) (auto simp: fs_entry_def)
  have ne: "\<not> (dir_checkpoint k (RunDir d) = None \<and> dir_metadata k (RunDir d) = None)"
    using d(2) entry_contents [OF d(2)] by (metis entry_ok.simps(1))
  have r: "fs_delete_run i s = (Inr (), Some (hm_remove i m))"
    using Some d(1) s by (simp add: fs_delete_run_def)
  have e: "fs_entry (Some (hm_remove i m)) j = (if j = i then None else fs_entry s j)" for j
    by (simp add: fs_entry_def s)
  have "fs_inv k (Some (hm_remove i m))" using assms by (simp add: fs_inv_def s)
  moreover have "fs_contents k (Some (hm_remove i m)) = spec_op (DeleteRun i) (fs_contents k s)"
    by (simp add: fs_contents_def e fun_eq_iff)
  moreover have "\<not> (fst (fs_contents k s) i = None \<and> snd (fs_contents k s) i = None)"
    using ne unfolding fs_contents_def fst_conv snd_conv Some d(1) bind.bind_lunit .
  ultimately show ?thesis unfolding r fst_conv snd_conv by simp
qed

lemma fs_list_runs_law:
  assumes "fs_inv k s"
  shows "\<exists>is. fs_list_runs s = Inr is \<and> sorted is \<and> distinct is \<and> set is = dom (fst (fs_contents k s))"
proof (cases s)
  case None
  then show ?thesis by (auto simp: fs_list_runs_def fs_contents_def fs_entry_def)
next
  case (Some m)
  let ?P = "\<lambda>(i :: string, e). case e of RunDir d \<Rightarrow> rd_checkpoint d \<noteq> None | PlainFile \<Rightarrow> False"
  have wf: "hm_wf m" and ok: "\<And>i e. hm_get m i = Some e \<Longrightarrow> entry_ok k e"
    using assms Some by (auto simp: fs_inv_def)
  have get: "(i, e) \<in> set m \<longleftrightarrow> hm_get m i = Some e" for i e
    using wf by (simp add: hm_get_def hm_wf_def)
  have P: "?P (i, e) \<longleftrightarrow> dir_checkpoint k e \<noteq> None" if "hm_get m i = Some e" for i e
  proof -
    note h = that
    obtain d where d: "e = RunDir d" "entry_ok k (RunDir d)" using ok [OF h] entry_ok_dir by blast
    then show ?thesis using entry_contents [OF d(2)] unfolding d(1) by (simp del: dir_checkpoint.simps)
  qed
  have "i \<in> set (map fst (filter ?P m)) \<longleftrightarrow> fst (fs_contents k s) i \<noteq> None" for i
  proof -
    have "i \<in> set (map fst (filter ?P m)) \<longleftrightarrow> (\<exists>e. hm_get m i = Some e \<and> ?P (i, e))"
      unfolding get [symmetric] by (auto simp: image_iff; force)
    also have "\<dots> \<longleftrightarrow> (\<exists>e. hm_get m i = Some e \<and> dir_checkpoint k e \<noteq> None)" using P by blast
    also have "\<dots> \<longleftrightarrow> fst (fs_contents k s) i \<noteq> None"
      by (auto simp: fs_contents_def fs_entry_def Some bind_eq_Some_conv)
    finally show ?thesis .
  qed
  then have "set (map fst (filter ?P m)) = dom (fst (fs_contents k s))" by blast
  then show ?thesis
    using wf by (simp add: fs_list_runs_def Some hm_wf_def distinct_map_filter)
qed

lemma fs_list_metadata_law:
  assumes "fs_inv k s"
  shows "\<exists>mds. fs_list_metadata k s = Inr mds \<and> listing_of (snd (fs_contents k s)) mds \<and>
    sorted (map (\<lambda>r. - int (rm_started_at r)) mds)"
proof (cases s)
  case None
  then show ?thesis by (auto simp: fs_list_metadata_def fs_contents_def fs_entry_def listing_of_def)
next
  case (Some m)
  then have "hm_wf m" using assms by (simp add: fs_inv_def)
  from listing_of_values [OF this, of "dir_metadata k"] show ?thesis
    by (simp add: fs_list_metadata_def fs_contents_def fs_entry_def Some
        listing_of_mset [OF newest_first_props(1)] newest_first_props(2))
qed

interpretation fs: run_store "storable k" "fs_inv k" "fs_contents k" "fs_save_checkpoint k" "fs_load_checkpoint k"
  fs_list_runs fs_delete_run "fs_save_metadata k" "fs_load_metadata k" "fs_list_metadata k" for k
proof (unfold_locales, goal_cases)
  case (4 s i)
  then show ?case using fs_entry_ok [of k s i]
    by (cases "fs_entry s i")
      (auto simp: fs_load_checkpoint_def fs_contents_def is_ok_iff split: option.splits sum.splits)
next
  case (5 s i)
  show ?case
  proof (cases "fs_entry s i")
    case None
    then show ?thesis by (simp add: fs_load_metadata_def fs_contents_def)
  next
    case (Some e)
    then obtain d where d: "e = RunDir d" "entry_ok k (RunDir d)" using fs_entry_ok [OF 5 Some] by blast
    show ?thesis
    proof (cases "rd_metadata d")
      case None
      then show ?thesis by (simp add: fs_load_metadata_def fs_contents_def Some d(1))
    next
      case (Some t)
      with d(2) obtain x where "jc_read_metadata k t = Inr x" by (auto simp: is_ok_iff)
      with Some show ?thesis by (simp add: fs_load_metadata_def fs_contents_def \<open>fs_entry s i = Some e\<close> d(1))
    qed
  qed
qed (rule fs_save_checkpoint_law fs_save_metadata_law fs_delete_law fs_list_runs_law fs_list_metadata_law; assumption)+

section \<open>Properties\<close>

definition sample_metadata :: "string \<Rightarrow> nat \<Rightarrow> run_metadata" where
  "sample_metadata i t = \<lparr>rm_run_id = i, rm_graph_name = ''g'', rm_started_at = t, rm_completed_at = None,
     rm_status = StRunning, rm_total_nodes_executed = 0, rm_variables = []\<rparr>"

text \<open>C30. The two stores cannot be told apart, for run ids that are plain directory names and values that
  serde reads back as it wrote them: after any sequence of such saves and deletions from an empty
  store, both load the same checkpoints and metadata, list the same run ids in the same order, list
  the same metadata up to the order of runs started at the same instant, and agree on whether a
  deletion finds its run.\<close>

theorem stores_agree:
  assumes "list_all (storable k) ops" "plain_id i"
  shows "mem_load_checkpoint i (fold mem.exec_op ops mem_new) = fs_load_checkpoint k i (fold (fs.exec_op k) ops fs_new) \<and>
   mem_load_metadata i (fold mem.exec_op ops mem_new) = fs_load_metadata k i (fold (fs.exec_op k) ops fs_new) \<and>
   mem_list_runs (fold mem.exec_op ops mem_new) = fs_list_runs (fold (fs.exec_op k) ops fs_new) \<and>
   fst (mem_delete_run i (fold mem.exec_op ops mem_new)) = fst (fs_delete_run i (fold (fs.exec_op k) ops fs_new)) \<and>
   (\<exists>xs ys. mem_list_metadata (fold mem.exec_op ops mem_new) = Inr xs \<and>
      fs_list_metadata k (fold (fs.exec_op k) ops fs_new) = Inr ys \<and> mset xs = mset ys)"
proof -
  let ?m = "fold mem.exec_op ops mem_new" and ?f = "fold (fs.exec_op k) ops fs_new"
  have i0: "mem_inv mem_new" "fs_inv k fs_new" "mem_contents mem_new = fs_contents k fs_new"
    by (simp_all add: mem_inv_def mem_new_def fs_inv_def fs_new_def mem_contents_def fs_contents_def
        fs_entry_def fun_eq_iff)
  have ok: "list_all (\<lambda>_. True) ops" by (simp add: list_all_iff)
  have m: "mem_inv ?m" "fs_inv k ?f" "mem_contents ?m = fs_contents k ?f"
    using mem.exec_ops_law [OF ok i0(1)] fs.exec_ops_law [OF assms(1) i0(2)] i0(3) by simp_all
  have "mem_list_runs ?m = fs_list_runs ?f"
    using mem.ids_after [OF ok i0(1)] fs.ids_after [OF assms(1) i0(2)] i0(3) by simp
  moreover have "mset xs = mset ys" if "listing_of c xs" "listing_of c ys" for c :: "string \<Rightarrow> run_metadata option" and xs ys
  proof -
    from that obtain ks js where "distinct ks" "set ks = dom c" "mset xs = mset (map (the \<circ> c) ks)"
      "distinct js" "set js = dom c" "mset ys = mset (map (the \<circ> c) js)" by (auto simp: listing_of_def)
    moreover from this have "mset ks = mset js" by (simp add: set_eq_iff_mset_eq_distinct [symmetric])
    ultimately show ?thesis by (metis mset_map)
  qed
  ultimately show ?thesis
    using mem.list_md_law [OF m(1)] fs.list_md_law [OF m(2)] m(3)
    unfolding mem.load_cp_law [OF m(1)] fs.load_cp_law [OF m(2)] mem.load_md_law [OF m(1)]
      fs.load_md_law [OF m(2)] mem.delete_law [OF m(1), THEN conjunct2, THEN conjunct2]
      fs.delete_law [OF m(2), THEN conjunct2, THEN conjunct2] by metis
qed

text \<open>A writer of metadata that keeps the run id, the graph name and the start, and its reader.\<close>

definition sample_codec :: json_codec where
  "sample_codec = \<lparr>jc_write_checkpoint = (\<lambda>cp. Inl ''no''), jc_read_checkpoint = (\<lambda>t. Inl ''no''),
     jc_write_metadata = (\<lambda>m. Inr (dec (rm_started_at m) @ '' '' @ rm_run_id m)),
     jc_read_metadata = (\<lambda>t. Inr (sample_metadata (tl (dropWhile (\<lambda>c. c \<noteq> CHR '' '') t))
        (digits_val (takeWhile (\<lambda>c. c \<noteq> CHR '' '') t))))\<rparr>"

theorem stores_agree_witness:
  "let ops = [SaveMetadata ''r1'' (sample_metadata ''r1'' 5), SaveMetadata ''r2'' (sample_metadata ''r2'' 7), DeleteRun ''r1'']
   in fs_load_metadata sample_codec ''r2'' (fold (fs.exec_op sample_codec) ops fs_new) = Inr (sample_metadata ''r2'' 7)"
proof -
  let ?ops = "[SaveMetadata ''r1'' (sample_metadata ''r1'' 5), SaveMetadata ''r2'' (sample_metadata ''r2'' 7), DeleteRun ''r1'']"
  have ids: "plain_id ''r1''" "plain_id ''r2''" by code_simp+
  have d: "dec 5 = ''5''" "dec 7 = ''7''" "digits_val ''5'' = 5" "digits_val ''7'' = 7" by code_simp+
  have "list_all (storable sample_codec) ?ops"
    using ids by (simp add: sample_codec_def sample_metadata_def d)
  from stores_agree [OF this ids(2)]
  have "fs_load_metadata sample_codec ''r2'' (fold (fs.exec_op sample_codec) ?ops fs_new) =
      mem_load_metadata ''r2'' (fold mem.exec_op ?ops mem_new)" by simp
  also have "\<dots> = Inr (sample_metadata ''r2'' 7)"
    by (simp add: mem_load_metadata_def mem_save_metadata_def mem_delete_run_def mem_new_def Let_def)
  finally show ?thesis by simp
qed

text \<open>A query returns exactly the runs that pass every given filter, in the store's order, newest first,
  cut to the limit.\<close>

theorem query_spec:
  "query_execute q (Inr runs) =
     Inr ((case rq_limit q of Some n \<Rightarrow> take n | None \<Rightarrow> id)
       (filter (\<lambda>r. (case rq_status q of Some st \<Rightarrow> rm_status r = st | None \<Rightarrow> True) \<and>
          (case rq_graph_name q of Some n \<Rightarrow> rm_graph_name r = n | None \<Rightarrow> True) \<and>
          (case rq_since q of Some t \<Rightarrow> t \<le> rm_started_at r | None \<Rightarrow> True)) runs))"
  by (auto simp: query_execute_def retain_opt_def Let_def conj_commute conj_left_commute
      split: option.split intro!: filter_cong arg_cong [of _ _ "take _"])

end
