(* ===== verification/Status.thy ===== *)
theory Status
  imports State
begin

text \<open>
  The status report of a pipeline, \<open>status.rs\<close>: a state machine whose transitions are the \<open>mark_*\<close>
  methods.  The current time is an argument; the JSON text is serde's and is not modelled.
\<close>

datatype pipeline_phase = PhPending | PhRunning | PhPaused | PhCompleted | PhFailed

definition phase_is_terminal :: "pipeline_phase \<Rightarrow> bool" where
  "phase_is_terminal p \<longleftrightarrow> p = PhCompleted \<or> p = PhFailed"

record node_outcome_status =
  no_status :: string
  no_error :: "string option"
  no_retryable :: bool
  no_attempts :: "32 word"

fun from_outcome :: "outcome \<Rightarrow> 32 word \<Rightarrow> node_outcome_status" where
  "from_outcome (Success _) k = \<lparr>no_status = ''success'', no_error = None, no_retryable = False, no_attempts = k\<rparr>"
| "from_outcome (PartialSuccess _) k =
     \<lparr>no_status = ''partial_success'', no_error = None, no_retryable = False, no_attempts = k\<rparr>"
| "from_outcome (Failure err r _) k = \<lparr>no_status = ''failure'', no_error = Some err, no_retryable = r, no_attempts = k\<rparr>"
| "from_outcome (Retry reason _) k = \<lparr>no_status = ''retry'', no_error = Some reason, no_retryable = True, no_attempts = k\<rparr>"
| "from_outcome (Skip reason _) k = \<lparr>no_status = ''skip'', no_error = Some reason, no_retryable = False, no_attempts = k\<rparr>"

record pipeline_status =
  pl_pipeline_name :: string
  pl_status :: pipeline_phase
  pl_current_node :: "string option"
  pl_visited_nodes :: "string list"
  pl_node_outcomes :: "node_outcome_status hmap"
  pl_started_at :: nat
  pl_updated_at :: nat
  pl_error :: "string option"

definition status_new :: "nat \<Rightarrow> string \<Rightarrow> pipeline_status" where
  "status_new now name = \<lparr>pl_pipeline_name = name, pl_status = PhPending, pl_current_node = None,
     pl_visited_nodes = [], pl_node_outcomes = [], pl_started_at = now, pl_updated_at = now, pl_error = None\<rparr>"

definition mark_running :: "nat \<Rightarrow> string \<Rightarrow> pipeline_status \<Rightarrow> pipeline_status" where
  "mark_running now node_id s =
     s\<lparr>pl_status := PhRunning, pl_current_node := Some node_id, pl_updated_at := now\<rparr>"

definition mark_node_complete :: "nat \<Rightarrow> string \<Rightarrow> outcome \<Rightarrow> pipeline_status \<Rightarrow> pipeline_status" where
  "mark_node_complete now node_id out s =
     s\<lparr>pl_node_outcomes := hm_insert node_id (from_outcome out 1) (pl_node_outcomes s),
       pl_visited_nodes := (if node_id \<in> set (pl_visited_nodes s) then pl_visited_nodes s
                            else pl_visited_nodes s @ [node_id]),
       pl_updated_at := now\<rparr>"

definition mark_completed :: "nat \<Rightarrow> pipeline_status \<Rightarrow> pipeline_status" where
  "mark_completed now s = s\<lparr>pl_status := PhCompleted, pl_current_node := None, pl_updated_at := now\<rparr>"

definition mark_failed :: "nat \<Rightarrow> string \<Rightarrow> pipeline_status \<Rightarrow> pipeline_status" where
  "mark_failed now err s =
     s\<lparr>pl_status := PhFailed, pl_error := Some err, pl_current_node := None, pl_updated_at := now\<rparr>"

definition status_is_terminal :: "pipeline_status \<Rightarrow> bool" where
  "status_is_terminal s \<longleftrightarrow> phase_is_terminal (pl_status s)"

section \<open>Reachable reports\<close>

text \<open>One call of a \<open>mark_*\<close> method, in any order, at any time.\<close>

inductive status_step :: "pipeline_status \<Rightarrow> pipeline_status \<Rightarrow> bool" where
  "status_step s (mark_running now n s)"
| "status_step s (mark_node_complete now n out s)"
| "status_step s (mark_completed now s)"
| "status_step s (mark_failed now err s)"

inductive_cases status_stepE: "status_step s t"

definition status_inv :: "pipeline_status \<Rightarrow> bool" where
  "status_inv s \<longleftrightarrow>
     distinct (pl_visited_nodes s) \<and> set (pl_visited_nodes s) = set (hm_keys (pl_node_outcomes s)) \<and>
     pl_status s \<noteq> PhPaused \<and>
     (pl_current_node s \<noteq> None \<longleftrightarrow> pl_status s = PhRunning) \<and>
     (pl_status s = PhFailed \<longrightarrow> pl_error s \<noteq> None)"

lemma status_inv_step: "status_step s t \<Longrightarrow> status_inv s \<Longrightarrow> status_inv t"
  by (erule status_stepE)
    (auto simp: status_inv_def mark_running_def mark_node_complete_def mark_completed_def mark_failed_def)

text \<open>Every report that the \<open>mark_*\<close> methods can reach from a new one is consistent, in whatever order
  they are called: nodes are listed once, exactly those with an outcome; a node is current exactly
  while the phase is running; a failed report carries an error; a report with a terminal phase has
  no current node.  No method ever reaches the paused phase.\<close>

theorem status_reachable:
  "status_step\<^sup>*\<^sup>* (status_new now name) s \<Longrightarrow>
     distinct (pl_visited_nodes s) \<and> set (pl_visited_nodes s) = set (hm_keys (pl_node_outcomes s)) \<and>
     pl_status s \<noteq> PhPaused \<and> (pl_current_node s \<noteq> None \<longleftrightarrow> pl_status s = PhRunning) \<and>
     (pl_status s = PhFailed \<longrightarrow> pl_error s \<noteq> None) \<and>
     (status_is_terminal s \<longrightarrow> pl_current_node s = None)"
proof -
  assume "status_step\<^sup>*\<^sup>* (status_new now name) s"
  then have "status_inv s"
  proof (induction rule: rtranclp_induct)
    case base
    show ?case by (simp add: status_inv_def status_new_def hm_keys_def)
  next
    case (step s t)
    then show ?case using status_inv_step by blast
  qed
  then show ?thesis
    by (auto simp: status_inv_def status_is_terminal_def phase_is_terminal_def)
qed

theorem status_reachable_witness:
  "distinct (pl_visited_nodes (mark_failed 2 ''e'' (mark_node_complete 1 ''a'' success (status_new 0 ''p''))))"
proof -
  have "status_step\<^sup>*\<^sup>* (status_new 0 ''p'') (mark_failed 2 ''e'' (mark_node_complete 1 ''a'' success (status_new 0 ''p'')))"
    by (rule rtranclp.rtrancl_into_rtrancl [OF r_into_rtranclp]) (rule status_step.intros)+
  from status_reachable [OF this] show ?thesis by blast
qed

end
