(* ===== verification/Dot_Lexer.thy ===== *)
theory Dot_Lexer
  imports Float64
begin

text \<open>
  The tokenizer of \<open>crates/smasher-attractor/src/dot/lexer.rs\<close>.  The code keeps an index
  \<open>pos\<close> into a vector of characters; the model passes \<open>pos\<close> and the characters from
  \<open>pos\<close> on.  One iteration of the main \<open>while\<close> loop is \<open>lex_step\<close>; the loop is
  \<open>tokenize_from\<close>, which ends because every iteration consumes a character.
\<close>

datatype token =
    TDigraph | TGraph | TNode | TEdge | TSubgraph | TStrict
  | TIdent string | TStringLit string | TNumber f64 | TDuration duration
  | TLBrace | TRBrace | TLBracket | TRBracket | TSemi | TComma | TEquals | TArrow | TDashDash
  | TEof

datatype lexer_error =
    UnexpectedChar char nat
  | UnterminatedString nat
  | UnterminatedComment nat

text \<open>The loop that skips a block comment; \<open>None\<close> when the input ends inside it.\<close>

fun lex_block_comment :: "nat \<Rightarrow> string \<Rightarrow> (nat \<times> string) option" where
  "lex_block_comment pos (a # b # r) =
     (if a = CHR ''*'' \<and> b = CHR ''/'' then Some (pos + 2, r)
      else lex_block_comment (pos + 1) (b # r))"
| "lex_block_comment pos _ = None"

text \<open>The loop that reads a string literal after its opening quote.\<close>

definition unescape :: "char \<Rightarrow> string" where
  "unescape e =
     (if e = dquote then [dquote]
      else if e = backslash then [backslash]
      else if e = CHR ''n'' then [newline]
      else if e = CHR ''t'' then [tabchar]
      else [backslash, e])"

fun lex_string :: "nat \<Rightarrow> string \<Rightarrow> string \<Rightarrow> (string \<times> nat \<times> string) option" where
  "lex_string pos value [] = None"
| "lex_string pos value [c] =
     (if c = dquote then Some (value, pos + 1, []) else lex_string (pos + 1) (value @ [c]) [])"
| "lex_string pos value (c # d # r) =
     (if c = backslash then lex_string (pos + 2) (value @ unescape d) r
      else if c = dquote then Some (value, pos + 1, d # r)
      else lex_string (pos + 1) (value @ [c]) (d # r))"

text \<open>The number branch: the text of the literal and what follows it.\<close>

definition number_text :: "string \<Rightarrow> string" where
  "number_text s =
     (let ip = takeWhile is_ascii_digit s; r = dropWhile is_ascii_digit s in
      case r of
        a # b # r' \<Rightarrow>
          if a = CHR ''.'' \<and> is_ascii_digit b
          then ip @ [a] @ takeWhile is_ascii_digit (b # r') else ip
      | _ \<Rightarrow> ip)"

definition is_word_char :: "char \<Rightarrow> bool" where
  "is_word_char c \<longleftrightarrow> is_ascii_alnum c \<or> c = CHR ''_'' \<or> c = CHR ''.''"

definition word_token :: "string \<Rightarrow> token" where
  "word_token word =
     (let l = to_lower word in
      if l = ''digraph'' then TDigraph
      else if l = ''graph'' then TGraph
      else if l = ''node'' then TNode
      else if l = ''edge'' then TEdge
      else if l = ''subgraph'' then TSubgraph
      else if l = ''strict'' then TStrict
      else TIdent word)"

definition lex_punct :: "nat \<Rightarrow> char \<Rightarrow> string \<Rightarrow> (lexer_error, token option \<times> nat \<times> string) result" where
  "lex_punct pos ch rest =
     (if ch = CHR ''{'' then Inr (Some TLBrace, pos + 1, rest)
      else if ch = CHR ''}'' then Inr (Some TRBrace, pos + 1, rest)
      else if ch = CHR ''['' then Inr (Some TLBracket, pos + 1, rest)
      else if ch = CHR '']'' then Inr (Some TRBracket, pos + 1, rest)
      else if ch = CHR '';'' then Inr (Some TSemi, pos + 1, rest)
      else if ch = CHR '','' then Inr (Some TComma, pos + 1, rest)
      else if ch = CHR ''='' then Inr (Some TEquals, pos + 1, rest)
      else if ch = CHR ''-'' then
        (case rest of
           [] \<Rightarrow> Inl (Err (UnexpectedChar ch pos))
         | d # r \<Rightarrow>
             if d = CHR ''>'' then Inr (Some TArrow, pos + 2, r)
             else if d = CHR ''-'' then Inr (Some TDashDash, pos + 2, r)
             else Inl (Err (UnexpectedChar ch pos)))
      else Inl (Err (UnexpectedChar ch pos)))"

text \<open>One iteration of the loop at the character \<open>ch\<close>: the token pushed, if any, and the new position.\<close>

definition lex_step :: "nat \<Rightarrow> char \<Rightarrow> string \<Rightarrow> (lexer_error, token option \<times> nat \<times> string) result" where
  "lex_step pos ch rest =
     (if is_ascii_ws ch then Inr (None, pos + 1, rest)
      else if ch = CHR ''/'' \<and> rest \<noteq> [] \<and> hd rest = CHR ''/'' then
        (let body = takeWhile (\<lambda>c. c \<noteq> newline) (tl rest) in
         Inr (None, pos + 2 + length body, drop (length body) (tl rest)))
      else if ch = CHR ''/'' \<and> rest \<noteq> [] \<and> hd rest = CHR ''*'' then
        (case lex_block_comment (pos + 2) (tl rest) of
           None \<Rightarrow> Inl (Err (UnterminatedComment pos))
         | Some (p, r) \<Rightarrow> Inr (None, p, r))
      else if ch = dquote then
        (case lex_string (pos + 1) [] rest of
           None \<Rightarrow> Inl (Err (UnterminatedString pos))
         | Some (v, p, r) \<Rightarrow> Inr (Some (TStringLit v), p, r))
      else if is_ascii_digit ch \<or> (ch = CHR ''.'' \<and> rest \<noteq> [] \<and> is_ascii_digit (hd rest)) then
        (let num = number_text (ch # rest) in
         case parse_f64 num of
           None \<Rightarrow> Inl (Panic Expect_Failed)
         | Some n \<Rightarrow> Inr (Some (TNumber n), pos + length num, drop (length num) (ch # rest)))
      else if is_ascii_alpha ch \<or> ch = CHR ''_'' then
        (let word = takeWhile is_word_char (ch # rest) in
         Inr (Some (word_token word), pos + length word, drop (length word) (ch # rest)))
      else lex_punct pos ch rest)"

subsection \<open>Every step consumes\<close>

text \<open>
  A successful step moves from \<open>pos\<close> by some \<open>k > 0\<close> characters, and what is left is the
  input without its first \<open>k\<close> characters.
\<close>

lemma lex_block_comment_drop:
  "lex_block_comment pos s = Some (p, r) \<Longrightarrow> \<exists>k. p = pos + k \<and> k \<le> length s \<and> r = drop k s"
proof (induction pos s rule: lex_block_comment.induct)
  case (1 pos a b r')
  show ?case
  proof (cases "a = CHR ''*'' \<and> b = CHR ''/''")
    case True
    with 1 show ?thesis by (intro exI [of _ 2]) auto
  next
    case False
    with 1 obtain k where "p = pos + 1 + k" "k \<le> length (b # r')" "r = drop k (b # r')" by auto
    then show ?thesis by (intro exI [of _ "Suc k"]) auto
  qed
qed auto

lemma lex_string_drop:
  "lex_string pos value s = Some (v, p, r) \<Longrightarrow> \<exists>k. p = pos + k \<and> k \<le> length s \<and> r = drop k s"
proof (induction pos "value" s rule: lex_string.induct)
  case (3 pos "value" c d r')
  show ?case
  proof (cases "c = backslash")
    case True
    with 3 obtain k where "p = pos + 2 + k" "k \<le> length r'" "r = drop k r'" by auto
    then show ?thesis by (intro exI [of _ "k + 2"]) auto
  next
    case F: False
    show ?thesis
    proof (cases "c = dquote")
      case True
      with F 3 show ?thesis by (intro exI [of _ 1]) auto
    next
      case False
      with F 3 obtain k where "p = pos + 1 + k" "k \<le> length (d # r')" "r = drop k (d # r')" by auto
      then show ?thesis by (intro exI [of _ "Suc k"]) auto
    qed
  qed
qed (auto split: if_splits)

lemma number_text_length: "length (number_text s) \<le> length s"
proof -
  have "length (takeWhile P t) \<le> length t" for P :: "char \<Rightarrow> bool" and t by (rule length_takeWhile_le)
  moreover have "length s = length (takeWhile is_ascii_digit s) + length (dropWhile is_ascii_digit s)"
    by (metis length_append takeWhile_dropWhile_id)
  ultimately show ?thesis
    by (auto simp: number_text_def Let_def split: list.splits)
qed

lemma dot_not_digit [simp]: "\<not> is_ascii_digit CHR ''.''"
  by (simp add: is_ascii_digit_def code_def)

text \<open>The literal starts with the character the branch was entered on.\<close>

lemma number_text_hd:
  assumes "is_ascii_digit ch \<or> (ch = CHR ''.'' \<and> rest \<noteq> [] \<and> is_ascii_digit (hd rest))"
  shows "\<exists>cs. number_text (ch # rest) = ch # cs"
proof (cases "is_ascii_digit ch")
  case True
  then show ?thesis by (simp add: number_text_def Let_def split: list.split)
next
  case False
  with assms obtain b r where "ch = CHR ''.''" "rest = b # r" "is_ascii_digit b" by (cases rest) auto
  then show ?thesis by (simp add: number_text_def)
qed

lemma lex_punct_consumes:
  "lex_punct pos ch rest = Inr (t, p, r) \<Longrightarrow>
   (p = pos + 1 \<and> r = rest) \<or> (\<exists>d. rest = d # r \<and> p = pos + 2)"
  unfolding lex_punct_def by (cases rest) (simp_all split: if_splits)

lemma lex_step_consumes:
  assumes "lex_step pos ch rest = Inr (t, p, r)"
  shows "\<exists>k. 0 < k \<and> k \<le> Suc (length rest) \<and> p = pos + k \<and> r = drop k (ch # rest)"
proof -
  let ?L = "ch = CHR ''/'' \<and> rest \<noteq> [] \<and> hd rest = CHR ''/''"
    and ?C = "ch = CHR ''/'' \<and> rest \<noteq> [] \<and> hd rest = CHR ''*''"
    and ?N = "is_ascii_digit ch \<or> (ch = CHR ''.'' \<and> rest \<noteq> [] \<and> is_ascii_digit (hd rest))"
    and ?W = "is_ascii_alpha ch \<or> ch = CHR ''_''"
  have ws: "\<not> is_ascii_ws ch" if "ch = dquote" using that by (simp add: is_ascii_ws_def code_def)
  consider (ws) "is_ascii_ws ch"
    | (line) "\<not> is_ascii_ws ch" ?L
    | (block) "\<not> is_ascii_ws ch" ?C
    | (str) "ch = dquote"
    | (num) "\<not> is_ascii_ws ch" "\<not> ?L" "\<not> ?C" "ch \<noteq> dquote" ?N
    | (word) "\<not> is_ascii_ws ch" "\<not> ?L" "\<not> ?C" "ch \<noteq> dquote" "\<not> ?N" ?W
    | (punct) "\<not> is_ascii_ws ch" "\<not> ?L" "\<not> ?C" "ch \<noteq> dquote" "\<not> ?N" "\<not> ?W"
    by argo
  then show ?thesis
  proof cases
    case ws
    with assms show ?thesis by (intro exI [of _ 1]) (simp add: lex_step_def)
  next
    case line
    let ?body = "takeWhile (\<lambda>c. c \<noteq> newline) (tl rest)"
    from line assms have "p = pos + 2 + length ?body" "r = drop (length ?body) (tl rest)"
      by (simp_all add: lex_step_def Let_def)
    then show ?thesis
      using line(2) length_takeWhile_le [of "\<lambda>c. c \<noteq> newline" "tl rest"]
      by (intro exI [of _ "2 + length ?body"]) (cases rest, auto)
  next
    case block
    with assms have "lex_block_comment (pos + 2) (tl rest) = Some (p, r)"
      by (auto simp: lex_step_def split: option.splits)
    from lex_block_comment_drop [OF this] obtain k where
      "p = pos + 2 + k" "k \<le> length (tl rest)" "r = drop k (tl rest)" by blast
    with block(2) show ?thesis by (intro exI [of _ "2 + k"]) (cases rest, auto)
  next
    case str
    with assms ws obtain v where "lex_string (pos + 1) [] rest = Some (v, p, r)"
      by (auto simp: lex_step_def split: option.splits)
    from lex_string_drop [OF this] obtain k where
      "p = pos + 1 + k" "k \<le> length rest" "r = drop k rest" by blast
    then show ?thesis by (intro exI [of _ "Suc k"]) auto
  next
    case num
    let ?num = "number_text (ch # rest)"
    from num assms have "p = pos + length ?num" "r = drop (length ?num) (ch # rest)"
      by (auto simp: lex_step_def Let_def split: option.splits if_splits)
    then show ?thesis
      using number_text_length [of "ch # rest"] number_text_hd [OF num(5)]
      by (intro exI [of _ "length ?num"]) auto
  next
    case word
    let ?w = "takeWhile is_word_char (ch # rest)"
    from word assms have "p = pos + length ?w" "r = drop (length ?w) (ch # rest)"
      by (auto simp: lex_step_def Let_def split: if_splits)
    moreover have "is_word_char ch" using word(6) by (auto simp: is_word_char_def is_ascii_alnum_def)
    ultimately show ?thesis
      using length_takeWhile_le [of is_word_char "ch # rest"] by (intro exI [of _ "length ?w"]) auto
  next
    case punct
    then have "lex_punct pos ch rest = Inr (t, p, r)" using assms by (auto simp: lex_step_def)
    from lex_punct_consumes [OF this] show ?thesis
    proof (elim disjE exE)
      assume "p = pos + 1 \<and> r = rest"
      then show ?thesis by (intro exI [of _ 1]) simp
    next
      fix d
      assume "rest = d # r \<and> p = pos + 2"
      then show ?thesis by (intro exI [of _ 2]) simp
    qed
  qed
qed

function tokenize_from :: "nat \<Rightarrow> string \<Rightarrow> token list \<Rightarrow> (lexer_error, token list) result" where
  "tokenize_from pos [] tokens = Inr (tokens @ [TEof])"
| "tokenize_from pos (ch # rest) tokens =
     (case lex_step pos ch rest of
        Inl e \<Rightarrow> Inl e
      | Inr (t, pos', rest') \<Rightarrow>
          tokenize_from pos' rest' (case t of None \<Rightarrow> tokens | Some tok \<Rightarrow> tokens @ [tok]))"
  by pat_completeness auto
termination
proof (relation "measure (\<lambda>(pos, s, tokens). length s)", goal_cases)
  case (2 pos ch rest tokens x2 t y pos' rest')
  then have "lex_step pos ch rest = Inr (t, pos', rest')" by simp
  from lex_step_consumes [OF this] show ?case by auto
qed simp

definition tokenize :: "string \<Rightarrow> (lexer_error, token list) result" where
  "tokenize input = tokenize_from 0 input []"

subsection \<open>The end marker and the error positions\<close>

lemma parse_number_point:
  assumes "\<forall>c\<in>set ip. is_ascii_digit c" "\<forall>c\<in>set fp. is_ascii_digit c" "fp \<noteq> []"
  shows "parse_number neg (ip @ CHR ''.'' # fp) \<noteq> None"
proof -
  have "takeWhile is_ascii_digit (ip @ CHR ''.'' # fp) = ip"
    "dropWhile is_ascii_digit (ip @ CHR ''.'' # fp) = CHR ''.'' # fp"
    "takeWhile is_ascii_digit fp = fp" "dropWhile is_ascii_digit fp = []"
    using assms by auto
  then show ?thesis using assms(3)
    by (simp add: parse_number_def Let_def starts_with_def parse_exponent_def
        del: takeWhile_eq_all_conv dropWhile_eq_Nil_conv)
qed

lemma number_text_cases:
  "(\<exists>ip fp. number_text s = ip @ CHR ''.'' # fp \<and> (\<forall>c\<in>set ip. is_ascii_digit c) \<and>
      (\<forall>c\<in>set fp. is_ascii_digit c) \<and> fp \<noteq> []) \<or>
   (\<forall>c\<in>set (number_text s). is_ascii_digit c)"
proof (cases "\<exists>b r'. dropWhile is_ascii_digit s = CHR ''.'' # b # r' \<and> is_ascii_digit b")
  case True
  then obtain b r' where br: "dropWhile is_ascii_digit s = CHR ''.'' # b # r'" "is_ascii_digit b"
    by blast
  then have "number_text s = takeWhile is_ascii_digit s @ CHR ''.'' # takeWhile is_ascii_digit (b # r')"
    by (simp add: number_text_def Let_def)
  moreover have "takeWhile is_ascii_digit (b # r') \<noteq> []" using br by simp
  ultimately show ?thesis by (blast dest: set_takeWhileD)
next
  case False
  then have "number_text s = takeWhile is_ascii_digit s"
    by (simp add: number_text_def Let_def split: list.split) blast
  then show ?thesis by (auto dest: set_takeWhileD)
qed

lemma number_text_parses:
  assumes "is_ascii_digit ch \<or> (ch = CHR ''.'' \<and> rest \<noteq> [] \<and> is_ascii_digit (hd rest))"
  shows "parse_f64 (number_text (ch # rest)) \<noteq> None"
proof -
  define num where "num = number_text (ch # rest)"
  obtain cs where num: "num = ch # cs" using number_text_hd [OF assms] by (auto simp: num_def)
  have c: "is_ascii_digit ch \<or> ch = CHR ''.''" using assms by blast
  have sign: "\<not> starts_with num ''-''" "\<not> starts_with num ''+''"
    using num c by (auto simp: starts_with_def is_ascii_digit_def code_def)
  have "lower_char ch = ch" using c by (auto simp: lower_digit) (simp add: lower_char_def code_def)
  then have word: "\<not> lower_eq num ''inf''" "\<not> lower_eq num ''infinity''" "\<not> lower_eq num ''nan''"
    using num c by (auto simp: lower_eq_def to_lower_def is_ascii_digit_def code_def)
  have "parse_number False num \<noteq> None"
    using number_text_cases [of "ch # rest"] unfolding num_def [symmetric]
  proof (elim disjE exE conjE)
    fix ip fp
    assume "num = ip @ CHR ''.'' # fp" "\<forall>c\<in>set ip. is_ascii_digit c"
      "\<forall>c\<in>set fp. is_ascii_digit c" "fp \<noteq> []"
    then show ?thesis using parse_number_point by simp
  next
    assume "\<forall>c\<in>set num. is_ascii_digit c"
    then have "takeWhile is_ascii_digit num = num" "dropWhile is_ascii_digit num = []"
      by (auto simp: takeWhile_eq_all_conv)
    then show ?thesis using num
      by (simp add: parse_number_def Let_def starts_with_def parse_exponent_def
          del: takeWhile_eq_all_conv dropWhile_eq_Nil_conv)
  qed
  then show ?thesis using sign word unfolding num_def [symmetric] by (simp add: parse_f64_def Let_def)
qed

lemma lex_step_no_panic: "lex_step pos ch rest \<noteq> Inl (Panic q)"
proof -
  have "lex_punct pos ch rest \<noteq> Inl (Panic q)"
    by (cases rest) (auto simp: lex_punct_def)
  then show ?thesis
    using number_text_parses [of ch rest]
    by (auto simp: lex_step_def Let_def split: option.splits)
qed

text \<open>Where each kind of error points: at the offending character, quote or comment opener.\<close>

fun error_at :: "string \<Rightarrow> lexer_error \<Rightarrow> bool" where
  "error_at s (UnexpectedChar c p) = (p < length s \<and> s ! p = c)"
| "error_at s (UnterminatedString p) = (p < length s \<and> s ! p = dquote)"
| "error_at s (UnterminatedComment p) =
     (p + 1 < length s \<and> s ! p = CHR ''/'' \<and> s ! (p + 1) = CHR ''*'')"

lemma lex_step_error_at:
  "lex_step (length done) ch rest = Inl (Err e) \<Longrightarrow> error_at (done @ ch # rest) e"
  by (cases rest)
    (auto simp: lex_step_def Let_def lex_punct_def nth_append split: if_splits option.splits)

lemma lex_step_token: "lex_step pos ch rest = Inr (Some t, p, r) \<Longrightarrow> t \<noteq> TEof"
  by (cases rest)
    (auto simp: lex_step_def Let_def lex_punct_def word_token_def split: if_splits option.splits)

lemma tokenize_from_no_panic: "tokenize_from pos s toks \<noteq> Inl (Panic q)"
  by (induction pos s toks rule: tokenize_from.induct)
    (auto split: sum.splits option.splits simp: lex_step_no_panic)

lemma tokenize_from_eof:
  "tokenize_from pos s toks = Inr ts \<Longrightarrow> TEof \<notin> set toks \<Longrightarrow> \<exists>us. ts = us @ [TEof] \<and> TEof \<notin> set us"
proof (induction pos s toks rule: tokenize_from.induct)
  case (2 pos ch rest tokens)
  then obtain t p r where st: "lex_step pos ch rest = Inr (t, p, r)"
    by (auto split: sum.splits)
  let ?tk = "case t of None \<Rightarrow> tokens | Some tok \<Rightarrow> tokens @ [tok]"
  have "TEof \<notin> set ?tk" using "2.prems"(2) lex_step_token [of pos ch rest _ p r] st
    by (auto split: option.splits)
  with 2 st show ?case by auto
qed auto

lemma tokenize_from_error_at:
  "tokenize_from (length done) s toks = Inl (Err e) \<Longrightarrow> error_at (done @ s) e"
proof (induction "length s" arbitrary: "done" s toks rule: less_induct)
  case less
  show ?case
  proof (cases s)
    case Nil
    with less.prems show ?thesis by simp
  next
    case (Cons ch rest)
    show ?thesis
    proof (cases "lex_step (length done) ch rest")
      case (Inl f)
      with less.prems Cons show ?thesis by (simp add: lex_step_error_at)
    next
      case (Inr x)
      obtain t p r where x: "x = (t, p, r)" by (metis prod_cases3)
      from lex_step_consumes Inr x obtain k where
        k: "0 < k" "k \<le> Suc (length rest)" "p = length done + k" "r = drop k (ch # rest)" by blast
      let ?tk = "case t of None \<Rightarrow> toks | Some tok \<Rightarrow> toks @ [tok]"
      have "length (done @ take k s) = p" using k Cons by simp
      moreover have "tokenize_from p r ?tk = Inl (Err e)" using less.prems Cons Inr x by simp
      ultimately have "error_at ((done @ take k s) @ r) e"
        using k Cons by (intro less.hyps [of r _ ?tk]) auto
      then show ?thesis using k Cons by simp
    qed
  qed
qed

subsection \<open>Every token is read back from its spellings\<close>

text \<open>
  The spellings of a token.  A number has many: any text that the number branch takes as a whole
  and that \<open>str::parse::<f64>\<close> reads as it.  Every other token has the spelling \<open>tok_text\<close>.
\<close>

definition number_literal :: "string \<Rightarrow> f64 \<Rightarrow> bool" where
  "number_literal w x \<longleftrightarrow>
     (case w of [] \<Rightarrow> False
      | c # r \<Rightarrow> is_ascii_digit c \<or> (c = CHR ''.'' \<and> r \<noteq> [] \<and> is_ascii_digit (hd r))) \<and>
     number_text w = w \<and> parse_f64 w = Some x"

definition escape_char :: "char \<Rightarrow> string" where
  "escape_char c = (if c = dquote \<or> c = backslash then [backslash, c] else [c])"

definition quoted :: "string \<Rightarrow> string" where
  "quoted s = dquote # concat (map escape_char s) @ [dquote]"

fun tok_text :: "token \<Rightarrow> string" where
  "tok_text TDigraph = ''digraph''"
| "tok_text TGraph = ''graph''"
| "tok_text TNode = ''node''"
| "tok_text TEdge = ''edge''"
| "tok_text TSubgraph = ''subgraph''"
| "tok_text TStrict = ''strict''"
| "tok_text (TIdent w) = w"
| "tok_text (TStringLit s) = quoted s"
| "tok_text (TNumber x) = []"
| "tok_text (TDuration d) = []"
| "tok_text TLBrace = ''{''"
| "tok_text TRBrace = ''}''"
| "tok_text TLBracket = ''[''"
| "tok_text TRBracket = '']''"
| "tok_text TSemi = '';''"
| "tok_text TComma = '',''"
| "tok_text TEquals = ''=''"
| "tok_text TArrow = ''->''"
| "tok_text TDashDash = ''--''"
| "tok_text TEof = []"

definition ident_word :: "string \<Rightarrow> bool" where
  "ident_word w \<longleftrightarrow> w \<noteq> [] \<and> (is_ascii_alpha (hd w) \<or> hd w = CHR ''_'') \<and>
     list_all is_word_char w \<and> word_token w = TIdent w"

fun printable :: "token \<Rightarrow> bool" where
  "printable (TIdent w) = ident_word w"
| "printable (TNumber x) = (\<exists>w. number_literal w x)"
| "printable (TDuration d) = False"
| "printable TEof = False"
| "printable _ = True"

fun spells :: "token \<Rightarrow> string \<Rightarrow> bool" where
  "spells (TNumber x) w = number_literal w x"
| "spells t w = (printable t \<and> w = tok_text t)"

text \<open>A source text from the spellings of its tokens.\<close>

definition print_tokens :: "string list \<Rightarrow> string" where
  "print_tokens ws = concat (map (\<lambda>w. w @ '' '') ws)"

lemma printable_spells: "printable t \<longleftrightarrow> (\<exists>w. spells t w)"
  by (cases t) auto

lemma spellings_exist: "list_all printable ts \<longleftrightarrow> (\<exists>ws. list_all2 spells ts ws)"
  by (induction ts) (auto simp: printable_spells list_all2_Cons1)

lemma lex_string_quoted:
  "lex_string pos v (concat (map escape_char s) @ dquote # r) =
     Some (v @ s, pos + length (concat (map escape_char s)) + 1, r)"
proof (induction s arbitrary: pos v)
  case Nil
  show ?case by (cases r) auto
next
  case (Cons c s)
  let ?rest = "concat (map escape_char s) @ dquote # r"
  obtain d ds where rest: "?rest = d # ds" by (cases ?rest) auto
  show ?case
  proof (cases "c = dquote \<or> c = backslash")
    case True
    then show ?thesis using Cons.IH by (auto simp: escape_char_def unescape_def)
  next
    case False
    then have "lex_string pos v (c # ?rest) = lex_string (pos + 1) (v @ [c]) ?rest"
      by (simp add: rest)
    moreover have "escape_char c = [c]" using False by (simp add: escape_char_def)
    ultimately show ?thesis using Cons.IH by simp
  qed
qed

lemma takeWhile_space: "list_all P w \<Longrightarrow> \<not> P c \<Longrightarrow> takeWhile P (w @ c # s) = w"
  by (induction w) auto

lemma word_char_classes:
  assumes "is_ascii_alpha c \<or> c = CHR ''_''"
  shows "\<not> is_ascii_ws c" "c \<noteq> CHR ''/''" "c \<noteq> dquote" "\<not> is_ascii_digit c" "c \<noteq> CHR ''.''"
  using assms by (auto simp: char_class_defs)

lemma lex_step_word:
  assumes "w \<noteq> []" "is_ascii_alpha (hd w) \<or> hd w = CHR ''_''" "list_all is_word_char w"
  shows "lex_step pos (hd w) (tl w @ CHR '' '' # s) = Inr (Some (word_token w), pos + length w, CHR '' '' # s)"
proof -
  have tw: "takeWhile is_word_char (w @ CHR '' '' # s) = w"
    using assms(3) by (rule takeWhile_space) (simp add: is_word_char_def char_class_defs)
  have eq: "hd w # tl w @ CHR '' '' # s = w @ CHR '' '' # s" using assms(1) by simp
  show ?thesis
    unfolding lex_step_def Let_def eq tw using word_char_classes [OF assms(2)] assms(2) by auto
qed

text \<open>A number's spelling is taken as a whole in front of a blank, too.\<close>

lemma number_text_space:
  assumes "number_text w = w"
  shows "number_text (w @ CHR '' '' # s) = w"
proof -
  have sp: "\<not> is_ascii_digit CHR '' ''" by (simp add: char_class_defs)
  have tw: "takeWhile is_ascii_digit (u @ CHR '' '' # s) = u" "dropWhile is_ascii_digit (u @ CHR '' '' # s) = CHR '' '' # s"
    if "\<forall>c\<in>set u. is_ascii_digit c" for u
    using that sp by (auto simp: takeWhile_append2 dropWhile_append2)
  show ?thesis
    using number_text_cases [of w] unfolding assms
  proof (elim disjE exE conjE)
    fix ip fp
    assume w: "w = ip @ CHR ''.'' # fp" "\<forall>c\<in>set ip. is_ascii_digit c" "\<forall>c\<in>set fp. is_ascii_digit c" "fp \<noteq> []"
    then obtain b fp' where fp: "fp = b # fp'" "is_ascii_digit b" by (cases fp) auto
    have "takeWhile is_ascii_digit (w @ CHR '' '' # s) = ip"
      "dropWhile is_ascii_digit (w @ CHR '' '' # s) = CHR ''.'' # b # fp' @ CHR '' '' # s"
      using w(1,2) fp by (auto simp: takeWhile_append2 dropWhile_append2)
    then show ?thesis using tw(1) [of fp] w fp by (simp add: number_text_def Let_def)
  next
    assume w: "\<forall>c\<in>set w. is_ascii_digit c"
    then show ?thesis using tw [of w] by (simp add: number_text_def Let_def split: list.split)
  qed
qed

lemma number_text_again: "number_text (number_text s) = number_text s"
  using number_text_cases [of s]
proof (elim disjE exE conjE)
  fix ip fp
  assume w: "number_text s = ip @ CHR ''.'' # fp" "\<forall>c\<in>set ip. is_ascii_digit c" "\<forall>c\<in>set fp. is_ascii_digit c" "fp \<noteq> []"
  then obtain b fp' where fp: "fp = b # fp'" "is_ascii_digit b" by (cases fp) auto
  have "takeWhile is_ascii_digit (number_text s) = ip" "dropWhile is_ascii_digit (number_text s) = CHR ''.'' # b # fp'"
    using w(1,2) fp by (auto simp: takeWhile_append2 dropWhile_append2)
  moreover have "takeWhile is_ascii_digit fp' = fp'" using w(3) fp by (auto simp: takeWhile_eq_all_conv)
  ultimately show ?thesis using w fp by (simp add: number_text_def [of "ip @ CHR ''.'' # b # fp'"] Let_def)
next
  assume "\<forall>c\<in>set (number_text s). is_ascii_digit c"
  then have "takeWhile is_ascii_digit (number_text s) = number_text s" "dropWhile is_ascii_digit (number_text s) = []"
    by (auto simp: takeWhile_eq_all_conv)
  then show ?thesis by (simp add: number_text_def [of "number_text s"] del: takeWhile_eq_all_conv dropWhile_eq_Nil_conv)
qed

lemma lex_step_number:
  assumes "number_literal w x"
  shows "\<exists>c cs. w = c # cs \<and> lex_step pos c (cs @ CHR '' '' # s) = Inr (Some (TNumber x), pos + length w, CHR '' '' # s)"
proof -
  obtain c cs where w: "w = c # cs" and c: "is_ascii_digit c \<or> (c = CHR ''.'' \<and> cs \<noteq> [] \<and> is_ascii_digit (hd cs))"
    and x: "number_text w = w" "parse_f64 w = Some x"
    using assms by (cases w) (auto simp: number_literal_def)
  have nt: "number_text (c # cs @ CHR '' '' # s) = w" using number_text_space [OF x(1)] w by simp
  have "is_ascii_digit c \<or> (c = CHR ''.'' \<and> cs @ CHR '' '' # s \<noteq> [] \<and> is_ascii_digit (hd (cs @ CHR '' '' # s)))"
    using c by auto
  moreover have "\<not> is_ascii_ws c" "c \<noteq> CHR ''/''" "c \<noteq> dquote" using c by (auto simp: char_class_defs)
  moreover have "drop (length w) (c # cs @ CHR '' '' # s) = CHR '' '' # s" using w by simp
  ultimately have "lex_step pos c (cs @ CHR '' '' # s) = Inr (Some (TNumber x), pos + length w, CHR '' '' # s)"
    unfolding lex_step_def Let_def nt by (simp add: x(2))
  with w show ?thesis by blast
qed

lemma lex_step_quoted:
  "lex_step pos dquote (concat (map escape_char v) @ dquote # s) =
     Inr (Some (TStringLit v), pos + length (quoted v), s)"
  by (simp add: lex_step_def is_ascii_ws_def code_def lex_string_quoted quoted_def)

lemma lex_step_tok_text:
  assumes "spells t w"
  shows "\<exists>c cs. w = c # cs \<and>
    lex_step pos c (cs @ CHR '' '' # s) = Inr (Some t, pos + length w, CHR '' '' # s)"
proof -
  have word: "\<exists>c cs. w = c # cs \<and> lex_step pos c (cs @ CHR '' '' # s) =
      Inr (Some (word_token w), pos + length w, CHR '' '' # s)"
    if "w \<noteq> []" "is_ascii_alpha (hd w)" "list_all is_word_char w" for w
    using lex_step_word [of w pos s] that by (cases w) auto
  note classes = is_word_char_def char_class_defs word_token_def to_lower_def lower_char_def
  show ?thesis
  proof (cases t)
    case (TIdent u)
    then have "u = w" "w \<noteq> []" "is_ascii_alpha (hd w) \<or> hd w = CHR ''_''" "list_all is_word_char w"
      "word_token w = TIdent w" using assms by (auto simp: ident_word_def)
    with lex_step_word [of w pos s] TIdent show ?thesis by (cases w) auto
  next
    case (TNumber x)
    then show ?thesis using lex_step_number [of w x pos s] assms by simp
  next
    case (TStringLit v)
    then show ?thesis using lex_step_quoted [of pos v "CHR '' '' # s"] assms by (simp add: quoted_def)
  next
    case TDigraph
    then show ?thesis using word [of "''digraph''"] assms by (simp add: classes)
  next
    case TGraph
    then show ?thesis using word [of "''graph''"] assms by (simp add: classes)
  next
    case TNode
    then show ?thesis using word [of "''node''"] assms by (simp add: classes)
  next
    case TEdge
    then show ?thesis using word [of "''edge''"] assms by (simp add: classes)
  next
    case TSubgraph
    then show ?thesis using word [of "''subgraph''"] assms by (simp add: classes)
  next
    case TStrict
    then show ?thesis using word [of "''strict''"] assms by (simp add: classes)
  qed (use assms in \<open>simp_all add: lex_step_def lex_punct_def char_class_defs\<close>)
qed

lemma tokenize_from_space: "tokenize_from pos (CHR '' '' # s) toks = tokenize_from (pos + 1) s toks"
  by (simp add: lex_step_def is_ascii_ws_def code_def)

lemma tokenize_from_print:
  "list_all2 spells ts ws \<Longrightarrow> tokenize_from pos (print_tokens ws) toks = Inr (toks @ ts @ [TEof])"
proof (induction arbitrary: pos toks rule: list_all2_induct)
  case Nil
  then show ?case by (simp add: print_tokens_def)
next
  case (Cons t ts w ws)
  then obtain c cs where c: "w = c # cs"
    "lex_step pos c (cs @ CHR '' '' # print_tokens ws) =
       Inr (Some t, pos + length w, CHR '' '' # print_tokens ws)"
    using lex_step_tok_text [of t w pos "print_tokens ws"] by auto
  have "print_tokens (w # ws) = c # cs @ CHR '' '' # print_tokens ws"
    by (simp add: print_tokens_def c(1))
  then have "tokenize_from pos (print_tokens (w # ws)) toks =
      tokenize_from (pos + length w) (CHR '' '' # print_tokens ws) (toks @ [t])"
    using c(2) by simp
  then show ?case using Cons unfolding tokenize_from_space by simp
qed

text \<open>The tokenizer produces only tokens that have a spelling.\<close>

lemma word_token_printable:
  assumes "is_ascii_alpha ch \<or> ch = CHR ''_''"
  shows "printable (word_token (takeWhile is_word_char (ch # rest)))"
proof -
  let ?w = "takeWhile is_word_char (ch # rest)"
  have "is_word_char ch" using assms by (auto simp: is_word_char_def is_ascii_alnum_def)
  then have w: "?w \<noteq> []" "hd ?w = ch" "list_all is_word_char ?w"
    by (auto simp: list_all_iff dest: set_takeWhileD)
  show ?thesis
  proof (cases "word_token ?w = TIdent ?w")
    case True
    then show ?thesis using w assms by (auto simp: ident_word_def)
  next
    case False
    then show ?thesis by (auto simp: word_token_def Let_def split: if_splits)
  qed
qed

lemma lex_punct_printable: "lex_punct pos ch rest = Inr (Some t, p, r) \<Longrightarrow> printable t"
  unfolding lex_punct_def by (cases rest) (auto split: if_splits)

lemma lex_step_printable:
  assumes "lex_step pos ch rest = Inr (Some t, p, r)"
  shows "printable t"
proof (cases "is_ascii_digit ch \<or> (ch = CHR ''.'' \<and> rest \<noteq> [] \<and> is_ascii_digit (hd rest))")
  case True
  then have "\<not> is_ascii_ws ch" "ch \<noteq> CHR ''/''" "ch \<noteq> dquote" by (auto simp: char_class_defs)
  with assms True obtain x where x: "t = TNumber x" "parse_f64 (number_text (ch # rest)) = Some x"
    by (auto simp: lex_step_def Let_def split: option.splits)
  obtain cs where cs: "number_text (ch # rest) = ch # cs" using number_text_hd [OF True] by blast
  have "number_literal (number_text (ch # rest)) x"
    unfolding number_literal_def number_text_again
  proof (intro conjI x(2) refl)
    have "is_ascii_digit ch \<or> (ch = CHR ''.'' \<and> cs \<noteq> [] \<and> is_ascii_digit (hd cs))"
    proof (cases "is_ascii_digit ch")
      case False
      with True obtain b r' where r: "ch = CHR ''.''" "rest = b # r'" "is_ascii_digit b" by (cases rest) auto
      then have "number_text (ch # rest) = ch # takeWhile is_ascii_digit (b # r')" by (simp add: number_text_def)
      with cs r show ?thesis by auto
    qed simp
    with cs show "case number_text (ch # rest) of [] \<Rightarrow> False
      | c # r \<Rightarrow> is_ascii_digit c \<or> (c = CHR ''.'' \<and> r \<noteq> [] \<and> is_ascii_digit (hd r))" by simp
  qed
  with x(1) show ?thesis by auto
next
  case no_number: False
  let ?L = "ch = CHR ''/'' \<and> rest \<noteq> [] \<and> hd rest = CHR ''/''"
    and ?C = "ch = CHR ''/'' \<and> rest \<noteq> [] \<and> hd rest = CHR ''*''"
    and ?W = "is_ascii_alpha ch \<or> ch = CHR ''_''"
  have ws: "\<not> is_ascii_ws ch"
  proof
    assume "is_ascii_ws ch"
    with assms show False by (simp add: lex_step_def)
  qed
  have line: "\<not> ?L"
  proof
    assume "?L"
    with ws assms show False by (simp add: lex_step_def Let_def)
  qed
  have block: "\<not> ?C"
  proof
    assume "?C"
    with ws line assms show False by (auto simp: lex_step_def split: option.splits)
  qed
  note step = assms [unfolded lex_step_def if_not_P [OF ws] if_not_P [OF line] if_not_P [OF block]
      if_not_P [OF no_number]]
  consider "ch = dquote" | "ch \<noteq> dquote" ?W | "ch \<noteq> dquote" "\<not> ?W" by blast
  then show ?thesis
  proof cases
    case 1
    with step show ?thesis by (auto split: option.splits)
  next
    case 2
    with step show ?thesis using word_token_printable [of ch rest] by (auto simp: Let_def)
  next
    case 3
    with step have "lex_punct pos ch rest = Inr (Some t, p, r)" by (auto split: if_splits)
    then show ?thesis by (rule lex_punct_printable)
  qed
qed

lemma tokenize_from_printable:
  "tokenize_from pos s toks = Inr ts \<Longrightarrow> list_all (\<lambda>t. printable t \<or> t = TEof) toks \<Longrightarrow>
     list_all (\<lambda>t. printable t \<or> t = TEof) ts"
proof (induction pos s toks rule: tokenize_from.induct)
  case (2 pos ch rest tokens)
  then obtain t p r where st: "lex_step pos ch rest = Inr (t, p, r)"
    by (auto split: sum.splits)
  let ?tk = "case t of None \<Rightarrow> tokens | Some tok \<Rightarrow> tokens @ [tok]"
  have "list_all (\<lambda>t. printable t \<or> t = TEof) ?tk"
    using "2.prems"(2) lex_step_printable [of pos ch rest _ p r] st by (auto split: option.splits)
  with 2 st show ?case by auto
qed auto

lemma tokenize_printable: "tokenize s = Inr ts \<Longrightarrow> list_all (\<lambda>t. printable t \<or> t = TEof) ts"
  unfolding tokenize_def by (rule tokenize_from_printable) auto

section \<open>Properties\<close>

text \<open>Tokenizing always ends without a panic, in a token list whose only end marker is its last
  token, or in an error whose position is inside the input, at the offending character, at the
  opening quote of the unterminated string or at the opener of the unterminated comment.\<close>

theorem tokenize_outcome:
  "case tokenize s of
     Inl f \<Rightarrow> (\<exists>e. f = Err e \<and> error_at s e)
   | Inr ts \<Rightarrow> (\<exists>us. ts = us @ [TEof] \<and> TEof \<notin> set us)"
proof (cases "tokenize s")
  case (Inl f)
  then obtain e where "f = Err e"
    using tokenize_from_no_panic [of 0 s "[]"] by (cases f) (auto simp: tokenize_def)
  then show ?thesis using Inl tokenize_from_error_at [of "[]" s "[]"] by (simp add: tokenize_def)
next
  case (Inr ts)
  then show ?thesis using tokenize_from_eof [of 0 s "[]"] by (simp add: tokenize_def)
qed

text \<open>Any sequence of tokens that the tokenizer can produce (keywords, words that are not keywords,
  string literals with any contents, numbers, punctuation), each in any of its spellings, is read
  back as that sequence, followed by the end marker.\<close>

theorem tokenize_print:
  "list_all2 spells ts ws \<Longrightarrow> tokenize (print_tokens ws) = Inr (ts @ [TEof])"
  by (simp add: tokenize_def tokenize_from_print)

theorem tokenize_print_witness:
  "tokenize (print_tokens [''digraph'', ''a_1'', ''{'', ''.50'', ''}'']) =
     Inr [TDigraph, TIdent ''a_1'', TLBrace, TNumber (F_Fin False (2 ^ 52) (- 53)), TRBrace, TEof]"
proof -
  have "number_literal ''.50'' (F_Fin False (2 ^ 52) (- 53))" "ident_word ''a_1''" by code_simp+
  then have "list_all2 spells [TDigraph, TIdent ''a_1'', TLBrace, TNumber (F_Fin False (2 ^ 52) (- 53)), TRBrace]
     [''digraph'', ''a_1'', ''{'', ''.50'', ''}'']" by simp
  from tokenize_print [OF this] show ?thesis by simp
qed

end
