(* ===== verification/Dot_Parser.thy ===== *)
theory Dot_Parser
  imports Dot_Lexer
begin

text \<open>
  The syntax tree of \<open>dot/ast.rs\<close> and the recursive-descent parser of \<open>dot/parser.rs\<close>.  The
  parser's position is modelled by the tokens from it on, and its buffer \<open>pending_stmts\<close> by a
  list, which the functions that use it pass along.  The loops over attributes and edge chains are
  total functions; the mutually recursive statement parsers take fuel, and \<open>parse\<close> supplies one
  unit per token, which is always enough (\<open>parse_graph_fuel\<close>).
\<close>

section \<open>Syntax trees\<close>

datatype dot_value = DString string | DNumber f64 | DDuration duration | DBool bool

record dot_attr =
  attr_key :: string
  attr_value :: dot_value

record dot_node =
  dn_id :: string
  dn_attrs :: "dot_attr list"

record dot_edge =
  de_from :: string
  de_to :: string
  de_attrs :: "dot_attr list"

datatype dot_graph = DotGraph (dg_name: "string option") (dg_is_digraph: bool) (dg_statements: "dot_statement list")
and dot_statement =
    SNode dot_node
  | SEdge dot_edge
  | SAttr dot_attr
  | SSubgraph dot_graph
  | SDefaultNode "dot_attr list"
  | SDefaultEdge "dot_attr list"

datatype parse_error =
    PLexer lexer_error
  | PExpected string token
  | PUnexpectedEof

section \<open>Values\<close>

text \<open>
  The release build multiplies minutes and hours modulo \<open>2 ^ 64\<close>.
\<close>

definition try_parse_duration :: "string \<Rightarrow> duration option" where
  "try_parse_duration str =
     (let s = trim str in
      if s = [] then None
      else case strip_suffix s ''ms'' of
        Some num_str \<Rightarrow> map_option from_millis (parse_uint 64 num_str)
      | None \<Rightarrow> (case strip_suffix s ''s'' of
        Some num_str \<Rightarrow> map_option from_secs (parse_uint 64 num_str)
      | None \<Rightarrow> (case strip_suffix s ''m'' of
        Some num_str \<Rightarrow> map_option (\<lambda>num. from_secs (num * 60 mod 2 ^ 64)) (parse_uint 64 num_str)
      | None \<Rightarrow> (case strip_suffix s ''h'' of
        Some num_str \<Rightarrow> map_option (\<lambda>num. from_secs (num * 3600 mod 2 ^ 64)) (parse_uint 64 num_str)
      | None \<Rightarrow> None))))"

definition coerce_string_value :: "string \<Rightarrow> dot_value" where
  "coerce_string_value s =
     (if s = ''true'' then DBool True
      else if s = ''false'' then DBool False
      else case try_parse_duration s of
        Some duration \<Rightarrow> DDuration duration
      | None \<Rightarrow> DString s)"

section \<open>The token cursor\<close>

fun peek :: "token list \<Rightarrow> token" where
  "peek [] = TEof"
| "peek (t # ts) = t"

definition advance :: "token list \<Rightarrow> token \<times> token list" where
  "advance ts = (peek ts, tl ts)"

text \<open>\<open>mem::discriminant\<close> and the \<open>Debug\<close> text of the tokens without a payload.\<close>

fun discriminant :: "token \<Rightarrow> nat" where
  "discriminant TDigraph = 0" | "discriminant TGraph = 1" | "discriminant TNode = 2"
| "discriminant TEdge = 3" | "discriminant TSubgraph = 4" | "discriminant TStrict = 5"
| "discriminant (TIdent _) = 6" | "discriminant (TStringLit _) = 7" | "discriminant (TNumber _) = 8"
| "discriminant (TDuration _) = 9" | "discriminant TLBrace = 10" | "discriminant TRBrace = 11"
| "discriminant TLBracket = 12" | "discriminant TRBracket = 13" | "discriminant TSemi = 14"
| "discriminant TComma = 15" | "discriminant TEquals = 16" | "discriminant TArrow = 17"
| "discriminant TDashDash = 18" | "discriminant TEof = 19"

fun debug_token :: "token \<Rightarrow> string" where
  "debug_token TLBrace = ''LBrace''"
| "debug_token TRBrace = ''RBrace''"
| "debug_token TLBracket = ''LBracket''"
| "debug_token TEquals = ''Equals''"
| "debug_token TSubgraph = ''Subgraph''"
| "debug_token _ = []"

definition expect :: "token \<Rightarrow> token list \<Rightarrow> parse_error + token list" where
  "expect expected ts =
     (let (tok, ts') = advance ts in
      if discriminant tok = discriminant expected then Inr ts'
      else Inl (PExpected (debug_token expected) tok))"

definition parse_id :: "token list \<Rightarrow> parse_error + string \<times> token list" where
  "parse_id ts =
     (case advance ts of
        (TIdent s, ts') \<Rightarrow> Inr (s, ts')
      | (TStringLit s, ts') \<Rightarrow> Inr (s, ts')
      | (other, ts') \<Rightarrow> Inl (PExpected ''identifier'' other))"

definition parse_value :: "token list \<Rightarrow> parse_error + dot_value \<times> token list" where
  "parse_value ts =
     (case advance ts of
        (TStringLit s, ts') \<Rightarrow> Inr (coerce_string_value s, ts')
      | (TNumber n, ts') \<Rightarrow> Inr (DNumber n, ts')
      | (TIdent s, ts') \<Rightarrow> Inr (coerce_string_value s, ts')
      | (TDuration d, ts') \<Rightarrow> Inr (DDuration d, ts')
      | (other, ts') \<Rightarrow> Inl (PExpected ''value'' other))"

lemma parse_id_ok: "parse_id ts = Inr (s, ts') \<longleftrightarrow> (ts = TIdent s # ts' \<or> ts = TStringLit s # ts')"
  by (cases ts) (auto simp: parse_id_def advance_def split: token.splits)

lemma parse_value_ok: "parse_value ts = Inr (v, ts') \<Longrightarrow> \<exists>t. ts = t # ts'"
  by (cases ts) (auto simp: parse_value_def advance_def split: token.splits)

lemma expect_ok: "expect t ts = Inr ts' \<Longrightarrow> t \<noteq> TEof \<Longrightarrow> \<exists>u. ts = u # ts' \<and> discriminant u = discriminant t"
  by (cases ts; cases t) (auto simp: expect_def advance_def split: if_splits)

section \<open>Attribute lists and edge chains\<close>

function parse_attr_loop :: "token list \<Rightarrow> dot_attr list \<Rightarrow> parse_error + dot_attr list \<times> token list" where
  "parse_attr_loop ts attrs =
     (if peek ts = TRBracket then Inr (attrs, tl ts)
      else res_bind (parse_id ts) (\<lambda>(key, t1).
           res_bind (expect TEquals t1) (\<lambda>t2.
           res_bind (parse_value t2) (\<lambda>(v, t3).
             parse_attr_loop (if peek t3 = TComma \<or> peek t3 = TSemi then tl t3 else t3)
               (attrs @ [\<lparr>attr_key = key, attr_value = v\<rparr>])))))"
  by pat_completeness auto
termination
proof (relation "measure (\<lambda>(ts, attrs). length ts)", goal_cases)
  case (2 ts attrs x key t1 t2 y v t3)
  then have "length t1 < length ts" "length t2 \<le> length t1" "length t3 \<le> length t2"
    using parse_id_ok [of ts key t1] expect_ok [of TEquals t1 t2] parse_value_ok [of t2 v t3]
    by auto
  then show ?case by (cases t3) auto
qed simp

declare parse_attr_loop.simps [simp del]

definition parse_attr_list :: "token list \<Rightarrow> parse_error + dot_attr list \<times> token list" where
  "parse_attr_list ts = res_bind (expect TLBracket ts) (\<lambda>ts'. parse_attr_loop ts' [])"

function parse_chain_loop :: "token list \<Rightarrow> string list \<Rightarrow> parse_error + string list \<times> token list" where
  "parse_chain_loop ts nodes =
     (if peek ts = TArrow \<or> peek ts = TDashDash
      then res_bind (parse_id (tl ts)) (\<lambda>(next_id, ts'). parse_chain_loop ts' (nodes @ [next_id]))
      else Inr (nodes, ts))"
  by pat_completeness auto
termination
proof (relation "measure (\<lambda>(ts, nodes). length ts)", goal_cases)
  case (2 ts nodes x next_id ts')
  then show ?case by (cases ts) (auto simp: parse_id_ok)
qed simp

declare parse_chain_loop.simps [simp del]

text \<open>The edges of a chain: consecutive pairs, the attributes on the last edge only.\<close>

fun chain_edges :: "string list \<Rightarrow> dot_attr list \<Rightarrow> dot_statement list" where
  "chain_edges (a # b # c # ns) attrs =
     SEdge \<lparr>de_from = a, de_to = b, de_attrs = []\<rparr> # chain_edges (b # c # ns) attrs"
| "chain_edges [a, b] attrs = [SEdge \<lparr>de_from = a, de_to = b, de_attrs = attrs\<rparr>]"
| "chain_edges _ attrs = []"

text \<open>\<open>pending_stmts.extend(new); pending_stmts.pop_front().ok_or(UnexpectedEof)\<close>.\<close>

definition extend_pop ::
  "dot_statement list \<Rightarrow> dot_statement list \<Rightarrow> token list \<Rightarrow>
   parse_error + dot_statement \<times> token list \<times> dot_statement list" where
  "extend_pop pending new ts =
     (case pending @ new of [] \<Rightarrow> Inl PUnexpectedEof | s # rest \<Rightarrow> Inr (s, ts, rest))"

definition parse_edge_chain ::
  "string \<Rightarrow> token list \<Rightarrow> dot_statement list \<Rightarrow>
   parse_error + dot_statement \<times> token list \<times> dot_statement list" where
  "parse_edge_chain first ts pending =
     res_bind (parse_chain_loop ts [first]) (\<lambda>(nodes, t1).
     res_bind (if peek t1 = TLBracket then parse_attr_list t1 else Inr ([], t1)) (\<lambda>(attrs, t2).
       extend_pop pending (chain_edges nodes attrs) t2))"

section \<open>Statements\<close>

text \<open>\<open>None\<close> is running out of fuel.\<close>

fun obind :: "('e + 'a) option \<Rightarrow> ('a \<Rightarrow> ('e + 'b) option) \<Rightarrow> ('e + 'b) option" where
  "obind None f = None"
| "obind (Some (Inl e)) f = Some (Inl e)"
| "obind (Some (Inr x)) f = f x"

definition parse_name :: "token list \<Rightarrow> string option \<times> token list" where
  "parse_name ts = (case peek ts of TIdent n \<Rightarrow> (Some n, tl ts) | _ \<Rightarrow> (None, ts))"

function (sequential) parse_stmt_list ::
  "nat \<Rightarrow> token list \<Rightarrow> dot_statement list \<Rightarrow> dot_statement list \<Rightarrow>
   (parse_error + dot_statement list \<times> token list \<times> dot_statement list) option"
and parse_stmt ::
  "nat \<Rightarrow> token list \<Rightarrow> dot_statement list \<Rightarrow>
   (parse_error + dot_statement \<times> token list \<times> dot_statement list) option"
and parse_subgraph ::
  "nat \<Rightarrow> token list \<Rightarrow> dot_statement list \<Rightarrow>
   (parse_error + dot_graph \<times> token list \<times> dot_statement list) option"
where
  "parse_stmt_list 0 ts pending stmts = None"
| "parse_stmt_list (Suc n) ts pending stmts =
     (if peek ts = TRBrace \<or> peek ts = TEof then Some (Inr (stmts @ pending, ts, []))
      else obind (parse_stmt n ts []) (\<lambda>(stmt, t1, pending').
             parse_stmt_list n (if peek t1 = TSemi then tl t1 else t1) pending'
               (stmts @ pending @ [stmt])))"
| "parse_stmt n ts pending =
     (case peek ts of
        TNode \<Rightarrow> Some (res_bind (parse_attr_list (tl ts)) (\<lambda>(attrs, t1).
                   Inr (SDefaultNode attrs, t1, pending)))
      | TEdge \<Rightarrow> Some (res_bind (parse_attr_list (tl ts)) (\<lambda>(attrs, t1).
                   Inr (SDefaultEdge attrs, t1, pending)))
      | TGraph \<Rightarrow>
          if peek (tl ts) = TLBracket
          then Some (res_bind (parse_attr_list (tl ts)) (\<lambda>(attrs, t1).
                 extend_pop pending (map SAttr attrs) t1))
          else Some (Inl (PExpected ''['' (peek (tl ts))))
      | TSubgraph \<Rightarrow> obind (parse_subgraph n ts pending) (\<lambda>(g, t1, pending').
                      Some (Inr (SSubgraph g, t1, pending')))
      | other \<Rightarrow>
          (case parse_id ts of
             Inl _ \<Rightarrow> Some (Inl (PExpected ''statement'' other))
           | Inr (i, t1) \<Rightarrow>
               if peek t1 = TArrow \<or> peek t1 = TDashDash then Some (parse_edge_chain i t1 pending)
               else if peek t1 = TEquals
               then Some (res_bind (parse_value (tl t1)) (\<lambda>(v, t2).
                      Inr (SAttr \<lparr>attr_key = i, attr_value = v\<rparr>, t2, pending)))
               else Some (res_bind (if peek t1 = TLBracket then parse_attr_list t1 else Inr ([], t1))
                      (\<lambda>(attrs, t2). Inr (SNode \<lparr>dn_id = i, dn_attrs = attrs\<rparr>, t2, pending)))))"
| "parse_subgraph n ts pending =
     obind (Some (expect TSubgraph ts)) (\<lambda>t1.
       let (name, t2) = parse_name t1 in
       obind (Some (expect TLBrace t2)) (\<lambda>t3.
       obind (parse_stmt_list n t3 pending []) (\<lambda>(stmts, t4, pending').
       obind (Some (expect TRBrace t4)) (\<lambda>t5.
         Some (Inr (DotGraph name False stmts, t5, pending'))))))"
  by pat_completeness auto
termination
  by (relation "measure (\<lambda>x. case x of
      Inl (n, _) \<Rightarrow> 3 * n
    | Inr (Inl (n, _)) \<Rightarrow> 3 * n + 2
    | Inr (Inr (n, _)) \<Rightarrow> 3 * n + 1)") auto

declare parse_stmt_list.simps(2) [simp del] parse_stmt.simps [simp del] parse_subgraph.simps [simp del]

definition parse_graph :: "nat \<Rightarrow> token list \<Rightarrow> (parse_error + dot_graph) option" where
  "parse_graph fuel ts0 =
     (let ts = (if peek ts0 = TStrict then tl ts0 else ts0) in
      obind (Some (case peek ts of
                TDigraph \<Rightarrow> Inr (True, tl ts)
              | TGraph \<Rightarrow> Inr (False, tl ts)
              | other \<Rightarrow> Inl (PExpected ''digraph or graph'' other))) (\<lambda>(is_digraph, t1).
       let (name, t2) = parse_name t1 in
       obind (Some (expect TLBrace t2)) (\<lambda>t3.
       obind (parse_stmt_list fuel t3 [] []) (\<lambda>(stmts, t4, _).
       obind (Some (expect TRBrace t4)) (\<lambda>_.
         Some (Inr (DotGraph name is_digraph stmts)))))))"

definition parse :: "string \<Rightarrow> (parse_error, dot_graph) result option" where
  "parse input =
     (case tokenize input of
        Inl (Err e) \<Rightarrow> Some (Inl (Err (PLexer e)))
      | Inl (Panic p) \<Rightarrow> Some (Inl (Panic p))
      | Inr tokens \<Rightarrow> map_option (map_sum Err id) (parse_graph (Suc (length tokens)) tokens))"

section \<open>Fuel\<close>

lemma res_bind_Inr_casesE:
  assumes "res_bind r f = Inr y"
  obtains x where "r = Inr x" "f x = Inr y"
  using assms by (auto simp: res_simps)

lemma parse_attr_loop_consumes:
  "parse_attr_loop ts attrs = Inr (as, ts') \<Longrightarrow> length ts' < length ts"
proof (induction ts attrs rule: parse_attr_loop.induct)
  case (1 ts attrs)
  show ?case
  proof (cases "peek ts = TRBracket")
    case True
    with "1.prems" show ?thesis by (cases ts) (auto simp: parse_attr_loop.simps)
  next
    case False
    with "1.prems" obtain key t1 t2 v t3 where
      p: "parse_id ts = Inr (key, t1)" "expect TEquals t1 = Inr t2" "parse_value t2 = Inr (v, t3)"
      and r: "parse_attr_loop (if peek t3 = TComma \<or> peek t3 = TSemi then tl t3 else t3)
          (attrs @ [\<lparr>attr_key = key, attr_value = v\<rparr>]) = Inr (as, ts')"
      by (subst (asm) parse_attr_loop.simps) (auto simp: res_simps split: prod.splits)
    have "length ts' < length (if peek t3 = TComma \<or> peek t3 = TSemi then tl t3 else t3)"
      using "1.IH" [OF False p(1) refl p(2,3) refl r] .
    then have "length ts' < length t3" by (auto split: if_splits)
    then show ?thesis
      using p parse_id_ok [of ts key t1] expect_ok [of TEquals t1 t2] parse_value_ok [of t2 v t3]
      by auto
  qed
qed

lemma parse_attr_list_consumes:
  "parse_attr_list ts = Inr (as, ts') \<Longrightarrow> length ts' < length ts"
  unfolding parse_attr_list_def
  by (elim res_bind_Inr_casesE) (auto dest!: expect_ok parse_attr_loop_consumes)

lemma parse_opt_attrs_consumes:
  "(if peek t = TLBracket then parse_attr_list t else Inr ([], t)) = Inr (as, t') \<Longrightarrow> length t' \<le> length t"
  by (auto split: if_splits dest: parse_attr_list_consumes)

lemma parse_chain_loop_consumes:
  "parse_chain_loop ts ns = Inr (ms, ts') \<Longrightarrow> length ts' \<le> length ts"
proof (induction ts ns rule: parse_chain_loop.induct)
  case (1 ts ns)
  show ?case
  proof (cases "peek ts = TArrow \<or> peek ts = TDashDash")
    case True
    with "1.prems" obtain i t1 where
      "parse_id (tl ts) = Inr (i, t1)" "parse_chain_loop t1 (ns @ [i]) = Inr (ms, ts')"
      by (subst (asm) parse_chain_loop.simps) (auto simp: res_simps)
    with 1 True show ?thesis by (cases ts) (fastforce simp: parse_id_ok)+
  next
    case False
    with "1.prems" show ?thesis by (simp add: parse_chain_loop.simps)
  qed
qed

lemma extend_pop_tokens: "extend_pop p new t = Inr (s, t', p') \<Longrightarrow> t' = t"
  by (auto simp: extend_pop_def split: list.splits)

lemma parse_edge_chain_consumes:
  "parse_edge_chain i ts p = Inr (s, ts', p') \<Longrightarrow> length ts' \<le> length ts"
  unfolding parse_edge_chain_def
  by (elim res_bind_Inr_casesE)
    (auto elim!: res_bind_Inr_casesE dest!: parse_chain_loop_consumes extend_pop_tokens parse_opt_attrs_consumes)

lemma parse_name_length: "length (snd (parse_name ts)) \<le> length ts"
  by (auto simp: parse_name_def split: token.splits)

definition returned :: "'a option \<Rightarrow> bool" where
  "returned m \<longleftrightarrow> m \<noteq> None"

lemma returned_simps [simp]: "returned (Some x)" "\<not> returned None"
  by (simp_all add: returned_def)

lemma returned_obind:
  "returned m \<Longrightarrow> (\<And>x. m = Some (Inr x) \<Longrightarrow> returned (f x)) \<Longrightarrow> returned (obind m f)"
  by (cases m; cases "the m") auto

lemma obind_Inr_iff: "obind m f = Some (Inr y) \<longleftrightarrow> (\<exists>x. m = Some (Inr x) \<and> f x = Some (Inr y))"
  by (cases m; cases "the m") auto

text \<open>What a call with enough fuel does: it returns, and success has consumed at least \<open>k\<close> tokens.\<close>

definition returns_consuming :: "nat \<Rightarrow> token list \<Rightarrow> ('e + 'a \<times> token list \<times> 'b) option \<Rightarrow> bool" where
  "returns_consuming k ts r \<longleftrightarrow> returned r \<and> (\<forall>x ts' p. r = Some (Inr (x, ts', p)) \<longrightarrow> length ts' + k \<le> length ts)"

lemma parse_subgraph_returns:
  assumes "\<And>ts p s. length ts < n \<Longrightarrow> returns_consuming 0 ts (parse_stmt_list n ts p s)" "length ts \<le> n"
  shows "returns_consuming 1 ts (parse_subgraph n ts p)"
proof -
  have sub: "returns_consuming 0 t3 (parse_stmt_list n t3 p [])"
    if "expect TSubgraph ts = Inr t1" "expect TLBrace (snd (parse_name t1)) = Inr t3" for t1 t3
    using assms expect_ok [OF that(1)] expect_ok [OF that(2)] parse_name_length [of t1] by auto
  have "returned (parse_subgraph n ts p)"
    unfolding parse_subgraph.simps Let_def
    by (intro returned_obind) (use sub in \<open>auto split: prod.splits intro!: returned_obind simp: returns_consuming_def\<close>)
  moreover have "length ts' + 1 \<le> length ts" if "parse_subgraph n ts p = Some (Inr (g, ts', p'))" for g ts' p'
  proof -
    from that obtain t1 t3 ss t4 where
      t: "expect TSubgraph ts = Inr t1" "expect TLBrace (snd (parse_name t1)) = Inr t3"
        "parse_stmt_list n t3 p [] = Some (Inr (ss, t4, p'))" "expect TRBrace t4 = Inr ts'"
      unfolding parse_subgraph.simps Let_def by (auto simp: obind_Inr_iff case_prod_beta)
    then show ?thesis
      using expect_ok [OF t(1)] expect_ok [OF t(2)] expect_ok [OF t(4)] parse_name_length [of t1] sub [OF t(1,2)]
      by (auto simp: returns_consuming_def)
  qed
  ultimately show ?thesis by (auto simp: returns_consuming_def)
qed
lemma parse_stmt_returns:
  assumes "returns_consuming 1 ts (parse_subgraph n ts p)" "peek ts \<noteq> TEof"
  shows "returns_consuming 1 ts (parse_stmt n ts p)"
proof -
  obtain t ts1 where ts: "ts = t # ts1" using assms(2) by (cases ts) auto
  have attrs: "length t2 \<le> length ts1" if "parse_attr_list ts1 = Inr (as, t2)" for as t2
    using parse_attr_list_consumes [OF that] by simp
  have other: "returns_consuming 1 ts
     (case parse_id ts of
        Inl e \<Rightarrow> Some (Inl (PExpected ''statement'' t))
      | Inr (i, t1) \<Rightarrow>
          if peek t1 = TArrow \<or> peek t1 = TDashDash then Some (parse_edge_chain i t1 p)
          else if peek t1 = TEquals
          then Some (res_bind (parse_value (tl t1)) (\<lambda>(v, t2).
                 Inr (SAttr \<lparr>attr_key = i, attr_value = v\<rparr>, t2, p)))
          else Some (res_bind (if peek t1 = TLBracket then parse_attr_list t1 else Inr ([], t1))
                 (\<lambda>(attrs, t2). Inr (SNode \<lparr>dn_id = i, dn_attrs = attrs\<rparr>, t2, p))))"
  proof (cases "parse_id ts")
    case (Inr x)
    then obtain i where x: "x = (i, ts1)" using ts parse_id_ok [of ts "fst x" "snd x"] by (cases x) auto
    have "length t2 \<le> length ts1" if "parse_value (tl ts1) = Inr (v, t2)" for v t2
      using parse_value_ok [OF that] by (cases ts1) auto
    then show ?thesis
      using ts Inr x parse_edge_chain_consumes [of i ts1 p] parse_opt_attrs_consumes [of ts1]
      by (auto simp: returns_consuming_def res_simps split: if_splits)
  qed (simp add: returns_consuming_def)
  show ?thesis
    unfolding parse_stmt.simps
    using assms other ts
    by (cases t)
      (auto simp: returns_consuming_def res_simps obind_Inr_iff dest!: attrs extend_pop_tokens
        split: if_splits intro!: returned_obind)
qed

lemma parse_stmt_list_returns:
  "length ts < n \<Longrightarrow> returns_consuming 0 ts (parse_stmt_list n ts p s)"
proof (induction n arbitrary: ts p s)
  case (Suc n)
  show ?case
  proof (cases "peek ts = TRBrace \<or> peek ts = TEof")
    case True
    then show ?thesis by (simp add: parse_stmt_list.simps returns_consuming_def)
  next
    case False
    have stmt: "returns_consuming 1 ts (parse_stmt n ts [])"
      using Suc False by (intro parse_stmt_returns parse_subgraph_returns) auto
    have rest: "returns_consuming 0 t1 (parse_stmt_list n (if peek t1 = TSemi then tl t1 else t1) p1 s1)"
      if "parse_stmt n ts [] = Some (Inr (x, t1, p1))" for x t1 p1 s1
    proof -
      have "length t1 < n" using stmt that Suc.prems by (auto simp: returns_consuming_def)
      then show ?thesis using Suc.IH [of "if peek t1 = TSemi then tl t1 else t1" p1 s1]
        by (cases t1) (auto simp: returns_consuming_def split: if_splits)
    qed
    have "returned (parse_stmt_list (Suc n) ts p s)"
      using False stmt rest
      by (auto simp: parse_stmt_list.simps returns_consuming_def intro!: returned_obind)
    moreover have "length ts' \<le> length ts" if "parse_stmt_list (Suc n) ts p s = Some (Inr (ss, ts', p'))" for ss ts' p'
    proof -
      from that False obtain x t1 p1 where
        st: "parse_stmt n ts [] = Some (Inr (x, t1, p1))"
        and li: "parse_stmt_list n (if peek t1 = TSemi then tl t1 else t1) p1 (s @ p @ [x]) = Some (Inr (ss, ts', p'))"
        by (auto simp: parse_stmt_list.simps obind_Inr_iff)
      have "length ts' \<le> length t1" using rest [OF st] li unfolding returns_consuming_def by fastforce
      moreover have "length t1 \<le> length ts" using stmt st unfolding returns_consuming_def by fastforce
      ultimately show ?thesis by simp
    qed
    ultimately show ?thesis by (auto simp: returns_consuming_def)
  qed
qed simp

lemma parse_graph_fuel: "length ts < n \<Longrightarrow> returned (parse_graph n ts)"
proof -
  assume n: "length ts < n"
  let ?ts = "if peek ts = TStrict then tl ts else ts"
  have list: "returned (parse_stmt_list n t3 [] [])"
    if "expect TLBrace (snd (parse_name (tl ?ts))) = Inr t3" for t3
  proof -
    have "length t3 \<le> length ts"
      using expect_ok [OF that] parse_name_length [of "tl ?ts"] by (cases ts) (auto split: if_splits)
    with n have "returns_consuming 0 t3 (parse_stmt_list n t3 [] [])"
      by (intro parse_stmt_list_returns) simp
    then show ?thesis by (simp add: returns_consuming_def)
  qed
  show ?thesis
    unfolding parse_graph_def Let_def
    by (intro returned_obind)
      (use list in \<open>auto split: prod.splits token.splits intro!: returned_obind\<close>)
qed

section \<open>Printing syntax trees\<close>

text \<open>
  A syntax tree as tokens, and the trees the parser produces.  Neither is code of the repository:
  they state that exactly these trees have a source text and that it is read back.
\<close>

fun print_value :: "dot_value \<Rightarrow> token" where
  "print_value (DString s) = TStringLit s"
| "print_value (DNumber x) = TNumber x"
| "print_value (DDuration d) = TStringLit
     (if d mod 10 ^ 6 = 0 \<and> d div 10 ^ 6 < 2 ^ 64 then dec (d div 10 ^ 6) @ ''ms'' else dec (d div 10 ^ 9) @ ''s'')"
| "print_value (DBool b) = TStringLit (if b then ''true'' else ''false'')"

definition print_attr :: "dot_attr \<Rightarrow> token list" where
  "print_attr a = [TStringLit (attr_key a), TEquals, print_value (attr_value a), TComma]"

definition print_attrs :: "dot_attr list \<Rightarrow> token list" where
  "print_attrs as = TLBracket # concat (map print_attr as) @ [TRBracket]"

definition print_name :: "string option \<Rightarrow> token list" where
  "print_name n = (case n of None \<Rightarrow> [] | Some w \<Rightarrow> [TIdent w])"

fun print_braced :: "dot_graph \<Rightarrow> token list"
and print_stmt :: "dot_statement \<Rightarrow> token list" where
  "print_braced (DotGraph n d ss) =
     print_name n @ TLBrace # concat (map (\<lambda>s. print_stmt s @ [TSemi]) ss) @ [TRBrace]"
| "print_stmt (SNode nd) = TStringLit (dn_id nd) # print_attrs (dn_attrs nd)"
| "print_stmt (SEdge e) =
     TStringLit (de_from e) # TArrow # TStringLit (de_to e) # print_attrs (de_attrs e)"
| "print_stmt (SAttr a) = [TStringLit (attr_key a), TEquals, print_value (attr_value a)]"
| "print_stmt (SSubgraph g) = TSubgraph # print_braced g"
| "print_stmt (SDefaultNode as) = TNode # print_attrs as"
| "print_stmt (SDefaultEdge as) = TEdge # print_attrs as"

definition print_graph :: "dot_graph \<Rightarrow> token list" where
  "print_graph g = (if dg_is_digraph g then TDigraph else TGraph) # print_braced g"

text \<open>The values the parser produces, and the trees made of them.\<close>

fun ok_value :: "dot_value \<Rightarrow> bool" where
  "ok_value (DString s) = (coerce_string_value s = DString s)"
| "ok_value (DNumber x) = printable (TNumber x)"
| "ok_value (DDuration d) =
     (d mod 10 ^ 6 = 0 \<and> d div 10 ^ 6 < 2 ^ 64 \<or> d mod 10 ^ 9 = 0 \<and> d div 10 ^ 9 < 2 ^ 64)"
| "ok_value (DBool b) = True"

definition ok_attrs :: "dot_attr list \<Rightarrow> bool" where
  "ok_attrs as = list_all (\<lambda>a. ok_value (attr_value a)) as"

fun ok_graph :: "dot_graph \<Rightarrow> bool"
and ok_stmt :: "dot_statement \<Rightarrow> bool" where
  "ok_graph (DotGraph n d ss) =
     ((case n of None \<Rightarrow> True | Some w \<Rightarrow> ident_word w) \<and> list_all ok_stmt ss)"
| "ok_stmt (SNode nd) = ok_attrs (dn_attrs nd)"
| "ok_stmt (SEdge e) = ok_attrs (de_attrs e)"
| "ok_stmt (SAttr a) = ok_value (attr_value a)"
| "ok_stmt (SSubgraph g) = (\<not> dg_is_digraph g \<and> ok_graph g)"
| "ok_stmt (SDefaultNode as) = ok_attrs as"
| "ok_stmt (SDefaultEdge as) = ok_attrs as"

lemma strip_suffix_append: "strip_suffix (r @ p) p = Some r"
  by (simp add: strip_suffix_Some)

lemma parse_duration_ms:
  assumes "n < 2 ^ 64"
  shows "try_parse_duration (dec n @ ''ms'') = Some (from_millis n)"
proof -
  have "\<not> is_ws CHR ''m''" "\<not> is_ws CHR ''s''" by (simp_all add: char_class_defs)
  then have "trim (dec n @ ''ms'') = dec n @ ''ms''"
    using dec_digits [of n] by (intro trim_no_ws) (auto dest: digit_not_ws)
  then show ?thesis
    using assms by (simp add: try_parse_duration_def strip_suffix_append parse_uint_dec)
qed

lemma coerce_duration_ms:
  assumes "n < 2 ^ 64"
  shows "coerce_string_value (dec n @ ''ms'') = DDuration (from_millis n)"
proof -
  have "dec n @ ''ms'' \<noteq> s" if "last s \<noteq> CHR ''s''" for s
  proof
    assume "dec n @ ''ms'' = s"
    then have "last s = last (dec n @ ''ms'')" by simp
    then show False using that by simp
  qed
  then have "dec n @ ''ms'' \<noteq> ''true''" "dec n @ ''ms'' \<noteq> ''false''" by simp_all
  then show ?thesis using parse_duration_ms [OF assms] by (simp add: coerce_string_value_def)
qed

lemma coerce_duration_s:
  assumes "n < 2 ^ 64"
  shows "coerce_string_value (dec n @ ''s'') = DDuration (from_secs n)"
proof -
  have "\<not> is_ws CHR ''s''" by (simp add: char_class_defs)
  then have tr: "trim (dec n @ ''s'') = dec n @ ''s''"
    using dec_digits [of n] by (intro trim_no_ws) (auto dest: digit_not_ws)
  have "is_ascii_digit (last (dec n))" using dec_digits [of n] last_in_set [of "dec n"] by simp
  then have "last (dec n) \<noteq> CHR ''m''" by (auto simp: is_ascii_digit_def code_def)
  have ms: "dec n @ ''s'' \<noteq> r @ ''ms''" for r
  proof
    assume "dec n @ ''s'' = r @ ''ms''"
    then have "butlast (dec n @ ''s'') = butlast ((r @ ''m'') @ ''s'')" by simp
    then have "dec n = r @ ''m''" by (simp only: butlast_snoc)
    then have "last (dec n) = CHR ''m''" by simp
    with \<open>last (dec n) \<noteq> CHR ''m''\<close> show False ..
  qed
  have "strip_suffix (dec n @ ''s'') ''ms'' = None"
    using ms by (cases "strip_suffix (dec n @ ''s'') ''ms''") (auto simp: strip_suffix_Some)
  moreover have ne: "dec n @ ''s'' \<noteq> w" if "last w \<noteq> CHR ''s''" for w
  proof
    assume "dec n @ ''s'' = w"
    then have "last w = last (dec n @ ''s'')" by simp
    then show False using that by simp
  qed
  then have "dec n @ ''s'' \<noteq> ''true''" "dec n @ ''s'' \<noteq> ''false''" by simp_all
  moreover have "strip_suffix (dec n @ ''s'') ''s'' = Some (dec n)" by (rule strip_suffix_append)
  ultimately show ?thesis
    using assms tr by (simp add: coerce_string_value_def try_parse_duration_def parse_uint_dec)
qed

lemma parse_print_value:
  "ok_value v \<Longrightarrow> parse_value (print_value v # ts) = Inr (v, ts)"
proof (induction v rule: print_value.induct)
  case (3 d)
  have "d div 10 ^ 6 * 10 ^ 6 = d" if "d mod 10 ^ 6 = 0" using that by auto
  moreover have "d div 10 ^ 9 * 10 ^ 9 = d" if "d mod 10 ^ 9 = 0" using that by auto
  ultimately show ?case using 3
    by (auto simp: parse_value_def advance_def coerce_duration_ms coerce_duration_s from_millis_def from_secs_def
        simp del: power_numeral)
qed (auto simp: parse_value_def advance_def coerce_string_value_def)

lemma parse_attr_loop_print:
  "ok_attrs as \<Longrightarrow> parse_attr_loop (concat (map print_attr as) @ TRBracket # ts) acc = Inr (acc @ as, ts)"
proof (induction as arbitrary: acc)
  case Nil
  then show ?case by (simp add: parse_attr_loop.simps)
next
  case (Cons a as)
  then show ?case
    by (subst parse_attr_loop.simps)
      (simp add: print_attr_def [of a] ok_attrs_def parse_id_def advance_def expect_def parse_print_value)
qed

lemma parse_attr_list_print:
  "ok_attrs as \<Longrightarrow> parse_attr_list (print_attrs as @ ts) = Inr (as, ts)"
  by (simp add: parse_attr_list_def print_attrs_def expect_def advance_def parse_attr_loop_print)

lemma print_attrs_peek: "peek (print_attrs as @ ts) = TLBracket"
  by (simp add: print_attrs_def)

lemma parse_name_print:
  "parse_name (print_name n @ TLBrace # ts) = (n, TLBrace # ts)"
  by (cases n) (simp_all add: parse_name_def print_name_def)

lemma parse_stmt_node:
  assumes "ok_attrs as"
  shows "parse_stmt n (TStringLit i # print_attrs as @ ts) [] =
    Some (Inr (SNode \<lparr>dn_id = i, dn_attrs = as\<rparr>, ts, []))"
  unfolding parse_stmt.simps
  by (simp add: parse_id_def advance_def print_attrs_peek parse_attr_list_print [OF assms])

lemma parse_stmt_edge:
  assumes "ok_attrs as"
  shows "parse_stmt n (TStringLit i # TArrow # TStringLit j # print_attrs as @ ts) [] =
    Some (Inr (SEdge \<lparr>de_from = i, de_to = j, de_attrs = as\<rparr>, ts, []))"
proof -
  have "parse_chain_loop (TArrow # TStringLit j # print_attrs as @ ts) [i] = Inr ([i, j], print_attrs as @ ts)"
    by (subst parse_chain_loop.simps, simp add: parse_id_def advance_def)
      (subst parse_chain_loop.simps, simp add: print_attrs_peek)
  then show ?thesis
    unfolding parse_stmt.simps
    by (simp add: parse_id_def advance_def parse_edge_chain_def print_attrs_peek
        parse_attr_list_print [OF assms] extend_pop_def)
qed

lemma parse_stmt_attr:
  "ok_value v \<Longrightarrow> parse_stmt n (TStringLit k # TEquals # print_value v # ts) [] =
    Some (Inr (SAttr \<lparr>attr_key = k, attr_value = v\<rparr>, ts, []))"
  unfolding parse_stmt.simps by (simp add: parse_id_def advance_def parse_print_value)

lemma parse_stmt_defaults:
  assumes "ok_attrs as"
  shows "parse_stmt n (TNode # print_attrs as @ ts) [] = Some (Inr (SDefaultNode as, ts, []))"
    and "parse_stmt n (TEdge # print_attrs as @ ts) [] = Some (Inr (SDefaultEdge as, ts, []))"
  unfolding parse_stmt.simps by (simp_all add: parse_attr_list_print [OF assms])

lemma print_stmt_peek:
  "\<exists>t ts. print_stmt s = t # ts \<and> t \<noteq> TRBrace \<and> t \<noteq> TEof"
  by (cases s) auto

lemma parse_print_stmts:
  assumes "\<And>s ts n. s \<in> set ss \<Longrightarrow> length (print_stmt s) \<le> n \<Longrightarrow> ok_stmt s \<Longrightarrow>
      parse_stmt n (print_stmt s @ TSemi # ts) [] = Some (Inr (s, TSemi # ts, []))"
    and "list_all ok_stmt ss" "length (concat (map (\<lambda>s. print_stmt s @ [TSemi]) ss)) < n" "peek rest = TRBrace"
  shows "parse_stmt_list n (concat (map (\<lambda>s. print_stmt s @ [TSemi]) ss) @ rest) [] acc = Some (Inr (acc @ ss, rest, []))"
  using assms
proof (induction ss arbitrary: n acc)
  case Nil
  then show ?case by (cases n) (auto simp: parse_stmt_list.simps)
next
  case (Cons s ss)
  then obtain m where n: "n = Suc m" by (cases n) auto
  obtain t ts where pk: "print_stmt s = t # ts" "t \<noteq> TRBrace" "t \<noteq> TEof"
    using print_stmt_peek by blast
  let ?r = "concat (map (\<lambda>s. print_stmt s @ [TSemi]) ss) @ rest"
  have st: "parse_stmt m (print_stmt s @ TSemi # ?r) [] = Some (Inr (s, TSemi # ?r, []))"
    using Cons.prems n by (intro Cons.prems(1)) auto
  have tl: "parse_stmt_list m ?r [] (acc @ [s]) = Some (Inr (acc @ s # ss, rest, []))"
    using Cons.IH [of m "acc @ [s]"] Cons.prems n by auto
  have pk2: "peek (print_stmt s @ x) \<noteq> TRBrace" "peek (print_stmt s @ x) \<noteq> TEof" for x using pk by auto
  show ?case using pk2 st tl unfolding n by (simp add: parse_stmt_list.simps)
qed

text \<open>The body of a graph between its braces.\<close>

lemma parse_print_body:
  "ok_graph g \<Longrightarrow> length (print_braced g) \<le> n \<Longrightarrow>
     parse_stmt_list n (concat (map (\<lambda>s. print_stmt s @ [TSemi]) (dg_statements g)) @ TRBrace # ts) [] [] =
       Some (Inr (dg_statements g, TRBrace # ts, []))"
  "ok_stmt s \<Longrightarrow> length (print_stmt s) \<le> n \<Longrightarrow>
     parse_stmt n (print_stmt s @ TSemi # ts) [] = Some (Inr (s, TSemi # ts, []))"
proof (induction g and s arbitrary: n ts and n ts rule: print_braced_print_stmt.induct)
  case (1 nm d ss)
  then show ?case using parse_print_stmts [of ss n "TRBrace # ts" "[]"] by simp
next
  case (2 nd)
  then show ?case using parse_stmt_node [of "dn_attrs nd" n "dn_id nd"] by simp
next
  case (3 e)
  then show ?case using parse_stmt_edge [of "de_attrs e" n "de_from e" "de_to e"] by simp
next
  case (4 a)
  then show ?case using parse_stmt_attr [of "attr_value a" n "attr_key a"] by simp
next
  case (5 g)
  obtain nm d ss where g: "g = DotGraph nm d ss" by (cases g)
  have "parse_stmt_list n (concat (map (\<lambda>s. print_stmt s @ [TSemi]) ss) @ TRBrace # TSemi # ts) [] [] =
      Some (Inr (ss, TRBrace # TSemi # ts, []))"
    using "5.IH" [of n "TSemi # ts"] "5.prems" by (simp add: g)
  then have "parse_subgraph n (TSubgraph # print_braced g @ TSemi # ts) [] = Some (Inr (g, TSemi # ts, []))"
    using "5.prems" by (simp add: g parse_subgraph.simps expect_def advance_def parse_name_print)
  then show ?case by (simp add: parse_stmt.simps)
next
  case (6 as)
  then show ?case using parse_stmt_defaults(1) [of as n] by simp
next
  case (7 as)
  then show ?case using parse_stmt_defaults(2) [of as n] by simp
qed

lemma parse_print_graph:
  assumes "ok_graph g" "length (print_graph g) < n"
  shows "parse_graph n (print_graph g @ ts) = Some (Inr g)"
proof -
  obtain nm d ss where g: "g = DotGraph nm d ss" by (cases g)
  show ?thesis
    using parse_print_body(1) [OF assms(1), of n ts] assms(2)
    by (simp add: g print_graph_def parse_graph_def expect_def advance_def parse_name_print)
qed

lemma printable_attrs: "ok_attrs as \<Longrightarrow> list_all printable (print_attrs as)"
proof -
  have "printable (print_value v)" if "ok_value v" for v using that by (cases v) auto
  then show "ok_attrs as \<Longrightarrow> list_all printable (print_attrs as)"
    by (auto simp: ok_attrs_def print_attrs_def print_attr_def list_all_iff)
qed

lemma printable_graph:
  "ok_graph g \<Longrightarrow> list_all printable (print_braced g)"
  "ok_stmt s \<Longrightarrow> list_all printable (print_stmt s)"
proof (induction g and s rule: print_braced_print_stmt.induct)
  case (1 nm d ss)
  then show ?case by (auto simp: print_name_def list_all_iff split: option.splits)
next
  case (4 a)
  then show ?case by (cases "attr_value a") auto
qed (auto simp: printable_attrs)

section \<open>The trees the parser produces\<close>

definition lexed :: "token list \<Rightarrow> bool" where
  "lexed ts \<longleftrightarrow> list_all (\<lambda>t. printable t \<or> t = TEof) ts"

lemma lexed_simps [simp]: "lexed []" "lexed (t # ts) \<longleftrightarrow> (printable t \<or> t = TEof) \<and> lexed ts"
  by (simp_all add: lexed_def)

lemma lexed_tl: "lexed ts \<Longrightarrow> lexed (tl ts)"
  by (cases ts) auto

lemma duration_produced: "try_parse_duration s = Some d \<Longrightarrow> ok_value (DDuration d)"
proof -
  assume d: "try_parse_duration s = Some d"
  have u: "n < 2 ^ 64" if "parse_uint 64 u = Some n" for n :: nat and u
    using that by (rule parse_uint_bound)
  from d consider n where "d = from_millis n" "n < 2 ^ 64" | n where "d = from_secs n" "n < 2 ^ 64"
    by (auto simp: try_parse_duration_def Let_def split: if_splits option.splits dest: u)
  then show ?thesis by cases (auto simp: from_millis_def from_secs_def)
qed

lemma coerced_ok: "ok_value (coerce_string_value s)"
  using duration_produced [of s]
  by (cases "try_parse_duration s") (simp_all add: coerce_string_value_def del: ok_value.simps(3))

lemma parse_value_produced: "parse_value ts = Inr (v, ts') \<Longrightarrow> lexed ts \<Longrightarrow> ok_value v \<and> lexed ts'"
  by (cases ts) (auto simp: parse_value_def advance_def coerced_ok split: token.splits)

lemma parse_id_produced: "parse_id ts = Inr (i, ts') \<Longrightarrow> lexed ts \<Longrightarrow> lexed ts'"
  by (auto simp: parse_id_ok)

lemma expect_produced: "expect t ts = Inr ts' \<Longrightarrow> lexed ts \<Longrightarrow> lexed ts'"
  by (auto simp: expect_def advance_def lexed_tl split: if_splits)

lemma parse_attr_loop_produced:
  "parse_attr_loop ts attrs = Inr (as, ts') \<Longrightarrow> lexed ts \<Longrightarrow> ok_attrs attrs \<Longrightarrow> ok_attrs as \<and> lexed ts'"
proof (induction ts attrs rule: parse_attr_loop.induct)
  case (1 ts attrs)
  show ?case
  proof (cases "peek ts = TRBracket")
    case True
    with 1 show ?thesis using lexed_tl [of ts] by (auto simp: parse_attr_loop.simps)
  next
    case False
    with "1.prems" obtain key t1 t2 v t3 where
      p: "parse_id ts = Inr (key, t1)" "expect TEquals t1 = Inr t2" "parse_value t2 = Inr (v, t3)"
      and r: "parse_attr_loop (if peek t3 = TComma \<or> peek t3 = TSemi then tl t3 else t3)
          (attrs @ [\<lparr>attr_key = key, attr_value = v\<rparr>]) = Inr (as, ts')"
      by (subst (asm) parse_attr_loop.simps) (auto simp: res_simps split: prod.splits)
    have "ok_value v \<and> lexed t3"
      using p "1.prems"(2) parse_id_produced expect_produced parse_value_produced by metis
    then show ?thesis
      using "1.IH" [OF False p(1) refl p(2,3) refl r] "1.prems"(3) lexed_tl [of t3]
      by (auto simp: ok_attrs_def split: if_splits)
  qed
qed

lemma parse_attr_list_produced:
  "parse_attr_list ts = Inr (as, ts') \<Longrightarrow> lexed ts \<Longrightarrow> ok_attrs as \<and> lexed ts'"
  unfolding parse_attr_list_def
  by (elim res_bind_Inr_casesE) (auto dest: expect_produced parse_attr_loop_produced simp: ok_attrs_def)

lemma parse_opt_attrs_produced:
  "(if peek t = TLBracket then parse_attr_list t else Inr ([], t)) = Inr (as, t') \<Longrightarrow> lexed t \<Longrightarrow> ok_attrs as \<and> lexed t'"
  by (auto split: if_splits dest: parse_attr_list_produced simp: ok_attrs_def)

lemma parse_chain_loop_produced: "parse_chain_loop ts ns = Inr (ms, ts') \<Longrightarrow> lexed ts \<Longrightarrow> lexed ts'"
proof (induction ts ns rule: parse_chain_loop.induct)
  case (1 ts ns)
  show ?case
  proof (cases "peek ts = TArrow \<or> peek ts = TDashDash")
    case True
    with "1.prems" obtain i t1 where
      c: "parse_id (tl ts) = Inr (i, t1)" "parse_chain_loop t1 (ns @ [i]) = Inr (ms, ts')"
      by (subst (asm) parse_chain_loop.simps) (auto simp: res_simps)
    show ?thesis
      using "1.IH" [OF True c(1) refl c(2)] parse_id_produced [OF c(1)] lexed_tl "1.prems"(2) by blast
  next
    case False
    with "1.prems" show ?thesis by (simp add: parse_chain_loop.simps)
  qed
qed

text \<open>What a successful call produces: a good result, good buffered statements, and lexed tokens.\<close>

definition produces ::
  "('a \<Rightarrow> bool) \<Rightarrow> ('e + 'a \<times> token list \<times> dot_statement list) option \<Rightarrow> bool" where
  "produces P r \<longleftrightarrow> (\<forall>x ts p. r = Some (Inr (x, ts, p)) \<longrightarrow> P x \<and> lexed ts \<and> list_all ok_stmt p)"

lemma produces_simps [simp]: "produces P (Some (Inl e))" "produces P None"
  "produces P (Some (Inr (x, ts, p))) \<longleftrightarrow> P x \<and> lexed ts \<and> list_all ok_stmt p"
  by (auto simp: produces_def)

lemma produces_obind:
  "(\<And>x. m = Some (Inr x) \<Longrightarrow> produces P (f x)) \<Longrightarrow> produces P (obind m f)"
  by (cases m; cases "the m") auto

lemma produces_bind:
  "(\<And>x. m = Inr x \<Longrightarrow> produces P (Some (f x))) \<Longrightarrow> produces P (Some (res_bind m f))"
  by (cases m) auto

lemma produces_extend_pop:
  "list_all ok_stmt p \<Longrightarrow> list_all ok_stmt new \<Longrightarrow> lexed ts \<Longrightarrow> produces ok_stmt (Some (extend_pop p new ts))"
proof (cases "p @ new")
  case (Cons x xs)
  assume "list_all ok_stmt p" "list_all ok_stmt new" "lexed ts"
  moreover from this have "list_all ok_stmt (x # xs)" unfolding Cons [symmetric] by simp
  ultimately show ?thesis by (simp add: extend_pop_def Cons)
qed (simp add: extend_pop_def)

lemma chain_edges_ok: "ok_attrs as \<Longrightarrow> list_all ok_stmt (chain_edges ns as)"
  by (induction ns as rule: chain_edges.induct) (auto simp: ok_attrs_def)

lemma parse_edge_chain_produces:
  "lexed ts \<Longrightarrow> list_all ok_stmt p \<Longrightarrow> produces ok_stmt (Some (parse_edge_chain i ts p))"
  unfolding parse_edge_chain_def
  by (auto intro!: produces_bind produces_extend_pop chain_edges_ok
      dest!: parse_chain_loop_produced parse_opt_attrs_produced)

lemma parse_name_produced:
  "parse_name ts = (nm, ts') \<Longrightarrow> lexed ts \<Longrightarrow> (case nm of None \<Rightarrow> True | Some w \<Rightarrow> ident_word w) \<and> lexed ts'"
  by (cases ts) (auto simp: parse_name_def split: token.splits)

lemma parse_stmt_produces:
  assumes "lexed ts" "list_all ok_stmt p" "produces (\<lambda>g. \<not> dg_is_digraph g \<and> ok_graph g) (parse_subgraph n ts p)"
  shows "produces ok_stmt (parse_stmt n ts p)"
proof -
  have attrs: "ok_attrs as \<and> lexed t" if "parse_attr_list (tl ts) = Inr (as, t)" for as t
    using parse_attr_list_produced [OF that] lexed_tl [OF assms(1)] by blast
  have other: "produces ok_stmt
     (case parse_id ts of
        Inl e \<Rightarrow> Some (Inl (PExpected ''statement'' t))
      | Inr (i, t1) \<Rightarrow>
          if peek t1 = TArrow \<or> peek t1 = TDashDash then Some (parse_edge_chain i t1 p)
          else if peek t1 = TEquals
          then Some (res_bind (parse_value (tl t1)) (\<lambda>(v, t2).
                 Inr (SAttr \<lparr>attr_key = i, attr_value = v\<rparr>, t2, p)))
          else Some (res_bind (if peek t1 = TLBracket then parse_attr_list t1 else Inr ([], t1))
                 (\<lambda>(attrs, t2). Inr (SNode \<lparr>dn_id = i, dn_attrs = attrs\<rparr>, t2, p))))" for t
  proof (cases "parse_id ts")
    case (Inr x)
    obtain i t1 where x: "x = (i, t1)" by (cases x)
    then have t1: "lexed t1" using Inr parse_id_produced assms(1) by blast
    have v: "ok_value v \<and> lexed t2" if "parse_value (tl t1) = Inr (v, t2)" for v t2
      using parse_value_produced [OF that] lexed_tl [OF t1] by blast
    have opt: "ok_attrs as \<and> lexed t2"
      if "(if peek t1 = TLBracket then parse_attr_list t1 else Inr ([], t1)) = Inr (as, t2)" for as t2
      using parse_opt_attrs_produced [OF that t1] .
    have "produces ok_stmt (Some (res_bind (if peek t1 = TLBracket then parse_attr_list t1 else Inr ([], t1))
                 (\<lambda>(attrs, t2). Inr (SNode \<lparr>dn_id = i, dn_attrs = attrs\<rparr>, t2, p))))"
      using assms(2) by (intro produces_bind) (auto dest: opt split: prod.splits simp del: if_split)
    then show ?thesis
      using t1 assms(2) unfolding Inr x
      by (auto intro!: produces_bind parse_edge_chain_produces dest!: v)
  qed simp
  have "produces ok_stmt (Some (res_bind (parse_attr_list (tl ts)) (\<lambda>(attrs, t1). Inr (SDefaultNode attrs, t1, p))))"
    "produces ok_stmt (Some (res_bind (parse_attr_list (tl ts)) (\<lambda>(attrs, t1). Inr (SDefaultEdge attrs, t1, p))))"
    using assms(2) by (auto intro!: produces_bind dest!: attrs)
  moreover have "produces ok_stmt (Some (res_bind (parse_attr_list (tl ts)) (\<lambda>(attrs, t1). extend_pop p (map SAttr attrs) t1)))"
    using assms(2) by (auto intro!: produces_bind produces_extend_pop dest!: attrs simp: ok_attrs_def list_all_iff)
  moreover have "produces ok_stmt (obind (parse_subgraph n ts p) (\<lambda>(g, t1, pending'). Some (Inr (SSubgraph g, t1, pending'))))"
    using assms(3) by (fastforce simp: produces_def obind_Inr_iff)
  ultimately show ?thesis
    unfolding parse_stmt.simps
    using other by (cases "peek ts") simp_all
qed

lemma parse_subgraph_produces:
  assumes "\<And>ts p ss. lexed ts \<Longrightarrow> list_all ok_stmt p \<Longrightarrow> list_all ok_stmt ss \<Longrightarrow> produces (list_all ok_stmt) (parse_stmt_list n ts p ss)"
    and "lexed ts" "list_all ok_stmt p"
  shows "produces (\<lambda>g. \<not> dg_is_digraph g \<and> ok_graph g) (parse_subgraph n ts p)"
  unfolding parse_subgraph.simps Let_def produces_def
proof (intro allI impI)
  fix g ts' p'
  assume "obind (Some (expect TSubgraph ts)) (\<lambda>t1. case parse_name t1 of (name, t2) \<Rightarrow>
       obind (Some (expect TLBrace t2)) (\<lambda>t3.
       obind (parse_stmt_list n t3 p []) (\<lambda>(stmts, t4, pending').
       obind (Some (expect TRBrace t4)) (\<lambda>t5. Some (Inr (DotGraph name False stmts, t5, pending')))))) =
     Some (Inr (g, ts', p'))"
  then obtain t1 t3 ss t4 where
    t': "expect TSubgraph ts = Inr t1" "expect TLBrace (snd (parse_name t1)) = Inr t3"
      "parse_stmt_list n t3 p [] = Some (Inr (ss, t4, p'))" "expect TRBrace t4 = Inr ts'"
      "g = DotGraph (fst (parse_name t1)) False ss"
    by (auto simp: obind_Inr_iff case_prod_beta)
  obtain nm t2 where "parse_name t1 = (nm, t2)" by (cases "parse_name t1")
  with t' have t: "expect TSubgraph ts = Inr t1" "parse_name t1 = (nm, t2)" "expect TLBrace t2 = Inr t3"
      "parse_stmt_list n t3 p [] = Some (Inr (ss, t4, p'))" "expect TRBrace t4 = Inr ts'"
    and g: "g = DotGraph nm False ss" by simp_all
  have t1: "lexed t1" using expect_produced [OF t(1)] assms(2) .
  have nm: "case nm of None \<Rightarrow> True | Some w \<Rightarrow> ident_word w" and t2: "lexed t2"
    using parse_name_produced [OF t(2) t1] by auto
  have t3: "lexed t3" using expect_produced [OF t(3) t2] .
  then have "list_all ok_stmt ss \<and> lexed t4 \<and> list_all ok_stmt p'"
    using assms(1) [OF t3 assms(3), of "[]"] t(4) by simp
  then show "(\<not> dg_is_digraph g \<and> ok_graph g) \<and> lexed ts' \<and> list_all ok_stmt p'"
    using g nm expect_produced [OF t(5)] by simp
qed

lemma parse_stmt_list_produces:
  "lexed ts \<Longrightarrow> list_all ok_stmt p \<Longrightarrow> list_all ok_stmt ss \<Longrightarrow> produces (list_all ok_stmt) (parse_stmt_list n ts p ss)"
proof (induction n arbitrary: ts p ss)
  case (Suc n)
  have st: "produces ok_stmt (parse_stmt n ts [])"
    using Suc by (intro parse_stmt_produces parse_subgraph_produces) auto
  have next_ok: "lexed (if peek t1 = TSemi then tl t1 else t1)" if "lexed t1" for t1
    using that lexed_tl by auto
  show ?case
    unfolding parse_stmt_list.simps
    using Suc.prems st
    by (auto simp: produces_def [of ok_stmt] next_ok intro!: produces_obind Suc.IH)
qed simp

lemma parse_graph_produces:
  assumes "parse_graph n ts0 = Some (Inr g)" "lexed ts0"
  shows "ok_graph g"
proof -
  let ?ts = "if peek ts0 = TStrict then tl ts0 else ts0"
  have ts: "lexed (tl ?ts)" using assms(2) lexed_tl by auto
  have head: "t1 = tl ?ts" if "(case peek ?ts of
                TDigraph \<Rightarrow> Inr (True, tl ?ts)
              | TGraph \<Rightarrow> Inr (False, tl ?ts)
              | other \<Rightarrow> Inl (PExpected ''digraph or graph'' other)) = Inr (d, t1)" for d t1
    using that by (cases "peek ?ts") auto
  obtain nm t2 where nt: "parse_name (tl ?ts) = (nm, t2)" by (cases "parse_name (tl ?ts)")
  from assms(1) obtain d t3 ss t4 p where
    t: "expect TLBrace t2 = Inr t3" "parse_stmt_list n t3 [] [] = Some (Inr (ss, t4, p))"
    and g: "g = DotGraph nm d ss"
    unfolding parse_graph_def Let_def obind_Inr_iff
    by (auto dest!: head simp: nt obind_Inr_iff)
  have nm: "case nm of None \<Rightarrow> True | Some w \<Rightarrow> ident_word w" and t2: "lexed t2"
    using parse_name_produced [OF nt ts] by auto
  have "lexed t3" using expect_produced [OF t(1) t2] .
  then have "list_all ok_stmt ss" using parse_stmt_list_produces [of t3 "[]" "[]" n] t(2) by simp
  with g nm show ?thesis by simp
qed

lemma parse_produces:
  assumes "parse s = Some (Inr g)"
  shows "ok_graph g"
proof -
  have "map_sum Err id z = Inr g \<longleftrightarrow> z = Inr g" for z :: "parse_error + dot_graph" by (cases z) auto
  with assms obtain ts where ts: "tokenize s = Inr ts" "parse_graph (Suc (length ts)) ts = Some (Inr g)"
    by (auto simp: parse_def split: sum.splits fault.splits)
  then show ?thesis using parse_graph_produces tokenize_printable by (auto simp: lexed_def)
qed

lemma parse_print_ok:
  assumes "ok_graph g" "list_all2 spells (print_graph g) ws"
  shows "parse (print_tokens ws) = Some (Inr g)"
  using tokenize_from_print [OF assms(2), of 0 "[]"] parse_print_graph [OF assms(1)]
  by (simp add: parse_def tokenize_def)

lemma ok_graph_spellings: "ok_graph g \<Longrightarrow> \<exists>ws. list_all2 spells (print_graph g) ws"
  using printable_graph(1) by (simp add: print_graph_def flip: spellings_exist)

section \<open>Properties\<close>

text \<open>Parsing any text returns: the fuel is enough for every input, and the parser never panics.\<close>

theorem parse_returns:
  "\<exists>r. parse s = Some r \<and> (\<forall>p. r \<noteq> Inl (Panic p))"
proof (cases "tokenize s")
  case (Inl f)
  then obtain e where "f = Err e"
    using tokenize_from_no_panic [of 0 s "[]"] by (cases f) (auto simp: tokenize_def)
  with Inl show ?thesis by (simp add: parse_def)
next
  case (Inr ts)
  then obtain r where "parse_graph (Suc (length ts)) ts = Some r"
    using parse_graph_fuel [of ts "Suc (length ts)"] by (auto simp: returned_def)
  with Inr show ?thesis by (cases r) (auto simp: parse_def)
qed

text \<open>C14. The trees the parser returns are exactly those whose values it can produce (\<open>ok_graph\<close>: a name
  is an identifier, a subgraph is not a digraph, a number is one that some literal reads as, a
  duration has at most \<open>2 ^ 64 - 1\<close> milliseconds or seconds, and no text is one that would be
  read as a truth value or a duration), and each of them is the parse of its printed source text,
  however its numbers are written: nested subgraphs, default attributes, graph attributes, edges
  and nodes come back as they were.\<close>

theorem parse_print:
  "(ok_graph g \<longleftrightarrow> (\<exists>s. parse s = Some (Inr g))) \<and>
   (ok_graph g \<longrightarrow> (\<exists>ws. list_all2 spells (print_graph g) ws) \<and>
      (\<forall>ws. list_all2 spells (print_graph g) ws \<longrightarrow> parse (print_tokens ws) = Some (Inr g)))"
  using parse_produces [of _ g] parse_print_ok [of g] ok_graph_spellings [of g] by blast

theorem parse_print_witness:
  "parse (print_tokens [''digraph'', ''g'', ''{'', quoted ''a b'', ''['',
       quoted ''timeout'', ''='', quoted ''5000ms'', '','', quoted ''weight'', ''='', ''0.5'', '','', '']'', '';'',
       ''subgraph'', ''{'', quoted ''a b'', ''->'', quoted ''c'', ''['', '']'', '';'', ''}'', '';'', ''}'']) =
   Some (Inr (DotGraph (Some ''g'') True
       [SNode \<lparr>dn_id = ''a b'', dn_attrs = [\<lparr>attr_key = ''timeout'', attr_value = DDuration (from_secs 5)\<rparr>,
          \<lparr>attr_key = ''weight'', attr_value = DNumber (F_Fin False (2 ^ 52) (- 53))\<rparr>]\<rparr>,
        SSubgraph (DotGraph None False [SEdge \<lparr>de_from = ''a b'', de_to = ''c'', de_attrs = []\<rparr>])]))"
proof -
  let ?g = "DotGraph (Some ''g'') True
       [SNode \<lparr>dn_id = ''a b'', dn_attrs = [\<lparr>attr_key = ''timeout'', attr_value = DDuration (from_secs 5)\<rparr>,
          \<lparr>attr_key = ''weight'', attr_value = DNumber (F_Fin False (2 ^ 52) (- 53))\<rparr>]\<rparr>,
        SSubgraph (DotGraph None False [SEdge \<lparr>de_from = ''a b'', de_to = ''c'', de_attrs = []\<rparr>])]"
  have num: "number_literal ''0.5'' (F_Fin False (2 ^ 52) (- 53))" by code_simp
  have name: "ident_word ''g''" by code_simp
  have ms: "dec 5000 = ''5000''" by code_simp
  have "ok_graph ?g" using num name by (auto simp: ok_attrs_def from_secs_def)
  moreover have "list_all2 spells (print_graph ?g) [''digraph'', ''g'', ''{'', quoted ''a b'', ''['',
       quoted ''timeout'', ''='', quoted ''5000ms'', '','', quoted ''weight'', ''='', ''0.5'', '','', '']'', '';'',
       ''subgraph'', ''{'', quoted ''a b'', ''->'', quoted ''c'', ''['', '']'', '';'', ''}'', '';'', ''}'']"
    using num name by (simp add: print_graph_def print_name_def print_attrs_def print_attr_def from_secs_def ms)
  ultimately show ?thesis using parse_print [of ?g] by blast
qed

text \<open>The tokens of an edge chain.\<close>

definition chain_tokens :: "string list \<Rightarrow> token list" where
  "chain_tokens ids = concat (map (\<lambda>i. [TArrow, TStringLit i]) ids)"

lemma parse_chain_loop_tokens:
  "peek ts \<noteq> TArrow \<Longrightarrow> peek ts \<noteq> TDashDash \<Longrightarrow>
     parse_chain_loop (chain_tokens ids @ ts) acc = Inr (acc @ ids, ts)"
proof (induction ids arbitrary: acc)
  case Nil
  then show ?case by (simp add: chain_tokens_def parse_chain_loop.simps)
next
  case (Cons i ids)
  then show ?case
    by (subst parse_chain_loop.simps) (simp add: chain_tokens_def parse_id_def advance_def)
qed

lemma chain_edges_nth:
  "chain_edges ids as =
     map (\<lambda>i. SEdge \<lparr>de_from = ids ! i, de_to = ids ! (i + 1),
            de_attrs = (if i + 2 = length ids then as else [])\<rparr>) [0..<length ids - 1]"
proof (induction ids as rule: chain_edges.induct)
  case (1 a b c ns as)
  show ?case
    unfolding chain_edges.simps 1
    by (rule nth_equalityI) (auto simp: nth_Cons' nth_append split: nat.splits)
qed auto

lemma chain_edges_Cons: "2 \<le> length ids \<Longrightarrow> \<exists>e es. chain_edges ids as = e # es"
  by (cases "(ids, as)" rule: chain_edges.cases) auto

text \<open>An edge chain \<open>a -> b -> c [attrs]\<close> of any length becomes one edge per consecutive pair, in
  order, and the attributes go to the last edge only.\<close>

theorem parse_edge_chain_expansion:
  assumes "ids \<noteq> []" "ok_attrs as"
    "list_all2 spells ([TDigraph, TLBrace, TStringLit a] @ chain_tokens ids @ print_attrs as @ [TRBrace]) ws"
  shows "parse (print_tokens ws) = Some (Inr (DotGraph None True
      (map (\<lambda>i. SEdge \<lparr>de_from = (a # ids) ! i, de_to = ids ! i,
                  de_attrs = (if i + 1 = length ids then as else [])\<rparr>) [0..<length ids])))"
proof -
  let ?ts = "[TDigraph, TLBrace, TStringLit a] @ chain_tokens ids @ print_attrs as @ [TRBrace]"
  let ?es = "chain_edges (a # ids) as"
  obtain i ids2 where i: "ids = i # ids2" using assms(1) by (cases ids) auto
  obtain e es where es: "?es = e # es" using chain_edges_Cons [of "a # ids" as] i by auto
  have pk: "peek (chain_tokens ids @ x) = TArrow" for x by (simp add: chain_tokens_def i)
  have loop: "parse_chain_loop (chain_tokens ids @ print_attrs as @ x) [a] = Inr (a # ids, print_attrs as @ x)" for x
    by (subst parse_chain_loop_tokens) (simp_all add: print_attrs_peek)
  have st: "parse_stmt n (TStringLit a # chain_tokens ids @ print_attrs as @ x) [] = Some (Inr (e, x, es))" for n x
    unfolding parse_stmt.simps
    by (simp add: parse_id_def advance_def pk parse_edge_chain_def loop print_attrs_peek
        parse_attr_list_print [OF assms(2)] extend_pop_def es)
  have "parse_graph (Suc (Suc n)) (?ts @ [TEof]) = Some (Inr (DotGraph None True ?es))" for n
    using st by (simp add: parse_graph_def parse_name_def expect_def advance_def parse_stmt_list.simps es)
  moreover have "tokenize (print_tokens ws) = Inr (?ts @ [TEof])"
    using tokenize_from_print [OF assms(3), of 0 "[]"] by (simp add: tokenize_def)
  moreover have "?es = map (\<lambda>i. SEdge \<lparr>de_from = (a # ids) ! i, de_to = ids ! i,
                  de_attrs = (if i + 1 = length ids then as else [])\<rparr>) [0..<length ids]"
    by (simp add: chain_edges_nth)
  ultimately show ?thesis by (simp add: parse_def)
qed

theorem parse_edge_chain_expansion_witness:
  "parse (print_tokens [''digraph'', ''{'', quoted ''a'', ''->'', quoted ''b'', ''->'', quoted ''c'', ''['',
       quoted ''label'', ''='', quoted ''go'', '','', '']'', ''}'']) =
    Some (Inr (DotGraph None True
      [SEdge \<lparr>de_from = ''a'', de_to = ''b'', de_attrs = []\<rparr>,
       SEdge \<lparr>de_from = ''b'', de_to = ''c'', de_attrs = [\<lparr>attr_key = ''label'', attr_value = DString ''go''\<rparr>]\<rparr>]))"
proof -
  have "list_all2 spells ([TDigraph, TLBrace, TStringLit ''a''] @ chain_tokens [''b'', ''c''] @
       print_attrs [\<lparr>attr_key = ''label'', attr_value = DString ''go''\<rparr>] @ [TRBrace])
     [''digraph'', ''{'', quoted ''a'', ''->'', quoted ''b'', ''->'', quoted ''c'', ''['',
       quoted ''label'', ''='', quoted ''go'', '','', '']'', ''}'']"
    by (simp add: chain_tokens_def print_attrs_def print_attr_def)
  moreover have "ok_attrs [\<lparr>attr_key = ''label'', attr_value = DString ''go''\<rparr>]"
    by (simp add: ok_attrs_def) code_simp
  ultimately show ?thesis using parse_edge_chain_expansion [of "[''b'', ''c'']"] by (simp add: upt_rec)
qed

text \<open>A quoted attribute value that spells a Boolean or a duration is not kept as text: the edge
  label \<open>"true"\<close> of the routing documentation becomes the Boolean \<open>true\<close>, and \<open>"5m"\<close> a duration.\<close>

theorem parse_coerces_quoted_values:
  "parse (''digraph { a -> b [label='' @ quoted ''true'' @ ''] a -> b [label='' @ quoted ''5m'' @ ''] }'') =
    Some (Inr (DotGraph None True
      [SEdge \<lparr>de_from = ''a'', de_to = ''b'', de_attrs = [\<lparr>attr_key = ''label'', attr_value = DBool True\<rparr>]\<rparr>,
       SEdge \<lparr>de_from = ''a'', de_to = ''b'',
          de_attrs = [\<lparr>attr_key = ''label'', attr_value = DDuration (from_secs 300)\<rparr>]\<rparr>]))"
  by code_simp

end
