(* ===== verification/Graph.thy ===== *)
theory Graph
  imports Dot_Parser
begin

text \<open>
  The semantic graph of \<open>graph/mod.rs\<close>: node types, nodes, edges, the queries on a graph, and
  \<open>resolve\<close>, which turns a syntax tree into a graph in three passes over its statements
  and one over the edges.  Attribute maps are \<open>str_map\<close>s.  The \<open>Debug\<close> text inside
  \<open>InvalidAttribute\<close> is represented by the value it shows.
\<close>

section \<open>Data\<close>

datatype node_type =
    Start | Exit | Codergen | Conditional | Tool | Interviewer | Parallel | FanIn | Manager
  | SubPipeline | Generic

datatype attr_val = AString string | ANumber f64 | ADuration duration | ABool bool

record graph_node =
  gn_id :: string
  gn_type :: node_type
  gn_label :: "string option"
  gn_attrs :: "attr_val str_map"

record graph_edge =
  ge_from :: string
  ge_to :: string
  ge_label :: "string option"
  ge_condition :: "string option"
  ge_priority :: "int option"
  ge_loop_restart :: bool
  ge_attrs :: "attr_val str_map"

record graph =
  g_name :: "string option"
  g_nodes :: "graph_node list"
  g_edges :: "graph_edge list"
  g_default_node_attrs :: "attr_val str_map"
  g_default_edge_attrs :: "attr_val str_map"
  g_graph_attrs :: "attr_val str_map"

datatype resolution_error = DuplicateNode string | InvalidAttribute string attr_val

section \<open>Queries\<close>

definition node :: "graph \<Rightarrow> string \<Rightarrow> graph_node option" where
  "node g i = List.find (\<lambda>n. gn_id n = i) (g_nodes g)"

definition edges_from :: "graph \<Rightarrow> string \<Rightarrow> graph_edge list" where
  "edges_from g i = filter (\<lambda>e. ge_from e = i) (g_edges g)"

definition edges_to :: "graph \<Rightarrow> string \<Rightarrow> graph_edge list" where
  "edges_to g i = filter (\<lambda>e. ge_to e = i) (g_edges g)"

definition start_nodes :: "graph \<Rightarrow> graph_node list" where
  "start_nodes g = filter (\<lambda>n. gn_type n = Start) (g_nodes g)"

definition exit_nodes :: "graph \<Rightarrow> graph_node list" where
  "exit_nodes g = filter (\<lambda>n. gn_type n = Exit) (g_nodes g)"

definition successors :: "graph \<Rightarrow> string \<Rightarrow> string list" where
  "successors g i = map ge_to (filter (\<lambda>e. ge_from e = i) (g_edges g))"

definition predecessors :: "graph \<Rightarrow> string \<Rightarrow> string list" where
  "predecessors g i = map ge_from (filter (\<lambda>e. ge_to e = i) (g_edges g))"

definition node_model :: "graph_node \<Rightarrow> string option" where
  "node_model n =
     (case gn_attrs n ''model'' of
        Some (AString s) \<Rightarrow> if s \<noteq> [] then Some s else None
      | _ \<Rightarrow> None)"

definition referenced_models :: "graph \<Rightarrow> string list" where
  "referenced_models g = remdups_adj (sort (List.map_filter node_model (g_nodes g)))"

section \<open>Attributes\<close>

fun convert_value :: "dot_value \<Rightarrow> attr_val" where
  "convert_value (DString s) = AString s"
| "convert_value (DNumber n) = ANumber n"
| "convert_value (DDuration d) = ADuration d"
| "convert_value (DBool b) = ABool b"

definition attr_pair :: "dot_attr \<Rightarrow> string \<times> attr_val" where
  "attr_pair a = (attr_key a, convert_value (attr_value a))"

definition convert_attrs :: "dot_attr list \<Rightarrow> attr_val str_map" where
  "convert_attrs attrs = insert_all (map attr_pair attrs) Map.empty"

definition node_type_from_shape :: "string \<Rightarrow> node_type" where
  "node_type_from_shape shape =
     (if shape \<in> {''circle'', ''point'', ''Mdiamond''} then Start
      else if shape \<in> {''doublecircle'', ''Msquare''} then Exit
      else if shape \<in> {''box'', ''rectangle''} then Codergen
      else if shape = ''diamond'' then Conditional
      else if shape \<in> {''hexagon'', ''oval'', ''ellipse''} then Interviewer
      else if shape = ''parallelogram'' then Tool
      else if shape = ''component'' then Parallel
      else if shape = ''tripleoctagon'' then FanIn
      else if shape = ''house'' then Manager
      else Generic)"

definition resolve_shape :: "attr_val str_map \<Rightarrow> attr_val str_map \<Rightarrow> string option" where
  "resolve_shape node_attrs default_attrs =
     (case (case node_attrs ''shape'' of Some v \<Rightarrow> Some v | None \<Rightarrow> default_attrs ''shape'') of
        Some (AString s) \<Rightarrow> Some s
      | _ \<Rightarrow> None)"

definition extract_label :: "attr_val str_map \<Rightarrow> string option" where
  "extract_label attrs = (case attrs ''label'' of Some (AString s) \<Rightarrow> Some s | _ \<Rightarrow> None)"

definition extract_condition :: "attr_val str_map \<Rightarrow> string option" where
  "extract_condition attrs =
     (case attrs ''condition'' of
        Some (AString s) \<Rightarrow> Some s
      | _ \<Rightarrow> (case attrs ''label'' of Some (AString s) \<Rightarrow> Some s | _ \<Rightarrow> None))"

definition extract_priority :: "attr_val str_map \<Rightarrow> resolution_error + int option" where
  "extract_priority attrs =
     (case attrs ''priority'' of
        Some (ANumber n) \<Rightarrow> Inr (Some (f64_as_i32 n))
      | Some other \<Rightarrow> Inl (InvalidAttribute ''priority'' other)
      | None \<Rightarrow> Inr None)"

definition extract_loop_restart :: "attr_val str_map \<Rightarrow> bool" where
  "extract_loop_restart attrs =
     (case attrs ''loop_restart'' of
        Some (ABool b) \<Rightarrow> b
      | Some (AString s) \<Rightarrow> to_lower s = ''true''
      | _ \<Rightarrow> False)"

section \<open>Resolution\<close>

text \<open>First pass: the default and graph attributes.\<close>

fun collect_defaults ::
  "dot_statement list \<Rightarrow> attr_val str_map \<times> attr_val str_map \<times> attr_val str_map \<Rightarrow>
   attr_val str_map \<times> attr_val str_map \<times> attr_val str_map" where
  "collect_defaults [] acc = acc"
| "collect_defaults (SDefaultNode attrs # ss) (dn, de, ga) =
     collect_defaults ss (insert_all (map attr_pair attrs) dn, de, ga)"
| "collect_defaults (SDefaultEdge attrs # ss) (dn, de, ga) =
     collect_defaults ss (dn, insert_all (map attr_pair attrs) de, ga)"
| "collect_defaults (SAttr a # ss) (dn, de, ga) =
     collect_defaults ss (dn, de, insert_all [attr_pair a] ga)"
| "collect_defaults (_ # ss) acc = collect_defaults ss acc"

definition shape_type :: "attr_val str_map \<Rightarrow> attr_val str_map \<Rightarrow> node_type" where
  "shape_type attrs defaults =
     (case resolve_shape attrs defaults of Some s \<Rightarrow> node_type_from_shape s | None \<Rightarrow> Codergen)"

definition make_node :: "attr_val str_map \<Rightarrow> dot_node \<Rightarrow> graph_node" where
  "make_node defaults dn =
     (let all_attrs = convert_attrs (dn_attrs dn) in
      \<lparr>gn_id = dn_id dn,
       gn_type = shape_type all_attrs defaults,
       gn_label = extract_label all_attrs,
       gn_attrs = map_filter_keys (\<lambda>k. k \<noteq> ''shape'' \<and> k \<noteq> ''label'') all_attrs\<rparr>)"

text \<open>Second pass: the declared nodes; \<open>seen\<close> maps an id to its index.\<close>

fun resolve_nodes ::
  "attr_val str_map \<Rightarrow> dot_statement list \<Rightarrow> graph_node list \<Rightarrow> nat str_map \<Rightarrow>
   resolution_error + graph_node list \<times> nat str_map" where
  "resolve_nodes defaults [] nodes seen = Inr (nodes, seen)"
| "resolve_nodes defaults (SNode dn # ss) nodes seen =
     (if seen (dn_id dn) \<noteq> None then Inl (DuplicateNode (dn_id dn))
      else resolve_nodes defaults ss (nodes @ [make_node defaults dn]) (seen(dn_id dn \<mapsto> length nodes)))"
| "resolve_nodes defaults (_ # ss) nodes seen = resolve_nodes defaults ss nodes seen"

definition reserved_edge_key :: "string \<Rightarrow> bool" where
  "reserved_edge_key k \<longleftrightarrow>
     k = ''label'' \<or> k = ''condition'' \<or> k = ''priority'' \<or> k = ''loop_restart''"

definition make_edge :: "dot_edge \<Rightarrow> resolution_error + graph_edge" where
  "make_edge de =
     (let all_attrs = convert_attrs (de_attrs de) in
      res_bind (extract_priority all_attrs) (\<lambda>priority.
        Inr \<lparr>ge_from = de_from de, ge_to = de_to de,
             ge_label = extract_label all_attrs,
             ge_condition = extract_condition all_attrs,
             ge_priority = priority,
             ge_loop_restart = extract_loop_restart all_attrs,
             ge_attrs = map_filter_keys (\<lambda>k. \<not> reserved_edge_key k) all_attrs\<rparr>))"

text \<open>Third pass: the edges.\<close>

fun resolve_edges :: "dot_statement list \<Rightarrow> graph_edge list \<Rightarrow> resolution_error + graph_edge list" where
  "resolve_edges [] edges = Inr edges"
| "resolve_edges (SEdge de # ss) edges =
     res_bind (make_edge de) (\<lambda>e. resolve_edges ss (edges @ [e]))"
| "resolve_edges (_ # ss) edges = resolve_edges ss edges"

text \<open>The nodes that edges mention and no statement declares.\<close>

definition auto_node :: "attr_val str_map \<Rightarrow> string \<Rightarrow> graph_node" where
  "auto_node defaults i =
     \<lparr>gn_id = i, gn_type = shape_type Map.empty defaults, gn_label = None, gn_attrs = Map.empty\<rparr>"

fun create_nodes ::
  "attr_val str_map \<Rightarrow> string list \<Rightarrow> graph_node list \<Rightarrow> nat str_map \<Rightarrow> graph_node list" where
  "create_nodes defaults [] nodes seen = nodes"
| "create_nodes defaults (i # is) nodes seen =
     (if seen i \<noteq> None then create_nodes defaults is nodes seen
      else create_nodes defaults is (nodes @ [auto_node defaults i]) (seen(i \<mapsto> length nodes)))"

definition edge_ends :: "graph_edge list \<Rightarrow> string list" where
  "edge_ends edges = concat (map (\<lambda>e. [ge_from e, ge_to e]) edges)"

definition resolve :: "dot_graph \<Rightarrow> resolution_error + graph" where
  "resolve dg =
     (let ss = dg_statements dg;
          (dn, de, ga) = collect_defaults ss (Map.empty, Map.empty, Map.empty) in
      res_bind (resolve_nodes dn ss [] Map.empty) (\<lambda>(nodes, seen).
      res_bind (resolve_edges ss []) (\<lambda>edges.
        Inr \<lparr>g_name = dg_name dg,
             g_nodes = create_nodes dn (edge_ends edges) nodes seen,
             g_edges = edges,
             g_default_node_attrs = dn,
             g_default_edge_attrs = de,
             g_graph_attrs = ga\<rparr>)))"

section \<open>What resolution keeps\<close>

fun node_decls :: "dot_statement list \<Rightarrow> dot_node list" where
  "node_decls [] = []"
| "node_decls (SNode n # ss) = n # node_decls ss"
| "node_decls (_ # ss) = node_decls ss"

fun edge_decls :: "dot_statement list \<Rightarrow> dot_edge list" where
  "edge_decls [] = []"
| "edge_decls (SEdge e # ss) = e # edge_decls ss"
| "edge_decls (_ # ss) = edge_decls ss"

fun is_subgraph :: "dot_statement \<Rightarrow> bool" where
  "is_subgraph (SSubgraph g) = True"
| "is_subgraph _ = False"

text \<open>A source without subgraphs: every declaration stands at the top level.\<close>

definition flat_source :: "dot_graph \<Rightarrow> bool" where
  "flat_source dg \<longleftrightarrow> list_all (\<lambda>s. \<not> is_subgraph s) (dg_statements dg)"

definition node_ids :: "graph \<Rightarrow> string list" where
  "node_ids g = map gn_id (g_nodes g)"

definition wf_graph :: "graph \<Rightarrow> bool" where
  "wf_graph g \<longleftrightarrow> distinct (node_ids g) \<and>
     list_all (\<lambda>e. ge_from e \<in> set (node_ids g) \<and> ge_to e \<in> set (node_ids g)) (g_edges g)"

text \<open>The ids of a list that are not in a set, once each, in order of first mention.\<close>

fun fresh_ids :: "string set \<Rightarrow> string list \<Rightarrow> string list" where
  "fresh_ids S [] = []"
| "fresh_ids S (i # is) = (if i \<in> S then fresh_ids S is else i # fresh_ids (insert i S) is)"

lemma fresh_ids_props: "distinct (fresh_ids S is) \<and> set (fresh_ids S is) = set is - S"
  by (induction S "is" rule: fresh_ids.induct) auto

lemma make_node_id [simp]: "gn_id (make_node d n) = dn_id n"
  by (simp add: make_node_def Let_def)

lemma auto_node_id [simp]: "gn_id (auto_node d i) = i"
  by (simp add: auto_node_def)


lemma make_edge_ok: "is_ok (make_edge de) \<longleftrightarrow> is_ok (extract_priority (convert_attrs (de_attrs de)))"
  by (cases "extract_priority (convert_attrs (de_attrs de))") (auto simp: make_edge_def Let_def)

lemma resolve_nodes_ok:
  "resolve_nodes d ss nodes seen = Inr (nodes', seen') \<Longrightarrow>
     nodes' = nodes @ map (make_node d) (node_decls ss) \<and>
     dom seen' = dom seen \<union> dn_id ` set (node_decls ss) \<and>
     distinct (map dn_id (node_decls ss)) \<and> dom seen \<inter> dn_id ` set (node_decls ss) = {}"
proof (induction d ss nodes seen rule: resolve_nodes.induct)
  case (2 d n ss nodes seen)
  then have n: "seen (dn_id n) = None" by (auto split: if_splits)
  have d: "dom (seen(dn_id n \<mapsto> length nodes)) = insert (dn_id n) (dom seen)" by auto
  from 2 n have IH: "nodes' = (nodes @ [make_node d n]) @ map (make_node d) (node_decls ss)"
    "dom seen' = dom (seen(dn_id n \<mapsto> length nodes)) \<union> dn_id ` set (node_decls ss)"
    "distinct (map dn_id (node_decls ss))"
    "dom (seen(dn_id n \<mapsto> length nodes)) \<inter> dn_id ` set (node_decls ss) = {}"
    by (simp_all del: fun_upd_apply)
  from n IH show ?case unfolding d by auto
qed auto

lemma resolve_nodes_total:
  "distinct (map dn_id (node_decls ss)) \<Longrightarrow> dom seen \<inter> dn_id ` set (node_decls ss) = {} \<Longrightarrow>
     is_ok (resolve_nodes d ss nodes seen)"
proof (induction d ss nodes seen rule: resolve_nodes.induct)
  case (2 d n ss nodes seen)
  then have n: "seen (dn_id n) = None" by (auto simp: domIff)
  have "dom (seen(dn_id n \<mapsto> length nodes)) = insert (dn_id n) (dom seen)" by auto
  with 2 n have "is_ok (resolve_nodes d ss (nodes @ [make_node d n]) (seen(dn_id n \<mapsto> length nodes)))"
    by (simp del: fun_upd_apply)
  with n show ?case by simp
qed auto

lemma resolve_edges_Inr:
  "resolve_edges ss edges = Inr es \<longleftrightarrow>
     (\<exists>es'. es = edges @ es' \<and> list_all2 (\<lambda>de e. make_edge de = Inr e) (edge_decls ss) es')"
proof (induction ss edges arbitrary: es rule: resolve_edges.induct)
  case (2 de ss edges)
  show ?case
  proof
    assume "resolve_edges (SEdge de # ss) edges = Inr es"
    then obtain e where "make_edge de = Inr e" "resolve_edges ss (edges @ [e]) = Inr es"
      by (auto simp: res_simps)
    with 2 show "\<exists>es'. es = edges @ es' \<and>
        list_all2 (\<lambda>de e. make_edge de = Inr e) (edge_decls (SEdge de # ss)) es'"
      by (auto simp: list_all2_Cons1)
  next
    assume "\<exists>es'. es = edges @ es' \<and>
        list_all2 (\<lambda>de e. make_edge de = Inr e) (edge_decls (SEdge de # ss)) es'"
    with 2 show "resolve_edges (SEdge de # ss) edges = Inr es" by (auto simp: list_all2_Cons1)
  qed
qed auto

lemma resolve_edges_total:
  "is_ok (resolve_edges ss edges) \<longleftrightarrow> (\<forall>de\<in>set (edge_decls ss). is_ok (make_edge de))"
proof (induction ss edges rule: resolve_edges.induct)
  case (2 de ss edges)
  then show ?case by (cases "make_edge de") auto
qed auto

lemma create_nodes_eq:
  "create_nodes d is nodes seen = nodes @ map (auto_node d) (fresh_ids (dom seen) is)"
proof (induction d "is" nodes seen rule: create_nodes.induct)
  case (2 d i "is" nodes seen)
  have "dom (seen(i \<mapsto> length nodes)) = insert i (dom seen)" by auto
  with 2 show ?case by (simp add: domIff del: fun_upd_apply)
qed simp


lemma resolve_Inr:
  assumes "resolve dg = Inr g"
  obtains dn de ga where
    "collect_defaults (dg_statements dg) (Map.empty, Map.empty, Map.empty) = (dn, de, ga)"
    "g_nodes g = map (make_node dn) (node_decls (dg_statements dg)) @
       map (auto_node dn) (fresh_ids (dn_id ` set (node_decls (dg_statements dg))) (edge_ends (g_edges g)))"
    "list_all2 (\<lambda>de e. make_edge de = Inr e) (edge_decls (dg_statements dg)) (g_edges g)"
    "distinct (map dn_id (node_decls (dg_statements dg)))"
proof -
  let ?ss = "dg_statements dg"
  obtain dn de ga where d: "collect_defaults ?ss (Map.empty, Map.empty, Map.empty) = (dn, de, ga)"
    by (cases "collect_defaults ?ss (Map.empty, Map.empty, Map.empty)") auto
  from assms d obtain nodes seen edges where
    r: "resolve_nodes dn ?ss [] Map.empty = Inr (nodes, seen)" "resolve_edges ?ss [] = Inr edges"
      "g_nodes g = create_nodes dn (edge_ends edges) nodes seen" "g_edges g = edges"
    unfolding resolve_def by (auto simp: Let_def res_simps)
  with d resolve_nodes_ok [OF r(1)] show thesis
    by (intro that [of dn de ga]) (auto simp: create_nodes_eq resolve_edges_Inr)
qed

lemma resolve_wf:
  assumes "resolve dg = Inr g"
  shows "wf_graph g"
proof -
  let ?ss = "dg_statements dg"
  from resolve_Inr [OF assms] obtain dn de ga where
    n: "g_nodes g = map (make_node dn) (node_decls ?ss) @
       map (auto_node dn) (fresh_ids (dn_id ` set (node_decls ?ss)) (edge_ends (g_edges g)))"
      "distinct (map dn_id (node_decls ?ss))" by metis
  let ?S = "dn_id ` set (node_decls ?ss)"
  have ids: "node_ids g = map dn_id (node_decls ?ss) @ fresh_ids ?S (edge_ends (g_edges g))"
    by (simp add: node_ids_def n(1) o_def)
  have fr: "distinct (fresh_ids ?S (edge_ends (g_edges g)))"
    "set (fresh_ids ?S (edge_ends (g_edges g))) = set (edge_ends (g_edges g)) - ?S"
    using fresh_ids_props by auto
  have "distinct (node_ids g)" using n(2) fr by (auto simp: ids)
  moreover have "set (edge_ends (g_edges g)) \<subseteq> set (node_ids g)" using fr(2) by (auto simp: ids)
  then have "ge_from e \<in> set (node_ids g) \<and> ge_to e \<in> set (node_ids g)" if "e \<in> set (g_edges g)" for e
    using that by (auto simp: edge_ends_def)
  ultimately show ?thesis by (simp add: wf_graph_def list_all_iff)
qed

section \<open>Lookups in a graph with distinct ids\<close>

lemma node_Some: "node g i = Some n \<Longrightarrow> n \<in> set (g_nodes g) \<and> gn_id n = i"
  unfolding node_def by (rule find_Some_mem)

lemma node_None_iff: "node g i = None \<longleftrightarrow> i \<notin> set (node_ids g)"
  unfolding node_def node_ids_def by (auto simp: find_None_iff_all)

lemma node_exists: "i \<in> set (node_ids g) \<Longrightarrow> \<exists>n. node g i = Some n"
  using node_None_iff [of g i] by auto

lemma node_unique:
  assumes "wf_graph g" "n \<in> set (g_nodes g)"
  shows "node g (gn_id n) = Some n"
proof -
  from assms obtain m where m: "node g (gn_id n) = Some m"
    using node_exists by (fastforce simp: node_ids_def)
  from node_Some [OF m] assms have "m = n"
    by (auto simp: wf_graph_def node_ids_def distinct_map dest: inj_onD)
  with m show ?thesis by simp
qed

lemma edges_from_mem: "e \<in> set (edges_from g i) \<longleftrightarrow> e \<in> set (g_edges g) \<and> ge_from e = i"
  by (auto simp: edges_from_def)

section \<open>Properties\<close>

text \<open>A small pipeline the witnesses below run on: a start node, a step and an exit.\<close>

definition sample_dot :: dot_graph where
  "sample_dot = DotGraph (Some ''p'') True
     [SNode \<lparr>dn_id = ''s'', dn_attrs = [\<lparr>attr_key = ''shape'', attr_value = DString ''circle''\<rparr>]\<rparr>,
      SEdge \<lparr>de_from = ''s'', de_to = ''w'', de_attrs = []\<rparr>,
      SEdge \<lparr>de_from = ''w'', de_to = ''x'',
         de_attrs = [\<lparr>attr_key = ''label'', attr_value = DString ''go''\<rparr>]\<rparr>,
      SNode \<lparr>dn_id = ''x'', dn_attrs = [\<lparr>attr_key = ''shape'', attr_value = DString ''Msquare''\<rparr>]\<rparr>]"

lemma sample_dot_resolves: "\<exists>g. resolve sample_dot = Inr g"
proof -
  have "is_ok (resolve sample_dot)" by code_simp
  then show ?thesis by (simp add: is_ok_iff)
qed

text \<open>C15. A resolved graph has no two nodes with one id, and every edge runs between nodes of the graph.\<close>

theorem resolve_well_formed:
  "resolve dg = Inr g \<Longrightarrow> distinct (map gn_id (g_nodes g)) \<and>
     (\<forall>e\<in>set (g_edges g). node g (ge_from e) \<noteq> None \<and> node g (ge_to e) \<noteq> None)"
  using resolve_wf [of dg g] by (auto simp: wf_graph_def node_ids_def list_all_iff node_None_iff)

theorem resolve_well_formed_witness:
  "\<exists>g. resolve sample_dot = Inr g \<and> distinct (map gn_id (g_nodes g)) \<and>
     list_all (\<lambda>e. node g (ge_from e) \<noteq> None \<and> node g (ge_to e) \<noteq> None) (g_edges g)"
  unfolding list_all_iff using sample_dot_resolves resolve_well_formed by blast



text \<open>C17. A source without subgraphs resolves exactly when no id is declared twice and every
  \<open>priority\<close> that an edge statement sets is a number.\<close>

theorem resolve_ok_iff:
  assumes "flat_source dg"
  shows "is_ok (resolve dg) \<longleftrightarrow>
     distinct (map dn_id (node_decls (dg_statements dg))) \<and>
     list_all (\<lambda>e. case convert_attrs (de_attrs e) ''priority'' of
         None \<Rightarrow> True | Some (ANumber _) \<Rightarrow> True | _ \<Rightarrow> False) (edge_decls (dg_statements dg))"
proof -
  let ?ss = "dg_statements dg"
  obtain dn de ga where d: "collect_defaults ?ss (Map.empty, Map.empty, Map.empty) = (dn, de, ga)"
    by (cases "collect_defaults ?ss (Map.empty, Map.empty, Map.empty)") auto
  have pr: "is_ok (extract_priority a) \<longleftrightarrow>
      (case a ''priority'' of None \<Rightarrow> True | Some (ANumber _) \<Rightarrow> True | _ \<Rightarrow> False)" for a
    by (auto simp: extract_priority_def split: option.split attr_val.split)
  have "is_ok (resolve_nodes dn ?ss [] Map.empty) \<longleftrightarrow> distinct (map dn_id (node_decls ?ss))"
    using resolve_nodes_total [of ?ss Map.empty dn "[]"] resolve_nodes_ok [of dn ?ss "[]" Map.empty]
    by (auto simp: is_ok_iff)
  moreover have "is_ok (resolve_edges ?ss []) \<longleftrightarrow>
      list_all (\<lambda>e. case convert_attrs (de_attrs e) ''priority'' of
         None \<Rightarrow> True | Some (ANumber _) \<Rightarrow> True | _ \<Rightarrow> False) (edge_decls ?ss)"
    by (simp add: resolve_edges_total make_edge_ok pr list_all_iff)
  moreover have "is_ok (resolve dg) \<longleftrightarrow>
      is_ok (resolve_nodes dn ?ss [] Map.empty) \<and> is_ok (resolve_edges ?ss [])"
    using d by (cases "resolve_nodes dn ?ss [] Map.empty"; cases "resolve_edges ?ss []")
      (auto simp: resolve_def Let_def)
  ultimately show ?thesis by simp
qed

theorem resolve_ok_iff_witness:
  "is_ok (resolve sample_dot) \<and> \<not> is_ok (resolve (DotGraph None True
     [SNode \<lparr>dn_id = ''a'', dn_attrs = []\<rparr>, SNode \<lparr>dn_id = ''a'', dn_attrs = []\<rparr>]))"
  by (subst (1 2) resolve_ok_iff)
    (auto simp: flat_source_def sample_dot_def convert_attrs_def attr_pair_def)

text \<open>Subgraph statements have no effect on the resolved graph: the nodes and edges declared inside
  them are dropped.\<close>

theorem resolve_drops_subgraphs:
  "resolve (DotGraph n d (filter (\<lambda>s. \<not> is_subgraph s) ss)) = resolve (DotGraph n d ss)"
proof -
  have "collect_defaults (filter (\<lambda>s. \<not> is_subgraph s) ss) acc = collect_defaults ss acc" for acc
    by (induction ss acc rule: collect_defaults.induct) auto
  moreover have "resolve_nodes dn (filter (\<lambda>s. \<not> is_subgraph s) ss) ns seen = resolve_nodes dn ss ns seen" for dn ns seen
    by (induction dn ss ns seen rule: resolve_nodes.induct) (simp_all del: fun_upd_apply)
  moreover have "resolve_edges (filter (\<lambda>s. \<not> is_subgraph s) ss) es = resolve_edges ss es" for es
    by (induction ss es rule: resolve_edges.induct) (auto intro: res_bind_cong)
  ultimately show ?thesis by (simp add: resolve_def Let_def)
qed

end
