(* ===== verification/Handler.thy ===== *)
theory Handler
  imports Graph State
begin

text \<open>
  Handlers and their registry, \<open>handler.rs\<close>.  A handler runs on a node, the shared context and the
  world outside the engine (\<open>'w\<close>: the LLM, the shell, the operator, the clock), all of which it may
  change.  The built-in handlers are definitions; the code-generation backend is a parameter.
\<close>

datatype handler_error =
    ExecutionFailed string string string \<comment> \<open>handler, node, message\<close>
  | NoHandler string
  | OtherError string

definition handler_error_text :: "handler_error \<Rightarrow> string" where
  "handler_error_text e =
     (case e of
        ExecutionFailed handler node_id message \<Rightarrow>
          ''handler '' @ [CHR 0x27] @ handler @ [CHR 0x27] @ '' failed on node '' @ [CHR 0x27] @ node_id @
          [CHR 0x27] @ '': '' @ message
      | NoHandler t \<Rightarrow> ''no handler registered for node type '' @ [CHR 0x27] @ t @ [CHR 0x27]
      | OtherError m \<Rightarrow> ''handler error: '' @ m)"

type_synonym 'w execution = "context_map \<times> 'w \<Rightarrow> (handler_error + outcome) \<times> context_map \<times> 'w"

record 'w handler =
  h_name :: string
  h_handles :: "node_type \<Rightarrow> bool"
  h_execute :: "graph_node \<Rightarrow> 'w execution"

type_synonym 'w backend = "string \<Rightarrow> string option \<Rightarrow> 'w execution"

section \<open>Built-in handlers\<close>

definition start_handler :: "'w handler" where
  "start_handler = \<lparr>h_name = ''start'', h_handles = (\<lambda>t. t = Start),
     h_execute = (\<lambda>n (ctx, w). (Inr success, context_set ''_started'' (JString ''true'') ctx, w))\<rparr>"

definition exit_handler :: "'w handler" where
  "exit_handler = \<lparr>h_name = ''exit'', h_handles = (\<lambda>t. t = Exit),
     h_execute = (\<lambda>n (ctx, w). (Inr success, context_set ''_completed'' (JString ''true'') ctx, w))\<rparr>"

definition conditional_handler :: "'w handler" where
  "conditional_handler = \<lparr>h_name = ''conditional'', h_handles = (\<lambda>t. t = Conditional),
     h_execute = (\<lambda>n s. (Inr success, s))\<rparr>"

definition codergen_prompt :: "graph_node \<Rightarrow> string option" where
  "codergen_prompt n =
     (case gn_attrs n ''prompt'' of Some (AString s) \<Rightarrow> Some s | _ \<Rightarrow> gn_label n)"

definition codergen_execute :: "'w backend \<Rightarrow> 'w backend option \<Rightarrow> graph_node \<Rightarrow> 'w execution" where
  "codergen_execute default_backend agent_backend n = (\<lambda>(ctx, w).
     case codergen_prompt n of
       None \<Rightarrow> (Inr (failure ''no prompt specified''), ctx, w)
     | Some prompt \<Rightarrow>
         (let model = (case gn_attrs n ''model'' of Some (AString s) \<Rightarrow> Some s | _ \<Rightarrow> None);
              ctx' = context_set ''_current_node_id'' (JString (gn_id n)) ctx;
              backend = (if gn_attrs n ''backend'' = Some (AString ''agent'')
                         then (case agent_backend of Some b \<Rightarrow> b | None \<Rightarrow> default_backend)
                         else default_backend)
          in backend prompt model (ctx', w)))"

definition codergen_handler :: "'w backend \<Rightarrow> 'w backend option \<Rightarrow> 'w handler" where
  "codergen_handler default_backend agent_backend =
     \<lparr>h_name = ''codergen'', h_handles = (\<lambda>t. t = Codergen),
      h_execute = codergen_execute default_backend agent_backend\<rparr>"

section \<open>The registry\<close>

type_synonym 'w registry = "'w handler list"

definition register :: "'w handler \<Rightarrow> 'w registry \<Rightarrow> 'w registry" where
  "register h reg = reg @ [h]"

definition get_handler :: "'w registry \<Rightarrow> node_type \<Rightarrow> 'w handler option" where
  "get_handler reg t = List.find (\<lambda>h. h_handles h t) reg"

fun debug_node_type :: "node_type \<Rightarrow> string" where
  "debug_node_type Start = ''Start''"
| "debug_node_type Exit = ''Exit''"
| "debug_node_type Codergen = ''Codergen''"
| "debug_node_type Conditional = ''Conditional''"
| "debug_node_type Tool = ''Tool''"
| "debug_node_type Interviewer = ''Interviewer''"
| "debug_node_type Parallel = ''Parallel''"
| "debug_node_type FanIn = ''FanIn''"
| "debug_node_type Manager = ''Manager''"
| "debug_node_type SubPipeline = ''SubPipeline''"
| "debug_node_type Generic = ''Generic''"

definition registry_execute :: "'w registry \<Rightarrow> graph_node \<Rightarrow> 'w execution" where
  "registry_execute reg n s =
     (case get_handler reg (gn_type n) of
        None \<Rightarrow> (Inl (NoHandler (debug_node_type (gn_type n))), s)
      | Some h \<Rightarrow> h_execute h n s)"

definition default_registry :: "'w registry" where
  "default_registry = register conditional_handler (register exit_handler (register start_handler []))"

section \<open>Facts\<close>

lemma get_handler_register:
  "get_handler (register h reg) t =
     (case get_handler reg t of Some h' \<Rightarrow> Some h' | None \<Rightarrow> if h_handles h t then Some h else None)"
  by (induction reg) (auto simp: get_handler_def register_def)

lemma get_handler_handles: "get_handler reg t = Some h \<Longrightarrow> h_handles h t \<and> h \<in> set reg"
  unfolding get_handler_def using find_Some_mem by metis

text \<open>A registry that keeps the default handlers first runs start and exit nodes itself.\<close>

lemma default_registry_start_exit:
  "gn_type n = Start \<Longrightarrow>
     registry_execute (default_registry @ reg) n (ctx, w) = (Inr success, context_set ''_started'' (JString ''true'') ctx, w)"
  "gn_type n = Exit \<Longrightarrow>
     registry_execute (default_registry @ reg) n (ctx, w) = (Inr success, context_set ''_completed'' (JString ''true'') ctx, w)"
  by (simp_all add: registry_execute_def get_handler_def default_registry_def register_def
      start_handler_def exit_handler_def conditional_handler_def)

end
