(* ===== verification/Parallel.thy ===== *)
theory Parallel
  imports Handler "HOL-Library.Multiset"
begin

text \<open>
  Parallel fan-out and fan-in, \<open>parallel.rs\<close>: merging the contexts of branches, collecting the
  results of branches in the order they complete, and the handler of parallel nodes.  A branch is a
  hash map listed in arbitrary order.  Running the branches concurrently is the work of
  \<open>buffer_unordered\<close> of the futures crate: the results in completion order are an argument.
\<close>

record parallel_config =
  pc_max_concurrency :: nat
  pc_fail_fast :: bool

definition default_parallel_config :: parallel_config where
  "default_parallel_config = \<lparr>pc_max_concurrency = 10, pc_fail_fast = False\<rparr>"

record parallel_result =
  pr_outcomes :: "outcome hmap"
  pr_succeeded :: "string list"
  pr_failed :: "string list"

definition all_succeeded :: "parallel_result \<Rightarrow> bool" where
  "all_succeeded r \<longleftrightarrow> pr_failed r = [] \<and> pr_succeeded r \<noteq> []"

definition any_failed :: "parallel_result \<Rightarrow> bool" where
  "any_failed r \<longleftrightarrow> pr_failed r \<noteq> []"

definition success_count :: "parallel_result \<Rightarrow> nat" where
  "success_count r = length (pr_succeeded r)"

definition failure_count :: "parallel_result \<Rightarrow> nat" where
  "failure_count r = length (pr_failed r)"

datatype merge_strategy = LastWriteWins | FirstWriteWins | Collect | ErrorOnConflict

datatype merge_error = Conflict "string list"

datatype parallel_error =
    ParExecutionFailed string
  | BranchFailed string string
  | ParTimeout
  | MergeFailed merge_error

section \<open>Merging contexts\<close>

type_synonym branch = "string hmap"

fun or_insert_all :: "('k \<times> 'v) list \<Rightarrow> ('k \<Rightarrow> 'v option) \<Rightarrow> 'k \<Rightarrow> 'v option" where
  "or_insert_all [] m = m"
| "or_insert_all ((k, v) # kvs) m = or_insert_all kvs (case m k of None \<Rightarrow> m(k \<mapsto> v) | Some _ \<Rightarrow> m)"

fun push_all :: "('k \<times> 'v) list \<Rightarrow> ('k \<Rightarrow> 'v list) \<Rightarrow> 'k \<Rightarrow> 'v list" where
  "push_all [] m = m"
| "push_all ((k, v) # kvs) m = push_all kvs (m(k := m k @ [v]))"

text \<open>The map of value lists has no entry where the list is empty.\<close>

definition collected :: "(string list \<Rightarrow> string) \<Rightarrow> string list \<Rightarrow> string option" where
  "collected to_json vals =
     (case vals of
        [] \<Rightarrow> None
      | first # _ \<Rightarrow> Some (if list_ex (\<lambda>v. v \<noteq> first) vals then to_json vals else first))"

fun conflict_all :: "branch \<Rightarrow> string str_map \<times> string list \<Rightarrow> string str_map \<times> string list" where
  "conflict_all [] acc = acc"
| "conflict_all ((k, v) # kvs) (m, cs) =
     conflict_all kvs
       (case m k of
          Some existing \<Rightarrow>
            if existing \<noteq> v then (m, if k \<in> set cs then cs else cs @ [k]) else (m, cs)
        | None \<Rightarrow> (m(k \<mapsto> v), cs))"

definition merge_contexts ::
  "(string list \<Rightarrow> string) \<Rightarrow> branch list \<Rightarrow> merge_strategy \<Rightarrow> merge_error + string str_map" where
  "merge_contexts to_json branches strategy =
     (case branches of
        [] \<Rightarrow> Inr Map.empty
      | [b] \<Rightarrow> Inr (hm_get b)
      | _ \<Rightarrow>
          (case strategy of
             LastWriteWins \<Rightarrow> Inr (fold insert_all branches Map.empty)
           | FirstWriteWins \<Rightarrow> Inr (fold or_insert_all branches Map.empty)
           | Collect \<Rightarrow> Inr (\<lambda>k. collected to_json (fold push_all branches (\<lambda>_. []) k))
           | ErrorOnConflict \<Rightarrow>
               (let (merged, conflicting) = fold conflict_all branches (Map.empty, []) in
                if conflicting = [] then Inr merged else Inl (Conflict (sort conflicting)))))"

section \<open>Collecting branch results\<close>

fun collect_results ::
  "bool \<Rightarrow> (string \<times> (handler_error + outcome)) list \<Rightarrow> parallel_result \<Rightarrow> parallel_error + parallel_result" where
  "collect_results fail_fast [] r = Inr r"
| "collect_results fail_fast ((node_id, Inr out) # rs) r =
     (let r1 = r\<lparr>pr_outcomes := hm_insert node_id out (pr_outcomes r)\<rparr> in
      if is_failure out
      then (let r2 = r1\<lparr>pr_failed := pr_failed r1 @ [node_id]\<rparr> in
            if fail_fast then Inr r2 else collect_results fail_fast rs r2)
      else collect_results fail_fast rs (r1\<lparr>pr_succeeded := pr_succeeded r1 @ [node_id]\<rparr>))"
| "collect_results fail_fast ((node_id, Inl err) # rs) r =
     (let r1 = r\<lparr>pr_outcomes := hm_insert node_id (failure (handler_error_text err)) (pr_outcomes r),
                 pr_failed := pr_failed r @ [node_id]\<rparr> in
      if fail_fast then Inl (BranchFailed node_id (handler_error_text err))
      else collect_results fail_fast rs r1)"

definition execute_parallel ::
  "(string \<times> (handler_error + outcome)) list \<Rightarrow> parallel_config \<Rightarrow> parallel_error + parallel_result" where
  "execute_parallel completed cfg =
     collect_results (pc_fail_fast cfg) completed \<lparr>pr_outcomes = [], pr_succeeded = [], pr_failed = []\<rparr>"

definition merge_strategy_str :: "merge_strategy \<Rightarrow> string" where
  "merge_strategy_str s =
     (case s of LastWriteWins \<Rightarrow> ''last_write_wins'' | FirstWriteWins \<Rightarrow> ''first_write_wins''
      | Collect \<Rightarrow> ''collect'' | ErrorOnConflict \<Rightarrow> ''error'')"

definition parallel_handler :: "parallel_config \<Rightarrow> merge_strategy \<Rightarrow> 'w handler" where
  "parallel_handler cfg strategy =
     \<lparr>h_name = ''parallel'', h_handles = (\<lambda>t. t = Parallel \<or> t = FanIn),
      h_execute = (\<lambda>n s.
        let max_concurrency = (case gn_attrs n ''max_concurrency'' of
              Some (ANumber x) \<Rightarrow> f64_as_u64 x | _ \<Rightarrow> pc_max_concurrency cfg);
            fail_fast = (case gn_attrs n ''fail_fast'' of Some (ABool b) \<Rightarrow> b | _ \<Rightarrow> pc_fail_fast cfg)
        in (Inr (success_with (JObject
              [(''fail_fast'', JBool fail_fast), (''handler'', JString ''parallel''),
               (''max_concurrency'', JNumber (JPosInt max_concurrency)),
               (''merge_strategy'', JString (merge_strategy_str strategy))])), s))\<rparr>"

section \<open>What merging does, per key\<close>

text \<open>The values of a key, in branch order.\<close>

definition branch_values :: "branch list \<Rightarrow> string \<Rightarrow> string list" where
  "branch_values bs k = List.map_filter (\<lambda>b. hm_get b k) bs"

lemma branch_values_simps [simp]:
  "branch_values [] k = []"
  "branch_values (b # bs) k = (case hm_get b k of Some v \<Rightarrow> v # branch_values bs k | None \<Rightarrow> branch_values bs k)"
  by (auto simp: branch_values_def List.map_filter_def split: option.split)

lemma insert_all_wf: "hm_wf b \<Longrightarrow> insert_all b m k = (case hm_get b k of Some v \<Rightarrow> Some v | None \<Rightarrow> m k)"
  by (simp add: insert_all_map_of map_add_def hm_get_def hm_wf_def distinct_map_of_rev)

lemma fold_insert_all:
  "list_all hm_wf bs \<Longrightarrow> fold insert_all bs m k =
     (if branch_values bs k = [] then m k else Some (last (branch_values bs k)))"
  by (induction bs arbitrary: m) (auto simp: insert_all_wf split: option.split)

lemma or_insert_all_get: "or_insert_all b m k = (case m k of Some v \<Rightarrow> Some v | None \<Rightarrow> hm_get b k)"
  by (induction b m rule: or_insert_all.induct) (auto simp: hm_get_def split: option.splits)

lemma fold_or_insert_all:
  "fold or_insert_all bs m k =
     (case m k of Some v \<Rightarrow> Some v | None \<Rightarrow>
        if branch_values bs k = [] then None else Some (hd (branch_values bs k)))"
  by (induction bs arbitrary: m) (auto simp: or_insert_all_get split: option.splits)

lemma push_all_get:
  "hm_wf b \<Longrightarrow> push_all b m k = m k @ (case hm_get b k of Some v \<Rightarrow> [v] | None \<Rightarrow> [])"
proof (induction b m rule: push_all.induct)
  case (2 k' v kvs m)
  then have "hm_wf kvs" "k' \<notin> fst ` set kvs" by (auto simp: hm_wf_def)
  moreover from this have "hm_get kvs k' = None" by (simp add: hm_get_def map_of_eq_None_iff)
  moreover have "push_all kvs (m(k' := m k' @ [v])) k =
      (m(k' := m k' @ [v])) k @ (case hm_get kvs k of Some v \<Rightarrow> [v] | None \<Rightarrow> [])"
    by (rule "2.IH") fact
  ultimately show ?case by (auto simp: hm_get_def)
qed (simp add: hm_get_def)

lemma fold_push_all:
  "list_all hm_wf bs \<Longrightarrow> fold push_all bs m k = m k @ branch_values bs k"
  by (induction bs arbitrary: m) (auto simp: push_all_get split: option.split)

lemma conflict_all_spec:
  assumes "conflict_all b (m, cs) = (m', cs')" "hm_wf b"
  shows "m' = or_insert_all b m \<and> (distinct cs \<longrightarrow> distinct cs') \<and>
    (\<forall>k. k \<in> set cs' \<longleftrightarrow> k \<in> set cs \<or> (\<exists>v x. hm_get b k = Some v \<and> m k = Some x \<and> x \<noteq> v))"
  using assms
proof (induction b arbitrary: m cs)
  case Nil
  then show ?case by (simp add: hm_get_def)
next
  case (Cons kv kvs)
  obtain k v where kv: "kv = (k, v)" by force
  have wf: "hm_wf kvs" and fresh: "hm_get kvs k = None"
    using Cons.prems(2) by (auto simp: hm_wf_def kv hm_get_def map_of_eq_None_iff)
  define m1 where "m1 = (case m k of None \<Rightarrow> m(k \<mapsto> v) | Some _ \<Rightarrow> m)"
  define cs1 where "cs1 = (case m k of Some x \<Rightarrow> if x \<noteq> v \<and> k \<notin> set cs then cs @ [k] else cs | None \<Rightarrow> cs)"
  have "conflict_all kvs (m1, cs1) = (m', cs')"
    using Cons.prems(1) by (auto simp: kv m1_def cs1_def split: option.splits if_splits)
  note IH = Cons.IH [OF this wf]
  have cs1: "j \<in> set cs1 \<longleftrightarrow> j \<in> set cs \<or> (j = k \<and> (\<exists>x. m k = Some x \<and> x \<noteq> v))" for j
    by (auto simp: cs1_def split: option.split)
  have m1: "j \<noteq> k \<Longrightarrow> m1 j = m j" for j by (auto simp: m1_def split: option.split)
  have "or_insert_all (kv # kvs) m = or_insert_all kvs m1" by (simp add: kv m1_def)
  moreover have "distinct cs \<Longrightarrow> distinct cs1" by (auto simp: cs1_def split: option.split)
  moreover have "k' \<in> set cs' \<longleftrightarrow> k' \<in> set cs \<or>
      (\<exists>w x. hm_get (kv # kvs) k' = Some w \<and> m k' = Some x \<and> x \<noteq> w)" for k'
    using IH cs1 m1 fresh by (cases "k' = k") (auto simp: kv hm_get_def)
  ultimately show ?case using IH by auto
qed

lemma fold_conflict_all:
  assumes "fold conflict_all bs (m, cs) = (m', cs')" "list_all hm_wf bs" "distinct cs"
  shows "m' = fold or_insert_all bs m \<and> distinct cs' \<and>
    (\<forall>k. k \<in> set cs' \<longleftrightarrow> k \<in> set cs \<or>
       (\<exists>v\<in>set (branch_values bs k). v \<noteq> (case m k of Some x \<Rightarrow> x | None \<Rightarrow> hd (branch_values bs k))))"
  using assms
proof (induction bs arbitrary: m cs)
  case (Cons b bs)
  obtain m1 cs1 where 1: "conflict_all b (m, cs) = (m1, cs1)" by force
  with Cons.prems(2,3) have s: "m1 = or_insert_all b m" "distinct cs1"
    "\<And>k. k \<in> set cs1 \<longleftrightarrow> k \<in> set cs \<or> (\<exists>v x. hm_get b k = Some v \<and> m k = Some x \<and> x \<noteq> v)"
    using conflict_all_spec [OF 1] by auto
  from 1 Cons.prems(1) have "fold conflict_all bs (m1, cs1) = (m', cs')" by simp
  note IH = Cons.IH [OF this _ s(2)]
  have g: "m1 k = (case m k of Some v \<Rightarrow> Some v | None \<Rightarrow> hm_get b k)" for k by (simp add: s(1) or_insert_all_get)
  have "k \<in> set cs' \<longleftrightarrow> k \<in> set cs \<or> (\<exists>v\<in>set (branch_values (b # bs) k).
      v \<noteq> (case m k of Some x \<Rightarrow> x | None \<Rightarrow> hd (branch_values (b # bs) k)))" for k
    using IH Cons.prems(2) s(3) [of k] g [of k]
    by (cases "m k"; cases "hm_get b k") auto
  then show ?case using IH Cons.prems(2) s(1) by simp
qed simp

definition agree :: "string list \<Rightarrow> bool" where
  "agree vals \<longleftrightarrow> list_all (\<lambda>v. v = hd vals) vals"

lemma agree_iff: "agree vals \<longleftrightarrow> (\<forall>v\<in>set vals. v = hd vals)"
  by (simp add: agree_def list_all_iff)

text \<open>No branch and one branch are shortcuts: the general case gives the same.\<close>

lemma merge_contexts_general:
  assumes "list_all hm_wf bs"
  shows "merge_contexts to_json bs strategy =
     (case strategy of
        LastWriteWins \<Rightarrow> Inr (fold insert_all bs Map.empty)
      | FirstWriteWins \<Rightarrow> Inr (fold or_insert_all bs Map.empty)
      | Collect \<Rightarrow> Inr (\<lambda>k. collected to_json (fold push_all bs (\<lambda>_. []) k))
      | ErrorOnConflict \<Rightarrow>
          (let (merged, conflicting) = fold conflict_all bs (Map.empty, []) in
           if conflicting = [] then Inr merged else Inl (Conflict (sort conflicting))))"
proof -
  consider (none) "bs = []" | (single) b where "bs = [b]" | (many) b c cs where "bs = b # c # cs"
    by (cases bs rule: remdups_adj.cases) auto
  then show ?thesis
  proof cases
    case none
    then show ?thesis by (cases strategy) (auto simp: merge_contexts_def collected_def)
  next
    case single
    then have b: "hm_wf b" using assms by simp
    obtain m cs where c: "conflict_all b (Map.empty, []) = (m, cs)" by force
    from conflict_all_spec [OF c b] have "cs = []" and m: "m = or_insert_all b Map.empty" by (auto simp: neq_Nil_conv)
    have i: "insert_all b Map.empty = hm_get b" using insert_all_wf [OF b] by (auto simp: fun_eq_iff split: option.split)
    have o: "or_insert_all b Map.empty = hm_get b" by (auto simp: or_insert_all_get fun_eq_iff)
    have p: "collected to_json (push_all b (\<lambda>_. []) k) = hm_get b k" for k
      using push_all_get [OF b, of "\<lambda>_. []" k] by (auto simp: collected_def split: option.splits)
    show ?thesis by (cases strategy) (simp_all add: merge_contexts_def single i o p c m \<open>cs = []\<close>)
  next
    case many
    show ?thesis unfolding many merge_contexts_def by simp
  qed
qed

text \<open>Merging is decided per key by the values the branches give it, in branch order, so the iteration
  order of the hash maps never matters: the last value, the first value, all of them as JSON when
  they differ, or a conflict that lists, sorted and once each, exactly the keys whose values
  differ.\<close>

theorem merge_contexts_spec:
  assumes "list_all hm_wf bs"
  shows "merge_contexts to_json bs strategy =
     (let vals = branch_values bs;
          by_key = (\<lambda>f. Inr (\<lambda>k. if vals k = [] then None else Some (f (vals k))))
      in case strategy of
        LastWriteWins \<Rightarrow> by_key last
      | FirstWriteWins \<Rightarrow> by_key hd
      | Collect \<Rightarrow> by_key (\<lambda>vs. if agree vs then hd vs else to_json vs)
      | ErrorOnConflict \<Rightarrow>
          (if \<forall>k. agree (vals k) then by_key hd
           else Inl (Conflict (sorted_list_of_set {k. \<not> agree (vals k)}))))"
proof -
  obtain m cs where c: "fold conflict_all bs (Map.empty, []) = (m, cs)" by force
  have m: "m = fold or_insert_all bs Map.empty" and d: "distinct cs"
    and "\<And>k. k \<in> set cs \<longleftrightarrow> (\<exists>v\<in>set (branch_values bs k). v \<noteq> hd (branch_values bs k))"
    using fold_conflict_all [OF c assms] by auto
  then have ks: "set cs = {k. \<not> agree (branch_values bs k)}" by (auto simp: agree_iff)
  then have e: "cs = [] \<longleftrightarrow> (\<forall>k. agree (branch_values bs k))" by auto
  have s: "sort cs = sorted_list_of_set {k. \<not> agree (branch_values bs k)}"
    using d ks by (metis sorted_list_of_set_sort_remdups distinct_remdups_id)
  have p: "collected to_json vs = (if vs = [] then None else Some (if agree vs then hd vs else to_json vs))" for vs
    by (auto simp: collected_def agree_def list_ex_iff list_all_iff split: list.split)
  show ?thesis
    by (cases strategy)
      (simp_all add: merge_contexts_general [OF assms] c m e s p fold_or_insert_all Let_def
        fold_insert_all [OF assms] fold_push_all [OF assms] fun_eq_iff)
qed

theorem merge_contexts_spec_witness:
  "merge_contexts concat [[(''a'', ''1''), (''b'', ''2'')], [(''a'', ''3'')]] LastWriteWins =
     (let vals = branch_values [[(''a'', ''1''), (''b'', ''2'')], [(''a'', ''3'')]] in
      Inr (\<lambda>k. if vals k = [] then None else Some (last (vals k))))"
  using merge_contexts_spec [of "[[(''a'', ''1''), (''b'', ''2'')], [(''a'', ''3'')]]" concat LastWriteWins]
  by (simp add: hm_wf_def)

section \<open>What collecting reports\<close>

definition branch_outcome :: "string \<times> (handler_error + outcome) \<Rightarrow> outcome" where
  "branch_outcome r = (case snd r of Inr out \<Rightarrow> out | Inl err \<Rightarrow> failure (handler_error_text err))"

definition branch_ok :: "string \<times> (handler_error + outcome) \<Rightarrow> bool" where
  "branch_ok r \<longleftrightarrow> \<not> is_failure (branch_outcome r)"

definition tally :: "(string \<times> (handler_error + outcome)) list \<Rightarrow> parallel_result \<Rightarrow> parallel_result" where
  "tally rs r =
     \<lparr>pr_outcomes = fold (\<lambda>x. hm_insert (fst x) (branch_outcome x)) rs (pr_outcomes r),
      pr_succeeded = pr_succeeded r @ map fst (filter branch_ok rs),
      pr_failed = pr_failed r @ map fst (filter (\<lambda>x. \<not> branch_ok x) rs)\<rparr>"

lemma branch_ok_simps [simp]:
  "branch_ok (i, Inr out) \<longleftrightarrow> \<not> is_failure out"
  "\<not> branch_ok (i, Inl err)"
  by (simp_all add: branch_ok_def branch_outcome_def failure_def)

lemma branch_outcome_simps [simp]:
  "branch_outcome (i, Inr out) = out"
  "branch_outcome (i, Inl err) = failure (handler_error_text err)"
  by (simp_all add: branch_outcome_def)

lemma collect_results_tally: "collect_results False rs r = Inr (tally rs r)"
  by (induction "False" rs r rule: collect_results.induct) (simp_all add: tally_def Let_def)

lemma collect_results_fail_fast:
  "collect_results True rs r =
     (case dropWhile branch_ok rs of
        [] \<Rightarrow> Inr (tally rs r)
      | (i, Inl err) # _ \<Rightarrow> Inl (BranchFailed i (handler_error_text err))
      | x # _ \<Rightarrow> Inr (tally (takeWhile branch_ok rs @ [x]) r))"
proof (induction "True" rs r rule: collect_results.induct)
  case (2 i out rs r)
  show ?case
  proof (cases "is_failure out")
    case True
    then show ?thesis by (simp add: tally_def Let_def)
  next
    case False
    define r1 where "r1 = r\<lparr>pr_outcomes := hm_insert i out (pr_outcomes r), pr_succeeded := pr_succeeded r @ [i]\<rparr>"
    have t: "tally rs' r1 = tally ((i, Inr out) # rs') r" for rs' using False by (simp add: tally_def r1_def)
    note IH = "2.hyps"(2) [OF refl False, folded r1_def]
    have "(r\<lparr>pr_outcomes := hm_insert i out (pr_outcomes r)\<rparr>)\<lparr>pr_succeeded :=
        pr_succeeded (r\<lparr>pr_outcomes := hm_insert i out (pr_outcomes r)\<rparr>) @ [i]\<rparr> = r1"
      by (simp add: r1_def)
    note IH' = IH [unfolded this]
    have "collect_results True ((i, Inr out) # rs) r = collect_results True rs r1"
      using False by (simp add: r1_def Let_def)
    also have "\<dots> = (case dropWhile branch_ok rs of
        [] \<Rightarrow> Inr (tally rs r1)
      | (i, Inl err) # _ \<Rightarrow> Inl (BranchFailed i (handler_error_text err))
      | x # _ \<Rightarrow> Inr (tally (takeWhile branch_ok rs @ [x]) r1))"
      by (rule IH')
    finally show ?thesis using False
      by (auto simp: t split: list.split sum.split simp del: dropWhile_eq_Nil_conv)
  qed
qed (simp_all add: tally_def Let_def)

text \<open>Collecting the results of branches reports every outcome; with \<open>fail_fast\<close> it stops at the first
  branch that does not succeed, reporting an error when its handler failed, and the results up to
  and with that branch when its outcome is a failure.\<close>

theorem execute_parallel_spec:
  "execute_parallel completed cfg =
     (let start = \<lparr>pr_outcomes = [], pr_succeeded = [], pr_failed = []\<rparr>;
          stop = (if pc_fail_fast cfg then dropWhile branch_ok completed else [])
      in case stop of
           [] \<Rightarrow> Inr (tally completed start)
         | (i, Inl err) # _ \<Rightarrow> Inl (BranchFailed i (handler_error_text err))
         | x # _ \<Rightarrow> Inr (tally (takeWhile branch_ok completed @ [x]) start))"
  by (simp add: execute_parallel_def collect_results_tally collect_results_fail_fast Let_def)

lemma tally_outcomes:
  "distinct (map fst rs) \<Longrightarrow> hm_get (pr_outcomes (tally rs r)) i =
     (case map_of rs i of Some x \<Rightarrow> Some (branch_outcome (i, x)) | None \<Rightarrow> hm_get (pr_outcomes r) i)"
proof (induction rs arbitrary: r)
  case (Cons x rs)
  obtain j y where x: "x = (j, y)" by force
  have "pr_outcomes (tally (x # rs) r) =
      pr_outcomes (tally rs (r\<lparr>pr_outcomes := hm_insert j (branch_outcome (j, y)) (pr_outcomes r)\<rparr>))"
    by (simp add: tally_def x)
  moreover have "map_of rs j = None" using Cons.prems by (simp add: x map_of_eq_None_iff)
  ultimately show ?case using Cons by (auto simp: x split: option.split)
qed (simp add: tally_def)

text \<open>Without \<open>fail_fast\<close> the order in which branches complete does not change what is known of each:
  the same outcomes, and the same branches among the successes and the failures.\<close>

theorem execute_parallel_order:
  assumes "mset completed = mset completed'" "distinct (map fst completed)" "\<not> pc_fail_fast cfg"
  shows "\<exists>r r'. execute_parallel completed cfg = Inr r \<and> execute_parallel completed' cfg = Inr r' \<and>
    hm_get (pr_outcomes r) = hm_get (pr_outcomes r') \<and>
    mset (pr_succeeded r) = mset (pr_succeeded r') \<and> mset (pr_failed r) = mset (pr_failed r') \<and>
    all_succeeded r = all_succeeded r' \<and> any_failed r = any_failed r'"
proof -
  let ?s = "\<lparr>pr_outcomes = [], pr_succeeded = [], pr_failed = []\<rparr>"
  have e: "execute_parallel c cfg = Inr (tally c ?s)" for c
    using assms(3) by (simp add: execute_parallel_def collect_results_tally)
  have d: "distinct (map fst completed')" using assms(1,2) by (metis mset_map mset_eq_imp_distinct_iff)
  have "map_of completed = map_of completed'" using assms(1,2) d by (metis map_of_inject_set mset_eq_setD)
  then have "hm_get (pr_outcomes (tally completed ?s)) = hm_get (pr_outcomes (tally completed' ?s))"
    by (simp add: tally_outcomes assms(2) d fun_eq_iff)
  moreover have s: "mset (pr_succeeded (tally completed ?s)) = mset (pr_succeeded (tally completed' ?s))"
    and f: "mset (pr_failed (tally completed ?s)) = mset (pr_failed (tally completed' ?s))"
    unfolding tally_def by (simp_all add: assms(1) mset_map mset_filter)
  moreover have "(pr_succeeded (tally completed ?s) = []) = (pr_succeeded (tally completed' ?s) = [])"
      "(pr_failed (tally completed ?s) = []) = (pr_failed (tally completed' ?s) = [])"
    using s f by (metis mset_zero_iff)+
  ultimately show ?thesis using e by (auto simp: all_succeeded_def any_failed_def)
qed

theorem execute_parallel_order_witness:
  "\<exists>r r'. execute_parallel [(''a'', Inr (success)), (''b'', Inl (NoHandler ''x''))] default_parallel_config = Inr r \<and>
    execute_parallel [(''b'', Inl (NoHandler ''x'')), (''a'', Inr (success))] default_parallel_config = Inr r' \<and>
    hm_get (pr_outcomes r) = hm_get (pr_outcomes r') \<and>
    mset (pr_succeeded r) = mset (pr_succeeded r') \<and> mset (pr_failed r) = mset (pr_failed r') \<and>
    all_succeeded r = all_succeeded r' \<and> any_failed r = any_failed r'"
  by (rule execute_parallel_order) (simp_all add: default_parallel_config_def)

end
