(* ===== verification/Condition.thy ===== *)
theory Condition
  imports Float64
begin

text \<open>
  The condition language of \<open>condition/mod.rs\<close>: expressions, the precedence-climbing parser that
  splits the text at the last top-level operator, and the lenient and strict evaluators.  Byte
  offsets are kept, since the errors report them.
\<close>

datatype condition =
    CTrue | CFalse
  | CEquals string string
  | CNotEquals string string
  | CGreaterThan string f64
  | CLessThan string f64
  | CAnd condition condition
  | COr condition condition
  | CNot condition

datatype condition_error =
    CParseError string nat
  | CUnexpectedToken string nat
  | CEmpty
  | CUndefinedVariable string

section \<open>Evaluation\<close>

fun evaluate_condition :: "condition \<Rightarrow> string str_map \<Rightarrow> bool" where
  "evaluate_condition CTrue context = True"
| "evaluate_condition CFalse context = False"
| "evaluate_condition (CEquals key val) context = (context key = Some val)"
| "evaluate_condition (CNotEquals key val) context =
     (case context key of None \<Rightarrow> False | Some v \<Rightarrow> v \<noteq> val)"
| "evaluate_condition (CGreaterThan key val) context =
     (case Option.bind (context key) parse_f64 of None \<Rightarrow> False | Some v \<Rightarrow> f64_lt val v)"
| "evaluate_condition (CLessThan key val) context =
     (case Option.bind (context key) parse_f64 of None \<Rightarrow> False | Some v \<Rightarrow> f64_lt v val)"
| "evaluate_condition (CAnd a b) context = (evaluate_condition a context \<and> evaluate_condition b context)"
| "evaluate_condition (COr a b) context = (evaluate_condition a context \<or> evaluate_condition b context)"
| "evaluate_condition (CNot c) context = (\<not> evaluate_condition c context)"

definition lookup_strict :: "string \<Rightarrow> string str_map \<Rightarrow> condition_error + string" where
  "lookup_strict key context =
     (case context key of None \<Rightarrow> Inl (CUndefinedVariable key) | Some v \<Rightarrow> Inr v)"

definition numeric_strict :: "string \<Rightarrow> string \<Rightarrow> condition_error + f64" where
  "numeric_strict key ctx_val =
     (case parse_f64 ctx_val of
        None \<Rightarrow> Inl (CParseError (''variable '' @ [CHR 0x27] @ key @ [CHR 0x27] @ '' has value '' @
          [CHR 0x27] @ ctx_val @ [CHR 0x27] @ '' which is not a valid number'') 0)
      | Some n \<Rightarrow> Inr n)"

fun evaluate_condition_strict :: "condition \<Rightarrow> string str_map \<Rightarrow> condition_error + bool" where
  "evaluate_condition_strict CTrue context = Inr True"
| "evaluate_condition_strict CFalse context = Inr False"
| "evaluate_condition_strict (CEquals key val) context =
     res_bind (lookup_strict key context) (\<lambda>v. Inr (v = val))"
| "evaluate_condition_strict (CNotEquals key val) context =
     res_bind (lookup_strict key context) (\<lambda>v. Inr (v \<noteq> val))"
| "evaluate_condition_strict (CGreaterThan key val) context =
     res_bind (lookup_strict key context) (\<lambda>v.
     res_bind (numeric_strict key v) (\<lambda>n. Inr (f64_lt val n)))"
| "evaluate_condition_strict (CLessThan key val) context =
     res_bind (lookup_strict key context) (\<lambda>v.
     res_bind (numeric_strict key v) (\<lambda>n. Inr (f64_lt n val)))"
| "evaluate_condition_strict (CAnd a b) context =
     res_bind (evaluate_condition_strict a context) (\<lambda>l.
     res_bind (evaluate_condition_strict b context) (\<lambda>r. Inr (l \<and> r)))"
| "evaluate_condition_strict (COr a b) context =
     res_bind (evaluate_condition_strict a context) (\<lambda>l.
     res_bind (evaluate_condition_strict b context) (\<lambda>r. Inr (l \<or> r)))"
| "evaluate_condition_strict (CNot c) context =
     res_bind (evaluate_condition_strict c context) (\<lambda>v. Inr (\<not> v))"

section \<open>Parsing\<close>

definition paren_depth :: "char \<Rightarrow> int \<Rightarrow> int" where
  "paren_depth c depth =
     (if c = CHR ''('' then depth + 1 else if c = CHR '')'' then depth - 1 else depth)"

text \<open>The scan of \<open>split_binary_op\<close> at byte \<open>i\<close>, with the bytes from there on.\<close>

fun last_op :: "string \<Rightarrow> int \<Rightarrow> nat \<Rightarrow> string \<Rightarrow> nat option \<Rightarrow> nat option" where
  "last_op op depth i [] last_pos = last_pos"
| "last_op op depth i (c # cs) last_pos =
     (let depth' = paren_depth c depth in
      last_op op depth' (i + 1) cs
        (if depth' = 0 \<and> starts_with (c # cs) op then Some i else last_pos))"

definition trim_delta :: "string \<Rightarrow> nat" where
  "trim_delta s = length s - length (trim_start s)"

definition split_binary_op :: "string \<Rightarrow> string \<Rightarrow> nat \<Rightarrow> (string \<times> string \<times> nat) option" where
  "split_binary_op input op base_offset =
     (if length input < length op then None
      else case last_op op 0 0 input None of
        None \<Rightarrow> None
      | Some pos \<Rightarrow>
          (let left = trim (take pos input);
               right_raw = drop (pos + length op) input;
               right = trim right_raw in
           if left \<noteq> [] \<and> right \<noteq> []
           then Some (left, right, base_offset + pos + length op + trim_delta right_raw)
           else None))"

text \<open>The scan of \<open>strip_outer_parens\<close>: the offset of the parenthesis that closes the first.\<close>

fun closing_paren :: "int \<Rightarrow> nat \<Rightarrow> string \<Rightarrow> nat option" where
  "closing_paren depth i [] = None"
| "closing_paren depth i (c # cs) =
     (if c = CHR '')'' \<and> depth - 1 = 0 then Some i
      else closing_paren (paren_depth c depth) (i + 1) cs)"

definition strip_outer_parens :: "string \<Rightarrow> string option" where
  "strip_outer_parens str =
     (let input = trim str in
      if \<not> starts_with input ''('' then None
      else case closing_paren 0 0 input of
        None \<Rightarrow> None
      | Some i \<Rightarrow> if i = length input - 1 then Some (drop 1 (take i input)) else None)"

definition invalid_comparison :: "string \<Rightarrow> nat \<Rightarrow> condition_error" where
  "invalid_comparison s p =
     CParseError (''invalid comparison: '' @ [CHR 0x27] @ s @ [CHR 0x27]) p"

text \<open>The comparison at byte \<open>pos\<close>, whose operator has \<open>len\<close> bytes.\<close>

definition comparison_parts ::
  "string \<Rightarrow> nat \<Rightarrow> nat \<Rightarrow> nat \<Rightarrow> condition_error + string \<times> string" where
  "comparison_parts trimmed pos len adj_offset =
     (let key = trim (take pos trimmed); val_str = trim (drop (pos + len) trimmed) in
      if key = [] \<or> val_str = [] then Inl (invalid_comparison trimmed (adj_offset + pos))
      else Inr (key, val_str))"

definition comparison_number :: "string \<Rightarrow> string \<Rightarrow> nat \<Rightarrow> condition_error + f64" where
  "comparison_number op val_str p =
     (case parse_f64 val_str of
        None \<Rightarrow> Inl (CParseError (''expected numeric value in '' @ [CHR 0x27] @ op @ [CHR 0x27] @
                  '' comparison, got '' @ [CHR 0x27] @ val_str @ [CHR 0x27]) p)
      | Some v \<Rightarrow> Inr v)"

text \<open>The literals and comparisons of \<open>parse_atom\<close>.\<close>

definition parse_comparison :: "string \<Rightarrow> nat \<Rightarrow> condition_error + condition" where
  "parse_comparison trimmed adj_offset =
     (if trimmed = ''true'' then Inr CTrue
      else if trimmed = ''false'' then Inr CFalse
      else case find_sub ''!='' trimmed of
        Some pos \<Rightarrow> res_bind (comparison_parts trimmed pos 2 adj_offset) (\<lambda>(k, v). Inr (CNotEquals k v))
      | None \<Rightarrow> (case find_sub ''>'' trimmed of
        Some pos \<Rightarrow> res_bind (comparison_parts trimmed pos 1 adj_offset) (\<lambda>(k, v).
                    res_bind (comparison_number ''>'' v (adj_offset + pos + 1)) (\<lambda>n. Inr (CGreaterThan k n)))
      | None \<Rightarrow> (case find_sub ''<'' trimmed of
        Some pos \<Rightarrow> res_bind (comparison_parts trimmed pos 1 adj_offset) (\<lambda>(k, v).
                    res_bind (comparison_number ''<'' v (adj_offset + pos + 1)) (\<lambda>n. Inr (CLessThan k n)))
      | None \<Rightarrow> (case find_sub ''='' trimmed of
        Some pos \<Rightarrow> res_bind (comparison_parts trimmed pos 1 adj_offset) (\<lambda>(k, v). Inr (CEquals k v))
      | None \<Rightarrow> Inl (CUnexpectedToken trimmed adj_offset)))))"

lemma last_op_bound:
  "last_op op d i s l = Some p \<Longrightarrow> l = Some p \<or>
     (i \<le> p \<and> p < i + length s \<and> starts_with (drop (p - i) s) op)"
proof (induction op d i s l rule: last_op.induct)
  case (2 op d i c cs l)
  let ?l = "if paren_depth c d = 0 \<and> starts_with (c # cs) op then Some i else l"
  from 2 have "?l = Some p \<or> (i + 1 \<le> p \<and> p < i + 1 + length cs \<and> starts_with (drop (p - (i + 1)) cs) op)"
    by (simp add: Let_def)
  then show ?case
  proof (elim disjE)
    assume "?l = Some p"
    then show ?thesis by (auto split: if_splits)
  next
    assume r: "i + 1 \<le> p \<and> p < i + 1 + length cs \<and> starts_with (drop (p - (i + 1)) cs) op"
    then have "p - i = Suc (p - (i + 1))" by arith
    then have "drop (p - i) (c # cs) = drop (p - (i + 1)) cs" by simp
    with r show ?thesis by auto
  qed
qed simp

lemma trim_delta_le: "trim_delta s + length (trim s) \<le> length s"
  using length_trim_start [of s] length_trim_end [of "trim_start s"] by (simp add: trim_delta_def trim_def)

lemma split_binary_op_length:
  assumes "split_binary_op input op off = Some (l, r, off')" "op \<noteq> []"
  shows "length l < length input" "length r < length input"
    "off + length l \<le> off + length input" "off' + length r \<le> off + length input" "off \<le> off'"
proof -
  from assms obtain pos where p: "last_op op 0 0 input None = Some pos" "l = trim (take pos input)"
    "r = trim (drop (pos + length op) input)"
    "off' = off + pos + length op + trim_delta (drop (pos + length op) input)"
    by (auto simp: split_binary_op_def Let_def split: if_splits option.splits)
  from last_op_bound [OF p(1)] have pos: "pos < length input" "starts_with (drop pos input) op" by auto
  have "length op \<le> length (drop pos input)"
    using pos(2) unfolding starts_with_iff by (metis length_append le_add1)
  with pos(1) have op: "pos + length op \<le> length input" by simp
  show "length l < length input" "off + length l \<le> off + length input"
    using length_trim [of "take pos input"] pos p(2) by auto
  have r: "length r + trim_delta (drop (pos + length op) input) \<le> length input - (pos + length op)"
    using trim_delta_le [of "drop (pos + length op) input"] p(3) by simp
  then show "length r < length input" using assms(2) op by (cases op) auto
  show "off' + length r \<le> off + length input" "off \<le> off'" using r op p(4) by auto
qed

lemma strip_outer_parens_length:
  assumes "strip_outer_parens s = Some inner"
  shows "Suc (length inner) < length s"
proof -
  from assms have st: "starts_with (trim s) ''(''" and
    "inner = drop 1 (take (length (trim s) - 1) (trim s))" "length (trim s) - 1 \<noteq> 0"
    by (auto simp: strip_outer_parens_def Let_def starts_with_def paren_depth_def split: if_splits option.splits)
  then show ?thesis using length_trim [of s] by auto
qed

lemma trim_Cons_length: "trim s = c # cs \<Longrightarrow> length cs < length s"
  using length_trim [of s] by simp

lemma split_binary_op_less:
  "split_binary_op input (c # op) off = Some (l, r, off') \<Longrightarrow> length l < length input \<and> length r < length input"
  using split_binary_op_length [of input "c # op" off l r off'] by simp

lemma strip_outer_parens_less:
  "strip_outer_parens (trim s) = Some inner \<Longrightarrow> Suc (length inner) < length s"
  using strip_outer_parens_length [of "trim s" inner] length_trim [of s] by simp

function (sequential) parse_or :: "string \<Rightarrow> nat \<Rightarrow> condition_error + condition"
and parse_and :: "string \<Rightarrow> nat \<Rightarrow> condition_error + condition"
and parse_not :: "string \<Rightarrow> nat \<Rightarrow> condition_error + condition"
and parse_atom :: "string \<Rightarrow> nat \<Rightarrow> condition_error + condition"
where
  "parse_or input offset =
     (case split_binary_op input ''||'' offset of
        Some (left, right, right_offset) \<Rightarrow>
          res_bind (parse_or left offset) (\<lambda>l.
          res_bind (parse_or right right_offset) (\<lambda>r. Inr (COr l r)))
      | None \<Rightarrow> parse_and input offset)"
| "parse_and input offset =
     (case split_binary_op input ''&&'' offset of
        Some (left, right, right_offset) \<Rightarrow>
          res_bind (parse_and left offset) (\<lambda>l.
          res_bind (parse_and right right_offset) (\<lambda>r. Inr (CAnd l r)))
      | None \<Rightarrow> parse_not input offset)"
| "parse_not input offset =
     (let trimmed = trim input; adj_offset = offset + trim_delta input in
      case strip_prefix trimmed ''!'' of
        Some rest \<Rightarrow> res_bind (parse_not rest (adj_offset + 1)) (\<lambda>inner. Inr (CNot inner))
      | None \<Rightarrow> parse_atom trimmed adj_offset)"
| "parse_atom input offset =
     (let trimmed = trim input; adj_offset = offset + trim_delta input in
      if trimmed = [] then Inl (CParseError ''unexpected end of expression'' adj_offset)
      else if starts_with trimmed ''('' then
        (case strip_outer_parens trimmed of
           None \<Rightarrow> Inl (CParseError ''unmatched parenthesis'' adj_offset)
         | Some inner \<Rightarrow> parse_or inner (adj_offset + 1))
      else parse_comparison trimmed adj_offset)"
  by pat_completeness auto
termination
  by (relation "measure (\<lambda>x. case x of
      Inl (Inl (s, _)) \<Rightarrow> 4 * length s + 3
    | Inl (Inr (s, _)) \<Rightarrow> 4 * length s + 2
    | Inr (Inl (s, _)) \<Rightarrow> 4 * length s + 1
    | Inr (Inr (s, _)) \<Rightarrow> 4 * length s)")
    (auto simp: strip_prefix_Some less_Suc_eq_le length_trim
      dest!: split_binary_op_less strip_outer_parens_less trim_Cons_length)

declare parse_or.simps [simp del] parse_and.simps [simp del] parse_not.simps [simp del]
  parse_atom.simps [simp del]

definition parse_condition :: "string \<Rightarrow> condition_error + condition" where
  "parse_condition input =
     (let trimmed = trim input in
      if trimmed = [] then Inl CEmpty else parse_or trimmed (trim_delta input))"

definition validate_condition :: "string \<Rightarrow> condition_error + unit" where
  "validate_condition expr = map_sum id (\<lambda>_. ()) (parse_condition expr)"

section \<open>Strict and lenient evaluation\<close>

text \<open>The context gives every variable of the condition a value, numeric where it is compared.\<close>

fun defined_in :: "condition \<Rightarrow> string str_map \<Rightarrow> bool" where
  "defined_in CTrue context = True"
| "defined_in CFalse context = True"
| "defined_in (CEquals key _) context = (context key \<noteq> None)"
| "defined_in (CNotEquals key _) context = (context key \<noteq> None)"
| "defined_in (CGreaterThan key _) context = (Option.bind (context key) parse_f64 \<noteq> None)"
| "defined_in (CLessThan key _) context = (Option.bind (context key) parse_f64 \<noteq> None)"
| "defined_in (CAnd a b) context = (defined_in a context \<and> defined_in b context)"
| "defined_in (COr a b) context = (defined_in a context \<and> defined_in b context)"
| "defined_in (CNot c) context = defined_in c context"

lemma strict_Inr_iff:
  "evaluate_condition_strict c context = Inr b \<longleftrightarrow>
     defined_in c context \<and> b = evaluate_condition c context"
proof (induction c arbitrary: b)
  case (CGreaterThan key val)
  then show ?case
    by (auto simp: res_simps lookup_strict_def numeric_strict_def split: option.splits)
next
  case (CLessThan key val)
  then show ?case
    by (auto simp: res_simps lookup_strict_def numeric_strict_def split: option.splits)
qed (auto simp: res_simps lookup_strict_def split: option.splits)

section \<open>Error positions\<close>

fun error_pos :: "condition_error \<Rightarrow> nat option" where
  "error_pos (CParseError _ p) = Some p"
| "error_pos (CUnexpectedToken _ p) = Some p"
| "error_pos _ = None"

definition pos_within :: "nat \<Rightarrow> nat \<Rightarrow> condition_error + 'a \<Rightarrow> bool" where
  "pos_within lo hi r \<longleftrightarrow> (\<forall>e. r = Inl e \<longrightarrow> (\<exists>p. error_pos e = Some p \<and> lo \<le> p \<and> p \<le> hi))"

lemma pos_within_bind:
  "pos_within lo hi r \<Longrightarrow> (\<And>x. r = Inr x \<Longrightarrow> pos_within lo hi (f x)) \<Longrightarrow> pos_within lo hi (res_bind r f)"
  by (cases r) (auto simp: pos_within_def)

lemma pos_within_mono:
  "pos_within lo hi r \<Longrightarrow> lo' \<le> lo \<Longrightarrow> hi \<le> hi' \<Longrightarrow> pos_within lo' hi' r"
  by (fastforce simp: pos_within_def)

lemma pos_within_Inr [simp]: "pos_within lo hi (Inr x)"
  by (simp add: pos_within_def)

lemma pos_within_option:
  "(\<And>x. m = Some x \<Longrightarrow> pos_within lo hi (f x)) \<Longrightarrow> pos_within lo hi g \<Longrightarrow>
     pos_within lo hi (case m of None \<Rightarrow> g | Some x \<Rightarrow> f x)"
  by (cases m) auto

lemma pos_within_if:
  "pos_within lo hi f \<Longrightarrow> pos_within lo hi g \<Longrightarrow> pos_within lo hi (if b then f else g)"
  by simp

lemma comparison_parts_pos:
  "pos + len \<le> length s \<Longrightarrow> pos_within off (off + length s) (comparison_parts s pos len off)"
  by (auto simp: comparison_parts_def pos_within_def invalid_comparison_def Let_def)

lemma comparison_number_pos:
  "lo \<le> p \<Longrightarrow> p \<le> hi \<Longrightarrow> pos_within lo hi (comparison_number op v p)"
  by (auto simp: comparison_number_def pos_within_def split: option.splits)

lemma find_sub_le: "find_sub p s = Some n \<Longrightarrow> n + length p \<le> length s"
  using find_sub_Some by blast

lemma parse_comparison_pos: "pos_within off (off + length s) (parse_comparison s off)"
proof -
  have one: "pos_within off (off + length s) (res_bind (comparison_parts s pos 1 off) (\<lambda>(k, v).
      res_bind (comparison_number op v (off + pos + 1)) (\<lambda>n. Inr (f k n))))"
    if "find_sub [c] s = Some pos" for pos c op and f :: "string \<Rightarrow> f64 \<Rightarrow> condition"
    using find_sub_le [OF that]
    by (intro pos_within_bind) (auto intro!: comparison_parts_pos pos_within_bind comparison_number_pos)
  have two: "pos_within off (off + length s) (res_bind (comparison_parts s pos (length op) off) (\<lambda>(k, v). Inr (f k v)))"
    if "find_sub op s = Some pos" for pos op and f :: "string \<Rightarrow> string \<Rightarrow> condition"
    using find_sub_le [OF that]
    by (intro pos_within_bind) (auto intro!: comparison_parts_pos)
  have ne: "pos_within off (off + length s) (res_bind (comparison_parts s pos 2 off) (\<lambda>(k, v). Inr (CNotEquals k v)))"
    if "find_sub ''!='' s = Some pos" for pos using two [OF that] by (simp add: numeral_2_eq_2)
  have eq: "pos_within off (off + length s) (res_bind (comparison_parts s pos 1 off) (\<lambda>(k, v). Inr (CEquals k v)))"
    if "find_sub ''='' s = Some pos" for pos using two [OF that] by simp
  have last: "pos_within off (off + length s) (Inl (CUnexpectedToken s off))"
    by (simp add: pos_within_def)
  show ?thesis
    unfolding parse_comparison_def by (intro pos_within_if pos_within_option pos_within_Inr one ne eq last)
qed

lemma parse_positions:
  "pos_within off (off + length s) (parse_or s off)"
  "pos_within off (off + length s) (parse_and s off)"
  "pos_within off (off + length s) (parse_not s off)"
  "pos_within off (off + length s) (parse_atom s off)"
proof (induction s off and s off and s off and s off rule: parse_or_parse_and_parse_not_parse_atom.induct)
  case (1 s off)
  show ?case
  proof (cases "split_binary_op s ''||'' off")
    case None
    then show ?thesis using 1(1) by (simp add: parse_or.simps)
  next
    case (Some x)
    obtain l r off' where x: "x = (l, r, off')" by (metis prod_cases3)
    note len = split_binary_op_length [OF Some [unfolded x]]
    have "pos_within off (off + length s) (parse_or l off)"
      using 1(2) [OF Some x [symmetric] refl] len by (auto intro: pos_within_mono)
    moreover have "pos_within off (off + length s) (parse_or r off')" if "parse_or l off = Inr c" for c
      using 1(3) [OF Some x [symmetric] refl that] len by (auto intro: pos_within_mono)
    ultimately show ?thesis
      by (auto simp: parse_or.simps Some x intro!: pos_within_bind)
  qed
next
  case (2 s off)
  show ?case
  proof (cases "split_binary_op s ''&&'' off")
    case None
    then show ?thesis using 2(1) by (simp add: parse_and.simps)
  next
    case (Some x)
    obtain l r off' where x: "x = (l, r, off')" by (metis prod_cases3)
    note len = split_binary_op_length [OF Some [unfolded x]]
    have "pos_within off (off + length s) (parse_and l off)"
      using 2(2) [OF Some x [symmetric] refl] len by (auto intro: pos_within_mono)
    moreover have "pos_within off (off + length s) (parse_and r off')" if "parse_and l off = Inr c" for c
      using 2(3) [OF Some x [symmetric] refl that] len by (auto intro: pos_within_mono)
    ultimately show ?thesis
      by (auto simp: parse_and.simps Some x intro!: pos_within_bind)
  qed
next
  case (3 s off)
  show ?case
  proof (cases "strip_prefix (trim s) ''!''")
    case None
    then show ?thesis using 3(1) [OF refl refl None] trim_delta_le [of s]
      by (auto simp: parse_not.simps Let_def intro: pos_within_mono)
  next
    case (Some rest)
    then have "length (trim s) = Suc (length rest)" by (simp add: strip_prefix_Some)
    then show ?thesis using 3(2) [OF refl refl Some] trim_delta_le [of s] Some
      by (auto simp: parse_not.simps Let_def intro!: pos_within_bind elim: pos_within_mono)
  qed
next
  case (4 s off)
  let ?t = "trim s" and ?o = "off + trim_delta s"
  show ?case
  proof (cases "?t \<noteq> [] \<and> starts_with ?t ''(''")
    case True
    show ?thesis
    proof (cases "strip_outer_parens ?t")
      case None
      then show ?thesis using True trim_delta_le [of s]
        by (auto simp: parse_atom.simps Let_def pos_within_def)
    next
      case (Some inner)
      then show ?thesis
        using True 4 [OF refl refl _ _ Some] trim_delta_le [of s] strip_outer_parens_length [OF Some]
        by (auto simp: parse_atom.simps Let_def intro: pos_within_mono)
    qed
  next
    case False
    then show ?thesis
      using parse_comparison_pos [of ?o ?t] trim_delta_le [of s]
      by (auto simp: parse_atom.simps Let_def elim: pos_within_mono) (simp add: pos_within_def)+
  qed
qed

section \<open>Spelling conditions\<close>

text \<open>
  Fully parenthesised spellings of a condition.  Keys and compared texts are free of operator
  characters, parentheses and outer blanks, and a number is any text that \<open>str::parse::<f64>\<close>
  reads as it: a number the parser can produce is the value of such a text.
\<close>

definition paren :: "string \<Rightarrow> string" where
  "paren t = CHR ''('' # t @ '')''"

definition plain_char :: "char \<Rightarrow> bool" where
  "plain_char c \<longleftrightarrow> c \<notin> set ''()!<>=|&''"

definition plain_text :: "string \<Rightarrow> bool" where
  "plain_text s \<longleftrightarrow> s \<noteq> [] \<and> \<not> is_ws (hd s) \<and> \<not> is_ws (last s) \<and> list_all plain_char s"

inductive spelling :: "condition \<Rightarrow> string \<Rightarrow> bool" where
  sp_true: "spelling CTrue ''true''"
| sp_false: "spelling CFalse ''false''"
| sp_equals: "plain_text k \<Longrightarrow> plain_text v \<Longrightarrow> spelling (CEquals k v) (k @ ''='' @ v)"
| sp_not_equals: "plain_text k \<Longrightarrow> plain_text v \<Longrightarrow> spelling (CNotEquals k v) (k @ ''!='' @ v)"
| sp_greater: "plain_text k \<Longrightarrow> parse_f64 v = Some x \<Longrightarrow> spelling (CGreaterThan k x) (k @ ''>'' @ v)"
| sp_less: "plain_text k \<Longrightarrow> parse_f64 v = Some x \<Longrightarrow> spelling (CLessThan k x) (k @ ''<'' @ v)"
| sp_and: "spelling a s \<Longrightarrow> spelling b t \<Longrightarrow> spelling (CAnd a b) (paren s @ ''&&'' @ paren t)"
| sp_or: "spelling a s \<Longrightarrow> spelling b t \<Longrightarrow> spelling (COr a b) (paren s @ ''||'' @ paren t)"
| sp_not: "spelling a s \<Longrightarrow> spelling (CNot a) (''!'' @ paren s)"

text \<open>The conditions that have a spelling.\<close>

definition readable_number :: "f64 \<Rightarrow> bool" where
  "readable_number x \<longleftrightarrow> (\<exists>v. parse_f64 v = Some x)"

fun ok_condition :: "condition \<Rightarrow> bool" where
  "ok_condition CTrue = True"
| "ok_condition CFalse = True"
| "ok_condition (CEquals k v) = (plain_text k \<and> plain_text v)"
| "ok_condition (CNotEquals k v) = (plain_text k \<and> plain_text v)"
| "ok_condition (CGreaterThan k x) = (plain_text k \<and> readable_number x)"
| "ok_condition (CLessThan k x) = (plain_text k \<and> readable_number x)"
| "ok_condition (CAnd a b) = (ok_condition a \<and> ok_condition b)"
| "ok_condition (COr a b) = (ok_condition a \<and> ok_condition b)"
| "ok_condition (CNot a) = ok_condition a"

lemma spelling_exists: "ok_condition c \<longleftrightarrow> (\<exists>s. spelling c s)"
proof
  show "ok_condition c \<Longrightarrow> \<exists>s. spelling c s"
    by (induction c) (auto simp: readable_number_def intro: spelling.intros)
next
  assume "\<exists>s. spelling c s"
  then obtain s where "spelling c s" by blast
  then show "ok_condition c"
    by induction (auto simp: readable_number_def)
qed

text \<open>The text of a number is plain.\<close>

definition number_char :: "char \<Rightarrow> bool" where
  "number_char c \<longleftrightarrow> plain_char c \<and> \<not> is_ws c"

lemma number_char_digit: "is_ascii_digit c \<Longrightarrow> number_char c"
  using digit_not_ws by (auto simp: number_char_def plain_char_def char_class_defs)

lemma number_char_lower: "number_char (lower_char c) \<Longrightarrow> number_char c"
  by (auto simp: number_char_def plain_char_def lower_char_def is_ws_def code_def split: if_splits)

lemma number_chars_word: "lower_eq b w \<Longrightarrow> list_all number_char w \<Longrightarrow> list_all number_char b"
  by (auto simp: lower_eq_def to_lower_def list_all_iff intro: number_char_lower)

lemma number_chars_digits: "list_all is_ascii_digit s \<Longrightarrow> list_all number_char s"
  by (auto simp: list_all_iff number_char_digit)

lemma number_char_marks [simp]:
  "number_char CHR ''.''" "number_char CHR ''e''" "number_char CHR ''E''" "number_char CHR ''-''" "number_char CHR ''+''"
  by (simp_all add: number_char_def plain_char_def is_ws_def code_def)

lemma number_chars_exponent: "parse_exponent s = Some e \<Longrightarrow> list_all number_char s"
  by (cases s; cases "tl s")
    (auto simp: parse_exponent_def Let_def starts_with_def number_chars_digits number_char_digit split: if_splits)

lemma number_chars_number:
  assumes "parse_number neg s = Some x"
  shows "list_all number_char s" "s \<noteq> []"
proof -
  define r where "r = dropWhile is_ascii_digit s"
  define r2 where "r2 = (if starts_with r ''.'' then tl r else r)"
  let ?fp = "if starts_with r ''.'' then takeWhile is_ascii_digit r2 else []"
  let ?r3 = "if starts_with r ''.'' then dropWhile is_ascii_digit r2 else r2"
  have ne: "\<not> (takeWhile is_ascii_digit s = [] \<and> ?fp = [])"
    and ex: "parse_exponent ?r3 \<noteq> None"
    using assms by (auto simp: parse_number_def Let_def r_def r2_def split: if_splits option.splits)
  have digits: "list_all number_char (takeWhile is_ascii_digit t)" for t
    by (rule number_chars_digits) (auto simp: list_all_iff dest: set_takeWhileD)
  have "list_all number_char ?r3" using ex number_chars_exponent by auto
  moreover have "?fp @ ?r3 = r2" by simp
  ultimately have "list_all number_char r2" using digits [of r2] by (metis list_all_append list.pred_inject(1))
  then have "list_all number_char r"
    unfolding r2_def by (cases r) (auto simp: starts_with_def split: if_splits)
  then show "list_all number_char s"
    using digits [of s] unfolding r_def by (metis list_all_append takeWhile_dropWhile_id)
  show "s \<noteq> []" using ne by (auto simp: r_def r2_def starts_with_def)
qed

lemma parse_f64_plain: "parse_f64 v = Some x \<Longrightarrow> plain_text v"
proof -
  assume v: "parse_f64 v = Some x"
  let ?b = "if starts_with v ''-'' \<or> starts_with v ''+'' then tl v else v"
  have w: "list_all number_char ''inf''" "list_all number_char ''infinity''" "list_all number_char ''nan''"
    by (simp_all add: number_char_def plain_char_def is_ws_def code_def)
  have word: "list_all number_char ?b \<and> ?b \<noteq> []" if "lower_eq ?b u" "list_all number_char u" "u \<noteq> []" for u
    using number_chars_word [OF that(1,2)] that(1,3) by (auto simp: lower_eq_def to_lower_def)
  have "list_all number_char ?b \<and> ?b \<noteq> []"
  proof (cases "lower_eq ?b ''inf'' \<or> lower_eq ?b ''infinity'' \<or> lower_eq ?b ''nan''")
    case True
    then show ?thesis using word w by blast
  next
    case False
    then have "parse_number (starts_with v ''-'') ?b = Some x"
      using v by (simp add: parse_f64_def Let_def)
    then show ?thesis using number_chars_number by blast
  qed
  then have "list_all number_char v \<and> v \<noteq> []"
    by (cases v) (auto simp: starts_with_def split: if_splits)
  moreover from this have "hd v \<in> set v" "last v \<in> set v" by auto
  ultimately show ?thesis by (auto simp: plain_text_def number_char_def list_all_iff)
qed

text \<open>Balanced text: started at depth \<open>d\<close>, the parentheses close everything and nothing more.\<close>

fun bal :: "nat \<Rightarrow> string \<Rightarrow> bool" where
  "bal d [] = (d = 0)"
| "bal d (c # cs) =
     (if c = CHR ''('' then bal (Suc d) cs
      else if c = CHR '')'' then 0 < d \<and> bal (d - 1) cs
      else bal d cs)"

lemma bal_append: "bal e s \<Longrightarrow> bal (d + e) (s @ t) = bal d t"
proof (induction e s rule: bal.induct)
  case (2 e c cs)
  show ?case
  proof (cases "c = CHR '')''")
    case True
    then have "0 < e" "bal (e - 1) cs" using 2 by auto
    moreover have "d + e - 1 = d + (e - 1)" using \<open>0 < e\<close> by simp
    ultimately show ?thesis using 2 True by simp
  next
    case False
    then show ?thesis using 2 by (auto split: if_splits)
  qed
qed simp

lemma bal_append0: "bal 0 s \<Longrightarrow> bal d (s @ t) = bal d t"
  using bal_append [of 0 s d t] by simp

lemma bal_plain: "list_all plain_char s \<Longrightarrow> bal 0 s"
  by (induction s) (auto simp: plain_char_def)

lemma bal_paren: "bal 0 t \<Longrightarrow> bal 0 (paren t)"
  using bal_append [of 0 t "Suc 0" "'')''"] by (simp add: paren_def)

lemma bal_spelling: "spelling c s \<Longrightarrow> bal 0 s"
  by (induction rule: spelling.induct)
    (auto simp: bal_append0 bal_plain bal_paren plain_text_def dest!: parse_f64_plain)

text \<open>The two scans over balanced text.\<close>

lemma last_op_bal:
  "bal d t \<Longrightarrow> last_op op (1 + int d) i (t @ r) l = last_op op 1 (i + length t) r l"
proof (induction d t arbitrary: i rule: bal.induct)
  case (2 d c cs)
  consider "c = CHR ''(''" | "c = CHR '')''" | "c \<noteq> CHR ''(''" "c \<noteq> CHR '')''" by blast
  then show ?case
  proof cases
    case 1
    then show ?thesis using 2(1) [of "Suc i"] 2 by (simp add: paren_depth_def Let_def)
  next
    case x: 2
    with 2 have d: "0 < d" "bal (d - 1) cs" by auto
    then have "1 + int d - 1 = 1 + int (d - 1)" by simp
    then show ?thesis using 2 x d by (simp add: paren_depth_def Let_def)
  next
    case 3
    then show ?thesis using 2(3) [of "Suc i"] 2(4) by (simp add: paren_depth_def Let_def)
  qed
qed simp

lemma last_op_paren:
  assumes "bal 0 t" "hd op \<noteq> CHR '')''" "op \<noteq> []"
  shows "last_op op 0 i (paren t @ r) l = last_op op 0 (i + length (paren t)) r l"
proof -
  have "\<not> starts_with ('')'' @ r) op" using assms(2,3) by (cases op) (auto simp: starts_with_def)
  then have "last_op op 1 j ('')'' @ r) l = last_op op 0 (Suc j) r l" for j
    by (simp add: paren_depth_def Let_def)
  moreover have "last_op op 0 i (paren t @ r) l = last_op op 1 (Suc i) (t @ '')'' @ r) l"
    by (simp add: paren_def paren_depth_def Let_def)
  ultimately show ?thesis
    using last_op_bal [OF assms(1), of op "Suc i" "'')'' @ r" l] by (simp add: paren_def)
qed

lemma last_op_skip:
  assumes "list_all (\<lambda>c. c \<noteq> CHR ''('' \<and> c \<noteq> CHR '')'' \<and> c \<noteq> hd op) t" "op \<noteq> []"
  shows "last_op op 0 i (t @ r) l = last_op op 0 (i + length t) r l"
  using assms
proof (induction t arbitrary: i)
  case (Cons c t)
  then have "\<not> starts_with (c # t @ r) op" by (cases op) (auto simp: starts_with_def)
  with Cons show ?case by (simp add: paren_depth_def Let_def)
qed simp

lemma closing_paren_bal:
  "bal d t \<Longrightarrow> closing_paren (1 + int d) i (t @ r) = closing_paren 1 (i + length t) r"
proof (induction d t arbitrary: i rule: bal.induct)
  case (2 d c cs)
  consider "c = CHR ''(''" | "c = CHR '')''" | "c \<noteq> CHR ''(''" "c \<noteq> CHR '')''" by blast
  then show ?case
  proof cases
    case 1
    then show ?thesis using 2(1) [of "Suc i"] 2 by (simp add: paren_depth_def)
  next
    case x: 2
    with 2 have d: "0 < d" "bal (d - 1) cs" by auto
    then have "1 + int d - 1 = 1 + int (d - 1)" by simp
    then show ?thesis using 2 x d by (simp add: paren_depth_def)
  next
    case 3
    then show ?thesis using 2(3) [of "Suc i"] 2(4) by (simp add: paren_depth_def)
  qed
qed simp

lemma trim_paren [simp]: "trim (paren t) = paren t"
  by (rule trim_id) (simp add: paren_def char_class_defs)

lemma strip_outer_parens_paren: "bal 0 t \<Longrightarrow> strip_outer_parens (paren t) = Some t"
proof -
  assume t: "bal 0 t"
  have "closing_paren 0 0 (paren t) = closing_paren 1 1 (t @ '')'')"
    by (simp add: paren_def paren_depth_def)
  also have "\<dots> = Some (Suc (length t))"
    using closing_paren_bal [OF t, of 1 "'')''"] by simp
  finally show ?thesis
    by (simp add: strip_outer_parens_def Let_def) (simp add: paren_def starts_with_def)
qed

lemma split_paren:
  assumes "bal 0 t" "op \<in> {''||'', ''&&''}"
  shows "split_binary_op (paren t) op off = None"
    and "split_binary_op (''!'' @ paren t) op off = None"
proof -
  have p: "last_op op 0 i (paren t) None = None" for i
    using last_op_paren [OF assms(1), of op i "[]" None] assms(2) by auto
  then have "last_op op 0 0 (paren t) None = None" "last_op op 0 0 (''!'' @ paren t) None = None"
    using last_op_skip [of op "''!''" 0 "paren t" None] assms(2) by auto
  then show "split_binary_op (paren t) op off = None" "split_binary_op (''!'' @ paren t) op off = None"
    by (simp_all add: split_binary_op_def)
qed

lemma trim_delta_paren [simp]: "trim_delta (paren t) = 0"
  by (simp add: trim_delta_def trim_start_def paren_def char_class_defs)

lemma parse_paren:
  assumes "bal 0 t" "\<And>off. parse_or t off = Inr c"
  shows "parse_atom (paren t) off = Inr c" "parse_not (paren t) off = Inr c"
    "parse_and (paren t) off = Inr c" "parse_or (paren t) off = Inr c"
proof -
  have st: "starts_with (paren t) ''(''" "paren t \<noteq> []" "strip_prefix (paren t) ''!'' = None"
    by (simp_all add: paren_def starts_with_def strip_prefix_def)
  show a: "parse_atom (paren t) off = Inr c" for off
    using assms(2) st by (simp add: parse_atom.simps strip_outer_parens_paren [OF assms(1)])
  show n: "parse_not (paren t) off = Inr c" for off
    using st by (simp add: parse_not.simps a)
  show "parse_and (paren t) off = Inr c" for off
    by (simp add: parse_and.simps split_paren [OF assms(1)] n)
  then show "parse_or (paren t) off = Inr c"
    by (simp add: parse_or.simps split_paren [OF assms(1)])
qed

lemma split_middle:
  assumes "bal 0 s" "bal 0 t" "op = [c, c]" "c = CHR ''|'' \<or> c = CHR ''&''"
  shows "\<exists>off'. split_binary_op (paren s @ op @ paren t) op off = Some (paren s, paren t, off')"
    and "op' \<in> {''||'', ''&&''} \<Longrightarrow> op' \<noteq> op \<Longrightarrow> split_binary_op (paren s @ op @ paren t) op' off = None"
proof -
  have t: "last_op p 0 i (paren t) l = l" if "p \<in> {''||'', ''&&''}" for p i l
    using last_op_paren [OF assms(2), of p i "[]" l] that by auto
  have op: "op \<in> {''||'', ''&&''}" using assms(3,4) by auto
  have "\<not> starts_with (c # paren t) op" "starts_with (c # c # paren t) op"
    using assms(3,4) by (auto simp: starts_with_def paren_def)
  then have "last_op op 0 i (op @ paren t) l = Some i" for i l
    using assms(3,4) t [OF op] by (auto simp: paren_depth_def Let_def)
  then have "last_op op 0 0 (paren s @ op @ paren t) None = Some (length (paren s))"
    using last_op_paren [OF assms(1), of op 0 "op @ paren t" None] op by auto
  then show "\<exists>off'. split_binary_op (paren s @ op @ paren t) op off = Some (paren s, paren t, off')"
    using assms(3) by (simp add: split_binary_op_def Let_def) (simp add: paren_def)
  assume p: "op' \<in> {''||'', ''&&''}" "op' \<noteq> op"
  have "last_op op' 0 i (op @ paren t) l = l" for i l
    using last_op_skip [of op' op i "paren t" l] p assms(3,4) t [OF p(1)] by auto
  then have "last_op op' 0 0 (paren s @ op @ paren t) None = None"
    using last_op_paren [OF assms(1), of op' 0 "op @ paren t" None] p by auto
  then show "split_binary_op (paren s @ op @ paren t) op' off = None"
    by (simp add: split_binary_op_def)
qed

lemma find_sub_first: "c \<notin> set k \<Longrightarrow> find_sub (c # p) (k @ c # p @ v) = Some (length k)"
  by (induction k) (auto simp: starts_with_def)

lemma find_sub_absent: "c \<notin> set s \<Longrightarrow> find_sub (c # p) s = None"
  by (induction s) (auto simp: starts_with_def)

lemma plain_notin:
  "plain_text s \<Longrightarrow> c \<in> set ''()!<>=|&'' \<Longrightarrow> c \<notin> set s"
  by (auto simp: plain_text_def plain_char_def list_all_iff)

lemma trim_plain: "plain_text s \<Longrightarrow> trim s = s"
  by (rule trim_id) (simp add: plain_text_def)

text \<open>A text with the shape \<open>key op value\<close> reaches \<open>parse_comparison\<close> unchanged.\<close>

lemma parse_or_atom:
  assumes "plain_text k" "plain_text v" "set op \<subseteq> set ''!<>=''" "op \<noteq> []"
  shows "\<exists>off'. parse_or (k @ op @ v) off = parse_comparison (k @ op @ v) off'"
proof -
  let ?s = "k @ op @ v"
  have ne: "k \<noteq> []" "v \<noteq> []" and ws: "\<not> is_ws (hd k)" "\<not> is_ws (last v)"
    using assms(1,2) by (auto simp: plain_text_def)
  have tr: "trim ?s = ?s" by (rule trim_id) (use ne ws in simp)
  define Q where "Q c \<longleftrightarrow> c \<noteq> CHR ''('' \<and> c \<noteq> CHR '')'' \<and> c \<noteq> CHR ''|'' \<and> c \<noteq> CHR ''&''" for c
  have Q: "Q c" if "plain_char c" for c using that by (simp add: plain_char_def Q_def)
  have "\<forall>c\<in>set ''!<>=''. Q c" by (simp add: Q_def)
  then have "\<forall>c\<in>set op. Q c" using assms(3) by blast
  moreover have "\<forall>c\<in>set k. Q c" "\<forall>c\<in>set v. Q c"
    using assms(1,2) Q unfolding plain_text_def list_all_iff by blast+
  ultimately have chars: "list_all Q ?s" by (simp add: list_all_iff ball_Un)
  have sp: "split_binary_op t p o' = None" if "p \<in> {''||'', ''&&''}" "list_all Q t" for p o' t
  proof -
    have "hd p = CHR ''|'' \<or> hd p = CHR ''&''" "p \<noteq> []" using that(1) by auto
    then have "list_all (\<lambda>c. c \<noteq> CHR ''('' \<and> c \<noteq> CHR '')'' \<and> c \<noteq> hd p) t"
      using that(2) unfolding list_all_iff Q_def by metis
    from last_op_skip [OF this \<open>p \<noteq> []\<close>, of 0 "[]" None] show ?thesis
      by (simp add: split_binary_op_def)
  qed
  note sp = sp [OF _ chars]
  have "hd ?s = hd k" "hd k \<in> set k" using ne by auto
  moreover have "hd k \<noteq> CHR ''!''" "hd k \<noteq> CHR ''(''"
    using plain_notin [OF assms(1)] \<open>hd k \<in> set k\<close> by auto
  ultimately have hd: "strip_prefix ?s ''!'' = None" "\<not> starts_with ?s ''(''"
    using ne by (cases k; simp add: strip_prefix_def starts_with_def)+
  have "parse_or ?s off = parse_atom ?s (off + trim_delta ?s)"
    by (simp add: parse_or.simps parse_and.simps parse_not.simps sp tr hd Let_def)
  also have "\<dots> = parse_comparison ?s (off + trim_delta ?s + trim_delta ?s)"
    using ne by (simp add: parse_atom.simps tr hd Let_def)
  finally show ?thesis by blast
qed

lemma parse_comparison_print:
  assumes "plain_text k" "plain_text v"
  shows "parse_comparison (k @ ''='' @ v) off = Inr (CEquals k v)"
    and "parse_comparison (k @ ''!='' @ v) off = Inr (CNotEquals k v)"
    and "parse_f64 v = Some x \<Longrightarrow> parse_comparison (k @ ''>'' @ v) off = Inr (CGreaterThan k x)"
    and "parse_f64 v = Some x \<Longrightarrow> parse_comparison (k @ ''<'' @ v) off = Inr (CLessThan k x)"
proof -
  have ne: "k @ op @ v \<noteq> ''true''" "k @ op @ v \<noteq> ''false''" if "c \<in> set op" "c \<in> set ''!<>=''" for op c
  proof -
    have "c \<in> set (k @ op @ v)" using that by simp
    moreover have "c \<notin> set ''true''" "c \<notin> set ''false''" using that(2) by auto
    ultimately show "k @ op @ v \<noteq> ''true''" "k @ op @ v \<noteq> ''false''" by metis+
  qed
  have k: "CHR ''!'' \<notin> set k" "CHR ''>'' \<notin> set k" "CHR ''<'' \<notin> set k" "CHR ''='' \<notin> set k"
    and v: "CHR ''!'' \<notin> set v" "CHR ''>'' \<notin> set v" "CHR ''<'' \<notin> set v" "CHR ''='' \<notin> set v"
    using plain_notin [OF assms(1)] plain_notin [OF assms(2)] by auto
  have kv: "k \<noteq> []" "v \<noteq> []" using assms by (auto simp: plain_text_def)
  note tr = trim_plain [OF assms(1)] trim_plain [OF assms(2)]
  have f: "find_sub ''='' (k @ ''='' @ v) = Some (length k)" "find_sub ''!='' (k @ ''!='' @ v) = Some (length k)"
    "find_sub ''>'' (k @ ''>'' @ v) = Some (length k)" "find_sub ''<'' (k @ ''<'' @ v) = Some (length k)"
    using find_sub_first [OF k(4), of "[]" v] find_sub_first [OF k(1), of "''=''" v]
      find_sub_first [OF k(2), of "[]" v] find_sub_first [OF k(3), of "[]" v] by simp_all
  have a: "find_sub ''!='' (k @ ''='' @ v) = None" "find_sub ''>'' (k @ ''='' @ v) = None"
    "find_sub ''<'' (k @ ''='' @ v) = None" "find_sub ''!='' (k @ ''>'' @ v) = None"
    "find_sub ''!='' (k @ ''<'' @ v) = None" "find_sub ''>'' (k @ ''<'' @ v) = None"
    using k v by (auto intro!: find_sub_absent)
  show "parse_comparison (k @ ''='' @ v) off = Inr (CEquals k v)"
    using ne [of "CHR ''=''" "''=''"] f a kv by (simp add: parse_comparison_def comparison_parts_def Let_def tr)
  show "parse_comparison (k @ ''!='' @ v) off = Inr (CNotEquals k v)"
    using ne [of "CHR ''=''" "''!=''"] f a kv by (simp add: parse_comparison_def comparison_parts_def Let_def tr)
  show "parse_f64 v = Some x \<Longrightarrow> parse_comparison (k @ ''>'' @ v) off = Inr (CGreaterThan k x)"
    using ne [of "CHR ''>''" "''>''"] f a kv
    by (simp add: parse_comparison_def comparison_parts_def comparison_number_def Let_def tr)
  show "parse_f64 v = Some x \<Longrightarrow> parse_comparison (k @ ''<'' @ v) off = Inr (CLessThan k x)"
    using ne [of "CHR ''<''" "''<''"] f a kv
    by (simp add: parse_comparison_def comparison_parts_def comparison_number_def Let_def tr)
qed

lemma parse_or_spelling: "spelling c s \<Longrightarrow> parse_or s off = Inr c"
proof (induction arbitrary: off rule: spelling.induct)
  case sp_true
  show ?case by code_simp
next
  case sp_false
  show ?case by code_simp
next
  case (sp_equals k v)
  then show ?case using parse_or_atom [of k v "''=''" off] parse_comparison_print(1) [of k v] by auto
next
  case (sp_not_equals k v)
  then show ?case using parse_or_atom [of k v "''!=''" off] parse_comparison_print(2) [of k v] by auto
next
  case (sp_greater k v x)
  from parse_comparison_print(3) [OF sp_greater(1) parse_f64_plain [OF sp_greater(2)] sp_greater(2)]
  show ?case using parse_or_atom [of k v "''>''" off] sp_greater parse_f64_plain by auto
next
  case (sp_less k v x)
  from parse_comparison_print(4) [OF sp_less(1) parse_f64_plain [OF sp_less(2)] sp_less(2)]
  show ?case using parse_or_atom [of k v "''<''" off] sp_less parse_f64_plain by auto
next
  case (sp_and a s b t)
  have bal: "bal 0 s" "bal 0 t" using sp_and.hyps by (auto intro: bal_spelling)
  have "parse_and (paren s) o' = Inr a" "parse_and (paren t) o' = Inr b" for o'
    using sp_and.IH bal by (auto intro: parse_paren)
  moreover obtain off' where "split_binary_op (paren s @ ''&&'' @ paren t) ''&&'' off = Some (paren s, paren t, off')"
    using split_middle(1) [OF bal, of "''&&''" "CHR ''&''" off] by auto
  ultimately show ?case
    using split_middle(2) [OF bal, of "''&&''" "CHR ''&''" "''||''" off]
    by (simp add: parse_or.simps parse_and.simps [of "paren s @ CHR ''&'' # CHR ''&'' # paren t"])
next
  case (sp_or a s b t)
  have bal: "bal 0 s" "bal 0 t" using sp_or.hyps by (auto intro: bal_spelling)
  have "parse_or (paren s) o' = Inr a" "parse_or (paren t) o' = Inr b" for o'
    using sp_or.IH bal by (auto intro: parse_paren)
  moreover obtain off' where "split_binary_op (paren s @ ''||'' @ paren t) ''||'' off = Some (paren s, paren t, off')"
    using split_middle(1) [OF bal, of "''||''" "CHR ''|''" off] by auto
  ultimately show ?case
    by (simp add: parse_or.simps [of "paren s @ CHR ''|'' # CHR ''|'' # paren t"])
next
  case (sp_not a s)
  let ?t = "''!'' @ paren s"
  have bal: "bal 0 s" using sp_not.hyps by (auto intro: bal_spelling)
  have "parse_not (paren s) o' = Inr a" for o'
    using sp_not.IH bal by (auto intro: parse_paren)
  moreover have "trim ?t = ?t" by (rule trim_id) (simp add: paren_def char_class_defs)
  moreover have "strip_prefix ?t ''!'' = Some (paren s)" by (rule strip_prefix_append)
  ultimately have "parse_not ?t off = Inr (CNot a)"
    by (simp add: parse_not.simps [of "CHR ''!'' # paren s"] Let_def)
  then show ?case using split_paren(2) [OF bal] by (simp add: parse_or.simps parse_and.simps)
qed

lemma spelling_trim: "spelling c s \<Longrightarrow> trim s = s \<and> s \<noteq> []"
proof -
  assume c: "spelling c s"
  have "s \<noteq> [] \<and> \<not> is_ws (hd s) \<and> \<not> is_ws (last s)"
    using c by cases (auto simp: plain_text_def paren_def char_class_defs dest!: parse_f64_plain)
  then show ?thesis using trim_id by blast
qed

section \<open>Properties\<close>

text \<open>C10. A condition is the parse of each of its fully parenthesised spellings: comparisons, nested
  conjunctions, disjunctions and negations come back as they were, with every number that the
  parser can read, however it is written (fractions, exponents, infinities, NaN).  The conditions
  with a spelling are those whose keys and compared texts are not empty, hold no parenthesis and
  none of the characters \<open>! < > = | &\<close>, and neither begin nor end with a blank.\<close>

theorem parse_condition_print:
  assumes "ok_condition c"
  shows "(\<exists>s. spelling c s) \<and> (\<forall>s. spelling c s \<longrightarrow> parse_condition s = Inr c)"
proof
  show "\<exists>s. spelling c s" using assms by (simp add: spelling_exists)
  show "\<forall>s. spelling c s \<longrightarrow> parse_condition s = Inr c"
    using spelling_trim [of c] by (auto simp: parse_condition_def parse_or_spelling)
qed

theorem parse_condition_print_witness:
  "parse_condition ''((outcome=success)&&(!(score>0.5)))||(true)'' =
     Inr (COr (CAnd (CEquals ''outcome'' ''success'') (CNot (CGreaterThan ''score'' (F_Fin False (2 ^ 52) (- 53))))) CTrue)"
proof -
  let ?c = "COr (CAnd (CEquals ''outcome'' ''success'') (CNot (CGreaterThan ''score'' (F_Fin False (2 ^ 52) (- 53))))) CTrue"
  have half: "parse_f64 ''0.5'' = Some (F_Fin False (2 ^ 52) (- 53))" by code_simp
  have p: "plain_text ''outcome''" "plain_text ''success''" "plain_text ''score''" by code_simp+
  have "spelling ?c (paren (paren (''outcome'' @ ''='' @ ''success'') @ ''&&'' @
      paren (''!'' @ paren (''score'' @ ''>'' @ ''0.5''))) @ ''||'' @ paren ''true'')"
    by (intro spelling.intros p half)
  then have s: "spelling ?c ''((outcome=success)&&(!(score>0.5)))||(true)''" by (simp add: paren_def)
  have "ok_condition ?c" using p half by (auto simp: readable_number_def)
  from parse_condition_print [OF this] s show ?thesis by blast
qed

text \<open>The strict evaluator answers exactly when every variable of the condition is defined (and
  numeric where it is compared with a number), and then gives the lenient evaluator's answer.\<close>

theorem strict_evaluation:
  "evaluate_condition_strict c context = Inr b \<longleftrightarrow>
     defined_in c context \<and> b = evaluate_condition c context"
  by (rule strict_Inr_iff)

text \<open>The position in a parse error never points past the end of the input.\<close>

theorem parse_error_position:
  "case parse_condition s of
     Inl e \<Rightarrow> e = CEmpty \<or> (\<exists>p. error_pos e = Some p \<and> trim_delta s \<le> p \<and> p \<le> length s)
   | Inr c \<Rightarrow> True"
proof (cases "trim s = []")
  case True
  then show ?thesis by (simp add: parse_condition_def)
next
  case False
  then show ?thesis
    using parse_positions(1) [of "trim_delta s" "trim s"] trim_delta_le [of s]
    by (auto simp: parse_condition_def pos_within_def split: sum.split)
qed

text \<open>Three inputs where the parser differs from its documentation: \<open>==\<close> is read as \<open>=\<close> with
  a value that starts with \<open>=\<close>; a dangling \<open>||\<close> becomes part of the value; and inside parentheses
  the reported position ignores the blanks before a left operand.\<close>

theorem parse_condition_surprises:
  "parse_condition ''x == 1'' = Inr (CEquals ''x'' ''= 1'') \<and>
   parse_condition ''x=1 ||'' = Inr (CEquals ''x'' ''1 ||'') \<and>
   parse_condition ''(   y || x=1)'' = Inl (CUnexpectedToken ''y'' 1)"
  by (intro conjI; code_simp)

end
