(* ===== verification/Edge.thy ===== *)
theory Edge
  imports Graph Condition State "HOL-Library.Product_Lexorder"
begin

text \<open>
  Edge selection, \<open>edge.rs\<close>.  Label text is read as UTF-8 bytes, since
  \<open>strip_accelerator_prefix\<close> slices by byte offset; a slice off a character boundary is a panic.
  The stable sorts by descending priority and ascending target are \<open>sort_key\<close>s.
\<close>

datatype edge_selection_error = ConditionParseError string string condition_error

section \<open>Labels\<close>

definition edge_matches_outcome :: "graph_edge \<Rightarrow> outcome \<Rightarrow> bool" where
  "edge_matches_outcome edge out =
     (case ge_label edge of
        None \<Rightarrow> False
      | Some l \<Rightarrow>
          (let label = to_lower l in
           case out of
             Success _ \<Rightarrow> label \<in> {''success'', ''yes'', ''true'', ''partial_success''}
           | PartialSuccess _ \<Rightarrow> label \<in> {''success'', ''yes'', ''true'', ''partial_success''}
           | Failure _ _ _ \<Rightarrow> label \<in> {''failure'', ''error'', ''no'', ''false''}
           | Retry _ _ \<Rightarrow> label \<in> {''retry'', ''failure'', ''error''}
           | Skip _ _ \<Rightarrow> label = ''skip''))"

definition has_explicit_condition :: "graph_edge \<Rightarrow> bool" where
  "has_explicit_condition edge =
     (case (ge_condition edge, ge_label edge) of
        (Some cond, Some label) \<Rightarrow> cond \<noteq> label
      | (Some _, None) \<Rightarrow> True
      | _ \<Rightarrow> False)"

text \<open>\<open>&s[i..j]\<close>.\<close>

definition slice_mid :: "string \<Rightarrow> nat \<Rightarrow> nat \<Rightarrow> panic + string" where
  "slice_mid s i j =
     (if is_char_boundary s i \<and> is_char_boundary s j then Inr (take (j - i) (drop i s))
      else Inl Char_Boundary)"

definition strip_accelerator_prefix :: "string \<Rightarrow> panic + string" where
  "strip_accelerator_prefix s =
     (if length s \<ge> 3 \<and> s ! 0 = CHR ''['' \<and> s ! 2 = CHR '']''
      then map_sum id (\<lambda>rest. strip_one rest '' '') (slice_from s 3)
      else if length s \<ge> 2 \<and> s ! 1 = CHR '')''
      then map_sum id (\<lambda>rest. strip_one rest '' '') (slice_from s 2)
      else if length s \<ge> 4
      then res_bind (slice_mid s 1 4) (\<lambda>m. if m = '' - '' then slice_from s 4 else Inr s)
      else Inr s)"

definition normalize_label :: "string \<Rightarrow> panic + string" where
  "normalize_label label = map_sum id to_lower (strip_accelerator_prefix (trim label))"

section \<open>Selection\<close>

definition edge_priority :: "graph_edge \<Rightarrow> int" where
  "edge_priority e = (case ge_priority e of Some p \<Rightarrow> p | None \<Rightarrow> 0)"

definition edge_key :: "graph_edge \<Rightarrow> int \<times> string" where
  "edge_key e = (- edge_priority e, ge_to e)"

definition pick_best :: "graph_edge list \<Rightarrow> graph_edge option" where
  "pick_best edges = (case sort_key edge_key edges of [] \<Rightarrow> None | e # _ \<Rightarrow> Some e)"

text \<open>The loop that partitions the candidates: conditional edges that pass, unconditional edges.\<close>

fun partition_edges ::
  "string str_map \<Rightarrow> graph_edge list \<Rightarrow> graph_edge list \<Rightarrow> graph_edge list \<Rightarrow>
   edge_selection_error + graph_edge list \<times> graph_edge list" where
  "partition_edges ctx_map [] passing uncond = Inr (passing, uncond)"
| "partition_edges ctx_map (e # es) passing uncond =
     (if has_explicit_condition e
      then case parse_condition (the (ge_condition e)) of
             Inl err \<Rightarrow> Inl (ConditionParseError (ge_from e) (ge_to e) err)
           | Inr parsed \<Rightarrow>
               if evaluate_condition parsed ctx_map
               then partition_edges ctx_map es (passing @ [e]) uncond
               else partition_edges ctx_map es passing uncond
      else partition_edges ctx_map es passing (uncond @ [e]))"

fun filter_panic :: "('a \<Rightarrow> panic + bool) \<Rightarrow> 'a list \<Rightarrow> panic + 'a list" where
  "filter_panic p [] = Inr []"
| "filter_panic p (x # xs) =
     res_bind (p x) (\<lambda>b. res_bind (filter_panic p xs) (\<lambda>ys. Inr (if b then x # ys else ys)))"

definition label_matches :: "string \<Rightarrow> graph_edge \<Rightarrow> panic + bool" where
  "label_matches pref e =
     (case ge_label e of None \<Rightarrow> Inr False | Some l \<Rightarrow> map_sum id (\<lambda>n. n = pref) (normalize_label l))"

text \<open>Step 2: the unconditional edges whose label is the preferred one.\<close>

definition preferred_edges :: "outcome option \<Rightarrow> graph_edge list \<Rightarrow> panic + graph_edge list" where
  "preferred_edges last_outcome uncond =
     (case Option.bind last_outcome preferred_label of
        None \<Rightarrow> Inr []
      | Some pref_label \<Rightarrow> res_bind (normalize_label pref_label) (\<lambda>n. filter_panic (label_matches n) uncond))"

definition suggested_edges :: "outcome option \<Rightarrow> graph_edge list \<Rightarrow> graph_edge list" where
  "suggested_edges last_outcome uncond =
     (case Option.bind last_outcome suggested_next_ids of
        None \<Rightarrow> []
      | Some ids \<Rightarrow> filter (\<lambda>e. ge_to e \<in> set ids) uncond)"

definition outcome_edges :: "outcome option \<Rightarrow> graph_edge list \<Rightarrow> graph_edge list" where
  "outcome_edges last_outcome uncond =
     (case last_outcome of
        None \<Rightarrow> []
      | Some out \<Rightarrow> filter (\<lambda>e. edge_matches_outcome e out) uncond)"

definition select_edge ::
  "(json \<Rightarrow> string) \<Rightarrow> graph \<Rightarrow> string \<Rightarrow> context_map \<Rightarrow> outcome option \<Rightarrow>
   (edge_selection_error, graph_edge option) result" where
  "select_edge render g node_id ctx last_outcome =
     (let candidates = edges_from g node_id in
      if candidates = [] then Inr None
      else case partition_edges (hm_get (to_string_map render ctx)) candidates [] [] of
        Inl err \<Rightarrow> Inl (Err err)
      | Inr (passing, uncond) \<Rightarrow>
          if passing \<noteq> [] then Inr (pick_best passing)
          else if uncond = [] then Inr None
          else case preferred_edges last_outcome uncond of
            Inl p \<Rightarrow> Inl (Panic p)
          | Inr preferred \<Rightarrow>
              if preferred \<noteq> [] then Inr (pick_best preferred)
              else if suggested_edges last_outcome uncond \<noteq> []
              then Inr (pick_best (suggested_edges last_outcome uncond))
              else if outcome_edges last_outcome uncond \<noteq> []
              then Inr (pick_best (outcome_edges last_outcome uncond))
              else Inr (pick_best uncond))"

section \<open>The best edge of a list\<close>

definition at_least_as_good :: "graph_edge \<Rightarrow> graph_edge \<Rightarrow> bool" where
  "at_least_as_good e e' \<longleftrightarrow> edge_priority e > edge_priority e' \<or>
     (edge_priority e = edge_priority e' \<and> ge_to e \<le> ge_to e')"

lemma edge_key_le: "edge_key e \<le> edge_key e' \<longleftrightarrow> at_least_as_good e e'"
  by (auto simp: edge_key_def at_least_as_good_def)

lemma pick_best_None: "pick_best es = None \<longleftrightarrow> es = []"
  by (auto simp: pick_best_def split: list.split) (metis set_empty set_sort)

lemma pick_best_Some:
  assumes "pick_best es = Some e"
  shows "e \<in> set es" "\<forall>e'\<in>set es. at_least_as_good e e'"
proof -
  from assms obtain rest where s: "sort_key edge_key es = e # rest"
    by (auto simp: pick_best_def split: list.splits)
  have set: "set es = insert e (set rest)" using s by (metis list.set(2) set_sort)
  then show "e \<in> set es" by simp
  have "sorted (map edge_key (e # rest))" using s by (metis sorted_sort_key)
  then show "\<forall>e'\<in>set es. at_least_as_good e e'"
    unfolding set by (auto simp: edge_key_le [symmetric])
qed

lemma pick_best_perm:
  assumes "mset es = mset es'" "inj_on edge_key (set es)"
  shows "pick_best es = pick_best es'"
proof (cases "es = []")
  case True
  then show ?thesis using assms(1) by simp
next
  case False
  have set: "set es = set es'" using assms(1) by (rule mset_eq_setD)
  then have "es' \<noteq> []" using False by auto
  with False obtain e e' where e: "pick_best es = Some e" "pick_best es' = Some e'"
    by (meson not_None_eq pick_best_None)
  then have "edge_key e = edge_key e'"
    using pick_best_Some [OF e(1)] pick_best_Some [OF e(2)] set
    by (simp add: edge_key_le [symmetric] order_antisym)
  with assms(2) pick_best_Some [OF e(1)] pick_best_Some [OF e(2)] set have "e = e'"
    by (auto dest: inj_onD)
  with e show ?thesis by simp
qed

section \<open>The partition\<close>

definition passes :: "string str_map \<Rightarrow> graph_edge \<Rightarrow> bool" where
  "passes ctx_map e \<longleftrightarrow> has_explicit_condition e \<and>
     (case parse_condition (the (ge_condition e)) of
        Inl _ \<Rightarrow> False | Inr c \<Rightarrow> evaluate_condition c ctx_map)"

definition condition_parses :: "graph_edge \<Rightarrow> bool" where
  "condition_parses e \<longleftrightarrow> has_explicit_condition e \<longrightarrow> is_ok (parse_condition (the (ge_condition e)))"

lemma partition_edges_Inr:
  "list_all condition_parses es \<Longrightarrow> partition_edges m es ps us =
     Inr (ps @ filter (passes m) es, us @ filter (\<lambda>e. \<not> has_explicit_condition e) es)"
  by (induction m es ps us rule: partition_edges.induct)
    (auto simp: condition_parses_def passes_def res_simps split: sum.split)

lemma partition_edges_Inl:
  "\<not> list_all condition_parses es \<Longrightarrow> \<exists>e err. e \<in> set es \<and> has_explicit_condition e \<and>
     parse_condition (the (ge_condition e)) = Inl err \<and>
     partition_edges m es ps us = Inl (ConditionParseError (ge_from e) (ge_to e) err)"
proof (induction m es ps us rule: partition_edges.induct)
  case (2 m e es ps us)
  show ?case
  proof (cases "has_explicit_condition e")
    case True
    then show ?thesis
    proof (cases "parse_condition (the (ge_condition e))")
      case (Inl err)
      with True show ?thesis by auto
    next
      case (Inr c)
      with True 2 show ?thesis by (auto simp: condition_parses_def)
    qed
  next
    case False
    with 2 show ?thesis by (auto simp: condition_parses_def)
  qed
qed simp

section \<open>Selection as a choice among tiers\<close>

text \<open>
  What the selection promises: of the tiers below, the first that is not empty, and of that tier an
  edge no other edge beats.
\<close>

definition prefers :: "outcome option \<Rightarrow> graph_edge \<Rightarrow> bool" where
  "prefers last_outcome e =
     (case (Option.bind last_outcome preferred_label, ge_label e) of
        (Some pref, Some l) \<Rightarrow>
          (case (normalize_label pref, normalize_label l) of (Inr a, Inr b) \<Rightarrow> a = b | _ \<Rightarrow> False)
      | _ \<Rightarrow> False)"

definition tier_list :: "outcome option \<Rightarrow> graph_edge list \<Rightarrow> graph_edge list \<Rightarrow> graph_edge list list" where
  "tier_list last_outcome passing uncond =
     [passing, filter (prefers last_outcome) uncond, suggested_edges last_outcome uncond,
      outcome_edges last_outcome uncond, uncond]"

definition edge_tiers :: "string str_map \<Rightarrow> outcome option \<Rightarrow> graph_edge list \<Rightarrow> graph_edge list list" where
  "edge_tiers ctx_map last_outcome es =
     tier_list last_outcome (filter (passes ctx_map) es) (filter (\<lambda>e. \<not> has_explicit_condition e) es)"

definition first_tier :: "graph_edge list list \<Rightarrow> graph_edge list" where
  "first_tier tiers = (case List.find (\<lambda>t. t \<noteq> []) tiers of None \<Rightarrow> [] | Some t \<Rightarrow> t)"

lemma filter_panic_Inr: "filter_panic p xs = Inr ys \<Longrightarrow> ys = filter (\<lambda>x. p x = Inr True) xs"
proof (induction xs arbitrary: ys)
  case (Cons x xs)
  then show ?case by (auto simp: res_simps split: if_splits)
qed simp

lemma filter_panic_ok: "(\<And>x. x \<in> set xs \<Longrightarrow> is_ok (p x)) \<Longrightarrow> is_ok (filter_panic p xs)"
proof (induction xs)
  case (Cons x xs)
  obtain b where b: "p x = Inr b" using Cons.prems [of x] by (auto simp: is_ok_iff)
  have "is_ok (filter_panic p xs)" using Cons by simp
  with b show ?case by (auto simp: is_ok_iff)
qed simp

lemma preferred_edges_Inr:
  assumes "preferred_edges out us = Inr ps"
  shows "ps = filter (prefers out) us"
proof (cases "Option.bind out preferred_label")
  case None
  then show ?thesis using assms by (simp add: preferred_edges_def prefers_def)
next
  case (Some pref)
  with assms obtain n where n: "normalize_label pref = Inr n" "filter_panic (label_matches n) us = Inr ps"
    by (auto simp: preferred_edges_def res_simps)
  have "(label_matches n e = Inr True) = prefers out e" for e
  proof (cases "ge_label e")
    case None
    then show ?thesis by (simp add: label_matches_def prefers_def Some)
  next
    case l: (Some l)
    then show ?thesis
      by (cases "normalize_label l") (auto simp: label_matches_def prefers_def Some n(1))
  qed
  with filter_panic_Inr [OF n(2)] show ?thesis by simp
qed

lemma suggested_subset: "set (suggested_edges out us) \<subseteq> set us"
  by (auto simp: suggested_edges_def split: option.splits)

lemma outcome_subset: "set (outcome_edges out us) \<subseteq> set us"
  by (auto simp: outcome_edges_def split: option.splits)

lemma tier_list_cases:
  "first_tier (tier_list out ps us) =
     (if ps \<noteq> [] then ps
      else if filter (prefers out) us \<noteq> [] then filter (prefers out) us
      else if suggested_edges out us \<noteq> [] then suggested_edges out us
      else if outcome_edges out us \<noteq> [] then outcome_edges out us
      else us)"
  by (simp add: first_tier_def tier_list_def)

lemma tier_list_subset: "set (first_tier (tier_list out ps us)) \<subseteq> set ps \<union> set us"
  using suggested_subset [of out us] outcome_subset [of out us] by (auto simp: tier_list_cases)

lemma tier_list_empty: "first_tier (tier_list out ps us) = [] \<longleftrightarrow> ps = [] \<and> us = []"
  using suggested_subset [of out us] outcome_subset [of out us]
  by (cases "us = []") (auto simp: tier_list_cases)

lemma select_edge_Inr:
  assumes "select_edge render g n ctx out = Inr r"
  shows "r = pick_best (first_tier (edge_tiers (hm_get (to_string_map render ctx)) out (edges_from g n)))"
    (is "_ = pick_best (first_tier (edge_tiers ?m out ?es))")
proof (cases "?es = []")
  case True
  with assms have "r = None" by (simp add: select_edge_def)
  moreover have "first_tier (edge_tiers ?m out ?es) = []" by (simp add: edge_tiers_def tier_list_empty True)
  ultimately show ?thesis by (simp add: pick_best_def)
next
  case False
  define us ps where up: "us = filter (\<lambda>e. \<not> has_explicit_condition e) ?es" "ps = filter (passes ?m) ?es"
  have parses: "list_all condition_parses ?es"
  proof (rule ccontr)
    assume "\<not> ?thesis"
    from partition_edges_Inl [OF this, of ?m "[]" "[]"] assms False show False
      by (auto simp: select_edge_def Let_def)
  qed
  have part: "partition_edges ?m ?es [] [] = Inr (ps, us)"
    using partition_edges_Inr [OF parses, of ?m "[]" "[]"] by (simp add: up)
  have tiers: "edge_tiers ?m out ?es = tier_list out ps us" by (simp add: edge_tiers_def up)
  show ?thesis
  proof (cases "ps = [] \<and> us \<noteq> []")
    case F: False
    have "pick_best [] = None" by (simp add: pick_best_None)
    moreover have "first_tier (tier_list out [] []) = []" by (simp add: tier_list_empty)
    ultimately show ?thesis using F assms False part
      unfolding tiers by (cases "ps = []") (auto simp: select_edge_def Let_def tier_list_cases)
  next
    case True
    with assms False part obtain prs where prs: "preferred_edges out us = Inr prs"
      by (auto simp: select_edge_def Let_def split: sum.splits)
    with assms False part True show ?thesis
      using preferred_edges_Inr [OF prs] unfolding tiers
      by (auto simp: select_edge_def Let_def tier_list_cases)
  qed
qed

lemma first_tier_subset: "set (first_tier (edge_tiers m out es)) \<subseteq> set es"
  using tier_list_subset [of out "filter (passes m) es" "filter (\<lambda>e. \<not> has_explicit_condition e) es"]
  by (auto simp: edge_tiers_def)

lemma first_tier_empty:
  "first_tier (edge_tiers m out es) = [] \<longleftrightarrow>
     filter (passes m) es = [] \<and> filter (\<lambda>e. \<not> has_explicit_condition e) es = []"
  by (simp add: edge_tiers_def tier_list_empty)

lemma first_tier_perm:
  assumes "mset es = mset es'"
  shows "mset (first_tier (edge_tiers m out es)) = mset (first_tier (edge_tiers m out es'))"
proof -
  have e: "xs = [] \<longleftrightarrow> ys = []" if "mset xs = mset ys" for xs ys :: "graph_edge list"
    using that by auto
  have t: "mset (first_tier (tier_list out ps us)) = mset (first_tier (tier_list out ps' us'))"
    if ps: "mset ps = mset ps'" and us: "mset us = mset us'" for ps ps' us us'
  proof -
    have t2: "mset (filter (prefers out) us) = mset (filter (prefers out) us')" by (simp add: us)
    have t3: "mset (suggested_edges out us) = mset (suggested_edges out us')"
      by (simp add: suggested_edges_def us split: option.split)
    have t4: "mset (outcome_edges out us) = mset (outcome_edges out us')"
      by (simp add: outcome_edges_def us split: option.split)
    show ?thesis
      unfolding tier_list_cases e [OF ps] e [OF t2] e [OF t3] e [OF t4]
      by (simp only: ps us t2 t3 t4 split: if_split) simp
  qed
  show ?thesis unfolding edge_tiers_def by (rule t) (simp_all add: assms)
qed

lemma slice_ascii:
  "is_ascii s \<Longrightarrow> i \<le> length s \<Longrightarrow> slice_from s i = Inr (drop i s)"
  "is_ascii s \<Longrightarrow> i \<le> length s \<Longrightarrow> j \<le> length s \<Longrightarrow> slice_mid s i j = Inr (take (j - i) (drop i s))"
  by (simp_all add: slice_from_def slice_mid_def ascii_char_boundary)

lemma set_trim: "set (trim s) \<subseteq> set s"
  by (auto simp: trim_def trim_end_def trim_start_def dest!: set_dropWhileD)

lemma is_ok_map_sum [simp]: "is_ok (map_sum f g r) = is_ok r"
  by (cases r) auto

lemma strip_accelerator_ascii: "is_ascii s \<Longrightarrow> is_ok (strip_accelerator_prefix s)"
  by (simp add: strip_accelerator_prefix_def slice_ascii)

lemma normalize_label_ascii: "is_ascii l \<Longrightarrow> is_ok (normalize_label l)"
proof -
  assume "is_ascii l"
  then have "is_ascii (trim l)" using set_trim unfolding is_ascii_def by blast
  from strip_accelerator_ascii [OF this] show ?thesis by (simp add: normalize_label_def)
qed

definition ascii_labels :: "graph_edge list \<Rightarrow> outcome option \<Rightarrow> bool" where
  "ascii_labels es last_outcome \<longleftrightarrow>
     list_all (\<lambda>e. case ge_label e of None \<Rightarrow> True | Some l \<Rightarrow> is_ascii l) es \<and>
     (case Option.bind last_outcome preferred_label of None \<Rightarrow> True | Some l \<Rightarrow> is_ascii l)"

lemma preferred_edges_ascii: "ascii_labels us out \<Longrightarrow> is_ok (preferred_edges out us)"
proof (cases "Option.bind out preferred_label")
  case (Some pref)
  assume a: "ascii_labels us out"
  then obtain n where "normalize_label pref = Inr n"
    using normalize_label_ascii [of pref] Some by (auto simp: ascii_labels_def is_ok_iff)
  moreover have "is_ok (label_matches k e)" if "e \<in> set us" for e k
  proof (cases "ge_label e")
    case (Some l)
    then have "is_ascii l" using a that by (force simp: ascii_labels_def list_all_iff)
    from normalize_label_ascii [OF this] Some show ?thesis by (simp add: label_matches_def)
  qed (simp add: label_matches_def)
  then have "is_ok (filter_panic (label_matches n) us)" by (rule filter_panic_ok)
  ultimately show ?thesis by (simp add: preferred_edges_def Some)
qed (simp add: preferred_edges_def)

section \<open>The router interface\<close>

text \<open>What the engine needs of the selection: a chosen edge leaves the node it was chosen for.\<close>

locale router =
  fixes route :: "graph \<Rightarrow> string \<Rightarrow> context_map \<Rightarrow> outcome option \<Rightarrow>
    (edge_selection_error, graph_edge option) result"
  assumes route_from: "route g n ctx out = Inr (Some e) \<Longrightarrow> e \<in> set (edges_from g n)"
begin

lemma route_edge: "route g n ctx out = Inr (Some e) \<Longrightarrow> e \<in> set (g_edges g) \<and> ge_from e = n"
  using route_from by (simp add: edges_from_mem)

lemma route_target:
  "wf_graph g \<Longrightarrow> route g n ctx out = Inr (Some e) \<Longrightarrow> \<exists>m. node g (ge_to e) = Some m"
  using route_edge by (auto simp: wf_graph_def list_all_iff intro: node_exists)

lemma route_None_exit: "edges_from g n = [] \<Longrightarrow> route g n ctx out = Inr r \<Longrightarrow> r = None"
  using route_from [of g n ctx out] by (cases r) auto

end

interpretation sel: router "select_edge render" for render
proof
  fix g n ctx out e
  assume "select_edge render g n ctx out = Inr (Some e)"
  from select_edge_Inr [OF this] show "e \<in> set (edges_from g n)"
    using pick_best_Some(1) first_tier_subset by (metis subsetD)
qed

section \<open>Properties\<close>

text \<open>Two edges out of one node, for the witnesses; the second is preferred by its priority.\<close>

definition fork_edge :: "string \<Rightarrow> int option \<Rightarrow> string option \<Rightarrow> graph_edge" where
  "fork_edge to prio label = \<lparr>ge_from = ''s'', ge_to = to, ge_label = label, ge_condition = label,
     ge_priority = prio, ge_loop_restart = False, ge_attrs = Map.empty\<rparr>"

definition fork_graph :: "graph_edge list \<Rightarrow> graph" where
  "fork_graph es = \<lparr>g_name = None, g_nodes = [], g_edges = es, g_default_node_attrs = Map.empty,
     g_default_edge_attrs = Map.empty, g_graph_attrs = Map.empty\<rparr>"

abbreviation fork_edges :: "graph_edge list" where
  "fork_edges \<equiv> [fork_edge ''a'' None (Some ''x''), fork_edge ''b'' (Some 1) (Some ''y'')]"

lemma fork_selects:
  assumes "es \<in> {fork_edges, rev fork_edges}"
  shows "select_edge (\<lambda>_. []) (fork_graph es) ''s'' [] None = Inr (Some (fork_edge ''b'' (Some 1) (Some ''y'')))"
  using assms
  by (auto simp: select_edge_def fork_graph_def fork_edge_def edges_from_def has_explicit_condition_def
      preferred_edges_def suggested_edges_def outcome_edges_def pick_best_def edge_key_def edge_priority_def Let_def)

text \<open>C13. When selection returns an edge, it is an outgoing edge of the node, it belongs to the first
  non-empty tier (passing conditions, preferred label, suggested targets, outcome label, any
  unconditional edge), and no edge of that tier has a higher priority or the same priority and a
  smaller target; it returns none exactly when no condition passes and every edge is conditional.\<close>

theorem select_edge_spec:
  assumes "select_edge render g n ctx out = Inr r"
  shows "case r of
      Some e \<Rightarrow> e \<in> set (edges_from g n) \<and>
        e \<in> set (first_tier (edge_tiers (hm_get (to_string_map render ctx)) out (edges_from g n))) \<and>
        (\<forall>e'\<in>set (first_tier (edge_tiers (hm_get (to_string_map render ctx)) out (edges_from g n))).
           at_least_as_good e e')
    | None \<Rightarrow> (\<forall>e\<in>set (edges_from g n). has_explicit_condition e \<and>
        \<not> passes (hm_get (to_string_map render ctx)) e)"
proof (cases r)
  case None
  with select_edge_Inr [OF assms] show ?thesis
    by (auto simp: pick_best_None first_tier_empty filter_empty_conv dest!: sym [of None])
next
  case (Some e)
  let ?T = "first_tier (edge_tiers (hm_get (to_string_map render ctx)) out (edges_from g n))"
  have "pick_best ?T = Some e" using select_edge_Inr [OF assms] Some by simp
  from pick_best_Some [OF this] have "e \<in> set ?T" "\<forall>e'\<in>set ?T. at_least_as_good e e'" .
  with first_tier_subset have "e \<in> set (edges_from g n)" by blast
  with \<open>e \<in> set ?T\<close> \<open>\<forall>e'\<in>set ?T. at_least_as_good e e'\<close> Some show ?thesis by simp
qed

theorem select_edge_spec_witness:
  "list_all (at_least_as_good (fork_edge ''b'' (Some 1) (Some ''y'')))
     (first_tier (edge_tiers (hm_get []) None fork_edges))"
proof -
  have "edges_from (fork_graph fork_edges) ''s'' = fork_edges"
    by (simp add: edges_from_def fork_graph_def fork_edge_def)
  with select_edge_spec [OF fork_selects [of fork_edges]] show ?thesis
    by (simp add: to_string_map_def list_all_iff)
qed

text \<open>The choice does not depend on the order in which the edges are listed, as long as no two edges
  of the node have the same priority and target.\<close>

theorem select_edge_order_irrelevant:
  assumes "select_edge render g n ctx out = Inr r" "select_edge render g' n ctx out = Inr r'"
    and "mset (g_edges g) = mset (g_edges g')" "inj_on edge_key (set (edges_from g n))"
  shows "r = r'"
proof -
  have "mset (edges_from g n) = mset (edges_from g' n)" by (simp add: edges_from_def assms(3))
  from first_tier_perm [OF this] assms(4) show ?thesis
    unfolding select_edge_Inr [OF assms(1)] select_edge_Inr [OF assms(2)]
    by (intro pick_best_perm) (auto intro: inj_on_subset [OF _ first_tier_subset])
qed

theorem select_edge_order_irrelevant_witness:
  "Inr (Some (fork_edge ''b'' (Some 1) (Some ''y''))) =
     select_edge (\<lambda>_. []) (fork_graph (rev fork_edges)) ''s'' [] None"
proof -
  have s: "select_edge (\<lambda>_. []) (fork_graph fork_edges) ''s'' [] None = Inr (Some (fork_edge ''b'' (Some 1) (Some ''y'')))"
    "select_edge (\<lambda>_. []) (fork_graph (rev fork_edges)) ''s'' [] None = Inr (Some (fork_edge ''b'' (Some 1) (Some ''y'')))"
    by (rule fork_selects, simp)+
  have "mset (g_edges (fork_graph fork_edges)) = mset (g_edges (fork_graph (rev fork_edges)))"
    by (simp add: fork_graph_def)
  moreover have "inj_on edge_key (set (edges_from (fork_graph fork_edges) ''s''))"
    by (simp add: edges_from_def fork_graph_def fork_edge_def edge_key_def edge_priority_def)
  ultimately show ?thesis using select_edge_order_irrelevant [OF s] s(2) by simp
qed

text \<open>Selection answers whenever the explicit conditions of the node's edges parse and the labels
  involved are ASCII; otherwise an error names an edge of the node whose condition does not parse.\<close>

theorem select_edge_total:
  assumes "ascii_labels (edges_from g n) out"
  shows "if list_all condition_parses (edges_from g n)
    then \<exists>r. select_edge render g n ctx out = Inr r
    else \<exists>e err. e \<in> set (edges_from g n) \<and> parse_condition (the (ge_condition e)) = Inl err \<and>
      select_edge render g n ctx out = Inl (Err (ConditionParseError (ge_from e) (ge_to e) err))"
proof (cases "list_all condition_parses (edges_from g n)")
  case True
  let ?us = "filter (\<lambda>e. \<not> has_explicit_condition e) (edges_from g n)"
  have "ascii_labels ?us out" using assms by (auto simp: ascii_labels_def list_all_iff)
  then obtain ps where "preferred_edges out ?us = Inr ps"
    using preferred_edges_ascii by (metis is_ok_iff)
  with True show ?thesis
    by (auto simp: select_edge_def Let_def partition_edges_Inr [OF True])
next
  case False
  from partition_edges_Inl [OF this, of "hm_get (to_string_map render ctx)" "[]" "[]"] False
  show ?thesis by (auto simp: select_edge_def Let_def)
qed

theorem select_edge_total_witness:
  "\<exists>r. select_edge (\<lambda>_. []) (fork_graph fork_edges) ''s'' [] (Some (with_preferred_label ''x'' success)) = Inr r"
proof -
  have e: "edges_from (fork_graph fork_edges) ''s'' = fork_edges"
    by (simp add: edges_from_def fork_graph_def fork_edge_def)
  have "ascii_labels (edges_from (fork_graph fork_edges) ''s'') (Some (with_preferred_label ''x'' success))"
    unfolding e by code_simp
  moreover have "list_all condition_parses (edges_from (fork_graph fork_edges) ''s'')"
    unfolding e by (simp add: condition_parses_def has_explicit_condition_def fork_edge_def)
  ultimately show ?thesis using select_edge_total [of "fork_graph fork_edges" "''s''"] by presburger
qed

text \<open>A label of four or more bytes whose first character is not ASCII makes label normalisation,
  and with it the selection, panic on a byte slice.\<close>

theorem normalize_label_panics:
  assumes "4 \<le> length (trim l)" "is_cont_byte (trim l ! 1)" "trim l ! 0 \<noteq> CHR ''[''"
  shows "normalize_label l = Inl Char_Boundary"
proof -
  have "trim l ! 1 \<noteq> CHR '')''" using assms(2) by (auto simp: is_cont_byte_def code_def)
  moreover have "\<not> is_char_boundary (trim l) 1" using assms(1,2) by (auto simp: is_char_boundary_def)
  ultimately show ?thesis
    using assms by (simp add: normalize_label_def strip_accelerator_prefix_def slice_mid_def)
qed

theorem normalize_label_panics_witness:
  "normalize_label (map char_of [0xC3, 0xA9, 0x74, 0x61, 0x70, 0x65 :: nat]) = Inl Char_Boundary"
proof (rule normalize_label_panics)
  show "4 \<le> length (trim (map char_of [0xC3, 0xA9, 0x74, 0x61, 0x70, 0x65 :: nat]))" by code_simp
  show "is_cont_byte (trim (map char_of [0xC3, 0xA9, 0x74, 0x61, 0x70, 0x65 :: nat]) ! 1)" by code_simp
  show "trim (map char_of [0xC3, 0xA9, 0x74, 0x61, 0x70, 0x65 :: nat]) ! 0 \<noteq> CHR ''[''" by code_simp
qed

end
