(* ===== verification/Retry_Policy.thy ===== *)
theory Retry_Policy
  imports Graph State
begin

text \<open>
  Retry policies of \<open>retry.rs\<close>.  Attempt counters are 32-bit words and wrap, as in a release
  build; the delays are computed in 64-bit nanoseconds with the saturating operations of the source.
  The random jitter factor is an argument.
\<close>

record retry_policy =
  rp_max_attempts :: "32 word"
  rp_base_delay :: duration
  rp_max_delay :: duration
  rp_jitter :: bool

definition default_policy :: retry_policy where
  "default_policy = \<lparr>rp_max_attempts = 1, rp_base_delay = from_secs 1, rp_max_delay = from_secs 30,
     rp_jitter = True\<rparr>"

definition no_retry :: retry_policy where
  "no_retry = default_policy\<lparr>rp_max_attempts := 1\<rparr>"

definition policy_from_node :: "graph_node \<Rightarrow> retry_policy" where
  "policy_from_node n =
     (let attrs = gn_attrs n;
          p0 = default_policy;
          p1 = (case attrs ''max_retries'' of
                  Some (ANumber x) \<Rightarrow> p0\<lparr>rp_max_attempts := f64_as_u32 x + 1\<rparr>
                | _ \<Rightarrow> (case attrs ''retries'' of
                          Some (ANumber x) \<Rightarrow> p0\<lparr>rp_max_attempts := f64_as_u32 x + 1\<rparr>
                        | _ \<Rightarrow> p0));
          p2 = (case attrs ''retry_delay'' of Some (ADuration d) \<Rightarrow> p1\<lparr>rp_base_delay := d\<rparr> | _ \<Rightarrow> p1);
          p3 = (case attrs ''max_retry_delay'' of Some (ADuration d) \<Rightarrow> p2\<lparr>rp_max_delay := d\<rparr> | _ \<Rightarrow> p2)
      in case attrs ''retry_jitter'' of Some (ABool b) \<Rightarrow> p3\<lparr>rp_jitter := b\<rparr> | _ \<Rightarrow> p3)"

record retry_state =
  rs_attempts :: "32 word"
  rs_last_error :: "string option"

definition retry_state_new :: retry_state where
  "retry_state_new = \<lparr>rs_attempts = 0, rs_last_error = None\<rparr>"

definition record_attempt :: "outcome \<Rightarrow> retry_state \<Rightarrow> retry_state" where
  "record_attempt out st =
     (let st1 = st\<lparr>rs_attempts := rs_attempts st + 1\<rparr> in
      case out of Failure err _ _ \<Rightarrow> st1\<lparr>rs_last_error := Some err\<rparr> | _ \<Rightarrow> st1)"

definition should_retry :: "retry_state \<Rightarrow> retry_policy \<Rightarrow> outcome \<Rightarrow> bool" where
  "should_retry st policy out \<longleftrightarrow> is_retryable out \<and> rs_attempts st < rp_max_attempts policy"

section \<open>Delays\<close>

definition max_u64 :: nat where "max_u64 = 2 ^ 64 - 1"

definition sat_pow2 :: "nat \<Rightarrow> nat" where
  "sat_pow2 n = min (2 ^ n) max_u64"

definition sat_mul :: "nat \<Rightarrow> nat \<Rightarrow> nat" where
  "sat_mul a b = min (a * b) max_u64"

definition nanos_u64 :: "duration \<Rightarrow> nat" where
  \<comment> \<open>\<open>as_nanos() as u64\<close>\<close>
  "nanos_u64 d = d mod 2 ^ 64"

definition compute_delay :: "f64 \<Rightarrow> retry_policy \<Rightarrow> 32 word \<Rightarrow> duration" where
  "compute_delay jitter_factor policy attempt =
     (let exponent = unat attempt - 1;
          multiplier = sat_pow2 exponent;
          base_nanos = nanos_u64 (rp_base_delay policy);
          backoff_nanos = sat_mul base_nanos multiplier;
          max_nanos = nanos_u64 (rp_max_delay policy);
          capped_nanos = min backoff_nanos max_nanos
      in if rp_jitter policy
         then from_nanos (f64_as_u64 (f64_mul (f64_of_nat capped_nanos) jitter_factor))
         else from_nanos capped_nanos)"

section \<open>Counters\<close>

lemma record_attempt_attempts [simp]: "rs_attempts (record_attempt out st) = rs_attempts st + 1"
  by (cases out) (simp_all add: record_attempt_def Let_def)

lemma unat_add_one: "unat (w :: 32 word) < 2 ^ 32 - 1 \<Longrightarrow> unat (w + 1) = unat w + 1"
  by (subst unat_plus_simple [THEN iffD1]) (auto simp: word_le_nat_alt unat_word_ariths)

lemma should_retry_next:
  assumes "should_retry st policy out"
  shows "unat (rs_attempts (record_attempt out' st)) = unat (rs_attempts st) + 1"
    and "unat (rs_attempts st) < unat (rp_max_attempts policy)"
proof -
  show lt: "unat (rs_attempts st) < unat (rp_max_attempts policy)"
    using assms by (simp add: should_retry_def word_less_nat_alt)
  have "unat (rp_max_attempts policy) < 2 ^ 32" using unsigned_less [of "rp_max_attempts policy"] by simp
  with lt show "unat (rs_attempts (record_attempt out' st)) = unat (rs_attempts st) + 1"
    using unat_add_one [of "rs_attempts st"] by simp
qed

section \<open>Properties\<close>

text \<open>Without jitter the delay before attempt \<open>k + 1\<close> is the base delay times \<open>2 ^ (k - 1)\<close>, capped
  at the maximum delay, for all delays below \<open>2 ^ 64\<close> nanoseconds: the saturating arithmetic
  changes nothing.\<close>

theorem compute_delay_exponential:
  assumes "\<not> rp_jitter policy" "rp_base_delay policy < 2 ^ 64" "rp_max_delay policy < 2 ^ 64"
  shows "compute_delay f policy k =
    min (rp_base_delay policy * 2 ^ (unat k - 1)) (rp_max_delay policy)"
proof -
  let ?b = "rp_base_delay policy" and ?m = "rp_max_delay policy" and ?e = "unat k - 1"
  have m: "?m \<le> max_u64" using assms(3) by (simp add: max_u64_def)
  have "min (sat_mul ?b (sat_pow2 ?e)) ?m = min (?b * 2 ^ ?e) ?m"
  proof (cases "2 ^ ?e \<le> max_u64")
    case True
    then show ?thesis using m by (simp add: sat_mul_def sat_pow2_def min_def)
  next
    case False
    show ?thesis
    proof (cases "?b = 0")
      case b: False
      have "max_u64 \<le> ?b * max_u64" using b by simp
      moreover have "?b * max_u64 \<le> ?b * 2 ^ ?e" using False by (intro mult_left_mono) auto
      ultimately have "max_u64 \<le> ?b * max_u64" "max_u64 \<le> ?b * 2 ^ ?e" by linarith+
      moreover have "sat_pow2 ?e = max_u64" using False by (simp add: sat_pow2_def)
      ultimately have "sat_mul ?b (sat_pow2 ?e) = max_u64" "?m \<le> ?b * 2 ^ ?e"
        using m by (simp_all add: sat_mul_def)
      then show ?thesis using m by simp
    qed (simp add: sat_mul_def)
  qed
  then show ?thesis
    using assms by (simp add: compute_delay_def Let_def nanos_u64_def from_nanos_def)
qed

theorem compute_delay_exponential_witness:
  "compute_delay F_NaN (default_policy\<lparr>rp_jitter := False\<rparr>) 4 = from_secs 8 \<and>
   compute_delay F_NaN (default_policy\<lparr>rp_jitter := False\<rparr>) 100 = from_secs 30"
proof -
  let ?p = "default_policy\<lparr>rp_jitter := False\<rparr>"
  have "compute_delay F_NaN ?p k = min (from_secs 1 * 2 ^ (unat k - 1)) (from_secs 30)" for k
    using compute_delay_exponential [of ?p F_NaN k] by (simp add: default_policy_def from_secs_def)
  then show ?thesis by (simp add: from_secs_def)
qed

text \<open>A \<open>max_retries\<close> of \<open>2 ^ 32 - 1\<close> or more wraps the attempt limit to zero: the node runs once
  and is never retried.\<close>

theorem max_retries_wraps:
  assumes "gn_attrs n ''max_retries'' = Some (ANumber x)" "f64_as_u32 x = 2 ^ 32 - 1"
  shows "rp_max_attempts (policy_from_node n) = 0 \<and>
    \<not> should_retry st (policy_from_node n) out"
proof -
  have "rp_max_attempts (policy_from_node n) = 0"
    using assms
    by (auto simp: policy_from_node_def default_policy_def Let_def split: option.split attr_val.split)
  then show ?thesis by (simp add: should_retry_def)
qed

theorem max_retries_wraps_witness:
  "rp_max_attempts (policy_from_node \<lparr>gn_id = ''n'', gn_type = Codergen, gn_label = None,
     gn_attrs = [''max_retries'' \<mapsto> ANumber (f64_of_nat 4294967296)]\<rparr>) = 0"
proof -
  let ?n = "\<lparr>gn_id = ''n'', gn_type = Codergen, gn_label = None,
     gn_attrs = [''max_retries'' \<mapsto> ANumber (f64_of_nat 4294967296)]\<rparr>"
  have "gn_attrs ?n ''max_retries'' = Some (ANumber (f64_of_nat 4294967296))" by simp
  moreover have "f64_as_u32 (f64_of_nat 4294967296) = 2 ^ 32 - 1" by code_simp
  ultimately show ?thesis using max_retries_wraps by blast
qed

end
