(* ===== verification/Goals.thy ===== *)
theory Goals
  imports Graph State
begin

text \<open>
  Goal gates, \<open>goals.rs\<close>: which nodes are goals, whether they were visited, and whether their
  outcomes let the pipeline finish.
\<close>

record goal_status =
  gs_total :: nat
  gs_met :: "string list"
  gs_unmet :: "string list"

record unsatisfied_goal =
  ug_node_id :: string
  ug_reason :: string

datatype goal_error = GoalsNotMet nat string

definition is_complete :: "goal_status \<Rightarrow> bool" where
  "is_complete s \<longleftrightarrow> gs_unmet s = []"

text \<open>The fraction as a numerator and a denominator; \<open>(0, 1)\<close> when there are no goals.\<close>

definition progress_fraction :: "goal_status \<Rightarrow> nat \<times> nat" where
  "progress_fraction s = (if gs_total s = 0 then (0, 1) else (length (gs_met s), gs_total s))"

definition display_status :: "goal_status \<Rightarrow> string" where
  "display_status s = dec (length (gs_met s)) @ ''/'' @ dec (gs_total s) @ '' goals met''"

definition is_goal :: "graph_node \<Rightarrow> bool" where
  "is_goal n \<longleftrightarrow>
     (case gn_attrs n ''goal_gate'' of Some v \<Rightarrow> Some v | None \<Rightarrow> gn_attrs n ''goal'') = Some (ABool True)"

definition goals_from_graph :: "graph \<Rightarrow> string list" where
  "goals_from_graph g = map gn_id (filter is_goal (g_nodes g))"

fun check_loop :: "(string \<Rightarrow> bool) \<Rightarrow> string list \<Rightarrow> string list \<times> string list \<Rightarrow> string list \<times> string list" where
  "check_loop visited [] acc = acc"
| "check_loop visited (goal # gs) (met, unmet) =
     check_loop visited gs (if visited goal then (met @ [goal], unmet) else (met, unmet @ [goal]))"

definition goal_check :: "string list \<Rightarrow> string list \<Rightarrow> goal_status" where
  "goal_check goals visited =
     (let (met, unmet) = check_loop (\<lambda>goal. list_ex (\<lambda>v. v = goal) visited) goals ([], []) in
      \<lparr>gs_total = length goals, gs_met = met, gs_unmet = unmet\<rparr>)"

definition check_checkpoint :: "string list \<Rightarrow> checkpoint \<Rightarrow> goal_status" where
  "check_checkpoint goals cp =
     (let (met, unmet) = check_loop (\<lambda>goal. was_visited goal cp) goals ([], []) in
      \<lparr>gs_total = length goals, gs_met = met, gs_unmet = unmet\<rparr>)"

definition all_met :: "string list \<Rightarrow> string list \<Rightarrow> bool" where
  "all_met goals visited \<longleftrightarrow> list_all (\<lambda>goal. list_ex (\<lambda>v. v = goal) visited) goals"

definition unmet_goals :: "string list \<Rightarrow> string list \<Rightarrow> string list" where
  "unmet_goals goals visited = filter (\<lambda>goal. \<not> list_ex (\<lambda>v. v = goal) visited) goals"

definition met_goals :: "string list \<Rightarrow> string list \<Rightarrow> string list" where
  "met_goals goals visited = filter (\<lambda>goal. list_ex (\<lambda>v. v = goal) visited) goals"

fun check_outcomes :: "string list \<Rightarrow> outcome hmap \<Rightarrow> unsatisfied_goal + unit" where
  "check_outcomes [] node_outcomes = Inr ()"
| "check_outcomes (goal_id # gs) node_outcomes =
     (case hm_get node_outcomes goal_id of
        Some out \<Rightarrow>
          if is_success out then check_outcomes gs node_outcomes
          else Inl \<lparr>ug_node_id = goal_id, ug_reason = ''non-success outcome''\<rparr>
      | None \<Rightarrow> Inl \<lparr>ug_node_id = goal_id, ug_reason = ''not visited''\<rparr>)"

definition describe_unsatisfied :: "outcome hmap \<Rightarrow> string \<Rightarrow> string option" where
  "describe_unsatisfied node_outcomes goal_id =
     (case hm_get node_outcomes goal_id of
        Some out \<Rightarrow> if is_success out then None else Some (goal_id @ '' (non-success outcome)'')
      | None \<Rightarrow> Some (goal_id @ '' (not visited)''))"

definition enforce_outcomes :: "string list \<Rightarrow> outcome hmap \<Rightarrow> goal_error + unit" where
  "enforce_outcomes goals node_outcomes =
     (let unsatisfied = List.map_filter (describe_unsatisfied node_outcomes) goals in
      if unsatisfied = [] then Inr ()
      else Inl (GoalsNotMet (length unsatisfied) (join '', '' unsatisfied)))"

definition enforce :: "string list \<Rightarrow> string list \<Rightarrow> goal_error + unit" where
  "enforce goals visited =
     (let unmet = unmet_goals goals visited in
      if unmet = [] then Inr () else Inl (GoalsNotMet (length unmet) (join '', '' unmet)))"

section \<open>What the gates decide\<close>

definition goal_satisfied :: "outcome hmap \<Rightarrow> string \<Rightarrow> bool" where
  "goal_satisfied node_outcomes goal_id \<longleftrightarrow>
     (case hm_get node_outcomes goal_id of Some out \<Rightarrow> is_success out | None \<Rightarrow> False)"

lemma check_outcomes_ok: "is_ok (check_outcomes gs m) \<longleftrightarrow> list_all (goal_satisfied m) gs"
  by (induction gs m rule: check_outcomes.induct) (auto simp: goal_satisfied_def split: option.split)

lemma check_outcomes_Inl:
  "check_outcomes gs m = Inl u \<Longrightarrow>
     \<exists>xs ys. gs = xs @ ug_node_id u # ys \<and> list_all (goal_satisfied m) xs \<and> \<not> goal_satisfied m (ug_node_id u)"
proof (induction gs m rule: check_outcomes.induct)
  case (2 goal_id gs m)
  show ?case
  proof (cases "goal_satisfied m goal_id")
    case True
    with "2.prems" obtain out where "hm_get m goal_id = Some out" "is_success out" "check_outcomes gs m = Inl u"
      by (auto simp: goal_satisfied_def split: option.splits)
    with 2 True obtain xs ys where "gs = xs @ ug_node_id u # ys" "list_all (goal_satisfied m) xs"
      "\<not> goal_satisfied m (ug_node_id u)" by blast
    with True show ?thesis by (intro exI [of _ "goal_id # xs"] exI [of _ ys]) simp
  next
    case False
    with "2.prems" have "ug_node_id u = goal_id"
      by (auto simp: goal_satisfied_def split: option.splits if_splits)
    with False show ?thesis by (intro exI [of _ "[]"] exI [of _ gs]) simp
  qed
qed simp

lemma describe_unsatisfied_None: "describe_unsatisfied m x = None \<longleftrightarrow> goal_satisfied m x"
  by (auto simp: describe_unsatisfied_def goal_satisfied_def split: option.split)

lemma map_filter_describe:
  "List.map_filter (describe_unsatisfied m) gs =
     map (the \<circ> describe_unsatisfied m) (filter (\<lambda>x. \<not> goal_satisfied m x) gs)"
  by (simp add: List.map_filter_def describe_unsatisfied_None o_def)

lemma enforce_outcomes_ok: "is_ok (enforce_outcomes gs m) \<longleftrightarrow> list_all (goal_satisfied m) gs"
  by (auto simp: enforce_outcomes_def Let_def map_filter_describe filter_empty_conv list_all_iff)

lemma check_loop_eq:
  "check_loop v gs (met, unmet) = (met @ filter v gs, unmet @ filter (\<lambda>x. \<not> v x) gs)"
  by (induction gs arbitrary: met unmet) auto

section \<open>Properties\<close>

text \<open>The routing check and the enforcing check agree: both pass exactly when every goal has a
  successful outcome.  So the engine's \<open>unwrap_err\<close> after a failed check cannot panic, and the
  reported goal is the first unsatisfied one in graph order.\<close>

theorem goal_checks_agree:
  "(is_ok (check_outcomes goals m) \<longleftrightarrow> is_ok (enforce_outcomes goals m)) \<and>
   (is_ok (enforce_outcomes goals m) \<longleftrightarrow> list_all (goal_satisfied m) goals) \<and>
   (case check_outcomes goals m of
      Inl u \<Rightarrow> \<exists>xs ys. goals = xs @ ug_node_id u # ys \<and> list_all (goal_satisfied m) xs \<and>
        \<not> goal_satisfied m (ug_node_id u)
    | Inr _ \<Rightarrow> True)"
  using check_outcomes_ok [of goals m] enforce_outcomes_ok [of goals m] check_outcomes_Inl [of goals m]
  by (auto split: sum.split)

text \<open>Checking visited goals splits the goals into those visited and those not, in order: the two
  lists together are all the goals, the status is complete exactly when \<open>enforce\<close> accepts, and the
  checkpoint variant decides the same from the checkpoint's visited nodes.\<close>

theorem goal_check_splits:
  "gs_met (goal_check goals visited) = met_goals goals visited \<and>
   gs_unmet (goal_check goals visited) = unmet_goals goals visited \<and>
   mset (gs_met (goal_check goals visited) @ gs_unmet (goal_check goals visited)) = mset goals \<and>
   (is_complete (goal_check goals visited) \<longleftrightarrow> is_ok (enforce goals visited)) \<and>
   (is_complete (goal_check goals visited) \<longleftrightarrow> all_met goals visited) \<and>
   check_checkpoint goals cp = goal_check goals (cp_visited_nodes cp)"
  by (auto simp: goal_check_def check_checkpoint_def check_loop_eq met_goals_def unmet_goals_def
      is_complete_def enforce_def Let_def all_met_def filter_empty_conv list_all_iff was_visited_def)

end
