(* ===== verification/Fidelity.thy ===== *)
theory Fidelity
  imports State
begin

text \<open>
  Context carry-over between nodes, \<open>fidelity.rs\<close>.  Values are truncated at a byte offset, which
  panics inside a UTF-8 sequence, so the functions that truncate return a result.
\<close>

datatype fidelity_mode =
    Full | Truncate | Compact | SummaryLow | SummaryMedium | SummaryHigh | Reset | ResultOnly

definition is_preserving :: "fidelity_mode \<Rightarrow> bool" where
  "is_preserving m \<longleftrightarrow> m \<in> {Full, Truncate, Compact, SummaryLow, SummaryMedium, SummaryHigh}"

definition is_discarding :: "fidelity_mode \<Rightarrow> bool" where
  "is_discarding m \<longleftrightarrow> m = Reset"

fun display_mode :: "fidelity_mode \<Rightarrow> string" where
  "display_mode Full = ''full''"
| "display_mode Truncate = ''truncate''"
| "display_mode Compact = ''compact''"
| "display_mode SummaryLow = ''summary:low''"
| "display_mode SummaryMedium = ''summary:medium''"
| "display_mode SummaryHigh = ''summary:high''"
| "display_mode Reset = ''reset''"
| "display_mode ResultOnly = ''result_only''"

record fidelity_config =
  fc_default_mode :: fidelity_mode
  fc_edge_overrides :: "fidelity_mode hmap"
  fc_max_context_tokens :: "nat option"

definition fidelity_config_new :: "fidelity_mode \<Rightarrow> fidelity_config" where
  "fidelity_config_new m = \<lparr>fc_default_mode = m, fc_edge_overrides = [], fc_max_context_tokens = None\<rparr>"

definition fidelity_edge_key :: "string \<Rightarrow> string \<Rightarrow> string" where
  "fidelity_edge_key from to = from @ ''->'' @ to"

definition with_edge_override :: "string \<Rightarrow> string \<Rightarrow> fidelity_mode \<Rightarrow> fidelity_config \<Rightarrow> fidelity_config" where
  "with_edge_override from to m cfg =
     cfg\<lparr>fc_edge_overrides := hm_insert (fidelity_edge_key from to) m (fc_edge_overrides cfg)\<rparr>"

definition with_max_tokens :: "nat \<Rightarrow> fidelity_config \<Rightarrow> fidelity_config" where
  "with_max_tokens n cfg = cfg\<lparr>fc_max_context_tokens := Some n\<rparr>"

definition mode_for_edge :: "fidelity_config \<Rightarrow> string \<Rightarrow> string \<Rightarrow> fidelity_mode" where
  "mode_for_edge cfg from to =
     (case hm_get (fc_edge_overrides cfg) (fidelity_edge_key from to) of
        Some m \<Rightarrow> m | None \<Rightarrow> fc_default_mode cfg)"

definition clone_with_marker :: "context_map \<Rightarrow> string \<Rightarrow> context_map" where
  "clone_with_marker ctx marker = context_set ''_fidelity_mode'' (JString marker) (snapshot ctx)"

definition process :: "fidelity_config \<Rightarrow> string \<Rightarrow> string \<Rightarrow> context_map \<Rightarrow> context_map" where
  "process cfg from to ctx =
     (case mode_for_edge cfg from to of
        Full \<Rightarrow> snapshot ctx
      | Truncate \<Rightarrow> clone_with_marker ctx ''truncate''
      | Compact \<Rightarrow> clone_with_marker ctx ''compact''
      | SummaryLow \<Rightarrow> clone_with_marker ctx ''summary:low''
      | SummaryMedium \<Rightarrow> clone_with_marker ctx ''summary:medium''
      | SummaryHigh \<Rightarrow> clone_with_marker ctx ''summary:high''
      | Reset \<Rightarrow> []
      | ResultOnly \<Rightarrow> filter (\<lambda>(k, _). starts_with k ''_'') (snapshot ctx))"

section \<open>Compaction and preambles\<close>

definition truncated_suffix :: string where "truncated_suffix = ''...[truncated]''"

definition default_truncate_max_len :: nat where "default_truncate_max_len = 1000"

definition truncate_value :: "nat \<Rightarrow> string \<Rightarrow> panic + string" where
  "truncate_value max_len v =
     (if length v \<le> max_len then Inr v
      else map_sum id (\<lambda>t. t @ truncated_suffix) (slice_to v max_len))"

fun truncate_all :: "string hmap \<Rightarrow> panic + string hmap" where
  "truncate_all [] = Inr []"
| "truncate_all ((k, v) # m) =
     res_bind (truncate_value default_truncate_max_len v) (\<lambda>v'.
     res_bind (truncate_all m) (\<lambda>m'. Inr ((k, v') # m')))"

definition compact_context :: "fidelity_mode \<Rightarrow> string hmap \<Rightarrow> panic + string hmap" where
  "compact_context mode context =
     (case mode of
        Full \<Rightarrow> Inr context
      | Compact \<Rightarrow> truncate_all (filter (\<lambda>(k, _). \<not> starts_with k ''_'') context)
      | ResultOnly \<Rightarrow> Inr (filter (\<lambda>(k, _). ends_with k ''_result'' \<or> ends_with k ''_output'') context)
      | Reset \<Rightarrow> Inr []
      | _ \<Rightarrow> truncate_all context)"

definition kv_lines :: "string hmap \<Rightarrow> string list" where
  "kv_lines m = sort (map (\<lambda>(k, v). k @ ''='' @ v) m)"

definition hidden_line :: "nat \<Rightarrow> string list" where
  "hidden_line hidden = (if hidden > 0 then [''['' @ dec hidden @ '' keys hidden]''] else [])"

definition generate_preamble :: "fidelity_mode \<Rightarrow> string hmap \<Rightarrow> panic + string" where
  "generate_preamble mode context =
     (case mode of
        Full \<Rightarrow> Inr (if context = [] then ''[no context]'' else join [newline] (kv_lines context))
      | Compact \<Rightarrow> res_bind (compact_context mode context) (\<lambda>compacted.
          let hidden = length context - length compacted;
              ls = kv_lines compacted @ hidden_line hidden in
          Inr (if compacted = [] \<and> hidden = 0 then ''[no context]''
               else if ls = [] then ''[no context]''
               else join [newline] ls))
      | ResultOnly \<Rightarrow> res_bind (compact_context mode context) (\<lambda>compacted.
          Inr (if compacted = [] then ''[no results]'' else join [newline] (kv_lines compacted)))
      | Reset \<Rightarrow> Inr ''[context reset]''
      | _ \<Rightarrow> res_bind (compact_context mode context) (\<lambda>compacted.
          let hidden = length context - length compacted in
          Inr (if compacted = [] then ''[no context]''
               else join [newline] (kv_lines compacted @ hidden_line hidden))))"

section \<open>Facts\<close>

lemma truncate_value_length:
  "truncate_value n v = Inr t \<Longrightarrow> length t \<le> n + length truncated_suffix \<and> take n t = take n v"
  by (auto simp: truncate_value_def slice_to_def split: if_splits)

lemma truncate_value_ascii: "is_ascii v \<Longrightarrow> is_ok (truncate_value n v)"
  by (cases "length v \<le> n") (simp_all add: truncate_value_def slice_to_def ascii_char_boundary)

lemma truncate_all_keys: "truncate_all m = Inr m' \<Longrightarrow> map fst m' = map fst m"
  by (induction m arbitrary: m' rule: truncate_all.induct) (auto simp: res_simps)

lemma truncate_all_ascii: "list_all (\<lambda>(k, v). is_ascii v) m \<Longrightarrow> is_ok (truncate_all m)"
proof (induction m rule: truncate_all.induct)
  case (2 k v m)
  then obtain t m' where "truncate_value default_truncate_max_len v = Inr t" "truncate_all m = Inr m'"
    using truncate_value_ascii [of v default_truncate_max_len] by (auto simp: is_ok_iff)
  then show ?case by simp
qed simp

lemma truncate_all_mset:
  "truncate_all m = Inr m' \<Longrightarrow>
     mset m' = image_mset (\<lambda>(k, v). (k, case truncate_value default_truncate_max_len v of Inr t \<Rightarrow> t | Inl _ \<Rightarrow> [])) (mset m)"
  by (induction m arbitrary: m' rule: truncate_all.induct) (auto simp: res_simps)

lemma compact_context_mset:
  assumes "compact_context mode m = Inr c" "compact_context mode m' = Inr c'" "mset m = mset m'"
  shows "mset c = mset c'"
  using assms
  by (cases mode) (auto simp: compact_context_def dest!: truncate_all_mset)

lemma kv_lines_mset: "mset m = mset m' \<Longrightarrow> kv_lines m = kv_lines m'"
  by (simp only: kv_lines_def sorted_list_of_multiset_mset [symmetric] mset_map)

lemma process_get:
  "hm_get (process cfg from to ctx) k =
     (case mode_for_edge cfg from to of
        Full \<Rightarrow> hm_get ctx k
      | Reset \<Rightarrow> None
      | ResultOnly \<Rightarrow> if starts_with k ''_'' then hm_get ctx k else None
      | m \<Rightarrow> if k = ''_fidelity_mode'' then Some (JString (display_mode m)) else hm_get ctx k)"
proof -
  have f: "map_of (filter (\<lambda>(k, _). P k) m) k = (if P k then map_of m k else None)"
    for P and m :: "json hmap"
    by (induction m) auto
  show ?thesis
    by (cases "mode_for_edge cfg from to")
      (simp_all add: process_def clone_with_marker_def context_set_def snapshot_def hm_get_def [of "filter _ _"] f,
        simp add: hm_get_def)
qed

section \<open>Properties\<close>

text \<open>A preamble does not depend on the iteration order of the context, and whether the
  compaction panics aside, one context has one preamble.\<close>

theorem preamble_order_irrelevant:
  assumes "mset m = mset m'" "generate_preamble mode m = Inr p" "generate_preamble mode m' = Inr p'"
  shows "p = p'"
proof -
  have len: "length m = length m'" "m = [] \<longleftrightarrow> m' = []"
    using assms(1) by (auto dest: mset_eq_length)
  show ?thesis
  proof (cases "mode = Full \<or> mode = Reset")
    case True
    then show ?thesis using assms len kv_lines_mset [OF assms(1)]
      by (auto simp: generate_preamble_def split: if_splits)
  next
    case False
    with assms(2,3) obtain c c' where c: "compact_context mode m = Inr c" "compact_context mode m' = Inr c'"
      by (cases mode) (auto simp: generate_preamble_def res_simps)
    from compact_context_mset [OF this assms(1)] have e: "mset c = mset c'" .
    then have "kv_lines c = kv_lines c'" "length c = length c'" "c = [] \<longleftrightarrow> c' = []"
      by (auto intro: kv_lines_mset dest: mset_eq_length)
    with False assms(2,3) c len show ?thesis
      by (cases mode) (auto simp: generate_preamble_def Let_def)
  qed
qed

theorem preamble_order_irrelevant_witness:
  "generate_preamble Compact [(''b'', ''2''), (''_x'', ''0''), (''a'', ''1'')] = Inr (''a=1'' @ [newline] @ ''b=2'' @ [newline] @ ''[1 keys hidden]'') \<and>
   ''a=1'' @ [newline] @ ''b=2'' @ [newline] @ ''[1 keys hidden]'' =
     projr (generate_preamble Compact [(''a'', ''1''), (''b'', ''2''), (''_x'', ''0'')])"
proof -
  let ?p = "''a=1'' @ [newline] @ ''b=2'' @ [newline] @ ''[1 keys hidden]''"
  have 1: "generate_preamble Compact [(''b'', ''2''), (''_x'', ''0''), (''a'', ''1'')] = Inr ?p" by code_simp
  have 2: "generate_preamble Compact [(''a'', ''1''), (''b'', ''2''), (''_x'', ''0'')] =
      Inr (projr (generate_preamble Compact [(''a'', ''1''), (''b'', ''2''), (''_x'', ''0'')]))" by code_simp
  show ?thesis using preamble_order_irrelevant [OF _ 1 2] 1 by simp
qed

end
