(* ===== verification/Stats.thy ===== *)
theory Stats
  imports State
begin

text \<open>
  Run statistics, \<open>stats.rs\<close>: the timing records of the executed nodes, the number of executions per
  outcome kind, and the slowest nodes.
\<close>

datatype outcome_kind = KSuccess | KFailure | KRetry | KSkip

record node_stats =
  ns_node_id :: string
  ns_duration_ms :: nat
  ns_outcome_kind :: outcome_kind

record pipeline_stats =
  ps_total_nodes_visited :: nat
  ps_nodes_by_outcome :: "outcome_kind \<Rightarrow> nat option"
  ps_total_duration_ms :: nat
  ps_node_timings :: "node_stats list"

definition count_outcome :: "node_stats \<Rightarrow> (outcome_kind \<Rightarrow> nat option) \<Rightarrow> outcome_kind \<Rightarrow> nat option" where
  "count_outcome ns m =
     m(ns_outcome_kind ns \<mapsto> (case m (ns_outcome_kind ns) of None \<Rightarrow> 0 | Some c \<Rightarrow> c) + 1)"

definition from_node_timings :: "node_stats list \<Rightarrow> nat \<Rightarrow> pipeline_stats" where
  "from_node_timings timings total_duration_ms =
     \<lparr>ps_total_nodes_visited = length timings,
      ps_nodes_by_outcome = fold count_outcome timings Map.empty,
      ps_total_duration_ms = total_duration_ms,
      ps_node_timings = timings\<rparr>"

text \<open>The sort of the source is stable, as \<open>sort_key\<close> is: by descending duration.\<close>

definition top_slowest :: "nat \<Rightarrow> pipeline_stats \<Rightarrow> node_stats list" where
  "top_slowest n ps = take n (sort_key (\<lambda>ns. - int (ns_duration_ms ns)) (ps_node_timings ps))"

section \<open>Facts\<close>

definition kind_count :: "outcome_kind \<Rightarrow> node_stats list \<Rightarrow> nat" where
  "kind_count k timings = length (filter (\<lambda>ns. ns_outcome_kind ns = k) timings)"

lemma fold_count_outcome:
  "fold count_outcome timings m k =
     (if kind_count k timings = 0 then m k
      else Some ((case m k of None \<Rightarrow> 0 | Some c \<Rightarrow> c) + kind_count k timings))"
  by (induction timings arbitrary: m) (auto simp: count_outcome_def kind_count_def split: option.split)

lemma kind_counts_sum:
  "kind_count KSuccess ts + kind_count KFailure ts + kind_count KRetry ts + kind_count KSkip ts = length ts"
proof (induction ts)
  case (Cons t ts)
  then show ?case by (cases "ns_outcome_kind t") (simp_all add: kind_count_def)
qed (simp add: kind_count_def)

lemma take_drop_sorted:
  assumes "sorted (map f xs)" "x \<in> set (take n xs)" "y \<in> set (drop n xs)"
  shows "f x \<le> f y"
proof -
  have "sorted (map f (take n xs) @ map f (drop n xs))"
    using assms(1) by (simp flip: map_append)
  then show ?thesis using assms(2,3) by (simp add: sorted_append)
qed

section \<open>Properties\<close>

text \<open>The statistics account for every execution: each kind has an entry exactly when it occurs, with
  the number of its executions, and these numbers add up to the total number of executions.\<close>

theorem stats_account:
  "ps_nodes_by_outcome (from_node_timings ts d) k =
     (if kind_count k ts = 0 then None else Some (kind_count k ts)) \<and>
   (\<Sum>k\<leftarrow>[KSuccess, KFailure, KRetry, KSkip].
      case ps_nodes_by_outcome (from_node_timings ts d) k of None \<Rightarrow> 0 | Some c \<Rightarrow> c) =
     ps_total_nodes_visited (from_node_timings ts d)"
  using kind_counts_sum [of ts]
  by (simp add: from_node_timings_def fold_count_outcome if_distrib [of "case_option _ _"] cong: if_cong)

text \<open>The slowest nodes are \<open>n\<close> of the executions, or all of them, sorted by descending duration, and
  no execution left out is slower than one that is listed.\<close>

theorem top_slowest_spec:
  assumes "ps = from_node_timings ts d"
  shows "length (top_slowest n ps) = min n (length ts) \<and>
    (\<exists>rest. mset (top_slowest n ps @ rest) = mset ts \<and>
       (\<forall>a\<in>set (top_slowest n ps). \<forall>b\<in>set rest. ns_duration_ms b \<le> ns_duration_ms a)) \<and>
    sorted (map (\<lambda>ns. - int (ns_duration_ms ns)) (top_slowest n ps))"
proof -
  let ?f = "\<lambda>ns. - int (ns_duration_ms ns)" and ?s = "sort_key (\<lambda>ns. - int (ns_duration_ms ns)) ts"
  have t: "top_slowest n ps = take n ?s" by (simp add: top_slowest_def assms from_node_timings_def)
  have "mset (take n ?s @ drop n ?s) = mset ts" by simp
  moreover have "\<forall>a\<in>set (take n ?s). \<forall>b\<in>set (drop n ?s). ns_duration_ms b \<le> ns_duration_ms a"
    using take_drop_sorted [of ?f ?s] by force
  moreover have "sorted (map ?f (take n ?s))"
    using sorted_sort_key [of ?f ts] by (simp add: take_map [symmetric] sorted_wrt_take)
  ultimately show ?thesis unfolding t by (intro conjI exI [of _ "drop n ?s"]) simp_all
qed

theorem top_slowest_spec_witness:
  "length (top_slowest 1 (from_node_timings
     [\<lparr>ns_node_id = ''a'', ns_duration_ms = 3, ns_outcome_kind = KSuccess\<rparr>,
      \<lparr>ns_node_id = ''b'', ns_duration_ms = 9, ns_outcome_kind = KSkip\<rparr>] 12)) = 1"
proof -
  let ?ts = "[\<lparr>ns_node_id = ''a'', ns_duration_ms = 3, ns_outcome_kind = KSuccess\<rparr>,
      \<lparr>ns_node_id = ''b'', ns_duration_ms = 9, ns_outcome_kind = KSkip\<rparr>]"
  show ?thesis using top_slowest_spec [OF refl, of 1 ?ts 12] by simp
qed

end
