(* ===== verification/Events.thy ===== *)
theory Events
  imports State
begin

text \<open>
  Pipeline events, the in-memory event log and its summary, \<open>events.rs\<close>.  Timestamps are nanoseconds.
  The broadcast channel of the emitter belongs to tokio and is not modelled: an emitter is a
  consumer of the events in the order they are emitted.
\<close>

datatype pipeline_event =
    NodeStarted string string nat \<comment> \<open>node, node type, timestamp\<close>
  | NodeCompleted string outcome nat nat \<comment> \<open>node, outcome, duration in ms, timestamp\<close>
  | NodeFailed string string nat nat \<comment> \<open>node, error, duration in ms, timestamp\<close>
  | EdgeTraversed string string "string option" nat
  | HumanPromptIssued string string nat
  | HumanResponseReceived string string nat
  | ContextUpdated string nat
  | CheckpointCreated string nat
  | PipelineStarted string nat
  | PipelineCompleted outcome nat nat nat \<comment> \<open>outcome, nodes, duration in ms, timestamp\<close>
  | PipelineAborted string nat
  | LoopRestarted string string nat nat \<comment> \<open>from, to, restart count, timestamp\<close>
  | AgentToolCallStarted string string string string nat
  | AgentToolCallCompleted string string string nat bool string nat
  | AgentTokenUsage string nat nat f64 nat
  | AgentMessage string string nat
  | AgentTurnStarted string "32 word" nat

record node_execution_summary =
  nx_node_id :: string
  nx_node_type :: string
  nx_started_at :: nat
  nx_completed_at :: nat
  nx_duration_ms :: nat
  nx_outcome :: "outcome option"
  nx_retry_count :: nat

record pipeline_execution_summary =
  px_graph_name :: string
  px_started_at :: nat
  px_completed_at :: nat
  px_duration_ms :: nat
  px_total_nodes :: nat
  px_node_summaries :: "node_execution_summary list"
  px_final_outcome :: outcome
  px_loop_restarts :: nat

fun is_node_event :: "pipeline_event \<Rightarrow> bool" where
  "is_node_event (NodeStarted _ _ _) = True"
| "is_node_event (NodeCompleted _ _ _ _) = True"
| "is_node_event (NodeFailed _ _ _ _) = True"
| "is_node_event _ = False"

fun is_pipeline_event :: "pipeline_event \<Rightarrow> bool" where
  "is_pipeline_event (PipelineStarted _ _) = True"
| "is_pipeline_event (PipelineCompleted _ _ _ _) = True"
| "is_pipeline_event (PipelineAborted _ _) = True"
| "is_pipeline_event _ = False"

fun event_node_id :: "pipeline_event \<Rightarrow> string option" where
  "event_node_id (NodeStarted n _ _) = Some n"
| "event_node_id (NodeCompleted n _ _ _) = Some n"
| "event_node_id (NodeFailed n _ _ _) = Some n"
| "event_node_id (HumanPromptIssued n _ _) = Some n"
| "event_node_id (HumanResponseReceived n _ _) = Some n"
| "event_node_id (CheckpointCreated n _) = Some n"
| "event_node_id (AgentToolCallStarted n _ _ _ _) = Some n"
| "event_node_id (AgentToolCallCompleted n _ _ _ _ _ _) = Some n"
| "event_node_id (AgentMessage n _ _) = Some n"
| "event_node_id (AgentTurnStarted n _ _) = Some n"
| "event_node_id (AgentTokenUsage n _ _ _ _) = Some n"
| "event_node_id (EdgeTraversed _ _ _ _) = None"
| "event_node_id (ContextUpdated _ _) = None"
| "event_node_id (PipelineStarted _ _) = None"
| "event_node_id (PipelineCompleted _ _ _ _) = None"
| "event_node_id (PipelineAborted _ _) = None"
| "event_node_id (LoopRestarted _ _ _ _) = None"

fun event_timestamp :: "pipeline_event \<Rightarrow> nat" where
  "event_timestamp (NodeStarted _ _ t) = t"
| "event_timestamp (NodeCompleted _ _ _ t) = t"
| "event_timestamp (NodeFailed _ _ _ t) = t"
| "event_timestamp (EdgeTraversed _ _ _ t) = t"
| "event_timestamp (HumanPromptIssued _ _ t) = t"
| "event_timestamp (HumanResponseReceived _ _ t) = t"
| "event_timestamp (ContextUpdated _ t) = t"
| "event_timestamp (CheckpointCreated _ t) = t"
| "event_timestamp (PipelineStarted _ t) = t"
| "event_timestamp (PipelineCompleted _ _ _ t) = t"
| "event_timestamp (PipelineAborted _ t) = t"
| "event_timestamp (LoopRestarted _ _ _ t) = t"
| "event_timestamp (AgentToolCallStarted _ _ _ _ t) = t"
| "event_timestamp (AgentToolCallCompleted _ _ _ _ _ _ t) = t"
| "event_timestamp (AgentMessage _ _ t) = t"
| "event_timestamp (AgentTurnStarted _ _ t) = t"
| "event_timestamp (AgentTokenUsage _ _ _ _ t) = t"

section \<open>The log\<close>

type_synonym event_log = "pipeline_event list"

definition log_push :: "pipeline_event \<Rightarrow> event_log \<Rightarrow> event_log" where
  "log_push e l = l @ [e]"

definition events_for_node :: "event_log \<Rightarrow> string \<Rightarrow> pipeline_event list" where
  "events_for_node l node_id = filter (\<lambda>e. event_node_id e = Some node_id) l"

fun started_event :: "pipeline_event \<Rightarrow> (string \<times> nat) option" where
  "started_event (PipelineStarted name t) = Some (name, t)"
| "started_event _ = None"

fun completed_event :: "pipeline_event \<Rightarrow> (outcome \<times> nat \<times> nat \<times> nat) option" where
  "completed_event (PipelineCompleted out nodes d t) = Some (out, nodes, d, t)"
| "completed_event _ = None"

fun node_started_event :: "pipeline_event \<Rightarrow> (string \<times> string \<times> nat) option" where
  "node_started_event (NodeStarted n ty t) = Some (n, ty, t)"
| "node_started_event _ = None"

fun node_completion :: "string \<Rightarrow> pipeline_event \<Rightarrow> (outcome \<times> nat \<times> nat) option" where
  "node_completion node_id (NodeCompleted n out d t) = (if n = node_id then Some (out, d, t) else None)"
| "node_completion node_id _ = None"

fun is_loop_restarted :: "pipeline_event \<Rightarrow> bool" where
  "is_loop_restarted (LoopRestarted _ _ _ _) = True"
| "is_loop_restarted _ = False"

definition span_ms :: "nat \<Rightarrow> nat \<Rightarrow> nat" where
  \<comment> \<open>\<open>(last_ts - started_at).num_milliseconds().max(0)\<close>\<close>
  "span_ms from to = (to - from) div 10 ^ 6"

definition unfinished :: "event_log \<Rightarrow> nat \<Rightarrow> outcome \<times> nat \<times> nat \<times> nat" where
  "unfinished l started_at =
     (let last_ts = (if l = [] then started_at else event_timestamp (last l)) in
      (failure ''pipeline did not complete'', 0, span_ms started_at last_ts, last_ts))"

definition node_summary :: "event_log \<Rightarrow> string \<times> string \<times> nat \<Rightarrow> node_execution_summary" where
  "node_summary l = (\<lambda>(node_id, node_type, start_ts).
     case find_map (node_completion node_id) l of
       Some (out, duration_ms, end_ts) \<Rightarrow>
         \<lparr>nx_node_id = node_id, nx_node_type = node_type, nx_started_at = start_ts,
          nx_completed_at = end_ts, nx_duration_ms = duration_ms, nx_outcome = Some out, nx_retry_count = 0\<rparr>
     | None \<Rightarrow>
         \<lparr>nx_node_id = node_id, nx_node_type = node_type, nx_started_at = start_ts,
          nx_completed_at = start_ts, nx_duration_ms = 0, nx_outcome = None, nx_retry_count = 0\<rparr>)"

definition summary :: "event_log \<Rightarrow> pipeline_execution_summary option" where
  "summary l =
     (case find_map started_event l of
        None \<Rightarrow> None
      | Some (graph_name, started_at) \<Rightarrow>
          (let (final_outcome, total_nodes, duration_ms, completed_at) =
             (case find_map completed_event l of Some c \<Rightarrow> c | None \<Rightarrow> unfinished l started_at) in
           Some \<lparr>px_graph_name = graph_name, px_started_at = started_at, px_completed_at = completed_at,
             px_duration_ms = duration_ms, px_total_nodes = total_nodes,
             px_node_summaries = map (node_summary l) (List.map_filter node_started_event l),
             px_final_outcome = final_outcome,
             px_loop_restarts = length (filter is_loop_restarted l)\<rparr>))"

section \<open>Facts\<close>

text \<open>The nodes started, in order.\<close>

definition started_nodes :: "event_log \<Rightarrow> string list" where
  "started_nodes l = map fst (List.map_filter node_started_event l)"

lemma started_nodes_simps [simp]:
  "started_nodes [] = []"
  "started_nodes (l @ l') = started_nodes l @ started_nodes l'"
  "started_nodes (NodeStarted n ty t # l) = n # started_nodes l"
  by (simp_all add: started_nodes_def List.map_filter_def)

lemma started_nodes_other: "node_started_event e = None \<Longrightarrow> started_nodes (e # l) = started_nodes l"
  by (simp add: started_nodes_def List.map_filter_def)

lemma node_summary_id [simp]: "nx_node_id (node_summary l x) = fst x"
  by (auto simp: node_summary_def split: prod.split option.split)

section \<open>Properties\<close>

text \<open>A log has a summary exactly when the pipeline start was logged; it lists one node execution per
  start event, in order, and an execution has an outcome exactly when the log holds a completion
  of its node.  All executions of one node report the first completion of that node.\<close>

theorem summary_spec:
  "case summary l of
     None \<Rightarrow> find_map started_event l = None
   | Some px \<Rightarrow>
       find_map started_event l = Some (px_graph_name px, px_started_at px) \<and>
       map nx_node_id (px_node_summaries px) = started_nodes l \<and>
       map nx_outcome (px_node_summaries px) =
         map (\<lambda>n. map_option fst (find_map (node_completion n) l)) (started_nodes l) \<and>
       px_loop_restarts px = length (filter is_loop_restarted l)"
proof -
  have "nx_outcome (node_summary l x) = map_option fst (find_map (node_completion (fst x)) l)" for x
    by (auto simp: node_summary_def split: prod.split option.split)
  then show ?thesis
    by (auto simp: summary_def Let_def started_nodes_def split: option.split prod.split)
qed

end
