(* ===== verification/Artifact.thy ===== *)
theory Artifact
  imports State
begin

text \<open>
  The artifact store of \<open>artifact.rs\<close>: artifacts under ids made of the node, the name and a counter.
  The counter is an \<open>AtomicUsize\<close>, a 64-bit word that wraps; the lock is never poisoned.
\<close>

record artifact_metadata =
  am_node_id :: string
  am_name :: string
  am_content_type :: string
  am_created_at :: nat
  am_tags :: "string list"

record artifact =
  art_id :: string
  art_metadata :: artifact_metadata
  art_data :: json

record artifact_store =
  as_artifacts :: "artifact hmap"
  as_counter :: "64 word"

definition artifact_store_new :: artifact_store where
  "artifact_store_new = \<lparr>as_artifacts = [], as_counter = 0\<rparr>"

definition artifact_id :: "string \<Rightarrow> string \<Rightarrow> 64 word \<Rightarrow> string" where
  "artifact_id node_id name seq = node_id @ ''_'' @ name @ ''_'' @ dec (unat seq)"

definition store_with_tags ::
  "nat \<Rightarrow> string \<Rightarrow> string \<Rightarrow> string \<Rightarrow> json \<Rightarrow> string list \<Rightarrow> artifact_store \<Rightarrow> string \<times> artifact_store" where
  "store_with_tags now node_id name content_type data tags st =
     (let seq = as_counter st;
          i = artifact_id node_id name seq;
          art = \<lparr>art_id = i,
                 art_metadata = \<lparr>am_node_id = node_id, am_name = name, am_content_type = content_type,
                                 am_created_at = now, am_tags = tags\<rparr>,
                 art_data = data\<rparr>
      in (i, \<lparr>as_artifacts = hm_insert i art (as_artifacts st), as_counter = seq + 1\<rparr>))"

definition store_artifact ::
  "nat \<Rightarrow> string \<Rightarrow> string \<Rightarrow> string \<Rightarrow> json \<Rightarrow> artifact_store \<Rightarrow> string \<times> artifact_store" where
  "store_artifact now node_id name content_type data st =
     store_with_tags now node_id name content_type data [] st"

definition artifact_get :: "artifact_store \<Rightarrow> string \<Rightarrow> artifact option" where
  "artifact_get st i = hm_get (as_artifacts st) i"

definition get_by_node :: "artifact_store \<Rightarrow> string \<Rightarrow> artifact list" where
  "get_by_node st node_id = filter (\<lambda>a. am_node_id (art_metadata a) = node_id) (map snd (as_artifacts st))"

definition get_by_tag :: "artifact_store \<Rightarrow> string \<Rightarrow> artifact list" where
  "get_by_tag st tag = filter (\<lambda>a. list_ex (\<lambda>t. t = tag) (am_tags (art_metadata a))) (map snd (as_artifacts st))"

definition artifact_list :: "artifact_store \<Rightarrow> artifact_metadata list" where
  "artifact_list st = map (\<lambda>(_, a). art_metadata a) (as_artifacts st)"

definition artifact_remove :: "string \<Rightarrow> artifact_store \<Rightarrow> artifact option \<times> artifact_store" where
  "artifact_remove i st = (hm_get (as_artifacts st) i, st\<lparr>as_artifacts := hm_remove i (as_artifacts st)\<rparr>)"

definition artifact_count :: "artifact_store \<Rightarrow> nat" where
  "artifact_count st = length (as_artifacts st)"

definition artifact_clear :: "artifact_store \<Rightarrow> artifact_store" where
  "artifact_clear st = st\<lparr>as_artifacts := []\<rparr>"

section \<open>Ids stay unique\<close>

text \<open>The number after the last underscore of an id.\<close>

definition id_seq :: "string \<Rightarrow> nat" where
  "id_seq i = digits_val (rev (takeWhile (\<lambda>c. c \<noteq> CHR ''_'') (rev i)))"

lemma id_seq_artifact_id [simp]: "id_seq (artifact_id node_id name seq) = unat seq"
proof -
  have "takeWhile (\<lambda>c. c \<noteq> CHR ''_'') (rev (artifact_id node_id name seq)) = rev (dec (unat seq))"
  proof -
    have d: "c \<noteq> CHR ''_''" if "c \<in> set (rev (dec (unat seq)))" for c
      using that dec_digits [of "unat seq"] by (auto simp: is_ascii_digit_def code_def)
    have "rev (artifact_id node_id name seq) = rev (dec (unat seq)) @ CHR ''_'' # rev name @ CHR ''_'' # rev node_id"
      by (simp add: artifact_id_def)
    then show ?thesis using d by (simp add: takeWhile_append)
  qed
  then show ?thesis by (simp add: id_seq_def)
qed

text \<open>Every stored id was issued: its number is below the counter, and the artifact carries it.\<close>

definition store_wf :: "artifact_store \<Rightarrow> bool" where
  "store_wf st \<longleftrightarrow> hm_wf (as_artifacts st) \<and>
     list_all (\<lambda>(i, a). id_seq i < unat (as_counter st) \<and> art_id a = i) (as_artifacts st)"

lemma unat_word_Suc: "(c :: 64 word) \<noteq> -1 \<Longrightarrow> unat (c + 1) = unat c + 1"
  by (metis add.commute add_eq_0_iff unatSuc Suc_eq_plus1)

lemma update_fresh: "k \<notin> fst ` set m \<Longrightarrow> AList.update k v m = m @ [(k, v)]"
  by (induction m) auto

lemma store_fresh:
  assumes "store_wf st"
  shows "hm_get (as_artifacts st) (artifact_id node_id name (as_counter st)) = None"
proof (rule ccontr)
  let ?i = "artifact_id node_id name (as_counter st)"
  assume "hm_get (as_artifacts st) ?i \<noteq> None"
  then obtain a where "(?i, a) \<in> set (as_artifacts st)"
    by (auto simp: hm_get_def dest: map_of_SomeD)
  with assms have "id_seq ?i < unat (as_counter st)" by (auto simp: store_wf_def list_all_iff)
  then show False by simp
qed

lemma store_with_tags_appends:
  assumes "store_wf st"
  shows "\<exists>a. as_artifacts (snd (store_with_tags now n nm ct d tags st)) =
      as_artifacts st @ [(fst (store_with_tags now n nm ct d tags st), a)] \<and>
    art_id a = fst (store_with_tags now n nm ct d tags st) \<and> art_data a = d \<and>
    am_node_id (art_metadata a) = n \<and> am_tags (art_metadata a) = tags"
proof -
  have "artifact_id n nm (as_counter st) \<notin> fst ` set (as_artifacts st)"
    using store_fresh [OF assms, of n nm] by (simp add: hm_get_def map_of_eq_None_iff)
  then show ?thesis by (auto simp: store_with_tags_def Let_def hm_insert_def update_fresh)
qed

lemma store_with_tags_wf:
  assumes "store_wf st" "as_counter st \<noteq> -1"
  shows "store_wf (snd (store_with_tags now n nm ct d tags st))"
proof -
  from store_with_tags_appends [OF assms(1), of now n nm ct d tags] obtain a where
    a: "as_artifacts (snd (store_with_tags now n nm ct d tags st)) =
      as_artifacts st @ [(fst (store_with_tags now n nm ct d tags st), a)]"
      "art_id a = fst (store_with_tags now n nm ct d tags st)" by blast
  have c: "as_counter (snd (store_with_tags now n nm ct d tags st)) = as_counter st + 1"
    and i: "fst (store_with_tags now n nm ct d tags st) = artifact_id n nm (as_counter st)"
    by (simp_all add: store_with_tags_def Let_def)
  have "hm_wf (as_artifacts (snd (store_with_tags now n nm ct d tags st)))"
    using assms(1) by (simp add: store_with_tags_def Let_def store_wf_def)
  then show ?thesis
    using assms a(2) unfolding store_wf_def c a(1) by (auto simp: i unat_word_Suc list_all_iff)
qed

section \<open>Properties\<close>

text \<open>Storing never overwrites: on a store whose ids were all issued by it, a stored artifact gets an
  id no other artifact has, is found under it by id, by node and by tag, every other artifact
  stays as it is, the count grows by one, and the new store is again such a store (until the
  64-bit counter wraps).\<close>

theorem store_never_overwrites:
  assumes "store_wf st" "as_counter st \<noteq> -1" "store_with_tags now n nm ct d tags st = (i, st')"
  shows "artifact_get st i = None \<and>
    (\<exists>a. artifact_get st' i = Some a \<and> art_id a = i \<and> art_data a = d \<and>
       get_by_node st' n = get_by_node st n @ [a] \<and>
       (t \<in> set tags \<longrightarrow> get_by_tag st' t = get_by_tag st t @ [a])) \<and>
    (\<forall>j. j \<noteq> i \<longrightarrow> artifact_get st' j = artifact_get st j) \<and>
    artifact_count st' = artifact_count st + 1 \<and> store_wf st'"
proof -
  from store_with_tags_appends [OF assms(1), of now n nm ct d tags] assms(3) obtain a where
    a: "as_artifacts st' = as_artifacts st @ [(i, a)]" "art_id a = i" "art_data a = d"
      "am_node_id (art_metadata a) = n" "am_tags (art_metadata a) = tags" by auto
  have i: "i = artifact_id n nm (as_counter st)"
    using assms(3) by (auto simp: store_with_tags_def Let_def)
  have fresh: "artifact_get st i = None"
    using store_fresh [OF assms(1), of n nm] by (simp add: artifact_get_def i)
  moreover have "artifact_get st' j = (if j = i then Some a else artifact_get st j)" for j
    using fresh by (auto simp: artifact_get_def hm_get_def a(1) map_add_def split: option.split)
  moreover have "get_by_node st' n = get_by_node st n @ [a]"
    by (simp add: get_by_node_def a)
  moreover have "t \<in> set tags \<longrightarrow> get_by_tag st' t = get_by_tag st t @ [a]"
    by (auto simp: get_by_tag_def a list_ex_iff)
  moreover have "artifact_count st' = artifact_count st + 1" by (simp add: artifact_count_def a(1))
  moreover have "store_wf st'"
    using store_with_tags_wf [OF assms(1,2), of now n nm ct d tags] assms(3) by simp
  ultimately show ?thesis using a(2,3) by auto
qed

theorem store_never_overwrites_witness:
  "artifact_count (snd (store_with_tags 0 ''n'' ''o'' ''text/plain'' JNull [''t'']
     (snd (store_with_tags 0 ''n'' ''o'' ''text/plain'' JNull [] artifact_store_new)))) = 2"
proof -
  define st where "st = snd (store_with_tags 0 ''n'' ''o'' ''text/plain'' JNull [] artifact_store_new)"
  have "store_wf artifact_store_new" "as_counter artifact_store_new \<noteq> -1"
    by (simp_all add: store_wf_def artifact_store_new_def)
  then have "store_wf st" unfolding st_def by (rule store_with_tags_wf)
  moreover have "as_counter st = 1" "artifact_count st = 1"
    by (simp_all add: st_def store_with_tags_def artifact_store_new_def artifact_count_def hm_insert_def Let_def)
  ultimately have "artifact_count (snd (store_with_tags 0 ''n'' ''o'' ''text/plain'' JNull [''t''] st)) =
      artifact_count st + 1"
    using store_never_overwrites [of st 0 "''n''" "''o''" "''text/plain''" JNull "[''t'']"
        "fst (store_with_tags 0 ''n'' ''o'' ''text/plain'' JNull [''t''] st)"
        "snd (store_with_tags 0 ''n'' ''o'' ''text/plain'' JNull [''t''] st)"] by simp
  with \<open>artifact_count st = 1\<close> show ?thesis by (simp add: st_def)
qed

end
