(* ===== verification/Engine.thy ===== *)
theory Engine
  imports Edge Retry_Policy Goals Fidelity Handler Stats Events Artifact
begin

text \<open>
  The execution engine, \<open>engine.rs\<close>.  One iteration of the loop in \<open>execute_loop\<close> is \<open>engine_step\<close>;
  \<open>engine_loop\<close> iterates it and terminates because every iteration that continues takes one of the
  \<open>max_steps\<close> steps.  The outside world is a state \<open>'w\<close> of arbitrary type with the operations in
  \<open>'w env\<close>: handlers, clock, sleep and file writes may change it in any way, the cancellation flag
  and the stall flag of the watchdog are read from it.  Events are collected in emission order.
\<close>

record 'w env =
  e_registry :: "'w registry"
  e_cancelled :: "'w \<Rightarrow> bool"
  e_stalled :: "'w \<Rightarrow> bool"
  e_progress :: "'w \<Rightarrow> 'w"
  e_clock :: "'w \<Rightarrow> nat \<times> 'w"
  e_sleep :: "duration \<Rightarrow> 'w \<Rightarrow> 'w"
  e_jitter :: "'w \<Rightarrow> f64 \<times> 'w"
  e_hash :: "string \<times> string \<Rightarrow> 64 word"
  e_render :: "json \<Rightarrow> string"
  e_debug_outcome :: "outcome \<Rightarrow> string"
  e_outcome_json :: "outcome \<Rightarrow> json option"
  e_checkpoint_json :: "checkpoint \<Rightarrow> string option"
  e_write_checkpoint :: "string \<Rightarrow> string \<Rightarrow> 'w \<Rightarrow> bool \<times> 'w"

record engine_config =
  ec_max_steps :: nat
  ec_enable_checkpointing :: bool
  ec_checkpoint_dir :: "string option"
  ec_stall_timeout :: "duration option"
  ec_stall_check_interval :: "duration option"
  ec_max_identical_failures :: "32 word option"
  ec_fidelity_config :: "fidelity_config option"
  ec_artifact_store :: "artifact_store option"

definition default_engine_config :: engine_config where
  "default_engine_config = \<lparr>ec_max_steps = 1000, ec_enable_checkpointing = True, ec_checkpoint_dir = None,
     ec_stall_timeout = None, ec_stall_check_interval = None, ec_max_identical_failures = Some 3,
     ec_fidelity_config = None, ec_artifact_store = None\<rparr>"

datatype engine_error =
    NoStartNode
  | MultipleStartNodes "string list"
  | NodeNotFound string
  | MaxStepsExceeded nat
  | HandlerErr handler_error
  | EdgeSelection edge_selection_error
  | GoalEnforcement goal_error
  | RetryExhausted string string
  | Cancelled
  | Stalled nat
  | DeterministicFailureCycle string string "32 word" \<comment> \<open>node, error, count\<close>
  | UnroutableFailure string string
  | CompositionErr string

section \<open>The loop counter\<close>

type_synonym loop_counter = "((string \<times> string) \<times> nat) list"

fun loop_increment :: "string \<times> string \<Rightarrow> loop_counter \<Rightarrow> loop_counter" where
  "loop_increment k [] = [(k, 1)]"
| "loop_increment k ((k', n) # m) =
     (if k' = k then (k', n + 1) # m else (k', n) # loop_increment k m)"

definition loop_count :: "loop_counter \<Rightarrow> string \<Rightarrow> string \<Rightarrow> nat" where
  "loop_count m from to = (case map_of m (from, to) of None \<Rightarrow> 0 | Some n \<Rightarrow> n)"

definition loop_total :: "loop_counter \<Rightarrow> nat" where
  "loop_total m = sum_list (map snd m)"

section \<open>Retry targets\<close>

definition target_attr :: "attr_val str_map \<Rightarrow> string \<Rightarrow> string option" where
  "target_attr attrs key =
     (case attrs key of Some (AString t) \<Rightarrow> if t = [] then None else Some t | _ \<Rightarrow> None)"

definition resolve_retry_target :: "graph_node \<Rightarrow> graph \<Rightarrow> string option" where
  "resolve_retry_target n g =
     (case target_attr (gn_attrs n) ''retry_target'' of
        Some t \<Rightarrow> Some t
      | None \<Rightarrow> (case target_attr (gn_attrs n) ''fallback_retry_target'' of
          Some t \<Rightarrow> Some t
        | None \<Rightarrow> (case target_attr (g_graph_attrs g) ''retry_target'' of
            Some t \<Rightarrow> Some t
          | None \<Rightarrow> target_attr (g_graph_attrs g) ''fallback_retry_target'')))"

section \<open>Executing a node\<close>

text \<open>Handler errors become failure outcomes.\<close>

definition exec_node :: "'w env \<Rightarrow> graph_node \<Rightarrow> context_map \<times> 'w \<Rightarrow> outcome \<times> context_map \<times> 'w" where
  "exec_node env n s =
     (case registry_execute (e_registry env) n s of
        (Inr out, s') \<Rightarrow> (out, s')
      | (Inl err, s') \<Rightarrow> (failure (handler_error_text err), s'))"

definition retry_delay :: "'w env \<Rightarrow> retry_policy \<Rightarrow> 32 word \<Rightarrow> 'w \<Rightarrow> duration \<times> 'w" where
  "retry_delay env policy attempts w =
     (if rp_jitter policy
      then (let (f, w') = e_jitter env w in (compute_delay f policy attempts, w'))
      else (compute_delay F_NaN policy attempts, w))"

function retry_loop ::
  "'w env \<Rightarrow> graph_node \<Rightarrow> retry_policy \<Rightarrow> retry_state \<Rightarrow> outcome \<Rightarrow> context_map \<Rightarrow> 'w \<Rightarrow>
   outcome \<times> retry_state \<times> context_map \<times> 'w" where
  "retry_loop env n policy st out ctx w =
     (if should_retry st policy out
      then (let (delay, w1) = retry_delay env policy (rs_attempts st) w;
                (out', ctx', w2) = exec_node env n (ctx, e_sleep env delay w1)
            in retry_loop env n policy (record_attempt out' st) out' ctx' w2)
      else (out, st, ctx, w))"
  by pat_completeness auto
termination
proof (relation "measure (\<lambda>(_, _, policy, st, _). unat (rp_max_attempts policy) - unat (rs_attempts st))", goal_cases)
  case (2 env n policy st out ctx w x delay w1 y out' z ctx' w2)
  then show ?case
    using should_retry_next(1) [of st policy out out'] should_retry_next(2) [of st policy out] by simp
qed simp

declare retry_loop.simps [simp del]

text \<open>The number of executions is returned with the outcome.\<close>

definition execute_node :: "'w env \<Rightarrow> graph_node \<Rightarrow> context_map \<Rightarrow> 'w \<Rightarrow> outcome \<times> nat \<times> context_map \<times> 'w" where
  "execute_node env n ctx w =
     (let (out, ctx1, w1) = exec_node env n (ctx, w) in
      if is_retryable out
      then (let (out', st, ctx2, w2) =
              retry_loop env n (policy_from_node n) (record_attempt out retry_state_new) out ctx1 w1
            in (out', unat (rs_attempts st), ctx2, w2))
      else (out, 1, ctx1, w1))"

section \<open>The state of the loop\<close>

record 'w engine_state =
  es_current :: string
  es_visited :: "string list"
  es_outcomes :: "outcome hmap"
  es_context :: context_map
  es_steps :: nat
  es_restarts :: loop_counter
  es_failures :: "64 word \<Rightarrow> (string \<times> string \<times> 32 word) option"
  es_timings :: "node_stats list"
  es_artifacts :: "artifact_store option"
  es_events :: "pipeline_event list"
  es_world :: 'w

datatype 'w step_result =
    Next "'w engine_state"
  | Finished "'w engine_state"
  | Failed "engine_error fault" "'w engine_state"

definition graph_name :: "graph \<Rightarrow> string" where
  "graph_name g = (case g_name g of Some n \<Rightarrow> n | None \<Rightarrow> ''unnamed'')"

definition emit :: "'w env \<Rightarrow> (nat \<Rightarrow> pipeline_event) \<Rightarrow> 'w engine_state \<Rightarrow> 'w engine_state" where
  "emit env ev s =
     (let (now, w) = e_clock env (es_world s) in
      s\<lparr>es_events := es_events s @ [ev now], es_world := w\<rparr>)"

definition outcome_kind_of :: "outcome \<Rightarrow> outcome_kind" where
  "outcome_kind_of out =
     (case out of
        Success _ \<Rightarrow> KSuccess | PartialSuccess _ \<Rightarrow> KSuccess | Failure _ _ _ \<Rightarrow> KFailure
      | Retry _ _ \<Rightarrow> KRetry | Skip _ _ \<Rightarrow> KSkip)"

definition outcome_label :: "outcome \<Rightarrow> string" where
  "outcome_label out =
     (case out of
        Success _ \<Rightarrow> ''success'' | PartialSuccess _ \<Rightarrow> ''success'' | Failure _ _ _ \<Rightarrow> ''fail''
      | Retry _ _ \<Rightarrow> ''retry'' | Skip _ _ \<Rightarrow> ''skip'')"

section \<open>The parts of one iteration\<close>

definition check_limits :: "'w env \<Rightarrow> engine_config \<Rightarrow> 'w engine_state \<Rightarrow> (engine_error \<times> 'w engine_state) option" where
  "check_limits env cfg s =
     (if e_cancelled env (es_world s)
      then if e_stalled env (es_world s)
           then (let timeout_secs = (case ec_stall_timeout cfg of Some d \<Rightarrow> as_secs d | None \<Rightarrow> 0) in
                 Some (Stalled timeout_secs,
                   emit env (PipelineAborted (''stalled: no progress for '' @ dec timeout_secs @ ''s'')) s))
           else Some (Cancelled, emit env (PipelineAborted ''cancelled'') s)
      else if es_steps s \<ge> ec_max_steps cfg
      then Some (MaxStepsExceeded (ec_max_steps cfg),
             emit env (PipelineAborted (''max steps ('' @ dec (ec_max_steps cfg) @ '') exceeded'')) s)
      else None)"

definition store_outcome :: "'w env \<Rightarrow> outcome \<Rightarrow> 'w engine_state \<Rightarrow> 'w engine_state" where
  "store_outcome env out s =
     (case (es_artifacts s, e_outcome_json env out) of
        (Some st, Some val) \<Rightarrow>
          (let (now, w) = e_clock env (es_world s) in
           s\<lparr>es_artifacts := Some (snd (store_artifact now (es_current s) ''outcome'' ''application/json'' val st)),
             es_world := w\<rparr>)
      | _ \<Rightarrow> s)"

definition record_outcome :: "outcome \<Rightarrow> 'w engine_state \<Rightarrow> 'w engine_state" where
  "record_outcome out s =
     s\<lparr>es_steps := es_steps s + 1,
       es_outcomes := hm_insert (es_current s) out (es_outcomes s),
       es_visited := (if es_current s \<in> set (es_visited s) then es_visited s
                      else es_visited s @ [es_current s])\<rparr>"

definition elapsed_ms :: "nat \<Rightarrow> nat \<Rightarrow> nat" where
  \<comment> \<open>\<open>start.elapsed().as_millis() as u64\<close>\<close>
  "elapsed_ms start now = (now - start) div 10 ^ 6 mod 2 ^ 64"

definition run_node :: "'w env \<Rightarrow> graph_node \<Rightarrow> 'w engine_state \<Rightarrow> outcome \<times> 'w engine_state" where
  "run_node env n s0 =
     (let s1 = s0\<lparr>es_world := e_progress env (es_world s0)\<rparr>;
          (start, w1) = e_clock env (es_world s1);
          s2 = emit env (NodeStarted (es_current s0) (debug_node_type (gn_type n))) (s1\<lparr>es_world := w1\<rparr>);
          (out, _, ctx, w2) = execute_node env n (es_context s2) (es_world s2);
          (now, w3) = e_clock env (e_progress env w2);
          ms = elapsed_ms start now;
          s3 = s2\<lparr>es_context := ctx, es_world := w3,
                  es_timings := es_timings s2 @
                    [\<lparr>ns_node_id = es_current s0, ns_duration_ms = ms, ns_outcome_kind = outcome_kind_of out\<rparr>]\<rparr>;
          s4 = (if is_failure out
                then emit env (NodeFailed (es_current s0) (e_debug_outcome env out) ms) s3
                else emit env (NodeCompleted (es_current s0) out ms) s3)
      in (out, record_outcome out (store_outcome env out s4)))"

definition failure_cycle ::
  "'w env \<Rightarrow> engine_config \<Rightarrow> outcome \<Rightarrow> 'w engine_state \<Rightarrow> (engine_error \<times> 'w engine_state) + 'w engine_state" where
  "failure_cycle env cfg out s =
     (case ec_max_identical_failures cfg of
        None \<Rightarrow> Inr s
      | Some max_failures \<Rightarrow>
          (case out of
             Failure err _ _ \<Rightarrow>
               (let sig = e_hash env (es_current s, err);
                    (nid, err0, c) = (case es_failures s sig of
                                        Some entry \<Rightarrow> entry | None \<Rightarrow> (es_current s, err, 0));
                    s' = s\<lparr>es_failures := (es_failures s)(sig \<mapsto> (nid, err0, c + 1))\<rparr>
                in if c + 1 \<ge> max_failures
                   then Inl (DeterministicFailureCycle nid err0 (c + 1),
                     emit env (PipelineAborted (''deterministic failure cycle: node '' @ [CHR 0x27] @ nid @ [CHR 0x27] @
                       '' failed '' @ dec (unat (c + 1)) @ '' times with: '' @ err0)) s')
                   else Inr s')
           | Retry _ _ \<Rightarrow> Inr s
           | Skip _ _ \<Rightarrow> Inr s
           | _ \<Rightarrow> Inr (s\<lparr>es_failures := (\<lambda>sig. case es_failures s sig of
                   Some (nid, e, c) \<Rightarrow> if nid \<noteq> es_current s then Some (nid, e, c) else None
                 | None \<Rightarrow> None)\<rparr>)))"

definition build_checkpoint :: "nat \<Rightarrow> graph \<Rightarrow> string \<Rightarrow> 'w engine_state \<Rightarrow> checkpoint" where
  "build_checkpoint now g current s =
     fold (\<lambda>(i, out). add_outcome i out) (es_outcomes s)
       (fold mark_visited (es_visited s)
         (checkpoint_new now (graph_name g) current (es_context s)))"

definition auto_save :: "'w env \<Rightarrow> engine_config \<Rightarrow> graph \<Rightarrow> 'w engine_state \<Rightarrow> 'w engine_state" where
  "auto_save env cfg g s =
     (case (ec_enable_checkpointing cfg, ec_checkpoint_dir cfg) of
        (True, Some dir) \<Rightarrow>
          (let (now, w) = e_clock env (es_world s);
               cp = build_checkpoint now g (es_current s) s in
           case e_checkpoint_json env cp of
             Some js \<Rightarrow>
               (let (written, w') = e_write_checkpoint env dir js w;
                    s' = s\<lparr>es_world := w'\<rparr> in
                if written then emit env (CheckpointCreated (es_current s)) s' else s')
           | None \<Rightarrow> s\<lparr>es_world := w\<rparr>)
      | _ \<Rightarrow> s)"

definition exit_step :: "graph \<Rightarrow> 'w engine_state \<Rightarrow> 'w step_result" where
  "exit_step g s =
     (let goals = goals_from_graph g in
      case check_outcomes goals (es_outcomes s) of
        Inr _ \<Rightarrow> Finished s
      | Inl unsatisfied \<Rightarrow>
          (case Option.bind (node g (ug_node_id unsatisfied)) (\<lambda>failed. resolve_retry_target failed g) of
             Some target \<Rightarrow>
               if node g target = None then Failed (Err (NodeNotFound target)) s
               else Next (s\<lparr>es_current := target\<rparr>)
           | None \<Rightarrow>
               (case enforce_outcomes goals (es_outcomes s) of
                  Inl e \<Rightarrow> Failed (Err (GoalEnforcement e)) s
                | Inr _ \<Rightarrow> Failed (Panic Expect_Failed) s)))"

definition clear_prefixed :: "string \<Rightarrow> context_map \<Rightarrow> context_map" where
  "clear_prefixed prefix ctx =
     fold (\<lambda>k c. snd (context_remove k c)) (filter (\<lambda>k. starts_with k prefix) (context_keys ctx)) ctx"

definition replace_context :: "context_map \<Rightarrow> context_map \<Rightarrow> context_map" where
  "replace_context new ctx =
     fold (\<lambda>(k, v). context_set k v) new (fold (\<lambda>k c. snd (context_remove k c)) (context_keys ctx) ctx)"

definition restart_edge :: "'w env \<Rightarrow> graph_edge \<Rightarrow> 'w engine_state \<Rightarrow> 'w engine_state" where
  "restart_edge env e s =
     (if ge_loop_restart e
      then (let counts = loop_increment (ge_from e, ge_to e) (es_restarts s);
                s1 = emit env (LoopRestarted (ge_from e) (ge_to e) (loop_count counts (ge_from e) (ge_to e)))
                       (s\<lparr>es_restarts := counts\<rparr>)
            in s1\<lparr>es_context := clear_prefixed (ge_from e @ ''_'') (es_context s1)\<rparr>)
      else s)"

definition carry_context :: "engine_config \<Rightarrow> graph_edge \<Rightarrow> 'w engine_state \<Rightarrow> 'w engine_state" where
  "carry_context cfg e s =
     (case ec_fidelity_config cfg of
        Some fc \<Rightarrow>
          s\<lparr>es_context := replace_context (snapshot (process fc (ge_from e) (ge_to e) (es_context s))) (es_context s)\<rparr>
      | None \<Rightarrow> s)"

definition take_edge :: "'w env \<Rightarrow> engine_config \<Rightarrow> graph_edge \<Rightarrow> 'w engine_state \<Rightarrow> 'w engine_state" where
  "take_edge env cfg e s =
     (carry_context cfg e (restart_edge env e
        (emit env (EdgeTraversed (ge_from e) (ge_to e) (ge_label e)) s)))\<lparr>es_current := ge_to e\<rparr>"

definition no_edge :: "'w env \<Rightarrow> graph \<Rightarrow> graph_node \<Rightarrow> outcome \<Rightarrow> 'w engine_state \<Rightarrow> 'w step_result" where
  "no_edge env g n out s =
     (if is_failure out
      then (case resolve_retry_target n g of
              Some target \<Rightarrow>
                if node g target = None then Failed (Err (NodeNotFound target)) s
                else Next (s\<lparr>es_current := target\<rparr>)
            | None \<Rightarrow>
                (let error_msg = (case out of Failure err _ _ \<Rightarrow> err | _ \<Rightarrow> ''unknown failure'') in
                 Failed (Err (UnroutableFailure (es_current s) error_msg))
                   (emit env (PipelineAborted (''node '' @ [CHR 0x27] @ es_current s @ [CHR 0x27] @
                      '' failed with no available route: '' @ error_msg)) s)))
      else Finished s)"

definition route :: "'w env \<Rightarrow> engine_config \<Rightarrow> graph \<Rightarrow> graph_node \<Rightarrow> outcome \<Rightarrow> 'w engine_state \<Rightarrow> 'w step_result" where
  "route env cfg g n out s0 =
     (let s = s0\<lparr>es_context := context_set ''outcome'' (JString (outcome_label out)) (es_context s0)\<rparr> in
      case select_edge (e_render env) g (es_current s) (es_context s) (hm_get (es_outcomes s) (es_current s)) of
        Inl (Err e) \<Rightarrow> Failed (Err (EdgeSelection e)) s
      | Inl (Panic p) \<Rightarrow> Failed (Panic p) s
      | Inr (Some e) \<Rightarrow> Next (take_edge env cfg e s)
      | Inr None \<Rightarrow> no_edge env g n out s)"

section \<open>The loop\<close>

definition engine_step :: "'w env \<Rightarrow> engine_config \<Rightarrow> graph \<Rightarrow> 'w engine_state \<Rightarrow> 'w step_result" where
  "engine_step env cfg g s =
     (case check_limits env cfg s of
        Some (e, s') \<Rightarrow> Failed (Err e) s'
      | None \<Rightarrow>
          (case node g (es_current s) of
             None \<Rightarrow> Failed (Err (NodeNotFound (es_current s))) s
           | Some n \<Rightarrow>
               (let (out, s1) = run_node env n s in
                case failure_cycle env cfg out s1 of
                  Inl (e, s2) \<Rightarrow> Failed (Err e) s2
                | Inr s2 \<Rightarrow>
                    (let s3 = auto_save env cfg g s2 in
                     if gn_type n = Exit then exit_step g s3 else route env cfg g n out s3))))"

section \<open>What the parts leave alone\<close>

lemma emit_fields [simp]:
  "es_current (emit env ev s) = es_current s" "es_visited (emit env ev s) = es_visited s"
  "es_outcomes (emit env ev s) = es_outcomes s" "es_context (emit env ev s) = es_context s"
  "es_steps (emit env ev s) = es_steps s" "es_restarts (emit env ev s) = es_restarts s"
  "es_failures (emit env ev s) = es_failures s" "es_timings (emit env ev s) = es_timings s"
  "es_artifacts (emit env ev s) = es_artifacts s"
  by (simp_all add: emit_def Let_def split_beta)

lemma emit_events [simp]:
  "es_events (emit env ev s) = es_events s @ [ev (fst (e_clock env (es_world s)))]"
  by (simp add: emit_def Let_def split_beta)

lemma store_outcome_fields [simp]:
  "es_current (store_outcome env out s) = es_current s" "es_visited (store_outcome env out s) = es_visited s"
  "es_outcomes (store_outcome env out s) = es_outcomes s" "es_context (store_outcome env out s) = es_context s"
  "es_steps (store_outcome env out s) = es_steps s" "es_restarts (store_outcome env out s) = es_restarts s"
  "es_failures (store_outcome env out s) = es_failures s" "es_timings (store_outcome env out s) = es_timings s"
  "es_events (store_outcome env out s) = es_events s"
  by (simp_all add: store_outcome_def Let_def split_beta split: option.split)

lemma auto_save_fields [simp]:
  "es_current (auto_save env cfg g s) = es_current s" "es_visited (auto_save env cfg g s) = es_visited s"
  "es_outcomes (auto_save env cfg g s) = es_outcomes s" "es_context (auto_save env cfg g s) = es_context s"
  "es_steps (auto_save env cfg g s) = es_steps s" "es_restarts (auto_save env cfg g s) = es_restarts s"
  "es_failures (auto_save env cfg g s) = es_failures s" "es_timings (auto_save env cfg g s) = es_timings s"
  by (auto simp: auto_save_def Let_def split_beta split: option.split bool.split)

lemma take_edge_fields [simp]:
  "es_current (take_edge env cfg e s) = ge_to e" "es_visited (take_edge env cfg e s) = es_visited s"
  "es_outcomes (take_edge env cfg e s) = es_outcomes s" "es_steps (take_edge env cfg e s) = es_steps s"
  "es_failures (take_edge env cfg e s) = es_failures s" "es_timings (take_edge env cfg e s) = es_timings s"
  by (auto simp: take_edge_def restart_edge_def carry_context_def Let_def split: option.split)

lemma run_node_fields:
  assumes "run_node env n s = (out, s')"
  shows "es_current s' = es_current s"
    "es_visited s' = (if es_current s \<in> set (es_visited s) then es_visited s else es_visited s @ [es_current s])"
    "es_outcomes s' = hm_insert (es_current s) out (es_outcomes s)"
    "es_steps s' = es_steps s + 1"
    "es_restarts s' = es_restarts s"
    "es_failures s' = es_failures s"
    "\<exists>ms. es_timings s' = es_timings s @
       [\<lparr>ns_node_id = es_current s, ns_duration_ms = ms, ns_outcome_kind = outcome_kind_of out\<rparr>]"
  using assms by (auto simp: run_node_def record_outcome_def Let_def split_beta)

lemma failure_cycle_fields:
  assumes "failure_cycle env cfg out s = Inr s'"
  shows "es_current s' = es_current s" "es_visited s' = es_visited s" "es_outcomes s' = es_outcomes s"
    "es_context s' = es_context s" "es_steps s' = es_steps s" "es_restarts s' = es_restarts s"
    "es_timings s' = es_timings s" "es_events s' = es_events s" "es_world s' = es_world s"
  using assms
  by (auto simp: failure_cycle_def Let_def split_beta split: option.splits outcome.splits if_splits)

section \<open>The abstract pipeline machine\<close>

text \<open>
  The routing the engine promises, without context, timing and events: a state is the current node
  and the outcomes so far.  Executing the node gives it some outcome; then the machine follows an
  edge of the node, or the retry target of a failed node, or, at an exit node with an unsatisfied
  goal, the retry target of that goal's node.
\<close>

type_synonym pipeline_state = "string \<times> outcome hmap"

inductive pipeline_step :: "graph \<Rightarrow> pipeline_state \<Rightarrow> pipeline_state \<Rightarrow> bool" for g where
  ps_edge: "node g a = Some n \<Longrightarrow> gn_type n \<noteq> Exit \<Longrightarrow> e \<in> set (edges_from g a) \<Longrightarrow>
    pipeline_step g (a, m) (ge_to e, hm_insert a out m)"
| ps_retry: "node g a = Some n \<Longrightarrow> gn_type n \<noteq> Exit \<Longrightarrow> is_failure out \<Longrightarrow>
    resolve_retry_target n g = Some b \<Longrightarrow> node g b \<noteq> None \<Longrightarrow>
    pipeline_step g (a, m) (b, hm_insert a out m)"
| ps_goal: "node g a = Some n \<Longrightarrow> gn_type n = Exit \<Longrightarrow>
    check_outcomes (goals_from_graph g) (hm_insert a out m) = Inl u \<Longrightarrow>
    node g (ug_node_id u) = Some f \<Longrightarrow> resolve_retry_target f g = Some b \<Longrightarrow> node g b \<noteq> None \<Longrightarrow>
    pipeline_step g (a, m) (b, hm_insert a out m)"

inductive pipeline_final :: "graph \<Rightarrow> pipeline_state \<Rightarrow> outcome hmap \<Rightarrow> bool" for g where
  pf_exit: "node g a = Some n \<Longrightarrow> gn_type n = Exit \<Longrightarrow>
    list_all (goal_satisfied (hm_insert a out m)) (goals_from_graph g) \<Longrightarrow>
    pipeline_final g (a, m) (hm_insert a out m)"
| pf_stop: "node g a = Some n \<Longrightarrow> gn_type n \<noteq> Exit \<Longrightarrow> \<not> is_failure out \<Longrightarrow>
    pipeline_final g (a, m) (hm_insert a out m)"

inductive_cases pipeline_stepE: "pipeline_step g (a, m) (b, m')"
inductive_cases pipeline_finalE: "pipeline_final g (a, m) m'"
inductive_simps pipeline_final_simps: "pipeline_final g (a, m) m'"

definition abs_state :: "'w engine_state \<Rightarrow> pipeline_state" where
  "abs_state s = (es_current s, es_outcomes s)"

text \<open>One iteration that continues, taken apart.\<close>

lemma engine_step_parts:
  assumes "engine_step env cfg g s = r" "\<And>e s'. r \<noteq> Failed e s'"
  obtains n out s1 s2 where "check_limits env cfg s = None" "node g (es_current s) = Some n"
    "run_node env n s = (out, s1)" "failure_cycle env cfg out s1 = Inr s2"
    "r = (if gn_type n = Exit then exit_step g (auto_save env cfg g s2)
          else route env cfg g n out (auto_save env cfg g s2))"
proof -
  have c: "check_limits env cfg s = None"
    using assms by (auto simp: engine_step_def split: option.splits)
  then obtain n where n: "node g (es_current s) = Some n"
    using assms by (auto simp: engine_step_def split: option.splits)
  obtain out s1 where r: "run_node env n s = (out, s1)" by force
  obtain s2 where f: "failure_cycle env cfg out s1 = Inr s2"
    using assms c n r by (cases "failure_cycle env cfg out s1") (auto simp: engine_step_def)
  show ?thesis using that [OF c n r f] assms(1) c n r f by (simp add: engine_step_def Let_def)
qed

lemma route_Next:
  assumes "route env cfg g n out s = Next s'" "hm_get (es_outcomes s) (es_current s) = Some out"
  shows "es_visited s' = es_visited s \<and> es_outcomes s' = es_outcomes s \<and> es_steps s' = es_steps s \<and>
    es_failures s' = es_failures s \<and> es_timings s' = es_timings s \<and>
    ((\<exists>e\<in>set (edges_from g (es_current s)). es_current s' = ge_to e) \<or>
     (is_failure out \<and> resolve_retry_target n g = Some (es_current s') \<and> node g (es_current s') \<noteq> None))"
proof -
  define s1 where "s1 = s\<lparr>es_context := context_set ''outcome'' (JString (outcome_label out)) (es_context s)\<rparr>"
  have f: "es_current s1 = es_current s" "es_visited s1 = es_visited s" "es_outcomes s1 = es_outcomes s"
    "es_steps s1 = es_steps s" "es_failures s1 = es_failures s" "es_timings s1 = es_timings s"
    by (simp_all add: s1_def)
  obtain r where r: "select_edge (e_render env) g (es_current s1) (es_context s1) (Some out) = Inr r"
    using assms unfolding route_def Let_def s1_def [symmetric] f
    by (auto split: sum.splits fault.splits)
  have R: "(case r of Some e \<Rightarrow> Next (take_edge env cfg e s1) | None \<Rightarrow> no_edge env g n out s1) = Next s'"
    using assms r unfolding route_def Let_def s1_def [symmetric] f
    by simp
  show ?thesis
  proof (cases r)
    case (Some e)
    then have "e \<in> set (edges_from g (es_current s))"
      using sel.route_from [OF r [unfolded Some]] f by simp
    then show ?thesis using R Some f by auto
  next
    case None
    with R f show ?thesis by (auto simp: no_edge_def Let_def split: if_splits option.splits)
  qed
qed

lemma exit_step_Next:
  assumes "exit_step g s = Next s'"
  obtains u f where "check_outcomes (goals_from_graph g) (es_outcomes s) = Inl u"
    "node g (ug_node_id u) = Some f" "resolve_retry_target f g = Some (es_current s')"
    "node g (es_current s') \<noteq> None" "s' = s\<lparr>es_current := es_current s'\<rparr>"
  using assms
  by (auto simp: exit_step_def Let_def bind_eq_Some_conv split: sum.splits option.splits if_splits)

lemma exit_step_Finished:
  "exit_step g s = Finished s' \<Longrightarrow> s' = s \<and> list_all (goal_satisfied (es_outcomes s)) (goals_from_graph g)"
  using check_outcomes_ok [of "goals_from_graph g" "es_outcomes s"]
  by (auto simp: exit_step_def Let_def split: sum.splits option.splits if_splits)

lemma route_Finished:
  assumes "route env cfg g n out s = Finished s'"
  shows "s' = s\<lparr>es_context := context_set ''outcome'' (JString (outcome_label out)) (es_context s)\<rparr> \<and>
    \<not> is_failure out"
  using assms
  by (auto simp: route_def Let_def no_edge_def split: sum.splits fault.splits option.splits if_splits)

text \<open>What an iteration adds to the recorded run.\<close>

definition records_run :: "'w engine_state \<Rightarrow> outcome \<Rightarrow> 'w engine_state \<Rightarrow> bool" where
  "records_run s out t \<longleftrightarrow>
     es_steps t = es_steps s + 1 \<and>
     es_outcomes t = hm_insert (es_current s) out (es_outcomes s) \<and>
     es_visited t = (if es_current s \<in> set (es_visited s) then es_visited s else es_visited s @ [es_current s]) \<and>
     (\<exists>ms. es_timings t = es_timings s @
        [\<lparr>ns_node_id = es_current s, ns_duration_ms = ms, ns_outcome_kind = outcome_kind_of out\<rparr>])"

lemma engine_step_records:
  assumes "engine_step env cfg g s = r" "\<And>e s'. r \<noteq> Failed e s'"
  obtains n out s3 where "es_steps s < ec_max_steps cfg" "node g (es_current s) = Some n"
    "records_run s out s3" "es_current s3 = es_current s"
    "r = (if gn_type n = Exit then exit_step g s3 else route env cfg g n out s3)"
proof -
  from engine_step_parts [OF assms] obtain n out s1 s2 where
    c: "check_limits env cfg s = None" and n: "node g (es_current s) = Some n" and
    r: "run_node env n s = (out, s1)" and f: "failure_cycle env cfg out s1 = Inr s2" and
    k: "r = (if gn_type n = Exit then exit_step g (auto_save env cfg g s2)
          else route env cfg g n out (auto_save env cfg g s2))" by metis
  note rf = run_node_fields [OF r] and ff = failure_cycle_fields [OF f]
  have "es_steps s < ec_max_steps cfg" using c by (auto simp: check_limits_def Let_def split: if_splits)
  moreover have "records_run s out (auto_save env cfg g s2)"
    unfolding records_run_def auto_save_fields ff using rf by blast
  moreover have "es_current (auto_save env cfg g s2) = es_current s" using rf ff by simp
  ultimately show ?thesis using that n k by blast
qed

lemma engine_step_Next:
  assumes "engine_step env cfg g s = Next s'"
  shows "es_steps s < ec_max_steps cfg" "node g (es_current s) \<noteq> None" "\<exists>out. records_run s out s'"
    "pipeline_step g (abs_state s) (abs_state s')"
proof -
  from assms have nf: "\<And>e t. Next s' \<noteq> Failed e t" by simp
  from engine_step_records [OF assms this] obtain n out s3 where
    c: "es_steps s < ec_max_steps cfg" and n: "node g (es_current s) = Some n" and
    rec: "records_run s out s3" and cur: "es_current s3 = es_current s" and
    k: "Next s' = (if gn_type n = Exit then exit_step g s3 else route env cfg g n out s3)" by metis
  have o3: "es_outcomes s3 = hm_insert (es_current s) out (es_outcomes s)"
    using rec by (simp add: records_run_def)
  have "records_run s out s' \<and> pipeline_step g (abs_state s) (abs_state s')"
  proof (cases "gn_type n = Exit")
    case True
    with k have "exit_step g s3 = Next s'" by simp
    then obtain u f b where u: "check_outcomes (goals_from_graph g) (es_outcomes s3) = Inl u"
      "node g (ug_node_id u) = Some f" "resolve_retry_target f g = Some b"
      "node g b \<noteq> None" "s' = s3\<lparr>es_current := b\<rparr>"
      by (metis exit_step_Next)
    from ps_goal [OF n True u(1-4) [unfolded o3]] show ?thesis
      using rec o3 by (simp add: u(5) abs_state_def records_run_def)
  next
    case False
    with k have "route env cfg g n out s3 = Next s'" by simp
    from route_Next [OF this] o3 cur rec have "records_run s out s'" and "es_outcomes s' = es_outcomes s3" and
      y: "(\<exists>e\<in>set (edges_from g (es_current s)). es_current s' = ge_to e) \<or>
        (is_failure out \<and> resolve_retry_target n g = Some (es_current s') \<and> node g (es_current s') \<noteq> None)"
      by (auto simp: records_run_def)
    from y have "pipeline_step g (es_current s, es_outcomes s) (es_current s', hm_insert (es_current s) out (es_outcomes s))"
      using ps_edge [OF n False] ps_retry [OF n False] by metis
    then show ?thesis using \<open>records_run s out s'\<close> \<open>es_outcomes s' = es_outcomes s3\<close> o3 by (simp add: abs_state_def)
  qed
  then show "\<exists>out. records_run s out s'" "pipeline_step g (abs_state s) (abs_state s')" by blast+
  show "es_steps s < ec_max_steps cfg" "node g (es_current s) \<noteq> None" using c n by auto
qed

lemma engine_step_Finished:
  assumes "engine_step env cfg g s = Finished s'"
  shows "es_steps s < ec_max_steps cfg" "node g (es_current s) \<noteq> None" "\<exists>out. records_run s out s'"
    "pipeline_final g (abs_state s) (es_outcomes s')" "es_current s' = es_current s"
proof -
  from assms have nf: "\<And>e t. Finished s' \<noteq> Failed e t" by simp
  from engine_step_records [OF assms this] obtain n out s3 where
    c: "es_steps s < ec_max_steps cfg" and n: "node g (es_current s) = Some n" and
    rec: "records_run s out s3" and cur: "es_current s3 = es_current s" and
    k: "Finished s' = (if gn_type n = Exit then exit_step g s3 else route env cfg g n out s3)" by metis
  have o3: "es_outcomes s3 = hm_insert (es_current s) out (es_outcomes s)"
    using rec by (simp add: records_run_def)
  have "records_run s out s' \<and> es_outcomes s' = es_outcomes s3 \<and> es_current s' = es_current s \<and>
      pipeline_final g (es_current s, es_outcomes s) (hm_insert (es_current s) out (es_outcomes s))"
  proof (cases "gn_type n = Exit")
    case True
    with k have "s' = s3 \<and> list_all (goal_satisfied (es_outcomes s3)) (goals_from_graph g)"
      using exit_step_Finished by metis
    then show ?thesis using rec cur o3 pf_exit [OF n True] by simp
  next
    case False
    with k have "route env cfg g n out s3 = Finished s'" by simp
    from route_Finished [OF this] show ?thesis
      using rec cur pf_stop [OF n False, of out] by (simp add: records_run_def)
  qed
  then show "\<exists>out. records_run s out s'" "pipeline_final g (abs_state s) (es_outcomes s')" "es_current s' = es_current s"
    using o3 by (auto simp: abs_state_def)
  show "es_steps s < ec_max_steps cfg" "node g (es_current s) \<noteq> None" using c n by auto
qed

section \<open>The loop and the whole run\<close>

function engine_loop ::
  "'w env \<Rightarrow> engine_config \<Rightarrow> graph \<Rightarrow> 'w engine_state \<Rightarrow> engine_error fault option \<times> 'w engine_state" where
  "engine_loop env cfg g s =
     (case engine_step env cfg g s of
        Next s' \<Rightarrow> engine_loop env cfg g s'
      | Finished s' \<Rightarrow> (None, s')
      | Failed e s' \<Rightarrow> (Some e, s'))"
  by pat_completeness auto
termination
proof (relation "measure (\<lambda>(_, cfg, _, s). ec_max_steps cfg - es_steps s)", goal_cases)
  case (2 env cfg g s s')
  then show ?case
    using engine_step_Next(1,3) [of env cfg g s s'] by (auto simp: records_run_def)
qed simp

declare engine_loop.simps [simp del]

record execution_result =
  er_visited_nodes :: "string list"
  er_node_outcomes :: "outcome hmap"
  er_final_context :: context_map
  er_steps_taken :: nat
  er_checkpoint :: "checkpoint option"
  er_loop_restarts :: loop_counter
  er_stats :: pipeline_stats

definition final_outcome :: "'w engine_state \<Rightarrow> outcome" where
  "final_outcome s =
     (case (if es_visited s = [] then None else hm_get (es_outcomes s) (last (es_visited s))) of
        Some out \<Rightarrow> out | None \<Rightarrow> success)"

definition final_checkpoint ::
  "'w env \<Rightarrow> engine_config \<Rightarrow> graph \<Rightarrow> 'w engine_state \<Rightarrow> checkpoint option \<times> 'w engine_state" where
  "final_checkpoint env cfg g s =
     (if ec_enable_checkpointing cfg
      then (let (now, w) = e_clock env (es_world s);
                last_node = (if es_visited s = [] then [] else last (es_visited s))
            in (Some (build_checkpoint now g last_node s), s\<lparr>es_world := w\<rparr>))
      else (None, s))"

definition finish_run ::
  "'w env \<Rightarrow> engine_config \<Rightarrow> graph \<Rightarrow> nat \<Rightarrow> 'w engine_state \<Rightarrow>
   (engine_error fault + execution_result) \<times> 'w engine_state" where
  "finish_run env cfg g pipeline_start s =
     (case enforce_outcomes (goals_from_graph g) (es_outcomes s) of
        Inl e \<Rightarrow> (Inl (Err (GoalEnforcement e)), s)
      | Inr _ \<Rightarrow>
          (let (now, w) = e_clock env (es_world s);
               ms = elapsed_ms pipeline_start now;
               s1 = emit env (PipelineCompleted (final_outcome s) (length (es_visited s)) ms) (s\<lparr>es_world := w\<rparr>);
               (cp, s2) = final_checkpoint env cfg g s1
           in (Inr \<lparr>er_visited_nodes = es_visited s2, er_node_outcomes = es_outcomes s2,
                    er_final_context = snapshot (es_context s2), er_steps_taken = es_steps s2,
                    er_checkpoint = cp, er_loop_restarts = es_restarts s2,
                    er_stats = from_node_timings (es_timings s2) ms\<rparr>, s2)))"

definition execute_loop ::
  "'w env \<Rightarrow> engine_config \<Rightarrow> graph \<Rightarrow> string \<Rightarrow> string list \<Rightarrow> outcome hmap \<Rightarrow> context_map \<Rightarrow> 'w \<Rightarrow>
   (engine_error fault + execution_result) \<times> 'w engine_state" where
  "execute_loop env cfg g start_id visited outcomes ctx w =
     (let (pipeline_start, w1) = e_clock env w;
          s0 = \<lparr>es_current = start_id, es_visited = visited, es_outcomes = outcomes, es_context = ctx,
                es_steps = 0, es_restarts = [], es_failures = Map.empty, es_timings = [],
                es_artifacts = ec_artifact_store cfg, es_events = [], es_world = w1\<rparr>;
          (err, s) = engine_loop env cfg g (emit env (PipelineStarted (graph_name g)) s0)
      in case err of
           Some e \<Rightarrow> (Inl e, s)
         | None \<Rightarrow> finish_run env cfg g pipeline_start s)"

definition initial_error_state :: "context_map \<Rightarrow> 'w \<Rightarrow> 'w engine_state" where
  "initial_error_state ctx w =
     \<lparr>es_current = [], es_visited = [], es_outcomes = [], es_context = ctx, es_steps = 0, es_restarts = [],
      es_failures = Map.empty, es_timings = [], es_artifacts = None, es_events = [], es_world = w\<rparr>"

definition run ::
  "'w env \<Rightarrow> engine_config \<Rightarrow> graph \<Rightarrow> context_map \<Rightarrow> 'w \<Rightarrow>
   (engine_error fault + execution_result) \<times> 'w engine_state" where
  "run env cfg g ctx w =
     (case start_nodes g of
        [] \<Rightarrow> (Inl (Err NoStartNode), initial_error_state ctx w)
      | [n] \<Rightarrow> execute_loop env cfg g (gn_id n) [] [] ctx w
      | ns \<Rightarrow> (Inl (Err (MultipleStartNodes (map gn_id ns))), initial_error_state ctx w))"

definition run_from_checkpoint ::
  "'w env \<Rightarrow> engine_config \<Rightarrow> graph \<Rightarrow> checkpoint \<Rightarrow> context_map \<Rightarrow> 'w \<Rightarrow>
   (engine_error fault + execution_result) \<times> 'w engine_state" where
  "run_from_checkpoint env cfg g cp ctx w =
     execute_loop env cfg g (cp_current_node cp) (cp_visited_nodes cp) (cp_node_outcomes cp)
       (fold (\<lambda>(k, v). context_set k v) (cp_context_snapshot cp) ctx) w"

end
