(* ===== verification/Validation.thy ===== *)
theory Validation
  imports Graph
begin

text \<open>
  The lint rules of \<open>graph/validation.rs\<close>, one definition per rule, and \<open>validate\<close>, which
  concatenates them.  Only \<open>duplicate_edge\<close> iterates over a hash map; its order is the
  parameter \<open>iter\<close>, a rearrangement of the counted pairs.
\<close>

datatype severity = SevError | SevWarning | SevInfo

record lint_warning =
  lw_rule :: string
  lw_severity :: severity
  lw_message :: string
  lw_node_id :: "string option"

definition lint :: "string \<Rightarrow> severity \<Rightarrow> string \<Rightarrow> string option \<Rightarrow> lint_warning" where
  "lint rule sev msg nid = \<lparr>lw_rule = rule, lw_severity = sev, lw_message = msg, lw_node_id = nid\<rparr>"

definition quote1 :: "string \<Rightarrow> string" where
  "quote1 s = [CHR 0x27] @ s @ [CHR 0x27]"

section \<open>The rules\<close>

definition check_empty_graph :: "graph \<Rightarrow> lint_warning list" where
  "check_empty_graph g =
     (if g_nodes g = [] then [lint ''empty_graph'' SevInfo ''Graph has no nodes'' None] else [])"

definition check_no_start_node :: "graph \<Rightarrow> lint_warning list" where
  "check_no_start_node g =
     (if g_nodes g = [] then []
      else if \<not> list_ex (\<lambda>n. gn_type n = Start) (g_nodes g)
      then [lint ''no_start_node'' SevError ''Graph has no Start-type node'' None]
      else [])"

definition check_no_exit_node :: "graph \<Rightarrow> lint_warning list" where
  "check_no_exit_node g =
     (if g_nodes g = [] then []
      else if \<not> list_ex (\<lambda>n. gn_type n = Exit) (g_nodes g)
      then [lint ''no_exit_node'' SevWarning ''Graph has no Exit-type node'' None]
      else [])"

definition check_multiple_start_nodes :: "graph \<Rightarrow> lint_warning list" where
  "check_multiple_start_nodes g =
     (let starts = filter (\<lambda>n. gn_type n = Start) (g_nodes g) in
      if length starts > 1
      then map (\<lambda>n. lint ''multiple_start_nodes'' SevError
             (''Multiple Start nodes found: '' @ quote1 (gn_id n)) (Some (gn_id n))) starts
      else [])"

definition check_unreachable_node :: "graph \<Rightarrow> lint_warning list" where
  "check_unreachable_node g =
     (let node_ids = set (map gn_id (g_nodes g));
          targets_with_incoming = set (map ge_to (filter (\<lambda>e. ge_to e \<in> node_ids) (g_edges g))) in
      map (\<lambda>n. lint ''unreachable_node'' SevWarning
             (''Node '' @ quote1 (gn_id n) @ '' has no incoming edges'') (Some (gn_id n)))
        (filter (\<lambda>n. gn_id n \<notin> targets_with_incoming)
          (filter (\<lambda>n. gn_type n \<noteq> Start) (g_nodes g))))"

definition check_dead_end_node :: "graph \<Rightarrow> lint_warning list" where
  "check_dead_end_node g =
     (let sources_with_outgoing = set (map ge_from (g_edges g)) in
      map (\<lambda>n. lint ''dead_end_node'' SevWarning
             (''Node '' @ quote1 (gn_id n) @ '' has no outgoing edges'') (Some (gn_id n)))
        (filter (\<lambda>n. gn_id n \<notin> sources_with_outgoing)
          (filter (\<lambda>n. gn_type n \<noteq> Exit) (g_nodes g))))"

definition check_self_loop :: "graph \<Rightarrow> lint_warning list" where
  "check_self_loop g =
     map (\<lambda>e. lint ''self_loop'' SevWarning
            (''Edge from '' @ quote1 (ge_from e) @ '' to itself'') (Some (ge_from e)))
       (filter (\<lambda>e. ge_from e = ge_to e) (g_edges g))"

definition check_orphan_node :: "graph \<Rightarrow> lint_warning list" where
  "check_orphan_node g =
     (let nodes_in_edges = set (concat (map (\<lambda>e. [ge_from e, ge_to e]) (g_edges g))) in
      map (\<lambda>n. lint ''orphan_node'' SevWarning
             (''Node '' @ quote1 (gn_id n) @ '' has no edges'') (Some (gn_id n)))
        (filter (\<lambda>n. gn_id n \<notin> nodes_in_edges) (g_nodes g)))"

definition check_missing_edge_target :: "graph \<Rightarrow> lint_warning list" where
  "check_missing_edge_target g =
     (let node_ids = set (map gn_id (g_nodes g)) in
      concat (map (\<lambda>e.
        (if ge_from e \<notin> node_ids
         then [lint ''missing_edge_target'' SevError
                 (''Edge references unknown source node '' @ quote1 (ge_from e)) None] else []) @
        (if ge_to e \<notin> node_ids
         then [lint ''missing_edge_target'' SevError
                 (''Edge references unknown target node '' @ quote1 (ge_to e)) None] else []))
        (g_edges g)))"

definition check_conditional_without_condition :: "graph \<Rightarrow> lint_warning list" where
  "check_conditional_without_condition g =
     (let conditional_ids = set (map gn_id (filter (\<lambda>n. gn_type n = Conditional) (g_nodes g))) in
      map (\<lambda>e. lint ''conditional_without_condition'' SevWarning
             (''Conditional node '' @ quote1 (ge_from e) @ '' has outgoing edge to '' @
              quote1 (ge_to e) @ '' without a condition'') (Some (ge_from e)))
        (filter (\<lambda>e. ge_condition e = None)
          (filter (\<lambda>e. ge_from e \<in> conditional_ids) (g_edges g))))"

text \<open>\<open>*seen.entry(key).or_insert(0) += 1\<close> on the list of counted keys.\<close>

fun count_entry :: "'k \<Rightarrow> ('k \<times> nat) list \<Rightarrow> ('k \<times> nat) list" where
  "count_entry k [] = [(k, 1)]"
| "count_entry k ((k', n) # seen) =
     (if k' = k then (k', n + 1) # seen else (k', n) # count_entry k seen)"

definition edge_counts :: "graph_edge list \<Rightarrow> ((string \<times> string) \<times> nat) list" where
  "edge_counts edges = fold (\<lambda>e. count_entry (ge_from e, ge_to e)) edges []"

type_synonym edge_iter = "((string \<times> string) \<times> nat) list \<Rightarrow> ((string \<times> string) \<times> nat) list"

definition check_duplicate_edge :: "edge_iter \<Rightarrow> graph \<Rightarrow> lint_warning list" where
  "check_duplicate_edge iter g =
     map (\<lambda>((from, to), count). lint ''duplicate_edge'' SevWarning
            (''Duplicate edge from '' @ quote1 from @ '' to '' @ quote1 to @
             '' ('' @ dec count @ '' occurrences)'') (Some from))
       (filter (\<lambda>(_, count). count > 1) (iter (edge_counts (g_edges g))))"

definition check_missing_label :: "graph \<Rightarrow> lint_warning list" where
  "check_missing_label g =
     map (\<lambda>n. lint ''missing_label'' SevInfo
            (''Node '' @ quote1 (gn_id n) @ '' has no label'') (Some (gn_id n)))
       (filter (\<lambda>n. gn_label n = None) (g_nodes g))"

definition validate :: "edge_iter \<Rightarrow> graph \<Rightarrow> lint_warning list" where
  "validate iter g =
     check_empty_graph g @ check_no_start_node g @ check_no_exit_node g @
     check_multiple_start_nodes g @ check_unreachable_node g @ check_dead_end_node g @
     check_self_loop g @ check_orphan_node g @ check_missing_edge_target g @
     check_conditional_without_condition g @ check_duplicate_edge iter g @ check_missing_label g"

section \<open>Which rules fire\<close>

lemma lint_simps [simp]:
  "lw_rule (lint r s m i) = r" "lw_severity (lint r s m i) = s" "lw_message (lint r s m i) = m"
  "lw_node_id (lint r s m i) = i"
  by (simp_all add: lint_def)

lemmas warning_rules = check_empty_graph_def check_no_exit_node_def check_unreachable_node_def
  check_dead_end_node_def check_self_loop_def check_orphan_node_def
  check_conditional_without_condition_def check_duplicate_edge_def check_missing_label_def

lemma validate_errors:
  "filter (\<lambda>w. lw_severity w = SevError) (validate iter g) =
     check_no_start_node g @ check_multiple_start_nodes g @ check_missing_edge_target g"
proof -
  let ?err = "filter (\<lambda>w. lw_severity w = SevError)"
  have none: "?err ws = []" if "\<forall>w\<in>set ws. lw_severity w \<noteq> SevError" for ws
    using that by (simp add: filter_empty_conv)
  have all: "?err ws = ws" if "\<forall>w\<in>set ws. lw_severity w = SevError" for ws
    using that by (simp add: filter_id_conv)
  have "?err (check_empty_graph g) = []" "?err (check_no_exit_node g) = []"
    "?err (check_unreachable_node g) = []" "?err (check_dead_end_node g) = []"
    "?err (check_self_loop g) = []" "?err (check_orphan_node g) = []"
    "?err (check_conditional_without_condition g) = []" "?err (check_duplicate_edge iter g) = []"
    "?err (check_missing_label g) = []"
    by (rule none, auto simp: warning_rules Let_def)+
  moreover have "?err (check_no_start_node g) = check_no_start_node g"
    "?err (check_multiple_start_nodes g) = check_multiple_start_nodes g"
    "?err (check_missing_edge_target g) = check_missing_edge_target g"
    by (rule all, auto simp: check_no_start_node_def check_multiple_start_nodes_def
        check_missing_edge_target_def Let_def)+
  ultimately show ?thesis by (simp add: validate_def)
qed

lemma missing_edge_target_wf:
  "check_missing_edge_target g = [] \<longleftrightarrow>
     (\<forall>e\<in>set (g_edges g). ge_from e \<in> set (node_ids g) \<and> ge_to e \<in> set (node_ids g))"
  by (auto simp: check_missing_edge_target_def Let_def node_ids_def)

text \<open>The counts of the pairs.\<close>

lemma count_entry_fst: "distinct (map fst seen) \<Longrightarrow>
    distinct (map fst (count_entry k seen)) \<and> set (map fst (count_entry k seen)) = insert k (set (map fst seen))"
  by (induction seen rule: count_entry.induct) auto

lemma count_entry_map_of:
  "map_of (count_entry k seen) = (map_of seen)(k \<mapsto> (case map_of seen k of None \<Rightarrow> 1 | Some n \<Rightarrow> n + 1))"
  by (induction seen rule: count_entry.induct) (auto simp: fun_eq_iff)

lemma edge_counts_aux:
  "distinct (map fst seen) \<Longrightarrow>
     distinct (map fst (fold (\<lambda>e. count_entry (f e)) es seen)) \<and>
     (\<forall>k. (case map_of (fold (\<lambda>e. count_entry (f e)) es seen) k of None \<Rightarrow> 0 | Some n \<Rightarrow> n) =
          (case map_of seen k of None \<Rightarrow> 0 | Some n \<Rightarrow> n) + length (filter (\<lambda>e. f e = k) es)) \<and>
     (\<forall>p\<in>set (fold (\<lambda>e. count_entry (f e)) es seen). fst p \<in> fst ` set seen \<union> f ` set es)"
proof (induction es arbitrary: seen)
  case (Cons e es)
  from count_entry_fst [OF Cons.prems] have d: "distinct (map fst (count_entry (f e) seen))"
    "fst ` set (count_entry (f e) seen) = insert (f e) (fst ` set seen)" by auto
  from Cons.IH [OF d(1)] show ?case
    unfolding fold_simps o_apply d(2) count_entry_map_of
    by (auto split: option.splits)
qed auto

lemma edge_counts_mem:
  "((a, b), n) \<in> set (edge_counts es) \<Longrightarrow> n = length (filter (\<lambda>e. ge_from e = a \<and> ge_to e = b) es)"
proof -
  assume m: "((a, b), n) \<in> set (edge_counts es)"
  have "distinct (map fst (edge_counts es))" and
    c: "(case map_of (edge_counts es) (a, b) of None \<Rightarrow> 0 | Some n \<Rightarrow> n) =
        length (filter (\<lambda>e. (ge_from e, ge_to e) = (a, b)) es)"
    using edge_counts_aux [of "[]" "\<lambda>e. (ge_from e, ge_to e)" es] by (auto simp: edge_counts_def)
  with m have "map_of (edge_counts es) (a, b) = Some n" by simp
  with c show ?thesis by simp
qed

lemma edge_counts_complete:
  assumes "length (filter (\<lambda>e. ge_from e = a \<and> ge_to e = b) es) > 0"
  shows "((a, b), length (filter (\<lambda>e. ge_from e = a \<and> ge_to e = b) es)) \<in> set (edge_counts es)"
proof -
  have "(case map_of (edge_counts es) (a, b) of None \<Rightarrow> 0 | Some n \<Rightarrow> n) =
        length (filter (\<lambda>e. (ge_from e, ge_to e) = (a, b)) es)"
    using edge_counts_aux [of "[]" "\<lambda>e. (ge_from e, ge_to e)" es] by (auto simp: edge_counts_def)
  with assms show ?thesis by (cases "map_of (edge_counts es) (a, b)") (auto dest: map_of_SomeD)
qed

section \<open>Properties\<close>

text \<open>A resolved graph validates without an error exactly when it has no nodes at all or exactly one
  start node; the missing-edge-target rule never fires on it.\<close>

theorem resolved_graph_errors:
  assumes "resolve dg = Inr g"
  shows "(\<forall>w\<in>set (validate iter g). lw_severity w \<noteq> SevError) \<longleftrightarrow>
    g_nodes g = [] \<or> length (start_nodes g) = 1"
proof -
  have "(\<forall>w\<in>set (validate iter g). lw_severity w \<noteq> SevError) \<longleftrightarrow>
      filter (\<lambda>w. lw_severity w = SevError) (validate iter g) = []"
    by (simp add: filter_empty_conv)
  also have "\<dots> \<longleftrightarrow> check_no_start_node g = [] \<and> check_multiple_start_nodes g = []"
    using resolve_wf [OF assms]
    by (simp add: validate_errors missing_edge_target_wf wf_graph_def list_all_iff)
  also have "\<dots> \<longleftrightarrow> g_nodes g = [] \<or> length (start_nodes g) = 1"
  proof (cases "start_nodes g")
    case Nil
    then show ?thesis
      by (auto simp: check_no_start_node_def check_multiple_start_nodes_def Let_def start_nodes_def
          filter_empty_conv list_ex_iff)
  next
    case (Cons n ns)
    then have "n \<in> set (start_nodes g)" by simp
    then have "n \<in> set (g_nodes g) \<and> gn_type n = Start" by (simp add: start_nodes_def)
    then show ?thesis using Cons
      by (auto simp: check_no_start_node_def check_multiple_start_nodes_def Let_def list_ex_iff
          start_nodes_def [symmetric])
  qed
  finally show ?thesis .
qed

theorem resolved_graph_errors_witness:
  "\<exists>g. resolve sample_dot = Inr g \<and> list_all (\<lambda>w. lw_severity w \<noteq> SevError) (validate id g)"
proof -
  obtain g where g: "resolve sample_dot = Inr g" using sample_dot_resolves by blast
  have "case resolve sample_dot of Inr g \<Rightarrow> length (start_nodes g) = 1 | Inl _ \<Rightarrow> False" by code_simp
  then have "length (start_nodes g) = 1" using g by simp
  with resolved_graph_errors [OF g, of id] g show ?thesis unfolding list_all_iff by blast
qed

text \<open>Whatever the hash map's iteration order, the duplicate-edge rule reports exactly the pairs with
  more than one edge, each with the number of its edges.\<close>

theorem duplicate_edge_rule:
  assumes "\<And>xs. set (iter xs) = set xs"
  shows "w \<in> set (check_duplicate_edge iter g) \<longleftrightarrow>
    (\<exists>a b n. n = length (filter (\<lambda>e. ge_from e = a \<and> ge_to e = b) (g_edges g)) \<and> n > 1 \<and>
       w = lint ''duplicate_edge'' SevWarning
         (''Duplicate edge from '' @ quote1 a @ '' to '' @ quote1 b @ '' ('' @ dec n @ '' occurrences)'')
         (Some a))"
proof -
  have "w \<in> set (check_duplicate_edge iter g) \<longleftrightarrow>
    (\<exists>a b n. ((a, b), n) \<in> set (edge_counts (g_edges g)) \<and> n > 1 \<and>
       w = lint ''duplicate_edge'' SevWarning
         (''Duplicate edge from '' @ quote1 a @ '' to '' @ quote1 b @ '' ('' @ dec n @ '' occurrences)'')
         (Some a))"
    unfolding check_duplicate_edge_def set_map set_filter assms by force
  moreover have "(((a, b), n) \<in> set (edge_counts (g_edges g)) \<and> n > 1) =
      (n = length (filter (\<lambda>e. ge_from e = a \<and> ge_to e = b) (g_edges g)) \<and> n > 1)" (is "(?M \<and> _) = (n = ?len \<and> _)")
    for a b n
  proof -
    have "?M" if "n = ?len" "n > 1"
    proof -
      have "?len > 0" using that by linarith
      from edge_counts_complete [OF this] that(1) show ?thesis by simp
    qed
    with edge_counts_mem [of a b n "g_edges g"] show ?thesis by blast
  qed
  ultimately show ?thesis by (simp only: conj_assoc [symmetric])
qed

definition parallel_dot :: dot_graph where
  "parallel_dot = DotGraph None True
     [SEdge \<lparr>de_from = ''a'', de_to = ''b'', de_attrs = []\<rparr>,
      SEdge \<lparr>de_from = ''a'', de_to = ''b'', de_attrs = []\<rparr>]"

theorem duplicate_edge_rule_witness:
  "\<exists>g. resolve parallel_dot = Inr g \<and> check_duplicate_edge rev g \<noteq> []"
proof -
  have "case resolve parallel_dot of
      Inr g \<Rightarrow> length (filter (\<lambda>e. ge_from e = ''a'' \<and> ge_to e = ''b'') (g_edges g)) > 1 | Inl _ \<Rightarrow> False"
    by code_simp
  then obtain g where g: "resolve parallel_dot = Inr g"
    "length (filter (\<lambda>e. ge_from e = ''a'' \<and> ge_to e = ''b'') (g_edges g)) > 1"
    by (cases "resolve parallel_dot") simp_all
  have rev: "set (rev xs) = set xs" for xs :: "((string \<times> string) \<times> nat) list" by simp
  define n where "n = length (filter (\<lambda>e. ge_from e = ''a'' \<and> ge_to e = ''b'') (g_edges g))"
  define w where "w = lint ''duplicate_edge'' SevWarning
    (''Duplicate edge from '' @ quote1 ''a'' @ '' to '' @ quote1 ''b'' @ '' ('' @ dec n @ '' occurrences)'')
    (Some ''a'')"
  have "w \<in> set (check_duplicate_edge rev g)"
    unfolding duplicate_edge_rule [OF rev, of w g]
    by (rule exI [of _ "''a''"], rule exI [of _ "''b''"], rule exI [of _ n])
      (use g(2) in \<open>simp add: n_def w_def\<close>)
  then have "check_duplicate_edge rev g \<noteq> []" by (metis empty_iff list.set(1))
  with g(1) show ?thesis by blast
qed

end
