(* ===== verification/Engine_Run.thy ===== *)
theory Engine_Run
  imports Engine Validation
begin

text \<open>
  What a run of the engine guarantees: the invariant of the loop, the refinement of the abstract
  pipeline machine, the path of executed nodes, the goals, the limits, the checkpoints and the
  event log.  \<open>trace s\<close> lists the executed nodes in order, repeats included.
\<close>

section \<open>The invariant of the loop\<close>

definition trace :: "'w engine_state \<Rightarrow> string list" where
  "trace s = map ns_node_id (es_timings s)"

text \<open>
  The moves a run can make: along an edge; from a node to its own retry target; from an exit node
  to the retry target of a goal node.
\<close>

definition moves :: "graph \<Rightarrow> string \<Rightarrow> string \<Rightarrow> bool" where
  "moves g a b \<longleftrightarrow>
     (\<exists>e\<in>set (g_edges g). ge_from e = a \<and> ge_to e = b) \<or>
     (node g b \<noteq> None \<and> (\<exists>n. node g a = Some n \<and>
        (if gn_type n = Exit
         then \<exists>f. node g (gn_id f) = Some f \<and> gn_id f \<in> set (goals_from_graph g) \<and> resolve_retry_target f g = Some b
         else resolve_retry_target n g = Some b)))"

lemma pipeline_step_moves:
  assumes "pipeline_step g (a, m) (b, m')"
  shows "moves g a b"
proof (rule pipeline_stepE [OF assms], goal_cases)
  case (1 n e out)
  then show ?thesis by (auto simp: moves_def edges_from_mem)
next
  case (2 n out)
  then show ?thesis by (auto simp: moves_def)
next
  case (3 n out u f)
  have "ug_node_id u \<in> set (goals_from_graph g)"
    using check_outcomes_Inl [OF 3(4)] by auto
  moreover have "gn_id f = ug_node_id u" using node_Some [OF 3(5)] by simp
  ultimately show ?thesis using 3 by (auto simp: moves_def)
qed

lemma fresh_ids_snoc:
  "fresh_ids S (xs @ [x]) = fresh_ids S xs @ (if x \<in> S \<union> set xs then [] else [x])"
  by (induction S xs rule: fresh_ids.induct) auto

definition run_inv ::
  "engine_config \<Rightarrow> graph \<Rightarrow> string \<Rightarrow> string list \<Rightarrow> outcome hmap \<Rightarrow> 'w engine_state \<Rightarrow> bool" where
  "run_inv cfg g a0 v0 m0 s \<longleftrightarrow>
     (pipeline_step g)\<^sup>*\<^sup>* (a0, m0) (abs_state s) \<and>
     es_steps s = length (trace s) \<and> es_steps s \<le> ec_max_steps cfg \<and>
     es_visited s = v0 @ fresh_ids (set v0) (trace s) \<and>
     successively (moves g) (trace s @ [es_current s]) \<and> hd (trace s @ [es_current s]) = a0 \<and>
     (\<forall>k. hm_get (es_outcomes s) k \<noteq> None \<longleftrightarrow> hm_get m0 k \<noteq> None \<or> k \<in> set (trace s)) \<and>
     set (trace s) \<subseteq> set (node_ids g) \<and> (hm_wf m0 \<longrightarrow> hm_wf (es_outcomes s))"

lemma records_run_inv:
  assumes "run_inv cfg g a0 v0 m0 s" "records_run s out t" "node g (es_current s) \<noteq> None"
    "es_steps s < ec_max_steps cfg"
  shows "trace t = trace s @ [es_current s]" "es_steps t = length (trace t)" "es_steps t \<le> ec_max_steps cfg"
    "es_visited t = v0 @ fresh_ids (set v0) (trace t)"
    "hm_get (es_outcomes t) k \<noteq> None \<longleftrightarrow> hm_get m0 k \<noteq> None \<or> k \<in> set (trace t)"
    "set (trace t) \<subseteq> set (node_ids g)" "hm_wf m0 \<longrightarrow> hm_wf (es_outcomes t)"
proof -
  show tr: "trace t = trace s @ [es_current s]"
    using assms(2) by (auto simp: records_run_def trace_def)
  show "es_steps t = length (trace t)" "es_steps t \<le> ec_max_steps cfg"
    using assms by (auto simp: records_run_def run_inv_def tr)
  have "set (es_visited s) = set v0 \<union> set (trace s)"
    using assms(1) fresh_ids_props [of "set v0" "trace s"] by (auto simp: run_inv_def)
  then show "es_visited t = v0 @ fresh_ids (set v0) (trace t)"
    using assms(1,2) by (auto simp: records_run_def run_inv_def tr fresh_ids_snoc)
  show "hm_get (es_outcomes t) k \<noteq> None \<longleftrightarrow> hm_get m0 k \<noteq> None \<or> k \<in> set (trace t)"
    using assms(1,2) by (auto simp: records_run_def run_inv_def tr)
  show "set (trace t) \<subseteq> set (node_ids g)"
    using assms(1,3) node_None_iff [of g "es_current s"] by (auto simp: run_inv_def tr)
  show "hm_wf m0 \<longrightarrow> hm_wf (es_outcomes t)"
    using assms(1,2) by (auto simp: run_inv_def records_run_def)
qed

lemma run_inv_step:
  assumes "run_inv cfg g a0 v0 m0 s" "engine_step env cfg g s = Next t"
  shows "run_inv cfg g a0 v0 m0 t"
proof -
  from engine_step_Next [OF assms(2)] obtain out where
    n: "es_steps s < ec_max_steps cfg" "node g (es_current s) \<noteq> None" "records_run s out t"
      "pipeline_step g (abs_state s) (abs_state t)" by blast
  note r = records_run_inv [OF assms(1) n(3,2,1)]
  have "moves g (es_current s) (es_current t)"
    using pipeline_step_moves n(4) by (simp add: abs_state_def)
  then have "successively (moves g) (trace t @ [es_current t])" "hd (trace t @ [es_current t]) = a0"
    using assms(1) by (auto simp: run_inv_def r(1) successively_append_iff hd_append split: if_splits)
  moreover have "(pipeline_step g)\<^sup>*\<^sup>* (a0, m0) (abs_state t)"
    using assms(1) n(4) by (auto simp: run_inv_def intro: rtranclp.rtrancl_into_rtrancl)
  ultimately show ?thesis using r(2-7) unfolding run_inv_def by blast
qed

text \<open>An invariant of the continuing steps holds where the loop ends.\<close>

lemma engine_loop_invariant:
  assumes "I s" "\<And>s s'. I s \<Longrightarrow> engine_step env cfg g s = Next s' \<Longrightarrow> I s'"
    and "engine_loop env cfg g s = (r, t)"
  shows "\<exists>s. I s \<and> engine_step env cfg g s = (case r of None \<Rightarrow> Finished t | Some e \<Rightarrow> Failed e t)"
  using assms
proof (induction env cfg g s rule: engine_loop.induct)
  case (1 env cfg g s)
  show ?case
  proof (cases "engine_step env cfg g s")
    case (Next s')
    with "1.prems"(3) have l: "engine_loop env cfg g s' = (r, t)" by (subst (asm) engine_loop.simps) simp
    from "1.prems"(2) [OF "1.prems"(1) Next] have "I s'" .
    from "1.IH" [OF Next this "1.prems"(2) l] show ?thesis .
  next
    case (Finished s')
    with "1.prems"(3) have "r = None \<and> t = s'" by (subst (asm) engine_loop.simps) simp
    with Finished "1.prems" show ?thesis by auto
  next
    case (Failed e s')
    with "1.prems"(3) have "r = Some e \<and> t = s'" by (subst (asm) engine_loop.simps) simp
    with Failed "1.prems" show ?thesis by auto
  qed
qed

section \<open>Runs that succeed\<close>

lemma finish_run_Inr:
  assumes "finish_run env cfg g start s = (Inr res, t)"
  shows "er_visited_nodes res = es_visited s" "er_node_outcomes res = es_outcomes s"
    "er_steps_taken res = es_steps s" "er_final_context res = es_context s" "er_loop_restarts res = es_restarts s"
    "ps_node_timings (er_stats res) = es_timings s" "es_timings t = es_timings s" "es_steps t = es_steps s"
    "\<exists>ms now. es_events t = es_events s @ [PipelineCompleted (final_outcome s) (length (es_visited s)) ms now]"
    "list_all (goal_satisfied (es_outcomes s)) (goals_from_graph g)"
    "ps_total_nodes_visited (er_stats res) = length (es_timings s)"
proof -
  have e: "enforce_outcomes (goals_from_graph g) (es_outcomes s) = Inr ()"
    using assms by (cases "enforce_outcomes (goals_from_graph g) (es_outcomes s)") (auto simp: finish_run_def)
  then show "list_all (goal_satisfied (es_outcomes s)) (goals_from_graph g)"
    using enforce_outcomes_ok [of "goals_from_graph g" "es_outcomes s"] by simp
  show "er_visited_nodes res = es_visited s" "er_node_outcomes res = es_outcomes s"
    "er_steps_taken res = es_steps s" "er_final_context res = es_context s" "er_loop_restarts res = es_restarts s"
    "ps_node_timings (er_stats res) = es_timings s" "es_timings t = es_timings s" "es_steps t = es_steps s"
    "\<exists>ms now. es_events t = es_events s @ [PipelineCompleted (final_outcome s) (length (es_visited s)) ms now]"
    "ps_total_nodes_visited (er_stats res) = length (es_timings s)"
    using assms e
    by (auto simp: finish_run_def final_checkpoint_def Let_def split_beta snapshot_def from_node_timings_def)
qed

lemma run_inv_initial:
  "run_inv cfg g a v m (emit env ev
     \<lparr>es_current = a, es_visited = v, es_outcomes = m, es_context = ctx, es_steps = 0, es_restarts = [],
      es_failures = Map.empty, es_timings = [], es_artifacts = st, es_events = [], es_world = w\<rparr>)"
  by (simp add: run_inv_def trace_def abs_state_def)

lemma execute_loop_Inr:
  assumes "execute_loop env cfg g a v m ctx w = (Inr res, t)"
  shows "\<exists>b mb. (pipeline_step g)\<^sup>*\<^sup>* (a, m) (b, mb) \<and> pipeline_final g (b, mb) (er_node_outcomes res)"
    "trace t \<noteq> []" "hd (trace t) = a" "successively (moves g) (trace t)" "set (trace t) \<subseteq> set (node_ids g)"
    "er_steps_taken res = length (trace t)" "length (trace t) \<le> ec_max_steps cfg"
    "er_visited_nodes res = v @ fresh_ids (set v) (trace t)"
    "\<And>k. hm_get (er_node_outcomes res) k \<noteq> None \<longleftrightarrow> hm_get m k \<noteq> None \<or> k \<in> set (trace t)"
    "ps_node_timings (er_stats res) = es_timings t"
    "list_all (goal_satisfied (er_node_outcomes res)) (goals_from_graph g)"
    "hm_wf m \<Longrightarrow> hm_wf (er_node_outcomes res)"
proof -
  let ?w1 = "snd (e_clock env w)"
  define s0 where "s0 = emit env (PipelineStarted (graph_name g))
    \<lparr>es_current = a, es_visited = v, es_outcomes = m, es_context = ctx, es_steps = 0, es_restarts = [],
     es_failures = Map.empty, es_timings = [], es_artifacts = ec_artifact_store cfg, es_events = [], es_world = ?w1\<rparr>"
  obtain err s1 where l: "engine_loop env cfg g s0 = (err, s1)" by force
  with assms have "err = None" and f: "finish_run env cfg g (fst (e_clock env w)) s1 = (Inr res, t)"
    by (auto simp: execute_loop_def Let_def split_beta s0_def split: option.splits)
  have "run_inv cfg g a v m s0" unfolding s0_def by (rule run_inv_initial)
  from engine_loop_invariant [where I = "run_inv cfg g a v m", OF this _ l] run_inv_step \<open>err = None\<close>
  obtain s where s: "run_inv cfg g a v m s" "engine_step env cfg g s = Finished s1" by (metis option.case(1))
  note fin = engine_step_Finished [OF s(2)] and fr = finish_run_Inr [OF f]
  from fin(3) obtain out where rec: "records_run s out s1" by blast
  note r = records_run_inv [OF s(1) rec fin(2,1)]
  have tr: "trace t = trace s1" using fr(7) by (simp add: trace_def)
  show "\<exists>b mb. (pipeline_step g)\<^sup>*\<^sup>* (a, m) (b, mb) \<and> pipeline_final g (b, mb) (er_node_outcomes res)"
    using s(1) fin(4) fr(2) unfolding run_inv_def by (metis prod.collapse)
  show "trace t \<noteq> []" "hd (trace t) = a" "successively (moves g) (trace t)"
    using s(1) r(1) by (simp_all add: run_inv_def tr)
  show "set (trace t) \<subseteq> set (node_ids g)" "er_steps_taken res = length (trace t)"
    "length (trace t) \<le> ec_max_steps cfg" "er_visited_nodes res = v @ fresh_ids (set v) (trace t)"
    using r fr by (simp_all add: tr)
  show "hm_get (er_node_outcomes res) k \<noteq> None \<longleftrightarrow> hm_get m k \<noteq> None \<or> k \<in> set (trace t)" for k
    using r(5) fr(2) by (simp only: tr)
  show "ps_node_timings (er_stats res) = es_timings t"
    "list_all (goal_satisfied (er_node_outcomes res)) (goals_from_graph g)" using fr by simp_all
  show "hm_wf m \<Longrightarrow> hm_wf (er_node_outcomes res)" using r(7) fr(2) by simp
qed

lemma run_Inr:
  assumes "run env cfg g ctx w = (Inr res, t)"
  obtains n where "start_nodes g = [n]" "execute_loop env cfg g (gn_id n) [] [] ctx w = (Inr res, t)"
  using assms by (auto simp: run_def split: list.splits)

section \<open>A sample run\<close>

definition sample_graph :: graph where
  "sample_graph =
     \<lparr>g_name = Some ''p'',
      g_nodes = [\<lparr>gn_id = ''s'', gn_type = Start, gn_label = None, gn_attrs = Map.empty\<rparr>,
                 \<lparr>gn_id = ''w'', gn_type = Codergen, gn_label = Some ''do'', gn_attrs = [''goal'' \<mapsto> ABool True]\<rparr>,
                 \<lparr>gn_id = ''x'', gn_type = Exit, gn_label = None, gn_attrs = Map.empty\<rparr>],
      g_edges = [\<lparr>ge_from = ''s'', ge_to = ''w'', ge_label = None, ge_condition = None, ge_priority = None,
                  ge_loop_restart = False, ge_attrs = Map.empty\<rparr>,
                 \<lparr>ge_from = ''w'', ge_to = ''x'', ge_label = None, ge_condition = None, ge_priority = None,
                  ge_loop_restart = True, ge_attrs = Map.empty\<rparr>],
      g_default_node_attrs = Map.empty, g_default_edge_attrs = Map.empty, g_graph_attrs = Map.empty\<rparr>"

definition sample_env :: "unit env" where
  "sample_env =
     \<lparr>e_registry = default_registry @ [codergen_handler (\<lambda>prompt model s. (Inr success, s)) None],
      e_cancelled = (\<lambda>_. False), e_stalled = (\<lambda>_. False), e_progress = id, e_clock = (\<lambda>w. (0, w)),
      e_sleep = (\<lambda>_ w. w), e_jitter = (\<lambda>w. (F_NaN, w)), e_hash = (\<lambda>_. 0), e_render = (\<lambda>_. []),
      e_debug_outcome = (\<lambda>_. ''Failure''), e_outcome_json = (\<lambda>_. None), e_checkpoint_json = (\<lambda>_. None),
      e_write_checkpoint = (\<lambda>_ _ w. (True, w))\<rparr>"

definition sample_result :: "(engine_error fault + execution_result) \<times> unit engine_state" where
  "sample_result = run sample_env default_engine_config sample_graph [] ()"

lemma sample_visits: "case sample_result of (Inr res, t) \<Rightarrow> er_visited_nodes res = [''s'', ''w'', ''x''] | _ \<Rightarrow> False"
  by code_simp

section \<open>Properties\<close>

text \<open>C1. The engine refines the abstract pipeline machine: a successful run starts at the only start node
  with no outcomes, every iteration is a step of the machine (an edge of the node, or a retry
  target where one may be taken), and it ends in a final step: an exit node with all goals
  satisfied, or another node that did not fail.  The outcomes returned are the machine's.\<close>

theorem run_refines:
  assumes "run env cfg g ctx w = (Inr res, t)"
  shows "\<exists>n a m. start_nodes g = [n] \<and> (pipeline_step g)\<^sup>*\<^sup>* (gn_id n, []) (a, m) \<and>
    pipeline_final g (a, m) (er_node_outcomes res)"
proof -
  from run_Inr [OF assms] obtain n where n: "start_nodes g = [n]"
    "execute_loop env cfg g (gn_id n) [] [] ctx w = (Inr res, t)" .
  from execute_loop_Inr(1) [OF n(2)] n(1) show ?thesis by blast
qed

theorem run_refines_witness:
  "\<exists>a m m'. (pipeline_step sample_graph)\<^sup>*\<^sup>* (''s'', []) (a, m) \<and> pipeline_final sample_graph (a, m) m'"
proof -
  obtain res t where r: "run sample_env default_engine_config sample_graph [] () = (Inr res, t)"
    using sample_visits unfolding sample_result_def by (auto split: prod.splits sum.splits)
  from run_refines [OF r] show ?thesis by (auto simp: start_nodes_def sample_graph_def)
qed

text \<open>C2. The executed nodes of a successful run form a path: it begins at the start node, every move from
  one executed node to the next is along an edge or to an allowed retry target, and all are nodes
  of the graph.  The visited nodes are the executed nodes without repeats, in order of first
  execution, and exactly they have outcomes.\<close>

theorem run_path:
  assumes "run env cfg g ctx w = (Inr res, t)"
  shows "trace t \<noteq> [] \<and> [hd (trace t)] = map gn_id (start_nodes g) \<and> successively (moves g) (trace t) \<and>
    set (trace t) \<subseteq> set (map gn_id (g_nodes g)) \<and>
    er_visited_nodes res = fresh_ids {} (trace t) \<and> distinct (er_visited_nodes res) \<and>
    (\<forall>k. hm_get (er_node_outcomes res) k \<noteq> None \<longleftrightarrow> k \<in> set (er_visited_nodes res))"
proof -
  from run_Inr [OF assms] obtain n where n: "start_nodes g = [n]"
    "execute_loop env cfg g (gn_id n) [] [] ctx w = (Inr res, t)" .
  note e = execute_loop_Inr [OF n(2)]
  have "distinct (fresh_ids {} (trace t))" "set (fresh_ids {} (trace t)) = set (trace t)"
    using fresh_ids_props [of "{}" "trace t"] by auto
  then show ?thesis using n(1) e(2-5,8,9) by (simp add: node_ids_def)
qed

theorem run_path_witness: "successively (moves sample_graph) [''s'', ''w'', ''x'']"
proof -
  obtain res t where r: "run sample_env default_engine_config sample_graph [] () = (Inr res, t)"
    using sample_visits unfolding sample_result_def by (auto split: prod.splits sum.splits)
  have "case run sample_env default_engine_config sample_graph [] () of (_, t) \<Rightarrow> trace t = [''s'', ''w'', ''x'']"
    by code_simp
  with r run_path [OF r] show ?thesis by simp
qed

text \<open>C22. Goal gates: a run succeeds only if every goal node of the graph was executed and its last outcome
  is a success or partial success.\<close>

theorem run_ok_goals:
  assumes "run env cfg g ctx w = (Inr res, t)" "n \<in> set (g_nodes g)" "is_goal n"
  shows "gn_id n \<in> set (er_visited_nodes res) \<and>
    (\<exists>out. hm_get (er_node_outcomes res) (gn_id n) = Some out \<and> is_success out)"
proof -
  from run_Inr [OF assms(1)] obtain s where s: "start_nodes g = [s]"
    "execute_loop env cfg g (gn_id s) [] [] ctx w = (Inr res, t)" .
  from execute_loop_Inr(11) [OF s(2)] have "list_all (goal_satisfied (er_node_outcomes res)) (goals_from_graph g)" .
  moreover have "gn_id n \<in> set (goals_from_graph g)" using assms(2,3) by (auto simp: goals_from_graph_def)
  ultimately obtain out where o: "hm_get (er_node_outcomes res) (gn_id n) = Some out" "is_success out"
    by (auto simp: list_all_iff goal_satisfied_def split: option.splits)
  then show ?thesis using run_path [OF assms(1)] by (metis option.distinct(1))
qed

theorem run_ok_goals_witness:
  "\<exists>out. hm_get (er_node_outcomes (projr (fst sample_result))) ''w'' = Some out \<and> is_success out"
proof -
  obtain res t where r: "run sample_env default_engine_config sample_graph [] () = (Inr res, t)"
    using sample_visits unfolding sample_result_def by (auto split: prod.splits sum.splits)
  let ?n = "\<lparr>gn_id = ''w'', gn_type = Codergen, gn_label = Some ''do'', gn_attrs = [''goal'' \<mapsto> ABool True]\<rparr>"
  have "?n \<in> set (g_nodes sample_graph)" "is_goal ?n" by (simp_all add: sample_graph_def is_goal_def)
  from run_ok_goals [OF r this] r show ?thesis by (simp add: sample_result_def)
qed

section \<open>Runs that fail\<close>

lemma failure_cycle_Inl:
  assumes "failure_cycle env cfg out s = Inl (e, t)"
  shows "es_steps t = es_steps s" "es_timings t = es_timings s"
    "\<exists>n err c. e = DeterministicFailureCycle n err c"
  using assms
  by (auto simp: failure_cycle_def Let_def split_beta split: option.splits outcome.splits if_splits)

lemma exit_step_Failed:
  assumes "exit_step g s = Failed e t"
  shows "t = s"
    "(\<exists>x f. e = Err (NodeNotFound x) \<and> f \<in> set (g_nodes g) \<and> resolve_retry_target f g = Some x \<and> node g x = None) \<or>
     (\<exists>ge. e = Err (GoalEnforcement ge) \<and> enforce_outcomes (goals_from_graph g) (es_outcomes s) = Inl ge)"
proof -
  from assms obtain u where u: "check_outcomes (goals_from_graph g) (es_outcomes s) = Inl u"
    by (auto simp: exit_step_def Let_def split: sum.splits)
  then have "\<not> is_ok (enforce_outcomes (goals_from_graph g) (es_outcomes s))"
    using check_outcomes_ok [of "goals_from_graph g" "es_outcomes s"]
      enforce_outcomes_ok [of "goals_from_graph g" "es_outcomes s"] by simp
  then obtain ge where ge: "enforce_outcomes (goals_from_graph g) (es_outcomes s) = Inl ge"
    by (cases "enforce_outcomes (goals_from_graph g) (es_outcomes s)") auto
  show "t = s" using assms u by (auto simp: exit_step_def Let_def split: sum.splits option.splits if_splits)
  show "(\<exists>x f. e = Err (NodeNotFound x) \<and> f \<in> set (g_nodes g) \<and> resolve_retry_target f g = Some x \<and> node g x = None) \<or>
     (\<exists>ge. e = Err (GoalEnforcement ge) \<and> enforce_outcomes (goals_from_graph g) (es_outcomes s) = Inl ge)"
    using assms u ge node_Some
    by (fastforce simp: exit_step_def Let_def bind_eq_Some_conv split: option.splits if_splits)
qed

lemma route_Failed:
  assumes "route env cfg g n out s = Failed e t" "n \<in> set (g_nodes g)"
  shows "es_steps t = es_steps s" "es_timings t = es_timings s"
    "(\<exists>x f. e = Err (NodeNotFound x) \<and> f \<in> set (g_nodes g) \<and> resolve_retry_target f g = Some x \<and> node g x = None) \<or>
     (\<exists>err. e = Err (UnroutableFailure (es_current s) err) \<and> is_failure out \<and> resolve_retry_target n g = None) \<or>
     (\<exists>err. e = Err (EdgeSelection err)) \<or>
     (\<exists>p ctx o'. e = Panic p \<and> select_edge (e_render env) g (es_current s) ctx o' = Inl (Panic p))"
  using assms
  by (fastforce simp: route_def no_edge_def Let_def split: sum.splits fault.splits option.splits if_splits)+

text \<open>The errors of one iteration, and the record it leaves.\<close>

definition engine_error_ok :: "'w env \<Rightarrow> engine_config \<Rightarrow> graph \<Rightarrow> 'w engine_state \<Rightarrow> engine_error fault \<Rightarrow> bool" where
  "engine_error_ok env cfg g t e \<longleftrightarrow>
     (case e of
        Panic p \<Rightarrow> \<exists>x ctx out. select_edge (e_render env) g x ctx out = Inl (Panic p)
      | Err (MaxStepsExceeded k) \<Rightarrow> k = ec_max_steps cfg \<and> es_steps t = k
      | Err (NodeNotFound x) \<Rightarrow> node g x = None \<and>
          (\<not> wf_graph g \<or> (\<exists>f\<in>set (g_nodes g). resolve_retry_target f g = Some x))
      | Err (UnroutableFailure x err) \<Rightarrow> \<exists>n. node g x = Some n \<and> resolve_retry_target n g = None
      | Err (GoalEnforcement ge) \<Rightarrow> \<not> list_all (goal_satisfied (es_outcomes t)) (goals_from_graph g)
      | Err NoStartNode \<Rightarrow> False
      | Err (MultipleStartNodes _) \<Rightarrow> False
      | Err (HandlerErr _) \<Rightarrow> False
      | Err (RetryExhausted _ _) \<Rightarrow> False
      | Err (CompositionErr _) \<Rightarrow> False
      | _ \<Rightarrow> True)"

lemma check_limits_Some:
  assumes "check_limits env cfg s = Some (e, t)"
  shows "es_steps t = es_steps s" "es_timings t = es_timings s"
    "e = Cancelled \<or> (\<exists>n. e = Stalled n) \<or> (e = MaxStepsExceeded (ec_max_steps cfg) \<and> es_steps s \<ge> ec_max_steps cfg)"
  using assms by (auto simp: check_limits_def Let_def split: if_splits)

lemma moves_node:
  "wf_graph g \<Longrightarrow> moves g a b \<Longrightarrow> node g b \<noteq> None"
  unfolding moves_def wf_graph_def list_all_iff by (metis node_None_iff)

lemma run_inv_current:
  assumes "run_inv cfg g a v m s" "wf_graph g" "node g a \<noteq> None"
  shows "node g (es_current s) \<noteq> None"
proof (cases "trace s = []")
  case True
  then show ?thesis using assms by (simp add: run_inv_def)
next
  case False
  then have "moves g (last (trace s)) (es_current s)"
    using assms(1) by (simp add: run_inv_def successively_append_iff)
  then show ?thesis using moves_node assms(2) by blast
qed

lemma engine_step_Failed:
  assumes "engine_step env cfg g s = Failed e t" "run_inv cfg g a v m s" "node g a \<noteq> None"
  shows "es_steps t = length (trace t) \<and> es_steps t \<le> ec_max_steps cfg \<and> engine_error_ok env cfg g t e"
proof -
  have inv: "es_steps s = length (trace s)" "es_steps s \<le> ec_max_steps cfg"
    using assms(2) by (auto simp: run_inv_def)
  consider (limit) e' where "check_limits env cfg s = Some (e', t)" "e = Err e'"
    | (lost) "check_limits env cfg s = None" "node g (es_current s) = None" "e = Err (NodeNotFound (es_current s))" "t = s"
    | (exec) n out s1 where "check_limits env cfg s = None" "node g (es_current s) = Some n" "run_node env n s = (out, s1)"
  proof (cases "check_limits env cfg s")
    case (Some p)
    then obtain e' t' where "check_limits env cfg s = Some (e', t')" by (cases p) simp
    then show ?thesis using assms(1) limit by (simp add: engine_step_def)
  next
    case None
    show ?thesis
    proof (cases "node g (es_current s)")
      case n: None
      have "e = Err (NodeNotFound (es_current s)) \<and> t = s" using assms(1) None n by (auto simp: engine_step_def)
      then show ?thesis using lost None n by blast
    next
      case n: (Some n)
      obtain out s1 where "run_node env n s = (out, s1)" by (cases "run_node env n s")
      then show ?thesis using exec None n by blast
    qed
  qed
  then show ?thesis
  proof cases
    case limit
    note l = check_limits_Some [OF limit(1)]
    then show ?thesis using inv limit(2) by (auto simp: engine_error_ok_def trace_def)
  next
    case lost
    then have "\<not> wf_graph g" using run_inv_current [OF assms(2)] assms(3) by auto
    then show ?thesis using lost inv by (simp add: engine_error_ok_def)
  next
    case exec
    have lt: "es_steps s < ec_max_steps cfg" using exec(1) by (auto simp: check_limits_def Let_def split: if_splits)
    have tr: "trace s1 = trace s @ [es_current s]" and st: "es_steps s1 = es_steps s + 1" and cur: "es_current s1 = es_current s"
      using run_node_fields [OF exec(3)] by (auto simp: trace_def)
    have n: "n \<in> set (g_nodes g)" using node_Some [OF exec(2)] by simp
    show ?thesis
    proof (cases "failure_cycle env cfg out s1")
      case (Inl et)
      then obtain e' where et: "failure_cycle env cfg out s1 = Inl (e', t)" "e = Err e'"
        using assms(1) exec by (cases et) (auto simp: engine_step_def)
      then show ?thesis using failure_cycle_Inl [OF et(1)] inv lt tr st
        by (auto simp: engine_error_ok_def trace_def)
    next
      case (Inr s2)
      note f = failure_cycle_fields [OF Inr]
      let ?s3 = "auto_save env cfg g s2"
      have s3: "es_steps ?s3 = length (trace ?s3)" "es_steps ?s3 \<le> ec_max_steps cfg" "es_current ?s3 = es_current s"
        using inv lt tr st f cur by (simp_all add: trace_def)
      show ?thesis
      proof (cases "gn_type n = Exit")
        case True
        then have x: "exit_step g ?s3 = Failed e t" using assms(1) exec Inr by (simp add: engine_step_def Let_def)
        note xf = exit_step_Failed [OF x]
        have "engine_error_ok env cfg g t e"
          using xf(2) enforce_outcomes_ok [of "goals_from_graph g" "es_outcomes ?s3"]
          by (auto simp: engine_error_ok_def xf(1))
        then show ?thesis using xf(1) s3 by simp
      next
        case False
        then have x: "route env cfg g n out ?s3 = Failed e t" using assms(1) exec Inr by (simp add: engine_step_def Let_def)
        note xf = route_Failed [OF x n]
        have "engine_error_ok env cfg g t e"
          using xf(3) exec(2) s3(3) by (auto simp: engine_error_ok_def; blast)
        then show ?thesis using xf(1,2) s3 by (simp add: trace_def)
      qed
    qed
  qed
qed

lemma execute_loop_Inl:
  assumes "execute_loop env cfg g a v m ctx w = (Inl e, t)" "node g a \<noteq> None"
  shows "es_steps t = length (trace t) \<and> es_steps t \<le> ec_max_steps cfg \<and> engine_error_ok env cfg g t e"
proof -
  define s0 where "s0 = emit env (PipelineStarted (graph_name g))
    \<lparr>es_current = a, es_visited = v, es_outcomes = m, es_context = ctx, es_steps = 0, es_restarts = [],
     es_failures = Map.empty, es_timings = [], es_artifacts = ec_artifact_store cfg, es_events = [],
     es_world = snd (e_clock env w)\<rparr>"
  obtain err s1 where l: "engine_loop env cfg g s0 = (err, s1)" by force
  have "run_inv cfg g a v m s0" unfolding s0_def by (rule run_inv_initial)
  from engine_loop_invariant [where I = "run_inv cfg g a v m", OF this _ l] run_inv_step
  obtain s where s: "run_inv cfg g a v m s"
    "engine_step env cfg g s = (case err of None \<Rightarrow> Finished s1 | Some e \<Rightarrow> Failed e s1)" by metis
  show ?thesis
  proof (cases err)
    case None
    with s have fin: "engine_step env cfg g s = Finished s1" by simp
    note f = engine_step_Finished [OF this]
    from f(3) obtain out where rec: "records_run s out s1" by blast
    have "finish_run env cfg g (fst (e_clock env w)) s1 = (Inl e, t)"
      using assms(1) l None by (simp add: execute_loop_def Let_def split_beta s0_def)
    then have "t = s1 \<and> (\<exists>ge. e = Err (GoalEnforcement ge) \<and>
        enforce_outcomes (goals_from_graph g) (es_outcomes s1) = Inl ge)"
      by (cases "enforce_outcomes (goals_from_graph g) (es_outcomes s1)")
        (auto simp: finish_run_def Let_def split_beta)
    then show ?thesis
      using records_run_inv(2,3) [OF s(1) rec f(2,1)] enforce_outcomes_ok [of "goals_from_graph g" "es_outcomes s1"]
      by (auto simp: engine_error_ok_def)
  next
    case (Some e')
    then have "e' = e" "s1 = t" using assms(1) l by (simp_all add: execute_loop_def Let_def split_beta s0_def)
    with Some s(2) have "engine_step env cfg g s = Failed e t" by simp
    from engine_step_Failed [OF this s(1) assms(2)] show ?thesis .
  qed
qed

lemma start_node_exists: "start_nodes g = [n] \<Longrightarrow> node g (gn_id n) \<noteq> None"
proof -
  assume "start_nodes g = [n]"
  then have "n \<in> set (start_nodes g)" by simp
  then have "gn_id n \<in> set (node_ids g)" by (auto simp: start_nodes_def node_ids_def)
  then show ?thesis by (simp add: node_None_iff)
qed

text \<open>C5. Every run is bounded: whatever the handlers, the clock and the cancellation flag do, a run ends
  after at most \<open>max_steps\<close> node executions, successful or not, and the step counter is the number
  of executions recorded.\<close>

theorem run_bounded:
  "case run env cfg g ctx w of (r, t) \<Rightarrow>
     es_steps t = length (trace t) \<and> es_steps t \<le> ec_max_steps cfg \<and>
     (case r of Inr res \<Rightarrow> er_steps_taken res = es_steps t \<and> 1 \<le> es_steps t | Inl e \<Rightarrow> True)"
proof -
  obtain r t where r: "run env cfg g ctx w = (r, t)" by force
  show ?thesis
  proof (cases r)
    case (Inr res)
    from run_Inr [OF r [unfolded Inr]] obtain n where n: "start_nodes g = [n]"
      "execute_loop env cfg g (gn_id n) [] [] ctx w = (Inr res, t)" .
    have "es_steps t = er_steps_taken res"
      using n(2) finish_run_Inr(3,8)
      by (fastforce simp: execute_loop_def Let_def split_beta split: option.splits)
    then show ?thesis using execute_loop_Inr(2,6,7) [OF n(2)] r Inr by (cases "trace t") simp_all
  next
    case (Inl e)
    show ?thesis
    proof (cases "\<exists>n. start_nodes g = [n]")
      case True
      then obtain n where n: "start_nodes g = [n]" by blast
      then have "execute_loop env cfg g (gn_id n) [] [] ctx w = (Inl e, t)" using r Inl by (simp add: run_def)
      from execute_loop_Inl [OF this start_node_exists [OF n]] show ?thesis by (simp add: r Inl)
    next
      case False
      then have "t = initial_error_state ctx w"
        using r by (auto simp: run_def split: list.splits)
      then show ?thesis by (simp add: r Inl trace_def initial_error_state_def)
    qed
  qed
qed

text \<open>C3. Which errors a run can end with, and what each one says: a missing or repeated start node is
  reported exactly; the step limit was really reached; a node that is not found is, on a
  well-formed graph, a retry target that names no node; an unroutable failure is at a node of the
  graph without any retry target; goal enforcement fails only with an unsatisfied goal.  The
  engine's own \<open>unwrap_err\<close> never panics: a panic comes from the edge selection.  The variants
  \<open>Handler\<close>, \<open>RetryExhausted\<close> and \<open>Composition\<close> are never returned by a run.\<close>

theorem run_errors:
  assumes "run env cfg g ctx w = (Inl e, t)"
  shows "(case e of
      Err NoStartNode \<Rightarrow> start_nodes g = []
    | Err (MultipleStartNodes ids) \<Rightarrow> ids = map gn_id (start_nodes g) \<and> length ids > 1
    | _ \<Rightarrow> engine_error_ok env cfg g t e)"
proof (cases "\<exists>n. start_nodes g = [n]")
  case True
  then obtain n where n: "start_nodes g = [n]" by blast
  then have "execute_loop env cfg g (gn_id n) [] [] ctx w = (Inl e, t)" using assms by (simp add: run_def)
  from execute_loop_Inl [OF this start_node_exists [OF n]]
  have "engine_error_ok env cfg g t e" by blast
  moreover from this have "e \<noteq> Err NoStartNode" "\<And>ids. e \<noteq> Err (MultipleStartNodes ids)"
    by (auto simp: engine_error_ok_def)
  ultimately show ?thesis by (auto split: fault.split engine_error.split)
next
  case False
  then show ?thesis using assms by (auto simp: run_def split: list.splits)
qed

theorem run_errors_witness:
  "fst (run sample_env default_engine_config (sample_graph\<lparr>g_nodes := []\<rparr>) [] ()) = Inl (Err NoStartNode) \<and>
   start_nodes (sample_graph\<lparr>g_nodes := []\<rparr>) = []"
proof -
  let ?g = "sample_graph\<lparr>g_nodes := []\<rparr>"
  have r: "run sample_env default_engine_config ?g [] () = (Inl (Err NoStartNode), initial_error_state [] ())"
    by (simp add: run_def start_nodes_def)
  from run_errors [OF r] r show ?thesis by simp
qed

section \<open>Retries\<close>

text \<open>\<open>k\<close> executions of a node in a row, with the waits between them: all but the last one retryable.\<close>

inductive attempts :: "'w env \<Rightarrow> graph_node \<Rightarrow> context_map \<times> 'w \<Rightarrow> nat \<Rightarrow> outcome \<Rightarrow> context_map \<times> 'w \<Rightarrow> bool"
  for env n s where
  at_first: "exec_node env n s = (out, s') \<Longrightarrow> attempts env n s 1 out s'"
| at_again: "attempts env n s k out (ctx, w) \<Longrightarrow> is_retryable out \<Longrightarrow>
    exec_node env n (ctx, e_sleep env delay w') = (out', s') \<Longrightarrow> attempts env n s (k + 1) out' s'"

lemma retry_loop_attempts:
  assumes "retry_loop env n p st out ctx w = (out', st', ctx', w')"
    "attempts env n s (unat (rs_attempts st)) out (ctx, w)"
  shows "attempts env n s (unat (rs_attempts st')) out' (ctx', w') \<and>
    unat (rs_attempts st) \<le> unat (rs_attempts st') \<and>
    unat (rs_attempts st') \<le> max (unat (rs_attempts st)) (unat (rp_max_attempts p)) \<and>
    \<not> should_retry st' p out'"
  using assms
proof (induction env n p st out ctx w rule: retry_loop.induct)
  case (1 env n p st out ctx w)
  show ?case
  proof (cases "should_retry st p out")
    case True
    obtain d w1 where d: "retry_delay env p (rs_attempts st) w = (d, w1)" by force
    obtain o2 c2 w2 where x: "exec_node env n (ctx, e_sleep env d w1) = (o2, c2, w2)"
      by (metis surj_pair)
    note nx = should_retry_next(1) [OF True, of o2] should_retry_next(2) [OF True]
    have r: "is_retryable out" using True by (simp add: should_retry_def)
    have l: "retry_loop env n p (record_attempt o2 st) o2 c2 w2 = (out', st', ctx', w')"
      using "1.prems"(1) True d x by (subst (asm) retry_loop.simps) simp
    have a: "attempts env n s (unat (rs_attempts (record_attempt o2 st))) o2 (c2, w2)"
      unfolding nx(1) by (rule at_again [OF "1.prems"(2) r x])
    from "1.IH" [OF True d [symmetric] refl x [symmetric] refl refl l a] nx show ?thesis by auto
  next
    case False
    then have "out' = out \<and> st' = st \<and> ctx' = ctx \<and> w' = w"
      using "1.prems"(1) by (subst (asm) retry_loop.simps) simp
    then show ?thesis using "1.prems"(2) False by simp
  qed
qed

text \<open>C21. Retries are bounded: a node is executed at least once and at most as often as its policy allows
  (a policy of zero attempts counts as one); the returned number is the number of executions, all
  but the last of them retryable, and if the last outcome is still retryable the attempts are used
  up.\<close>

theorem execute_node_attempts:
  assumes "execute_node env n ctx w = (out, k, ctx', w')"
  shows "attempts env n (ctx, w) k out (ctx', w') \<and> 1 \<le> k \<and>
    k \<le> max 1 (unat (rp_max_attempts (policy_from_node n))) \<and>
    (is_retryable out \<longrightarrow> unat (rp_max_attempts (policy_from_node n)) \<le> k)"
proof -
  let ?p = "policy_from_node n"
  obtain o1 c1 w1 where x: "exec_node env n (ctx, w) = (o1, c1, w1)" by (metis surj_pair)
  show ?thesis
  proof (cases "is_retryable o1")
    case True
    let ?st = "record_attempt o1 retry_state_new"
    have s1: "unat (rs_attempts ?st) = 1" by (simp add: retry_state_new_def)
    obtain st where l: "retry_loop env n ?p ?st o1 c1 w1 = (out, st, ctx', w')" and k: "k = unat (rs_attempts st)"
      using assms x True by (auto simp: execute_node_def split: prod.splits)
    have "attempts env n (ctx, w) (unat (rs_attempts ?st)) o1 (c1, w1)"
      unfolding s1 using at_first [OF x] by simp
    from retry_loop_attempts [OF l this, unfolded s1] show ?thesis
      by (auto simp: k should_retry_def word_less_nat_alt)
  next
    case False
    then have "out = o1 \<and> k = 1 \<and> ctx' = c1 \<and> w' = w1" using assms x by (simp add: execute_node_def)
    then show ?thesis using at_first [OF x] False by simp
  qed
qed

definition flaky_env :: "nat env" where
  "flaky_env =
     \<lparr>e_registry = [codergen_handler (\<lambda>prompt model (c, w). (Inr (retry ''again''), c, w + 1)) None],
      e_cancelled = (\<lambda>_. False), e_stalled = (\<lambda>_. False), e_progress = id, e_clock = (\<lambda>w. (0, w)),
      e_sleep = (\<lambda>_ w. w), e_jitter = (\<lambda>w. (F_NaN, w)), e_hash = (\<lambda>_. 0), e_render = (\<lambda>_. []),
      e_debug_outcome = (\<lambda>_. []), e_outcome_json = (\<lambda>_. None), e_checkpoint_json = (\<lambda>_. None),
      e_write_checkpoint = (\<lambda>_ _ w. (True, w))\<rparr>"

theorem execute_node_attempts_witness:
  "fst (snd (execute_node flaky_env \<lparr>gn_id = ''n'', gn_type = Codergen, gn_label = Some ''do'',
     gn_attrs = [''max_retries'' \<mapsto> ANumber (f64_of_nat 2), ''retry_jitter'' \<mapsto> ABool False]\<rparr> [] 0)) = 3"
proof -
  let ?n = "\<lparr>gn_id = ''n'', gn_type = Codergen, gn_label = Some ''do'',
     gn_attrs = [''max_retries'' \<mapsto> ANumber (f64_of_nat 2), ''retry_jitter'' \<mapsto> ABool False]\<rparr>"
  obtain out k c w where e: "execute_node flaky_env ?n [] 0 = (out, k, c, w)" by (metis surj_pair)
  have p: "unat (rp_max_attempts (policy_from_node ?n)) = 3" by code_simp
  have "is_retryable (fst (execute_node flaky_env ?n [] 0))" by code_simp
  with e execute_node_attempts [OF e] p show ?thesis by simp
qed

section \<open>Deterministic failure cycles\<close>

text \<open>
  The specification of the failure table: how often a node failed with an error since its last
  success, in a history listed from the latest execution backwards.  The table is keyed by a hash;
  \<open>S\<close> holds the pairs of node and error that can occur, on which the hash has no collision.
\<close>

fun fail_count :: "(string \<times> outcome) list \<Rightarrow> string \<Rightarrow> string \<Rightarrow> nat" where
  "fail_count [] n err = 0"
| "fail_count ((n', out) # h) n err =
     (if n' \<noteq> n then fail_count h n err
      else case out of
        Failure err' _ _ \<Rightarrow> if err' = err then fail_count h n err + 1 else fail_count h n err
      | Success _ \<Rightarrow> 0
      | PartialSuccess _ \<Rightarrow> 0
      | _ \<Rightarrow> fail_count h n err)"

definition fail_table_of :: "'w env \<Rightarrow> 32 word \<Rightarrow> (string \<times> string) set \<Rightarrow> (string \<times> outcome) list \<Rightarrow>
    (64 word \<Rightarrow> (string \<times> string \<times> 32 word) option) \<Rightarrow> bool" where
  "fail_table_of env limit S h f \<longleftrightarrow>
     (\<forall>sig. sig \<notin> e_hash env ` S \<longrightarrow> f sig = None) \<and>
     (\<forall>n err. (n, err) \<in> S \<longrightarrow> f (e_hash env (n, err)) =
        (if fail_count h n err = 0 then None else Some (n, err, of_nat (fail_count h n err)))) \<and>
     (\<forall>n err. fail_count h n err < max 1 (unat limit))"

lemma fail_count_other:
  "\<not> is_failure out \<Longrightarrow> fail_count ((n', out) # h) n err = (if n' = n \<and> is_success out then 0 else fail_count h n err)"
  by (cases out) auto

lemma failure_cycle_other:
  assumes "ec_max_identical_failures cfg = Some limit" "\<not> is_failure out" "inj_on (e_hash env) S"
    and "fail_table_of env limit S h (es_failures s)"
  shows "\<exists>t. failure_cycle env cfg out s = Inr t \<and> fail_table_of env limit S ((es_current s, out) # h) (es_failures t)"
proof (cases "is_success out")
  case True
  let ?f = "\<lambda>sig. case es_failures s sig of
      Some (nid, e, c) \<Rightarrow> if nid \<noteq> es_current s then Some (nid, e, c) else None | None \<Rightarrow> None"
  have tab: "(n, err) \<in> S \<Longrightarrow> es_failures s (e_hash env (n, err)) =
        (if fail_count h n err = 0 then None else Some (n, err, of_nat (fail_count h n err)))" for n err
    using assms(4) by (simp add: fail_table_of_def)
  have "fail_table_of env limit S ((es_current s, out) # h) ?f"
    unfolding fail_table_of_def fail_count_other [OF assms(2)]
    using assms(4) True by (auto simp: fail_table_of_def tab)
  moreover have "failure_cycle env cfg out s = Inr (s\<lparr>es_failures := ?f\<rparr>)"
    using True assms(1) by (cases out) (simp_all add: failure_cycle_def)
  ultimately show ?thesis by simp
next
  case False
  then have "fail_count ((es_current s, out) # h) n err = fail_count h n err" for n err
    by (simp add: fail_count_other [OF assms(2)] del: fail_count.simps)
  moreover have "failure_cycle env cfg out s = Inr s"
    using False assms(1,2) by (cases out) (simp_all add: failure_cycle_def)
  ultimately show ?thesis using assms(4) by (simp add: fail_table_of_def del: fail_count.simps)
qed

lemma failure_cycle_failure:
  assumes "ec_max_identical_failures cfg = Some limit" "inj_on (e_hash env) S" "(es_current s, err) \<in> S"
    and "fail_table_of env limit S h (es_failures s)" "out = Failure err r nt"
  shows "case failure_cycle env cfg out s of
       Inr t \<Rightarrow> fail_table_of env limit S ((es_current s, out) # h) (es_failures t)
     | Inl (e, t) \<Rightarrow> fail_count ((es_current s, out) # h) (es_current s) err = max 1 (unat limit) \<and>
         e = DeterministicFailureCycle (es_current s) err (of_nat (max 1 (unat limit)))"
proof -
  let ?a = "es_current s" and ?k = "fail_count h (es_current s) err" and ?f = "es_failures s"
  let ?sig = "e_hash env (?a, err)"
  have lt: "fail_count h n e < max 1 (unat limit)" for n e using assms(4) by (simp add: fail_table_of_def)
  have "?f ?sig = (if ?k = 0 then None else Some (?a, err, of_nat ?k))"
    using assms(3,4) by (auto simp: fail_table_of_def)
  then have entry: "(case ?f ?sig of Some x \<Rightarrow> x | None \<Rightarrow> (?a, err, 0)) = (?a, err, of_nat ?k)" by simp
  have lim: "unat limit < 2 ^ 32" using unsigned_less [of limit] by simp
  have u: "unat (of_nat ?k + 1 :: 32 word) = ?k + 1"
    using lt [of ?a err] lim by (simp add: unat_of_nat unat_word_ariths)
  show ?thesis
  proof (cases "limit \<le> of_nat ?k + 1")
    case True
    then have "max 1 (unat limit) = ?k + 1" using u lt [of ?a err] by (simp add: word_le_nat_alt)
    then show ?thesis
      using True entry by (simp add: failure_cycle_def assms(1,5) Let_def)
  next
    case False
    then have l2: "?k + 1 < unat limit" using u by (simp add: word_le_nat_alt)
    have "fail_table_of env limit S ((?a, out) # h) (?f(?sig \<mapsto> (?a, err, of_nat ?k + 1)))"
      unfolding fail_table_of_def
    proof (intro conjI allI impI)
      fix sig n e assume "sig \<notin> e_hash env ` S"
      then show "(?f(?sig \<mapsto> (?a, err, of_nat ?k + 1))) sig = None"
        using assms(3,4) by (auto simp: fail_table_of_def)
    next
      fix n e assume p: "(n, e) \<in> S"
      then have "e_hash env (n, e) = ?sig \<longleftrightarrow> (n, e) = (?a, err)" using assms(2,3) by (simp add: inj_on_eq_iff)
      then show "(?f(?sig \<mapsto> (?a, err, of_nat ?k + 1))) (e_hash env (n, e)) =
          (if fail_count ((?a, out) # h) n e = 0 then None
           else Some (n, e, of_nat (fail_count ((?a, out) # h) n e)))"
        using p assms(4) by (auto simp: assms(5) fail_table_of_def)
    next
      fix n e show "fail_count ((?a, out) # h) n e < max 1 (unat limit)"
        using lt [of n e] l2 by (auto simp: assms(5))
    qed
    then show ?thesis using False entry by (simp add: failure_cycle_def assms(1,5) Let_def)
  qed
qed

text \<open>C4. The failure table refines its specification, as long as the hash does not confuse two pairs of
  node and error that occur: it starts as the table of the empty history; recording an execution
  gives the table of the longer history, or aborts the run, and it aborts exactly when the node has
  now failed with the same error \<open>limit\<close> times since its last success (once, for a limit of zero),
  naming that node, error and count.  The 32-bit counter never wraps.\<close>

theorem failure_cycle_refines:
  assumes "ec_max_identical_failures cfg = Some limit" "inj_on (e_hash env) S"
    and "\<And>err r nt. out = Failure err r nt \<Longrightarrow> (es_current s, err) \<in> S"
    and "fail_table_of env limit S h (es_failures s)"
  shows "fail_table_of env limit S [] Map.empty \<and>
    (case failure_cycle env cfg out s of
       Inr t \<Rightarrow> fail_table_of env limit S ((es_current s, out) # h) (es_failures t)
     | Inl (e, t) \<Rightarrow> (\<exists>err r nt. out = Failure err r nt \<and>
         fail_count ((es_current s, out) # h) (es_current s) err = max 1 (unat limit) \<and>
         e = DeterministicFailureCycle (es_current s) err (of_nat (max 1 (unat limit)))))"
proof -
  have "fail_table_of env limit S [] Map.empty" by (simp add: fail_table_of_def)
  moreover have "case failure_cycle env cfg out s of
       Inr t \<Rightarrow> fail_table_of env limit S ((es_current s, out) # h) (es_failures t)
     | Inl (e, t) \<Rightarrow> (\<exists>err r nt. out = Failure err r nt \<and>
         fail_count ((es_current s, out) # h) (es_current s) err = max 1 (unat limit) \<and>
         e = DeterministicFailureCycle (es_current s) err (of_nat (max 1 (unat limit))))"
  proof (cases "is_failure out")
    case True
    then obtain err r nt where o: "out = Failure err r nt" by (cases out) auto
    from failure_cycle_failure [OF assms(1,2) assms(3) [OF o] assms(4) o] o show ?thesis
      by (auto split: sum.splits)
  next
    case False
    with failure_cycle_other [OF assms(1) _ assms(2,4), of out] show ?thesis by auto
  qed
  ultimately show ?thesis by blast
qed

theorem failure_cycle_refines_witness:
  "fail_table_of sample_env 3 {(''s'', ''boom'')} [(''s'', Failure ''boom'' False None)]
     [0 \<mapsto> (''s'', ''boom'', 1)]"
proof -
  let ?s = "(snd sample_result)\<lparr>es_current := ''s'', es_failures := Map.empty\<rparr>"
  have t: "fail_table_of sample_env 3 {(''s'', ''boom'')} [] (es_failures ?s)" by (simp add: fail_table_of_def)
  have c: "ec_max_identical_failures default_engine_config = Some 3" by (simp add: default_engine_config_def)
  have f: "failure_cycle sample_env default_engine_config (Failure ''boom'' False None) ?s =
      Inr (?s\<lparr>es_failures := [0 \<mapsto> (''s'', ''boom'', 1)]\<rparr>)"
    by (simp add: failure_cycle_def c sample_env_def Let_def word_le_nat_alt)
  show ?thesis
    using failure_cycle_refines [OF c _ _ t, of "Failure ''boom'' False None"] unfolding f by simp
qed

section \<open>Checkpoints and resuming\<close>

lemma fold_mark_visited:
  "cp_visited_nodes (fold mark_visited xs cp) = cp_visited_nodes cp @ fresh_ids (set (cp_visited_nodes cp)) xs \<and>
   cp_version (fold mark_visited xs cp) = cp_version cp \<and>
   cp_current_node (fold mark_visited xs cp) = cp_current_node cp \<and>
   cp_node_outcomes (fold mark_visited xs cp) = cp_node_outcomes cp \<and>
   cp_context_snapshot (fold mark_visited xs cp) = cp_context_snapshot cp"
  by (induction xs arbitrary: cp) (auto simp: mark_visited_def)

lemma fold_add_outcome:
  "cp_node_outcomes (fold (\<lambda>(i, out). add_outcome i out) m cp) = fold (\<lambda>(i, out). hm_insert i out) m (cp_node_outcomes cp) \<and>
   cp_visited_nodes (fold (\<lambda>(i, out). add_outcome i out) m cp) = cp_visited_nodes cp \<and>
   cp_version (fold (\<lambda>(i, out). add_outcome i out) m cp) = cp_version cp \<and>
   cp_current_node (fold (\<lambda>(i, out). add_outcome i out) m cp) = cp_current_node cp \<and>
   cp_context_snapshot (fold (\<lambda>(i, out). add_outcome i out) m cp) = cp_context_snapshot cp"
  by (induction m arbitrary: cp) (auto simp: add_outcome_def)

lemma fresh_ids_distinct: "distinct xs \<Longrightarrow> S \<inter> set xs = {} \<Longrightarrow> fresh_ids S xs = xs"
  by (induction S xs rule: fresh_ids.induct) auto

lemma map_of_rev_wf: "hm_wf m \<Longrightarrow> map_of (rev m) = map_of m"
  by (simp add: hm_wf_def distinct_map_of_rev)

lemma build_checkpoint_spec:
  assumes "distinct (es_visited s)" "hm_wf (es_outcomes s)"
  shows "cp_visited_nodes (build_checkpoint now g cur s) = es_visited s"
    "cp_current_node (build_checkpoint now g cur s) = cur"
    "cp_context_snapshot (build_checkpoint now g cur s) = es_context s"
    "hm_get (cp_node_outcomes (build_checkpoint now g cur s)) = hm_get (es_outcomes s)"
    "validate_checkpoint (build_checkpoint now g cur s) = Inr () \<longleftrightarrow> cur \<in> set (es_visited s)"
proof -
  show v: "cp_visited_nodes (build_checkpoint now g cur s) = es_visited s"
    and c: "cp_current_node (build_checkpoint now g cur s) = cur"
    and "cp_context_snapshot (build_checkpoint now g cur s) = es_context s"
    using assms(1)
    by (simp_all add: build_checkpoint_def fold_add_outcome fold_mark_visited checkpoint_new_def fresh_ids_distinct snapshot_def)
  show "hm_get (cp_node_outcomes (build_checkpoint now g cur s)) = hm_get (es_outcomes s)"
  proof
    fix k
    have "hm_get (cp_node_outcomes (build_checkpoint now g cur s)) k =
        (case map_of (rev (es_outcomes s)) k of Some v \<Rightarrow> Some v | None \<Rightarrow> None)"
      by (simp add: build_checkpoint_def fold_add_outcome fold_mark_visited checkpoint_new_def hm.get_fold_put cong: option.case_cong)
    then show "hm_get (cp_node_outcomes (build_checkpoint now g cur s)) k = hm_get (es_outcomes s) k"
      by (simp add: map_of_rev_wf [OF assms(2)] hm_get_def split: option.split)
  qed
  have "cp_version (build_checkpoint now g cur s) = 1"
    by (simp add: build_checkpoint_def fold_add_outcome fold_mark_visited checkpoint_new_def)
  then show "validate_checkpoint (build_checkpoint now g cur s) = Inr () \<longleftrightarrow> cur \<in> set (es_visited s)"
    by (simp add: validate_checkpoint_def from_u32_def v c)
qed

lemma finish_run_checkpoint:
  fixes s :: "'w engine_state"
  assumes "finish_run env cfg g start s = (Inr res, t)" "er_checkpoint res = Some cp"
  shows "\<exists>(s' :: 'w engine_state) now. cp = build_checkpoint now g (if es_visited s = [] then [] else last (es_visited s)) s' \<and>
    es_visited s' = es_visited s \<and> es_outcomes s' = es_outcomes s \<and> es_context s' = es_context s"
proof -
  obtain u where "enforce_outcomes (goals_from_graph g) (es_outcomes s) = Inr u"
    using assms(1) by (cases "enforce_outcomes (goals_from_graph g) (es_outcomes s)") (auto simp: finish_run_def)
  moreover define s1 where "s1 = emit env (PipelineCompleted (final_outcome s) (length (es_visited s))
    (elapsed_ms start (fst (e_clock env (es_world s))))) (s\<lparr>es_world := snd (e_clock env (es_world s))\<rparr>)"
  ultimately have "er_checkpoint res = fst (final_checkpoint env cfg g s1)"
    using assms(1) by (auto simp: finish_run_def Let_def split_beta)
  moreover have "es_visited s1 = es_visited s" "es_outcomes s1 = es_outcomes s" "es_context s1 = es_context s"
    by (simp_all add: s1_def)
  ultimately show ?thesis using assms(2)
    by (intro exI [of _ s1] exI [of _ "fst (e_clock env (es_world s1))"])
      (cases "ec_enable_checkpointing cfg"; simp add: final_checkpoint_def Let_def split_beta)
qed

lemma execute_loop_checkpoint:
  fixes env :: "'w env"
  assumes "execute_loop env cfg g a v m ctx w = (Inr res, t)" "er_checkpoint res = Some cp"
  shows "\<exists>(s :: 'w engine_state) now. cp = build_checkpoint now g (last (er_visited_nodes res)) s \<and> es_visited s = er_visited_nodes res \<and>
    es_outcomes s = er_node_outcomes res \<and> es_context s = er_final_context res"
proof -
  have ne: "er_visited_nodes res \<noteq> []"
    using execute_loop_Inr(2,8) [OF assms(1)] fresh_ids_props [of "set v" "trace t"] by (cases v) auto
  obtain s start where f: "finish_run env cfg g start s = (Inr res, t)"
    using assms(1) by (auto simp: execute_loop_def Let_def split_beta split: option.splits)
  from finish_run_checkpoint [OF f assms(2)] show ?thesis
    using ne by (simp add: finish_run_Inr(1,2,4) [OF f])
qed

text \<open>C26. The checkpoint of a finished run passes its own validation and loses nothing: it holds the visited
  nodes, the outcomes and the context of the result.  Its current node is the one that was
  executed for the first time last, which in a run with loops need not be the node where the run
  ended.\<close>

theorem run_checkpoint_valid:
  fixes env :: "'w env"
  assumes "run env cfg g ctx w = (Inr res, t)" "er_checkpoint res = Some cp"
  shows "validate_checkpoint cp = Inr () \<and> cp_visited_nodes cp = er_visited_nodes res \<and>
    hm_get (cp_node_outcomes cp) = hm_get (er_node_outcomes res) \<and>
    cp_context_snapshot cp = er_final_context res \<and> cp_current_node cp = last (fresh_ids {} (trace t))"
proof -
  from run_Inr [OF assms(1)] obtain n where n: "start_nodes g = [n]"
    "execute_loop env cfg g (gn_id n) [] [] ctx w = (Inr res, t)" .
  note e = execute_loop_Inr [OF n(2)]
  have vis: "er_visited_nodes res = fresh_ids {} (trace t)" using e(8) by simp
  have d: "distinct (er_visited_nodes res)" "er_visited_nodes res \<noteq> []"
    using fresh_ids_props [of "{}" "trace t"] e(2) by (auto simp: vis)
  obtain s :: "'w engine_state" and now where s: "cp = build_checkpoint now g (last (er_visited_nodes res)) s"
    "es_visited s = er_visited_nodes res" "es_outcomes s = er_node_outcomes res" "es_context s = er_final_context res"
    using execute_loop_checkpoint [OF n(2) assms(2)] by blast
  have "hm_wf (es_outcomes s)" using e(12) s(3) by simp
  with build_checkpoint_spec [of s now g "last (er_visited_nodes res)"] d s show ?thesis by (simp add: vis)
qed

theorem run_checkpoint_valid_witness:
  "validate_checkpoint (the (er_checkpoint (projr (fst sample_result)))) = Inr ()"
proof -
  obtain res t where r: "run sample_env default_engine_config sample_graph [] () = (Inr res, t)"
    using sample_visits unfolding sample_result_def by (auto split: prod.splits sum.splits)
  have "case run sample_env default_engine_config sample_graph [] () of
      (Inr res, t) \<Rightarrow> (case er_checkpoint res of Some _ \<Rightarrow> True | None \<Rightarrow> False) | _ \<Rightarrow> False" by code_simp
  then obtain cp where cp: "er_checkpoint res = Some cp" using r by (auto split: option.splits)
  from run_checkpoint_valid [OF r cp] show ?thesis by (simp add: sample_result_def r cp)
qed

text \<open>C25. A resumed run executes the checkpoint's current node again, first; it keeps the checkpoint's visited
  nodes and appends the newly executed ones in order; outcomes exist for the checkpoint's and the
  executed nodes, and success still means that every goal has a successful outcome.  It has its
  own step budget.\<close>

theorem resume_spec:
  assumes "run_from_checkpoint env cfg g cp ctx w = (Inr res, t)"
  shows "trace t \<noteq> [] \<and> hd (trace t) = cp_current_node cp \<and> successively (moves g) (trace t) \<and>
    er_visited_nodes res = cp_visited_nodes cp @ fresh_ids (set (cp_visited_nodes cp)) (trace t) \<and>
    (\<forall>k. hm_get (er_node_outcomes res) k \<noteq> None \<longleftrightarrow>
       hm_get (cp_node_outcomes cp) k \<noteq> None \<or> k \<in> set (trace t)) \<and>
    list_all (goal_satisfied (er_node_outcomes res)) (goals_from_graph g) \<and>
    er_steps_taken res = length (trace t) \<and> er_steps_taken res \<le> ec_max_steps cfg"
  using execute_loop_Inr [OF assms [unfolded run_from_checkpoint_def]] by simp

theorem resume_spec_witness:
  "hd (trace (snd (run_from_checkpoint sample_env default_engine_config sample_graph
     (checkpoint_new 0 ''p'' ''w'' []) [] ()))) = ''w''"
proof -
  let ?r = "run_from_checkpoint sample_env default_engine_config sample_graph (checkpoint_new 0 ''p'' ''w'' []) [] ()"
  have "is_ok (fst ?r)" by code_simp
  then obtain res where "fst ?r = Inr res" by (auto simp: is_ok_iff)
  then have r: "?r = (Inr res, snd ?r)" by (metis prod.collapse)
  have "cp_current_node (checkpoint_new 0 ''p'' ''w'' []) = ''w''" by (simp add: checkpoint_new_def)
  with resume_spec [OF r] show ?thesis by simp
qed

section \<open>The event log of a run\<close>

lemma loop_total_increment [simp]: "loop_total (loop_increment k m) = loop_total m + 1"
  by (induction k m rule: loop_increment.induct) (auto simp: loop_total_def)

text \<open>What a piece of the run adds to the log: the nodes it starts, one event per loop restart, and
  neither a pipeline start nor a pipeline completion.\<close>

definition adds :: "'w engine_state \<Rightarrow> string list \<Rightarrow> 'w engine_state \<Rightarrow> bool" where
  "adds s xs t \<longleftrightarrow>
     (\<exists>l. es_events t = es_events s @ l \<and> started_nodes l = xs \<and> find_map completed_event l = None \<and>
        loop_total (es_restarts t) = loop_total (es_restarts s) + length (filter is_loop_restarted l))"

lemma adds_trans: "adds s xs t \<Longrightarrow> adds t ys u \<Longrightarrow> adds s (xs @ ys) u"
  unfolding adds_def
proof (elim exE conjE, intro exI conjI)
  fix l k
  assume "es_events t = es_events s @ l" "es_events u = es_events t @ k"
  then show "es_events u = es_events s @ l @ k" by simp
qed (simp_all add: find_map_append)

lemma adds_refl: "es_events t = es_events s \<Longrightarrow> es_restarts t = es_restarts s \<Longrightarrow> adds s [] t"
  by (simp add: adds_def)

lemma adds_emit:
  assumes "es_events u = es_events s" "es_restarts u = es_restarts s"
    "\<And>n. node_started_event (ev n) = None" "\<And>n. completed_event (ev n) = None" "\<And>n. \<not> is_loop_restarted (ev n)"
  shows "adds s [] (emit env ev u)"
  unfolding adds_def using assms by (intro exI [of _ "[ev (fst (e_clock env (es_world u)))]"]) (simp add: started_nodes_other)

lemma run_node_adds:
  assumes "run_node env n s = (out, t)"
  shows "adds s [es_current s] t"
proof -
  have "\<exists>a b c d e. es_events t = es_events s @ [NodeStarted (es_current s) a b,
      if is_failure out then NodeFailed (es_current s) c d e else NodeCompleted (es_current s) out d e]"
    using assms by (cases "is_failure out") (auto simp: run_node_def record_outcome_def Let_def split_beta)
  then obtain a b c d e where "es_events t = es_events s @ [NodeStarted (es_current s) a b,
      if is_failure out then NodeFailed (es_current s) c d e else NodeCompleted (es_current s) out d e]" by blast
  then show ?thesis
    unfolding adds_def using run_node_fields(5) [OF assms]
    by (cases "is_failure out") (simp_all add: started_nodes_other)
qed

lemma auto_save_adds: "adds s [] (auto_save env cfg g s)"
proof -
  have e: "adds s [] (emit env (CheckpointCreated x) (s\<lparr>es_world := w\<rparr>))" for x w
    by (rule adds_emit) simp_all
  show ?thesis
    by (auto simp: auto_save_def Let_def split_beta intro: adds_refl e split: option.split bool.split)
qed

lemma take_edge_adds: "adds s [] (take_edge env cfg e s)"
proof -
  let ?s1 = "emit env (EdgeTraversed (ge_from e) (ge_to e) (ge_label e)) s"
  have 1: "adds s [] ?s1" by (rule adds_emit) simp_all
  have 2: "adds ?s1 [] (restart_edge env e ?s1)"
  proof (cases "ge_loop_restart e")
    case True
    then show ?thesis unfolding adds_def
      by (intro exI [of _ "drop (length (es_events ?s1)) (es_events (restart_edge env e ?s1))"])
        (simp add: restart_edge_def Let_def started_nodes_other)
  qed (simp add: restart_edge_def adds_refl)
  have 3: "adds t [] ((carry_context cfg e t)\<lparr>es_current := ge_to e\<rparr>)" for t :: "'a engine_state"
    by (rule adds_refl) (auto simp: carry_context_def split: option.split)
  from adds_trans [OF adds_trans [OF 1 2] 3 [of "restart_edge env e ?s1"]] show ?thesis
    by (simp add: take_edge_def)
qed

lemma engine_step_adds:
  assumes "engine_step env cfg g s = r" "r = Next t \<or> r = Finished t"
  shows "adds s [es_current s] t"
proof -
  have nf: "\<And>e u. r \<noteq> Failed e u" using assms(2) by auto
  from engine_step_parts [OF assms(1) nf] obtain n out s1 s2 where
    r: "run_node env n s = (out, s1)" and f: "failure_cycle env cfg out s1 = Inr s2" and
    k: "r = (if gn_type n = Exit then exit_step g (auto_save env cfg g s2)
          else route env cfg g n out (auto_save env cfg g s2))" by metis
  let ?s3 = "auto_save env cfg g s2"
  have a: "adds s [es_current s] ?s3"
    using adds_trans [OF adds_trans [OF run_node_adds [OF r] adds_refl] auto_save_adds, of s2 env cfg g]
      failure_cycle_fields [OF f] by simp
  have "adds ?s3 [] t"
  proof (cases "gn_type n = Exit")
    case True
    with k assms(2) have "exit_step g ?s3 = Next t \<or> exit_step g ?s3 = Finished t" by auto
    then show ?thesis
      by (intro adds_refl)
        (auto simp: exit_step_def Let_def split: sum.splits option.splits if_splits)
  next
    case False
    define u where "u = ?s3\<lparr>es_context := context_set ''outcome'' (JString (outcome_label out)) (es_context ?s3)\<rparr>"
    have u: "adds ?s3 [] u" by (rule adds_refl) (simp_all add: u_def)
    from False k assms(2) have "route env cfg g n out ?s3 = Next t \<or> route env cfg g n out ?s3 = Finished t" by auto
    then have "(\<exists>e. t = take_edge env cfg e u) \<or> (\<exists>x. t = u\<lparr>es_current := x\<rparr>) \<or> t = u"
      unfolding route_def Let_def u_def [symmetric]
      by (auto simp: no_edge_def Let_def split: sum.splits fault.splits option.splits if_splits)
    then have "adds u [] t" using take_edge_adds by (auto intro: adds_refl)
    from adds_trans [OF u this] show ?thesis by simp
  qed
  from adds_trans [OF a this] show ?thesis by simp
qed

lemma execute_loop_log:
  fixes env :: "'w env"
  assumes "execute_loop env cfg g a v m ctx w = (Inr res, t)"
  shows "\<exists>ts k out ms now. es_events t = PipelineStarted (graph_name g) ts # k @
      [PipelineCompleted out (length (er_visited_nodes res)) ms now] \<and>
    started_nodes k = trace t \<and> find_map completed_event k = None \<and>
    length (filter is_loop_restarted k) = loop_total (er_loop_restarts res)"
proof -
  define s0 where "s0 = emit env (PipelineStarted (graph_name g))
    \<lparr>es_current = a, es_visited = v, es_outcomes = m, es_context = ctx, es_steps = 0, es_restarts = [],
     es_failures = Map.empty, es_timings = [], es_artifacts = ec_artifact_store cfg, es_events = [],
     es_world = snd (e_clock env w)\<rparr>"
  obtain err s1 where l: "engine_loop env cfg g s0 = (err, s1)" by force
  with assms have "err = None" and f: "finish_run env cfg g (fst (e_clock env w)) s1 = (Inr res, t)"
    by (auto simp: execute_loop_def Let_def split_beta s0_def split: option.splits)
  define I where "I s \<longleftrightarrow> adds s0 (trace s) s" for s
  have i0: "I s0" by (simp add: I_def s0_def trace_def adds_refl)
  have tr: "trace s' = trace s @ [es_current s]"
    if "engine_step env cfg g s = Next s' \<or> engine_step env cfg g s = Finished s'" for s s'
    using that engine_step_Next(3) engine_step_Finished(3) by (fastforce simp: records_run_def trace_def)
  have step: "I s'" if "I s" "engine_step env cfg g s = Next s' \<or> engine_step env cfg g s = Finished s'" for s s'
    using adds_trans [of s0 "trace s" s "[es_current s]" s'] engine_step_adds [OF refl that(2)] that(1) tr [OF that(2)]
    by (simp add: I_def)
  from engine_loop_invariant [where I = I, OF i0 _ l] step have "I s1"
    using \<open>err = None\<close> by (metis option.case(1))
  moreover note fr = finish_run_Inr [OF f]
  moreover have "trace t = trace s1" using fr(7) by (simp add: trace_def)
  ultimately show ?thesis by (fastforce simp: I_def adds_def s0_def loop_total_def)
qed

text \<open>C24. The log of a successful run tells the same story as its result: its summary exists, lists the
  executed nodes in order, and agrees on the graph, the number of visited nodes, the loop restarts
  and the number of executions.\<close>

theorem run_log_agrees:
  fixes env :: "'w env"
  assumes "run env cfg g ctx w = (Inr res, t)"
  shows "\<exists>px. summary (es_events t) = Some px \<and> px_graph_name px = graph_name g \<and>
    map nx_node_id (px_node_summaries px) = trace t \<and>
    px_total_nodes px = length (er_visited_nodes res) \<and>
    px_loop_restarts px = loop_total (er_loop_restarts res) \<and>
    length (px_node_summaries px) = ps_total_nodes_visited (er_stats res)"
proof -
  from run_Inr [OF assms] obtain n where "start_nodes g = [n]" and n: "execute_loop env cfg g (gn_id n) [] [] ctx w = (Inr res, t)" .
  from execute_loop_log [OF n] obtain ts k out ms now where
    e: "es_events t = PipelineStarted (graph_name g) ts # k @ [PipelineCompleted out (length (er_visited_nodes res)) ms now]"
    and k: "started_nodes k = trace t" "find_map completed_event k = None"
      "length (filter is_loop_restarted k) = loop_total (er_loop_restarts res)" by blast
  have st: "started_nodes (es_events t) = trace t"
    by (simp add: e started_nodes_other k(1))
  have "find_map started_event (es_events t) = Some (graph_name g, ts)" by (simp add: e)
  moreover have "find_map completed_event (es_events t) = Some (out, length (er_visited_nodes res), ms, now)"
    by (simp add: e find_map_append k(2))
  ultimately obtain px where px: "summary (es_events t) = Some px" "px_graph_name px = graph_name g"
    "px_total_nodes px = length (er_visited_nodes res)"
    by (simp add: summary_def Let_def)
  moreover have "map nx_node_id (px_node_summaries px) = trace t" "px_loop_restarts px = length (filter is_loop_restarted (es_events t))"
    using summary_spec [of "es_events t"] px(1) st by simp_all
  moreover have "length (filter is_loop_restarted (es_events t)) = loop_total (er_loop_restarts res)"
    by (simp add: e k(3))
  moreover have "ps_total_nodes_visited (er_stats res) = length (trace t)"
  proof -
    obtain s1 start where f: "finish_run env cfg g start s1 = (Inr res, t)"
      using n by (auto simp: execute_loop_def Let_def split_beta split: option.splits)
    show ?thesis using finish_run_Inr(7,11) [OF f] by (simp add: trace_def)
  qed
  ultimately show ?thesis by (metis length_map)
qed

theorem run_log_agrees_witness:
  "map nx_node_id (px_node_summaries (the (summary (es_events (snd sample_result))))) = [''s'', ''w'', ''x'']"
proof -
  obtain res t where r: "run sample_env default_engine_config sample_graph [] () = (Inr res, t)"
    using sample_visits unfolding sample_result_def by (auto split: prod.splits sum.splits)
  have "case run sample_env default_engine_config sample_graph [] () of (_, t) \<Rightarrow> trace t = [''s'', ''w'', ''x'']"
    by code_simp
  with r run_log_agrees [OF r] show ?thesis by (auto simp: sample_result_def)
qed

section \<open>The context across an edge\<close>

lemma clear_prefixed_get:
  "hm_get (clear_prefixed p c) k = (if starts_with k p then None else hm_get c k)"
proof -
  have "context_get (clear_prefixed p c) k =
      (if k \<in> set (filter (\<lambda>k. starts_with k p) (context_keys c)) then None else context_get c k)"
    unfolding clear_prefixed_def by (rule ctx.get_fold_del)
  then show ?thesis using hm_keys_dom [of k c] by (auto simp: context_get_def context_keys_def)
qed

lemma replace_context_get:
  assumes "hm_wf new"
  shows "hm_get (replace_context new c) k = hm_get new k"
proof -
  let ?e = "fold (\<lambda>k c. snd (context_remove k c)) (context_keys c) c"
  have "context_get ?e k = (if k \<in> set (context_keys c) then None else context_get c k)"
    by (rule ctx.get_fold_del)
  then have "context_get ?e k = None"
    using hm_keys_dom [of k c] by (auto simp: context_get_def context_keys_def split: if_splits)
  then have "context_get (replace_context new c) k = map_of (rev new) k"
    unfolding replace_context_def ctx.get_fold_put by (simp split: option.split)
  then show ?thesis by (simp add: map_of_rev_wf [OF assms] context_get_def hm_get_def)
qed

lemma process_wf: "hm_wf c \<Longrightarrow> hm_wf (process fc from to c)"
  by (cases "mode_for_edge fc from to")
    (auto simp: process_def clone_with_marker_def context_set_def snapshot_def hm_wf_def [of "filter _ _"]
      hm_wf_def [of c] distinct_map_filter)

lemma hm_wf_fold_remove: "hm_wf c \<Longrightarrow> hm_wf (fold (\<lambda>k c. snd (context_remove k c)) ks c)"
  by (induction ks arbitrary: c) (auto simp: context_remove_def)

text \<open>What an edge does to the context: a \<open>loop_restart\<close> edge first removes every key that begins with
  the id of the node it leaves and an underscore; then, when fidelity is configured, the context is
  filtered by the mode of the edge and nothing else remains of the old one.\<close>

theorem take_edge_context:
  assumes "hm_wf (es_context s)"
  shows "hm_get (es_context (take_edge env cfg e s)) k =
    (let v = (if ge_loop_restart e \<and> starts_with k (ge_from e @ ''_'') then None else hm_get (es_context s) k) in
     case ec_fidelity_config cfg of
       None \<Rightarrow> v
     | Some fc \<Rightarrow>
         (case mode_for_edge fc (ge_from e) (ge_to e) of
            Full \<Rightarrow> v
          | Reset \<Rightarrow> None
          | ResultOnly \<Rightarrow> if starts_with k ''_'' then v else None
          | m \<Rightarrow> if k = ''_fidelity_mode'' then Some (JString (display_mode m)) else v))"
proof -
  define s1 where "s1 = restart_edge env e (emit env (EdgeTraversed (ge_from e) (ge_to e) (ge_label e)) s)"
  have g: "hm_get (es_context s1) k =
      (if ge_loop_restart e \<and> starts_with k (ge_from e @ ''_'') then None else hm_get (es_context s) k)"
    by (simp add: s1_def restart_edge_def Let_def clear_prefixed_get)
  have w: "hm_wf (es_context s1)"
    using assms by (simp add: s1_def restart_edge_def Let_def clear_prefixed_def hm_wf_fold_remove)
  show ?thesis
  proof (cases "ec_fidelity_config cfg")
    case None
    then show ?thesis using g by (simp add: take_edge_def carry_context_def s1_def)
  next
    case (Some fc)
    have "hm_get (es_context (take_edge env cfg e s)) k = hm_get (process fc (ge_from e) (ge_to e) (es_context s1)) k"
      using replace_context_get [OF process_wf [OF w], of fc "ge_from e" "ge_to e" "es_context s1" k]
      by (simp add: take_edge_def carry_context_def s1_def [symmetric] Some snapshot_def)
    then show ?thesis unfolding process_get g by (simp add: Some Let_def)
  qed
qed

theorem take_edge_context_witness:
  "hm_get (es_context (take_edge sample_env default_engine_config
     (hd (tl (g_edges sample_graph))) ((snd sample_result)\<lparr>es_context := [(''w_log'', JNull), (''k'', JNull)]\<rparr>))) ''w_log'' = None"
proof -
  let ?s = "(snd sample_result)\<lparr>es_context := [(''w_log'', JNull), (''k'', JNull)]\<rparr>"
  have "hm_wf (es_context ?s)" by (simp add: hm_wf_def)
  from take_edge_context [OF this, of sample_env default_engine_config "hd (tl (g_edges sample_graph))" "''w_log''"]
  show ?thesis by (simp add: default_engine_config_def sample_graph_def starts_with_def)
qed

end
