(* ===== verification/Lint.thy ===== *)
theory Lint
  imports Validation
begin

text \<open>
  The rule-based linter, \<open>lint.rs\<close>: severities, diagnostics, reports, the runner and the seven
  built-in rules.  A rule is a record of its name, its description and its check, so custom rules
  are rules like the built-in ones.
\<close>

section \<open>Severities, diagnostics, reports\<close>

datatype lint_severity = LInfo | LWarning | LError

text \<open>The derived \<open>Ord\<close>: the order of declaration.\<close>

fun severity_rank :: "lint_severity \<Rightarrow> nat" where
  "severity_rank LInfo = 0"
| "severity_rank LWarning = 1"
| "severity_rank LError = 2"

lemma severity_rank_inject: "severity_rank a = severity_rank b \<longleftrightarrow> a = b"
  by (cases a; cases b) auto

instantiation lint_severity :: linorder
begin

definition less_eq_lint_severity :: "lint_severity \<Rightarrow> lint_severity \<Rightarrow> bool" where
  "a \<le> b \<longleftrightarrow> severity_rank a \<le> severity_rank b"

definition less_lint_severity :: "lint_severity \<Rightarrow> lint_severity \<Rightarrow> bool" where
  "a < b \<longleftrightarrow> severity_rank a < severity_rank b"

instance
  by standard (auto simp: less_eq_lint_severity_def less_lint_severity_def severity_rank_inject)

end

record diagnostic =
  dg_severity :: lint_severity
  dg_code :: string
  dg_message :: string
  dg_node_id :: "string option"
  dg_suggestion :: "string option"

record lint_rule =
  lr_name :: string
  lr_description :: string
  lr_check :: "graph \<Rightarrow> diagnostic list"

type_synonym lint_report = "diagnostic list"

definition report_errors :: "lint_report \<Rightarrow> diagnostic list" where
  "report_errors r = filter (\<lambda>d. dg_severity d = LError) r"

definition report_warnings :: "lint_report \<Rightarrow> diagnostic list" where
  "report_warnings r = filter (\<lambda>d. dg_severity d = LWarning) r"

definition has_errors :: "lint_report \<Rightarrow> bool" where
  "has_errors r \<longleftrightarrow> list_ex (\<lambda>d. dg_severity d = LError) r"

definition is_clean :: "lint_report \<Rightarrow> bool" where
  "is_clean r \<longleftrightarrow> \<not> list_ex (\<lambda>d. dg_severity d = LError \<or> dg_severity d = LWarning) r"

section \<open>The built-in rules\<close>

definition no_start_node_rule :: lint_rule where
  "no_start_node_rule =
     \<lparr>lr_name = ''no_start_node'', lr_description = ''Checks that the graph has at least one Start-type node'',
      lr_check = (\<lambda>g.
        if \<not> list_ex (\<lambda>n. gn_type n = Start) (g_nodes g)
        then [\<lparr>dg_severity = LError, dg_code = ''E001'', dg_message = ''Graph has no start node'',
               dg_node_id = None,
               dg_suggestion = Some (''Add a node with shape='' @ [dquote] @ ''circle'' @ [dquote] @
                 '' or shape='' @ [dquote] @ ''point'' @ [dquote] @ '' to serve as the entry point'')\<rparr>]
        else [])\<rparr>"

definition multiple_start_nodes_rule :: lint_rule where
  "multiple_start_nodes_rule =
     \<lparr>lr_name = ''multiple_start_nodes'', lr_description = ''Checks that the graph has at most one Start-type node'',
      lr_check = (\<lambda>g.
        let start_ids = map gn_id (filter (\<lambda>n. gn_type n = Start) (g_nodes g)) in
        if length start_ids > 1
        then [\<lparr>dg_severity = LError, dg_code = ''E002'',
               dg_message = ''Graph has multiple start nodes: '' @ join '', '' (map quote1 start_ids),
               dg_node_id = None,
               dg_suggestion = Some ''Remove extra start nodes so the graph has exactly one entry point''\<rparr>]
        else [])\<rparr>"

definition no_exit_node_rule :: lint_rule where
  "no_exit_node_rule =
     \<lparr>lr_name = ''no_exit_node'', lr_description = ''Checks that the graph has at least one Exit-type node'',
      lr_check = (\<lambda>g.
        if \<not> list_ex (\<lambda>n. gn_type n = Exit) (g_nodes g)
        then [\<lparr>dg_severity = LError, dg_code = ''E003'', dg_message = ''Graph has no exit node'',
               dg_node_id = None,
               dg_suggestion = Some (''Add a node with shape='' @ [dquote] @ ''doublecircle'' @ [dquote] @
                 '' to serve as the exit point'')\<rparr>]
        else [])\<rparr>"

definition unreachable_diagnostic :: "graph_node \<Rightarrow> diagnostic" where
  "unreachable_diagnostic n =
     \<lparr>dg_severity = LWarning, dg_code = ''W001'',
      dg_message = ''Node '' @ quote1 (gn_id n) @ '' has no incoming edges and is unreachable'',
      dg_node_id = Some (gn_id n),
      dg_suggestion = Some (''Add an edge leading to '' @ quote1 (gn_id n) @ '' or remove it if unused'')\<rparr>"

definition unreachable_node_rule :: lint_rule where
  "unreachable_node_rule =
     \<lparr>lr_name = ''unreachable_node'', lr_description = ''Checks for non-start nodes that have no incoming edges'',
      lr_check = (\<lambda>g.
        let targets_with_incoming = set (map ge_to (g_edges g)) in
        map unreachable_diagnostic
          (filter (\<lambda>n. gn_id n \<notin> targets_with_incoming) (filter (\<lambda>n. gn_type n \<noteq> Start) (g_nodes g))))\<rparr>"

definition dead_end_diagnostic :: "graph_node \<Rightarrow> diagnostic" where
  "dead_end_diagnostic n =
     \<lparr>dg_severity = LWarning, dg_code = ''W002'',
      dg_message = ''Non-exit node '' @ quote1 (gn_id n) @ '' has no outgoing edges (dead end)'',
      dg_node_id = Some (gn_id n),
      dg_suggestion = Some (''Add an outgoing edge from '' @ quote1 (gn_id n) @ '' or change it to an exit node'')\<rparr>"

definition dead_end_node_rule :: lint_rule where
  "dead_end_node_rule =
     \<lparr>lr_name = ''dead_end_node'', lr_description = ''Checks for non-exit nodes that have no outgoing edges'',
      lr_check = (\<lambda>g.
        let sources_with_outgoing = set (map ge_from (g_edges g)) in
        map dead_end_diagnostic
          (filter (\<lambda>n. gn_id n \<notin> sources_with_outgoing) (filter (\<lambda>n. gn_type n \<noteq> Exit) (g_nodes g))))\<rparr>"

definition missing_condition_rule :: lint_rule where
  "missing_condition_rule =
     \<lparr>lr_name = ''missing_condition'',
      lr_description = ''Checks that diamond/conditional nodes have condition attributes on their outgoing edges'',
      lr_check = (\<lambda>g.
        let conditional_ids = set (map gn_id (filter (\<lambda>n. gn_type n = Conditional) (g_nodes g))) in
        map (\<lambda>e.
          \<lparr>dg_severity = LWarning, dg_code = ''W003'',
           dg_message = ''Conditional node '' @ quote1 (ge_from e) @ '' has an outgoing edge to '' @
             quote1 (ge_to e) @ '' without a condition'',
           dg_node_id = Some (ge_from e),
           dg_suggestion = Some (''Add a condition attribute to the edge from '' @ quote1 (ge_from e) @
             '' to '' @ quote1 (ge_to e))\<rparr>)
          (filter (\<lambda>e. ge_condition e = None) (filter (\<lambda>e. ge_from e \<in> conditional_ids) (g_edges g))))\<rparr>"

definition empty_label_edge_rule :: lint_rule where
  "empty_label_edge_rule =
     \<lparr>lr_name = ''empty_label_edge'', lr_description = ''Checks for edges that have an empty or missing label'',
      lr_check = (\<lambda>g.
        map (\<lambda>e.
          \<lparr>dg_severity = LInfo, dg_code = ''I001'',
           dg_message = ''Edge from '' @ quote1 (ge_from e) @ '' to '' @ quote1 (ge_to e) @ '' has no label'',
           dg_node_id = None,
           dg_suggestion = Some (''Add a label to the edge from '' @ quote1 (ge_from e) @ '' to '' @
             quote1 (ge_to e) @ '' for clarity'')\<rparr>)
          (filter (\<lambda>e. case ge_label e of None \<Rightarrow> True | Some label \<Rightarrow> trim label = []) (g_edges g)))\<rparr>"

section \<open>The runner\<close>

type_synonym lint_runner = "lint_rule list"

definition add_rule :: "lint_rule \<Rightarrow> lint_runner \<Rightarrow> lint_runner" where
  "add_rule rule runner = runner @ [rule]"

definition with_builtins :: lint_runner where
  "with_builtins =
     fold add_rule
       [no_start_node_rule, multiple_start_nodes_rule, no_exit_node_rule, unreachable_node_rule,
        dead_end_node_rule, missing_condition_rule, empty_label_edge_rule] []"

definition run_lint :: "lint_runner \<Rightarrow> graph \<Rightarrow> lint_report" where
  "run_lint runner g = fold (\<lambda>rule diagnostics. diagnostics @ lr_check rule g) runner []"

section \<open>What the rules report\<close>

lemmas builtin_rules = no_start_node_rule_def multiple_start_nodes_rule_def no_exit_node_rule_def
  unreachable_node_rule_def dead_end_node_rule_def missing_condition_rule_def empty_label_edge_rule_def

lemma fold_append: "fold (\<lambda>x acc. acc @ f x) xs acc = acc @ concat (map f xs)"
  by (induction xs arbitrary: acc) auto

lemma run_lint_concat: "run_lint runner g = concat (map (\<lambda>rule. lr_check rule g) runner)"
  by (simp add: run_lint_def fold_append)

text \<open>When a rule reports a diagnostic whose severity has a property.\<close>

definition reports :: "(lint_severity \<Rightarrow> bool) \<Rightarrow> diagnostic list \<Rightarrow> bool" where
  "reports P ds \<longleftrightarrow> list_ex (\<lambda>d. P (dg_severity d)) ds"

lemma reports_simps [simp]:
  "\<not> reports P []"
  "reports P (d # ds) \<longleftrightarrow> P (dg_severity d) \<or> reports P ds"
  "reports P (ds @ ds') \<longleftrightarrow> reports P ds \<or> reports P ds'"
  by (auto simp: reports_def)

lemma reports_map: "(\<And>x. dg_severity (f x) = sev) \<Longrightarrow> reports P (map f xs) \<longleftrightarrow> P sev \<and> xs \<noteq> []"
  by (cases xs) (auto simp: reports_def list_ex_iff)

lemma reports_rules:
  "reports P (lr_check no_start_node_rule g) \<longleftrightarrow> P LError \<and> start_nodes g = []"
  "reports P (lr_check multiple_start_nodes_rule g) \<longleftrightarrow> P LError \<and> length (start_nodes g) > 1"
  "reports P (lr_check no_exit_node_rule g) \<longleftrightarrow> P LError \<and> exit_nodes g = []"
  by (simp_all add: no_start_node_rule_def multiple_start_nodes_rule_def no_exit_node_rule_def Let_def
      start_nodes_def exit_nodes_def list_ex_iff filter_empty_conv)

lemma not_target: "i \<in> set (map ge_to (g_edges g)) \<longleftrightarrow> predecessors g i \<noteq> []"
  and not_source: "i \<in> set (map ge_from (g_edges g)) \<longleftrightarrow> successors g i \<noteq> []"
  by (auto simp: predecessors_def successors_def filter_empty_conv)

lemma conditional_id:
  "i \<in> set (map gn_id (filter (\<lambda>n. gn_type n = Conditional) ns)) \<longleftrightarrow>
     list_ex (\<lambda>n. gn_type n = Conditional \<and> gn_id n = i) ns"
  by (auto simp: list_ex_iff)

lemma some_kept: "filter P (filter Q xs) \<noteq> [] \<longleftrightarrow> \<not> list_all (\<lambda>x. \<not> Q x \<or> \<not> P x) xs"
  by (auto simp: filter_empty_conv list_all_iff)

lemma reports_node_rules:
  "reports P (lr_check unreachable_node_rule g) \<longleftrightarrow>
     P LWarning \<and> \<not> list_all (\<lambda>n. gn_type n = Start \<or> predecessors g (gn_id n) \<noteq> []) (g_nodes g)"
  "reports P (lr_check dead_end_node_rule g) \<longleftrightarrow>
     P LWarning \<and> \<not> list_all (\<lambda>n. gn_type n = Exit \<or> successors g (gn_id n) \<noteq> []) (g_nodes g)"
proof -
  have u: "dg_severity (unreachable_diagnostic n) = LWarning" "dg_severity (dead_end_diagnostic n) = LWarning" for n
    by (simp_all add: unreachable_diagnostic_def dead_end_diagnostic_def)
  show "reports P (lr_check unreachable_node_rule g) \<longleftrightarrow>
      P LWarning \<and> \<not> list_all (\<lambda>n. gn_type n = Start \<or> predecessors g (gn_id n) \<noteq> []) (g_nodes g)"
    by (simp only: unreachable_node_rule_def lint_rule.simps Let_def not_target reports_map [OF u(1)] some_kept) simp
  show "reports P (lr_check dead_end_node_rule g) \<longleftrightarrow>
      P LWarning \<and> \<not> list_all (\<lambda>n. gn_type n = Exit \<or> successors g (gn_id n) \<noteq> []) (g_nodes g)"
    by (simp only: dead_end_node_rule_def lint_rule.simps Let_def not_source reports_map [OF u(2)] some_kept) simp
qed

definition missing_condition :: "graph \<Rightarrow> graph_edge \<Rightarrow> bool" where
  "missing_condition g e \<longleftrightarrow>
     ge_condition e = None \<and> list_ex (\<lambda>n. gn_type n = Conditional \<and> gn_id n = ge_from e) (g_nodes g)"

lemma reports_edge_rules:
  "reports P (lr_check missing_condition_rule g) \<longleftrightarrow> P LWarning \<and> list_ex (missing_condition g) (g_edges g)"
  "reports P (lr_check empty_label_edge_rule g) \<longleftrightarrow>
     P LInfo \<and> \<not> list_all (\<lambda>e. \<exists>l. ge_label e = Some l \<and> trim l \<noteq> []) (g_edges g)"
proof -
  have "filter (\<lambda>e. ge_condition e = None) (filter (\<lambda>e. list_ex (\<lambda>n. gn_type n = Conditional \<and> gn_id n = ge_from e) ns) es) \<noteq> []
      \<longleftrightarrow> list_ex (missing_condition g) es" if "ns = g_nodes g" for ns es
    unfolding some_kept by (auto simp: missing_condition_def list_all_iff list_ex_iff that)
  then show "reports P (lr_check missing_condition_rule g) \<longleftrightarrow> P LWarning \<and> list_ex (missing_condition g) (g_edges g)"
    by (simp only: missing_condition_rule_def lint_rule.simps Let_def conditional_id) (simp add: reports_map)
  show "reports P (lr_check empty_label_edge_rule g) \<longleftrightarrow>
      P LInfo \<and> \<not> list_all (\<lambda>e. \<exists>l. ge_label e = Some l \<and> trim l \<noteq> []) (g_edges g)"
    by (simp add: empty_label_edge_rule_def reports_map filter_empty_conv list_all_iff split: option.splits)
qed

lemma reports_builtins:
  "reports P (run_lint with_builtins g) \<longleftrightarrow>
     P LError \<and> (length (start_nodes g) \<noteq> 1 \<or> exit_nodes g = []) \<or>
     P LWarning \<and> \<not> (list_all (\<lambda>n. gn_type n = Start \<or> predecessors g (gn_id n) \<noteq> []) (g_nodes g) \<and>
       list_all (\<lambda>n. gn_type n = Exit \<or> successors g (gn_id n) \<noteq> []) (g_nodes g) \<and>
       \<not> list_ex (missing_condition g) (g_edges g)) \<or>
     P LInfo \<and> \<not> list_all (\<lambda>e. \<exists>l. ge_label e = Some l \<and> trim l \<noteq> []) (g_edges g)"
proof -
  have "length (start_nodes g) \<noteq> 1 \<longleftrightarrow> start_nodes g = [] \<or> length (start_nodes g) > 1"
    by (cases "start_nodes g") auto
  then show ?thesis
    unfolding run_lint_concat with_builtins_def add_rule_def
    by (simp add: reports_rules reports_node_rules reports_edge_rules) blast
qed

text \<open>The built-in rules report an error exactly when the graph does not have exactly one start node
  and at least one exit node; the report is clean exactly when, besides, every node but a start
  has an incoming edge, every node but an exit has an outgoing edge, and every edge that leaves a
  conditional node has a condition.\<close>

theorem lint_report_spec:
  "(\<not> has_errors (run_lint with_builtins g) \<longleftrightarrow> length (start_nodes g) = 1 \<and> exit_nodes g \<noteq> []) \<and>
   (is_clean (run_lint with_builtins g) \<longleftrightarrow>
     length (start_nodes g) = 1 \<and> exit_nodes g \<noteq> [] \<and>
     \<not> list_ex (\<lambda>n. gn_type n \<noteq> Start \<and> predecessors g (gn_id n) = []) (g_nodes g) \<and>
     \<not> list_ex (\<lambda>n. gn_type n \<noteq> Exit \<and> successors g (gn_id n) = []) (g_nodes g) \<and>
     \<not> list_ex (\<lambda>e. ge_condition e = None \<and>
       list_ex (\<lambda>n. gn_type n = Conditional \<and> gn_id n = ge_from e) (g_nodes g)) (g_edges g))"
proof -
  have "has_errors r = reports (\<lambda>s. s = LError) r" "is_clean r = (\<not> reports (\<lambda>s. s \<ge> LWarning) r)" for r
  proof -
    have "(s = LError \<or> s = LWarning) = (s \<ge> LWarning)" for s
      by (cases s) (simp_all add: less_eq_lint_severity_def)
    then show "has_errors r = reports (\<lambda>s. s = LError) r" "is_clean r = (\<not> reports (\<lambda>s. s \<ge> LWarning) r)"
      by (simp_all add: has_errors_def is_clean_def reports_def)
  qed
  moreover have "missing_condition g = (\<lambda>e. ge_condition e = None \<and>
      list_ex (\<lambda>n. gn_type n = Conditional \<and> gn_id n = ge_from e) (g_nodes g))"
    by (simp add: missing_condition_def fun_eq_iff)
  ultimately show ?thesis by (auto simp: reports_builtins less_eq_lint_severity_def list_all_iff list_ex_iff)
qed

text \<open>The nodes a report names with a code.\<close>

definition coded_nodes :: "string \<Rightarrow> lint_report \<Rightarrow> string set" where
  "coded_nodes c r = {i. \<exists>d\<in>set r. dg_code d = c \<and> dg_node_id d = Some i}"

lemma coded_nodes_other: "(\<And>d. d \<in> set ds \<Longrightarrow> dg_code d \<noteq> c) \<Longrightarrow> coded_nodes c ds = {}"
  by (auto simp: coded_nodes_def)

lemma coded_nodes_append: "coded_nodes c (ds @ ds') = coded_nodes c ds \<union> coded_nodes c ds'"
  by (auto simp: coded_nodes_def)

lemma rule_codes:
  "d \<in> set (lr_check no_start_node_rule g) \<Longrightarrow> dg_code d = ''E001''"
  "d \<in> set (lr_check multiple_start_nodes_rule g) \<Longrightarrow> dg_code d = ''E002''"
  "d \<in> set (lr_check no_exit_node_rule g) \<Longrightarrow> dg_code d = ''E003''"
  "d \<in> set (lr_check dead_end_node_rule g) \<Longrightarrow> dg_code d = ''W002''"
  "d \<in> set (lr_check missing_condition_rule g) \<Longrightarrow> dg_code d = ''W003''"
  "d \<in> set (lr_check empty_label_edge_rule g) \<Longrightarrow> dg_code d = ''I001''"
  by (auto simp: builtin_rules dead_end_diagnostic_def Let_def split: if_splits)

lemma coded_unreachable:
  "coded_nodes ''W001'' (run_lint with_builtins g) =
     gn_id ` set (filter (\<lambda>n. predecessors g (gn_id n) = []) (filter (\<lambda>n. gn_type n \<noteq> Start) (g_nodes g)))"
proof -
  have "coded_nodes ''W001'' (lr_check unreachable_node_rule g) =
      gn_id ` set (filter (\<lambda>n. gn_id n \<notin> set (map ge_to (g_edges g)))
        (filter (\<lambda>n. gn_type n \<noteq> Start) (g_nodes g)))"
    unfolding unreachable_node_rule_def lint_rule.simps Let_def coded_nodes_def unreachable_diagnostic_def
    by (simp only: set_map) (auto simp: image_iff)
  also have "\<dots> = gn_id ` set (filter (\<lambda>n. predecessors g (gn_id n) = []) (filter (\<lambda>n. gn_type n \<noteq> Start) (g_nodes g)))"
    by (simp only: not_target not_not)
  finally have u: "coded_nodes ''W001'' (lr_check unreachable_node_rule g) = \<dots>" .
  have o: "coded_nodes ''W001'' (lr_check r g) = {}"
    if "r \<in> {no_start_node_rule, multiple_start_nodes_rule, no_exit_node_rule, dead_end_node_rule,
      missing_condition_rule, empty_label_edge_rule}" for r
    using that rule_codes by (intro coded_nodes_other) (elim insertE emptyE; fastforce)
  show ?thesis
    unfolding run_lint_concat with_builtins_def add_rule_def
    by (simp add: coded_nodes_append o u [simplified] coded_nodes_other [of "[]"])
qed

end
