(* ===== verification/Stylesheet.thy ===== *)
theory Stylesheet
  imports Graph
begin

text \<open>
  Stylesheets, \<open>stylesheet.rs\<close>: the parser for the CSS-like text and the cascade that computes the
  attributes of a node.  The parser functions take the remaining characters and the total length
  \<open>n\<close>; a position is \<open>n\<close> minus what remains.  A duration value outside the range of \<open>Duration\<close>
  panics.
\<close>

datatype stylesheet_error =
    StyleParseError nat string \<comment> \<open>position, message\<close>
  | InvalidSelector string
  | InvalidValue string

datatype selector = SelAll | SelNodeType string | SelId string | SelClass string

datatype style_value = StString string | StNumber f64 | StDuration duration | StBool bool

record style_decl =
  sd_property :: string
  sd_value :: style_value

record style_rule =
  sr_selector :: selector
  sr_declarations :: "style_decl list"

record stylesheet =
  ss_rules :: "style_rule list"

fun node_type_name :: "node_type \<Rightarrow> string" where
  "node_type_name Start = ''start''"
| "node_type_name Exit = ''exit''"
| "node_type_name Codergen = ''codergen''"
| "node_type_name Conditional = ''conditional''"
| "node_type_name Tool = ''tool''"
| "node_type_name Interviewer = ''interviewer''"
| "node_type_name Parallel = ''parallel''"
| "node_type_name FanIn = ''fanin''"
| "node_type_name Manager = ''manager''"
| "node_type_name SubPipeline = ''subpipeline''"
| "node_type_name Generic = ''generic''"

fun style_to_attr :: "style_value \<Rightarrow> attr_val" where
  "style_to_attr (StString s) = AString s"
| "style_to_attr (StNumber n) = ANumber n"
| "style_to_attr (StDuration d) = ADuration d"
| "style_to_attr (StBool b) = ABool b"

fun specificity :: "selector \<Rightarrow> nat" where
  "specificity SelAll = 0"
| "specificity (SelNodeType _) = 1"
| "specificity (SelClass _) = 2"
| "specificity (SelId _) = 3"

fun selector_matches :: "selector \<Rightarrow> graph_node \<Rightarrow> bool" where
  "selector_matches SelAll n = True"
| "selector_matches (SelNodeType name) n = (node_type_name (gn_type n) = name)"
| "selector_matches (SelId i) n = (gn_id n = i)"
| "selector_matches (SelClass c) n =
     (case gn_attrs n ''class'' of
        Some (AString classes) \<Rightarrow> list_ex (\<lambda>x. x = c) (split_ws classes)
      | _ \<Rightarrow> False)"

section \<open>The cascade\<close>

definition matching_rules :: "stylesheet \<Rightarrow> graph_node \<Rightarrow> style_rule list" where
  "matching_rules ss n = filter (\<lambda>r. selector_matches (sr_selector r) n) (ss_rules ss)"

definition decl_pairs :: "style_rule \<Rightarrow> (string \<times> attr_val) list" where
  "decl_pairs r = map (\<lambda>d. (sd_property d, style_to_attr (sd_value d))) (sr_declarations r)"

definition style_apply :: "stylesheet \<Rightarrow> graph_node \<Rightarrow> attr_val str_map" where
  "style_apply ss n =
     (let matches = filter (\<lambda>(i, r). selector_matches (sr_selector r) n) (enumerate 0 (ss_rules ss));
          sorted = sort_key (\<lambda>(i, r). specificity (sr_selector r)) (sort_key fst matches)
      in insert_all (concat (map (\<lambda>(i, r). decl_pairs r) sorted)) Map.empty)"

section \<open>The parser\<close>

text \<open>Skipping a comment after its opening: an unterminated one stops before the last character.\<close>

fun skip_block :: "string \<Rightarrow> string" where
  "skip_block [] = []"
| "skip_block [c] = [c]"
| "skip_block (c # d # cs) = (if c = CHR ''*'' \<and> d = CHR ''/'' then cs else skip_block (d # cs))"

lemma skip_block_length: "length (skip_block s) \<le> length s"
  by (induction s rule: skip_block.induct) auto

function skip_ws_comments :: "string \<Rightarrow> string" where
  "skip_ws_comments s =
     (let r = dropWhile is_ws s in
      if take 2 r = ''/*'' then skip_ws_comments (skip_block (drop 2 r)) else r)"
  by pat_completeness auto
termination
proof (relation "measure length", goal_cases)
  case (2 s r)
  have "length (skip_block (drop 2 r)) \<le> length (drop 2 r)" by (rule skip_block_length)
  moreover have "2 \<le> length r" using 2(2) by (metis length_take length_Cons list.size(3) min_def numeral_2_eq_2 le_refl One_nat_def nat_le_linear)
  moreover have "length r \<le> length s" using 2(1) by (simp add: length_dropWhile_le)
  ultimately show ?case by simp
qed simp

declare skip_ws_comments.simps [simp del]

definition is_ident_char :: "char \<Rightarrow> bool" where
  "is_ident_char c \<longleftrightarrow> is_ascii_alnum c \<or> c = CHR ''_'' \<or> c = CHR ''-''"

definition parse_identifier :: "string \<Rightarrow> string \<times> string" where
  "parse_identifier s = (takeWhile is_ident_char s, dropWhile is_ident_char s)"

type_synonym 'a style_parse = "(stylesheet_error, 'a \<times> string) result"

definition style_err :: "nat \<Rightarrow> string \<Rightarrow> string \<Rightarrow> 'a style_parse" where
  "style_err n rest msg = Inl (Err (StyleParseError (n - length rest) msg))"

definition parse_selector :: "nat \<Rightarrow> string \<Rightarrow> selector style_parse" where
  "parse_selector n s =
     (case skip_ws_comments s of
        [] \<Rightarrow> style_err n [] ''unexpected end of input, expected selector''
      | ch # r \<Rightarrow>
          if ch = CHR ''*'' then Inr (SelAll, r)
          else if ch = CHR ''#'' then
            (let (name, r') = parse_identifier r in
             if name = [] then Inl (Err (InvalidSelector ''#'')) else Inr (SelId name, r'))
          else if ch = CHR ''.'' then
            (let (name, r') = parse_identifier r in
             if name = [] then Inl (Err (InvalidSelector ''.'')) else Inr (SelClass name, r'))
          else
            (let (name, r') = parse_identifier (ch # r) in
             if name = []
             then Inl (Err (InvalidSelector (''unexpected character '' @ [CHR 0x27, ch, CHR 0x27])))
             else Inr (SelNodeType name, r')))"

text \<open>\<open>Duration::from_secs_f64\<close>: to the nearest nanosecond, ties to even.\<close>

definition duration_from_secs_f64 :: "f64 \<Rightarrow> panic + duration" where
  "duration_from_secs_f64 x =
     (case x of
        F_Fin s m e \<Rightarrow>
          if s \<and> m \<noteq> 0 then Inl Duration_Range
          else (let d = (if e \<ge> 0 then m * 2 ^ nat e * 10 ^ 9 else round_half_even (m * 10 ^ 9) (2 ^ nat (- e))) in
                if d < 2 ^ 64 * 10 ^ 9 then Inr d else Inl Duration_Range)
      | _ \<Rightarrow> Inl Duration_Range)"

definition duration_unit :: "char \<Rightarrow> nat option" where
  "duration_unit c =
     (if c = CHR ''s'' then Some 1 else if c = CHR ''m'' then Some 60
      else if c = CHR ''h'' then Some 3600 else None)"

text \<open>The value of a raw token; the multiplication by one of the seconds case changes nothing.\<close>

definition raw_value :: "string \<Rightarrow> (stylesheet_error, style_value) result" where
  "raw_value raw =
     (if raw = ''true'' then Inr (StBool True)
      else if raw = ''false'' then Inr (StBool False)
      else case (if length raw > 1 then Option.bind (duration_unit (last raw))
                   (\<lambda>u. map_option (\<lambda>x. (u, x)) (parse_f64 (butlast raw))) else None) of
        Some (u, x) \<Rightarrow>
          (case duration_from_secs_f64 (if u = 1 then x else f64_mul x (f64_of_nat u)) of
             Inl p \<Rightarrow> Inl (Panic p)
           | Inr d \<Rightarrow> Inr (StDuration d))
      | None \<Rightarrow>
          (case parse_f64 raw of
             Some x \<Rightarrow> Inr (StNumber x)
           | None \<Rightarrow> Inl (Err (InvalidValue raw))))"

definition is_raw_char :: "char \<Rightarrow> bool" where
  "is_raw_char c \<longleftrightarrow> c \<noteq> CHR '';'' \<and> c \<noteq> CHR ''}'' \<and> \<not> is_ws c"

definition parse_style_value :: "nat \<Rightarrow> string \<Rightarrow> style_value style_parse" where
  "parse_style_value n s =
     (case skip_ws_comments s of
        [] \<Rightarrow> style_err n [] ''unexpected end of input, expected value''
      | ch # r \<Rightarrow>
          if ch = dquote then
            (let str = takeWhile (\<lambda>c. c \<noteq> dquote) r in
             case dropWhile (\<lambda>c. c \<noteq> dquote) r of
               [] \<Rightarrow> style_err n r ''unterminated string literal''
             | _ # r' \<Rightarrow> Inr (StString str, r'))
          else
            (let raw = takeWhile is_raw_char (ch # r) in
             if raw = [] then style_err n (ch # r) ''expected value''
             else map_sum id (\<lambda>v. (v, dropWhile is_raw_char (ch # r))) (raw_value raw)))"

definition parse_declaration :: "nat \<Rightarrow> string \<Rightarrow> style_decl style_parse" where
  \<comment> \<open>one round of the loop, after the check for the closing brace\<close>
  "parse_declaration n s =
     (let (property, r) = parse_identifier s in
      if property = [] then style_err n r ''expected property name''
      else case skip_ws_comments r of
        ch # r1 \<Rightarrow>
          if ch \<noteq> CHR '':'' then style_err n (ch # r1) (''expected '' @ [CHR 0x27, CHR '':'', CHR 0x27] @
             '' after property '' @ [CHR 0x27] @ property @ [CHR 0x27])
          else res_bind (parse_style_value n (skip_ws_comments r1)) (\<lambda>(val, r2).
             (let r3 = skip_ws_comments r2;
                  r4 = (case r3 of c # r' \<Rightarrow> if c = CHR '';'' then r' else r3 | [] \<Rightarrow> r3)
              in Inr (\<lparr>sd_property = property, sd_value = val\<rparr>, r4)))
      | [] \<Rightarrow> style_err n [] (''expected '' @ [CHR 0x27, CHR '':'', CHR 0x27] @
             '' after property '' @ [CHR 0x27] @ property @ [CHR 0x27]))"

section \<open>Consumption\<close>

lemma skip_ws_comments_length: "length (skip_ws_comments s) \<le> length s"
proof (induction s rule: skip_ws_comments.induct)
  case (1 s)
  show ?case
  proof (cases "take 2 (dropWhile is_ws s) = ''/*''")
    case True
    have "length (skip_block (drop 2 (dropWhile is_ws s))) \<le> length s"
      using skip_block_length [of "drop 2 (dropWhile is_ws s)"] length_dropWhile_le [of is_ws s] by simp
    then show ?thesis using 1 [OF refl True] True by (subst skip_ws_comments.simps) simp
  next
    case False
    then show ?thesis by (subst skip_ws_comments.simps) (simp add: length_dropWhile_le)
  qed
qed

lemma parse_identifier_length:
  "parse_identifier s = (name, r) \<Longrightarrow> length name + length r = length s"
  by (auto simp: parse_identifier_def) (metis length_append takeWhile_dropWhile_id)

lemma parse_selector_length:
  assumes "parse_selector n s = Inr (sel, r)"
  shows "length r < length s"
proof -
  obtain ch t where t: "skip_ws_comments s = ch # t"
    using assms by (cases "skip_ws_comments s") (auto simp: parse_selector_def style_err_def)
  then have "length t < length s" using skip_ws_comments_length [of s] by simp
  moreover have "length r \<le> length t"
  proof -
    obtain m1 r1 where 1: "parse_identifier t = (m1, r1)" by force
    obtain m2 r2 where 2: "parse_identifier (ch # t) = (m2, r2)" by force
    have "r = t \<or> r = r1 \<or> (m2 \<noteq> [] \<and> r = r2)"
      using assms unfolding parse_selector_def t list.case 1 2 Let_def prod.case
      by (cases "ch = CHR ''*''"; cases "ch = CHR ''#''"; cases "ch = CHR ''.''"; cases "m1 = []"; cases "m2 = []") simp_all
    then show ?thesis
      using parse_identifier_length [OF 1] parse_identifier_length [OF 2] by (cases m2) auto
  qed
  ultimately show ?thesis by simp
qed

lemma parse_style_value_length:
  assumes "parse_style_value n s = Inr (v, r)"
  shows "length r \<le> length s"
proof -
  obtain ch t where t: "skip_ws_comments s = ch # t"
    using assms by (cases "skip_ws_comments s") (auto simp: parse_style_value_def style_err_def)
  have "length r \<le> length (ch # t)"
  proof (cases "ch = dquote")
    case True
    obtain x where "dropWhile (\<lambda>c. c \<noteq> dquote) t = x # r"
      using assms t True
      by (cases "dropWhile (\<lambda>c. c \<noteq> dquote) t") (auto simp: parse_style_value_def style_err_def Let_def)
    then show ?thesis using length_dropWhile_le [of "\<lambda>c. c \<noteq> dquote" t] by simp
  next
    case False
    obtain rv where "raw_value (takeWhile is_raw_char (ch # t)) = Inr rv" "r = dropWhile is_raw_char (ch # t)"
      using assms t False
      by (cases "raw_value (takeWhile is_raw_char (ch # t))")
        (auto simp: parse_style_value_def style_err_def Let_def simp del: takeWhile.simps dropWhile.simps split: if_splits)
    then show ?thesis using length_dropWhile_le [of is_raw_char "ch # t"] by simp
  qed
  then show ?thesis using skip_ws_comments_length [of s] t by simp
qed

lemma parse_declaration_length:
  assumes "parse_declaration n s = Inr (d, r)"
  shows "length r < length s"
proof -
  obtain p r0 where i: "parse_identifier s = (p, r0)" by force
  with assms have "p \<noteq> []" by (auto simp: parse_declaration_def style_err_def Let_def)
  then have l0: "length r0 < length s" using parse_identifier_length [OF i] by (cases p) auto
  obtain ch r1 where c: "skip_ws_comments r0 = ch # r1" "ch = CHR '':''"
    using assms i \<open>p \<noteq> []\<close> by (auto simp: parse_declaration_def style_err_def Let_def split: list.splits if_splits)
  obtain v r2 where v: "parse_style_value n (skip_ws_comments r1) = Inr (v, r2)"
    using assms i \<open>p \<noteq> []\<close> c by (auto simp: parse_declaration_def Let_def res_simps)
  have "length r \<le> length (skip_ws_comments r2)"
    using assms i \<open>p \<noteq> []\<close> c v
    by (cases "skip_ws_comments r2") (auto simp: parse_declaration_def Let_def split: if_splits)
  then show ?thesis
    using l0 c(1) parse_style_value_length [OF v] skip_ws_comments_length [of r0]
      skip_ws_comments_length [of r1] skip_ws_comments_length [of r2] by simp
qed

section \<open>The loops\<close>

function parse_declarations :: "nat \<Rightarrow> string \<Rightarrow> style_decl list \<Rightarrow> style_decl list style_parse" where
  "parse_declarations n s acc =
     (let r = skip_ws_comments s in
      if r = [] \<or> hd r = CHR ''}'' then Inr (acc, r)
      else case parse_declaration n r of
        Inl e \<Rightarrow> Inl e
      | Inr (d, r') \<Rightarrow> parse_declarations n r' (acc @ [d]))"
  by pat_completeness auto
termination
proof (relation "measure (\<lambda>(_, s, _). length s)", goal_cases)
  case (2 n s acc r x d r')
  then show ?case
    using parse_declaration_length [of n r d r'] skip_ws_comments_length [of s] by simp
qed simp

declare parse_declarations.simps [simp del]

definition parse_rule :: "nat \<Rightarrow> string \<Rightarrow> style_rule style_parse" where
  "parse_rule n s =
     res_bind (parse_selector n s) (\<lambda>(sel, r).
       case skip_ws_comments r of
         [] \<Rightarrow> style_err n [] (''expected '' @ [CHR 0x27, CHR ''{'', CHR 0x27])
       | ch # r1 \<Rightarrow>
           if ch \<noteq> CHR ''{'' then style_err n (ch # r1) (''expected '' @ [CHR 0x27, CHR ''{'', CHR 0x27])
           else res_bind (parse_declarations n r1 []) (\<lambda>(ds, r2).
             case skip_ws_comments r2 of
               [] \<Rightarrow> style_err n [] (''expected '' @ [CHR 0x27, CHR ''}'', CHR 0x27])
             | ch2 # r3 \<Rightarrow>
                 if ch2 \<noteq> CHR ''}'' then style_err n (ch2 # r3) (''expected '' @ [CHR 0x27, CHR ''}'', CHR 0x27])
                 else Inr (\<lparr>sr_selector = sel, sr_declarations = ds\<rparr>, r3)))"

lemma parse_declarations_length:
  "parse_declarations n s acc = Inr (ds, r) \<Longrightarrow> length r \<le> length s"
proof (induction n s acc rule: parse_declarations.induct)
  case (1 n s acc)
  let ?r = "skip_ws_comments s"
  show ?case
  proof (cases "?r = [] \<or> hd ?r = CHR ''}''")
    case True
    then have "r = ?r" using "1.prems" by (subst (asm) parse_declarations.simps) (simp add: Let_def)
    then show ?thesis using skip_ws_comments_length [of s] by simp
  next
    case False
    then obtain d r' where d: "parse_declaration n ?r = Inr (d, r')"
      using "1.prems" by (subst (asm) parse_declarations.simps) (auto simp: Let_def split: sum.splits)
    then have "parse_declarations n r' (acc @ [d]) = Inr (ds, r)"
      using "1.prems" False by (subst (asm) parse_declarations.simps) (simp add: Let_def)
    from "1.IH" [OF refl False d refl this] show ?thesis
      using parse_declaration_length [OF d] skip_ws_comments_length [of s] by simp
  qed
qed

lemma parse_rule_length:
  assumes "parse_rule n s = Inr (rl, r)"
  shows "length r < length s"
proof -
  obtain sel r0 where 0: "parse_selector n s = Inr (sel, r0)"
    using assms by (auto simp: parse_rule_def res_simps)
  obtain r1 where 1: "skip_ws_comments r0 = CHR ''{'' # r1"
    using assms 0 by (auto simp: parse_rule_def style_err_def split: list.splits if_splits)
  obtain ds r2 where 2: "parse_declarations n r1 [] = Inr (ds, r2)"
    using assms 0 1 by (auto simp: parse_rule_def res_simps)
  have 3: "skip_ws_comments r2 = CHR ''}'' # r"
    using assms 0 1 2 by (auto simp: parse_rule_def style_err_def split: list.splits if_splits)
  show ?thesis
    using parse_selector_length [OF 0] arg_cong [OF 1, of length] parse_declarations_length [OF 2]
      arg_cong [OF 3, of length] skip_ws_comments_length [of r0] skip_ws_comments_length [of r2] by simp
qed

function parse_rules :: "nat \<Rightarrow> string \<Rightarrow> style_rule list \<Rightarrow> (stylesheet_error, style_rule list) result" where
  "parse_rules n s acc =
     (let r = skip_ws_comments s in
      if r = [] then Inr acc
      else case parse_rule n r of
        Inl e \<Rightarrow> Inl e
      | Inr (rl, r') \<Rightarrow> parse_rules n r' (acc @ [rl]))"
  by pat_completeness auto
termination
proof (relation "measure (\<lambda>(_, s, _). length s)", goal_cases)
  case (2 n s acc r x rl r')
  then show ?case using parse_rule_length [of n r rl r'] skip_ws_comments_length [of s] by simp
qed simp

declare parse_rules.simps [simp del]

definition parse_stylesheet :: "string \<Rightarrow> (stylesheet_error, stylesheet) result" where
  "parse_stylesheet input = map_sum id (\<lambda>rs. \<lparr>ss_rules = rs\<rparr>) (parse_rules (length input) input [])"

section \<open>The cascade\<close>

text \<open>The pairs of the rules in cascade order; the last pair of a property wins.\<close>

lemma sort_key_enumerate: "sort_key fst (filter P (enumerate n xs)) = filter P (enumerate n xs)"
proof -
  have "sorted (map fst (enumerate n xs))" by (simp add: enumerate_eq_zip)
  then have "sorted (map fst (filter P (enumerate n xs)))" by (rule sorted_filter)
  then show ?thesis by (simp add: sort_key_id_if_sorted)
qed

lemma filter_snd_enumerate:
  "map snd (filter (\<lambda>(i, r). P r) (enumerate n xs)) = filter P xs"
  by (induction xs arbitrary: n) auto

lemma map_snd_insort: "map snd (insort_key (\<lambda>(i, r). f r) x xs) = insort_key f (snd x) (map snd xs)"
  by (induction xs) (auto split: prod.split)

lemma map_snd_sort_key: "map snd (sort_key (\<lambda>(i, r). f r) xs) = sort_key f (map snd xs)"
  by (induction xs) (auto simp: map_snd_insort)

lemma style_apply_eq:
  "style_apply ss n =
     insert_all (concat (map decl_pairs (sort_key (specificity \<circ> sr_selector) (matching_rules ss n)))) Map.empty"
proof -
  let ?m = "filter (\<lambda>(i, r). selector_matches (sr_selector r) n) (enumerate 0 (ss_rules ss))"
  have "map snd (sort_key (\<lambda>(i, r). specificity (sr_selector r)) ?m) =
      sort_key (specificity \<circ> sr_selector) (matching_rules ss n)"
    by (simp add: map_snd_sort_key [of "\<lambda>r. specificity (sr_selector r)"] filter_snd_enumerate matching_rules_def o_def)
  then have "map decl_pairs (sort_key (specificity \<circ> sr_selector) (matching_rules ss n)) =
      map (\<lambda>(i, r). decl_pairs r) (sort_key (\<lambda>(i, r). specificity (sr_selector r)) ?m)"
    by (simp flip: \<open>map snd _ = _\<close> add: case_prod_unfold)
  then show ?thesis
    by (simp add: style_apply_def Let_def sort_key_enumerate)
qed

definition rule_sets :: "string \<Rightarrow> style_rule \<Rightarrow> attr_val option" where
  "rule_sets k r = map_of (rev (decl_pairs r)) k"

lemma find_map_split:
  "find_map f xs = Some y \<Longrightarrow> \<exists>as x bs. xs = as @ x # bs \<and> f x = Some y \<and> (\<forall>a\<in>set as. f a = None)"
proof (induction xs)
  case (Cons x xs)
  show ?case
  proof (cases "f x")
    case None
    with Cons obtain as z bs where "xs = as @ z # bs" "f z = Some y" "\<forall>a\<in>set as. f a = None" by auto
    with None show ?thesis by (intro exI [of _ "x # as"] exI [of _ z] exI [of _ bs]) auto
  next
    case (Some w)
    with Cons.prems show ?thesis by (intro exI [of _ "[]"] exI [of _ x] exI [of _ xs]) simp
  qed
qed simp

lemma insert_all_concat:
  "insert_all (concat (map decl_pairs rs)) m k =
     (case find_map (rule_sets k) (rev rs) of Some v \<Rightarrow> Some v | None \<Rightarrow> m k)"
proof (induction rs arbitrary: m)
  case (Cons r rs)
  then show ?case
    by (auto simp: insert_all_append insert_all_map_of rule_sets_def map_add_def find_map_append
        split: option.split)
qed simp

lemma sort_key_filter_snoc:
  fixes f :: "'a \<Rightarrow> 'b::linorder"
  assumes "sort_key f rs = xs @ r # ys" "\<forall>y\<in>set ys. \<not> P y" "P r"
  shows "\<exists>us vs. rs = us @ r # vs \<and> (\<forall>y\<in>set rs. P y \<longrightarrow> f y \<le> f r) \<and> (\<forall>v\<in>set vs. P v \<longrightarrow> f v \<noteq> f r)"
proof -
  have s: "sorted (map f (xs @ r # ys))" using sorted_sort_key [of f rs] assms(1) by simp
  have le: "f y \<le> f r" if "y \<in> set rs" "P y" for y
  proof -
    have "y \<in> set (xs @ r # ys)" using that(1) assms(1) by (metis set_sort)
    then show ?thesis using that(2) assms(2) s by (auto simp: sorted_append)
  qed
  let ?Q = "\<lambda>y. f y = f r \<and> P y"
  have "filter (\<lambda>y. f y = f r) (sort_key f rs) = filter (\<lambda>y. f y = f r) rs" by (rule sort_key_stable)
  then have "filter P (filter (\<lambda>y. f y = f r) (xs @ r # ys)) = filter P (filter (\<lambda>y. f y = f r) rs)"
    by (simp add: assms(1))
  then have "filter ?Q (xs @ r # ys) = filter ?Q rs" using assms(3) by (simp add: conj_commute)
  moreover have "filter ?Q ys = []" using assms(2) by (auto simp: filter_empty_conv)
  ultimately have "filter ?Q rs = filter ?Q xs @ [r]" using assms(3) by simp
  then have "filter ?Q (rev rs) = r # rev (filter ?Q xs)" by (simp add: rev_filter [symmetric])
  from filter_eq_ConsD [OF this] obtain us vs where u: "rev rs = us @ r # vs" "\<forall>u\<in>set us. \<not> ?Q u" by blast
  have "rs = rev (rev rs)" by simp
  also have "\<dots> = rev vs @ r # rev us" unfolding u(1) by simp
  finally have "rs = rev vs @ r # rev us" .
  moreover have "\<forall>v\<in>set (rev us). P v \<longrightarrow> f v \<noteq> f r" using u(2) by auto
  ultimately show ?thesis using le by blast
qed

text \<open>The cascade: the value of a property is the one the winning rule sets last, and the winning rule
  is the last of the most specific rules that match the node and set the property; the property is
  absent exactly when no matching rule sets it.\<close>

theorem cascade_spec:
  "case style_apply ss n k of
     None \<Rightarrow> list_all (\<lambda>r. rule_sets k r = None) (matching_rules ss n)
   | Some v \<Rightarrow> (\<exists>us r vs. matching_rules ss n = us @ r # vs \<and> rule_sets k r = Some v \<and>
       list_all (\<lambda>q. rule_sets k q = None \<or>
         specificity (sr_selector q) \<le> specificity (sr_selector r)) (matching_rules ss n) \<and>
       list_all (\<lambda>q. rule_sets k q = None \<or>
         specificity (sr_selector q) < specificity (sr_selector r)) vs)"
proof -
  let ?rs = "matching_rules ss n" and ?f = "specificity \<circ> sr_selector"
  let ?s = "sort_key ?f ?rs"
  have v: "style_apply ss n k = find_map (rule_sets k) (rev ?s)"
    by (simp add: style_apply_eq insert_all_concat split: option.split)
  show ?thesis
  proof (cases "find_map (rule_sets k) (rev ?s)")
    case None
    then have "list_all (\<lambda>r. rule_sets k r = None) ?rs" by (simp add: find_map_None list_all_iff)
    then show ?thesis using v None by simp
  next
    case (Some w)
    then obtain as r bs where "rev ?s = as @ r # bs" "rule_sets k r = Some w" "\<forall>q\<in>set as. rule_sets k q = None"
      using find_map_split by metis
    then have "?s = rev bs @ r # rev as" "\<forall>q\<in>set (rev as). \<not> rule_sets k q \<noteq> None" "rule_sets k r \<noteq> None"
      by (simp_all add: rev_swap)
    from sort_key_filter_snoc [OF this] obtain us vs where
      "?rs = us @ r # vs" "\<forall>q\<in>set ?rs. rule_sets k q \<noteq> None \<longrightarrow> ?f q \<le> ?f r"
      "\<forall>q\<in>set vs. rule_sets k q \<noteq> None \<longrightarrow> ?f q \<noteq> ?f r" by blast
    moreover from this have "list_all (\<lambda>q. rule_sets k q = None \<or>
         specificity (sr_selector q) < specificity (sr_selector r)) vs"
      by (fastforce simp: list_all_iff)
    ultimately show ?thesis
      using v Some \<open>rule_sets k r = Some w\<close> by (fastforce simp: list_all_iff)
  qed
qed

section \<open>Printing\<close>

text \<open>The stylesheets that can be written down: literals with their text and their value.\<close>

datatype style_lit = LitStr string | LitNat nat | LitSecs nat | LitBool bool

fun lit_value :: "style_lit \<Rightarrow> style_value" where
  "lit_value (LitStr s) = StString s"
| "lit_value (LitNat n) = StNumber (f64_of_nat n)"
| "lit_value (LitSecs n) = StDuration (from_secs n)"
| "lit_value (LitBool b) = StBool b"

fun lit_text :: "style_lit \<Rightarrow> string" where
  "lit_text (LitStr s) = dquote # s @ [dquote]"
| "lit_text (LitNat n) = dec n"
| "lit_text (LitSecs n) = dec n @ ''s''"
| "lit_text (LitBool b) = (if b then ''true'' else ''false'')"

fun lit_ok :: "style_lit \<Rightarrow> bool" where
  "lit_ok (LitStr s) = (dquote \<notin> set s)"
| "lit_ok (LitSecs n) = (n < 2 ^ 53)"
| "lit_ok _ = True"

definition ident_ok :: "string \<Rightarrow> bool" where
  "ident_ok s \<longleftrightarrow> s \<noteq> [] \<and> list_all is_ident_char s"

fun selector_text :: "selector \<Rightarrow> string" where
  "selector_text SelAll = ''*''"
| "selector_text (SelNodeType t) = t"
| "selector_text (SelId i) = ''#'' @ i"
| "selector_text (SelClass c) = ''.'' @ c"

fun selector_ok :: "selector \<Rightarrow> bool" where
  "selector_ok SelAll = True"
| "selector_ok (SelNodeType t) = ident_ok t"
| "selector_ok (SelId i) = ident_ok i"
| "selector_ok (SelClass c) = ident_ok c"

type_synonym printed_decl = "string \<times> style_lit"
type_synonym printed_rule = "selector \<times> printed_decl list"

definition decl_text :: "printed_decl \<Rightarrow> string" where
  "decl_text d = '' '' @ fst d @ '': '' @ lit_text (snd d) @ '';''"

definition rule_text :: "printed_rule \<Rightarrow> string" where
  "rule_text r = selector_text (fst r) @ '' {'' @ concat (map decl_text (snd r)) @ '' }'' @ [newline]"

definition stylesheet_text :: "printed_rule list \<Rightarrow> string" where
  "stylesheet_text rs = concat (map rule_text rs)"

definition decl_value :: "printed_decl \<Rightarrow> style_decl" where
  "decl_value d = \<lparr>sd_property = fst d, sd_value = lit_value (snd d)\<rparr>"

definition rule_value :: "printed_rule \<Rightarrow> style_rule" where
  "rule_value r = \<lparr>sr_selector = fst r, sr_declarations = map decl_value (snd r)\<rparr>"

definition rule_ok :: "printed_rule \<Rightarrow> bool" where
  "rule_ok r \<longleftrightarrow> selector_ok (fst r) \<and> list_all (\<lambda>d. ident_ok (fst d) \<and> lit_ok (snd d)) (snd r)"

section \<open>Parsing what was printed\<close>

lemma skip_ws_stop: "\<not> is_ws c \<Longrightarrow> c \<noteq> CHR ''/'' \<Longrightarrow> skip_ws_comments (c # r) = c # r"
  by (subst skip_ws_comments.simps) (simp add: Let_def)

lemma skip_ws_space: "is_ws c \<Longrightarrow> skip_ws_comments (c # r) = skip_ws_comments r"
  by (subst skip_ws_comments.simps, subst (2) skip_ws_comments.simps) simp

lemma skip_ws_Nil [simp]: "skip_ws_comments [] = []"
  by (subst skip_ws_comments.simps) simp

lemma ws_chars [simp]:
  "is_ws CHR '' ''" "is_ws newline" "\<not> is_ws CHR '':''" "\<not> is_ws CHR '';''" "\<not> is_ws CHR ''{''"
  "\<not> is_ws CHR ''}''" "\<not> is_ws CHR ''*''" "\<not> is_ws CHR ''#''" "\<not> is_ws CHR ''.''" "\<not> is_ws dquote"
  by (simp_all add: char_class_defs)

lemma ident_char_props:
  "is_ident_char c \<Longrightarrow> \<not> is_ws c \<and> c \<noteq> CHR ''/'' \<and> c \<noteq> CHR ''*'' \<and> c \<noteq> CHR ''#'' \<and> c \<noteq> CHR ''.'' \<and>
     c \<noteq> CHR ''}''"
  by (auto simp: is_ident_char_def char_class_defs)

lemma not_ident_char [simp]:
  "\<not> is_ident_char CHR '' ''" "\<not> is_ident_char CHR '':''" "\<not> is_ident_char CHR ''{''"
  by (simp_all add: is_ident_char_def char_class_defs)

lemma parse_identifier_text:
  "list_all is_ident_char s \<Longrightarrow> \<not> is_ident_char c \<Longrightarrow> parse_identifier (s @ c # r) = (s, c # r)"
  by (auto simp: parse_identifier_def list_all_iff takeWhile_append dropWhile_append)

lemma raw_chars: "list_all is_raw_char (dec n)"
  using dec_digits [of n] by (auto simp: list_all_iff is_raw_char_def char_class_defs)

lemma raw_scan:
  "list_all is_raw_char s \<Longrightarrow> \<not> is_raw_char c \<Longrightarrow>
     takeWhile is_raw_char (s @ c # r) = s \<and> dropWhile is_raw_char (s @ c # r) = c # r"
  by (auto simp: list_all_iff takeWhile_append dropWhile_append)

lemma last_dec_digit: "is_ascii_digit (last (dec n))"
  using dec_digits [of n] by (metis dec_not_Nil last_in_set)

lemma dec_no_word: "dec n \<noteq> ''true''" "dec n \<noteq> ''false''"
  using hd_dec_digit [of n] by (auto simp: char_class_defs)

lemma raw_value_nat: "raw_value (dec n) = Inr (StNumber (f64_of_nat n))"
proof -
  have "duration_unit (last (dec n)) = None"
    using last_dec_digit [of n] by (auto simp: duration_unit_def char_class_defs)
  then show ?thesis by (simp add: raw_value_def dec_no_word parse_f64_dec)
qed

lemma duration_exact:
  assumes "n < 2 ^ 53"
  shows "duration_from_secs_f64 (f64_of_nat n) = Inr (from_secs n)"
proof -
  obtain j where j: "f64_of_nat n = F_Fin False (n * 2 ^ j) (- int j)"
    using f64_of_nat_exact [OF assms] by blast
  have "n * 10 ^ 9 < 2 ^ 64 * 10 ^ 9" using assms by simp
  moreover have "round_half_even (n * 2 ^ j * 10 ^ 9) (2 ^ j) = n * 10 ^ 9"
    by (simp add: round_half_even_def mult.assoc mult.commute [of _ "10 ^ 9"] flip: mult.assoc)
  moreover have "n * 2 ^ nat (- int j) * 10 ^ 9 = n * 10 ^ 9" if "- int j \<ge> 0" using that by simp
  ultimately show ?thesis
    by (cases "j = 0") (simp_all add: duration_from_secs_f64_def j from_secs_def)
qed

lemma last_differs: "last x \<noteq> last y \<Longrightarrow> x \<noteq> (y :: string)"
  by auto

lemma hd_dec_quote: "hd (dec n) \<noteq> dquote"
  using hd_dec_digit [of n] by (auto simp: char_class_defs)

lemma raw_value_secs:
  assumes "n < 2 ^ 53"
  shows "raw_value (dec n @ ''s'') = Inr (StDuration (from_secs n))"
proof -
  have "dec n @ ''s'' \<noteq> ''true''" "dec n @ ''s'' \<noteq> ''false''"
    by (rule last_differs; simp)+
  then show ?thesis
    using assms by (simp add: raw_value_def duration_unit_def parse_f64_dec duration_exact)
qed

lemma lit_text_hd: "lit_text l \<noteq> [] \<and> \<not> is_ws (hd (lit_text l)) \<and> hd (lit_text l) \<noteq> CHR ''/''"
  using hd_dec_digit [of "case l of LitNat n \<Rightarrow> n | LitSecs n \<Rightarrow> n | _ \<Rightarrow> 0"]
  by (cases l) (auto simp: char_class_defs)

lemma skip_ws_lit: "skip_ws_comments (lit_text l @ r) = lit_text l @ r"
  using lit_text_hd [of l] by (cases "lit_text l") (auto simp: skip_ws_stop)

lemma not_raw_semi [simp]: "\<not> is_raw_char CHR '';''"
  by (simp add: is_raw_char_def)

lemma parse_style_value_raw:
  assumes "list_all is_raw_char s" "s \<noteq> []" "hd s \<noteq> dquote" "skip_ws_comments (s @ CHR '';'' # r) = s @ CHR '';'' # r"
    "raw_value s = Inr v"
  shows "parse_style_value n (s @ CHR '';'' # r) = Inr (v, CHR '';'' # r)"
proof -
  obtain ch t where s: "s = ch # t" "ch \<noteq> dquote" using assms(2,3) by (cases s) auto
  note rs = raw_scan [OF assms(1) not_raw_semi, of r]
  show ?thesis
    unfolding parse_style_value_def assms(4)
    using rs assms(5) s by (simp add: Let_def)
qed

lemma parse_lit:
  assumes "lit_ok l"
  shows "parse_style_value n (lit_text l @ CHR '';'' # r) = Inr (lit_value l, CHR '';'' # r)"
proof (cases l)
  case (LitStr s)
  have "takeWhile (\<lambda>c. c \<noteq> dquote) (s @ dquote # t) = s \<and> dropWhile (\<lambda>c. c \<noteq> dquote) (s @ dquote # t) = dquote # t" for t
    using assms LitStr by (auto simp: takeWhile_append dropWhile_append)
  then show ?thesis
    using LitStr by (simp add: parse_style_value_def skip_ws_stop Let_def)
next
  case (LitNat k)
  then show ?thesis
    using parse_style_value_raw [OF raw_chars _ _ _ raw_value_nat, of k r n] skip_ws_lit [of l]
      hd_dec_quote [of k] by simp
next
  case (LitSecs k)
  have "list_all is_raw_char (dec k @ ''s'')" using raw_chars [of k] by (simp add: is_raw_char_def char_class_defs)
  from parse_style_value_raw [OF this _ _ _ raw_value_secs, of r n] show ?thesis
    using LitSecs assms skip_ws_lit [of l] hd_dec_quote [of k] by (simp add: hd_append)
next
  case (LitBool b)
  have "list_all is_raw_char (lit_text l)" "raw_value (lit_text l) = Inr (StBool b)" "hd (lit_text l) \<noteq> dquote"
    using LitBool by (cases b; simp add: is_raw_char_def char_class_defs raw_value_def)+
  from parse_style_value_raw [OF this(1) _ this(3) _ this(2)] show ?thesis
    using LitBool skip_ws_lit [of l] lit_text_hd [of l] by simp
qed

lemma parse_decl_text:
  assumes "ident_ok (fst d)" "lit_ok (snd d)"
  shows "parse_declaration n (fst d @ '': '' @ lit_text (snd d) @ CHR '';'' # r) = Inr (decl_value d, r)"
proof -
  have i: "parse_identifier (fst d @ CHR '':'' # t) = (fst d, CHR '':'' # t)" for t
    using parse_identifier_text [of "fst d" "CHR '':''" t] assms(1) by (simp add: ident_ok_def)
  have "skip_ws_comments (CHR '' '' # lit_text (snd d) @ CHR '';'' # r) = lit_text (snd d) @ CHR '';'' # r"
    by (simp add: skip_ws_space skip_ws_lit)
  then show ?thesis
    using assms parse_lit [OF assms(2), of n r]
    by (simp add: parse_declaration_def i ident_ok_def skip_ws_stop decl_value_def)
qed

lemma skip_ident:
  "ident_ok s \<Longrightarrow> skip_ws_comments (s @ r) = s @ r"
  using ident_char_props by (cases s) (auto simp: ident_ok_def intro: skip_ws_stop)

lemma parse_decls_text:
  "list_all (\<lambda>d. ident_ok (fst d) \<and> lit_ok (snd d)) ds \<Longrightarrow>
     parse_declarations n (concat (map decl_text ds) @ '' }'' @ r) acc = Inr (acc @ map decl_value ds, CHR ''}'' # r)"
proof (induction ds arbitrary: acc)
  case Nil
  then show ?case by (subst parse_declarations.simps) (simp add: skip_ws_space skip_ws_stop Let_def)
next
  case (Cons d ds)
  let ?t = "concat (map decl_text ds) @ '' }'' @ r"
  let ?b = "fst d @ '': '' @ lit_text (snd d) @ CHR '';'' # ?t"
  have d: "ident_ok (fst d)" "lit_ok (snd d)" using Cons.prems by simp_all
  have s: "skip_ws_comments (CHR '' '' # ?b) = ?b" using skip_ident [OF d(1)] by (simp add: skip_ws_space)
  have h: "?b \<noteq> [] \<and> hd ?b \<noteq> CHR ''}''"
    using d(1) ident_char_props by (cases "fst d") (auto simp: ident_ok_def)
  have "concat (map decl_text (d # ds)) @ '' }'' @ r = CHR '' '' # ?b" by (simp add: decl_text_def)
  then show ?case
    using Cons parse_decl_text [OF d, of n ?t] s h by (subst parse_declarations.simps) (simp add: Let_def)
qed

lemma parse_selector_text:
  assumes "selector_ok sel"
  shows "parse_selector n (selector_text sel @ CHR '' '' # r) = Inr (sel, CHR '' '' # r)"
proof (cases sel)
  case (SelNodeType t)
  with assms have t: "ident_ok t" by simp
  then obtain c cs where c: "t = c # cs" "is_ident_char c" by (cases t) (auto simp: ident_ok_def)
  have "parse_identifier (t @ CHR '' '' # r) = (t, CHR '' '' # r)"
    using t by (intro parse_identifier_text) (simp_all add: ident_ok_def)
  then show ?thesis
    using skip_ident [OF t, of "CHR '' '' # r"] ident_char_props [OF c(2)] c(1) SelNodeType
    by (simp add: parse_selector_def)
next
  case (SelId i)
  then have "parse_identifier (i @ CHR '' '' # r) = (i, CHR '' '' # r)" "i \<noteq> []"
    using assms by (auto intro: parse_identifier_text simp: ident_ok_def)
  then show ?thesis using SelId by (simp add: parse_selector_def skip_ws_stop)
next
  case (SelClass i)
  then have "parse_identifier (i @ CHR '' '' # r) = (i, CHR '' '' # r)" "i \<noteq> []"
    using assms by (auto intro: parse_identifier_text simp: ident_ok_def)
  then show ?thesis using SelClass by (simp add: parse_selector_def skip_ws_stop)
qed (simp add: parse_selector_def skip_ws_stop)

lemma parse_rule_text:
  assumes "rule_ok r"
  shows "parse_rule n (rule_text r @ t) = Inr (rule_value r, newline # t)"
proof -
  have "rule_text r @ t = selector_text (fst r) @ CHR '' '' # CHR ''{'' # concat (map decl_text (snd r)) @ '' }'' @ newline # t"
    by (simp add: rule_text_def)
  then show ?thesis
    using assms parse_selector_text [of "fst r" n] parse_decls_text [of "snd r" n "newline # t" "[]"]
    by (simp add: parse_rule_def rule_ok_def skip_ws_space skip_ws_stop rule_value_def)
qed

lemma skip_ws_selector: "selector_ok s \<Longrightarrow> skip_ws_comments (selector_text s @ r) = selector_text s @ r \<and> selector_text s \<noteq> []"
  using skip_ident [of "case s of SelNodeType t \<Rightarrow> t | _ \<Rightarrow> []" r]
  by (cases s) (auto simp: skip_ws_stop ident_ok_def)

lemma parse_rules_text:
  "list_all rule_ok rs \<Longrightarrow> w = [] \<or> w = [newline] \<Longrightarrow>
     parse_rules n (w @ stylesheet_text rs) acc = Inr (acc @ map rule_value rs)"
proof (induction rs arbitrary: acc w)
  case Nil
  then show ?case by (subst parse_rules.simps) (auto simp: stylesheet_text_def skip_ws_space)
next
  case (Cons r rs)
  let ?t = "rule_text r @ stylesheet_text rs"
  have ok: "rule_ok r" using Cons.prems by simp
  have "skip_ws_comments ?t = ?t \<and> ?t \<noteq> []"
    using skip_ws_selector [of "fst r"] ok by (simp add: rule_text_def rule_ok_def)
  moreover have "skip_ws_comments (w @ ?t) = skip_ws_comments ?t" using Cons.prems(2) by (auto simp: skip_ws_space)
  moreover have "parse_rules n (newline # stylesheet_text rs) (acc @ [rule_value r]) = Inr ((acc @ [rule_value r]) @ map rule_value rs)"
    using Cons.IH [of "[newline]" "acc @ [rule_value r]"] Cons.prems(1) by simp
  ultimately show ?case
    using parse_rule_text [OF ok, of n "stylesheet_text rs"]
    by (subst parse_rules.simps) (simp add: stylesheet_text_def Let_def)
qed

text \<open>Printing and parsing a stylesheet gives it back: selectors with their specificity marks,
  declarations in order, string, natural-number, whole-second and Boolean values.\<close>

theorem parse_stylesheet_print:
  assumes "list_all rule_ok rs"
  shows "parse_stylesheet (stylesheet_text rs) = Inr \<lparr>ss_rules = map rule_value rs\<rparr>"
  using parse_rules_text [OF assms, of "[]"] by (simp add: parse_stylesheet_def)

theorem parse_stylesheet_print_witness:
  "parse_stylesheet (stylesheet_text [(SelClass ''fast'', [(''model'', LitStr ''a b''), (''timeout'', LitSecs 90)]), (SelAll, [])]) =
   Inr \<lparr>ss_rules = [\<lparr>sr_selector = SelClass ''fast'', sr_declarations =
       [\<lparr>sd_property = ''model'', sd_value = StString ''a b''\<rparr>, \<lparr>sd_property = ''timeout'', sd_value = StDuration (from_secs 90)\<rparr>]\<rparr>,
     \<lparr>sr_selector = SelAll, sr_declarations = []\<rparr>]\<rparr>"
proof -
  let ?rs = "[(SelClass ''fast'', [(''model'', LitStr ''a b''), (''timeout'', LitSecs 90)]), (SelAll, [])]"
  have "list_all rule_ok ?rs"
    by (simp add: rule_ok_def ident_ok_def is_ident_char_def char_class_defs)
  from parse_stylesheet_print [OF this] show ?thesis by (simp add: rule_value_def decl_value_def)
qed

section \<open>Irregular input\<close>

fun has_close :: "string \<Rightarrow> bool" where
  "has_close (c # d # cs) = ((c = CHR ''*'' \<and> d = CHR ''/'') \<or> has_close (d # cs))"
| "has_close _ = False"

lemma skip_block_open: "\<not> has_close s \<Longrightarrow> s \<noteq> [] \<Longrightarrow> skip_block s = [last s]"
  by (induction s rule: skip_block.induct) auto

text \<open>Two inputs the parser mishandles.  A comment that is never closed does not end at the end of the
  input but one character before: the text after it is dropped silently when its last character is
  white space, and otherwise that character is parsed as a selector and reported.  A negative
  duration is not reported as an error but panics.\<close>

theorem stylesheet_irregular:
  assumes "\<not> has_close (s @ [c])"
  shows "parse_stylesheet (''/*'' @ s @ [c]) =
     (if is_ws c then Inr \<lparr>ss_rules = []\<rparr>
      else map_sum id (\<lambda>rs. \<lparr>ss_rules = rs\<rparr>) (parse_rules (length s + 3) [c] []))"
    and "parse_stylesheet ''* { timeout: -5s }'' = Inl (Panic Duration_Range)"
proof -
  show "parse_stylesheet ''* { timeout: -5s }'' = Inl (Panic Duration_Range)" by code_simp
  have ns: "\<not> is_ws CHR ''/''" by (simp add: char_class_defs)
  have b: "skip_block (s @ [c]) = [c]" using skip_block_open [OF assms] by simp
  have k: "skip_ws_comments (''/*'' @ s @ [c]) = skip_ws_comments [c]"
    by (subst skip_ws_comments.simps) (simp add: Let_def ns b)
  have "parse_rules n (''/*'' @ s @ [c]) [] = parse_rules n [c] []" for n
    unfolding parse_rules.simps [of n "''/*'' @ s @ [c]"] parse_rules.simps [of n "[c]"] k by (rule refl)
  moreover have "is_ws c \<Longrightarrow> parse_rules n [c] [] = Inr []" for n
    by (subst parse_rules.simps) (simp add: skip_ws_space)
  ultimately show "parse_stylesheet (''/*'' @ s @ [c]) =
     (if is_ws c then Inr \<lparr>ss_rules = []\<rparr>
      else map_sum id (\<lambda>rs. \<lparr>ss_rules = rs\<rparr>) (parse_rules (length s + 3) [c] []))"
    by (simp add: parse_stylesheet_def numeral_3_eq_3)
qed

theorem stylesheet_irregular_witness:
  "parse_stylesheet (''/* all * { a: true }'' @ [newline]) = Inr \<lparr>ss_rules = []\<rparr>"
  using stylesheet_irregular(1) [of "'' all * { a: true }''" newline] by simp

end
