(* ===== verification/Transforms.thy ===== *)
theory Transforms
  imports Stylesheet
begin

text \<open>
  Graph transforms, \<open>transforms.rs\<close>: expansion of \<open>{{variable}}\<close> placeholders and application of a
  stylesheet.
\<close>

text \<open>The key of a placeholder: the text before the closing braces and what follows them.\<close>

fun placeholder :: "string \<Rightarrow> string \<Rightarrow> (string \<times> string) option" where
  "placeholder key [] = None"
| "placeholder key [c] = None"
| "placeholder key (c # d # cs) =
     (if c = CHR ''}'' \<and> d = CHR ''}'' then Some (key, cs) else placeholder (key @ [c]) (d # cs))"

lemma placeholder_length: "placeholder k s = Some (k', r) \<Longrightarrow> length r < length s"
  by (induction k s rule: placeholder.induct) (auto split: if_splits)

function expand_string :: "string str_map \<Rightarrow> string \<Rightarrow> string" where
  "expand_string vars s =
     (case s of
        [] \<Rightarrow> []
      | ch # cs \<Rightarrow>
          if ch = CHR ''{'' \<and> take 1 cs = ''{'' then
            (case placeholder [] (tl cs) of
               Some (key, rest) \<Rightarrow>
                 (case vars (trim key) of
                    Some replacement \<Rightarrow> replacement
                  | None \<Rightarrow> ''{{'' @ key @ ''}}'') @ expand_string vars rest
             | None \<Rightarrow> ''{{'' @ tl cs)
          else ch # expand_string vars cs)"
  by pat_completeness auto
termination
proof (relation "measure (\<lambda>(_, s). length s)", goal_cases)
  case (2 vars s ch cs p key rest)
  then have "placeholder [] (tl cs) = Some (key, rest)" by simp
  from placeholder_length [OF this] 2(1) show ?case by simp
qed simp_all

declare expand_string.simps [simp del]

definition expand_attr :: "string str_map \<Rightarrow> attr_val \<Rightarrow> attr_val" where
  "expand_attr vars v = (case v of AString s \<Rightarrow> AString (expand_string vars s) | _ \<Rightarrow> v)"

definition expand_node :: "string str_map \<Rightarrow> graph_node \<Rightarrow> graph_node" where
  "expand_node vars n =
     n\<lparr>gn_attrs := map_values (expand_attr vars) (gn_attrs n),
       gn_label := map_option (expand_string vars) (gn_label n)\<rparr>"

definition expand_variables :: "string str_map \<Rightarrow> graph \<Rightarrow> graph" where
  "expand_variables vars g = g\<lparr>g_nodes := map (expand_node vars) (g_nodes g)\<rparr>"

text \<open>\<open>entry(key).or_insert(value)\<close> for all computed attributes: those of the node win.\<close>

definition style_node :: "stylesheet \<Rightarrow> graph_node \<Rightarrow> graph_node" where
  "style_node ss n = n\<lparr>gn_attrs := style_apply ss n ++ gn_attrs n\<rparr>"

definition apply_stylesheet :: "stylesheet \<Rightarrow> graph \<Rightarrow> graph" where
  "apply_stylesheet ss g = g\<lparr>g_nodes := map (style_node ss) (g_nodes g)\<rparr>"

definition apply_transforms :: "string str_map \<Rightarrow> stylesheet option \<Rightarrow> graph \<Rightarrow> graph" where
  "apply_transforms vars ss g =
     expand_variables vars (case ss of Some s \<Rightarrow> apply_stylesheet s g | None \<Rightarrow> g)"

section \<open>Templates\<close>

text \<open>A template: literal text without braces, and placeholders.\<close>

datatype template_part = TLit string | TVar string

definition no_braces :: "string \<Rightarrow> bool" where
  "no_braces s \<longleftrightarrow> list_all (\<lambda>c. c \<noteq> CHR ''{'' \<and> c \<noteq> CHR ''}'') s"

fun part_ok :: "template_part \<Rightarrow> bool" where
  "part_ok (TLit s) = no_braces s"
| "part_ok (TVar k) = no_braces k"

fun part_text :: "template_part \<Rightarrow> string" where
  "part_text (TLit s) = s"
| "part_text (TVar k) = ''{{'' @ k @ ''}}''"

fun part_value :: "string str_map \<Rightarrow> template_part \<Rightarrow> string" where
  "part_value vars (TLit s) = s"
| "part_value vars (TVar k) = (case vars (trim k) of Some v \<Rightarrow> v | None \<Rightarrow> ''{{'' @ k @ ''}}'')"

lemma placeholder_close:
  "no_braces k \<Longrightarrow> placeholder acc (k @ ''}}'' @ r) = Some (acc @ k, r)"
proof (induction k arbitrary: acc)
  case (Cons c k)
  then have c: "c \<noteq> CHR ''}''" "no_braces k" by (simp_all add: no_braces_def)
  obtain d t where t: "k @ ''}}'' @ r = d # t" by (cases k) auto
  have "placeholder acc ((c # k) @ ''}}'' @ r) = placeholder (acc @ [c]) (k @ ''}}'' @ r)"
    using c t by simp
  then show ?case using Cons.IH [OF c(2)] by simp
qed simp

lemma expand_literal: "no_braces s \<Longrightarrow> expand_string vars (s @ r) = s @ expand_string vars r"
  by (induction s) (simp_all add: no_braces_def expand_string.simps [of vars "_ # _"])

lemma expand_part:
  "part_ok p \<Longrightarrow> expand_string vars (part_text p @ r) = part_value vars p @ expand_string vars r"
proof (induction p)
  case (TVar k)
  then have "placeholder [] (k @ ''}}'' @ r) = Some (k, r)" using placeholder_close [of k "[]"] by simp
  then show ?case by (simp add: expand_string.simps [of vars "CHR ''{'' # _"] split: option.split)
qed (simp add: expand_literal)

text \<open>Expanding a template replaces each placeholder by the value of its trimmed key, leaves unknown
  placeholders and all other text as they are, and does not expand what it inserts.\<close>

theorem expand_template:
  assumes "list_all part_ok ps"
  shows "expand_string vars (concat (map part_text ps)) = concat (map (part_value vars) ps)"
  using assms
proof (induction ps)
  case Nil
  show ?case by (simp add: expand_string.simps)
next
  case (Cons p ps)
  then show ?case by (simp add: expand_part)
qed

theorem expand_template_witness:
  "expand_string [''who'' \<mapsto> ''{{x}}''] ''Hi {{ who }}, {{y}}'' = ''Hi {{x}}, {{y}}''"
proof -
  let ?ps = "[TLit ''Hi '', TVar '' who '', TLit '', '', TVar ''y'']"
  have "list_all part_ok ?ps" by (simp add: no_braces_def)
  from expand_template [OF this, of "[''who'' \<mapsto> ''{{x}}'']"] show ?thesis
    by (simp add: trim_def trim_start_def trim_end_def is_ws_def code_def)
qed

text \<open>The transforms keep the shape of the graph and the precedence of attributes: ids, types and edges
  are unchanged, an attribute of the node is only expanded, a style applies only where the node
  has no attribute of that name, and its text is expanded too.\<close>

theorem transforms_spec:
  "map gn_id (g_nodes (apply_transforms vars (Some ss) g)) = map gn_id (g_nodes g) \<and>
   map gn_type (g_nodes (apply_transforms vars (Some ss) g)) = map gn_type (g_nodes g) \<and>
   g_edges (apply_transforms vars (Some ss) g) = g_edges g \<and>
   map gn_attrs (g_nodes (apply_transforms vars (Some ss) g)) =
     map (\<lambda>n k. map_option (expand_attr vars)
        (case gn_attrs n k of Some v \<Rightarrow> Some v | None \<Rightarrow> style_apply ss n k)) (g_nodes g)"
  by (auto simp: apply_transforms_def expand_variables_def apply_stylesheet_def expand_node_def style_node_def
      map_values_def map_add_def o_def fun_eq_iff split: option.split)

lemma transforms_wf: "wf_graph g \<Longrightarrow> wf_graph (apply_transforms vars ss g)"
  by (cases ss)
    (simp_all add: apply_transforms_def expand_variables_def apply_stylesheet_def expand_node_def style_node_def
      wf_graph_def node_ids_def o_def)

end
