(* ===== verification/Composition.thy ===== *)
theory Composition
  imports Graph
begin

text \<open>
  Sub-pipelines, \<open>composition.rs\<close>: inlining a graph for a node, and the transform that does it for
  every sub-pipeline node, reading and resolving the referenced files.  Reading a file is a
  parameter; the messages inside the errors are represented by the errors they show.  A loop that
  does not end has the value \<open>None\<close>.
\<close>

datatype read_error = NotFound | OtherIo string

datatype composition_error =
    SubGraphNotFound string
  | SubNoStartNode string
  | SubNoExitNode string
  | CycleDetected string
  | SubParseError string parse_error
  | SubResolutionError string resolution_error
  | MissingPipelineAttr string
  | SubIoError string string

section \<open>Composing two graphs\<close>

definition prefix_id :: "string \<Rightarrow> string \<Rightarrow> string" where
  "prefix_id parent_id child_id = parent_id @ ''.'' @ child_id"

definition inline_node :: "string \<Rightarrow> graph_node \<Rightarrow> graph_node" where
  "inline_node node_id n =
     \<lparr>gn_id = prefix_id node_id (gn_id n),
      gn_type = (if gn_type n = Start \<or> gn_type n = Exit then Generic else gn_type n),
      gn_label = gn_label n, gn_attrs = gn_attrs n\<rparr>"

definition compose_graphs :: "graph \<Rightarrow> graph \<Rightarrow> string \<Rightarrow> composition_error + graph" where
  "compose_graphs parent sub node_id =
     (case start_nodes sub of
        [] \<Rightarrow> Inl (SubNoStartNode node_id)
      | start # _ \<Rightarrow>
     (case exit_nodes sub of
        [] \<Rightarrow> Inl (SubNoExitNode node_id)
      | exit # _ \<Rightarrow>
          (let incoming = edges_to parent node_id;
               outgoing = edges_from parent node_id;
               new_nodes = filter (\<lambda>n. gn_id n \<noteq> node_id) (g_nodes parent) @
                 map (inline_node node_id) (g_nodes sub);
               kept = filter (\<lambda>e. ge_from e \<noteq> node_id \<and> ge_to e \<noteq> node_id) (g_edges parent);
               into = map (\<lambda>e. e\<lparr>ge_to := prefix_id node_id (gn_id start)\<rparr>) incoming;
               out = map (\<lambda>e. e\<lparr>ge_from := prefix_id node_id (gn_id exit)\<rparr>) outgoing;
               inner = map (\<lambda>e. e\<lparr>ge_from := prefix_id node_id (ge_from e),
                                    ge_to := prefix_id node_id (ge_to e)\<rparr>) (g_edges sub)
           in Inr (parent\<lparr>g_nodes := new_nodes, g_edges := kept @ into @ out @ inner\<rparr>))))"

section \<open>The transform\<close>

text \<open>\<open>Path::join\<close> on Unix.\<close>

definition resolve_path :: "string \<Rightarrow> string \<Rightarrow> string" where
  "resolve_path base_dir pipeline_path =
     (if take 1 pipeline_path = ''/'' then pipeline_path
      else if base_dir = [] \<or> last base_dir = CHR ''/'' then base_dir @ pipeline_path
      else base_dir @ ''/'' @ pipeline_path)"

definition load_sub_graph ::
  "(string \<Rightarrow> read_error + string) \<Rightarrow> string \<Rightarrow> (composition_error, graph) result option" where
  "load_sub_graph read path =
     (case read path of
        Inl NotFound \<Rightarrow> Some (Inl (Err (SubGraphNotFound path)))
      | Inl (OtherIo message) \<Rightarrow> Some (Inl (Err (SubIoError path message)))
      | Inr content \<Rightarrow>
          (case parse content of
             None \<Rightarrow> None
           | Some (Inl (Panic p)) \<Rightarrow> Some (Inl (Panic p))
           | Some (Inl (Err e)) \<Rightarrow> Some (Inl (Err (SubParseError path e)))
           | Some (Inr dot_graph) \<Rightarrow>
               Some (map_sum (\<lambda>e. Err (SubResolutionError path e)) id (resolve dot_graph))))"

text \<open>One round of the loop: the graph is finished, or fails, or has one sub-pipeline fewer.\<close>

datatype round = Done graph | Failed "composition_error fault" | Again graph

definition sub_pipeline_node :: "graph \<Rightarrow> graph_node option" where
  "sub_pipeline_node g = List.find (\<lambda>n. gn_type n = SubPipeline) (g_nodes g)"

definition apply_round :: "(string \<Rightarrow> read_error + string) \<Rightarrow> string \<Rightarrow> graph \<Rightarrow> round option" where
  "apply_round read base_dir current =
     (case sub_pipeline_node current of
        None \<Rightarrow> Some (Done current)
      | Some n \<Rightarrow>
          (case gn_attrs n ''pipeline'' of
             Some (AString p) \<Rightarrow>
               (case load_sub_graph read (resolve_path base_dir p) of
                  None \<Rightarrow> None
                | Some (Inl e) \<Rightarrow> Some (Failed e)
                | Some (Inr sub) \<Rightarrow>
                    (case compose_graphs current sub (gn_id n) of
                       Inl e \<Rightarrow> Some (Failed (Err e))
                     | Inr g \<Rightarrow> Some (Again g)))
           | _ \<Rightarrow> Some (Failed (Err (MissingPipelineAttr (gn_id n))))))"

partial_function (option) apply_sub_pipelines ::
  "(string \<Rightarrow> read_error + string) \<Rightarrow> string \<Rightarrow> graph \<Rightarrow> (composition_error, graph) result option" where
  "apply_sub_pipelines read base_dir current =
     (case apply_round read base_dir current of
        None \<Rightarrow> None
      | Some (Done g) \<Rightarrow> Some (Inr g)
      | Some (Failed e) \<Rightarrow> Some (Inl e)
      | Some (Again g) \<Rightarrow> apply_sub_pipelines read base_dir g)"

section \<open>What composing keeps\<close>

lemma prefix_id_inj [simp]: "prefix_id p a = prefix_id p b \<longleftrightarrow> a = b"
  by (simp add: prefix_id_def)

lemma prefix_id_ne [simp]: "prefix_id p a \<noteq> p" "p \<noteq> prefix_id p a"
  by (auto simp: prefix_id_def)

lemma inline_node_simps [simp]:
  "gn_id (inline_node i n) = prefix_id i (gn_id n)"
  "gn_type (inline_node i n) = (if gn_type n = Start \<or> gn_type n = Exit then Generic else gn_type n)"
  by (simp_all add: inline_node_def)

text \<open>No node of the parent already has one of the ids the sub-graph gets.\<close>

definition no_clash :: "graph \<Rightarrow> graph \<Rightarrow> string \<Rightarrow> bool" where
  "no_clash parent sub i \<longleftrightarrow> set (node_ids parent) \<inter> prefix_id i ` set (node_ids sub) = {}"

text \<open>The entry and the exit of a graph that is inlined for a node.\<close>

definition entry_id :: "graph \<Rightarrow> string \<Rightarrow> string" where
  "entry_id sub i = prefix_id i (gn_id (hd (start_nodes sub)))"

definition exit_id :: "graph \<Rightarrow> string \<Rightarrow> string" where
  "exit_id sub i = prefix_id i (gn_id (hd (exit_nodes sub)))"

lemma compose_graphs_Inr:
  assumes "compose_graphs parent sub i = Inr g"
  shows "g_nodes g = filter (\<lambda>n. gn_id n \<noteq> i) (g_nodes parent) @ map (inline_node i) (g_nodes sub)"
    and "g_edges g = filter (\<lambda>e. ge_from e \<noteq> i \<and> ge_to e \<noteq> i) (g_edges parent) @
       map (\<lambda>e. e\<lparr>ge_to := entry_id sub i\<rparr>) (edges_to parent i) @
       map (\<lambda>e. e\<lparr>ge_from := exit_id sub i\<rparr>) (edges_from parent i) @
       map (\<lambda>e. e\<lparr>ge_from := prefix_id i (ge_from e), ge_to := prefix_id i (ge_to e)\<rparr>) (g_edges sub)"
    and "start_nodes sub \<noteq> []" "exit_nodes sub \<noteq> []"
  using assms by (auto simp: compose_graphs_def Let_def entry_id_def exit_id_def split: list.splits)

lemma compose_graphs_ids:
  assumes "compose_graphs parent sub i = Inr g"
  shows "node_ids g = filter (\<lambda>j. j \<noteq> i) (node_ids parent) @ map (prefix_id i) (node_ids sub)"
  by (simp add: compose_graphs_Inr(1) [OF assms] node_ids_def filter_map o_def)

lemma boundary_known:
  assumes "compose_graphs parent sub i = Inr g"
  shows "entry_id sub i \<in> prefix_id i ` set (node_ids sub)" "exit_id sub i \<in> prefix_id i ` set (node_ids sub)"
  using hd_in_set [OF compose_graphs_Inr(3) [OF assms]] hd_in_set [OF compose_graphs_Inr(4) [OF assms]]
  by (auto simp: entry_id_def exit_id_def node_ids_def start_nodes_def exit_nodes_def)

definition ends :: "graph \<Rightarrow> (string \<times> string) set" where
  "ends g = (\<lambda>e. (ge_from e, ge_to e)) ` set (g_edges g)"

lemma wf_graph_ends: "wf_graph g \<longleftrightarrow> distinct (node_ids g) \<and> ends g \<subseteq> set (node_ids g) \<times> set (node_ids g)"
  by (auto simp: wf_graph_def ends_def list_all_iff)

lemma successors_ends: "set (successors g j) = {k. (j, k) \<in> ends g}"
  by (auto simp: successors_def ends_def)

lemma compose_graphs_ends:
  assumes "compose_graphs parent sub i = Inr g"
  shows "(a, b) \<in> ends g \<longleftrightarrow>
     (a, b) \<in> ends parent \<and> a \<noteq> i \<and> b \<noteq> i \<or>
     (a, i) \<in> ends parent \<and> b = entry_id sub i \<or>
     (i, b) \<in> ends parent \<and> a = exit_id sub i \<or>
     (\<exists>c d. (c, d) \<in> ends sub \<and> a = prefix_id i c \<and> b = prefix_id i d)"
proof -
  have *: "(x, y) \<in> ends h \<longleftrightarrow> (\<exists>e\<in>set (g_edges h). ge_from e = x \<and> ge_to e = y)" for x y h
    by (auto simp: ends_def)
  let ?P = "\<lambda>e. ge_from e = a \<and> ge_to e = b"
  have 1: "(\<exists>e\<in>set (filter (\<lambda>e. ge_from e \<noteq> i \<and> ge_to e \<noteq> i) (g_edges parent)). ?P e) \<longleftrightarrow>
      (a, b) \<in> ends parent \<and> a \<noteq> i \<and> b \<noteq> i" by (auto simp: *)
  have 2: "(\<exists>e\<in>set (map (\<lambda>e. e\<lparr>ge_to := entry_id sub i\<rparr>) (edges_to parent i)). ?P e) \<longleftrightarrow>
      (a, i) \<in> ends parent \<and> b = entry_id sub i" by (auto simp: * edges_to_def)
  have 3: "(\<exists>e\<in>set (map (\<lambda>e. e\<lparr>ge_from := exit_id sub i\<rparr>) (edges_from parent i)). ?P e) \<longleftrightarrow>
      (i, b) \<in> ends parent \<and> a = exit_id sub i" by (auto simp: * edges_from_def)
  have 4: "(\<exists>e\<in>set (map (\<lambda>e. e\<lparr>ge_from := prefix_id i (ge_from e), ge_to := prefix_id i (ge_to e)\<rparr>)
        (g_edges sub)). ?P e) \<longleftrightarrow>
      (\<exists>c d. (c, d) \<in> ends sub \<and> a = prefix_id i c \<and> b = prefix_id i d)" by (auto simp: *)
  show ?thesis
    unfolding * [of a b g] compose_graphs_Inr(2) [OF assms] set_append bex_Un 1 2 3 4 by (rule refl)
qed

text \<open>C38. Inlining a well-formed sub-graph whose prefixed ids are new gives a well-formed graph exactly
  when the replaced node has no edge to itself: such an edge is kept twice, each time with one end
  at the node that is gone.\<close>

theorem compose_graphs_well_formed:
  assumes "compose_graphs parent sub i = Inr g" "wf_graph parent" "wf_graph sub" "no_clash parent sub i"
  shows "wf_graph g \<longleftrightarrow> i \<notin> set (successors parent i)"
proof -
  note ids = compose_graphs_ids [OF assms(1)]
  note ends = compose_graphs_ends [OF assms(1)]
  have d: "distinct (node_ids g)"
    using assms(2-4) by (auto simp: ids wf_graph_def no_clash_def distinct_map inj_on_def)
  have i: "i \<notin> set (node_ids g)" by (auto simp: ids)
  show ?thesis
  proof
    assume wf: "wf_graph g"
    show "i \<notin> set (successors parent i)"
    proof
      assume "i \<in> set (successors parent i)"
      then have "(i, entry_id sub i) \<in> ends g" by (simp add: ends successors_ends)
      with wf i show False by (auto simp: wf_graph_ends)
    qed
  next
    assume self: "i \<notin> set (successors parent i)"
    have "a \<in> set (node_ids g) \<and> b \<in> set (node_ids g)" if "(a, b) \<in> ends g" for a b
    proof -
      have P: "(x, y) \<in> ends parent \<Longrightarrow> x \<in> set (node_ids parent) \<and> y \<in> set (node_ids parent)" for x y
        using assms(2) by (auto simp: wf_graph_ends)
      have S: "(x, y) \<in> ends sub \<Longrightarrow> x \<in> set (node_ids sub) \<and> y \<in> set (node_ids sub)" for x y
        using assms(3) by (auto simp: wf_graph_ends)
      have n: "(i, i) \<notin> ends parent" using self by (simp add: successors_ends)
      have ids': "x \<in> set (node_ids g) \<longleftrightarrow> x \<in> set (node_ids parent) \<and> x \<noteq> i \<or>
          x \<in> prefix_id i ` set (node_ids sub)" for x by (auto simp: ids)
      from that show ?thesis
        unfolding ends ids'
        using P [of a b] P [of a i] P [of i b] S n boundary_known [OF assms(1)]
        by (elim disjE exE conjE) (simp_all, auto)
    qed
    with d show "wf_graph g" by (auto simp: wf_graph_ends)
  qed
qed

text \<open>Where the edges of the composed graph lead: those of the parent as before, with the entry of the
  sub-graph in place of the replaced node; inside the sub-graph as there, and from its exit also
  to where the replaced node led.\<close>

theorem compose_graphs_successors:
  assumes "compose_graphs parent sub i = Inr g" "wf_graph parent" "wf_graph sub" "no_clash parent sub i"
    "i \<notin> set (successors parent i)"
  shows "(\<forall>j. j \<in> set (node_ids parent) \<and> j \<noteq> i \<longrightarrow> set (successors g j) =
        (\<lambda>k. if k = i then entry_id sub i else k) ` set (successors parent j)) \<and>
    (\<forall>c. c \<in> set (node_ids sub) \<longrightarrow> set (successors g (prefix_id i c)) =
        prefix_id i ` set (successors sub c) \<union>
        (if prefix_id i c = exit_id sub i then set (successors parent i) else {}))"
proof (intro conjI allI impI)
  note ends = compose_graphs_ends [OF assms(1)]
  have P: "(x, y) \<in> ends parent \<Longrightarrow> x \<in> set (node_ids parent) \<and> y \<in> set (node_ids parent)" for x y
    using assms(2) by (auto simp: wf_graph_ends)
  have S: "(x, y) \<in> ends sub \<Longrightarrow> x \<in> set (node_ids sub)" for x y using assms(3) by (auto simp: wf_graph_ends)
  have C: "x \<in> set (node_ids parent) \<Longrightarrow> c \<in> set (node_ids sub) \<Longrightarrow> x \<noteq> prefix_id i c" for x c
    using assms(4) by (auto simp: no_clash_def)
  {
    fix j assume j: "j \<in> set (node_ids parent) \<and> j \<noteq> i"
    then have "j \<noteq> exit_id sub i" "(c, d) \<in> ends sub \<Longrightarrow> j \<noteq> prefix_id i c" for c d
      using C boundary_known(2) [OF assms(1)] S by blast+
    with j have "(j, k) \<in> ends g \<longleftrightarrow> (j, k) \<in> ends parent \<and> k \<noteq> i \<or> (j, i) \<in> ends parent \<and> k = entry_id sub i" for k
      unfolding ends by blast
    then show "set (successors g j) = (\<lambda>k. if k = i then entry_id sub i else k) ` set (successors parent j)"
      by (auto simp: successors_ends image_iff)
  next
    fix c assume c: "c \<in> set (node_ids sub)"
    then have "(prefix_id i c, k) \<notin> ends parent" for k using P C by blast
    then show "set (successors g (prefix_id i c)) = prefix_id i ` set (successors sub c) \<union>
        (if prefix_id i c = exit_id sub i then set (successors parent i) else {})"
      by (auto simp: successors_ends ends)
  }
qed

section \<open>The transform ends\<close>

lemma shape_type_not_sub [simp]: "shape_type a d \<noteq> SubPipeline"
  by (auto simp: shape_type_def node_type_from_shape_def split: option.split)

lemma resolve_no_sub:
  assumes "resolve dg = Inr g" "n \<in> set (g_nodes g)"
  shows "gn_type n \<noteq> SubPipeline"
proof -
  from resolve_Inr [OF assms(1)] obtain dn ms "is" where
    "g_nodes g = map (make_node dn) ms @ map (auto_node dn) is" by metis
  with assms(2) show ?thesis by (auto simp: make_node_def auto_node_def Let_def)
qed

lemma load_sub_graph_Inr:
  assumes "load_sub_graph read path = Some (Inr sub)"
  shows "\<exists>content dg. read path = Inr content \<and> parse content = Some (Inr dg) \<and> resolve dg = Inr sub"
  using assms
  by (auto simp: load_sub_graph_def map_sum_def split: sum.splits option.splits read_error.splits fault.splits)

lemma load_sub_graph_no_sub:
  assumes "load_sub_graph read path = Some (Inr sub)" "n \<in> set (g_nodes sub)"
  shows "gn_type n \<noteq> SubPipeline"
  using load_sub_graph_Inr [OF assms(1)] assms(2) by (auto dest: resolve_no_sub)

lemma parse_fuel: "parse s \<noteq> None"
proof (cases "tokenize s")
  case (Inr ts)
  then show ?thesis using parse_graph_fuel [of ts "Suc (length ts)"] by (auto simp: parse_def returned_def)
qed (simp add: parse_def split: fault.split)

lemma load_sub_graph_returns: "load_sub_graph read path \<noteq> None"
  by (auto simp: load_sub_graph_def parse_fuel split: sum.split option.split read_error.split fault.split)

definition sub_count :: "graph \<Rightarrow> nat" where
  "sub_count g = length (filter (\<lambda>n. gn_type n = SubPipeline) (g_nodes g))"

lemma compose_sub_count:
  assumes "compose_graphs g sub (gn_id n) = Inr g'" "n \<in> set (g_nodes g)" "gn_type n = SubPipeline"
    "\<forall>m\<in>set (g_nodes sub). gn_type m \<noteq> SubPipeline"
  shows "sub_count g' < sub_count g"
proof -
  have "filter (\<lambda>n. gn_type n = SubPipeline) (map (inline_node (gn_id n)) (g_nodes sub)) = []"
    using assms(4) by (auto simp: filter_empty_conv)
  then have "sub_count g' = length (filter (\<lambda>m. gn_id m \<noteq> gn_id n) (filter (\<lambda>n. gn_type n = SubPipeline) (g_nodes g)))"
    by (simp add: sub_count_def compose_graphs_Inr(1) [OF assms(1)] conj_commute)
  also have "\<dots> < sub_count g"
    unfolding sub_count_def using assms(2,3) by (intro length_filter_less [of n]) auto
  finally show ?thesis .
qed

lemma apply_round_again:
  assumes "apply_round read base g = Some (Again g')"
  shows "sub_count g' < sub_count g"
  using assms load_sub_graph_no_sub
  by (auto simp: apply_round_def sub_pipeline_node_def find_Some_iff split: option.splits attr_val.splits sum.splits
      intro!: compose_sub_count)

lemma apply_round_returns: "apply_round read base g \<noteq> None"
  by (auto simp: apply_round_def load_sub_graph_returns split: option.split attr_val.split sum.split)

text \<open>Inlining sub-pipelines always ends: the files it reads resolve to graphs without sub-pipeline
  nodes, so each round leaves fewer of them.  A graph it returns has none left, and it never
  reports a cycle.\<close>

theorem apply_sub_pipelines_returns:
  "\<exists>r. apply_sub_pipelines read base g = Some r \<and>
     (case r of Inr g' \<Rightarrow> list_all (\<lambda>n. gn_type n \<noteq> SubPipeline) (g_nodes g')
        | Inl e \<Rightarrow> \<forall>i. e \<noteq> Err (CycleDetected i))"
proof (induction g rule: measure_induct_rule [where f = sub_count])
  case (less g)
  obtain rd where rd: "apply_round read base g = Some rd" using apply_round_returns by blast
  have ld: "load_sub_graph read p \<noteq> Some (Inl (Err (CycleDetected i)))" for p i
    by (auto simp: load_sub_graph_def map_sum_def split: sum.split option.split read_error.split fault.split)
  have co: "compose_graphs h sub j \<noteq> Inl (CycleDetected i)" for h sub j i
    by (auto simp: compose_graphs_def Let_def split: list.split)
  show ?case
  proof (cases rd)
    case (Done h)
    with rd have "h = g" "sub_pipeline_node g = None"
      by (auto simp: apply_round_def split: option.splits attr_val.splits sum.splits)
    then show ?thesis using rd Done
      by (subst apply_sub_pipelines.simps) (simp add: sub_pipeline_node_def find_None_iff list_all_iff)
  next
    case (Failed e)
    with rd ld co have "e \<noteq> Err (CycleDetected i)" for i
      by (auto simp: apply_round_def split: option.splits attr_val.splits sum.splits)
    then show ?thesis using rd Failed by (subst apply_sub_pipelines.simps) simp
  next
    case (Again h)
    with rd less apply_round_again have "\<exists>r. apply_sub_pipelines read base h = Some r \<and>
      (case r of Inr g' \<Rightarrow> list_all (\<lambda>n. gn_type n \<noteq> SubPipeline) (g_nodes g')
        | Inl e \<Rightarrow> \<forall>i. e \<noteq> Err (CycleDetected i))" by blast
    then show ?thesis using rd Again by (subst apply_sub_pipelines.simps) simp
  qed
qed

text \<open>No DOT source resolves to a graph with a sub-pipeline node, so on every graph that comes from
  DOT the transform is the identity and reads no file.\<close>

theorem apply_sub_pipelines_identity:
  assumes "resolve dg = Inr g"
  shows "apply_sub_pipelines read base g = Some (Inr g)"
proof -
  have "sub_pipeline_node g = None"
    using resolve_no_sub [OF assms] by (auto simp: sub_pipeline_node_def find_None_iff)
  then show ?thesis by (subst apply_sub_pipelines.simps) (simp add: apply_round_def)
qed

theorem apply_sub_pipelines_identity_witness:
  "\<exists>g. resolve sample_dot = Inr g \<and> apply_sub_pipelines (\<lambda>_. Inl NotFound) ''.'' g = Some (Inr g)"
  using sample_dot_resolves apply_sub_pipelines_identity by blast

section \<open>An example\<close>

definition plain_node :: "string \<Rightarrow> node_type \<Rightarrow> graph_node" where
  "plain_node i t = \<lparr>gn_id = i, gn_type = t, gn_label = None, gn_attrs = Map.empty\<rparr>"

definition plain_edge :: "string \<Rightarrow> string \<Rightarrow> graph_edge" where
  "plain_edge a b = \<lparr>ge_from = a, ge_to = b, ge_label = None, ge_condition = None, ge_priority = None,
     ge_loop_restart = False, ge_attrs = Map.empty\<rparr>"

definition plain_graph :: "graph_node list \<Rightarrow> graph_edge list \<Rightarrow> graph" where
  "plain_graph ns es = \<lparr>g_name = None, g_nodes = ns, g_edges = es, g_default_node_attrs = Map.empty,
     g_default_edge_attrs = Map.empty, g_graph_attrs = Map.empty\<rparr>"

definition sample_parent :: graph where
  "sample_parent = plain_graph [plain_node ''s'' Start, plain_node ''p'' SubPipeline, plain_node ''x'' Exit]
     [plain_edge ''s'' ''p'', plain_edge ''p'' ''x'']"

definition sample_sub :: graph where
  "sample_sub = plain_graph [plain_node ''a'' Start, plain_node ''b'' Exit] [plain_edge ''a'' ''b'']"

lemmas sample_simps = sample_parent_def sample_sub_def plain_graph_def plain_node_def plain_edge_def

lemma sample_facts:
  "wf_graph sample_parent" "wf_graph sample_sub" "no_clash sample_parent sample_sub ''p''"
  "''p'' \<notin> set (successors sample_parent ''p'')"
  by (simp_all add: sample_simps wf_graph_def node_ids_def no_clash_def prefix_id_def successors_def)

lemma sample_composes: "\<exists>g. compose_graphs sample_parent sample_sub ''p'' = Inr g"
  by (simp add: compose_graphs_def sample_simps start_nodes_def exit_nodes_def Let_def)

theorem compose_graphs_well_formed_witness:
  "\<exists>g. compose_graphs sample_parent sample_sub ''p'' = Inr g \<and> wf_graph g"
  using sample_composes compose_graphs_well_formed sample_facts by blast

theorem compose_graphs_successors_witness:
  "\<exists>g. compose_graphs sample_parent sample_sub ''p'' = Inr g \<and>
     set (successors g ''s'') = {''p.a''} \<and> set (successors g ''p.b'') = {''x''}"
proof -
  obtain g where g: "compose_graphs sample_parent sample_sub ''p'' = Inr g" using sample_composes by blast
  note * = compose_graphs_successors [OF g sample_facts]
  from * have "set (successors g ''s'') =
      (\<lambda>k. if k = ''p'' then entry_id sample_sub ''p'' else k) ` set (successors sample_parent ''s'')"
    by (simp add: sample_simps node_ids_def)
  moreover from * have "set (successors g (prefix_id ''p'' ''b'')) =
      prefix_id ''p'' ` set (successors sample_sub ''b'') \<union>
      (if prefix_id ''p'' ''b'' = exit_id sample_sub ''p'' then set (successors sample_parent ''p'') else {})"
    by (simp add: sample_simps node_ids_def)
  ultimately show ?thesis using g
    by (simp add: sample_simps successors_def entry_id_def exit_id_def start_nodes_def exit_nodes_def prefix_id_def)
qed

end
