(* ===== verification/Llm_Types.thy ===== *)
theory Llm_Types
  imports State
begin

text \<open>
  The vocabulary of the LLM client, \<open>smasher-llm/src/types/\<close>: roles, content parts, messages, tool
  definitions, requests, responses, usage and errors.  JSON values are those of the run state.  A
  single-precision float is only passed on, so it is its 32 bits.  An error of the HTTP library
  is known by the three questions the code asks of it.
\<close>

section \<open>Roles and content\<close>

datatype role = Role_System | Role_User | Role_Assistant | Role_Tool | Role_Developer

fun role_display :: "role \<Rightarrow> string" where
  "role_display Role_System = ''system''"
| "role_display Role_User = ''user''"
| "role_display Role_Assistant = ''assistant''"
| "role_display Role_Tool = ''tool''"
| "role_display Role_Developer = ''developer''"

datatype source_type = Source_Base64 | Source_Url

record image_data =
  im_source_type :: source_type
  im_media_type :: "string option"
  im_data :: string

record audio_data =
  au_data :: string
  au_format :: string

record document_data =
  do_source_type :: source_type
  do_media_type :: "string option"
  do_data :: string
  do_filename :: "string option"

record tool_call_data =
  tc_id :: string
  tc_name :: string
  tc_arguments :: string
  tc_raw_arguments :: "string option"

record tool_result_data =
  tr_tool_call_id :: string
  tr_content :: string
  tr_is_error :: bool

record thinking_data =
  th_thinking :: string
  th_signature :: "string option"
  th_redacted :: bool

record redacted_thinking_data =
  rt_data :: string

datatype content_part =
    CP_Text string
  | CP_Image image_data
  | CP_Audio audio_data
  | CP_Document document_data
  | CP_ToolCall tool_call_data
  | CP_ToolResult tool_result_data
  | CP_Thinking thinking_data
  | CP_RedactedThinking redacted_thinking_data

fun as_text :: "content_part \<Rightarrow> string option" where
  "as_text (CP_Text t) = Some t"
| "as_text _ = None"

fun is_tool_call :: "content_part \<Rightarrow> bool" where
  "is_tool_call (CP_ToolCall _) = True"
| "is_tool_call _ = False"

fun as_tool_call :: "content_part \<Rightarrow> tool_call_data option" where
  "as_tool_call (CP_ToolCall d) = Some d"
| "as_tool_call _ = None"

fun as_thinking :: "content_part \<Rightarrow> string option" where
  "as_thinking (CP_Thinking d) = Some (th_thinking d)"
| "as_thinking _ = None"

text \<open>The concatenated pieces, if there are any.\<close>

definition joined_texts :: "string list \<Rightarrow> string option" where
  "joined_texts texts = (if texts = [] then None else Some (concat texts))"

definition content_text :: "content_part list \<Rightarrow> string option" where
  "content_text parts = joined_texts (List.map_filter as_text parts)"

definition content_tool_calls :: "content_part list \<Rightarrow> tool_call_data list" where
  "content_tool_calls parts = List.map_filter as_tool_call parts"

section \<open>Messages\<close>

record message =
  ms_role :: role
  ms_content :: "content_part list"
  ms_name :: "string option"
  ms_tool_call_id :: "string option"

definition plain_message :: "role \<Rightarrow> content_part list \<Rightarrow> message" where
  "plain_message r parts = \<lparr>ms_role = r, ms_content = parts, ms_name = None, ms_tool_call_id = None\<rparr>"

definition system_message :: "string \<Rightarrow> message" where
  "system_message t = plain_message Role_System [CP_Text t]"

definition user_message :: "string \<Rightarrow> message" where
  "user_message t = plain_message Role_User [CP_Text t]"

definition assistant_message :: "string \<Rightarrow> message" where
  "assistant_message t = plain_message Role_Assistant [CP_Text t]"

definition developer_message :: "string \<Rightarrow> message" where
  "developer_message t = plain_message Role_Developer [CP_Text t]"

definition tool_result_message :: "string \<Rightarrow> string \<Rightarrow> bool \<Rightarrow> message" where
  "tool_result_message call_id content is_error =
     \<lparr>ms_role = Role_Tool,
      ms_content = [CP_ToolResult \<lparr>tr_tool_call_id = call_id, tr_content = content, tr_is_error = is_error\<rparr>],
      ms_name = None, ms_tool_call_id = Some call_id\<rparr>"

definition assistant_with_tool_calls :: "tool_call_data list \<Rightarrow> message" where
  "assistant_with_tool_calls calls = plain_message Role_Assistant (map CP_ToolCall calls)"

definition message_first_text :: "message \<Rightarrow> string option" where
  "message_first_text m = find_map as_text (ms_content m)"

definition message_text :: "message \<Rightarrow> string option" where
  "message_text m = content_text (ms_content m)"

definition message_tool_calls :: "message \<Rightarrow> tool_call_data list" where
  "message_tool_calls m = content_tool_calls (ms_content m)"

definition message_has_tool_calls :: "message \<Rightarrow> bool" where
  "message_has_tool_calls m \<longleftrightarrow> list_ex is_tool_call (ms_content m)"

definition with_name :: "string \<Rightarrow> message \<Rightarrow> message" where
  "with_name name m = m\<lparr>ms_name := Some name\<rparr>"

definition with_tool_call_id :: "string \<Rightarrow> message \<Rightarrow> message" where
  "with_tool_call_id i m = m\<lparr>ms_tool_call_id := Some i\<rparr>"

section \<open>Responses\<close>

datatype finish_reason =
    FR_Stop | FR_Length | FR_ToolUse | FR_ContentFilter | FR_Error | FR_Other string

record usage =
  us_input_tokens :: "32 word"
  us_output_tokens :: "32 word"
  us_cache_read_tokens :: "32 word option"
  us_cache_creation_tokens :: "32 word option"
  us_reasoning_tokens :: "32 word option"
  us_total_tokens :: "32 word option"
  us_raw :: "json option"

definition default_usage :: usage where
  "default_usage = \<lparr>us_input_tokens = 0, us_output_tokens = 0, us_cache_read_tokens = None,
     us_cache_creation_tokens = None, us_reasoning_tokens = None, us_total_tokens = None, us_raw = None\<rparr>"

fun add_optional :: "32 word option \<Rightarrow> 32 word option \<Rightarrow> 32 word option" where
  "add_optional (Some x) (Some y) = Some (x + y)"
| "add_optional (Some x) None = Some x"
| "add_optional None (Some y) = Some y"
| "add_optional None None = None"

text \<open>The sums wrap, as in a release build; a debug build panics when one overflows.\<close>

definition usage_add :: "usage \<Rightarrow> usage \<Rightarrow> usage" where
  "usage_add a b =
     \<lparr>us_input_tokens = us_input_tokens a + us_input_tokens b,
      us_output_tokens = us_output_tokens a + us_output_tokens b,
      us_cache_read_tokens = add_optional (us_cache_read_tokens a) (us_cache_read_tokens b),
      us_cache_creation_tokens = add_optional (us_cache_creation_tokens a) (us_cache_creation_tokens b),
      us_reasoning_tokens = add_optional (us_reasoning_tokens a) (us_reasoning_tokens b),
      us_total_tokens = add_optional (us_total_tokens a) (us_total_tokens b),
      us_raw = None\<rparr>"

record llm_warning =
  wa_code :: string
  wa_message :: string

record rate_limit_info =
  rl_requests_remaining :: "nat option"
  rl_requests_limit :: "nat option"
  rl_tokens_remaining :: "nat option"
  rl_tokens_limit :: "nat option"
  rl_reset_at :: "int option"

record response =
  rs_id :: string
  rs_model :: string
  rs_content :: "content_part list"
  rs_finish_reason :: "finish_reason option"
  rs_usage :: usage
  rs_warnings :: "llm_warning list"
  rs_rate_limit :: "rate_limit_info option"
  rs_provider :: "string option"
  rs_raw :: "json option"

definition response_text :: "response \<Rightarrow> string option" where
  "response_text r = content_text (rs_content r)"

definition response_reasoning :: "response \<Rightarrow> string option" where
  "response_reasoning r = joined_texts (List.map_filter as_thinking (rs_content r))"

definition response_tool_calls :: "response \<Rightarrow> tool_call_data list" where
  "response_tool_calls r = content_tool_calls (rs_content r)"

definition response_has_tool_calls :: "response \<Rightarrow> bool" where
  "response_has_tool_calls r \<longleftrightarrow> list_ex is_tool_call (rs_content r)"

section \<open>Requests\<close>

type_synonym f32 = "32 word"

record tool_definition =
  td_name :: string
  td_description :: string
  td_parameters :: json

datatype tool_choice = TC_Auto | TC_None | TC_Required | TC_Specific string

datatype response_format = RF_Text | RF_JsonObject | RF_JsonSchema string json bool

record thinking_config =
  tk_enabled :: bool
  tk_budget_tokens :: "32 word option"

record request =
  rq_model :: string
  rq_messages :: "message list"
  rq_system_prompt :: "string option"
  rq_max_tokens :: "32 word option"
  rq_temperature :: "f32 option"
  rq_top_p :: "f32 option"
  rq_stop_sequences :: "string list option"
  rq_tools :: "tool_definition list option"
  rq_tool_choice :: "tool_choice option"
  rq_response_format :: "response_format option"
  rq_thinking :: "thinking_config option"
  rq_stream :: "bool option"
  rq_extra :: "json option"
  rq_provider :: "string option"
  rq_reasoning_effort :: "string option"
  rq_metadata :: "json option"
  rq_provider_options :: "json hmap option"

definition request_new :: "string \<Rightarrow> message list \<Rightarrow> request" where
  "request_new model messages =
     \<lparr>rq_model = model, rq_messages = messages, rq_system_prompt = None, rq_max_tokens = None,
      rq_temperature = None, rq_top_p = None, rq_stop_sequences = None, rq_tools = None,
      rq_tool_choice = None, rq_response_format = None, rq_thinking = None, rq_stream = None,
      rq_extra = None, rq_provider = None, rq_reasoning_effort = None, rq_metadata = None,
      rq_provider_options = None\<rparr>"

text \<open>The builder methods.\<close>

definition set_system_prompt :: "string \<Rightarrow> request \<Rightarrow> request" where
  "set_system_prompt v r = r\<lparr>rq_system_prompt := Some v\<rparr>"

definition set_max_tokens :: "32 word \<Rightarrow> request \<Rightarrow> request" where
  "set_max_tokens v r = r\<lparr>rq_max_tokens := Some v\<rparr>"

definition set_temperature :: "f32 \<Rightarrow> request \<Rightarrow> request" where
  "set_temperature v r = r\<lparr>rq_temperature := Some v\<rparr>"

definition set_top_p :: "f32 \<Rightarrow> request \<Rightarrow> request" where
  "set_top_p v r = r\<lparr>rq_top_p := Some v\<rparr>"

definition set_stop_sequences :: "string list \<Rightarrow> request \<Rightarrow> request" where
  "set_stop_sequences v r = r\<lparr>rq_stop_sequences := Some v\<rparr>"

definition set_tools :: "tool_definition list \<Rightarrow> request \<Rightarrow> request" where
  "set_tools v r = r\<lparr>rq_tools := Some v\<rparr>"

definition set_tool_choice :: "tool_choice \<Rightarrow> request \<Rightarrow> request" where
  "set_tool_choice v r = r\<lparr>rq_tool_choice := Some v\<rparr>"

definition set_response_format :: "response_format \<Rightarrow> request \<Rightarrow> request" where
  "set_response_format v r = r\<lparr>rq_response_format := Some v\<rparr>"

definition set_thinking :: "thinking_config \<Rightarrow> request \<Rightarrow> request" where
  "set_thinking v r = r\<lparr>rq_thinking := Some v\<rparr>"

definition set_stream :: "bool \<Rightarrow> request \<Rightarrow> request" where
  "set_stream v r = r\<lparr>rq_stream := Some v\<rparr>"

definition set_extra :: "json \<Rightarrow> request \<Rightarrow> request" where
  "set_extra v r = r\<lparr>rq_extra := Some v\<rparr>"

definition set_provider :: "string \<Rightarrow> request \<Rightarrow> request" where
  "set_provider v r = r\<lparr>rq_provider := Some v\<rparr>"

definition set_reasoning_effort :: "string \<Rightarrow> request \<Rightarrow> request" where
  "set_reasoning_effort v r = r\<lparr>rq_reasoning_effort := Some v\<rparr>"

definition set_metadata :: "json \<Rightarrow> request \<Rightarrow> request" where
  "set_metadata v r = r\<lparr>rq_metadata := Some v\<rparr>"

definition set_provider_options :: "json hmap \<Rightarrow> request \<Rightarrow> request" where
  "set_provider_options v r = r\<lparr>rq_provider_options := Some v\<rparr>"

section \<open>Errors\<close>

record http_source =
  hs_is_timeout :: bool
  hs_is_connect :: bool
  hs_is_request :: bool
  hs_text :: string

text \<open>The arguments of the variants are in the order of the source's fields.\<close>

datatype llm_error =
    Authentication string string
  | RateLimited string "nat option"
  | Timeout string nat
  | ServerError string nat string
  | InvalidRequest string string
  | ModelNotFound string string
  | ContentFiltered string string
  | ContextLengthExceeded string string
  | StreamError string string
  | ResponseParse string string
  | HttpError string http_source
  | Serialization string
  | ProviderNotConfigured string
  | LlmCancelled
  | AccessDenied string string
  | QuotaExceeded string string
  | NetworkError string string
  | Aborted string
  | InvalidToolCall string string
  | NoObjectGenerated string string
  | ConfigurationError string
  | LlmOther string bool

fun retryable :: "llm_error \<Rightarrow> bool" where
  "retryable (RateLimited _ _) = True"
| "retryable (Timeout _ _) = True"
| "retryable (ServerError _ status_code _) = (status_code \<in> {500, 502, 503, 529})"
| "retryable (StreamError _ _) = True"
| "retryable (HttpError _ src) = (hs_is_timeout src \<or> hs_is_connect src \<or> hs_is_request src)"
| "retryable (NetworkError _ _) = True"
| "retryable (LlmOther _ r) = r"
| "retryable _ = False"

fun error_provider :: "llm_error \<Rightarrow> string option" where
  "error_provider (ContextLengthExceeded _ _) = None"
| "error_provider (Serialization _) = None"
| "error_provider (Aborted _) = None"
| "error_provider (ConfigurationError _) = None"
| "error_provider LlmCancelled = None"
| "error_provider (LlmOther _ _) = None"
| "error_provider (Authentication p _) = Some p"
| "error_provider (AccessDenied p _) = Some p"
| "error_provider (QuotaExceeded p _) = Some p"
| "error_provider (RateLimited p _) = Some p"
| "error_provider (Timeout p _) = Some p"
| "error_provider (ServerError p _ _) = Some p"
| "error_provider (InvalidRequest p _) = Some p"
| "error_provider (ModelNotFound p _) = Some p"
| "error_provider (ContentFiltered p _) = Some p"
| "error_provider (NetworkError p _) = Some p"
| "error_provider (InvalidToolCall p _) = Some p"
| "error_provider (NoObjectGenerated p _) = Some p"
| "error_provider (StreamError p _) = Some p"
| "error_provider (ResponseParse p _) = Some p"
| "error_provider (HttpError p _) = Some p"
| "error_provider (ProviderNotConfigured p) = Some p"

fun retry_after_ms :: "llm_error \<Rightarrow> nat option" where
  "retry_after_ms (RateLimited _ ms) = ms"
| "retry_after_ms _ = None"

datatype status_class =
    SC_Success | SC_RateLimited | SC_Authentication | SC_AccessDenied | SC_InvalidRequest
  | SC_NotFound | SC_ServerError | SC_Unknown

definition from_status :: "nat \<Rightarrow> status_class" where
  "from_status c =
     (if 200 \<le> c \<and> c \<le> 299 then SC_Success
      else if c = 401 then SC_Authentication
      else if c = 403 then SC_AccessDenied
      else if c = 404 then SC_NotFound
      else if c = 422 then SC_InvalidRequest
      else if c = 429 then SC_RateLimited
      else if c = 400 then SC_InvalidRequest
      else if 500 \<le> c \<and> c \<le> 599 then SC_ServerError
      else SC_Unknown)"

section \<open>Facts\<close>

named_theorems message_simps \<open>how the constructed messages look\<close>

lemma plain_message_simps [message_simps]:
  "ms_role (plain_message r ps) = r" "ms_content (plain_message r ps) = ps"
  "ms_tool_call_id (plain_message r ps) = None"
  by (simp_all add: plain_message_def)

lemma user_message_simps [message_simps]:
  "ms_role (user_message t) = Role_User" "message_tool_calls (user_message t) = []"
  by (simp_all add: user_message_def message_simps message_tool_calls_def content_tool_calls_def)

lemma tool_result_message_simps [message_simps]:
  "ms_role (tool_result_message i c e) = Role_Tool"
  "ms_tool_call_id (tool_result_message i c e) = Some i"
  by (simp_all add: tool_result_message_def)

lemma content_tool_calls_append:
  "content_tool_calls (xs @ ys) = content_tool_calls xs @ content_tool_calls ys"
  by (simp add: content_tool_calls_def map_filter_def)

lemma content_tool_calls_map [simp]: "content_tool_calls (map CP_ToolCall calls) = calls"
  by (induction calls) (simp_all add: content_tool_calls_def)

lemma has_tool_calls_iff: "list_ex is_tool_call parts \<longleftrightarrow> content_tool_calls parts \<noteq> []"
proof (induction parts)
  case (Cons p ps)
  then show ?case by (cases p) (simp_all add: content_tool_calls_def)
qed (simp add: content_tool_calls_def)

text \<open>The responses' usage, summed in order.\<close>

definition usage_sum :: "usage list \<Rightarrow> usage \<Rightarrow> usage" where
  "usage_sum us u = fold (\<lambda>x acc. usage_add acc x) us u"

lemma usage_sum_append: "usage_sum (xs @ ys) u = usage_sum ys (usage_sum xs u)"
  by (simp add: usage_sum_def)

lemma usage_sum_Cons [simp]: "usage_sum (x # xs) u = usage_sum xs (usage_add u x)"
  by (simp add: usage_sum_def)

lemma usage_sum_Nil [simp]: "usage_sum [] u = u"
  by (simp add: usage_sum_def)

section \<open>Answered conversations\<close>

text \<open>
  A conversation in which every tool call has its result: after an assistant message the results
  of its calls follow, in order, before the next assistant message; \<open>pend\<close> are the calls without a
  result yet.  Messages of the user, of the system and of the developer may stand anywhere.
\<close>

fun answered :: "string list \<Rightarrow> message list \<Rightarrow> bool" where
  "answered pend [] = (pend = [])"
| "answered pend (m # ms) =
     (case ms_role m of
        Role_Assistant \<Rightarrow> pend = [] \<and> answered (map tc_id (message_tool_calls m)) ms
      | Role_Tool \<Rightarrow> pend \<noteq> [] \<and> ms_tool_call_id m = Some (hd pend) \<and> answered (tl pend) ms
      | _ \<Rightarrow> answered pend ms)"

text \<open>The calls a conversation leaves without a result.\<close>

fun pending :: "string list \<Rightarrow> message list \<Rightarrow> string list option" where
  "pending pend [] = Some pend"
| "pending pend (m # ms) =
     (case ms_role m of
        Role_Assistant \<Rightarrow> (if pend = [] then pending (map tc_id (message_tool_calls m)) ms else None)
      | Role_Tool \<Rightarrow> (if pend \<noteq> [] \<and> ms_tool_call_id m = Some (hd pend) then pending (tl pend) ms else None)
      | _ \<Rightarrow> pending pend ms)"

lemma answered_pending: "answered pend ms \<longleftrightarrow> pending pend ms = Some []"
  by (induction ms arbitrary: pend) (auto split: role.split)

lemma pending_append:
  "pending pend (xs @ ys) = (case pending pend xs of None \<Rightarrow> None | Some p \<Rightarrow> pending p ys)"
  by (induction xs arbitrary: pend) (auto split: role.split)

lemma pending_user [simp]: "pending pend (user_message t # ms) = pending pend ms"
  by (simp add: message_simps)

lemma pending_users [simp]: "pending pend (map user_message ts @ ms) = pending pend ms"
  by (induction ts) (simp_all add: message_simps)

lemma pending_result [simp]:
  "pending (i # pend) (tool_result_message i c e # ms) = pending pend ms"
  by (simp add: message_simps)

lemma pending_results:
  "length rs = length ids \<Longrightarrow>
     pending (ids @ pend) (map (\<lambda>(i, c, e). tool_result_message i c e) (zip ids rs)) = Some pend"
  for rs :: "(string \<times> bool) list"
  by (induction rs ids rule: list_induct2) (auto simp: message_simps)

end
