(* ===== verification/Llm_Catalog.thy ===== *)
theory Llm_Catalog
  imports Float64
begin

text \<open>
  The catalogue of known models, \<open>smasher-llm/src/types/catalog.rs\<close>, and the database of models
  fetched at run time, \<open>smasher-llm/src/modeldb.rs\<close>.  The HTTP request, the cache file and the
  clock are parameters; times and durations are nanoseconds.
\<close>

section \<open>The catalogue\<close>

datatype provider = Anthropic | OpenAi | Gemini

fun provider_display :: "provider \<Rightarrow> string" where
  "provider_display Anthropic = ''anthropic''"
| "provider_display OpenAi = ''openai''"
| "provider_display Gemini = ''gemini''"

definition provider_from_str :: "string \<Rightarrow> string + provider" where
  "provider_from_str s =
     (let l = to_lower s in
      if l = ''anthropic'' then Inr Anthropic
      else if l = ''openai'' then Inr OpenAi
      else if l = ''gemini'' \<or> l = ''google'' then Inr Gemini
      else Inl (''unknown provider: '' @ l))"

record model_info =
  mi_id :: string
  mi_provider :: provider
  mi_display_name :: string
  mi_aliases :: "string list"
  mi_context_window :: nat
  mi_max_output_tokens :: nat
  mi_supports_images :: bool
  mi_supports_tool_use :: bool
  mi_supports_streaming :: bool
  mi_supports_thinking :: bool
  mi_supports_reasoning :: bool
  mi_supports_json_mode :: bool
  mi_supports_system_prompt :: bool
  mi_input_cost_per_million :: "f64 option"
  mi_output_cost_per_million :: "f64 option"

text \<open>An entry of the table; the costs are its decimal literals.\<close>

definition entry ::
  "string \<Rightarrow> provider \<Rightarrow> string \<Rightarrow> string list \<Rightarrow> nat \<Rightarrow> nat \<Rightarrow> bool \<Rightarrow> bool \<Rightarrow> bool \<Rightarrow> bool \<Rightarrow> bool \<Rightarrow> bool \<Rightarrow>
   bool \<Rightarrow> string \<Rightarrow> string \<Rightarrow> model_info" where
  "entry model_id p name aliases window max_output images tools streaming thinking reasoning json system
     input_cost output_cost =
     \<lparr>mi_id = model_id, mi_provider = p, mi_display_name = name, mi_aliases = aliases,
      mi_context_window = window, mi_max_output_tokens = max_output, mi_supports_images = images,
      mi_supports_tool_use = tools, mi_supports_streaming = streaming, mi_supports_thinking = thinking,
      mi_supports_reasoning = reasoning, mi_supports_json_mode = json, mi_supports_system_prompt = system,
      mi_input_cost_per_million = parse_f64 input_cost, mi_output_cost_per_million = parse_f64 output_cost\<rparr>"

definition anthropic_models :: "model_info list" where
  "anthropic_models = [
     entry ''claude-opus-4-6'' Anthropic ''Claude Opus 4.6'' [''claude-opus''] 1000000 128000
       True True True True True True True ''5.0'' ''25.0'',
     entry ''claude-sonnet-4-6'' Anthropic ''Claude Sonnet 4.6'' [''claude-sonnet''] 1000000 64000
       True True True True True True True ''3.0'' ''15.0'',
     entry ''claude-sonnet-4-5-20250929'' Anthropic ''Claude Sonnet 4.5'' [''claude-sonnet-4-5''] 200000 64000
       True True True True True True True ''3.0'' ''15.0'',
     entry ''claude-haiku-4-5-20251001'' Anthropic ''Claude Haiku 4.5'' [''claude-haiku-4-5'', ''claude-haiku''] 200000 64000
       True True True True True True True ''1.0'' ''5.0'',
     entry ''claude-sonnet-4-20250514'' Anthropic ''Claude Sonnet 4'' [''claude-sonnet-4-0''] 200000 64000
       True True True True True True True ''3.0'' ''15.0'',
     entry ''claude-opus-4-20250514'' Anthropic ''Claude Opus 4'' [''claude-opus-4-0''] 200000 32000
       True True True True True True True ''15.0'' ''75.0'']"

definition openai_models :: "model_info list" where
  "openai_models = [
     entry ''gpt-5.2'' OpenAi ''GPT-5.2'' [] 200000 64000
       True True True False False True True ''1.75'' ''14.0'',
     entry ''gpt-5'' OpenAi ''GPT-5'' [] 128000 64000
       True True True False False True True ''1.25'' ''10.0'',
     entry ''gpt-5-mini'' OpenAi ''GPT-5 Mini'' [] 200000 32768
       True True True False False True True ''0.25'' ''2.0'',
     entry ''gpt-5-nano'' OpenAi ''GPT-5 Nano'' [] 128000 32768
       True True True False False True True ''0.05'' ''0.4'',
     entry ''o3-pro'' OpenAi ''o3-pro'' [] 200000 100000
       True True True True True True True ''20.0'' ''80.0'',
     entry ''gpt-4.1'' OpenAi ''GPT-4.1'' [] 1047576 32768
       True True True False False True True ''2.0'' ''8.0'',
     entry ''gpt-4.1-mini'' OpenAi ''GPT-4.1 Mini'' [] 1047576 32768
       True True True False False True True ''0.4'' ''1.6'',
     entry ''gpt-4.1-nano'' OpenAi ''GPT-4.1 Nano'' [] 1047576 32768
       True True True False False True True ''0.1'' ''0.4'']"

definition openai_older_models :: "model_info list" where
  "openai_older_models = [
     entry ''o3'' OpenAi ''o3'' [] 200000 100000
       True True True True True True True ''2.0'' ''8.0'',
     entry ''o3-mini'' OpenAi ''o3-mini'' [] 200000 100000
       False True True True True True True ''1.1'' ''4.4'',
     entry ''o4-mini'' OpenAi ''o4-mini'' [] 200000 100000
       True True True True True True True ''1.1'' ''4.4'',
     entry ''gpt-4o'' OpenAi ''GPT-4o'' [] 128000 16384
       True True True False False True True ''2.5'' ''10.0'',
     entry ''gpt-4o-mini'' OpenAi ''GPT-4o Mini'' [] 128000 16384
       True True True False False True True ''0.15'' ''0.6'']"

definition gemini_models :: "model_info list" where
  "gemini_models = [
     entry ''gemini-2.5-pro'' Gemini ''Gemini 2.5 Pro'' [] 1048576 65536
       True True True True True True True ''1.25'' ''10.0'',
     entry ''gemini-2.5-flash'' Gemini ''Gemini 2.5 Flash'' [] 1048576 65536
       True True True True True True True ''0.3'' ''2.5'',
     entry ''gemini-2.5-flash-lite'' Gemini ''Gemini 2.5 Flash-Lite'' [] 1048576 65536
       True True True False False True True ''0.1'' ''0.4'',
     entry ''gemini-2.0-flash'' Gemini ''Gemini 2.0 Flash (Deprecated)'' [] 1048576 8192
       True True True True False True True ''0.1'' ''0.4'']"

definition catalog :: "model_info list" where
  "catalog = anthropic_models @ openai_models @ openai_older_models @ gemini_models"

lemmas catalog_table = catalog_def anthropic_models_def openai_models_def openai_older_models_def gemini_models_def entry_def

definition lookup_model :: "string \<Rightarrow> model_info option" where
  "lookup_model model_id = List.find (\<lambda>m. mi_id m = model_id \<or> model_id \<in> set (mi_aliases m)) catalog"

definition infer_provider :: "string \<Rightarrow> provider option" where
  "infer_provider model_id =
     (if starts_with model_id ''claude-'' \<or> starts_with model_id ''anthropic'' then Some Anthropic
      else if starts_with model_id ''gpt-'' \<or> starts_with model_id ''o1-'' \<or> model_id = ''o1'' \<or>
          starts_with model_id ''o3-'' \<or> model_id = ''o3'' \<or>
          starts_with model_id ''o4-'' \<or> model_id = ''o4'' then Some OpenAi
      else if starts_with model_id ''gemini-'' then Some Gemini
      else None)"

definition get_latest_model :: "provider \<Rightarrow> model_info option" where
  "get_latest_model p =
     (let target_id = (case p of Anthropic \<Rightarrow> ''claude-opus-4-6'' | OpenAi \<Rightarrow> ''gpt-5.2'' | Gemini \<Rightarrow> ''gemini-2.5-pro'')
      in List.find (\<lambda>m. mi_id m = target_id) catalog)"

text \<open>The conservative entry of an unknown model.\<close>

definition unknown_model :: "provider \<Rightarrow> string \<Rightarrow> nat \<Rightarrow> nat \<Rightarrow> model_info" where
  "unknown_model p name window max_output =
     \<lparr>mi_id = ''unknown'', mi_provider = p, mi_display_name = name, mi_aliases = [],
      mi_context_window = window, mi_max_output_tokens = max_output, mi_supports_images = True,
      mi_supports_tool_use = True, mi_supports_streaming = True, mi_supports_thinking = False,
      mi_supports_reasoning = False, mi_supports_json_mode = True, mi_supports_system_prompt = True,
      mi_input_cost_per_million = None, mi_output_cost_per_million = None\<rparr>"

definition lookup_model_or_default :: "string \<Rightarrow> model_info" where
  "lookup_model_or_default model_id =
     (case lookup_model model_id of
        Some info \<Rightarrow> info
      | None \<Rightarrow>
          (case (case infer_provider model_id of Some p \<Rightarrow> p | None \<Rightarrow> OpenAi) of
             Anthropic \<Rightarrow> unknown_model Anthropic ''Unknown Anthropic Model'' 200000 8000
           | OpenAi \<Rightarrow> unknown_model OpenAi ''Unknown OpenAI Model'' 128000 16000
           | Gemini \<Rightarrow> unknown_model Gemini ''Unknown Gemini Model'' 1000000 8000))"

definition models_for_provider :: "provider \<Rightarrow> model_info list" where
  "models_for_provider p = filter (\<lambda>m. mi_provider m = p) catalog"

section \<open>Models of the remote list\<close>

record openrouter_architecture =
  oa_modality :: "string option"
  oa_input_modalities :: "string list option"
  oa_output_modalities :: "string list option"

record openrouter_pricing =
  op_prompt :: "string option"
  op_completion :: "string option"

record openrouter_model =
  om_id :: string
  om_name :: string
  om_context_length :: nat
  om_pricing :: "openrouter_pricing option"
  om_max_completion_tokens :: "nat option option" \<comment> \<open>the field of \<open>top_provider\<close>, if that is present\<close>
  om_architecture :: "openrouter_architecture option"

record dynamic_model =
  dm_id :: string
  dm_provider :: provider
  dm_display_name :: string
  dm_context_window :: nat
  dm_max_output_tokens :: nat
  dm_supports_images :: bool
  dm_supports_tool_use :: bool
  dm_supports_streaming :: bool
  dm_supports_thinking :: bool
  dm_supports_reasoning :: bool
  dm_supports_json_mode :: bool
  dm_supports_system_prompt :: bool
  dm_input_cost_per_million :: "f64 option"
  dm_output_cost_per_million :: "f64 option"

definition from_static :: "model_info \<Rightarrow> dynamic_model" where
  "from_static m =
     \<lparr>dm_id = mi_id m, dm_provider = mi_provider m, dm_display_name = mi_display_name m,
      dm_context_window = mi_context_window m, dm_max_output_tokens = mi_max_output_tokens m,
      dm_supports_images = mi_supports_images m, dm_supports_tool_use = mi_supports_tool_use m,
      dm_supports_streaming = mi_supports_streaming m, dm_supports_thinking = mi_supports_thinking m,
      dm_supports_reasoning = mi_supports_reasoning m, dm_supports_json_mode = mi_supports_json_mode m,
      dm_supports_system_prompt = mi_supports_system_prompt m,
      dm_input_cost_per_million = mi_input_cost_per_million m,
      dm_output_cost_per_million = mi_output_cost_per_million m\<rparr>"

definition provider_from_openrouter_id :: "string \<Rightarrow> provider option" where
  "provider_from_openrouter_id model_id =
     (let p = takeWhile (\<lambda>c. c \<noteq> CHR ''/'') model_id in
      if p = ''anthropic'' then Some Anthropic
      else if p = ''openai'' then Some OpenAi
      else if p = ''google'' then Some Gemini
      else None)"

definition strip_openrouter_prefix :: "string \<Rightarrow> string" where
  "strip_openrouter_prefix model_id =
     (case find_sub ''/'' model_id of Some n \<Rightarrow> drop (n + 1) model_id | None \<Rightarrow> model_id)"

definition per_token_to_per_million :: "string \<Rightarrow> f64 option" where
  "per_token_to_per_million s =
     (case parse_f64 s of
        None \<Rightarrow> None
      | Some per_token \<Rightarrow>
          if f64_lt per_token (f64_of_nat 0) then None
          else Some (f64_mul per_token (f64_of_nat 1000000)))"

definition supports_images_from_architecture :: "openrouter_architecture option \<Rightarrow> bool" where
  "supports_images_from_architecture arch =
     (case arch of
        Some a \<Rightarrow>
          (case oa_input_modalities a of
             Some modalities \<Rightarrow> ''image'' \<in> set modalities
           | None \<Rightarrow>
               (case oa_modality a of Some modality \<Rightarrow> find_sub ''image'' modality \<noteq> None | None \<Rightarrow> False))
      | None \<Rightarrow> False)"

definition opt_bind :: "'a option \<Rightarrow> ('a \<Rightarrow> 'b option) \<Rightarrow> 'b option" where
  "opt_bind x f = (case x of None \<Rightarrow> None | Some y \<Rightarrow> f y)"

definition convert_openrouter_model :: "openrouter_model \<Rightarrow> dynamic_model option" where
  "convert_openrouter_model model =
     (case provider_from_openrouter_id (om_id model) of
        None \<Rightarrow> None
      | Some p \<Rightarrow> Some
          \<lparr>dm_id = strip_openrouter_prefix (om_id model), dm_provider = p,
           dm_display_name = om_name model, dm_context_window = om_context_length model,
           dm_max_output_tokens =
             (case om_max_completion_tokens model of Some (Some n) \<Rightarrow> n | _ \<Rightarrow> 4096),
           dm_supports_images = supports_images_from_architecture (om_architecture model),
           dm_supports_tool_use = True, dm_supports_streaming = True, dm_supports_thinking = False,
           dm_supports_reasoning = False, dm_supports_json_mode = True, dm_supports_system_prompt = True,
           dm_input_cost_per_million =
             opt_bind (om_pricing model) (\<lambda>p. opt_bind (op_prompt p) per_token_to_per_million),
           dm_output_cost_per_million =
             opt_bind (om_pricing model) (\<lambda>p. opt_bind (op_completion p) per_token_to_per_million)\<rparr>)"

section \<open>The database\<close>

datatype modeldb_error = Db_Http string | Db_Json string | Db_Io string | Db_EmptyResponse

record cache_envelope =
  ce_fetched_at :: int
  ce_models :: "dynamic_model list"

record model_db =
  db_models :: "dynamic_model list"
  db_fetched_at :: "int option"
  db_cache_path :: "string option"
  db_ttl :: nat

definition default_ttl :: nat where "default_ttl = from_secs (24 * 60 * 60)"

text \<open>\<open>Duration::MAX\<close>: \<open>u64::MAX\<close> seconds and almost one more.\<close>

definition duration_max :: nat where "duration_max = from_secs (2 ^ 64 - 1) + 999999999"

text \<open>The outside: the request, the cache file of a directory, and the clock.\<close>

record 'w db_env =
  dx_get :: "'w \<Rightarrow> (modeldb_error + openrouter_model list) \<times> 'w"
  dx_load :: "string \<Rightarrow> 'w \<Rightarrow> modeldb_error + cache_envelope"
  dx_exists :: "string \<Rightarrow> 'w \<Rightarrow> bool"
  dx_store :: "string \<Rightarrow> cache_envelope \<Rightarrow> 'w \<Rightarrow> (modeldb_error + unit) \<times> 'w"
  dx_now :: "'w \<Rightarrow> int \<times> 'w"

definition cache_file :: "string \<Rightarrow> string" where
  "cache_file dir = dir @ ''/modeldb_cache.json''"

definition modeldb_new :: "'w db_env \<Rightarrow> string option \<Rightarrow> nat \<Rightarrow> 'w \<Rightarrow> model_db" where
  "modeldb_new env cache_path ttl w =
     (let db = \<lparr>db_models = [], db_fetched_at = None, db_cache_path = cache_path, db_ttl = ttl\<rparr> in
      case cache_path of
        None \<Rightarrow> db
      | Some dir \<Rightarrow>
          (if dx_exists env (cache_file dir) w then
             (case dx_load env (cache_file dir) w of
                Inr loaded \<Rightarrow> db\<lparr>db_models := ce_models loaded, db_fetched_at := Some (ce_fetched_at loaded)\<rparr>
              | Inl _ \<Rightarrow> db)
           else db))"

definition envelope :: "'w db_env \<Rightarrow> model_db \<Rightarrow> 'w \<Rightarrow> cache_envelope \<times> 'w" where
  "envelope env db w =
     (let (t, w1) = (case db_fetched_at db of Some t \<Rightarrow> (t, w) | None \<Rightarrow> dx_now env w)
      in (\<lparr>ce_fetched_at = t, ce_models = db_models db\<rparr>, w1))"

definition snapshot_to_file :: "'w db_env \<Rightarrow> string \<Rightarrow> model_db \<Rightarrow> 'w \<Rightarrow> (modeldb_error + unit) \<times> 'w" where
  "snapshot_to_file env path db w = (let (e, w1) = envelope env db w in dx_store env path e w1)"

definition load_snapshot :: "'w db_env \<Rightarrow> string \<Rightarrow> 'w \<Rightarrow> modeldb_error + model_db" where
  "load_snapshot env path w =
     res_bind (dx_load env path w) (\<lambda>e. Inr
       \<lparr>db_models = ce_models e, db_fetched_at = Some (ce_fetched_at e), db_cache_path = None, db_ttl = default_ttl\<rparr>)"

definition modeldb_fetch :: "'w db_env \<Rightarrow> model_db \<Rightarrow> 'w \<Rightarrow> (modeldb_error + unit) \<times> model_db \<times> 'w" where
  "modeldb_fetch env db w =
     (case dx_get env w of
        (Inl e, w1) \<Rightarrow> (Inl e, db, w1)
      | (Inr items, w1) \<Rightarrow>
          (if items = [] then (Inl Db_EmptyResponse, db, w1)
           else
             (let models = List.map_filter convert_openrouter_model items in
              if models = [] then (Inl Db_EmptyResponse, db, w1)
              else
                (let (now, w2) = dx_now env w1;
                     db' = db\<lparr>db_models := models, db_fetched_at := Some now\<rparr>;
                     w3 = (case db_cache_path db of
                             Some dir \<Rightarrow> snd (snapshot_to_file env (cache_file dir) db' w2)
                           | None \<Rightarrow> w2)
                 in (Inr (), db', w3)))))"

definition modeldb_lookup :: "string \<Rightarrow> model_db \<Rightarrow> dynamic_model option" where
  "modeldb_lookup model_id db = List.find (\<lambda>m. dm_id m = model_id) (db_models db)"

definition stale_at :: "int \<Rightarrow> model_db \<Rightarrow> bool" where
  "stale_at now db =
     (case db_fetched_at db of
        None \<Rightarrow> True
      | Some fetched \<Rightarrow>
          (let elapsed = (if now - fetched < 0 then duration_max else nat (now - fetched))
           in elapsed > db_ttl db))"

definition is_stale :: "'w db_env \<Rightarrow> model_db \<Rightarrow> 'w \<Rightarrow> bool \<times> 'w" where
  "is_stale env db w =
     (case db_fetched_at db of
        None \<Rightarrow> (True, w)
      | Some _ \<Rightarrow> (let (now, w1) = dx_now env w in (stale_at now db, w1)))"

definition refresh_if_stale :: "'w db_env \<Rightarrow> model_db \<Rightarrow> 'w \<Rightarrow> (modeldb_error + unit) \<times> model_db \<times> 'w" where
  "refresh_if_stale env db w =
     (let (stale, w1) = is_stale env db w in
      if stale then
        (let had_data = (db_models db \<noteq> []) in
         case modeldb_fetch env db w1 of
           (Inr _, db', w2) \<Rightarrow> (Inr (), db', w2)
         | (Inl e, db', w2) \<Rightarrow> (if had_data then Inr () else Inl e, db', w2))
      else (Inr (), db, w1))"

definition lookup_with_dynamic :: "string \<Rightarrow> dynamic_model list \<Rightarrow> dynamic_model option" where
  "lookup_with_dynamic model_id dyn =
     (case lookup_model model_id of
        Some static_info \<Rightarrow> Some (from_static static_info)
      | None \<Rightarrow> List.find (\<lambda>m. dm_id m = model_id) dyn)"

definition merge_with_dynamic :: "dynamic_model list \<Rightarrow> dynamic_model list" where
  "merge_with_dynamic dyn =
     (let static_models = map from_static
            (models_for_provider Anthropic @ models_for_provider OpenAi @ models_for_provider Gemini);
          static_ids = map dm_id static_models
      in static_models @ filter (\<lambda>m. dm_id m \<notin> set static_ids) dyn)"

section \<open>The catalogue is consistent\<close>

text \<open>A name of the table: an identifier or an alias.\<close>

definition catalog_names :: "string list" where
  "catalog_names = concat (map (\<lambda>m. mi_id m # mi_aliases m) catalog)"

lemma find_by_name:
  assumes "distinct (concat (map names xs))" "m \<in> set xs" "n \<in> set (names m)"
  shows "List.find (\<lambda>m. n \<in> set (names m)) xs = Some m"
  using assms
proof (induction xs)
  case (Cons x xs)
  show ?case
  proof (cases "n \<in> set (names x)")
    case True
    then have "m \<notin> set xs" using Cons.prems(1,3) by auto
    then show ?thesis using Cons.prems(2) True by simp
  next
    case False
    then show ?thesis using Cons by auto
  qed
qed simp

text \<open>The part of an entry the names depend on.\<close>

lemma catalog_heads:
  "map (\<lambda>m. (mi_id m, mi_provider m, mi_aliases m)) catalog =
   [ (''claude-opus-4-6'', Anthropic, [''claude-opus'']),
     (''claude-sonnet-4-6'', Anthropic, [''claude-sonnet'']),
     (''claude-sonnet-4-5-20250929'', Anthropic, [''claude-sonnet-4-5'']),
     (''claude-haiku-4-5-20251001'', Anthropic, [''claude-haiku-4-5'', ''claude-haiku'']),
     (''claude-sonnet-4-20250514'', Anthropic, [''claude-sonnet-4-0'']),
     (''claude-opus-4-20250514'', Anthropic, [''claude-opus-4-0'']),
     (''gpt-5.2'', OpenAi, []),
     (''gpt-5'', OpenAi, []),
     (''gpt-5-mini'', OpenAi, []),
     (''gpt-5-nano'', OpenAi, []),
     (''o3-pro'', OpenAi, []),
     (''gpt-4.1'', OpenAi, []),
     (''gpt-4.1-mini'', OpenAi, []),
     (''gpt-4.1-nano'', OpenAi, []),
     (''o3'', OpenAi, []),
     (''o3-mini'', OpenAi, []),
     (''o4-mini'', OpenAi, []),
     (''gpt-4o'', OpenAi, []),
     (''gpt-4o-mini'', OpenAi, []),
     (''gemini-2.5-pro'', Gemini, []),
     (''gemini-2.5-flash'', Gemini, []),
     (''gemini-2.5-flash-lite'', Gemini, []),
     (''gemini-2.0-flash'', Gemini, [])]"
  by (simp add: catalog_table)

definition names_of :: "model_info \<Rightarrow> string list" where
  "names_of m = mi_id m # mi_aliases m"

lemma catalog_names_distinct: "distinct (concat (map names_of catalog))"
proof -
  have "concat (map names_of catalog) = concat (map (\<lambda>(i, p, as). i # as) (map (\<lambda>m. (mi_id m, mi_provider m, mi_aliases m)) catalog))"
    by (simp add: names_of_def [abs_def] comp_def)
  then show ?thesis unfolding catalog_heads by simp
qed

lemma catalog_inferred:
  "list_all (\<lambda>m. list_all (\<lambda>name. infer_provider name = Some (mi_provider m)) (names_of m)) catalog"
proof -
  have "list_all (\<lambda>(i, p, as). list_all (\<lambda>name. infer_provider name = Some p) (i # as))
      (map (\<lambda>m. (mi_id m, mi_provider m, mi_aliases m)) catalog)"
    unfolding catalog_heads by (simp add: infer_provider_def starts_with_def)
  then show ?thesis by (simp add: list_all_length names_of_def)
qed

lemma lookup_model_names: "lookup_model n = List.find (\<lambda>m. n \<in> set (names_of m)) catalog"
proof -
  have "(\<lambda>m. mi_id m = n \<or> n \<in> set (mi_aliases m)) = (\<lambda>m. n \<in> set (names_of m))"
    by (auto simp: names_of_def fun_eq_iff)
  then show ?thesis by (simp add: lookup_model_def)
qed

lemma lookup_model_mem: "m \<in> set catalog \<Longrightarrow> n \<in> set (names_of m) \<Longrightarrow> lookup_model n = Some m"
  unfolding lookup_model_names by (rule find_by_name [OF catalog_names_distinct])

text \<open>No name of the table belongs to two models, so looking a name up finds the model it was written
  for; the provider inferred from a name is the provider of its model, so a request for a known
  model always reaches the right adapter; and every provider has its latest model.\<close>

theorem catalog_consistent:
  "distinct catalog_names \<and>
   list_all (\<lambda>m. list_all (\<lambda>name. lookup_model name = Some m \<and> infer_provider name = Some (mi_provider m))
     (mi_id m # mi_aliases m)) catalog \<and>
   list_all (\<lambda>p. map_option mi_provider (get_latest_model p) = Some p) [Anthropic, OpenAi, Gemini]"
proof (intro conjI)
  show "distinct catalog_names" using catalog_names_distinct by (simp add: catalog_names_def names_of_def [abs_def])
  have n: "mi_id m # mi_aliases m = names_of m" for m by (simp add: names_of_def)
  show "list_all (\<lambda>m. list_all (\<lambda>name. lookup_model name = Some m \<and> infer_provider name = Some (mi_provider m))
      (mi_id m # mi_aliases m)) catalog"
    unfolding n using catalog_inferred lookup_model_mem by (simp add: list_all_iff)
  show "list_all (\<lambda>p. map_option mi_provider (get_latest_model p) = Some p) [Anthropic, OpenAi, Gemini]"
    by (simp add: get_latest_model_def catalog_table)
qed

section \<open>Static and fetched models\<close>

lemma merge_eq: "merge_with_dynamic dyn =
    map from_static catalog @ filter (\<lambda>m. dm_id m \<notin> set (map mi_id catalog)) dyn"
proof -
  have "models_for_provider Anthropic @ models_for_provider OpenAi @ models_for_provider Gemini = catalog"
    by (simp add: models_for_provider_def catalog_table)
  moreover have "dm_id (from_static m) = mi_id m" for m by (simp add: from_static_def)
  ultimately show ?thesis by (simp add: merge_with_dynamic_def Let_def image_image)
qed

lemma find_append: "List.find P (xs @ ys) = (case List.find P xs of Some x \<Rightarrow> Some x | None \<Rightarrow> List.find P ys)"
  by (induction xs) auto

lemma find_from_static:
  "List.find (\<lambda>m. dm_id m = i) (map from_static ms) = map_option from_static (List.find (\<lambda>m. mi_id m = i) ms)"
  by (induction ms) (simp_all add: from_static_def)

lemma find_id_catalog:
  "List.find (\<lambda>m. mi_id m = i) catalog = (case lookup_model i of Some m \<Rightarrow> if mi_id m = i then Some m else None | None \<Rightarrow> None)"
proof (cases "List.find (\<lambda>m. mi_id m = i) catalog")
  case None
  then show ?thesis by (auto simp: find_None_iff_all lookup_model_def dest!: find_Some_mem split: option.split)
next
  case (Some m)
  then have "lookup_model i = Some m" "mi_id m = i"
    using find_Some_mem [OF Some] by (auto intro: lookup_model_mem simp: names_of_def)
  then show ?thesis using Some by simp
qed

text \<open>Looking an identifier up in the merged list is looking it up in the catalogue first and then in
  the fetched models; only an alias of the catalogue is not an entry of the merged list.\<close>

theorem merge_lookup:
  "List.find (\<lambda>m. dm_id m = i) (merge_with_dynamic dyn) =
     (if list_ex (\<lambda>m. i \<in> set (mi_aliases m)) catalog then List.find (\<lambda>m. dm_id m = i) dyn
      else lookup_with_dynamic i dyn)"
proof -
  have no: "List.find (\<lambda>m. dm_id m = i) (filter (\<lambda>m. dm_id m \<notin> set (map mi_id catalog)) dyn) =
      (if i \<in> set (map mi_id catalog) then None else List.find (\<lambda>m. dm_id m = i) dyn)"
    by (induction dyn) auto
  show ?thesis
  proof (cases "i \<in> set (map mi_id catalog)")
    case True
    then obtain m where m: "m \<in> set catalog" "mi_id m = i" by auto
    then have l: "lookup_model i = Some m" by (intro lookup_model_mem) (simp_all add: names_of_def)
    have "\<not> list_ex (\<lambda>m. i \<in> set (mi_aliases m)) catalog"
    proof
      assume "list_ex (\<lambda>m. i \<in> set (mi_aliases m)) catalog"
      then obtain m' where m': "m' \<in> set catalog" "i \<in> set (mi_aliases m')" by (auto simp: list_ex_iff)
      then have "lookup_model i = Some m'" by (intro lookup_model_mem) (simp_all add: names_of_def)
      with l have "m' = m" by simp
      have "\<not> list_ex (\<lambda>m. mi_id m \<in> set (mi_aliases m)) catalog"
        by (simp add: catalog_table)
      then show False using m m' \<open>m' = m\<close> by (auto simp: list_ex_iff)
    qed
    then show ?thesis
      using l m(2) by (simp add: merge_eq find_append find_from_static find_id_catalog lookup_with_dynamic_def)
  next
    case False
    then have f: "List.find (\<lambda>m. mi_id m = i) catalog = None" by (auto simp: find_None_iff_all)
    have "lookup_model i = None" if "\<not> list_ex (\<lambda>m. i \<in> set (mi_aliases m)) catalog"
      using that False by (auto simp: lookup_model_def find_None_iff_all list_ex_iff)
    then show ?thesis
      using False f no by (simp add: merge_eq find_append find_from_static lookup_with_dynamic_def)
  qed
qed

lemma modeldb_fetch_result:
  "case modeldb_fetch env db w of
     (Inr _, db', w') \<Rightarrow> db_models db' \<noteq> [] \<and> (\<exists>now. db' = db\<lparr>db_models := db_models db', db_fetched_at := Some now\<rparr>)
   | (Inl e, db', w') \<Rightarrow> db' = db"
  by (auto simp: modeldb_fetch_def Let_def split_beta split: sum.split prod.split)

text \<open>Refreshing never loses models: it fails only on an empty database, which it leaves as it was; it
  succeeds by keeping the database, fresh or stale, or by replacing its models by fetched ones,
  of which there is at least one, and noting the time.\<close>

theorem refresh_keeps_models:
  "case refresh_if_stale env db w of
     (Inl e, db', w') \<Rightarrow> db_models db = [] \<and> db' = db
   | (Inr _, db', w') \<Rightarrow> db' = db \<or>
       db_models db' \<noteq> [] \<and> (\<exists>now. db' = db\<lparr>db_models := db_models db', db_fetched_at := Some now\<rparr>)"
proof -
  obtain stale w1 where st: "is_stale env db w = (stale, w1)" by force
  obtain r db' w' where f: "modeldb_fetch env db w1 = (r, db', w')" by (metis prod_cases3)
  show ?thesis
    using modeldb_fetch_result [where env = env and db = db and w = w1]
    by (cases r) (auto simp: refresh_if_stale_def st f Let_def)
qed

end
