(* ===== verification/Llm_Client.thy ===== *)
theory Llm_Client
  imports Llm_Types Llm_Catalog
begin

text \<open>
  The client of \<open>smasher-llm\<close>: HTTP status and header handling, \<open>util/http.rs\<close>; retries,
  \<open>util/retry.rs\<close>; the middleware chain, \<open>client/middleware.rs\<close>; routing, \<open>client/mod.rs\<close>; and the
  tool loop \<open>generate\<close>, \<open>api/generate.rs\<close>.  Adapters, middlewares and tool executors are trait
  objects: functions on a state of the outside world.
\<close>

section \<open>Headers and statuses\<close>

text \<open>A header map: whether a header is present, and its text if it is readable as one.\<close>

type_synonym headers = "string \<Rightarrow> string option option"

definition header_text :: "headers \<Rightarrow> string \<Rightarrow> string option" where
  "header_text headers name = (case headers name of Some (Some s) \<Rightarrow> Some s | _ \<Rightarrow> None)"

definition get_header_str :: "headers \<Rightarrow> string list \<Rightarrow> string option" where
  "get_header_str headers names = find_map (header_text headers) names"

definition get_header_u32 :: "headers \<Rightarrow> string list \<Rightarrow> nat option" where
  "get_header_u32 headers names =
     (case get_header_str headers names of Some s \<Rightarrow> parse_uint 32 (trim s) | None \<Rightarrow> None)"

definition parse_i64 :: "string \<Rightarrow> int option" where
  "parse_i64 s =
     (if starts_with s ''-'' then
        (let ds = tl s in
         if ds \<noteq> [] \<and> list_all is_ascii_digit ds \<and> digits_val ds \<le> 2 ^ 63
         then Some (- int (digits_val ds)) else None)
      else map_option int (parse_uint 63 s))"

text \<open>
  The clock and the date parser of the \<open>chrono\<close> crate, times in nanoseconds; \<open>tx_in_range\<close> are the
  times it can represent.  Its \<open>Duration::seconds\<close> panics beyond \<open>i64::MAX\<close> milliseconds, and
  adding to a time panics out of range.
\<close>

record time_env =
  tx_now :: int
  tx_rfc3339 :: "string \<Rightarrow> int option"
  tx_in_range :: "int \<Rightarrow> bool"

definition parse_reset_time :: "time_env \<Rightarrow> string \<Rightarrow> panic + int option" where
  "parse_reset_time tm v =
     (let trimmed = trim v in
      case parse_i64 trimmed of
        Some seconds \<Rightarrow>
          (let t = tx_now tm + seconds * 10 ^ 9 in
           if \<bar>seconds\<bar> * 1000 < 2 ^ 63 \<and> tx_in_range tm t then Inr (Some t) else Inl Expect_Failed)
      | None \<Rightarrow> Inr (tx_rfc3339 tm trimmed))"

definition parse_rate_limit_headers :: "time_env \<Rightarrow> headers \<Rightarrow> panic + rate_limit_info option" where
  "parse_rate_limit_headers tm headers =
     (let requests_remaining = get_header_u32 headers
            [''x-ratelimit-remaining-requests'', ''x-ratelimit-remaining'', ''ratelimit-remaining''];
          requests_limit = get_header_u32 headers
            [''x-ratelimit-limit-requests'', ''x-ratelimit-limit'', ''ratelimit-limit''];
          tokens_remaining = get_header_u32 headers [''x-ratelimit-remaining-tokens''];
          tokens_limit = get_header_u32 headers [''x-ratelimit-limit-tokens'']
      in res_bind (case get_header_str headers [''x-ratelimit-reset-requests'', ''x-ratelimit-reset'', ''retry-after''] of
                     Some v \<Rightarrow> parse_reset_time tm v | None \<Rightarrow> Inr None) (\<lambda>reset_at.
         Inr (if requests_remaining = None \<and> requests_limit = None \<and> tokens_remaining = None \<and>
                 tokens_limit = None \<and> reset_at = None then None
              else Some \<lparr>rl_requests_remaining = requests_remaining, rl_requests_limit = requests_limit,
                rl_tokens_remaining = tokens_remaining, rl_tokens_limit = tokens_limit, rl_reset_at = reset_at\<rparr>)))"

text \<open>The product wraps, as in a release build; a debug build panics when it overflows.\<close>

definition parse_retry_after :: "time_env \<Rightarrow> headers \<Rightarrow> nat option" where
  "parse_retry_after tm headers =
     (case header_text headers ''retry-after'' of
        None \<Rightarrow> None
      | Some v \<Rightarrow>
          (let trimmed = trim v in
           case parse_uint 64 trimmed of
             Some seconds \<Rightarrow> Some (seconds * 1000 mod 2 ^ 64)
           | None \<Rightarrow>
               (case tx_rfc3339 tm trimmed of
                  Some t \<Rightarrow> Some (nat ((t - tx_now tm) div 10 ^ 6))
                | None \<Rightarrow> None)))"

definition build_error_from_status :: "time_env \<Rightarrow> string \<Rightarrow> nat \<Rightarrow> string \<Rightarrow> headers \<Rightarrow> llm_error" where
  "build_error_from_status tm prov status_code body headers =
     (if status_code = 401 then Authentication prov body
      else if status_code = 403 then AccessDenied prov body
      else if status_code = 404 then ModelNotFound prov (if body = [] then ''unknown'' else body)
      else if status_code = 429 then RateLimited prov (parse_retry_after tm headers)
      else if status_code = 400 \<or> status_code = 422 then InvalidRequest prov body
      else if 500 \<le> status_code \<and> status_code \<le> 599 then ServerError prov status_code body
      else LlmOther (''unexpected HTTP '' @ dec status_code @ '' from '' @ prov @ '': '' @ body) False)"

section \<open>Retries\<close>

record llm_retry_policy =
  lr_max_retries :: nat
  lr_initial_backoff_ms :: nat
  lr_max_backoff_ms :: nat
  lr_backoff_multiplier :: f64
  lr_jitter :: bool

definition default_llm_policy :: llm_retry_policy where
  "default_llm_policy = \<lparr>lr_max_retries = 3, lr_initial_backoff_ms = 1000, lr_max_backoff_ms = 60000,
     lr_backoff_multiplier = f64_of_nat 2, lr_jitter = True\<rparr>"

definition no_retry :: llm_retry_policy where
  "no_retry = default_llm_policy\<lparr>lr_max_retries := 0\<rparr>"

text \<open>
  The precision of \<open>f64::powi\<close> is unspecified, so it is a parameter, as are the random factor and
  sleeping.
\<close>

record 'w retry_env =
  rx_powi :: "f64 \<Rightarrow> int \<Rightarrow> f64"
  rx_random :: "'w \<Rightarrow> f64 \<times> 'w"
  rx_sleep :: "duration \<Rightarrow> 'w \<Rightarrow> 'w"

definition f64_min :: "f64 \<Rightarrow> f64 \<Rightarrow> f64" where
  "f64_min x y = (if x = F_NaN then y else if y = F_NaN then x else if f64_lt y x then y else x)"

text \<open>\<open>attempt as i32\<close>.\<close>

definition as_i32 :: "nat \<Rightarrow> int" where
  "as_i32 n = (let m = int n mod 2 ^ 32 in if m < 2 ^ 31 then m else m - 2 ^ 32)"

definition llm_compute_delay :: "'w retry_env \<Rightarrow> llm_retry_policy \<Rightarrow> nat \<Rightarrow> 'w \<Rightarrow> duration \<times> 'w" where
  "llm_compute_delay env policy attempt w =
     (let base_ms = f64_mul (f64_of_nat (lr_initial_backoff_ms policy))
            (rx_powi env (lr_backoff_multiplier policy) (as_i32 attempt));
          capped_ms = f64_min base_ms (f64_of_nat (lr_max_backoff_ms policy));
          (final_ms, w1) =
            (if lr_jitter policy then (let (factor, w1) = rx_random env w in (f64_mul capped_ms factor, w1))
             else (capped_ms, w))
      in (from_millis (f64_as_u64 final_ms), w1))"

definition retry_delay :: "'w retry_env \<Rightarrow> llm_retry_policy \<Rightarrow> nat \<Rightarrow> llm_error \<Rightarrow> 'w \<Rightarrow> duration \<times> 'w" where
  "retry_delay env policy attempt err w =
     (case retry_after_ms err of
        Some ms \<Rightarrow> (from_millis ms, w)
      | None \<Rightarrow> llm_compute_delay env policy attempt w)"

function retry_from ::
  "'w retry_env \<Rightarrow> llm_retry_policy \<Rightarrow> ('w \<Rightarrow> (llm_error + 'a) \<times> 'w) \<Rightarrow> nat \<Rightarrow> 'w \<Rightarrow> (llm_error + 'a) \<times> 'w" where
  "retry_from env policy operation attempt w =
     (case operation w of
        (Inr v, w1) \<Rightarrow> (Inr v, w1)
      | (Inl err, w1) \<Rightarrow>
          (if \<not> retryable err \<or> attempt \<ge> lr_max_retries policy then (Inl err, w1)
           else (let (delay, w2) = retry_delay env policy attempt err w1
                 in retry_from env policy operation (attempt + 1) (rx_sleep env delay w2))))"
  by pat_completeness auto
termination by (relation "measure (\<lambda>(_, policy, _, attempt, _). lr_max_retries policy - attempt)") auto

declare retry_from.simps [simp del]

definition llm_retry ::
  "'w retry_env \<Rightarrow> llm_retry_policy \<Rightarrow> ('w \<Rightarrow> (llm_error + 'a) \<times> 'w) \<Rightarrow> 'w \<Rightarrow> (llm_error + 'a) \<times> 'w" where
  "llm_retry env policy operation w = retry_from env policy operation 0 w"

section \<open>Middleware\<close>

record 'w middleware =
  mw_on_request :: "request \<Rightarrow> 'w \<Rightarrow> (llm_error + request) \<times> 'w"
  mw_on_response :: "response \<Rightarrow> 'w \<Rightarrow> (llm_error + response) \<times> 'w"
  mw_on_error :: "llm_error \<Rightarrow> 'w \<Rightarrow> (llm_error + response) \<times> 'w"
  mw_on_stream_request :: "request \<Rightarrow> 'w \<Rightarrow> (llm_error + request) \<times> 'w"
  mw_on_stream_error :: "llm_error \<Rightarrow> 'w \<Rightarrow> (llm_error + unit) \<times> 'w"

text \<open>The methods a middleware does not override.\<close>

definition default_middleware :: "'w middleware" where
  "default_middleware =
     \<lparr>mw_on_request = \<lambda>r w. (Inr r, w), mw_on_response = \<lambda>r w. (Inr r, w), mw_on_error = \<lambda>e w. (Inl e, w),
      mw_on_stream_request = \<lambda>r w. (Inr r, w), mw_on_stream_error = \<lambda>e w. (Inl e, w)\<rparr>"

text \<open>A loop of fallible steps that stops at the first error.\<close>

fun pass :: "('a \<Rightarrow> 'w \<Rightarrow> ('e + 'a) \<times> 'w) list \<Rightarrow> 'a \<Rightarrow> 'w \<Rightarrow> ('e + 'a) \<times> 'w" where
  "pass [] x w = (Inr x, w)"
| "pass (f # fs) x w = (case f x w of (Inl e, w1) \<Rightarrow> (Inl e, w1) | (Inr y, w1) \<Rightarrow> pass fs y w1)"

text \<open>A loop of error handlers that stops at the first that recovers.\<close>

fun recover :: "('e \<Rightarrow> 'w \<Rightarrow> ('e + 'a) \<times> 'w) list \<Rightarrow> 'e \<Rightarrow> 'w \<Rightarrow> ('e + 'a) \<times> 'w" where
  "recover [] e w = (Inl e, w)"
| "recover (f # fs) e w = (case f e w of (Inr x, w1) \<Rightarrow> (Inr x, w1) | (Inl e', w1) \<Rightarrow> recover fs e' w1)"

definition execute_middleware_chain ::
  "'w middleware list \<Rightarrow> request \<Rightarrow> (request \<Rightarrow> 'w \<Rightarrow> (llm_error + response) \<times> 'w) \<Rightarrow> 'w \<Rightarrow>
   (llm_error + response) \<times> 'w" where
  "execute_middleware_chain middlewares request core w =
     (case pass (map mw_on_request middlewares) request w of
        (Inl e, w1) \<Rightarrow> (Inl e, w1)
      | (Inr request', w1) \<Rightarrow>
          (case core request' w1 of
             (Inr response, w2) \<Rightarrow> pass (map mw_on_response (rev middlewares)) response w2
           | (Inl error, w2) \<Rightarrow> recover (map mw_on_error (rev middlewares)) error w2))"

definition execute_stream_middleware_chain ::
  "'w middleware list \<Rightarrow> request \<Rightarrow> 'w \<Rightarrow> (llm_error + request) \<times> 'w" where
  "execute_stream_middleware_chain middlewares request w = pass (map mw_on_stream_request middlewares) request w"

definition execute_stream_error_middleware_chain ::
  "'w middleware list \<Rightarrow> llm_error \<Rightarrow> 'w \<Rightarrow> (llm_error + unit) \<times> 'w" where
  "execute_stream_error_middleware_chain middlewares error w =
     recover (map mw_on_stream_error (rev middlewares)) error w"

section \<open>The client\<close>

record ('w, 's) adapter =
  ad_complete :: "request \<Rightarrow> 'w \<Rightarrow> (llm_error + response) \<times> 'w"
  ad_stream :: "request \<Rightarrow> 'w \<Rightarrow> (llm_error + 's) \<times> 'w"

record ('w, 's) client =
  cl_providers :: "provider \<Rightarrow> ('w, 's) adapter option"
  cl_middlewares :: "'w middleware list"
  cl_retry_policy :: llm_retry_policy

definition client_new :: "('w, 's) client" where
  "client_new = \<lparr>cl_providers = (\<lambda>_. None), cl_middlewares = [], cl_retry_policy = default_llm_policy\<rparr>"

definition set_retry_policy :: "llm_retry_policy \<Rightarrow> ('w, 's) client \<Rightarrow> ('w, 's) client" where
  "set_retry_policy policy client = client\<lparr>cl_retry_policy := policy\<rparr>"

definition register_provider :: "provider \<Rightarrow> ('w, 's) adapter \<Rightarrow> ('w, 's) client \<Rightarrow> ('w, 's) client" where
  "register_provider p adapter client = client\<lparr>cl_providers := (cl_providers client)(p \<mapsto> adapter)\<rparr>"

definition add_middleware :: "'w middleware \<Rightarrow> ('w, 's) client \<Rightarrow> ('w, 's) client" where
  "add_middleware m client = client\<lparr>cl_middlewares := cl_middlewares client @ [m]\<rparr>"

text \<open>The constructors of the adapters: provider, key, and base URL if one is set.\<close>

definition from_env ::
  "(provider \<Rightarrow> string \<Rightarrow> string option \<Rightarrow> ('w, 's) adapter) \<Rightarrow> (string \<Rightarrow> string option) \<Rightarrow> ('w, 's) client" where
  "from_env mk var =
     (let c0 = client_new;
          c1 = (case var ''ANTHROPIC_API_KEY'' of
                  Some key \<Rightarrow> register_provider Anthropic (mk Anthropic key (var ''ANTHROPIC_BASE_URL'')) c0
                | None \<Rightarrow> c0);
          c2 = (case var ''OPENAI_API_KEY'' of
                  Some key \<Rightarrow> register_provider OpenAi (mk OpenAi key (var ''OPENAI_BASE_URL'')) c1
                | None \<Rightarrow> c1)
      in (case (case var ''GEMINI_API_KEY'' of Some key \<Rightarrow> Some key | None \<Rightarrow> var ''GOOGLE_API_KEY'') of
            Some key \<Rightarrow> register_provider Gemini (mk Gemini key (var ''GEMINI_BASE_URL'')) c2
          | None \<Rightarrow> c2))"

definition adapter_for_request :: "('w, 's) client \<Rightarrow> request \<Rightarrow> llm_error + ('w, 's) adapter" where
  "adapter_for_request client request =
     res_bind
       (case rq_provider request of
          Some explicit \<Rightarrow>
            (case provider_from_str explicit of
               Inr p \<Rightarrow> Inr p
             | Inl _ \<Rightarrow> Inl (ModelNotFound explicit (rq_model request)))
        | None \<Rightarrow>
            (case infer_provider (rq_model request) of
               Some p \<Rightarrow> Inr p
             | None \<Rightarrow> Inl (ModelNotFound ''unknown'' (rq_model request)))) (\<lambda>p.
     case cl_providers client p of
       Some adapter \<Rightarrow> Inr adapter
     | None \<Rightarrow> Inl (ProviderNotConfigured (provider_display p)))"

definition client_complete ::
  "'w retry_env \<Rightarrow> ('w, 's) client \<Rightarrow> request \<Rightarrow> 'w \<Rightarrow> (llm_error + response) \<times> 'w" where
  "client_complete env client request w =
     (case adapter_for_request client request of
        Inl e \<Rightarrow> (Inl e, w)
      | Inr adapter \<Rightarrow>
          llm_retry env (cl_retry_policy client)
            (execute_middleware_chain (cl_middlewares client) request (ad_complete adapter)) w)"

definition stream_attempt ::
  "('w, 's) client \<Rightarrow> ('w, 's) adapter \<Rightarrow> request \<Rightarrow> 'w \<Rightarrow> (llm_error + 's) \<times> 'w" where
  "stream_attempt client adapter request w =
     (case execute_stream_middleware_chain (cl_middlewares client) request w of
        (Inl e, w1) \<Rightarrow> (Inl e, w1)
      | (Inr processed_request, w1) \<Rightarrow>
          (case ad_stream adapter processed_request w1 of
             (Inr stream, w2) \<Rightarrow> (Inr stream, w2)
           | (Inl error, w2) \<Rightarrow>
               (case execute_stream_error_middleware_chain (cl_middlewares client) error w2 of
                  (Inl e, w3) \<Rightarrow> (Inl e, w3)
                | (Inr _, w3) \<Rightarrow>
                    (Inl (LlmOther ''stream setup error was suppressed by middleware but no stream is available'' False), w3))))"

definition client_stream ::
  "'w retry_env \<Rightarrow> ('w, 's) client \<Rightarrow> request \<Rightarrow> 'w \<Rightarrow> (llm_error + 's) \<times> 'w" where
  "client_stream env client request w =
     (case adapter_for_request client request of
        Inl e \<Rightarrow> (Inl e, w)
      | Inr adapter \<Rightarrow> llm_retry env (cl_retry_policy client) (stream_attempt client adapter request) w)"

definition has_provider :: "('w, 's) client \<Rightarrow> provider \<Rightarrow> bool" where
  "has_provider client p \<longleftrightarrow> cl_providers client p \<noteq> None"

section \<open>The tool loop\<close>

type_synonym 'w tool_executor = "string \<Rightarrow> string \<Rightarrow> 'w \<Rightarrow> (llm_error + string \<times> bool) \<times> 'w"

record generate_options =
  go_max_iterations :: nat
  go_parallel_tool_calls :: bool

definition default_options :: generate_options where
  "default_options = \<lparr>go_max_iterations = 10, go_parallel_tool_calls = True\<rparr>"

record generate_result =
  gr_response :: response
  gr_history :: "response list"
  gr_total_usage :: usage
  gr_iterations :: nat

text \<open>
  \<open>join_all\<close> of the \<open>futures\<close> crate: it runs the futures concurrently and gives their outputs in
  the order of the futures.
\<close>

type_synonym ('a, 'w) join = "('w \<Rightarrow> 'a \<times> 'w) list \<Rightarrow> 'w \<Rightarrow> 'a list \<times> 'w"

definition tool_future ::
  "'w tool_executor \<Rightarrow> tool_call_data \<Rightarrow> 'w \<Rightarrow> (llm_error + string \<times> string \<times> bool) \<times> 'w" where
  "tool_future executor tc w =
     (case executor (tc_name tc) (tc_arguments tc) w of
        (Inl e, w1) \<Rightarrow> (Inl e, w1)
      | (Inr (content, is_error), w1) \<Rightarrow> (Inr (tc_id tc, content, is_error), w1))"

text \<open>Collecting results, up to the first error.\<close>

fun collect_ok :: "('e + 'a) list \<Rightarrow> 'e + 'a list" where
  "collect_ok [] = Inr []"
| "collect_ok (Inl e # rs) = Inl e"
| "collect_ok (Inr x # rs) = map_sum id ((#) x) (collect_ok rs)"

fun run_tools_sequentially ::
  "'w tool_executor \<Rightarrow> tool_call_data list \<Rightarrow> 'w \<Rightarrow> (llm_error + (string \<times> string \<times> bool) list) \<times> 'w" where
  "run_tools_sequentially executor [] w = (Inr [], w)"
| "run_tools_sequentially executor (tc # tcs) w =
     (case tool_future executor tc w of
        (Inl e, w1) \<Rightarrow> (Inl e, w1)
      | (Inr r, w1) \<Rightarrow>
          (case run_tools_sequentially executor tcs w1 of
             (Inl e, w2) \<Rightarrow> (Inl e, w2)
           | (Inr rs, w2) \<Rightarrow> (Inr (r # rs), w2)))"

definition run_tools ::
  "(llm_error + string \<times> string \<times> bool, 'w) join \<Rightarrow> bool \<Rightarrow> 'w tool_executor \<Rightarrow> tool_call_data list \<Rightarrow> 'w \<Rightarrow>
   (llm_error + (string \<times> string \<times> bool) list) \<times> 'w" where
  "run_tools join_all in_parallel executor tcs w =
     (if in_parallel then (let (rs, w1) = join_all (map (tool_future executor) tcs) w in (collect_ok rs, w1))
      else run_tools_sequentially executor tcs w)"

function generate_from ::
  "(request \<Rightarrow> 'w \<Rightarrow> (llm_error + response) \<times> 'w) \<Rightarrow> (llm_error + string \<times> string \<times> bool, 'w) join \<Rightarrow>
   'w tool_executor option \<Rightarrow> generate_options \<Rightarrow> request \<Rightarrow> nat \<Rightarrow> usage \<Rightarrow> response list \<Rightarrow> 'w \<Rightarrow>
   (llm_error + generate_result) \<times> 'w" where
  "generate_from complete join_all tool_executor options request iterations total_usage history w =
     (case complete request w of
        (Inl e, w1) \<Rightarrow> (Inl e, w1)
      | (Inr response, w1) \<Rightarrow>
          (let total_usage' = usage_add total_usage (rs_usage response) in
           case tool_executor of
             Some executor \<Rightarrow>
               (if \<not> response_has_tool_calls response \<or> iterations \<ge> go_max_iterations options
                then (Inr \<lparr>gr_response = response, gr_history = history, gr_total_usage = total_usage',
                        gr_iterations = iterations\<rparr>, w1)
                else
                  (let tool_calls = content_tool_calls (rs_content response);
                       messages = rq_messages request @ [assistant_with_tool_calls tool_calls]
                   in case run_tools join_all (go_parallel_tool_calls options) executor tool_calls w1 of
                        (Inl e, w2) \<Rightarrow> (Inl e, w2)
                      | (Inr results, w2) \<Rightarrow>
                          generate_from complete join_all tool_executor options
                            (request\<lparr>rq_messages := messages @
                               map (\<lambda>(i, content, is_error). tool_result_message i content is_error) results\<rparr>)
                            (iterations + 1) total_usage' (history @ [response]) w2))
           | None \<Rightarrow> (Inr \<lparr>gr_response = response, gr_history = history, gr_total_usage = total_usage',
                        gr_iterations = iterations\<rparr>, w1)))"
  by pat_completeness auto
termination
  by (relation "measure (\<lambda>(_, _, _, options, _, iterations, _, _, _). go_max_iterations options - iterations)") auto

declare generate_from.simps [simp del]

definition generate ::
  "(request \<Rightarrow> 'w \<Rightarrow> (llm_error + response) \<times> 'w) \<Rightarrow> (llm_error + string \<times> string \<times> bool, 'w) join \<Rightarrow> request \<Rightarrow>
   'w tool_executor option \<Rightarrow> generate_options option \<Rightarrow> 'w \<Rightarrow> (llm_error + generate_result) \<times> 'w" where
  "generate complete join_all request tool_executor options w =
     generate_from complete join_all tool_executor
       (case options of Some o' \<Rightarrow> o' | None \<Rightarrow> default_options) request 0 default_usage [] w"

section \<open>Properties of retrying\<close>

text \<open>The state before call \<open>k\<close>, if all calls before it failed with retryable errors.\<close>

fun retry_world ::
  "'w retry_env \<Rightarrow> llm_retry_policy \<Rightarrow> ('w \<Rightarrow> (llm_error + 'a) \<times> 'w) \<Rightarrow> nat \<Rightarrow> nat \<Rightarrow> 'w \<Rightarrow> 'w option" where
  "retry_world env policy operation attempt 0 w = Some w"
| "retry_world env policy operation attempt (Suc k) w =
     (case operation w of
        (Inl err, w1) \<Rightarrow>
          (if retryable err
           then (let (delay, w2) = retry_delay env policy attempt err w1
                 in retry_world env policy operation (attempt + 1) k (rx_sleep env delay w2))
           else None)
      | (Inr _, _) \<Rightarrow> None)"

lemma retry_from_spec:
  "\<exists>k wk. attempt + k \<le> max attempt (lr_max_retries policy) \<and>
     retry_world env policy operation attempt k w = Some wk \<and>
     retry_from env policy operation attempt w = operation wk \<and>
     (case fst (operation wk) of
        Inl e \<Rightarrow> \<not> (attempt + k < lr_max_retries policy \<and> retryable e)
      | Inr v \<Rightarrow> True)"
proof (induction env policy operation attempt w rule: retry_from.induct)
  case (1 env policy operation attempt w)
  obtain r w1 where op: "operation w = (r, w1)" by force
  show ?case
  proof (cases "\<exists>err. r = Inl err \<and> retryable err \<and> attempt < lr_max_retries policy")
    case True
    then obtain err where r: "r = Inl err" "retryable err" "attempt < lr_max_retries policy" by blast
    obtain delay w2 where d: "retry_delay env policy attempt err w1 = (delay, w2)" by force
    from "1.IH" [OF op [symmetric] r(1) _ d [symmetric] refl] r obtain k wk where k:
      "attempt + 1 + k \<le> max (attempt + 1) (lr_max_retries policy)"
      "retry_world env policy operation (attempt + 1) k (rx_sleep env delay w2) = Some wk"
      "retry_from env policy operation (attempt + 1) (rx_sleep env delay w2) = operation wk"
      "case fst (operation wk) of Inl e \<Rightarrow> \<not> (attempt + 1 + k < lr_max_retries policy \<and> retryable e)
         | Inr v \<Rightarrow> True" by auto
    have "retry_from env policy operation attempt w = operation wk"
      using r k(3) by (subst retry_from.simps) (simp add: op d)
    then show ?thesis
      using k r by (intro exI [of _ "Suc k"] exI [of _ wk]) (cases "fst (operation wk)"; simp add: op d)
  next
    case False
    then have "retry_from env policy operation attempt w = operation w"
      by (subst retry_from.simps) (auto simp: op split: sum.split)
    then show ?thesis using False by (intro exI [of _ 0] exI [of _ w]) (auto simp: op split: sum.split)
  qed
qed

text \<open>Retrying calls the operation at most \<open>max_retries\<close> times more than once, and its result is that
  of the last call: every call before failed with a retryable error, and the last one succeeded,
  failed for good, or was the last one allowed.\<close>

theorem llm_retry_spec:
  "\<exists>k wk. k \<le> lr_max_retries policy \<and> retry_world env policy operation 0 k w = Some wk \<and>
     llm_retry env policy operation w = operation wk \<and>
     (case fst (operation wk) of
        Inl e \<Rightarrow> \<not> (k < lr_max_retries policy \<and> retryable e)
      | Inr v \<Rightarrow> True)"
  using retry_from_spec [of 0 policy env operation w] by (simp add: llm_retry_def cong: sum.case_cong)

section \<open>Properties of routing and of the chain\<close>

lemma pass_append: "pass (fs @ gs) x w =
    (case pass fs x w of (Inl e, w1) \<Rightarrow> (Inl e, w1) | (Inr y, w1) \<Rightarrow> pass gs y w1)"
  by (induction fs arbitrary: x w) (auto split: sum.split prod.split)

lemma recover_append: "recover (fs @ gs) e w =
    (case recover fs e w of (Inr x, w1) \<Rightarrow> (Inr x, w1) | (Inl e', w1) \<Rightarrow> recover gs e' w1)"
  by (induction fs arbitrary: e w) (auto split: sum.split prod.split)

lemma pass_neutral: "pass (xs @ (\<lambda>r w. (Inr r, w)) # ys) = pass (xs @ ys)"
  by (intro ext) (simp add: pass_append split: prod.split sum.split)

lemma recover_neutral: "recover (xs @ (\<lambda>e w. (Inl e, w)) # ys) = recover (xs @ ys)"
  by (intro ext) (simp add: recover_append split: prod.split sum.split)

text \<open>A middleware that overrides nothing can stand anywhere in the chain without effect.\<close>

theorem default_middleware_neutral:
  "execute_middleware_chain (ms @ default_middleware # ms') = execute_middleware_chain (ms @ ms') \<and>
   execute_stream_middleware_chain (ms @ default_middleware # ms') = execute_stream_middleware_chain (ms @ ms') \<and>
   execute_stream_error_middleware_chain (ms @ default_middleware # ms') =
     execute_stream_error_middleware_chain (ms @ ms')"
proof -
  have d: "mw_on_request default_middleware = (\<lambda>r w. (Inr r, w))" "mw_on_response default_middleware = (\<lambda>r w. (Inr r, w))"
    "mw_on_error default_middleware = (\<lambda>e w. (Inl e, w))" "mw_on_stream_request default_middleware = (\<lambda>r w. (Inr r, w))"
    "mw_on_stream_error default_middleware = (\<lambda>e w. (Inl e, w))"
    by (simp_all add: default_middleware_def)
  show ?thesis
    by (simp add: execute_middleware_chain_def [abs_def] execute_stream_middleware_chain_def [abs_def]
        execute_stream_error_middleware_chain_def [abs_def] d pass_neutral recover_neutral
        cong: sum.case_cong prod.case_cong)
qed

text \<open>A request that names a model of the catalogue, by identifier or alias, reaches the adapter that is
  registered for the model's provider; without one it fails with the name of that provider.\<close>

theorem known_models_routed:
  "list_all (\<lambda>m. list_all (\<lambda>name.
       adapter_for_request client (request_new name messages) =
         (case cl_providers client (mi_provider m) of
            Some adapter \<Rightarrow> Inr adapter
          | None \<Rightarrow> Inl (ProviderNotConfigured (provider_display (mi_provider m)))))
     (names_of m)) catalog"
  using catalog_inferred by (auto simp: list_all_iff adapter_for_request_def request_new_def)

section \<open>Properties of the tool loop\<close>

definition joins_in_order :: "('a, 'w) join \<Rightarrow> bool" where
  "joins_in_order join_all \<longleftrightarrow>
     (\<forall>fs w. list_all2 (\<lambda>f out. \<exists>w'. fst (f w') = out) fs (fst (join_all fs w)))"

lemma collect_ok_outputs:
  "list_all2 (\<lambda>f out. \<exists>w'. fst (f w') = out) (map (tool_future executor) tcs) rs \<Longrightarrow> collect_ok rs = Inr results \<Longrightarrow>
     map fst results = map tc_id tcs"
proof (induction tcs arbitrary: rs results)
  case (Cons tc tcs)
  from Cons.prems(1) obtain r rs' w' where rs: "rs = r # rs'" "fst (tool_future executor tc w') = r"
    "list_all2 (\<lambda>f out. \<exists>w'. fst (f w') = out) (map (tool_future executor) tcs) rs'"
    by (auto simp: list_all2_Cons1)
  from Cons.prems(2) rs(1) obtain x results' where x: "r = Inr x" "collect_ok rs' = Inr results'" "results = x # results'"
    by (cases r) (auto simp: map_sum_Inr)
  have "fst x = tc_id tc" using rs(2) x(1) by (auto simp: tool_future_def split: prod.splits sum.splits)
  then show ?case using Cons.IH [OF rs(3) x(2)] x(3) by simp
qed simp

lemma run_tools_ids:
  assumes "joins_in_order join_all" "run_tools join_all b executor tcs w = (Inr results, w')"
  shows "map fst results = map tc_id tcs"
proof (cases b)
  case True
  then show ?thesis
    using assms collect_ok_outputs [of executor tcs "fst (join_all (map (tool_future executor) tcs) w)" results]
    by (auto simp: run_tools_def joins_in_order_def split_beta)
next
  case False
  have "run_tools_sequentially executor tcs w = (Inr results, w') \<Longrightarrow> map fst results = map tc_id tcs"
  proof (induction tcs arbitrary: w results)
    case (Cons tc tcs)
    then show ?case by (fastforce simp: tool_future_def split: prod.splits sum.splits)
  qed simp
  then show ?thesis using assms(2) False by (simp add: run_tools_def)
qed

lemma pending_results_map:
  "pending (map fst results @ pend) (map (\<lambda>(i, c, e). tool_result_message i c e) results) = Some pend"
  by (induction results) (auto simp: message_simps)

lemma answered_round:
  assumes "answered [] ms" "map fst results = map tc_id tcs"
  shows "answered [] (ms @ assistant_with_tool_calls tcs # map (\<lambda>(i, c, e). tool_result_message i c e) results)"
proof -
  have "message_tool_calls (assistant_with_tool_calls tcs) = tcs" "ms_role (assistant_with_tool_calls tcs) = Role_Assistant"
    by (simp_all add: assistant_with_tool_calls_def message_tool_calls_def message_simps)
  then show ?thesis
    using assms pending_results_map [of results "[]"] by (simp add: answered_pending pending_append)
qed

text \<open>The client with a check in front of it: a conversation with unanswered tool calls goes to \<open>alt\<close>.\<close>

definition guarded ::
  "(request \<Rightarrow> 'w \<Rightarrow> (llm_error + response) \<times> 'w) \<Rightarrow> (request \<Rightarrow> 'w \<Rightarrow> (llm_error + response) \<times> 'w) \<Rightarrow>
   request \<Rightarrow> 'w \<Rightarrow> (llm_error + response) \<times> 'w" where
  "guarded alt complete request w =
     (if answered [] (rq_messages request) then complete request w else alt request w)"

lemma generate_from_guarded:
  "joins_in_order join_all \<Longrightarrow> answered [] (rq_messages request) \<Longrightarrow>
     generate_from (guarded alt complete) join_all tool_executor options request iterations total_usage history w =
     generate_from complete join_all tool_executor options request iterations total_usage history w"
proof (induction complete join_all tool_executor options request iterations total_usage history w
    rule: generate_from.induct)
  case (1 complete join_all tool_executor options request iterations total_usage history w)
  have g: "guarded alt complete request w = complete request w" using "1.prems"(2) by (simp add: guarded_def)
  obtain r w1 where c: "complete request w = (r, w1)" by force
  show ?case
  proof (cases "\<exists>resp executor results w2. r = Inr resp \<and> tool_executor = Some executor \<and>
      response_has_tool_calls resp \<and> iterations < go_max_iterations options \<and>
      run_tools join_all (go_parallel_tool_calls options) executor (content_tool_calls (rs_content resp)) w1 = (Inr results, w2)")
    case True
    then obtain resp executor results w2 where t: "r = Inr resp" "tool_executor = Some executor"
      "response_has_tool_calls resp" "iterations < go_max_iterations options"
      "run_tools join_all (go_parallel_tool_calls options) executor (content_tool_calls (rs_content resp)) w1 = (Inr results, w2)"
      by blast
    let ?ms = "rq_messages request @ [assistant_with_tool_calls (content_tool_calls (rs_content resp))] @
      map (\<lambda>(i, content, is_error). tool_result_message i content is_error) results"
    have a: "answered [] ?ms"
      using answered_round [OF "1.prems"(2)] run_tools_ids [OF "1.prems"(1) t(5)] by simp
    note IH = "1.IH" [OF c [symmetric] t(1) refl t(2) _ refl refl t(5) [symmetric] refl "1.prems"(1)]
    show ?thesis
      using IH a t(3,4) by (subst (1 2) generate_from.simps) (simp add: g c t(1,2,5) Let_def)
  next
    case False
    then show ?thesis
      by (subst (1 2) generate_from.simps) (auto simp: g c Let_def split: sum.split option.split prod.split)
  qed
qed

text \<open>Every request the tool loop sends holds a conversation in which each tool call has its result,
  in order: a client that refuses any other conversation cannot be told apart.\<close>

theorem generate_requests_answered:
  assumes "joins_in_order join_all" "answered [] (rq_messages request)"
  shows "generate (guarded alt complete) join_all request tool_executor options w =
    generate complete join_all request tool_executor options w"
  using generate_from_guarded [OF assms] by (simp add: generate_def)

lemma generate_from_result:
  assumes "generate_from complete join_all tool_executor options request iterations total_usage history w = (Inr res, w')"
    "length history = iterations" "iterations \<le> go_max_iterations options" "list_all response_has_tool_calls history"
    "total_usage = usage_sum (map rs_usage history) default_usage"
  shows "gr_iterations res = length (gr_history res) \<and> gr_iterations res \<le> go_max_iterations options \<and>
    gr_total_usage res = usage_sum (map rs_usage (gr_history res @ [gr_response res])) default_usage \<and>
    list_all response_has_tool_calls (gr_history res) \<and>
    \<not> (response_has_tool_calls (gr_response res) \<and> tool_executor \<noteq> None \<and> gr_iterations res < go_max_iterations options)"
  using assms
proof (induction complete join_all tool_executor options request iterations total_usage history w
    rule: generate_from.induct)
  case (1 complete join_all tool_executor options request iterations total_usage history w)
  obtain r w1 where c: "complete request w = (r, w1)" by force
  from "1.prems"(1) obtain resp where r: "r = Inr resp"
    by (subst (asm) generate_from.simps) (auto simp: c split: sum.splits)
  have u: "usage_add total_usage (rs_usage resp) = usage_sum (map rs_usage (history @ [resp])) default_usage"
    using "1.prems"(5) by (simp add: usage_sum_append)
  show ?case
  proof (cases "\<exists>executor. tool_executor = Some executor \<and> response_has_tool_calls resp \<and> iterations < go_max_iterations options")
    case True
    then obtain executor where t: "tool_executor = Some executor" "response_has_tool_calls resp"
      "iterations < go_max_iterations options" by blast
    obtain rr w2 where rt: "run_tools join_all (go_parallel_tool_calls options) executor (content_tool_calls (rs_content resp)) w1 = (rr, w2)"
      by force
    from "1.prems"(1) t obtain results where rs: "rr = Inr results"
      by (subst (asm) generate_from.simps) (auto simp: c r rt Let_def split: sum.splits)
    note IH = "1.IH" [OF c [symmetric] r refl t(1) _ refl refl rt [symmetric] rs]
    have step: "generate_from complete join_all tool_executor options request iterations total_usage history w =
        generate_from complete join_all tool_executor options
          (request\<lparr>rq_messages := (rq_messages request @ [assistant_with_tool_calls (content_tool_calls (rs_content resp))]) @
             map (\<lambda>(i, content, is_error). tool_result_message i content is_error) results\<rparr>)
          (iterations + 1) (usage_add total_usage (rs_usage resp)) (history @ [resp]) w2"
      using t by (subst generate_from.simps) (simp add: c r rt rs Let_def)
    show ?thesis
      by (rule IH [OF _ "1.prems"(1) [unfolded step]]) (use "1.prems"(2-5) t u in simp_all)
  next
    case False
    then have "res = \<lparr>gr_response = resp, gr_history = history,
        gr_total_usage = usage_add total_usage (rs_usage resp), gr_iterations = iterations\<rparr>"
      using "1.prems"(1) by (subst (asm) generate_from.simps) (auto simp: c r Let_def split: option.splits if_splits)
    then show ?thesis using "1.prems" u False by auto
  qed
qed

text \<open>C29. The tool loop always returns, after at most \<open>max_iterations\<close> rounds of tool calls; the history are
  the responses with tool calls, one per round, the usage is the sum over all responses, and the
  loop stops early only for a response without tool calls.\<close>

theorem generate_spec:
  "case generate complete join_all request tool_executor options w of
     (Inl e, w') \<Rightarrow> True
   | (Inr res, w') \<Rightarrow>
       (let max_iterations = go_max_iterations (case options of Some o' \<Rightarrow> o' | None \<Rightarrow> default_options) in
        gr_iterations res = length (gr_history res) \<and> gr_iterations res \<le> max_iterations \<and>
        gr_total_usage res = usage_sum (map rs_usage (gr_history res @ [gr_response res])) default_usage \<and>
        list_all response_has_tool_calls (gr_history res) \<and>
        \<not> (response_has_tool_calls (gr_response res) \<and> tool_executor \<noteq> None \<and> gr_iterations res < max_iterations))"
proof -
  obtain r w' where g: "generate complete join_all request tool_executor options w = (r, w')" by force
  show ?thesis
  proof (cases r)
    case (Inr res)
    from generate_from_result [OF g [unfolded generate_def Inr]] show ?thesis by (auto simp: g Inr Let_def)
  qed (simp add: g)
qed

text \<open>One schedule: the futures run one after the other.\<close>

fun join_sequential :: "('a, 'w) join" where
  "join_sequential [] w = ([], w)"
| "join_sequential (f # fs) w =
     (let (x, w1) = f w; (xs, w2) = join_sequential fs w1 in (x # xs, w2))"

lemma joins_in_order_sequential: "joins_in_order (join_sequential :: ('a, 'w) join)"
proof -
  have "list_all2 (\<lambda>f out. \<exists>w'. fst (f w') = out) fs (fst (join_sequential fs w))"
    for fs :: "('w \<Rightarrow> 'a \<times> 'w) list" and w
    by (induction fs arbitrary: w) (auto simp: split_beta)
  then show ?thesis unfolding joins_in_order_def by blast
qed

definition sample_response :: "content_part list \<Rightarrow> response" where
  "sample_response parts =
     \<lparr>rs_id = ''r'', rs_model = ''m'', rs_content = parts, rs_finish_reason = None, rs_usage = default_usage,
      rs_warnings = [], rs_rate_limit = None, rs_provider = None, rs_raw = None\<rparr>"

definition sample_call :: tool_call_data where
  "sample_call = \<lparr>tc_id = ''1'', tc_name = ''read'', tc_arguments = ''{}'', tc_raw_arguments = None\<rparr>"

text \<open>A model that calls a tool once and then answers.\<close>

definition sample_complete :: "request \<Rightarrow> unit \<Rightarrow> (llm_error + response) \<times> unit" where
  "sample_complete r w =
     (Inr (sample_response (if length (rq_messages r) = 1 then [CP_ToolCall sample_call] else [CP_Text ''done''])), w)"

theorem generate_requests_answered_witness:
  "generate (guarded (\<lambda>r w. (Inl LlmCancelled, w)) sample_complete) join_sequential
     (request_new ''m'' [user_message ''hi'']) (Some (\<lambda>name args w. (Inr (''out'', False), w))) None () =
   generate sample_complete join_sequential
     (request_new ''m'' [user_message ''hi'']) (Some (\<lambda>name args w. (Inr (''out'', False), w))) None ()"
  by (rule generate_requests_answered [OF joins_in_order_sequential]) (simp add: request_new_def message_simps)

section \<open>Bounds of the delay\<close>

lemma f64_as_below:
  assumes "\<not> f64_lt (F_Fin False (n * 2 ^ j) (- int j)) x" "x \<noteq> F_NaN"
  shows "f64_as 0 hi x \<le> max 0 (int n)"
proof (cases x)
  case (F_Fin s m e)
  define g where "g = min e (- int j)"
  have le: "signed_mant s m * 2 ^ nat (e - g) \<le> int (n * 2 ^ j) * 2 ^ nat (- int j - g)"
    using assms(1) by (simp add: F_Fin Let_def signed_mant_def g_def min.commute not_less)
  have "nat (- g) = j + nat (- int j - g)" by (simp add: g_def)
  then have rhs: "int (n * 2 ^ j) * 2 ^ nat (- int j - g) = int n * 2 ^ nat (- g)"
    by (simp add: power_add)
  have "trunc_fin s m e \<le> int n"
  proof (cases s)
    case True
    have "trunc_fin s m e \<le> 0" using True by (simp add: trunc_fin_def signed_mant_def)
    then show ?thesis by simp
  next
    case False
    then have m: "int m * 2 ^ nat (e - g) \<le> int n * 2 ^ nat (- g)"
      using le unfolding rhs by (simp add: signed_mant_def)
    show ?thesis
    proof (cases "0 \<le> e")
      case True
      then have "nat (e - g) = nat e + nat (- g)" by (simp add: g_def)
      then have "(int m * 2 ^ nat e) * 2 ^ nat (- g) \<le> int n * 2 ^ nat (- g)" using m by (simp add: power_add mult.assoc)
      then have "int m * 2 ^ nat e \<le> int n" by simp
      then show ?thesis using True False by (simp add: trunc_fin_def signed_mant_def)
    next
      case e: False
      then have "nat (- g) = nat (- e) + nat (e - g)" by (simp add: g_def)
      then have "int m * 2 ^ nat (e - g) \<le> (int n * 2 ^ nat (- e)) * 2 ^ nat (e - g)"
        using m by (simp add: power_add mult.assoc)
      then have "int m \<le> int n * 2 ^ nat (- e)" by simp
      then have "int m div 2 ^ nat (- e) \<le> (int n * 2 ^ nat (- e)) div 2 ^ nat (- e)" by (rule zdiv_mono1) simp
      then show ?thesis using e False by (simp add: trunc_fin_def signed_mant_def zdiv_int)
    qed
  qed
  then show ?thesis by (simp add: F_Fin clamp_int_def)
qed (use assms in \<open>auto split: if_splits\<close>)

text \<open>Without jitter no computed delay exceeds the maximum, whatever the attempt, the multiplier and the
  precision of \<open>powi\<close>: also not when the product overflows, is negative or is not a number.\<close>

theorem llm_delay_capped:
  assumes "\<not> lr_jitter policy" "lr_max_backoff_ms policy < 2 ^ 53"
  shows "fst (llm_compute_delay env policy attempt w) \<le> from_millis (lr_max_backoff_ms policy)"
proof -
  let ?m = "lr_max_backoff_ms policy"
  from f64_of_nat_exact [OF assms(2)] obtain j where j: "f64_of_nat ?m = F_Fin False (?m * 2 ^ j) (- int j)" by blast
  have exact: "f64_as_u64 (f64_of_nat ?m) = ?m"
    using f64_as_exact [OF assms(2), of 0 "2 ^ 64 - 1"] assms(2) by (simp add: f64_as_u64_def)
  have "f64_as_u64 (f64_min x (f64_of_nat ?m)) \<le> ?m" for x
  proof (cases "x = F_NaN \<or> f64_lt (f64_of_nat ?m) x")
    case True
    then show ?thesis using exact by (auto simp: f64_min_def j)
  next
    case False
    then have "f64_as 0 (2 ^ 64 - 1) x \<le> int ?m" using f64_as_below [of ?m j x "2 ^ 64 - 1"] by (simp add: j)
    then show ?thesis using False by (simp add: f64_min_def j f64_as_u64_def)
  qed
  then show ?thesis using assms(1) by (simp add: llm_compute_delay_def Let_def from_millis_def)
qed

theorem llm_delay_capped_witness:
  "fst (llm_compute_delay \<lparr>rx_powi = \<lambda>x n. F_Inf False, rx_random = \<lambda>w. (F_NaN, w), rx_sleep = \<lambda>d w. w\<rparr>
     (default_llm_policy\<lparr>lr_jitter := False\<rparr>) 5000 ()) \<le> from_millis 60000"
  using llm_delay_capped [of "default_llm_policy\<lparr>lr_jitter := False\<rparr>"] by (simp add: default_llm_policy_def)

end
