(* ===== verification/Agent_Guards.thy ===== *)
theory Agent_Guards
  imports Prelude "HOL-Library.Sublist" "HOL-Library.Word"
begin

text \<open>
  Two guards of the agent: the detector of repeating tool calls, \<open>loop_detection.rs\<close>, and the
  truncation of long tool outputs, \<open>tools/truncation.rs\<close>.  The hash of the arguments is a
  parameter: the algorithm of \<open>DefaultHasher\<close> is unspecified.
\<close>

section \<open>The loop detector\<close>

record tool_signature =
  ts_name :: string
  ts_arguments_hash :: "64 word"

record loop_pattern =
  lp_pattern :: "tool_signature list"
  lp_repetitions :: nat
  lp_description :: string

record loop_detector =
  ld_history :: "tool_signature list"
  ld_window_size :: nat
  ld_min_repetitions :: nat

definition default_detector :: loop_detector where
  "default_detector = \<lparr>ld_history = [], ld_window_size = 20, ld_min_repetitions = 3\<rparr>"

definition detector_new :: "nat \<Rightarrow> nat \<Rightarrow> loop_detector" where
  "detector_new window_size min_repetitions =
     \<lparr>ld_history = [], ld_window_size = window_size, ld_min_repetitions = min_repetitions\<rparr>"

definition record_call :: "(string \<Rightarrow> 64 word) \<Rightarrow> string \<Rightarrow> string \<Rightarrow> loop_detector \<Rightarrow> loop_detector" where
  "record_call hash_string name arguments d =
     (let h = ld_history d @ [\<lparr>ts_name = name, ts_arguments_hash = hash_string arguments\<rparr>] in
      d\<lparr>ld_history := (if length h > ld_window_size d then drop (length h - ld_window_size d) h else h)\<rparr>)"

text \<open>The loop that walks back over the repetitions, from position \<open>pos\<close>.\<close>

function count_back :: "'a list \<Rightarrow> nat \<Rightarrow> nat \<Rightarrow> nat \<Rightarrow> nat" where
  "count_back history n pos count =
     (if n > 0 \<and> pos \<ge> n
      then (if take n (drop (pos - n) history) = drop (length history - n) history
            then count_back history n (pos - n) (count + 1) else count)
      else count)"
  by pat_completeness auto
termination by (relation "measure (\<lambda>(_, _, pos, _). pos)") auto

declare count_back.simps [simp del]

definition count_trailing_repetitions :: "'a list \<Rightarrow> nat \<Rightarrow> nat" where
  "count_trailing_repetitions history n =
     (if n = 0 \<or> length history < n then 0 else count_back history n (length history - n) 1)"

definition format_pattern :: "tool_signature list \<Rightarrow> string" where
  "format_pattern p = join '' -> '' (map ts_name p)"

fun first_pattern :: "tool_signature list \<Rightarrow> nat \<Rightarrow> nat list \<Rightarrow> loop_pattern option" where
  "first_pattern history min_reps [] = None"
| "first_pattern history min_reps (n # ns) =
     (let reps = count_trailing_repetitions history n in
      if reps \<ge> min_reps
      then (let pat = drop (length history - n) history in
            Some \<lparr>lp_pattern = pat, lp_repetitions = reps,
              lp_description = format_pattern pat @ '' repeated '' @ dec reps @ '' times''\<rparr>)
      else first_pattern history min_reps ns)"

definition detect_loop :: "loop_detector \<Rightarrow> panic + loop_pattern option" where
  "detect_loop d =
     (if ld_history d = [] then Inr None
      else if ld_min_repetitions d = 0 then Inl Divide_By_Zero
      else Inr (first_pattern (ld_history d) (ld_min_repetitions d)
             [1..<length (ld_history d) div ld_min_repetitions d + 1]))"

definition detector_reset :: "loop_detector \<Rightarrow> loop_detector" where
  "detector_reset d = d\<lparr>ld_history := []\<rparr>"

lemma record_call_min_repetitions: "ld_min_repetitions (record_call h a b d) = ld_min_repetitions d"
  by (simp add: record_call_def Let_def)

lemma detect_loop_ok: "ld_min_repetitions d > 0 \<Longrightarrow> \<exists>f. detect_loop d = Inr f"
  by (simp add: detect_loop_def)

section \<open>Repetitions\<close>

text \<open>The list ends with \<open>r\<close> copies of \<open>p\<close>.\<close>

definition repeats :: "'a list \<Rightarrow> 'a list \<Rightarrow> nat \<Rightarrow> bool" where
  "repeats xs p r \<longleftrightarrow> suffix (concat (replicate r p)) xs"

lemma length_concat_replicate [simp]: "length (concat (replicate r p)) = r * length p"
  by (induction r) simp_all

lemma repeats_Suc:
  assumes "length p = n"
  shows "repeats xs p (Suc r) \<longleftrightarrow>
     n * Suc r \<le> length xs \<and> take n (drop (length xs - n * Suc r) xs) = p \<and> repeats xs p r"
proof
  assume "repeats xs p (Suc r)"
  then obtain ys where xs: "xs = ys @ p @ concat (replicate r p)" by (auto simp: repeats_def suffix_def)
  then show "n * Suc r \<le> length xs \<and> take n (drop (length xs - n * Suc r) xs) = p \<and> repeats xs p r"
    using assms by (auto simp: repeats_def suffix_def algebra_simps)
next
  assume a: "n * Suc r \<le> length xs \<and> take n (drop (length xs - n * Suc r) xs) = p \<and> repeats xs p r"
  then obtain ys where xs: "xs = ys @ concat (replicate r p)" by (auto simp: repeats_def suffix_def)
  then have l: "length xs = length ys + r * n" using assms by simp
  with a have n: "n \<le> length ys" by (simp add: algebra_simps)
  have "drop (length ys - n) ys = p"
  proof -
    have "length xs - n * Suc r = length ys - n" using l by (simp add: algebra_simps)
    then have "take n (drop (length ys - n) xs) = p" using a by simp
    then show ?thesis using n unfolding xs by simp
  qed
  then have "ys = take (length ys - n) ys @ p" by (metis append_take_drop_id)
  then have "xs = take (length ys - n) ys @ concat (replicate (Suc r) p)" using xs by simp
  then show "repeats xs p (Suc r)" unfolding repeats_def suffix_def by blast
qed

lemma repeats_le: "repeats xs p r \<Longrightarrow> s \<le> r \<Longrightarrow> repeats xs p s"
proof -
  assume "repeats xs p r" "s \<le> r"
  then have "concat (replicate r p) = concat (replicate (r - s) p) @ concat (replicate s p)"
    by (metis concat_append le_add_diff_inverse2 replicate_add)
  with \<open>repeats xs p r\<close> show "repeats xs p s" by (auto simp: repeats_def suffix_def)
qed

lemma count_back_repeats:
  assumes "n > 0" "p = drop (length xs - n) xs" "n \<le> length xs" "n * c \<le> length xs" "repeats xs p c" "c \<ge> 1"
  shows "count_back xs n (length xs - n * c) c \<ge> c \<and> repeats xs p (count_back xs n (length xs - n * c) c) \<and>
     \<not> repeats xs p (Suc (count_back xs n (length xs - n * c) c))"
  using assms(4-6)
proof (induction "length xs - n * c" arbitrary: c rule: less_induct)
  case less
  have lp: "length p = n" using assms(2,3) by simp
  define pos where "pos = length xs - n * c"
  note step = repeats_Suc [OF lp, of xs c]
  show ?case
  proof (cases "pos \<ge> n \<and> take n (drop (pos - n) xs) = p")
    case True
    have e: "pos - n = length xs - n * Suc c" by (simp add: pos_def algebra_simps)
    have "n \<le> length xs - n * c" using True by (simp add: pos_def)
    then have "n * c + n \<le> length xs" using less.prems(1) by linarith
    then have l: "n * Suc c \<le> length xs" by simp
    have r: "repeats xs p (Suc c)" unfolding step using True l e less.prems(2) by simp
    have "length xs - n * Suc c < length xs - n * c" using l assms(1) by (simp add: algebra_simps)
    from less.hyps [OF this l r] have IH: "count_back xs n (pos - n) (Suc c) \<ge> Suc c \<and>
        repeats xs p (count_back xs n (pos - n) (Suc c)) \<and> \<not> repeats xs p (Suc (count_back xs n (pos - n) (Suc c)))"
      by (simp add: e)
    have "count_back xs n pos c = count_back xs n (pos - n) (Suc c)"
      using True assms(1,2) by (subst count_back.simps) simp
    with IH show ?thesis by (simp add: pos_def)
  next
    case False
    then have "count_back xs n pos c = c" using assms(2) by (subst count_back.simps) auto
    moreover have "\<not> repeats xs p (Suc c)"
    proof
      assume "repeats xs p (Suc c)"
      then have "n * Suc c \<le> length xs" "take n (drop (length xs - n * Suc c) xs) = p" unfolding step by auto
      moreover have "pos - n = length xs - n * Suc c" by (simp add: pos_def algebra_simps)
      ultimately show False using False less.prems(1) by (simp add: pos_def algebra_simps)
    qed
    ultimately show ?thesis using less.prems(2) by (simp add: pos_def)
  qed
qed

lemma count_trailing_spec:
  assumes "n > 0" "n \<le> length xs"
  shows "repeats xs (drop (length xs - n) xs) r \<longleftrightarrow> r \<le> count_trailing_repetitions xs n"
proof -
  let ?p = "drop (length xs - n) xs"
  have "repeats xs ?p 1" by (simp add: repeats_def suffix_drop)
  with count_back_repeats [OF assms(1) refl assms(2), of 1] assms
  have c: "repeats xs ?p (count_trailing_repetitions xs n)" "\<not> repeats xs ?p (Suc (count_trailing_repetitions xs n))"
    by (auto simp: count_trailing_repetitions_def)
  show ?thesis using c repeats_le by (metis not_less_eq_eq)
qed

lemma repeats_last:
  assumes "repeats xs p r" "r \<ge> 1"
  shows "length p * r \<le> length xs" "p = drop (length xs - length p) xs"
proof -
  from assms(1) obtain ys where xs: "xs = ys @ concat (replicate r p)" by (auto simp: repeats_def suffix_def)
  then show "length p * r \<le> length xs" by simp
  from repeats_le [OF assms] obtain zs where "xs = zs @ p" by (auto simp: repeats_def suffix_def)
  then show "p = drop (length xs - length p) xs" by simp
qed

lemma first_pattern_spec:
  "first_pattern xs m ns = (case List.find (\<lambda>n. count_trailing_repetitions xs n \<ge> m) ns of
     None \<Rightarrow> None
   | Some n \<Rightarrow> Some \<lparr>lp_pattern = drop (length xs - n) xs, lp_repetitions = count_trailing_repetitions xs n,
       lp_description = format_pattern (drop (length xs - n) xs) @ '' repeated '' @
         dec (count_trailing_repetitions xs n) @ '' times''\<rparr>)"
  by (induction xs m ns rule: first_pattern.induct) (simp_all add: Let_def)

lemma find_upt_least: "List.find P [i..<j] = Some n \<Longrightarrow> i \<le> k \<Longrightarrow> k < j \<Longrightarrow> P k \<Longrightarrow> n \<le> k"
proof (induction "j - i" arbitrary: i)
  case (Suc x)
  then have "[i..<j] = i # [Suc i..<j]" by (simp add: upt_conv_Cons)
  show ?case
  proof (cases "P i")
    case True
    then show ?thesis using Suc.prems(1,2) \<open>[i..<j] = _\<close> by simp
  next
    case False
    then have "i \<noteq> k" using Suc.prems(4) by auto
    then show ?thesis
      using Suc.hyps(1) [of "Suc i"] Suc.hyps(2) Suc.prems False \<open>[i..<j] = _\<close> by simp
  qed
qed simp

text \<open>The lengths the detector tries for a history, and what it finds among them.\<close>

definition pattern_lengths :: "tool_signature list \<Rightarrow> nat \<Rightarrow> nat list" where
  "pattern_lengths xs m = [1..<length xs div m + 1]"

lemma pattern_lengths_range: "n \<in> set (pattern_lengths xs m) \<Longrightarrow> 0 < n \<and> n \<le> length xs"
  using div_le_dividend [of "length xs" m]
  by (simp only: pattern_lengths_def set_upt atLeastLessThan_iff) linarith

lemma repeated_candidate:
  assumes "m > 0" "p \<noteq> []" "repeats xs p m"
  shows "length p \<in> set (pattern_lengths xs m)" "count_trailing_repetitions xs (length p) \<ge> m"
proof -
  from repeats_last [OF assms(3)] assms(1) have l: "length p * m \<le> length xs" "p = drop (length xs - length p) xs" by auto
  have d: "length p \<le> length xs div m" using l(1) assms(1) by (simp add: less_eq_div_iff_mult_less_eq)
  have "length p \<le> length xs" using d div_le_dividend le_trans by blast
  then show "count_trailing_repetitions xs (length p) \<ge> m"
    using count_trailing_spec [of "length p" xs m] assms(2,3) l(2) by simp
  have "length p > 0" using assms(2) by simp
  with d show "length p \<in> set (pattern_lengths xs m)"
    by (simp only: pattern_lengths_def set_upt atLeastLessThan_iff) linarith
qed

lemma found_pattern:
  assumes "m > 0" "List.find (\<lambda>n. count_trailing_repetitions xs n \<ge> m) (pattern_lengths xs m) = Some n"
  defines "p \<equiv> drop (length xs - n) xs" and "r \<equiv> count_trailing_repetitions xs n"
  shows "p \<noteq> [] \<and> r \<ge> m \<and> repeats xs p m \<and> repeats xs p r \<and> \<not> repeats xs p (r + 1) \<and>
    (\<forall>q. q \<noteq> [] \<and> repeats xs q m \<longrightarrow> length p \<le> length q)"
proof -
  have n: "n \<in> set (pattern_lengths xs m)" "r \<ge> m" using find_Some_mem [OF assms(2)] by (auto simp: r_def)
  note range = pattern_lengths_range [OF n(1)]
  note c = count_trailing_spec [OF conjunct1 [OF range] conjunct2 [OF range], folded p_def]
  have len: "length p = n" using range by (simp add: p_def)
  have "length p \<le> length q" if "q \<noteq> []" "repeats xs q m" for q
  proof -
    have "1 \<le> length q" "length q < length xs div m + 1"
      using repeated_candidate(1) [OF assms(1) that] by (simp_all only: pattern_lengths_def set_upt atLeastLessThan_iff)
    then show ?thesis unfolding len
      using find_upt_least [OF assms(2) [unfolded pattern_lengths_def]] repeated_candidate(2) [OF assms(1) that] by blast
  qed
  then show ?thesis using c n(2) len range by (auto simp: r_def)
qed

text \<open>The detector finds a loop exactly when the history ends with some sequence of calls repeated at
  least the minimal number of times, and then reports the shortest such sequence with the exact
  number of its repetitions at the end; with a minimum of zero it divides by zero.\<close>

theorem detect_loop_spec:
  assumes "ld_min_repetitions d > 0"
  shows "(detect_loop d = Inr None \<longleftrightarrow>
      \<not> (\<exists>p. p \<noteq> [] \<and> repeats (ld_history d) p (ld_min_repetitions d))) \<and>
    (\<forall>r. detect_loop d = Inr (Some r) \<longrightarrow>
      lp_pattern r \<noteq> [] \<and> lp_repetitions r \<ge> ld_min_repetitions d \<and>
      repeats (ld_history d) (lp_pattern r) (lp_repetitions r) \<and>
      \<not> repeats (ld_history d) (lp_pattern r) (lp_repetitions r + 1) \<and>
      (\<forall>p. p \<noteq> [] \<and> repeats (ld_history d) p (ld_min_repetitions d) \<longrightarrow> length (lp_pattern r) \<le> length p))"
proof -
  let ?xs = "ld_history d" and ?m = "ld_min_repetitions d"
  let ?found = "List.find (\<lambda>n. count_trailing_repetitions ?xs n \<ge> ?m) (pattern_lengths ?xs ?m)"
  have d: "detect_loop d = Inr (first_pattern ?xs ?m (pattern_lengths ?xs ?m))"
    using assms by (auto simp: detect_loop_def pattern_lengths_def)
  show ?thesis
  proof (cases ?found)
    case None
    then have "\<not> (\<exists>p. p \<noteq> [] \<and> repeats ?xs p ?m)"
      using repeated_candidate [OF assms] unfolding find_None_iff by blast
    moreover have "detect_loop d = Inr None" by (simp only: d first_pattern_spec None option.case)
    ultimately show ?thesis by simp
  next
    case (Some n)
    obtain r where r: "detect_loop d = Inr (Some r)" "lp_pattern r = drop (length ?xs - n) ?xs"
      "lp_repetitions r = count_trailing_repetitions ?xs n"
      by (simp add: d first_pattern_spec Some)
    from found_pattern [OF assms Some, folded r(2,3)] show ?thesis
      by (simp only: r(1) sum.inject option.inject option.distinct) blast
  qed
qed

theorem detect_loop_spec_witness:
  "\<not> (\<exists>p. p \<noteq> [] \<and> repeats (ld_history (record_call (\<lambda>_. 0) ''read'' ''x'' default_detector)) p 3)"
proof -
  let ?d = "record_call (\<lambda>_. 0) ''read'' ''x'' default_detector"
  have m: "ld_min_repetitions ?d = 3" by (simp add: record_call_def default_detector_def Let_def)
  have "detect_loop ?d = Inr None" by code_simp
  then show ?thesis using detect_loop_spec [of ?d] by (simp add: m)
qed

definition call_signature :: "(string \<Rightarrow> 64 word) \<Rightarrow> string \<times> string \<Rightarrow> tool_signature" where
  "call_signature hash c = \<lparr>ts_name = fst c, ts_arguments_hash = hash (snd c)\<rparr>"

definition record_calls :: "(string \<Rightarrow> 64 word) \<Rightarrow> (string \<times> string) list \<Rightarrow> loop_detector \<Rightarrow> loop_detector" where
  "record_calls hash calls d = fold (\<lambda>(name, args). record_call hash name args) calls d"

text \<open>After any sequence of calls the history is the last \<open>window_size\<close> of them.\<close>

theorem record_calls_window:
  "ld_history (record_calls hash calls (detector_new w m)) =
     drop (length calls - w) (map (call_signature hash) calls)"
proof -
  have "ld_history (record_calls hash calls d) = (let h = ld_history d @ map (call_signature hash) calls in
      drop (length h - w) h) \<and> ld_window_size (record_calls hash calls d) = w"
    if "length (ld_history d) \<le> w" "ld_window_size d = w" for d
    using that
  proof (induction calls arbitrary: d)
    case (Cons c cs)
    obtain name args where c: "c = (name, args)" by force
    define d' where "d' = record_call hash name args d"
    have d': "ld_window_size d' = w" "length (ld_history d') \<le> w"
      "ld_history d' = drop (Suc (length (ld_history d)) - w) (ld_history d @ [call_signature hash c])"
      using Cons.prems by (auto simp: d'_def record_call_def Let_def c call_signature_def)
    have "record_calls hash (c # cs) d = record_calls hash cs d'" by (simp add: record_calls_def c d'_def)
    moreover have "ld_history d' @ map (call_signature hash) cs =
        drop (Suc (length (ld_history d)) - w) (ld_history d @ map (call_signature hash) (c # cs))"
      by (simp add: d'(3) drop_Cons')
    moreover define H where "H = ld_history d @ map (call_signature hash) (c # cs)"
    moreover define k where "k = Suc (length (ld_history d)) - w"
    ultimately have h: "ld_history d' @ map (call_signature hash) cs = drop k H" and
      r: "record_calls hash (c # cs) d = record_calls hash cs d'" by simp_all
    have "length (drop k H) - w + k = length H - w" using Cons.prems(1) by (auto simp: H_def k_def)
    then have "drop (length (drop k H) - w) (drop k H) = drop (length H - w) H" by (simp add: drop_drop)
    with Cons.IH [OF d'(2,1)] show ?case unfolding Let_def h r H_def [symmetric] by (simp only:)
  qed (simp add: record_calls_def)
  from this [of "detector_new w m"] show ?thesis by (simp add: detector_new_def Let_def)
qed

section \<open>Truncation\<close>

text \<open>Byte indices: the nearest character boundary at or before, and at or after, an index.\<close>

fun floor_from :: "string \<Rightarrow> nat \<Rightarrow> nat" where
  "floor_from s 0 = 0"
| "floor_from s (Suc b) = (if is_char_boundary s (Suc b) then Suc b else floor_from s b)"

definition floor_char_boundary :: "string \<Rightarrow> nat \<Rightarrow> nat" where
  "floor_char_boundary s i = floor_from s (min i (length s))"

function ceil_from :: "string \<Rightarrow> nat \<Rightarrow> nat" where
  "ceil_from s b = (if b < length s \<and> \<not> is_char_boundary s b then ceil_from s (b + 1) else b)"
  by pat_completeness auto
termination by (relation "measure (\<lambda>(s, b). length s - b)") auto

declare ceil_from.simps [simp del]

definition ceil_char_boundary :: "string \<Rightarrow> nat \<Rightarrow> nat" where
  "ceil_char_boundary s i = ceil_from s (min i (length s))"

definition truncation_marker :: "nat \<Rightarrow> string" where
  "truncation_marker omitted =
     [newline, newline] @ ''[... truncated '' @ dec omitted @ '' characters ...]'' @ [newline, newline]"

definition truncate_output :: "string \<Rightarrow> nat \<Rightarrow> panic + string" where
  "truncate_output content max_chars =
     (if length content \<le> max_chars then Inr content
      else
        (let preliminary_head = max_chars * 2 div 3;
             preliminary_tail = max_chars div 4;
             omitted = length content - (preliminary_head + preliminary_tail);
             marker = truncation_marker omitted;
             available = max_chars - length marker;
             head_size = available * 2 div 3;
             tail_size = available - head_size;
             head_end = floor_char_boundary content head_size;
             tail_start = ceil_char_boundary content (length content - tail_size)
         in res_bind (slice_to content head_end) (\<lambda>hd_text.
            res_bind (slice_from content tail_start) (\<lambda>tl_text.
              Inr (hd_text @ marker @ tl_text)))))"

lemma floor_from_props: "is_char_boundary s (floor_from s b) \<and> floor_from s b \<le> b"
  by (induction s b rule: floor_from.induct) (auto simp: is_char_boundary_def)

lemma ceil_from_props: "b \<le> length s \<Longrightarrow> is_char_boundary s (ceil_from s b) \<and> b \<le> ceil_from s b \<and> ceil_from s b \<le> length s"
proof (induction s b rule: ceil_from.induct)
  case (1 s b)
  show ?case
  proof (cases "b < length s \<and> \<not> is_char_boundary s b")
    case True
    then show ?thesis using 1 by (subst (1 2 3) ceil_from.simps) auto
  next
    case False
    then show ?thesis using 1(2) by (subst (1 2 3) ceil_from.simps) (auto simp: is_char_boundary_def)
  qed
qed

text \<open>Where a long output is cut: between two characters, with the marker in between.\<close>

lemma truncate_output_cut:
  assumes "\<not> length content \<le> max_chars"
    and "marker = truncation_marker (length content - (max_chars * 2 div 3 + max_chars div 4))"
  shows "\<exists>i j. is_char_boundary content i \<and> is_char_boundary content j \<and> i \<le> j \<and> j \<le> length content \<and>
    truncate_output content max_chars = Inr (take i content @ marker @ drop j content) \<and>
    length (take i content @ marker @ drop j content) \<le> max max_chars (length marker)"
proof -
  define av where "av = max_chars - length marker"
  define i where "i = floor_char_boundary content (av * 2 div 3)"
  define j where "j = ceil_char_boundary content (length content - (av - av * 2 div 3))"
  have i: "is_char_boundary content i" "i \<le> av * 2 div 3"
    using floor_from_props [of content "min (av * 2 div 3) (length content)"]
    by (auto simp: i_def floor_char_boundary_def)
  have j: "is_char_boundary content j" "length content - (av - av * 2 div 3) \<le> j" "j \<le> length content"
    using ceil_from_props [of "length content - (av - av * 2 div 3)" content]
    by (auto simp: j_def ceil_char_boundary_def)
  have av: "av \<le> max_chars" "av * 2 div 3 \<le> av" by (auto simp: av_def)
  have ij: "i \<le> j" using i(2) j(2) av assms(1) by linarith
  have out: "truncate_output content max_chars = Inr (take i content @ marker @ drop j content)"
    unfolding truncate_output_def Let_def assms(2) [symmetric] av_def [symmetric] i_def [symmetric] j_def [symmetric]
    using assms(1) i(1) j(1) by (simp add: slice_to_def slice_from_def)
  have "length (drop j content) \<le> av - av * 2 div 3" using j(2) by simp
  moreover have "length (take i content) \<le> av * 2 div 3" using i(2) by simp
  ultimately have "length (take i content @ marker @ drop j content) \<le> av + length marker" using av(2) by simp
  also have "\<dots> = max max_chars (length marker)" by (auto simp: av_def)
  finally show ?thesis using i(1) j(1,3) ij out by blast
qed

lemma truncate_output_total: "\<exists>out. truncate_output content max_chars = Inr out"
proof (cases "length content \<le> max_chars")
  case False
  then show ?thesis using truncate_output_cut [OF False refl] by blast
qed (simp add: truncate_output_def)

text \<open>Truncating never panics: an output that fits is kept; a longer one becomes a prefix, the marker
  with the number of omitted bytes, and a suffix, which do not overlap and are cut between
  characters; the result is within the limit, or is the marker alone when the limit is shorter.\<close>

theorem truncate_output_spec:
  "\<exists>out. truncate_output content max_chars = Inr out \<and>
     (if length content \<le> max_chars then out = content
      else \<exists>h t mid.
        (let marker = truncation_marker (length content - (max_chars * 2 div 3 + max_chars div 4)) in
         out = h @ marker @ t \<and> content = h @ mid @ t \<and>
         is_char_boundary content (length h) \<and> is_char_boundary content (length (h @ mid)) \<and>
         length out \<le> max max_chars (length marker)))"
proof (cases "length content \<le> max_chars")
  case False
  define marker where "marker = truncation_marker (length content - (max_chars * 2 div 3 + max_chars div 4))"
  from truncate_output_cut [OF False marker_def] obtain i j where
    ij: "is_char_boundary content i" "is_char_boundary content j" "i \<le> j" "j \<le> length content"
    "truncate_output content max_chars = Inr (take i content @ marker @ drop j content)"
    "length (take i content @ marker @ drop j content) \<le> max max_chars (length marker)" by blast
  have "content = take i content @ take (j - i) (drop i content) @ drop j content"
    using ij(3) by (metis append_take_drop_id drop_drop le_add_diff_inverse2)
  moreover have "length (take i content @ take (j - i) (drop i content)) = j" using ij(3,4) by simp
  ultimately have spec: "let m = truncation_marker (length content - (max_chars * 2 div 3 + max_chars div 4)) in
      take i content @ marker @ drop j content = take i content @ m @ drop j content \<and>
      content = take i content @ take (j - i) (drop i content) @ drop j content \<and>
      is_char_boundary content (length (take i content)) \<and>
      is_char_boundary content (length (take i content @ take (j - i) (drop i content))) \<and>
      length (take i content @ marker @ drop j content) \<le> max max_chars (length m)"
    using ij(1-4,6) unfolding Let_def marker_def [symmetric] by (intro conjI) (simp_all only: simp_thms, simp)
  show ?thesis
    by (rule exI, rule conjI, rule ij(5), subst if_not_P [OF False], intro exI, rule spec)
qed (simp add: truncate_output_def)

end
