(* ===== verification/Agent_Profile.thy ===== *)
theory Agent_Profile
  imports Llm_Catalog
begin

text \<open>
  The system prompts of the agent: the provider profiles, \<open>smasher-agent/src/profile/mod.rs\<close>, and the
  discovery of project documentation, \<open>smasher-agent/src/prompt.rs\<close>.  The file system is a
  parameter.
\<close>

section \<open>Profiles\<close>

record system_prompt_config =
  pc_working_directory :: "string option"
  pc_project_instructions :: "string option"
  pc_custom_instructions :: "string option"
  pc_current_date :: "string option"
  pc_os_info :: "string option"

definition default_prompt_config :: system_prompt_config where
  "default_prompt_config = \<lparr>pc_working_directory = None, pc_project_instructions = None,
     pc_custom_instructions = None, pc_current_date = None, pc_os_info = None\<rparr>"

record provider_profile =
  pf_name :: string
  pf_system_prompt :: "system_prompt_config \<Rightarrow> string"
  pf_tool_names :: "string list"
  pf_supports_thinking :: bool
  pf_context_window :: nat
  pf_default_model :: string

definition opt_list :: "'a option \<Rightarrow> 'a list" where
  "opt_list x = (case x of Some y \<Rightarrow> [y] | None \<Rightarrow> [])"

definition env_lines :: "system_prompt_config \<Rightarrow> string list" where
  "env_lines config =
     map ((@) ''Working directory: '') (opt_list (pc_working_directory config)) @
     map ((@) ''OS: '') (opt_list (pc_os_info config)) @
     map ((@) ''Date: '') (opt_list (pc_current_date config))"

text \<open>The four sections: what the agent is, its environment, its tools, its instructions.\<close>

definition prompt_sections :: "string \<Rightarrow> string \<Rightarrow> string list \<Rightarrow> system_prompt_config \<Rightarrow> string list" where
  "prompt_sections intro tools instructions config =
     [intro] @
     (if env_lines config \<noteq> [] then [''# Environment'' @ [newline] @ join [newline] (env_lines config)] else []) @
     [''# Available Tools'' @ [newline] @ tools] @
     [''# Instructions'' @ [newline] @ join [newline] (instructions @
        opt_list (pc_project_instructions config) @ opt_list (pc_custom_instructions config))]"

definition prompt_text :: "string \<Rightarrow> string \<Rightarrow> string list \<Rightarrow> system_prompt_config \<Rightarrow> string" where
  "prompt_text intro tools instructions config =
     join [newline, newline] (prompt_sections intro tools instructions config)"

definition anthropic_profile :: provider_profile where
  "anthropic_profile =
     \<lparr>pf_name = ''anthropic'',
      pf_system_prompt = prompt_text
        ''You are an AI coding assistant. You help users with software engineering tasks.''
        ''You have access to tools for reading files, writing files, editing files, running commands, searching code, and finding files.''
        [''- Read files before modifying them to understand existing code'',
         ''- Make minimal, focused changes'',
         ''- Prefer editing existing files over creating new ones'',
         ''- Run tests after making changes''],
      pf_tool_names = [''read_file'', ''write_file'', ''edit_file'', ''shell'', ''grep'', ''glob_files''],
      pf_supports_thinking = True, pf_context_window = 200000, pf_default_model = ''claude-sonnet-4-20250514''\<rparr>"

definition openai_profile :: provider_profile where
  "openai_profile =
     \<lparr>pf_name = ''openai'',
      pf_system_prompt = prompt_text
        ''You are an AI coding assistant powered by OpenAI. You help users write, debug, and improve code.''
        ''You have access to tools for reading files, applying patches via apply_patch, running commands, searching code, and finding files. Use apply_patch to create, modify, or delete files.''
        [''- Read files before modifying them to understand existing code'',
         ''- Use apply_patch for all file modifications'',
         ''- Make minimal, focused changes'',
         ''- Run tests after making changes''],
      pf_tool_names = [''read_file'', ''apply_patch'', ''shell'', ''grep'', ''glob_files''],
      pf_supports_thinking = True, pf_context_window = 128000, pf_default_model = ''gpt-4o''\<rparr>"

definition gemini_profile :: provider_profile where
  "gemini_profile =
     \<lparr>pf_name = ''gemini'',
      pf_system_prompt = prompt_text
        ''You are an AI coding assistant powered by Google Gemini. You help users with software engineering tasks including writing, reviewing, and debugging code.''
        ''You have access to tools for reading files, writing files, editing files, running commands, searching code, and finding files.''
        [''- Read files before modifying them to understand existing code'',
         ''- Make minimal, focused changes'',
         ''- Prefer editing existing files over creating new ones'',
         ''- Run tests after making changes''],
      pf_tool_names = [''read_file'', ''write_file'', ''edit_file'', ''shell'', ''grep'', ''glob_files''],
      pf_supports_thinking = True, pf_context_window = 1000000, pf_default_model = ''gemini-2.5-pro''\<rparr>"

definition profile_for_model :: "string \<Rightarrow> provider_profile" where
  "profile_for_model model =
     (case infer_provider model of
        Some Anthropic \<Rightarrow> anthropic_profile
      | Some OpenAi \<Rightarrow> openai_profile
      | Some Gemini \<Rightarrow> gemini_profile
      | None \<Rightarrow> anthropic_profile)"

section \<open>Project documentation\<close>

definition project_doc_specs :: "(string \<times> string option) list" where
  "project_doc_specs =
     [(''CLAUDE.md'', Some ''anthropic''), (''.claude'', Some ''anthropic''), (''GEMINI.md'', Some ''gemini''),
      (''.cursorrules'', Some ''openai''), (''AGENTS.md'', None), (''.github/copilot-instructions.md'', None),
      (''CONVENTIONS.md'', None), (''AI_INSTRUCTIONS.md'', None)]"

definition project_doc_files :: "string list" where
  "project_doc_files =
     [''CLAUDE.md'', ''.claude'', ''GEMINI.md'', ''AGENTS.md'', ''.cursorrules'',
      ''.github/copilot-instructions.md'', ''CONVENTIONS.md'', ''AI_INSTRUCTIONS.md'']"

text \<open>
  A directory: for each file name under it whether it exists and is a directory, its text if it can be
  read, and the entries of a directory (name, whether a file, its text) up to the first error.
\<close>

record doc_fs =
  df_metadata :: "string \<Rightarrow> bool option"
  df_read :: "string \<Rightarrow> string option"
  df_read_dir :: "string \<Rightarrow> (string \<times> bool \<times> string option) list option"

definition doc_header :: "string \<Rightarrow> string \<Rightarrow> string" where
  "doc_header name content =
     [newline, newline] @ ''# From '' @ name @ [newline, newline] @ content"

definition concat_parts :: "string list \<Rightarrow> string option" where
  "concat_parts parts = (if parts = [] then None else Some (concat parts))"

definition discover_project_docs :: "doc_fs \<Rightarrow> string option" where
  "discover_project_docs fs =
     concat_parts (List.map_filter
       (\<lambda>filename. if df_metadata fs filename \<noteq> None
          then map_option (doc_header filename) (df_read fs filename) else None) project_doc_files)"

definition dir_entry :: "string \<Rightarrow> string \<times> bool \<times> string option \<Rightarrow> string option" where
  "dir_entry filename e =
     (case e of (name, is_file, content) \<Rightarrow>
        if is_file then map_option (doc_header (filename @ ''/'' @ name)) content else None)"

definition read_doc_entry :: "doc_fs \<Rightarrow> string \<Rightarrow> string option" where
  "read_doc_entry fs filename =
     (case df_metadata fs filename of
        None \<Rightarrow> None
      | Some True \<Rightarrow>
          (case df_read_dir fs filename of
             None \<Rightarrow> None
           | Some entries \<Rightarrow> concat_parts (List.map_filter (dir_entry filename) entries))
      | Some False \<Rightarrow> map_option (doc_header filename) (df_read fs filename))"

definition discover_project_docs_for_provider :: "doc_fs \<Rightarrow> string \<Rightarrow> string option" where
  "discover_project_docs_for_provider fs provider_name =
     concat_parts (List.map_filter
       (\<lambda>(filename, required). if required \<noteq> None \<and> required \<noteq> Some provider_name then None
          else read_doc_entry fs filename) project_doc_specs)"

text \<open>The system information and the custom instructions of the session's configuration are arguments.\<close>

definition build_system_prompt ::
  "string \<times> string \<Rightarrow> (string \<Rightarrow> doc_fs) \<Rightarrow> string option \<Rightarrow> provider_profile \<Rightarrow> string option \<Rightarrow> string" where
  "build_system_prompt info fs system_prompt profile working_directory =
     pf_system_prompt profile
       \<lparr>pc_working_directory = working_directory,
        pc_project_instructions =
          (case working_directory of
             Some wd \<Rightarrow> discover_project_docs_for_provider (fs wd) (pf_name profile)
           | None \<Rightarrow> None),
        pc_custom_instructions = system_prompt,
        pc_current_date = Some (snd info), pc_os_info = Some (fst info)\<rparr>"

section \<open>Properties\<close>

lemma profile_prompts:
  "profile_for_model model \<in> {anthropic_profile, openai_profile, gemini_profile}"
  by (simp add: profile_for_model_def split: option.split provider.split)

text \<open>The documentation of another provider is not read: changing the files of other providers, or
  whether they exist, changes no prompt.\<close>

theorem prompt_ignores_other_providers:
  assumes "\<And>wd filename. list_ex (\<lambda>(f, required). f = filename \<and> (required = None \<or> required = Some (pf_name profile)))
      project_doc_specs \<Longrightarrow> read_doc_entry (fs wd) filename = read_doc_entry (fs' wd) filename"
  shows "build_system_prompt info fs system_prompt profile working_directory =
    build_system_prompt info fs' system_prompt profile working_directory"
proof -
  let ?doc = "\<lambda>fs (filename, required). if required \<noteq> None \<and> required \<noteq> Some (pf_name profile) then None
      else read_doc_entry fs filename"
  have "?doc (fs wd) s = ?doc (fs' wd) s" if "s \<in> set project_doc_specs" for s wd
  proof -
    obtain f r where s: "s = (f, r)" by force
    have "read_doc_entry (fs wd) f = read_doc_entry (fs' wd) f" if "r = None \<or> r = Some (pf_name profile)"
    proof (rule assms)
      show "list_ex (\<lambda>(g, required). g = f \<and> (required = None \<or> required = Some (pf_name profile))) project_doc_specs"
        using that \<open>s \<in> set project_doc_specs\<close> s unfolding list_ex_iff by (intro bexI [of _ "(f, r)"]) auto
    qed
    then show ?thesis by (simp add: s)
  qed
  then have "discover_project_docs_for_provider (fs wd) (pf_name profile) =
      discover_project_docs_for_provider (fs' wd) (pf_name profile)" for wd
    unfolding discover_project_docs_for_provider_def by (intro arg_cong [of _ _ concat_parts] map_filter_cong) blast
  then show ?thesis by (simp add: build_system_prompt_def cong: option.case_cong)
qed

end
