(* ===== verification/Session.thy ===== *)
theory Session
  imports Llm_Client Agent_Guards Agent_Profile Utf8
begin

text \<open>
  The agent's session: the tool registry, \<open>smasher-agent/src/tools/mod.rs\<close>; the session's state and
  events, \<open>smasher-agent/src/types/mod.rs\<close>; and the loop that drives the conversation between the
  user, the model and the tools, \<open>smasher-agent/src/session.rs\<close>.  The model behind the client,
  the tools and the cancellation token act on an outside state.  Events are collected in the
  order they are emitted.
\<close>

section \<open>Tools\<close>

record tool_output =
  to_content :: string
  to_is_error :: bool
  to_duration_ms :: nat

definition output_success :: "string \<Rightarrow> nat \<Rightarrow> tool_output" where
  "output_success content ms = \<lparr>to_content = content, to_is_error = False, to_duration_ms = ms\<rparr>"

definition output_error :: "string \<Rightarrow> nat \<Rightarrow> tool_output" where
  "output_error content ms = \<lparr>to_content = content, to_is_error = True, to_duration_ms = ms\<rparr>"

record 'w agent_tool =
  at_name :: string
  at_description :: string
  at_parameters_schema :: json
  at_execute :: "string \<Rightarrow> 'w \<Rightarrow> tool_output \<times> 'w"

record 'w tool_registry =
  rg_tools :: "'w agent_tool hmap"
  rg_max_output_chars :: nat
  rg_tool_output_limits :: "nat str_map"

definition default_tool_output_limits :: "nat str_map" where
  "default_tool_output_limits =
     [''read_file'' \<mapsto> 50000, ''shell'' \<mapsto> 30000, ''grep'' \<mapsto> 20000, ''glob_files'' \<mapsto> 20000,
      ''edit_file'' \<mapsto> 10000, ''write_file'' \<mapsto> 10000, ''apply_patch'' \<mapsto> 10000]"

definition registry_new :: "'w tool_registry" where
  "registry_new = \<lparr>rg_tools = [], rg_max_output_chars = 100000, rg_tool_output_limits = default_tool_output_limits\<rparr>"

definition with_max_output_chars :: "nat \<Rightarrow> 'w tool_registry \<Rightarrow> 'w tool_registry" where
  "with_max_output_chars n reg = reg\<lparr>rg_max_output_chars := n\<rparr>"

definition register_tool :: "'w agent_tool \<Rightarrow> 'w tool_registry \<Rightarrow> 'w tool_registry" where
  "register_tool tool reg = reg\<lparr>rg_tools := hm_insert (at_name tool) tool (rg_tools reg)\<rparr>"

definition get_tool :: "string \<Rightarrow> 'w tool_registry \<Rightarrow> 'w agent_tool option" where
  "get_tool name reg = hm_get (rg_tools reg) name"

definition has_tool :: "string \<Rightarrow> 'w tool_registry \<Rightarrow> bool" where
  "has_tool name reg \<longleftrightarrow> hm_get (rg_tools reg) name \<noteq> None"

definition tool_names :: "'w tool_registry \<Rightarrow> string list" where
  "tool_names reg = map fst (rg_tools reg)"

definition registry_len :: "'w tool_registry \<Rightarrow> nat" where
  "registry_len reg = length (rg_tools reg)"

definition registry_is_empty :: "'w tool_registry \<Rightarrow> bool" where
  "registry_is_empty reg \<longleftrightarrow> rg_tools reg = []"

definition tool_definitions :: "'w tool_registry \<Rightarrow> tool_definition list" where
  "tool_definitions reg =
     map (\<lambda>(_, tool). \<lparr>td_name = at_name tool, td_description = at_description tool,
        td_parameters = at_parameters_schema tool\<rparr>) (rg_tools reg)"

definition output_limit_for :: "string \<Rightarrow> 'w tool_registry \<Rightarrow> nat" where
  "output_limit_for tool_name reg =
     (case rg_tool_output_limits reg tool_name of Some n \<Rightarrow> n | None \<Rightarrow> rg_max_output_chars reg)"

definition truncate_for_tool :: "string \<Rightarrow> string \<Rightarrow> 'w tool_registry \<Rightarrow> panic + string" where
  "truncate_for_tool tool_name content reg =
     (let limit = output_limit_for tool_name reg in
      if length content > limit then truncate_output content limit else Inr content)"

definition execute_untruncated :: "'w tool_registry \<Rightarrow> string \<Rightarrow> string \<Rightarrow> 'w \<Rightarrow> tool_output \<times> 'w" where
  "execute_untruncated reg name arguments w =
     (case get_tool name reg of
        Some tool \<Rightarrow> at_execute tool arguments w
      | None \<Rightarrow> (output_error (''tool '' @ [CHR 0x27] @ name @ [CHR 0x27] @ '' not found'') 0, w))"

definition execute_tool :: "'w tool_registry \<Rightarrow> string \<Rightarrow> string \<Rightarrow> 'w \<Rightarrow> (panic + tool_output) \<times> 'w" where
  "execute_tool reg name arguments w =
     (case get_tool name reg of
        Some tool \<Rightarrow>
          (let (out, w1) = at_execute tool arguments w;
               limit = output_limit_for name reg
           in (if length (to_content out) > limit
               then map_sum id (\<lambda>c. out\<lparr>to_content := c\<rparr>) (truncate_output (to_content out) limit)
               else Inr out, w1))
      | None \<Rightarrow> (Inr (output_error (''tool '' @ [CHR 0x27] @ name @ [CHR 0x27] @ '' not found'') 0), w))"

section \<open>State, configuration and events\<close>

datatype turn =
    Turn_UserInput string
  | Turn_AssistantResponse response
  | Turn_ToolExecution string string string string bool nat
  | Turn_Steering string
  | Turn_Error string

datatype session_event =
    SE_SessionStarted string
  | SE_TurnStarted "32 word"
  | SE_AssistantMessage response
  | SE_ToolCallStarted string string string
  | SE_ToolCallCompleted string string string bool nat
  | SE_TextDelta string
  | SE_SteeringApplied string
  | SE_SessionCompleted string "32 word" usage
  | SE_SessionError string string
  | SE_LoopDetected string nat
  | SE_ContextWindowWarning nat nat f64

record session_config =
  sc_model :: string
  sc_system_prompt :: "string option"
  sc_max_turns :: "32 word"
  sc_max_tokens :: "32 word option"
  sc_temperature :: "f32 option"
  sc_stream :: bool
  sc_thinking :: "thinking_config option"
  sc_working_directory :: "string option"
  sc_env_vars :: "string hmap option"
  sc_default_command_timeout_ms :: "nat option"
  sc_max_command_timeout_ms :: "nat option"
  sc_context_window_size :: "nat option"

definition default_session_config :: session_config where
  "default_session_config =
     \<lparr>sc_model = ''claude-sonnet-4-20250514'', sc_system_prompt = None, sc_max_turns = 100,
      sc_max_tokens = Some 8192, sc_temperature = None, sc_stream = True, sc_thinking = None,
      sc_working_directory = None, sc_env_vars = None, sc_default_command_timeout_ms = None,
      sc_max_command_timeout_ms = None, sc_context_window_size = None\<rparr>"

definition config_model :: "string \<Rightarrow> session_config \<Rightarrow> session_config" where
  "config_model model config = config\<lparr>sc_model := model\<rparr>"

definition config_system_prompt :: "string \<Rightarrow> session_config \<Rightarrow> session_config" where
  "config_system_prompt prompt config = config\<lparr>sc_system_prompt := Some prompt\<rparr>"

definition config_max_turns :: "32 word \<Rightarrow> session_config \<Rightarrow> session_config" where
  "config_max_turns n config = config\<lparr>sc_max_turns := n\<rparr>"

definition config_max_tokens :: "32 word \<Rightarrow> session_config \<Rightarrow> session_config" where
  "config_max_tokens n config = config\<lparr>sc_max_tokens := Some n\<rparr>"

definition config_temperature :: "f32 \<Rightarrow> session_config \<Rightarrow> session_config" where
  "config_temperature t config = config\<lparr>sc_temperature := Some t\<rparr>"

definition config_stream :: "bool \<Rightarrow> session_config \<Rightarrow> session_config" where
  "config_stream b config = config\<lparr>sc_stream := b\<rparr>"

definition config_thinking :: "thinking_config \<Rightarrow> session_config \<Rightarrow> session_config" where
  "config_thinking t config = config\<lparr>sc_thinking := Some t\<rparr>"

definition config_working_directory :: "string \<Rightarrow> session_config \<Rightarrow> session_config" where
  "config_working_directory dir config = config\<lparr>sc_working_directory := Some dir\<rparr>"

definition config_default_command_timeout_ms :: "nat \<Rightarrow> session_config \<Rightarrow> session_config" where
  "config_default_command_timeout_ms n config = config\<lparr>sc_default_command_timeout_ms := Some n\<rparr>"

definition config_max_command_timeout_ms :: "nat \<Rightarrow> session_config \<Rightarrow> session_config" where
  "config_max_command_timeout_ms n config = config\<lparr>sc_max_command_timeout_ms := Some n\<rparr>"

definition config_context_window_size :: "nat \<Rightarrow> session_config \<Rightarrow> session_config" where
  "config_context_window_size n config = config\<lparr>sc_context_window_size := Some n\<rparr>"

datatype session_phase = Phase_Active | Phase_AwaitingInput | Phase_Completed

record session_state =
  ss_session_id :: string
  ss_messages :: "message list"
  ss_turns :: "turn list"
  ss_turn_number :: "32 word"
  ss_total_usage :: usage
  ss_active :: bool
  ss_phase :: session_phase
  ss_steering_queue :: "string list"

definition state_new :: "string \<Rightarrow> session_state" where
  "state_new session_id =
     \<lparr>ss_session_id = session_id, ss_messages = [], ss_turns = [], ss_turn_number = 0,
      ss_total_usage = default_usage, ss_active = True, ss_phase = Phase_Active, ss_steering_queue = []\<rparr>"

definition add_user_message :: "string \<Rightarrow> session_state \<Rightarrow> session_state" where
  "add_user_message t st =
     st\<lparr>ss_messages := ss_messages st @ [user_message t], ss_turns := ss_turns st @ [Turn_UserInput t]\<rparr>"

definition add_assistant_response :: "response \<Rightarrow> session_state \<Rightarrow> session_state" where
  "add_assistant_response r st =
     st\<lparr>ss_messages := ss_messages st @ [plain_message Role_Assistant (rs_content r)],
        ss_turns := ss_turns st @ [Turn_AssistantResponse r],
        ss_total_usage := usage_add (ss_total_usage st) (rs_usage r),
        ss_turn_number := ss_turn_number st + 1\<rparr>"

definition add_tool_result :: "string \<Rightarrow> string \<Rightarrow> bool \<Rightarrow> session_state \<Rightarrow> session_state" where
  "add_tool_result call_id content is_error st =
     st\<lparr>ss_messages := ss_messages st @ [tool_result_message call_id content is_error]\<rparr>"

definition queue_steering :: "string \<Rightarrow> session_state \<Rightarrow> session_state" where
  "queue_steering t st = st\<lparr>ss_steering_queue := ss_steering_queue st @ [t]\<rparr>"

definition drain_steering :: "session_state \<Rightarrow> string list \<times> session_state" where
  "drain_steering st = (ss_steering_queue st, st\<lparr>ss_steering_queue := []\<rparr>)"

definition is_at_turn_limit :: "32 word \<Rightarrow> session_state \<Rightarrow> bool" where
  "is_at_turn_limit max_turns st \<longleftrightarrow> ss_turn_number st \<ge> max_turns"

section \<open>Previews\<close>

definition ellipsis :: string where
  "ellipsis = [CHR 0xE2, CHR 0x80, CHR 0xA6]"

definition truncate_preview :: "string \<Rightarrow> nat \<Rightarrow> string" where
  "truncate_preview s n = (if char_count s \<le> n then s else take_chars n s @ ellipsis)"

fun json_str :: "json \<Rightarrow> string option" where
  "json_str (JString s) = Some s"
| "json_str _ = None"

fun json_get :: "string \<Rightarrow> json \<Rightarrow> json option" where
  "json_get key (JObject kvs) = map_of kvs key"
| "json_get key _ = None"

definition input_str :: "json \<Rightarrow> string \<Rightarrow> string" where
  "input_str input key =
     (case json_get key input of
        Some v \<Rightarrow> (case json_str v of Some s \<Rightarrow> s | None \<Rightarrow> [])
      | None \<Rightarrow> [])"

definition tool_input_preview_from_value :: "string \<Rightarrow> json \<Rightarrow> string" where
  "tool_input_preview_from_value tool_name input =
     (let s = input_str input; t = to_lower tool_name in
      if t \<in> {''bash'', ''shell'', ''execute_command''} then truncate_preview (s ''command'') 80
      else if t \<in> {''read'', ''read_file'', ''write'', ''write_file'', ''create_file'', ''edit'', ''edit_file''}
      then truncate_preview (s ''file_path'') 80
      else if t \<in> {''grep'', ''search'', ''ripgrep''} then
        truncate_preview (if s ''path'' = [] then ''/'' @ s ''pattern'' @ ''/''
          else ''/'' @ s ''pattern'' @ ''/ '' @ s ''path'') 80
      else if t \<in> {''glob'', ''find_files''} then truncate_preview (s ''pattern'') 80
      else if t \<in> {''web_search'', ''websearch''} then truncate_preview (s ''query'') 80
      else if t \<in> {''web_fetch'', ''webfetch'', ''fetch''} then truncate_preview (s ''url'') 80
      else
        (case input of
           JObject kvs \<Rightarrow> (case find_map (\<lambda>(_, v). json_str v) kvs of Some v \<Rightarrow> truncate_preview v 80 | None \<Rightarrow> [])
         | _ \<Rightarrow> []))"

definition tool_input_preview :: "(string \<Rightarrow> json option) \<Rightarrow> string \<Rightarrow> string \<Rightarrow> string" where
  "tool_input_preview parse_json tool_name arguments_json =
     (case parse_json arguments_json of
        Some input \<Rightarrow> tool_input_preview_from_value tool_name input
      | None \<Rightarrow> [])"

section \<open>The context window\<close>

definition estimate_tokens :: "string \<Rightarrow> nat" where
  "estimate_tokens t = (length t + 3) div 4"

record context_tracker =
  ct_context_window_size :: nat
  ct_tokens_used :: nat
  ct_warning_emitted :: bool

definition tracker_new :: "nat \<Rightarrow> context_tracker" where
  "tracker_new size' = \<lparr>ct_context_window_size = size', ct_tokens_used = 0, ct_warning_emitted = False\<rparr>"

definition add_tokens :: "nat \<Rightarrow> context_tracker \<Rightarrow> context_tracker" where
  "add_tokens n ct = ct\<lparr>ct_tokens_used := min (ct_tokens_used ct + n) (2 ^ 64 - 1)\<rparr>"

definition usage_fraction :: "context_tracker \<Rightarrow> f64" where
  "usage_fraction ct =
     (if ct_context_window_size ct = 0 then f64_of_nat 0
      else f64_div (f64_of_nat (ct_tokens_used ct)) (f64_of_nat (ct_context_window_size ct)))"

definition is_warning :: "context_tracker \<Rightarrow> bool" where
  "is_warning ct \<longleftrightarrow> f64_ge (usage_fraction ct) (round_frac False 80 100)"

definition is_critical :: "context_tracker \<Rightarrow> bool" where
  "is_critical ct \<longleftrightarrow> f64_ge (usage_fraction ct) (round_frac False 95 100)"

definition set_tokens_used :: "nat \<Rightarrow> context_tracker \<Rightarrow> context_tracker" where
  "set_tokens_used n ct = ct\<lparr>ct_tokens_used := n\<rparr>"

definition should_emit_warning :: "context_tracker \<Rightarrow> bool \<times> context_tracker" where
  "should_emit_warning ct =
     (if is_warning ct \<and> \<not> ct_warning_emitted ct then (True, ct\<lparr>ct_warning_emitted := True\<rparr>)
      else (False, ct))"

section \<open>The session\<close>

record session =
  sn_config :: session_config
  sn_state :: session_state
  sn_tracker :: "context_tracker option"
  sn_detector :: loop_detector
  sn_events :: "session_event list"

text \<open>
  What surrounds a session: the client's \<open>complete\<close>, the tools, \<open>join_all\<close>, the cancellation token,
  the JSON parser, the hash of strings and the debug text of a content part.
\<close>

record 'w session_env =
  sx_complete :: "request \<Rightarrow> 'w \<Rightarrow> (llm_error + response) \<times> 'w"
  sx_registry :: "'w tool_registry"
  sx_join_all :: "(tool_output, 'w) join"
  sx_cancelled :: "'w \<Rightarrow> bool \<times> 'w"
  sx_parse_json :: "string \<Rightarrow> json option"
  sx_hash :: "string \<Rightarrow> 64 word"
  sx_debug :: "content_part \<Rightarrow> string"

datatype session_error = SessionLlm llm_error | Inactive | TurnLimitReached "32 word" | Cancelled | SessionOther string

record session_output =
  so_text :: "string option"
  so_turns_used :: "32 word"
  so_total_usage :: usage

definition session_new :: "session_config \<Rightarrow> string \<Rightarrow> session" where
  "session_new config session_id =
     \<lparr>sn_config = config, sn_state = state_new session_id,
      sn_tracker = map_option tracker_new (sc_context_window_size config),
      sn_detector = default_detector, sn_events = []\<rparr>"

definition on_state :: "(session_state \<Rightarrow> session_state) \<Rightarrow> session \<Rightarrow> session" where
  "on_state f s = s\<lparr>sn_state := f (sn_state s)\<rparr>"

definition emit_event :: "session_event \<Rightarrow> session \<Rightarrow> session" where
  "emit_event e s = s\<lparr>sn_events := sn_events s @ [e]\<rparr>"

definition steer :: "string \<Rightarrow> session \<Rightarrow> session" where
  "steer t = on_state (queue_steering t)"

definition follow_up :: "string \<Rightarrow> session \<Rightarrow> session" where
  "follow_up t = on_state (queue_steering t)"

text \<open>Draining the queue of steering messages into the conversation.\<close>

definition apply_steering_message :: "string \<Rightarrow> session \<Rightarrow> session" where
  "apply_steering_message msg s =
     emit_event (SE_SteeringApplied msg)
       (on_state (\<lambda>st. st\<lparr>ss_messages := ss_messages st @ [user_message msg],
          ss_turns := ss_turns st @ [Turn_Steering msg]\<rparr>) s)"

definition apply_steering :: "session \<Rightarrow> session" where
  "apply_steering s =
     (let (msgs, st) = drain_steering (sn_state s)
      in fold apply_steering_message msgs (s\<lparr>sn_state := st\<rparr>))"

definition initial_request :: "'w session_env \<Rightarrow> session \<Rightarrow> request" where
  "initial_request env s =
     (let config = sn_config s;
          system_prompt = (case sc_system_prompt config of
             Some p \<Rightarrow> p
           | None \<Rightarrow> pf_system_prompt (profile_for_model (sc_model config))
               (default_prompt_config\<lparr>pc_working_directory := sc_working_directory config\<rparr>));
          tool_defs = tool_definitions (sx_registry env);
          r0 = set_system_prompt system_prompt (request_new (sc_model config) (ss_messages (sn_state s)));
          r1 = (case sc_max_tokens config of Some n \<Rightarrow> set_max_tokens n r0 | None \<Rightarrow> r0);
          r2 = (case sc_temperature config of Some t \<Rightarrow> set_temperature t r1 | None \<Rightarrow> r1);
          r3 = (if tool_defs \<noteq> [] then set_tools tool_defs r2 else r2)
      in (case sc_thinking config of Some t \<Rightarrow> set_thinking t r3 | None \<Rightarrow> r3))"

definition conversation_tokens :: "(content_part \<Rightarrow> string) \<Rightarrow> message list \<Rightarrow> nat" where
  "conversation_tokens debug ms =
     sum_list (map (\<lambda>m. sum_list (map (\<lambda>part. estimate_tokens (debug part)) (ms_content m))) ms)"

definition track_context :: "'w session_env \<Rightarrow> session \<Rightarrow> session" where
  "track_context env s =
     (case sn_tracker s of
        None \<Rightarrow> s
      | Some ct \<Rightarrow>
          (let (warn, ct1) = should_emit_warning
                 (set_tokens_used (conversation_tokens (sx_debug env) (ss_messages (sn_state s))) ct);
               s1 = s\<lparr>sn_tracker := Some ct1\<rparr>
           in if warn
              then emit_event (SE_ContextWindowWarning (ct_tokens_used ct1) (ct_context_window_size ct1)
                     (usage_fraction ct1)) s1
              else s1))"

definition record_response :: "'w session_env \<Rightarrow> response \<Rightarrow> session \<Rightarrow> session" where
  "record_response env r s =
     track_context env (on_state (add_assistant_response r) (emit_event (SE_AssistantMessage r) s))"

definition close_session :: "session \<Rightarrow> session" where
  "close_session = on_state (\<lambda>st. st\<lparr>ss_active := False, ss_phase := Phase_Completed\<rparr>)"

definition completed_event :: "session \<Rightarrow> session_event" where
  "completed_event s =
     SE_SessionCompleted (ss_session_id (sn_state s)) (ss_turn_number (sn_state s)) (ss_total_usage (sn_state s))"

definition started_event :: "'w session_env \<Rightarrow> tool_call_data \<Rightarrow> session_event" where
  "started_event env tc =
     SE_ToolCallStarted (tc_name tc) (tc_id tc) (tool_input_preview (sx_parse_json env) (tc_name tc) (tc_arguments tc))"

definition loop_warning :: "loop_pattern \<Rightarrow> string" where
  "loop_warning p =
     ''WARNING: A repeating tool-call loop has been detected: '' @ lp_description p @
     ''. You appear to be repeating the same actions without making progress. Please try a different approach.''"

text \<open>The result of one call: the event, the truncated result message, the turn, the loop check.\<close>

definition check_loop :: "'w session_env \<Rightarrow> tool_call_data \<Rightarrow> session \<Rightarrow> panic + session" where
  "check_loop env tc s =
     (let d = record_call (sx_hash env) (tc_name tc) (tc_arguments tc) (sn_detector s) in
      res_bind (detect_loop d) (\<lambda>found.
        Inr (case found of
               None \<Rightarrow> s\<lparr>sn_detector := d\<rparr>
             | Some p \<Rightarrow>
                 (on_state (\<lambda>st. st\<lparr>ss_messages := ss_messages st @ [user_message (loop_warning p)]\<rparr>)
                   (emit_event (SE_LoopDetected (lp_description p) (length (lp_pattern p))) s))
                 \<lparr>sn_detector := detector_reset d\<rparr>)))"

definition process_result :: "'w session_env \<Rightarrow> tool_call_data \<times> tool_output \<Rightarrow> session \<Rightarrow> panic + session" where
  "process_result env r s =
     (let tc = fst r; out = snd r;
          s1 = emit_event (SE_ToolCallCompleted (tc_name tc) (tc_id tc) (to_content out) (to_is_error out) (to_duration_ms out)) s
      in res_bind (truncate_for_tool (tc_name tc) (to_content out) (sx_registry env)) (\<lambda>truncated.
           check_loop env tc (on_state (\<lambda>st.
             (add_tool_result (tc_id tc) truncated (to_is_error out) st)
             \<lparr>ss_turns := ss_turns st @ [Turn_ToolExecution (tc_name tc) (tc_id tc) (tc_arguments tc)
                truncated (to_is_error out) (to_duration_ms out)]\<rparr>) s1)))"

fun process_results :: "'w session_env \<Rightarrow> (tool_call_data \<times> tool_output) list \<Rightarrow> session \<Rightarrow> panic + session" where
  "process_results env [] s = Inr s"
| "process_results env (r # rs) s = res_bind (process_result env r s) (process_results env rs)"

datatype progress = Finished_With "string option" | Stopped "session_error fault" | Continue

text \<open>One iteration of the loop, with the session, the request's messages for the next one and the world.\<close>

definition session_step ::
  "'w session_env \<Rightarrow> request \<Rightarrow> session \<Rightarrow> 'w \<Rightarrow> progress \<times> session \<times> 'w" where
  "session_step env request s w =
     (case sx_cancelled env w of
        (True, w1) \<Rightarrow> (Stopped (Err Cancelled), close_session s, w1)
      | (False, w1) \<Rightarrow>
     (case sx_complete env request w1 of
        (Inl e, w2) \<Rightarrow> (Stopped (Err (SessionLlm e)), s, w2)
      | (Inr response, w2) \<Rightarrow>
     (let s1 = record_response env response s; tool_calls = response_tool_calls response in
      if tool_calls = [] then (Finished_With (response_text response), s1, w2)
      else if is_at_turn_limit (sc_max_turns (sn_config s)) (sn_state s1) then
        (let s2 = close_session s1
         in (Stopped (Err (TurnLimitReached (sc_max_turns (sn_config s)))), emit_event (completed_event s2) s2, w2))
      else
     (case sx_cancelled env w2 of
        (True, w3) \<Rightarrow> (Stopped (Err Cancelled), close_session s1, w3)
      | (False, w3) \<Rightarrow>
     (let s2 = fold (\<lambda>tc. emit_event (started_event env tc)) tool_calls s1;
          (outputs, w4) = sx_join_all env
            (map (\<lambda>tc. execute_untruncated (sx_registry env) (tc_name tc) (tc_arguments tc)) tool_calls) w3
      in case process_results env (zip tool_calls outputs) s2 of
           Inl p \<Rightarrow> (Stopped (Panic p), s2, w4)
         | Inr s3 \<Rightarrow> (Continue, apply_steering s3, w4))))))"

named_theorems session_simps \<open>what the small updates of a session change\<close>

lemma on_state_simps [session_simps]:
  "sn_state (on_state f s) = f (sn_state s)" "sn_config (on_state f s) = sn_config s"
  "sn_events (on_state f s) = sn_events s" "sn_detector (on_state f s) = sn_detector s"
  by (simp_all add: on_state_def)

lemma emit_event_simps [session_simps]:
  "sn_state (emit_event e s) = sn_state s" "sn_config (emit_event e s) = sn_config s"
  "sn_events (emit_event e s) = sn_events s @ [e]" "sn_detector (emit_event e s) = sn_detector s"
  by (simp_all add: emit_event_def)

lemma track_context_simps [session_simps]:
  "sn_state (track_context env s) = sn_state s" "sn_config (track_context env s) = sn_config s"
  "sn_detector (track_context env s) = sn_detector s"
  by (auto simp: track_context_def session_simps Let_def split_beta split: option.split)

lemma record_response_simps [session_simps]:
  "sn_state (record_response env r s) = add_assistant_response r (sn_state s)"
  "sn_config (record_response env r s) = sn_config s"
  "sn_detector (record_response env r s) = sn_detector s"
  by (simp_all add: record_response_def session_simps)

lemma close_session_simps [session_simps]:
  "sn_state (close_session s) = (sn_state s)\<lparr>ss_active := False, ss_phase := Phase_Completed\<rparr>"
  "sn_config (close_session s) = sn_config s" "sn_events (close_session s) = sn_events s"
  "sn_detector (close_session s) = sn_detector s"
  by (simp_all add: close_session_def session_simps)

lemma apply_steering_message_simps [session_simps]:
  "ss_messages (sn_state (apply_steering_message m s)) = ss_messages (sn_state s) @ [user_message m]"
  "ss_turns (sn_state (apply_steering_message m s)) = ss_turns (sn_state s) @ [Turn_Steering m]"
  "ss_turn_number (sn_state (apply_steering_message m s)) = ss_turn_number (sn_state s)"
  "ss_total_usage (sn_state (apply_steering_message m s)) = ss_total_usage (sn_state s)"
  "ss_active (sn_state (apply_steering_message m s)) = ss_active (sn_state s)"
  "ss_steering_queue (sn_state (apply_steering_message m s)) = ss_steering_queue (sn_state s)"
  "sn_config (apply_steering_message m s) = sn_config s"
  "sn_detector (apply_steering_message m s) = sn_detector s"
  "sn_events (apply_steering_message m s) = sn_events s @ [SE_SteeringApplied m]"
  by (simp_all add: apply_steering_message_def session_simps)

lemma fold_steering [session_simps]:
  "ss_messages (sn_state (fold apply_steering_message ms s)) = ss_messages (sn_state s) @ map user_message ms"
  "ss_turns (sn_state (fold apply_steering_message ms s)) = ss_turns (sn_state s) @ map Turn_Steering ms"
  "ss_turn_number (sn_state (fold apply_steering_message ms s)) = ss_turn_number (sn_state s)"
  "ss_total_usage (sn_state (fold apply_steering_message ms s)) = ss_total_usage (sn_state s)"
  "ss_active (sn_state (fold apply_steering_message ms s)) = ss_active (sn_state s)"
  "ss_steering_queue (sn_state (fold apply_steering_message ms s)) = ss_steering_queue (sn_state s)"
  "sn_config (fold apply_steering_message ms s) = sn_config s"
  "sn_detector (fold apply_steering_message ms s) = sn_detector s"
  "sn_events (fold apply_steering_message ms s) = sn_events s @ map SE_SteeringApplied ms"
  by (induction ms arbitrary: s) (simp_all add: session_simps)

lemma apply_steering_simps [session_simps]:
  "ss_messages (sn_state (apply_steering s)) = ss_messages (sn_state s) @ map user_message (ss_steering_queue (sn_state s))"
  "ss_turns (sn_state (apply_steering s)) = ss_turns (sn_state s) @ map Turn_Steering (ss_steering_queue (sn_state s))"
  "ss_turn_number (sn_state (apply_steering s)) = ss_turn_number (sn_state s)"
  "ss_total_usage (sn_state (apply_steering s)) = ss_total_usage (sn_state s)"
  "ss_active (sn_state (apply_steering s)) = ss_active (sn_state s)"
  "ss_steering_queue (sn_state (apply_steering s)) = []"
  "sn_config (apply_steering s) = sn_config s"
  "sn_detector (apply_steering s) = sn_detector s"
  "sn_events (apply_steering s) = sn_events s @ map SE_SteeringApplied (ss_steering_queue (sn_state s))"
  by (simp_all add: apply_steering_def drain_steering_def session_simps)

lemma fold_emit [session_simps]:
  "sn_state (fold (\<lambda>x. emit_event (f x)) xs s) = sn_state s"
  "sn_config (fold (\<lambda>x. emit_event (f x)) xs s) = sn_config s"
  "sn_events (fold (\<lambda>x. emit_event (f x)) xs s) = sn_events s @ map f xs"
  "sn_detector (fold (\<lambda>x. emit_event (f x)) xs s) = sn_detector s"
  by (induction xs arbitrary: s) (simp_all add: session_simps)

text \<open>What processing one result does: the result message, perhaps a warning after it, and a turn.\<close>

lemma process_result_Inr:
  assumes "process_result env (tc, out) s = Inr s'"
  shows "\<exists>truncated warnings. truncate_for_tool (tc_name tc) (to_content out) (sx_registry env) = Inr truncated \<and>
      ss_messages (sn_state s') = ss_messages (sn_state s) @
        tool_result_message (tc_id tc) truncated (to_is_error out) # map user_message warnings \<and>
      ss_turns (sn_state s') = ss_turns (sn_state s) @
        [Turn_ToolExecution (tc_name tc) (tc_id tc) (tc_arguments tc) truncated (to_is_error out) (to_duration_ms out)] \<and>
      (\<exists>evs. sn_events s' = sn_events s @
        SE_ToolCallCompleted (tc_name tc) (tc_id tc) (to_content out) (to_is_error out) (to_duration_ms out) # evs \<and>
        list_all (\<lambda>e. \<exists>p n. e = SE_LoopDetected p n) evs)"
    and "ss_turn_number (sn_state s') = ss_turn_number (sn_state s)"
    and "ss_total_usage (sn_state s') = ss_total_usage (sn_state s)"
    and "ss_active (sn_state s') = ss_active (sn_state s)"
    and "ss_steering_queue (sn_state s') = ss_steering_queue (sn_state s)"
    and "sn_config s' = sn_config s"
    and "ld_min_repetitions (sn_detector s') = ld_min_repetitions (sn_detector s)"
proof -
  let ?d = "record_call (sx_hash env) (tc_name tc) (tc_arguments tc) (sn_detector s)"
  obtain truncated where t: "truncate_for_tool (tc_name tc) (to_content out) (sx_registry env) = Inr truncated"
    using assms by (auto simp: process_result_def res_simps Let_def)
  define s2 where "s2 = on_state (\<lambda>st.
      (add_tool_result (tc_id tc) truncated (to_is_error out) st)
      \<lparr>ss_turns := ss_turns st @ [Turn_ToolExecution (tc_name tc) (tc_id tc) (tc_arguments tc)
         truncated (to_is_error out) (to_duration_ms out)]\<rparr>)
    (emit_event (SE_ToolCallCompleted (tc_name tc) (tc_id tc) (to_content out) (to_is_error out) (to_duration_ms out)) s)"
  have s2: "ss_messages (sn_state s2) = ss_messages (sn_state s) @ [tool_result_message (tc_id tc) truncated (to_is_error out)]"
    "ss_turns (sn_state s2) = ss_turns (sn_state s) @
      [Turn_ToolExecution (tc_name tc) (tc_id tc) (tc_arguments tc) truncated (to_is_error out) (to_duration_ms out)]"
    "sn_events s2 = sn_events s @
      [SE_ToolCallCompleted (tc_name tc) (tc_id tc) (to_content out) (to_is_error out) (to_duration_ms out)]"
    "ss_turn_number (sn_state s2) = ss_turn_number (sn_state s)" "ss_total_usage (sn_state s2) = ss_total_usage (sn_state s)"
    "ss_active (sn_state s2) = ss_active (sn_state s)" "ss_steering_queue (sn_state s2) = ss_steering_queue (sn_state s)"
    "sn_config s2 = sn_config s" "sn_detector s2 = sn_detector s"
    by (simp_all add: s2_def session_simps add_tool_result_def)
  have "check_loop env tc s2 = Inr s'" using assms t by (simp add: process_result_def Let_def s2_def)
  then obtain found where f: "detect_loop ?d = Inr found"
    "s' = (case found of
       None \<Rightarrow> s2\<lparr>sn_detector := ?d\<rparr>
     | Some p \<Rightarrow> (on_state (\<lambda>st. st\<lparr>ss_messages := ss_messages st @ [user_message (loop_warning p)]\<rparr>)
           (emit_event (SE_LoopDetected (lp_description p) (length (lp_pattern p))) s2))
         \<lparr>sn_detector := detector_reset ?d\<rparr>)"
    by (auto simp: check_loop_def res_simps Let_def s2(9))
  have m: "ld_min_repetitions ?d = ld_min_repetitions (sn_detector s)" by (rule record_call_min_repetitions)
  show "ss_turn_number (sn_state s') = ss_turn_number (sn_state s)" "ss_total_usage (sn_state s') = ss_total_usage (sn_state s)"
    "ss_active (sn_state s') = ss_active (sn_state s)" "ss_steering_queue (sn_state s') = ss_steering_queue (sn_state s)"
    "sn_config s' = sn_config s" "ld_min_repetitions (sn_detector s') = ld_min_repetitions (sn_detector s)"
    using s2 m by (simp_all add: f(2) session_simps detector_reset_def split: option.split)
  show "\<exists>truncated warnings. truncate_for_tool (tc_name tc) (to_content out) (sx_registry env) = Inr truncated \<and>
      ss_messages (sn_state s') = ss_messages (sn_state s) @
        tool_result_message (tc_id tc) truncated (to_is_error out) # map user_message warnings \<and>
      ss_turns (sn_state s') = ss_turns (sn_state s) @
        [Turn_ToolExecution (tc_name tc) (tc_id tc) (tc_arguments tc) truncated (to_is_error out) (to_duration_ms out)] \<and>
      (\<exists>evs. sn_events s' = sn_events s @
        SE_ToolCallCompleted (tc_name tc) (tc_id tc) (to_content out) (to_is_error out) (to_duration_ms out) # evs \<and>
        list_all (\<lambda>e. \<exists>p n. e = SE_LoopDetected p n) evs)"
  proof (cases found)
    case None
    then show ?thesis using s2(1-3) t by (intro exI [of _ truncated] exI [of _ "[]"]) (simp add: f(2))
  next
    case (Some p)
    then show ?thesis using s2(1-3) t
      by (intro exI [of _ truncated] exI [of _ "[loop_warning p]"]) (simp add: f(2) session_simps)
  qed
qed

lemma truncate_for_tool_ok: "\<exists>c. truncate_for_tool name content reg = Inr c"
proof -
  obtain c where "truncate_output content (output_limit_for name reg) = Inr c"
    using truncate_output_total by blast
  then show ?thesis by (simp add: truncate_for_tool_def Let_def)
qed

lemma process_result_ok:
  assumes "ld_min_repetitions (sn_detector s) > 0"
  shows "\<exists>s'. process_result env r s = Inr s'"
proof -
  let ?tc = "fst r" and ?out = "snd r"
  obtain c where c: "truncate_for_tool (tc_name ?tc) (to_content ?out) (sx_registry env) = Inr c"
    using truncate_for_tool_ok by blast
  obtain f where f: "detect_loop (record_call (sx_hash env) (tc_name ?tc) (tc_arguments ?tc) (sn_detector s)) = Inr f"
    using assms record_call_min_repetitions detect_loop_ok [of "record_call (sx_hash env) (tc_name ?tc) (tc_arguments ?tc) (sn_detector s)"] by metis
  show ?thesis by (simp add: process_result_def check_loop_def session_simps Let_def c f)
qed

lemma process_results_ok:
  "ld_min_repetitions (sn_detector s) > 0 \<Longrightarrow> \<exists>s'. process_results env rs s = Inr s'"
proof (induction rs arbitrary: s)
  case (Cons r rs)
  from process_result_ok [OF Cons.prems] obtain s1 where s1: "process_result env r s = Inr s1" by blast
  then have "ld_min_repetitions (sn_detector s1) > 0"
    using Cons.prems process_result_Inr(7) [of env "fst r" "snd r" s s1] by simp
  from Cons.IH [OF this] s1 show ?case by simp
qed simp

text \<open>The responses among the turns, and the tool calls among the events.\<close>

fun turn_response :: "turn \<Rightarrow> response option" where
  "turn_response (Turn_AssistantResponse r) = Some r"
| "turn_response _ = None"

fun event_response :: "session_event \<Rightarrow> response option" where
  "event_response (SE_AssistantMessage r) = Some r"
| "event_response _ = None"

fun event_started :: "session_event \<Rightarrow> (string \<times> string) option" where
  "event_started (SE_ToolCallStarted name call_id _) = Some (name, call_id)"
| "event_started _ = None"

fun event_completed :: "session_event \<Rightarrow> (string \<times> string) option" where
  "event_completed (SE_ToolCallCompleted name call_id _ _ _) = Some (name, call_id)"
| "event_completed _ = None"

definition call_names :: "tool_call_data list \<Rightarrow> (string \<times> string) list" where
  "call_names tcs = map (\<lambda>tc. (tc_name tc, tc_id tc)) tcs"

lemma process_results_keeps:
  assumes "process_results env rs s = Inr s'"
  shows "ss_turn_number (sn_state s') = ss_turn_number (sn_state s)"
    and "ss_total_usage (sn_state s') = ss_total_usage (sn_state s)"
    and "ss_active (sn_state s') = ss_active (sn_state s)"
    and "ss_steering_queue (sn_state s') = ss_steering_queue (sn_state s)"
    and "sn_config s' = sn_config s"
    and "ld_min_repetitions (sn_detector s') = ld_min_repetitions (sn_detector s)"
proof -
  have "ss_turn_number (sn_state s') = ss_turn_number (sn_state s) \<and>
      ss_total_usage (sn_state s') = ss_total_usage (sn_state s) \<and>
      ss_active (sn_state s') = ss_active (sn_state s) \<and>
      ss_steering_queue (sn_state s') = ss_steering_queue (sn_state s) \<and>
      sn_config s' = sn_config s \<and>
      ld_min_repetitions (sn_detector s') = ld_min_repetitions (sn_detector s)"
    using assms
  proof (induction rs arbitrary: s)
    case (Cons r rs)
    then obtain s1 where s1: "process_result env (fst r, snd r) s = Inr s1" "process_results env rs s1 = Inr s'"
      by (auto simp: res_simps)
    then show ?case using Cons.IH [OF s1(2)] process_result_Inr(2-7) [OF s1(1)] by simp
  qed simp
  then show "ss_turn_number (sn_state s') = ss_turn_number (sn_state s)"
    "ss_total_usage (sn_state s') = ss_total_usage (sn_state s)"
    "ss_active (sn_state s') = ss_active (sn_state s)"
    "ss_steering_queue (sn_state s') = ss_steering_queue (sn_state s)"
    "sn_config s' = sn_config s"
    "ld_min_repetitions (sn_detector s') = ld_min_repetitions (sn_detector s)" by simp_all
qed

lemma process_results_Inr:
  assumes "process_results env (zip tcs outs) s = Inr s'" "length outs = length tcs"
  shows "\<exists>ms. ss_messages (sn_state s') = ss_messages (sn_state s) @ ms \<and>
      (\<forall>pend. pending (map tc_id tcs @ pend) ms = Some pend)"
    and "List.map_filter turn_response (ss_turns (sn_state s')) = List.map_filter turn_response (ss_turns (sn_state s))"
    and "List.map_filter event_response (sn_events s') = List.map_filter event_response (sn_events s)"
    and "List.map_filter event_started (sn_events s') = List.map_filter event_started (sn_events s)"
    and "List.map_filter event_completed (sn_events s') = List.map_filter event_completed (sn_events s) @ call_names tcs"
proof -
  let ?mt = "List.map_filter"
  have "(\<exists>ms. ss_messages (sn_state s') = ss_messages (sn_state s) @ ms \<and>
        (\<forall>pend. pending (map tc_id tcs @ pend) ms = Some pend)) \<and>
      ?mt turn_response (ss_turns (sn_state s')) = ?mt turn_response (ss_turns (sn_state s)) \<and>
      ?mt event_response (sn_events s') = ?mt event_response (sn_events s) \<and>
      ?mt event_started (sn_events s') = ?mt event_started (sn_events s) \<and>
      ?mt event_completed (sn_events s') = ?mt event_completed (sn_events s) @ call_names tcs"
    using assms
  proof (induction tcs arbitrary: outs s)
    case Nil
    then show ?case by (simp add: call_names_def)
  next
    case (Cons tc tcs)
    then obtain out outs' where outs: "outs = out # outs'" by (cases outs) auto
    with Cons.prems obtain s1 where s1: "process_result env (tc, out) s = Inr s1"
      "process_results env (zip tcs outs') s1 = Inr s'" by (auto simp: res_simps)
    note one = process_result_Inr [OF s1(1)]
    from one(1) obtain t ws evs where r: "ss_messages (sn_state s1) = ss_messages (sn_state s) @
        tool_result_message (tc_id tc) t (to_is_error out) # map user_message ws"
      "ss_turns (sn_state s1) = ss_turns (sn_state s) @
        [Turn_ToolExecution (tc_name tc) (tc_id tc) (tc_arguments tc) t (to_is_error out) (to_duration_ms out)]"
      "sn_events s1 = sn_events s @
        SE_ToolCallCompleted (tc_name tc) (tc_id tc) (to_content out) (to_is_error out) (to_duration_ms out) # evs"
      "list_all (\<lambda>e. \<exists>p n. e = SE_LoopDetected p n) evs" by blast
    have none: "?mt event_response evs = []" "?mt event_started evs = []" "?mt event_completed evs = []"
      using r(4) by (induction evs) auto
    have "length outs' = length tcs" using Cons.prems(2) outs by simp
    note IH = Cons.IH [OF s1(2) this]
    then obtain ms where ms: "ss_messages (sn_state s') = ss_messages (sn_state s1) @ ms"
      "\<And>pend. pending (map tc_id tcs @ pend) ms = Some pend" by blast
    have "\<exists>ms. ss_messages (sn_state s') = ss_messages (sn_state s) @ ms \<and>
        (\<forall>pend. pending (map tc_id (tc # tcs) @ pend) ms = Some pend)"
      using ms r(1) by (intro exI [of _ "tool_result_message (tc_id tc) t (to_is_error out) # map user_message ws @ ms"])
        (simp del: pending.simps)
    then show ?case using IH one(2-7) r(2,3) none by (simp add: map_filter_append call_names_def)
  qed
  then show "\<exists>ms. ss_messages (sn_state s') = ss_messages (sn_state s) @ ms \<and>
      (\<forall>pend. pending (map tc_id tcs @ pend) ms = Some pend)"
    "?mt turn_response (ss_turns (sn_state s')) = ?mt turn_response (ss_turns (sn_state s))"
    "?mt event_response (sn_events s') = ?mt event_response (sn_events s)"
    "?mt event_started (sn_events s') = ?mt event_started (sn_events s)"
    "?mt event_completed (sn_events s') = ?mt event_completed (sn_events s) @ call_names tcs"
    by blast+
qed

section \<open>The loop\<close>

text \<open>The ways a step can end.\<close>

lemma session_step_cases:
  assumes "session_step env request s w = (p, s', w')"
  obtains
    (cancelled) "p = Stopped (Err Cancelled)" "s' = close_session s"
  | (failed) e where "p = Stopped (Err (SessionLlm e))" "s' = s"
  | (final) r where "response_tool_calls r = []" "p = Finished_With (response_text r)" "s' = record_response env r s"
  | (limit) r where "is_at_turn_limit (sc_max_turns (sn_config s)) (sn_state (record_response env r s))"
      "p = Stopped (Err (TurnLimitReached (sc_max_turns (sn_config s))))"
      "s' = emit_event (completed_event (close_session (record_response env r s))) (close_session (record_response env r s))"
  | (cancelled_late) r where "p = Stopped (Err Cancelled)" "s' = close_session (record_response env r s)"
  | (round) r outputs wr s3 where "response_tool_calls r \<noteq> []"
      "\<not> is_at_turn_limit (sc_max_turns (sn_config s)) (sn_state (record_response env r s))"
      "fst (sx_join_all env (map (\<lambda>tc. execute_untruncated (sx_registry env) (tc_name tc) (tc_arguments tc))
         (response_tool_calls r)) wr) = outputs"
      "process_results env (zip (response_tool_calls r) outputs)
         (fold (\<lambda>tc. emit_event (started_event env tc)) (response_tool_calls r) (record_response env r s)) = Inr s3"
      "p = Continue" "s' = apply_steering s3"
  | (panicked) r outputs e where "p = Stopped (Panic e)"
      "process_results env (zip (response_tool_calls r) outputs)
         (fold (\<lambda>tc. emit_event (started_event env tc)) (response_tool_calls r) (record_response env r s)) = Inl e"
proof -
  obtain c1 w1 where c1: "sx_cancelled env w = (c1, w1)" by force
  obtain rr w2 where rr: "sx_complete env request w1 = (rr, w2)" by force
  obtain c2 w3 where c2: "sx_cancelled env w2 = (c2, w3)" by force
  show thesis
  proof (cases c1)
    case True
    then show thesis using assms c1 that(1) by (auto simp: session_step_def)
  next
    case c1F: False
    show thesis
    proof (cases rr)
      case (Inl e)
      then show thesis using assms c1 rr c1F that(2) by (auto simp: session_step_def)
    next
      case (Inr r)
      let ?s1 = "record_response env r s" and ?tcs = "response_tool_calls r"
      let ?s2 = "fold (\<lambda>tc. emit_event (started_event env tc)) ?tcs ?s1"
      obtain outputs w4 where j: "sx_join_all env
          (map (\<lambda>tc. execute_untruncated (sx_registry env) (tc_name tc) (tc_arguments tc)) ?tcs) w3 = (outputs, w4)" by force
      note step = assms [unfolded session_step_def c1 rr Inr prod.case sum.case Let_def c2 j]
      consider "?tcs = []" | "?tcs \<noteq> []" "is_at_turn_limit (sc_max_turns (sn_config s)) (sn_state ?s1)"
        | "?tcs \<noteq> []" "\<not> is_at_turn_limit (sc_max_turns (sn_config s)) (sn_state ?s1)" "c2"
        | "?tcs \<noteq> []" "\<not> is_at_turn_limit (sc_max_turns (sn_config s)) (sn_state ?s1)" "\<not> c2"
        by blast
      then show thesis
      proof cases
        case 1
        then show thesis using step c1F that(3) by simp
      next
        case 2
        then show thesis using step c1F that(4) by simp
      next
        case 3
        then show thesis using step c1F that(5) by auto
      next
        case 4
        show thesis
        proof (cases "process_results env (zip ?tcs outputs) ?s2")
          case (Inl e)
          then have "p = Stopped (Panic e)" using step c1F 4 by simp
          then show thesis using Inl by (rule that(7))
        next
          case (Inr s3)
          then have "p = Continue" "s' = apply_steering s3" using step c1F 4 by simp_all
          moreover have "fst (sx_join_all env (map (\<lambda>tc. execute_untruncated (sx_registry env) (tc_name tc) (tc_arguments tc))
              ?tcs) w3) = outputs" by (simp add: j)
          ultimately show thesis using that(6) [OF 4(1,2) _ Inr] by blast
        qed
      qed
    qed
  qed
qed

text \<open>A step that continues has room for another turn.\<close>

lemma session_step_Continue:
  assumes "session_step env request s w = (Continue, s', w')"
  shows "sn_config s' = sn_config s \<and> ss_turn_number (sn_state s') < sc_max_turns (sn_config s') \<and>
    ss_turn_number (sn_state s') = ss_turn_number (sn_state s) + 1"
  using assms
proof (cases rule: session_step_cases)
  case (round r outputs wr s3)
  then show ?thesis
    using process_results_keeps(1,5) [OF round(4)]
    by (simp add: session_simps is_at_turn_limit_def add_assistant_response_def)
qed simp_all

text \<open>The loop of \<open>process_input\<close>.\<close>

function session_loop ::
  "'w session_env \<Rightarrow> request \<Rightarrow> session \<Rightarrow> 'w \<Rightarrow> (session_error fault + string option) \<times> session \<times> 'w" where
  "session_loop env request s w =
     (case session_step env request s w of
        (Finished_With final_text, s1, w1) \<Rightarrow> (Inr final_text, s1, w1)
      | (Stopped e, s1, w1) \<Rightarrow> (Inl e, s1, w1)
      | (Continue, s1, w1) \<Rightarrow>
          session_loop env (request\<lparr>rq_messages := ss_messages (sn_state s1)\<rparr>) s1 w1)"
  by pat_completeness auto
termination
proof (relation "measure (\<lambda>(env, request, s, w).
    let t = ss_turn_number (sn_state s); m = unat (sc_max_turns (sn_config s))
    in if t = - 1 then m + 1 else m - unat t)", goal_cases)
  case (2 env request s w p q s1 w1)
  define t where "t = ss_turn_number (sn_state s)"
  define m where "m = sc_max_turns (sn_config s)"
  have k: "sn_config s1 = sn_config s" "ss_turn_number (sn_state s1) = t + 1" "t + 1 < m"
    using session_step_Continue [of env request s w s1 w1] 2 unfolding t_def m_def by auto
  have "unat (t + 1) < unat m" using k(3) by (simp add: word_less_nat_alt)
  moreover have "t + 1 \<noteq> - 1" using k(3) by (metis word_order.extremum_strict)
  moreover have "unat (t + 1) = unat t + 1" if "t \<noteq> - 1"
    using that by (metis Suc_eq_plus1 add.commute unatSuc add_eq_0_iff)
  ultimately show ?case using k by (auto simp: Let_def t_def [symmetric] m_def [symmetric])
qed simp

declare session_loop.simps [simp del]

definition process_input ::
  "'w session_env \<Rightarrow> string \<Rightarrow> session \<Rightarrow> 'w \<Rightarrow> (session_error fault + session_output) \<times> session \<times> 'w" where
  "process_input env input s w =
     (if \<not> ss_active (sn_state s) then (Inl (Err Inactive), s, w)
      else
        (let turn_start = ss_turn_number (sn_state s);
             s1 = on_state (add_user_message input) s;
             s2 = emit_event (SE_TurnStarted (ss_turn_number (sn_state s1))) s1;
             s3 = apply_steering s2
         in case session_loop env (initial_request env s3) s3 w of
              (Inl e, s4, w1) \<Rightarrow> (Inl e, s4, w1)
            | (Inr final_text, s4, w1) \<Rightarrow>
                (let s5 = on_state (\<lambda>st. st\<lparr>ss_phase := Phase_Completed\<rparr>) s4
                 in (Inr \<lparr>so_text = final_text, so_turns_used = ss_turn_number (sn_state s5) - turn_start,
                       so_total_usage = ss_total_usage (sn_state s5)\<rparr>,
                     emit_event (completed_event s5) s5, w1))))"

section \<open>The invariant of a session\<close>

definition session_responses :: "session \<Rightarrow> response list" where
  "session_responses s = List.map_filter turn_response (ss_turns (sn_state s))"

text \<open>Turns, usage and events tell the same story.\<close>

definition accounts :: "session \<Rightarrow> bool" where
  "accounts s \<longleftrightarrow>
     ss_total_usage (sn_state s) = usage_sum (map rs_usage (session_responses s)) default_usage \<and>
     ss_turn_number (sn_state s) = of_nat (length (session_responses s)) \<and>
     List.map_filter event_response (sn_events s) = session_responses s \<and>
     List.map_filter event_started (sn_events s) = List.map_filter event_completed (sn_events s)"

definition session_inv :: "session \<Rightarrow> bool" where
  "session_inv s \<longleftrightarrow> ld_min_repetitions (sn_detector s) > 0 \<and> accounts s \<and>
     (ss_active (sn_state s) \<longrightarrow> answered [] (ss_messages (sn_state s)))"

lemma session_responses_simps [session_simps]:
  "session_responses (emit_event e s) = session_responses s"
  "session_responses (close_session s) = session_responses s"
  "session_responses (record_response env r s) = session_responses s @ [r]"
  "session_responses (apply_steering s) = session_responses s"
  "session_responses (fold (\<lambda>x. emit_event (f x)) xs s) = session_responses s"
  "session_responses (s\<lparr>sn_tracker := ct\<rparr>) = session_responses s"
  by (simp_all add: session_responses_def session_simps map_filter_append add_assistant_response_def
      map_filter_none list_all_iff)

lemma accounts_emit [session_simps]:
  "event_response e = None \<Longrightarrow> event_started e = None \<Longrightarrow> event_completed e = None \<Longrightarrow>
     accounts (emit_event e s) = accounts s"
  by (simp add: accounts_def session_simps map_filter_append)

lemma accounts_close [session_simps]: "accounts (close_session s) = accounts s"
  by (simp add: accounts_def session_simps)

lemma accounts_steering [session_simps]: "accounts (apply_steering s) = accounts s"
  by (simp add: accounts_def session_simps map_filter_append map_filter_none list_all_iff)

lemma track_events:
  "\<exists>evs. sn_events (track_context env s) = sn_events s @ evs \<and>
     list_all (\<lambda>e. event_response e = None \<and> event_started e = None \<and> event_completed e = None) evs"
  by (auto simp: track_context_def session_simps Let_def split_beta split: option.split)

lemma record_events:
  "\<exists>evs. sn_events (record_response env r s) = sn_events s @ SE_AssistantMessage r # evs \<and>
     list_all (\<lambda>e. event_response e = None \<and> event_started e = None \<and> event_completed e = None) evs"
  using track_events [of env "on_state (add_assistant_response r) (emit_event (SE_AssistantMessage r) s)"]
  by (auto simp: record_response_def session_simps)

lemma accounts_record:
  assumes "accounts s"
  shows "accounts (record_response env r s)"
proof -
  from record_events [of env r s] obtain evs where e: "sn_events (record_response env r s) = sn_events s @ SE_AssistantMessage r # evs"
    "list_all (\<lambda>e. event_response e = None \<and> event_started e = None \<and> event_completed e = None) evs" by blast
  from e(2) have "List.map_filter event_response evs = []" "List.map_filter event_started evs = []"
    "List.map_filter event_completed evs = []" by (auto intro!: map_filter_none simp: list_all_iff)
  then show ?thesis
    using assms by (simp add: accounts_def session_simps add_assistant_response_def e(1) map_filter_append usage_sum_append)
qed

lemma record_messages:
  "ss_messages (sn_state (record_response env r s)) = ss_messages (sn_state s) @ [plain_message Role_Assistant (rs_content r)]"
  "ss_active (sn_state (record_response env r s)) = ss_active (sn_state s)"
  "ss_steering_queue (sn_state (record_response env r s)) = ss_steering_queue (sn_state s)"
  by (simp_all add: session_simps add_assistant_response_def)

lemma pending_response:
  "answered [] ms \<Longrightarrow> pending [] (ms @ plain_message Role_Assistant (rs_content r) # ms') =
     pending (map tc_id (response_tool_calls r)) ms'"
  by (simp add: answered_pending pending_append message_simps message_tool_calls_def response_tool_calls_def)

lemma joins_length: "joins_in_order join_all \<Longrightarrow> length (fst (join_all fs w)) = length fs"
  unfolding joins_in_order_def using list_all2_lengthD by metis

lemma session_step_inv:
  assumes "joins_in_order (sx_join_all env)" "session_inv s" "ss_active (sn_state s)"
    and "session_step env request s w = (p, s', w')"
  shows "session_inv s' \<and> p \<noteq> Stopped (Panic e) \<and> (p = Continue \<longrightarrow> ss_active (sn_state s'))"
  using assms(4)
proof (cases rule: session_step_cases)
  case cancelled
  then show ?thesis using assms(2) by (simp add: session_inv_def session_simps)
next
  case (failed err)
  then show ?thesis using assms(2) by simp
next
  case (final r)
  have "answered [] (ss_messages (sn_state s) @ [plain_message Role_Assistant (rs_content r)])"
    using assms(2,3) final(1) pending_response [of "ss_messages (sn_state s)" r "[]"]
    by (simp add: session_inv_def answered_pending)
  then show ?thesis using assms(2,3) final by (simp add: session_inv_def session_simps accounts_record record_messages add_assistant_response_def)
next
  case (limit r)
  then show ?thesis using assms(2) by (simp add: session_inv_def session_simps accounts_record completed_event_def)
next
  case (cancelled_late r)
  then show ?thesis using assms(2) by (simp add: session_inv_def session_simps accounts_record)
next
  case (round r outputs wr s3)
  let ?tcs = "response_tool_calls r"
  let ?s2 = "fold (\<lambda>tc. emit_event (started_event env tc)) ?tcs (record_response env r s)"
  have len: "length outputs = length ?tcs"
    using joins_length [OF assms(1), of "map (\<lambda>tc. execute_untruncated (sx_registry env) (tc_name tc) (tc_arguments tc)) ?tcs" wr]
    unfolding round(3) by simp
  note res = process_results_Inr [OF round(4) len] and keep = process_results_keeps [OF round(4)]
  from res(1) obtain ms where ms: "ss_messages (sn_state s3) = ss_messages (sn_state ?s2) @ ms"
    "\<And>pend. pending (map tc_id ?tcs @ pend) ms = Some pend" by blast
  have base: "ss_messages (sn_state ?s2) = ss_messages (sn_state s) @ [plain_message Role_Assistant (rs_content r)]"
    by (simp add: session_simps add_assistant_response_def)
  let ?q = "map user_message (ss_steering_queue (sn_state s3))"
  have old: "answered [] (ss_messages (sn_state s))" using assms(2,3) by (simp add: session_inv_def)
  have "pending [] (ss_messages (sn_state s3) @ ?q) = pending (map tc_id ?tcs) (ms @ ?q)"
    using pending_response [OF old, of r "ms @ ?q"] by (simp only: ms(1) base append_assoc append_Cons append_Nil)
  also have "\<dots> = Some []" using ms(2) [of "[]"] pending_users [of "[]" _ "[]"]
    by (simp only: append_Nil2 pending_append option.case pending.simps(1))
  finally have "pending [] (ss_messages (sn_state s3) @ ?q) = Some []" .
  then have ans: "answered [] (ss_messages (sn_state s'))" by (simp add: round(6) session_simps answered_pending)
  have st: "List.map_filter event_started (map (started_event env) ?tcs) = call_names ?tcs"
    "List.map_filter event_completed (map (started_event env) ?tcs) = []"
    "List.map_filter event_response (map (started_event env) ?tcs) = []"
    by (auto simp: call_names_def started_event_def list_all_iff intro!: map_filter_map map_filter_none)
  have "accounts (record_response env r s)" using assms(2) by (simp add: session_inv_def accounts_record)
  then have "accounts s3"
    using res(2-5) keep st by (simp add: accounts_def session_simps session_responses_def map_filter_append)
  then show ?thesis
    using ans keep assms(2,3) round(5,6) by (simp add: session_inv_def session_simps add_assistant_response_def)
next
  case (panicked r outputs err)
  have "ld_min_repetitions (sn_detector (fold (\<lambda>tc. emit_event (started_event env tc)) (response_tool_calls r) (record_response env r s))) > 0"
    using assms(2) by (simp add: session_inv_def session_simps)
  then have False using process_results_ok panicked(2) by (metis Inl_Inr_False)
  then show ?thesis ..
qed

lemma session_loop_inv:
  "joins_in_order (sx_join_all env) \<Longrightarrow> session_inv s \<Longrightarrow> ss_active (sn_state s) \<Longrightarrow>
     session_loop env request s w = (res, s', w') \<Longrightarrow> session_inv s' \<and> res \<noteq> Inl (Panic e)"
proof (induction env request s w rule: session_loop.induct)
  case (1 env request s w)
  obtain p s1 w1 where st: "session_step env request s w = (p, s1, w1)" by (metis prod_cases3)
  have inv: "session_inv s1 \<and> p \<noteq> Stopped (Panic e) \<and> (p = Continue \<longrightarrow> ss_active (sn_state s1))"
    by (rule session_step_inv [OF "1.prems"(1-3) st])
  show ?case
  proof (cases p)
    case Continue
    have "session_loop env (request\<lparr>rq_messages := ss_messages (sn_state s1)\<rparr>) s1 w1 = (res, s', w')"
      using "1.prems"(4) st Continue by (simp add: session_loop.simps [of env request s w])
    then show ?thesis
      using "1.IH" [OF st [symmetric] _ refl "1.prems"(1)] inv Continue by blast
  next
    case (Stopped f)
    then show ?thesis using "1.prems"(4) st inv by (simp add: session_loop.simps [of env request s w]) blast
  next
    case (Finished_With t)
    then show ?thesis using "1.prems"(4) st inv by (simp add: session_loop.simps [of env request s w]) blast
  qed
qed

lemma start_inv:
  assumes "session_inv s" "ss_active (sn_state s)"
  shows "session_inv (apply_steering (emit_event (SE_TurnStarted n) (on_state (add_user_message input) s)))"
proof -
  have "answered [] (ss_messages (sn_state s) @ user_message input # map user_message q)" for q
    using assms pending_users [of "[]" q "[]"] by (simp add: session_inv_def answered_pending pending_append del: pending.simps) simp
  moreover have "accounts (on_state (add_user_message input) s)"
    using assms(1) by (simp add: session_inv_def accounts_def session_simps session_responses_def add_user_message_def map_filter_append)
  ultimately show ?thesis using assms by (simp add: session_inv_def session_simps add_user_message_def)
qed

lemma process_input_inv:
  assumes "joins_in_order (sx_join_all env)" "session_inv s" "process_input env input s w = (res, s', w')"
  shows "session_inv s' \<and> res \<noteq> Inl (Panic e)"
proof (cases "ss_active (sn_state s)")
  case False
  then show ?thesis using assms by (auto simp: process_input_def)
next
  case True
  define s3 where "s3 = apply_steering (emit_event (SE_TurnStarted (ss_turn_number (sn_state (on_state (add_user_message input) s))))
    (on_state (add_user_message input) s))"
  have inv: "session_inv s3" unfolding s3_def by (rule start_inv [OF assms(2) True])
  have act: "ss_active (sn_state s3)" using True by (simp add: s3_def session_simps add_user_message_def)
  obtain r s4 w1 where l: "session_loop env (initial_request env s3) s3 w = (r, s4, w1)" by (metis prod_cases3)
  note li = session_loop_inv [OF assms(1) inv act l]
  show ?thesis
  proof (cases r)
    case (Inl f)
    then show ?thesis using assms(3) True l li by (auto simp: process_input_def Let_def s3_def [symmetric])
  next
    case (Inr t)
    have "session_inv (emit_event (completed_event s5) s5)" if "s5 = on_state (\<lambda>st. st\<lparr>ss_phase := Phase_Completed\<rparr>) s4" for s5
      using li by (simp add: session_inv_def session_simps completed_event_def that accounts_def session_responses_def map_filter_append)
    then show ?thesis using assms(3) True l Inr by (auto simp: process_input_def Let_def s3_def [symmetric])
  qed
qed

text \<open>The sessions the program can reach; the outside may be in any state at each call.\<close>

inductive reachable_session :: "'w session_env \<Rightarrow> session \<Rightarrow> bool" for env where
  rs_new: "reachable_session env (session_new config session_id)"
| rs_input: "reachable_session env s \<Longrightarrow> process_input env input s w = (res, s', w') \<Longrightarrow> reachable_session env s'"
| rs_steer: "reachable_session env s \<Longrightarrow> reachable_session env (steer t s)"
| rs_follow_up: "reachable_session env s \<Longrightarrow> reachable_session env (follow_up t s)"

lemma reachable_session_inv:
  assumes "joins_in_order (sx_join_all env)" "reachable_session env s"
  shows "session_inv s"
  using assms(2)
proof induction
  case (rs_new config session_id)
  show ?case
    by (simp add: session_inv_def session_new_def state_new_def accounts_def session_responses_def default_detector_def)
next
  case (rs_input s input w res s' w')
  then show ?case using process_input_inv [OF assms(1)] by blast
qed (simp_all add: steer_def follow_up_def session_inv_def session_simps queue_steering_def accounts_def session_responses_def)

section \<open>Requests\<close>

lemma update_complete_simps [session_simps]:
  "record_response (env\<lparr>sx_complete := c\<rparr>) = record_response env"
  "started_event (env\<lparr>sx_complete := c\<rparr>) = started_event env"
  "process_results (env\<lparr>sx_complete := c\<rparr>) rs s = process_results env rs s"
  "initial_request (env\<lparr>sx_complete := c\<rparr>) = initial_request env"
proof -
  have t: "track_context (env\<lparr>sx_complete := c\<rparr>) = track_context env"
    by (rule ext, unfold track_context_def) (simp split: option.split)
  show "record_response (env\<lparr>sx_complete := c\<rparr>) = record_response env"
    by (simp add: record_response_def [abs_def] t)
  show "started_event (env\<lparr>sx_complete := c\<rparr>) = started_event env"
    by (simp add: started_event_def [abs_def])
  show "initial_request (env\<lparr>sx_complete := c\<rparr>) = initial_request env"
    by (simp add: initial_request_def [abs_def])
  have "process_result (env\<lparr>sx_complete := c\<rparr>) = process_result env"
    by (simp add: process_result_def [abs_def] check_loop_def [abs_def])
  then show "process_results (env\<lparr>sx_complete := c\<rparr>) rs s = process_results env rs s"
    by (induction rs arbitrary: s) (simp_all cong: res_bind_cong)
qed

lemma session_step_guarded:
  assumes "answered [] (rq_messages request)"
  shows "session_step (env\<lparr>sx_complete := guarded alt (sx_complete env)\<rparr>) request s w = session_step env request s w"
proof -
  have g: "guarded alt (sx_complete env) request = sx_complete env request"
    using assms by (simp add: guarded_def fun_eq_iff)
  have sel: "sx_cancelled (env\<lparr>sx_complete := c\<rparr>) = sx_cancelled env"
    "sx_complete (env\<lparr>sx_complete := c\<rparr>) = c" "sx_join_all (env\<lparr>sx_complete := c\<rparr>) = sx_join_all env"
    "sx_registry (env\<lparr>sx_complete := c\<rparr>) = sx_registry env" for c by simp_all
  show ?thesis unfolding session_step_def sel update_complete_simps g ..
qed

lemma session_loop_guarded:
  "joins_in_order (sx_join_all env) \<Longrightarrow> session_inv s \<Longrightarrow> ss_active (sn_state s) \<Longrightarrow>
     rq_messages request = ss_messages (sn_state s) \<Longrightarrow>
     session_loop (env\<lparr>sx_complete := guarded alt (sx_complete env)\<rparr>) request s w = session_loop env request s w"
proof (induction env request s w rule: session_loop.induct)
  case (1 env request s w)
  obtain p s1 w1 where st: "session_step env request s w = (p, s1, w1)" by (metis prod_cases3)
  have "answered [] (rq_messages request)" using "1.prems" by (simp add: session_inv_def)
  then have g: "session_step (env\<lparr>sx_complete := guarded alt (sx_complete env)\<rparr>) request s w = (p, s1, w1)"
    using st session_step_guarded by metis
  show ?case
  proof (cases p)
    case Continue
    have "session_inv s1 \<and> ss_active (sn_state s1)"
      using session_step_inv [OF "1.prems"(1-3) st] Continue by blast
    then have "session_loop (env\<lparr>sx_complete := guarded alt (sx_complete env)\<rparr>)
        (request\<lparr>rq_messages := ss_messages (sn_state s1)\<rparr>) s1 w1 =
        session_loop env (request\<lparr>rq_messages := ss_messages (sn_state s1)\<rparr>) s1 w1"
      using "1.IH" [OF st [symmetric] _ refl "1.prems"(1)] Continue by simp
    then show ?thesis using st g Continue by (simp add: session_loop.simps [where request = request])
  qed (use st g in \<open>simp_all add: session_loop.simps [where request = request]\<close>)
qed

lemma initial_request_messages: "rq_messages (initial_request env s) = ss_messages (sn_state s)"
  by (simp add: initial_request_def request_new_def set_system_prompt_def set_max_tokens_def
      set_temperature_def set_tools_def set_thinking_def Let_def split: option.split)

section \<open>What one input adds\<close>

fun event_steering :: "session_event \<Rightarrow> string option" where
  "event_steering (SE_SteeringApplied t) = Some t"
| "event_steering _ = None"

definition steering_applied :: "session \<Rightarrow> string list" where
  "steering_applied s = List.map_filter event_steering (sn_events s)"

text \<open>The session has only grown, by \<open>new\<close> responses, and no steering message was applied.\<close>

definition grown :: "session \<Rightarrow> response list \<Rightarrow> session \<Rightarrow> bool" where
  "grown s new s' \<longleftrightarrow> (\<exists>ms. ss_messages (sn_state s') = ss_messages (sn_state s) @ ms) \<and>
     session_responses s' = session_responses s @ new \<and>
     ss_steering_queue (sn_state s') = [] \<and> steering_applied s' = steering_applied s \<and>
     sn_config s' = sn_config s"

lemma grown_refl: "ss_steering_queue (sn_state s) = [] \<Longrightarrow> grown s [] s"
  by (simp add: grown_def)

lemma grown_trans: "grown s new s' \<Longrightarrow> grown s' new' s'' \<Longrightarrow> grown s (new @ new') s''"
  by (auto simp: grown_def)

lemma steering_applied_simps [session_simps]:
  "steering_applied (close_session s) = steering_applied s"
  "event_steering e = None \<Longrightarrow> steering_applied (emit_event e s) = steering_applied s"
  "(\<And>x. event_steering (f x) = None) \<Longrightarrow> steering_applied (fold (\<lambda>x. emit_event (f x)) xs s) = steering_applied s"
  by (auto simp: steering_applied_def session_simps map_filter_append list_all_iff intro!: map_filter_none)

lemma record_steering: "steering_applied (record_response env r s) = steering_applied s"
proof -
  have "steering_applied (track_context env s) = steering_applied s" for s
    by (auto simp: steering_applied_def track_context_def session_simps Let_def split_beta map_filter_append split: option.split)
  then show ?thesis by (simp add: record_response_def session_simps) (simp add: steering_applied_def session_simps map_filter_append)
qed

lemma process_results_steering:
  "process_results env rs s = Inr s' \<Longrightarrow> steering_applied s' = steering_applied s \<and>
     (\<exists>ms. ss_messages (sn_state s') = ss_messages (sn_state s) @ ms) \<and> session_responses s' = session_responses s"
proof (induction rs arbitrary: s)
  case (Cons r rs)
  then obtain s1 where s1: "process_result env (fst r, snd r) s = Inr s1" "process_results env rs s1 = Inr s'"
    by (auto simp: res_simps)
  from process_result_Inr(1) [OF s1(1)] obtain t ws evs where
    e: "sn_events s1 = sn_events s @ SE_ToolCallCompleted (tc_name (fst r)) (tc_id (fst r)) (to_content (snd r))
        (to_is_error (snd r)) (to_duration_ms (snd r)) # evs" "list_all (\<lambda>e. \<exists>p n. e = SE_LoopDetected p n) evs"
    "ss_messages (sn_state s1) = ss_messages (sn_state s) @ tool_result_message (tc_id (fst r)) t (to_is_error (snd r)) # map user_message ws"
    "ss_turns (sn_state s1) = ss_turns (sn_state s) @ [Turn_ToolExecution (tc_name (fst r)) (tc_id (fst r))
        (tc_arguments (fst r)) t (to_is_error (snd r)) (to_duration_ms (snd r))]" by blast
  have "List.map_filter event_steering evs = []" using e(2) by (induction evs) auto
  then show ?case using Cons.IH [OF s1(2)] e
    by (auto simp: steering_applied_def session_responses_def map_filter_append)
qed simp

lemma session_step_grown:
  assumes "session_inv s" "ss_steering_queue (sn_state s) = []" "session_step env request s w = (p, s', w')"
  shows "case p of
      Stopped e \<Rightarrow> \<exists>new. grown s new s' \<and> length new \<le> 1
    | Finished_With t \<Rightarrow> \<exists>r. grown s [r] s' \<and> response_tool_calls r = [] \<and> t = response_text r
    | Continue \<Rightarrow> \<exists>r. grown s [r] s' \<and> response_tool_calls r \<noteq> []"
  using assms(3)
proof (cases rule: session_step_cases)
  case cancelled
  then show ?thesis using assms(2) by (simp add: exI [of _ "[]"] grown_def session_simps)
next
  case (failed e)
  then show ?thesis using grown_refl [OF assms(2)] by (auto intro: exI [of _ "[]"])
next
  case (final r)
  then show ?thesis using assms(2)
    by (auto intro!: exI [of _ r] simp: grown_def session_simps record_steering add_assistant_response_def)
next
  case (limit r)
  then have "grown s [r] s'" using assms(2)
    by (simp add: grown_def session_simps record_steering add_assistant_response_def completed_event_def)
  then show ?thesis using limit(2) by (auto intro!: exI [of _ "[r]"])
next
  case (cancelled_late r)
  then have "grown s [r] s'" using assms(2)
    by (simp add: grown_def session_simps record_steering add_assistant_response_def)
  then show ?thesis using cancelled_late(1) by (auto intro!: exI [of _ "[r]"])
next
  case (round r outputs wr s3)
  have q: "ss_steering_queue (sn_state s3) = []" "sn_config s3 = sn_config s"
    using process_results_keeps(4,5) [OF round(4)] assms(2) by (simp_all add: session_simps add_assistant_response_def)
  have "steering_applied s3 = steering_applied s" "session_responses s3 = session_responses s @ [r]"
    "\<exists>ms. ss_messages (sn_state s3) = ss_messages (sn_state s) @ ms"
    using process_results_steering [OF round(4)]
    by (auto simp: session_simps record_steering started_event_def add_assistant_response_def)
  then have "grown s [r] (apply_steering s3)"
    using q by (simp add: grown_def session_simps) (simp add: steering_applied_def session_simps)
  then show ?thesis using round(1,5,6) by auto
next
  case (panicked r outputs err)
  have "ld_min_repetitions (sn_detector (fold (\<lambda>tc. emit_event (started_event env tc)) (response_tool_calls r) (record_response env r s))) > 0"
    using assms(1) by (simp add: session_inv_def session_simps)
  then have False using process_results_ok panicked(2) by (metis Inl_Inr_False)
  then show ?thesis ..
qed

text \<open>A final text is that of the last response, which calls no tool.\<close>

definition answers :: "'e + string option \<Rightarrow> response list \<Rightarrow> bool" where
  "answers res new \<longleftrightarrow>
     (case res of
        Inl e \<Rightarrow> True
      | Inr t \<Rightarrow> new \<noteq> [] \<and> response_tool_calls (last new) = [] \<and> t = response_text (last new))"

lemma answers_Cons: "answers res new \<Longrightarrow> answers res (r # new)"
  by (auto simp: answers_def split: sum.splits)

lemma session_loop_grown:
  "joins_in_order (sx_join_all env) \<Longrightarrow> session_inv s \<Longrightarrow> ss_active (sn_state s) \<Longrightarrow>
     ss_steering_queue (sn_state s) = [] \<Longrightarrow> ss_turn_number (sn_state s) \<noteq> - 1 \<Longrightarrow>
     session_loop env request s w = (res, s', w') \<Longrightarrow>
     \<exists>new. grown s new s' \<and>
       length new \<le> max 1 (unat (sc_max_turns (sn_config s)) - unat (ss_turn_number (sn_state s))) \<and>
       list_all (\<lambda>r. response_tool_calls r \<noteq> []) (butlast new) \<and> answers res new"
proof (induction env request s w rule: session_loop.induct)
  case (1 env request s w)
  obtain p s1 w1 where st: "session_step env request s w = (p, s1, w1)" by (metis prod_cases3)
  note grown = session_step_grown [OF "1.prems"(2,4) st]
  show ?case
  proof (cases p)
    case Continue
    let ?t = "ss_turn_number (sn_state s)" and ?m = "sc_max_turns (sn_config s)"
    have k: "sn_config s1 = sn_config s" "ss_turn_number (sn_state s1) = ?t + 1" "?t + 1 < ?m"
      using session_step_Continue [of env request s w s1 w1] st Continue by auto
    obtain r where r: "grown s [r] s1" "response_tool_calls r \<noteq> []" using grown Continue by auto
    have inv: "session_inv s1" "ss_active (sn_state s1)"
      using session_step_inv [OF "1.prems"(1-3) st] Continue by blast+
    have no: "ss_turn_number (sn_state s1) \<noteq> - 1" using k(2,3) by (metis word_order.extremum_strict)
    have q: "ss_steering_queue (sn_state s1) = []" using r(1) by (simp add: grown_def)
    have l: "session_loop env (request\<lparr>rq_messages := ss_messages (sn_state s1)\<rparr>) s1 w1 = (res, s', w')"
      using "1.prems"(6) st Continue by (simp add: session_loop.simps [of env request s w])
    from "1.IH" [OF st [symmetric] _ refl "1.prems"(1) inv q no l] Continue obtain new where
      new: "grown s1 new s'" "length new \<le> max 1 (unat ?m - unat (?t + 1))"
        "list_all (\<lambda>r. response_tool_calls r \<noteq> []) (butlast new)" "answers res new" using k by auto
    have u: "unat (?t + 1) = unat ?t + 1" using "1.prems"(5) by (metis Suc_eq_plus1 add.commute unatSuc add_eq_0_iff)
    moreover have "unat (?t + 1) < unat ?m" using k(3) by (simp add: word_less_nat_alt)
    ultimately have "length ([r] @ new) \<le> max 1 (unat ?m - unat ?t)" using new(2) by simp
    moreover have "list_all (\<lambda>r. response_tool_calls r \<noteq> []) (butlast ([r] @ new))" using new(3) r(2) by simp
    moreover have "answers res ([r] @ new)" using answers_Cons [OF new(4)] by simp
    ultimately show ?thesis using grown_trans [OF r(1) new(1)] by blast
  next
    case (Stopped f)
    then have res: "s' = s1" "res = Inl f" using "1.prems"(6) st by (simp_all add: session_loop.simps [of env request s w])
    from grown Stopped obtain new where new: "grown s new s1" "length new \<le> 1" by auto
    then have "butlast new = []" by (cases new) auto
    then show ?thesis using new res by (intro exI [of _ new]) (auto simp: answers_def)
  next
    case (Finished_With t)
    then have res: "s' = s1" "res = Inr t" using "1.prems"(6) st by (simp_all add: session_loop.simps [of env request s w])
    from grown Finished_With obtain r where "grown s [r] s1" "response_tool_calls r = []" "t = response_text r" by auto
    then show ?thesis using res by (intro exI [of _ "[r]"]) (auto simp: answers_def)
  qed
qed

section \<open>How a session ends\<close>

text \<open>What the result of a loop says about the session it leaves behind.\<close>

definition outcome_ok :: "session \<Rightarrow> session_error fault + 'a \<Rightarrow> session \<Rightarrow> bool" where
  "outcome_ok s res s' \<longleftrightarrow>
     (case res of
        Inr _ \<Rightarrow> ss_active (sn_state s')
      | Inl (Err (SessionLlm _)) \<Rightarrow> ss_active (sn_state s')
      | Inl (Err (TurnLimitReached n)) \<Rightarrow> n = sc_max_turns (sn_config s) \<and> n \<le> ss_turn_number (sn_state s') \<and>
          \<not> ss_active (sn_state s') \<and> ss_phase (sn_state s') = Phase_Completed \<and> last (sn_events s') = completed_event s'
      | Inl (Err Cancelled) \<Rightarrow> \<not> ss_active (sn_state s') \<and> ss_phase (sn_state s') = Phase_Completed
      | Inl _ \<Rightarrow> False)"

lemma outcome_ok_config:
  assumes "sn_config s = sn_config t"
  shows "outcome_ok s res s' = outcome_ok t res s'"
  unfolding outcome_ok_def assms ..

lemma session_step_outcome:
  assumes "session_inv s" "ss_active (sn_state s)" "session_step env request s w = (p, s', w')"
  shows "case p of Stopped e \<Rightarrow> outcome_ok s (Inl e) s' | Finished_With t \<Rightarrow> outcome_ok s (Inr t) s' | Continue \<Rightarrow> True"
  using assms(3)
proof (cases rule: session_step_cases)
  case (limit r)
  then show ?thesis
    by (simp add: outcome_ok_def session_simps is_at_turn_limit_def completed_event_def)
next
  case (panicked r outputs err)
  have "ld_min_repetitions (sn_detector (fold (\<lambda>tc. emit_event (started_event env tc)) (response_tool_calls r) (record_response env r s))) > 0"
    using assms(1) by (simp add: session_inv_def session_simps)
  then have False using process_results_ok panicked(2) by (metis Inl_Inr_False)
  then show ?thesis ..
qed (use assms(2) in \<open>simp_all add: outcome_ok_def session_simps add_assistant_response_def\<close>)

lemma session_loop_outcome:
  "joins_in_order (sx_join_all env) \<Longrightarrow> session_inv s \<Longrightarrow> ss_active (sn_state s) \<Longrightarrow>
     session_loop env request s w = (res, s', w') \<Longrightarrow> outcome_ok s res s'"
proof (induction env request s w rule: session_loop.induct)
  case (1 env request s w)
  obtain p s1 w1 where st: "session_step env request s w = (p, s1, w1)" by (metis prod_cases3)
  note out = session_step_outcome [OF "1.prems"(2,3) st]
  show ?case
  proof (cases p)
    case Continue
    have "session_inv s1" "ss_active (sn_state s1)"
      using session_step_inv [OF "1.prems"(1-3) st] Continue by blast+
    moreover have "session_loop env (request\<lparr>rq_messages := ss_messages (sn_state s1)\<rparr>) s1 w1 = (res, s', w')"
      using "1.prems"(4) st Continue by (simp add: session_loop.simps [of env request s w])
    ultimately have "outcome_ok s1 res s'" using "1.IH" [OF st [symmetric] _ refl "1.prems"(1)] Continue by blast
    moreover have "sn_config s1 = sn_config s" 
      using session_step_Continue [of env request s w s1 w1] st Continue by simp
    ultimately show ?thesis using outcome_ok_config by metis
  qed (use "1.prems"(4) st out in \<open>auto simp: session_loop.simps [of env request s w]\<close>)
qed

text \<open>The session as \<open>process_input\<close> enters its loop.\<close>

definition enter_loop :: "string \<Rightarrow> session \<Rightarrow> session" where
  "enter_loop input s =
     (let s1 = on_state (add_user_message input) s
      in apply_steering (emit_event (SE_TurnStarted (ss_turn_number (sn_state s1))) s1))"

lemma enter_loop_simps:
  "ss_messages (sn_state (enter_loop input s)) =
     ss_messages (sn_state s) @ user_message input # map user_message (ss_steering_queue (sn_state s))"
  "session_responses (enter_loop input s) = session_responses s"
  "ss_active (sn_state (enter_loop input s)) = ss_active (sn_state s)"
  "ss_turn_number (sn_state (enter_loop input s)) = ss_turn_number (sn_state s)"
  "ss_steering_queue (sn_state (enter_loop input s)) = []" "sn_config (enter_loop input s) = sn_config s"
  "steering_applied (enter_loop input s) = steering_applied s @ ss_steering_queue (sn_state s)"
proof -
  have "List.map_filter event_steering (map SE_SteeringApplied q) = q" for q by (induction q) auto
  then show "steering_applied (enter_loop input s) = steering_applied s @ ss_steering_queue (sn_state s)"
    by (simp add: enter_loop_def Let_def steering_applied_def session_simps add_user_message_def map_filter_append)
qed (simp_all add: enter_loop_def Let_def session_simps session_responses_def add_user_message_def map_filter_append
    map_filter_none list_all_iff)

lemma enter_loop_inv: "session_inv s \<Longrightarrow> ss_active (sn_state s) \<Longrightarrow> session_inv (enter_loop input s)"
  by (simp add: enter_loop_def Let_def start_inv)

lemma process_input_active:
  assumes "ss_active (sn_state s)"
  shows "process_input env input s w =
    (case session_loop env (initial_request env (enter_loop input s)) (enter_loop input s) w of
       (Inl e, s4, w1) \<Rightarrow> (Inl e, s4, w1)
     | (Inr final_text, s4, w1) \<Rightarrow>
         (let s5 = on_state (\<lambda>st. st\<lparr>ss_phase := Phase_Completed\<rparr>) s4
          in (Inr \<lparr>so_text = final_text, so_turns_used = ss_turn_number (sn_state s5) - ss_turn_number (sn_state s),
                so_total_usage = ss_total_usage (sn_state s5)\<rparr>,
              emit_event (completed_event s5) s5, w1)))"
  using assms unfolding process_input_def enter_loop_def Let_def by simp

lemma process_input_outcome:
  assumes "joins_in_order (sx_join_all env)" "session_inv s" "ss_active (sn_state s)"
    and "process_input env input s w = (res, s', w')"
  shows "outcome_ok s res s'"
proof -
  let ?s = "enter_loop input s"
  obtain r s4 w1 where l: "session_loop env (initial_request env ?s) ?s w = (r, s4, w1)" by (metis prod_cases3)
  have inv: "session_inv ?s" "ss_active (sn_state ?s)"
    using enter_loop_inv assms(2,3) by (simp_all add: enter_loop_simps(3))
  note out = session_loop_outcome [OF assms(1) inv l]
  show ?thesis
  proof (cases r)
    case (Inl e)
    then have "res = Inl e" "s' = s4" using assms(3,4) l by (simp_all add: process_input_active)
    moreover have "outcome_ok s (Inl e) s4 = outcome_ok ?s (Inl e) s4"
      unfolding outcome_ok_def enter_loop_simps(6) by simp
    ultimately show ?thesis using out Inl by (simp add: outcome_ok_def)
  next
    case (Inr t)
    then show ?thesis using assms(3,4) l out
      by (auto simp: process_input_active outcome_ok_def Let_def session_simps)
  qed
qed

lemma process_input_output:
  assumes "ss_active (sn_state s)" "process_input env input s w = (Inr out, s', w')"
  shows "so_turns_used out = ss_turn_number (sn_state s') - ss_turn_number (sn_state s)"
    and "so_total_usage out = ss_total_usage (sn_state s')"
  using assms by (auto simp: process_input_active Let_def session_simps split: prod.splits sum.splits)

section \<open>Properties\<close>

text \<open>A model that calls the shell once and then answers, and the surroundings of a session that uses it.\<close>

definition sample_session_env :: "unit session_env" where
  "sample_session_env =
     \<lparr>sx_complete = sample_complete, sx_registry = registry_new, sx_join_all = join_sequential,
      sx_cancelled = (\<lambda>w. (False, w)), sx_parse_json = (\<lambda>s. None), sx_hash = (\<lambda>s. 0), sx_debug = (\<lambda>p. [])\<rparr>"

lemma sample_joins: "joins_in_order (sx_join_all sample_session_env)"
  by (simp add: sample_session_env_def joins_in_order_sequential)

text \<open>C7. Whatever the model, the tools, the cancellation and the order of calls, processing an input never
  panics, and the bookkeeping agrees: the turn counter is the number of responses, the usage their
  sum, the events show every response once and every started tool call completed, in order, and
  as long as the session is active its conversation has a result for every tool call.\<close>

theorem session_bookkeeping:
  assumes "joins_in_order (sx_join_all env)" "reachable_session env s"
    and "process_input env input s w = (res, s', w')"
  shows "(\<nexists>e. res = Inl (Panic e)) \<and> accounts s' \<and>
    (ss_active (sn_state s') \<longrightarrow> answered [] (ss_messages (sn_state s')))"
  using process_input_inv [OF assms(1) reachable_session_inv [OF assms(1,2)] assms(3)]
  unfolding session_inv_def by blast

theorem session_bookkeeping_witness:
  "case process_input sample_session_env ''hi'' (session_new default_session_config ''s'') () of
     (res, s', w') \<Rightarrow> (\<nexists>e. res = Inl (Panic e)) \<and> accounts s'"
proof -
  obtain res s' w' where p: "process_input sample_session_env ''hi'' (session_new default_session_config ''s'') () = (res, s', w')"
    by (metis prod_cases3)
  from session_bookkeeping [OF sample_joins rs_new p] show ?thesis by (simp add: p)
qed

text \<open>C6. Every request a session sends holds a conversation in which each tool call has its result, in order,
  also after errors, steering and earlier inputs: a client that refuses any other conversation
  cannot be told apart.\<close>

theorem session_requests_answered:
  assumes "joins_in_order (sx_join_all env)" "reachable_session env s"
  shows "process_input (env\<lparr>sx_complete := guarded alt (sx_complete env)\<rparr>) input s w = process_input env input s w"
proof (cases "ss_active (sn_state s)")
  case True
  let ?s = "enter_loop input s"
  have "session_inv ?s" using enter_loop_inv reachable_session_inv [OF assms] True by blast
  then have "session_loop (env\<lparr>sx_complete := guarded alt (sx_complete env)\<rparr>) (initial_request env ?s) ?s w =
      session_loop env (initial_request env ?s) ?s w"
    using session_loop_guarded [OF assms(1)] True by (simp add: enter_loop_simps(3) initial_request_messages)
  then show ?thesis using True by (simp add: process_input_active update_complete_simps(4))
qed (simp add: process_input_def)

theorem session_requests_answered_witness:
  "process_input (sample_session_env\<lparr>sx_complete := guarded (\<lambda>r w. (Inl LlmCancelled, w)) (sx_complete sample_session_env)\<rparr>)
     ''hi'' (session_new default_session_config ''s'') () =
   process_input sample_session_env ''hi'' (session_new default_session_config ''s'') ()"
  by (rule session_requests_answered [OF sample_joins rs_new])

text \<open>C27. The result tells what state the session is in: an answer or a failure of the model leaves it active,
  with a cancellation or at the turn limit it is closed, an inactive session is left as it is, and
  there is no other error.\<close>

theorem session_outcome:
  assumes "joins_in_order (sx_join_all env)" "reachable_session env s"
    and "process_input env input s w = (res, s', w')"
  shows "if ss_active (sn_state s) then outcome_ok s res s'
    else res = Inl (Err Inactive) \<and> s' = s \<and> w' = w"
  using process_input_outcome [OF assms(1) reachable_session_inv [OF assms(1,2)] _ assms(3)] assms(3)
  by (auto simp: process_input_def)

theorem session_outcome_witness:
  "case process_input (sample_session_env\<lparr>sx_cancelled := \<lambda>w. (True, w)\<rparr>) ''hi'' (session_new default_session_config ''s'') () of
     (res, s', w') \<Rightarrow> outcome_ok (session_new default_session_config ''s'') res s' \<and> res = Inl (Err Cancelled)"
proof -
  let ?env = "sample_session_env\<lparr>sx_cancelled := \<lambda>w. (True, w)\<rparr>" and ?s = "session_new default_session_config ''s''"
  have j: "joins_in_order (sx_join_all ?env)" using sample_joins by simp
  have a: "ss_active (sn_state ?s)" by (simp add: session_new_def state_new_def)
  obtain res s' w' where p: "process_input ?env ''hi'' ?s () = (res, s', w')" by (metis prod_cases3)
  have "session_loop ?env (initial_request ?env (enter_loop ''hi'' ?s)) (enter_loop ''hi'' ?s) () =
      (Inl (Err Cancelled), close_session (enter_loop ''hi'' ?s), ())"
    by (simp add: session_loop.simps session_step_def)
  then have "res = Inl (Err Cancelled)" using p a by (simp add: process_input_active)
  then show ?thesis using session_outcome [OF j rs_new p] a by (simp add: p)
qed

text \<open>An input adds, in this order, the user's message, the steering messages queued before it, each once,
  and then only what the responses bring; it costs at most as many requests as turns are left (at
  least one), all but the last response call tools, and the answer is the last one's text.\<close>

theorem session_input_adds:
  assumes "joins_in_order (sx_join_all env)" "reachable_session env s" "ss_active (sn_state s)"
    and "ss_turn_number (sn_state s) \<noteq> - 1" "process_input env input s w = (res, s', w')"
  shows "\<exists>ms new.
    ss_messages (sn_state s') = ss_messages (sn_state s) @
      user_message input # map user_message (ss_steering_queue (sn_state s)) @ ms \<and>
    ss_steering_queue (sn_state s') = [] \<and>
    steering_applied s' = steering_applied s @ ss_steering_queue (sn_state s) \<and>
    session_responses s' = session_responses s @ new \<and>
    length new \<le> max 1 (unat (sc_max_turns (sn_config s)) - unat (ss_turn_number (sn_state s))) \<and>
    list_all (\<lambda>r. response_tool_calls r \<noteq> []) (butlast new) \<and> answers (map_sum id so_text res) new"
proof -
  let ?s = "enter_loop input s"
  obtain r s4 w1 where l: "session_loop env (initial_request env ?s) ?s w = (r, s4, w1)" by (metis prod_cases3)
  have inv: "session_inv ?s" "ss_active (sn_state ?s)" "ss_steering_queue (sn_state ?s) = []"
    "ss_turn_number (sn_state ?s) \<noteq> - 1"
    using enter_loop_inv reachable_session_inv [OF assms(1,2)] assms(3,4) by (simp_all add: enter_loop_simps)
  from session_loop_grown [OF assms(1) inv l] obtain new where new: "grown ?s new s4"
    "length new \<le> max 1 (unat (sc_max_turns (sn_config s)) - unat (ss_turn_number (sn_state s)))"
    "list_all (\<lambda>r. response_tool_calls r \<noteq> []) (butlast new)" "answers r new" by (auto simp: enter_loop_simps)
  have fin: "ss_messages (sn_state s') = ss_messages (sn_state s4) \<and>
      ss_steering_queue (sn_state s') = ss_steering_queue (sn_state s4) \<and> steering_applied s' = steering_applied s4 \<and>
      session_responses s' = session_responses s4 \<and> map_sum id so_text res = r"
    using assms(3,5) l
    by (cases r) (auto simp: process_input_active Let_def session_simps steering_applied_def completed_event_def
        map_filter_append session_responses_def)
  show ?thesis using new fin by (auto simp: grown_def enter_loop_simps)
qed

theorem session_input_adds_witness:
  "case process_input sample_session_env ''hi'' (steer ''faster'' (session_new default_session_config ''s'')) () of
     (res, s', w') \<Rightarrow> steering_applied s' = [''faster''] \<and> length (session_responses s') \<le> 100"
proof -
  let ?s = "steer ''faster'' (session_new default_session_config ''s'')"
  have s: "ss_active (sn_state ?s)" "ss_turn_number (sn_state ?s) = 0" "ss_steering_queue (sn_state ?s) = [''faster'']"
    "steering_applied ?s = []" "session_responses ?s = []" "sc_max_turns (sn_config ?s) = 100"
    by (simp_all add: steer_def session_new_def state_new_def session_simps queue_steering_def steering_applied_def
        session_responses_def on_state_def default_session_config_def)
  obtain res s' w' where p: "process_input sample_session_env ''hi'' ?s () = (res, s', w')" by (metis prod_cases3)
  from session_input_adds [OF sample_joins rs_steer [OF rs_new] s(1) _ p] show ?thesis by (auto simp: s p)
qed

end
