(* ===== verification/Cli_Error.thy ===== *)
theory Cli_Error
  imports Engine Stylesheet Composition Session
begin

text \<open>
  The errors of the command line, \<open>smasher-cli/src/error.rs\<close>, with those of git (\<open>gitutil.rs\<close>), and the exit codes of
  the process.
\<close>

datatype git_error =
    CommandFailed string
  | NotGitRepo string
  | DirtyWorkingTree
  | GitIo string

definition git_error_text :: "git_error \<Rightarrow> string" where
  "git_error_text e =
     (case e of
        CommandFailed m \<Rightarrow> ''git command failed: '' @ m
      | NotGitRepo p \<Rightarrow> ''not a git repository: '' @ p
      | DirtyWorkingTree \<Rightarrow> ''working tree is dirty''
      | GitIo m \<Rightarrow> ''I/O error: '' @ m)"

datatype cli_error =
    CliLlm llm_error
  | CliSession session_error
  | CliEngine engine_error
  | CliResolution resolution_error
  | CliStylesheet stylesheet_error
  | CliDotParse parse_error
  | CliIo read_error
  | CliState state_error
  | CliGit git_error
  | CliWeb string
  | CliOther string

fun exit_code :: "cli_error \<Rightarrow> int" where
  "exit_code (CliLlm _) = 2"
| "exit_code (CliSession _) = 3"
| "exit_code (CliEngine _) = 4"
| "exit_code (CliResolution _) = 5"
| "exit_code (CliDotParse _) = 5"
| "exit_code (CliStylesheet _) = 5"
| "exit_code (CliIo _) = 6"
| "exit_code (CliWeb _) = 7"
| "exit_code (CliState _) = 8"
| "exit_code (CliGit _) = 9"
| "exit_code (CliOther _) = 1"

end
