(* ===== verification/Pipeline.thy ===== *)
theory Pipeline
  imports Engine_Run Lint Transforms Composition Cli_Error "HOL-Library.Sublist"
begin

text \<open>
  From source text to a run: what the command line and the web server do with a DOT source before
  the engine gets it (\<open>smasher-cli/src/lint.rs\<close> and the first part of \<open>submit_pipeline\<close> of
  \<open>smasher-web/src/routes/api.rs\<close>), and the engine's own entry to sub-pipelines.  Reading files is a
  parameter; what is printed is returned as the list of its lines.
\<close>

section \<open>Loading\<close>

definition split_once_eq :: "string \<Rightarrow> (string \<times> string) option" where
  "split_once_eq s = map_option (\<lambda>n. (take n s, drop (n + 1) s)) (find_sub ''='' s)"

fun parse_vars :: "string list \<Rightarrow> string str_map \<Rightarrow> cli_error + string str_map" where
  "parse_vars [] variables = Inr variables"
| "parse_vars (v # vs) variables =
     (case split_once_eq v of
        None \<Rightarrow> Inl (CliOther (''invalid --var format '' @ quote1 v @ '': expected KEY=VALUE''))
      | Some (key, val) \<Rightarrow> parse_vars vs (variables(key \<mapsto> val)))"

definition parse_source :: "string \<Rightarrow> (parse_error, dot_graph) result" where
  "parse_source src = the (parse src)"

definition load_stylesheet ::
  "(string \<Rightarrow> read_error + string) \<Rightarrow> string option \<Rightarrow> (cli_error, stylesheet option) result" where
  "load_stylesheet read path =
     (case path of
        None \<Rightarrow> Inr None
      | Some p \<Rightarrow>
          res_bind (map_sum (\<lambda>e. Err (CliIo e)) id (read p)) (\<lambda>css.
          map_sum (map_fault CliStylesheet) Some (parse_stylesheet css)))"

definition load_pipeline ::
  "(string \<Rightarrow> read_error + string) \<Rightarrow> string \<Rightarrow> string list \<Rightarrow> string option \<Rightarrow> (cli_error, graph) result" where
  "load_pipeline read path vars style =
     res_bind (map_sum (\<lambda>e. Err (CliIo e)) id (read path)) (\<lambda>dot_source.
     res_bind (map_sum (map_fault CliDotParse) id (parse_source dot_source)) (\<lambda>dot_graph.
     res_bind (map_sum (\<lambda>e. Err (CliResolution e)) id (resolve dot_graph)) (\<lambda>resolved.
     res_bind (map_sum Err id (parse_vars vars Map.empty)) (\<lambda>variables.
     res_bind (load_stylesheet read style) (\<lambda>ss.
       Inr (apply_transforms variables ss resolved))))))"

section \<open>The lint command\<close>

fun severity_tag :: "lint_severity \<Rightarrow> string" where
  "severity_tag LError = ''E''"
| "severity_tag LWarning = ''W''"
| "severity_tag LInfo = ''I''"

definition diagnostic_lines :: "diagnostic \<Rightarrow> string list" where
  "diagnostic_lines d =
     (''['' @ severity_tag (dg_severity d) @ '':'' @ dg_code d @ ''] '' @ dg_message d @
        (case dg_node_id d of Some i \<Rightarrow> '' (node: '' @ i @ '')'' | None \<Rightarrow> []))
     # (case dg_suggestion d of Some s \<Rightarrow> [''  suggestion: '' @ s] | None \<Rightarrow> [])"

definition report_lines :: "lint_report \<Rightarrow> string list" where
  "report_lines report = concat (map diagnostic_lines (filter (\<lambda>d. dg_severity d \<noteq> LInfo) report))"

definition lint_found :: "lint_report \<Rightarrow> cli_error" where
  "lint_found report = CliOther (''lint found '' @ dec (length (report_errors report)) @ '' error(s)'')"

definition lint_command ::
  "(string \<Rightarrow> read_error + string) \<Rightarrow> string \<Rightarrow> string list \<Rightarrow> string option \<Rightarrow> string list \<times> (cli_error, unit) result" where
  "lint_command read path vars style =
     (case load_pipeline read path vars style of
        Inl e \<Rightarrow> ([], Inl e)
      | Inr resolved \<Rightarrow>
          (let report = run_lint with_builtins resolved;
               summary =
                 (if is_clean report then ''lint: clean''
                  else ''lint: '' @ dec (length (report_errors report)) @ '' error(s), '' @
                    dec (length (report_warnings report)) @ '' warning(s)'')
           in (report_lines report @ [summary],
               if has_errors report then Inl (Err (lint_found report)) else Inr ())))"

text \<open>The check before a run.\<close>

definition lint_graph :: "graph \<Rightarrow> string list \<times> (cli_error + unit)" where
  "lint_graph g =
     (let report = run_lint with_builtins g;
          errors = dec (length (report_errors report));
          warnings = dec (length (report_warnings report))
      in if has_errors report
         then (report_lines report @ [''lint: '' @ errors @ '' error(s), '' @ warnings @ '' warning(s)''],
               Inl (lint_found report))
         else (report_lines report @ (if is_clean report then [] else [''lint: '' @ warnings @ '' warning(s)'']),
               Inr ()))"

section \<open>Submitting a pipeline to the web server\<close>

datatype web_error =
    WebNotFound string
  | WebBadRequest string
  | WebInternal string
  | WebPipeline engine_error
  | WebParse parse_error
  | WebGraph resolution_error
  | WebIo string
  | WebJson string

definition submit_graph :: "string \<Rightarrow> string \<Rightarrow> string str_map \<Rightarrow> string option \<Rightarrow> (web_error, graph) result" where
  "submit_graph default_model dot_source variables model =
     res_bind (map_sum (map_fault WebParse) id (parse_source dot_source)) (\<lambda>dot_graph.
     res_bind (map_sum (\<lambda>e. Err (WebGraph e)) id (resolve dot_graph)) (\<lambda>resolved0.
       (let m = (case model of Some m \<Rightarrow> m | None \<Rightarrow> default_model);
            resolved = apply_transforms (variables(''model'' \<mapsto> m)) None resolved0;
            lint_report = run_lint with_builtins resolved
        in if has_errors lint_report
           then Inl (Err (WebBadRequest (''Pipeline lint errors: '' @
                  join ''; '' (map dg_message (report_errors lint_report)))))
           else Inr resolved)))"

section \<open>The engine's sub-pipelines\<close>

text \<open>The goals of the engine are computed from its graph when they are checked, so replacing the graph
  replaces them.\<close>

definition apply_sub_pipeline_transform ::
  "(string \<Rightarrow> read_error + string) \<Rightarrow> string \<Rightarrow> graph \<Rightarrow> (composition_error, graph) result option" where
  "apply_sub_pipeline_transform read base_dir g =
     (if \<not> list_ex (\<lambda>n. gn_type n = SubPipeline) (g_nodes g) then Some (Inr g)
      else apply_sub_pipelines read base_dir g)"

section \<open>What is accepted\<close>

lemma accepted: "has_errors (run_lint with_builtins g) \<longleftrightarrow> length (start_nodes g) \<noteq> 1 \<or> exit_nodes g = []"
proof -
  have "has_errors r = reports (\<lambda>s. s = LError) r" for r by (simp add: has_errors_def reports_def)
  then show ?thesis by (simp add: reports_builtins)
qed

lemma load_pipeline_wf:
  assumes "load_pipeline read path vars style = Inr g"
  shows "wf_graph g"
proof -
  from assms obtain vs ss dg g0 where "g = apply_transforms vs ss g0" "resolve dg = Inr g0"
    by (auto simp: load_pipeline_def res_simps map_sum_Inr)
  then show ?thesis by (simp add: transforms_wf resolve_wf)
qed

lemma submit_graph_Inr:
  assumes "submit_graph dm src vars model = Inr g"
  shows "wf_graph g" "\<exists>n. start_nodes g = [n]" "exit_nodes g \<noteq> []"
proof -
  from assms obtain dg g0 vs where "resolve dg = Inr g0" "g = apply_transforms vs None g0"
    "\<not> has_errors (run_lint with_builtins g)"
    by (auto simp: submit_graph_def res_simps map_sum_Inr Let_def split: if_splits)
  then show "wf_graph g" "\<exists>n. start_nodes g = [n]" "exit_nodes g \<noteq> []"
    by (auto simp: accepted length_Suc_conv intro: transforms_wf resolve_wf)
qed

text \<open>The check before a run and the lint command agree: on a graph that loads, both print its
  diagnostics first, and both fail, with the same error, exactly when the graph does not have
  exactly one start node and an exit node.\<close>

theorem lint_command_agrees:
  assumes "load_pipeline read path vars style = Inr g"
  shows "snd (lint_command read path vars style) = map_sum Err id (snd (lint_graph g)) \<and>
    (snd (lint_graph g) = Inr () \<longleftrightarrow> length (start_nodes g) = 1 \<and> exit_nodes g \<noteq> []) \<and>
    prefix (report_lines (run_lint with_builtins g)) (fst (lint_command read path vars style)) \<and>
    prefix (report_lines (run_lint with_builtins g)) (fst (lint_graph g))"
  using assms accepted [of g] by (simp add: lint_command_def lint_graph_def Let_def)

lemma successively_pred:
  "successively R xs \<Longrightarrow> x \<in> set xs \<Longrightarrow> x = hd xs \<or> (\<exists>y. R y x)"
proof (induction R xs rule: successively.induct)
  case (3 R a b xs)
  then show ?case by auto
qed auto

lemma moves_target:
  assumes "moves g a b" "predecessors g b = []"
  shows "list_ex (\<lambda>n. resolve_retry_target n g = Some b) (g_nodes g)"
proof -
  have "\<not> (\<exists>e\<in>set (g_edges g). ge_from e = a \<and> ge_to e = b)"
    using assms(2) by (auto simp: predecessors_def filter_empty_conv)
  with assms(1) obtain n where n: "node g a = Some n"
    "if gn_type n = Exit
     then \<exists>f. node g (gn_id f) = Some f \<and> gn_id f \<in> set (goals_from_graph g) \<and> resolve_retry_target f g = Some b
     else resolve_retry_target n g = Some b"
    unfolding moves_def by blast
  show ?thesis
  proof (cases "gn_type n = Exit")
    case True
    with n(2) obtain f where "node g (gn_id f) = Some f" "resolve_retry_target f g = Some b" by auto
    then show ?thesis using node_Some [of g "gn_id f" f] by (auto simp: list_ex_iff)
  next
    case False
    then show ?thesis using n node_Some [OF n(1)] by (auto simp: list_ex_iff)
  qed
qed

lemma engine_error_wf:
  assumes "engine_error_ok env cfg g t f" "wf_graph g"
  shows "case f of
      Err NoStartNode \<Rightarrow> False
    | Err (MultipleStartNodes _) \<Rightarrow> False
    | Err (NodeNotFound i) \<Rightarrow> list_ex (\<lambda>n. resolve_retry_target n g = Some i) (g_nodes g)
    | _ \<Rightarrow> True"
proof (cases f)
  case (Err e)
  show ?thesis using assms unfolding Err
    by (cases e) (simp_all add: engine_error_ok_def list_ex_iff)
qed simp

lemma unreachable_visited:
  assumes "i \<in> coded_nodes ''W001'' (run_lint with_builtins g)" "wf_graph g" "start_nodes g = [n]"
    and "successively (moves g) is" "hd is = gn_id n" "i \<in> set is"
  shows "list_ex (\<lambda>n. resolve_retry_target n g = Some i) (g_nodes g)"
proof -
  from assms(1) obtain m where m: "m \<in> set (g_nodes g)" "gn_type m \<noteq> Start" "gn_id m = i" "predecessors g i = []"
    unfolding coded_unreachable by auto
  have "n \<in> set (start_nodes g)" using assms(3) by simp
  then have n: "n \<in> set (g_nodes g)" "gn_type n = Start" by (simp_all add: start_nodes_def)
  have "i \<noteq> gn_id n"
  proof
    assume "i = gn_id n"
    then have "m = n" using node_unique [OF assms(2) n(1)] node_unique [OF assms(2) m(1)] m(3) by simp
    then show False using m(2) n(2) by simp
  qed
  then obtain y where "moves g y i" using successively_pred [OF assms(4,6)] assms(5) by blast
  then show ?thesis using moves_target m(4) by blast
qed

text \<open>C37. Running a submitted pipeline: it never fails for want of a start node or with several, a node
  that is not found is the retry target of some node, and on success every executed node that the
  linter calls unreachable is the retry target of some node.\<close>

theorem submitted_pipeline_runs:
  assumes "submit_graph dm src vars model = Inr g" "run env cfg g ctx w = (r, t)"
  shows "case r of
      Inr res \<Rightarrow> list_all (\<lambda>i. i \<in> coded_nodes ''W001'' (run_lint with_builtins g) \<longrightarrow>
          list_ex (\<lambda>n. resolve_retry_target n g = Some i) (g_nodes g)) (trace t)
    | Inl (Err NoStartNode) \<Rightarrow> False
    | Inl (Err (MultipleStartNodes _)) \<Rightarrow> False
    | Inl (Err (NodeNotFound i)) \<Rightarrow> list_ex (\<lambda>n. resolve_retry_target n g = Some i) (g_nodes g)
    | _ \<Rightarrow> True"
proof -
  note sub = submit_graph_Inr [OF assms(1)]
  from sub(2) obtain n where n: "start_nodes g = [n]" by blast
  have e: "execute_loop env cfg g (gn_id n) [] [] ctx w = (r, t)" using assms(2) n by (simp add: run_def)
  show ?thesis
  proof (cases r)
    case (Inl f)
    from execute_loop_Inl [OF e [unfolded Inl] start_node_exists [OF n]]
    have "engine_error_ok env cfg g t f" by blast
    then show ?thesis using engine_error_wf sub(1) Inl by simp
  next
    case (Inr res)
    note path = execute_loop_Inr(3-5) [OF e [unfolded Inr]]
    have "list_ex (\<lambda>n. resolve_retry_target n g = Some i) (g_nodes g)"
      if "i \<in> set (trace t)" "i \<in> coded_nodes ''W001'' (run_lint with_builtins g)" for i
      using unreachable_visited [OF that(2) sub(1) n path(2,1) that(1)] .
    then show ?thesis using Inr by (simp add: list_all_iff)
  qed
qed

definition sample_source :: string where
  "sample_source = ''digraph p { s [shape=circle]; x [shape=Msquare]; s -> x }''"

lemma sample_submits: "is_ok (submit_graph ''m'' sample_source Map.empty None)"
  unfolding sample_source_def submit_graph_def parse_source_def
  by code_simp

theorem submitted_pipeline_runs_witness:
  "\<exists>g. submit_graph ''m'' sample_source Map.empty None = Inr g \<and>
     (case fst (run sample_env default_engine_config g [] ()) of
       Inl (Err NoStartNode) \<Rightarrow> False | Inl (Err (MultipleStartNodes _)) \<Rightarrow> False | _ \<Rightarrow> True)"
proof -
  obtain g where g: "submit_graph ''m'' sample_source Map.empty None = Inr g"
    using sample_submits by (auto simp: is_ok_iff)
  obtain r t where r: "run sample_env default_engine_config g [] () = (r, t)" by force
  from submitted_pipeline_runs [OF g r]
  have "case r of Inl (Err NoStartNode) \<Rightarrow> False | Inl (Err (MultipleStartNodes _)) \<Rightarrow> False | _ \<Rightarrow> True"
    by (cases r) (auto split: fault.splits engine_error.splits)
  with g r show ?thesis by auto
qed

end
