(* ===== verification/Patch.thy ===== *)
theory Patch
  imports Prelude "HOL-Library.Sublist"
begin

text \<open>
  The patch tool of the agent, \<open>tools/apply_patch.rs\<close>: parsing of unified diffs, application of the
  hunks of one file, and the tool's loop over the files.  Line numbers are 64 bits and wrap around;
  an index out of range is a panic.  Each error text is a constructor with the values it shows; the
  reason \<open>str::parse\<close> gives for a bad number is left out.
\<close>

section \<open>Data\<close>

datatype patch_line = PContext string | PAdded string | PRemoved string

record hunk =
  hk_original_start :: nat
  hk_original_count :: nat
  hk_modified_start :: nat
  hk_modified_count :: nat
  hk_lines :: "patch_line list"

record file_patch =
  fp_original_path :: string
  fp_modified_path :: string
  fp_hunks :: "hunk list"
  fp_is_new_file :: bool
  fp_is_deleted :: bool

datatype patch_error =
    NoHunks
  | InvalidHeader string
  | MissingOriginalRange string
  | MissingModifiedRange string
  | InvalidStart string
  | InvalidCount string
  | InvalidRange string
  | OverlappingHunks nat nat
  | ContextPastEnd string nat
  | ContextMismatch nat string string
  | RemovePastEnd string nat
  | RemoveMismatch nat string string
  | HunkNotFound nat string

section \<open>Parsing\<close>

definition usize_add :: "nat \<Rightarrow> nat \<Rightarrow> nat" where
  "usize_add a b = (a + b) mod 2 ^ 64"

definition strip_ab_prefix :: "string \<Rightarrow> string" where
  "strip_ab_prefix path =
     (case strip_prefix path ''a/'' of
        Some rest \<Rightarrow> rest
      | None \<Rightarrow> (case strip_prefix path ''b/'' of Some rest \<Rightarrow> rest | None \<Rightarrow> path))"

text \<open>\<open>str::trim_start_matches\<close> of a non-empty pattern.\<close>

function trim_start_matches :: "string \<Rightarrow> string \<Rightarrow> string" where
  "trim_start_matches p s =
     (if p \<noteq> [] \<and> starts_with s p then trim_start_matches p (drop (length p) s) else s)"
  by pat_completeness auto
termination
proof (relation "measure (\<lambda>(p, s). length s)", goal_cases)
  case (2 p s)
  then have "s \<noteq> []" by (auto simp: starts_with_def)
  with 2 show ?case by (cases p) auto
qed simp

declare trim_start_matches.simps [simp del]

definition split_once_comma :: "string \<Rightarrow> (string \<times> string) option" where
  "split_once_comma s = map_option (\<lambda>n. (take n s, drop (n + 1) s)) (find_sub '','' s)"

definition parse_range :: "string \<Rightarrow> patch_error + nat \<times> nat" where
  "parse_range s =
     (case split_once_comma s of
        Some (start_str, count_str) \<Rightarrow>
          (case parse_uint 64 start_str of
             None \<Rightarrow> Inl (InvalidStart start_str)
           | Some start \<Rightarrow>
               (case parse_uint 64 count_str of
                  None \<Rightarrow> Inl (InvalidCount count_str)
                | Some count \<Rightarrow> Inr (start, count)))
      | None \<Rightarrow> (case parse_uint 64 s of None \<Rightarrow> Inl (InvalidRange s) | Some start \<Rightarrow> Inr (start, 1)))"

definition parse_hunk_header :: "string \<Rightarrow> patch_error + nat \<times> nat \<times> nat \<times> nat" where
  "parse_hunk_header line =
     (case find_sub ''@@'' line of
        None \<Rightarrow> Inl (InvalidHeader line)
      | Some n1 \<Rightarrow>
     (case find_sub ''@@'' (drop (n1 + 2) line) of
        None \<Rightarrow> Inl (InvalidHeader line)
      | Some n2 \<Rightarrow>
          (case split_ws (trim (take n2 (drop (n1 + 2) line))) of
             [] \<Rightarrow> Inl (MissingOriginalRange line)
           | [_] \<Rightarrow> Inl (MissingModifiedRange line)
           | orig_range # mod_range # _ \<Rightarrow>
               res_bind (parse_range (trim_start_matches ''-'' orig_range)) (\<lambda>(orig_start, orig_count).
               res_bind (parse_range (trim_start_matches ''+'' mod_range)) (\<lambda>(mod_start, mod_count).
                 Inr (orig_start, orig_count, mod_start, mod_count))))))"

definition ends_hunk :: "string \<Rightarrow> bool" where
  "ends_hunk line \<longleftrightarrow> starts_with line ''@@ '' \<or> starts_with line ''--- '' \<or> starts_with line ''diff ''"

definition hunk_line :: "string \<Rightarrow> patch_line option" where
  "hunk_line line =
     (case line of
        [] \<Rightarrow> Some (PContext [])
      | c # rest \<Rightarrow>
          if c = CHR ''+'' then Some (PAdded rest)
          else if c = CHR ''-'' then Some (PRemoved rest)
          else if c = CHR '' '' then Some (PContext rest)
          else if c = backslash then None
          else Some (PContext line))"

text \<open>The hunks of a file, up to the start of the next one.\<close>

function parse_hunks :: "string list \<Rightarrow> hunk list \<Rightarrow> patch_error + hunk list \<times> string list" where
  "parse_hunks [] hunks = Inr (hunks, [])"
| "parse_hunks (line # rest) hunks =
     (if starts_with line ''@@ '' then
        res_bind (parse_hunk_header line) (\<lambda>(os, oc, ms, mc).
          parse_hunks (dropWhile (\<lambda>l. \<not> ends_hunk l) rest)
            (hunks @ [\<lparr>hk_original_start = os, hk_original_count = oc, hk_modified_start = ms,
               hk_modified_count = mc,
               hk_lines = List.map_filter hunk_line (takeWhile (\<lambda>l. \<not> ends_hunk l) rest)\<rparr>]))
      else if starts_with line ''--- '' \<or> starts_with line ''diff '' then Inr (hunks, line # rest)
      else parse_hunks rest hunks)"
  by pat_completeness auto
termination
  by (relation "measure (\<lambda>(lines, hunks). length lines)") (auto simp: length_dropWhile_le less_Suc_eq_le)

lemma parse_hunks_length: "parse_hunks lines hunks = Inr (hs, rest) \<Longrightarrow> length rest \<le> length lines"
proof (induction lines hunks arbitrary: hs rest rule: parse_hunks.induct)
  case (2 line rest' hunks)
  show ?case
  proof (cases "starts_with line ''@@ ''")
    case True
    with "2.prems" obtain os oc ms mc where h: "parse_hunk_header line = Inr (os, oc, ms, mc)"
      and r: "parse_hunks (dropWhile (\<lambda>l. \<not> ends_hunk l) rest') (hunks @ [\<lparr>hk_original_start = os,
        hk_original_count = oc, hk_modified_start = ms, hk_modified_count = mc,
        hk_lines = List.map_filter hunk_line (takeWhile (\<lambda>l. \<not> ends_hunk l) rest')\<rparr>]) = Inr (hs, rest)"
      by (auto simp: res_simps)
    from "2.IH"(1) [OF True h refl refl refl r] show ?thesis
      using length_dropWhile_le [of "\<lambda>l. \<not> ends_hunk l" rest'] by simp
  next
    case False
    then show ?thesis using "2.prems" "2.IH"(2) [OF False] by (auto split: if_splits)
  qed
qed simp

definition raw_path :: "string \<Rightarrow> string \<Rightarrow> string" where
  "raw_path mark line = trim (trim_start_matches mark line)"

function parse_files :: "string list \<Rightarrow> file_patch list \<Rightarrow> patch_error + file_patch list" where
  "parse_files [] patches = Inr patches"
| "parse_files (line # rest) patches =
     (if starts_with line ''--- '' \<and> rest \<noteq> [] \<and> starts_with (hd rest) ''+++ '' then
        (let orig_raw = raw_path ''--- '' line;
             mod_raw = raw_path ''+++ '' (hd rest);
             is_new_file = (orig_raw = ''/dev/null'');
             is_deleted = (mod_raw = ''/dev/null'')
         in res_bind (parse_hunks (tl rest) []) (\<lambda>(hunks, rest').
              if hunks = [] \<and> \<not> is_new_file \<and> \<not> is_deleted then Inl NoHunks
              else parse_files rest' (patches @
                [\<lparr>fp_original_path = (if is_new_file then [] else strip_ab_prefix orig_raw),
                  fp_modified_path = (if is_deleted then [] else strip_ab_prefix mod_raw),
                  fp_hunks = hunks, fp_is_new_file = is_new_file, fp_is_deleted = is_deleted\<rparr>])))
      else parse_files rest patches)"
  by pat_completeness auto
termination
proof (relation "measure (\<lambda>(lines, patches). length lines)", goal_cases)
  case (2 line rest patches)
  then show ?case
    by (auto dest!: parse_hunks_length)
qed auto

definition parse_patch :: "string \<Rightarrow> patch_error + file_patch list" where
  "parse_patch patch = parse_files (str_lines patch) []"

section \<open>Applying\<close>

fun match_lines :: "patch_line list \<Rightarrow> string list" where
  "match_lines [] = []"
| "match_lines (PContext s # ls) = s # match_lines ls"
| "match_lines (PRemoved s # ls) = s # match_lines ls"
| "match_lines (PAdded s # ls) = match_lines ls"

fun all_match :: "string list \<Rightarrow> nat \<Rightarrow> nat \<Rightarrow> string list \<Rightarrow> panic + bool" where
  "all_match orig_lines pos i [] = Inr True"
| "all_match orig_lines pos i (expected # es) =
     (if usize_add pos i \<ge> length orig_lines then Inl Slice_Range
      else if orig_lines ! usize_add pos i = expected then all_match orig_lines pos (i + 1) es
      else Inr False)"

definition matches_at :: "string list \<Rightarrow> nat \<Rightarrow> string list \<Rightarrow> panic + bool" where
  "matches_at orig_lines pos ms =
     (if usize_add pos (length ms) > length orig_lines then Inr False else all_match orig_lines pos 0 ms)"

text \<open>The loop over the drift: below, then above, for each distance.\<close>

fun search_near :: "string list \<Rightarrow> string list \<Rightarrow> nat \<Rightarrow> nat list \<Rightarrow> panic + nat option" where
  "search_near orig_lines ms expected_start [] = Inr None"
| "search_near orig_lines ms expected_start (delta # ds) =
     res_bind
       (if usize_add (usize_add expected_start delta) (length ms) \<le> length orig_lines
        then matches_at orig_lines (usize_add expected_start delta) ms else Inr False) (\<lambda>below.
     if below then Inr (Some (usize_add expected_start delta))
     else res_bind
       (if delta \<le> expected_start then matches_at orig_lines (expected_start - delta) ms else Inr False) (\<lambda>above.
     if above then Inr (Some (expected_start - delta))
     else search_near orig_lines ms expected_start ds))"

definition max_drift :: nat where "max_drift = 50"

definition find_hunk_position :: "string list \<Rightarrow> hunk \<Rightarrow> nat \<Rightarrow> (patch_error, nat) result" where
  "find_hunk_position orig_lines h expected_start =
     (let ms = match_lines (hk_lines h) in
      if ms = [] then Inr expected_start
      else res_bind (map_sum Panic id (matches_at orig_lines expected_start ms)) (\<lambda>exact.
        if exact then Inr expected_start
        else res_bind (map_sum Panic id (search_near orig_lines ms expected_start [1..<max_drift + 1])) (\<lambda>found.
          case found of
            Some p \<Rightarrow> Inr p
          | None \<Rightarrow> Inl (Err (HunkNotFound (usize_add expected_start 1) (hd ms))))))"

fun apply_lines :: "string list \<Rightarrow> patch_line list \<Rightarrow> nat \<Rightarrow> string list \<Rightarrow> patch_error + nat \<times> string list" where
  "apply_lines orig_lines [] pos out = Inr (pos, out)"
| "apply_lines orig_lines (PContext s # ls) pos out =
     (if pos \<ge> length orig_lines then Inl (ContextPastEnd s (pos + 1))
      else if orig_lines ! pos \<noteq> s then Inl (ContextMismatch (pos + 1) s (orig_lines ! pos))
      else apply_lines orig_lines ls (pos + 1) (out @ [orig_lines ! pos]))"
| "apply_lines orig_lines (PRemoved s # ls) pos out =
     (if pos \<ge> length orig_lines then Inl (RemovePastEnd s (pos + 1))
      else if orig_lines ! pos \<noteq> s then Inl (RemoveMismatch (pos + 1) s (orig_lines ! pos))
      else apply_lines orig_lines ls (pos + 1) out)"
| "apply_lines orig_lines (PAdded s # ls) pos out = apply_lines orig_lines ls pos (out @ [s])"

fun apply_hunks ::
  "string list \<Rightarrow> hunk list \<Rightarrow> nat \<Rightarrow> string list \<Rightarrow> (patch_error, nat \<times> string list) result" where
  "apply_hunks orig_lines [] orig_idx out = Inr (orig_idx, out)"
| "apply_hunks orig_lines (h # hs) orig_idx out =
     res_bind (find_hunk_position orig_lines h (hk_original_start h - 1)) (\<lambda>actual_start.
       if actual_start > orig_idx \<and> actual_start > length orig_lines then Inl (Panic Slice_Range)
       else if actual_start < orig_idx then
         Inl (Err (OverlappingHunks (actual_start + 1) (orig_idx + 1)))
       else
         res_bind (map_sum Err id (apply_lines orig_lines (hk_lines h) actual_start
             (out @ take (actual_start - orig_idx) (drop orig_idx orig_lines)))) (\<lambda>(pos, out').
         apply_hunks orig_lines hs pos out'))"

definition finish_lines :: "string list \<Rightarrow> string \<Rightarrow> string" where
  "finish_lines lines original =
     (if lines = [] then []
      else join [newline] lines @ (if ends_with original [newline] \<or> original = [] then [newline] else []))"

fun kept_lines :: "patch_line list \<Rightarrow> string list" where
  "kept_lines [] = []"
| "kept_lines (PContext s # ls) = s # kept_lines ls"
| "kept_lines (PRemoved s # ls) = kept_lines ls"
| "kept_lines (PAdded s # ls) = s # kept_lines ls"

definition apply_file_patch :: "string \<Rightarrow> file_patch \<Rightarrow> (patch_error, string) result" where
  "apply_file_patch original fp =
     (if fp_is_deleted fp then Inr []
      else if fp_is_new_file fp
      then Inr (finish_lines (concat (map (\<lambda>h. kept_lines (hk_lines h)) (fp_hunks fp))) original)
      else
        (let orig_lines = str_lines original in
         res_bind (apply_hunks orig_lines (fp_hunks fp) 0 []) (\<lambda>(orig_idx, out).
           Inr (finish_lines (out @ drop orig_idx orig_lines) original))))"

section \<open>The tool\<close>

text \<open>The execution environment the tool works in: a state with fallible file operations.\<close>

record 's file_env =
  fe_read :: "string \<Rightarrow> 's \<Rightarrow> (string + string) \<times> 's"
  fe_write :: "string \<Rightarrow> string \<Rightarrow> 's \<Rightarrow> (string + unit) \<times> 's"
  fe_delete :: "string \<Rightarrow> 's \<Rightarrow> (string + unit) \<times> 's"

datatype tool_error =
    PatchUnparsable patch_error
  | NoFilePatches
  | DeleteFailed string string
  | ReadFailed string string
  | ApplyFailed string patch_error
  | WriteFailed string string

definition patch_file :: "'s file_env \<Rightarrow> file_patch \<Rightarrow> 's \<Rightarrow> (tool_error, string) result \<times> 's" where
  "patch_file env fp s =
     (if fp_is_deleted fp then
        (case fe_delete env (fp_original_path fp) s of
           (Inr _, s') \<Rightarrow> (Inr (''Deleted '' @ fp_original_path fp), s')
         | (Inl e, s') \<Rightarrow> (Inl (Err (DeleteFailed (fp_original_path fp) e)), s'))
      else
        (let path = fp_modified_path fp;
             (original, s1) = (if fp_is_new_file fp then (Inr [], s) else fe_read env path s)
         in case original of
              Inl e \<Rightarrow> (Inl (Err (ReadFailed path e)), s1)
            | Inr content \<Rightarrow>
                (case apply_file_patch content fp of
                   Inl (Panic p) \<Rightarrow> (Inl (Panic p), s1)
                 | Inl (Err e) \<Rightarrow> (Inl (Err (ApplyFailed path e)), s1)
                 | Inr patched \<Rightarrow>
                     (case fe_write env path patched s1 of
                        (Inr _, s2) \<Rightarrow>
                          (Inr ((if fp_is_new_file fp then ''Created '' else ''Patched '') @ path), s2)
                      | (Inl e, s2) \<Rightarrow> (Inl (Err (WriteFailed path e)), s2)))))"

fun patch_files ::
  "'s file_env \<Rightarrow> file_patch list \<Rightarrow> string list \<Rightarrow> 's \<Rightarrow> (tool_error, string) result \<times> 's" where
  "patch_files env [] results s = (Inr (join [newline] results), s)"
| "patch_files env (fp # fps) results s =
     (case patch_file env fp s of
        (Inr r, s') \<Rightarrow> patch_files env fps (results @ [r]) s'
      | (Inl e, s') \<Rightarrow> (Inl e, s'))"

definition execute_patch :: "'s file_env \<Rightarrow> string \<Rightarrow> 's \<Rightarrow> (tool_error, string) result \<times> 's" where
  "execute_patch env patch_str s =
     (case parse_patch patch_str of
        Inl e \<Rightarrow> (Inl (Err (PatchUnparsable e)), s)
      | Inr [] \<Rightarrow> (Inl (Err NoFilePatches), s)
      | Inr fps \<Rightarrow> patch_files env fps [] s)"

section \<open>What a patch that applies does\<close>

text \<open>Gaps of unchanged lines, each followed by lines of the next hunk.\<close>

definition weave :: "(patch_line list \<Rightarrow> string list) \<Rightarrow> string list list \<Rightarrow> hunk list \<Rightarrow> string list" where
  "weave f gaps hs = concat (map2 (\<lambda>g h. g @ f (hk_lines h)) gaps hs)"

lemma weave_simps [simp]:
  "weave f [] [] = []"
  "weave f (g # gs) (h # hs) = g @ f (hk_lines h) @ weave f gs hs"
  by (simp_all add: weave_def)

lemma nth_drop_prefix:
  "prefix (s # ss) (drop pos xs) \<longleftrightarrow> pos < length xs \<and> xs ! pos = s \<and> prefix ss (drop (Suc pos) xs)"
proof (cases "pos < length xs")
  case True
  then show ?thesis by (simp add: Cons_nth_drop_Suc [symmetric]) auto
qed simp

lemma apply_lines_Inr:
  "apply_lines orig ls pos out = Inr (pos', out') \<longleftrightarrow>
     prefix (match_lines ls) (drop pos orig) \<and> pos' = pos + length (match_lines ls) \<and> out' = out @ kept_lines ls"
  by (induction orig ls pos out rule: apply_lines.induct) (auto simp: nth_drop_prefix)

lemma apply_hunks_sound:
  assumes "apply_hunks orig hs idx out = Inr (idx', out')" "idx \<le> length orig"
  shows "idx' \<le> length orig \<and> (\<exists>gaps. length gaps = length hs \<and>
     drop idx orig = weave match_lines gaps hs @ drop idx' orig \<and> out' = out @ weave kept_lines gaps hs)"
  using assms
proof (induction orig hs idx out rule: apply_hunks.induct)
  case (1 orig idx out)
  then show ?case by simp
next
  case (2 orig h hs idx out)
  from "2.prems"(1) obtain start pos mid where
    f: "find_hunk_position orig h (hk_original_start h - 1) = Inr start"
    and ok: "\<not> (start > idx \<and> start > length orig)" "\<not> start < idx"
    and a: "apply_lines orig (hk_lines h) start (out @ take (start - idx) (drop idx orig)) = Inr (pos, mid)"
    and r: "apply_hunks orig hs pos mid = Inr (idx', out')"
    by (auto simp: res_simps map_sum_Inr split: if_splits)
  from ok "2.prems"(2) have s: "idx \<le> start" "start \<le> length orig" by auto
  from a have p: "prefix (match_lines (hk_lines h)) (drop start orig)" "pos = start + length (match_lines (hk_lines h))"
    "mid = out @ take (start - idx) (drop idx orig) @ kept_lines (hk_lines h)"
    by (auto simp: apply_lines_Inr)
  then have "length (match_lines (hk_lines h)) \<le> length (drop start orig)" using prefix_length_le by blast
  then have pl: "pos \<le> length orig" using p(2) s by simp
  from a have "map_sum Err id (apply_lines orig (hk_lines h) start (out @ take (start - idx) (drop idx orig))) =
      Inr (pos, mid)" by simp
  from "2.IH" [OF f ok this refl r pl] obtain gaps where
    g: "idx' \<le> length orig" "length gaps = length hs" "drop pos orig = weave match_lines gaps hs @ drop idx' orig"
       "out' = mid @ weave kept_lines gaps hs" by auto
  have "drop idx orig = take (start - idx) (drop idx orig) @ drop start orig"
  proof -
    have "drop start orig = drop (start - idx) (drop idx orig)" using s by simp
    then show ?thesis by (simp only: append_take_drop_id)
  qed
  also have "drop start orig = match_lines (hk_lines h) @ drop pos orig"
  proof -
    from p(1) obtain r where r: "drop start orig = match_lines (hk_lines h) @ r" by (auto simp: prefix_def)
    have "drop pos orig = drop (length (match_lines (hk_lines h))) (drop start orig)"
      using p(2) by (simp add: add.commute)
    then show ?thesis by (simp add: r)
  qed
  finally show ?case using g p(3)
    by (intro conjI exI [of _ "take (start - idx) (drop idx orig) # gaps"]) simp_all
qed

text \<open>The lines of a text without carriage returns make up the text.\<close>

lemma split_nl_Nil: "split_nl acc s = [] \<longleftrightarrow> acc = [] \<and> s = []"
  by (induction acc s rule: split_nl.induct) auto

lemma ends_with_newline: "ends_with s [newline] \<longleftrightarrow> s \<noteq> [] \<and> last s = newline"
  by (cases s rule: rev_cases) (auto simp: ends_with_iff)

lemma join_split_nl:
  "carriage \<notin> set acc \<Longrightarrow> carriage \<notin> set s \<Longrightarrow> acc \<noteq> [] \<or> s \<noteq> [] \<Longrightarrow>
     join [newline] (split_nl acc s) @ (if ends_with s [newline] then [newline] else []) = rev acc @ s"
proof (induction acc s rule: split_nl.induct)
  case (2 acc c cs)
  show ?case
  proof (cases "c = newline")
    case True
    have "rev acc \<noteq> r @ [carriage]" for r
    proof
      assume "rev acc = r @ [carriage]"
      then have "carriage \<in> set (rev acc)" by simp
      with "2.prems"(1) show False by simp
    qed
    then have "chomp_cr (rev acc) = rev acc"
      by (auto simp: chomp_cr_def strip_suffix_Some split: option.split)
    then have ls: "split_nl acc (c # cs) = rev acc # split_nl [] cs" using True by simp
    show ?thesis
    proof (cases "cs = []")
      case True
      then show ?thesis using \<open>c = newline\<close> ls by (simp add: ends_with_newline)
    next
      case False
      then have "split_nl [] cs \<noteq> []" by (simp add: split_nl_Nil)
      then have "join [newline] (split_nl acc (c # cs)) = rev acc @ newline # join [newline] (split_nl [] cs)"
        unfolding ls by (simp add: join_Cons)
      then show ?thesis using 2 True False by (simp add: ends_with_newline)
    qed
  next
    case False
    then show ?thesis using 2 by (cases "cs = []") (auto simp: ends_with_newline)
  qed
qed (simp add: ends_with_newline)

lemma finish_str_lines: "carriage \<notin> set s \<Longrightarrow> finish_lines (str_lines s) s = s"
  using join_split_nl [of "[]" s]
  by (cases "s = []") (auto simp: finish_lines_def str_lines_def split_nl_Nil)

text \<open>C35. A patch of an existing file (neither its creation nor its deletion) that applies changes the
  lines it names and no other, however far its hunks drifted: the lines of the file are gaps, each
  followed by the context and removed lines of the next hunk, and the result has the same gaps
  followed by the context and added lines, put together in the same way as the file itself when
  its lines end in LF.  In a file with CRLF line ends all line ends are rewritten to LF.\<close>

theorem apply_file_patch_sound:
  assumes "apply_file_patch original fp = Inr patched" "\<not> fp_is_new_file fp" "\<not> fp_is_deleted fp"
  shows "\<exists>gaps tail. length gaps = length (fp_hunks fp) \<and>
     str_lines original = weave match_lines gaps (fp_hunks fp) @ tail \<and>
     (carriage \<notin> set original \<longrightarrow> original = finish_lines (weave match_lines gaps (fp_hunks fp) @ tail) original) \<and>
     patched = finish_lines (weave kept_lines gaps (fp_hunks fp) @ tail) original"
proof -
  from assms obtain idx out where a: "apply_hunks (str_lines original) (fp_hunks fp) 0 [] = Inr (idx, out)"
    "patched = finish_lines (out @ drop idx (str_lines original)) original"
    by (auto simp: apply_file_patch_def res_simps Let_def)
  from apply_hunks_sound [OF a(1)] a(2) finish_str_lines [of original] show ?thesis by fastforce
qed

text \<open>Patching one line of a text with CRLF line ends rewrites the line end of an untouched line, and a
  patch that deletes a file applies whatever the file holds.\<close>

theorem patch_rewrites_line_ends:
  "apply_file_patch (''a'' @ [carriage, newline] @ ''b'' @ [carriage, newline])
     \<lparr>fp_original_path = ''f'', fp_modified_path = ''f'',
      fp_hunks = [\<lparr>hk_original_start = 1, hk_original_count = 1, hk_modified_start = 1, hk_modified_count = 1,
         hk_lines = [PRemoved ''a'', PAdded ''x'']\<rparr>],
      fp_is_new_file = False, fp_is_deleted = False\<rparr> =
     Inr (''x'' @ [newline] @ ''b'' @ [newline])"
  by code_simp

theorem deletion_matches_nothing:
  "fp_is_deleted fp \<Longrightarrow> apply_file_patch original fp = Inr []"
  by (simp add: apply_file_patch_def)

section \<open>Hunks at their place\<close>

fun located :: "nat \<Rightarrow> string list list \<Rightarrow> hunk list \<Rightarrow> bool" where
  "located n [] [] = True"
| "located n (g # gs) (h # hs) =
     (hk_original_start h = n + length g + 1 \<and> match_lines (hk_lines h) \<noteq> [] \<and>
      located (n + length g + length (match_lines (hk_lines h))) gs hs)"
| "located n _ _ = False"

lemma located_length: "located n gs hs \<Longrightarrow> length gs = length hs"
  by (induction n gs hs rule: located.induct) auto

lemma all_match_prefix:
  "prefix ms (drop (pos + i) orig) \<Longrightarrow> length orig < 2 ^ 64 \<Longrightarrow> all_match orig pos i ms = Inr True"
proof (induction ms arbitrary: i)
  case (Cons m ms)
  then have "pos + i < length orig" "orig ! (pos + i) = m" "prefix ms (drop (pos + (i + 1)) orig)"
    by (simp_all add: nth_drop_prefix)
  with Cons show ?case by (simp add: usize_add_def)
qed simp

lemma matches_at_prefix:
  assumes "prefix ms (drop pos orig)" "pos \<le> length orig" "length orig < 2 ^ 64"
  shows "matches_at orig pos ms = Inr True"
proof -
  from prefix_length_le [OF assms(1)] assms(2) have "pos + length ms \<le> length orig" by simp
  with assms(3) have "usize_add pos (length ms) \<le> length orig" by (simp add: usize_add_def)
  then show ?thesis using all_match_prefix [of ms pos 0 orig] assms by (simp add: matches_at_def)
qed

lemma apply_hunks_exact:
  assumes "located n gaps hs" "drop n orig = weave match_lines gaps hs @ tail" "n \<le> length orig" "length orig < 2 ^ 64"
  shows "\<exists>n'. apply_hunks orig hs n out = Inr (n', out @ weave kept_lines gaps hs) \<and> drop n' orig = tail"
  using assms
proof (induction n gaps hs arbitrary: out rule: located.induct)
  case (2 n g gs h hs)
  let ?ms = "match_lines (hk_lines h)"
  let ?start = "n + length g"
  have d: "drop ?start orig = ?ms @ weave match_lines gs hs @ tail"
  proof -
    have "drop ?start orig = drop (length g) (drop n orig)" by (simp add: add.commute)
    then show ?thesis by (simp add: 2(3))
  qed
  have g: "take (length g) (drop n orig) = g" using 2(3) by simp
  have "length g \<le> length (drop n orig)" using 2(3) by simp
  then have le: "?start \<le> length orig" using 2(4) by simp
  have "length ?ms \<le> length (drop ?start orig)" unfolding d by simp
  then have le': "?start + length ?ms \<le> length orig" using le by simp
  have p: "prefix ?ms (drop ?start orig)" unfolding d by simp
  have f: "find_hunk_position orig h (hk_original_start h - 1) = Inr ?start"
    using 2(2) matches_at_prefix [OF p le 2(5)] by (simp add: find_hunk_position_def Let_def)
  have a: "apply_lines orig (hk_lines h) ?start (out @ g) = Inr (?start + length ?ms, out @ g @ kept_lines (hk_lines h))"
    using p by (simp add: apply_lines_Inr)
  have "drop (?start + length ?ms) orig = weave match_lines gs hs @ tail"
  proof -
    have "drop (?start + length ?ms) orig = drop (length ?ms) (drop ?start orig)" by (simp add: add.commute)
    then show ?thesis by (simp add: d)
  qed
  from "2.IH" [OF _ this le' 2(5), of "out @ g @ kept_lines (hk_lines h)"] 2(2) obtain n' where
    "apply_hunks orig hs (?start + length ?ms) (out @ g @ kept_lines (hk_lines h)) =
       Inr (n', (out @ g @ kept_lines (hk_lines h)) @ weave kept_lines gs hs)" "drop n' orig = tail"
    by (auto simp del: append_assoc)
  then show ?case using f a g le by simp
qed auto

text \<open>Hunks whose line numbers are right and that each replace at least one line apply: if the file is
  gaps and old lines, with every hunk numbered by the line it starts at, the result is the same
  gaps with the new lines, and no position is searched for.\<close>

theorem apply_file_patch_exact:
  assumes "located 0 gaps (fp_hunks fp)" "str_lines original = weave match_lines gaps (fp_hunks fp) @ tail"
    "\<not> fp_is_new_file fp" "\<not> fp_is_deleted fp" "length (str_lines original) < 2 ^ 64"
  shows "apply_file_patch original fp =
    Inr (finish_lines (weave kept_lines gaps (fp_hunks fp) @ tail) original)"
proof -
  from apply_hunks_exact [of 0 gaps "fp_hunks fp" "str_lines original" tail "[]"] assms(1,2,5)
  obtain n' where "apply_hunks (str_lines original) (fp_hunks fp) 0 [] = Inr (n', weave kept_lines gaps (fp_hunks fp))"
    "drop n' (str_lines original) = tail" by auto
  then show ?thesis using assms(3,4) by (simp add: apply_file_patch_def Let_def)
qed

section \<open>Printing and parsing\<close>

fun line_text :: "patch_line \<Rightarrow> string" where
  "line_text (PContext s) = CHR '' '' # s"
| "line_text (PAdded s) = CHR ''+'' # s"
| "line_text (PRemoved s) = CHR ''-'' # s"

fun line_ok :: "patch_line \<Rightarrow> bool" where
  "line_ok (PRemoved s) = (plain_line s \<and> \<not> starts_with s ''-- '')"
| "line_ok (PContext s) = plain_line s"
| "line_ok (PAdded s) = plain_line s"

definition header_text :: "hunk \<Rightarrow> string" where
  "header_text h = ''@@ -'' @ dec (hk_original_start h) @ '','' @ dec (hk_original_count h) @
     '' +'' @ dec (hk_modified_start h) @ '','' @ dec (hk_modified_count h) @ '' @@''"

definition hunk_ok :: "hunk \<Rightarrow> bool" where
  "hunk_ok h \<longleftrightarrow> hk_original_start h < 2 ^ 64 \<and> hk_original_count h < 2 ^ 64 \<and>
     hk_modified_start h < 2 ^ 64 \<and> hk_modified_count h < 2 ^ 64 \<and> list_all line_ok (hk_lines h)"

definition hunk_texts :: "hunk \<Rightarrow> string list" where
  "hunk_texts h = header_text h # map line_text (hk_lines h)"

definition path_ok :: "string \<Rightarrow> bool" where
  "path_ok p \<longleftrightarrow> newline \<notin> set p \<and> p \<noteq> [] \<and> \<not> is_ws (last p)"

definition file_texts :: "file_patch \<Rightarrow> string list" where
  "file_texts fp =
     (''--- '' @ (if fp_is_new_file fp then ''/dev/null'' else ''a/'' @ fp_original_path fp))
     # (''+++ '' @ (if fp_is_deleted fp then ''/dev/null'' else ''b/'' @ fp_modified_path fp))
     # concat (map hunk_texts (fp_hunks fp))"

definition file_ok :: "file_patch \<Rightarrow> bool" where
  "file_ok fp \<longleftrightarrow> list_all hunk_ok (fp_hunks fp) \<and>
     (if fp_is_new_file fp then fp_original_path fp = [] else path_ok (fp_original_path fp)) \<and>
     (if fp_is_deleted fp then fp_modified_path fp = [] else path_ok (fp_modified_path fp)) \<and>
     (fp_hunks fp = [] \<longrightarrow> fp_is_new_file fp \<or> fp_is_deleted fp)"

definition print_patch :: "file_patch list \<Rightarrow> string" where
  "print_patch fps = text_of (concat (map file_texts fps))"

lemma dec_no: "\<not> is_ascii_digit c \<Longrightarrow> c \<notin> set (dec n)"
  using dec_digits [of n] by auto

lemma parse_range_text: "a < 2 ^ 64 \<Longrightarrow> b < 2 ^ 64 \<Longrightarrow> parse_range (dec a @ '','' @ dec b) = Inr (a, b)"
  using find_sub_append [of "CHR '',''" "dec a" "dec b"] dec_no [of "CHR '',''" a]
  by (simp add: parse_range_def split_once_comma_def parse_uint_dec is_ascii_digit_def code_def)

lemma trim_start_matches_mark:
  "hd r \<noteq> c \<Longrightarrow> r \<noteq> [] \<Longrightarrow> trim_start_matches [c] ([c] @ r) = r"
  by (cases r) (simp_all add: trim_start_matches.simps [of "[c]"] starts_with_def)

lemma trim_mark_dec: "\<not> is_ascii_digit c \<Longrightarrow> trim_start_matches [c] ([c] @ dec n @ r) = dec n @ r"
proof (rule trim_start_matches_mark)
  assume "\<not> is_ascii_digit c"
  moreover have "hd (dec n @ r) = hd (dec n)" using dec_not_Nil [of n] by (rule hd_append2)
  ultimately show "hd (dec n @ r) \<noteq> c" using hd_dec_digit [of n] by auto
qed (simp add: dec_not_Nil)

lemma find_at: "CHR ''@'' \<notin> set l \<Longrightarrow> find_sub ''@@'' (l @ ''@@'' @ r) = Some (length l)"
  by (induction l) (auto simp: starts_with_def)

lemma split_ws_two:
  assumes "a \<noteq> []" "b \<noteq> []" "\<forall>c\<in>set a. \<not> is_ws c" "\<forall>c\<in>set b. \<not> is_ws c"
  shows "split_ws (a @ '' '' @ b) = [a, b]"
proof -
  have sp: "is_ws (CHR '' '')" by (simp add: is_ws_def code_def)
  have 2: "takeWhile (\<lambda>x. \<not> is_ws x) (a @ '' '' @ b) = a" using assms sp by (subst takeWhile_append) auto
  have 3: "dropWhile (\<lambda>x. \<not> is_ws x) (tl a @ '' '' @ b) = '' '' @ b"
    using assms sp by (subst dropWhile_append) (auto dest: list.set_sel(2))
  have 4: "split_ws b = [b]"
  proof (cases b)
    case (Cons x xs)
    then have "dropWhile (\<lambda>x. \<not> is_ws x) xs = []" "takeWhile (\<lambda>x. \<not> is_ws x) xs = xs" "\<not> is_ws x"
      using assms(4) by (auto simp: takeWhile_eq_all_conv)
    moreover from this(1) have "split_ws (dropWhile (\<lambda>x. \<not> is_ws x) xs) = []"
      by (simp only:) (simp add: split_ws.simps [of "[]"])
    ultimately show ?thesis by (simp add: Cons split_ws.simps [of "x # xs"])
  qed (use assms in simp)
  have 5: "split_ws ('' '' @ b) = [b]"
    using 4 sp by (subst split_ws.simps) (subst (asm) split_ws.simps, simp)
  obtain x xs where a: "a = x # xs" using assms(1) by (cases a) auto
  then have x: "\<not> is_ws x" using assms(3) by simp
  have "split_ws (a @ '' '' @ b) = takeWhile (\<lambda>x. \<not> is_ws x) (a @ '' '' @ b) #
      split_ws (dropWhile (\<lambda>x. \<not> is_ws x) (tl a @ '' '' @ b))"
    by (subst split_ws.simps) (simp add: a x)
  then show ?thesis by (simp only: 2 3 5)
qed

lemma parse_hunk_header_text:
  assumes "hunk_ok h"
  shows "parse_hunk_header (header_text h) = Inr (hk_original_start h, hk_original_count h, hk_modified_start h, hk_modified_count h)"
proof -
  define a where "a = ''-'' @ dec (hk_original_start h) @ '','' @ dec (hk_original_count h)"
  define b where "b = ''+'' @ dec (hk_modified_start h) @ '','' @ dec (hk_modified_count h)"
  have t: "header_text h = ''@@'' @ '' '' @ a @ '' '' @ b @ '' '' @ ''@@'' @ []"
    by (simp add: header_text_def a_def b_def)
  have ch: "\<not> is_ws c \<and> c \<noteq> CHR ''@''" if "c \<in> set (dec n) \<or> c = CHR '','' \<or> c = CHR ''-'' \<or> c = CHR ''+''" for c n
    using that dec_digits [of n] digit_not_ws [of c] dec_no [of "CHR ''@''" n]
    by (elim disjE) (simp_all add: is_ws_def code_def is_ascii_digit_def, blast+)
  have set: "\<not> is_ws c \<and> c \<noteq> CHR ''@''" if "c \<in> set a \<or> c \<in> set b" for c
    using that ch [of c] unfolding a_def b_def by auto
  have ne: "a \<noteq> []" "b \<noteq> []" by (simp_all add: a_def b_def)
  have f1: "find_sub ''@@'' (header_text h) = Some 0" unfolding t by (simp add: starts_with_def)
  have dr: "drop 2 (header_text h) = ('' '' @ a @ '' '' @ b @ '' '') @ ''@@'' @ []" unfolding t by simp
  have f2: "find_sub ''@@'' (drop 2 (header_text h)) = Some (length ('' '' @ a @ '' '' @ b @ '' ''))"
    unfolding dr using set by (intro find_at) (auto dest: set)
  have tr: "trim ('' '' @ a @ '' '' @ b @ '' '') = a @ '' '' @ b"
  proof -
    have "trim_start ('' '' @ a @ '' '' @ b @ '' '') = a @ '' '' @ b @ '' ''"
      using set [of "hd a"] ne(1) by (cases a) (simp_all add: trim_start_def is_ws_def code_def)
    moreover have "trim_end (a @ '' '' @ b @ '' '') = a @ '' '' @ b"
      using set [of "last b"] ne(2) by (cases b rule: rev_cases) (simp_all add: trim_end_def is_ws_def code_def)
    ultimately show ?thesis by (simp add: trim_def)
  qed
  have sw: "split_ws (a @ '' '' @ b) = [a, b]" using split_ws_two [OF ne] set by blast
  have r: "parse_range (trim_start_matches ''-'' a) = Inr (hk_original_start h, hk_original_count h)"
    "parse_range (trim_start_matches ''+'' b) = Inr (hk_modified_start h, hk_modified_count h)"
  proof -
    have "trim_start_matches ''-'' a = dec (hk_original_start h) @ '','' @ dec (hk_original_count h)"
      unfolding a_def by (rule trim_mark_dec) (simp add: is_ascii_digit_def code_def)
    then show "parse_range (trim_start_matches ''-'' a) = Inr (hk_original_start h, hk_original_count h)"
      using assms parse_range_text by (simp add: hunk_ok_def)
    have "trim_start_matches ''+'' b = dec (hk_modified_start h) @ '','' @ dec (hk_modified_count h)"
      unfolding b_def by (rule trim_mark_dec) (simp add: is_ascii_digit_def code_def)
    then show "parse_range (trim_start_matches ''+'' b) = Inr (hk_modified_start h, hk_modified_count h)"
      using assms parse_range_text by (simp add: hunk_ok_def)
  qed
  have rp: "take (length ('' '' @ a @ '' '' @ b @ '' '')) (drop 2 (header_text h)) = '' '' @ a @ '' '' @ b @ '' ''"
    unfolding dr by simp
  have "split_ws (trim (take (length ('' '' @ a @ '' '' @ b @ '' '')) (drop 2 (header_text h)))) = [a, b]"
    unfolding rp tr sw ..
  then show ?thesis
    unfolding parse_hunk_header_def f1 option.case add_0 f2 by (simp only: list.case r res_bind.simps prod.case)
qed

lemma header_starts: "starts_with (header_text h) ''@@ ''"
  by (simp add: header_text_def starts_with_def)

lemma line_text_inner: "line_ok l \<Longrightarrow> \<not> ends_hunk (line_text l)"
  by (cases l) (auto simp: ends_hunk_def starts_with_def)

lemma hunk_line_text: "hunk_line (line_text l) = Some l"
  by (cases l) (simp_all add: hunk_line_def)

lemma map_filter_line_text: "List.map_filter hunk_line (map line_text ls) = ls"
  by (induction ls) (simp_all add: List.map_filter_simps hunk_line_text)

lemma takeWhile_inner:
  assumes "list_all line_ok ls" "rest = [] \<or> ends_hunk (hd rest)"
  shows "takeWhile (\<lambda>l. \<not> ends_hunk l) (map line_text ls @ rest) = map line_text ls"
    and "dropWhile (\<lambda>l. \<not> ends_hunk l) (map line_text ls @ rest) = rest"
  using assms by (induction ls) (cases rest; auto simp: line_text_inner)+

lemma parse_hunks_texts:
  "list_all hunk_ok hs \<Longrightarrow> rest = [] \<or> starts_with (hd rest) ''--- '' \<Longrightarrow>
     parse_hunks (concat (map hunk_texts hs) @ rest) acc = Inr (acc @ hs, rest)"
proof (induction hs arbitrary: acc)
  case Nil
  show ?case
  proof (cases rest)
    case (Cons l ls)
    with Nil have "starts_with l ''--- ''" by simp
    moreover from this have "\<not> starts_with l ''@@ ''" by (auto simp: starts_with_iff)
    ultimately show ?thesis by (simp add: Cons)
  qed simp
next
  case (Cons h hs)
  let ?more = "concat (map hunk_texts hs) @ rest"
  have ok: "hunk_ok h" "list_all line_ok (hk_lines h)" using Cons.prems(1) by (simp_all add: hunk_ok_def)
  have "?more = [] \<or> ends_hunk (hd ?more)"
    using Cons.prems(2) header_starts by (cases hs) (auto simp: hunk_texts_def ends_hunk_def)
  note tw = takeWhile_inner [OF ok(2) this]
  have eta: "\<lparr>hk_original_start = hk_original_start h, hk_original_count = hk_original_count h,
      hk_modified_start = hk_modified_start h, hk_modified_count = hk_modified_count h, hk_lines = hk_lines h\<rparr> = h"
    by simp
  have "parse_hunks (concat (map hunk_texts (h # hs)) @ rest) acc = parse_hunks ?more (acc @ [h])"
    using header_starts [of h] by (simp add: eta hunk_texts_def parse_hunk_header_text [OF ok(1)] tw map_filter_line_text)
  then show ?case using Cons by simp
qed

lemma raw_path_mark:
  assumes "\<not> starts_with r mark" "mark \<noteq> []" "r \<noteq> []" "\<not> is_ws (hd r)" "\<not> is_ws (last r)"
  shows "raw_path mark (mark @ r) = r"
proof -
  have "trim_start_matches mark (mark @ r) = trim_start_matches mark r"
    using assms(2) by (subst trim_start_matches.simps) (simp add: starts_with_iff)
  also have "\<dots> = r" using assms(1) by (subst trim_start_matches.simps) simp
  finally show ?thesis using assms(4,5) by (simp add: raw_path_def trim_id)
qed

lemma header_paths:
  assumes "file_ok fp"
  shows "raw_path ''--- '' (''--- '' @ (if fp_is_new_file fp then ''/dev/null'' else ''a/'' @ fp_original_path fp)) =
      (if fp_is_new_file fp then ''/dev/null'' else ''a/'' @ fp_original_path fp)"
    and "raw_path ''+++ '' (''+++ '' @ (if fp_is_deleted fp then ''/dev/null'' else ''b/'' @ fp_modified_path fp)) =
      (if fp_is_deleted fp then ''/dev/null'' else ''b/'' @ fp_modified_path fp)"
  using assms by (intro raw_path_mark; auto simp: starts_with_def file_ok_def path_ok_def is_ws_def code_def split: if_splits)+

lemma strip_ab [simp]: "strip_ab_prefix (''a/'' @ p) = p" "strip_ab_prefix (''b/'' @ p) = p"
  by (simp_all add: strip_ab_prefix_def strip_prefix_def starts_with_def)

lemma parse_files_texts:
  "list_all file_ok fps \<Longrightarrow> parse_files (concat (map file_texts fps)) acc = Inr (acc @ fps)"
proof (induction fps arbitrary: acc)
  case (Cons fp fps)
  let ?more = "concat (map file_texts fps)"
  have ok: "file_ok fp" "list_all hunk_ok (fp_hunks fp)" using Cons.prems by (simp_all add: file_ok_def)
  have m: "?more = [] \<or> starts_with (hd ?more) ''--- ''" by (cases fps) (simp_all add: file_texts_def starts_with_def)
  note h = parse_hunks_texts [OF ok(2) m, of "[]", simplified]
  define o' where "o' = (if fp_is_new_file fp then ''/dev/null'' else ''a/'' @ fp_original_path fp)"
  define m' where "m' = (if fp_is_deleted fp then ''/dev/null'' else ''b/'' @ fp_modified_path fp)"
  have p: "raw_path ''--- '' (''--- '' @ o') = o'" "raw_path ''+++ '' (''+++ '' @ m') = m'"
    using header_paths [OF ok(1)] by (simp_all only: o'_def m'_def)
  have s: "starts_with (''--- '' @ o') ''--- ''" "starts_with (''+++ '' @ m') ''+++ ''"
    by (simp_all add: starts_with_iff)
  have n: "(o' = ''/dev/null'') = fp_is_new_file fp" "(m' = ''/dev/null'') = fp_is_deleted fp"
    by (simp_all add: o'_def m'_def)
  have q: "(if fp_is_new_file fp then [] else strip_ab_prefix o') = fp_original_path fp"
    "(if fp_is_deleted fp then [] else strip_ab_prefix m') = fp_modified_path fp"
    using ok(1) by (auto simp: o'_def m'_def file_ok_def simp del: append.simps)
  have f: "\<lparr>fp_original_path = (if fp_is_new_file fp then [] else strip_ab_prefix o'),
      fp_modified_path = (if fp_is_deleted fp then [] else strip_ab_prefix m'),
      fp_hunks = fp_hunks fp, fp_is_new_file = fp_is_new_file fp, fp_is_deleted = fp_is_deleted fp\<rparr> = fp"
    unfolding q by simp
  have t: "concat (map file_texts (fp # fps)) = (''--- '' @ o') # (''+++ '' @ m') # concat (map hunk_texts (fp_hunks fp)) @ ?more"
    by (simp add: file_texts_def o'_def m'_def)
  have e: "\<not> (fp_hunks fp = [] \<and> \<not> fp_is_new_file fp \<and> \<not> fp_is_deleted fp)"
    using ok(1) by (auto simp: file_ok_def)
  have "parse_files (concat (map file_texts (fp # fps))) acc = parse_files ?more (acc @ [fp])"
    unfolding t by (simp only: parse_files.simps s list.sel list.distinct not_False_eq_True simp_thms if_True Let_def p n h
      res_bind.simps prod.case e if_False f)
  then show ?case using Cons by simp
qed simp

lemma dec_no_newline: "newline \<notin> set (dec n)"
  by (rule dec_no) (simp add: is_ascii_digit_def code_def)

lemma plain_last: "newline \<notin> set l \<Longrightarrow> l \<noteq> [] \<Longrightarrow> last l \<noteq> carriage \<Longrightarrow> plain_line l"
  by (simp add: plain_line_def)

lemma header_plain: "plain_line (header_text h)"
  unfolding header_text_def by (rule plain_last) (simp_all add: dec_no_newline)

lemma line_text_plain: "line_ok l \<Longrightarrow> plain_line (line_text l)"
  by (cases l) (auto simp: plain_line_def)

lemma path_plain: "path_ok p \<Longrightarrow> plain_line (m @ p) \<longleftrightarrow> newline \<notin> set m"
  by (auto simp: path_ok_def plain_line_def is_ws_def code_def)

lemma file_texts_plain:
  assumes "file_ok fp"
  shows "list_all plain_line (file_texts fp)"
proof -
  have "list_all plain_line (hunk_texts h)" if "h \<in> set (fp_hunks fp)" for h
    using assms that line_text_plain
    by (auto simp: file_ok_def list_all_iff hunk_texts_def header_plain hunk_ok_def)
  then have "list_all plain_line (concat (map hunk_texts (fp_hunks fp)))" by (auto simp: list_all_iff)
  moreover have "plain_line (''--- '' @ (if fp_is_new_file fp then ''/dev/null'' else ''a/'' @ fp_original_path fp))"
    using assms path_plain [of "fp_original_path fp" "''--- a/''"] by (auto simp: file_ok_def) (simp_all add: plain_line_def)
  moreover have "plain_line (''+++ '' @ (if fp_is_deleted fp then ''/dev/null'' else ''b/'' @ fp_modified_path fp))"
    using assms path_plain [of "fp_modified_path fp" "''+++ b/''"] by (auto simp: file_ok_def) (simp_all add: plain_line_def)
  ultimately show ?thesis by (simp add: file_texts_def)
qed

text \<open>A printed patch is parsed back: any list of file patches with paths that do not end in white
  space, line numbers of 64 bits, and removed lines that do not begin with two dashes and a space.\<close>

theorem parse_print_patch:
  "list_all file_ok fps \<Longrightarrow> parse_patch (print_patch fps) = Inr fps"
proof -
  assume ok: "list_all file_ok fps"
  then have "list_all plain_line (concat (map file_texts fps))"
    using file_texts_plain by (induction fps) auto
  then show ?thesis using parse_files_texts [OF ok, of "[]"]
    by (simp add: parse_patch_def print_patch_def str_lines_text)
qed

section \<open>An example\<close>

definition sample_patch :: file_patch where
  "sample_patch =
     \<lparr>fp_original_path = ''f'', fp_modified_path = ''f'',
      fp_hunks = [\<lparr>hk_original_start = 2, hk_original_count = 1, hk_modified_start = 2, hk_modified_count = 1,
         hk_lines = [PRemoved ''b'', PAdded ''x'']\<rparr>],
      fp_is_new_file = False, fp_is_deleted = False\<rparr>"

definition sample_text :: string where
  "sample_text = text_of [''a'', ''b'', ''c'']"

lemma sample_lines: "str_lines sample_text = [''a'', ''b'', ''c'']"
  unfolding sample_text_def by (rule str_lines_text) (simp add: plain_line_def)

lemma sample_located:
  "located 0 [[''a'']] (fp_hunks sample_patch)"
  "str_lines sample_text = weave match_lines [[''a'']] (fp_hunks sample_patch) @ [''c'']"
  by (simp_all add: sample_patch_def sample_lines)

theorem apply_file_patch_exact_witness:
  "apply_file_patch sample_text sample_patch = Inr (finish_lines [''a'', ''x'', ''c''] sample_text)"
  using apply_file_patch_exact [OF sample_located] by (simp add: sample_patch_def sample_lines)

theorem apply_file_patch_sound_witness:
  "\<exists>gaps tail. [''a'', ''b'', ''c''] = weave match_lines gaps (fp_hunks sample_patch) @ tail \<and>
     finish_lines (weave kept_lines gaps (fp_hunks sample_patch) @ tail) sample_text =
       finish_lines [''a'', ''x'', ''c''] sample_text"
proof -
  have "is_ok (apply_file_patch sample_text sample_patch)" by code_simp
  then obtain p where p: "apply_file_patch sample_text sample_patch = Inr p" by (auto simp: is_ok_iff)
  have "apply_file_patch sample_text sample_patch = Inr (finish_lines [''a'', ''x'', ''c''] sample_text)" by code_simp
  with p have p': "p = finish_lines [''a'', ''x'', ''c''] sample_text" by simp
  have "\<not> fp_is_new_file sample_patch" "\<not> fp_is_deleted sample_patch" by (simp_all add: sample_patch_def)
  from apply_file_patch_sound [OF p this] show ?thesis unfolding p' sample_lines by metis
qed

theorem parse_print_patch_witness: "parse_patch (print_patch [sample_patch]) = Inr [sample_patch]"
  by (rule parse_print_patch)
    (simp add: sample_patch_def file_ok_def path_ok_def hunk_ok_def plain_line_def is_ws_def code_def starts_with_def)

end
