(* ===== verification/Sse.thy ===== *)
theory Sse
  imports Prelude
begin

text \<open>
  The parser of server-sent events, \<open>smasher-llm/src/util/sse.rs\<close>: a stream of byte chunks to a
  stream of events.  The stream is its list of items; a transport error ends it.
\<close>

section \<open>\<open>String::from_utf8_lossy\<close>\<close>

abbreviation cont :: "nat \<Rightarrow> nat \<Rightarrow> char list \<Rightarrow> bool" where
  "cont lo hi s \<equiv> s \<noteq> [] \<and> lo \<le> code (hd s) \<and> code (hd s) \<le> hi"

text \<open>
  The next sequence: whether it is well formed, and how many bytes it has; an ill-formed one is the
  longest beginning of a well-formed one, or one byte.
\<close>

definition utf8_next :: "char \<Rightarrow> string \<Rightarrow> bool \<times> nat" where
  "utf8_next c s =
     (let b = code c in
      if b < 128 then (True, 1)
      else if 194 \<le> b \<and> b \<le> 223 then (if cont 128 191 s then (True, 2) else (False, 1))
      else if 224 \<le> b \<and> b \<le> 239 then
        (if cont (if b = 224 then 160 else 128) (if b = 237 then 159 else 191) s
         then (if cont 128 191 (tl s) then (True, 3) else (False, 2)) else (False, 1))
      else if 240 \<le> b \<and> b \<le> 244 then
        (if cont (if b = 240 then 144 else 128) (if b = 244 then 143 else 191) s
         then (if cont 128 191 (tl s)
               then (if cont 128 191 (tl (tl s)) then (True, 4) else (False, 3)) else (False, 2))
         else (False, 1))
      else (False, 1))"

definition replacement_char :: string where
  "replacement_char = [CHR 0xEF, CHR 0xBF, CHR 0xBD]"

function from_utf8_lossy :: "string \<Rightarrow> string" where
  "from_utf8_lossy [] = []"
| "from_utf8_lossy (c # s) =
     (let (ok, n) = utf8_next c s in
      (if ok then take n (c # s) else replacement_char) @ from_utf8_lossy (drop (n - 1) s))"
  by pat_completeness auto
termination by (relation "measure length") auto

section \<open>The parser\<close>

record sse_event =
  se_event_type :: string
  se_data :: string
  se_id :: "string option"

record sse_state =
  ss_byte_buf :: string
  ss_event_type :: string
  ss_data_lines :: "string list"
  ss_event_id :: "string option"

definition sse_init :: sse_state where
  "sse_init = \<lparr>ss_byte_buf = [], ss_event_type = ''message'', ss_data_lines = [], ss_event_id = None\<rparr>"

text \<open>A field line: \<open>data\<close>, \<open>event\<close> and \<open>id\<close>; comments and other lines change nothing.\<close>

definition sse_field :: "string \<Rightarrow> sse_state \<Rightarrow> sse_state" where
  "sse_field line st =
     (case strip_prefix line ''data:'' of
        Some rest \<Rightarrow> st\<lparr>ss_data_lines := ss_data_lines st @ [strip_one rest '' '']\<rparr>
      | None \<Rightarrow>
     (case strip_prefix line ''event:'' of
        Some rest \<Rightarrow> st\<lparr>ss_event_type := strip_one rest '' ''\<rparr>
      | None \<Rightarrow>
     (case strip_prefix line ''id:'' of
        Some rest \<Rightarrow> st\<lparr>ss_event_id := Some (strip_one rest '' '')\<rparr>
      | None \<Rightarrow> st)))"

definition sse_event_of :: "sse_state \<Rightarrow> sse_event" where
  "sse_event_of st =
     \<lparr>se_event_type = ss_event_type st, se_data = join [newline] (ss_data_lines st), se_id = ss_event_id st\<rparr>"

definition decode_line :: "string \<Rightarrow> string" where
  "decode_line line_bytes = chomp_cr (from_utf8_lossy line_bytes)"

definition sse_line :: "string \<Rightarrow> sse_state \<Rightarrow> sse_event list \<times> sse_state" where
  "sse_line line_bytes st =
     (let line = decode_line line_bytes in
      if line = [] then
        (if ss_data_lines st \<noteq> []
         then ([sse_event_of st], st\<lparr>ss_event_type := ''message'', ss_data_lines := [], ss_event_id := None\<rparr>)
         else ([], st\<lparr>ss_event_type := ''message'', ss_event_id := None\<rparr>))
      else ([], sse_field line st))"

lemma sse_line_buf [simp]: "sse_line l st = (es, st') \<Longrightarrow> ss_byte_buf st' = ss_byte_buf st"
  by (auto simp: sse_line_def sse_field_def Let_def split: if_splits option.splits)

text \<open>The inner loop: all complete lines of the buffer.\<close>

function sse_drain :: "sse_state \<Rightarrow> sse_event list \<times> sse_state" where
  "sse_drain st =
     (case find_sub [newline] (ss_byte_buf st) of
        None \<Rightarrow> ([], st)
      | Some p \<Rightarrow>
          (let (es, st1) = sse_line (take p (ss_byte_buf st)) (st\<lparr>ss_byte_buf := drop (p + 1) (ss_byte_buf st)\<rparr>);
               (es', st2) = sse_drain st1
           in (es @ es', st2)))"
  by pat_completeness auto

termination
proof (relation "measure (\<lambda>st. length (ss_byte_buf st))", goal_cases)
  case (2 st p x es st1)
  then have "ss_byte_buf st1 = drop (p + 1) (ss_byte_buf st)" by (metis sse_line_buf sse_state.select_convs(1) sse_state.update_convs(1) sse_state.surjective)
  moreover have "p + 1 \<le> length (ss_byte_buf st)" using find_sub_Some [OF 2(1)] by simp
  ultimately show ?case by simp
qed simp

declare sse_drain.simps [simp del]

definition sse_chunk :: "string \<Rightarrow> sse_state \<Rightarrow> sse_event list \<times> sse_state" where
  "sse_chunk chunk st = sse_drain (st\<lparr>ss_byte_buf := ss_byte_buf st @ chunk\<rparr>)"

text \<open>The end of the stream: a last line without its newline, a last event without its empty line.\<close>

definition sse_finish :: "sse_state \<Rightarrow> sse_event list" where
  "sse_finish st =
     (let line = decode_line (ss_byte_buf st);
          st1 = (if ss_byte_buf st \<noteq> [] \<and> line \<noteq> [] then sse_field line st else st)
      in if ss_data_lines st1 \<noteq> [] then [sse_event_of st1] else [])"

text \<open>The items of the event stream: the events, then the error that ended it, if one did.\<close>

fun sse_stream :: "('e + string) list \<Rightarrow> sse_state \<Rightarrow> sse_event list \<times> 'e option" where
  "sse_stream [] st = (sse_finish st, None)"
| "sse_stream (Inl e # items) st = ([], Some e)"
| "sse_stream (Inr chunk # items) st =
     (let (es, st1) = sse_chunk chunk st; (es', err) = sse_stream items st1 in (es @ es', err))"

definition parse_sse_stream :: "('e + string) list \<Rightarrow> sse_event list \<times> 'e option" where
  "parse_sse_stream items = sse_stream items sse_init"

section \<open>Chunks\<close>

lemma sse_line_set_buf:
  "sse_line l (st\<lparr>ss_byte_buf := x\<rparr>) = (fst (sse_line l st), (snd (sse_line l st))\<lparr>ss_byte_buf := x\<rparr>)"
proof -
  have "sse_field f (st\<lparr>ss_byte_buf := x\<rparr>) = (sse_field f st)\<lparr>ss_byte_buf := x\<rparr>" for f
  proof (cases "strip_prefix f ''data:''")
    case None
    then show ?thesis by (cases "strip_prefix f ''event:''"; cases "strip_prefix f ''id:''"; simp only: sse_field_def option.case) simp_all
  qed (simp add: sse_field_def)
  then show ?thesis
    by (cases "decode_line l = []"; cases "ss_data_lines st = []") (simp_all add: sse_line_def sse_event_of_def)
qed

lemma starts_with_one: "starts_with (c # cs) [x] \<longleftrightarrow> c = x"
  by (simp add: starts_with_def)

lemma find_newline_append: "find_sub [newline] s = Some p \<Longrightarrow> find_sub [newline] (s @ t) = Some p"
proof (induction s arbitrary: p)
  case (Cons c s)
  show ?case
  proof (cases "c = newline")
    case True
    then show ?thesis using Cons.prems by (simp only: append_Cons find_sub.simps starts_with_one refl if_True)
  next
    case False
    then obtain q where q: "find_sub [newline] s = Some q" "p = Suc q"
      using Cons.prems by (simp only: find_sub.simps starts_with_one if_False map_option_eq_Some) blast
    show ?thesis using Cons.IH [OF q(1)] False q(2) by (simp only: append_Cons find_sub.simps starts_with_one if_False) simp
  qed
qed simp

lemma sse_drain_append:
  "sse_drain (st\<lparr>ss_byte_buf := ss_byte_buf st @ b\<rparr>) =
     (let (e1, st1) = sse_drain st; (e2, st2) = sse_drain (st1\<lparr>ss_byte_buf := ss_byte_buf st1 @ b\<rparr>) in (e1 @ e2, st2))"
proof (induction st rule: sse_drain.induct)
  case (1 st)
  show ?case
  proof (cases "find_sub [newline] (ss_byte_buf st)")
    case None
    then have "sse_drain st = ([], st)" by (simp add: sse_drain.simps)
    then show ?thesis by (simp add: Let_def split: prod.split)
  next
    case (Some p)
    let ?buf = "ss_byte_buf st"
    have p: "p + 1 \<le> length ?buf" using find_sub_Some [OF Some] by simp
    obtain es st1 where l: "sse_line (take p ?buf) (st\<lparr>ss_byte_buf := drop (p + 1) ?buf\<rparr>) = (es, st1)" by force
    have b1: "ss_byte_buf st1 = drop (p + 1) ?buf" using sse_line_buf [OF l] by simp
    have l': "sse_line (take p ?buf) (st\<lparr>ss_byte_buf := drop (p + 1) ?buf @ b\<rparr>) = (es, st1\<lparr>ss_byte_buf := ss_byte_buf st1 @ b\<rparr>)"
      using l sse_line_set_buf [of "take p ?buf" "drop (p + 1) ?buf @ b" "st\<lparr>ss_byte_buf := drop (p + 1) ?buf\<rparr>"]
      by (simp add: b1)
    obtain e1 s1 where d: "sse_drain st1 = (e1, s1)" by force
    have dst: "sse_drain st = (es @ e1, s1)" by (subst sse_drain.simps) (simp add: Some l [simplified] d)
    have "sse_drain (st\<lparr>ss_byte_buf := ?buf @ b\<rparr>) =
        (let (e', s') = sse_drain (st1\<lparr>ss_byte_buf := ss_byte_buf st1 @ b\<rparr>) in (es @ e', s'))"
      using p by (subst sse_drain.simps) (simp add: find_newline_append [OF Some] l' [simplified])
    also have "\<dots> = (let (e2, st2) = sse_drain (s1\<lparr>ss_byte_buf := ss_byte_buf s1 @ b\<rparr>) in ((es @ e1) @ e2, st2))"
      using "1.IH" [OF Some l [symmetric] refl] by (simp add: d split: prod.split)
    finally show ?thesis by (simp add: dst)
  qed
qed

lemma sse_chunk_append:
  "sse_chunk (a @ b) st = (let (e1, st1) = sse_chunk a st; (e2, st2) = sse_chunk b st1 in (e1 @ e2, st2))"
  using sse_drain_append [of "st\<lparr>ss_byte_buf := ss_byte_buf st @ a\<rparr>" b] by (simp add: sse_chunk_def)

text \<open>No newline is left in the buffer of a state the parser stops in.\<close>

definition settled :: "sse_state \<Rightarrow> bool" where
  "settled st \<longleftrightarrow> find_sub [newline] (ss_byte_buf st) = None"

lemma sse_drain_settled: "settled (snd (sse_drain st))"
proof (induction st rule: sse_drain.induct)
  case (1 st)
  show ?case
  proof (cases "find_sub [newline] (ss_byte_buf st)")
    case None
    then show ?thesis by (simp add: sse_drain.simps [of st] settled_def)
  next
    case (Some p)
    obtain es st1 where l: "sse_line (take p (ss_byte_buf st)) (st\<lparr>ss_byte_buf := drop (p + 1) (ss_byte_buf st)\<rparr>) = (es, st1)"
      by force
    from "1.IH" [OF Some l [symmetric] refl] show ?thesis
      by (subst sse_drain.simps) (simp add: Some l [simplified] case_prod_unfold Let_def)
  qed
qed

lemma sse_chunk_empty: "settled st \<Longrightarrow> sse_chunk [] st = ([], st)"
  by (simp add: sse_chunk_def settled_def sse_drain.simps [of st])

lemma sse_stream_chunks:
  assumes "settled st"
  shows "sse_stream (map Inr chunks @ items) st =
     (let (es, st1) = sse_chunk (concat chunks) st; (es', err) = sse_stream items st1 in (es @ es', err))"
  using assms
proof (induction chunks arbitrary: st)
  case Nil
  then show ?case by (simp add: sse_chunk_empty split: prod.split)
next
  case (Cons c cs)
  obtain e1 st1 where 1: "sse_chunk c st = (e1, st1)" by force
  have "settled st1" using sse_drain_settled [of "st\<lparr>ss_byte_buf := ss_byte_buf st @ c\<rparr>"] 1 by (simp add: sse_chunk_def)
  from Cons.IH [OF this] show ?case by (simp add: 1 sse_chunk_append split: prod.split)
qed

lemma settled_init: "settled sse_init"
  by (simp add: settled_def sse_init_def)

text \<open>C36. How the transport cuts the bytes into chunks does not matter, not even inside a line or a
  character: the events are those of the whole text in one chunk; and when the transport fails,
  the complete events before the failure have been delivered and nothing of a partial one.\<close>

theorem sse_chunk_independent:
  "parse_sse_stream (map Inr chunks) = parse_sse_stream [Inr (concat chunks)] \<and>
   parse_sse_stream (map Inr chunks @ Inl e # rest) = (fst (sse_chunk (concat chunks) sse_init), Some e)"
  using sse_stream_chunks [OF settled_init, of chunks "[]"] sse_stream_chunks [OF settled_init, of chunks "Inl e # rest"]
  by (simp add: parse_sse_stream_def split_beta)

section \<open>Writing and reading events\<close>

text \<open>An event on the wire: its type, the lines of its data, its id.\<close>

type_synonym wire_event = "string \<times> string list \<times> string option"

definition wire_lines :: "wire_event \<Rightarrow> string list" where
  "wire_lines w =
     (case w of (typ, lines, ident) \<Rightarrow>
        (case ident of Some i \<Rightarrow> [''id: '' @ i] | None \<Rightarrow> []) @ [''event: '' @ typ] @
        map (\<lambda>l. ''data: '' @ l) lines @ [[]])"

definition clean_text :: "string \<Rightarrow> bool" where
  "clean_text s \<longleftrightarrow> plain_line s \<and> from_utf8_lossy s = s"

definition wire_ok :: "wire_event \<Rightarrow> bool" where
  "wire_ok w = (case w of (typ, lines, ident) \<Rightarrow>
     clean_text typ \<and> lines \<noteq> [] \<and> list_all clean_text lines \<and> (case ident of Some i \<Rightarrow> clean_text i | None \<Rightarrow> True))"

definition wire_event :: "wire_event \<Rightarrow> sse_event" where
  "wire_event w = (case w of (typ, lines, ident) \<Rightarrow>
     \<lparr>se_event_type = typ, se_data = join [newline] lines, se_id = ident\<rparr>)"

lemma from_utf8_lossy_ascii [simp]: "code c < 128 \<Longrightarrow> from_utf8_lossy (c # s) = c # from_utf8_lossy s"
  by (simp add: utf8_next_def)

declare from_utf8_lossy.simps(2) [simp del]

fun sse_lines :: "string list \<Rightarrow> sse_state \<Rightarrow> sse_event list \<times> sse_state" where
  "sse_lines [] st = ([], st)"
| "sse_lines (l # ls) st = (let (e1, st1) = sse_line l st; (e2, st2) = sse_lines ls st1 in (e1 @ e2, st2))"

lemma sse_lines_append:
  "sse_lines (ls @ ls') st = (let (e1, st1) = sse_lines ls st; (e2, st2) = sse_lines ls' st1 in (e1 @ e2, st2))"
  by (induction ls arbitrary: st) (simp_all split: prod.split)

lemma sse_drain_text:
  assumes "list_all (\<lambda>l. newline \<notin> set l) ls"
  shows "sse_drain (st\<lparr>ss_byte_buf := text_of ls\<rparr>) = (fst (sse_lines ls st), (snd (sse_lines ls st))\<lparr>ss_byte_buf := []\<rparr>)"
  using assms
proof (induction ls arbitrary: st)
  case Nil
  show ?case by (simp add: sse_drain.simps)
next
  case (Cons l ls)
  have f: "find_sub [newline] (l @ newline # text_of ls) = Some (length l)"
    using Cons.prems find_sub_append [of newline l "text_of ls"] by simp
  obtain e1 st1 where l: "sse_line l st = (e1, st1)" by force
  have "sse_drain (st\<lparr>ss_byte_buf := text_of (l # ls)\<rparr>) =
      (let (e2, st2) = sse_drain (st1\<lparr>ss_byte_buf := text_of ls\<rparr>) in (e1 @ e2, st2))"
    using l by (subst sse_drain.simps) (simp add: f sse_line_set_buf)
  then show ?case using Cons by (simp add: l split: prod.split)
qed

lemma decode_field:
  assumes "clean_text s" "\<forall>c\<in>set m. code c < 128" "m \<noteq> []" "last m \<noteq> carriage" "newline \<notin> set m"
  shows "decode_line (m @ s) = m @ s"
proof -
  have "from_utf8_lossy (m @ s) = m @ s" using assms(1,2) by (induction m) (simp_all add: clean_text_def)
  moreover have "plain_line (m @ s)" using assms by (cases "s = []") (auto simp: clean_text_def plain_line_def)
  ultimately show ?thesis by (simp add: decode_line_def chomp_plain)
qed

lemma sse_line_fields:
  assumes "clean_text s"
  shows "sse_line (''data: '' @ s) st = ([], st\<lparr>ss_data_lines := ss_data_lines st @ [s]\<rparr>)"
    and "sse_line (''event: '' @ s) st = ([], st\<lparr>ss_event_type := s\<rparr>)"
    and "sse_line (''id: '' @ s) st = ([], st\<lparr>ss_event_id := Some s\<rparr>)"
    and "sse_line [] st = (if ss_data_lines st \<noteq> []
         then ([sse_event_of st], st\<lparr>ss_event_type := ''message'', ss_data_lines := [], ss_event_id := None\<rparr>)
         else ([], st\<lparr>ss_event_type := ''message'', ss_event_id := None\<rparr>))"
proof -
  have d: "decode_line (''data: '' @ s) = ''data: '' @ s" "decode_line (''event: '' @ s) = ''event: '' @ s"
    "decode_line (''id: '' @ s) = ''id: '' @ s"
    by (rule decode_field [OF assms]; simp add: code_def)+
  show "sse_line (''data: '' @ s) st = ([], st\<lparr>ss_data_lines := ss_data_lines st @ [s]\<rparr>)"
    unfolding sse_line_def Let_def d by (simp add: sse_field_def strip_prefix_def starts_with_def strip_one_def)
  show "sse_line (''event: '' @ s) st = ([], st\<lparr>ss_event_type := s\<rparr>)"
    unfolding sse_line_def Let_def d by (simp add: sse_field_def strip_prefix_def starts_with_def strip_one_def)
  show "sse_line (''id: '' @ s) st = ([], st\<lparr>ss_event_id := Some s\<rparr>)"
    unfolding sse_line_def Let_def d by (simp add: sse_field_def strip_prefix_def starts_with_def strip_one_def)
  have "decode_line [] = []" by (simp add: decode_line_def chomp_plain plain_line_def)
  then show "sse_line [] st = (if ss_data_lines st \<noteq> []
         then ([sse_event_of st], st\<lparr>ss_event_type := ''message'', ss_data_lines := [], ss_event_id := None\<rparr>)
         else ([], st\<lparr>ss_event_type := ''message'', ss_event_id := None\<rparr>))"
    unfolding sse_line_def by simp
qed

lemma sse_lines_data:
  "list_all clean_text ls \<Longrightarrow>
     sse_lines (map (\<lambda>l. ''data: '' @ l) ls) st = ([], st\<lparr>ss_data_lines := ss_data_lines st @ ls\<rparr>)"
  by (induction ls arbitrary: st) (simp_all add: sse_line_fields del: append.simps)

text \<open>A state between two events.\<close>

definition idle :: "sse_state \<Rightarrow> bool" where
  "idle st \<longleftrightarrow> ss_event_type st = ''message'' \<and> ss_data_lines st = [] \<and> ss_event_id st = None"

lemma sse_lines_event:
  assumes "wire_ok w" "idle st"
  shows "\<exists>st'. sse_lines (wire_lines w) st = ([wire_event w], st') \<and> idle st'"
proof -
  obtain t ls i where w: "w = (t, ls, i)" by (cases w)
  have ok: "clean_text t" "ls \<noteq> []" "list_all clean_text ls" "i = Some x \<Longrightarrow> clean_text x" for x
    using assms(1) by (auto simp: wire_ok_def w)
  have id_line: "sse_lines (case i of Some i \<Rightarrow> [''id: '' @ i] | None \<Rightarrow> []) st = ([], st\<lparr>ss_event_id := i\<rparr>)"
    using ok(4) assms(2) by (cases i) (simp_all add: sse_line_fields idle_def del: append.simps)
  show ?thesis
    unfolding w wire_lines_def prod.case sse_lines_append id_line Let_def
    using ok(1-3) assms(2)
    by (simp add: sse_lines_append sse_lines_data sse_line_fields [OF ok(1)] wire_event_def sse_event_of_def idle_def
        del: append.simps(2))
qed

text \<open>The text of events, read in one piece.\<close>

lemma sse_wire_chunk:
  assumes "list_all wire_ok ws"
  shows "\<exists>st. sse_chunk (concat (map (\<lambda>w. text_of (wire_lines w)) ws)) sse_init = (map wire_event ws, st) \<and>
    ss_byte_buf st = [] \<and> idle st"
proof -
  have lines: "\<exists>st'. sse_lines (concat (map wire_lines ws)) st = (map wire_event ws, st') \<and> idle st'" if "idle st" for st
    using assms that
  proof (induction ws arbitrary: st)
    case (Cons w ws)
    from sse_lines_event [of w st] Cons.prems obtain st1 where "sse_lines (wire_lines w) st = ([wire_event w], st1)" "idle st1"
      by auto
    with Cons.IH [of st1] Cons.prems show ?case by (auto simp: sse_lines_append)
  qed simp
  have nl: "list_all (\<lambda>l. newline \<notin> set l) (wire_lines w)" if "wire_ok w" for w
    using that by (auto simp: wire_ok_def wire_lines_def clean_text_def plain_line_def list_all_iff split: option.splits)
  then have nls: "list_all (\<lambda>l. newline \<notin> set l) (concat (map wire_lines ws))"
    using assms by (induction ws) auto
  have wire: "concat (map (\<lambda>w. text_of (wire_lines w)) ws) = text_of (concat (map wire_lines ws))"
    by (induction ws) simp_all
  have i: "idle sse_init" by (simp add: idle_def sse_init_def)
  from lines [OF i] obtain st' where l: "sse_lines (concat (map wire_lines ws)) sse_init = (map wire_event ws, st')" "idle st'"
    by blast
  have "sse_chunk (concat (map (\<lambda>w. text_of (wire_lines w)) ws)) sse_init = (map wire_event ws, st'\<lparr>ss_byte_buf := []\<rparr>)"
    using sse_drain_text [OF nls, of sse_init] l(1) by (simp add: sse_chunk_def wire sse_init_def)
  then show ?thesis using l(2) by (auto simp: idle_def)
qed

lemma sse_wire_read:
  assumes "list_all wire_ok ws" "concat chunks = concat (map (\<lambda>w. text_of (wire_lines w)) ws)"
  shows "sse_stream (map Inr chunks) sse_init = (map wire_event ws, None)"
  using sse_wire_chunk [OF assms(1)] sse_stream_chunks [OF settled_init, of chunks "[]"]
  by (auto simp: assms(2) sse_finish_def idle_def Let_def)

text \<open>Events written in the wire format are read back, however the bytes are cut into chunks: the type,
  the data lines joined by newlines, and the id, in order and nothing else.\<close>

theorem sse_round_trip:
  assumes "list_all wire_ok ws" "concat chunks = concat (map (\<lambda>w. text_of (wire_lines w)) ws)"
  shows "parse_sse_stream (map Inr chunks) = (map wire_event ws, None)"
  using sse_wire_read [OF assms] by (simp add: parse_sse_stream_def)

definition sample_events :: "wire_event list" where
  "sample_events = [(''delta'', [''hello'', ''world''], Some ''7''), (''message'', [''bye''], None)]"

lemma sample_events_ok: "list_all wire_ok sample_events"
  by (simp add: sample_events_def wire_ok_def clean_text_def plain_line_def code_def)

theorem sse_round_trip_witness:
  "parse_sse_stream (map Inr (map (\<lambda>c. [c]) (concat (map (\<lambda>w. text_of (wire_lines w)) sample_events)))) =
     ((map wire_event sample_events, None) :: sse_event list \<times> unit option)"
  by (rule sse_round_trip [OF sample_events_ok]) simp

end
