(* ===== verification/Subagent.thy ===== *)
theory Subagent
  imports Session
begin

text \<open>
  Subagents, \<open>smasher-agent/src/subagent.rs\<close>: the configuration of a child session, the manager's limits
  on depth and concurrency, and \<open>spawn\<close>.  The first part runs one \<open>spawn\<close> from start to end; the
  second interleaves the steps of several calls on the shared counter.
\<close>

section \<open>Spawning one subagent\<close>

record subagent_config =
  sg_task :: string
  sg_model :: "string option"
  sg_system_prompt :: "string option"
  sg_max_turns :: "32 word"
  sg_depth :: "32 word"
  sg_max_depth :: "32 word"

definition default_subagent_config :: subagent_config where
  "default_subagent_config =
     \<lparr>sg_task = [], sg_model = None, sg_system_prompt = None, sg_max_turns = 20, sg_depth = 0, sg_max_depth = 3\<rparr>"

definition subagent_with_task :: "string \<Rightarrow> subagent_config \<Rightarrow> subagent_config" where
  "subagent_with_task task config = config\<lparr>sg_task := task\<rparr>"

definition subagent_with_model :: "string \<Rightarrow> subagent_config \<Rightarrow> subagent_config" where
  "subagent_with_model model config = config\<lparr>sg_model := Some model\<rparr>"

definition subagent_with_system_prompt :: "string \<Rightarrow> subagent_config \<Rightarrow> subagent_config" where
  "subagent_with_system_prompt prompt config = config\<lparr>sg_system_prompt := Some prompt\<rparr>"

definition subagent_with_max_turns :: "32 word \<Rightarrow> subagent_config \<Rightarrow> subagent_config" where
  "subagent_with_max_turns n config = config\<lparr>sg_max_turns := n\<rparr>"

record subagent_result =
  sr_session_id :: string
  sr_output :: "string option"
  sr_turns_used :: "32 word"
  sr_usage :: usage
  sr_success :: bool
  sr_error :: "session_error option"

datatype subagent_error = DepthLimitExceeded "32 word" | ConcurrencyLimitReached nat | SubagentSession session_error

record subagent_manager =
  mg_max_concurrent :: nat
  mg_active_count :: "32 word"

definition manager_new :: "nat \<Rightarrow> subagent_manager" where
  "manager_new n = \<lparr>mg_max_concurrent = n, mg_active_count = 0\<rparr>"

definition default_manager :: subagent_manager where
  "default_manager = manager_new 4"

definition can_spawn :: "subagent_manager \<Rightarrow> bool" where
  "can_spawn mg \<longleftrightarrow> unat (mg_active_count mg) < mg_max_concurrent mg"

definition subagent_session_config :: "subagent_config \<Rightarrow> session_config" where
  "subagent_session_config config =
     (let c0 = config_max_turns (sg_max_turns config) default_session_config;
          c1 = (case sg_model config of Some m \<Rightarrow> config_model m c0 | None \<Rightarrow> c0)
      in (case sg_system_prompt config of Some p \<Rightarrow> config_system_prompt p c1 | None \<Rightarrow> c1))"

text \<open>The session's identifier is drawn by the caller of the model; the error is kept as a value, its text is \<open>thiserror\<close>'s.\<close>

definition spawn ::
  "'w session_env \<Rightarrow> string \<Rightarrow> subagent_config \<Rightarrow> subagent_manager \<Rightarrow> 'w \<Rightarrow>
   (subagent_error fault + subagent_result) \<times> subagent_manager \<times> session_event list \<times> 'w" where
  "spawn env session_id config mg w =
     (if sg_depth config \<ge> sg_max_depth config
      then (Inl (Err (DepthLimitExceeded (sg_max_depth config))), mg, [], w)
      else if \<not> can_spawn mg then (Inl (Err (ConcurrencyLimitReached (mg_max_concurrent mg))), mg, [], w)
      else
        (let mg1 = mg\<lparr>mg_active_count := mg_active_count mg + 1\<rparr>;
             (res, s, w1) = process_input env (sg_task config) (session_new (subagent_session_config config) session_id) w;
             mg2 = mg1\<lparr>mg_active_count := mg_active_count mg1 - 1\<rparr>
         in case res of
              Inr out \<Rightarrow>
                (Inr \<lparr>sr_session_id = session_id, sr_output = so_text out, sr_turns_used = so_turns_used out,
                   sr_usage = so_total_usage out, sr_success = True, sr_error = None\<rparr>, mg2, sn_events s, w1)
            | Inl (Err e) \<Rightarrow>
                (Inr \<lparr>sr_session_id = session_id, sr_output = None, sr_turns_used = ss_turn_number (sn_state s),
                   sr_usage = ss_total_usage (sn_state s), sr_success = False, sr_error = Some e\<rparr>, mg2, sn_events s, w1)
            | Inl (Panic p) \<Rightarrow> (Inl (Panic p), mg1, sn_events s, w1)))"

text \<open>C28. A spawned subagent always reports: whatever its session does, the counter is back, and turns and
  usage are those of the responses it received, also when it fails.  Its session is new, so
  it can only fail in the model, at its turn limit or by a cancellation.\<close>

theorem spawn_reports:
  assumes "joins_in_order (sx_join_all env)" "sg_depth config < sg_max_depth config" "can_spawn mg"
  shows "\<exists>r evs w'. spawn env session_id config mg w = (Inr r, mg, evs, w') \<and>
    (let rs = List.map_filter event_response evs in
     sr_turns_used r = of_nat (length rs) \<and> sr_usage r = usage_sum (map rs_usage rs) default_usage) \<and>
    sr_session_id r = session_id \<and> sr_success r = (sr_error r = None) \<and>
    sr_error r \<noteq> Some Inactive"
proof -
  define s where "s = session_new (subagent_session_config config) session_id"
  obtain res s' w' where p: "process_input env (sg_task config) s w = (res, s', w')" by (metis prod_cases3)
  have inv: "session_inv s" using reachable_session_inv [OF assms(1) rs_new] by (simp add: s_def)
  have a: "accounts s'" "\<And>e. res \<noteq> Inl (Panic e)"
    using process_input_inv [OF assms(1) inv p] by (simp_all add: session_inv_def)
  have act: "ss_active (sn_state s)" "ss_turn_number (sn_state s) = 0"
    by (simp_all add: s_def session_new_def state_new_def)
  have in_: "res \<noteq> Inl (Err Inactive)"
    using process_input_outcome [OF assms(1) inv act(1) p] by (auto simp: outcome_ok_def)
  have mg: "mg\<lparr>mg_active_count := mg_active_count mg + 1\<rparr>\<lparr>mg_active_count := mg_active_count mg + 1 - 1\<rparr> = mg" by simp
  show ?thesis
  proof (cases res)
    case (Inr out)
    then have "so_turns_used out = ss_turn_number (sn_state s')" "so_total_usage out = ss_total_usage (sn_state s')"
      using process_input_output [OF act(1)] p act(2) by auto
    then show ?thesis using p a(1) assms Inr mg by (simp add: spawn_def s_def accounts_def)
  next
    case (Inl f)
    then obtain e where f: "f = Err e" using a(2) by (cases f) auto
    show ?thesis using p a(1) assms Inl f mg in_ by (simp add: spawn_def s_def accounts_def)
  qed
qed

theorem spawn_reports_witness:
  "\<exists>r evs. spawn sample_session_env ''s'' default_subagent_config default_manager () = (Inr r, default_manager, evs, ())"
  using spawn_reports [of sample_session_env default_subagent_config default_manager, OF sample_joins]
  by (force simp: default_subagent_config_def default_manager_def manager_new_def can_spawn_def)

section \<open>Concurrent calls\<close>

text \<open>The counter is shared: each call of \<open>spawn\<close> first reads it, then increments it, and decrements it at the end.\<close>

datatype spawn_phase = Not_Started | Admitted | Running | Refused | Reported

record spawn_state =
  sp_manager :: subagent_manager
  sp_calls :: "spawn_phase list"

inductive spawn_step :: "spawn_state \<Rightarrow> spawn_state \<Rightarrow> bool" where
  spawn_admit: "i < length (sp_calls s) \<Longrightarrow> sp_calls s ! i = Not_Started \<Longrightarrow> can_spawn (sp_manager s) \<Longrightarrow>
     spawn_step s (s\<lparr>sp_calls := (sp_calls s)[i := Admitted]\<rparr>)"
| spawn_refuse: "i < length (sp_calls s) \<Longrightarrow> sp_calls s ! i = Not_Started \<Longrightarrow> \<not> can_spawn (sp_manager s) \<Longrightarrow>
     spawn_step s (s\<lparr>sp_calls := (sp_calls s)[i := Refused]\<rparr>)"
| spawn_enter: "i < length (sp_calls s) \<Longrightarrow> sp_calls s ! i = Admitted \<Longrightarrow>
     spawn_step s (s\<lparr>sp_calls := (sp_calls s)[i := Running],
       sp_manager := (sp_manager s)\<lparr>mg_active_count := mg_active_count (sp_manager s) + 1\<rparr>\<rparr>)"
| spawn_leave: "i < length (sp_calls s) \<Longrightarrow> sp_calls s ! i = Running \<Longrightarrow>
     spawn_step s (s\<lparr>sp_calls := (sp_calls s)[i := Reported],
       sp_manager := (sp_manager s)\<lparr>mg_active_count := mg_active_count (sp_manager s) - 1\<rparr>\<rparr>)"

inductive_cases spawn_stepE: "spawn_step s t"

definition spawn_start :: "nat \<Rightarrow> nat \<Rightarrow> spawn_state" where
  "spawn_start limit n = \<lparr>sp_manager = manager_new limit, sp_calls = replicate n Not_Started\<rparr>"

definition running :: "spawn_state \<Rightarrow> nat" where
  "running s = length (filter ((=) Running) (sp_calls s))"

definition admitted :: "spawn_state \<Rightarrow> nat" where
  "admitted s = length (filter ((=) Admitted) (sp_calls s))"

lemma count_update:
  assumes "i < length xs"
  shows "length (filter ((=) c) (xs[i := y])) + (if xs ! i = c then 1 else 0) =
    length (filter ((=) c) xs) + (if y = c then 1 else 0)"
  using assms
proof (induction xs arbitrary: i)
  case (Cons x xs)
  then show ?case
  proof (cases i)
    case (Suc j)
    then show ?thesis using Cons.IH [of j] Cons.prems by (cases "x = c") simp_all
  qed auto
qed simp

lemma spawn_step_counts:
  assumes "spawn_step s t" "mg_active_count (sp_manager s) = of_nat (running s)"
  shows "mg_active_count (sp_manager t) = of_nat (running t)"
    and "length (sp_calls t) = length (sp_calls s)"
    and "mg_max_concurrent (sp_manager t) = mg_max_concurrent (sp_manager s)"
    and "running t + admitted t \<le> running s + admitted s \<or>
      (can_spawn (sp_manager s) \<and> running t = running s \<and> admitted t = admitted s + 1)"
proof -
  have c: "mg_active_count (sp_manager t) = of_nat (running t) \<and> length (sp_calls t) = length (sp_calls s) \<and>
    mg_max_concurrent (sp_manager t) = mg_max_concurrent (sp_manager s) \<and>
    (running t + admitted t \<le> running s + admitted s \<or>
      can_spawn (sp_manager s) \<and> running t = running s \<and> admitted t = admitted s + 1)"
    using assms
  proof (cases rule: spawn_step.cases)
    case (spawn_admit i)
    then show ?thesis using assms(2) count_update [of i "sp_calls s" Running Admitted] count_update [of i "sp_calls s" Admitted Admitted]
      by (simp add: running_def admitted_def)
  next
    case (spawn_refuse i)
    then show ?thesis using assms(2) count_update [of i "sp_calls s" Running Refused] count_update [of i "sp_calls s" Admitted Refused]
      by (simp add: running_def admitted_def)
  next
    case (spawn_enter i)
    then have "running t = running s + 1" "admitted t + 1 = admitted s"
      using count_update [of i "sp_calls s" Running Running] count_update [of i "sp_calls s" Admitted Running]
      by (simp_all add: running_def admitted_def)
    then show ?thesis using spawn_enter(1) assms(2) by simp
  next
    case (spawn_leave i)
    then have "running s = running t + 1" "admitted t = admitted s"
      using count_update [of i "sp_calls s" Running Reported] count_update [of i "sp_calls s" Admitted Reported]
      by (simp_all add: running_def admitted_def)
    moreover have "mg_active_count (sp_manager t) = of_nat (running s) - 1" using spawn_leave(1) assms(2) by simp
    ultimately have "mg_active_count (sp_manager t) = of_nat (running t)" by (metis add_diff_cancel_right' of_nat_1 of_nat_add)
    then show ?thesis using spawn_leave(1) \<open>running s = running t + 1\<close> \<open>admitted t = admitted s\<close> by simp
  qed
  then show "mg_active_count (sp_manager t) = of_nat (running t)" "length (sp_calls t) = length (sp_calls s)"
    "mg_max_concurrent (sp_manager t) = mg_max_concurrent (sp_manager s)"
    "running t + admitted t \<le> running s + admitted s \<or>
      can_spawn (sp_manager s) \<and> running t = running s \<and> admitted t = admitted s + 1" by blast+
qed

lemma spawn_start_counts:
  "running (spawn_start limit n) = 0" "admitted (spawn_start limit n) = 0"
  "mg_active_count (sp_manager (spawn_start limit n)) = 0"
  "mg_max_concurrent (sp_manager (spawn_start limit n)) = limit" "length (sp_calls (spawn_start limit n)) = n"
  by (simp_all add: spawn_start_def running_def admitted_def manager_new_def filter_empty_conv)

lemma spawn_reach_counts:
  assumes "spawn_step\<^sup>*\<^sup>* (spawn_start limit n) s"
  shows "mg_active_count (sp_manager s) = of_nat (running s) \<and> length (sp_calls s) = n \<and>
    mg_max_concurrent (sp_manager s) = limit"
  using assms by (induction rule: rtranclp_induct) (simp_all add: spawn_start_counts spawn_step_counts)

text \<open>The calls of a runtime with one thread: nothing happens between the check and the increment, as there is no \<open>await\<close>.\<close>

definition serial_step :: "spawn_state \<Rightarrow> spawn_state \<Rightarrow> bool" where
  "serial_step s t \<longleftrightarrow> spawn_step s t \<and> admitted t \<le> 1"

lemma serial_reach:
  assumes "serial_step\<^sup>*\<^sup>* (spawn_start limit n) s" "n < 2 ^ 32"
  shows "spawn_step\<^sup>*\<^sup>* (spawn_start limit n) s \<and> running s + admitted s \<le> limit"
  using assms(1)
proof (induction rule: rtranclp_induct)
  case base
  then show ?case by (simp add: spawn_start_counts)
next
  case (step s t)
  from step(2) have st: "spawn_step s t" "admitted t \<le> 1" by (simp_all add: serial_step_def)
  have r: "spawn_step\<^sup>*\<^sup>* (spawn_start limit n) s" using step by blast
  note c = spawn_reach_counts [OF r]
  have "running s \<le> n" using c by (auto simp: running_def intro: order_trans [OF length_filter_le])
  then have "unat (of_nat (running s) :: 32 word) = running s"
    using assms(2) by (simp add: unat_of_nat take_bit_nat_eq_self)
  then have "can_spawn (sp_manager s) \<Longrightarrow> running s < limit" using c by (simp add: can_spawn_def)
  then have "running t + admitted t \<le> limit"
    using spawn_step_counts(4) [OF st(1)] c st(2) step.IH by linarith
  then show ?case using r st(1) by (simp add: rtranclp.rtrancl_into_rtrancl)
qed

text \<open>However many calls there are and however their steps interleave, the counter is the number of running
  subagents, so it is zero again when all calls have returned; and as long as no call comes between
  another's check and increment the limit holds.\<close>

theorem spawn_counter:
  assumes "spawn_step\<^sup>*\<^sup>* (spawn_start limit n) s"
  shows "mg_active_count (sp_manager s) = of_nat (running s) \<and>
    (n < 2 ^ 32 \<longrightarrow> serial_step\<^sup>*\<^sup>* (spawn_start limit n) s \<longrightarrow> unat (mg_active_count (sp_manager s)) \<le> limit)"
proof -
  have "unat (mg_active_count (sp_manager s)) \<le> limit" if "n < 2 ^ 32" "serial_step\<^sup>*\<^sup>* (spawn_start limit n) s"
  proof -
    have "unat (of_nat (running s) :: 32 word) \<le> running s" by (simp add: unat_of_nat take_bit_eq_mod)
    then show ?thesis using serial_reach [OF that(2,1)] spawn_reach_counts [OF assms] by simp
  qed
  then show ?thesis using spawn_reach_counts [OF assms] by simp
qed

lemma race_path:
  "spawn_step\<^sup>*\<^sup>* (spawn_start 1 2) \<lparr>sp_manager = \<lparr>mg_max_concurrent = 1, mg_active_count = 2\<rparr>, sp_calls = [Running, Running]\<rparr>"
proof -
  let ?s = "\<lambda>k a b. \<lparr>sp_manager = \<lparr>mg_max_concurrent = 1, mg_active_count = k\<rparr>, sp_calls = [a, b]\<rparr>"
  have start: "spawn_start 1 2 = ?s 0 Not_Started Not_Started"
    by (simp add: spawn_start_def manager_new_def numeral_2_eq_2)
  have "spawn_step (?s 0 Not_Started Not_Started) (?s 0 Admitted Not_Started)"
    using spawn_admit [of 0 "?s 0 Not_Started Not_Started"] by (simp add: can_spawn_def)
  moreover have "spawn_step (?s 0 Admitted Not_Started) (?s 0 Admitted Admitted)"
    using spawn_admit [of 1 "?s 0 Admitted Not_Started"] by (simp add: can_spawn_def)
  moreover have "spawn_step (?s 0 Admitted Admitted) (?s 1 Running Admitted)"
    using spawn_enter [of 0 "?s 0 Admitted Admitted"] by simp
  moreover have "spawn_step (?s 1 Running Admitted) (?s 2 Running Running)"
    using spawn_enter [of 1 "?s 1 Running Admitted"] by simp
  ultimately show ?thesis unfolding start by (meson converse_rtranclp_into_rtranclp rtranclp.rtrancl_refl)
qed

theorem spawn_counter_witness:
  "mg_active_count \<lparr>mg_max_concurrent = 1, mg_active_count = 2\<rparr> =
     of_nat (running \<lparr>sp_manager = \<lparr>mg_max_concurrent = 1, mg_active_count = 2\<rparr>, sp_calls = [Running, Running]\<rparr>)"
  using spawn_counter [OF race_path] by simp

text \<open>With several threads two calls can both pass the check before either increments: the limit is exceeded.\<close>

theorem spawn_limit_race:
  "\<exists>s. spawn_step\<^sup>*\<^sup>* (spawn_start 1 2) s \<and> unat (mg_active_count (sp_manager s)) > mg_max_concurrent (sp_manager s)"
  using race_path by force

end
