(* ===== verification/Rendering.thy ===== *)
theory Rendering
  imports Graph State
begin

text \<open>
  Rendering of graphs, \<open>smasher-attractor/src/rendering.rs\<close>: the DOT text of a graph with and without
  execution statuses, the renderers, and the cache in front of a renderer.  The external \<open>dot\<close>
  program and SHA-256 are parameters.  The text is read back by the tokenizer and the parser.
\<close>

section \<open>Formats and styles\<close>

datatype render_format = RF_Dot | RF_Svg | RF_Png

fun format_text :: "render_format \<Rightarrow> string" where
  "format_text RF_Dot = ''dot''"
| "format_text RF_Svg = ''svg''"
| "format_text RF_Png = ''png''"

definition format_from_str_loose :: "string \<Rightarrow> render_format option" where
  "format_from_str_loose s =
     (let l = to_lower s in
      if l = ''dot'' then Some RF_Dot else if l = ''svg'' then Some RF_Svg
      else if l = ''png'' then Some RF_Png else None)"

fun content_type :: "render_format \<Rightarrow> string" where
  "content_type RF_Dot = ''text/vnd.graphviz''"
| "content_type RF_Svg = ''image/svg+xml''"
| "content_type RF_Png = ''image/png''"

record render_output =
  ro_format :: render_format
  ro_content :: string

record node_style =
  ns_shape :: string
  ns_fill_color :: string
  ns_font_color :: string
  ns_style :: string

definition filled :: "string \<Rightarrow> string \<Rightarrow> string \<Rightarrow> node_style" where
  "filled shape fill font = \<lparr>ns_shape = shape, ns_fill_color = fill, ns_font_color = font, ns_style = ''filled''\<rparr>"

fun style_for_node_type :: "node_type \<Rightarrow> node_style" where
  "style_for_node_type Start = filled ''circle'' ''#4CAF50'' ''white''"
| "style_for_node_type Exit = filled ''doublecircle'' ''#F44336'' ''white''"
| "style_for_node_type Conditional = filled ''diamond'' ''#FFC107'' ''black''"
| "style_for_node_type Codergen = filled ''box'' ''#2196F3'' ''white''"
| "style_for_node_type Generic = filled ''box'' ''#2196F3'' ''white''"
| "style_for_node_type Manager = filled ''house'' ''#9C27B0'' ''white''"
| "style_for_node_type SubPipeline = filled ''component'' ''#FF9800'' ''white''"
| "style_for_node_type Parallel = filled ''component'' ''#00BCD4'' ''white''"
| "style_for_node_type FanIn = filled ''tripleoctagon'' ''#009688'' ''white''"
| "style_for_node_type Tool = filled ''hexagon'' ''#607D8B'' ''white''"
| "style_for_node_type Interviewer = filled ''ellipse'' ''#795548'' ''white''"

section \<open>The text\<close>

definition replace_char :: "char \<Rightarrow> string \<Rightarrow> string \<Rightarrow> string" where
  "replace_char c r s = concat (map (\<lambda>x. if x = c then r else [x]) s)"

definition dot_escape :: "string \<Rightarrow> string" where
  "dot_escape s =
     [dquote] @ replace_char dquote [backslash, dquote] (replace_char backslash [backslash, backslash] s) @ [dquote]"

definition node_label :: "graph_node \<Rightarrow> string" where
  "node_label n = (case gn_label n of Some l \<Rightarrow> l | None \<Rightarrow> gn_id n)"

definition render_node :: "graph_node \<Rightarrow> string" where
  "render_node n =
     (let style = style_for_node_type (gn_type n) in
      ''    '' @ dot_escape (gn_id n) @ '' [label='' @ dot_escape (node_label n) @
      '' shape='' @ dot_escape (ns_shape style) @ '' style='' @ dot_escape (ns_style style) @
      '' fillcolor='' @ dot_escape (ns_fill_color style) @ '' fontcolor='' @ dot_escape (ns_font_color style) @ ''];'')"

definition edge_attrs :: "graph_edge \<Rightarrow> string list" where
  "edge_attrs e = (case ge_label e of Some l \<Rightarrow> [''label='' @ dot_escape l] | None \<Rightarrow> [])"

definition render_edge :: "graph_edge \<Rightarrow> string" where
  "render_edge e =
     (if edge_attrs e = [] then ''    '' @ dot_escape (ge_from e) @ '' -> '' @ dot_escape (ge_to e) @ '';''
      else ''    '' @ dot_escape (ge_from e) @ '' -> '' @ dot_escape (ge_to e) @ '' ['' @ join '' '' (edge_attrs e) @ ''];'')"

definition name_text :: "string option \<Rightarrow> string" where
  "name_text name = (case name of Some n \<Rightarrow> dot_escape n | None \<Rightarrow> [])"

definition render_lines :: "(graph_node \<Rightarrow> string) \<Rightarrow> graph \<Rightarrow> string list" where
  "render_lines line g =
     [''digraph '' @ name_text (g_name g) @ '' {'', ''    rankdir=LR;'',
      ''    bgcolor='' @ [dquote] @ ''#FAFAFA'' @ [dquote] @ '';'',
      ''    node [fontname='' @ [dquote] @ ''Helvetica'' @ [dquote] @ '' fontsize=12];'',
      ''    edge [fontname='' @ [dquote] @ ''Helvetica'' @ [dquote] @ '' fontsize=10];'', []] @
     map line (g_nodes g) @
     (if g_nodes g \<noteq> [] \<and> g_edges g \<noteq> [] then [[]] else []) @
     map render_edge (g_edges g) @ [''}'']"

definition render_to_dot :: "graph \<Rightarrow> string" where
  "render_to_dot g = join [newline] (render_lines render_node g)"

section \<open>Execution statuses\<close>

datatype execution_status = ES_Pending | ES_Running | ES_Done | ES_Failed

fun execution_status_text :: "execution_status \<Rightarrow> string" where
  "execution_status_text ES_Pending = ''pending''"
| "execution_status_text ES_Running = ''running''"
| "execution_status_text ES_Done = ''done''"
| "execution_status_text ES_Failed = ''failed''"

record status_style =
  st_fill_color :: string
  st_border_color :: string
  st_pen_width :: string
  st_label_suffix :: string

fun style_for_execution_status :: "execution_status \<Rightarrow> status_style" where
  "style_for_execution_status ES_Pending =
     \<lparr>st_fill_color = ''#E0E0E0'', st_border_color = ''#9E9E9E'', st_pen_width = ''1.0'', st_label_suffix = []\<rparr>"
| "style_for_execution_status ES_Running =
     \<lparr>st_fill_color = ''#FFF9C4'', st_border_color = ''#F9A825'', st_pen_width = ''3.0'', st_label_suffix = '' [RUNNING]''\<rparr>"
| "style_for_execution_status ES_Done =
     \<lparr>st_fill_color = ''#C8E6C9'', st_border_color = ''#2E7D32'', st_pen_width = ''2.0'', st_label_suffix = '' [DONE]''\<rparr>"
| "style_for_execution_status ES_Failed =
     \<lparr>st_fill_color = ''#FFCDD2'', st_border_color = ''#C62828'', st_pen_width = ''2.0'', st_label_suffix = '' [FAILED]''\<rparr>"

definition render_node_with_status :: "graph_node \<Rightarrow> execution_status \<Rightarrow> string" where
  "render_node_with_status n status =
     (let base = style_for_node_type (gn_type n); style = style_for_execution_status status;
          label = node_label n @ st_label_suffix style in
      ''    '' @ dot_escape (gn_id n) @ '' [label='' @ dot_escape label @ '' shape='' @ dot_escape (ns_shape base) @
      '' style='' @ [dquote] @ ''filled'' @ [dquote] @ '' fillcolor='' @ dot_escape (st_fill_color style) @
      '' fontcolor='' @ dot_escape (ns_font_color base) @ '' color='' @ dot_escape (st_border_color style) @
      '' penwidth='' @ st_pen_width style @ ''];'')"

definition render_to_dot_with_status :: "execution_status str_map \<Rightarrow> graph \<Rightarrow> string" where
  "render_to_dot_with_status statuses g =
     join [newline] (render_lines
       (\<lambda>n. render_node_with_status n (case statuses (gn_id n) of Some s \<Rightarrow> s | None \<Rightarrow> ES_Pending)) g)"

section \<open>Renderers\<close>

datatype render_error = UnsupportedFormat render_format | GraphvizUnavailable string | GraphvizFailed string

type_synonym 'w renderer = "graph \<Rightarrow> render_format \<Rightarrow> 'w \<Rightarrow> (render_error + render_output) \<times> 'w"

definition dot_render :: "'w renderer" where
  "dot_render g format w =
     (if format = RF_Dot then (Inr \<lparr>ro_format = RF_Dot, ro_content = render_to_dot g\<rparr>, w)
      else (Inl (UnsupportedFormat format), w))"

text \<open>The external program: whether it runs, and what it makes of a text and a format name.\<close>

record 'w graphviz =
  gz_available :: "'w \<Rightarrow> bool \<times> 'w"
  gz_run :: "string \<Rightarrow> string \<Rightarrow> 'w \<Rightarrow> (render_error + string) \<times> 'w"

definition render_text :: "'w graphviz \<Rightarrow> string \<Rightarrow> render_format \<Rightarrow> 'w \<Rightarrow> (render_error + render_output) \<times> 'w" where
  "render_text gz dot_source format w =
     (if format = RF_Dot then (Inr \<lparr>ro_format = RF_Dot, ro_content = dot_source\<rparr>, w)
      else
        (case gz_available gz w of
           (False, w1) \<Rightarrow>
             (Inl (GraphvizUnavailable (''graphviz '' @ [CHR 0x27] @ ''dot'' @ [CHR 0x27] @ '' command not found on PATH'')), w1)
         | (True, w1) \<Rightarrow>
             (case gz_run gz dot_source (format_text format) w1 of
                (Inl e, w2) \<Rightarrow> (Inl e, w2)
              | (Inr content, w2) \<Rightarrow> (Inr \<lparr>ro_format = format, ro_content = content\<rparr>, w2))))"

definition graphviz_render :: "'w graphviz \<Rightarrow> 'w renderer" where
  "graphviz_render gz g = render_text gz (render_to_dot g)"

definition status_render :: "'w graphviz \<Rightarrow> execution_status str_map \<Rightarrow> 'w renderer" where
  "status_render gz statuses g = render_text gz (render_to_dot_with_status statuses g)"

section \<open>The cache\<close>

definition cache_key :: "(string \<Rightarrow> string) \<Rightarrow> string \<Rightarrow> render_format \<Rightarrow> string" where
  "cache_key sha256 dot_source format = sha256 (dot_source @ format_text format)"

type_synonym render_cache = "render_output hmap"

definition cached_render ::
  "(string \<Rightarrow> string) \<Rightarrow> 'w renderer \<Rightarrow> graph \<Rightarrow> render_format \<Rightarrow> render_cache \<times> 'w \<Rightarrow>
   (render_error + render_output) \<times> render_cache \<times> 'w" where
  "cached_render sha256 inner g format s =
     (case s of (cache, w) \<Rightarrow>
       (let key = cache_key sha256 (render_to_dot g) format in
        case hm_get cache key of
          Some out \<Rightarrow> (Inr out, cache, w)
        | None \<Rightarrow>
            (case inner g format w of
               (Inl e, w1) \<Rightarrow> (Inl e, cache, w1)
             | (Inr out, w1) \<Rightarrow> (Inr out, hm_insert key out cache, w1))))"

definition cache_len :: "render_cache \<times> 'w \<Rightarrow> nat" where
  "cache_len s = length (fst s)"

definition clear_cache :: "render_cache \<times> 'w \<Rightarrow> render_cache \<times> 'w" where
  "clear_cache s = ([], snd s)"

definition dot_formats :: "render_format list" where
  "dot_formats = [RF_Dot]"

definition graphviz_formats :: "render_format list" where
  "graphviz_formats = [RF_Dot, RF_Svg, RF_Png]"

section \<open>The query of the render route\<close>

record render_query =
  rgq_format :: "string option"
  rgq_include_status :: "bool option"

definition resolved_format :: "render_query \<Rightarrow> render_format" where
  "resolved_format q =
     (case Option.bind (rgq_format q) format_from_str_loose of Some f \<Rightarrow> f | None \<Rightarrow> RF_Dot)"

definition wants_status :: "render_query \<Rightarrow> bool" where
  "wants_status q = (case rgq_include_status q of Some b \<Rightarrow> b | None \<Rightarrow> False)"

section \<open>Reading the text back\<close>

text \<open>A text is read as a list of tokens, wherever it stands and whatever was read before.\<close>

definition lexes :: "string \<Rightarrow> token list \<Rightarrow> bool" where
  "lexes s ts \<longleftrightarrow> (\<forall>pos toks. tokenize_from pos s toks = Inr (toks @ ts @ [TEof]))"

lemma lexesD: "lexes s ts \<Longrightarrow> tokenize s = Inr (ts @ [TEof])"
  by (simp add: lexes_def tokenize_def)

named_theorems lexing \<open>how texts are read\<close>

lemma lexes_Nil [lexing]: "lexes [] []"
  by (simp add: lexes_def)

lemma lexes_step:
  assumes "\<And>pos. \<exists>p. lex_step pos c (cs @ s) = Inr (t, p, s)" "lexes s ts"
  shows "lexes (c # cs @ s) ((case t of None \<Rightarrow> [] | Some tok \<Rightarrow> [tok]) @ ts)"
  unfolding lexes_def
proof (intro allI)
  fix pos toks
  obtain p where "lex_step pos c (cs @ s) = Inr (t, p, s)" using assms(1) by blast
  then show "tokenize_from pos (c # cs @ s) toks =
      Inr (toks @ ((case t of None \<Rightarrow> [] | Some tok \<Rightarrow> [tok]) @ ts) @ [TEof])"
    using assms(2) by (cases t) (simp_all add: lexes_def)
qed

lemma lexes_one:
  assumes "\<And>pos. lex_step pos c s = Inr (t, pos + 1, s)" "lexes s ts"
  shows "lexes (c # s) ((case t of None \<Rightarrow> [] | Some tok \<Rightarrow> [tok]) @ ts)"
  using lexes_step [of c "[]" s t ts] assms by simp

lemma lexes_simple [lexing]:
  assumes "lexes s ts"
  shows "lexes (CHR '' '' # s) ts" "lexes (newline # s) ts"
    "lexes (CHR ''{'' # s) (TLBrace # ts)" "lexes (CHR ''}'' # s) (TRBrace # ts)"
    "lexes (CHR ''['' # s) (TLBracket # ts)" "lexes (CHR '']'' # s) (TRBracket # ts)"
    "lexes (CHR '';'' # s) (TSemi # ts)" "lexes (CHR ''='' # s) (TEquals # ts)"
proof -
  have ws: "lex_step pos (CHR '' '') s = Inr (None, pos + 1, s)" "lex_step pos newline s = Inr (None, pos + 1, s)" for pos
    by (simp_all add: lex_step_def char_class_defs)
  have p: "lex_step pos (CHR ''{'') s = Inr (Some TLBrace, pos + 1, s)" "lex_step pos (CHR ''}'') s = Inr (Some TRBrace, pos + 1, s)"
    "lex_step pos (CHR ''['') s = Inr (Some TLBracket, pos + 1, s)" "lex_step pos (CHR '']'') s = Inr (Some TRBracket, pos + 1, s)"
    "lex_step pos (CHR '';'') s = Inr (Some TSemi, pos + 1, s)" "lex_step pos (CHR ''='') s = Inr (Some TEquals, pos + 1, s)" for pos
    by (simp_all add: lex_step_def lex_punct_def char_class_defs)
  show "lexes (CHR '' '' # s) ts" "lexes (newline # s) ts"
    "lexes (CHR ''{'' # s) (TLBrace # ts)" "lexes (CHR ''}'' # s) (TRBrace # ts)"
    "lexes (CHR ''['' # s) (TLBracket # ts)" "lexes (CHR '']'' # s) (TRBracket # ts)"
    "lexes (CHR '';'' # s) (TSemi # ts)" "lexes (CHR ''='' # s) (TEquals # ts)"
    using lexes_one [OF ws(1) assms] lexes_one [OF ws(2) assms] lexes_one [OF p(1) assms] lexes_one [OF p(2) assms]
      lexes_one [OF p(3) assms] lexes_one [OF p(4) assms] lexes_one [OF p(5) assms] lexes_one [OF p(6) assms] by simp_all
qed

lemma lexes_arrow [lexing]:
  assumes "lexes s ts"
  shows "lexes (CHR ''-'' # CHR ''>'' # s) (TArrow # ts)"
proof -
  have "lex_step pos (CHR ''-'') ([CHR ''>''] @ s) = Inr (Some TArrow, pos + 2, s)" for pos
    by (simp add: lex_step_def lex_punct_def char_class_defs)
  then show ?thesis using lexes_step [of "CHR ''-''" "[CHR ''>'']" s "Some TArrow" ts] assms by simp
qed

lemma dot_escape_quoted: "dot_escape v = quoted v"
proof -
  have "replace_char dquote [backslash, dquote] (replace_char backslash [backslash, backslash] v) = concat (map escape_char v)"
    by (induction v) (auto simp: replace_char_def escape_char_def)
  then show ?thesis by (simp add: dot_escape_def quoted_def)
qed

lemma lexes_quoted [lexing]:
  assumes "lexes s ts"
  shows "lexes (dot_escape v @ s) (TStringLit v # ts)"
proof -
  have "lex_step pos dquote ((concat (map escape_char v) @ [dquote]) @ s) = Inr (Some (TStringLit v), pos + length (quoted v), s)" for pos
    using lex_step_quoted [of pos v s] by simp
  then show ?thesis using lexes_step [of dquote "concat (map escape_char v) @ [dquote]" s "Some (TStringLit v)" ts] assms
    by (simp add: dot_escape_quoted quoted_def)
qed

lemma lexes_word:
  assumes "w \<noteq> []" "is_ascii_alpha (hd w) \<or> hd w = CHR ''_''" "list_all is_word_char w"
    and "s \<noteq> []" "\<not> is_word_char (hd s)" "lexes s ts"
  shows "lexes (w @ s) (word_token w # ts)"
proof -
  have tw: "takeWhile is_word_char (w @ s) = w"
    using assms(3-5) by (cases s) (auto simp: takeWhile_space)
  have eq: "hd w # tl w @ s = w @ s" using assms(1) by simp
  have "lex_step pos (hd w) (tl w @ s) = Inr (Some (word_token w), pos + length w, s)" for pos
    unfolding lex_step_def Let_def eq tw using word_char_classes [OF assms(2)] assms(2) by auto
  then show ?thesis using lexes_step [of "hd w" "tl w" s "Some (word_token w)" ts] assms(6) eq by simp
qed

text \<open>A key of an attribute, with its equals sign.\<close>

definition attr_key_word :: "string \<Rightarrow> bool" where
  "attr_key_word w \<longleftrightarrow> w \<noteq> [] \<and> list_all is_ascii_alpha w \<and> word_token w = TIdent w"

lemma lexes_key:
  assumes "attr_key_word w" "lexes s ts"
  shows "lexes (w @ CHR ''='' # s) (TIdent w # TEquals # ts)"
proof -
  have "is_ascii_alpha c \<Longrightarrow> is_word_char c" for c by (simp add: is_word_char_def is_ascii_alnum_def)
  moreover have "is_ascii_alpha (hd w)" using assms(1) by (cases w) (auto simp: attr_key_word_def)
  moreover have "\<not> is_word_char CHR ''=''" by (simp add: is_word_char_def char_class_defs)
  ultimately show ?thesis
    using lexes_word [of w "CHR ''='' # s" "TEquals # ts"] assms lexes_simple(8) [OF assms(2)]
    by (auto simp: attr_key_word_def list_all_iff)
qed

lemma key_words:
  "attr_key_word ''label''" "attr_key_word ''shape''" "attr_key_word ''style''" "attr_key_word ''fillcolor''"
  "attr_key_word ''fontcolor''" "attr_key_word ''color''" "attr_key_word ''penwidth''" "attr_key_word ''rankdir''"
  "attr_key_word ''bgcolor''" "attr_key_word ''fontname''" "attr_key_word ''fontsize''"
  by code_simp+

lemmas lexes_keys [lexing] = key_words [THEN lexes_key, simplified]

lemma lexes_number:
  assumes "s \<noteq> []" "\<not> is_ascii_digit (hd s)" "hd s \<noteq> CHR ''.''" "lexes s ts"
  shows "lexes (dec n @ s) (TNumber (f64_of_nat n) # ts)"
proof -
  let ?c = "hd (dec n)"
  have eq: "?c # tl (dec n) @ s = dec n @ s" by simp
  have ds: "list_all is_ascii_digit (dec n)" using dec_digits by (simp add: list_all_iff)
  obtain c cs where s: "s = c # cs" using assms(1) by (cases s) auto
  have tw: "takeWhile is_ascii_digit (dec n @ s) = dec n" using ds assms(2) unfolding s by (simp add: takeWhile_space)
  have "dropWhile is_ascii_digit (dec n @ s) = s" using ds assms(2) unfolding s by (simp add: list_all_iff dropWhile_append2)
  then have nt: "number_text (dec n @ s) = dec n" using tw assms(3) by (simp add: number_text_def Let_def s split: list.split)
  have "is_ascii_digit ?c" by (rule hd_dec_digit)
  then have "\<not> is_ascii_ws ?c" "?c \<noteq> CHR ''/''" "?c \<noteq> dquote" "is_ascii_digit ?c" by (auto simp: char_class_defs)
  then have "lex_step pos ?c (tl (dec n) @ s) = Inr (Some (TNumber (f64_of_nat n)), pos + length (dec n), s)" for pos
    unfolding lex_step_def Let_def eq nt by (simp add: parse_f64_dec)
  then show ?thesis using lexes_step [of ?c "tl (dec n)" s "Some (TNumber (f64_of_nat n))" ts] assms(4) eq by simp
qed

lemma lexes_sizes [lexing]:
  assumes "lexes s ts"
  shows "lexes (CHR ''1'' # CHR ''2'' # CHR '']'' # s) (TNumber (f64_of_nat 12) # TRBracket # ts)"
    "lexes (CHR ''1'' # CHR ''0'' # CHR '']'' # s) (TNumber (f64_of_nat 10) # TRBracket # ts)"
proof -
  have "dec 12 = ''12''" "dec 10 = ''10''" by code_simp+
  then show "lexes (CHR ''1'' # CHR ''2'' # CHR '']'' # s) (TNumber (f64_of_nat 12) # TRBracket # ts)"
    "lexes (CHR ''1'' # CHR ''0'' # CHR '']'' # s) (TNumber (f64_of_nat 10) # TRBracket # ts)"
    using lexes_number [of "CHR '']'' # s" "TRBracket # ts" 12] lexes_number [of "CHR '']'' # s" "TRBracket # ts" 10]
      lexes_simple(6) [OF assms] by (simp_all add: char_class_defs)
qed

lemma lexes_other_words [lexing]:
  assumes "lexes s ts"
  shows "lexes (CHR ''L'' # CHR ''R'' # CHR '';'' # s) (TIdent ''LR'' # TSemi # ts)"
    "lexes (CHR ''n'' # CHR ''o'' # CHR ''d'' # CHR ''e'' # CHR '' '' # s) (TNode # ts)"
    "lexes (CHR ''e'' # CHR ''d'' # CHR ''g'' # CHR ''e'' # CHR '' '' # s) (TEdge # ts)"
    "lexes (CHR ''d'' # CHR ''i'' # CHR ''g'' # CHR ''r'' # CHR ''a'' # CHR ''p'' # CHR ''h'' # CHR '' '' # s) (TDigraph # ts)"
proof -
  have w: "word_token ''LR'' = TIdent ''LR''" "word_token ''node'' = TNode" "word_token ''edge'' = TEdge"
    "word_token ''digraph'' = TDigraph" by code_simp+
  have c: "\<not> is_word_char (CHR '' '')" "\<not> is_word_char (CHR '';'')" by code_simp+
  have l: "list_all is_word_char ''LR''" "list_all is_word_char ''node''" "list_all is_word_char ''edge''"
    "list_all is_word_char ''digraph''" "is_ascii_alpha (CHR ''L'')" "is_ascii_alpha (CHR ''n'')"
    "is_ascii_alpha (CHR ''e'')" "is_ascii_alpha (CHR ''d'')" by code_simp+
  show "lexes (CHR ''L'' # CHR ''R'' # CHR '';'' # s) (TIdent ''LR'' # TSemi # ts)"
    using lexes_word [of "''LR''" "CHR '';'' # s" "TSemi # ts"] lexes_simple(7) [OF assms] w c l by simp
  show "lexes (CHR ''n'' # CHR ''o'' # CHR ''d'' # CHR ''e'' # CHR '' '' # s) (TNode # ts)"
    using lexes_word [of "''node''" "CHR '' '' # s" ts] lexes_simple(1) [OF assms] w c l by simp
  show "lexes (CHR ''e'' # CHR ''d'' # CHR ''g'' # CHR ''e'' # CHR '' '' # s) (TEdge # ts)"
    using lexes_word [of "''edge''" "CHR '' '' # s" ts] lexes_simple(1) [OF assms] w c l by simp
  show "lexes (CHR ''d'' # CHR ''i'' # CHR ''g'' # CHR ''r'' # CHR ''a'' # CHR ''p'' # CHR ''h'' # CHR '' '' # s) (TDigraph # ts)"
    using lexes_word [of "''digraph''" "CHR '' '' # s" ts] lexes_simple(1) [OF assms] w c l by simp
qed

text \<open>The tokens of a rendered graph: a header and the statements, each ended by a semicolon.\<close>

definition attr_tokens :: "(string \<times> token) list \<Rightarrow> token list" where
  "attr_tokens kvs = TLBracket # concat (map (\<lambda>(k, t). [TIdent k, TEquals, t]) kvs) @ [TRBracket]"

definition node_kvs :: "graph_node \<Rightarrow> (string \<times> token) list" where
  "node_kvs n =
     (let style = style_for_node_type (gn_type n) in
      [(''label'', TStringLit (node_label n)), (''shape'', TStringLit (ns_shape style)),
       (''style'', TStringLit (ns_style style)), (''fillcolor'', TStringLit (ns_fill_color style)),
       (''fontcolor'', TStringLit (ns_font_color style))])"

definition node_tokens :: "graph_node \<Rightarrow> token list" where
  "node_tokens n = TStringLit (gn_id n) # attr_tokens (node_kvs n)"

definition edge_tokens :: "graph_edge \<Rightarrow> token list" where
  "edge_tokens e = [TStringLit (ge_from e), TArrow, TStringLit (ge_to e)] @
     (case ge_label e of None \<Rightarrow> [] | Some l \<Rightarrow> attr_tokens [(''label'', TStringLit l)])"

definition layout_tokens :: "token list list" where
  "layout_tokens =
     [[TIdent ''rankdir'', TEquals, TIdent ''LR''], [TIdent ''bgcolor'', TEquals, TStringLit ''#FAFAFA''],
      TNode # attr_tokens [(''fontname'', TStringLit ''Helvetica''), (''fontsize'', TNumber (f64_of_nat 12))],
      TEdge # attr_tokens [(''fontname'', TStringLit ''Helvetica''), (''fontsize'', TNumber (f64_of_nat 10))]]"

definition statements :: "token list list \<Rightarrow> token list" where
  "statements tss = concat (map (\<lambda>ts. ts @ [TSemi]) tss)"

definition graph_statements :: "graph \<Rightarrow> token list list" where
  "graph_statements g = layout_tokens @ map node_tokens (g_nodes g) @ map edge_tokens (g_edges g)"

definition graph_tokens :: "graph \<Rightarrow> token list" where
  "graph_tokens g =
     TDigraph # (case g_name g of None \<Rightarrow> [] | Some n \<Rightarrow> [TStringLit n]) @
     TLBrace # statements (graph_statements g) @ [TRBrace]"

definition reads_line :: "string \<Rightarrow> token list \<Rightarrow> bool" where
  "reads_line l ts \<longleftrightarrow> (\<forall>s us. lexes s us \<longrightarrow> lexes (l @ s) (ts @ us))"

lemma reads_join: "list_all2 reads_line ls tss \<Longrightarrow> lexes (join [newline] ls) (concat tss)"
proof (induction ls tss rule: list_all2_induct)
  case Nil
  show ?case by (simp add: lexes_Nil)
next
  case (Cons l ls ts tss)
  show ?case
  proof (cases "ls = []")
    case True
    then show ?thesis using Cons(1,2) lexes_Nil by (fastforce simp: reads_line_def)
  next
    case False
    then show ?thesis using Cons(1) lexes_simple(2) [OF Cons(3)] by (simp add: join_Cons reads_line_def)
  qed
qed

lemma reads_node: "reads_line (render_node n) (node_tokens n @ [TSemi])"
  unfolding reads_line_def
proof (intro allI impI)
  fix s us assume s: "lexes s us"
  show "lexes (render_node n @ s) ((node_tokens n @ [TSemi]) @ us)"
    by (simp add: render_node_def node_tokens_def attr_tokens_def node_kvs_def Let_def)
      ((rule lexing)+, rule s)
qed

lemma reads_edge: "reads_line (render_edge e) (edge_tokens e @ [TSemi])"
  unfolding reads_line_def
proof (intro allI impI)
  fix s us assume s: "lexes s us"
  show "lexes (render_edge e @ s) ((edge_tokens e @ [TSemi]) @ us)"
  proof (cases "ge_label e")
    case None
    show ?thesis
      by (simp add: render_edge_def edge_attrs_def edge_tokens_def None) ((rule lexing)+, rule s)
  next
    case (Some l)
    show ?thesis
      by (simp add: render_edge_def edge_attrs_def edge_tokens_def attr_tokens_def Some) ((rule lexing)+, rule s)
  qed
qed

lemma plain_quotes:
  "dot_escape ''#FAFAFA'' = dquote # ''#FAFAFA'' @ [dquote]" "dot_escape ''Helvetica'' = dquote # ''Helvetica'' @ [dquote]"
  by (simp_all add: dot_escape_def replace_char_def char_class_defs)

lemmas lexes_plain [lexing] = lexes_quoted [where v = "''#FAFAFA''", unfolded plain_quotes, simplified]
  lexes_quoted [where v = "''Helvetica''", unfolded plain_quotes, simplified]

lemma reads_layout:
  "reads_line (''    rankdir=LR;'') [TIdent ''rankdir'', TEquals, TIdent ''LR'', TSemi]"
  "reads_line (''    bgcolor='' @ [dquote] @ ''#FAFAFA'' @ [dquote] @ '';'')
     [TIdent ''bgcolor'', TEquals, TStringLit ''#FAFAFA'', TSemi]"
  "reads_line (''    node [fontname='' @ [dquote] @ ''Helvetica'' @ [dquote] @ '' fontsize=12];'')
     (TNode # attr_tokens [(''fontname'', TStringLit ''Helvetica''), (''fontsize'', TNumber (f64_of_nat 12))] @ [TSemi])"
  "reads_line (''    edge [fontname='' @ [dquote] @ ''Helvetica'' @ [dquote] @ '' fontsize=10];'')
     (TEdge # attr_tokens [(''fontname'', TStringLit ''Helvetica''), (''fontsize'', TNumber (f64_of_nat 10))] @ [TSemi])"
proof -
  show "reads_line (''    rankdir=LR;'') [TIdent ''rankdir'', TEquals, TIdent ''LR'', TSemi]"
    unfolding reads_line_def by (intro allI impI, simp, ((rule lexing)+, assumption))
  show "reads_line (''    bgcolor='' @ [dquote] @ ''#FAFAFA'' @ [dquote] @ '';'')
     [TIdent ''bgcolor'', TEquals, TStringLit ''#FAFAFA'', TSemi]"
    unfolding reads_line_def by (intro allI impI, simp, ((rule lexing)+, assumption))
  show "reads_line (''    node [fontname='' @ [dquote] @ ''Helvetica'' @ [dquote] @ '' fontsize=12];'')
     (TNode # attr_tokens [(''fontname'', TStringLit ''Helvetica''), (''fontsize'', TNumber (f64_of_nat 12))] @ [TSemi])"
    unfolding reads_line_def attr_tokens_def
    by (intro allI impI, simp, ((rule lexing)+, assumption))
  show "reads_line (''    edge [fontname='' @ [dquote] @ ''Helvetica'' @ [dquote] @ '' fontsize=10];'')
     (TEdge # attr_tokens [(''fontname'', TStringLit ''Helvetica''), (''fontsize'', TNumber (f64_of_nat 10))] @ [TSemi])"
    unfolding reads_line_def attr_tokens_def
    by (intro allI impI, simp, ((rule lexing)+, assumption))
qed

lemma reads_first:
  "reads_line (''digraph '' @ name_text name @ '' {'')
     (TDigraph # (case name of None \<Rightarrow> [] | Some n \<Rightarrow> [TStringLit n]) @ [TLBrace])"
  unfolding reads_line_def
  by (cases name) (auto simp: name_text_def intro!: lexing)

lemma reads_other: "reads_line [] []" "reads_line (''}'') [TRBrace]"
  by (auto simp: reads_line_def intro: lexing)

lemma lexes_render: "lexes (render_to_dot g) (graph_tokens g)"
proof -
  let ?blank = "if g_nodes g \<noteq> [] \<and> g_edges g \<noteq> [] then [[]] else []"
  let ?tss = "[TDigraph # (case g_name g of None \<Rightarrow> [] | Some n \<Rightarrow> [TStringLit n]) @ [TLBrace],
      [TIdent ''rankdir'', TEquals, TIdent ''LR'', TSemi],
      [TIdent ''bgcolor'', TEquals, TStringLit ''#FAFAFA'', TSemi],
      TNode # attr_tokens [(''fontname'', TStringLit ''Helvetica''), (''fontsize'', TNumber (f64_of_nat 12))] @ [TSemi],
      TEdge # attr_tokens [(''fontname'', TStringLit ''Helvetica''), (''fontsize'', TNumber (f64_of_nat 10))] @ [TSemi], []] @
    map (\<lambda>n. node_tokens n @ [TSemi]) (g_nodes g) @ ?blank @ map (\<lambda>e. edge_tokens e @ [TSemi]) (g_edges g) @ [[TRBrace]]"
  have "list_all2 reads_line (map render_node ns) (map (\<lambda>n. node_tokens n @ [TSemi]) ns)"
    "list_all2 reads_line (map render_edge es) (map (\<lambda>e. edge_tokens e @ [TSemi]) es)" for ns es
    by (simp_all add: list_all2_map1 list_all2_map2 list.rel_refl reads_node reads_edge)
  moreover have "list_all2 reads_line ?blank ?blank" by (simp add: reads_other)
  ultimately have "list_all2 reads_line (render_lines render_node g) ?tss"
    unfolding render_lines_def
    by (intro list_all2_appendI)
      (simp_all only: list_all2_Cons list_all2_Nil reads_first reads_layout reads_other)
  moreover have "concat ?tss = graph_tokens g"
    by (simp add: graph_tokens_def graph_statements_def statements_def layout_tokens_def o_def)
  ultimately show ?thesis using reads_join unfolding render_to_dot_def by metis
qed

section \<open>Parsing the text\<close>

fun token_value :: "token \<Rightarrow> dot_value" where
  "token_value (TNumber x) = DNumber x"
| "token_value (TStringLit s) = coerce_string_value s"
| "token_value _ = DString []"

fun value_token :: "token \<Rightarrow> bool" where
  "value_token (TNumber x) = True"
| "value_token (TStringLit s) = True"
| "value_token _ = False"

definition attr_tree :: "string \<times> token \<Rightarrow> dot_attr" where
  "attr_tree kv = \<lparr>attr_key = fst kv, attr_value = token_value (snd kv)\<rparr>"

lemma parse_attr_tokens:
  assumes "list_all (\<lambda>kv. value_token (snd kv)) kvs"
  shows "parse_attr_list (attr_tokens kvs @ ts) = Inr (map attr_tree kvs, ts)"
proof -
  have "parse_attr_loop (concat (map (\<lambda>(k, t). [TIdent k, TEquals, t]) kvs) @ TRBracket # ts) acc =
      Inr (acc @ map attr_tree kvs, ts)" for acc
    using assms
  proof (induction kvs arbitrary: acc)
    case Nil
    then show ?case by (simp add: parse_attr_loop.simps)
  next
    case (Cons kv kvs)
    obtain k t where kv: "kv = (k, t)" by force
    have v: "parse_value (t # us) = Inr (token_value t, us)" for us
      using Cons.prems by (cases t) (auto simp: kv parse_value_def advance_def)
    have p: "peek (concat (map (\<lambda>(k, t). [TIdent k, TEquals, t]) kvs) @ TRBracket # ts) \<notin> {TComma, TSemi}"
      by (cases kvs) auto
    show ?case using Cons.IH [of "acc @ [attr_tree kv]"] Cons.prems p
      by (subst parse_attr_loop.simps) (simp add: kv parse_id_def advance_def expect_def v attr_tree_def)
  qed
  then show ?thesis by (simp add: parse_attr_list_def attr_tokens_def expect_def advance_def)
qed

definition reads_stmt :: "token list \<Rightarrow> dot_statement \<Rightarrow> bool" where
  "reads_stmt us s \<longleftrightarrow> (\<forall>n ts. parse_stmt n (us @ TSemi # ts) [] = Some (Inr (s, TSemi # ts, [])))"

lemma reads_stmt_peek:
  assumes "reads_stmt us s"
  shows "peek (us @ TSemi # ts) \<noteq> TRBrace" "peek (us @ TSemi # ts) \<noteq> TEof"
proof -
  have "parse_stmt 0 ts [] \<noteq> Some (Inr r)" if "peek ts = TRBrace \<or> peek ts = TEof" for ts r
    unfolding parse_stmt.simps using that by (cases ts) (auto simp: parse_id_def advance_def)
  then show "peek (us @ TSemi # ts) \<noteq> TRBrace" "peek (us @ TSemi # ts) \<noteq> TEof"
    using assms unfolding reads_stmt_def by blast+
qed

lemma parse_statements:
  "list_all2 reads_stmt tss ss \<Longrightarrow> length tss < n \<Longrightarrow> peek rest = TRBrace \<Longrightarrow>
     parse_stmt_list n (statements tss @ rest) [] acc = Some (Inr (acc @ ss, rest, []))"
proof (induction tss ss arbitrary: n acc rule: list_all2_induct)
  case Nil
  then show ?case by (cases n) (auto simp: parse_stmt_list.simps statements_def)
next
  case (Cons us tss s ss)
  then obtain m where n: "n = Suc m" "length tss < m" by (cases n) auto
  have eq: "statements (us # tss) @ rest = us @ TSemi # statements tss @ rest" by (simp add: statements_def)
  have "parse_stmt m (us @ TSemi # statements tss @ rest) [] = Some (Inr (s, TSemi # statements tss @ rest, []))"
    using Cons.hyps(1) by (simp add: reads_stmt_def)
  then show ?case
    using reads_stmt_peek [OF Cons.hyps(1), of "statements tss @ rest"] Cons.IH [OF n(2) Cons.prems(2), of "acc @ [s]"]
    unfolding eq n(1) by (simp add: parse_stmt_list.simps)
qed

definition node_tree :: "graph_node \<Rightarrow> dot_statement" where
  "node_tree n = SNode \<lparr>dn_id = gn_id n, dn_attrs = map attr_tree (node_kvs n)\<rparr>"

definition edge_tree :: "graph_edge \<Rightarrow> dot_statement" where
  "edge_tree e = SEdge \<lparr>de_from = ge_from e, de_to = ge_to e,
     de_attrs = (case ge_label e of None \<Rightarrow> [] | Some l \<Rightarrow> [attr_tree (''label'', TStringLit l)])\<rparr>"

definition layout_trees :: "dot_statement list" where
  "layout_trees =
     [SAttr \<lparr>attr_key = ''rankdir'', attr_value = DString ''LR''\<rparr>, SAttr \<lparr>attr_key = ''bgcolor'', attr_value = DString ''#FAFAFA''\<rparr>,
      SDefaultNode [\<lparr>attr_key = ''fontname'', attr_value = DString ''Helvetica''\<rparr>, \<lparr>attr_key = ''fontsize'', attr_value = DNumber (f64_of_nat 12)\<rparr>],
      SDefaultEdge [\<lparr>attr_key = ''fontname'', attr_value = DString ''Helvetica''\<rparr>, \<lparr>attr_key = ''fontsize'', attr_value = DNumber (f64_of_nat 10)\<rparr>]]"

definition rendered_tree :: "graph \<Rightarrow> dot_graph" where
  "rendered_tree g = DotGraph None True (layout_trees @ map node_tree (g_nodes g) @ map edge_tree (g_edges g))"

lemma attr_tokens_peek: "peek (attr_tokens kvs @ ts) = TLBracket"
  by (simp add: attr_tokens_def)

lemma reads_node_stmt: "reads_stmt (node_tokens n) (node_tree n)"
proof -
  have "list_all (\<lambda>kv. value_token (snd kv)) (node_kvs n)" by (simp add: node_kvs_def Let_def)
  from parse_attr_tokens [OF this] show ?thesis
    unfolding reads_stmt_def parse_stmt.simps
    by (simp add: node_tokens_def node_tree_def parse_id_def advance_def attr_tokens_peek)
qed

lemma reads_edge_stmt: "reads_stmt (edge_tokens e) (edge_tree e)"
proof (cases "ge_label e")
  case None
  have "parse_chain_loop (TArrow # TStringLit b # TSemi # ts) [a] = Inr ([a, b], TSemi # ts)" for a b ts
    by (subst parse_chain_loop.simps, simp add: parse_id_def advance_def)
      (subst parse_chain_loop.simps, simp)
  then show ?thesis
    unfolding reads_stmt_def parse_stmt.simps
    by (simp add: edge_tokens_def edge_tree_def None parse_id_def advance_def parse_edge_chain_def extend_pop_def)
next
  case (Some l)
  let ?as = "attr_tokens [(''label'', TStringLit l)]"
  have "parse_chain_loop (TArrow # TStringLit b # ?as @ ts) [a] = Inr ([a, b], ?as @ ts)" for a b ts
    by (subst parse_chain_loop.simps, simp add: parse_id_def advance_def)
      (subst parse_chain_loop.simps, simp add: attr_tokens_peek)
  moreover have "parse_attr_list (?as @ ts) = Inr ([attr_tree (''label'', TStringLit l)], ts)" for ts
    using parse_attr_tokens [of "[(''label'', TStringLit l)]" ts] by simp
  ultimately show ?thesis
    unfolding reads_stmt_def parse_stmt.simps
    by (simp add: edge_tokens_def edge_tree_def Some parse_id_def advance_def parse_edge_chain_def extend_pop_def
        attr_tokens_peek)
qed

lemma reads_layout_stmts: "list_all2 reads_stmt layout_tokens layout_trees"
proof -
  have c: "coerce_string_value ''LR'' = DString ''LR''" "coerce_string_value ''#FAFAFA'' = DString ''#FAFAFA''"
    "coerce_string_value ''Helvetica'' = DString ''Helvetica''" by code_simp+
  show ?thesis
    unfolding layout_tokens_def layout_trees_def
    by (simp add: reads_stmt_def parse_stmt.simps parse_id_def parse_value_def advance_def c parse_attr_tokens attr_tree_def)
qed

lemma reads_graph_stmts:
  "list_all2 reads_stmt (graph_statements g) (layout_trees @ map node_tree (g_nodes g) @ map edge_tree (g_edges g))"
proof -
  have "list_all2 reads_stmt (map node_tokens ns) (map node_tree ns)"
    "list_all2 reads_stmt (map edge_tokens es) (map edge_tree es)" for ns es
    by (simp_all add: list_all2_map1 list_all2_map2 list.rel_refl reads_node_stmt reads_edge_stmt)
  then show ?thesis unfolding graph_statements_def by (intro list_all2_appendI reads_layout_stmts)
qed

section \<open>Properties\<close>

text \<open>The rendered text of a graph without a name is read back by the repository's own parser, whatever
  the ids and labels contain: every node and every edge is one statement, in order, with its label
  and style.  A named graph is refused, because the parser takes no quoted name.\<close>

theorem render_parses:
  "parse (render_to_dot g) =
     Some (case g_name g of
       None \<Rightarrow> Inr (rendered_tree g)
     | Some n \<Rightarrow> Inl (Err (PExpected ''LBrace'' (TStringLit n))))"
proof -
  have t: "tokenize (render_to_dot g) = Inr (graph_tokens g @ [TEof])" by (rule lexesD [OF lexes_render])
  have "length tss \<le> length (statements tss)" for tss by (induction tss) (auto simp: statements_def)
  then have "length (graph_statements g) < Suc (length (graph_tokens g @ [TEof]))"
    by (fastforce simp: graph_tokens_def intro: le_imp_less_Suc le_trans)
  from parse_statements [OF reads_graph_stmts this, of "[TRBrace, TEof]" "[]"] show ?thesis
    by (cases "g_name g")
      (simp_all add: parse_def t parse_graph_def graph_tokens_def parse_name_def expect_def advance_def rendered_tree_def)
qed

text \<open>What resolution makes of a rendered graph.\<close>

lemma rendered_decls:
  "node_decls (dg_statements (rendered_tree g)) = map (\<lambda>n. \<lparr>dn_id = gn_id n, dn_attrs = map attr_tree (node_kvs n)\<rparr>) (g_nodes g)"
  "edge_decls (dg_statements (rendered_tree g)) = map (\<lambda>e. \<lparr>de_from = ge_from e, de_to = ge_to e,
     de_attrs = (case ge_label e of None \<Rightarrow> [] | Some l \<Rightarrow> [attr_tree (''label'', TStringLit l)])\<rparr>) (g_edges g)"
proof -
  have app: "node_decls (xs @ ys) = node_decls xs @ node_decls ys" "edge_decls (xs @ ys) = edge_decls xs @ edge_decls ys" for xs ys
    by (induction xs rule: node_decls.induct) simp_all
  have "node_decls (map edge_tree es) = []" "edge_decls (map edge_tree es) = map (\<lambda>e. \<lparr>de_from = ge_from e, de_to = ge_to e,
      de_attrs = (case ge_label e of None \<Rightarrow> [] | Some l \<Rightarrow> [attr_tree (''label'', TStringLit l)])\<rparr>) es" for es
    by (induction es) (simp_all add: edge_tree_def)
  moreover have "edge_decls (map node_tree ns) = []"
    "node_decls (map node_tree ns) = map (\<lambda>n. \<lparr>dn_id = gn_id n, dn_attrs = map attr_tree (node_kvs n)\<rparr>) ns" for ns
    by (induction ns) (simp_all add: node_tree_def)
  ultimately show "node_decls (dg_statements (rendered_tree g)) = map (\<lambda>n. \<lparr>dn_id = gn_id n, dn_attrs = map attr_tree (node_kvs n)\<rparr>) (g_nodes g)"
    "edge_decls (dg_statements (rendered_tree g)) = map (\<lambda>e. \<lparr>de_from = ge_from e, de_to = ge_to e,
     de_attrs = (case ge_label e of None \<Rightarrow> [] | Some l \<Rightarrow> [attr_tree (''label'', TStringLit l)])\<rparr>) (g_edges g)"
    by (simp_all add: rendered_tree_def layout_trees_def app)
qed

definition label_read :: "string \<Rightarrow> string option" where
  "label_read l = (case coerce_string_value l of DString s \<Rightarrow> Some s | _ \<Rightarrow> None)"

lemma shape_read: "coerce_string_value (ns_shape (style_for_node_type t)) = DString (ns_shape (style_for_node_type t))"
proof -
  have "list_all (\<lambda>s. coerce_string_value s = DString s) [''circle'', ''doublecircle'', ''diamond'', ''box'', ''house'',
      ''component'', ''tripleoctagon'', ''hexagon'', ''ellipse'']" by code_simp
  then show ?thesis by (cases t) (simp_all add: filled_def)
qed

lemma rendered_node:
  "gn_type (make_node dn \<lparr>dn_id = i, dn_attrs = map attr_tree (node_kvs n)\<rparr>) =
     node_type_from_shape (ns_shape (style_for_node_type (gn_type n)))"
  "gn_label (make_node dn \<lparr>dn_id = i, dn_attrs = map attr_tree (node_kvs n)\<rparr>) = label_read (node_label n)"
  by (simp_all add: make_node_def node_kvs_def attr_tree_def convert_attrs_def attr_pair_def Let_def shape_type_def
      resolve_shape_def extract_label_def label_read_def shape_read split: dot_value.split)

lemma rendered_edge:
  "make_edge \<lparr>de_from = a, de_to = b, de_attrs = (case l of None \<Rightarrow> [] | Some l \<Rightarrow> [attr_tree (''label'', TStringLit l)])\<rparr> =
    Inr \<lparr>ge_from = a, ge_to = b, ge_label = Option.bind l label_read, ge_condition = Option.bind l label_read,
      ge_priority = None, ge_loop_restart = False, ge_attrs = Map.empty\<rparr>"
proof -
  have "map_filter_keys (\<lambda>k. \<not> reserved_edge_key k) [''label'' \<mapsto> v] = Map.empty" for v :: attr_val
    by (auto simp: map_filter_keys_def reserved_edge_key_def)
  moreover have "map_filter_keys P Map.empty = Map.empty" for P by (simp add: map_filter_keys_def)
  ultimately show ?thesis
    by (cases l) (auto simp: make_edge_def convert_attrs_def attr_pair_def attr_tree_def Let_def extract_priority_def
        extract_label_def extract_condition_def extract_loop_restart_def label_read_def split: dot_value.split)
qed

text \<open>What resolution makes of the tree of a rendered graph.\<close>

lemma rendered_tree_resolves:
  assumes "wf_graph g"
  shows "\<exists>g'. resolve (rendered_tree g) = Inr g' \<and> wf_graph g' \<and>
    map (\<lambda>n. (gn_id n, gn_type n, gn_label n)) (g_nodes g') =
      map (\<lambda>n. (gn_id n, node_type_from_shape (ns_shape (style_for_node_type (gn_type n))), label_read (node_label n))) (g_nodes g) \<and>
    map (\<lambda>e. (ge_from e, ge_to e, ge_label e, ge_condition e)) (g_edges g') =
      map (\<lambda>e. (ge_from e, ge_to e, Option.bind (ge_label e) label_read, Option.bind (ge_label e) label_read)) (g_edges g)"
proof -
  let ?d = "rendered_tree g"
  obtain dn de ga where d: "collect_defaults (dg_statements ?d) (Map.empty, Map.empty, Map.empty) = (dn, de, ga)"
    by (metis prod_cases3)
  have ids: "map dn_id (node_decls (dg_statements ?d)) = node_ids g" by (simp add: rendered_decls node_ids_def o_def)
  then have "is_ok (resolve_nodes dn (dg_statements ?d) [] Map.empty)"
    using resolve_nodes_total [of "dg_statements ?d" Map.empty dn "[]"] assms by (simp add: wf_graph_def)
  moreover have "is_ok (resolve_edges (dg_statements ?d) [])"
    by (auto simp: resolve_edges_total rendered_decls rendered_edge)
  ultimately obtain g' where g': "resolve ?d = Inr g'"
    by (auto simp: resolve_def d is_ok_iff)
  from resolve_Inr [OF g'] obtain dn where
    n: "g_nodes g' = map (make_node dn) (node_decls (dg_statements ?d)) @
       map (auto_node dn) (fresh_ids (dn_id ` set (node_decls (dg_statements ?d))) (edge_ends (g_edges g')))" and
    e: "list_all2 (\<lambda>de e. make_edge de = Inr e) (edge_decls (dg_statements ?d)) (g_edges g')" by metis
  have edges: "g_edges g' = map (\<lambda>e. \<lparr>ge_from = ge_from e, ge_to = ge_to e, ge_label = Option.bind (ge_label e) label_read,
      ge_condition = Option.bind (ge_label e) label_read, ge_priority = None, ge_loop_restart = False, ge_attrs = Map.empty\<rparr>) (g_edges g)"
    using e unfolding rendered_decls list_all2_map1 rendered_edge
    by (simp add: list_all2_conv_all_nth list_eq_iff_nth_eq)
  have "set (edge_ends (g_edges g')) \<subseteq> set (node_ids g)"
    using assms by (auto simp: edges edge_ends_def wf_graph_def list_all_iff)
  moreover have "dn_id ` set (node_decls (dg_statements ?d)) = set (node_ids g)" using ids by (metis set_map)
  ultimately have "fresh_ids (dn_id ` set (node_decls (dg_statements ?d))) (edge_ends (g_edges g')) = []"
    using fresh_ids_props by (metis Diff_eq_empty_iff set_empty)
  then have "g_nodes g' = map (make_node dn) (node_decls (dg_statements ?d))" using n by simp
  then have "map (\<lambda>n. (gn_id n, gn_type n, gn_label n)) (g_nodes g') =
      map (\<lambda>n. (gn_id n, node_type_from_shape (ns_shape (style_for_node_type (gn_type n))), label_read (node_label n))) (g_nodes g)"
    by (simp add: rendered_decls rendered_node)
  then show ?thesis using g' resolve_wf [OF g'] by (simp add: edges o_def)
qed

text \<open>The kinds whose shape stands for them in both directions.\<close>

definition kept_kind :: "node_type \<Rightarrow> bool" where
  "kept_kind t \<longleftrightarrow> t \<in> {Start, Exit, Conditional, Codergen, Manager}"

lemma kept_kind_shape: "kept_kind t \<Longrightarrow> node_type_from_shape (ns_shape (style_for_node_type t)) = t"
  by (auto simp: kept_kind_def filled_def node_type_from_shape_def)

text \<open>C34. The text of a well-formed graph without a name parses and resolves, to a graph with the same nodes
  and edges in the same order.  A start, exit, conditional, codergen or manager node comes back as that; a node's label is the label it had, or its id when it had none, and an edge's
  label is the label it had, except that a label that looks like a duration or a truth value is
  lost.\<close>

theorem render_resolves:
  assumes "wf_graph g" "g_name g = None"
  shows "\<exists>dg g'. parse (render_to_dot g) = Some (Inr dg) \<and> resolve dg = Inr g' \<and> wf_graph g' \<and>
    map (\<lambda>n. (gn_id n, gn_label n)) (g_nodes g') = map (\<lambda>n. (gn_id n, label_read (node_label n))) (g_nodes g) \<and>
    list_all2 (\<lambda>n n'. kept_kind (gn_type n) \<longrightarrow> gn_type n' = gn_type n) (g_nodes g) (g_nodes g') \<and>
    map (\<lambda>e. (ge_from e, ge_to e, ge_label e)) (g_edges g') =
      map (\<lambda>e. (ge_from e, ge_to e, Option.bind (ge_label e) label_read)) (g_edges g)"
proof -
  from rendered_tree_resolves [OF assms(1)] obtain g' where
    g': "resolve (rendered_tree g) = Inr g'" "wf_graph g'"
    and n: "map (\<lambda>n. (gn_id n, gn_type n, gn_label n)) (g_nodes g') =
      map (\<lambda>n. (gn_id n, node_type_from_shape (ns_shape (style_for_node_type (gn_type n))), label_read (node_label n))) (g_nodes g)"
    and e: "map (\<lambda>e. (ge_from e, ge_to e, ge_label e, ge_condition e)) (g_edges g') =
      map (\<lambda>e. (ge_from e, ge_to e, Option.bind (ge_label e) label_read, Option.bind (ge_label e) label_read)) (g_edges g)"
    by blast
  have "map (\<lambda>n. (gn_id n, gn_label n)) (g_nodes g') = map (\<lambda>n. (gn_id n, label_read (node_label n))) (g_nodes g)"
    using arg_cong [OF n, of "map (\<lambda>(i, t, l). (i, l))"] by (simp add: o_def)
  moreover have "map (\<lambda>e. (ge_from e, ge_to e, ge_label e)) (g_edges g') =
      map (\<lambda>e. (ge_from e, ge_to e, Option.bind (ge_label e) label_read)) (g_edges g)"
    using arg_cong [OF e, of "map (\<lambda>(a, b, l, c). (a, b, l))"] by (simp add: o_def)
  moreover have "list_all2 (\<lambda>n n'. kept_kind (gn_type n) \<longrightarrow> gn_type n' = gn_type n) (g_nodes g) (g_nodes g')"
    using n by (auto simp: list_all2_conv_all_nth list_eq_iff_nth_eq kept_kind_shape)
  moreover have "parse (render_to_dot g) = Some (Inr (rendered_tree g))" by (simp add: render_parses assms(2))
  ultimately show ?thesis using g' by blast
qed

theorem render_resolves_witness:
  "\<exists>dg g'. parse (render_to_dot \<lparr>g_name = None,
      g_nodes = [\<lparr>gn_id = ''a'', gn_type = Conditional, gn_label = Some ''5m'', gn_attrs = Map.empty\<rparr>],
      g_edges = [], g_default_node_attrs = Map.empty, g_default_edge_attrs = Map.empty, g_graph_attrs = Map.empty\<rparr>) = Some (Inr dg) \<and>
    resolve dg = Inr g' \<and> map (\<lambda>n. (gn_id n, gn_label n)) (g_nodes g') = [(''a'', None)]"
proof -
  let ?n = "\<lparr>gn_id = ''a'', gn_type = Conditional, gn_label = Some ''5m'', gn_attrs = Map.empty\<rparr>"
  let ?g = "\<lparr>g_name = None, g_nodes = [?n], g_edges = [], g_default_node_attrs = Map.empty,
      g_default_edge_attrs = Map.empty, g_graph_attrs = Map.empty\<rparr>"
  have "wf_graph ?g" by (simp add: wf_graph_def node_ids_def)
  from render_resolves [OF this] obtain dg g' where "parse (render_to_dot ?g) = Some (Inr dg)" "resolve dg = Inr g'"
    "map (\<lambda>n. (gn_id n, gn_label n)) (g_nodes g') = [(''a'', label_read (node_label ?n))]" by auto
  moreover have "label_read ''5m'' = None" by code_simp
  moreover have "node_label ?n = ''5m''" by (simp add: node_label_def)
  ultimately show ?thesis by auto
qed

text \<open>The shapes of the other kinds are read as another kind.\<close>

lemma other_kinds_change:
  "\<not> kept_kind t \<Longrightarrow> t \<notin> {FanIn, Parallel, Interviewer} \<Longrightarrow> node_type_from_shape (ns_shape (style_for_node_type t)) \<noteq> t"
  by (cases t) (auto simp: kept_kind_def filled_def node_type_from_shape_def)

section \<open>What the text determines\<close>

lemma split_at_semi:
  assumes "xs @ TSemi # us = ys @ TSemi # vs" "TSemi \<notin> set xs" "TSemi \<notin> set ys"
  shows "xs = ys \<and> us = vs"
proof -
  have "takeWhile (\<lambda>t. t \<noteq> TSemi) (zs @ TSemi # ws) = zs" if "TSemi \<notin> set zs" for zs ws
    using that by (induction zs) auto
  then have "xs = ys" using assms by metis
  then show ?thesis using assms(1) by simp
qed

lemma statements_inj:
  "statements xss = statements yss \<Longrightarrow> list_all (\<lambda>xs. TSemi \<notin> set xs) xss \<Longrightarrow> list_all (\<lambda>ys. TSemi \<notin> set ys) yss \<Longrightarrow> xss = yss"
proof (induction xss arbitrary: yss)
  case Nil
  then show ?case by (cases yss) (auto simp: statements_def)
next
  case (Cons xs xss)
  then obtain ys yss' where yss: "yss = ys # yss'" by (cases yss) (auto simp: statements_def)
  have "xs @ TSemi # statements xss = ys @ TSemi # statements yss'" using Cons.prems(1) by (simp add: statements_def yss)
  then have "xs = ys \<and> statements xss = statements yss'" using Cons.prems by (intro split_at_semi) (simp_all add: yss)
  then show ?case using Cons by (simp add: yss)
qed

lemma no_semi: "list_all (\<lambda>xs. TSemi \<notin> set xs) (graph_statements g)"
proof -
  have "TSemi \<notin> set (attr_tokens kvs)" if "list_all (\<lambda>kv. value_token (snd kv)) kvs" for kvs
    using that by (induction kvs) (auto simp: attr_tokens_def)
  then have "TSemi \<notin> set (node_tokens n)" "TSemi \<notin> set (edge_tokens e)" for n e
    by (simp_all add: node_tokens_def edge_tokens_def node_kvs_def Let_def split: option.split)
  then show ?thesis by (auto simp: graph_statements_def layout_tokens_def attr_tokens_def list_all_iff)
qed

lemma graph_tokens_inj:
  assumes "graph_tokens g = graph_tokens g'"
  shows "g_name g = g_name g'" "map node_tokens (g_nodes g) = map node_tokens (g_nodes g')"
    "map edge_tokens (g_edges g) = map edge_tokens (g_edges g')"
proof -
  show n: "g_name g = g_name g'" using assms by (auto simp: graph_tokens_def split: option.splits)
  then have "statements (graph_statements g) = statements (graph_statements g')"
    using assms by (simp add: graph_tokens_def)
  then have "graph_statements g = graph_statements g'" using statements_inj no_semi by blast
  then have eq: "map node_tokens (g_nodes g) @ map edge_tokens (g_edges g) = map node_tokens (g_nodes g') @ map edge_tokens (g_edges g')"
    by (simp add: graph_statements_def)
  let ?P = "\<lambda>ts. peek (tl ts) = TLBracket"
  have "takeWhile ?P (map node_tokens ns @ map edge_tokens es) = map node_tokens ns" for ns es
  proof -
    have "takeWhile ?P (map edge_tokens es) = []" by (cases es) (simp_all add: edge_tokens_def)
    then show ?thesis by (induction ns) (simp_all add: node_tokens_def attr_tokens_def)
  qed
  then show m: "map node_tokens (g_nodes g) = map node_tokens (g_nodes g')" using eq by metis
  then show "map edge_tokens (g_edges g) = map edge_tokens (g_edges g')" using eq by simp
qed

lemma edge_tokens_render: "edge_tokens e = edge_tokens e' \<Longrightarrow> render_edge e = render_edge e'"
  by (auto simp: edge_tokens_def render_edge_def edge_attrs_def attr_tokens_def split: option.splits)

lemma node_tokens_render:
  "node_tokens n = node_tokens n' \<Longrightarrow> gn_id n = gn_id n' \<and> render_node_with_status n st = render_node_with_status n' st"
  by (simp add: node_tokens_def attr_tokens_def node_kvs_def Let_def render_node_with_status_def)

lemma map_eq_transfer:
  assumes "map f xs = map f ys" "\<And>x y. f x = f y \<Longrightarrow> h x = h y"
  shows "map h xs = map h ys"
  using assms(1)
proof (induction xs arbitrary: ys)
  case (Cons x xs)
  then obtain y ys' where ys: "ys = y # ys'" "f x = f y" "map f xs = map f ys'" by (cases ys) auto
  show ?case using Cons.IH [OF ys(3)] assms(2) [OF ys(2)] by (simp add: ys(1))
qed simp

text \<open>The text without statuses determines the text with them: ids, labels, shapes and colours can be
  read off it, whatever characters the labels contain.\<close>

lemma status_text_determined:
  assumes "render_to_dot g = render_to_dot g'"
  shows "render_to_dot_with_status statuses g = render_to_dot_with_status statuses g'"
proof -
  have "graph_tokens g @ [TEof] = graph_tokens g' @ [TEof]"
    using lexesD [OF lexes_render [of g]] lexesD [OF lexes_render [of g']] assms by simp
  then have t: "graph_tokens g = graph_tokens g'" by simp
  note inj = graph_tokens_inj [OF t]
  let ?line = "\<lambda>n. render_node_with_status n (case statuses (gn_id n) of Some s \<Rightarrow> s | None \<Rightarrow> ES_Pending)"
  have "map ?line (g_nodes g) = map ?line (g_nodes g')"
    using inj(2) by (rule map_eq_transfer) (metis node_tokens_render)
  moreover have "map render_edge (g_edges g) = map render_edge (g_edges g')"
    using inj(3) by (rule map_eq_transfer) (rule edge_tokens_render)
  moreover have "g_nodes g = [] \<longleftrightarrow> g_nodes g' = []" "g_edges g = [] \<longleftrightarrow> g_edges g' = []"
    using inj(2,3) by (metis map_is_Nil_conv)+
  ultimately show ?thesis using inj(1) unfolding render_to_dot_with_status_def render_lines_def by simp
qed

section \<open>The cache is invisible\<close>

text \<open>A renderer whose successful results depend on the plain text and the format only.\<close>

locale text_renderer =
  fixes render :: "'w renderer"
  assumes by_text: "render_to_dot g = render_to_dot g' \<Longrightarrow> render g f w = (Inr out, w1) \<Longrightarrow>
    render g' f w' = (Inr out', w1') \<Longrightarrow> out = out'"

definition cache_holds :: "(string \<Rightarrow> string) \<Rightarrow> 'w renderer \<Rightarrow> render_cache \<Rightarrow> bool" where
  "cache_holds sha256 render cache \<longleftrightarrow>
     (\<forall>key out. hm_get cache key = Some out \<longrightarrow>
        (\<exists>g f w w1. key = cache_key sha256 (render_to_dot g) f \<and> render g f w = (Inr out, w1)))"

lemma format_text_inj: "d @ format_text f = d' @ format_text f' \<Longrightarrow> d = d' \<and> f = f'"
  by (cases f; cases f') auto

lemma cache_key_inj:
  assumes "inj sha256" "cache_key sha256 d f = cache_key sha256 d' f'"
  shows "d = d' \<and> f = f'"
  using assms format_text_inj unfolding cache_key_def by (metis injD)

text \<open>A sequence of calls, with their results.\<close>

fun run_renders ::
  "(string \<Rightarrow> string) \<Rightarrow> 'w renderer \<Rightarrow> (graph \<times> render_format) list \<Rightarrow> render_cache \<times> 'w \<Rightarrow>
   (render_error + render_output) list \<times> render_cache \<times> 'w" where
  "run_renders sha256 render [] s = ([], s)"
| "run_renders sha256 render ((g, f) # calls) s =
     (let (r, s1) = cached_render sha256 render g f s; (rs, s2) = run_renders sha256 render calls s1 in (r # rs, s2))"

text \<open>What a result has to do with the renderer itself.\<close>

definition agrees :: "'w renderer \<Rightarrow> graph \<times> render_format \<Rightarrow> render_error + render_output \<Rightarrow> bool" where
  "agrees render call r \<longleftrightarrow>
     (\<exists>g w w1. render_to_dot g = render_to_dot (fst call) \<and> render g (snd call) w = (r, w1)) \<and>
     (\<forall>out w out' w1. r = Inr out \<and> render (fst call) (snd call) w = (Inr out', w1) \<longrightarrow> out' = out)"

context text_renderer
begin

lemma cached_agrees:
  assumes "inj sha256" "cache_holds sha256 render cache" "cached_render sha256 render g f (cache, w) = (r, cache', w')"
  shows "cache_holds sha256 render cache' \<and> agrees render (g, f) r"
proof (cases "hm_get cache (cache_key sha256 (render_to_dot g) f)")
  case None
  obtain r1 w1 where r1: "render g f w = (r1, w1)" by force
  show ?thesis
  proof (cases r1)
    case (Inl e)
    then show ?thesis using assms(2,3) None r1 by (auto simp: cached_render_def Let_def agrees_def)
  next
    case (Inr out)
    then have c: "r = Inr out" "cache' = hm_insert (cache_key sha256 (render_to_dot g) f) out cache"
      using assms(3) None r1 by (auto simp: cached_render_def Let_def)
    have "cache_holds sha256 render cache'"
      using assms(2) r1 Inr unfolding cache_holds_def c(2) by (auto split: if_splits)
    moreover have "agrees render (g, f) r"
      using r1 Inr by_text [OF refl] unfolding agrees_def c(1) by (auto intro: exI [of _ g])
    ultimately show ?thesis ..
  qed
next
  case (Some out)
  then have c: "r = Inr out" "cache' = cache" using assms(3) by (auto simp: cached_render_def Let_def)
  from assms(2) Some obtain h f' v v1 where h: "cache_key sha256 (render_to_dot g) f = cache_key sha256 (render_to_dot h) f'"
    "render h f' v = (Inr out, v1)" unfolding cache_holds_def by blast
  have e: "render_to_dot g = render_to_dot h" "f = f'" using cache_key_inj [OF assms(1) h(1)] by simp_all
  have "agrees render (g, f) r"
    using h(2) e by_text [OF e(1)] unfolding agrees_def c(1) by (auto intro!: exI [of _ h])
  then show ?thesis using assms(2) c(2) by simp
qed

lemma run_renders_agree:
  assumes "inj sha256"
  shows "cache_holds sha256 render cache \<Longrightarrow> run_renders sha256 render calls (cache, w) = (rs, cache', w') \<Longrightarrow>
    cache_holds sha256 render cache' \<and> list_all2 (agrees render) calls rs"
proof (induction calls arbitrary: cache w rs cache' w')
  case (Cons call calls)
  obtain g f where call: "call = (g, f)" by force
  obtain r cache1 w1 where one: "cached_render sha256 render g f (cache, w) = (r, cache1, w1)" by (metis prod_cases3)
  obtain rs1 cache2 w2 where rest: "run_renders sha256 render calls (cache1, w1) = (rs1, cache2, w2)" by (metis prod_cases3)
  have "rs = r # rs1" "cache' = cache2" using Cons.prems(2) one rest by (auto simp: call)
  then show ?case using cached_agrees [OF assms Cons.prems(1) one] Cons.IH [OF _ rest] by (simp add: call)
qed simp

end

interpretation dot: text_renderer dot_render
  by unfold_locales (auto simp: dot_render_def split: if_splits)

text \<open>The external program makes one output of a text and a format whenever it succeeds.\<close>

definition gz_deterministic :: "'w graphviz \<Rightarrow> bool" where
  "gz_deterministic gz \<longleftrightarrow>
     (\<forall>d f w c w1 w' c' w1'. gz_run gz d f w = (Inr c, w1) \<and> gz_run gz d f w' = (Inr c', w1') \<longrightarrow> c = c')"

lemma render_text_determined:
  assumes "gz_deterministic gz" "render_text gz d f w = (Inr out, w1)" "render_text gz d f w' = (Inr out', w1')"
  shows "out = out'"
  using assms by (auto simp: render_text_def split: if_splits prod.splits bool.splits sum.splits)
    (metis gz_deterministic_def)

lemma status_text_renderer: "gz_deterministic gz \<Longrightarrow> text_renderer (status_render gz statuses)"
  by unfold_locales (metis render_text_determined status_render_def status_text_determined)

lemma graphviz_text_renderer: "gz_deterministic gz \<Longrightarrow> text_renderer (graphviz_render gz)"
  by unfold_locales (metis render_text_determined graphviz_render_def)

text \<open>Through the cache, whatever is asked in whatever order, every result is one the renderer gives for
  the same text, and a success is the output the renderer itself has for that graph, also when
  the statuses are drawn: the key leaves them out, but the text determines the drawing.\<close>

theorem cache_invisible:
  assumes "inj sha256" "gz_deterministic gz"
    and "run_renders sha256 (status_render gz statuses) calls ([], w) = (rs, cache, w')"
  shows "list_all2 (agrees (status_render gz statuses)) calls rs"
proof -
  have "cache_holds sha256 (status_render gz statuses) []" by (simp add: cache_holds_def hm_get_def)
  then show ?thesis
    using text_renderer.run_renders_agree [OF status_text_renderer [OF assms(2)] assms(1)] assms(3) by blast
qed

theorem cache_invisible_witness:
  "case run_renders id (status_render \<lparr>gz_available = (\<lambda>w. (True, w)), gz_run = (\<lambda>d f w. (Inr (d @ f), w))\<rparr> Map.empty)
      [(\<lparr>g_name = None, g_nodes = [], g_edges = [], g_default_node_attrs = Map.empty, g_default_edge_attrs = Map.empty,
         g_graph_attrs = Map.empty\<rparr>, RF_Svg)] ([], ()) of
    (rs, s) \<Rightarrow> length rs = 1"
proof -
  let ?gz = "\<lparr>gz_available = (\<lambda>w. (True, w)), gz_run = (\<lambda>d f w. (Inr (d @ f), w))\<rparr> :: unit graphviz"
  let ?calls = "[(\<lparr>g_name = None, g_nodes = [], g_edges = [], g_default_node_attrs = Map.empty,
      g_default_edge_attrs = Map.empty, g_graph_attrs = Map.empty\<rparr>, RF_Svg)]"
  obtain rs c w where r: "run_renders id (status_render ?gz Map.empty) ?calls ([], ()) = (rs, c, w)" by (metis prod_cases3)
  have "gz_deterministic ?gz" by (simp add: gz_deterministic_def)
  from list_all2_lengthD [OF cache_invisible [OF inj_on_id this r]] show ?thesis unfolding r by simp
qed

end
