(* ===== verification/Llm_Stream.thy ===== *)
theory Llm_Stream
  imports Llm_Types Llm_Catalog
begin

text \<open>
  Streamed responses: the events of a stream, \<open>smasher-llm/src/types/stream.rs\<close>, and their
  accumulation into a response, \<open>smasher-llm/src/api/stream.rs\<close>.
\<close>

section \<open>Values of JSON\<close>

text \<open>\<open>as_object\<close>, \<open>as_str\<close>, \<open>as_array\<close>, \<open>as_u64\<close>, \<open>get\<close> and indexing.\<close>

fun json_members :: "json \<Rightarrow> (string \<times> json) list option" where
  "json_members (JObject kvs) = Some kvs"
| "json_members _ = None"

fun json_string :: "json \<Rightarrow> string option" where
  "json_string (JString s) = Some s"
| "json_string _ = None"

fun json_elements :: "json \<Rightarrow> json list option" where
  "json_elements (JArray vs) = Some vs"
| "json_elements _ = None"

fun json_field :: "string \<Rightarrow> json \<Rightarrow> json option" where
  "json_field key (JObject kvs) = map_of kvs key"
| "json_field key _ = None"

fun json_u64 :: "json \<Rightarrow> nat option" where
  "json_u64 (JNumber (JPosInt n)) = Some n"
| "json_u64 _ = None"

definition json_index :: "string \<Rightarrow> json \<Rightarrow> json" where
  "json_index key v = (case json_field key v of Some x \<Rightarrow> x | None \<Rightarrow> JNull)"

definition provider_option :: "request \<Rightarrow> string \<Rightarrow> json option" where
  "provider_option r name = Option.bind (rq_provider_options r) (\<lambda>opts. hm_get opts name)"

definition nonempty_option :: "request \<Rightarrow> string \<Rightarrow> (string \<times> json) list option" where
  "nonempty_option r name =
     Option.bind (Option.bind (provider_option r name) json_members) (\<lambda>kvs. if kvs = [] then None else Some kvs)"

section \<open>Events\<close>

datatype stream_event_type =
    ET_Start | ET_ContentDelta | ET_ToolCallDelta | ET_ThinkingDelta | ET_UsageDelta | ET_End | ET_Error
  | ET_TextStart | ET_TextEnd | ET_ReasoningStart | ET_ReasoningEnd | ET_ToolCallStart | ET_ToolCallEnd
  | ET_ProviderEvent

record stream_event =
  ev_event_type :: stream_event_type
  ev_response_id :: "string option"
  ev_model :: "string option"
  ev_text_delta :: "string option"
  ev_tool_call_id :: "string option"
  ev_tool_name :: "string option"
  ev_arguments_delta :: "string option"
  ev_thinking_delta :: "string option"
  ev_content_index :: "32 word option"
  ev_usage :: "usage option"
  ev_finish_reason :: "finish_reason option"
  ev_error_message :: "string option"
  ev_raw :: "json option"
  ev_provider_event_type :: "string option"

definition ev_empty :: "stream_event_type \<Rightarrow> stream_event" where
  "ev_empty t =
     \<lparr>ev_event_type = t, ev_response_id = None, ev_model = None, ev_text_delta = None, ev_tool_call_id = None,
      ev_tool_name = None, ev_arguments_delta = None, ev_thinking_delta = None, ev_content_index = None,
      ev_usage = None, ev_finish_reason = None, ev_error_message = None, ev_raw = None, ev_provider_event_type = None\<rparr>"

definition ev_start :: "string \<Rightarrow> string \<Rightarrow> stream_event" where
  "ev_start response_id model = (ev_empty ET_Start)\<lparr>ev_response_id := Some response_id, ev_model := Some model\<rparr>"

definition ev_text :: "string \<Rightarrow> stream_event" where
  "ev_text t = (ev_empty ET_ContentDelta)\<lparr>ev_text_delta := Some t\<rparr>"

definition ev_tool_call :: "string \<Rightarrow> string option \<Rightarrow> string \<Rightarrow> stream_event" where
  "ev_tool_call call_id name arguments =
     (ev_empty ET_ToolCallDelta)\<lparr>ev_tool_call_id := Some call_id, ev_tool_name := name, ev_arguments_delta := Some arguments\<rparr>"

definition ev_thinking :: "string \<Rightarrow> stream_event" where
  "ev_thinking t = (ev_empty ET_ThinkingDelta)\<lparr>ev_thinking_delta := Some t\<rparr>"

definition ev_usage_delta :: "usage \<Rightarrow> stream_event" where
  "ev_usage_delta u = (ev_empty ET_UsageDelta)\<lparr>ev_usage := Some u\<rparr>"

definition ev_end :: "finish_reason option \<Rightarrow> usage option \<Rightarrow> stream_event" where
  "ev_end reason u = (ev_empty ET_End)\<lparr>ev_finish_reason := reason, ev_usage := u\<rparr>"

definition ev_error :: "string \<Rightarrow> stream_event" where
  "ev_error msg = (ev_empty ET_Error)\<lparr>ev_error_message := Some msg\<rparr>"

definition ev_text_start :: "32 word \<Rightarrow> stream_event" where
  "ev_text_start i = (ev_empty ET_TextStart)\<lparr>ev_content_index := Some i\<rparr>"

definition ev_text_end :: "32 word \<Rightarrow> stream_event" where
  "ev_text_end i = (ev_empty ET_TextEnd)\<lparr>ev_content_index := Some i\<rparr>"

definition ev_thinking_start :: "32 word \<Rightarrow> stream_event" where
  "ev_thinking_start i = (ev_empty ET_ReasoningStart)\<lparr>ev_content_index := Some i\<rparr>"

definition ev_thinking_end :: "32 word \<Rightarrow> stream_event" where
  "ev_thinking_end i = (ev_empty ET_ReasoningEnd)\<lparr>ev_content_index := Some i\<rparr>"

definition ev_tool_call_start :: "string \<Rightarrow> string \<Rightarrow> 32 word \<Rightarrow> stream_event" where
  "ev_tool_call_start call_id name i =
     (ev_empty ET_ToolCallStart)\<lparr>ev_tool_call_id := Some call_id, ev_tool_name := Some name, ev_content_index := Some i\<rparr>"

definition ev_tool_call_end :: "string \<Rightarrow> stream_event" where
  "ev_tool_call_end call_id = (ev_empty ET_ToolCallEnd)\<lparr>ev_tool_call_id := Some call_id\<rparr>"

definition ev_provider_event :: "string \<Rightarrow> json \<Rightarrow> stream_event" where
  "ev_provider_event t v = (ev_empty ET_ProviderEvent)\<lparr>ev_provider_event_type := Some t, ev_raw := Some v\<rparr>"

definition ev_with_index :: "32 word \<Rightarrow> stream_event \<Rightarrow> stream_event" where
  "ev_with_index i e = e\<lparr>ev_content_index := Some i\<rparr>"

section \<open>The accumulator\<close>

record call_accumulator =
  ca_id :: string
  ca_name :: string
  ca_arguments :: string

record accumulator =
  ac_response_id :: "string option"
  ac_model :: "string option"
  ac_provider :: "string option"
  ac_text_buffer :: string
  ac_tool_calls :: "call_accumulator list"
  ac_thinking_buffer :: string
  ac_usage :: usage
  ac_finish_reason :: "finish_reason option"

definition accumulator_new :: accumulator where
  "accumulator_new =
     \<lparr>ac_response_id = None, ac_model = None, ac_provider = None, ac_text_buffer = [], ac_tool_calls = [],
      ac_thinking_buffer = [], ac_usage = default_usage, ac_finish_reason = None\<rparr>"

definition or_empty :: "string option \<Rightarrow> string" where
  "or_empty x = (case x of Some s \<Rightarrow> s | None \<Rightarrow> [])"

text \<open>The first call with the id is extended; without one a new call is appended.\<close>

definition extend_call :: "stream_event \<Rightarrow> call_accumulator \<Rightarrow> call_accumulator" where
  "extend_call e c =
     c\<lparr>ca_name := (case ev_tool_name e of Some n \<Rightarrow> n | None \<Rightarrow> ca_name c),
       ca_arguments := ca_arguments c @ or_empty (ev_arguments_delta e)\<rparr>"

fun add_call_delta :: "string \<Rightarrow> stream_event \<Rightarrow> call_accumulator list \<Rightarrow> call_accumulator list" where
  "add_call_delta i e [] = [\<lparr>ca_id = i, ca_name = or_empty (ev_tool_name e), ca_arguments = or_empty (ev_arguments_delta e)\<rparr>]"
| "add_call_delta i e (c # cs) = (if ca_id c = i then extend_call e c # cs else c # add_call_delta i e cs)"

definition add_usage :: "usage option \<Rightarrow> accumulator \<Rightarrow> accumulator" where
  "add_usage u ac = (case u of Some v \<Rightarrow> ac\<lparr>ac_usage := usage_add (ac_usage ac) v\<rparr> | None \<Rightarrow> ac)"

definition process_event :: "stream_event \<Rightarrow> accumulator \<Rightarrow> accumulator" where
  "process_event e ac =
     (case ev_event_type e of
        ET_Start \<Rightarrow>
          (let ac1 = (case ev_response_id e of Some i \<Rightarrow> ac\<lparr>ac_response_id := Some i\<rparr> | None \<Rightarrow> ac)
           in (case ev_model e of
                 Some m \<Rightarrow> ac1\<lparr>ac_provider := map_option provider_display (infer_provider m), ac_model := Some m\<rparr>
               | None \<Rightarrow> ac1))
      | ET_ContentDelta \<Rightarrow> ac\<lparr>ac_text_buffer := ac_text_buffer ac @ or_empty (ev_text_delta e)\<rparr>
      | ET_ToolCallDelta \<Rightarrow>
          (case ev_tool_call_id e of
             Some i \<Rightarrow> ac\<lparr>ac_tool_calls := add_call_delta i e (ac_tool_calls ac)\<rparr>
           | None \<Rightarrow> ac)
      | ET_ThinkingDelta \<Rightarrow> ac\<lparr>ac_thinking_buffer := ac_thinking_buffer ac @ or_empty (ev_thinking_delta e)\<rparr>
      | ET_UsageDelta \<Rightarrow> add_usage (ev_usage e) ac
      | ET_End \<Rightarrow> add_usage (ev_usage e) (ac\<lparr>ac_finish_reason := ev_finish_reason e\<rparr>)
      | _ \<Rightarrow> ac)"

definition finished_call :: "call_accumulator \<Rightarrow> content_part" where
  "finished_call c = CP_ToolCall \<lparr>tc_id = ca_id c, tc_name = ca_name c, tc_arguments = ca_arguments c, tc_raw_arguments = None\<rparr>"

definition into_response :: "accumulator \<Rightarrow> response" where
  "into_response ac =
     \<lparr>rs_id = or_empty (ac_response_id ac), rs_model = or_empty (ac_model ac),
      rs_content =
        (if ac_thinking_buffer ac = [] then []
         else [CP_Thinking \<lparr>th_thinking = ac_thinking_buffer ac, th_signature = None, th_redacted = False\<rparr>]) @
        (if ac_text_buffer ac = [] then [] else [CP_Text (ac_text_buffer ac)]) @
        map finished_call (ac_tool_calls ac),
      rs_finish_reason = ac_finish_reason ac, rs_usage = ac_usage ac, rs_warnings = [], rs_rate_limit = None,
      rs_provider = ac_provider ac, rs_raw = None\<rparr>"

definition accumulated_has_tool_calls :: "accumulator \<Rightarrow> bool" where
  "accumulated_has_tool_calls ac \<longleftrightarrow> ac_tool_calls ac \<noteq> []"

definition accumulate :: "stream_event list \<Rightarrow> accumulator" where
  "accumulate es = fold process_event es accumulator_new"

section \<open>What a stream says\<close>

text \<open>The pieces of a stream by kind.\<close>

definition of_type :: "stream_event_type \<Rightarrow> (stream_event \<Rightarrow> 'a option) \<Rightarrow> stream_event \<Rightarrow> 'a option" where
  "of_type t f e = (if ev_event_type e = t then f e else None)"

definition pieces :: "(stream_event \<Rightarrow> 'a option) \<Rightarrow> stream_event list \<Rightarrow> 'a list" where
  "pieces f es = List.map_filter f es"

definition last_piece :: "'a list \<Rightarrow> 'a option" where
  "last_piece xs = (if xs = [] then None else Some (last xs))"

definition usage_of :: "stream_event \<Rightarrow> usage option" where
  "usage_of e = (if ev_event_type e \<in> {ET_UsageDelta, ET_End} then ev_usage e else None)"

definition call_delta :: "stream_event \<Rightarrow> string option" where
  "call_delta = of_type ET_ToolCallDelta ev_tool_call_id"

text \<open>The ids of the calls in the order of their first mention, and what the deltas of one say.\<close>

definition call_ids :: "stream_event list \<Rightarrow> string list" where
  "call_ids es = rev (remdups (rev (pieces call_delta es)))"

definition call_said :: "stream_event list \<Rightarrow> string \<Rightarrow> call_accumulator" where
  "call_said es i =
     (let ds = filter (\<lambda>e. call_delta e = Some i) es
      in \<lparr>ca_id = i, ca_name = or_empty (last_piece (pieces ev_tool_name ds)),
          ca_arguments = concat (pieces ev_arguments_delta ds)\<rparr>)"

definition stream_said :: "stream_event list \<Rightarrow> accumulator" where
  "stream_said es =
     \<lparr>ac_response_id = last_piece (pieces (of_type ET_Start ev_response_id) es),
      ac_model = last_piece (pieces (of_type ET_Start ev_model) es),
      ac_provider = Option.bind (last_piece (pieces (of_type ET_Start ev_model) es))
        (\<lambda>m. map_option provider_display (infer_provider m)),
      ac_text_buffer = concat (pieces (of_type ET_ContentDelta ev_text_delta) es),
      ac_tool_calls = map (call_said es) (call_ids es),
      ac_thinking_buffer = concat (pieces (of_type ET_ThinkingDelta ev_thinking_delta) es),
      ac_usage = usage_sum (pieces usage_of es) default_usage,
      ac_finish_reason = Option.bind (last_piece (filter (\<lambda>e. ev_event_type e = ET_End) es)) ev_finish_reason\<rparr>"

lemma pieces_simps [simp]:
  "pieces f [] = []" "pieces f (e # es) = (case f e of None \<Rightarrow> [] | Some x \<Rightarrow> [x]) @ pieces f es"
  "pieces f (es @ es') = pieces f es @ pieces f es'"
  by (simp_all add: pieces_def map_filter_append split: option.split)

lemma last_piece_simps [simp]:
  "last_piece [] = None" "last_piece (xs @ [x]) = Some x"
  by (simp_all add: last_piece_def)

lemma add_call_delta_ids: "map ca_id (add_call_delta i e cs) = map ca_id cs @ (if i \<in> ca_id ` set cs then [] else [i])"
  by (induction i e cs rule: add_call_delta.induct) (auto simp: extend_call_def)

lemma add_call_delta_new: "i \<notin> ca_id ` set cs \<Longrightarrow> add_call_delta i e cs =
    cs @ [\<lparr>ca_id = i, ca_name = or_empty (ev_tool_name e), ca_arguments = or_empty (ev_arguments_delta e)\<rparr>]"
  by (induction i e cs rule: add_call_delta.induct) auto

lemma add_call_delta_old:
  "i \<in> ca_id ` set cs \<Longrightarrow> distinct (map ca_id cs) \<Longrightarrow>
     add_call_delta i e cs = map (\<lambda>c. if ca_id c = i then extend_call e c else c) cs"
proof (induction i e cs rule: add_call_delta.induct)
  case (2 i e c cs)
  show ?case
  proof (cases "ca_id c = i")
    case True
    then have "map (\<lambda>c. if ca_id c = i then extend_call e c else c) cs = cs"
      using 2(3) by (intro map_idI) (force simp: image_iff)
    then show ?thesis using True by simp
  qed (use 2 in auto)
qed simp

lemma call_said_id [simp]: "ca_id (call_said es i) = i"
  by (simp add: call_said_def Let_def)

lemma call_ids_props: "set (call_ids es) = set (pieces call_delta es)" "distinct (call_ids es)"
  by (simp_all add: call_ids_def)

lemma call_said_none: "i \<notin> set (pieces call_delta es) \<Longrightarrow> filter (\<lambda>e. call_delta e = Some i) es = []"
  by (induction es) auto

lemma call_ids_snoc:
  "call_ids (es @ [e]) = (case call_delta e of None \<Rightarrow> call_ids es
     | Some i \<Rightarrow> if i \<in> set (call_ids es) then call_ids es else call_ids es @ [i])"
  by (simp add: call_ids_def split: option.split)

lemma call_said_snoc:
  "call_said (es @ [e]) j = (if call_delta e = Some j then extend_call e (call_said es j) else call_said es j)"
  by (auto simp: call_said_def Let_def extend_call_def or_empty_def split: option.split)

lemma calls_snoc:
  "map (call_said (es @ [e])) (call_ids (es @ [e])) =
     (case call_delta e of None \<Rightarrow> map (call_said es) (call_ids es)
      | Some i \<Rightarrow> add_call_delta i e (map (call_said es) (call_ids es)))"
proof (cases "call_delta e")
  case None
  then show ?thesis by (simp add: call_ids_snoc call_said_snoc [abs_def])
next
  case (Some i)
  let ?cs = "map (call_said es) (call_ids es)"
  have ids: "map ca_id ?cs = call_ids es" by (simp add: o_def)
  then have mem: "i \<in> ca_id ` set ?cs \<longleftrightarrow> i \<in> set (call_ids es)" by (metis set_map)
  show ?thesis
  proof (cases "i \<in> set (call_ids es)")
    case True
    then have "add_call_delta i e ?cs = map (\<lambda>c. if ca_id c = i then extend_call e c else c) ?cs"
      using add_call_delta_old [of i ?cs e] ids mem call_ids_props(2) by simp
    then show ?thesis using True Some by (auto simp: call_ids_snoc call_said_snoc)
  next
    case False
    then have "call_said es i = \<lparr>ca_id = i, ca_name = [], ca_arguments = []\<rparr>"
      using call_said_none [of i es] by (simp add: call_said_def call_ids_props or_empty_def)
    moreover have "map (call_said (es @ [e])) (call_ids es) = ?cs"
      using False Some by (auto simp: call_said_snoc)
    ultimately show ?thesis using False Some add_call_delta_new [of i ?cs e] mem
      by (auto simp: call_ids_snoc call_said_snoc extend_call_def or_empty_def split: option.split)
  qed
qed

text \<open>The accumulator holds what the stream said so far: texts are concatenated in order, also when calls
  and texts are interleaved; the arguments of a call are those of its id; later names replace
  earlier ones; every usage is added.\<close>

lemma accumulate_said: "accumulate es = stream_said es"
proof (induction es rule: rev_induct)
  case Nil
  show ?case by (simp add: accumulate_def stream_said_def accumulator_new_def call_ids_def)
next
  case (snoc e es)
  have "accumulate (es @ [e]) = process_event e (stream_said es)" using snoc by (simp add: accumulate_def)
  also have "\<dots> = stream_said (es @ [e])"
    by (cases "ev_event_type e")
      (simp_all add: process_event_def stream_said_def calls_snoc call_delta_def of_type_def usage_of_def
        add_usage_def or_empty_def usage_sum_append last_piece_def split: option.split)
  finally show ?case .
qed

section \<open>Streamed and whole responses\<close>

text \<open>What the callers of a response act on: its reasoning, its text and its tool calls.\<close>

definition content_view :: "content_part list \<Rightarrow> string \<times> string \<times> tool_call_data list" where
  "content_view parts =
     (concat (List.map_filter as_thinking parts), concat (List.map_filter Llm_Types.as_text parts), content_tool_calls parts)"

lemma content_view_append:
  "content_view (xs @ ys) =
     (fst (content_view xs) @ fst (content_view ys), fst (snd (content_view xs)) @ fst (snd (content_view ys)),
      snd (snd (content_view xs)) @ snd (snd (content_view ys)))"
  by (simp add: content_view_def map_filter_append content_tool_calls_append)

text \<open>The content an accumulator stands for.\<close>

lemma into_response_view:
  "content_view (rs_content (into_response ac)) =
     (ac_thinking_buffer ac, ac_text_buffer ac,
      map (\<lambda>c. \<lparr>tc_id = ca_id c, tc_name = ca_name c, tc_arguments = ca_arguments c, tc_raw_arguments = None\<rparr>) (ac_tool_calls ac))"
proof -
  have "List.map_filter as_thinking (map finished_call cs) = []" "List.map_filter Llm_Types.as_text (map finished_call cs) = []"
    "content_tool_calls (map finished_call cs) =
       map (\<lambda>c. \<lparr>tc_id = ca_id c, tc_name = ca_name c, tc_arguments = ca_arguments c, tc_raw_arguments = None\<rparr>) cs" for cs
    by (induction cs) (simp_all add: finished_call_def content_tool_calls_def)
  then show ?thesis
    by (simp add: into_response_def content_view_def content_tool_calls_append map_filter_append)
       (simp add: content_tool_calls_def)
qed

text \<open>What a part of a response adds when it is streamed.\<close>

definition add_part :: "content_part \<Rightarrow> accumulator \<Rightarrow> accumulator" where
  "add_part p ac =
     (case p of
        CP_Text t \<Rightarrow> ac\<lparr>ac_text_buffer := ac_text_buffer ac @ t\<rparr>
      | CP_Thinking th \<Rightarrow> ac\<lparr>ac_thinking_buffer := ac_thinking_buffer ac @ th_thinking th\<rparr>
      | CP_ToolCall tc \<Rightarrow>
          ac\<lparr>ac_tool_calls := ac_tool_calls ac @ [\<lparr>ca_id = tc_id tc, ca_name = tc_name tc, ca_arguments = tc_arguments tc\<rparr>]\<rparr>
      | _ \<Rightarrow> ac)"

fun streamable :: "content_part \<Rightarrow> bool" where
  "streamable (CP_Text t) = True"
| "streamable (CP_Thinking th) = True"
| "streamable (CP_ToolCall tc) = (tc_raw_arguments tc = None)"
| "streamable _ = False"

lemma text_runs:
  "fold process_event (map (\<lambda>p. ev_with_index i (ev_text p)) ps) ac = ac\<lparr>ac_text_buffer := ac_text_buffer ac @ concat ps\<rparr>"
  "fold process_event (map (\<lambda>p. ev_with_index i (ev_thinking p)) ps) ac =
     ac\<lparr>ac_thinking_buffer := ac_thinking_buffer ac @ concat ps\<rparr>"
  by (induction ps arbitrary: ac)
    (simp_all add: process_event_def ev_with_index_def ev_text_def ev_thinking_def ev_empty_def or_empty_def)

lemma tool_runs:
  "call_id \<notin> ca_id ` set cs \<Longrightarrow> ac_tool_calls ac = cs @ [\<lparr>ca_id = call_id, ca_name = name, ca_arguments = a\<rparr>] \<Longrightarrow>
   fold process_event (map (\<lambda>p. ev_with_index i (ev_tool_call call_id None p)) ps) ac =
     ac\<lparr>ac_tool_calls := cs @ [\<lparr>ca_id = call_id, ca_name = name, ca_arguments = a @ concat ps\<rparr>]\<rparr>"
proof (induction ps arbitrary: ac a)
  case (Cons p ps)
  have add: "add_call_delta call_id e (ds @ [c]) = ds @ [extend_call e c]" if "call_id \<notin> ca_id ` set ds" "ca_id c = call_id" for e ds c
    using that by (induction ds) auto
  have "process_event (ev_with_index i (ev_tool_call call_id None p)) ac =
      ac\<lparr>ac_tool_calls := cs @ [\<lparr>ca_id = call_id, ca_name = name, ca_arguments = a @ p\<rparr>]\<rparr>"
    using Cons.prems add [of cs] by (simp add: process_event_def ev_with_index_def ev_tool_call_def ev_empty_def extend_call_def or_empty_def)
  then show ?case using Cons.IH [of "ac\<lparr>ac_tool_calls := cs @ [\<lparr>ca_id = call_id, ca_name = name, ca_arguments = a @ p\<rparr>]\<rparr>" "a @ p"] Cons.prems
    by simp
qed simp

lemma add_part_fields:
  "ac_response_id (fold add_part ps ac) = ac_response_id ac" "ac_model (fold add_part ps ac) = ac_model ac"
  "ac_usage (fold add_part ps ac) = ac_usage ac" "ac_provider (fold add_part ps ac) = ac_provider ac"
proof -
  have "ac_response_id (add_part p ac) = ac_response_id ac" "ac_model (add_part p ac) = ac_model ac"
    "ac_usage (add_part p ac) = ac_usage ac" "ac_provider (add_part p ac) = ac_provider ac" for p ac
    by (cases p; simp add: add_part_def)+
  then show "ac_response_id (fold add_part ps ac) = ac_response_id ac" "ac_model (fold add_part ps ac) = ac_model ac"
    "ac_usage (fold add_part ps ac) = ac_usage ac" "ac_provider (fold add_part ps ac) = ac_provider ac"
    by (induction ps arbitrary: ac) simp_all
qed

lemma content_view_single:
  "content_view [] = ([], [], [])" "content_view [CP_Text t] = ([], t, [])" "content_view [CP_Thinking th] = (th_thinking th, [], [])"
  "content_view [CP_ToolCall tc] = ([], [], [tc])"
  by (simp_all add: content_view_def content_tool_calls_def List.map_filter_def)

lemma add_part_view:
  assumes "list_all streamable ps"
  shows "content_view (rs_content (into_response (fold add_part ps ac))) =
    (let v = content_view (rs_content (into_response ac)); u = content_view ps
     in (fst v @ fst u, fst (snd v) @ fst (snd u), snd (snd v) @ snd (snd u)))"
  using assms
proof (induction ps arbitrary: ac)
  case (Cons p ps)
  let ?v = "\<lambda>ac. content_view (rs_content (into_response ac))" and ?u = "content_view [p]"
  have app: "content_view (p # ps) =
      (fst ?u @ fst (content_view ps), fst (snd ?u) @ fst (snd (content_view ps)), snd (snd ?u) @ snd (snd (content_view ps)))"
    using content_view_append [of "[p]" ps] by simp
  have one: "?v (add_part p ac) = (fst (?v ac) @ fst ?u, fst (snd (?v ac)) @ fst (snd ?u), snd (snd (?v ac)) @ snd (snd ?u))"
    using Cons.prems by (cases p) (simp_all add: into_response_view add_part_def content_view_single)
  have ps: "list_all streamable ps" using Cons.prems by simp
  show ?case unfolding fold_Cons comp_apply Cons.IH [OF ps] app one Let_def by simp
qed (simp add: into_response_view content_view_single)

text \<open>
  A provider that serves a response whole or as a stream: \<open>script\<close> spells a response as the events of a
  stream, in any of the ways the provider may, and \<open>translate\<close> is the client's translation.
\<close>

locale streaming_provider =
  fixes translate :: "'e list \<Rightarrow> stream_event list"
    and convert :: "'r \<Rightarrow> response"
    and script :: "'r \<Rightarrow> 'e list \<Rightarrow> bool"
  assumes streamed_view: "script r es \<Longrightarrow>
      content_view (rs_content (into_response (accumulate (translate es)))) = content_view (rs_content (convert r))"
    and streamed_reason: "script r es \<Longrightarrow>
      rs_finish_reason (into_response (accumulate (translate es))) = rs_finish_reason (convert r)"

context streaming_provider
begin

text \<open>The tool loop takes the same decisions and sends the same calls, and the text is the same.\<close>

lemma streamed_calls:
  assumes "script r es"
  shows "response_tool_calls (into_response (accumulate (translate es))) = response_tool_calls (convert r)"
    and "response_has_tool_calls (into_response (accumulate (translate es))) \<longleftrightarrow> response_has_tool_calls (convert r)"
  using streamed_view [OF assms] by (simp_all add: content_view_def response_tool_calls_def response_has_tool_calls_def has_tool_calls_iff)

lemma streamed_text:
  assumes "script r es"
  shows "or_empty (response_text (into_response (accumulate (translate es)))) = or_empty (response_text (convert r))"
    and "or_empty (response_reasoning (into_response (accumulate (translate es)))) = or_empty (response_reasoning (convert r))"
  using streamed_view [OF assms]
  by (auto simp: content_view_def response_text_def response_reasoning_def content_text_def joined_texts_def or_empty_def)

end

section \<open>Conversations on the wire\<close>

text \<open>The calls and results of a conversation, in order.\<close>

datatype wire_item = Wire_Call string | Wire_Result string

fun part_wire :: "content_part \<Rightarrow> wire_item list" where
  "part_wire (CP_ToolCall tc) = [Wire_Call (tc_id tc)]"
| "part_wire (CP_ToolResult tr) = [Wire_Result (tr_tool_call_id tr)]"
| "part_wire _ = []"

definition conversation_wire :: "message list \<Rightarrow> wire_item list" where
  "conversation_wire ms = concat (map (\<lambda>m. concat (map part_wire (ms_content m))) ms)"

text \<open>A provider accepts only results of calls that came before.\<close>

fun wire_in_order :: "string list \<Rightarrow> wire_item list \<Rightarrow> bool" where
  "wire_in_order called [] = True"
| "wire_in_order called (Wire_Call i # ws) = wire_in_order (i # called) ws"
| "wire_in_order called (Wire_Result i # ws) = (i \<in> set called \<and> wire_in_order called ws)"

end
