(* ===== verification/Llm_Anthropic.thy ===== *)
theory Llm_Anthropic
  imports Llm_Stream Sse
begin

text \<open>
  The Anthropic provider: the native types and conversions, \<open>smasher-llm/src/provider/anthropic/types.rs\<close>,
  and the translation of its event stream, \<open>smasher-llm/src/provider/anthropic/stream.rs\<close>.  The text of
  JSON values and the decoding of an event from its data are \<open>serde\<close>'s and parameters.
\<close>

section \<open>Types\<close>

record an_system_block =
  as_block_type :: string
  as_text :: string
  as_cache_control :: "string option"

record an_image_source =
  ai_source_type :: string
  ai_media_type :: string
  ai_data :: string

text \<open>The last argument of a block that can be cached is its cache directive.\<close>

datatype an_block =
    AB_Text string "string option"
  | AB_Image an_image_source "string option"
  | AB_ToolUse string string json "string option"
  | AB_ToolResult string string "bool option" "string option"
  | AB_Thinking string string
  | AB_RedactedThinking string

record an_message =
  am_role :: string
  am_content :: "an_block list"

record an_tool =
  an_tool_name :: string
  an_tool_description :: string
  an_tool_input_schema :: json

datatype an_tool_choice = ATC_Auto | ATC_Any | ATC_Tool string

record an_thinking =
  an_thinking_type :: string
  an_budget_tokens :: "32 word"

record an_request =
  aq_model :: string
  aq_messages :: "an_message list"
  aq_max_tokens :: "32 word"
  aq_system :: "an_system_block list option"
  aq_temperature :: "f32 option"
  aq_top_p :: "f32 option"
  aq_stop_sequences :: "string list option"
  aq_tools :: "an_tool list option"
  aq_tool_choice :: "an_tool_choice option"
  aq_stream :: "bool option"
  aq_thinking :: "an_thinking option"
  aq_extra :: "(string \<times> json) list option"

record an_usage =
  au_input_tokens :: "32 word"
  au_output_tokens :: "32 word"
  au_cache_read_input_tokens :: "32 word option"
  au_cache_creation_input_tokens :: "32 word option"

record an_response =
  ar_id :: string
  ar_model :: string
  ar_content :: "an_block list"
  ar_stop_reason :: "string option"
  ar_usage :: an_usage

datatype an_delta =
    AD_Text string
  | AD_InputJson string
  | AD_Thinking string
  | AD_Signature string

datatype an_stream_event =
    AE_MessageStart an_response
  | AE_ContentBlockStart "32 word" an_block
  | AE_ContentBlockDelta "32 word" an_delta
  | AE_ContentBlockStop "32 word"
  | AE_MessageDelta "string option" "an_usage option"
  | AE_MessageStop
  | AE_Ping
  | AE_Error string string

section \<open>Requests\<close>

definition an_default_max_tokens :: "32 word" where
  "an_default_max_tokens = 4096"

definition an_image_default :: string where
  "an_image_default = ''image/png''"

fun an_convert_part :: "(string \<Rightarrow> json option) \<Rightarrow> content_part \<Rightarrow> an_block" where
  "an_convert_part parse (CP_Text t) = AB_Text t None"
| "an_convert_part parse (CP_Image img) =
     (case im_source_type img of
        Source_Base64 \<Rightarrow>
          AB_Image \<lparr>ai_source_type = ''base64'',
            ai_media_type = (case im_media_type img of Some m \<Rightarrow> m | None \<Rightarrow> an_image_default), ai_data = im_data img\<rparr> None
      | Source_Url \<Rightarrow> AB_Text (im_data img) None)"
| "an_convert_part parse (CP_ToolCall tc) =
     AB_ToolUse (tc_id tc) (tc_name tc) (case parse (tc_arguments tc) of Some v \<Rightarrow> v | None \<Rightarrow> JObject []) None"
| "an_convert_part parse (CP_ToolResult tr) =
     AB_ToolResult (tr_tool_call_id tr) (tr_content tr) (if tr_is_error tr then Some True else None) None"
| "an_convert_part parse (CP_Thinking th) =
     AB_Thinking (th_thinking th) (or_empty (th_signature th))"
| "an_convert_part parse (CP_Audio a) =
     AB_Text (''[Audio: '' @ au_format a @ '' format, '' @ dec (length (au_data a)) @ '' bytes]'') None"
| "an_convert_part parse (CP_Document d) =
     AB_Text (''[Document: '' @ (case do_filename d of Some f \<Rightarrow> f | None \<Rightarrow> ''unnamed'') @ '']'') None"
| "an_convert_part parse (CP_RedactedThinking rt) = AB_RedactedThinking (rt_data rt)"

fun an_role :: "role \<Rightarrow> string" where
  "an_role Role_Assistant = ''assistant''"
| "an_role _ = ''user''"

definition an_convert_message :: "(string \<Rightarrow> json option) \<Rightarrow> message \<Rightarrow> an_message" where
  "an_convert_message parse m =
     \<lparr>am_role = an_role (ms_role m), am_content = map (an_convert_part parse) (ms_content m)\<rparr>"

definition an_system_text :: "string \<Rightarrow> an_system_block" where
  "an_system_text t = \<lparr>as_block_type = ''text'', as_text = t, as_cache_control = None\<rparr>"

definition an_system_blocks :: "request \<Rightarrow> an_system_block list" where
  "an_system_blocks r =
     map an_system_text
       ((case rq_system_prompt r of Some p \<Rightarrow> [p] | None \<Rightarrow> []) @
        concat (map (\<lambda>m. if ms_role m = Role_System then List.map_filter Llm_Types.as_text (ms_content m) else []) (rq_messages r)))"

definition an_messages :: "(string \<Rightarrow> json option) \<Rightarrow> request \<Rightarrow> an_message list" where
  "an_messages parse r = map (an_convert_message parse) (filter (\<lambda>m. ms_role m \<noteq> Role_System) (rq_messages r))"

definition an_convert_tool :: "tool_definition \<Rightarrow> an_tool" where
  "an_convert_tool t = \<lparr>an_tool_name = td_name t, an_tool_description = td_description t, an_tool_input_schema = td_parameters t\<rparr>"

fun an_convert_choice :: "tool_choice \<Rightarrow> an_tool_choice option" where
  "an_convert_choice TC_Auto = Some ATC_Auto"
| "an_convert_choice TC_None = None"
| "an_convert_choice TC_Required = Some ATC_Any"
| "an_convert_choice (TC_Specific name) = Some (ATC_Tool name)"

definition an_convert_thinking :: "thinking_config \<Rightarrow> an_thinking option" where
  "an_convert_thinking tk =
     (if tk_enabled tk
      then Some \<lparr>an_thinking_type = ''enabled'',
             an_budget_tokens = (case tk_budget_tokens tk of Some b \<Rightarrow> b | None \<Rightarrow> an_default_max_tokens)\<rparr>
      else None)"

definition an_extra :: "request \<Rightarrow> (string \<times> json) list option" where
  "an_extra r =
     (case Option.bind (provider_option r ''anthropic'') json_members of
        Some kvs \<Rightarrow> (let kept = filter (\<lambda>(k, v). k \<noteq> ''beta_headers'') kvs in if kept = [] then None else Some kept)
      | None \<Rightarrow> None)"

definition an_convert_request :: "(string \<Rightarrow> json option) \<Rightarrow> request \<Rightarrow> an_request" where
  "an_convert_request parse r =
     \<lparr>aq_model = rq_model r, aq_messages = an_messages parse r,
      aq_max_tokens = (case rq_max_tokens r of Some n \<Rightarrow> n | None \<Rightarrow> an_default_max_tokens),
      aq_system = (if an_system_blocks r = [] then None else Some (an_system_blocks r)),
      aq_temperature = rq_temperature r, aq_top_p = rq_top_p r, aq_stop_sequences = rq_stop_sequences r,
      aq_tools = (if rq_tool_choice r = Some TC_None then None else map_option (map an_convert_tool) (rq_tools r)),
      aq_tool_choice = Option.bind (rq_tool_choice r) an_convert_choice,
      aq_stream = rq_stream r, aq_thinking = Option.bind (rq_thinking r) an_convert_thinking,
      aq_extra = an_extra r\<rparr>"

fun an_set_cache_control :: "string \<Rightarrow> an_block \<Rightarrow> an_block" where
  "an_set_cache_control cc (AB_Text t _) = AB_Text t (Some cc)"
| "an_set_cache_control cc (AB_Image s _) = AB_Image s (Some cc)"
| "an_set_cache_control cc (AB_ToolUse i n v _) = AB_ToolUse i n v (Some cc)"
| "an_set_cache_control cc (AB_ToolResult i c e _) = AB_ToolResult i c e (Some cc)"
| "an_set_cache_control cc (AB_Thinking t s) = AB_Thinking t s"
| "an_set_cache_control cc (AB_RedactedThinking d) = AB_RedactedThinking d"

definition update_last :: "('a \<Rightarrow> 'a) \<Rightarrow> 'a list \<Rightarrow> 'a list" where
  "update_last f xs = (case rev xs of [] \<Rightarrow> [] | x # ys \<Rightarrow> rev ys @ [f x])"

text \<open>The last message of the user, seen from the end.\<close>

fun an_cache_user :: "string \<Rightarrow> an_message list \<Rightarrow> an_message list" where
  "an_cache_user cc [] = []"
| "an_cache_user cc (m # ms) =
     (if am_role m = ''user'' then m\<lparr>am_content := update_last (an_set_cache_control cc) (am_content m)\<rparr> # ms
      else m # an_cache_user cc ms)"

definition inject_cache_control :: "an_request \<Rightarrow> an_request" where
  "inject_cache_control q =
     q\<lparr>aq_system := map_option (update_last (\<lambda>b. b\<lparr>as_cache_control := Some ''ephemeral''\<rparr>)) (aq_system q),
       aq_messages := rev (an_cache_user ''ephemeral'' (rev (aq_messages q)))\<rparr>"

definition extract_beta_headers :: "request \<Rightarrow> string list" where
  "extract_beta_headers r =
     (case Option.bind (Option.bind (provider_option r ''anthropic'') (json_field ''beta_headers'')) json_elements of
        Some vs \<Rightarrow> List.map_filter json_string vs
      | None \<Rightarrow> [])"

section \<open>Responses\<close>

definition an_map_stop_reason :: "string \<Rightarrow> finish_reason" where
  "an_map_stop_reason reason =
     (if reason = ''end_turn'' then FR_Stop else if reason = ''max_tokens'' then FR_Length
      else if reason = ''tool_use'' then FR_ToolUse else if reason = ''content_filter'' then FR_ContentFilter
      else FR_Stop)"

definition an_convert_usage :: "an_usage \<Rightarrow> usage" where
  "an_convert_usage u =
     \<lparr>us_input_tokens = au_input_tokens u, us_output_tokens = au_output_tokens u,
      us_cache_read_tokens = au_cache_read_input_tokens u, us_cache_creation_tokens = au_cache_creation_input_tokens u,
      us_reasoning_tokens = None, us_total_tokens = None, us_raw = None\<rparr>"

fun an_convert_block :: "(json \<Rightarrow> string) \<Rightarrow> an_block \<Rightarrow> content_part" where
  "an_convert_block render (AB_Text t _) = CP_Text t"
| "an_convert_block render (AB_Image s _) =
     CP_Image \<lparr>im_source_type = Source_Base64, im_media_type = Some (ai_media_type s), im_data = ai_data s\<rparr>"
| "an_convert_block render (AB_ToolUse i n v _) =
     CP_ToolCall \<lparr>tc_id = i, tc_name = n, tc_arguments = render v, tc_raw_arguments = None\<rparr>"
| "an_convert_block render (AB_ToolResult i c e _) =
     CP_ToolResult \<lparr>tr_tool_call_id = i, tr_content = c, tr_is_error = (case e of Some b \<Rightarrow> b | None \<Rightarrow> False)\<rparr>"
| "an_convert_block render (AB_Thinking t s) =
     CP_Thinking \<lparr>th_thinking = t, th_signature = (if s = [] then None else Some s), th_redacted = False\<rparr>"
| "an_convert_block render (AB_RedactedThinking d) = CP_RedactedThinking \<lparr>rt_data = d\<rparr>"

definition an_convert_response :: "(json \<Rightarrow> string) \<Rightarrow> an_response \<Rightarrow> response" where
  "an_convert_response render r =
     \<lparr>rs_id = ar_id r, rs_model = ar_model r, rs_content = map (an_convert_block render) (ar_content r),
      rs_finish_reason = map_option an_map_stop_reason (ar_stop_reason r), rs_usage = an_convert_usage (ar_usage r),
      rs_warnings = [], rs_rate_limit = None, rs_provider = Some ''anthropic'', rs_raw = None\<rparr>"

section \<open>Streams\<close>

record an_state =
  ax_blocks :: "32 word \<Rightarrow> string option option"
  ax_stop_reason :: "finish_reason option"
  ax_final_usage :: "usage option"

definition an_state_new :: an_state where
  "an_state_new = \<lparr>ax_blocks = Map.empty, ax_stop_reason = None, ax_final_usage = None\<rparr>"

definition an_block_started :: "32 word \<Rightarrow> an_block \<Rightarrow> an_state \<Rightarrow> stream_event list \<times> an_state" where
  "an_block_started i b st =
     (case b of
        AB_Text _ _ \<Rightarrow> ([], st\<lparr>ax_blocks := (ax_blocks st)(i \<mapsto> None)\<rparr>)
      | AB_ToolUse call_id name _ _ \<Rightarrow>
          ([ev_with_index i (ev_tool_call call_id (Some name) [])], st\<lparr>ax_blocks := (ax_blocks st)(i \<mapsto> Some call_id)\<rparr>)
      | AB_Thinking _ _ \<Rightarrow> ([], st\<lparr>ax_blocks := (ax_blocks st)(i \<mapsto> None)\<rparr>)
      | _ \<Rightarrow> ([], st))"

definition an_delta_event :: "32 word \<Rightarrow> an_delta \<Rightarrow> an_state \<Rightarrow> stream_event list" where
  "an_delta_event i d st =
     (case d of
        AD_Text t \<Rightarrow> [ev_with_index i (ev_text t)]
      | AD_InputJson p \<Rightarrow>
          [ev_with_index i (ev_tool_call (or_empty (Option.bind (ax_blocks st i) id)) None p)]
      | AD_Thinking t \<Rightarrow> [ev_with_index i (ev_thinking t)]
      | AD_Signature _ \<Rightarrow> [])"

definition an_step :: "an_stream_event \<Rightarrow> an_state \<Rightarrow> stream_event list \<times> an_state" where
  "an_step e st =
     (case e of
        AE_MessageStart m \<Rightarrow>
          (let u = an_convert_usage (ar_usage m) in
           (ev_start (ar_id m) (ar_model m) #
            (if us_input_tokens u > 0 \<or> us_output_tokens u > 0 then [ev_usage_delta u] else []), st))
      | AE_ContentBlockStart i b \<Rightarrow> an_block_started i b st
      | AE_ContentBlockDelta i d \<Rightarrow> (an_delta_event i d st, st)
      | AE_ContentBlockStop i \<Rightarrow> ([], st\<lparr>ax_blocks := (ax_blocks st)(i := None)\<rparr>)
      | AE_MessageDelta reason u \<Rightarrow>
          (let st1 = (case reason of Some x \<Rightarrow> st\<lparr>ax_stop_reason := Some (an_map_stop_reason x)\<rparr> | None \<Rightarrow> st) in
           (case u of
              Some v \<Rightarrow> ([ev_usage_delta (an_convert_usage v)], st1\<lparr>ax_final_usage := Some (an_convert_usage v)\<rparr>)
            | None \<Rightarrow> ([], st1)))
      | AE_MessageStop \<Rightarrow>
          ([ev_end (ax_stop_reason st) (ax_final_usage st)], st\<lparr>ax_stop_reason := None, ax_final_usage := None\<rparr>)
      | AE_Error t msg \<Rightarrow> ([ev_error (t @ '': '' @ msg)], st)
      | AE_Ping \<Rightarrow> ([], st))"

text \<open>The translation, over the items of the event stream; it ends with the first error.\<close>

fun an_translate ::
  "(string \<Rightarrow> string + an_stream_event) \<Rightarrow> (llm_error + sse_event) list \<Rightarrow> an_state \<Rightarrow> (llm_error + stream_event) list" where
  "an_translate parse [] st = []"
| "an_translate parse (Inl e # items) st = [Inl e]"
| "an_translate parse (Inr sse # items) st =
     (if trim (se_data sse) = ''[DONE]'' then an_translate parse items st
      else
        (case parse (se_data sse) of
           Inl msg \<Rightarrow> [Inl (ResponseParse ''anthropic'' (''failed to parse stream event: '' @ msg))]
         | Inr e \<Rightarrow> (let (es, st1) = an_step e st in map Inr es @ an_translate parse items st1)))"

definition an_translate_stream ::
  "(string \<Rightarrow> string + an_stream_event) \<Rightarrow> (llm_error + sse_event) list \<Rightarrow> (llm_error + stream_event) list" where
  "an_translate_stream parse items = an_translate parse items an_state_new"

section \<open>Requests keep the conversation\<close>

fun an_block_wire :: "an_block \<Rightarrow> wire_item list" where
  "an_block_wire (AB_ToolUse i n v c) = [Wire_Call i]"
| "an_block_wire (AB_ToolResult i t e c) = [Wire_Result i]"
| "an_block_wire _ = []"

definition an_wire :: "an_message list \<Rightarrow> wire_item list" where
  "an_wire ms = concat (map (\<lambda>m. concat (map an_block_wire (am_content m))) ms)"

lemma an_part_wire: "an_block_wire (an_convert_part parse p) = part_wire p"
  by (cases p) (simp_all split: source_type.split)

lemma an_request_wire: "an_wire (an_messages parse r) = conversation_wire (filter (\<lambda>m. ms_role m \<noteq> Role_System) (rq_messages r))"
  by (simp add: an_wire_def conversation_wire_def an_messages_def an_convert_message_def o_def an_part_wire)

lemma an_set_cache_wire: "an_block_wire (an_set_cache_control cc b) = an_block_wire b"
  by (cases b) simp_all

lemma update_last_append: "update_last f (xs @ [x]) = xs @ [f x]"
  by (simp add: update_last_def)

lemma update_last_Nil [simp]: "update_last f [] = []"
  by (simp add: update_last_def)

text \<open>Forgetting the cache directives.\<close>

fun an_uncached :: "an_block \<Rightarrow> an_block" where
  "an_uncached (AB_Text t _) = AB_Text t None"
| "an_uncached (AB_Image s _) = AB_Image s None"
| "an_uncached (AB_ToolUse i n v _) = AB_ToolUse i n v None"
| "an_uncached (AB_ToolResult i c e _) = AB_ToolResult i c e None"
| "an_uncached b = b"

definition an_content :: "an_request \<Rightarrow> string list option \<times> (string \<times> an_block list) list" where
  "an_content q = (map_option (map as_text) (aq_system q), map (\<lambda>m. (am_role m, map an_uncached (am_content m))) (aq_messages q))"

lemma an_uncached_set [simp]: "an_uncached (an_set_cache_control cc b) = an_uncached b"
  by (cases b) simp_all

lemma map_update_last: "(\<And>x. g (f x) = g x) \<Longrightarrow> map g (update_last f xs) = map g xs"
  by (cases xs rule: rev_cases) (simp_all add: update_last_append)

lemma an_cache_user_content:
  "map (\<lambda>m. (am_role m, map an_uncached (am_content m))) (an_cache_user cc ms) =
     map (\<lambda>m. (am_role m, map an_uncached (am_content m))) ms"
  by (induction cc ms rule: an_cache_user.induct) (simp_all add: map_update_last)

text \<open>Injecting cache directives changes nothing the model reads.\<close>

lemma inject_keeps_content: "an_content (inject_cache_control q) = an_content q"
proof -
  have "map as_text (update_last (\<lambda>b. b\<lparr>as_cache_control := Some ''ephemeral''\<rparr>) bs) = map as_text bs" for bs
    by (rule map_update_last) simp
  then show ?thesis
    by (cases "aq_system q") (simp_all add: an_content_def inject_cache_control_def rev_map [symmetric] an_cache_user_content)
qed

section \<open>Streamed responses\<close>

text \<open>The translation of events that are already decoded.\<close>

fun an_events :: "an_stream_event list \<Rightarrow> an_state \<Rightarrow> stream_event list \<times> an_state" where
  "an_events [] st = ([], st)"
| "an_events (e # es) st = (let (out, st1) = an_step e st; (outs, st2) = an_events es st1 in (out @ outs, st2))"

lemma an_events_append:
  "an_events (xs @ ys) st =
     (fst (an_events xs st) @ fst (an_events ys (snd (an_events xs st))), snd (an_events ys (snd (an_events xs st))))"
  by (induction xs arbitrary: st) (simp_all add: split_beta Let_def)

lemma an_translate_events:
  assumes "list_all2 (\<lambda>sse e. parse (se_data sse) = Inr e \<and> trim (se_data sse) \<noteq> ''[DONE]'') sses es"
  shows "an_translate parse (map Inr sses) st = map Inr (fst (an_events es st))"
  using assms by (induction arbitrary: st rule: list_all2_induct) (simp_all add: split_beta Let_def)

lemma an_events_pings: "an_events (filter (\<lambda>e. e \<noteq> AE_Ping) es) st = an_events es st"
  by (induction es arbitrary: st) (auto simp: an_step_def split_beta Let_def)

text \<open>The events of a block, with its text in any pieces.\<close>

definition an_block_script :: "(json \<Rightarrow> string) \<Rightarrow> 32 word \<Rightarrow> an_block \<Rightarrow> an_stream_event list \<Rightarrow> bool" where
  "an_block_script render i b es \<longleftrightarrow>
     (case b of
        AB_Text t _ \<Rightarrow> \<exists>ps. concat ps = t \<and>
          es = AE_ContentBlockStart i (AB_Text [] None) # map (\<lambda>p. AE_ContentBlockDelta i (AD_Text p)) ps @ [AE_ContentBlockStop i]
      | AB_ToolUse call_id name v _ \<Rightarrow> \<exists>ps. concat ps = render v \<and>
          es = AE_ContentBlockStart i (AB_ToolUse call_id name (JObject []) None) #
            map (\<lambda>p. AE_ContentBlockDelta i (AD_InputJson p)) ps @ [AE_ContentBlockStop i]
      | AB_Thinking t s \<Rightarrow> \<exists>ps. concat ps = t \<and>
          es = AE_ContentBlockStart i (AB_Thinking [] []) #
            map (\<lambda>p. AE_ContentBlockDelta i (AD_Thinking p)) ps @ [AE_ContentBlockDelta i (AD_Signature s), AE_ContentBlockStop i]
      | _ \<Rightarrow> False)"

fun an_tool_id :: "an_block \<Rightarrow> string option" where
  "an_tool_id (AB_ToolUse i n v c) = Some i"
| "an_tool_id _ = None"

text \<open>The stream of a response: its blocks in order, the usage so far at the start and the final usage at
  the end, and pings anywhere.\<close>

definition an_script :: "(json \<Rightarrow> string) \<Rightarrow> an_usage \<Rightarrow> an_response \<Rightarrow> an_stream_event list \<Rightarrow> bool" where
  "an_script render u0 r es \<longleftrightarrow>
     distinct (List.map_filter an_tool_id (ar_content r)) \<and>
     (\<exists>ess. list_all2 (\<lambda>(i, b) es. an_block_script render i b es)
          (zip (map of_nat [0..<length (ar_content r)]) (ar_content r)) ess \<and>
        filter (\<lambda>e. e \<noteq> AE_Ping) es =
          AE_MessageStart (r\<lparr>ar_content := [], ar_stop_reason := None, ar_usage := u0\<rparr>) # concat ess @
          [AE_MessageDelta (ar_stop_reason r) (Some (ar_usage r)), AE_MessageStop])"

lemma an_delta_runs:
  "an_events (map (\<lambda>p. AE_ContentBlockDelta i (d p)) ps) st = (concat (map (\<lambda>p. an_delta_event i (d p) st) ps), st)"
  by (induction ps) (simp_all add: an_step_def)

text \<open>A block adds what it holds, whatever came before, and leaves stop reason and usage alone.\<close>

lemma an_block_effect:
  assumes "an_block_script render i b es" "\<And>j. an_tool_id b = Some j \<Longrightarrow> j \<notin> ca_id ` set (ac_tool_calls ac)"
  shows "fold process_event (fst (an_events es st)) ac = add_part (an_convert_block render b) ac"
    and "ax_stop_reason (snd (an_events es st)) = ax_stop_reason st"
    and "ax_final_usage (snd (an_events es st)) = ax_final_usage st"
proof -
  have "fold process_event (fst (an_events es st)) ac = add_part (an_convert_block render b) ac \<and>
      ax_stop_reason (snd (an_events es st)) = ax_stop_reason st \<and> ax_final_usage (snd (an_events es st)) = ax_final_usage st"
  proof (cases b)
    case (AB_Text t c)
    with assms(1) obtain ps where ps: "concat ps = t" "es = AE_ContentBlockStart i (AB_Text [] None) #
        map (\<lambda>p. AE_ContentBlockDelta i (AD_Text p)) ps @ [AE_ContentBlockStop i]" by (auto simp: an_block_script_def)
    show ?thesis
      by (simp add: ps(2) an_step_def an_block_started_def an_events_append an_delta_runs an_delta_event_def text_runs
          add_part_def AB_Text ps(1))
  next
    case (AB_Thinking t s)
    with assms(1) obtain ps where ps: "concat ps = t" "es = AE_ContentBlockStart i (AB_Thinking [] []) #
        map (\<lambda>p. AE_ContentBlockDelta i (AD_Thinking p)) ps @ [AE_ContentBlockDelta i (AD_Signature s), AE_ContentBlockStop i]"
      by (auto simp: an_block_script_def)
    show ?thesis
      by (simp add: ps(2) an_step_def an_block_started_def an_events_append an_delta_runs an_delta_event_def text_runs
          add_part_def AB_Thinking ps(1))
  next
    case (AB_ToolUse call_id name v c)
    with assms(1) obtain ps where ps: "concat ps = render v" "es = AE_ContentBlockStart i (AB_ToolUse call_id name (JObject []) None) #
        map (\<lambda>p. AE_ContentBlockDelta i (AD_InputJson p)) ps @ [AE_ContentBlockStop i]"
      by (auto simp: an_block_script_def)
    have new: "call_id \<notin> ca_id ` set (ac_tool_calls ac)" using assms(2) AB_ToolUse by simp
    have "process_event (ev_with_index i (ev_tool_call call_id (Some name) [])) ac =
        ac\<lparr>ac_tool_calls := ac_tool_calls ac @ [\<lparr>ca_id = call_id, ca_name = name, ca_arguments = []\<rparr>]\<rparr>"
      using add_call_delta_new [OF new]
      by (simp add: process_event_def ev_with_index_def ev_tool_call_def ev_empty_def or_empty_def)
    then show ?thesis
      using tool_runs [OF new, of "ac\<lparr>ac_tool_calls := ac_tool_calls ac @ [\<lparr>ca_id = call_id, ca_name = name, ca_arguments = []\<rparr>]\<rparr>" name "[]" i ps]
      by (simp add: ps(2) an_step_def an_block_started_def an_events_append an_delta_runs an_delta_event_def or_empty_def
          add_part_def AB_ToolUse ps(1))
  qed (use assms(1) in \<open>simp_all add: an_block_script_def\<close>)
  then show "fold process_event (fst (an_events es st)) ac = add_part (an_convert_block render b) ac"
    "ax_stop_reason (snd (an_events es st)) = ax_stop_reason st"
    "ax_final_usage (snd (an_events es st)) = ax_final_usage st" by blast+
qed

text \<open>All blocks of a response.\<close>

lemma an_blocks_effect:
  "list_all2 (\<lambda>(i, b) es. an_block_script render i b es) ibs ess \<Longrightarrow>
   distinct (map ca_id (ac_tool_calls ac) @ List.map_filter an_tool_id (map snd ibs)) \<Longrightarrow>
     fold process_event (fst (an_events (concat ess) st)) ac = fold add_part (map (an_convert_block render \<circ> snd) ibs) ac \<and>
     ax_stop_reason (snd (an_events (concat ess) st)) = ax_stop_reason st \<and>
     ax_final_usage (snd (an_events (concat ess) st)) = ax_final_usage st"
proof (induction ibs ess arbitrary: ac st rule: list_all2_induct)
  case (Cons ib ibs es ess)
  obtain i b where ib: "ib = (i, b)" by force
  have scr: "an_block_script render i b es" using Cons.hyps(1) by (simp add: ib)
  have new: "\<And>j. an_tool_id b = Some j \<Longrightarrow> j \<notin> ca_id ` set (ac_tool_calls ac)"
    using Cons.prems by (auto simp: ib)
  note one = an_block_effect [OF scr new, of st]
  have "distinct (map ca_id (ac_tool_calls (add_part (an_convert_block render b) ac)) @ List.map_filter an_tool_id (map snd ibs))"
    using Cons.prems by (cases b) (auto simp: ib add_part_def)
  from Cons.IH [OF this, of "snd (an_events es st)"] one show ?case
    by (simp add: an_events_append ib)
qed simp

lemma an_script_blocks:
  "list_all2 (\<lambda>(i, b) es. an_block_script render i b es) ibs ess \<Longrightarrow>
     list_all (\<lambda>b. streamable (an_convert_block render b)) (map snd ibs)"
proof (induction ibs ess rule: list_all2_induct)
  case (Cons ib ibs es ess)
  have "streamable (an_convert_block render b)"
    if "an_block_script render i b es" for i b
    using that by (cases b) (auto simp: an_block_script_def)
  then show ?case using Cons by (cases ib) simp
qed simp

text \<open>The response a stream adds up to.\<close>

lemma an_streamed:
  assumes "an_script render u0 r es"
  defines "res \<equiv> into_response (accumulate (fst (an_events es an_state_new)))"
  shows "content_view (rs_content res) = content_view (map (an_convert_block render) (ar_content r))"
    and "rs_finish_reason res = map_option an_map_stop_reason (ar_stop_reason r)"
    and "rs_id res = ar_id r" and "rs_model res = ar_model r"
    and "rs_usage res = usage_sum ((if au_input_tokens u0 > 0 \<or> au_output_tokens u0 > 0 then [an_convert_usage u0] else []) @
      [an_convert_usage (ar_usage r), an_convert_usage (ar_usage r)]) default_usage"
proof -
  let ?bs = "ar_content r" and ?m = "r\<lparr>ar_content := [], ar_stop_reason := None, ar_usage := u0\<rparr>"
  let ?ibs = "zip (map of_nat [0..<length ?bs]) ?bs"
  from assms(1) obtain ess where ess: "distinct (List.map_filter an_tool_id ?bs)"
    "list_all2 (\<lambda>(i, b) es. an_block_script render i b es) ?ibs ess"
    "filter (\<lambda>e. e \<noteq> AE_Ping) es = AE_MessageStart ?m # concat ess @ [AE_MessageDelta (ar_stop_reason r) (Some (ar_usage r)), AE_MessageStop]"
    by (auto simp: an_script_def)
  have snd_ibs: "map snd ?ibs = ?bs" by simp
  then have conv: "map (an_convert_block render \<circ> snd) ?ibs = map (an_convert_block render) ?bs" by (metis map_map)
  define start where "start = fst (an_step (AE_MessageStart ?m) an_state_new)"
  define ac where "ac = fold process_event start accumulator_new"
  have st0: "snd (an_step (AE_MessageStart ?m) an_state_new) = an_state_new" by (simp add: an_step_def Let_def)
  have ac: "ac_tool_calls ac = []" "ac_text_buffer ac = []" "ac_thinking_buffer ac = []" "ac_response_id ac = Some (ar_id r)"
    "ac_model ac = Some (ar_model r)"
    "ac_usage ac = usage_sum (if au_input_tokens u0 > 0 \<or> au_output_tokens u0 > 0 then [an_convert_usage u0] else []) default_usage"
    by (simp_all add: ac_def start_def an_step_def Let_def process_event_def ev_start_def ev_empty_def accumulator_new_def
        ev_usage_delta_def add_usage_def an_convert_usage_def)
  have fx: "fold process_event (fst (an_events (concat ess) an_state_new)) ac = fold add_part (map (an_convert_block render) ?bs) ac"
    "ax_stop_reason (snd (an_events (concat ess) an_state_new)) = None"
    "ax_final_usage (snd (an_events (concat ess) an_state_new)) = None"
    using an_blocks_effect [OF ess(2), of ac an_state_new] ess(1) ac(1) by (simp_all only: snd_ibs conv) (simp_all add: an_state_new_def)
  let ?e = "ev_end (map_option an_map_stop_reason (ar_stop_reason r)) (Some (an_convert_usage (ar_usage r)))"
  have "fst (an_events es an_state_new) =
      start @ fst (an_events (concat ess) an_state_new) @ [ev_usage_delta (an_convert_usage (ar_usage r)), ?e]"
  proof -
    have "fst (an_events es an_state_new) = fst (an_events (filter (\<lambda>e. e \<noteq> AE_Ping) es) an_state_new)"
      by (simp add: an_events_pings)
    then show ?thesis
      using fx(2) by (simp add: ess(3) split_beta st0 start_def [symmetric] an_events_append)
        (simp add: an_step_def Let_def split: option.split)
  qed
  then have "accumulate (fst (an_events es an_state_new)) =
      process_event ?e (process_event (ev_usage_delta (an_convert_usage (ar_usage r))) (fold add_part (map (an_convert_block render) ?bs) ac))"
    by (simp add: accumulate_def ac_def [symmetric] fx(1))
  then have res: "res = into_response ((fold add_part (map (an_convert_block render) ?bs) ac)
      \<lparr>ac_usage := usage_add (usage_add (ac_usage ac) (an_convert_usage (ar_usage r))) (an_convert_usage (ar_usage r)),
       ac_finish_reason := map_option an_map_stop_reason (ar_stop_reason r)\<rparr>)"
    by (simp add: res_def into_response_def process_event_def ev_usage_delta_def ev_end_def ev_empty_def add_usage_def add_part_fields)
  have reg: "list_all streamable (map (an_convert_block render) ?bs)"
    using an_script_blocks [OF ess(2)] by (simp only: snd_ibs list.pred_map comp_def)
  show "content_view (rs_content res) = content_view (map (an_convert_block render) ?bs)"
    using add_part_view [OF reg, of ac] ac(1-3)
    by (simp add: res into_response_view Let_def)
  show "rs_finish_reason res = map_option an_map_stop_reason (ar_stop_reason r)" "rs_id res = ar_id r" "rs_model res = ar_model r"
    by (simp_all add: res into_response_def add_part_fields ac or_empty_def)
  show "rs_usage res = usage_sum ((if au_input_tokens u0 > 0 \<or> au_output_tokens u0 > 0 then [an_convert_usage u0] else []) @
      [an_convert_usage (ar_usage r), an_convert_usage (ar_usage r)]) default_usage"
    by (simp add: res into_response_def ac usage_sum_append)
qed

interpretation anthropic: streaming_provider
  "\<lambda>es. fst (an_events es an_state_new)" "an_convert_response render" "an_script render u0" for render u0
  by unfold_locales (simp_all add: an_streamed an_convert_response_def)

text \<open>
  A response that arrives as a stream says what the same response says when it is sent whole: for
  every division of its texts and arguments into pieces, with pings anywhere, the translated events
  add up to the same reasoning, text and calls, and the same stop reason, identifier and model.
\<close>

theorem an_streamed_whole:
  assumes "an_script render u0 r es"
    and "list_all2 (\<lambda>sse e. parse (se_data sse) = Inr e \<and> trim (se_data sse) \<noteq> ''[DONE]'') sses es"
  shows "\<exists>evs. an_translate_stream parse (map Inr sses) = map Inr evs \<and>
    (let streamed = into_response (accumulate evs); whole = an_convert_response render r
     in content_view (rs_content streamed) = content_view (rs_content whole) \<and>
        rs_finish_reason streamed = rs_finish_reason whole \<and>
        rs_id streamed = rs_id whole \<and> rs_model streamed = rs_model whole)"
  using an_streamed(1-4) [OF assms(1)] an_translate_events [OF assms(2), of an_state_new] anthropic.streamed_view [OF assms(1)]
  by (auto simp: an_translate_stream_def an_convert_response_def Let_def)

text \<open>Its usage does not agree: the usage at the start is added to the final one, and the final usage is
  carried by two events and counted twice.\<close>

theorem an_streamed_usage:
  assumes "an_script render u0 r es"
  shows "us_output_tokens (rs_usage (into_response (accumulate (fst (an_events es an_state_new))))) =
      (if au_input_tokens u0 > 0 \<or> au_output_tokens u0 > 0 then au_output_tokens u0 else 0) +
      2 * us_output_tokens (rs_usage (an_convert_response render r))"
  unfolding an_streamed(5) [OF assms]
  by (simp add: usage_add_def default_usage_def an_convert_usage_def an_convert_response_def)

definition an_sample :: an_response where
  "an_sample = \<lparr>ar_id = ''m1'', ar_model = ''claude'', ar_content = [AB_Text ''hi'' None, AB_ToolUse ''c1'' ''ls'' (JObject []) None],
     ar_stop_reason = Some ''tool_use'',
     ar_usage = \<lparr>au_input_tokens = 5, au_output_tokens = 7, au_cache_read_input_tokens = None, au_cache_creation_input_tokens = None\<rparr>\<rparr>"

definition an_sample_usage :: an_usage where
  "an_sample_usage = \<lparr>au_input_tokens = 5, au_output_tokens = 1, au_cache_read_input_tokens = None, au_cache_creation_input_tokens = None\<rparr>"

definition an_sample_stream :: "an_stream_event list" where
  "an_sample_stream =
     [AE_MessageStart (an_sample\<lparr>ar_content := [], ar_stop_reason := None, ar_usage := an_sample_usage\<rparr>), AE_Ping,
      AE_ContentBlockStart 0 (AB_Text [] None), AE_ContentBlockDelta 0 (AD_Text ''h''), AE_ContentBlockDelta 0 (AD_Text ''i''),
      AE_ContentBlockStop 0,
      AE_ContentBlockStart 1 (AB_ToolUse ''c1'' ''ls'' (JObject []) None), AE_ContentBlockDelta 1 (AD_InputJson ''{}''),
      AE_ContentBlockStop 1,
      AE_MessageDelta (Some ''tool_use'') (Some (ar_usage an_sample)), AE_MessageStop]"

lemma an_sample_script: "an_script (\<lambda>v. ''{}'') an_sample_usage an_sample an_sample_stream"
proof -
  let ?ess = "[[AE_ContentBlockStart 0 (AB_Text [] None), AE_ContentBlockDelta 0 (AD_Text ''h''), AE_ContentBlockDelta 0 (AD_Text ''i''),
      AE_ContentBlockStop 0],
     [AE_ContentBlockStart 1 (AB_ToolUse ''c1'' ''ls'' (JObject []) None), AE_ContentBlockDelta 1 (AD_InputJson ''{}''),
      AE_ContentBlockStop 1]]"
  have "an_block_script (\<lambda>v. ''{}'') 0 (AB_Text ''hi'' None) (?ess ! 0)"
    by (auto simp: an_block_script_def intro!: exI [of _ "[''h'', ''i'']"])
  moreover have "an_block_script (\<lambda>v. ''{}'') 1 (AB_ToolUse ''c1'' ''ls'' (JObject []) None) (?ess ! 1)"
    by (auto simp: an_block_script_def intro!: exI [of _ "[''{}'']"])
  ultimately have "list_all2 (\<lambda>(i, b) es. an_block_script (\<lambda>v. ''{}'') i b es)
      (zip (map of_nat [0..<length (ar_content an_sample)]) (ar_content an_sample)) ?ess"
    by (simp add: an_sample_def)
  moreover have "filter (\<lambda>e. e \<noteq> AE_Ping) an_sample_stream =
      AE_MessageStart (an_sample\<lparr>ar_content := [], ar_stop_reason := None, ar_usage := an_sample_usage\<rparr>) # concat ?ess @
      [AE_MessageDelta (ar_stop_reason an_sample) (Some (ar_usage an_sample)), AE_MessageStop]"
    by (simp add: an_sample_stream_def an_sample_def)
  moreover have "distinct (List.map_filter an_tool_id (ar_content an_sample))"
    by (simp add: an_sample_def)
  ultimately show ?thesis unfolding an_script_def by blast
qed

text \<open>The events are told apart by the length of their data.\<close>

definition an_sample_sses :: "sse_event list" where
  "an_sample_sses = map (\<lambda>i. \<lparr>se_event_type = ''message'', se_data = replicate i CHR ''x'', se_id = None\<rparr>) [0..<11]"

definition an_sample_parse :: "string \<Rightarrow> string + an_stream_event" where
  "an_sample_parse s = (if length s < 11 then Inr (an_sample_stream ! length s) else Inl ''?'')"

lemma an_sample_decoded:
  "list_all2 (\<lambda>sse e. an_sample_parse (se_data sse) = Inr e \<and> trim (se_data sse) \<noteq> ''[DONE]'') an_sample_sses an_sample_stream"
proof -
  have "trim s = s" if "set s \<subseteq> {CHR ''x''}" for s
  proof -
    have "\<not> is_ws CHR ''x''" by (simp add: char_class_defs)
    then have "dropWhile is_ws t = t" if "set t \<subseteq> {CHR ''x''}" for t using that by (cases t) auto
    from this [of s] this [of "rev s"] show ?thesis using that by (simp add: trim_def trim_start_def trim_end_def)
  qed
  then show ?thesis
    by (simp add: an_sample_sses_def an_sample_parse_def an_sample_stream_def upt_rec)
qed

lemma an_streamed_whole_witness:
  "\<exists>evs. an_translate_stream an_sample_parse (map Inr an_sample_sses) = map Inr evs \<and>
    content_view (rs_content (into_response (accumulate evs))) =
      ([], ''hi'', [\<lparr>tc_id = ''c1'', tc_name = ''ls'', tc_arguments = ''{}'', tc_raw_arguments = None\<rparr>])"
  using an_streamed_whole [OF an_sample_script an_sample_decoded]
  by (auto simp: Let_def an_sample_def an_convert_response_def content_view_def content_tool_calls_def List.map_filter_def)

lemma an_streamed_usage_witness:
  "us_output_tokens (rs_usage (into_response (accumulate (fst (an_events an_sample_stream an_state_new))))) = 15"
  using an_streamed_usage [OF an_sample_script]
  by (simp add: an_sample_def an_sample_usage_def an_convert_response_def an_convert_usage_def)

end
