(* ===== verification/Llm_OpenAi.thy ===== *)
theory Llm_OpenAi
  imports Llm_Stream Sse
begin

text \<open>
  The OpenAI provider: the native types and conversions, \<open>smasher-llm/src/provider/openai/types.rs\<close>,
  and the translation of its event stream, \<open>smasher-llm/src/provider/openai/stream.rs\<close>.  The parser of
  JSON texts is \<open>serde_json\<close>'s and a parameter.
\<close>

section \<open>Types\<close>

datatype oa_content_part =
    OP_InputText string
  | OP_InputImage "string option" "string option"

datatype oa_content = OC_Text string | OC_Parts "oa_content_part list"

datatype oa_input_item =
    OI_Message string oa_content
  | OI_FunctionCallOutput string string

record oa_tool =
  ot_tool_type :: string
  ot_name :: string
  ot_description :: string
  ot_parameters :: json
  ot_strict :: "bool option"

record oa_text_format =
  of_format_type :: string
  of_name :: "string option"
  of_schema :: "json option"
  of_strict :: "bool option"

record oa_request =
  oq_model :: string
  oq_input :: "oa_input_item list"
  oq_instructions :: "string option"
  oq_max_output_tokens :: "32 word option"
  oq_temperature :: "f32 option"
  oq_top_p :: "f32 option"
  oq_tools :: "oa_tool list option"
  oq_tool_choice :: "json option"
  oq_stream :: "bool option"
  oq_reasoning_effort :: "string option"
  oq_text_format :: "oa_text_format option"
  oq_extra :: "(string \<times> json) list option"

text \<open>Output items: a message with its role and texts; a call with its item id, call id, name and
  arguments; the summary texts of a reasoning.\<close>

datatype oa_output_item =
    OO_Message string "string list"
  | OO_FunctionCall string string string string
  | OO_Reasoning "string list"

record oa_usage =
  ou_input_tokens :: "32 word"
  ou_output_tokens :: "32 word"
  ou_cached_tokens :: "32 word option"
  ou_reasoning_tokens :: "32 word option"

record oa_response =
  or_id :: string
  or_model :: string
  or_output :: "oa_output_item list"
  or_usage :: "oa_usage option"
  or_status :: "string option"
  or_incomplete_reason :: "string option"

section \<open>Requests\<close>

fun oa_convert_part :: "content_part \<Rightarrow> oa_content_part option" where
  "oa_convert_part (CP_Text t) = Some (OP_InputText t)"
| "oa_convert_part (CP_Image img) =
     (case im_source_type img of
        Source_Url \<Rightarrow> Some (OP_InputImage (Some (im_data img)) None)
      | Source_Base64 \<Rightarrow>
          (let mime = (case im_media_type img of Some m \<Rightarrow> m | None \<Rightarrow> ''image/png'')
           in Some (OP_InputImage (Some (''data:'' @ mime @ '';base64,'' @ im_data img)) None)))"
| "oa_convert_part _ = None"

definition oa_convert_parts :: "content_part list \<Rightarrow> oa_content" where
  "oa_convert_parts parts =
     (case (case parts of [p] \<Rightarrow> Llm_Types.as_text p | _ \<Rightarrow> None) of
        Some t \<Rightarrow> OC_Text t
      | None \<Rightarrow>
          (let ps = List.map_filter oa_convert_part parts in if ps = [] then OC_Text [] else OC_Parts ps))"

fun oa_result_item :: "content_part \<Rightarrow> oa_input_item option" where
  "oa_result_item (CP_ToolResult tr) = Some (OI_FunctionCallOutput (tr_tool_call_id tr) (tr_content tr))"
| "oa_result_item _ = None"

definition oa_message_items :: "message \<Rightarrow> oa_input_item list" where
  "oa_message_items m =
     (case ms_role m of
        Role_System \<Rightarrow> []
      | Role_Developer \<Rightarrow> (case message_text m of Some t \<Rightarrow> [OI_Message ''developer'' (OC_Text t)] | None \<Rightarrow> [])
      | Role_User \<Rightarrow> [OI_Message ''user'' (oa_convert_parts (ms_content m))]
      | Role_Assistant \<Rightarrow>
          (if message_has_tool_calls m
           then (let texts = List.map_filter Llm_Types.as_text (ms_content m)
                 in if texts = [] then [] else [OI_Message ''assistant'' (OC_Text (concat texts))])
           else [OI_Message ''assistant'' (oa_convert_parts (ms_content m))])
      | Role_Tool \<Rightarrow> List.map_filter oa_result_item (ms_content m))"

definition oa_input :: "message list \<Rightarrow> oa_input_item list" where
  "oa_input ms = concat (map oa_message_items ms)"

text \<open>The last system message with a text replaces the prompt.\<close>

definition oa_instructions :: "request \<Rightarrow> string option" where
  "oa_instructions r =
     fold (\<lambda>m acc. if ms_role m = Role_System then (case message_text m of Some t \<Rightarrow> Some t | None \<Rightarrow> acc) else acc)
       (rq_messages r) (rq_system_prompt r)"

definition json_keys :: "json \<Rightarrow> string list" where
  "json_keys v = (case json_members v of Some kvs \<Rightarrow> map fst kvs | None \<Rightarrow> [])"

definition json_strings :: "json \<Rightarrow> string list" where
  "json_strings v = (case json_elements v of Some vs \<Rightarrow> List.map_filter json_string vs | None \<Rightarrow> [])"

text \<open>The schema that is sent, and whether strict validation is asked for.\<close>

definition oa_strict_schema :: "json \<Rightarrow> json \<times> bool" where
  "oa_strict_schema params =
     (case params of
        JObject obj \<Rightarrow>
          (if Option.bind (map_of obj ''type'') json_string = Some ''object''
           then (let prop_keys = (case map_of obj ''properties'' of Some p \<Rightarrow> json_keys p | None \<Rightarrow> []);
                     required_keys = (case map_of obj ''required'' of Some p \<Rightarrow> json_strings p | None \<Rightarrow> [])
                 in if list_all (\<lambda>k. k \<in> set required_keys) prop_keys
                    then (JObject (if map_of obj ''additionalProperties'' = None
                            then bt_insert ''additionalProperties'' (JBool False) obj else obj), True)
                    else (params, False))
           else (params, True))
      | _ \<Rightarrow> (params, True))"

definition oa_convert_tool :: "tool_definition \<Rightarrow> oa_tool" where
  "oa_convert_tool t =
     (let (params, strict) = oa_strict_schema (td_parameters t)
      in \<lparr>ot_tool_type = ''function'', ot_name = td_name t, ot_description = td_description t, ot_parameters = params,
          ot_strict = (if strict then Some True else None)\<rparr>)"

fun oa_convert_choice :: "tool_choice \<Rightarrow> json" where
  "oa_convert_choice TC_Auto = JString ''auto''"
| "oa_convert_choice TC_None = JString ''none''"
| "oa_convert_choice TC_Required = JString ''required''"
| "oa_convert_choice (TC_Specific name) = JObject [(''name'', JString name), (''type'', JString ''function'')]"

definition oa_effort :: "thinking_config \<Rightarrow> string option" where
  "oa_effort tk =
     (if \<not> tk_enabled tk then None
      else Some (case tk_budget_tokens tk of
          Some b \<Rightarrow> if b < 5000 then ''low'' else if b < 20000 then ''medium'' else ''high''
        | None \<Rightarrow> ''high''))"

fun oa_format :: "response_format \<Rightarrow> oa_text_format option" where
  "oa_format (RF_JsonSchema name schema strict) =
     Some \<lparr>of_format_type = ''json_schema'', of_name = Some name, of_schema = Some schema, of_strict = Some strict\<rparr>"
| "oa_format RF_JsonObject = Some \<lparr>of_format_type = ''json_object'', of_name = None, of_schema = None, of_strict = None\<rparr>"
| "oa_format RF_Text = None"

definition oa_convert_request :: "request \<Rightarrow> oa_request" where
  "oa_convert_request r =
     \<lparr>oq_model = rq_model r, oq_input = oa_input (rq_messages r), oq_instructions = oa_instructions r,
      oq_max_output_tokens = rq_max_tokens r, oq_temperature = rq_temperature r, oq_top_p = rq_top_p r,
      oq_tools = map_option (map oa_convert_tool) (rq_tools r),
      oq_tool_choice = map_option oa_convert_choice (rq_tool_choice r), oq_stream = rq_stream r,
      oq_reasoning_effort = Option.bind (rq_thinking r) oa_effort,
      oq_text_format = Option.bind (rq_response_format r) oa_format,
      oq_extra = nonempty_option r ''openai''\<rparr>"

section \<open>Responses\<close>

fun oa_convert_item :: "oa_output_item \<Rightarrow> content_part list" where
  "oa_convert_item (OO_Message role texts) = map CP_Text texts"
| "oa_convert_item (OO_FunctionCall i call_id name arguments) =
     [CP_ToolCall \<lparr>tc_id = call_id, tc_name = name, tc_arguments = arguments, tc_raw_arguments = None\<rparr>]"
| "oa_convert_item (OO_Reasoning summary) =
     map (\<lambda>t. CP_Thinking \<lparr>th_thinking = t, th_signature = None, th_redacted = False\<rparr>) summary"

definition oa_content :: "oa_response \<Rightarrow> content_part list" where
  "oa_content r = concat (map oa_convert_item (or_output r))"

definition oa_convert_finish :: "string option \<Rightarrow> string option \<Rightarrow> content_part list \<Rightarrow> finish_reason" where
  "oa_convert_finish status incomplete content =
     (if status = Some ''completed'' then (if list_ex is_tool_call content then FR_ToolUse else FR_Stop)
      else if status = Some ''incomplete'' then (if incomplete = Some ''max_output_tokens'' then FR_Length else FR_Length)
      else if status = Some ''failed'' then FR_Error
      else FR_Stop)"

definition positive :: "32 word option \<Rightarrow> 32 word option" where
  "positive x = (case x of Some t \<Rightarrow> if t > 0 then Some t else None | None \<Rightarrow> None)"

definition oa_usage_of :: "32 word \<Rightarrow> 32 word \<Rightarrow> 32 word option \<Rightarrow> 32 word option \<Rightarrow> usage" where
  "oa_usage_of i out cached reasoning =
     \<lparr>us_input_tokens = i, us_output_tokens = out, us_cache_read_tokens = positive cached, us_cache_creation_tokens = None,
      us_reasoning_tokens = positive reasoning, us_total_tokens = None, us_raw = None\<rparr>"

definition oa_convert_usage :: "oa_usage option \<Rightarrow> usage" where
  "oa_convert_usage u =
     (case u of
        Some v \<Rightarrow> oa_usage_of (ou_input_tokens v) (ou_output_tokens v) (ou_cached_tokens v) (ou_reasoning_tokens v)
      | None \<Rightarrow> default_usage)"

definition oa_convert_response :: "oa_response \<Rightarrow> response" where
  "oa_convert_response r =
     \<lparr>rs_id = or_id r, rs_model = or_model r, rs_content = oa_content r,
      rs_finish_reason = Some (oa_convert_finish (or_status r) (or_incomplete_reason r) (oa_content r)),
      rs_usage = oa_convert_usage (or_usage r), rs_warnings = [], rs_rate_limit = None,
      rs_provider = Some ''openai'', rs_raw = None\<rparr>"

section \<open>Streams\<close>

record oa_state =
  ox_call_id :: "string option"
  ox_tool_name :: "string option"
  ox_content_index :: "32 word"

definition oa_state_new :: oa_state where
  "oa_state_new = \<lparr>ox_call_id = None, ox_tool_name = None, ox_content_index = 0\<rparr>"

definition json_at :: "string list \<Rightarrow> json \<Rightarrow> json" where
  "json_at path v = fold json_index path v"

definition oa_item_added :: "json \<Rightarrow> oa_state \<Rightarrow> oa_state" where
  "oa_item_added d st =
     (let item = json_index ''item'' d;
          st1 = (if json_string (json_index ''type'' item) = Some ''function_call''
                 then st\<lparr>ox_call_id := json_string (json_index ''call_id'' item),
                         ox_tool_name := json_string (json_index ''name'' item)\<rparr>
                 else st)
      in (case json_u64 (json_index ''output_index'' d) of
            Some n \<Rightarrow> st1\<lparr>ox_content_index := of_nat n\<rparr> | None \<Rightarrow> st1))"

definition oa_u32 :: "json \<Rightarrow> 32 word" where
  "oa_u32 v = (case json_u64 v of Some n \<Rightarrow> of_nat n | None \<Rightarrow> 0)"

definition oa_final_usage :: "json \<Rightarrow> usage option" where
  "oa_final_usage resp =
     map_option (\<lambda>u. oa_usage_of (oa_u32 (json_index ''input_tokens'' u)) (oa_u32 (json_index ''output_tokens'' u))
       (Option.bind (json_field ''input_tokens_details'' u) (\<lambda>d. map_option of_nat (json_u64 (json_index ''cached_tokens'' d))))
       (Option.bind (json_field ''output_tokens_details'' u) (\<lambda>d. map_option of_nat (json_u64 (json_index ''reasoning_tokens'' d)))))
     (json_field ''usage'' resp)"

definition oa_has_calls :: "json \<Rightarrow> bool" where
  "oa_has_calls resp =
     (case Option.bind (json_field ''output'' resp) json_elements of
        Some items \<Rightarrow> list_ex (\<lambda>item. json_string (json_index ''type'' item) = Some ''function_call'') items
      | None \<Rightarrow> False)"

definition oa_final_reason :: "json \<Rightarrow> finish_reason" where
  "oa_final_reason resp =
     (case json_string (json_index ''status'' resp) of
        Some status \<Rightarrow>
          (if status = ''completed'' then (if oa_has_calls resp then FR_ToolUse else FR_Stop)
           else if status = ''incomplete'' then FR_Length
           else if status = ''failed'' then FR_Error
           else FR_Stop)
      | None \<Rightarrow> FR_Stop)"

definition oa_failed_message :: "json option \<Rightarrow> string" where
  "oa_failed_message data =
     (case data of
        Some d \<Rightarrow> (case json_string (json_at [''error'', ''message''] d) of Some m \<Rightarrow> m | None \<Rightarrow> ''response failed'')
      | None \<Rightarrow> ''response failed'')"

text \<open>A step, given the kind of event and its data if they can be parsed.\<close>

definition oa_step :: "string \<Rightarrow> json option \<Rightarrow> oa_state \<Rightarrow> stream_event list \<times> oa_state" where
  "oa_step kind data st =
     (let delta = Option.bind data (\<lambda>d. json_string (json_index ''delta'' d)) in
      if kind = ''response.created'' then
        (case data of
           Some d \<Rightarrow>
             (let resp = (case json_field ''response'' d of Some x \<Rightarrow> x | None \<Rightarrow> d)
              in ([ev_start (or_empty (json_string (json_index ''id'' resp))) (or_empty (json_string (json_index ''model'' resp)))], st))
         | None \<Rightarrow> ([], st))
      else if kind = ''response.output_item.added'' then
        (case data of Some d \<Rightarrow> ([], oa_item_added d st) | None \<Rightarrow> ([], st))
      else if kind = ''response.output_text.delta'' then
        (case delta of Some t \<Rightarrow> ([ev_with_index (ox_content_index st) (ev_text t)], st) | None \<Rightarrow> ([], st))
      else if kind = ''response.function_call_arguments.delta'' then
        (case delta of
           Some t \<Rightarrow>
             ([ev_with_index (ox_content_index st) (ev_tool_call (or_empty (ox_call_id st)) (ox_tool_name st) t)],
              st\<lparr>ox_tool_name := None\<rparr>)
         | None \<Rightarrow> ([], st))
      else if kind = ''response.reasoning_summary_text.delta'' then
        (case delta of Some t \<Rightarrow> ([ev_with_index (ox_content_index st) (ev_thinking t)], st) | None \<Rightarrow> ([], st))
      else if kind = ''response.output_item.done'' then
        ([], st\<lparr>ox_call_id := None, ox_tool_name := None\<rparr>)
      else if kind = ''response.completed'' then
        (case data of
           Some d \<Rightarrow> (let resp = json_index ''response'' d in ([ev_end (Some (oa_final_reason resp)) (oa_final_usage resp)], st))
         | None \<Rightarrow> ([ev_end (Some FR_Stop) None], st))
      else if kind = ''response.failed'' then ([ev_error (oa_failed_message data)], st)
      else ([], st))"

text \<open>The translation, over the items of the event stream; it ends with the first error.\<close>

fun oa_translate :: "(string \<Rightarrow> json option) \<Rightarrow> (llm_error + sse_event) list \<Rightarrow> oa_state \<Rightarrow> (llm_error + stream_event) list" where
  "oa_translate parse [] st = []"
| "oa_translate parse (Inl e # items) st = [Inl e]"
| "oa_translate parse (Inr sse # items) st =
     (let (es, st1) = oa_step (se_event_type sse) (parse (se_data sse)) st in map Inr es @ oa_translate parse items st1)"

definition oa_translate_stream :: "(string \<Rightarrow> json option) \<Rightarrow> (llm_error + sse_event) list \<Rightarrow> (llm_error + stream_event) list" where
  "oa_translate_stream parse items = oa_translate parse items oa_state_new"

section \<open>Streamed responses\<close>

type_synonym oa_event = "string \<times> json option"

text \<open>The translation of events whose data is parsed.\<close>

fun oa_events :: "oa_event list \<Rightarrow> oa_state \<Rightarrow> stream_event list \<times> oa_state" where
  "oa_events [] st = ([], st)"
| "oa_events (e # es) st = (let (out, st1) = oa_step (fst e) (snd e) st; (outs, st2) = oa_events es st1 in (out @ outs, st2))"

lemma oa_events_append:
  "oa_events (xs @ ys) st =
     (fst (oa_events xs st) @ fst (oa_events ys (snd (oa_events xs st))), snd (oa_events ys (snd (oa_events xs st))))"
  by (induction xs arbitrary: st) (simp_all add: split_beta Let_def)

lemma oa_translate_events:
  "oa_translate parse (map Inr sses) st = map Inr (fst (oa_events (map (\<lambda>s. (se_event_type s, parse (se_data s))) sses) st))"
  by (induction sses arbitrary: st) (simp_all add: split_beta Let_def)

definition oa_kinds :: "string list" where
  "oa_kinds =
     [''response.created'', ''response.output_item.added'', ''response.output_text.delta'',
      ''response.function_call_arguments.delta'', ''response.reasoning_summary_text.delta'', ''response.output_item.done'',
      ''response.completed'', ''response.failed'']"

lemma oa_events_other: "oa_events (filter (\<lambda>e. List.member oa_kinds (fst e)) es) st = oa_events es st"
proof (induction es arbitrary: st)
  case (Cons e es)
  have "oa_step kind d st = ([], st)" if "\<not> List.member oa_kinds kind" for kind d
    using that by (simp add: oa_step_def oa_kinds_def Let_def)
  with Cons show ?case by (auto simp: split_beta Let_def)
qed simp

text \<open>The events of an output item: it is announced, its text arrives in pieces, it is done.\<close>

definition oa_said :: "string \<Rightarrow> string \<Rightarrow> oa_event \<Rightarrow> bool" where
  "oa_said kind t e \<longleftrightarrow> fst e = kind \<and> Option.bind (snd e) (\<lambda>d. json_string (json_index ''delta'' d)) = Some t"

definition oa_item_script :: "oa_output_item \<Rightarrow> oa_event list \<Rightarrow> bool" where
  "oa_item_script item es \<longleftrightarrow>
     (\<exists>d ps ds e. es = (''response.output_item.added'', Some d) # ds @ [(''response.output_item.done'', e)] \<and>
        (case item of
           OO_Message role texts \<Rightarrow>
             json_at [''item'', ''type''] d = JString ''message'' \<and>
             list_all2 (oa_said ''response.output_text.delta'') ps ds \<and> concat ps = concat texts
         | OO_FunctionCall i call_id name arguments \<Rightarrow>
             json_at [''item'', ''type''] d = JString ''function_call'' \<and> json_at [''item'', ''call_id''] d = JString call_id \<and>
             json_at [''item'', ''name''] d = JString name \<and>
             list_all2 (oa_said ''response.function_call_arguments.delta'') ps ds \<and> ps \<noteq> [] \<and> concat ps = arguments
         | OO_Reasoning summary \<Rightarrow>
             json_at [''item'', ''type''] d = JString ''reasoning'' \<and>
             list_all2 (oa_said ''response.reasoning_summary_text.delta'') ps ds \<and> concat ps = concat summary))"

definition json_u32 :: "32 word \<Rightarrow> json" where
  "json_u32 w = JNumber (JPosInt (unat w))"

definition oa_usage_json :: "oa_usage \<Rightarrow> json" where
  "oa_usage_json u =
     JObject ([(''input_tokens'', json_u32 (ou_input_tokens u)), (''output_tokens'', json_u32 (ou_output_tokens u))] @
       (case ou_cached_tokens u of Some n \<Rightarrow> [(''input_tokens_details'', JObject [(''cached_tokens'', json_u32 n)])] | None \<Rightarrow> []) @
       (case ou_reasoning_tokens u of Some n \<Rightarrow> [(''output_tokens_details'', JObject [(''reasoning_tokens'', json_u32 n)])] | None \<Rightarrow> []))"

fun oa_item_type :: "oa_output_item \<Rightarrow> string" where
  "oa_item_type (OO_Message _ _) = ''message''"
| "oa_item_type (OO_FunctionCall _ _ _ _) = ''function_call''"
| "oa_item_type (OO_Reasoning _) = ''reasoning''"

fun oa_call_id :: "oa_output_item \<Rightarrow> string option" where
  "oa_call_id (OO_FunctionCall i call_id name arguments) = Some call_id"
| "oa_call_id _ = None"

text \<open>The stream of a response: it is created, its items follow in order, and the completed response
  closes it.  Events of other kinds may come anywhere.\<close>

definition oa_script :: "oa_response \<Rightarrow> oa_event list \<Rightarrow> bool" where
  "oa_script r es \<longleftrightarrow>
     distinct (List.map_filter oa_call_id (or_output r)) \<and>
     (\<exists>created ess completed items.
        filter (\<lambda>e. List.member oa_kinds (fst e)) es =
          (''response.created'', Some created) # concat ess @ [(''response.completed'', Some completed)] \<and>
        json_at [''response'', ''id''] created = JString (or_id r) \<and>
        json_at [''response'', ''model''] created = JString (or_model r) \<and>
        list_all2 oa_item_script (or_output r) ess \<and>
        json_at [''response'', ''status''] completed = (case or_status r of Some s \<Rightarrow> JString s | None \<Rightarrow> JNull) \<and>
        json_field ''usage'' (json_index ''response'' completed) = map_option oa_usage_json (or_usage r) \<and>
        json_field ''output'' (json_index ''response'' completed) = Some (JArray items) \<and>
        map (json_index ''type'') items = map (\<lambda>item. JString (oa_item_type item)) (or_output r))"

lemma oa_text_runs:
  "list_all2 (oa_said ''response.output_text.delta'') ps ds \<Longrightarrow>
     oa_events ds st = (map (\<lambda>p. ev_with_index (ox_content_index st) (ev_text p)) ps, st)"
  by (induction ps ds rule: list_all2_induct) (auto simp: oa_said_def oa_step_def)

lemma oa_thinking_runs:
  "list_all2 (oa_said ''response.reasoning_summary_text.delta'') ps ds \<Longrightarrow>
     oa_events ds st = (map (\<lambda>p. ev_with_index (ox_content_index st) (ev_thinking p)) ps, st)"
  by (induction ps ds rule: list_all2_induct) (auto simp: oa_said_def oa_step_def)

lemma oa_call_runs:
  "list_all2 (oa_said ''response.function_call_arguments.delta'') ps ds \<Longrightarrow> ox_tool_name st = None \<Longrightarrow> ox_call_id st = Some i \<Longrightarrow>
     oa_events ds st = (map (\<lambda>p. ev_with_index (ox_content_index st) (ev_tool_call i None p)) ps, st)"
proof (induction ps ds rule: list_all2_induct)
  case (Cons p ps d ds)
  have st: "oa_step (fst d) (snd d) st = ([ev_with_index (ox_content_index st) (ev_tool_call i None p)], st)"
    using Cons.hyps(1) Cons.prems by (cases st) (simp add: oa_said_def oa_step_def or_empty_def)
  show ?case by (simp add: st Cons.IH [OF Cons.prems])
qed simp

lemma add_texts:
  "fold add_part (map CP_Text ts) ac = ac\<lparr>ac_text_buffer := ac_text_buffer ac @ concat ts\<rparr>"
  "fold add_part (map (\<lambda>t. CP_Thinking \<lparr>th_thinking = t, th_signature = None, th_redacted = False\<rparr>) ts) ac =
     ac\<lparr>ac_thinking_buffer := ac_thinking_buffer ac @ concat ts\<rparr>"
  by (induction ts arbitrary: ac) (simp_all add: add_part_def)

text \<open>An item adds its parts, whatever came before.\<close>

lemma oa_item_effect:
  assumes "oa_item_script item es" "\<And>j. oa_call_id item = Some j \<Longrightarrow> j \<notin> ca_id ` set (ac_tool_calls ac)"
  shows "fold process_event (fst (oa_events es st)) ac = fold add_part (oa_convert_item item) ac"
proof (cases item)
  case (OO_Message role texts)
  with assms(1) show ?thesis
    by (auto simp: oa_item_script_def oa_events_append oa_text_runs oa_thinking_runs oa_step_def split_beta text_runs add_texts)
next
  case (OO_Reasoning summary)
  with assms(1) show ?thesis
    by (auto simp: oa_item_script_def oa_events_append oa_text_runs oa_thinking_runs oa_step_def split_beta text_runs add_texts)
next
  case (OO_FunctionCall k i name a)
  with assms(1) obtain d ps ds e where s: "es = (''response.output_item.added'', Some d) # ds @ [(''response.output_item.done'', e)]"
    "json_at [''item'', ''type''] d = JString ''function_call''" "json_at [''item'', ''call_id''] d = JString i"
    "json_at [''item'', ''name''] d = JString name" "list_all2 (oa_said ''response.function_call_arguments.delta'') ps ds"
    "ps \<noteq> []" "concat ps = a"
    by (auto simp: oa_item_script_def)
  then obtain p qs f fs where ps: "ps = p # qs" "ds = f # fs" "oa_said ''response.function_call_arguments.delta'' p f"
    "list_all2 (oa_said ''response.function_call_arguments.delta'') qs fs"
    by (cases ps; cases ds) auto
  define st1 where "st1 = oa_item_added d st"
  have st1: "ox_call_id st1 = Some i" "ox_tool_name st1 = Some name"
    using s(2-4) by (auto simp: st1_def oa_item_added_def json_at_def Let_def split: option.split)
  have "fst (oa_events es st) =
      map (\<lambda>p. ev_with_index (ox_content_index st1) p) (ev_tool_call i (Some name) p # map (ev_tool_call i None) qs)"
    using ps(3) oa_call_runs [OF ps(4), of "st1\<lparr>ox_tool_name := None\<rparr>" i] st1
    by (cases f) (simp add: s(1) ps(2) oa_step_def st1_def [symmetric] split_beta Let_def oa_events_append oa_said_def or_empty_def)
  moreover have new: "i \<notin> ca_id ` set (ac_tool_calls ac)" using assms(2) OO_FunctionCall by simp
  moreover have "process_event (ev_with_index n (ev_tool_call i (Some name) p)) ac =
      ac\<lparr>ac_tool_calls := ac_tool_calls ac @ [\<lparr>ca_id = i, ca_name = name, ca_arguments = p\<rparr>]\<rparr>" for n
    using add_call_delta_new [OF new] by (simp add: process_event_def ev_with_index_def ev_tool_call_def ev_empty_def or_empty_def)
  ultimately show ?thesis
    using tool_runs [OF new, of "ac\<lparr>ac_tool_calls := ac_tool_calls ac @ [\<lparr>ca_id = i, ca_name = name, ca_arguments = p\<rparr>]\<rparr>" name p
        "ox_content_index st1" qs] s(7)
    by (simp add: OO_FunctionCall add_part_def ps(1) o_def)
qed

text \<open>All items of a response.\<close>

lemma oa_items_effect:
  "list_all2 oa_item_script items ess \<Longrightarrow> distinct (map ca_id (ac_tool_calls ac) @ List.map_filter oa_call_id items) \<Longrightarrow>
     fold process_event (fst (oa_events (concat ess) st)) ac = fold add_part (concat (map oa_convert_item items)) ac"
proof (induction items ess arbitrary: ac st rule: list_all2_induct)
  case (Cons item items es ess)
  have new: "\<And>j. oa_call_id item = Some j \<Longrightarrow> j \<notin> ca_id ` set (ac_tool_calls ac)"
    using Cons.prems by auto
  note one = oa_item_effect [OF Cons.hyps(1) new, of st]
  have "distinct (map ca_id (ac_tool_calls (fold add_part (oa_convert_item item) ac)) @ List.map_filter oa_call_id items)"
    using Cons.prems by (cases item) (auto simp: add_texts, auto simp: add_part_def)
  from Cons.IH [OF this, of "snd (oa_events es st)"] one show ?case
    by (simp add: oa_events_append)
qed simp

lemma oa_content_streamable: "list_all streamable (oa_content r)"
proof -
  have "list_all streamable (oa_convert_item item)" for item by (cases item) (simp_all add: list_all_iff)
  then show ?thesis by (simp add: oa_content_def list_all_iff)
qed

lemma oa_usage_read:
  assumes "json_field ''usage'' resp = map_option oa_usage_json u"
  shows "oa_final_usage resp = map_option (\<lambda>v. oa_convert_usage (Some v)) u"
  using assms
  by (cases u) (simp_all add: oa_final_usage_def oa_usage_json_def json_u32_def oa_u32_def json_index_def oa_convert_usage_def
      split: option.split)

lemma oa_calls_content: "list_ex is_tool_call (oa_content r) \<longleftrightarrow> list_ex (\<lambda>item. oa_item_type item = ''function_call'') (or_output r)"
proof -
  have "list_ex is_tool_call (oa_convert_item item) \<longleftrightarrow> oa_item_type item = ''function_call''" for item
    by (cases item) (auto simp: list_ex_iff)
  then show ?thesis by (auto simp: oa_content_def list_ex_iff)
qed

lemma oa_reason_read:
  assumes "json_index ''status'' resp = (case or_status r of Some s \<Rightarrow> JString s | None \<Rightarrow> JNull)"
    and "json_field ''output'' resp = Some (JArray items)"
    and "map (json_index ''type'') items = map (\<lambda>item. JString (oa_item_type item)) (or_output r)"
  shows "oa_final_reason resp = oa_convert_finish (or_status r) (or_incomplete_reason r) (oa_content r)"
proof -
  have "list_ex (\<lambda>item. json_string (json_index ''type'' item) = Some ''function_call'') items \<longleftrightarrow>
      list_ex (\<lambda>t. json_string t = Some ''function_call'') (map (json_index ''type'') items)"
    by (simp add: list_ex_iff)
  then have "oa_has_calls resp \<longleftrightarrow> list_ex is_tool_call (oa_content r)"
    by (simp add: oa_has_calls_def assms(2,3) oa_calls_content) (simp add: list_ex_iff)
  then show ?thesis
    by (cases "or_status r") (simp_all add: oa_final_reason_def assms(1) oa_convert_finish_def)
qed

text \<open>The response a stream adds up to.\<close>

lemma oa_streamed:
  assumes "oa_script r es"
  defines "res \<equiv> into_response (accumulate (fst (oa_events es oa_state_new)))"
  shows "content_view (rs_content res) = content_view (oa_content r)"
    and "rs_finish_reason res = Some (oa_convert_finish (or_status r) (or_incomplete_reason r) (oa_content r))"
    and "rs_id res = or_id r" and "rs_model res = or_model r" and "rs_usage res = oa_convert_usage (or_usage r)"
proof -
  from assms(1) obtain created ess completed items where s: "distinct (List.map_filter oa_call_id (or_output r))"
    "filter (\<lambda>e. List.member oa_kinds (fst e)) es =
       (''response.created'', Some created) # concat ess @ [(''response.completed'', Some completed)]"
    "json_at [''response'', ''id''] created = JString (or_id r)" "json_at [''response'', ''model''] created = JString (or_model r)"
    "list_all2 oa_item_script (or_output r) ess"
    "json_at [''response'', ''status''] completed = (case or_status r of Some s \<Rightarrow> JString s | None \<Rightarrow> JNull)"
    "json_field ''usage'' (json_index ''response'' completed) = map_option oa_usage_json (or_usage r)"
    "json_field ''output'' (json_index ''response'' completed) = Some (JArray items)"
    "map (json_index ''type'') items = map (\<lambda>item. JString (oa_item_type item)) (or_output r)"
    unfolding oa_script_def by blast
  let ?fin = "oa_convert_finish (or_status r) (or_incomplete_reason r) (oa_content r)"
  let ?e = "ev_end (Some ?fin) (map_option (\<lambda>v. oa_convert_usage (Some v)) (or_usage r))"
  have resp: "json_field ''response'' created = Some (json_index ''response'' created)"
    using s(3) by (auto simp: json_at_def json_index_def split: option.splits)
  have c0: "oa_step ''response.created'' (Some created) oa_state_new = ([ev_start (or_id r) (or_model r)], oa_state_new)"
    using s(3,4) by (simp add: oa_step_def resp json_at_def or_empty_def)
  have c1: "oa_step ''response.completed'' (Some completed) st = ([?e], st)" for st
    using s(6) oa_usage_read [OF s(7)] oa_reason_read [OF _ s(8,9)] by (simp add: oa_step_def json_at_def Let_def)
  define ac where "ac = process_event (ev_start (or_id r) (or_model r)) accumulator_new"
  have ac: "ac_tool_calls ac = []" "ac_text_buffer ac = []" "ac_thinking_buffer ac = []" "ac_response_id ac = Some (or_id r)"
    "ac_model ac = Some (or_model r)" "ac_usage ac = default_usage"
    by (simp_all add: ac_def process_event_def ev_start_def ev_empty_def accumulator_new_def)
  have "fst (oa_events es oa_state_new) =
      ev_start (or_id r) (or_model r) # fst (oa_events (concat ess) oa_state_new) @ [?e]"
    unfolding oa_events_other [symmetric, of es] s(2) by (simp add: c0 c1 oa_events_append split_beta)
  then have acc: "accumulate (fst (oa_events es oa_state_new)) = process_event ?e (fold add_part (oa_content r) ac)"
    using oa_items_effect [OF s(5), of ac oa_state_new] s(1) ac(1) by (simp add: accumulate_def ac_def [symmetric] oa_content_def)
  have usage: "ac_usage (process_event ?e (fold add_part (oa_content r) ac)) = oa_convert_usage (or_usage r)"
    by (cases "or_usage r") (simp_all add: process_event_def ev_end_def ev_empty_def add_usage_def add_part_fields ac
        oa_convert_usage_def oa_usage_of_def usage_add_def default_usage_def positive_def split: option.split)
  have res: "content_view (rs_content res) = content_view (rs_content (into_response (fold add_part (oa_content r) ac)))"
    "rs_finish_reason res = Some ?fin" "rs_id res = or_id r" "rs_model res = or_model r"
    by (simp_all add: res_def acc into_response_view)
       (simp_all add: into_response_def process_event_def ev_end_def ev_empty_def add_usage_def add_part_fields ac or_empty_def
         split: option.split)
  show "content_view (rs_content res) = content_view (oa_content r)"
    unfolding res(1) add_part_view [OF oa_content_streamable] by (simp add: into_response_view ac Let_def)
  show "rs_finish_reason res = Some ?fin" "rs_id res = or_id r" "rs_model res = or_model r" using res by simp_all
  show "rs_usage res = oa_convert_usage (or_usage r)" using usage by (simp add: res_def acc into_response_def)
qed

interpretation openai: streaming_provider "\<lambda>es. fst (oa_events es oa_state_new)" oa_convert_response oa_script
  by unfold_locales (simp_all add: oa_streamed oa_convert_response_def)

text \<open>
  A response that arrives as a stream says what the same response says when it is sent whole, and its
  usage is the same: for every division of its texts and arguments into pieces, with events of other
  kinds anywhere.
\<close>

theorem oa_streamed_whole:
  assumes "oa_script r (map (\<lambda>s. (se_event_type s, parse (se_data s))) sses)"
  shows "\<exists>evs. oa_translate_stream parse (map Inr sses) = map Inr evs \<and>
    (let streamed = into_response (accumulate evs); whole = oa_convert_response r
     in content_view (rs_content streamed) = content_view (rs_content whole) \<and>
        rs_finish_reason streamed = rs_finish_reason whole \<and> rs_usage streamed = rs_usage whole \<and>
        rs_id streamed = rs_id whole \<and> rs_model streamed = rs_model whole)"
  using oa_streamed [OF assms] openai.streamed_view [OF assms]
  by (auto simp: oa_translate_stream_def oa_translate_events oa_convert_response_def Let_def)

definition oa_sample :: oa_response where
  "oa_sample = \<lparr>or_id = ''r1'', or_model = ''gpt'', or_output = [OO_Reasoning [''a''], OO_FunctionCall ''f'' ''c1'' ''ls'' ''{}''],
     or_usage = Some \<lparr>ou_input_tokens = 5, ou_output_tokens = 7, ou_cached_tokens = Some 2, ou_reasoning_tokens = None\<rparr>,
     or_status = Some ''completed'', or_incomplete_reason = None\<rparr>"

definition oa_sample_events :: "oa_event list" where
  "oa_sample_events =
     [(''response.created'', Some (JObject [(''response'', JObject [(''id'', JString ''r1''), (''model'', JString ''gpt'')])])),
      (''response.in_progress'', None),
      (''response.output_item.added'', Some (JObject [(''item'', JObject [(''type'', JString ''reasoning'')])])),
      (''response.reasoning_summary_text.delta'', Some (JObject [(''delta'', JString ''a'')])),
      (''response.output_item.done'', None),
      (''response.output_item.added'', Some (JObject [(''item'',
        JObject [(''call_id'', JString ''c1''), (''name'', JString ''ls''), (''type'', JString ''function_call'')])])),
      (''response.function_call_arguments.delta'', Some (JObject [(''delta'', JString ''{'')])),
      (''response.function_call_arguments.delta'', Some (JObject [(''delta'', JString ''}'')])),
      (''response.output_item.done'', None),
      (''response.completed'', Some (JObject [(''response'', JObject
        [(''output'', JArray [JObject [(''type'', JString ''reasoning'')], JObject [(''type'', JString ''function_call'')]]),
         (''status'', JString ''completed''),
         (''usage'', oa_usage_json \<lparr>ou_input_tokens = 5, ou_output_tokens = 7, ou_cached_tokens = Some 2, ou_reasoning_tokens = None\<rparr>)])]))]"

lemma oa_sample_script: "oa_script oa_sample oa_sample_events"
proof -
  let ?ess = "[take 3 (drop 2 oa_sample_events), take 4 (drop 5 oa_sample_events)]"
  let ?created = "the (snd (oa_sample_events ! 0))" and ?completed = "the (snd (oa_sample_events ! 9))"
  let ?items = "[JObject [(''type'', JString ''reasoning'')], JObject [(''type'', JString ''function_call'')]]"
  have "oa_item_script (OO_Reasoning [''a'']) (?ess ! 0)"
    by (auto simp: oa_item_script_def oa_sample_events_def oa_said_def json_at_def json_index_def intro!: exI [of _ "[''a'']"])
  moreover have "oa_item_script (OO_FunctionCall ''f'' ''c1'' ''ls'' ''{}'') (?ess ! 1)"
    by (auto simp: oa_item_script_def oa_sample_events_def oa_said_def json_at_def json_index_def intro!: exI [of _ "[''{'', ''}'']"])
  ultimately have items: "list_all2 oa_item_script (or_output oa_sample) ?ess"
    by (simp add: oa_sample_def)
  have split: "filter (\<lambda>e. List.member oa_kinds (fst e)) oa_sample_events =
      (''response.created'', Some ?created) # concat ?ess @ [(''response.completed'', Some ?completed)]"
    by (simp add: oa_sample_events_def oa_kinds_def)
  have created: "json_at [''response'', ''id''] ?created = JString (or_id oa_sample)"
    "json_at [''response'', ''model''] ?created = JString (or_model oa_sample)"
    by (simp_all add: oa_sample_events_def oa_sample_def json_at_def json_index_def)
  have completed: "json_at [''response'', ''status''] ?completed = (case or_status oa_sample of Some s \<Rightarrow> JString s | None \<Rightarrow> JNull)"
    "json_field ''usage'' (json_index ''response'' ?completed) = map_option oa_usage_json (or_usage oa_sample)"
    "json_field ''output'' (json_index ''response'' ?completed) = Some (JArray ?items)"
    "map (json_index ''type'') ?items = map (\<lambda>item. JString (oa_item_type item)) (or_output oa_sample)"
    by (simp_all add: oa_sample_events_def oa_sample_def json_at_def json_index_def)
  have "distinct (List.map_filter oa_call_id (or_output oa_sample))"
    by (simp add: oa_sample_def)
  then show ?thesis unfolding oa_script_def using split created items completed by blast
qed

text \<open>The data of an event is told by its length.\<close>

definition oa_sample_sses :: "sse_event list" where
  "oa_sample_sses = map (\<lambda>i. \<lparr>se_event_type = fst (oa_sample_events ! i), se_data = replicate i CHR ''x'', se_id = None\<rparr>) [0..<10]"

definition oa_sample_parse :: "string \<Rightarrow> json option" where
  "oa_sample_parse s = (if length s < 10 then snd (oa_sample_events ! length s) else None)"

lemma oa_sample_read: "map (\<lambda>s. (se_event_type s, oa_sample_parse (se_data s))) oa_sample_sses = oa_sample_events"
proof -
  have "length oa_sample_events = 10" by (simp add: oa_sample_events_def)
  then show ?thesis
    by (intro nth_equalityI) (simp_all add: oa_sample_sses_def oa_sample_parse_def)
qed

lemma oa_streamed_whole_witness:
  "\<exists>evs. oa_translate_stream oa_sample_parse (map Inr oa_sample_sses) = map Inr evs \<and>
    content_view (rs_content (into_response (accumulate evs))) =
      (''a'', [], [\<lparr>tc_id = ''c1'', tc_name = ''ls'', tc_arguments = ''{}'', tc_raw_arguments = None\<rparr>]) \<and>
    rs_finish_reason (into_response (accumulate evs)) = Some FR_ToolUse"
  using oa_streamed_whole [of oa_sample oa_sample_parse oa_sample_sses] oa_sample_script
  by (auto simp: oa_sample_read Let_def oa_sample_def oa_convert_response_def oa_content_def content_view_def
      content_tool_calls_def List.map_filter_def oa_convert_finish_def)

section \<open>Requests lose the calls\<close>

fun oa_item_wire :: "oa_input_item \<Rightarrow> wire_item list" where
  "oa_item_wire (OI_FunctionCallOutput i output) = [Wire_Result i]"
| "oa_item_wire (OI_Message r c) = []"

definition oa_wire :: "oa_input_item list \<Rightarrow> wire_item list" where
  "oa_wire items = concat (map oa_item_wire items)"

definition tool_results :: "message list \<Rightarrow> string list" where
  "tool_results ms = List.map_filter (\<lambda>w. case w of Wire_Result i \<Rightarrow> Some i | _ \<Rightarrow> None)
     (conversation_wire (filter (\<lambda>m. ms_role m = Role_Tool) ms))"

lemma oa_message_wire:
  "oa_wire (oa_message_items m) = (if ms_role m = Role_Tool then filter (\<lambda>w. \<exists>i. w = Wire_Result i) (concat (map part_wire (ms_content m))) else [])"
proof -
  have "concat (map oa_item_wire (List.map_filter oa_result_item ps)) = filter (\<lambda>w. \<exists>i. w = Wire_Result i) (concat (map part_wire ps))" for ps
  proof (induction ps)
    case (Cons p ps)
    then show ?case by (cases p) simp_all
  qed simp
  then show ?thesis
    by (cases "ms_role m"; cases "message_text m") (simp_all add: oa_message_items_def oa_wire_def Let_def)
qed

lemma oa_input_wire: "oa_wire (oa_input ms) = map Wire_Result (tool_results ms)"
proof (induction ms)
  case (Cons m ms)
  have results: "filter (\<lambda>w. \<exists>i. w = Wire_Result i) ws =
      map Wire_Result (List.map_filter (\<lambda>w. case w of Wire_Result i \<Rightarrow> Some i | _ \<Rightarrow> None) ws)" for ws
  proof (induction ws)
    case (Cons w ws)
    then show ?case by (cases w) simp_all
  qed simp
  have "oa_wire (oa_input (m # ms)) = oa_wire (oa_message_items m) @ oa_wire (oa_input ms)"
    by (simp add: oa_wire_def oa_input_def)
  also have "\<dots> = map Wire_Result (tool_results (m # ms))"
    using Cons by (simp add: oa_message_wire results tool_results_def conversation_wire_def map_filter_append)
  finally show ?case .
qed (simp add: oa_wire_def oa_input_def tool_results_def conversation_wire_def)

text \<open>
  No call of an assistant message is sent: the results of the tools go out alone, so a request is in
  order only if it holds no result at all.
\<close>

theorem oa_results_without_calls:
  "wire_in_order [] (oa_wire (oq_input (oa_convert_request r))) \<longleftrightarrow> tool_results (rq_messages r) = []"
  by (cases "tool_results (rq_messages r)") (simp_all add: oa_convert_request_def oa_input_wire)

text \<open>A schema of an object goes out as strict only when every property is required, and then
  \<open>additionalProperties\<close> is present and nothing else has changed.\<close>

lemma bt_insert_absent: "map_of kvs k = None \<Longrightarrow> map_of (bt_insert k v kvs) = (map_of kvs)(k \<mapsto> v)"
  by (induction kvs) (auto split: if_splits)

theorem oa_strict_required:
  assumes "td_parameters t = JObject obj" "map_of obj ''type'' = Some (JString ''object'')"
    and "ot_strict (oa_convert_tool t) = Some True"
  shows "\<exists>sent. ot_parameters (oa_convert_tool t) = JObject sent \<and>
    (\<forall>k\<in>set (json_keys (json_index ''properties'' (JObject sent))). k \<in> set (json_strings (json_index ''required'' (JObject sent)))) \<and>
    map_of sent = (map_of obj)(''additionalProperties'' \<mapsto>
      (case map_of obj ''additionalProperties'' of Some v \<Rightarrow> v | None \<Rightarrow> JBool False))"
proof -
  let ?props = "case map_of obj ''properties'' of Some p \<Rightarrow> json_keys p | None \<Rightarrow> []"
  let ?req = "case map_of obj ''required'' of Some p \<Rightarrow> json_strings p | None \<Rightarrow> []"
  define sent where "sent = (if map_of obj ''additionalProperties'' = None
      then bt_insert ''additionalProperties'' (JBool False) obj else obj)"
  have all: "list_all (\<lambda>k. k \<in> set ?req) ?props"
    using assms by (auto simp: oa_convert_tool_def oa_strict_schema_def Let_def split: if_splits option.splits)
  then have params: "ot_parameters (oa_convert_tool t) = JObject sent"
    using assms(1,2) by (cases "map_of obj ''required''"; cases "map_of obj ''properties''")
      (simp_all add: oa_convert_tool_def oa_strict_schema_def Let_def sent_def)
  have sent: "map_of sent = (map_of obj)(''additionalProperties'' \<mapsto>
      (case map_of obj ''additionalProperties'' of Some v \<Rightarrow> v | None \<Rightarrow> JBool False))"
    by (auto simp: sent_def bt_insert_absent split: option.split)
  have "?props = json_keys (json_index ''properties'' (JObject sent))" "?req = json_strings (json_index ''required'' (JObject sent))"
    by (simp_all add: json_index_def sent json_keys_def json_strings_def split: option.split)
  with all params sent show ?thesis by (auto simp: list_all_iff)
qed

lemma oa_strict_required_witness:
  "\<exists>sent. ot_parameters (oa_convert_tool \<lparr>td_name = ''ls'', td_description = [], td_parameters =
      JObject [(''properties'', JObject [(''path'', JNull)]), (''required'', JArray [JString ''path'']), (''type'', JString ''object'')]\<rparr>) =
    JObject sent \<and> map_of sent ''additionalProperties'' = Some (JBool False)"
  using oa_strict_required [of "\<lparr>td_name = ''ls'', td_description = [], td_parameters =
      JObject [(''properties'', JObject [(''path'', JNull)]), (''required'', JArray [JString ''path'']), (''type'', JString ''object'')]\<rparr>"]
  by (simp add: oa_convert_tool_def oa_strict_schema_def json_keys_def json_strings_def List.map_filter_def)

end
