(* ===== verification/Llm_Gemini.thy ===== *)
theory Llm_Gemini
  imports Llm_Stream Sse
begin

text \<open>
  The Gemini provider: the native types and conversions, \<open>smasher-llm/src/provider/gemini/types.rs\<close>,
  and the translation of its event stream, \<open>smasher-llm/src/provider/gemini/stream.rs\<close>.  The texts of
  JSON values and their parser are \<open>serde_json\<close>'s and parameters; fresh identifiers are drawn from a
  numbered supply.
\<close>

section \<open>Types\<close>

datatype ge_part =
    GP_Text string
  | GP_InlineData string string
  | GP_FunctionCall string json
  | GP_FunctionResponse string json

record ge_content =
  gc_role :: "string option"
  gc_parts :: "ge_part list"

record ge_config =
  gg_max_output_tokens :: "32 word option"
  gg_temperature :: "f32 option"
  gg_top_p :: "f32 option"
  gg_stop_sequences :: "string list option"
  gg_response_mime_type :: "string option"
  gg_response_schema :: "json option"
  gg_thinking_budget :: "32 word option"

record ge_function =
  gf_name :: string
  gf_description :: string
  gf_parameters :: json

record ge_request =
  gq_contents :: "ge_content list"
  gq_system_instruction :: "ge_content option"
  gq_generation_config :: "ge_config option"
  gq_tools :: "ge_function list list option"
  gq_tool_mode :: "string option"
  gq_extra :: "(string \<times> json) list option"

record ge_candidate =
  gd_content :: "ge_content option"
  gd_finish_reason :: "string option"

record ge_usage =
  gu_prompt_token_count :: "32 word option"
  gu_candidates_token_count :: "32 word option"
  gu_total_token_count :: "32 word option"

record ge_response =
  gr_candidates :: "ge_candidate list option"
  gr_usage_metadata :: "ge_usage option"
  gr_model_version :: "string option"

section \<open>Requests\<close>

text \<open>The names of the calls made so far, by their identifiers; a later call replaces an earlier one.\<close>

definition ge_names :: "message list \<Rightarrow> string \<Rightarrow> string option" where
  "ge_names ms =
     fold (\<lambda>tc names. names(tc_id tc \<mapsto> tc_name tc))
       (concat (map message_tool_calls (filter (\<lambda>m. ms_role m = Role_Assistant) ms))) Map.empty"

fun ge_convert_part :: "(string \<Rightarrow> json option) \<Rightarrow> (string \<Rightarrow> string option) \<Rightarrow> content_part \<Rightarrow> ge_part option" where
  "ge_convert_part parse names (CP_Text t) = Some (GP_Text t)"
| "ge_convert_part parse names (CP_Image img) =
     (if im_source_type img = Source_Base64
      then Some (GP_InlineData (case im_media_type img of Some m \<Rightarrow> m | None \<Rightarrow> ''image/png'') (im_data img))
      else None)"
| "ge_convert_part parse names (CP_ToolCall tc) =
     Some (GP_FunctionCall (tc_name tc) (case parse (tc_arguments tc) of Some v \<Rightarrow> v | None \<Rightarrow> JObject []))"
| "ge_convert_part parse names (CP_ToolResult tr) =
     Some (GP_FunctionResponse (case names (tr_tool_call_id tr) of Some n \<Rightarrow> n | None \<Rightarrow> ''unknown'')
       (JObject [(''content'', JString (tr_content tr))]))"
| "ge_convert_part parse names _ = None"

definition ge_convert_parts :: "(string \<Rightarrow> json option) \<Rightarrow> (string \<Rightarrow> string option) \<Rightarrow> content_part list \<Rightarrow> ge_part list" where
  "ge_convert_parts parse names ps = List.map_filter (ge_convert_part parse names) ps"

fun ge_role :: "role \<Rightarrow> string" where
  "ge_role Role_Assistant = ''model''"
| "ge_role _ = ''user''"

definition ge_message_content :: "(string \<Rightarrow> json option) \<Rightarrow> (string \<Rightarrow> string option) \<Rightarrow> message \<Rightarrow> ge_content list" where
  "ge_message_content parse names m =
     (let ps = ge_convert_parts parse names (ms_content m)
      in if ms_role m = Role_System \<or> ps = [] then [] else [\<lparr>gc_role = Some (ge_role (ms_role m)), gc_parts = ps\<rparr>])"

definition ge_contents :: "(string \<Rightarrow> json option) \<Rightarrow> message list \<Rightarrow> ge_content list" where
  "ge_contents parse ms = concat (map (ge_message_content parse (ge_names ms)) ms)"

text \<open>The last system message that converts to something replaces the prompt.\<close>

definition ge_system_instruction :: "(string \<Rightarrow> json option) \<Rightarrow> request \<Rightarrow> ge_content option" where
  "ge_system_instruction parse r =
     fold (\<lambda>m acc.
         let ps = ge_convert_parts parse (ge_names (rq_messages r)) (ms_content m)
         in if ms_role m = Role_System \<and> ps \<noteq> [] then Some \<lparr>gc_role = None, gc_parts = ps\<rparr> else acc)
       (rq_messages r) (map_option (\<lambda>t. \<lparr>gc_role = None, gc_parts = [GP_Text t]\<rparr>) (rq_system_prompt r))"

definition ge_generation_config :: "request \<Rightarrow> ge_config option" where
  "ge_generation_config r =
     (let has_any = rq_max_tokens r \<noteq> None \<or> rq_temperature r \<noteq> None \<or> rq_top_p r \<noteq> None \<or>
            rq_stop_sequences r \<noteq> None \<or> rq_response_format r \<noteq> None \<or> rq_thinking r \<noteq> None;
          (mime, schema) = (case rq_response_format r of
              Some RF_JsonObject \<Rightarrow> (Some ''application/json'', None)
            | Some (RF_JsonSchema name s strict) \<Rightarrow> (Some ''application/json'', Some s)
            | _ \<Rightarrow> (None, None))
      in if \<not> has_any then None
         else Some \<lparr>gg_max_output_tokens = rq_max_tokens r, gg_temperature = rq_temperature r, gg_top_p = rq_top_p r,
                gg_stop_sequences = rq_stop_sequences r, gg_response_mime_type = mime, gg_response_schema = schema,
                gg_thinking_budget = Option.bind (rq_thinking r) (\<lambda>tk. if tk_enabled tk then tk_budget_tokens tk else None)\<rparr>)"

fun ge_choice_mode :: "tool_choice \<Rightarrow> string" where
  "ge_choice_mode TC_Auto = ''AUTO''"
| "ge_choice_mode TC_Required = ''ANY''"
| "ge_choice_mode TC_None = ''NONE''"
| "ge_choice_mode (TC_Specific name) = ''ANY''"

definition ge_function_of :: "tool_definition \<Rightarrow> ge_function" where
  "ge_function_of td = \<lparr>gf_name = td_name td, gf_description = td_description td, gf_parameters = td_parameters td\<rparr>"

definition ge_convert_request :: "(string \<Rightarrow> json option) \<Rightarrow> request \<Rightarrow> ge_request" where
  "ge_convert_request parse r =
     \<lparr>gq_contents = ge_contents parse (rq_messages r), gq_system_instruction = ge_system_instruction parse r,
      gq_generation_config = ge_generation_config r,
      gq_tools = map_option (\<lambda>tds. [map ge_function_of tds]) (rq_tools r),
      gq_tool_mode = map_option ge_choice_mode (rq_tool_choice r),
      gq_extra = nonempty_option r ''gemini''\<rparr>"

section \<open>Responses\<close>

definition ge_map_finish_reason :: "string \<Rightarrow> finish_reason" where
  "ge_map_finish_reason reason =
     (if reason = ''STOP'' then FR_Stop else if reason = ''MAX_TOKENS'' then FR_Length
      else if reason = ''SAFETY'' then FR_ContentFilter else if reason = ''RECITATION'' then FR_ContentFilter
      else if reason = ''TOOL_USE'' \<or> reason = ''FUNCTION_CALL'' then FR_ToolUse else FR_Stop)"

definition ge_convert_usage :: "ge_usage \<Rightarrow> usage" where
  "ge_convert_usage u =
     \<lparr>us_input_tokens = (case gu_prompt_token_count u of Some n \<Rightarrow> n | None \<Rightarrow> 0),
      us_output_tokens = (case gu_candidates_token_count u of Some n \<Rightarrow> n | None \<Rightarrow> 0),
      us_cache_read_tokens = None, us_cache_creation_tokens = None, us_reasoning_tokens = None,
      us_total_tokens = gu_total_token_count u, us_raw = None\<rparr>"

definition ge_candidate_of :: "ge_response \<Rightarrow> ge_candidate option" where
  "ge_candidate_of r = (case gr_candidates r of Some (c # cs) \<Rightarrow> Some c | _ \<Rightarrow> None)"

definition ge_parts_of :: "ge_response \<Rightarrow> ge_part list" where
  "ge_parts_of r = (case Option.bind (ge_candidate_of r) gd_content of Some c \<Rightarrow> gc_parts c | None \<Rightarrow> [])"

definition ge_reason_of :: "ge_response \<Rightarrow> finish_reason option" where
  "ge_reason_of r = map_option ge_map_finish_reason (Option.bind (ge_candidate_of r) gd_finish_reason)"

text \<open>Each call takes the next identifier of the supply.\<close>

fun ge_content_parts :: "(nat \<Rightarrow> string) \<Rightarrow> (json \<Rightarrow> string) \<Rightarrow> ge_part list \<Rightarrow> nat \<Rightarrow> content_part list \<times> nat" where
  "ge_content_parts uuid render [] n = ([], n)"
| "ge_content_parts uuid render (GP_Text t # ps) n = (let (cs, n1) = ge_content_parts uuid render ps n in (CP_Text t # cs, n1))"
| "ge_content_parts uuid render (GP_FunctionCall name args # ps) n =
     (let (cs, n1) = ge_content_parts uuid render ps (Suc n)
      in (CP_ToolCall \<lparr>tc_id = uuid n, tc_name = name, tc_arguments = render args, tc_raw_arguments = None\<rparr> # cs, n1))"
| "ge_content_parts uuid render (GP_InlineData m d # ps) n = ge_content_parts uuid render ps n"
| "ge_content_parts uuid render (GP_FunctionResponse name v # ps) n = ge_content_parts uuid render ps n"

definition ge_response_id :: "(nat \<Rightarrow> string) \<Rightarrow> ge_response \<Rightarrow> nat \<Rightarrow> string \<times> nat" where
  "ge_response_id uuid r n = (case gr_model_version r of Some v \<Rightarrow> (v, n) | None \<Rightarrow> (uuid n, Suc n))"

definition ge_convert_response :: "(nat \<Rightarrow> string) \<Rightarrow> (json \<Rightarrow> string) \<Rightarrow> string \<Rightarrow> nat \<Rightarrow> ge_response \<Rightarrow> response" where
  "ge_convert_response uuid render model n r =
     (let (content, n1) = ge_content_parts uuid render (ge_parts_of r) n
      in \<lparr>rs_id = fst (ge_response_id uuid r n1), rs_model = model, rs_content = content, rs_finish_reason = ge_reason_of r,
          rs_usage = (case gr_usage_metadata r of Some u \<Rightarrow> ge_convert_usage u | None \<Rightarrow> default_usage),
          rs_warnings = [], rs_rate_limit = None, rs_provider = Some ''gemini'', rs_raw = None\<rparr>)"

section \<open>Streams\<close>

fun ge_part_events :: "(nat \<Rightarrow> string) \<Rightarrow> (json \<Rightarrow> string) \<Rightarrow> nat \<Rightarrow> ge_part list \<Rightarrow> nat \<Rightarrow> stream_event list \<times> nat" where
  "ge_part_events uuid render idx [] n = ([], n)"
| "ge_part_events uuid render idx (p # ps) n =
     (let (out, n1) =
         (case p of
            GP_Text t \<Rightarrow> (if t = [] then [] else [ev_with_index (of_nat idx) (ev_text t)], n)
          | GP_FunctionCall name args \<Rightarrow>
              ([ev_with_index (of_nat idx) (ev_tool_call (uuid n) (Some name) (render args))], Suc n)
          | _ \<Rightarrow> ([], n));
          (outs, n2) = ge_part_events uuid render (Suc idx) ps n1
      in (out @ outs, n2))"

text \<open>The state: whether the start has been sent, and the next identifier.\<close>

definition ge_step ::
  "(nat \<Rightarrow> string) \<Rightarrow> (json \<Rightarrow> string) \<Rightarrow> string \<Rightarrow> ge_response \<Rightarrow> bool \<times> nat \<Rightarrow> stream_event list \<times> bool \<times> nat" where
  "ge_step uuid render model r st =
     (let (started, n) = st;
          (start, n1) = (if started then ([], n)
             else (let (i, n1) = ge_response_id uuid r n in ([ev_start i model], n1)));
          (parts, n2) = ge_part_events uuid render 0 (ge_parts_of r) n1;
          use = (case gr_usage_metadata r of Some u \<Rightarrow> [ev_usage_delta (ge_convert_usage u)] | None \<Rightarrow> []);
          final = (case ge_reason_of r of Some reason \<Rightarrow> [ev_end (Some reason) None] | None \<Rightarrow> [])
      in (start @ parts @ use @ final, True, n2))"

text \<open>The translation, over the items of the event stream; it ends with the first error.\<close>

fun ge_translate ::
  "(nat \<Rightarrow> string) \<Rightarrow> (json \<Rightarrow> string) \<Rightarrow> (string \<Rightarrow> string + ge_response) \<Rightarrow> string \<Rightarrow> (llm_error + sse_event) list \<Rightarrow>
     bool \<times> nat \<Rightarrow> (llm_error + stream_event) list" where
  "ge_translate uuid render parse model [] st = []"
| "ge_translate uuid render parse model (Inl e # items) st = [Inl e]"
| "ge_translate uuid render parse model (Inr sse # items) st =
     (if se_data sse = [] \<or> se_data sse = ''[DONE]'' then ge_translate uuid render parse model items st
      else
        (case parse (se_data sse) of
           Inl msg \<Rightarrow> [Inl (ResponseParse ''gemini'' (''failed to parse streaming chunk: '' @ msg))]
         | Inr r \<Rightarrow>
             (let (es, st1) = ge_step uuid render model r st in map Inr es @ ge_translate uuid render parse model items st1)))"

definition ge_translate_stream ::
  "(nat \<Rightarrow> string) \<Rightarrow> (json \<Rightarrow> string) \<Rightarrow> (string \<Rightarrow> string + ge_response) \<Rightarrow> string \<Rightarrow> (llm_error + sse_event) list \<Rightarrow>
     (llm_error + stream_event) list" where
  "ge_translate_stream uuid render parse model items = ge_translate uuid render parse model items (False, 0)"

section \<open>Streamed responses\<close>

text \<open>The translation of chunks that are already decoded.\<close>

fun ge_events ::
  "(nat \<Rightarrow> string) \<Rightarrow> (json \<Rightarrow> string) \<Rightarrow> string \<Rightarrow> ge_response list \<Rightarrow> bool \<times> nat \<Rightarrow> stream_event list" where
  "ge_events uuid render model [] st = []"
| "ge_events uuid render model (r # rs) st =
     (let (es, st1) = ge_step uuid render model r st in es @ ge_events uuid render model rs st1)"

lemma ge_translate_events:
  assumes "list_all2 (\<lambda>sse r. parse (se_data sse) = Inr r \<and> se_data sse \<noteq> [] \<and> se_data sse \<noteq> ''[DONE]'') sses rs"
  shows "ge_translate uuid render parse model (map Inr sses) st = map Inr (ge_events uuid render model rs st)"
  using assms by (induction arbitrary: st rule: list_all2_induct) (simp_all add: split_beta Let_def)

lemma ge_content_parts_append:
  "ge_content_parts uuid render (ps @ qs) n =
     (fst (ge_content_parts uuid render ps n) @ fst (ge_content_parts uuid render qs (snd (ge_content_parts uuid render ps n))),
      snd (ge_content_parts uuid render qs (snd (ge_content_parts uuid render ps n))))"
  by (induction uuid render ps n rule: ge_content_parts.induct) (simp_all add: split_beta Let_def)

lemma ge_content_parts_count: "n \<le> snd (ge_content_parts uuid render ps n)"
  by (induction uuid render ps n rule: ge_content_parts.induct) (simp_all add: split_beta Let_def)

lemma ge_content_streamable: "list_all streamable (fst (ge_content_parts uuid render ps n))"
  by (induction uuid render ps n rule: ge_content_parts.induct) (simp_all add: split_beta Let_def)

text \<open>The parts of a chunk add what they hold.\<close>

definition ids_below :: "(nat \<Rightarrow> string) \<Rightarrow> nat \<Rightarrow> accumulator \<Rightarrow> bool" where
  "ids_below uuid n ac \<longleftrightarrow> (\<forall>k\<ge>n. uuid k \<notin> ca_id ` set (ac_tool_calls ac))"

lemma ge_part_effect:
  assumes "inj uuid" "ids_below uuid n ac"
  shows "fold process_event (fst (ge_part_events uuid render idx ps n)) ac = fold add_part (fst (ge_content_parts uuid render ps n)) ac \<and>
    snd (ge_part_events uuid render idx ps n) = snd (ge_content_parts uuid render ps n) \<and>
    ids_below uuid (snd (ge_content_parts uuid render ps n)) (fold add_part (fst (ge_content_parts uuid render ps n)) ac)"
  using assms(2)
proof (induction ps arbitrary: idx n ac)
  case (Cons p ps)
  show ?case
  proof (cases p)
    case (GP_Text t)
    have "fold process_event (if t = [] then [] else [ev_with_index (of_nat idx) (ev_text t)]) ac = add_part (CP_Text t) ac"
      by (simp add: process_event_def ev_with_index_def ev_text_def ev_empty_def or_empty_def add_part_def)
    moreover have "ids_below uuid n (add_part (CP_Text t) ac)" using Cons.prems by (simp add: ids_below_def add_part_def)
    ultimately show ?thesis using Cons.IH by (simp add: GP_Text split_beta Let_def)
  next
    case (GP_FunctionCall name args)
    let ?tc = "\<lparr>tc_id = uuid n, tc_name = name, tc_arguments = render args, tc_raw_arguments = None\<rparr>"
    have new: "uuid n \<notin> ca_id ` set (ac_tool_calls ac)" using Cons.prems by (simp add: ids_below_def)
    then have "process_event (ev_with_index (of_nat idx) (ev_tool_call (uuid n) (Some name) (render args))) ac = add_part (CP_ToolCall ?tc) ac"
      using add_call_delta_new [OF new]
      by (simp add: process_event_def ev_with_index_def ev_tool_call_def ev_empty_def or_empty_def add_part_def)
    moreover have "ids_below uuid (Suc n) (add_part (CP_ToolCall ?tc) ac)"
      using Cons.prems assms(1) by (auto simp: ids_below_def add_part_def inj_eq)
    ultimately show ?thesis using Cons.IH by (simp add: GP_FunctionCall split_beta Let_def)
  qed (use Cons in \<open>simp_all add: split_beta Let_def\<close>)
qed simp

text \<open>Several chunks: the parts add up in order, every usage is added, and the last reason counts.\<close>

definition ge_stream_parts :: "ge_response list \<Rightarrow> ge_part list" where
  "ge_stream_parts rs = concat (map ge_parts_of rs)"

definition ge_usages :: "ge_response list \<Rightarrow> usage list" where
  "ge_usages rs = List.map_filter (\<lambda>r. map_option ge_convert_usage (gr_usage_metadata r)) rs"

lemma ge_step_started:
  assumes "inj uuid" "ids_below uuid n ac"
  shows "fold process_event (fst (ge_step uuid render model r (True, n))) ac =
      (let ac1 = fold add_part (fst (ge_content_parts uuid render (ge_parts_of r) n)) ac
       in ac1\<lparr>ac_usage := usage_sum (ge_usages [r]) (ac_usage ac),
             ac_finish_reason := (case ge_reason_of r of Some x \<Rightarrow> Some x | None \<Rightarrow> ac_finish_reason ac1)\<rparr>)"
    and "snd (ge_step uuid render model r (True, n)) = (True, snd (ge_content_parts uuid render (ge_parts_of r) n))"
  using ge_part_effect [OF assms]
  by (auto simp: ge_step_def Let_def split_beta ge_usages_def process_event_def ev_usage_delta_def ev_end_def ev_empty_def
      add_usage_def add_part_fields split: option.split)

definition last_reason :: "ge_response list \<Rightarrow> finish_reason option \<Rightarrow> finish_reason option" where
  "last_reason rs f = fold (\<lambda>r acc. case ge_reason_of r of Some x \<Rightarrow> Some x | None \<Rightarrow> acc) rs f"

lemma add_parts_commute:
  "fold add_part ps (ac\<lparr>ac_usage := u, ac_finish_reason := f\<rparr>) = (fold add_part ps ac)\<lparr>ac_usage := u, ac_finish_reason := f\<rparr>"
proof (induction ps arbitrary: ac)
  case (Cons p ps)
  have "add_part p (ac\<lparr>ac_usage := u, ac_finish_reason := f\<rparr>) = (add_part p ac)\<lparr>ac_usage := u, ac_finish_reason := f\<rparr>"
    by (cases p) (simp_all add: add_part_def)
  then show ?case using Cons.IH by simp
qed simp

lemma add_parts_reason: "ac_finish_reason (fold add_part ps ac) = ac_finish_reason ac"
proof (induction ps arbitrary: ac)
  case (Cons p ps)
  have "ac_finish_reason (add_part p ac) = ac_finish_reason ac" by (cases p) (simp_all add: add_part_def)
  then show ?case using Cons.IH by simp
qed simp

lemma ids_below_update [simp]: "ids_below uuid n (ac\<lparr>ac_usage := u, ac_finish_reason := f\<rparr>) = ids_below uuid n ac"
  by (simp add: ids_below_def)

lemma ge_events_started:
  assumes "inj uuid"
  shows "ids_below uuid n ac \<Longrightarrow>
    fold process_event (ge_events uuid render model rs (True, n)) ac =
      (fold add_part (fst (ge_content_parts uuid render (ge_stream_parts rs) n)) ac)
        \<lparr>ac_usage := usage_sum (ge_usages rs) (ac_usage ac), ac_finish_reason := last_reason rs (ac_finish_reason ac)\<rparr>"
proof (induction rs arbitrary: n ac)
  case Nil
  show ?case by (simp add: ge_stream_parts_def ge_usages_def last_reason_def)
next
  case (Cons r rs)
  let ?ps = "fst (ge_content_parts uuid render (ge_parts_of r) n)" and ?n = "snd (ge_content_parts uuid render (ge_parts_of r) n)"
  let ?u = "usage_sum (ge_usages [r]) (ac_usage ac)"
  let ?f = "case ge_reason_of r of Some x \<Rightarrow> Some x | None \<Rightarrow> ac_finish_reason ac"
  let ?ac = "(fold add_part ?ps ac)\<lparr>ac_usage := ?u, ac_finish_reason := ?f\<rparr>"
  have step: "fold process_event (fst (ge_step uuid render model r (True, n))) ac = ?ac"
    using ge_step_started(1) [OF assms Cons.prems, of render model r] unfolding Let_def add_parts_reason .
  have below: "ids_below uuid ?n ?ac" using ge_part_effect [OF assms Cons.prems, of render 0] by simp
  have "fold process_event (ge_events uuid render model (r # rs) (True, n)) ac =
      fold process_event (ge_events uuid render model rs (True, ?n)) ?ac"
    using step ge_step_started(2) [OF assms Cons.prems] by (simp add: split_beta Let_def)
  also have "\<dots> = (fold add_part (fst (ge_content_parts uuid render (ge_stream_parts rs) ?n)) (fold add_part ?ps ac))
      \<lparr>ac_usage := usage_sum (ge_usages rs) ?u, ac_finish_reason := last_reason rs ?f\<rparr>"
    unfolding Cons.IH [OF below] by (simp add: add_parts_commute)
  finally show ?case
    by (simp add: ge_stream_parts_def ge_content_parts_append ge_usages_def last_reason_def usage_sum_append [symmetric]
        split: option.split)
qed

text \<open>A response that is streamed: its parts in order, the texts in pieces, in any chunks; the reason comes
  last.\<close>

definition ge_split_part :: "ge_part \<Rightarrow> ge_part list \<Rightarrow> bool" where
  "ge_split_part p qs \<longleftrightarrow> (case p of GP_Text t \<Rightarrow> \<exists>ts. qs = map GP_Text ts \<and> concat ts = t | _ \<Rightarrow> qs = [p])"

definition ge_script :: "(nat \<Rightarrow> string) \<Rightarrow> ge_response \<Rightarrow> ge_response list \<Rightarrow> bool" where
  "ge_script uuid r rs \<longleftrightarrow>
     inj uuid \<and> rs \<noteq> [] \<and> gr_model_version r \<noteq> None \<and> gr_model_version (hd rs) = gr_model_version r \<and>
     (\<exists>qss. list_all2 ge_split_part (ge_parts_of r) qss \<and> concat qss = ge_stream_parts rs) \<and>
     list_all (\<lambda>c. ge_reason_of c = None) (butlast rs) \<and> ge_reason_of (last rs) = ge_reason_of r"

lemma ge_split_effect:
  "list_all2 ge_split_part ps qss \<Longrightarrow>
     fold add_part (fst (ge_content_parts uuid render (concat qss) n)) ac = fold add_part (fst (ge_content_parts uuid render ps n)) ac"
proof (induction ps qss arbitrary: n ac rule: list_all2_induct)
  case (Cons p ps qs qss)
  have texts: "ge_content_parts uuid render (map GP_Text ts) n = (map CP_Text ts, n)" for ts
    by (induction ts) simp_all
  have add: "fold add_part (map CP_Text ts) ac = add_part (CP_Text (concat ts)) ac" for ts
    by (induction ts arbitrary: ac) (simp_all add: add_part_def)
  show ?case
  proof (cases p)
    case (GP_Text t)
    with Cons.hyps(1) obtain ts where "qs = map GP_Text ts" "concat ts = t" by (auto simp: ge_split_part_def)
    then show ?thesis using Cons.IH by (simp add: ge_content_parts_append texts add GP_Text split_beta Let_def)
  qed (use Cons in \<open>simp_all add: ge_split_part_def split_beta Let_def\<close>)
qed simp

lemma last_reason_script:
  assumes "rs \<noteq> []" "list_all (\<lambda>c. ge_reason_of c = None) (butlast rs)"
  shows "last_reason rs None = ge_reason_of (last rs)"
proof -
  have "last_reason cs None = None" if "list_all (\<lambda>c. ge_reason_of c = None) cs" for cs
    using that by (induction cs) (simp_all add: last_reason_def)
  moreover obtain cs c where rs: "rs = cs @ [c]" using assms(1) by (cases rs rule: rev_cases) simp_all
  ultimately show ?thesis using assms(2) by (simp add: last_reason_def split: option.split)
qed

text \<open>The response a stream adds up to.\<close>

lemma ge_streamed:
  fixes render :: "json \<Rightarrow> string" and model :: string
  assumes "ge_script uuid r rs"
  defines "res \<equiv> into_response (accumulate (ge_events uuid render model rs (False, 0)))"
    and "whole \<equiv> ge_convert_response uuid render model 0 r"
  shows "content_view (rs_content res) = content_view (rs_content whole)"
    and "rs_finish_reason res = rs_finish_reason whole" and "rs_id res = rs_id whole" and "rs_model res = model"
    and "rs_usage res = usage_sum (ge_usages rs) default_usage"
proof -
  from assms(1) obtain qss v where s: "inj uuid" "rs \<noteq> []" "gr_model_version r = Some v" "gr_model_version (hd rs) = Some v"
    "list_all2 ge_split_part (ge_parts_of r) qss" "concat qss = ge_stream_parts rs"
    "list_all (\<lambda>c. ge_reason_of c = None) (butlast rs)" "ge_reason_of (last rs) = ge_reason_of r"
    by (auto simp: ge_script_def)
  define ac where "ac = process_event (ev_start v model) accumulator_new"
  have ac: "ac_tool_calls ac = []" "ac_text_buffer ac = []" "ac_thinking_buffer ac = []" "ac_response_id ac = Some v"
    "ac_model ac = Some model" "ac_usage ac = default_usage" "ac_finish_reason ac = None"
    by (simp_all add: ac_def process_event_def ev_start_def ev_empty_def accumulator_new_def)
  have below: "ids_below uuid 0 ac" by (simp add: ids_below_def ac)
  have "ge_events uuid render model rs (False, 0) = ev_start v model # ge_events uuid render model rs (True, 0)"
    using s(2,4) by (cases rs) (simp_all add: ge_step_def ge_response_id_def split_beta Let_def)
  then have acc: "accumulate (ge_events uuid render model rs (False, 0)) =
      (fold add_part (fst (ge_content_parts uuid render (ge_parts_of r) 0)) ac)
        \<lparr>ac_usage := usage_sum (ge_usages rs) default_usage, ac_finish_reason := ge_reason_of r\<rparr>"
    using ge_events_started [OF s(1) below, of render model rs] ge_split_effect [OF s(5), of uuid render 0 ac]
      last_reason_script [OF s(2,7)]
    by (simp add: accumulate_def ac_def [symmetric] s(6,8) ac)
  have "content_view (rs_content res) = content_view (rs_content (into_response (fold add_part (fst (ge_content_parts uuid render (ge_parts_of r) 0)) ac)))"
    by (simp add: res_def acc into_response_view)
  then show "content_view (rs_content res) = content_view (rs_content whole)"
    unfolding add_part_view [OF ge_content_streamable]
    by (simp add: into_response_view ac Let_def whole_def ge_convert_response_def split_beta)
  show "rs_finish_reason res = rs_finish_reason whole" "rs_id res = rs_id whole" "rs_model res = model"
    "rs_usage res = usage_sum (ge_usages rs) default_usage"
    by (simp_all add: res_def acc whole_def into_response_def add_part_fields ac or_empty_def ge_convert_response_def
        ge_response_id_def s(3) split_beta Let_def)
qed

interpretation gemini: streaming_provider
  "\<lambda>rs. ge_events uuid render model rs (False, 0)" "ge_convert_response uuid render model 0" "ge_script uuid"
  for uuid render model
  by unfold_locales (simp_all add: ge_streamed)

text \<open>
  A response that arrives as a stream says what the same response says when it is sent whole, for every
  division of its texts into pieces and of its parts into chunks, given the same supply of fresh
  identifiers.  Its usage is the sum of what every chunk reports.
\<close>

theorem ge_streamed_whole:
  assumes "ge_script uuid r rs"
    and "list_all2 (\<lambda>sse c. parse (se_data sse) = Inr c \<and> se_data sse \<noteq> [] \<and> se_data sse \<noteq> ''[DONE]'') sses rs"
  shows "\<exists>evs. ge_translate_stream uuid render parse model (map Inr sses) = map Inr evs \<and>
    (let streamed = into_response (accumulate evs); whole = ge_convert_response uuid render model 0 r
     in content_view (rs_content streamed) = content_view (rs_content whole) \<and>
        rs_finish_reason streamed = rs_finish_reason whole \<and> rs_id streamed = rs_id whole \<and>
        rs_usage streamed = usage_sum (ge_usages rs) default_usage)"
  using ge_streamed(2,3,5) [OF assms(1), of render model] gemini.streamed_view [OF assms(1), of render model]
    ge_translate_events [OF assms(2), of uuid render model "(False, 0)"]
  by (auto simp: ge_translate_stream_def Let_def)

definition ge_sample_chunk :: "string \<Rightarrow> ge_part list \<Rightarrow> string option \<Rightarrow> ge_response" where
  "ge_sample_chunk v ps reason =
     \<lparr>gr_candidates = Some [\<lparr>gd_content = Some \<lparr>gc_role = Some ''model'', gc_parts = ps\<rparr>, gd_finish_reason = reason\<rparr>],
      gr_usage_metadata = Some \<lparr>gu_prompt_token_count = Some 5, gu_candidates_token_count = Some 2, gu_total_token_count = None\<rparr>,
      gr_model_version = Some v\<rparr>"

lemma ge_sample_parts [simp]: "ge_parts_of (ge_sample_chunk v ps reason) = ps"
  "ge_reason_of (ge_sample_chunk v ps reason) = map_option ge_map_finish_reason reason"
  "gr_model_version (ge_sample_chunk v ps reason) = Some v"
  by (simp_all add: ge_parts_of_def ge_reason_of_def ge_candidate_of_def ge_sample_chunk_def)

definition ge_sample_uuid :: "nat \<Rightarrow> string" where
  "ge_sample_uuid n = replicate n CHR ''u''"

definition ge_sample_chunks :: "ge_response list" where
  "ge_sample_chunks = [ge_sample_chunk ''g2'' [GP_Text ''h''] None,
     ge_sample_chunk ''g2'' [GP_Text ''i'', GP_FunctionCall ''ls'' (JObject [])] (Some ''STOP'')]"

definition ge_sample :: ge_response where
  "ge_sample = ge_sample_chunk ''g2'' [GP_Text ''hi'', GP_FunctionCall ''ls'' (JObject [])] (Some ''STOP'')"

lemma ge_sample_script: "ge_script ge_sample_uuid ge_sample ge_sample_chunks"
proof -
  have inj: "inj ge_sample_uuid" by (rule injI) (metis ge_sample_uuid_def length_replicate)
  have "list_all2 ge_split_part (ge_parts_of ge_sample) [[GP_Text ''h'', GP_Text ''i''], [GP_FunctionCall ''ls'' (JObject [])]]"
    by (auto simp: ge_sample_def ge_split_part_def intro!: exI [of _ "[''h'', ''i'']"])
  moreover have "concat [[GP_Text ''h'', GP_Text ''i''], [GP_FunctionCall ''ls'' (JObject [])]] = ge_stream_parts ge_sample_chunks"
    by (simp add: ge_stream_parts_def ge_sample_chunks_def)
  ultimately have "\<exists>qss. list_all2 ge_split_part (ge_parts_of ge_sample) qss \<and> concat qss = ge_stream_parts ge_sample_chunks"
    by blast
  with inj show ?thesis by (simp add: ge_script_def) (simp add: ge_sample_def ge_sample_chunks_def)
qed

definition ge_sample_parse :: "string \<Rightarrow> string + ge_response" where
  "ge_sample_parse s = Inr (ge_sample_chunks ! (length s - 1))"

lemma ge_sample_whole:
  "content_view (rs_content (ge_convert_response ge_sample_uuid (\<lambda>v. ''{}'') ''gemini'' 0 ge_sample)) =
     ([], ''hi'', [\<lparr>tc_id = [], tc_name = ''ls'', tc_arguments = ''{}'', tc_raw_arguments = None\<rparr>])"
  by (simp add: ge_convert_response_def ge_sample_def content_view_def content_tool_calls_def List.map_filter_def ge_sample_uuid_def)

lemma ge_sample_usage: "us_input_tokens (usage_sum (ge_usages ge_sample_chunks) default_usage) = 10"
  by (simp add: ge_sample_chunks_def ge_usages_def ge_sample_chunk_def ge_convert_usage_def usage_add_def default_usage_def)

lemma ge_streamed_whole_witness:
  "\<exists>evs. ge_translate_stream ge_sample_uuid (\<lambda>v. ''{}'') ge_sample_parse ''gemini''
      (map Inr [\<lparr>se_event_type = [], se_data = ''x'', se_id = None\<rparr>, \<lparr>se_event_type = [], se_data = ''xx'', se_id = None\<rparr>]) = map Inr evs \<and>
    content_view (rs_content (into_response (accumulate evs))) =
      ([], ''hi'', [\<lparr>tc_id = [], tc_name = ''ls'', tc_arguments = ''{}'', tc_raw_arguments = None\<rparr>]) \<and>
    us_input_tokens (rs_usage (into_response (accumulate evs))) = 10"
proof -
  let ?sses = "[\<lparr>se_event_type = [], se_data = ''x'', se_id = None\<rparr>, \<lparr>se_event_type = [], se_data = ''xx'', se_id = None\<rparr>]"
  have "list_all2 (\<lambda>sse c. ge_sample_parse (se_data sse) = Inr c \<and> se_data sse \<noteq> [] \<and> se_data sse \<noteq> ''[DONE]'') ?sses ge_sample_chunks"
    by (simp add: ge_sample_parse_def ge_sample_chunks_def)
  from ge_streamed_whole [OF ge_sample_script this, of "\<lambda>v. ''{}''" "''gemini''"] show ?thesis
    unfolding ge_sample_whole Let_def using ge_sample_usage by metis
qed

section \<open>Results and the names of their calls\<close>

text \<open>When no two calls of a conversation share an identifier, every result goes out under the name of its
  call.\<close>

theorem ge_result_name:
  assumes "distinct (map tc_id (concat (map message_tool_calls (filter (\<lambda>m. ms_role m = Role_Assistant) ms))))"
    and "tc \<in> set (concat (map message_tool_calls (filter (\<lambda>m. ms_role m = Role_Assistant) ms)))"
    and "tr_tool_call_id tr = tc_id tc"
  shows "ge_convert_part parse (ge_names ms) (CP_ToolResult tr) =
    Some (GP_FunctionResponse (tc_name tc) (JObject [(''content'', JString (tr_content tr))]))"
proof -
  have fold: "fold (\<lambda>tc names. names(tc_id tc \<mapsto> tc_name tc)) tcs names (tc_id tc) = Some (tc_name tc)"
    if "distinct (map tc_id tcs)" "tc \<in> set tcs" for tcs names
  proof -
    have other: "fold (\<lambda>tc names. names(tc_id tc \<mapsto> tc_name tc)) tcs names i = names i" if "i \<notin> tc_id ` set tcs" for tcs names i
      using that by (induction tcs arbitrary: names) auto
    show ?thesis using that
    proof (induction tcs arbitrary: names)
      case (Cons a tcs)
      show ?case
      proof (cases "tc = a")
        case True
        then have "tc_id a \<notin> tc_id ` set tcs" using Cons.prems by auto
        from other [OF this] show ?thesis using True unfolding fold_Cons comp_apply by simp
      next
        case False
        then have "distinct (map tc_id tcs)" "tc \<in> set tcs" using Cons.prems by auto
        then show ?thesis unfolding fold_Cons comp_apply by (rule Cons.IH)
      qed
    qed simp
  qed
  show ?thesis using fold [OF assms(1,2)] assms(3) by (simp add: ge_names_def)
qed

lemma ge_result_name_witness:
  "ge_convert_part (\<lambda>s. None) (ge_names [assistant_with_tool_calls [\<lparr>tc_id = ''c1'', tc_name = ''ls'', tc_arguments = [], tc_raw_arguments = None\<rparr>]])
     (CP_ToolResult \<lparr>tr_tool_call_id = ''c1'', tr_content = ''ok'', tr_is_error = False\<rparr>) =
   Some (GP_FunctionResponse ''ls'' (JObject [(''content'', JString ''ok'')]))"
  using ge_result_name [of "[assistant_with_tool_calls [\<lparr>tc_id = ''c1'', tc_name = ''ls'', tc_arguments = [], tc_raw_arguments = None\<rparr>]]"
      "\<lparr>tc_id = ''c1'', tc_name = ''ls'', tc_arguments = [], tc_raw_arguments = None\<rparr>"
      "\<lparr>tr_tool_call_id = ''c1'', tr_content = ''ok'', tr_is_error = False\<rparr>" "\<lambda>s. None"]
  by (simp add: assistant_with_tool_calls_def plain_message_def message_tool_calls_def content_tool_calls_def)

end
