(* ===== verification/Llm_Adapters.thy ===== *)
theory Llm_Adapters
  imports Llm_Client Llm_Anthropic Llm_OpenAi Llm_Gemini
begin

text \<open>
  The adapters of the three providers, \<open>smasher-llm/src/provider/{anthropic,openai,gemini}/mod.rs\<close>: how a
  request becomes an HTTP request, and its answer a response or a stream.  The HTTP client, the encoder
  of request bodies and the decoder of response bodies are parameters.
\<close>

section \<open>Transport\<close>

text \<open>An answer: its status and headers, its body as a text, and its body as a stream of chunks.\<close>

record 'b http_request =
  hq_url :: string
  hq_headers :: "(string \<times> string) list"
  hq_body :: 'b

record http_answer =
  ha_status :: nat
  ha_headers :: headers
  ha_body :: "http_source + string"
  ha_chunks :: "(http_source + string) list"

text \<open>The encoder fails with a serialization error, the decoder with a message.\<close>

record ('w, 'q, 'r) transport =
  tp_encode :: "'q \<Rightarrow> string + string"
  tp_send :: "string http_request \<Rightarrow> 'w \<Rightarrow> (http_source + http_answer) \<times> 'w"
  tp_decode :: "string \<Rightarrow> string + 'r"
  tp_time :: time_env

definition is_success :: "nat \<Rightarrow> bool" where
  "is_success status \<longleftrightarrow> 200 \<le> status \<and> status < 300"

text \<open>The items of the event stream of an answer.\<close>

definition sse_items :: "(http_source + string) list \<Rightarrow> (llm_error + sse_event) list" where
  "sse_items chunks =
     (let (es, err) = parse_sse_stream chunks
      in map Inr es @ (case err of Some e \<Rightarrow> [Inl (StreamError ''sse'' (hs_text e))] | None \<Rightarrow> []))"

text \<open>The steps the Anthropic and Gemini adapters take alike.\<close>

definition send_encoded ::
  "('w, 'q, 'r) transport \<Rightarrow> string \<Rightarrow> 'q http_request \<Rightarrow> 'w \<Rightarrow> (llm_error + http_answer) \<times> 'w" where
  "send_encoded tp prov rq w =
     (case tp_encode tp (hq_body rq) of
        Inl msg \<Rightarrow> (Inl (Serialization msg), w)
      | Inr body \<Rightarrow>
          (case tp_send tp \<lparr>hq_url = hq_url rq, hq_headers = hq_headers rq, hq_body = body\<rparr> w of
             (Inl e, w1) \<Rightarrow> (Inl (HttpError prov e), w1)
           | (Inr a, w1) \<Rightarrow> (Inr a, w1)))"

definition answer_response :: "('w, 'q, 'r) transport \<Rightarrow> string \<Rightarrow> ('r \<Rightarrow> response) \<Rightarrow> http_answer \<Rightarrow> llm_error + response" where
  "answer_response tp prov convert a =
     (case ha_body a of
        Inl e \<Rightarrow> Inl (HttpError prov e)
      | Inr body \<Rightarrow>
          (if \<not> is_success (ha_status a) then Inl (build_error_from_status (tp_time tp) prov (ha_status a) body (ha_headers a))
           else
             (case tp_decode tp body of
                Inl msg \<Rightarrow> Inl (ResponseParse prov (''failed to parse response: '' @ msg))
              | Inr r \<Rightarrow> Inr (convert r))))"

definition answer_stream ::
  "('w, 'q, 'r) transport \<Rightarrow> string \<Rightarrow> ((llm_error + sse_event) list \<Rightarrow> (llm_error + stream_event) list) \<Rightarrow> http_answer \<Rightarrow>
     llm_error + (llm_error + stream_event) list" where
  "answer_stream tp prov translate a =
     (if \<not> is_success (ha_status a) then
        (case ha_body a of
           Inl e \<Rightarrow> Inl (HttpError prov e)
         | Inr body \<Rightarrow> Inl (build_error_from_status (tp_time tp) prov (ha_status a) body (ha_headers a)))
      else Inr (translate (sse_items (ha_chunks a))))"

section \<open>Anthropic\<close>

record anthropic_adapter =
  aa_api_key :: string
  aa_base_url :: string
  aa_enable_prompt_caching :: bool


definition anthropic_with_base_url :: "string \<Rightarrow> string \<Rightarrow> anthropic_adapter" where
  "anthropic_with_base_url key url = \<lparr>aa_api_key = key, aa_base_url = url, aa_enable_prompt_caching = True\<rparr>"

definition prompt_caching :: "bool \<Rightarrow> anthropic_adapter \<Rightarrow> anthropic_adapter" where
  "prompt_caching enabled ad = ad\<lparr>aa_enable_prompt_caching := enabled\<rparr>"

definition messages_url :: "anthropic_adapter \<Rightarrow> string" where
  "messages_url ad = aa_base_url ad @ ''/v1/messages''"

definition thinking_beta :: string where
  "thinking_beta = ''interleaved-thinking-2025-05-14''"

definition build_beta_header :: "request \<Rightarrow> string option" where
  "build_beta_header r =
     (let betas = extract_beta_headers r;
          thinking = (case rq_thinking r of Some tk \<Rightarrow> tk_enabled tk | None \<Rightarrow> False);
          betas1 = (if thinking \<and> thinking_beta \<notin> set betas then betas @ [thinking_beta] else betas)
      in if betas1 = [] then None else Some (join '','' betas1))"

definition anthropic_request :: "(string \<Rightarrow> json option) \<Rightarrow> anthropic_adapter \<Rightarrow> bool option \<Rightarrow> request \<Rightarrow> an_request http_request" where
  "anthropic_request parse ad stream r =
     (let q = (an_convert_request parse r)\<lparr>aq_stream := stream\<rparr>
      in \<lparr>hq_url = messages_url ad,
          hq_headers = [(''x-api-key'', aa_api_key ad), (''anthropic-version'', ''2023-06-01''), (''content-type'', ''application/json'')] @
            (case build_beta_header r of Some v \<Rightarrow> [(''anthropic-beta'', v)] | None \<Rightarrow> []),
          hq_body = (if aa_enable_prompt_caching ad then inject_cache_control q else q)\<rparr>)"

definition anthropic_complete ::
  "(string \<Rightarrow> json option) \<Rightarrow> (json \<Rightarrow> string) \<Rightarrow> ('w, an_request, an_response) transport \<Rightarrow> anthropic_adapter \<Rightarrow> request \<Rightarrow> 'w \<Rightarrow>
     (llm_error + response) \<times> 'w" where
  "anthropic_complete parse render tp ad r w =
     (case send_encoded tp ''anthropic'' (anthropic_request parse ad None r) w of
        (Inl e, w1) \<Rightarrow> (Inl e, w1)
      | (Inr a, w1) \<Rightarrow> (answer_response tp ''anthropic'' (an_convert_response render) a, w1))"


section \<open>OpenAI\<close>

record openai_adapter =
  oo_api_key :: string
  oo_base_url :: string

definition openai_new :: "string \<Rightarrow> openai_adapter" where
  "openai_new key = \<lparr>oo_api_key = key, oo_base_url = ''https://api.openai.com''\<rparr>"

definition openai_with_base_url :: "string \<Rightarrow> string \<Rightarrow> openai_adapter" where
  "openai_with_base_url key url = \<lparr>oo_api_key = key, oo_base_url = url\<rparr>"

definition openai_request :: "openai_adapter \<Rightarrow> oa_request \<Rightarrow> oa_request http_request" where
  "openai_request ad q =
     \<lparr>hq_url = oo_base_url ad @ ''/v1/responses'',
      hq_headers = [(''Authorization'', ''Bearer '' @ oo_api_key ad), (''Content-Type'', ''application/json'')], hq_body = q\<rparr>"

text \<open>A body that cannot be read counts as empty in an error; the rate limits are read first, and
  reading them can panic.\<close>

definition openai_failure :: "('w, oa_request, oa_response) transport \<Rightarrow> http_answer \<Rightarrow> llm_error" where
  "openai_failure tp a =
     build_error_from_status (tp_time tp) ''openai'' (ha_status a) (case ha_body a of Inr body \<Rightarrow> body | Inl e \<Rightarrow> []) (ha_headers a)"

definition openai_complete ::
  "('w, oa_request, oa_response) transport \<Rightarrow> openai_adapter \<Rightarrow> request \<Rightarrow> 'w \<Rightarrow> (llm_error fault + response) \<times> 'w" where
  "openai_complete tp ad r w =
     (case send_encoded tp ''openai'' (openai_request ad (oa_convert_request r)) w of
        (Inl e, w1) \<Rightarrow> (Inl (Err e), w1)
      | (Inr a, w1) \<Rightarrow>
          (if \<not> is_success (ha_status a) then (Inl (Err (openai_failure tp a)), w1)
           else
             (case parse_rate_limit_headers (tp_time tp) (ha_headers a) of
                Inl p \<Rightarrow> (Inl (Panic p), w1)
              | Inr rate_limit \<Rightarrow>
                  (case ha_body a of
                     Inl e \<Rightarrow> (Inl (Err (HttpError ''openai'' e)), w1)
                   | Inr body \<Rightarrow>
                       (case tp_decode tp body of
                          Inl msg \<Rightarrow> (Inl (Err (ResponseParse ''openai'' (''failed to parse OpenAI response: '' @ msg))), w1)
                        | Inr resp \<Rightarrow> (Inr ((oa_convert_response resp)\<lparr>rs_rate_limit := rate_limit\<rparr>), w1))))))"

definition openai_stream ::
  "(string \<Rightarrow> json option) \<Rightarrow> ('w, oa_request, oa_response) transport \<Rightarrow> openai_adapter \<Rightarrow> request \<Rightarrow> 'w \<Rightarrow>
     (llm_error + (llm_error + stream_event) list) \<times> 'w" where
  "openai_stream parse tp ad r w =
     (case send_encoded tp ''openai'' (openai_request ad ((oa_convert_request r)\<lparr>oq_stream := Some True\<rparr>)) w of
        (Inl e, w1) \<Rightarrow> (Inl e, w1)
      | (Inr a, w1) \<Rightarrow>
          (if \<not> is_success (ha_status a) then (Inl (openai_failure tp a), w1)
           else (Inr (oa_translate_stream parse (sse_items (ha_chunks a))), w1)))"

section \<open>Gemini\<close>

record gemini_adapter =
  ga_api_key :: string
  ga_base_url :: string
  ga_use_header_auth :: bool

definition gemini_default_url :: string where
  "gemini_default_url = ''https://generativelanguage.googleapis.com''"

definition gemini_new :: "string \<Rightarrow> gemini_adapter" where
  "gemini_new key = \<lparr>ga_api_key = key, ga_base_url = gemini_default_url, ga_use_header_auth = False\<rparr>"

definition gemini_with_base_url :: "string \<Rightarrow> string \<Rightarrow> gemini_adapter" where
  "gemini_with_base_url key url =
     \<lparr>ga_api_key = key, ga_base_url = url, ga_use_header_auth = (url \<noteq> gemini_default_url)\<rparr>"

definition complete_url :: "gemini_adapter \<Rightarrow> string \<Rightarrow> string" where
  "complete_url ad model =
     (if ga_use_header_auth ad then ga_base_url ad @ ''/v1beta/models/'' @ model @ '':generateContent''
      else ga_base_url ad @ ''/v1beta/models/'' @ model @ '':generateContent?key='' @ ga_api_key ad)"

definition stream_url :: "gemini_adapter \<Rightarrow> string \<Rightarrow> string" where
  "stream_url ad model =
     (if ga_use_header_auth ad then ga_base_url ad @ ''/v1beta/models/'' @ model @ '':streamGenerateContent?alt=sse''
      else ga_base_url ad @ ''/v1beta/models/'' @ model @ '':streamGenerateContent?alt=sse&key='' @ ga_api_key ad)"

definition gemini_request :: "gemini_adapter \<Rightarrow> string \<Rightarrow> ge_request \<Rightarrow> ge_request http_request" where
  "gemini_request ad url q =
     \<lparr>hq_url = url,
      hq_headers = [(''Content-Type'', ''application/json'')] @
        (if ga_use_header_auth ad then [(''Authorization'', ''Bearer '' @ ga_api_key ad)] else []),
      hq_body = q\<rparr>"

definition gemini_complete ::
  "(string \<Rightarrow> json option) \<Rightarrow> (json \<Rightarrow> string) \<Rightarrow> (nat \<Rightarrow> string) \<Rightarrow> ('w, ge_request, ge_response) transport \<Rightarrow> gemini_adapter \<Rightarrow>
     request \<Rightarrow> 'w \<Rightarrow> (llm_error + response) \<times> 'w" where
  "gemini_complete parse render uuid tp ad r w =
     (case send_encoded tp ''gemini'' (gemini_request ad (complete_url ad (rq_model r)) (ge_convert_request parse r)) w of
        (Inl e, w1) \<Rightarrow> (Inl e, w1)
      | (Inr a, w1) \<Rightarrow> (answer_response tp ''gemini'' (ge_convert_response uuid render (rq_model r) 0) a, w1))"

definition gemini_stream ::
  "(string \<Rightarrow> json option) \<Rightarrow> (json \<Rightarrow> string) \<Rightarrow> (nat \<Rightarrow> string) \<Rightarrow> ('w, ge_request, ge_response) transport \<Rightarrow> gemini_adapter \<Rightarrow>
     request \<Rightarrow> 'w \<Rightarrow> (llm_error + (llm_error + stream_event) list) \<times> 'w" where
  "gemini_stream parse render uuid tp ad r w =
     (case send_encoded tp ''gemini'' (gemini_request ad (stream_url ad (rq_model r)) (ge_convert_request parse r)) w of
        (Inl e, w1) \<Rightarrow> (Inl e, w1)
      | (Inr a, w1) \<Rightarrow> (answer_stream tp ''gemini'' (ge_translate_stream uuid render (tp_decode tp) (rq_model r)) a, w1))"

section \<open>From the bytes to the response\<close>

text \<open>
  A provider seen from its event stream: \<open>read\<close> is the client's translation of the items of the stream,
  and \<open>decodes\<close> says which provider events the data of a stream stands for.
\<close>

locale wire_provider = streaming_provider translate convert script
  for translate :: "'e list \<Rightarrow> stream_event list" and convert :: "'r \<Rightarrow> response" and script :: "'r \<Rightarrow> 'e list \<Rightarrow> bool" +
  fixes read :: "(llm_error + sse_event) list \<Rightarrow> (llm_error + stream_event) list"
    and decodes :: "sse_event list \<Rightarrow> 'e list \<Rightarrow> bool"
  assumes read_decoded: "decodes sses es \<Longrightarrow> read (map Inr sses) = map Inr (translate es)"

definition same_answer :: "response \<Rightarrow> response \<Rightarrow> bool" where
  "same_answer x y \<longleftrightarrow> content_view (rs_content x) = content_view (rs_content y) \<and> rs_finish_reason x = rs_finish_reason y"

lemma sse_items_wire:
  assumes "list_all wire_ok ws" "concat chunks = concat (map (\<lambda>w. text_of (wire_lines w)) ws)"
  shows "sse_items (map Inr chunks) = map Inr (map wire_event ws)"
proof -
  have "parse_sse_stream (map Inr chunks :: (http_source + string) list) = (map wire_event ws, None)"
    unfolding parse_sse_stream_def by (rule sse_wire_read [OF assms])
  then show ?thesis by (simp add: sse_items_def)
qed

context wire_provider
begin

text \<open>However the bytes are cut, and however the provider divides its answer into events, the accumulated
  stream answers like the whole response.\<close>

lemma served:
  assumes "list_all wire_ok ws" "concat chunks = concat (map (\<lambda>w. text_of (wire_lines w)) ws)"
    and "decodes (map wire_event ws) es" "script r es"
  shows "\<exists>evs. read (sse_items (map Inr chunks)) = map Inr evs \<and> same_answer (into_response (accumulate evs)) (convert r)"
  using streamed_view [OF assms(4)] streamed_reason [OF assms(4)] read_decoded [OF assms(3)]
  by (auto simp: sse_items_wire [OF assms(1,2)] same_answer_def)

end


definition oa_decodes :: "(string \<Rightarrow> json option) \<Rightarrow> sse_event list \<Rightarrow> oa_event list \<Rightarrow> bool" where
  "oa_decodes parse sses es \<longleftrightarrow> es = map (\<lambda>s. (se_event_type s, parse (se_data s))) sses"

definition ge_decodes :: "(string \<Rightarrow> string + ge_response) \<Rightarrow> sse_event list \<Rightarrow> ge_response list \<Rightarrow> bool" where
  "ge_decodes parse = list_all2 (\<lambda>sse c. parse (se_data sse) = Inr c \<and> se_data sse \<noteq> [] \<and> se_data sse \<noteq> ''[DONE]'')"


interpretation openai_wire: wire_provider
  "\<lambda>es. fst (oa_events es oa_state_new)" oa_convert_response oa_script "oa_translate_stream parse" "oa_decodes parse" for parse
  by unfold_locales (simp add: oa_translate_stream_def oa_decodes_def oa_translate_events)

interpretation gemini_wire: wire_provider
  "\<lambda>rs. ge_events uuid render model rs (False, 0)" "ge_convert_response uuid render model 0" "ge_script uuid"
  "ge_translate_stream uuid render parse model" "ge_decodes parse" for uuid render model parse
  by unfold_locales (simp add: ge_translate_stream_def ge_decodes_def ge_translate_events)

text \<open>An exchange over the transport: the body is encoded, the request sent, and answered with success by
  the events \<open>ws\<close> in any chunks.\<close>

definition exchanged ::
  "('w, 'q, 'r) transport \<Rightarrow> 'q http_request \<Rightarrow> 'w \<Rightarrow> wire_event list \<Rightarrow> string list \<Rightarrow> 'w \<Rightarrow> bool" where
  "exchanged tp rq w ws chunks w1 \<longleftrightarrow>
     (\<exists>body a. tp_encode tp (hq_body rq) = Inr body \<and>
        tp_send tp \<lparr>hq_url = hq_url rq, hq_headers = hq_headers rq, hq_body = body\<rparr> w = (Inr a, w1) \<and>
        is_success (ha_status a) \<and> ha_chunks a = map Inr chunks) \<and>
     list_all wire_ok ws \<and> concat chunks = concat (map (\<lambda>w. text_of (wire_lines w)) ws)"

lemma exchanged_answer:
  assumes "exchanged tp rq w ws chunks w1"
  obtains a where "send_encoded tp prov rq w = (Inr a, w1)" "is_success (ha_status a)" "ha_chunks a = map Inr chunks"
    "list_all wire_ok ws" "concat chunks = concat (map (\<lambda>w. text_of (wire_lines w)) ws)"
  using assms by (auto simp: exchanged_def send_encoded_def)


theorem openai_served:
  assumes "exchanged tp (openai_request ad ((oa_convert_request rq)\<lparr>oq_stream := Some True\<rparr>)) w ws chunks w1"
    and "oa_decodes parse (map wire_event ws) es" "oa_script r es"
  shows "\<exists>evs. openai_stream parse tp ad rq w = (Inr (map Inr evs), w1) \<and>
    same_answer (into_response (accumulate evs)) (oa_convert_response r)"
proof -
  from exchanged_answer [OF assms(1)] obtain a
    where a: "send_encoded tp ''openai'' (openai_request ad ((oa_convert_request rq)\<lparr>oq_stream := Some True\<rparr>)) w = (Inr a, w1)"
    "is_success (ha_status a)" "ha_chunks a = map Inr chunks" "list_all wire_ok ws"
    "concat chunks = concat (map (\<lambda>w. text_of (wire_lines w)) ws)" by blast
  from openai_wire.served [OF a(4,5) assms(2,3)] show ?thesis
    by (auto simp: openai_stream_def a(1-3))
qed

theorem gemini_served:
  assumes "exchanged tp (gemini_request ad (stream_url ad (rq_model rq)) (ge_convert_request parse rq)) w ws chunks w1"
    and "ge_decodes (tp_decode tp) (map wire_event ws) es" "ge_script uuid r es"
  shows "\<exists>evs. gemini_stream parse render uuid tp ad rq w = (Inr (map Inr evs), w1) \<and>
    same_answer (into_response (accumulate evs)) (ge_convert_response uuid render (rq_model rq) 0 r)"
proof -
  from exchanged_answer [OF assms(1)] obtain a
    where a: "send_encoded tp ''gemini'' (gemini_request ad (stream_url ad (rq_model rq)) (ge_convert_request parse rq)) w = (Inr a, w1)"
    "is_success (ha_status a)" "ha_chunks a = map Inr chunks" "list_all wire_ok ws"
    "concat chunks = concat (map (\<lambda>w. text_of (wire_lines w)) ws)" by blast
  from gemini_wire.served [OF a(4,5) assms(2,3)] show ?thesis
    by (auto simp: gemini_stream_def a(1-3) answer_stream_def)
qed

text \<open>A provider that answers every request with the same events, in one chunk.\<close>

definition sample_transport :: "(string \<Rightarrow> string + 'r) \<Rightarrow> wire_event list \<Rightarrow> (unit, 'q, 'r) transport" where
  "sample_transport decode ws =
     \<lparr>tp_encode = (\<lambda>q. Inr []),
      tp_send = (\<lambda>rq w. (Inr \<lparr>ha_status = 200, ha_headers = (\<lambda>_. None), ha_body = Inr [],
        ha_chunks = [Inr (concat (map (\<lambda>w. text_of (wire_lines w)) ws))]\<rparr>, w)),
      tp_decode = decode, tp_time = \<lparr>tx_now = 0, tx_rfc3339 = (\<lambda>_. None), tx_in_range = (\<lambda>_. True)\<rparr>\<rparr>"

lemma sample_exchanged:
  assumes "list_all wire_ok ws"
  shows "exchanged (sample_transport decode ws) rq () ws [concat (map (\<lambda>w. text_of (wire_lines w)) ws)] ()"
  using assms by (simp add: exchanged_def sample_transport_def is_success_def)

definition as_wire :: "sse_event list \<Rightarrow> wire_event list" where
  "as_wire sses = map (\<lambda>s. (se_event_type s, [se_data s], se_id s)) sses"

lemma as_wire_events: "map wire_event (as_wire sses) = sses"
  by (induction sses) (simp_all add: as_wire_def wire_event_def)

lemma xs_clean: "clean_text (replicate n CHR ''x'')"
proof -
  have "from_utf8_lossy (replicate n CHR ''x'') = replicate n CHR ''x''"
    by (induction n) (simp_all add: code_def)
  then show ?thesis by (cases n) (simp_all add: clean_text_def plain_line_def last_replicate del: replicate.simps)
qed


lemma openai_served_witness:
  "\<exists>evs. openai_stream oa_sample_parse (sample_transport Inl (as_wire oa_sample_sses)) (openai_new []) (request_new ''gpt'' []) () =
      (Inr (map Inr evs), ()) \<and>
    same_answer (into_response (accumulate evs)) (oa_convert_response oa_sample)"
proof -
  have "list_all clean_text (map fst oa_sample_events)"
    by (simp add: oa_sample_events_def clean_text_def plain_line_def code_def)
  moreover have "length oa_sample_events = 10" by (simp add: oa_sample_events_def)
  ultimately have "list_all wire_ok (as_wire oa_sample_sses)"
    using xs_clean by (simp add: as_wire_def oa_sample_sses_def list_all_iff wire_ok_def)
  moreover have "oa_decodes oa_sample_parse (map wire_event (as_wire oa_sample_sses)) oa_sample_events"
    unfolding as_wire_events oa_decodes_def by (rule oa_sample_read [symmetric])
  ultimately show ?thesis by (rule openai_served [OF sample_exchanged _ oa_sample_script])
qed

lemma gemini_served_witness:
  "\<exists>evs. gemini_stream (\<lambda>s. None) (\<lambda>v. ''{}'') ge_sample_uuid
      (sample_transport ge_sample_parse (as_wire [\<lparr>se_event_type = ''message'', se_data = ''x'', se_id = None\<rparr>,
        \<lparr>se_event_type = ''message'', se_data = ''xx'', se_id = None\<rparr>])) (gemini_new []) (request_new ''gemini'' []) () =
      (Inr (map Inr evs), ()) \<and>
    same_answer (into_response (accumulate evs)) (ge_convert_response ge_sample_uuid (\<lambda>v. ''{}'') ''gemini'' 0 ge_sample)"
proof -
  let ?sses = "[\<lparr>se_event_type = ''message'', se_data = ''x'', se_id = None\<rparr>, \<lparr>se_event_type = ''message'', se_data = ''xx'', se_id = None\<rparr>]"
  have "list_all wire_ok (as_wire ?sses)"
    by (simp add: as_wire_def wire_ok_def clean_text_def plain_line_def code_def)
  moreover have "ge_decodes (tp_decode (sample_transport ge_sample_parse (as_wire ?sses))) (map wire_event (as_wire ?sses)) ge_sample_chunks"
    unfolding as_wire_events ge_decodes_def by (simp add: sample_transport_def ge_sample_parse_def ge_sample_chunks_def)
  ultimately show ?thesis
    using gemini_served [OF sample_exchanged _ ge_sample_script, where rq = "request_new ''gemini'' []"]
    by (simp add: request_new_def)
qed

end
