(* ===== verification/Llm_Objects.thy ===== *)
theory Llm_Objects
  imports Llm_Adapters
begin

text \<open>
  Structured output: \<open>smasher-llm/src/api/generate_object.rs\<close> and \<open>smasher-llm/src/api/stream_object.rs\<close>,
  with the start of a stream from \<open>smasher-llm/src/api/stream.rs\<close>.  The deserialisation of a text
  into an object is \<open>serde\<close>'s and a parameter; the channel to the caller is the list of what is sent.
\<close>

section \<open>Operations\<close>

definition object_request :: "string \<Rightarrow> json \<Rightarrow> request \<Rightarrow> request" where
  "object_request schema_name schema r = r\<lparr>rq_response_format := Some (RF_JsonSchema schema_name schema True)\<rparr>"

record 'o object_result =
  or_object :: 'o
  or_response :: response

definition object_of :: "(string \<Rightarrow> string + 'o) \<Rightarrow> response \<Rightarrow> llm_error + 'o object_result" where
  "object_of parse resp =
     (case response_text resp of
        None \<Rightarrow> Inl (ResponseParse ''generate_object'' ''no text in response'')
      | Some t \<Rightarrow>
          (case parse t of
             Inl msg \<Rightarrow> Inl (ResponseParse ''generate_object'' (''failed to deserialize response JSON: '' @ msg))
           | Inr obj \<Rightarrow> Inr \<lparr>or_object = obj, or_response = resp\<rparr>))"

definition generate_object ::
  "(string \<Rightarrow> string + 'o) \<Rightarrow> 'w retry_env \<Rightarrow> ('w, 's) client \<Rightarrow> request \<Rightarrow> string \<Rightarrow> json \<Rightarrow> 'w \<Rightarrow>
     (llm_error + 'o object_result) \<times> 'w" where
  "generate_object parse env client r schema_name schema w =
     (case client_complete env client (object_request schema_name schema r) w of
        (Inl e, w1) \<Rightarrow> (Inl e, w1)
      | (Inr resp, w1) \<Rightarrow> (object_of parse resp, w1))"

type_synonym event_stream = "(llm_error + stream_event) list"

definition api_stream :: "'w retry_env \<Rightarrow> ('w, event_stream) client \<Rightarrow> request \<Rightarrow> 'w \<Rightarrow> (llm_error + event_stream \<times> accumulator) \<times> 'w" where
  "api_stream env client r w =
     (case client_stream env client r w of
        (Inl e, w1) \<Rightarrow> (Inl e, w1)
      | (Inr events, w1) \<Rightarrow> (Inr (events, accumulator_new), w1))"

record 'o partial_event =
  pe_partial :: "'o option"
  pe_raw_text :: string
  pe_is_complete :: bool

record 'o stream_object_result =
  so_object :: 'o
  so_usage :: usage

fun ok_value :: "'e + 'a \<Rightarrow> 'a option" where
  "ok_value (Inr x) = Some x"
| "ok_value (Inl e) = None"

text \<open>The background task: what it sends, and its result.\<close>

fun object_task ::
  "(string \<Rightarrow> string + 'o) \<Rightarrow> event_stream \<Rightarrow> accumulator \<Rightarrow> 'o partial_event list \<times> (llm_error + 'o stream_object_result)" where
  "object_task parse [] ac =
     (case parse (ac_text_buffer ac) of
        Inl msg \<Rightarrow> ([], Inl (ResponseParse ''stream_object'' (''failed to deserialize final JSON: '' @ msg)))
      | Inr obj \<Rightarrow>
          ([\<lparr>pe_partial = Some obj, pe_raw_text = ac_text_buffer ac, pe_is_complete = True\<rparr>],
           Inr \<lparr>so_object = obj, so_usage = ac_usage ac\<rparr>))"
| "object_task parse (Inl e # es) ac = ([], Inl e)"
| "object_task parse (Inr e # es) ac =
     (let ac1 = process_event e ac;
          (sent, res) = object_task parse es ac1
      in (if ac_text_buffer ac1 = [] then (sent, res)
          else (\<lparr>pe_partial = ok_value (parse (ac_text_buffer ac1)), pe_raw_text = ac_text_buffer ac1, pe_is_complete = False\<rparr> # sent,
                res)))"

definition stream_object ::
  "(string \<Rightarrow> string + 'o) \<Rightarrow> 'w retry_env \<Rightarrow> ('w, event_stream) client \<Rightarrow> request \<Rightarrow> string \<Rightarrow> json \<Rightarrow> 'w \<Rightarrow>
     (llm_error + 'o partial_event list \<times> (llm_error + 'o stream_object_result)) \<times> 'w" where
  "stream_object parse env client r schema_name schema w =
     (case api_stream env client (object_request schema_name schema r) w of
        (Inl e, w1) \<Rightarrow> (Inl e, w1)
      | (Inr (events, ac), w1) \<Rightarrow> (Inr (object_task parse events ac), w1))"

section \<open>Streamed and whole objects\<close>

definition grows :: "string list \<Rightarrow> bool" where
  "grows ts \<longleftrightarrow> sorted_wrt (\<lambda>s t. \<exists>u. t = s @ u) ts"

text \<open>A text buffer only grows.\<close>

lemma process_event_grows: "\<exists>u. ac_text_buffer (process_event e ac) = ac_text_buffer ac @ u"
  by (cases "ev_event_type e") (auto simp: process_event_def add_usage_def Let_def split: option.split)

lemma fold_event_grows: "\<exists>u. ac_text_buffer (fold process_event es ac) = ac_text_buffer ac @ u"
proof (induction es arbitrary: ac)
  case (Cons e es)
  from process_event_grows [of e ac] Cons.IH [of "process_event e ac"] show ?case by auto
qed simp

lemma object_task_prefixes:
  "\<exists>u. ac_text_buffer (fold process_event es ac) = pe_raw_text p @ u" if "p \<in> set (fst (object_task parse (map Inr es) ac))"
  using that
proof (induction es arbitrary: ac)
  case Nil
  then show ?case by (auto split: sum.splits)
next
  case (Cons e es)
  from Cons.prems consider "pe_raw_text p = ac_text_buffer (process_event e ac)"
    | "p \<in> set (fst (object_task parse (map Inr es) (process_event e ac)))"
    by (auto simp: Let_def split_beta split: if_splits)
  then show ?case
    by cases (use fold_event_grows [of es "process_event e ac"] Cons.IH [of "process_event e ac"] in auto)
qed

lemma object_task_after:
  assumes "p \<in> set (fst (object_task parse (map Inr es) ac))"
  shows "\<exists>u. pe_raw_text p = ac_text_buffer ac @ u"
  using assms
proof (induction es arbitrary: ac)
  case Nil
  then show ?case by (auto split: sum.splits)
next
  case (Cons e es)
  obtain u where u: "ac_text_buffer (process_event e ac) = ac_text_buffer ac @ u" using process_event_grows by blast
  from Cons.prems consider "pe_raw_text p = ac_text_buffer (process_event e ac)"
    | "p \<in> set (fst (object_task parse (map Inr es) (process_event e ac)))"
    by (auto simp: Let_def split_beta split: if_splits)
  then show ?case
  proof cases
    case 2
    from Cons.IH [OF 2] u show ?thesis by auto
  qed (use u in auto)
qed

lemma object_task_grows: "grows (map pe_raw_text (fst (object_task parse (map Inr es) ac)))"
proof (induction es arbitrary: ac)
  case Nil
  show ?case by (simp add: grows_def split: sum.split)
next
  case (Cons e es)
  then show ?case
    using object_task_after [of _ parse es "process_event e ac"]
    by (auto simp: grows_def Let_def split_beta)
qed

lemma object_task_result:
  "snd (object_task parse (map Inr es) ac) =
     (let fin = fold process_event es ac in
      case parse (ac_text_buffer fin) of
        Inl msg \<Rightarrow> Inl (ResponseParse ''stream_object'' (''failed to deserialize final JSON: '' @ msg))
      | Inr obj \<Rightarrow> Inr \<lparr>so_object = obj, so_usage = ac_usage fin\<rparr>)"
  by (induction es arbitrary: ac) (simp_all add: Let_def split_beta split: sum.split)

lemma same_answer_text:
  assumes "same_answer (into_response ac) whole" "response_text whole = Some t"
  shows "ac_text_buffer ac = t"
proof -
  have "ac_text_buffer ac = fst (snd (content_view (rs_content (into_response ac))))" by (simp add: into_response_view)
  also have "\<dots> = fst (snd (content_view (rs_content whole)))" using assms(1) by (simp add: same_answer_def)
  also have "\<dots> = t" using assms(2)
    by (auto simp: content_view_def response_text_def content_text_def joined_texts_def split: if_splits)
  finally show ?thesis .
qed

text \<open>
  Given a stream that answers like a whole response with a text, the streamed object is the one read
  from the whole response, both fail on the same texts, and what is sent meanwhile are growing beginnings
  of that text.
\<close>

theorem stream_object_agrees:
  assumes "same_answer (into_response (accumulate evs)) whole" "response_text whole = Some t"
  shows "map_option so_object (ok_value (snd (object_task parse (map Inr evs) accumulator_new))) =
      map_option or_object (ok_value (object_of parse whole)) \<and>
    grows (map pe_raw_text (fst (object_task parse (map Inr evs) accumulator_new))) \<and>
    (\<forall>p\<in>set (fst (object_task parse (map Inr evs) accumulator_new)). \<exists>u. t = pe_raw_text p @ u)"
proof -
  have t: "ac_text_buffer (fold process_event evs accumulator_new) = t"
    using same_answer_text [OF assms] by (simp add: accumulate_def)
  then have "map_option so_object (ok_value (snd (object_task parse (map Inr evs) accumulator_new))) =
      map_option or_object (ok_value (object_of parse whole))"
    by (cases "parse t") (simp_all add: object_task_result object_of_def assms(2) Let_def)
  then show ?thesis
    using object_task_grows object_task_prefixes [of _ parse evs accumulator_new] t by blast
qed

definition object_sample :: response where
  "object_sample = into_response (accumulate [ev_text ''4'', ev_text ''2'', ev_end (Some FR_Stop) None])"

lemma stream_object_agrees_witness:
  "map_option so_object (ok_value (snd (object_task (\<lambda>s. if s = ''42'' then Inr (42 :: nat) else Inl [])
       (map Inr [ev_text ''4'', ev_text ''2'', ev_end (Some FR_Stop) None]) accumulator_new))) = Some 42"
proof -
  have said: "response_text object_sample = Some ''42''"
    by (simp add: object_sample_def accumulate_def into_response_def process_event_def ev_text_def ev_end_def ev_empty_def
        accumulator_new_def or_empty_def add_usage_def response_text_def content_text_def joined_texts_def)
  have "same_answer (into_response (accumulate [ev_text ''4'', ev_text ''2'', ev_end (Some FR_Stop) None])) object_sample"
    by (simp add: same_answer_def object_sample_def)
  from stream_object_agrees [OF this said, of "\<lambda>s. if s = ''42'' then Inr (42 :: nat) else Inl []"] show ?thesis
    by (simp add: object_of_def said)
qed

end
