(* ===== verification/Interviewer.thy ===== *)
theory Interviewer
  imports Handler Edge Utf8
begin

text \<open>
  Interviewers and the handlers that put a node's question to them, \<open>interviewer.rs\<close>.  An interaction
  runs under a limit of time, or none, on the outside world; it yields nothing when it has not finished
  within the limit.  The readers, writers, channels and closures are parameters; locks are not poisoned.
\<close>

section \<open>Interviewers\<close>

datatype interviewer_error = Cancelled | Timed_Out | Interview_Other string

definition interviewer_error_text :: "interviewer_error \<Rightarrow> string" where
  "interviewer_error_text e =
     (case e of
        Cancelled \<Rightarrow> ''interview cancelled by user''
      | Timed_Out \<Rightarrow> ''interview timed out''
      | Interview_Other msg \<Rightarrow> ''interviewer error: '' @ msg)"

type_synonym ('w, 'a) interaction = "duration option \<Rightarrow> 'w \<Rightarrow> (interviewer_error + 'a) option \<times> 'w"

record 'w interviewer =
  iv_ask :: "string \<Rightarrow> context_map \<Rightarrow> ('w, string) interaction"
  iv_ask_with_options :: "string \<Rightarrow> string list \<Rightarrow> context_map \<Rightarrow> ('w, string) interaction"
  iv_approve :: "string \<Rightarrow> context_map \<Rightarrow> ('w, bool) interaction"

definition at_once :: "('w \<Rightarrow> (interviewer_error + 'a) \<times> 'w) \<Rightarrow> ('w, 'a) interaction" where
  "at_once f limit w = (Some (fst (f w)), snd (f w))"

text \<open>Approving everything.\<close>

definition auto_approve :: "string \<Rightarrow> 'w interviewer" where
  "auto_approve default_response =
     \<lparr>iv_ask = (\<lambda>q ctx. at_once (\<lambda>w. (Inr default_response, w))),
      iv_ask_with_options = (\<lambda>q options ctx. at_once (\<lambda>w. (Inr (case options of o1 # os \<Rightarrow> o1 | [] \<Rightarrow> default_response), w))),
      iv_approve = (\<lambda>m ctx. at_once (\<lambda>w. (Inr True, w)))\<rparr>"

definition auto_approve_new :: "'w interviewer" where
  "auto_approve_new = auto_approve ''approved''"

text \<open>Answers from a queue; the queue is the world.\<close>

record response_queue =
  rqu_responses :: "string list"
  rqu_approvals :: "bool list"

definition queue_new :: response_queue where
  "queue_new = \<lparr>rqu_responses = [], rqu_approvals = []\<rparr>"

definition push_response :: "string \<Rightarrow> response_queue \<Rightarrow> response_queue" where
  "push_response r q = q\<lparr>rqu_responses := rqu_responses q @ [r]\<rparr>"

definition push_approval :: "bool \<Rightarrow> response_queue \<Rightarrow> response_queue" where
  "push_approval b q = q\<lparr>rqu_approvals := rqu_approvals q @ [b]\<rparr>"

definition pop_response :: "response_queue \<Rightarrow> (interviewer_error + string) \<times> response_queue" where
  "pop_response q =
     (case rqu_responses q of
        r # rs \<Rightarrow> (Inr r, q\<lparr>rqu_responses := rs\<rparr>)
      | [] \<Rightarrow> (Inl (Interview_Other ''response queue is empty''), q))"

definition pop_approval :: "response_queue \<Rightarrow> (interviewer_error + bool) \<times> response_queue" where
  "pop_approval q =
     (case rqu_approvals q of
        b # bs \<Rightarrow> (Inr b, q\<lparr>rqu_approvals := bs\<rparr>)
      | [] \<Rightarrow> (Inl (Interview_Other ''approval queue is empty''), q))"

definition queue_interviewer :: "response_queue interviewer" where
  "queue_interviewer =
     \<lparr>iv_ask = (\<lambda>q ctx. at_once pop_response), iv_ask_with_options = (\<lambda>q options ctx. at_once pop_response),
      iv_approve = (\<lambda>m ctx. at_once pop_approval)\<rparr>"

definition callback_interviewer :: "(string \<Rightarrow> string) \<Rightarrow> (string \<Rightarrow> bool) \<Rightarrow> 'w interviewer" where
  "callback_interviewer ask_fn approve_fn =
     \<lparr>iv_ask = (\<lambda>q ctx. at_once (\<lambda>w. (Inr (ask_fn q), w))),
      iv_ask_with_options = (\<lambda>q options ctx. at_once (\<lambda>w. (Inr (ask_fn q), w))),
      iv_approve = (\<lambda>m ctx. at_once (\<lambda>w. (Inr (approve_fn m), w)))\<rparr>"

text \<open>The console.  Its calls to the reader and the writer block, so no limit cuts them short.\<close>

record 'w console =
  co_write_all :: "string \<Rightarrow> 'w \<Rightarrow> (string + unit) \<times> 'w"
  co_flush :: "'w \<Rightarrow> (string + unit) \<times> 'w"
  co_read_line :: "'w \<Rightarrow> (string + string) \<times> 'w"

definition write_and_flush :: "'w console \<Rightarrow> string \<Rightarrow> 'w \<Rightarrow> (interviewer_error + unit) \<times> 'w" where
  "write_and_flush con t w =
     (case co_write_all con t w of
        (Inl e, w1) \<Rightarrow> (Inl (Interview_Other (''write error: '' @ e)), w1)
      | (Inr _, w1) \<Rightarrow>
          (case co_flush con w1 of
             (Inl e, w2) \<Rightarrow> (Inl (Interview_Other (''flush error: '' @ e)), w2)
           | (Inr _, w2) \<Rightarrow> (Inr (), w2)))"

definition trim_end_char :: "char \<Rightarrow> string \<Rightarrow> string" where
  "trim_end_char c s = rev (dropWhile (\<lambda>x. x = c) (rev s))"

definition console_read_line :: "'w console \<Rightarrow> 'w \<Rightarrow> (interviewer_error + string) \<times> 'w" where
  "console_read_line con w =
     (case co_read_line con w of
        (Inl e, w1) \<Rightarrow> (Inl (Interview_Other (''read error: '' @ e)), w1)
      | (Inr line, w1) \<Rightarrow> (Inr (trim_end_char carriage (trim_end_char newline line)), w1))"

definition prompt_and_read :: "'w console \<Rightarrow> string \<Rightarrow> 'w \<Rightarrow> (interviewer_error + string) \<times> 'w" where
  "prompt_and_read con t w =
     (case write_and_flush con t w of
        (Inl e, w1) \<Rightarrow> (Inl e, w1)
      | (Inr _, w1) \<Rightarrow> console_read_line con w1)"

definition options_prompt :: "string \<Rightarrow> string list \<Rightarrow> string" where
  "options_prompt q options =
     q @ [newline] @
     concat (map (\<lambda>(i, opt). ''  '' @ dec (i + 1) @ ''. '' @ opt @ [newline]) (zip [0..<length options] options)) @
     ''Choice: ''"

text \<open>A number of an option picks it; anything else is taken as it is.\<close>

definition picked_option :: "string list \<Rightarrow> string \<Rightarrow> string" where
  "picked_option options input =
     (case parse_uint 64 (trim input) of
        Some num \<Rightarrow> (if num \<ge> 1 \<and> num \<le> length options then options ! (num - 1) else input)
      | None \<Rightarrow> input)"

definition says_yes :: "string \<Rightarrow> bool" where
  "says_yes input = (let t = to_lower (trim input) in t = ''yes'' \<or> t = ''y'')"

definition console_interviewer :: "'w console \<Rightarrow> 'w interviewer" where
  "console_interviewer con =
     \<lparr>iv_ask = (\<lambda>q ctx. at_once (prompt_and_read con q)),
      iv_ask_with_options = (\<lambda>q options ctx. at_once (\<lambda>w.
        (let (r, w1) = prompt_and_read con (options_prompt q options) w in (map_sum id (picked_option options) r, w1)))),
      iv_approve = (\<lambda>m ctx. at_once (\<lambda>w.
        (let (r, w1) = prompt_and_read con (m @ '' (yes/no): '') w in (map_sum id says_yes r, w1))))\<rparr>"

text \<open>Recording what another interviewer answers.\<close>

datatype interaction_type = IT_Ask | IT_AskWithOptions | IT_Approve

record interview_record =
  ir_question :: string
  ir_response :: string
  ir_interaction_type :: interaction_type

definition record_interaction :: "string \<Rightarrow> string \<Rightarrow> interaction_type \<Rightarrow> interview_record list \<Rightarrow> interview_record list" where
  "record_interaction q r t recs = recs @ [\<lparr>ir_question = q, ir_response = r, ir_interaction_type = t\<rparr>]"

definition recorded ::
  "('a \<Rightarrow> string) \<Rightarrow> string \<Rightarrow> interaction_type \<Rightarrow> ('w, 'a) interaction \<Rightarrow> ('w \<times> interview_record list, 'a) interaction" where
  "recorded render q t f limit = (\<lambda>(w, recs).
     case f limit w of
       (Some (Inr a), w1) \<Rightarrow> (Some (Inr a), w1, record_interaction q (render a) t recs)
     | (r, w1) \<Rightarrow> (r, w1, recs))"

definition yes_no :: "bool \<Rightarrow> string" where
  "yes_no approved = (if approved then ''yes'' else ''no'')"

definition recording_interviewer :: "'w interviewer \<Rightarrow> ('w \<times> interview_record list) interviewer" where
  "recording_interviewer inner =
     \<lparr>iv_ask = (\<lambda>q ctx. recorded id q IT_Ask (iv_ask inner q ctx)),
      iv_ask_with_options = (\<lambda>q options ctx. recorded id q IT_AskWithOptions (iv_ask_with_options inner q options ctx)),
      iv_approve = (\<lambda>m ctx. recorded yes_no m IT_Approve (iv_approve inner m ctx))\<rparr>"

definition clear_recordings :: "'w \<times> interview_record list \<Rightarrow> 'w \<times> interview_record list" where
  "clear_recordings s = (fst s, [])"

definition recording_count :: "'w \<times> interview_record list \<Rightarrow> nat" where
  "recording_count s = length (snd s)"

text \<open>A timeout around another interviewer.  When an outer limit is shorter it cuts first; at equal times
  the inner timer is asked first.\<close>

definition with_timeout :: "duration \<Rightarrow> 'a option \<Rightarrow> ('w, 'a) interaction \<Rightarrow> ('w, 'a) interaction" where
  "with_timeout timeout fallback f limit w =
     (if (case limit of Some l \<Rightarrow> l < timeout | None \<Rightarrow> False) then f limit w
      else
        (case f (Some timeout) w of
           (Some r, w1) \<Rightarrow> (Some r, w1)
         | (None, w1) \<Rightarrow> (Some (case fallback of Some d \<Rightarrow> Inr d | None \<Rightarrow> Inl Timed_Out), w1)))"

definition timeout_interviewer :: "duration \<Rightarrow> string option \<Rightarrow> bool option \<Rightarrow> 'w interviewer \<Rightarrow> 'w interviewer" where
  "timeout_interviewer timeout default_response default_approval inner =
     \<lparr>iv_ask = (\<lambda>q ctx. with_timeout timeout default_response (iv_ask inner q ctx)),
      iv_ask_with_options = (\<lambda>q options ctx. with_timeout timeout default_response (iv_ask_with_options inner q options ctx)),
      iv_approve = (\<lambda>m ctx. with_timeout timeout default_approval (iv_approve inner m ctx))\<rparr>"

text \<open>Questions over a channel.  Waiting yields what the consumer sends, nothing when it drops its end, and
  no answer at all within the limit.\<close>

record 'w gate_channel =
  gc_send :: "string \<Rightarrow> 'w \<Rightarrow> bool \<times> 'w"
  gc_wait :: "duration option \<Rightarrow> 'w \<Rightarrow> (interviewer_error + string) option option \<times> 'w"

definition send_and_wait :: "'w gate_channel \<Rightarrow> string \<Rightarrow> ('w, string) interaction" where
  "send_and_wait ch q limit w =
     (case gc_send ch q w of
        (False, w1) \<Rightarrow> (Some (Inl (Interview_Other ''channel closed'')), w1)
      | (True, w1) \<Rightarrow>
          (case gc_wait ch limit w1 of
             (None, w2) \<Rightarrow> (None, w2)
           | (Some None, w2) \<Rightarrow> (Some (Inl (Interview_Other ''response channel dropped'')), w2)
           | (Some (Some r), w2) \<Rightarrow> (Some r, w2)))"

definition channel_yes :: "string \<Rightarrow> bool" where
  "channel_yes r = (let t = to_lower (trim r) in t = ''y'' \<or> t = ''yes'' \<or> t = ''true'' \<or> t = ''1'')"

definition map_answer :: "('a \<Rightarrow> 'b) \<Rightarrow> ('w, 'a) interaction \<Rightarrow> ('w, 'b) interaction" where
  "map_answer g f limit w = (let (r, w1) = f limit w in (map_option (map_sum id g) r, w1))"

definition channel_interviewer :: "'w gate_channel \<Rightarrow> 'w interviewer" where
  "channel_interviewer ch =
     \<lparr>iv_ask = (\<lambda>q ctx. send_and_wait ch q),
      iv_ask_with_options = (\<lambda>q options ctx. send_and_wait ch (q @ [newline] @ ''Options: '' @ join '', '' options)),
      iv_approve = (\<lambda>m ctx. map_answer channel_yes (send_and_wait ch (m @ '' [y/n]'')))\<rparr>"

section \<open>Handlers\<close>

text \<open>The execution of a node, nothing when the interviewer never answers.\<close>

type_synonym 'w interview_execution = "context_map \<Rightarrow> 'w \<Rightarrow> ((handler_error + outcome) \<times> context_map \<times> 'w) option"

definition response_data :: "string \<Rightarrow> json" where
  "response_data r = JObject [(''response'', JString r)]"

definition answered_outcome :: "string \<Rightarrow> outcome" where
  "answered_outcome r = with_preferred_label r (success_with (response_data r))"

definition interview_key :: "graph_node \<Rightarrow> string" where
  "interview_key n = ''_interview_'' @ gn_id n"

definition interview_outcome ::
  "graph_node \<Rightarrow> ('a \<Rightarrow> string) \<Rightarrow> context_map \<Rightarrow> (interviewer_error + 'a) option \<times> 'w \<Rightarrow> ((handler_error + outcome) \<times> context_map \<times> 'w) option" where
  "interview_outcome n render ctx rw =
     (case rw of
        (None, w1) \<Rightarrow> None
      | (Some (Inr a), w1) \<Rightarrow>
          Some (Inr (answered_outcome (render a)), context_set (interview_key n) (JString (render a)) ctx, w1)
      | (Some (Inl Cancelled), w1) \<Rightarrow> Some (Inr (skip ''interview cancelled''), ctx, w1)
      | (Some (Inl e), w1) \<Rightarrow> Some (Inr (failure (interviewer_error_text e)), ctx, w1))"

definition interview_question :: "graph_node \<Rightarrow> string option" where
  "interview_question n = (case gn_attrs n ''question'' of Some (AString s) \<Rightarrow> Some s | _ \<Rightarrow> gn_label n)"

definition interviewer_execute :: "'w interviewer \<Rightarrow> graph_node \<Rightarrow> 'w interview_execution" where
  "interviewer_execute iv n ctx w =
     (case interview_question n of
        None \<Rightarrow> Some (Inr (failure ''no question specified for interviewer node''), ctx, w)
      | Some q \<Rightarrow>
          (if gn_attrs n ''approve'' = Some (ABool True) then interview_outcome n yes_no ctx (iv_approve iv q ctx None w)
           else
             (case gn_attrs n ''options'' of
                Some (AString opts) \<Rightarrow>
                  interview_outcome n id ctx (iv_ask_with_options iv q (map trim (split_char CHR '','' opts)) ctx None w)
              | _ \<Rightarrow> interview_outcome n id ctx (iv_ask iv q ctx None w))))"

record 'w human_gate =
  hg_interviewer :: "'w interviewer"
  hg_timeout :: "duration option"
  hg_default_choice :: "string option"

definition human_gate_new :: "'w interviewer \<Rightarrow> 'w human_gate" where
  "human_gate_new iv = \<lparr>hg_interviewer = iv, hg_timeout = None, hg_default_choice = None\<rparr>"

definition gate_timeout :: "duration \<Rightarrow> 'w human_gate \<Rightarrow> 'w human_gate" where
  "gate_timeout d g = g\<lparr>hg_timeout := Some d\<rparr>"

definition gate_default_choice :: "string \<Rightarrow> 'w human_gate \<Rightarrow> 'w human_gate" where
  "gate_default_choice c g = g\<lparr>hg_default_choice := Some c\<rparr>"

definition resolve_timeout :: "'w human_gate \<Rightarrow> graph_node \<Rightarrow> duration option" where
  "resolve_timeout g n =
     (case gn_attrs n ''human.timeout_secs'' of
        Some (ANumber x) \<Rightarrow> (if f64_as_u64 x > 0 then Some (from_secs (f64_as_u64 x)) else hg_timeout g)
      | _ \<Rightarrow> hg_timeout g)"

definition resolve_default_choice :: "'w human_gate \<Rightarrow> graph_node \<Rightarrow> string option" where
  "resolve_default_choice g n =
     (case gn_attrs n ''human.default_choice'' of Some (AString s) \<Rightarrow> Some s | _ \<Rightarrow> hg_default_choice g)"

definition gate_question :: "graph_node \<Rightarrow> string option" where
  "gate_question n =
     (case gn_attrs n ''question'' of
        Some (AString s) \<Rightarrow> Some s
      | _ \<Rightarrow> (case gn_attrs n ''prompt'' of Some (AString s) \<Rightarrow> Some s | _ \<Rightarrow> gn_label n))"

definition gate_ask :: "'w human_gate \<Rightarrow> graph_node \<Rightarrow> string \<Rightarrow> context_map \<Rightarrow> 'w \<Rightarrow> (interviewer_error + string) option \<times> 'w" where
  "gate_ask g n q ctx w =
     (case resolve_timeout g n of
        Some d \<Rightarrow>
          (case iv_ask (hg_interviewer g) q ctx (Some d) w of
             (Some r, w1) \<Rightarrow> (Some r, w1)
           | (None, w1) \<Rightarrow> (Some (Inl Timed_Out), w1))
      | None \<Rightarrow> iv_ask (hg_interviewer g) q ctx None w)"

definition defaulted_data :: "string \<Rightarrow> json" where
  "defaulted_data r = JObject [(''defaulted'', JBool True), (''response'', JString r)]"

definition human_gate_execute :: "'w human_gate \<Rightarrow> graph_node \<Rightarrow> 'w interview_execution" where
  "human_gate_execute g n ctx w =
     (case gate_question n of
        None \<Rightarrow> Some (Inr (failure ''no question or prompt specified for human gate node''), ctx, w)
      | Some q \<Rightarrow>
          (case gate_ask g n q ctx w of
             (None, w1) \<Rightarrow> None
           | (Some (Inr r), w1) \<Rightarrow> Some (Inr (answered_outcome r), context_set (gn_id n) (JString r) ctx, w1)
           | (Some (Inl Cancelled), w1) \<Rightarrow> Some (Inr (skip ''human gate cancelled''), ctx, w1)
           | (Some (Inl Timed_Out), w1) \<Rightarrow>
               (case resolve_default_choice g n of
                  Some r \<Rightarrow>
                    Some (Inr (with_preferred_label r (success_with (defaulted_data r))), context_set (gn_id n) (JString r) ctx, w1)
                | None \<Rightarrow> Some (Inr (failure ''interview timed out''), ctx, w1))
           | (Some (Inl (Interview_Other m)), w1) \<Rightarrow> Some (Inr (failure (interviewer_error_text (Interview_Other m))), ctx, w1)))"

definition handles_interviews :: "node_type \<Rightarrow> bool" where
  "handles_interviews t \<longleftrightarrow> t = Interviewer"

section \<open>Time limits\<close>

text \<open>The contract of an interaction: an answer given within a limit is given within every longer one.\<close>

definition longer :: "duration option \<Rightarrow> duration option \<Rightarrow> bool" where
  "longer l l' \<longleftrightarrow> (case l' of None \<Rightarrow> True | Some b \<Rightarrow> (case l of None \<Rightarrow> False | Some a \<Rightarrow> a \<le> b))"

definition patient :: "('w, 'a) interaction \<Rightarrow> bool" where
  "patient f \<longleftrightarrow> (\<forall>l l' w r w1. f l w = (Some r, w1) \<longrightarrow> longer l l' \<longrightarrow> f l' w = (Some r, w1))"

lemma patientD: "patient f \<Longrightarrow> f l w = (Some r, w1) \<Longrightarrow> longer l l' \<Longrightarrow> f l' w = (Some r, w1)"
  unfolding patient_def by blast

lemma patient_at_once: "patient (at_once f)"
  by (simp add: patient_def at_once_def)

lemma patient_with_timeout:
  assumes "patient f"
  shows "patient (with_timeout d fallback f)"
  unfolding patient_def
proof (intro allI impI)
  fix l l' w r w1
  assume r: "with_timeout d fallback f l w = (Some r, w1)" and lon: "longer l l'"
  show "with_timeout d fallback f l' w = (Some r, w1)"
  proof (cases "\<exists>a. l = Some a \<and> a < d")
    case True
    then obtain a where a: "l = Some a" "a < d" by blast
    then have f: "f (Some a) w = (Some r, w1)" using r by (simp add: with_timeout_def)
    have "f l' w = (Some r, w1)" "f (Some d) w = (Some r, w1)"
      using patientD [OF assms f] lon a by (simp_all add: longer_def)
    then show ?thesis by (simp add: with_timeout_def)
  next
    case False
    then have "\<not> (\<exists>b. l' = Some b \<and> b < d)" using lon by (auto simp: longer_def split: option.splits)
    then show ?thesis using False r by (auto simp: with_timeout_def split: option.splits)
  qed
qed

lemma patient_recorded:
  assumes "patient f"
  shows "patient (recorded render q t f)"
  unfolding patient_def
proof (intro allI impI)
  fix l l' s r w1
  assume r: "recorded render q t f l s = (Some r, w1)" and lon: "longer l l'"
  obtain w recs where s: "s = (w, recs)" by force
  with r obtain r0 v where f: "f l w = (Some r0, v)" by (auto simp: recorded_def split: prod.splits option.splits sum.splits)
  have "f l' w = (Some r0, v)" by (rule patientD [OF assms f lon])
  then show "recorded render q t f l' s = (Some r, w1)" using r by (simp add: recorded_def s f)
qed

lemma patient_map_answer:
  assumes "patient f"
  shows "patient (map_answer g f)"
  unfolding patient_def
proof (intro allI impI)
  fix l l' w r w1
  assume r: "map_answer g f l w = (Some r, w1)" and lon: "longer l l'"
  then obtain r0 where f: "f l w = (Some r0, w1)" by (auto simp: map_answer_def split: prod.splits)
  show "map_answer g f l' w = (Some r, w1)"
    using r patientD [OF assms f lon] by (simp add: map_answer_def f)
qed

locale patient_interviewer =
  fixes iv :: "'w interviewer"
  assumes ask: "patient (iv_ask iv q ctx)"
    and ask_with_options: "patient (iv_ask_with_options iv q options ctx)"
    and approve: "patient (iv_approve iv q ctx)"

context patient_interviewer
begin

text \<open>Wrapping keeps the contract, and a wrapped interviewer still gives every answer that comes in time.\<close>

lemma timeout_patient: "patient_interviewer (timeout_interviewer d fallback approval iv)"
  by unfold_locales (simp_all add: timeout_interviewer_def patient_with_timeout ask ask_with_options approve)

lemma recording_patient: "patient_interviewer (recording_interviewer iv)"
  by unfold_locales (simp_all add: recording_interviewer_def patient_recorded ask ask_with_options approve)

lemma in_time:
  assumes "iv_ask iv q ctx (Some l) w = (Some r, w1)" "l \<le> d"
  shows "iv_ask (timeout_interviewer d fallback approval iv) q ctx None w = (Some r, w1)"
  using patientD [OF ask assms(1), of "Some d"] assms(2)
  by (simp add: timeout_interviewer_def with_timeout_def longer_def)

text \<open>A gate with a timeout gives the answer it would get without one, if that comes in time.\<close>

lemma gate_in_time:
  assumes "hg_interviewer g = iv" "resolve_timeout g n = Some d" "iv_ask iv q ctx (Some l) w = (Some r, w1)" "l \<le> d"
  shows "gate_ask g n q ctx w = iv_ask iv q ctx None w"
  using patientD [OF ask assms(3), of "Some d"] patientD [OF ask assms(3), of None] assms(1,2,4)
  by (simp add: gate_ask_def longer_def)

end

interpretation auto: patient_interviewer "auto_approve r" for r
  by unfold_locales (simp_all add: auto_approve_def patient_at_once)

interpretation queued: patient_interviewer queue_interviewer
  by unfold_locales (simp_all add: queue_interviewer_def patient_at_once)

interpretation callback: patient_interviewer "callback_interviewer f g" for f g
  by unfold_locales (simp_all add: callback_interviewer_def patient_at_once)

interpretation console: patient_interviewer "console_interviewer con" for con
  by unfold_locales (simp_all add: console_interviewer_def patient_at_once)

interpretation timed_queue: patient_interviewer "timeout_interviewer d fallback approval queue_interviewer" for d fallback approval
  by (rule queued.timeout_patient)

interpretation recorded_queue: patient_interviewer "recording_interviewer queue_interviewer"
  by (rule queued.recording_patient)

text \<open>The channel keeps the contract if the consumer does.\<close>

lemma channel_patient:
  assumes "\<And>l l' w r w1. gc_wait ch l w = (Some r, w1) \<Longrightarrow> longer l l' \<Longrightarrow> gc_wait ch l' w = (Some r, w1)"
  shows "patient_interviewer (channel_interviewer ch)"
proof -
  have send: "patient (send_and_wait ch q)" for q
    unfolding patient_def
  proof (intro allI impI)
    fix l l' w r w1
    assume r: "send_and_wait ch q l w = (Some r, w1)" and lon: "longer l l'"
    obtain ok v where s: "gc_send ch q w = (ok, v)" by force
    show "send_and_wait ch q l' w = (Some r, w1)"
    proof (cases ok)
      case True
      with r s obtain a u where "gc_wait ch l v = (Some a, u)" by (auto simp: send_and_wait_def split: prod.splits option.splits)
      with assms [OF this lon] r s True show ?thesis by (simp add: send_and_wait_def)
    qed (use r s in \<open>simp add: send_and_wait_def\<close>)
  qed
  show ?thesis by unfold_locales (simp_all add: channel_interviewer_def send patient_map_answer)
qed

section \<open>What the gate promises\<close>

text \<open>
  With a timeout the gate always returns, whatever the interviewer does; if nobody answers in time, the
  default choice counts as the answer: it is stored under the node and preferred for routing, and without
  one the node fails.
\<close>

theorem human_gate_returns:
  assumes "resolve_timeout g n = Some d"
  shows "\<exists>out ctx' w'. human_gate_execute g n ctx w = Some (Inr out, ctx', w') \<and>
    (\<forall>q w1. gate_question n = Some q \<longrightarrow> iv_ask (hg_interviewer g) q ctx (Some d) w = (None, w1) \<longrightarrow>
       (case resolve_default_choice g n of
          Some c \<Rightarrow> preferred_label out = Some c \<and> context_get ctx' (gn_id n) = Some (JString c)
        | None \<Rightarrow> out = failure ''interview timed out'' \<and> ctx' = ctx))"
proof (cases "gate_question n")
  case None
  then show ?thesis by (simp add: human_gate_execute_def)
next
  case (Some q)
  obtain r w1 where a: "iv_ask (hg_interviewer g) q ctx (Some d) w = (r, w1)" by force
  show ?thesis
  proof (cases r)
    case None
    then show ?thesis
      by (cases "resolve_default_choice g n")
        (simp_all add: human_gate_execute_def Some gate_ask_def assms a success_with_def context_get_def context_set_def)
  next
    case r: (Some x)
    show ?thesis
    proof (cases x)
      case (Inl e)
      then show ?thesis
        by (cases e; cases "resolve_default_choice g n") (simp_all add: human_gate_execute_def Some gate_ask_def assms a r)
    qed (simp add: human_gate_execute_def Some gate_ask_def assms a r)
  qed
qed

definition silent_interviewer :: "'w interviewer" where
  "silent_interviewer =
     \<lparr>iv_ask = (\<lambda>q ctx limit w. (None, w)), iv_ask_with_options = (\<lambda>q options ctx limit w. (None, w)),
      iv_approve = (\<lambda>m ctx limit w. (None, w))\<rparr>"

definition sample_gate_node :: graph_node where
  "sample_gate_node = \<lparr>gn_id = ''ok'', gn_type = Interviewer, gn_label = Some ''Ship it?'', gn_attrs = (\<lambda>_. None)\<rparr>"

lemma human_gate_returns_witness:
  "\<exists>out ctx' w'. human_gate_execute (gate_default_choice ''no'' (gate_timeout 5 (human_gate_new silent_interviewer)))
      sample_gate_node [] () = Some (Inr out, ctx', w') \<and>
    preferred_label out = Some ''no'' \<and> context_get ctx' ''ok'' = Some (JString ''no'')"
proof -
  let ?g = "gate_default_choice ''no'' (gate_timeout 5 (human_gate_new silent_interviewer))"
  have "resolve_timeout ?g sample_gate_node = Some 5"
    by (simp add: resolve_timeout_def sample_gate_node_def gate_default_choice_def gate_timeout_def human_gate_new_def)
  from human_gate_returns [OF this, of "[]" "()"] show ?thesis
    by (simp add: gate_question_def resolve_default_choice_def sample_gate_node_def gate_default_choice_def gate_timeout_def
        human_gate_new_def silent_interviewer_def)
qed

text \<open>
  The answer picks the way: at a node whose edges carry no conditions, if some edge is labelled like the
  answer, the edge that is taken is labelled like the answer.
\<close>

theorem gate_answer_routes:
  assumes "human_gate_execute g n ctx w = Some (Inr out, ctx', w')"
    and "gate_question n = Some q" "gate_ask g n q ctx w = (Some (Inr r), w1)"
    and "\<forall>e\<in>set (edges_from gr (gn_id n)). \<not> has_explicit_condition e"
    and "e0 \<in> set (edges_from gr (gn_id n))" "ge_label e0 = Some l0" "normalize_label r = Inr a" "normalize_label l0 = Inr a"
    and "select_edge render gr (gn_id n) ctx' (Some out) = Inr sel"
  shows "\<exists>e l. sel = Some e \<and> e \<in> set (edges_from gr (gn_id n)) \<and> ge_label e = Some l \<and> normalize_label l = Inr a"
proof -
  have out: "preferred_label out = Some r"
    using assms(1-3) by (auto simp: human_gate_execute_def answered_outcome_def success_with_def)
  let ?es = "edges_from gr (gn_id n)" and ?m = "hm_get (to_string_map render ctx')"
  have up: "filter (\<lambda>e. \<not> has_explicit_condition e) ?es = ?es" "filter (passes ?m) ?es = []"
    using assms(4) by (auto simp: filter_id_conv filter_empty_conv passes_def)
  have pref: "prefers (Some out) e \<longleftrightarrow> (\<exists>l. ge_label e = Some l \<and> normalize_label l = Inr a)" for e
    by (auto simp: prefers_def out assms(7) split: option.splits sum.splits)
  have tier: "first_tier (edge_tiers ?m (Some out) ?es) = filter (prefers (Some out)) ?es"
    using assms(5,6,8) by (simp add: edge_tiers_def up tier_list_cases) (auto simp: filter_empty_conv pref)
  have "filter (prefers (Some out)) ?es \<noteq> []" using assms(5,6,8) by (auto simp: filter_empty_conv pref)
  then obtain e where e: "pick_best (filter (prefers (Some out)) ?es) = Some e"
    using pick_best_None by blast
  have "sel = Some e" using select_edge_Inr [OF assms(9)] e by (simp add: tier)
  with pick_best_Some(1) [OF e] show ?thesis by (auto simp: pref)
qed

lemma gate_answer_routes_witness:
  "\<exists>e. select_edge (\<lambda>_. []) (fork_graph fork_edges) ''s''
      [(''s'', JString ''x'')] (Some (answered_outcome ''x'')) = Inr (Some e) \<and> ge_label e = Some ''x''"
proof -
  let ?n = "sample_gate_node\<lparr>gn_id := ''s''\<rparr>" and ?g = "human_gate_new (auto_approve ''x'')"
  have ask: "gate_question ?n = Some ''Ship it?''" "gate_ask ?g ?n ''Ship it?'' [] () = (Some (Inr ''x''), ())"
    by (simp_all add: gate_question_def sample_gate_node_def gate_ask_def resolve_timeout_def human_gate_new_def auto_approve_def at_once_def)
  then have run: "human_gate_execute ?g ?n [] () = Some (Inr (answered_outcome ''x''), [(''s'', JString ''x'')], ())"
    by (simp add: human_gate_execute_def context_set_def hm_insert_def hm_remove_def sample_gate_node_def)
  have es: "edges_from (fork_graph fork_edges) (gn_id ?n) = fork_edges"
    by (simp add: edges_from_def fork_graph_def fork_edge_def)
  have unc: "\<forall>e\<in>set (edges_from (fork_graph fork_edges) (gn_id ?n)). \<not> has_explicit_condition e"
    unfolding es by (simp add: fork_edge_def has_explicit_condition_def)
  have norm: "normalize_label ''x'' = Inr ''x''" "normalize_label ''y'' = Inr ''y''"
    by (simp_all add: normalize_label_def strip_accelerator_prefix_def trim_def trim_start_def trim_end_def char_class_defs
        starts_with_def to_lower_def lower_char_def)
  have "is_ok (select_edge (\<lambda>_. []) (fork_graph fork_edges) (gn_id ?n) [(''s'', JString ''x'')] (Some (answered_outcome ''x'')))"
    using es by (simp add: select_edge_def)
       (simp add: fork_edge_def has_explicit_condition_def preferred_edges_def answered_outcome_def success_with_def label_matches_def norm)
  then obtain sel where sel: "select_edge (\<lambda>_. []) (fork_graph fork_edges) (gn_id ?n) [(''s'', JString ''x'')] (Some (answered_outcome ''x'')) = Inr sel"
    by (auto simp: is_ok_iff)
  have "fork_edge ''a'' None (Some ''x'') \<in> set (edges_from (fork_graph fork_edges) (gn_id ?n))" "ge_label (fork_edge ''a'' None (Some ''x'')) = Some ''x''"
    unfolding es by (simp_all add: fork_edge_def)
  from gate_answer_routes [OF run ask unc this norm(1) norm(1) sel] obtain e l where e: "sel = Some e" "e \<in> set fork_edges"
    "ge_label e = Some l" "normalize_label l = Inr ''x''" unfolding es by blast
  then have "ge_label e = Some ''x''" using norm by (auto simp: fork_edge_def)
  with e(1) sel show ?thesis by (simp add: sample_gate_node_def)
qed

end
