(* ===== verification/Server.thy ===== *)
theory Server
  imports Run_Store Status
begin

text \<open>
  The description of the HTTP service, \<open>server.rs\<close>: its configuration, the bodies of its requests and
  responses, and the table of its routes.  The web framework is not part of it.
\<close>

record server_config =
  sc_host :: string
  sc_port :: "16 word"
  sc_enable_status_endpoint :: bool
  sc_enable_trigger_endpoint :: bool

definition server_config_new :: "string \<Rightarrow> 16 word \<Rightarrow> server_config" where
  "server_config_new host port =
     \<lparr>sc_host = host, sc_port = port, sc_enable_status_endpoint = True, sc_enable_trigger_endpoint = True\<rparr>"

definition default_local :: server_config where
  "default_local = server_config_new ''127.0.0.1'' 2389"

definition bind_address :: "server_config \<Rightarrow> string" where
  "bind_address c = sc_host c @ '':'' @ dec (unat (sc_port c))"

record trigger_request =
  tq_pipeline :: string
  tq_variables :: "string hmap"
  tq_stylesheet :: "string option"

record trigger_response =
  ts_execution_id :: string
  ts_status :: pipeline_phase

record submit_request =
  sq_dot_source :: string
  sq_variables :: "string hmap"
  sq_model :: "string option"

record submit_response =
  sr_run_id :: string
  sr_status :: run_status

record run_status_response =
  rsr_run_id :: string
  rsr_status :: run_status
  rsr_metadata :: "run_metadata option"

record cancel_response =
  cr_run_id :: string
  cr_cancelled :: bool

datatype http_method = Http_Get | Http_Post | Http_Delete

fun http_method_text :: "http_method \<Rightarrow> string" where
  "http_method_text Http_Get = ''GET''"
| "http_method_text Http_Post = ''POST''"
| "http_method_text Http_Delete = ''DELETE''"

record route =
  rt_method :: http_method
  rt_path :: string
  rt_description :: string

definition mk_route :: "http_method \<Rightarrow> string \<Rightarrow> string \<Rightarrow> route" where
  "mk_route m p d = \<lparr>rt_method = m, rt_path = p, rt_description = d\<rparr>"

definition question_routes :: "route list" where
  "question_routes =
     [mk_route Http_Get ''/api/v1/questions'' ''List pending interview questions'',
      mk_route Http_Post ''/api/v1/questions/{id}/answer'' ''Submit an answer to a pending question'']"

definition api_routes :: "route list" where
  "api_routes =
     [mk_route Http_Post ''/api/runs'' ''Submit a pipeline for execution'',
      mk_route Http_Get ''/api/runs'' ''List all pipeline runs'',
      mk_route Http_Get ''/api/runs/{id}'' ''Get status of a specific run'',
      mk_route Http_Get ''/api/runs/{id}/events'' ''Stream run events via SSE'',
      mk_route Http_Post ''/api/runs/{id}/cancel'' ''Cancel a running pipeline'',
      mk_route Http_Get ''/api/runs/{id}/graph'' ''Render pipeline graph as DOT or SVG'',
      mk_route Http_Get ''/api/health'' ''Health check endpoint''] @ question_routes"

text \<open>A request picks at most one route: no two share method and path.\<close>

lemma api_routes_distinct: "distinct (map (\<lambda>r. (rt_method r, rt_path r)) api_routes)"
  by (simp add: api_routes_def question_routes_def mk_route_def)


end
