(* ===== verification/Http_Interviewer.thy ===== *)
theory Http_Interviewer
  imports Interviewer Server
begin

text \<open>
  The interviewer that HTTP clients answer, \<open>http_interviewer.rs\<close>: the queue of pending questions, the two
  endpoints, and the steps of the askers and the clients on the shared queue.  Every question has a oneshot
  channel, named by a number; identifiers come from a numbered supply of distinct texts.
\<close>

section \<open>The queue\<close>

datatype question_kind = QK_FreeForm | QK_MultipleChoice | QK_Approval

record pending_question =
  pq_id :: string
  pq_question :: string
  pq_choices :: "string list"
  pq_kind :: question_kind
  pq_created_at :: nat
  pq_answer_tx :: "nat option"

record question_summary =
  qs_id :: string
  qs_question :: string
  qs_choices :: "string list"
  qs_kind :: question_kind

type_synonym question_queue = "pending_question list"

definition queue_push :: "pending_question \<Rightarrow> question_queue \<Rightarrow> string \<times> question_queue" where
  "queue_push q queue = (pq_id q, queue @ [q])"

definition queue_list :: "question_queue \<Rightarrow> question_summary list" where
  "queue_list queue =
     map (\<lambda>q. \<lparr>qs_id = pq_id q, qs_question = pq_question q, qs_choices = pq_choices q, qs_kind = pq_kind q\<rparr>) queue"

fun queue_take :: "string \<Rightarrow> question_queue \<Rightarrow> (pending_question option) \<times> question_queue" where
  "queue_take i [] = (None, [])"
| "queue_take i (q # queue) =
     (if pq_id q = i then (Some q, queue) else (let (r, rest) = queue_take i queue in (r, q # rest)))"

definition queue_len :: "question_queue \<Rightarrow> nat" where
  "queue_len queue = length queue"

definition queue_is_empty :: "question_queue \<Rightarrow> bool" where
  "queue_is_empty queue \<longleftrightarrow> queue_len queue = 0"

record answer_response =
  an_success :: bool
  an_error :: "string option"

section \<open>Askers and clients\<close>

text \<open>The receiving end of a channel: an asker waits on it, has its answer, or is gone.\<close>

datatype receiver = Waiting | Delivered string | Gone

record hub =
  hb_queue :: question_queue
  hb_channels :: "nat \<Rightarrow> receiver option"
  hb_next :: nat

definition hub_new :: hub where
  "hub_new = \<lparr>hb_queue = [], hb_channels = Map.empty, hb_next = 0\<rparr>"

text \<open>Asking: a fresh channel and a fresh identifier.\<close>

definition enqueue :: "(nat \<Rightarrow> string) \<Rightarrow> nat \<Rightarrow> string \<Rightarrow> string list \<Rightarrow> question_kind \<Rightarrow> hub \<Rightarrow> nat \<times> hub" where
  "enqueue uuid now question choices kind h =
     (let c = hb_next h;
          pending = \<lparr>pq_id = uuid c, pq_question = question, pq_choices = choices, pq_kind = kind, pq_created_at = now,
            pq_answer_tx = Some c\<rparr>
      in (c, h\<lparr>hb_queue := snd (queue_push pending (hb_queue h)), hb_channels := (hb_channels h)(c \<mapsto> Waiting), hb_next := Suc c\<rparr>))"

text \<open>Sending on a channel fails when its receiver is gone.\<close>

definition send_answer :: "nat \<Rightarrow> string \<Rightarrow> hub \<Rightarrow> bool \<times> hub" where
  "send_answer c answer h =
     (if hb_channels h c = Some Waiting then (True, h\<lparr>hb_channels := (hb_channels h)(c \<mapsto> Delivered answer)\<rparr>) else (False, h))"

definition answer_question :: "string \<Rightarrow> string \<Rightarrow> hub \<Rightarrow> answer_response \<times> hub" where
  "answer_question i answer h =
     (let (r, rest) = queue_take i (hb_queue h); h1 = h\<lparr>hb_queue := rest\<rparr> in
      case r of
        None \<Rightarrow> (\<lparr>an_success = False, an_error = Some (''question not found: '' @ i)\<rparr>, h1)
      | Some pending \<Rightarrow>
          (case pq_answer_tx pending of
             None \<Rightarrow> (\<lparr>an_success = False, an_error = Some ''answer channel already consumed''\<rparr>, h1)
           | Some c \<Rightarrow>
               (let (ok, h2) = send_answer c answer h1 in
                (if ok then \<lparr>an_success = True, an_error = None\<rparr>
                 else \<lparr>an_success = False, an_error = Some ''receiver dropped; question may have timed out''\<rparr>, h2))))"

definition list_questions :: "hub \<Rightarrow> question_summary list" where
  "list_questions h = queue_list (hb_queue h)"

text \<open>An asker gives up: its future is dropped, as by a timeout.\<close>

definition give_up :: "nat \<Rightarrow> hub \<Rightarrow> hub" where
  "give_up c h = h\<lparr>hb_channels := (hb_channels h)(c \<mapsto> Gone)\<rparr>"

text \<open>The interviewer: it asks and waits for its channel; waiting is the asynchronous runtime's, with the
  other steps in between.\<close>

definition http_wait ::
  "(nat \<Rightarrow> duration option \<Rightarrow> hub \<Rightarrow> string option option \<times> hub) \<Rightarrow> nat \<Rightarrow> duration option \<Rightarrow> hub \<Rightarrow>
     (interviewer_error + string) option \<times> hub" where
  "http_wait wait c limit h =
     (case wait c limit h of
        (None, h1) \<Rightarrow> (None, h1)
      | (Some None, h1) \<Rightarrow> (Some (Inl (Interview_Other ''answer channel closed'')), h1)
      | (Some (Some a), h1) \<Rightarrow> (Some (Inr a), h1))"

definition http_ask ::
  "(nat \<Rightarrow> string) \<Rightarrow> nat \<Rightarrow> (nat \<Rightarrow> duration option \<Rightarrow> hub \<Rightarrow> string option option \<times> hub) \<Rightarrow> string \<Rightarrow> string list \<Rightarrow>
     question_kind \<Rightarrow> (hub, string) interaction" where
  "http_ask uuid now wait question choices kind limit h =
     (let (c, h1) = enqueue uuid now question choices kind h in http_wait wait c limit h1)"

definition http_yes :: "string \<Rightarrow> bool" where
  "http_yes a = (let t = to_lower (trim a) in t = ''yes'' \<or> t = ''y'' \<or> t = ''true'')"

definition http_interviewer ::
  "(nat \<Rightarrow> string) \<Rightarrow> nat \<Rightarrow> (nat \<Rightarrow> duration option \<Rightarrow> hub \<Rightarrow> string option option \<times> hub) \<Rightarrow> hub interviewer" where
  "http_interviewer uuid now wait =
     \<lparr>iv_ask = (\<lambda>q ctx. http_ask uuid now wait q [] QK_FreeForm),
      iv_ask_with_options = (\<lambda>q options ctx. http_ask uuid now wait q options QK_MultipleChoice),
      iv_approve = (\<lambda>m ctx. map_answer http_yes (http_ask uuid now wait m [] QK_Approval))\<rparr>"

section \<open>Interleavings\<close>

inductive hub_step :: "(nat \<Rightarrow> string) \<Rightarrow> hub \<Rightarrow> hub \<Rightarrow> bool" for uuid :: "nat \<Rightarrow> string" where
  Ask: "hub_step uuid h (snd (enqueue uuid now question choices kind h))"
| Answer: "hub_step uuid h (snd (answer_question i answer h))"
| Give_Up: "hb_channels h c = Some Waiting \<Longrightarrow> hub_step uuid h (give_up c h)"

inductive hub_reachable :: "(nat \<Rightarrow> string) \<Rightarrow> hub \<Rightarrow> bool" for uuid :: "nat \<Rightarrow> string" where
  Init: "hub_reachable uuid hub_new"
| Step: "hub_reachable uuid h \<Longrightarrow> hub_step uuid h h' \<Longrightarrow> hub_reachable uuid h'"

inductive_cases hub_stepE: "hub_step uuid h h'"

text \<open>The channel of a question carries its number, no two questions share one, and a waiting asker's
  question is in the queue.\<close>

definition question_ok :: "(nat \<Rightarrow> string) \<Rightarrow> hub \<Rightarrow> pending_question \<Rightarrow> bool" where
  "question_ok uuid h q \<longleftrightarrow>
     (case pq_answer_tx q of
        None \<Rightarrow> False
      | Some c \<Rightarrow> c < hb_next h \<and> pq_id q = uuid c \<and> (hb_channels h c = Some Waiting \<or> hb_channels h c = Some Gone))"

definition hub_ok :: "(nat \<Rightarrow> string) \<Rightarrow> hub \<Rightarrow> bool" where
  "hub_ok uuid h \<longleftrightarrow>
     list_all (question_ok uuid h) (hb_queue h) \<and> distinct (map pq_answer_tx (hb_queue h)) \<and>
     (\<forall>c. hb_channels h c = Some Waiting \<longrightarrow> Some c \<in> pq_answer_tx ` set (hb_queue h)) \<and>
     (\<forall>c\<ge>hb_next h. hb_channels h c = None)"

lemma queue_take_None: "fst (queue_take i queue) = None \<longleftrightarrow> i \<notin> pq_id ` set queue"
  by (induction i queue rule: queue_take.induct) (auto split: prod.splits)

lemma queue_take_None_rest: "i \<notin> pq_id ` set queue \<Longrightarrow> queue_take i queue = (None, queue)"
  by (induction i queue rule: queue_take.induct) auto

lemma queue_take_Some:
  "fst (queue_take i queue) = Some q \<Longrightarrow>
     \<exists>xs ys. queue = xs @ q # ys \<and> snd (queue_take i queue) = xs @ ys \<and> pq_id q = i \<and> i \<notin> pq_id ` set xs"
proof (induction i queue rule: queue_take.induct)
  case (2 i p queue)
  show ?case
  proof (cases "pq_id p = i")
    case True
    then show ?thesis using 2(2) by (auto intro: exI [of _ "[]"])
  next
    case False
    with 2 obtain xs ys where "queue = xs @ q # ys" "snd (queue_take i queue) = xs @ ys" "pq_id q = i" "i \<notin> pq_id ` set xs"
      by (auto simp: split_beta)
    with False have "p # queue = (p # xs) @ q # ys \<and> snd (queue_take i (p # queue)) = (p # xs) @ ys \<and> pq_id q = i \<and>
        i \<notin> pq_id ` set (p # xs)" by (simp add: split_beta)
    then show ?thesis by blast
  qed
qed simp

lemma hub_ok_new: "hub_ok uuid hub_new"
  by (simp add: hub_ok_def hub_new_def)

lemma hub_ok_enqueue:
  assumes "hub_ok uuid h"
  shows "hub_ok uuid (snd (enqueue uuid now question choices kind h))"
proof -
  let ?h = "snd (enqueue uuid now question choices kind h)"
  have new: "pq_answer_tx q \<noteq> Some (hb_next h)" "question_ok uuid ?h q" if "q \<in> set (hb_queue h)" for q
    using assms that by (auto simp: hub_ok_def list_all_iff question_ok_def enqueue_def Let_def split: option.splits)
  then have "list_all (question_ok uuid ?h) (hb_queue ?h)"
    by (auto simp: list_all_iff enqueue_def queue_push_def Let_def) (simp add: question_ok_def)
  moreover have "distinct (map pq_answer_tx (hb_queue ?h))"
  proof -
    have "Some (hb_next h) \<notin> pq_answer_tx ` set (hb_queue h)" using new(1) by (metis imageE)
    then show ?thesis using assms by (simp add: hub_ok_def enqueue_def queue_push_def Let_def)
  qed
  ultimately show ?thesis
    using assms by (auto simp: hub_ok_def enqueue_def queue_push_def Let_def)
qed

lemma hub_ok_give_up:
  assumes "hub_ok uuid h" "hb_channels h c = Some Waiting"
  shows "hub_ok uuid (give_up c h)"
proof -
  have c: "c < hb_next h" using assms by (metis hub_ok_def not_less option.distinct(1))
  have "question_ok uuid (give_up c h) q" if "question_ok uuid h q" for q
    using that by (auto simp: question_ok_def give_up_def split: option.splits)
  then have "list_all (question_ok uuid (give_up c h)) (hb_queue (give_up c h))"
    using assms(1) by (auto simp: hub_ok_def list_all_iff give_up_def)
  then show ?thesis using assms(1) c by (auto simp: hub_ok_def give_up_def)
qed

text \<open>Answering, in the two cases of its lookup.\<close>

lemma answer_unknown:
  assumes "i \<notin> pq_id ` set (hb_queue h)"
  shows "answer_question i answer h = (\<lparr>an_success = False, an_error = Some (''question not found: '' @ i)\<rparr>, h)"
  using queue_take_None_rest [OF assms] by (simp add: answer_question_def)

lemma answer_known:
  assumes "hub_ok uuid h" "i \<in> pq_id ` set (hb_queue h)"
  obtains xs q ys c where "hb_queue h = xs @ q # ys" "pq_id q = i" "i \<notin> pq_id ` set xs" "pq_answer_tx q = Some c"
    "i = uuid c" "c < hb_next h" "Some c \<notin> pq_answer_tx ` set (xs @ ys)"
    "snd (answer_question i answer h) =
       h\<lparr>hb_queue := xs @ ys,
         hb_channels := (hb_channels h)(c := if hb_channels h c = Some Waiting then Some (Delivered answer) else Some Gone)\<rparr>"
    "fst (answer_question i answer h) =
       (if hb_channels h c = Some Waiting then \<lparr>an_success = True, an_error = None\<rparr>
        else \<lparr>an_success = False, an_error = Some ''receiver dropped; question may have timed out''\<rparr>)"
proof -
  from assms(2) obtain q where q: "fst (queue_take i (hb_queue h)) = Some q"
    by (cases "fst (queue_take i (hb_queue h))") (simp_all add: queue_take_None)
  from queue_take_Some [OF this] obtain xs ys where s: "hb_queue h = xs @ q # ys" "snd (queue_take i (hb_queue h)) = xs @ ys"
    "pq_id q = i" "i \<notin> pq_id ` set xs" by blast
  have "question_ok uuid h q" using assms(1) by (simp add: hub_ok_def s(1))
  then obtain c where c: "pq_answer_tx q = Some c" "c < hb_next h" "pq_id q = uuid c"
    "hb_channels h c = Some Waiting \<or> hb_channels h c = Some Gone" by (auto simp: question_ok_def split: option.splits)
  have "distinct (map pq_answer_tx (hb_queue h))" using assms(1) by (simp add: hub_ok_def)
  then have new: "Some c \<notin> pq_answer_tx ` set (xs @ ys)" by (simp add: s(1) c(1) image_Un)
  have take: "queue_take i (hb_queue h) = (Some q, xs @ ys)" using q s(2) by (metis prod.collapse)
  have chan: "(hb_channels h)(c \<mapsto> Gone) = hb_channels h" if "hb_channels h c = Some Gone" using that by (simp add: fun_upd_idem)
  have ans: "answer_question i answer h =
      (let (ok, h2) = send_answer c answer (h\<lparr>hb_queue := xs @ ys\<rparr>)
       in (if ok then \<lparr>an_success = True, an_error = None\<rparr>
           else \<lparr>an_success = False, an_error = Some ''receiver dropped; question may have timed out''\<rparr>, h2))"
    by (simp add: answer_question_def take c(1))
  have "snd (answer_question i answer h) =
       h\<lparr>hb_queue := xs @ ys,
         hb_channels := (hb_channels h)(c := if hb_channels h c = Some Waiting then Some (Delivered answer) else Some Gone)\<rparr>"
    "fst (answer_question i answer h) =
       (if hb_channels h c = Some Waiting then \<lparr>an_success = True, an_error = None\<rparr>
        else \<lparr>an_success = False, an_error = Some ''receiver dropped; question may have timed out''\<rparr>)"
    using c(4) chan by (auto simp: ans send_answer_def)
  then show ?thesis using that [OF s(1,3,4) c(1) _ c(2) new] c(3) s(3) by simp
qed

lemma hub_ok_answer:
  assumes "hub_ok uuid h"
  shows "hub_ok uuid (snd (answer_question i answer h))"
proof (cases "i \<in> pq_id ` set (hb_queue h)")
  case False
  then show ?thesis using assms by (simp add: answer_unknown)
next
  case True
  from answer_known [OF assms True, of answer] obtain xs q ys c where a: "hb_queue h = xs @ q # ys" "pq_answer_tx q = Some c"
    "c < hb_next h" "Some c \<notin> pq_answer_tx ` set (xs @ ys)"
    "snd (answer_question i answer h) =
       h\<lparr>hb_queue := xs @ ys,
         hb_channels := (hb_channels h)(c := if hb_channels h c = Some Waiting then Some (Delivered answer) else Some Gone)\<rparr>"
    by metis
  let ?h = "snd (answer_question i answer h)"
  have same: "hb_channels ?h d = hb_channels h d" if "d \<noteq> c" for d using that by (simp add: a(5))
  have "question_ok uuid ?h p" if "p \<in> set (xs @ ys)" for p
  proof -
    have "pq_answer_tx p \<noteq> Some c" using a(4) that by (metis image_eqI)
    moreover have "question_ok uuid h p" using assms that by (auto simp: hub_ok_def a(1) list_all_iff)
    ultimately show ?thesis using same by (auto simp: question_ok_def a(5) split: option.splits)
  qed
  then have "list_all (question_ok uuid ?h) (hb_queue ?h)" by (simp add: list_all_iff a(5))
  moreover have "distinct (map pq_answer_tx (hb_queue ?h))" using assms by (simp add: hub_ok_def a(1) a(5))
  moreover have "Some d \<in> pq_answer_tx ` set (hb_queue ?h)" if "hb_channels ?h d = Some Waiting" for d
  proof -
    have d: "d \<noteq> c" using that by (auto simp: a(5) split: if_splits)
    with that same have "Some d \<in> pq_answer_tx ` set (hb_queue h)" using assms by (simp add: hub_ok_def)
    then show ?thesis using d a(2) by (auto simp: a(1) a(5))
  qed
  moreover have "\<forall>d\<ge>hb_next ?h. hb_channels ?h d = None"
    using assms a(3) by (simp add: hub_ok_def a(5))
  ultimately show ?thesis by (simp add: hub_ok_def)
qed

lemma hub_invariant: "hub_reachable uuid h \<Longrightarrow> hub_ok uuid h"
proof (induction rule: hub_reachable.induct)
  case Init
  show ?case by (rule hub_ok_new)
next
  case (Step h h')
  from Step.hyps(2) Step.IH show ?case
    by (elim hub_stepE) (auto intro: hub_ok_enqueue hub_ok_answer hub_ok_give_up)
qed

text \<open>C18. 
  In every interleaving of askers and clients, a waiting asker's question is listed under one identifier,
  and answering that identifier delivers the answer to this asker and to nobody else; every other
  identifier leaves it waiting.
\<close>

theorem waiting_can_be_answered:
  assumes "hub_reachable uuid h" "inj uuid" "hb_channels h c = Some Waiting"
  shows "uuid c \<in> qs_id ` set (list_questions h) \<and>
    fst (answer_question (uuid c) a h) = \<lparr>an_success = True, an_error = None\<rparr> \<and>
    hb_channels (snd (answer_question (uuid c) a h)) = (hb_channels h)(c \<mapsto> Delivered a) \<and>
    (\<forall>i. i \<noteq> uuid c \<longrightarrow> hb_channels (snd (answer_question i a h)) c = Some Waiting)"
proof -
  have ok: "hub_ok uuid h" by (rule hub_invariant [OF assms(1)])
  then obtain q where q: "q \<in> set (hb_queue h)" "pq_answer_tx q = Some c"
    using assms(3) by (auto simp: hub_ok_def)
  then have "pq_id q = uuid c" using ok by (auto simp: hub_ok_def list_all_iff question_ok_def)
  then have known: "uuid c \<in> pq_id ` set (hb_queue h)" using q(1) by force
  from answer_known [OF ok known, of a] obtain xs ys d where d: "uuid c = uuid d"
    "snd (answer_question (uuid c) a h) = h\<lparr>hb_queue := xs @ ys,
       hb_channels := (hb_channels h)(d := if hb_channels h d = Some Waiting then Some (Delivered a) else Some Gone)\<rparr>"
    "fst (answer_question (uuid c) a h) = (if hb_channels h d = Some Waiting then \<lparr>an_success = True, an_error = None\<rparr>
       else \<lparr>an_success = False, an_error = Some ''receiver dropped; question may have timed out''\<rparr>)" by metis
  have "d = c" using d(1) assms(2) by (simp add: inj_eq)
  then have "fst (answer_question (uuid c) a h) = \<lparr>an_success = True, an_error = None\<rparr>"
    "hb_channels (snd (answer_question (uuid c) a h)) = (hb_channels h)(c \<mapsto> Delivered a)"
    using d assms(3) by simp_all
  moreover have "hb_channels (snd (answer_question i a h)) c = Some Waiting" if i: "i \<noteq> uuid c" for i
  proof (cases "i \<in> pq_id ` set (hb_queue h)")
    case True
    from answer_known [OF ok this, of a] obtain xs ys d where "i = uuid d" "snd (answer_question i a h) = h\<lparr>hb_queue := xs @ ys,
       hb_channels := (hb_channels h)(d := if hb_channels h d = Some Waiting then Some (Delivered a) else Some Gone)\<rparr>" by metis
    with i assms(3) show ?thesis by auto
  qed (simp add: answer_unknown assms(3))
  ultimately show ?thesis using known by (auto simp: list_questions_def queue_list_def image_image)
qed

definition sample_uuid :: "nat \<Rightarrow> string" where
  "sample_uuid n = replicate n CHR ''x''"

definition sample_hub :: hub where
  "sample_hub = snd (enqueue sample_uuid 7 ''Ship?'' [] QK_Approval (snd (enqueue sample_uuid 5 ''Name?'' [] QK_FreeForm hub_new)))"

lemma waiting_can_be_answered_witness:
  "''x'' \<in> qs_id ` set (list_questions sample_hub) \<and>
   fst (answer_question ''x'' ''yes'' sample_hub) = \<lparr>an_success = True, an_error = None\<rparr> \<and>
   hb_channels (snd (answer_question [] ''yes'' sample_hub)) 1 = Some Waiting"
proof -
  have reach: "hub_reachable sample_uuid sample_hub"
    unfolding sample_hub_def by (rule hub_reachable.Step [OF hub_reachable.Step [OF hub_reachable.Init hub_step.Ask] hub_step.Ask])
  have inj: "inj sample_uuid" by (rule injI) (metis length_replicate sample_uuid_def)
  have wait: "hb_channels sample_hub 1 = Some Waiting"
    by (simp add: sample_hub_def enqueue_def hub_new_def Let_def)
  have u: "sample_uuid 1 = ''x''" by (simp add: sample_uuid_def)
  from waiting_can_be_answered [OF reach inj wait, of "''yes''"] show ?thesis unfolding u by simp
qed

end
