(* ===== verification/Delegate.thy ===== *)
theory Delegate
  imports Handler
begin

text \<open>
  The handlers that hand a node to a tool or to a coordinator, \<open>tool_handler.rs\<close> and \<open>manager_handler.rs\<close>.
  The two bodies differ in the attributes they read and in the texts they use; \<open>delegation\<close> is what varies.
  The backends and the parser of JSON texts are parameters.
\<close>

type_synonym 'w delegate_backend = "string \<Rightarrow> json \<Rightarrow> 'w execution"

record delegation =
  dl_name_attr :: string
  dl_input_attr :: string
  dl_missing :: string
  dl_prefix :: string

definition delegate_name :: "delegation \<Rightarrow> graph_node \<Rightarrow> string option" where
  "delegate_name d n = (case gn_attrs n (dl_name_attr d) of Some (AString s) \<Rightarrow> Some s | _ \<Rightarrow> gn_label n)"

definition delegate_input :: "(string \<Rightarrow> string + json) \<Rightarrow> delegation \<Rightarrow> graph_node \<Rightarrow> string + json" where
  "delegate_input parse_json d n =
     (case gn_attrs n (dl_input_attr d) of Some (AString s) \<Rightarrow> parse_json s | _ \<Rightarrow> Inr (JObject []))"

definition json_opt :: "json option \<Rightarrow> json" where
  "json_opt d = (case d of Some v \<Rightarrow> v | None \<Rightarrow> JNull)"

text \<open>What is left in the context of the outcome, with the members of the objects in order.\<close>

fun outcome_record :: "outcome \<Rightarrow> json" where
  "outcome_record (Success d) = JObject [(''data'', json_opt (sd_data d)), (''status'', JString ''success'')]"
| "outcome_record (Failure e r notes) =
     JObject [(''error'', JString e), (''retryable'', JBool r), (''status'', JString ''failure'')]"
| "outcome_record (PartialSuccess d) =
     JObject [(''data'', json_opt (sd_data d)), (''status'', JString ''partial_success'')]"
| "outcome_record (Retry reason notes) = JObject [(''reason'', JString reason), (''status'', JString ''retry'')]"
| "outcome_record (Skip reason notes) = JObject [(''reason'', JString reason), (''status'', JString ''skip'')]"

definition delegate_execute ::
  "(string \<Rightarrow> string + json) \<Rightarrow> delegation \<Rightarrow> 'w delegate_backend \<Rightarrow> graph_node \<Rightarrow> 'w execution" where
  "delegate_execute parse_json d backend n = (\<lambda>(ctx, w).
     case delegate_name d n of
       None \<Rightarrow> (Inr (failure (dl_missing d)), ctx, w)
     | Some name \<Rightarrow>
         (case delegate_input parse_json d n of
            Inl e \<Rightarrow> (Inr (failure (''invalid JSON in '' @ dl_input_attr d @ '' attribute: '' @ e)), ctx, w)
          | Inr input \<Rightarrow>
              (case backend name input (ctx, w) of
                 (Inl e, ctx1, w1) \<Rightarrow> (Inl e, ctx1, w1)
               | (Inr out, ctx1, w1) \<Rightarrow> (Inr out, context_set (dl_prefix d @ gn_id n) (outcome_record out) ctx1, w1))))"

definition tool_delegation :: delegation where
  "tool_delegation =
     \<lparr>dl_name_attr = ''tool'', dl_input_attr = ''args'', dl_missing = ''no tool specified'', dl_prefix = ''_tool_''\<rparr>"

definition manager_delegation :: delegation where
  "manager_delegation =
     \<lparr>dl_name_attr = ''task'', dl_input_attr = ''config'', dl_missing = ''no task specified for manager node'',
      dl_prefix = ''_manager_''\<rparr>"

definition tool_handler :: "(string \<Rightarrow> string + json) \<Rightarrow> 'w delegate_backend \<Rightarrow> 'w handler" where
  "tool_handler parse_json backend =
     \<lparr>h_name = ''tool'', h_handles = (\<lambda>t. t = Tool), h_execute = delegate_execute parse_json tool_delegation backend\<rparr>"

definition manager_handler :: "(string \<Rightarrow> string + json) \<Rightarrow> 'w delegate_backend \<Rightarrow> 'w handler" where
  "manager_handler parse_json backend =
     \<lparr>h_name = ''manager'', h_handles = (\<lambda>t. t = Manager), h_execute = delegate_execute parse_json manager_delegation backend\<rparr>"

section \<open>Facts\<close>

text \<open>The record tells the kind of the outcome, its data, error and reason, and whether it may be retried; it
  does not tell no data from null data, and drops labels, next nodes, updates and notes.\<close>

definition recorded_member :: "json \<Rightarrow> string \<Rightarrow> json option" where
  "recorded_member j k = (case j of JObject m \<Rightarrow> map_of m k | _ \<Rightarrow> None)"

fun text_of_json :: "json option \<Rightarrow> string" where
  "text_of_json (Some (JString s)) = s"
| "text_of_json _ = []"

definition recorded_outcome :: "json \<Rightarrow> outcome option" where
  "recorded_outcome j =
     (let status = text_of_json (recorded_member j ''status''); reason = text_of_json (recorded_member j ''reason'');
          data = no_data\<lparr>sd_data := recorded_member j ''data''\<rparr>
      in if status = ''success'' then Some (Success data)
         else if status = ''partial_success'' then Some (PartialSuccess data)
         else if status = ''retry'' then Some (Retry reason None)
         else if status = ''skip'' then Some (Skip reason None)
         else if status = ''failure'' then
           Some (Failure (text_of_json (recorded_member j ''error'')) (recorded_member j ''retryable'' = Some (JBool True)) None)
         else None)"

fun reported :: "outcome \<Rightarrow> outcome" where
  "reported (Success d) = Success (no_data\<lparr>sd_data := Some (json_opt (sd_data d))\<rparr>)"
| "reported (PartialSuccess d) = PartialSuccess (no_data\<lparr>sd_data := Some (json_opt (sd_data d))\<rparr>)"
| "reported (Failure e r notes) = Failure e r None"
| "reported (Retry reason notes) = Retry reason None"
| "reported (Skip reason notes) = Skip reason None"

lemma recorded_outcome_record: "recorded_outcome (outcome_record out) = Some (reported out)"
  by (cases out) (simp_all add: recorded_outcome_def recorded_member_def)

text \<open>
  In a registry that has the tool handler before every other handler of tools, running a tool node calls the
  backend once, with the node's tool and arguments, passes its outcome on as it is, and leaves in the context a record
  from which later nodes can read it.
\<close>

theorem tool_result_readable:
  assumes "get_handler reg Tool = Some (tool_handler parse_json backend)" "gn_type n = Tool"
    and "delegate_name tool_delegation n = Some tool" "delegate_input parse_json tool_delegation n = Inr input"
    and "backend tool input (ctx, w) = (Inr out, ctx1, w1)"
  shows "fst (registry_execute reg n (ctx, w)) = Inr out \<and> snd (snd (registry_execute reg n (ctx, w))) = w1 \<and>
    Option.bind (context_get (fst (snd (registry_execute reg n (ctx, w)))) (''_tool_'' @ gn_id n)) recorded_outcome =
      Some (reported out) \<and>
    (\<forall>k. k \<noteq> ''_tool_'' @ gn_id n \<longrightarrow> context_get (fst (snd (registry_execute reg n (ctx, w)))) k = context_get ctx1 k)"
  using assms
  by (simp add: registry_execute_def tool_handler_def delegate_execute_def tool_delegation_def ctx.get_put
      recorded_outcome_record)

text \<open>A node without a name or with a text that is not JSON fails, and the backend is not called.\<close>

lemma delegate_refused:
  assumes "delegate_name d n = None \<or> (\<exists>e. delegate_input parse_json d n = Inl e)"
  shows "\<exists>m. delegate_execute parse_json d backend n (ctx, w) = (Inr (failure m), ctx, w)"
  using assms by (auto simp: delegate_execute_def split: option.split)

end
