(* ===== verification/Preflight.thy ===== *)
theory Preflight
  imports Graph Llm_Client
begin

text \<open>
  The health check of the models a pipeline names, \<open>preflight.rs\<close>.  The clock reads nanoseconds off the
  outside world that the provider adapters act on.
\<close>

definition debug_ms :: "nat option \<Rightarrow> string" where
  "debug_ms r = (case r of Some n \<Rightarrow> ''Some('' @ dec n @ '')'' | None \<Rightarrow> ''None'')"

fun llm_error_text :: "llm_error \<Rightarrow> string" where
  "llm_error_text (Authentication p m) = ''authentication failed for provider '' @ p @ '': '' @ m"
| "llm_error_text (RateLimited p r) = ''rate limited by '' @ p @ '': retry after '' @ debug_ms r @ ''ms''"
| "llm_error_text (Timeout p t) = ''request to '' @ p @ '' timed out after '' @ dec t @ ''ms''"
| "llm_error_text (ServerError p c m) = ''provider '' @ p @ '' returned server error (HTTP '' @ dec c @ ''): '' @ m"
| "llm_error_text (InvalidRequest p m) = ''invalid request to '' @ p @ '': '' @ m"
| "llm_error_text (ModelNotFound p m) = ''model '' @ m @ '' not found or not available for provider '' @ p"
| "llm_error_text (ContentFiltered p m) = ''content filtered by '' @ p @ '': '' @ m"
| "llm_error_text (ContextLengthExceeded model m) = ''context length exceeded for model '' @ model @ '': '' @ m"
| "llm_error_text (StreamError p m) = ''stream error from '' @ p @ '': '' @ m"
| "llm_error_text (ResponseParse p m) = ''failed to parse response from '' @ p @ '': '' @ m"
| "llm_error_text (HttpError p s) = ''HTTP error communicating with '' @ p @ '': '' @ hs_text s"
| "llm_error_text (Serialization s) = ''JSON serialization error: '' @ s"
| "llm_error_text (ProviderNotConfigured p) = ''provider '' @ p @ '' is not configured''"
| "llm_error_text LlmCancelled = ''operation cancelled''"
| "llm_error_text (AccessDenied p m) = ''access denied by '' @ p @ '' (HTTP 403): '' @ m"
| "llm_error_text (QuotaExceeded p m) = ''quota exceeded for '' @ p @ '': '' @ m"
| "llm_error_text (NetworkError p m) = ''network error communicating with '' @ p @ '': '' @ m"
| "llm_error_text (Aborted m) = ''operation aborted: '' @ m"
| "llm_error_text (InvalidToolCall p m) = ''invalid tool call in response from '' @ p @ '': '' @ m"
| "llm_error_text (NoObjectGenerated p m) = ''no structured object generated by '' @ p @ '': '' @ m"
| "llm_error_text (ConfigurationError m) = ''configuration error: '' @ m"
| "llm_error_text (LlmOther m b) = m"

record probe_result =
  pr_provider :: string
  pr_model :: string
  pr_passed :: bool
  pr_error :: "string option"
  pr_latency_ms :: "64 word"

record preflight_report =
  pf_probes :: "probe_result list"
  pf_all_passed :: bool

definition from_probes :: "probe_result list \<Rightarrow> preflight_report" where
  "from_probes probes = \<lparr>pf_probes = probes, pf_all_passed = list_all pr_passed probes\<rparr>"

definition failure_count :: "preflight_report \<Rightarrow> nat" where
  "failure_count r = length (filter (\<lambda>p. \<not> pr_passed p) (pf_probes r))"

datatype preflight_error = ProviderUnreachable nat preflight_report

definition preflight_error_text :: "preflight_error \<Rightarrow> string" where
  "preflight_error_text e =
     (case e of ProviderUnreachable failures report \<Rightarrow>
        ''preflight failed: '' @ dec failures @ '' provider(s) unreachable'')"

definition probe_provider :: "string \<Rightarrow> string" where
  "probe_provider model_id = (case infer_provider model_id of Some p \<Rightarrow> provider_display p | None \<Rightarrow> ''unknown'')"

definition probe_request :: "string \<Rightarrow> request" where
  "probe_request model_id = set_max_tokens 16 (request_new model_id [user_message ''respond with OK''])"

definition probe_model ::
  "'w retry_env \<Rightarrow> ('w \<Rightarrow> nat) \<Rightarrow> ('w, 's) client \<Rightarrow> string \<Rightarrow> 'w \<Rightarrow> probe_result \<times> 'w" where
  "probe_model env clock client model_id w =
     (let (r, w1) = client_complete env client (probe_request model_id) w;
          latency = of_nat ((clock w1 - clock w) div 10 ^ 6)
      in (case r of
            Inr _ \<Rightarrow> \<lparr>pr_provider = probe_provider model_id, pr_model = model_id, pr_passed = True, pr_error = None,
              pr_latency_ms = latency\<rparr>
          | Inl e \<Rightarrow> \<lparr>pr_provider = probe_provider model_id, pr_model = model_id, pr_passed = False,
              pr_error = Some (llm_error_text e), pr_latency_ms = latency\<rparr>, w1))"

fun probe_all ::
  "'w retry_env \<Rightarrow> ('w \<Rightarrow> nat) \<Rightarrow> ('w, 's) client \<Rightarrow> string list \<Rightarrow> 'w \<Rightarrow> probe_result list \<times> 'w" where
  "probe_all env clock client [] w = ([], w)"
| "probe_all env clock client (m # ms) w =
     (let (p, w1) = probe_model env clock client m w; (ps, w2) = probe_all env clock client ms w1 in (p # ps, w2))"

definition preflight_check ::
  "'w retry_env \<Rightarrow> ('w \<Rightarrow> nat) \<Rightarrow> graph \<Rightarrow> ('w, 's) client \<Rightarrow> 'w \<Rightarrow> (preflight_error + preflight_report) \<times> 'w" where
  "preflight_check env clock g client w =
     (let (probes, w1) = probe_all env clock client (referenced_models g) w; report = from_probes probes
      in (if \<not> pf_all_passed report then Inl (ProviderUnreachable (failure_count report) report) else Inr report, w1))"

section \<open>Facts\<close>

lemma probe_model_fields:
  "pr_model (fst (probe_model env clock client m w)) = m \<and>
   (pr_passed (fst (probe_model env clock client m w)) \<longleftrightarrow> is_ok (fst (client_complete env client (probe_request m) w))) \<and>
   snd (probe_model env clock client m w) = snd (client_complete env client (probe_request m) w)"
  by (auto simp: probe_model_def Let_def split: prod.split sum.split)

lemma probe_all_Cons:
  "fst (probe_all env clock client (m # ms) w) =
     fst (probe_model env clock client m w) # fst (probe_all env clock client ms (snd (probe_model env clock client m w)))"
  by (simp add: split_beta Let_def)

lemma probe_all_models: "map pr_model (fst (probe_all env clock client ms w)) = ms"
proof (induction ms arbitrary: w)
  case (Cons m ms)
  then show ?case by (simp only: probe_all_Cons list.map probe_model_fields)
qed simp

lemma passed_probe:
  "p \<in> set (fst (probe_all env clock client ms w)) \<Longrightarrow> pr_passed p \<Longrightarrow>
     \<exists>w'. is_ok (fst (client_complete env client (probe_request (pr_model p)) w'))"
proof (induction ms arbitrary: w)
  case (Cons m ms)
  from Cons.prems(1) consider "p = fst (probe_model env clock client m w)"
    | "p \<in> set (fst (probe_all env clock client ms (snd (probe_model env clock client m w))))"
    unfolding probe_all_Cons by auto
  then show ?case
  proof cases
    case 1
    then show ?thesis using Cons.prems(2) probe_model_fields [of env clock client m w] by metis
  next
    case 2
    then show ?thesis by (rule Cons.IH [OF _ Cons.prems(2)])
  qed
qed simp

lemma referenced_models_set: "m \<in> set (referenced_models g) \<longleftrightarrow> (\<exists>n \<in> set (g_nodes g). node_model n = Some m)"
  by (force simp: referenced_models_def List.map_filter_def)

lemma sorted_remdups_adj_distinct: "sorted (xs :: string list) \<Longrightarrow> distinct (remdups_adj xs)"
proof (induction xs rule: remdups_adj.induct)
  case (3 x y xs)
  show ?case
  proof (cases "x = y")
    case False
    have "y \<le> z" if "z \<in> set (y # xs)" for z using that 3(3) by auto
    moreover have "x < y" using False 3(3) by (simp add: order_neq_le_trans)
    ultimately have "x \<notin> set (y # xs)" by (metis less_le_not_le)
    then show ?thesis using False 3 by simp
  qed (use 3 in simp)
qed simp_all

lemma referenced_models_distinct: "distinct (referenced_models g)"
  unfolding referenced_models_def by (rule sorted_remdups_adj_distinct) simp

text \<open>
  A check that passes has sent one probe per model of the graph, in order and without repetition, and for the
  model of every node a configured provider answered; a check that fails reports the number of failures.
\<close>

theorem preflight_spec:
  "case fst (preflight_check env clock g client w) of
     Inr report \<Rightarrow>
       map pr_model (pf_probes report) = referenced_models g \<and> distinct (referenced_models g) \<and> failure_count report = 0 \<and>
       (\<forall>n \<in> set (g_nodes g). case node_model n of
          Some m \<Rightarrow> (\<exists>a w'. adapter_for_request client (probe_request m) = Inr a \<and>
                     is_ok (fst (client_complete env client (probe_request m) w')))
        | None \<Rightarrow> True)
   | Inl (ProviderUnreachable failures report) \<Rightarrow>
       map pr_model (pf_probes report) = referenced_models g \<and> failures = failure_count report \<and> failures > 0"
proof -
  obtain probes w1 where p: "probe_all env clock client (referenced_models g) w = (probes, w1)" by fastforce
  have models: "map pr_model probes = referenced_models g"
    using probe_all_models [of env clock client "referenced_models g" w] p by simp
  show ?thesis
  proof (cases "list_all pr_passed probes")
    case True
    have "\<exists>a w'. adapter_for_request client (probe_request m) = Inr a \<and> is_ok (fst (client_complete env client (probe_request m) w'))"
      if "n \<in> set (g_nodes g)" "node_model n = Some m" for n m
    proof -
      have "m \<in> set (map pr_model probes)" using that models referenced_models_set [of m g] by auto
      then obtain q where q: "q \<in> set probes" "pr_model q = m" by auto
      with True passed_probe [of q env clock client "referenced_models g" w] p
      obtain w' where w': "is_ok (fst (client_complete env client (probe_request m) w'))" by (auto simp: list_all_iff)
      then have "\<exists>a. adapter_for_request client (probe_request m) = Inr a"
        by (auto simp: client_complete_def split: sum.splits)
      with w' show ?thesis by blast
    qed
    then show ?thesis using True models
      by (auto simp: preflight_check_def p from_probes_def failure_count_def referenced_models_distinct list_all_iff
          split: option.split)
  next
    case False
    then have "filter (\<lambda>p. \<not> pr_passed p) probes \<noteq> []" by (auto simp: list_all_iff filter_empty_conv)
    with False show ?thesis by (simp add: preflight_check_def p from_probes_def failure_count_def models)
  qed
qed

end
