(* ===== verification/Run_Dir.thy ===== *)
theory Run_Dir
  imports State Utf8 "HOL-Library.Sublist"
begin

text \<open>
  The directory of a run, \<open>run_dir.rs\<close>: the names of its parts, its manifest, and the cleaning of graph names.
  Paths are Unix paths; the disk, SHA-256, the clock and the JSON text of a manifest are parameters.
\<close>

definition path_join :: "string \<Rightarrow> string \<Rightarrow> string" where
  "path_join p x =
     (if starts_with x ''/'' then x
      else if p = [] \<or> last p = CHR ''/'' then p @ x
      else p @ ''/'' @ x)"

record run_directories =
  rd_root :: string
  rd_checkpoints :: string
  rd_node_logs :: string
  rd_artifacts :: string
  rd_events :: string

record run_manifest =
  mf_run_id :: string
  mf_graph_name :: string
  mf_graph_hash :: string
  mf_created_at :: nat
  mf_layout_version :: nat
  mf_directories :: run_directories

definition max_graph_name_len :: nat where
  "max_graph_name_len = 128"

fun replace_dots :: "string \<Rightarrow> string" where
  "replace_dots (c # d # s) = (if c = CHR ''.'' \<and> d = CHR ''.'' then CHR ''_'' # replace_dots s else c # replace_dots (d # s))"
| "replace_dots s = s"

definition sanitize_graph_name :: "string \<Rightarrow> string" where
  "sanitize_graph_name raw =
     (let sanitized = replace_dots (map (\<lambda>c. if c = CHR ''/'' \<or> c = CHR 0x5C then CHR ''_'' else c) raw);
          trimmed = trim sanitized
      in if trimmed = [] then ''unnamed''
         else if length trimmed > max_graph_name_len then take_chars max_graph_name_len trimmed
         else trimmed)"

record 'w disk =
  dk_create_dir_all :: "string \<Rightarrow> 'w \<Rightarrow> (state_error + unit) \<times> 'w"
  dk_write :: "string \<Rightarrow> string \<Rightarrow> 'w \<Rightarrow> (state_error + unit) \<times> 'w"
  dk_read_to_string :: "string \<Rightarrow> 'w \<Rightarrow> state_error + string"

definition directories_of :: "string \<Rightarrow> run_directories" where
  "directories_of root =
     \<lparr>rd_root = root, rd_checkpoints = path_join root ''checkpoints'', rd_node_logs = path_join root ''nodes'',
      rd_artifacts = path_join root ''artifacts'', rd_events = path_join root ''events''\<rparr>"

fun create_dirs :: "'w disk \<Rightarrow> string list \<Rightarrow> 'w \<Rightarrow> (state_error + unit) \<times> 'w" where
  "create_dirs dk [] w = (Inr (), w)"
| "create_dirs dk (p # ps) w =
     (case dk_create_dir_all dk p w of (Inl e, w1) \<Rightarrow> (Inl e, w1) | (Inr _, w1) \<Rightarrow> create_dirs dk ps w1)"

definition run_dir_create ::
  "'w disk \<Rightarrow> (run_manifest \<Rightarrow> string + string) \<Rightarrow> (string \<Rightarrow> string) \<Rightarrow> nat \<Rightarrow> string \<Rightarrow> string \<Rightarrow> string \<Rightarrow> string \<Rightarrow> 'w \<Rightarrow>
     (state_error + run_manifest) \<times> 'w" where
  "run_dir_create dk to_json sha256_hex now base_dir run_id graph_name graph_source w =
     (let root = path_join base_dir run_id; ds = directories_of root;
          manifest = \<lparr>mf_run_id = run_id, mf_graph_name = graph_name, mf_graph_hash = sha256_hex graph_source,
            mf_created_at = now, mf_layout_version = 1, mf_directories = ds\<rparr>
      in case create_dirs dk [rd_checkpoints ds, rd_node_logs ds, rd_artifacts ds, rd_events ds] w of
           (Inl e, w1) \<Rightarrow> (Inl e, w1)
         | (Inr _, w1) \<Rightarrow>
             (case to_json manifest of
                Inl m \<Rightarrow> (Inl (SerializationError m), w1)
              | Inr text \<Rightarrow>
                  (case dk_write dk (path_join root ''manifest.json'') text w1 of
                     (Inl e, w2) \<Rightarrow> (Inl e, w2)
                   | (Inr _, w2) \<Rightarrow> (Inr manifest, w2))))"

definition run_dir_open :: "'w disk \<Rightarrow> (string \<Rightarrow> string + run_manifest) \<Rightarrow> string \<Rightarrow> 'w \<Rightarrow> state_error + run_manifest" where
  "run_dir_open dk from_json path w =
     (case dk_read_to_string dk (path_join path ''manifest.json'') w of
        Inl e \<Rightarrow> Inl e
      | Inr contents \<Rightarrow> (case from_json contents of Inl m \<Rightarrow> Inl (DeserializationError m) | Inr manifest \<Rightarrow> Inr manifest))"

definition node_log_dir :: "run_manifest \<Rightarrow> string \<Rightarrow> string" where
  "node_log_dir m node_id = path_join (rd_node_logs (mf_directories m)) node_id"

definition checkpoint_path :: "run_manifest \<Rightarrow> string" where
  "checkpoint_path m = path_join (rd_checkpoints (mf_directories m)) ''checkpoint.json''"

definition artifact_dir :: "run_manifest \<Rightarrow> string \<Rightarrow> string" where
  "artifact_dir m node_id = path_join (rd_artifacts (mf_directories m)) node_id"

definition event_log_path :: "run_manifest \<Rightarrow> string" where
  "event_log_path m = path_join (rd_events (mf_directories m)) ''events.jsonl''"

section \<open>Names\<close>

definition has_double_dot :: "string \<Rightarrow> bool" where
  "has_double_dot s \<longleftrightarrow> (\<exists>xs ys. s = xs @ ''..'' @ ys)"

lemma double_dot_Cons:
  "has_double_dot (c # s) \<longleftrightarrow> (c = CHR ''.'' \<and> s \<noteq> [] \<and> hd s = CHR ''.'') \<or> has_double_dot s"
proof
  assume "has_double_dot (c # s)"
  then obtain xs ys where "c # s = xs @ ''..'' @ ys" unfolding has_double_dot_def by blast
  then show "(c = CHR ''.'' \<and> s \<noteq> [] \<and> hd s = CHR ''.'') \<or> has_double_dot s"
    unfolding has_double_dot_def by (cases xs) auto
next
  assume "(c = CHR ''.'' \<and> s \<noteq> [] \<and> hd s = CHR ''.'') \<or> has_double_dot s"
  then show "has_double_dot (c # s)"
    unfolding has_double_dot_def by (cases s) (auto intro: exI [of _ "[]"] exI [of _ "c # _"], metis append_Cons)
qed

lemma no_double_dot_part: "\<not> has_double_dot (xs @ s @ ys) \<Longrightarrow> \<not> has_double_dot s"
  unfolding has_double_dot_def by (metis append.assoc)

lemma replace_dots_hd: "replace_dots s \<noteq> [] \<Longrightarrow> hd (replace_dots s) = CHR ''.'' \<Longrightarrow> s \<noteq> [] \<and> hd s = CHR ''.''"
  by (induction s rule: replace_dots.induct) (auto split: if_splits)

lemma replace_dots_clean: "\<not> has_double_dot (replace_dots s)"
proof (induction s rule: replace_dots.induct)
  case (1 c d s)
  then show ?case using replace_dots_hd [of "d # s"] by (auto simp: double_dot_Cons)
qed (auto simp: has_double_dot_def Cons_eq_append_conv)

lemma replace_dots_set: "set (replace_dots s) \<subseteq> insert (CHR ''_'') (set s)"
  by (induction s rule: replace_dots.induct) auto

lemma trim_part: "\<exists>xs ys. s = xs @ trim s @ ys"
proof -
  have "\<exists>xs. t = xs @ trim_start t" for t
    unfolding trim_start_def by (metis takeWhile_dropWhile_id)
  moreover have "\<exists>ys. t = trim_end t @ ys" for t
    unfolding trim_end_def by (metis rev_append rev_rev_ident takeWhile_dropWhile_id)
  ultimately show ?thesis unfolding trim_def by (metis append.assoc)
qed

text \<open>A cleaned name is not empty, has no separator and no parent directory, and at most 128 characters.\<close>

theorem sanitize_graph_name_safe:
  "sanitize_graph_name raw \<noteq> [] \<and> CHR ''/'' \<notin> set (sanitize_graph_name raw) \<and> CHR 0x5C \<notin> set (sanitize_graph_name raw) \<and>
   \<not> has_double_dot (sanitize_graph_name raw) \<and> char_count (sanitize_graph_name raw) \<le> 128"
proof -
  let ?s = "replace_dots (map (\<lambda>c. if c = CHR ''/'' \<or> c = CHR 0x5C then CHR ''_'' else c) raw)"
  have good: "x \<noteq> [] \<and> CHR ''/'' \<notin> set x \<and> CHR 0x5C \<notin> set x \<and> \<not> has_double_dot x"
    if part: "trim ?s = x @ r" and "x \<noteq> []" for x r
  proof -
    obtain xs ys where "?s = xs @ trim ?s @ ys" using trim_part by blast
    then have s: "?s = xs @ x @ r @ ys" unfolding part by simp
    then have "set x \<subseteq> set ?s" by (metis Un_iff set_append subsetI)
    moreover have "CHR ''/'' \<notin> set ?s" "CHR 0x5C \<notin> set ?s"
      using replace_dots_set [of "map (\<lambda>c. if c = CHR ''/'' \<or> c = CHR 0x5C then CHR ''_'' else c) raw"] by auto
    moreover have "\<not> has_double_dot (xs @ x @ r @ ys)" unfolding s [symmetric] by (rule replace_dots_clean)
    then have "\<not> has_double_dot x" by (rule no_double_dot_part)
    ultimately show ?thesis using that(2) by blast
  qed
  consider "trim ?s = []" | "trim ?s \<noteq> []" "length (trim ?s) > 128" | "trim ?s \<noteq> []" "length (trim ?s) \<le> 128" by linarith
  then show ?thesis
  proof cases
    case 1
    then show ?thesis by (simp add: sanitize_graph_name_def double_dot_Cons char_count_def) (simp add: has_double_dot_def)
  next
    case 2
    obtain r where "trim ?s = take_chars 128 (trim ?s) @ r" using take_chars_prefix by blast
    moreover have "take_chars 128 (trim ?s) \<noteq> []" using 2(1) by (cases "trim ?s") (auto simp: numeral_eq_Suc)
    ultimately show ?thesis using good [of "take_chars 128 (trim ?s)" r] 2
      by (simp add: sanitize_graph_name_def max_graph_name_len_def char_count_take)
  next
    case 3
    then show ?thesis using good [of "trim ?s" "[]"] char_count_le [of "trim ?s"]
      by (simp add: sanitize_graph_name_def max_graph_name_len_def)
  qed
qed

section \<open>Creating and opening\<close>

text \<open>Creating a run directory and opening its root again gives the same manifest.\<close>

theorem run_dir_reopens:
  assumes "run_dir_create dk to_json sha256_hex now base_dir run_id graph_name graph_source w = (Inr m, w2)"
    and write_read: "\<And>p t w w'. dk_write dk p t w = (Inr (), w') \<Longrightarrow> dk_read_to_string dk p w' = Inr t"
    and codec: "\<And>m t. to_json m = Inr t \<Longrightarrow> from_json t = Inr m"
  shows "run_dir_open dk from_json (rd_root (mf_directories m)) w2 = Inr m \<and> mf_graph_name m = graph_name \<and>
    rd_root (mf_directories m) = path_join base_dir run_id"
  using assms(1)
  by (auto simp: run_dir_create_def run_dir_open_def directories_of_def Let_def write_read dest: codec
      split: prod.splits sum.splits)

text \<open>Everything of a run lies below its root, for names that are not absolute paths.\<close>

lemma path_join_below: "prefix r p \<Longrightarrow> take 1 x \<noteq> ''/'' \<Longrightarrow> prefix r (path_join p x)"
  by (auto simp: path_join_def starts_with_def)

lemma run_dir_paths:
  assumes "take 1 node_id \<noteq> ''/''" "mf_directories m = directories_of root"
  shows "prefix root (node_log_dir m node_id)" "prefix root (artifact_dir m node_id)" "prefix root (checkpoint_path m)"
    "prefix root (event_log_path m)"
  unfolding node_log_dir_def artifact_dir_def checkpoint_path_def event_log_path_def assms(2) directories_of_def
    run_directories.simps
  using assms(1) by (intro path_join_below prefix_order.refl; simp)+

end
