(* ===== verification/Log_Sink.thy ===== *)
theory Log_Sink
  imports Events "HOL-Library.Sublist"
begin

text \<open>
  Log sinks, \<open>log_sink.rs\<close>: sequenced entries, filters, the index, retention, the sink in memory and the one
  that keeps a file of lines.  The file is reached through its reads and appends; the JSON text of an entry
  is a parameter.  Locks are not poisoned.
\<close>

section \<open>Entries and filters\<close>

record log_entry =
  le_sequence :: "64 word"
  le_event :: pipeline_event

datatype log_sink_error = Log_Io string | Log_Serialization string

definition log_sink_error_text :: "log_sink_error \<Rightarrow> string" where
  "log_sink_error_text e =
     (case e of Log_Io m \<Rightarrow> ''I/O error: '' @ m | Log_Serialization m \<Rightarrow> ''serialization error: '' @ m)"

record retention_policy =
  rp_max_entries :: "nat option"
  rp_max_age :: "int option" \<comment> \<open>nanoseconds; a \<open>chrono\<close> duration may be negative\<close>
  rp_max_file_size_bytes :: "nat option"

definition no_limits :: retention_policy where
  "no_limits = \<lparr>rp_max_entries = None, rp_max_age = None, rp_max_file_size_bytes = None\<rparr>"

definition with_max_entries :: "nat \<Rightarrow> retention_policy" where
  "with_max_entries n = no_limits\<lparr>rp_max_entries := Some n\<rparr>"

definition with_max_age :: "int \<Rightarrow> retention_policy" where
  "with_max_age d = no_limits\<lparr>rp_max_age := Some d\<rparr>"

fun event_kind_str :: "pipeline_event \<Rightarrow> string" where
  "event_kind_str (NodeStarted _ _ _) = ''node_started''"
| "event_kind_str (NodeCompleted _ _ _ _) = ''node_completed''"
| "event_kind_str (NodeFailed _ _ _ _) = ''node_failed''"
| "event_kind_str (EdgeTraversed _ _ _ _) = ''edge_traversed''"
| "event_kind_str (HumanPromptIssued _ _ _) = ''human_prompt_issued''"
| "event_kind_str (HumanResponseReceived _ _ _) = ''human_response_received''"
| "event_kind_str (ContextUpdated _ _) = ''context_updated''"
| "event_kind_str (CheckpointCreated _ _) = ''checkpoint_created''"
| "event_kind_str (PipelineStarted _ _) = ''pipeline_started''"
| "event_kind_str (PipelineCompleted _ _ _ _) = ''pipeline_completed''"
| "event_kind_str (PipelineAborted _ _) = ''pipeline_aborted''"
| "event_kind_str (LoopRestarted _ _ _ _) = ''loop_restarted''"
| "event_kind_str (AgentToolCallStarted _ _ _ _ _) = ''agent_tool_call_started''"
| "event_kind_str (AgentToolCallCompleted _ _ _ _ _ _ _) = ''agent_tool_call_completed''"
| "event_kind_str (AgentMessage _ _ _) = ''agent_message''"
| "event_kind_str (AgentTurnStarted _ _ _) = ''agent_turn_started''"
| "event_kind_str (AgentTokenUsage _ _ _ _ _) = ''agent_token_usage''"

record log_filter =
  lf_node_id :: "string option"
  lf_event_kinds :: "string list option"
  lf_since :: "nat option"
  lf_until :: "nat option"
  lf_limit :: "nat option"

definition filter_new :: log_filter where
  "filter_new = \<lparr>lf_node_id = None, lf_event_kinds = None, lf_since = None, lf_until = None, lf_limit = None\<rparr>"

definition filter_node_id :: "string \<Rightarrow> log_filter \<Rightarrow> log_filter" where
  "filter_node_id n f = f\<lparr>lf_node_id := Some n\<rparr>"

definition filter_event_kind :: "string \<Rightarrow> log_filter \<Rightarrow> log_filter" where
  "filter_event_kind k f =
     f\<lparr>lf_event_kinds := Some ((case lf_event_kinds f of Some ks \<Rightarrow> ks | None \<Rightarrow> []) @ [k])\<rparr>"

definition filter_since :: "nat \<Rightarrow> log_filter \<Rightarrow> log_filter" where
  "filter_since t f = f\<lparr>lf_since := Some t\<rparr>"

definition filter_until :: "nat \<Rightarrow> log_filter \<Rightarrow> log_filter" where
  "filter_until t f = f\<lparr>lf_until := Some t\<rparr>"

definition filter_limit :: "nat \<Rightarrow> log_filter \<Rightarrow> log_filter" where
  "filter_limit n f = f\<lparr>lf_limit := Some n\<rparr>"

definition log_matches :: "log_filter \<Rightarrow> log_entry \<Rightarrow> bool" where
  "log_matches f e \<longleftrightarrow>
     (case lf_node_id f of Some n \<Rightarrow> event_node_id (le_event e) = Some n | None \<Rightarrow> True) \<and>
     (case lf_event_kinds f of Some ks \<Rightarrow> event_kind_str (le_event e) \<in> set ks | None \<Rightarrow> True) \<and>
     (case lf_since f of Some t \<Rightarrow> \<not> event_timestamp (le_event e) < t | None \<Rightarrow> True) \<and>
     (case lf_until f of Some t \<Rightarrow> \<not> event_timestamp (le_event e) > t | None \<Rightarrow> True)"

section \<open>The index\<close>

record log_index =
  li_by_node :: "64 word list hmap"
  li_by_kind :: "64 word list hmap"

definition index_push :: "string \<Rightarrow> 64 word \<Rightarrow> 64 word list hmap \<Rightarrow> 64 word list hmap" where
  "index_push k s m = hm_insert k ((case hm_get m k of Some v \<Rightarrow> v | None \<Rightarrow> []) @ [s]) m"

definition index_entry :: "log_entry \<Rightarrow> log_index \<Rightarrow> log_index" where
  "index_entry e ix =
     (let ix1 = (case event_node_id (le_event e) of
                   Some n \<Rightarrow> ix\<lparr>li_by_node := index_push n (le_sequence e) (li_by_node ix)\<rparr>
                 | None \<Rightarrow> ix)
      in ix1\<lparr>li_by_kind := index_push (event_kind_str (le_event e)) (le_sequence e) (li_by_kind ix1)\<rparr>)"

definition index_build :: "log_entry list \<Rightarrow> log_index" where
  "index_build es = fold index_entry es \<lparr>li_by_node = [], li_by_kind = []\<rparr>"

definition sequences_for_node :: "log_index \<Rightarrow> string \<Rightarrow> 64 word list" where
  "sequences_for_node ix n = (case hm_get (li_by_node ix) n of Some v \<Rightarrow> v | None \<Rightarrow> [])"

definition sequences_for_kind :: "log_index \<Rightarrow> string \<Rightarrow> 64 word list" where
  "sequences_for_kind ix k = (case hm_get (li_by_kind ix) k of Some v \<Rightarrow> v | None \<Rightarrow> [])"

section \<open>The sink in memory\<close>

record mem_sink =
  mk_entries :: "log_entry list"
  mk_counter :: "64 word"

definition mem_sink_new :: mem_sink where
  "mem_sink_new = \<lparr>mk_entries = [], mk_counter = 0\<rparr>"

text \<open>An append takes a number and then, under the lock, stores the entry.\<close>

definition fetch_sequence :: "pipeline_event \<Rightarrow> mem_sink \<Rightarrow> log_entry \<times> mem_sink" where
  "fetch_sequence e s = (\<lparr>le_sequence = mk_counter s, le_event = e\<rparr>, s\<lparr>mk_counter := mk_counter s + 1\<rparr>)"

definition store_entry :: "log_entry \<Rightarrow> mem_sink \<Rightarrow> mem_sink" where
  "store_entry e s = s\<lparr>mk_entries := mk_entries s @ [e]\<rparr>"

definition mem_append :: "pipeline_event \<Rightarrow> mem_sink \<Rightarrow> (log_sink_error + 64 word) \<times> mem_sink" where
  "mem_append e s = (let (entry, s1) = fetch_sequence e s in (Inr (le_sequence entry), store_entry entry s1))"

definition truncated :: "nat option \<Rightarrow> 'a list \<Rightarrow> 'a list" where
  "truncated limit xs = (case limit of Some n \<Rightarrow> take n xs | None \<Rightarrow> xs)"

definition mem_query :: "log_filter \<Rightarrow> mem_sink \<Rightarrow> log_sink_error + log_entry list" where
  "mem_query f s = Inr (truncated (lf_limit f) (filter (log_matches f) (mk_entries s)))"

definition mem_count :: "mem_sink \<Rightarrow> log_sink_error + 64 word" where
  "mem_count s = Inr (of_nat (length (mk_entries s)))"

definition young_entries :: "nat \<Rightarrow> retention_policy \<Rightarrow> log_entry list \<Rightarrow> log_entry list" where
  "young_entries now p es =
     (case rp_max_age p of
        Some age \<Rightarrow> filter (\<lambda>e. int (event_timestamp (le_event e)) \<ge> int now - age) es
      | None \<Rightarrow> es)"

definition latest_entries :: "retention_policy \<Rightarrow> log_entry list \<Rightarrow> log_entry list" where
  "latest_entries p es =
     (case rp_max_entries p of
        Some n \<Rightarrow> (if length es > n then drop (length es - n) es else es)
      | None \<Rightarrow> es)"

definition apply_retention :: "nat \<Rightarrow> retention_policy \<Rightarrow> mem_sink \<Rightarrow> (log_sink_error + nat) \<times> mem_sink" where
  "apply_retention now p s =
     (let kept = latest_entries p (young_entries now p (mk_entries s))
      in (Inr (length (mk_entries s) - length kept), s\<lparr>mk_entries := kept\<rparr>))"

definition build_index :: "mem_sink \<Rightarrow> log_index" where
  "build_index s = index_build (mk_entries s)"

section \<open>The sink in a file\<close>

datatype file_read = Contents string | Not_Found | Read_Failed string

record 'w log_file =
  lo_read :: "'w \<Rightarrow> file_read"
  lo_append :: "string \<Rightarrow> 'w \<Rightarrow> (string + unit) \<times> 'w" \<comment> \<open>open, write and flush\<close>

definition line_count :: "string \<Rightarrow> 64 word" where
  "line_count t = of_nat (length (filter (\<lambda>l. l \<noteq> []) (str_lines t)))"

text \<open>A file sink is its counter beside the outside world.\<close>

definition file_sink_new :: "'w log_file \<Rightarrow> 'w \<Rightarrow> 64 word \<times> 'w" where
  "file_sink_new fl w = ((case lo_read fl w of Contents t \<Rightarrow> line_count t | _ \<Rightarrow> 0), w)"

definition file_append ::
  "(log_entry \<Rightarrow> string + string) \<Rightarrow> 'w log_file \<Rightarrow> pipeline_event \<Rightarrow> 64 word \<times> 'w \<Rightarrow> (log_sink_error + 64 word) \<times> 64 word \<times> 'w" where
  "file_append to_json fl e = (\<lambda>(counter, w).
     case to_json \<lparr>le_sequence = counter, le_event = e\<rparr> of
       Inl m \<Rightarrow> (Inl (Log_Serialization m), counter + 1, w)
     | Inr line \<Rightarrow>
         (case lo_append fl (line @ [newline]) w of
            (Inl m, w1) \<Rightarrow> (Inl (Log_Io m), counter + 1, w1)
          | (Inr _, w1) \<Rightarrow> (Inr counter, counter + 1, w1)))"

fun query_lines :: "(string \<Rightarrow> string + log_entry) \<Rightarrow> log_filter \<Rightarrow> log_entry list \<Rightarrow> string list \<Rightarrow> log_sink_error + log_entry list" where
  "query_lines from_json f results [] = Inr results"
| "query_lines from_json f results (line # lines) =
     (if line = [] then query_lines from_json f results lines
      else
        (case from_json line of
           Inl m \<Rightarrow> Inl (Log_Serialization m)
         | Inr entry \<Rightarrow>
             (if log_matches f entry then
                (if (case lf_limit f of Some n \<Rightarrow> length (results @ [entry]) \<ge> n | None \<Rightarrow> False) then Inr (results @ [entry])
                 else query_lines from_json f (results @ [entry]) lines)
              else query_lines from_json f results lines)))"

definition file_query :: "(string \<Rightarrow> string + log_entry) \<Rightarrow> 'w log_file \<Rightarrow> log_filter \<Rightarrow> 64 word \<times> 'w \<Rightarrow> log_sink_error + log_entry list" where
  "file_query from_json fl f = (\<lambda>(counter, w).
     case lo_read fl w of
       Contents t \<Rightarrow> query_lines from_json f [] (str_lines t)
     | Not_Found \<Rightarrow> Inr []
     | Read_Failed m \<Rightarrow> Inl (Log_Io m))"

definition file_count :: "'w log_file \<Rightarrow> 64 word \<times> 'w \<Rightarrow> log_sink_error + 64 word" where
  "file_count fl = (\<lambda>(counter, w).
     case lo_read fl w of Contents t \<Rightarrow> Inr (line_count t) | Not_Found \<Rightarrow> Inr 0 | Read_Failed m \<Rightarrow> Inl (Log_Io m))"

section \<open>The index\<close>

lemma hm_get_index_push:
  "hm_get (index_push k s m) k' =
     (if k' = k then Some ((case hm_get m k of Some v \<Rightarrow> v | None \<Rightarrow> []) @ [s]) else hm_get m k')"
  by (simp add: index_push_def)

lemma index_entry_node:
  "sequences_for_node (index_entry e ix) n =
     sequences_for_node ix n @ (if event_node_id (le_event e) = Some n then [le_sequence e] else [])"
  by (auto simp: sequences_for_node_def index_entry_def hm_get_index_push split: option.split)

lemma index_entry_kind:
  "sequences_for_kind (index_entry e ix) k =
     sequences_for_kind ix k @ (if event_kind_str (le_event e) = k then [le_sequence e] else [])"
  by (auto simp: sequences_for_kind_def index_entry_def hm_get_index_push Let_def split: option.split)

lemma index_fold:
  "sequences_for_node (fold index_entry es ix) n =
     sequences_for_node ix n @ map le_sequence (filter (\<lambda>e. event_node_id (le_event e) = Some n) es)"
  "sequences_for_kind (fold index_entry es ix) k =
     sequences_for_kind ix k @ map le_sequence (filter (\<lambda>e. event_kind_str (le_event e) = k) es)"
  by (induction es arbitrary: ix) (auto simp: index_entry_node index_entry_kind)

lemma index_build_sequences:
  "sequences_for_node (index_build es) n = map le_sequence (filter (\<lambda>e. event_node_id (le_event e) = Some n) es)"
  "sequences_for_kind (index_build es) k = map le_sequence (filter (\<lambda>e. event_kind_str (le_event e) = k) es)"
  unfolding index_build_def index_fold by (simp_all add: sequences_for_node_def sequences_for_kind_def)

lemma matches_only:
  "log_matches (filter_node_id n filter_new) = (\<lambda>e. event_node_id (le_event e) = Some n)"
  "log_matches (filter_event_kind k filter_new) = (\<lambda>e. event_kind_str (le_event e) = k)"
  by (auto simp: filter_new_def filter_node_id_def filter_event_kind_def log_matches_def)

lemma filter_limits:
  "lf_limit (filter_node_id n filter_new) = None" "lf_limit (filter_event_kind k filter_new) = None"
  by (simp_all add: filter_new_def filter_node_id_def filter_event_kind_def)

text \<open>The index gives, in order, the numbers of the entries that a query for the node or the kind returns.\<close>

theorem index_agrees_with_query:
  "map_sum id (map le_sequence) (mem_query (filter_node_id n filter_new) s) = Inr (sequences_for_node (build_index s) n) \<and>
   map_sum id (map le_sequence) (mem_query (filter_event_kind k filter_new) s) = Inr (sequences_for_kind (build_index s) k)"
  by (simp add: mem_query_def build_index_def index_build_sequences truncated_def matches_only filter_limits)

section \<open>What a sink promises\<close>

fun numbered :: "64 word \<Rightarrow> pipeline_event list \<Rightarrow> log_entry list" where
  "numbered s [] = []"
| "numbered s (e # es) = \<lparr>le_sequence = s, le_event = e\<rparr> # numbered (s + 1) es"

locale log_sink =
  fixes append :: "pipeline_event \<Rightarrow> 's \<Rightarrow> (log_sink_error + 64 word) \<times> 's"
    and query :: "log_filter \<Rightarrow> 's \<Rightarrow> log_sink_error + log_entry list"
    and count :: "'s \<Rightarrow> log_sink_error + 64 word"
    and entries :: "'s \<Rightarrow> log_entry list"
    and next_sequence :: "'s \<Rightarrow> 64 word"
    and loggable :: "pipeline_event \<Rightarrow> bool"
    and ok :: "'s \<Rightarrow> bool"
  assumes append_spec: "ok s \<Longrightarrow> loggable e \<Longrightarrow>
      fst (append e s) = Inr (next_sequence s) \<and> ok (snd (append e s)) \<and>
      entries (snd (append e s)) = entries s @ [\<lparr>le_sequence = next_sequence s, le_event = e\<rparr>] \<and>
      next_sequence (snd (append e s)) = next_sequence s + 1"
    and query_spec: "ok s \<Longrightarrow> lf_limit f \<noteq> Some 0 \<Longrightarrow>
      query f s = Inr (truncated (lf_limit f) (filter (log_matches f) (entries s)))"
    and count_spec: "ok s \<Longrightarrow> count s = Inr (of_nat (length (entries s)))"
begin

lemma append_all:
  "ok s \<Longrightarrow> list_all loggable es \<Longrightarrow>
     ok (fold (\<lambda>e. snd \<circ> append e) es s) \<and>
     entries (fold (\<lambda>e. snd \<circ> append e) es s) = entries s @ numbered (next_sequence s) es \<and>
     next_sequence (fold (\<lambda>e. snd \<circ> append e) es s) = next_sequence s + of_nat (length es)"
proof (induction es arbitrary: s)
  case (Cons e es)
  then show ?case using append_spec [of s e] by (simp add: add.assoc add.commute)
qed simp

end

text \<open>A sink that survives being closed and opened again.\<close>

locale durable_sink = log_sink +
  fixes reopen :: "'a \<Rightarrow> 'a"
  assumes reopen_spec: "ok s \<Longrightarrow> ok (reopen s) \<and> entries (reopen s) = entries s \<and> next_sequence (reopen s) = next_sequence s"
begin

lemma append_reopen_append:
  assumes "ok s" "list_all loggable es" "list_all loggable es'"
  shows "ok (fold (\<lambda>e. snd \<circ> append e) es' (reopen (fold (\<lambda>e. snd \<circ> append e) es s))) \<and>
    entries (fold (\<lambda>e. snd \<circ> append e) es' (reopen (fold (\<lambda>e. snd \<circ> append e) es s))) =
      entries s @ numbered (next_sequence s) es @ numbered (next_sequence s + of_nat (length es)) es' \<and>
    next_sequence (fold (\<lambda>e. snd \<circ> append e) es' (reopen (fold (\<lambda>e. snd \<circ> append e) es s))) =
      next_sequence s + of_nat (length es) + of_nat (length es')"
  using append_all [OF assms(1,2)] reopen_spec append_all [OF _ assms(3)] by simp

end

lemma numbered_append: "numbered s (es @ es') = numbered s es @ numbered (s + of_nat (length es)) es'"
  by (induction es arbitrary: s) (simp_all add: add.assoc add.commute)

lemma length_numbered [simp]: "length (numbered s es) = length es"
  by (induction es arbitrary: s) simp_all

interpretation mem_log: log_sink mem_append mem_query mem_count mk_entries mk_counter "\<lambda>_. True" "\<lambda>_. True"
  by unfold_locales
    (simp_all add: mem_append_def fetch_sequence_def store_entry_def mem_query_def mem_count_def)

text \<open>The outside world holds the text of the file, if there is one, and JSON texts are lines that read back.\<close>

definition holds_text :: "'w log_file \<Rightarrow> ('w \<Rightarrow> string option) \<Rightarrow> bool" where
  "holds_text fl contents \<longleftrightarrow>
     (\<forall>w. lo_read fl w = (case contents w of Some t \<Rightarrow> Contents t | None \<Rightarrow> Not_Found)) \<and>
     (\<forall>l w. fst (lo_append fl l w) = Inr () \<and>
        contents (snd (lo_append fl l w)) = Some ((case contents w of Some t \<Rightarrow> t | None \<Rightarrow> []) @ l))"

definition reads_back ::
  "(log_entry \<Rightarrow> string + string) \<Rightarrow> (string \<Rightarrow> string + log_entry) \<Rightarrow> (pipeline_event \<Rightarrow> bool) \<Rightarrow> bool" where
  "reads_back to_json from_json P \<longleftrightarrow>
     (\<forall>s e. P e \<longrightarrow> (\<exists>l. to_json \<lparr>le_sequence = s, le_event = e\<rparr> = Inr l \<and> l \<noteq> [] \<and> plain_line l \<and>
        from_json l = Inr \<lparr>le_sequence = s, le_event = e\<rparr>))"

text \<open>The file is a text of lines that are entries, and the counter counts them.\<close>

definition file_lines :: "('w \<Rightarrow> string option) \<Rightarrow> 64 word \<times> 'w \<Rightarrow> string list" where
  "file_lines contents s = (case contents (snd s) of Some t \<Rightarrow> str_lines t | None \<Rightarrow> [])"

definition file_entries :: "(string \<Rightarrow> string + log_entry) \<Rightarrow> ('w \<Rightarrow> string option) \<Rightarrow> 64 word \<times> 'w \<Rightarrow> log_entry list" where
  "file_entries from_json contents s = map (\<lambda>l. projr (from_json l)) (file_lines contents s)"

definition entry_line :: "(string \<Rightarrow> string + log_entry) \<Rightarrow> string \<Rightarrow> bool" where
  "entry_line from_json l \<longleftrightarrow> l \<noteq> [] \<and> plain_line l \<and> is_ok (from_json l)"

definition file_ok ::
  "(log_entry \<Rightarrow> string + string) \<Rightarrow> (string \<Rightarrow> string + log_entry) \<Rightarrow> (pipeline_event \<Rightarrow> bool) \<Rightarrow> 'w log_file \<Rightarrow>
     ('w \<Rightarrow> string option) \<Rightarrow> 64 word \<times> 'w \<Rightarrow> bool" where
  "file_ok to_json from_json P fl contents s \<longleftrightarrow>
     holds_text fl contents \<and> reads_back to_json from_json P \<and>
     list_all (entry_line from_json) (file_lines contents s) \<and>
     (case contents (snd s) of Some t \<Rightarrow> t = text_of (file_lines contents s) | None \<Rightarrow> True) \<and>
     fst s = of_nat (length (file_lines contents s))"

lemma entry_lines_plain: "list_all (entry_line from_json) ls \<Longrightarrow> list_all plain_line ls"
  by (simp add: list_all_iff entry_line_def)

lemma entry_lines_filled: "list_all (entry_line from_json) ls \<Longrightarrow> filter (\<lambda>l. l \<noteq> []) ls = ls"
  by (rule filter_True) (simp add: list_all_iff entry_line_def)

lemma query_lines_filter:
  assumes "list_all (entry_line from_json) ls"
    and "\<And>n. lf_limit f = Some n \<Longrightarrow> length results < n"
  shows "query_lines from_json f results ls =
    Inr (truncated (lf_limit f) (results @ filter (log_matches f) (map (\<lambda>l. projr (from_json l)) ls)))"
  using assms
proof (induction ls arbitrary: results)
  case Nil
  then show ?case by (auto simp: truncated_def less_imp_le split: option.split)
next
  case (Cons l ls)
  from Cons.prems(1) obtain e where l: "l \<noteq> []" "from_json l = Inr e"
    by (auto simp: entry_line_def is_ok_iff)
  show ?case
  proof (cases "log_matches f e")
    case True
    show ?thesis
    proof (cases "lf_limit f")
      case None
      then show ?thesis using l True Cons.IH [of "results @ [e]"] Cons.prems by simp
    next
      case (Some n)
      then have "length results < n" using Cons.prems by simp
      then consider "length (results @ [e]) < n" | "n = length (results @ [e])" by fastforce
      then show ?thesis
      proof cases
        case 1
        then show ?thesis using l True Some Cons.IH [of "results @ [e]"] Cons.prems by simp
      next
        case 2
        then show ?thesis using l True Some by (simp add: truncated_def)
      qed
    qed
  next
    case False
    then show ?thesis using l Cons by simp
  qed
qed

lemma file_append_ok:
  assumes "file_ok to_json from_json P fl contents s" "P e"
  shows "fst (file_append to_json fl e s) = Inr (fst s) \<and>
    file_ok to_json from_json P fl contents (snd (file_append to_json fl e s)) \<and>
    file_entries from_json contents (snd (file_append to_json fl e s)) =
      file_entries from_json contents s @ [\<lparr>le_sequence = fst s, le_event = e\<rparr>] \<and>
    fst (snd (file_append to_json fl e s)) = fst s + 1"
proof -
  obtain c w where s: "s = (c, w)" by (cases s)
  obtain l where l: "to_json \<lparr>le_sequence = c, le_event = e\<rparr> = Inr l" "l \<noteq> []" "plain_line l"
      "from_json l = Inr \<lparr>le_sequence = c, le_event = e\<rparr>"
    using assms by (auto simp: file_ok_def reads_back_def)
  obtain w' where w': "lo_append fl (l @ [newline]) w = (Inr (), w')"
      "contents w' = Some ((case contents w of Some t \<Rightarrow> t | None \<Rightarrow> []) @ l @ [newline])"
    using assms(1) by (simp add: file_ok_def holds_text_def) (metis prod.collapse)
  let ?ls = "file_lines contents s"
  have ls: "list_all (entry_line from_json) ?ls" "c = of_nat (length ?ls)"
    using assms(1) by (simp_all add: file_ok_def s)
  have old: "(case contents w of Some t \<Rightarrow> t | None \<Rightarrow> []) = text_of ?ls"
    using assms(1) by (auto simp: file_ok_def s file_lines_def split: option.splits)
  have "list_all plain_line (?ls @ [l])" using entry_lines_plain [OF ls(1)] l(3) by simp
  then have new: "file_lines contents (c + 1, w') = ?ls @ [l]"
    using str_lines_text [of "?ls @ [l]"] by (simp add: file_lines_def w'(2) old)
  have step: "file_append to_json fl e s = (Inr c, c + 1, w')"
    using l(1) w'(1) by (simp add: s file_append_def)
  have "contents w' = Some (text_of (?ls @ [l]))" by (simp add: w'(2) old)
  moreover have "list_all (entry_line from_json) (?ls @ [l])" using ls(1) l by (simp add: entry_line_def)
  moreover have "holds_text fl contents" "reads_back to_json from_json P" using assms(1) by (simp_all add: file_ok_def)
  ultimately have "file_ok to_json from_json P fl contents (c + 1, w')"
    using ls(2) unfolding file_ok_def new by simp
  moreover have "file_entries from_json contents (c + 1, w') =
      file_entries from_json contents s @ [\<lparr>le_sequence = c, le_event = e\<rparr>]"
    by (simp add: file_entries_def new l(4))
  ultimately show ?thesis by (simp add: step) (simp add: s)
qed

lemma file_query_ok:
  assumes "file_ok to_json from_json P fl contents s" "lf_limit f \<noteq> Some 0"
  shows "file_query from_json fl f s =
    Inr (truncated (lf_limit f) (filter (log_matches f) (file_entries from_json contents s)))"
proof -
  obtain c w where s: "s = (c, w)" by (cases s)
  have read: "lo_read fl w = (case contents w of Some t \<Rightarrow> Contents t | None \<Rightarrow> Not_Found)"
    and ls: "list_all (entry_line from_json) (file_lines contents s)"
    using assms(1) by (simp_all add: file_ok_def holds_text_def)
  have "query_lines from_json f [] (file_lines contents s) =
      Inr (truncated (lf_limit f) (filter (log_matches f) (file_entries from_json contents s)))"
    using query_lines_filter [OF ls, of f "[]"] assms(2) by (auto simp: file_entries_def intro: gr0I)
  then show ?thesis by (auto simp: file_query_def s read file_lines_def split: option.splits)
qed

lemma file_count_ok:
  assumes "file_ok to_json from_json P fl contents s"
  shows "file_count fl s = Inr (of_nat (length (file_entries from_json contents s)))"
proof -
  have ls: "list_all (entry_line from_json) (file_lines contents s)"
    and "\<And>w. lo_read fl w = (case contents w of Some t \<Rightarrow> Contents t | None \<Rightarrow> Not_Found)"
    using assms by (simp_all add: file_ok_def holds_text_def)
  then show ?thesis using entry_lines_filled [OF ls]
    by (auto simp: file_count_def line_count_def file_entries_def file_lines_def split: prod.splits option.splits)
qed

lemma file_reopen_ok:
  assumes "file_ok to_json from_json P fl contents s"
  shows "file_sink_new fl (snd s) = s"
proof -
  have ls: "list_all (entry_line from_json) (file_lines contents s)"
    and "lo_read fl (snd s) = (case contents (snd s) of Some t \<Rightarrow> Contents t | None \<Rightarrow> Not_Found)"
    and "fst s = of_nat (length (file_lines contents s))"
    using assms by (simp_all add: file_ok_def holds_text_def)
  then show ?thesis using entry_lines_filled [OF ls]
    by (auto simp: file_sink_new_def line_count_def file_lines_def prod_eq_iff split: option.splits)
qed

interpretation file_log: durable_sink "file_append to_json fl" "file_query from_json fl" "file_count fl"
    "file_entries from_json contents" fst P "file_ok to_json from_json P fl contents" "\<lambda>s. file_sink_new fl (snd s)"
  for to_json from_json fl contents P
proof unfold_locales
  show "file_count fl s = Inr (of_nat (length (file_entries from_json contents s)))"
    if "file_ok to_json from_json P fl contents s" for s
    using file_count_ok [OF that] .
qed (simp_all add: file_append_ok file_query_ok file_reopen_ok)

text \<open>C31. 
  A file sink, even one that is opened again in the middle, and the sink in memory give the same numbers
  and answer every query alike, a query for no entries at all excepted.
\<close>

theorem log_sinks_agree:
  assumes "holds_text fl contents" "reads_back to_json from_json P" "contents w = None"
    and "list_all P es" "list_all P es'" "lf_limit f \<noteq> Some 0"
    and m: "m = fold (\<lambda>e. snd \<circ> mem_append e) (es @ es') mem_sink_new"
    and s: "s = fold (\<lambda>e. snd \<circ> file_append to_json fl e) es (file_sink_new fl w)"
    and s': "s' = fold (\<lambda>e. snd \<circ> file_append to_json fl e) es' (file_sink_new fl (snd s))"
  shows "file_query from_json fl f s' = mem_query f m \<and> file_count fl s' = mem_count m \<and>
    (P e \<longrightarrow> fst (file_append to_json fl e s') = fst (mem_append e m))"
proof -
  have "lo_read fl w = Not_Found" using assms(1,3) by (simp add: holds_text_def)
  then have new: "file_sink_new fl w = (0, w)" by (simp add: file_sink_new_def)
  have "file_ok to_json from_json P fl contents (0, w)"
    using assms(1-3) by (simp add: file_ok_def file_lines_def)
  from file_log.append_reopen_append [OF this assms(4,5)]
  have fil: "file_ok to_json from_json P fl contents s'" "file_entries from_json contents s' = numbered 0 (es @ es')"
    "fst s' = of_nat (length (es @ es'))"
    by (simp_all add: s' s new file_entries_def file_lines_def assms(3) numbered_append)
  have mem: "mk_entries m = numbered 0 (es @ es')" "mk_counter m = of_nat (length (es @ es'))"
    using mem_log.append_all [where s = mem_sink_new and es = "es @ es'"] by (simp_all add: m mem_sink_new_def list_all_iff del: fold_append)
  have "file_query from_json fl f s' = mem_query f m"
    using file_log.query_spec [OF fil(1) assms(6)] mem_log.query_spec [OF TrueI assms(6), of m] by (simp add: fil mem)
  moreover have "file_count fl s' = mem_count m"
    using file_log.count_spec [OF fil(1)] mem_log.count_spec [OF TrueI, of m] by (simp add: fil mem)
  moreover have "fst (file_append to_json fl e s') = fst (mem_append e m)" if "P e"
    using file_log.append_spec [OF fil(1) that] mem_log.append_spec [OF TrueI TrueI, of e m] by (simp add: fil mem)
  ultimately show ?thesis by simp
qed

text \<open>A world that is the text of the file, and a JSON text for one event.\<close>

definition plain_file :: "string option log_file" where
  "plain_file = \<lparr>lo_read = (\<lambda>w. case w of Some t \<Rightarrow> Contents t | None \<Rightarrow> Not_Found),
     lo_append = (\<lambda>l w. (Inr (), Some ((case w of Some t \<Rightarrow> t | None \<Rightarrow> []) @ l)))\<rparr>"

definition sample_event :: pipeline_event where
  "sample_event = CheckpointCreated ''a'' 3"

definition sample_to_json :: "log_entry \<Rightarrow> string + string" where
  "sample_to_json e = Inr (replicate (Suc (unat (le_sequence e))) CHR ''x'')"

definition sample_from_json :: "string \<Rightarrow> string + log_entry" where
  "sample_from_json l = Inr \<lparr>le_sequence = of_nat (length l - 1), le_event = sample_event\<rparr>"

lemma sample_log_file: "holds_text plain_file id"
  by (simp add: holds_text_def plain_file_def)

lemma sample_reads_back: "reads_back sample_to_json sample_from_json (\<lambda>e. e = sample_event)"
  by (simp add: reads_back_def sample_to_json_def sample_from_json_def plain_line_def del: replicate_Suc)

lemma log_sinks_agree_witness:
  "file_query sample_from_json plain_file (filter_limit 1 filter_new)
     (fold (\<lambda>e. snd \<circ> file_append sample_to_json plain_file e) [sample_event]
       (file_sink_new plain_file (snd (fold (\<lambda>e. snd \<circ> file_append sample_to_json plain_file e) [sample_event]
         (file_sink_new plain_file None))))) =
   mem_query (filter_limit 1 filter_new) (fold (\<lambda>e. snd \<circ> mem_append e) ([sample_event] @ [sample_event]) mem_sink_new)"
  using log_sinks_agree [OF sample_log_file sample_reads_back, where f = "filter_limit 1 filter_new" and w = None
      and es = "[sample_event]" and es' = "[sample_event]"]
  by (simp add: filter_limit_def)

text \<open>Asked for no entries, the file sink gives the first one that matches.\<close>

lemma query_limit_zero:
  "mem_query (filter_limit 0 f) m = Inr [] \<and>
   (entry_line from_json l \<and> log_matches (filter_limit 0 f) (projr (from_json l)) \<longrightarrow>
     query_lines from_json (filter_limit 0 f) [] (l # ls) = Inr [projr (from_json l)])"
  by (auto simp: mem_query_def truncated_def filter_limit_def entry_line_def is_ok_iff)

section \<open>Retention\<close>

text \<open>Retention keeps, in order, the latest of the entries that are young enough, and no entry under a
  policy on the size of the file alone is removed.\<close>

theorem retention_spec:
  "\<exists>removed kept. apply_retention now p s = (Inr removed, s\<lparr>mk_entries := kept\<rparr>) \<and>
     suffix kept (young_entries now p (mk_entries s)) \<and>
     removed + length kept = length (mk_entries s) \<and>
     length kept = (case rp_max_entries p of Some n \<Rightarrow> min n (length (young_entries now p (mk_entries s)))
                    | None \<Rightarrow> length (young_entries now p (mk_entries s)))"
proof -
  let ?young = "young_entries now p (mk_entries s)"
  have "length ?young \<le> length (mk_entries s)"
    by (auto simp: young_entries_def split: option.split)
  moreover have "suffix (latest_entries p ?young) ?young" "length (latest_entries p ?young) \<le> length ?young"
    "length (latest_entries p ?young) = (case rp_max_entries p of Some n \<Rightarrow> min n (length ?young) | None \<Rightarrow> length ?young)"
    by (auto simp: latest_entries_def suffix_drop split: option.split)
  ultimately show ?thesis unfolding apply_retention_def Let_def by (intro exI conjI) (rule refl, auto)
qed

section \<open>Appends in parallel\<close>

text \<open>Each append takes its number and stores its entry in two steps; \<open>taken\<close> are the entries in between.\<close>

inductive append_reach :: "mem_sink \<Rightarrow> log_entry list \<Rightarrow> bool" where
  Sink_New: "append_reach mem_sink_new []"
| Fetch: "append_reach s taken \<Longrightarrow> fetch_sequence e s = (entry, s') \<Longrightarrow> append_reach s' (entry # taken)"
| Store: "append_reach s (xs @ entry # ys) \<Longrightarrow> append_reach (store_entry entry s) (xs @ ys)"

text \<open>No number is given twice while the counter has not wrapped.\<close>

lemma append_reach_numbers:
  assumes "append_reach s taken"
  shows "\<exists>n. mk_counter s = of_nat n \<and> image_mset (\<lambda>e. le_sequence e) (mset (mk_entries s @ taken)) = image_mset of_nat (mset [0..<n])"
  using assms
proof (induction rule: append_reach.induct)
  case Sink_New
  show ?case by (intro exI [of _ 0]) (simp add: mem_sink_new_def)
next
  case (Fetch s taken e entry s')
  then obtain n where "mk_counter s = of_nat n"
    "image_mset (\<lambda>e. le_sequence e) (mset (mk_entries s @ taken)) = image_mset of_nat (mset [0..<n])" by blast
  then show ?case using Fetch.hyps(2)
    by (intro exI [of _ "Suc n"]) (auto simp: fetch_sequence_def add.commute)
next
  case (Store s xs entry ys)
  then show ?case by (simp add: store_entry_def)
qed

theorem append_race:
  assumes "append_reach s taken" "length (mk_entries s) + length taken < 2 ^ 64"
  shows "distinct (map le_sequence (mk_entries s @ taken)) \<and>
    unat (mk_counter s) = length (mk_entries s) + length taken"
proof -
  obtain n where n: "mk_counter s = of_nat n"
    "image_mset (\<lambda>e. le_sequence e) (mset (mk_entries s @ taken)) = image_mset of_nat (mset [0..<n])"
    using append_reach_numbers [OF assms(1)] by blast
  from n(2) have "mset (map le_sequence (mk_entries s @ taken)) = mset (map (of_nat :: nat \<Rightarrow> 64 word) [0..<n])"
    by (simp add: mset_map)
  moreover from this have "length (map le_sequence (mk_entries s @ taken)) = length (map (of_nat :: nat \<Rightarrow> 64 word) [0..<n])"
    by (rule mset_eq_length)
  then have len: "n = length (mk_entries s) + length taken" by simp
  have "inj_on (of_nat :: nat \<Rightarrow> 64 word) {0..<n}"
  proof (rule inj_on_inverseI)
    show "unat (of_nat k :: 64 word) = k" if "k \<in> {0..<n}" for k
      using that assms(2) len by (simp add: unsigned_of_nat take_bit_nat_eq_self)
  qed
  then have "distinct (map (of_nat :: nat \<Rightarrow> 64 word) [0..<n])" by (simp add: distinct_map)
  ultimately have "distinct (map le_sequence (mk_entries s @ taken))" by (metis mset_eq_imp_distinct_iff)
  moreover have "n < 2 ^ 64" using len assms(2) by simp
  then have "unat (mk_counter s) = n" unfolding n(1) by (simp add: unsigned_of_nat take_bit_nat_eq_self)
  ultimately show ?thesis using len by simp
qed

definition race_sink :: mem_sink where
  "race_sink = \<lparr>mk_entries = [\<lparr>le_sequence = 1, le_event = sample_event\<rparr>, \<lparr>le_sequence = 0, le_event = sample_event\<rparr>],
     mk_counter = 2\<rparr>"

text \<open>Two appends can store their entries in the other order; retention then drops the newer entry.\<close>

lemma append_out_of_order: "append_reach race_sink []"
proof -
  have "append_reach (snd (fetch_sequence sample_event mem_sink_new)) [fst (fetch_sequence sample_event mem_sink_new)]"
    by (rule Fetch [OF Sink_New]) simp
  from Fetch [OF this, of sample_event] have both: "append_reach \<lparr>mk_entries = [], mk_counter = 2\<rparr>
      [\<lparr>le_sequence = 1, le_event = sample_event\<rparr>, \<lparr>le_sequence = 0, le_event = sample_event\<rparr>]"
    by (simp add: fetch_sequence_def mem_sink_new_def)
  from Store [of _ "[]", simplified, OF both] have
    "append_reach \<lparr>mk_entries = [\<lparr>le_sequence = 1, le_event = sample_event\<rparr>], mk_counter = 2\<rparr>
      [\<lparr>le_sequence = 0, le_event = sample_event\<rparr>]"
    by (simp add: store_entry_def)
  from Store [of _ "[]", simplified, OF this] show ?thesis by (simp add: store_entry_def race_sink_def)
qed

lemma append_race_witness: "distinct (map le_sequence (mk_entries race_sink @ [])) \<and> unat (mk_counter race_sink) = 2"
  using append_race [OF append_out_of_order] by (simp add: race_sink_def)

lemma race_retention:
  "snd (apply_retention 9 (with_max_entries 1) race_sink) =
     race_sink\<lparr>mk_entries := [\<lparr>le_sequence = 0, le_event = sample_event\<rparr>]\<rparr>"
  by (simp add: apply_retention_def race_sink_def with_max_entries_def no_limits_def young_entries_def latest_entries_def)

end
