(* ===== verification/File_System.thy ===== *)
theory File_System
  imports Utf8 "HOL-Library.Sublist"
begin

text \<open>
  What the code uses of Rust's \<open>std::path\<close> and \<open>std::fs\<close> on Unix: paths by their components, and a file
  system of regular files, directories and symbolic links at absolute locations, without permissions.
  Locations are lists of names from the root, the last name last.
\<close>

section \<open>Paths\<close>

datatype component = Cur_Dir | Parent_Dir | Name string

record upath =
  up_abs :: bool
  up_comps :: "component list"
  up_slash :: bool \<comment> \<open>ends in a separator, or in a dot after one: it must name a directory\<close>

definition component :: "string \<Rightarrow> component" where
  "component s = (if s = ''.'' then Cur_Dir else if s = ''..'' then Parent_Dir else Name s)"

text \<open>A dot counts as a component only at the start of a relative path.\<close>

definition parse_path :: "string \<Rightarrow> upath" where
  "parse_path s =
     (let absolute = starts_with s ''/'';
          parts = split_char CHR ''/'' s;
          cs = map component (filter (\<lambda>p. p \<noteq> []) parts);
          front = (if \<not> absolute \<and> cs \<noteq> [] \<and> hd cs = Cur_Dir then [Cur_Dir] else [])
      in \<lparr>up_abs = absolute, up_comps = front @ filter (\<lambda>c. c \<noteq> Cur_Dir) cs,
          up_slash = (length parts > 1 \<and> last parts \<in> {[], ''.''})\<rparr>)"

definition up_join :: "upath \<Rightarrow> upath \<Rightarrow> upath" where
  "up_join p q =
     (if up_abs q then q
      else \<lparr>up_abs = up_abs p, up_comps = up_comps p @ filter (\<lambda>c. c \<noteq> Cur_Dir) (up_comps q),
            up_slash = (up_slash q \<or> up_comps q = [] \<or> last (up_comps q) = Cur_Dir)\<rparr>)"

definition up_file_name :: "upath \<Rightarrow> string option" where
  "up_file_name p = (if up_comps p = [] then None else case last (up_comps p) of Name x \<Rightarrow> Some x | _ \<Rightarrow> None)"

definition up_parent :: "upath \<Rightarrow> upath option" where
  "up_parent p =
     (if up_comps p = [] then None else Some (p\<lparr>up_comps := butlast (up_comps p), up_slash := False\<rparr>))"

definition location_path :: "string list \<Rightarrow> upath" where
  "location_path l = \<lparr>up_abs = True, up_comps = map Name l, up_slash = False\<rparr>"

section \<open>The file system\<close>

datatype fs_entry = Regular string | Directory | Symlink upath

type_synonym location = "string list"

type_synonym file_system = "location \<Rightarrow> fs_entry option"

datatype io_kind = IO_NotFound | IO_PermissionDenied | IO_NotADirectory | IO_IsADirectory | IO_AlreadyExists | IO_TooManyLinks | IO_InvalidData

definition entry_at :: "file_system \<Rightarrow> location \<Rightarrow> fs_entry option" where
  "entry_at fs l = (if l = [] then Some Directory else fs l)"

text \<open>Following a path from a directory, through at most \<open>n\<close> links.  With \<open>create\<close> a missing last name is
  the place of a file to be made.\<close>

function (sequential) walk ::
  "bool \<Rightarrow> file_system \<Rightarrow> nat \<Rightarrow> location \<Rightarrow> component list \<Rightarrow> bool \<Rightarrow> io_kind + location" where
  "walk create fs n cur [] slash = Inr cur"
| "walk create fs n cur (Cur_Dir # cs) slash = walk create fs n cur cs slash"
| "walk create fs n cur (Parent_Dir # cs) slash = walk create fs n (butlast cur) cs slash"
| "walk create fs n cur (Name x # cs) slash =
     (case fs (cur @ [x]) of
        None \<Rightarrow>
          (if create \<and> cs = [] then (if slash then Inl IO_IsADirectory else Inr (cur @ [x])) else Inl IO_NotFound)
      | Some Directory \<Rightarrow> walk create fs n (cur @ [x]) cs slash
      | Some (Regular t) \<Rightarrow> (if cs = [] \<and> \<not> slash then Inr (cur @ [x]) else Inl IO_NotADirectory)
      | Some (Symlink p) \<Rightarrow>
          (case n of
             0 \<Rightarrow> Inl IO_TooManyLinks
           | Suc m \<Rightarrow>
               walk create fs m (if up_abs p then [] else cur) (up_comps p @ cs) (if cs = [] then slash \<or> up_slash p else slash)))"
  by pat_completeness auto
termination
  by (relation "measures [\<lambda>(create, fs, n, cur, cs, slash). n, \<lambda>(create, fs, n, cur, cs, slash). length cs]") auto

definition max_links :: nat where
  "max_links = 40"

text \<open>The current directory of the process is a location too.  The empty path names nothing.\<close>

definition locate :: "bool \<Rightarrow> file_system \<Rightarrow> location \<Rightarrow> upath \<Rightarrow> io_kind + location" where
  "locate create fs cwd p =
     (if \<not> up_abs p \<and> up_comps p = [] then Inl IO_NotFound
      else walk create fs max_links (if up_abs p then [] else cwd) (up_comps p) (up_slash p))"

definition path_is_there :: "file_system \<Rightarrow> location \<Rightarrow> upath \<Rightarrow> bool" where
  "path_is_there fs cwd p = is_ok (locate False fs cwd p)"

definition canonicalize :: "file_system \<Rightarrow> location \<Rightarrow> upath \<Rightarrow> io_kind + location" where
  "canonicalize fs cwd p = locate False fs cwd p"

definition fs_is_dir :: "file_system \<Rightarrow> location \<Rightarrow> upath \<Rightarrow> bool" where
  "fs_is_dir fs cwd p = (case locate False fs cwd p of Inr l \<Rightarrow> entry_at fs l = Some Directory | Inl _ \<Rightarrow> False)"

definition fs_is_file :: "file_system \<Rightarrow> location \<Rightarrow> upath \<Rightarrow> bool" where
  "fs_is_file fs cwd p =
     (case locate False fs cwd p of Inr l \<Rightarrow> (case entry_at fs l of Some (Regular _) \<Rightarrow> True | _ \<Rightarrow> False) | Inl _ \<Rightarrow> False)"

definition fs_read_to_string :: "file_system \<Rightarrow> location \<Rightarrow> upath \<Rightarrow> io_kind + string" where
  "fs_read_to_string fs cwd p =
     (case locate False fs cwd p of
        Inl e \<Rightarrow> Inl e
      | Inr l \<Rightarrow> (case entry_at fs l of Some (Regular t) \<Rightarrow> Inr t | _ \<Rightarrow> Inl IO_IsADirectory))"

definition fs_write_file :: "location \<Rightarrow> upath \<Rightarrow> string \<Rightarrow> file_system \<Rightarrow> (io_kind + unit) \<times> file_system" where
  "fs_write_file cwd p t fs =
     (case locate True fs cwd p of
        Inl e \<Rightarrow> (Inl e, fs)
      | Inr l \<Rightarrow> (if entry_at fs l = Some Directory then (Inl IO_IsADirectory, fs) else (Inr (), fs(l \<mapsto> Regular t))))"

text \<open>Making and removing at an absolute path of names do not follow a link in the last place.\<close>

definition fs_make_dir :: "location \<Rightarrow> location \<Rightarrow> file_system \<Rightarrow> (io_kind + unit) \<times> file_system" where
  "fs_make_dir cwd l fs =
     (if l = [] then (Inl IO_AlreadyExists, fs)
      else
        (case locate False fs cwd (location_path (butlast l)) of
           Inl e \<Rightarrow> (Inl e, fs)
         | Inr d \<Rightarrow>
             (if entry_at fs d \<noteq> Some Directory then (Inl IO_NotADirectory, fs)
              else if fs (d @ [last l]) \<noteq> None then (Inl IO_AlreadyExists, fs)
              else (Inr (), fs(d @ [last l] \<mapsto> Directory)))))"

definition fs_remove_file :: "location \<Rightarrow> location \<Rightarrow> file_system \<Rightarrow> (io_kind + unit) \<times> file_system" where
  "fs_remove_file cwd l fs =
     (if l = [] then (Inl IO_IsADirectory, fs)
      else
        (case locate False fs cwd (location_path (butlast l)) of
           Inl e \<Rightarrow> (Inl e, fs)
         | Inr d \<Rightarrow>
             (if entry_at fs d \<noteq> Some Directory then (Inl IO_NotADirectory, fs)
              else
                (case fs (d @ [last l]) of
                   None \<Rightarrow> (Inl IO_NotFound, fs)
                 | Some Directory \<Rightarrow> (Inl IO_IsADirectory, fs)
                 | Some _ \<Rightarrow> (Inr (), fs(d @ [last l] := None))))))"

text \<open>\<open>create_dir_all\<close>, for an absolute path of names.\<close>

function create_dir_all :: "location \<Rightarrow> location \<Rightarrow> file_system \<Rightarrow> (io_kind + unit) \<times> file_system" where
  "create_dir_all cwd l fs =
     (case fs_make_dir cwd l fs of
        (Inr u, fs1) \<Rightarrow> (Inr u, fs1)
      | (Inl IO_NotFound, fs1) \<Rightarrow>
          (if l = [] then (Inl IO_NotFound, fs1)
           else
             (case create_dir_all cwd (butlast l) fs1 of
                (Inl e, fs2) \<Rightarrow> (Inl e, fs2)
              | (Inr _, fs2) \<Rightarrow>
                  (case fs_make_dir cwd l fs2 of
                     (Inr u, fs3) \<Rightarrow> (Inr u, fs3)
                   | (Inl e, fs3) \<Rightarrow> (if fs_is_dir fs3 cwd (location_path l) then Inr () else Inl e, fs3))))
      | (Inl e, fs1) \<Rightarrow> (if fs_is_dir fs1 cwd (location_path l) then Inr () else Inl e, fs1))"
  by pat_completeness auto
termination by (relation "measure (\<lambda>(cwd, l, fs). length l)") auto

declare create_dir_all.simps [simp del]

section \<open>Locations without links\<close>

definition real_dir :: "file_system \<Rightarrow> location \<Rightarrow> bool" where
  "real_dir fs l \<longleftrightarrow> (\<forall>p. prefix p l \<and> p \<noteq> [] \<longrightarrow> fs p = Some Directory)"

definition link_free :: "file_system \<Rightarrow> location \<Rightarrow> bool" where
  "link_free fs l \<longleftrightarrow> (\<forall>p q. prefix p l \<and> p \<noteq> [] \<longrightarrow> fs p \<noteq> Some (Symlink q))"

lemma real_dir_Nil [simp]: "real_dir fs []"
  by (simp add: real_dir_def)

lemma real_dir_snoc: "real_dir fs (l @ [x]) \<longleftrightarrow> real_dir fs l \<and> fs (l @ [x]) = Some Directory"
  by (auto simp: real_dir_def)

lemma real_dir_butlast: "real_dir fs l \<Longrightarrow> real_dir fs (butlast l)"
  by (cases l rule: rev_cases) (simp_all add: real_dir_snoc)

lemma real_dir_prefix: "real_dir fs l \<Longrightarrow> prefix p l \<Longrightarrow> real_dir fs p"
  unfolding real_dir_def by (meson prefix_order.trans)

lemma link_free_prefix: "link_free fs l \<Longrightarrow> prefix p l \<Longrightarrow> link_free fs p"
  unfolding link_free_def by (meson prefix_order.trans)

lemma real_dir_entry: "real_dir fs l \<Longrightarrow> entry_at fs l = Some Directory"
  by (simp add: real_dir_def entry_at_def)

text \<open>What a path leads to is a real directory, or a file in one, or a free place in one.\<close>

definition arrived :: "bool \<Rightarrow> file_system \<Rightarrow> location \<Rightarrow> bool" where
  "arrived create fs l \<longleftrightarrow>
     real_dir fs l \<or>
     (\<exists>d x. l = d @ [x] \<and> real_dir fs d \<and> ((\<exists>t. fs l = Some (Regular t)) \<or> create \<and> fs l = None))"

lemma walk_arrived: "walk create fs n cur cs slash = Inr l \<Longrightarrow> real_dir fs cur \<Longrightarrow> arrived create fs l"
proof (induction create fs n cur cs slash arbitrary: l rule: walk.induct)
  case (4 create fs n cur x cs slash)
  note walked = "4.prems"(1) and real = "4.prems"(2) and IH = "4.IH"
  consider "fs (cur @ [x]) = None" | t where "fs (cur @ [x]) = Some (Regular t)"
    | "fs (cur @ [x]) = Some Directory" | p where "fs (cur @ [x]) = Some (Symlink p)"
    by (metis fs_entry.exhaust not_None_eq)
  then show ?case
  proof cases
    case 3
    then show ?thesis using IH(1) walked real by (simp add: real_dir_snoc)
  next
    case (4 p)
    then show ?thesis using IH(2) walked real by (cases n) (auto split: if_splits)
  qed (use walked real in \<open>auto simp: arrived_def split: if_splits\<close>)
qed (simp_all add: arrived_def real_dir_butlast)

lemma arrived_link_free: "arrived create fs l \<Longrightarrow> link_free fs l"
  by (auto simp: arrived_def link_free_def real_dir_def)

text \<open>A path of names without links leads to where it says.\<close>

lemma walk_link_free:
  "link_free fs (cur @ xs) \<Longrightarrow> walk create fs n cur (map Name xs) False = Inr l \<Longrightarrow> l = cur @ xs"
proof (induction xs arbitrary: cur)
  case (Cons x xs)
  have "prefix (cur @ [x]) (cur @ x # xs)" by simp
  with Cons.prems(1) have "fs (cur @ [x]) \<noteq> Some (Symlink q)" for q
    unfolding link_free_def by (metis snoc_eq_iff_butlast)
  then consider "fs (cur @ [x]) = None" | t where "fs (cur @ [x]) = Some (Regular t)" | "fs (cur @ [x]) = Some Directory"
    by (metis fs_entry.exhaust not_None_eq)
  then show ?case
  proof cases
    case 3
    then show ?thesis using Cons.IH [of "cur @ [x]"] Cons.prems by simp
  qed (use Cons.prems in \<open>auto split: if_splits\<close>)
qed simp

lemma locate_link_free: "link_free fs l \<Longrightarrow> locate create fs cwd (location_path l) = Inr l' \<Longrightarrow> l' = l"
  using walk_link_free [of fs "[]" l create max_links l'] by (simp add: locate_def location_path_def)

lemma locate_arrived: "locate create fs cwd p = Inr l \<Longrightarrow> real_dir fs cwd \<Longrightarrow> arrived create fs l"
  by (auto simp: locate_def split: if_splits intro: walk_arrived)

lemma read_link_free: "link_free fs l \<Longrightarrow> fs_read_to_string fs cwd (location_path l) = Inr t \<Longrightarrow> fs l = Some (Regular t)"
  by (auto simp: fs_read_to_string_def entry_at_def dest: locate_link_free split: sum.splits option.splits fs_entry.splits
      if_splits)

lemma write_link_free:
  assumes "link_free fs l" "fs_write_file cwd (location_path l) t fs = (r, fs')"
  shows "(\<forall>p. p \<noteq> l \<longrightarrow> fs' p = fs p) \<and> (r = Inr () \<longrightarrow> fs' l = Some (Regular t))"
proof (cases "locate True fs cwd (location_path l)")
  case (Inr k)
  then have "k = l" by (rule locate_link_free [OF assms(1)])
  then show ?thesis using assms(2) Inr by (auto simp: fs_write_file_def split: if_splits)
qed (use assms(2) in \<open>auto simp: fs_write_file_def\<close>)

lemma locate_parent:
  assumes "link_free fs l" "l \<noteq> []" "locate create fs cwd (location_path (butlast l)) = Inr d"
  shows "d = butlast l \<and> d @ [last l] = l"
proof -
  have "link_free fs (butlast l)" using assms(1) prefixeq_butlast by (rule link_free_prefix)
  then have "d = butlast l" using assms(3) by (rule locate_link_free)
  then show ?thesis using assms(2) by simp
qed

lemma remove_link_free:
  assumes "link_free fs l" "fs_remove_file cwd l fs = (r, fs')"
  shows "(\<forall>p. p \<noteq> l \<longrightarrow> fs' p = fs p) \<and> (r = Inr () \<longrightarrow> fs' l = None)"
proof (cases "l = [] \<or> \<not> is_ok (locate False fs cwd (location_path (butlast l)))")
  case True
  then show ?thesis using assms(2) by (auto simp: fs_remove_file_def is_ok_iff split: sum.splits if_splits)
next
  case False
  then obtain d where d: "l \<noteq> []" "locate False fs cwd (location_path (butlast l)) = Inr d" by (auto simp: is_ok_iff)
  from locate_parent [OF assms(1) d] have "d @ [last l] = l" by blast
  then show ?thesis using assms(2) d by (auto simp: fs_remove_file_def split: if_splits option.splits fs_entry.splits)
qed

lemma make_dir_link_free:
  assumes "link_free fs l" "fs_make_dir cwd l fs = (r, fs')"
  shows "fs' = fs \<or> l \<noteq> [] \<and> fs l = None \<and> fs' = fs(l \<mapsto> Directory)"
proof (cases "l = [] \<or> \<not> is_ok (locate False fs cwd (location_path (butlast l)))")
  case True
  then show ?thesis using assms(2) by (auto simp: fs_make_dir_def is_ok_iff split: sum.splits if_splits)
next
  case False
  then obtain d where d: "l \<noteq> []" "locate False fs cwd (location_path (butlast l)) = Inr d" by (auto simp: is_ok_iff)
  from locate_parent [OF assms(1) d] have "d @ [last l] = l" by blast
  then show ?thesis using assms(2) d by (auto simp: fs_make_dir_def split: if_splits)
qed

lemma link_free_update: "link_free fs l \<Longrightarrow> link_free (fs(k \<mapsto> Directory)) l" "link_free fs l \<Longrightarrow> link_free (fs(k \<mapsto> Regular t)) l"
  by (auto simp: link_free_def)

text \<open>Making the directories of a location adds directories on the way to it, and touches nothing else.\<close>

definition adds_dirs :: "location \<Rightarrow> file_system \<Rightarrow> file_system \<Rightarrow> bool" where
  "adds_dirs l fs fs' \<longleftrightarrow>
     link_free fs' l \<and> (\<forall>p. fs' p \<noteq> fs p \<longrightarrow> prefix p l \<and> p \<noteq> [] \<and> fs p = None \<and> fs' p = Some Directory)"

lemma adds_dirs_trans: "adds_dirs l fs fs1 \<Longrightarrow> adds_dirs l fs1 fs2 \<Longrightarrow> adds_dirs l fs fs2"
  unfolding adds_dirs_def by metis

lemma adds_dirs_refl: "link_free fs l \<Longrightarrow> adds_dirs l fs fs"
  by (simp add: adds_dirs_def)

lemma adds_dirs_make:
  assumes "link_free fs l" "prefix k l" "fs_make_dir cwd k fs = (r, fs')"
  shows "adds_dirs l fs fs'"
proof -
  have "link_free fs k" using assms(1,2) by (rule link_free_prefix)
  then have "fs' = fs \<or> k \<noteq> [] \<and> fs k = None \<and> fs' = fs(k \<mapsto> Directory)"
    using assms(3) by (rule make_dir_link_free)
  then show ?thesis
  proof
    assume new: "k \<noteq> [] \<and> fs k = None \<and> fs' = fs(k \<mapsto> Directory)"
    have "prefix p l \<and> p \<noteq> [] \<and> fs p = None \<and> fs' p = Some Directory" if "fs' p \<noteq> fs p" for p
    proof -
      have "p = k" using that new by (cases "p = k") simp_all
      then show ?thesis using new assms(2) by simp
    qed
    moreover have "link_free fs' l" using new assms(1) by (simp add: link_free_update)
    ultimately show ?thesis unfolding adds_dirs_def by blast
  qed (simp add: adds_dirs_refl assms(1))
qed

lemma create_dir_all_adds: "link_free fs l \<Longrightarrow> prefix k l \<Longrightarrow> create_dir_all cwd k fs = (r, fs') \<Longrightarrow> adds_dirs l fs fs'"
proof (induction cwd k fs arbitrary: r fs' rule: create_dir_all.induct)
  case (1 cwd k fs)
  obtain r1 fs1 where m1: "fs_make_dir cwd k fs = (r1, fs1)" by fastforce
  have a1: "adds_dirs l fs fs1" by (rule adds_dirs_make [OF 1(2,3) m1])
  show ?case
  proof (cases "r1 = Inl IO_NotFound")
    case False
    have "snd (create_dir_all cwd k fs) = fs1"
    proof (cases r1)
      case (Inl e)
      with False show ?thesis using m1 by (cases e) (simp_all add: create_dir_all.simps [of cwd k fs])
    next
      case (Inr u)
      then show ?thesis using m1 by (simp add: create_dir_all.simps [of cwd k fs])
    qed
    then show ?thesis using a1 "1.prems"(3) by simp
  next
    case True
    then have k: "k \<noteq> []" using m1 by (auto simp: fs_make_dir_def)
    obtain r2 fs2 where m2: "create_dir_all cwd (butlast k) fs1 = (r2, fs2)" by fastforce
    obtain r3 fs3 where m3: "fs_make_dir cwd k fs2 = (r3, fs3)" by fastforce
    have "prefix (butlast k) l" using "1.prems"(2) prefixeq_butlast prefix_order.trans by blast
    then have a2: "adds_dirs l fs1 fs2"
      using "1.IH" [OF m1 [symmetric]] True k m2 a1 by (auto simp: adds_dirs_def)
    then have a3: "adds_dirs l fs2 fs3" using adds_dirs_make [OF _ "1.prems"(2) m3] by (simp add: adds_dirs_def)
    have "create_dir_all cwd k fs = (case r2 of Inl e \<Rightarrow> (Inl e, fs2)
        | Inr _ \<Rightarrow> (case r3 of Inr u \<Rightarrow> (Inr u, fs3)
                   | Inl e \<Rightarrow> (if fs_is_dir fs3 cwd (location_path k) then Inr () else Inl e, fs3)))"
      using True k m1 m2 m3 by (cases r2) (simp_all add: create_dir_all.simps [of cwd k fs] split: sum.split)
    then have "fs' = fs2 \<or> fs' = fs3" using "1.prems"(3) by (auto split: sum.splits)
    then show ?thesis using a1 a2 a3 adds_dirs_trans by metis
  qed
qed

end
