(* ===== verification/Environment.thy ===== *)
theory Environment
  imports File_System Run_Dir Sse
begin

text \<open>
  The agent's execution environment on the local machine, \<open>smasher-agent/src/environment/mod.rs\<close>: the confinement
  of paths to the working directory, file operations, searches and commands.  The texts of the operating
  system, directory listings, globbing, regular expressions and the running of a command are parameters.
\<close>

datatype env_error =
    File_Not_Found string
  | Permission_Denied string
  | Command_Failed int string
  | Command_Timeout nat
  | Env_Io string
  | Invalid_Pattern string
  | Path_Traversal string

record grep_options =
  go_recursive :: bool
  go_max_matches :: "nat option"
  go_file_pattern :: "string option"
  go_case_insensitive :: bool

record grep_match =
  gm_file :: string
  gm_line_number :: "32 word"
  gm_line :: string

record exec_options =
  eo_cwd :: "string option"
  eo_timeout_ms :: "nat option"
  eo_env :: "(string \<times> string) list option"

record exec_result =
  er_exit_code :: int
  er_stdout :: string
  er_stderr :: string
  er_duration_ms :: nat

datatype exec_answer =
    Spawn_Failed string
  | Wait_Failed string
  | Exited "int option" string string nat \<comment> \<open>code, standard output and error as bytes, milliseconds\<close>
  | Deadline_Passed

text \<open>The operating system around the process.\<close>

record 'w os =
  os_io_text :: "io_kind \<Rightarrow> string"
  os_display :: "upath \<Rightarrow> string"
  os_cwd :: location
  os_listing :: "file_system \<Rightarrow> location \<Rightarrow> string list" \<comment> \<open>the names in a directory\<close>
  os_glob :: "file_system \<Rightarrow> string \<Rightarrow> string + (string + string) list" \<comment> \<open>the paths that match, or why one cannot be read\<close>
  os_regex :: "string \<Rightarrow> string + (string \<Rightarrow> bool)"
  os_vars :: "(string \<times> string) list"
  os_run :: "string \<Rightarrow> string \<Rightarrow> (string \<Rightarrow> string option) \<Rightarrow> nat option \<Rightarrow> file_system \<times> 'w \<Rightarrow> exec_answer \<times> file_system \<times> 'w"

record environment =
  ev_working_directory :: string
  ev_env_filter :: "string list"

definition environment_new :: "string \<Rightarrow> environment" where
  "environment_new wd =
     \<lparr>ev_working_directory = wd, ev_env_filter = [''AWS_SECRET'', ''API_KEY'', ''TOKEN'', ''PASSWORD'', ''SECRET'']\<rparr>"

definition with_env_filter :: "string list \<Rightarrow> environment \<Rightarrow> environment" where
  "with_env_filter ks env = env\<lparr>ev_env_filter := ks\<rparr>"

section \<open>Paths\<close>

definition resolve_path :: "environment \<Rightarrow> string \<Rightarrow> upath" where
  "resolve_path env path =
     (let p = parse_path path in if up_abs p then p else up_join (parse_path (ev_working_directory env)) p)"

definition location_text :: "location \<Rightarrow> string" where
  "location_text l = ''/'' @ join ''/'' l"

text \<open>Up to the nearest ancestor that is there, with the names left behind.\<close>

function nearest_ancestor :: "file_system \<Rightarrow> location \<Rightarrow> upath \<Rightarrow> string list \<Rightarrow> upath \<times> string list" where
  "nearest_ancestor fs cwd p tail =
     (if path_is_there fs cwd p then (p, tail)
      else
        (case up_file_name p of
           Some x \<Rightarrow> (case up_parent p of Some q \<Rightarrow> nearest_ancestor fs cwd q (x # tail) | None \<Rightarrow> (location_path [], x # tail))
         | None \<Rightarrow> (p, tail)))"
  by pat_completeness auto
termination
  by (relation "measure (\<lambda>(fs, cwd, p, tail). length (up_comps p))") (auto simp: up_parent_def split: if_splits)

declare nearest_ancestor.simps [simp del]

definition canonical_root :: "'w os \<Rightarrow> environment \<Rightarrow> file_system \<Rightarrow> env_error + location" where
  "canonical_root os env fs =
     (case canonicalize fs (os_cwd os) (parse_path (ev_working_directory env)) of
        Inl e \<Rightarrow> Inl (Env_Io (''cannot canonicalize working directory: '' @ os_io_text os e))
      | Inr root \<Rightarrow> Inr root)"

definition canonical_path :: "'w os \<Rightarrow> file_system \<Rightarrow> upath \<Rightarrow> env_error + location" where
  "canonical_path os fs resolved =
     (let (p, tail) = (if path_is_there fs (os_cwd os) resolved then (resolved, [])
                       else nearest_ancestor fs (os_cwd os) resolved [])
      in case canonicalize fs (os_cwd os) p of
           Inl e \<Rightarrow> Inl (Env_Io (os_display os p @ '': '' @ os_io_text os e))
         | Inr base \<Rightarrow> Inr (base @ tail))"

definition validate_path :: "'w os \<Rightarrow> environment \<Rightarrow> string \<Rightarrow> file_system \<Rightarrow> env_error + location" where
  "validate_path os env path fs =
     res_bind (canonical_root os env fs) (\<lambda>root.
       res_bind (canonical_path os fs (resolve_path env path)) (\<lambda>canonical.
         if prefix root canonical then Inr canonical else Inl (Path_Traversal path)))"

definition map_io_error :: "'w os \<Rightarrow> io_kind \<Rightarrow> string \<Rightarrow> env_error" where
  "map_io_error os e path =
     (case e of
        IO_NotFound \<Rightarrow> File_Not_Found path
      | IO_PermissionDenied \<Rightarrow> Permission_Denied path
      | _ \<Rightarrow> Env_Io (path @ '': '' @ os_io_text os e))"

section \<open>Files\<close>

definition env_read_file :: "'w os \<Rightarrow> environment \<Rightarrow> string \<Rightarrow> file_system \<Rightarrow> env_error + string" where
  "env_read_file os env path fs =
     res_bind (validate_path os env path fs) (\<lambda>resolved.
       case fs_read_to_string fs (os_cwd os) (location_path resolved) of
         Inl e \<Rightarrow> Inl (map_io_error os e (location_text resolved))
       | Inr t \<Rightarrow> Inr t)"

definition env_write_file :: "'w os \<Rightarrow> environment \<Rightarrow> string \<Rightarrow> string \<Rightarrow> file_system \<Rightarrow> (env_error + unit) \<times> file_system" where
  "env_write_file os env path content fs =
     (case validate_path os env path fs of
        Inl e \<Rightarrow> (Inl e, fs)
      | Inr resolved \<Rightarrow>
          (case (if resolved = [] then (Inr (), fs) else create_dir_all (os_cwd os) (butlast resolved) fs) of
             (Inl e, fs1) \<Rightarrow> (Inl (map_io_error os e (location_text (butlast resolved))), fs1)
           | (Inr _, fs1) \<Rightarrow>
               (case fs_write_file (os_cwd os) (location_path resolved) content fs1 of
                  (Inl e, fs2) \<Rightarrow> (Inl (map_io_error os e (location_text resolved)), fs2)
                | (Inr _, fs2) \<Rightarrow> (Inr (), fs2))))"

definition env_delete_file :: "'w os \<Rightarrow> environment \<Rightarrow> string \<Rightarrow> file_system \<Rightarrow> (env_error + unit) \<times> file_system" where
  "env_delete_file os env path fs =
     (case validate_path os env path fs of
        Inl e \<Rightarrow> (Inl e, fs)
      | Inr resolved \<Rightarrow>
          (case fs_remove_file (os_cwd os) resolved fs of
             (Inl e, fs1) \<Rightarrow> (Inl (map_io_error os e (location_text resolved)), fs1)
           | (Inr _, fs1) \<Rightarrow> (Inr (), fs1)))"

definition env_path_exists :: "'w os \<Rightarrow> environment \<Rightarrow> string \<Rightarrow> file_system \<Rightarrow> bool" where
  "env_path_exists os env path fs = path_is_there fs (os_cwd os) (resolve_path env path)"

definition env_is_directory :: "'w os \<Rightarrow> environment \<Rightarrow> string \<Rightarrow> file_system \<Rightarrow> bool" where
  "env_is_directory os env path fs = fs_is_dir fs (os_cwd os) (resolve_path env path)"

section \<open>Searches\<close>

fun glob_results :: "(string + string) list \<Rightarrow> env_error + string list" where
  "glob_results [] = Inr []"
| "glob_results (Inr l # es) = map_sum id (\<lambda>ls. l # ls) (glob_results es)"
| "glob_results (Inl m # es) = Inl (Env_Io m)"

definition resolved_pattern :: "'w os \<Rightarrow> environment \<Rightarrow> string \<Rightarrow> file_system \<Rightarrow> env_error + string" where
  "resolved_pattern os env pat fs =
     (if starts_with pat ''/'' then
        res_bind (canonical_root os env fs) (\<lambda>root.
          if starts_with pat (location_text root) then Inr pat else Inl (Path_Traversal pat))
      else Inr (ev_working_directory env @ ''/'' @ pat))"

definition env_glob_files :: "'w os \<Rightarrow> environment \<Rightarrow> string \<Rightarrow> file_system \<Rightarrow> env_error + string list" where
  "env_glob_files os env pat fs =
     (if find_sub ''..'' pat \<noteq> None then Inl (Path_Traversal pat)
      else
        res_bind (resolved_pattern os env pat fs) (\<lambda>full.
          case os_glob os fs full of
            Inl m \<Rightarrow> Inl (Invalid_Pattern m)
          | Inr entries \<Rightarrow> glob_results entries))"

fun file_results :: "file_system \<Rightarrow> location \<Rightarrow> (string + string) list \<Rightarrow> env_error + string list" where
  "file_results fs cwd [] = Inr []"
| "file_results fs cwd (Inr l # es) =
     map_sum id (\<lambda>ls. if fs_is_file fs cwd (parse_path l) then l # ls else ls) (file_results fs cwd es)"
| "file_results fs cwd (Inl m # es) = Inl (Env_Io m)"

definition read_dir :: "'w os \<Rightarrow> file_system \<Rightarrow> location \<Rightarrow> env_error + location list" where
  "read_dir os fs dir =
     (case locate False fs (os_cwd os) (location_path dir) of
        Inl e \<Rightarrow> Inl (Env_Io (os_io_text os e))
      | Inr d \<Rightarrow>
          (if entry_at fs d = Some Directory then Inr (map (\<lambda>x. dir @ [x]) (os_listing os fs d))
           else Inl (Env_Io (os_io_text os IO_NotADirectory))))"

definition walk_dir_shallow :: "'w os \<Rightarrow> file_system \<Rightarrow> location \<Rightarrow> env_error + location list" where
  "walk_dir_shallow os fs dir =
     map_sum id (filter (\<lambda>p. fs_is_file fs (os_cwd os) (location_path p))) (read_dir os fs dir)"

text \<open>The recursion follows links to directories; the first argument bounds its depth.\<close>

fun walk_entries :: "(location \<Rightarrow> (env_error + location list) option) \<Rightarrow> file_system \<Rightarrow> location \<Rightarrow> location list \<Rightarrow> (env_error + location list) option" where
  "walk_entries walk_in fs cwd [] = Some (Inr [])"
| "walk_entries walk_in fs cwd (p # ps) =
     (if fs_is_dir fs cwd (location_path p) then
        (case walk_in p of
           None \<Rightarrow> None
         | Some (Inl e) \<Rightarrow> Some (Inl e)
         | Some (Inr files) \<Rightarrow> map_option (map_sum id (\<lambda>rest. files @ rest)) (walk_entries walk_in fs cwd ps))
      else if fs_is_file fs cwd (location_path p) then map_option (map_sum id (\<lambda>rest. p # rest)) (walk_entries walk_in fs cwd ps)
      else walk_entries walk_in fs cwd ps)"

fun walk_dir_recursive :: "nat \<Rightarrow> 'w os \<Rightarrow> file_system \<Rightarrow> location \<Rightarrow> (env_error + location list) option" where
  "walk_dir_recursive 0 os fs dir = None"
| "walk_dir_recursive (Suc k) os fs dir =
     (case read_dir os fs dir of
        Inl e \<Rightarrow> Some (Inl e)
      | Inr entries \<Rightarrow> walk_entries (walk_dir_recursive k os fs) fs (os_cwd os) entries)"

definition collect_files_for_grep ::
  "nat \<Rightarrow> 'w os \<Rightarrow> location \<Rightarrow> grep_options \<Rightarrow> file_system \<Rightarrow> (env_error + string list) option" where
  "collect_files_for_grep k os search_path opts fs =
     (if fs_is_file fs (os_cwd os) (location_path search_path) then Some (Inr [location_text search_path])
      else
        (case go_file_pattern opts of
           Some file_pattern \<Rightarrow>
             (case os_glob os fs (location_text search_path @ (if go_recursive opts then ''/**/'' else ''/'') @ file_pattern) of
                Inl m \<Rightarrow> Some (Inl (Invalid_Pattern m))
              | Inr entries \<Rightarrow> Some (file_results fs (os_cwd os) entries))
         | None \<Rightarrow>
             map_option (map_sum id (map location_text))
               (if go_recursive opts then walk_dir_recursive k os fs search_path
                else Some (walk_dir_shallow os fs search_path))))"

text \<open>The matching lines of the files, at most the maximum, which is looked at after a match.\<close>

fun grep_lines ::
  "(string \<Rightarrow> bool) \<Rightarrow> nat option \<Rightarrow> string \<Rightarrow> (nat \<times> string) list \<Rightarrow> grep_match list \<Rightarrow> bool \<times> grep_match list" where
  "grep_lines is_match limit l [] found = (False, found)"
| "grep_lines is_match limit l ((idx, line) # lines) found =
     (if is_match line then
        (let found1 = found @ [\<lparr>gm_file = l, gm_line_number = of_nat (idx + 1), gm_line = line\<rparr>] in
         if (case limit of Some m \<Rightarrow> length found1 \<ge> m | None \<Rightarrow> False) then (True, found1)
         else grep_lines is_match limit l lines found1)
      else grep_lines is_match limit l lines found)"

fun grep_files ::
  "file_system \<Rightarrow> location \<Rightarrow> (string \<Rightarrow> bool) \<Rightarrow> nat option \<Rightarrow> string list \<Rightarrow> grep_match list \<Rightarrow> grep_match list" where
  "grep_files fs cwd is_match limit [] found = found"
| "grep_files fs cwd is_match limit (l # ls) found =
     (case fs_read_to_string fs cwd (parse_path l) of
        Inl e \<Rightarrow> grep_files fs cwd is_match limit ls found
      | Inr content \<Rightarrow>
          (case grep_lines is_match limit l (zip [0..<length (str_lines content)] (str_lines content)) found of
             (True, found1) \<Rightarrow> found1
           | (False, found1) \<Rightarrow> grep_files fs cwd is_match limit ls found1))"

definition env_grep ::
  "nat \<Rightarrow> 'w os \<Rightarrow> environment \<Rightarrow> string \<Rightarrow> string \<Rightarrow> grep_options \<Rightarrow> file_system \<Rightarrow> (env_error + grep_match list) option" where
  "env_grep k os env pat path opts fs =
     (case os_regex os (if go_case_insensitive opts then ''(?i)'' @ pat else pat) of
        Inl m \<Rightarrow> Some (Inl (Invalid_Pattern m))
      | Inr is_match \<Rightarrow>
          (case validate_path os env path fs of
             Inl e \<Rightarrow> Some (Inl e)
           | Inr search_path \<Rightarrow>
               map_option (map_sum id (\<lambda>files. grep_files fs (os_cwd os) is_match (go_max_matches opts) files []))
                 (collect_files_for_grep k os search_path opts fs)))"

section \<open>Commands\<close>

definition upper_char :: "char \<Rightarrow> char" where
  "upper_char c = (if 97 \<le> code c \<and> code c \<le> 122 then char_of (code c - 32) else c)"

definition to_upper :: "string \<Rightarrow> string" where
  "to_upper s = map upper_char s"

definition should_filter_env :: "environment \<Rightarrow> string \<Rightarrow> bool" where
  "should_filter_env env key \<longleftrightarrow> list_ex (\<lambda>f. find_sub (to_upper f) (to_upper key) \<noteq> None) (ev_env_filter env)"

definition child_env :: "'w os \<Rightarrow> environment \<Rightarrow> (string \<times> string) list option \<Rightarrow> string \<Rightarrow> string option" where
  "child_env os env extra =
     fold (\<lambda>(k, v) m. m(k \<mapsto> v)) (case extra of Some kvs \<Rightarrow> kvs | None \<Rightarrow> [])
       (fold (\<lambda>(k, v) m. if should_filter_env env k then m else m(k \<mapsto> v)) (os_vars os) Map.empty)"

definition exec_answer_result :: "nat option \<Rightarrow> exec_answer \<Rightarrow> env_error + exec_result" where
  "exec_answer_result timeout_ms a =
     (case a of
        Spawn_Failed m \<Rightarrow> Inl (Env_Io (''failed to spawn command: '' @ m))
      | Wait_Failed m \<Rightarrow> Inl (Env_Io (''failed to wait for command: '' @ m))
      | Exited status out err ms \<Rightarrow>
          Inr \<lparr>er_exit_code = (case status of Some c \<Rightarrow> c | None \<Rightarrow> - 1), er_stdout = from_utf8_lossy out,
            er_stderr = from_utf8_lossy err, er_duration_ms = ms\<rparr>
      | Deadline_Passed \<Rightarrow> Inl (Command_Timeout (case timeout_ms of Some ms \<Rightarrow> ms | None \<Rightarrow> 0)))"

definition env_exec_command ::
  "'w os \<Rightarrow> environment \<Rightarrow> string \<Rightarrow> exec_options \<Rightarrow> file_system \<times> 'w \<Rightarrow> (env_error + exec_result) \<times> file_system \<times> 'w" where
  "env_exec_command os env command opts s =
     (case (case eo_cwd opts of Some d \<Rightarrow> map_sum id (\<lambda>_. ()) (validate_path os env d (fst s)) | None \<Rightarrow> Inr ()) of
        Inl e \<Rightarrow> (Inl e, s)
      | Inr _ \<Rightarrow>
          (let cwd = (case eo_cwd opts of Some d \<Rightarrow> d | None \<Rightarrow> ev_working_directory env);
               (a, s1) = os_run os command cwd (child_env os env (eo_env opts)) (eo_timeout_ms opts) s
           in (exec_answer_result (eo_timeout_ms opts) a, s1)))"

section \<open>Confinement\<close>

lemma validate_path_Inr:
  assumes "validate_path os env path fs = Inr c"
  obtains root where "canonical_root os env fs = Inr root" "canonical_path os fs (resolve_path env path) = Inr c" "prefix root c"
  using assms by (auto simp: validate_path_def res_bind_Inr_iff split: if_splits)

lemma canonical_root_real:
  assumes "canonical_root os env fs = Inr root" "real_dir fs (os_cwd os)"
  shows "arrived False fs root"
  using assms by (auto simp: canonical_root_def canonicalize_def split: sum.splits intro: locate_arrived)

lemma canonical_path_arrived:
  assumes "canonical_path os fs p = Inr c" "path_is_there fs (os_cwd os) p" "real_dir fs (os_cwd os)"
  shows "arrived False fs c"
  using assms by (auto simp: canonical_path_def canonicalize_def split: sum.splits intro: locate_arrived)

text \<open>A path whose canonical form crosses no link: every path that is there, and every path to a new file with no
  link on the way.\<close>

definition direct :: "'w os \<Rightarrow> environment \<Rightarrow> string \<Rightarrow> file_system \<Rightarrow> location \<Rightarrow> bool" where
  "direct os env path fs c \<longleftrightarrow> path_is_there fs (os_cwd os) (resolve_path env path) \<or> link_free fs c"

lemma direct_link_free:
  assumes "validate_path os env path fs = Inr c" "direct os env path fs c" "real_dir fs (os_cwd os)"
  shows "link_free fs c"
  using assms by (auto simp: direct_def elim!: validate_path_Inr intro: arrived_link_free canonical_path_arrived)

text \<open>C23. 
  A read that succeeds through a path that is there, or whose canonical form crosses no link, gives the contents of a
  file below the working directory.
\<close>

theorem env_read_confined:
  assumes "env_read_file os env path fs = Inr t" "real_dir fs (os_cwd os)"
    and "\<And>c. validate_path os env path fs = Inr c \<Longrightarrow> direct os env path fs c"
  shows "\<exists>root rest. canonical_root os env fs = Inr root \<and> fs (root @ rest) = Some (Regular t)"
proof -
  from assms(1) obtain c where c: "validate_path os env path fs = Inr c"
    and read: "(case fs_read_to_string fs (os_cwd os) (location_path c) of
        Inl e \<Rightarrow> Inl (map_io_error os e (location_text c)) | Inr t \<Rightarrow> Inr t) = Inr t"
    unfolding env_read_file_def res_bind_Inr_iff by blast
  from read have "fs_read_to_string fs (os_cwd os) (location_path c) = Inr t" by (auto split: sum.splits)
  then have "fs c = Some (Regular t)"
    using read_link_free [OF direct_link_free [OF c assms(3) [OF c] assms(2)]] by blast
  moreover obtain root where "canonical_root os env fs = Inr root" "prefix root c" using c by (rule validate_path_Inr)
  ultimately show ?thesis by (auto simp: prefix_def)
qed

lemma arrived_strict_prefix: "arrived create fs root \<Longrightarrow> prefix p root \<Longrightarrow> p \<noteq> root \<Longrightarrow> p \<noteq> [] \<Longrightarrow> fs p = Some Directory"
  unfolding arrived_def real_dir_def by (metis prefix_snoc prefix_order.refl)

lemma added_below_root:
  assumes "adds_dirs k fs fs'" "prefix k c" "prefix root c" "arrived False fs root" "fs' p \<noteq> fs p"
  shows "prefix root p"
proof -
  have p: "prefix p c" "p \<noteq> []" "fs p = None"
    using assms(1,2,5) unfolding adds_dirs_def by (blast intro: prefix_order.trans)+
  then consider "prefix root p" | "prefix p root" "p \<noteq> root" using assms(3) prefix_same_cases by blast
  then show ?thesis
  proof cases
    case 2
    then have "fs p = Some Directory" using arrived_strict_prefix [OF assms(4)] p(2) by blast
    with p(3) show ?thesis by simp
  qed
qed

text \<open>C9. A write through a path that is there, or whose canonical form crosses no link, changes nothing outside the working
  directory, and one that succeeds leaves the contents in a file below it.\<close>

theorem env_write_confined:
  assumes "env_write_file os env path t fs = (r, fs')" "real_dir fs (os_cwd os)"
    and "\<And>c. validate_path os env path fs = Inr c \<Longrightarrow> direct os env path fs c"
  shows "(\<forall>l. fs' l \<noteq> fs l \<longrightarrow> (\<exists>root. canonical_root os env fs = Inr root \<and> prefix root l)) \<and>
    (r = Inr () \<longrightarrow> (\<exists>root rest. canonical_root os env fs = Inr root \<and> fs' (root @ rest) = Some (Regular t)))"
proof (cases "validate_path os env path fs")
  case (Inl e)
  then show ?thesis using assms(1) by (auto simp: env_write_file_def)
next
  case (Inr c)
  then obtain root where root: "canonical_root os env fs = Inr root" "prefix root c" by (rule validate_path_Inr)
  have arrived: "arrived False fs root" by (rule canonical_root_real [OF root(1) assms(2)])
  have free: "link_free fs c" by (rule direct_link_free [OF Inr assms(3) [OF Inr] assms(2)])
  obtain r1 fs1 where dirs: "(if c = [] then (Inr (), fs) else create_dir_all (os_cwd os) (butlast c) fs) = (r1, fs1)"
    by fastforce
  have adds: "adds_dirs c fs fs1"
    using dirs free create_dir_all_adds [OF free prefixeq_butlast] by (auto simp: adds_dirs_refl split: if_splits)
  obtain r2 fs2 where wr: "fs_write_file (os_cwd os) (location_path c) t fs1 = (r2, fs2)" by fastforce
  have "link_free fs1 c" using adds by (simp add: adds_dirs_def)
  from write_link_free [OF this wr] have wrote: "\<forall>p. p \<noteq> c \<longrightarrow> fs2 p = fs1 p" "r2 = Inr () \<longrightarrow> fs2 c = Some (Regular t)"
    by blast+
  have "fs' = fs1 \<and> r \<noteq> Inr () \<or> fs' = fs2 \<and> (r = Inr () \<longrightarrow> r2 = Inr ())"
    using assms(1) Inr dirs wr by (auto simp: env_write_file_def split: sum.splits)
  then have changed: "fs' l \<noteq> fs l \<Longrightarrow> prefix root l" and kept: "r = Inr () \<Longrightarrow> fs' c = Some (Regular t)" for l
    using wrote root(2) added_below_root [OF adds prefix_order.refl root(2) arrived] by metis+
  show ?thesis using changed kept root by (auto simp: prefix_def)
qed

section \<open>Ways out\<close>

definition sample_os :: "unit os" where
  "sample_os =
     \<lparr>os_io_text = (\<lambda>_. ''io''), os_display = (\<lambda>_. ''path''), os_cwd = [], os_listing = (\<lambda>_ _. []),
      os_glob = (\<lambda>_ _. Inr []), os_regex = (\<lambda>_. Inr (\<lambda>_. True)), os_vars = [],
      os_run = (\<lambda>_ _ _ _ s. (Exited (Some 0) [] [] 0, s))\<rparr>"

definition sample_fs :: file_system where
  "sample_fs =
     [[''w''] \<mapsto> Directory, [''w'', ''notes''] \<mapsto> Regular ''mine'', [''w'', ''link''] \<mapsto> Symlink (parse_path ''/etc/secret''),
      [''w'', ''new''] \<mapsto> Symlink (parse_path ''/etc/new''), [''etc''] \<mapsto> Directory,
      [''etc'', ''secret''] \<mapsto> Regular ''theirs'']"

text \<open>A link to a file outside is refused by its name and read by its name with a slash.\<close>

lemma trailing_slash_escape:
  "env_read_file sample_os (environment_new ''/w'') ''link'' sample_fs = Inl (Path_Traversal ''link'')"
  "env_read_file sample_os (environment_new ''/w'') ''link/'' sample_fs = Inr ''theirs''"
  by code_simp+

text \<open>A write through a link to nothing makes the file outside that the link names.\<close>

lemma dangling_link_escape:
  "snd (env_write_file sample_os (environment_new ''/w'') ''new'' ''x'' sample_fs) [''etc'', ''new''] = Some (Regular ''x'')"
  by code_simp

text \<open>An absolute pattern is compared with the working directory as a text, so a sibling passes.\<close>

lemma sibling_pattern:
  "resolved_pattern sample_os (environment_new ''/w'') ''/web/*'' sample_fs = Inr ''/web/*''"
  by code_simp

lemma env_read_confined_witness:
  "\<exists>root rest. canonical_root sample_os (environment_new ''/w'') sample_fs = Inr root \<and>
     sample_fs (root @ rest) = Some (Regular ''mine'')"
proof (rule env_read_confined)
  show "env_read_file sample_os (environment_new ''/w'') ''notes'' sample_fs = Inr ''mine''" by code_simp
  show "direct sample_os (environment_new ''/w'') ''notes'' sample_fs c" for c
    unfolding direct_def by (rule disjI1) code_simp
qed (simp add: sample_os_def)

lemma env_write_confined_witness:
  "fst (env_write_file sample_os (environment_new ''/w'') ''notes'' ''x'' sample_fs) = Inr () \<and>
   (\<exists>root rest. canonical_root sample_os (environment_new ''/w'') sample_fs = Inr root \<and>
     snd (env_write_file sample_os (environment_new ''/w'') ''notes'' ''x'' sample_fs) (root @ rest) = Some (Regular ''x''))"
proof -
  have direct: "direct sample_os (environment_new ''/w'') ''notes'' sample_fs c" for c
    unfolding direct_def by (rule disjI1) code_simp
  have "fst (env_write_file sample_os (environment_new ''/w'') ''notes'' ''x'' sample_fs) = Inr ()" by code_simp
  with env_write_confined [OF prod.collapse [symmetric] _ direct] show ?thesis by (simp add: sample_os_def)
qed

end
