(* ===== verification/Agent_Tools.thy ===== *)
theory Agent_Tools
  imports Session Environment
begin

text \<open>
  The six tools every profile shares, \<open>smasher-agent/src/tools/shared.rs\<close>, over an execution environment, and their
  use of the local one.  The JSON parser and the monotonic clock are parameters.
\<close>

section \<open>The environment a tool sees\<close>

record 'w exec_env =
  xe_read_file :: "string \<Rightarrow> 'w \<Rightarrow> (env_error + string) \<times> 'w"
  xe_write_file :: "string \<Rightarrow> string \<Rightarrow> 'w \<Rightarrow> (env_error + unit) \<times> 'w"
  xe_glob_files :: "string \<Rightarrow> 'w \<Rightarrow> (env_error + string list) \<times> 'w"
  xe_grep :: "string \<Rightarrow> string \<Rightarrow> grep_options \<Rightarrow> 'w \<Rightarrow> (env_error + grep_match list) \<times> 'w"
  xe_exec_command :: "string \<Rightarrow> exec_options \<Rightarrow> 'w \<Rightarrow> (env_error + exec_result) \<times> 'w"
  xe_working_directory :: string
  xe_delete_file :: "string \<Rightarrow> 'w \<Rightarrow> (env_error + unit) \<times> 'w"
  xe_path_exists :: "string \<Rightarrow> 'w \<Rightarrow> bool"
  xe_is_directory :: "string \<Rightarrow> 'w \<Rightarrow> bool"

definition on_files :: "('r \<times> file_system) \<Rightarrow> 'w \<Rightarrow> 'r \<times> file_system \<times> 'w" where
  "on_files r w = (fst r, snd r, w)"

text \<open>The local environment; \<open>k\<close> is a depth of directories that suffices for the searches.\<close>

definition local_env :: "nat \<Rightarrow> 'w os \<Rightarrow> environment \<Rightarrow> (file_system \<times> 'w) exec_env" where
  "local_env k os env =
     \<lparr>xe_read_file = (\<lambda>p (fs, w). (env_read_file os env p fs, fs, w)),
      xe_write_file = (\<lambda>p t (fs, w). on_files (env_write_file os env p t fs) w),
      xe_glob_files = (\<lambda>p (fs, w). (env_glob_files os env p fs, fs, w)),
      xe_grep = (\<lambda>pat p opts (fs, w). (the (env_grep k os env pat p opts fs), fs, w)),
      xe_exec_command = env_exec_command os env,
      xe_working_directory = ev_working_directory env,
      xe_delete_file = (\<lambda>p (fs, w). on_files (env_delete_file os env p fs) w),
      xe_path_exists = (\<lambda>p (fs, w). env_path_exists os env p fs),
      xe_is_directory = (\<lambda>p (fs, w). env_is_directory os env p fs)\<rparr>"

definition dec_int :: "int \<Rightarrow> string" where
  "dec_int i = (if i < 0 then ''-'' @ dec (nat (- i)) else dec (nat i))"

fun env_error_text :: "env_error \<Rightarrow> string" where
  "env_error_text (File_Not_Found p) = ''file not found: '' @ p"
| "env_error_text (Permission_Denied p) = ''permission denied: '' @ p"
| "env_error_text (Command_Failed c e) = ''command failed with exit code '' @ dec_int c @ '': '' @ e"
| "env_error_text (Command_Timeout ms) = ''command timed out after '' @ dec ms @ ''ms''"
| "env_error_text (Env_Io m) = ''I/O error: '' @ m"
| "env_error_text (Invalid_Pattern m) = ''invalid pattern: '' @ m"
| "env_error_text (Path_Traversal p) = ''path traversal denied: '' @ p @ '' escapes the working directory''"

section \<open>Arguments\<close>

definition parse_arguments :: "(string \<Rightarrow> string + json) \<Rightarrow> string \<Rightarrow> tool_output + json" where
  "parse_arguments parse_json arguments =
     (case parse_json arguments of
        Inl e \<Rightarrow> Inl (output_error (''Invalid JSON arguments: '' @ e) 0)
      | Inr v \<Rightarrow> Inr v)"

definition required_str :: "json \<Rightarrow> string \<Rightarrow> tool_output + string" where
  "required_str args field =
     (case Option.bind (json_get field args) json_str of
        Some s \<Rightarrow> Inr s
      | None \<Rightarrow> Inl (output_error (''Missing required parameter: '' @ field) 0))"

fun as_u64 :: "json \<Rightarrow> nat option" where
  "as_u64 (JNumber (JPosInt n)) = Some n"
| "as_u64 _ = None"

fun as_bool :: "json \<Rightarrow> bool option" where
  "as_bool (JBool b) = Some b"
| "as_bool _ = None"

text \<open>What every tool does with its arguments before its own work.\<close>

definition with_args ::
  "(string \<Rightarrow> string + json) \<Rightarrow> string \<Rightarrow> (json \<Rightarrow> tool_output + 'a) \<Rightarrow> ('a \<Rightarrow> 'w \<Rightarrow> tool_output \<times> 'w) \<Rightarrow> 'w \<Rightarrow> tool_output \<times> 'w" where
  "with_args parse_json arguments extract body w =
     (case res_bind (parse_arguments parse_json arguments) extract of Inl out \<Rightarrow> (out, w) | Inr a \<Rightarrow> body a w)"

definition elapsed :: "('w \<Rightarrow> nat) \<Rightarrow> 'w \<Rightarrow> 'w \<Rightarrow> nat" where
  "elapsed clock w0 w1 = (clock w1 - clock w0) div 10 ^ 6"

section \<open>The tools\<close>

definition prop_type :: "string \<Rightarrow> json" where
  "prop_type t = JObject [(''type'', JString t)]"

definition described_prop :: "string \<Rightarrow> string \<Rightarrow> json" where
  "described_prop t d = JObject [(''description'', JString d), (''type'', JString t)]"

definition object_schema :: "(string \<times> json) list \<Rightarrow> string list \<Rightarrow> json" where
  "object_schema props req =
     JObject [(''properties'', JObject props), (''required'', JArray (map JString req)), (''type'', JString ''object'')]"

definition pad_left :: "nat \<Rightarrow> string \<Rightarrow> string" where
  "pad_left width s = replicate (width - length s) CHR '' '' @ s"

definition numbered_page :: "nat \<Rightarrow> nat \<Rightarrow> string \<Rightarrow> string" where
  "numbered_page offset limit content =
     (let all_lines = str_lines content;
          total = length all_lines;
          start_idx = min (offset - 1) total;
          end_idx = min (start_idx + limit) total;
          selected = take (end_idx - start_idx) (drop start_idx all_lines);
          max_line_num = (if selected = [] then 1 else start_idx + length selected);
          width = length (dec max_line_num)
      in join [newline]
           (map (\<lambda>(i, line). pad_left width (dec (start_idx + i + 1)) @ '' | '' @ line) (zip [0..<length selected] selected)))"

definition read_file_execute ::
  "(string \<Rightarrow> string + json) \<Rightarrow> ('w \<Rightarrow> nat) \<Rightarrow> 'w exec_env \<Rightarrow> string \<Rightarrow> 'w \<Rightarrow> tool_output \<times> 'w" where
  "read_file_execute parse_json clock env arguments w0 =
     with_args parse_json arguments
       (\<lambda>args. res_bind (required_str args ''path'') (\<lambda>path. Inr (path,
          (case Option.bind (json_get ''offset'' args) as_u64 of Some v \<Rightarrow> max v 1 | None \<Rightarrow> 1),
          (case Option.bind (json_get ''limit'' args) as_u64 of Some v \<Rightarrow> v | None \<Rightarrow> 2000))))
       (\<lambda>(path, offset, limit) w.
          (case xe_read_file env path w of
             (Inr content, w1) \<Rightarrow> (output_success (numbered_page offset limit content) (elapsed clock w0 w1), w1)
           | (Inl e, w1) \<Rightarrow> (output_error (env_error_text e) (elapsed clock w0 w1), w1)))
       w0"

definition read_file_tool :: "(string \<Rightarrow> string + json) \<Rightarrow> ('w \<Rightarrow> nat) \<Rightarrow> 'w exec_env \<Rightarrow> 'w agent_tool" where
  "read_file_tool parse_json clock env =
     \<lparr>at_name = ''read_file'', at_description = ''Read the contents of a file at the given path'',
      at_parameters_schema = object_schema
        [(''limit'', described_prop ''integer'' ''Maximum number of lines to return (default 2000)''),
         (''offset'', described_prop ''integer'' ''1-based line number to start reading from (default 1)''),
         (''path'', described_prop ''string'' ''Path to the file to read'')] [''path''],
      at_execute = read_file_execute parse_json clock env\<rparr>"

definition write_file_execute ::
  "(string \<Rightarrow> string + json) \<Rightarrow> ('w \<Rightarrow> nat) \<Rightarrow> 'w exec_env \<Rightarrow> string \<Rightarrow> 'w \<Rightarrow> tool_output \<times> 'w" where
  "write_file_execute parse_json clock env arguments w0 =
     with_args parse_json arguments
       (\<lambda>args. res_bind (required_str args ''path'') (\<lambda>path. res_bind (required_str args ''content'') (\<lambda>content. Inr (path, content))))
       (\<lambda>(path, content) w.
          (case xe_write_file env path content w of
             (Inr _, w1) \<Rightarrow> (output_success (''Successfully wrote to '' @ path) (elapsed clock w0 w1), w1)
           | (Inl e, w1) \<Rightarrow> (output_error (env_error_text e) (elapsed clock w0 w1), w1)))
       w0"

definition write_file_tool :: "(string \<Rightarrow> string + json) \<Rightarrow> ('w \<Rightarrow> nat) \<Rightarrow> 'w exec_env \<Rightarrow> 'w agent_tool" where
  "write_file_tool parse_json clock env =
     \<lparr>at_name = ''write_file'', at_description = ''Write content to a file, creating directories as needed'',
      at_parameters_schema = object_schema [(''content'', prop_type ''string''), (''path'', prop_type ''string'')]
        [''path'', ''content''],
      at_execute = write_file_execute parse_json clock env\<rparr>"

text \<open>\<open>matches(p).count()\<close>: occurrences from the left that do not overlap; the empty text occurs around every
  character.\<close>

function match_count :: "string \<Rightarrow> string \<Rightarrow> nat" where
  "match_count p s =
     (if p = [] then Suc (char_count s)
      else (case find_sub p s of None \<Rightarrow> 0 | Some i \<Rightarrow> Suc (match_count p (drop (i + length p) s))))"
  by pat_completeness auto
termination
proof (relation "measure (\<lambda>(p, s). length s)")
  fix p s :: string and i
  assume "p \<noteq> []" "find_sub p s = Some i"
  moreover from this have "i + length p \<le> length s" using find_sub_Some by blast
  ultimately show "((p, drop (i + length p) s), (p, s)) \<in> measure (\<lambda>(p, s). length s)" by (cases p) auto
qed simp

declare match_count.simps [simp del]

definition replace_first :: "string \<Rightarrow> string \<Rightarrow> string \<Rightarrow> string" where
  "replace_first p r s = (case find_sub p s of Some i \<Rightarrow> take i s @ r @ drop (i + length p) s | None \<Rightarrow> s)"

definition edit_named :: "('w \<Rightarrow> nat) \<Rightarrow> 'w exec_env \<Rightarrow> 'w \<Rightarrow> string \<times> string \<times> string \<Rightarrow> 'w \<Rightarrow> tool_output \<times> 'w" where
  "edit_named clock env w0 = (\<lambda>(path, old, new) w.
     case xe_read_file env path w of
       (Inl e, w1) \<Rightarrow> (output_error (''Failed to read file: '' @ env_error_text e) (elapsed clock w0 w1), w1)
     | (Inr content, w1) \<Rightarrow>
         (let n = match_count old content in
          if n = 0 then (output_error (''old_string not found in '' @ path) (elapsed clock w0 w1), w1)
          else if n > 1 then
            (output_error (''old_string is ambiguous: found '' @ dec n @ '' occurrences in '' @ path) (elapsed clock w0 w1), w1)
          else
            (case xe_write_file env path (replace_first old new content) w1 of
               (Inr _, w2) \<Rightarrow> (output_success (''Successfully edited '' @ path) (elapsed clock w0 w2), w2)
             | (Inl e, w2) \<Rightarrow> (output_error (''Failed to write file: '' @ env_error_text e) (elapsed clock w0 w2), w2))))"

definition edit_file_execute ::
  "(string \<Rightarrow> string + json) \<Rightarrow> ('w \<Rightarrow> nat) \<Rightarrow> 'w exec_env \<Rightarrow> string \<Rightarrow> 'w \<Rightarrow> tool_output \<times> 'w" where
  "edit_file_execute parse_json clock env arguments w0 =
     with_args parse_json arguments
       (\<lambda>args. res_bind (required_str args ''path'') (\<lambda>path. res_bind (required_str args ''old_string'') (\<lambda>old.
          res_bind (required_str args ''new_string'') (\<lambda>new. Inr (path, old, new)))))
       (edit_named clock env w0) w0"

definition edit_file_tool :: "(string \<Rightarrow> string + json) \<Rightarrow> ('w \<Rightarrow> nat) \<Rightarrow> 'w exec_env \<Rightarrow> 'w agent_tool" where
  "edit_file_tool parse_json clock env =
     \<lparr>at_name = ''edit_file'', at_description = ''Edit a file by replacing an exact string match with new content'',
      at_parameters_schema = object_schema
        [(''new_string'', prop_type ''string''), (''old_string'', prop_type ''string''), (''path'', prop_type ''string'')]
        [''path'', ''old_string'', ''new_string''],
      at_execute = edit_file_execute parse_json clock env\<rparr>"

definition shell_text :: "exec_result \<Rightarrow> string" where
  "shell_text r =
     (let o1 = er_stdout r;
          o2 = (if er_stderr r = [] then o1 else o1 @ (if o1 = [] then [] else [newline]) @ ''STDERR:'' @ [newline] @ er_stderr r);
          o3 = (if er_exit_code r = 0 then o2 else o2 @ (if o2 = [] then [] else [newline]) @ ''Exit code: '' @ dec_int (er_exit_code r))
      in if o3 = [] then ''(no output)'' else o3)"

definition shell_execute ::
  "(string \<Rightarrow> string + json) \<Rightarrow> ('w \<Rightarrow> nat) \<Rightarrow> 'w exec_env \<Rightarrow> string \<Rightarrow> 'w \<Rightarrow> tool_output \<times> 'w" where
  "shell_execute parse_json clock env arguments w0 =
     with_args parse_json arguments
       (\<lambda>args. res_bind (required_str args ''command'') (\<lambda>command.
          Inr (command, Option.bind (json_get ''timeout_ms'' args) as_u64)))
       (\<lambda>(command, timeout_ms) w.
          (case xe_exec_command env command \<lparr>eo_cwd = None, eo_timeout_ms = timeout_ms, eo_env = None\<rparr> w of
             (Inr r, w1) \<Rightarrow>
               ((if er_exit_code r \<noteq> 0 then output_error (shell_text r) (elapsed clock w0 w1)
                 else output_success (shell_text r) (elapsed clock w0 w1)), w1)
           | (Inl e, w1) \<Rightarrow> (output_error (env_error_text e) (elapsed clock w0 w1), w1)))
       w0"

definition shell_tool :: "(string \<Rightarrow> string + json) \<Rightarrow> ('w \<Rightarrow> nat) \<Rightarrow> 'w exec_env \<Rightarrow> 'w agent_tool" where
  "shell_tool parse_json clock env =
     \<lparr>at_name = ''shell'', at_description = ''Execute a shell command and return its output'',
      at_parameters_schema = object_schema
        [(''command'', prop_type ''string''), (''timeout_ms'', described_prop ''integer'' ''Timeout in milliseconds (default 120000)'')]
        [''command''],
      at_execute = shell_execute parse_json clock env\<rparr>"

definition match_text :: "grep_match \<Rightarrow> string" where
  "match_text m = gm_file m @ '':'' @ dec (unat (gm_line_number m)) @ '':'' @ gm_line m"

definition grep_execute ::
  "(string \<Rightarrow> string + json) \<Rightarrow> ('w \<Rightarrow> nat) \<Rightarrow> 'w exec_env \<Rightarrow> string \<Rightarrow> 'w \<Rightarrow> tool_output \<times> 'w" where
  "grep_execute parse_json clock env arguments w0 =
     with_args parse_json arguments
       (\<lambda>args. res_bind (required_str args ''pattern'') (\<lambda>pat. Inr (pat,
          (case Option.bind (json_get ''path'' args) json_str of Some p \<Rightarrow> p | None \<Rightarrow> ''.''),
          \<lparr>go_recursive = True, go_max_matches = None, go_file_pattern = Option.bind (json_get ''file_pattern'' args) json_str,
           go_case_insensitive = (Option.bind (json_get ''case_insensitive'' args) as_bool = Some True)\<rparr>)))
       (\<lambda>(pat, path, opts) w.
          (case xe_grep env pat path opts w of
             (Inr ms, w1) \<Rightarrow>
               (output_success (if ms = [] then ''No matches found'' else join [newline] (map match_text ms)) (elapsed clock w0 w1), w1)
           | (Inl e, w1) \<Rightarrow> (output_error (env_error_text e) (elapsed clock w0 w1), w1)))
       w0"

definition grep_tool :: "(string \<Rightarrow> string + json) \<Rightarrow> ('w \<Rightarrow> nat) \<Rightarrow> 'w exec_env \<Rightarrow> 'w agent_tool" where
  "grep_tool parse_json clock env =
     \<lparr>at_name = ''grep'', at_description = ''Search file contents using a regex pattern'',
      at_parameters_schema = object_schema
        [(''case_insensitive'', prop_type ''boolean''), (''file_pattern'', described_prop ''string'' ''Glob pattern to filter files''),
         (''path'', described_prop ''string'' ''File or directory to search''), (''pattern'', prop_type ''string'')] [''pattern''],
      at_execute = grep_execute parse_json clock env\<rparr>"

definition glob_execute ::
  "(string \<Rightarrow> string + json) \<Rightarrow> ('w \<Rightarrow> nat) \<Rightarrow> 'w exec_env \<Rightarrow> string \<Rightarrow> 'w \<Rightarrow> tool_output \<times> 'w" where
  "glob_execute parse_json clock env arguments w0 =
     with_args parse_json arguments (\<lambda>args. required_str args ''pattern'')
       (\<lambda>pat w.
          (case xe_glob_files env pat w of
             (Inr ps, w1) \<Rightarrow>
               (output_success (if ps = [] then ''No files matched'' else join [newline] ps) (elapsed clock w0 w1), w1)
           | (Inl e, w1) \<Rightarrow> (output_error (env_error_text e) (elapsed clock w0 w1), w1)))
       w0"

definition glob_tool :: "(string \<Rightarrow> string + json) \<Rightarrow> ('w \<Rightarrow> nat) \<Rightarrow> 'w exec_env \<Rightarrow> 'w agent_tool" where
  "glob_tool parse_json clock env =
     \<lparr>at_name = ''glob_files'', at_description = ''Find files matching a glob pattern'',
      at_parameters_schema = object_schema [(''pattern'', described_prop ''string'' ''Glob pattern to match files'')] [''pattern''],
      at_execute = glob_execute parse_json clock env\<rparr>"

definition register_shared_tools ::
  "(string \<Rightarrow> string + json) \<Rightarrow> ('w \<Rightarrow> nat) \<Rightarrow> 'w exec_env \<Rightarrow> 'w tool_registry \<Rightarrow> 'w tool_registry" where
  "register_shared_tools parse_json clock env reg =
     fold register_tool
       [read_file_tool parse_json clock env, write_file_tool parse_json clock env, edit_file_tool parse_json clock env,
        shell_tool parse_json clock env, grep_tool parse_json clock env, glob_tool parse_json clock env] reg"

section \<open>Editing\<close>

lemma find_sub_split:
  assumes "find_sub p s = Some i"
  shows "s = take i s @ p @ drop (i + length p) s"
proof -
  have "starts_with (drop i s) p" using find_sub_Some [OF assms] by blast
  then have "drop i s = p @ drop (length p) (drop i s)"
    unfolding starts_with_def by (metis append_take_drop_id)
  then show ?thesis by (metis add.commute append_take_drop_id drop_drop)
qed

lemma match_once:
  assumes "match_count old s \<noteq> 0"
  shows "\<exists>pre post. s = pre @ old @ post \<and> replace_first old new s = pre @ new @ post"
proof -
  have "find_sub old s \<noteq> None"
  proof (cases "old = []")
    case True
    then show ?thesis by (cases s) (simp_all add: starts_with_def)
  next
    case False
    then show ?thesis using assms by (subst (asm) match_count.simps) (auto split: option.splits)
  qed
  then obtain i where "find_sub old s = Some i" by blast
  then show ?thesis using find_sub_split [of old s i] unfolding replace_first_def by auto
qed

text \<open>Writing to a file that is there changes that file alone.\<close>

lemma no_dirs_added:
  assumes "adds_dirs c fs fs1" "arrived False fs c" "fs c \<noteq> None"
  shows "fs1 = fs"
proof (rule ext, rule ccontr)
  fix p
  assume "fs1 p \<noteq> fs p"
  then have p: "prefix p c" "p \<noteq> []" "fs p = None" using assms(1) unfolding adds_dirs_def by blast+
  with assms(3) have "p \<noteq> c" by blast
  with arrived_strict_prefix [OF assms(2) p(1)] p show False by simp
qed

lemma write_existing:
  assumes "env_read_file os env path fs = Inr t" "direct os env path fs c" "validate_path os env path fs = Inr c"
    and "real_dir fs (os_cwd os)" "env_write_file os env path new fs = (Inr (), fs')" "arrived False fs c"
  shows "fs c = Some (Regular t) \<and> fs' = fs(c \<mapsto> Regular new)"
proof -
  have free: "link_free fs c" by (rule arrived_link_free [OF assms(6)])
  have "fs_read_to_string fs (os_cwd os) (location_path c) = Inr t"
    using assms(1,3) by (auto simp: env_read_file_def split: sum.splits)
  with free have content: "fs c = Some (Regular t)" by (rule read_link_free)
  obtain r1 fs1 where dirs: "(if c = [] then (Inr (), fs) else create_dir_all (os_cwd os) (butlast c) fs) = (r1, fs1)"
    by fastforce
  have "adds_dirs c fs fs1"
    using dirs free create_dir_all_adds [OF free prefixeq_butlast] by (auto simp: adds_dirs_refl split: if_splits)
  then have same: "fs1 = fs" using assms(6) content by (intro no_dirs_added) auto
  obtain r2 fs2 where wr: "fs_write_file (os_cwd os) (location_path c) new fs = (r2, fs2)" by fastforce
  have "r2 = Inr () \<and> fs' = fs2" using assms(3,5) dirs wr same by (auto simp: env_write_file_def split: sum.splits)
  with write_link_free [OF free wr] have "fs' p = (fs(c \<mapsto> Regular new)) p" for p by (cases "p = c") auto
  then show ?thesis using content by blast
qed

lemma read_arrived:
  assumes "env_read_file os env path fs = Inr t" "validate_path os env path fs = Inr c" "link_free fs c"
    and "real_dir fs (os_cwd os)"
  shows "arrived False fs c"
proof -
  have "fs_read_to_string fs (os_cwd os) (location_path c) = Inr t"
    using assms(1,2) by (auto simp: env_read_file_def split: sum.splits)
  then obtain l where l: "locate False fs (os_cwd os) (location_path c) = Inr l"
    by (auto simp: fs_read_to_string_def split: sum.splits)
  then have "l = c" by (rule locate_link_free [OF assms(3)])
  with locate_arrived [OF l assms(4)] show ?thesis by simp
qed

text \<open>C12. 
  An edit that reports success, through a path that is there or whose canonical form crosses no link: it has found
  the old text, once, in a file below the working directory, and has put the new text in its place; nothing else
  has changed.  Through another path, such as the name of a link with a slash behind it, a file outside can be
  edited (\<open>edit_escapes\<close>).
\<close>

theorem edit_file_result:
  assumes "edit_file_execute parse_json clock (local_env k os env) arguments (fs, w) = (out, fs', w')" "\<not> to_is_error out"
    and "real_dir fs (os_cwd os)" "parse_json arguments = Inr args"
    and "\<And>path c. required_str args ''path'' = Inr path \<Longrightarrow> validate_path os env path fs = Inr c \<Longrightarrow> direct os env path fs c"
  shows "\<exists>path old new root rest pre post.
    required_str args ''path'' = Inr path \<and> required_str args ''old_string'' = Inr old \<and> required_str args ''new_string'' = Inr new \<and>
    canonical_root os env fs = Inr root \<and> fs (root @ rest) = Some (Regular (pre @ old @ post)) \<and>
    match_count old (pre @ old @ post) = 1 \<and> fs' = fs(root @ rest \<mapsto> Regular (pre @ new @ post))"
proof -
  obtain path old new where a: "required_str args ''path'' = Inr path" "required_str args ''old_string'' = Inr old"
      "required_str args ''new_string'' = Inr new"
    using assms(1,2,4)
    by (auto simp: edit_file_execute_def with_args_def parse_arguments_def required_str_def output_error_def split: option.splits)
  have run: "edit_named clock (local_env k os env) (fs, w) (path, old, new) (fs, w) = (out, fs', w')"
    using assms(1,4) a by (simp add: edit_file_execute_def with_args_def parse_arguments_def)
  obtain content where content: "env_read_file os env path fs = Inr content"
    using run assms(2) by (auto simp: edit_named_def local_env_def output_error_def split: sum.splits)
  have n: "match_count old content = 1"
    using run assms(2) content by (auto simp: edit_named_def local_env_def output_error_def Let_def split: if_splits sum.splits)
  obtain r fs1 where wr: "env_write_file os env path (replace_first old new content) fs = (r, fs1)" by fastforce
  have fin: "r = Inr ()" "fs' = fs1"
    using run assms(2) content n wr
    by (auto simp: edit_named_def local_env_def on_files_def output_error_def Let_def split: sum.splits)
  obtain c where c: "validate_path os env path fs = Inr c"
    using content by (auto simp: env_read_file_def res_bind_Inr_iff)
  obtain root where root: "canonical_root os env fs = Inr root" "canonical_path os fs (resolve_path env path) = Inr c"
      "prefix root c"
    using c by (rule validate_path_Inr)
  have direct: "direct os env path fs c" by (rule assms(5) [OF a(1) c])
  moreover have "arrived False fs c"
    by (rule read_arrived [OF content c direct_link_free [OF c direct assms(3)] assms(3)])
  ultimately have fil: "fs c = Some (Regular content)" "fs' = fs(c \<mapsto> Regular (replace_first old new content))"
    using write_existing [OF content _ c assms(3)] wr fin by blast+
  obtain pre post where "content = pre @ old @ post" "replace_first old new content = pre @ new @ post"
    using match_once [of old content new] n by auto
  with fil n a root(1,3) show ?thesis by (auto simp: prefix_def)
qed

text \<open>Overlapping occurrences are not told apart: this edit is not called ambiguous.\<close>

lemma overlapping_match: "match_count ''aa'' ''aaa'' = 1 \<and> replace_first ''aa'' ''b'' ''aaa'' = ''ba''"
  by (simp add: match_count.simps replace_first_def starts_with_def)

definition sample_args :: json where
  "sample_args = JObject [(''new_string'', JString ''od''), (''old_string'', JString ''in''), (''path'', JString ''notes'')]"

definition sample_edit :: "tool_output \<times> file_system \<times> unit" where
  "sample_edit =
     edit_file_execute (\<lambda>_. Inr sample_args) (\<lambda>_. 0) (local_env 0 sample_os (environment_new ''/w'')) [] (sample_fs, ())"

text \<open>A link to a file outside, named with a slash behind it, is edited.\<close>

lemma edit_escapes:
  "snd (env_write_file sample_os (environment_new ''/w'') ''link/'' ''x'' sample_fs) [''etc'', ''secret''] = Some (Regular ''x'')"
  by code_simp

lemma edit_file_result_witness:
  "\<exists>root rest pre post. sample_fs (root @ rest) = Some (Regular (pre @ ''in'' @ post)) \<and>
     fst (snd sample_edit) = sample_fs(root @ rest \<mapsto> Regular (pre @ ''od'' @ post))"
proof -
  have ran: "sample_edit = (fst sample_edit, fst (snd sample_edit), ())" by (simp add: prod_eq_iff)
  have fine: "\<not> to_is_error (fst sample_edit)" by code_simp
  have args: "required_str sample_args ''path'' = Inr ''notes''" "required_str sample_args ''old_string'' = Inr ''in''"
    "required_str sample_args ''new_string'' = Inr ''od''" by code_simp+
  have there: "direct sample_os (environment_new ''/w'') path sample_fs c"
    if "required_str sample_args ''path'' = Inr path" for path c
  proof -
    have "path = ''notes''" using that args(1) by simp
    then show ?thesis unfolding direct_def by (simp only:) (rule disjI1, code_simp)
  qed
  show ?thesis
    using edit_file_result [OF ran [unfolded sample_edit_def] fine [unfolded sample_edit_def] _ refl there] args
    unfolding sample_edit_def by (force simp: sample_os_def)
qed

end
