(* ===== verification/Tui.thy ===== *)
theory Tui
  imports Engine_Run Utf8 "HOL-Library.Sublist"
begin

text \<open>
  The terminal interface of a run, \<open>smasher-cli/src/tui.rs\<close>: its model and what messages do to it.  The widgets
  of the \<open>boba\<close> library are an outside state with their operations as parameters, as is the sum of two
  numbers of dollars; drawing is not modelled.
\<close>

section \<open>The model\<close>

datatype node_display = ND_Pending | ND_Running | ND_Completed | ND_Failed

record tui_node =
  tn_id :: string
  tn_label :: string
  tn_status :: node_display

datatype log_kind =
    LK_PipelineStart | LK_PipelineEnd | LK_NodeStart | LK_NodeComplete | LK_NodeFail | LK_EdgeTraversal | LK_AgentTurn
  | LK_ToolCallStart | LK_ToolCallComplete | LK_AgentText | LK_HumanPrompt | LK_HumanResponse | LK_Info

record tui_entry =
  te_timestamp :: nat
  te_node_id :: "string option"
  te_kind :: log_kind
  te_content :: string

datatype panel_focus = PF_Nodes | PF_Logs | PF_Console

datatype tui_status = TS_Starting | TS_Running | TS_Completed | TS_Failed | TS_Aborted

datatype key_code =
    Key_Char string | Key_Enter | Key_Esc | Key_Tab | Key_Backspace | Key_Up | Key_Down | Key_Left | Key_Right | Key_Other

datatype key_modifiers = Mod_None | Mod_Shift | Mod_Control | Mod_Other

record key_event =
  ke_code :: key_code
  ke_modifiers :: key_modifiers

text \<open>The widgets, and what they ask for in return of a message.\<close>

datatype widget_message = WM_Key key_event | WM_Wheel bool | WM_Inner nat

record 'v widgets =
  wg_start :: 'v
  wg_spinner :: "bool \<Rightarrow> 'v \<Rightarrow> 'v" \<comment> \<open>a message; whether it is a tick\<close>
  wg_stopwatch :: "'v \<Rightarrow> 'v"
  wg_stop :: "'v \<Rightarrow> 'v" \<comment> \<open>stop the spinner and the stopwatch\<close>
  wg_log_focus :: "bool \<Rightarrow> 'v \<Rightarrow> 'v"
  wg_console_focus :: "bool \<Rightarrow> 'v \<Rightarrow> 'v"
  wg_log_message :: "widget_message \<Rightarrow> 'v \<Rightarrow> 'v"
  wg_console_message :: "widget_message \<Rightarrow> 'v \<Rightarrow> 'v"
  wg_log_lines :: "tui_entry list \<Rightarrow> 'v \<Rightarrow> 'v" \<comment> \<open>new lines at the old scroll position\<close>
  wg_console_lines :: "tui_entry list \<Rightarrow> 'v \<Rightarrow> 'v"
  wg_frames :: nat
  wg_add :: "f64 \<Rightarrow> f64 \<Rightarrow> f64"

record 'v tui =
  tu_nodes :: "tui_node list"
  tu_node_index :: "string \<Rightarrow> nat option"
  tu_selected_node :: nat
  tu_log_entries :: "tui_entry list"
  tu_console_entries :: "tui_entry list"
  tu_pipeline_name :: string
  tu_run_id :: string
  tu_status :: tui_status
  tu_done :: bool
  tu_spinner_frame_idx :: nat
  tu_focus :: panel_focus
  tu_node_scroll_offset :: nat
  tu_node_panel_height :: nat
  tu_finished_node_count :: nat
  tu_total_input_tokens :: "64 word" \<comment> \<open>the release build wraps\<close>
  tu_total_output_tokens :: "64 word"
  tu_total_cost_usd :: f64
  tu_files_touched :: "string set"
  tu_pending_human_question :: "string option"
  tu_human_input_buffer :: string
  tu_has_response_tx :: bool
  tu_sent :: "string list" \<comment> \<open>what went over the channel of answers\<close>
  tu_widgets :: 'v

datatype tui_message =
    Msg_PipelineEvent pipeline_event
  | Msg_KeyPress key_event
  | Msg_Resize nat nat
  | Msg_Spinner bool
  | Msg_Stopwatch
  | Msg_Viewport widget_message
  | Msg_ConsoleViewport widget_message
  | Msg_MouseScroll bool
  | Msg_HumanPromptRequest string
  | Msg_PipelineDone
  | Msg_Quit

datatype tui_command = Cmd_None | Cmd_Quit | Cmd_Quit_After nat | Cmd_Widget

record tui_flags =
  tf_graph :: graph
  tf_run_id :: string
  tf_pipeline_name :: string
  tf_completed_node_ids :: "string list"
  tf_has_response_tx :: bool

section \<open>Setting up\<close>

definition index_nodes :: "tui_node list \<Rightarrow> string \<Rightarrow> nat option" where
  "index_nodes ns = fold (\<lambda>(i, n) m. m(tn_id n \<mapsto> i)) (zip [0..<length ns] ns) Map.empty"

definition set_node_status :: "nat \<Rightarrow> node_display \<Rightarrow> 'v tui \<Rightarrow> 'v tui" where
  "set_node_status i s t = t\<lparr>tu_nodes := (tu_nodes t)[i := (tu_nodes t ! i)\<lparr>tn_status := s\<rparr>]\<rparr>"

definition count_finished :: "'v tui \<Rightarrow> 'v tui" where
  "count_finished t = t\<lparr>tu_finished_node_count := tu_finished_node_count t + 1\<rparr>"

definition mark_resumed :: "string \<Rightarrow> 'v tui \<Rightarrow> 'v tui" where
  "mark_resumed node_id t =
     (case tu_node_index t node_id of
        Some i \<Rightarrow> count_finished (set_node_status i ND_Completed t)
      | None \<Rightarrow> t)"

definition tui_init :: "'v widgets \<Rightarrow> tui_flags \<Rightarrow> 'v tui \<times> tui_command" where
  "tui_init wg flags =
     (let nodes = map (\<lambda>n. \<lparr>tn_id = gn_id n, tn_label = (case gn_label n of Some l \<Rightarrow> l | None \<Rightarrow> gn_id n), tn_status = ND_Pending\<rparr>)
            (g_nodes (tf_graph flags));
          model = \<lparr>tu_nodes = nodes, tu_node_index = index_nodes nodes, tu_selected_node = 0, tu_log_entries = [],
            tu_console_entries = [], tu_pipeline_name = tf_pipeline_name flags, tu_run_id = tf_run_id flags,
            tu_status = TS_Starting, tu_done = False, tu_spinner_frame_idx = 0, tu_focus = PF_Nodes,
            tu_node_scroll_offset = 0, tu_node_panel_height = 20, tu_finished_node_count = 0, tu_total_input_tokens = 0,
            tu_total_output_tokens = 0, tu_total_cost_usd = F_Fin False 0 0, tu_files_touched = {},
            tu_pending_human_question = None, tu_human_input_buffer = [], tu_has_response_tx = tf_has_response_tx flags,
            tu_sent = [], tu_widgets = wg_start wg\<rparr>
      in (fold mark_resumed (tf_completed_node_ids flags) model, Cmd_None))"

section \<open>The panels\<close>

text \<open>The log panel shows the entries of the selected node and those of no node.\<close>

definition shown_entries :: "'v tui \<Rightarrow> tui_entry list" where
  "shown_entries t =
     (if tu_selected_node t < length (tu_nodes t)
      then filter (\<lambda>e. te_node_id e = None \<or> te_node_id e = Some (tn_id (tu_nodes t ! tu_selected_node t))) (tu_log_entries t)
      else tu_log_entries t)"

definition on_widgets :: "('v \<Rightarrow> 'v) \<Rightarrow> 'v tui \<Rightarrow> 'v tui" where
  "on_widgets f t = t\<lparr>tu_widgets := f (tu_widgets t)\<rparr>"

definition refresh_viewport :: "'v widgets \<Rightarrow> 'v tui \<Rightarrow> 'v tui" where
  "refresh_viewport wg t = on_widgets (wg_log_lines wg (shown_entries t)) t"

definition refresh_console_viewport :: "'v widgets \<Rightarrow> 'v tui \<Rightarrow> 'v tui" where
  "refresh_console_viewport wg t = on_widgets (wg_console_lines wg (tu_console_entries t)) t"

definition push_both :: "'v widgets \<Rightarrow> tui_entry \<Rightarrow> 'v tui \<Rightarrow> 'v tui" where
  "push_both wg e t =
     refresh_console_viewport wg (refresh_viewport wg
       (t\<lparr>tu_console_entries := tu_console_entries t @ [e], tu_log_entries := tu_log_entries t @ [e]\<rparr>))"

definition scroll_nodes_to_selected :: "'v tui \<Rightarrow> 'v tui" where
  "scroll_nodes_to_selected t =
     (let h = tu_node_panel_height t; sel = tu_selected_node t; off = tu_node_scroll_offset t in
      if h = 0 then t
      else if sel < off then t\<lparr>tu_node_scroll_offset := sel\<rparr>
      else if sel \<ge> off + h then t\<lparr>tu_node_scroll_offset := sel - h + 1\<rparr>
      else t)"

definition select_node :: "nat \<Rightarrow> 'v tui \<Rightarrow> 'v tui" where
  "select_node i t = scroll_nodes_to_selected (t\<lparr>tu_selected_node := i\<rparr>)"

definition toggle_focus :: "'v widgets \<Rightarrow> 'v tui \<Rightarrow> 'v tui" where
  "toggle_focus wg t =
     (case tu_focus t of
        PF_Nodes \<Rightarrow> on_widgets (wg_log_focus wg True) (t\<lparr>tu_focus := PF_Logs\<rparr>)
      | PF_Logs \<Rightarrow> on_widgets (wg_console_focus wg True \<circ> wg_log_focus wg False) (t\<lparr>tu_focus := PF_Console\<rparr>)
      | PF_Console \<Rightarrow> on_widgets (wg_console_focus wg False) (t\<lparr>tu_focus := PF_Nodes\<rparr>))"

section \<open>Events\<close>

definition shorten :: "nat \<Rightarrow> string \<Rightarrow> string" where
  "shorten n s = (if char_count s > n then take_chars n s @ [CHR 0xE2, CHR 0x80, CHR 0xA6] else s)"

definition quoted :: "string \<Rightarrow> string" where
  "quoted s = [CHR 0x27] @ s @ [CHR 0x27]"

definition tool_started_text :: "string \<Rightarrow> string \<Rightarrow> string" where
  "tool_started_text tool_name preview =
     (if preview = [] then ''  [tool] '' @ tool_name @ ''...'' else ''  [tool] '' @ tool_name @ '' '' @ preview @ ''...'')"

definition tool_completed_text :: "string \<Rightarrow> nat \<Rightarrow> bool \<Rightarrow> string \<Rightarrow> string" where
  "tool_completed_text tool_name ms is_error preview =
     (if is_error \<and> preview \<noteq> [] then
        ''  [tool] '' @ tool_name @ '' ERR ('' @ dec ms @ ''ms) '' @ [CHR 0x22] @ shorten 60 preview @ [CHR 0x22]
      else ''  [tool] '' @ tool_name @ '' '' @ (if is_error then ''ERR'' else ''ok'') @ '' ('' @ dec ms @ ''ms)'')"

definition tui_entry :: "nat \<Rightarrow> string option \<Rightarrow> log_kind \<Rightarrow> string \<Rightarrow> tui_entry" where
  "tui_entry t n k c = \<lparr>te_timestamp = t, te_node_id = n, te_kind = k, te_content = c\<rparr>"

text \<open>The entry an event leaves in the log and in the console; token counts, context updates and checkpoints leave
  none.\<close>

fun entry_of :: "pipeline_event \<Rightarrow> tui_entry option" where
  "entry_of (PipelineStarted name t) = Some (tui_entry t None LK_PipelineStart (''Pipeline started: '' @ name))"
| "entry_of (PipelineCompleted out nodes ms t) =
     Some (tui_entry t None LK_PipelineEnd (''Pipeline completed ('' @ dec ms @ ''ms)''))"
| "entry_of (PipelineAborted reason t) = Some (tui_entry t None LK_PipelineEnd (''Pipeline aborted: '' @ reason))"
| "entry_of (NodeStarted n ty t) = Some (tui_entry t (Some n) LK_NodeStart (''Node '' @ quoted n @ '' started''))"
| "entry_of (NodeCompleted n out ms t) =
     Some (tui_entry t (Some n) LK_NodeComplete (''Node '' @ quoted n @ '' completed ('' @ dec ms @ ''ms)''))"
| "entry_of (NodeFailed n e ms t) = Some (tui_entry t (Some n) LK_NodeFail (''Node '' @ quoted n @ '' failed: '' @ e))"
| "entry_of (EdgeTraversed from to label t) = Some (tui_entry t None LK_EdgeTraversal (from @ '' -> '' @ to))"
| "entry_of (AgentTurnStarted n turn t) = Some (tui_entry t (Some n) LK_AgentTurn (''Turn '' @ dec (unat turn)))"
| "entry_of (AgentToolCallStarted n tool i preview t) =
     Some (tui_entry t (Some n) LK_ToolCallStart (tool_started_text tool preview))"
| "entry_of (AgentToolCallCompleted n tool i ms is_error preview t) =
     Some (tui_entry t (Some n) LK_ToolCallComplete (tool_completed_text tool ms is_error preview))"
| "entry_of (AgentTokenUsage n i out cost t) = None"
| "entry_of (AgentMessage n txt t) = Some (tui_entry t (Some n) LK_AgentText (''  [text] '' @ shorten 120 txt))"
| "entry_of (HumanPromptIssued n q t) = Some (tui_entry t (Some n) LK_HumanPrompt (''  [?] '' @ q))"
| "entry_of (HumanResponseReceived n r t) = Some (tui_entry t (Some n) LK_HumanResponse (''  [>] '' @ r))"
| "entry_of (LoopRestarted from to k t) =
     Some (tui_entry t None LK_EdgeTraversal (''Loop restarted: '' @ from @ '' -> '' @ to @ '' (attempt '' @ dec k @ '')''))"
| "entry_of (ContextUpdated k t) = None"
| "entry_of (CheckpointCreated n t) = None"

definition push_event :: "'v widgets \<Rightarrow> pipeline_event \<Rightarrow> 'v tui \<Rightarrow> 'v tui" where
  "push_event wg e t = (case entry_of e of Some entry \<Rightarrow> push_both wg entry t | None \<Rightarrow> t)"

definition finish :: "'v widgets \<Rightarrow> tui_status \<Rightarrow> 'v tui \<Rightarrow> 'v tui" where
  "finish wg s t = on_widgets (wg_stop wg) (t\<lparr>tu_status := s, tu_done := True\<rparr>)"

definition node_started :: "string \<Rightarrow> 'v tui \<Rightarrow> 'v tui" where
  "node_started n t =
     (case tu_node_index t n of Some i \<Rightarrow> select_node i (set_node_status i ND_Running t) | None \<Rightarrow> t)"

definition node_completed :: "string \<Rightarrow> 'v tui \<Rightarrow> 'v tui" where
  "node_completed n t =
     (case tu_node_index t n of
        Some i \<Rightarrow>
          set_node_status i ND_Completed (if tn_status (tu_nodes t ! i) \<noteq> ND_Completed then count_finished t else t)
      | None \<Rightarrow> t)"

definition running_position :: "tui_node list \<Rightarrow> nat option" where
  "running_position ns = List.find (\<lambda>i. tn_status (ns ! i) = ND_Running) [0..<length ns]"

definition select_running :: "'v tui \<Rightarrow> 'v tui" where
  "select_running t = (case running_position (tu_nodes t) of Some i \<Rightarrow> select_node i t | None \<Rightarrow> t)"

definition node_failed :: "string \<Rightarrow> 'v tui \<Rightarrow> 'v tui" where
  "node_failed n t =
     (case tu_node_index t n of
        Some i \<Rightarrow>
          set_node_status i ND_Failed
            (if tn_status (tu_nodes t ! i) \<noteq> ND_Completed \<and> tn_status (tu_nodes t ! i) \<noteq> ND_Failed then count_finished t else t)
      | None \<Rightarrow> t)"

definition touch_file :: "string \<Rightarrow> string \<Rightarrow> 'v tui \<Rightarrow> 'v tui" where
  "touch_file tool preview t =
     (if tool \<in> {''Write'', ''write_file'', ''Edit'', ''edit_file''} \<and> preview \<noteq> []
      then t\<lparr>tu_files_touched := insert preview (tu_files_touched t)\<rparr> else t)"

definition add_tokens :: "'v widgets \<Rightarrow> nat \<Rightarrow> nat \<Rightarrow> f64 \<Rightarrow> 'v tui \<Rightarrow> 'v tui" where
  "add_tokens wg i out cost t =
     (let t1 = t\<lparr>tu_total_input_tokens := tu_total_input_tokens t + of_nat i,
            tu_total_output_tokens := tu_total_output_tokens t + of_nat out\<rparr>
      in if f64_lt (F_Fin False 0 0) cost then t1\<lparr>tu_total_cost_usd := wg_add wg (tu_total_cost_usd t1) cost\<rparr> else t1)"

fun handle_pipeline_event :: "'v widgets \<Rightarrow> pipeline_event \<Rightarrow> 'v tui \<Rightarrow> 'v tui \<times> tui_command" where
  "handle_pipeline_event wg (PipelineStarted name ts) t =
     (push_event wg (PipelineStarted name ts) (t\<lparr>tu_status := TS_Running\<rparr>), Cmd_None)"
| "handle_pipeline_event wg (PipelineCompleted out nodes ms ts) t =
     (push_event wg (PipelineCompleted out nodes ms ts)
        (finish wg (if tu_status t \<noteq> TS_Failed then TS_Completed else tu_status t) t), Cmd_Quit_After 2)"
| "handle_pipeline_event wg (PipelineAborted reason ts) t =
     (push_event wg (PipelineAborted reason ts) (finish wg TS_Aborted t), Cmd_Quit_After 1)"
| "handle_pipeline_event wg (NodeStarted n ty ts) t = (push_event wg (NodeStarted n ty ts) (node_started n t), Cmd_None)"
| "handle_pipeline_event wg (NodeCompleted n out ms ts) t =
     (select_running (push_event wg (NodeCompleted n out ms ts) (node_completed n t)), Cmd_None)"
| "handle_pipeline_event wg (NodeFailed n err ms ts) t =
     (push_event wg (NodeFailed n err ms ts) ((node_failed n t)\<lparr>tu_status := TS_Failed\<rparr>), Cmd_None)"
| "handle_pipeline_event wg (AgentToolCallStarted n tool i preview ts) t =
     (push_event wg (AgentToolCallStarted n tool i preview ts) (touch_file tool preview t), Cmd_None)"
| "handle_pipeline_event wg (AgentTokenUsage n i out cost ts) t = (add_tokens wg i out cost t, Cmd_None)"
| "handle_pipeline_event wg e t = (push_event wg e t, Cmd_None)"

section \<open>Keys\<close>

definition send_response :: "string \<Rightarrow> 'v tui \<Rightarrow> 'v tui" where
  "send_response r t =
     (let t1 = t\<lparr>tu_pending_human_question := None, tu_human_input_buffer := []\<rparr>
      in if tu_has_response_tx t1 then t1\<lparr>tu_sent := tu_sent t1 @ [r]\<rparr> else t1)"

definition handle_human_input_key :: "key_event \<Rightarrow> 'v tui \<Rightarrow> 'v tui \<times> tui_command" where
  "handle_human_input_key key t =
     (if ke_code key = Key_Char ''c'' \<and> ke_modifiers key = Mod_Control then (t, Cmd_Quit)
      else
        (case ke_code key of
           Key_Enter \<Rightarrow> (send_response (tu_human_input_buffer t) t, Cmd_None)
         | Key_Esc \<Rightarrow> (send_response [] t, Cmd_None)
         | Key_Backspace \<Rightarrow> (t\<lparr>tu_human_input_buffer := take_chars (char_count (tu_human_input_buffer t) - 1) (tu_human_input_buffer t)\<rparr>, Cmd_None)
         | Key_Char c \<Rightarrow>
             (if ke_modifiers key = Mod_None \<or> ke_modifiers key = Mod_Shift
              then (t\<lparr>tu_human_input_buffer := tu_human_input_buffer t @ c\<rparr>, Cmd_None) else (t, Cmd_None))
         | _ \<Rightarrow> (t, Cmd_None)))"

definition select_down :: "'v tui \<Rightarrow> 'v tui" where
  "select_down t = (if tu_selected_node t + 1 < length (tu_nodes t) then t\<lparr>tu_selected_node := tu_selected_node t + 1\<rparr> else t)"

definition node_key :: "'v widgets \<Rightarrow> key_code \<Rightarrow> 'v tui \<Rightarrow> 'v tui" where
  "node_key wg kc t =
     (if kc = Key_Char ''j'' \<or> kc = Key_Down then
        (if tu_selected_node t + 1 < length (tu_nodes t)
         then refresh_viewport wg (select_node (tu_selected_node t + 1) t) else t)
      else if kc = Key_Char ''k'' \<or> kc = Key_Up then refresh_viewport wg (select_node (tu_selected_node t - 1) t)
      else if kc = Key_Char ''G'' then
        (if tu_nodes t \<noteq> [] then refresh_viewport wg (select_node (length (tu_nodes t) - 1) t) else t)
      else if kc = Key_Char ''g'' then refresh_viewport wg (select_node 0 t)
      else if kc = Key_Char ''l'' \<or> kc = Key_Right then on_widgets (wg_log_focus wg True) (t\<lparr>tu_focus := PF_Logs\<rparr>)
      else t)"

definition is_left :: "key_code \<Rightarrow> bool" where
  "is_left kc \<longleftrightarrow> kc = Key_Char ''h'' \<or> kc = Key_Left"

definition handle_key :: "'v widgets \<Rightarrow> key_event \<Rightarrow> 'v tui \<Rightarrow> 'v tui \<times> tui_command" where
  "handle_key wg key t =
     (if tu_pending_human_question t \<noteq> None then handle_human_input_key key t
      else if ke_code key = Key_Char ''q'' \<and> ke_modifiers key = Mod_None then (t, Cmd_Quit)
      else if ke_code key = Key_Esc then (t, Cmd_Quit)
      else if ke_code key = Key_Tab then (toggle_focus wg t, Cmd_None)
      else
        (case tu_focus t of
           PF_Nodes \<Rightarrow> (node_key wg (ke_code key) t, Cmd_None)
         | PF_Logs \<Rightarrow>
             (if is_left (ke_code key) then (on_widgets (wg_log_focus wg False) (t\<lparr>tu_focus := PF_Nodes\<rparr>), Cmd_None)
              else (on_widgets (wg_log_message wg (WM_Key key)) t, Cmd_Widget))
         | PF_Console \<Rightarrow>
             (if is_left (ke_code key) then (on_widgets (wg_console_focus wg False) (t\<lparr>tu_focus := PF_Nodes\<rparr>), Cmd_None)
              else (on_widgets (wg_console_message wg (WM_Key key)) t, Cmd_Widget))))"

definition mouse_scroll :: "'v widgets \<Rightarrow> bool \<Rightarrow> 'v tui \<Rightarrow> 'v tui \<times> tui_command" where
  "mouse_scroll wg up t =
     (case tu_focus t of
        PF_Nodes \<Rightarrow>
          (refresh_viewport wg (scroll_nodes_to_selected
             (if up then t\<lparr>tu_selected_node := tu_selected_node t - 1\<rparr> else select_down t)), Cmd_None)
      | PF_Console \<Rightarrow> (on_widgets (wg_console_message wg (WM_Wheel up)) t, Cmd_Widget)
      | PF_Logs \<Rightarrow> (on_widgets (wg_log_message wg (WM_Wheel up)) t, Cmd_Widget))"

fun tui_update :: "'v widgets \<Rightarrow> tui_message \<Rightarrow> 'v tui \<Rightarrow> 'v tui \<times> tui_command" where
  "tui_update wg (Msg_PipelineEvent e) t = handle_pipeline_event wg e t"
| "tui_update wg (Msg_KeyPress key) t = handle_key wg key t"
| "tui_update wg (Msg_Resize w h) t = (t, Cmd_None)"
| "tui_update wg (Msg_Spinner tick) t =
     (on_widgets (wg_spinner wg tick)
        (if tick then t\<lparr>tu_spinner_frame_idx := (tu_spinner_frame_idx t + 1) mod wg_frames wg\<rparr> else t), Cmd_Widget)"
| "tui_update wg Msg_Stopwatch t = (on_widgets (wg_stopwatch wg) t, Cmd_Widget)"
| "tui_update wg (Msg_Viewport m) t = (on_widgets (wg_log_message wg m) t, Cmd_Widget)"
| "tui_update wg (Msg_ConsoleViewport m) t = (on_widgets (wg_console_message wg m) t, Cmd_Widget)"
| "tui_update wg (Msg_MouseScroll up) t = mouse_scroll wg up t"
| "tui_update wg (Msg_HumanPromptRequest q) t =
     (t\<lparr>tu_pending_human_question := Some q, tu_human_input_buffer := []\<rparr>, Cmd_None)"
| "tui_update wg Msg_PipelineDone t = (t, Cmd_Quit)"
| "tui_update wg Msg_Quit t = (t, Cmd_Quit)"

section \<open>What the interface shows\<close>

text \<open>Widgets and panels do not touch the rest.\<close>

lemma on_widgets_simps [simp]:
  "tu_nodes (on_widgets f t) = tu_nodes t" "tu_node_index (on_widgets f t) = tu_node_index t"
  "tu_selected_node (on_widgets f t) = tu_selected_node t" "tu_log_entries (on_widgets f t) = tu_log_entries t"
  "tu_console_entries (on_widgets f t) = tu_console_entries t" "tu_status (on_widgets f t) = tu_status t"
  "tu_done (on_widgets f t) = tu_done t" "tu_finished_node_count (on_widgets f t) = tu_finished_node_count t"
  "tu_node_panel_height (on_widgets f t) = tu_node_panel_height t"
  "tu_total_input_tokens (on_widgets f t) = tu_total_input_tokens t"
  "tu_total_output_tokens (on_widgets f t) = tu_total_output_tokens t"
  "tu_pending_human_question (on_widgets f t) = tu_pending_human_question t" "tu_sent (on_widgets f t) = tu_sent t"
  by (simp_all add: on_widgets_def)

lemma scroll_simps [simp]:
  "tu_nodes (scroll_nodes_to_selected t) = tu_nodes t" "tu_node_index (scroll_nodes_to_selected t) = tu_node_index t"
  "tu_selected_node (scroll_nodes_to_selected t) = tu_selected_node t"
  "tu_log_entries (scroll_nodes_to_selected t) = tu_log_entries t"
  "tu_console_entries (scroll_nodes_to_selected t) = tu_console_entries t"
  "tu_status (scroll_nodes_to_selected t) = tu_status t" "tu_done (scroll_nodes_to_selected t) = tu_done t"
  "tu_finished_node_count (scroll_nodes_to_selected t) = tu_finished_node_count t"
  "tu_total_input_tokens (scroll_nodes_to_selected t) = tu_total_input_tokens t"
  "tu_total_output_tokens (scroll_nodes_to_selected t) = tu_total_output_tokens t"
  by (simp_all add: scroll_nodes_to_selected_def Let_def)

lemma push_event_simps [simp]:
  "tu_nodes (push_event wg e t) = tu_nodes t" "tu_node_index (push_event wg e t) = tu_node_index t"
  "tu_selected_node (push_event wg e t) = tu_selected_node t"
  "tu_log_entries (push_event wg e t) = tu_log_entries t @ (case entry_of e of Some x \<Rightarrow> [x] | None \<Rightarrow> [])"
  "tu_console_entries (push_event wg e t) = tu_console_entries t @ (case entry_of e of Some x \<Rightarrow> [x] | None \<Rightarrow> [])"
  "tu_status (push_event wg e t) = tu_status t" "tu_done (push_event wg e t) = tu_done t"
  "tu_finished_node_count (push_event wg e t) = tu_finished_node_count t"
  "tu_total_input_tokens (push_event wg e t) = tu_total_input_tokens t"
  "tu_total_output_tokens (push_event wg e t) = tu_total_output_tokens t"
  by (simp_all add: push_event_def push_both_def refresh_viewport_def refresh_console_viewport_def split: option.split)

lemmas tui_node_defs = node_started_def node_completed_def node_failed_def select_running_def select_node_def
  set_node_status_def count_finished_def touch_file_def add_tokens_def finish_def

text \<open>The statuses an event gives: of the run, of a node, and whether the run is over.\<close>

fun run_status_after :: "pipeline_event \<Rightarrow> tui_status \<Rightarrow> tui_status" where
  "run_status_after (PipelineStarted name ts) s = TS_Running"
| "run_status_after (PipelineCompleted out nodes ms ts) s = (if s \<noteq> TS_Failed then TS_Completed else s)"
| "run_status_after (PipelineAborted reason ts) s = TS_Aborted"
| "run_status_after (NodeFailed n err ms ts) s = TS_Failed"
| "run_status_after e s = s"

fun node_status_after :: "pipeline_event \<Rightarrow> string \<Rightarrow> node_display \<Rightarrow> node_display" where
  "node_status_after (NodeStarted m ty ts) n s = (if m = n then ND_Running else s)"
| "node_status_after (NodeCompleted m out ms ts) n s = (if m = n then ND_Completed else s)"
| "node_status_after (NodeFailed m err ms ts) n s = (if m = n then ND_Failed else s)"
| "node_status_after e n s = s"

fun ends_run :: "pipeline_event \<Rightarrow> bool" where
  "ends_run (PipelineCompleted out nodes ms ts) = True"
| "ends_run (PipelineAborted reason ts) = True"
| "ends_run e = False"

fun tokens_of :: "pipeline_event \<Rightarrow> nat \<times> nat" where
  "tokens_of (AgentTokenUsage n i out cost ts) = (i, out)"
| "tokens_of e = (0, 0)"

definition indexed :: "'v tui \<Rightarrow> bool" where
  "indexed t \<longleftrightarrow> distinct (map tn_id (tu_nodes t)) \<and>
     (\<forall>n i. tu_node_index t n = Some i \<longleftrightarrow> i < length (tu_nodes t) \<and> tn_id (tu_nodes t ! i) = n)"

definition shown_status :: "'v tui \<Rightarrow> string \<Rightarrow> node_display option" where
  "shown_status t n = map_option (\<lambda>i. tn_status (tu_nodes t ! i)) (tu_node_index t n)"

text \<open>Everything of the model that a log determines.\<close>

definition same_frame :: "'v tui \<Rightarrow> 'v tui \<Rightarrow> bool" where
  "same_frame t t' \<longleftrightarrow> tu_node_index t' = tu_node_index t \<and> map tn_id (tu_nodes t') = map tn_id (tu_nodes t)"

lemma same_frame_length: "same_frame t t' \<Longrightarrow> length (tu_nodes t') = length (tu_nodes t)"
  unfolding same_frame_def by (metis length_map)

lemma same_frame_trans: "same_frame t t' \<Longrightarrow> same_frame t' t'' \<Longrightarrow> same_frame t t''"
  by (simp add: same_frame_def)

lemma same_frame_indexed:
  assumes f: "same_frame t t'" and i: "indexed t"
  shows "indexed t'"
proof -
  note len = same_frame_length [OF f]
  have "tn_id (tu_nodes t' ! i) = tn_id (tu_nodes t ! i)" if "i < length (tu_nodes t)" for i
    using f that len unfolding same_frame_def by (metis nth_map)
  with f i len show ?thesis by (auto simp: indexed_def same_frame_def)
qed

lemma set_node_status_simps [simp]:
  "tu_node_index (set_node_status i s t) = tu_node_index t" "tu_log_entries (set_node_status i s t) = tu_log_entries t"
  "tu_console_entries (set_node_status i s t) = tu_console_entries t"
  "tu_status (set_node_status i s t) = tu_status t" "tu_done (set_node_status i s t) = tu_done t"
  "tu_selected_node (set_node_status i s t) = tu_selected_node t"
  "tu_finished_node_count (set_node_status i s t) = tu_finished_node_count t"
  "tu_total_input_tokens (set_node_status i s t) = tu_total_input_tokens t"
  "tu_total_output_tokens (set_node_status i s t) = tu_total_output_tokens t"
  "map tn_id (tu_nodes (set_node_status i s t)) = map tn_id (tu_nodes t)"
proof -
  show "map tn_id (tu_nodes (set_node_status i s t)) = map tn_id (tu_nodes t)"
  proof (cases "i < length (tu_nodes t)")
    case True
    then show ?thesis by (simp add: set_node_status_def map_update) (metis list_update_id nth_map)
  qed (simp add: set_node_status_def list_update_beyond)
qed (simp_all add: set_node_status_def)

lemma set_node_status_shown:
  assumes i: "indexed t" and m: "tu_node_index t m = Some i"
  shows "shown_status (set_node_status i s t) n = (if n = m then Some s else shown_status t n)"
proof (cases "tu_node_index t n")
  case None
  with m show ?thesis by (auto simp: shown_status_def)
next
  case (Some j)
  with i m have "j < length (tu_nodes t)" "i < length (tu_nodes t)" "j = i \<longleftrightarrow> n = m"
    by (metis indexed_def option.inject)+
  with Some show ?thesis by (auto simp: shown_status_def set_node_status_def nth_list_update)
qed

lemma count_finished_simps [simp]:
  "tu_nodes (count_finished t) = tu_nodes t" "tu_node_index (count_finished t) = tu_node_index t"
  "tu_log_entries (count_finished t) = tu_log_entries t" "tu_console_entries (count_finished t) = tu_console_entries t"
  "tu_status (count_finished t) = tu_status t" "tu_done (count_finished t) = tu_done t"
  "tu_selected_node (count_finished t) = tu_selected_node t"
  "tu_total_input_tokens (count_finished t) = tu_total_input_tokens t"
  "tu_total_output_tokens (count_finished t) = tu_total_output_tokens t"
  by (simp_all add: count_finished_def)

lemma select_node_simps [simp]:
  "tu_nodes (select_node i t) = tu_nodes t" "tu_node_index (select_node i t) = tu_node_index t"
  "tu_log_entries (select_node i t) = tu_log_entries t" "tu_console_entries (select_node i t) = tu_console_entries t"
  "tu_status (select_node i t) = tu_status t" "tu_done (select_node i t) = tu_done t"
  "tu_selected_node (select_node i t) = i" "tu_finished_node_count (select_node i t) = tu_finished_node_count t"
  "tu_total_input_tokens (select_node i t) = tu_total_input_tokens t"
  "tu_total_output_tokens (select_node i t) = tu_total_output_tokens t"
  by (simp_all add: select_node_def)

lemma select_running_simps [simp]:
  "tu_nodes (select_running t) = tu_nodes t" "tu_node_index (select_running t) = tu_node_index t"
  "tu_log_entries (select_running t) = tu_log_entries t" "tu_console_entries (select_running t) = tu_console_entries t"
  "tu_status (select_running t) = tu_status t" "tu_done (select_running t) = tu_done t"
  "tu_finished_node_count (select_running t) = tu_finished_node_count t"
  "tu_total_input_tokens (select_running t) = tu_total_input_tokens t"
  "tu_total_output_tokens (select_running t) = tu_total_output_tokens t"
  by (simp_all add: select_running_def split: option.split)

lemma touch_file_simps [simp]:
  "tu_nodes (touch_file f p t) = tu_nodes t" "tu_node_index (touch_file f p t) = tu_node_index t"
  "tu_log_entries (touch_file f p t) = tu_log_entries t" "tu_console_entries (touch_file f p t) = tu_console_entries t"
  "tu_status (touch_file f p t) = tu_status t" "tu_done (touch_file f p t) = tu_done t"
  "tu_selected_node (touch_file f p t) = tu_selected_node t"
  "tu_total_input_tokens (touch_file f p t) = tu_total_input_tokens t"
  "tu_total_output_tokens (touch_file f p t) = tu_total_output_tokens t"
  by (simp_all add: touch_file_def)

lemma add_tokens_simps [simp]:
  "tu_nodes (add_tokens wg i n c t) = tu_nodes t" "tu_node_index (add_tokens wg i n c t) = tu_node_index t"
  "tu_log_entries (add_tokens wg i n c t) = tu_log_entries t"
  "tu_console_entries (add_tokens wg i n c t) = tu_console_entries t"
  "tu_status (add_tokens wg i n c t) = tu_status t" "tu_done (add_tokens wg i n c t) = tu_done t"
  "tu_selected_node (add_tokens wg i n c t) = tu_selected_node t"
  "tu_total_input_tokens (add_tokens wg i n c t) = tu_total_input_tokens t + of_nat i"
  "tu_total_output_tokens (add_tokens wg i n c t) = tu_total_output_tokens t + of_nat n"
  by (simp_all add: add_tokens_def Let_def)

lemma finish_simps [simp]:
  "tu_nodes (finish wg s t) = tu_nodes t" "tu_node_index (finish wg s t) = tu_node_index t"
  "tu_log_entries (finish wg s t) = tu_log_entries t" "tu_console_entries (finish wg s t) = tu_console_entries t"
  "tu_status (finish wg s t) = s" "tu_done (finish wg s t) = True"
  "tu_selected_node (finish wg s t) = tu_selected_node t"
  "tu_total_input_tokens (finish wg s t) = tu_total_input_tokens t"
  "tu_total_output_tokens (finish wg s t) = tu_total_output_tokens t"
  by (simp_all add: finish_def)

lemma node_event_simps [simp]:
  "tu_node_index (node_started n t) = tu_node_index t" "tu_node_index (node_completed n t) = tu_node_index t"
  "tu_node_index (node_failed n t) = tu_node_index t"
  "map tn_id (tu_nodes (node_started n t)) = map tn_id (tu_nodes t)"
  "map tn_id (tu_nodes (node_completed n t)) = map tn_id (tu_nodes t)"
  "map tn_id (tu_nodes (node_failed n t)) = map tn_id (tu_nodes t)"
  "tu_log_entries (node_started n t) = tu_log_entries t" "tu_log_entries (node_completed n t) = tu_log_entries t"
  "tu_log_entries (node_failed n t) = tu_log_entries t"
  "tu_console_entries (node_started n t) = tu_console_entries t"
  "tu_console_entries (node_completed n t) = tu_console_entries t"
  "tu_console_entries (node_failed n t) = tu_console_entries t"
  "tu_status (node_started n t) = tu_status t" "tu_status (node_completed n t) = tu_status t"
  "tu_done (node_started n t) = tu_done t" "tu_done (node_completed n t) = tu_done t"
  "tu_done (node_failed n t) = tu_done t"
  "tu_total_input_tokens (node_started n t) = tu_total_input_tokens t"
  "tu_total_input_tokens (node_completed n t) = tu_total_input_tokens t"
  "tu_total_input_tokens (node_failed n t) = tu_total_input_tokens t"
  "tu_total_output_tokens (node_started n t) = tu_total_output_tokens t"
  "tu_total_output_tokens (node_completed n t) = tu_total_output_tokens t"
  "tu_total_output_tokens (node_failed n t) = tu_total_output_tokens t"
  by (simp_all add: node_started_def node_completed_def node_failed_def split: option.split)

lemma event_frame: "same_frame t (fst (handle_pipeline_event wg e t))"
  by (cases e) (simp_all add: same_frame_def)

lemma event_log:
  "tu_log_entries (fst (handle_pipeline_event wg e t)) = tu_log_entries t @ List.map_filter entry_of [e]"
  "tu_console_entries (fst (handle_pipeline_event wg e t)) = tu_console_entries t @ List.map_filter entry_of [e]"
  by (cases e; simp add: map_filter_def)+

lemma event_status: "tu_status (fst (handle_pipeline_event wg e t)) = run_status_after e (tu_status t)"
  by (cases e) simp_all

lemma event_done: "tu_done (fst (handle_pipeline_event wg e t)) \<longleftrightarrow> tu_done t \<or> ends_run e"
  by (cases e) simp_all

lemma event_tokens:
  "tu_total_input_tokens (fst (handle_pipeline_event wg e t)) = tu_total_input_tokens t + of_nat (fst (tokens_of e))"
  "tu_total_output_tokens (fst (handle_pipeline_event wg e t)) = tu_total_output_tokens t + of_nat (snd (tokens_of e))"
  by (cases e; simp)+

lemma shown_status_cong:
  "tu_nodes t' = tu_nodes t \<Longrightarrow> tu_node_index t' = tu_node_index t \<Longrightarrow> shown_status t' = shown_status t"
  by (simp add: shown_status_def fun_eq_iff)

lemma shown_node_event:
  assumes "indexed t"
  shows "shown_status (node_started m t) n = (if m = n then map_option (\<lambda>_. ND_Running) (shown_status t n) else shown_status t n)"
    and "shown_status (node_completed m t) n = (if m = n then map_option (\<lambda>_. ND_Completed) (shown_status t n) else shown_status t n)"
    and "shown_status (node_failed m t) n = (if m = n then map_option (\<lambda>_. ND_Failed) (shown_status t n) else shown_status t n)"
proof -
  have c: "indexed (count_finished t)" using assms by (simp add: indexed_def)
  have s: "shown_status (count_finished t) = shown_status t" by (rule shown_status_cong) simp_all
  have sel: "shown_status (select_node i u) = shown_status u" for i and u :: "'a tui" by (rule shown_status_cong) simp_all
  note upd = set_node_status_shown [OF assms] set_node_status_shown [OF c] s sel
  have none: "tu_node_index t m = None \<Longrightarrow> shown_status t m = None" by (simp add: shown_status_def)
  have some: "tu_node_index t m = Some i \<Longrightarrow> shown_status t m \<noteq> None" for i by (simp add: shown_status_def)
  show "shown_status (node_started m t) n = (if m = n then map_option (\<lambda>_. ND_Running) (shown_status t n) else shown_status t n)"
    using none some by (cases "tu_node_index t m") (auto simp: node_started_def upd)
  show "shown_status (node_completed m t) n = (if m = n then map_option (\<lambda>_. ND_Completed) (shown_status t n) else shown_status t n)"
    using none some by (cases "tu_node_index t m") (auto simp: node_completed_def upd)
  show "shown_status (node_failed m t) n = (if m = n then map_option (\<lambda>_. ND_Failed) (shown_status t n) else shown_status t n)"
    using none some by (cases "tu_node_index t m") (auto simp: node_failed_def upd)
qed

lemma shown_status_same:
  "shown_status (push_event wg e t) = shown_status t" "shown_status (select_running t) = shown_status t"
  "shown_status (finish wg s t) = shown_status t" "shown_status (touch_file f p t) = shown_status t"
  "shown_status (add_tokens wg i k c t) = shown_status t" "shown_status (t\<lparr>tu_status := s\<rparr>) = shown_status t"
  by (rule shown_status_cong; simp)+

lemma event_nodes:
  assumes "indexed t"
  shows "shown_status (fst (handle_pipeline_event wg e t)) n = map_option (node_status_after e n) (shown_status t n)"
  by (cases e)
     (simp_all add: shown_status_same shown_node_event [OF assms] option.map_ident fun_eq_iff
        cong: map_option_cong)

section \<open>A whole log\<close>

definition on_events :: "'v widgets \<Rightarrow> pipeline_event list \<Rightarrow> 'v tui \<Rightarrow> 'v tui" where
  "on_events wg es t = fold (\<lambda>e u. fst (tui_update wg (Msg_PipelineEvent e) u)) es t"

lemma index_nodes_law:
  assumes "distinct (map tn_id ns)"
  shows "index_nodes ns n = Some i \<longleftrightarrow> i < length ns \<and> tn_id (ns ! i) = n"
proof -
  have fold: "fold (\<lambda>(i, n) m. m(tn_id n \<mapsto> i)) xs m k =
      (case map_of (rev (map (\<lambda>(i, n). (tn_id n, i)) xs)) k of Some j \<Rightarrow> Some j | None \<Rightarrow> m k)" for xs m and k :: string
    by (induction xs arbitrary: m) (auto simp: map_add_def split: option.split)
  let ?ps = "map (\<lambda>(i, n). (tn_id n, i)) (zip [0..<length ns] ns)"
  have "map fst ?ps = map tn_id (map snd (zip [0..<length ns] ns))" by (simp add: split_def comp_def del: map_snd_zip)
  then have fst: "map fst ?ps = map tn_id ns" by (simp only: map_snd_zip length_upt)
  have "index_nodes ns n = map_of (rev ?ps) n" unfolding index_nodes_def fold by (simp split: option.split)
  also have "\<dots> = map_of ?ps n" by (rule fun_cong [OF distinct_map_of_rev]) (use assms fst in simp)
  finally have e: "index_nodes ns n = map_of ?ps n" .
  have "distinct (map fst ?ps)" unfolding fst by (rule assms)
  then have "index_nodes ns n = Some i \<longleftrightarrow> (n, i) \<in> set ?ps" unfolding e by (rule map_of_eq_Some_iff)
  then show ?thesis by (force simp: set_zip image_iff)
qed

lemma tui_init_frame: "same_frame t (fold mark_resumed ids t)"
proof (induction ids arbitrary: t)
  case (Cons n ids)
  have "same_frame t (mark_resumed n t)" by (simp add: same_frame_def mark_resumed_def split: option.split)
  with Cons show ?case by (auto intro: same_frame_trans)
qed (simp add: same_frame_def)

lemma tui_init_indexed:
  assumes "distinct (node_ids (tf_graph flags))"
  shows "indexed (fst (tui_init wg flags))"
proof -
  have d: "distinct (map gn_id (g_nodes (tf_graph flags)))" using assms by (simp add: node_ids_def)
  show ?thesis
    unfolding tui_init_def Let_def fst_conv
    by (rule same_frame_indexed [OF tui_init_frame]) (simp add: indexed_def index_nodes_law comp_def d)
qed

text \<open>
  After a log, the panels hold its entries in order and nothing else, the status of the run is the last one an event
  gave it, the interface is done exactly when the run has ended, every node of the graph has the status of
  its last event, and the token counts are the sums of the log's, modulo \<open>2 ^ 64\<close>.
\<close>

theorem tui_shows_log:
  assumes "indexed t"
  shows "tu_log_entries (on_events wg es t) = tu_log_entries t @ List.map_filter entry_of es
    \<and> tu_console_entries (on_events wg es t) = tu_console_entries t @ List.map_filter entry_of es
    \<and> tu_status (on_events wg es t) = fold run_status_after es (tu_status t)
    \<and> (tu_done (on_events wg es t) \<longleftrightarrow> tu_done t \<or> list_ex ends_run es)
    \<and> shown_status (on_events wg es t) n = map_option (fold (\<lambda>e. node_status_after e n) es) (shown_status t n)
    \<and> tu_total_input_tokens (on_events wg es t) = tu_total_input_tokens t + of_nat (\<Sum>e\<leftarrow>es. fst (tokens_of e))
    \<and> tu_total_output_tokens (on_events wg es t) = tu_total_output_tokens t + of_nat (\<Sum>e\<leftarrow>es. snd (tokens_of e))"
  using assms
proof (induction es arbitrary: t)
  case Nil
  then show ?case by (simp add: on_events_def option.map_ident map_filter_def id_def)
next
  case (Cons e es)
  let ?u = "fst (handle_pipeline_event wg e t)"
  have i: "indexed ?u" by (rule same_frame_indexed [OF event_frame Cons.prems])
  have s: "on_events wg (e # es) t = on_events wg es ?u" by (simp add: on_events_def)
  have m: "List.map_filter entry_of (e # es) = List.map_filter entry_of [e] @ List.map_filter entry_of es"
    by (simp add: map_filter_def)
  show ?case unfolding s m
    using Cons.IH [OF i]
    by (simp add: event_log event_status event_done event_tokens event_nodes [OF Cons.prems] option.map_comp comp_def)
qed

lemma tui_init_start:
  "tu_log_entries (fst (tui_init wg flags)) = []" "tu_console_entries (fst (tui_init wg flags)) = []"
  "tu_done (fst (tui_init wg flags)) = False" "tu_status (fst (tui_init wg flags)) = TS_Starting"
proof -
  have "tu_log_entries (fold mark_resumed ids t) = tu_log_entries t \<and>
      tu_console_entries (fold mark_resumed ids t) = tu_console_entries t \<and>
      tu_done (fold mark_resumed ids t) = tu_done t \<and> tu_status (fold mark_resumed ids t) = tu_status t" for ids and t :: "'a tui"
    by (induction ids arbitrary: t) (simp_all add: mark_resumed_def split: option.split)
  then show "tu_log_entries (fst (tui_init wg flags)) = []" "tu_console_entries (fst (tui_init wg flags)) = []"
    "tu_done (fst (tui_init wg flags)) = False" "tu_status (fst (tui_init wg flags)) = TS_Starting"
    by (simp_all add: tui_init_def Let_def)
qed

text \<open>Events that change no status.\<close>

fun quiet :: "pipeline_event \<Rightarrow> bool" where
  "quiet (PipelineStarted name ts) = False"
| "quiet (PipelineCompleted out nodes ms ts) = False"
| "quiet (PipelineAborted reason ts) = False"
| "quiet (NodeStarted n ty ts) = False"
| "quiet (NodeCompleted n out ms ts) = False"
| "quiet (NodeFailed n err ms ts) = False"
| "quiet e = True"

lemma quiet_statuses: "quiet e \<Longrightarrow> run_status_after e st = st \<and> node_status_after e i d = d \<and> \<not> ends_run e"
  by (cases e) simp_all

lemma loud_statuses:
  "fold run_status_after (filter (\<lambda>e. \<not> quiet e) es) st = fold run_status_after es st"
  "fold (\<lambda>e. node_status_after e i) (filter (\<lambda>e. \<not> quiet e) es) d = fold (\<lambda>e. node_status_after e i) es d"
  "list_ex ends_run (filter (\<lambda>e. \<not> quiet e) es) \<longleftrightarrow> list_ex ends_run es"
  by (induction es arbitrary: st d) (auto simp: quiet_statuses)

definition adds_loud :: "'w engine_state \<Rightarrow> pipeline_event list \<Rightarrow> 'w engine_state \<Rightarrow> bool" where
  "adds_loud s l t \<longleftrightarrow> (\<exists>k. es_events t = es_events s @ k \<and> filter (\<lambda>e. \<not> quiet e) k = l)"

lemma adds_loud_refl: "es_events t = es_events s \<Longrightarrow> adds_loud s [] t"
  by (simp add: adds_loud_def)

lemma adds_loud_trans: "adds_loud s l t \<Longrightarrow> adds_loud t k u \<Longrightarrow> adds_loud s (l @ k) u"
  by (auto simp: adds_loud_def)

lemma adds_loud_emit: "es_events u = es_events s \<Longrightarrow> (\<And>n. quiet (ev n)) \<Longrightarrow> adds_loud s [] (emit env ev u)"
  by (simp add: adds_loud_def)

lemma auto_save_quiet: "adds_loud s [] (auto_save env cfg g s)"
proof -
  have e: "adds_loud s [] (emit env (CheckpointCreated x) (s\<lparr>es_world := w\<rparr>))" for x w
    by (rule adds_loud_emit) simp_all
  show ?thesis
    by (auto simp: auto_save_def Let_def split_beta intro: adds_loud_refl e split: option.split bool.split)
qed

lemma take_edge_quiet: "adds_loud s [] (take_edge env cfg e s)"
proof -
  let ?s1 = "emit env (EdgeTraversed (ge_from e) (ge_to e) (ge_label e)) s"
  have a: "adds_loud s [] ?s1" by (rule adds_loud_emit) simp_all
  have b: "adds_loud ?s1 [] (restart_edge env e ?s1)"
    by (auto simp: restart_edge_def Let_def adds_loud_def)
  have c: "adds_loud t [] ((carry_context cfg e t)\<lparr>es_current := ge_to e\<rparr>)" for t :: "'a engine_state"
    by (rule adds_loud_refl) (auto simp: carry_context_def split: option.split)
  from adds_loud_trans [OF adds_loud_trans [OF a b] c [of "restart_edge env e ?s1"]] show ?thesis
    by (simp add: take_edge_def)
qed

text \<open>What an iteration shows: the node running, then finished as its outcome says.\<close>

definition shown_for :: "outcome option \<Rightarrow> node_display" where
  "shown_for r = (case r of None \<Rightarrow> ND_Pending | Some out \<Rightarrow> if is_failure out then ND_Failed else ND_Completed)"

definition run_shown :: "node_stats list \<Rightarrow> tui_status" where
  "run_shown ts = (if list_ex (\<lambda>x. ns_outcome_kind x = KFailure) ts then TS_Failed else TS_Running)"

definition events_agree :: "'w engine_state \<Rightarrow> bool" where
  "events_agree s \<longleftrightarrow> fold run_status_after (es_events s) TS_Starting = run_shown (es_timings s) \<and>
     (\<forall>i. fold (\<lambda>e. node_status_after e i) (es_events s) ND_Pending = shown_for (hm_get (es_outcomes s) i))"

lemma run_node_loud:
  assumes "run_node env n s = (out, t)"
  shows "\<exists>a b c d e. adds_loud s [NodeStarted (es_current s) a b,
      if is_failure out then NodeFailed (es_current s) c d e else NodeCompleted (es_current s) out d e] t"
proof -
  have "\<exists>a b c d e. es_events t = es_events s @ [NodeStarted (es_current s) a b,
      if is_failure out then NodeFailed (es_current s) c d e else NodeCompleted (es_current s) out d e]"
    using assms by (cases "is_failure out") (auto simp: run_node_def record_outcome_def Let_def split_beta)
  then show ?thesis unfolding adds_loud_def by (cases "is_failure out") fastforce+
qed

lemma routing_quiet:
  assumes "r = (if gn_type n = Exit then exit_step g s else route env cfg g n out s)" "r = Next t \<or> r = Finished t"
  shows "adds_loud s [] t \<and> es_outcomes t = es_outcomes s \<and> es_timings t = es_timings s"
proof (cases "gn_type n = Exit")
  case True
  with assms have "exit_step g s = Next t \<or> exit_step g s = Finished t" by auto
  then show ?thesis
    by (auto simp: exit_step_def Let_def adds_loud_def split: sum.splits option.splits if_splits)
next
  case False
  define u where "u = s\<lparr>es_context := context_set ''outcome'' (JString (outcome_label out)) (es_context s)\<rparr>"
  have u: "es_events u = es_events s" "es_outcomes u = es_outcomes s" "es_timings u = es_timings s" by (simp_all add: u_def)
  from False assms have "route env cfg g n out s = Next t \<or> route env cfg g n out s = Finished t" by auto
  then have "(\<exists>e. t = take_edge env cfg e u) \<or> (\<exists>x. t = u\<lparr>es_current := x\<rparr>) \<or> t = u"
    unfolding route_def Let_def u_def [symmetric]
    by (auto simp: no_edge_def Let_def split: sum.splits fault.splits option.splits if_splits)
  then show ?thesis using take_edge_quiet [of u env cfg] u by (auto simp: adds_loud_def)
qed

lemma failure_kind: "outcome_kind_of out = KFailure \<longleftrightarrow> is_failure out"
  by (cases out) (simp_all add: outcome_kind_of_def)

lemma step_agrees:
  assumes "events_agree s" "engine_step env cfg g s = r" "r = Next t \<or> r = Finished t"
  shows "events_agree t"
proof -
  have nf: "\<And>e u. r \<noteq> Failed e u" using assms(3) by auto
  from engine_step_parts [OF assms(2) nf] obtain n out s1 s2 where
    r: "run_node env n s = (out, s1)" and f: "failure_cycle env cfg out s1 = Inr s2" and
    k: "r = (if gn_type n = Exit then exit_step g (auto_save env cfg g s2)
          else route env cfg g n out (auto_save env cfg g s2))" by metis
  from run_node_loud [OF r] obtain a b c d e where l: "adds_loud s [NodeStarted (es_current s) a b,
      if is_failure out then NodeFailed (es_current s) c d e else NodeCompleted (es_current s) out d e] s1"
    (is "adds_loud s ?l s1") by blast
  note rest = routing_quiet [OF k assms(3)]
  have "adds_loud s ?l t"
    using adds_loud_trans [OF adds_loud_trans [OF adds_loud_trans [OF l adds_loud_refl] auto_save_quiet] conjunct1 [OF rest]]
      failure_cycle_fields [OF f] by simp
  then obtain j where j: "es_events t = es_events s @ j" "filter (\<lambda>e. \<not> quiet e) j = ?l" by (auto simp: adds_loud_def)
  obtain ms where ms: "es_timings t = es_timings s @
      [\<lparr>ns_node_id = es_current s, ns_duration_ms = ms, ns_outcome_kind = outcome_kind_of out\<rparr>]"
    using run_node_fields(7) [OF r] failure_cycle_fields [OF f] rest by auto
  have o: "es_outcomes t = hm_insert (es_current s) out (es_outcomes s)"
    using run_node_fields(3) [OF r] failure_cycle_fields [OF f] rest by simp
  have run: "fold run_status_after j st = (if is_failure out then TS_Failed else st)" for st
    using loud_statuses(1) [of j st] j(2) by auto
  have nodes: "fold (\<lambda>e. node_status_after e i) j x =
      (if i = es_current s then (if is_failure out then ND_Failed else ND_Completed) else x)" for i x
    using loud_statuses(2) [of i j x] j(2) by auto
  show ?thesis
    using assms(1) by (auto simp: events_agree_def j(1) run nodes o run_shown_def shown_for_def ms failure_kind)
qed

text \<open>C20. 
  The terminal interface shows what a successful run did.  Started with no completed node to resume and fed all the
  run's events in order, with any number of the events that show no status (those of backends, questions, edges,
  context and checkpoints) left out or put between them, on a graph without two nodes of one id, the interface ends; it shows the run as failed exactly when some execution of a node failed and as completed otherwise, and every
  node of the graph as its last outcome says: failed, completed, or still pending when it was not executed.
\<close>

theorem tui_shows_run:
  fixes env :: "'w env"
  assumes r: "run env cfg g ctx w = (Inr res, s)" and d: "distinct (map gn_id (g_nodes g))" and g: "tf_graph flags = g"
    and new: "tf_completed_node_ids flags = []"
    and evs: "filter (\<lambda>e. \<not> quiet e) evs = filter (\<lambda>e. \<not> quiet e) (es_events s)"
  shows "let t = on_events wg evs (fst (tui_init wg flags)) in
    tu_done t \<and>
    tu_status t = (if list_ex (\<lambda>x. ns_outcome_kind x = KFailure) (ps_node_timings (er_stats res)) then TS_Failed else TS_Completed) \<and>
    (\<forall>n\<in>set (g_nodes g). shown_status t (gn_id n) =
       Some (case hm_get (er_node_outcomes res) (gn_id n) of
         None \<Rightarrow> ND_Pending | Some out \<Rightarrow> if is_failure out then ND_Failed else ND_Completed))"
proof -
  from run_Inr [OF r] obtain a where "start_nodes g = [a]"
    and n: "execute_loop env cfg g (gn_id a) [] [] ctx w = (Inr res, s)" .
  define s0 where "s0 = emit env (PipelineStarted (graph_name g))
    \<lparr>es_current = gn_id a, es_visited = [], es_outcomes = [], es_context = ctx, es_steps = 0, es_restarts = [],
     es_failures = Map.empty, es_timings = [], es_artifacts = ec_artifact_store cfg, es_events = [],
     es_world = snd (e_clock env w)\<rparr>"
  obtain err s1 where l: "engine_loop env cfg g s0 = (err, s1)" by force
  with n have "err = None" and f: "finish_run env cfg g (fst (e_clock env w)) s1 = (Inr res, s)"
    by (auto simp: execute_loop_def Let_def split_beta s0_def split: option.splits)
  have "events_agree s0" by (simp add: events_agree_def s0_def run_shown_def shown_for_def hm_get_def)
  from engine_loop_invariant [where I = events_agree, OF this _ l] step_agrees have "events_agree s1"
    using \<open>err = None\<close> by (metis option.case(1))
  note fr = finish_run_Inr [OF f]
  from fr(9) obtain ms now where e: "es_events s = es_events s1 @ [PipelineCompleted (final_outcome s1) (length (es_visited s1)) ms now]"
    by blast
  have status: "fold run_status_after evs TS_Starting = (if list_ex (\<lambda>x. ns_outcome_kind x = KFailure) (es_timings s1) then TS_Failed else TS_Completed)"
    unfolding loud_statuses(1) [of evs, symmetric] evs unfolding loud_statuses
    using \<open>events_agree s1\<close> by (simp add: e events_agree_def run_shown_def)
  have nodes: "fold (\<lambda>e. node_status_after e i) evs ND_Pending = shown_for (hm_get (es_outcomes s1) i)" for i
    unfolding loud_statuses(2) [of i evs, symmetric] evs unfolding loud_statuses
    using \<open>events_agree s1\<close> by (simp add: e events_agree_def)
  have ended: "list_ex ends_run evs"
    unfolding loud_statuses(3) [of evs, symmetric] evs unfolding loud_statuses by (simp add: e)
  let ?t = "fst (tui_init wg flags)"
  have i: "indexed ?t" by (rule tui_init_indexed) (simp add: d g node_ids_def)
  have pending: "shown_status ?t (gn_id n) = Some ND_Pending" if "n \<in> set (g_nodes g)" for n
  proof -
    have st: "tn_status x = ND_Pending" if "x \<in> set (tu_nodes ?t)" for x
      using that by (auto simp: tui_init_def Let_def new)
    have "gn_id n \<in> set (map tn_id (tu_nodes ?t))"
      using that by (auto simp: tui_init_def Let_def new g)
    then obtain j where j: "j < length (tu_nodes ?t)" "tn_id (tu_nodes ?t ! j) = gn_id n" by (auto simp: in_set_conv_nth)
    then have "tu_node_index ?t (gn_id n) = Some j" using i by (simp add: indexed_def)
    then show ?thesis using st j(1) by (simp add: shown_status_def)
  qed
  show ?thesis
    using tui_shows_log [OF i, of wg evs] status nodes ended pending
    by (simp add: tui_init_start Let_def fr(2,6) shown_for_def)
qed

section \<open>Moving about\<close>

definition selection_shown :: "'v tui \<Rightarrow> bool" where
  "selection_shown t \<longleftrightarrow> (tu_selected_node t = 0 \<or> tu_selected_node t < length (tu_nodes t)) \<and>
     (tu_node_panel_height t = 0 \<or>
      tu_node_scroll_offset t \<le> tu_selected_node t \<and> tu_selected_node t < tu_node_scroll_offset t + tu_node_panel_height t)"

lemma selection_widgets [simp]:
  "selection_shown (on_widgets f t) = selection_shown t" "selection_shown (refresh_viewport wg t) = selection_shown t"
  "selection_shown (refresh_console_viewport wg t) = selection_shown t"
  by (simp_all add: selection_shown_def on_widgets_def refresh_viewport_def refresh_console_viewport_def)

lemma selection_fields [simp]:
  "selection_shown (t\<lparr>tu_status := s\<rparr>) = selection_shown t" "selection_shown (t\<lparr>tu_focus := pf\<rparr>) = selection_shown t"
  "selection_shown (t\<lparr>tu_human_input_buffer := b\<rparr>) = selection_shown t"
  "selection_shown (t\<lparr>tu_spinner_frame_idx := j\<rparr>) = selection_shown t"
  "selection_shown (t\<lparr>tu_pending_human_question := q\<rparr>) = selection_shown t"
  "selection_shown (t\<lparr>tu_console_entries := xs\<rparr>) = selection_shown t"
  "selection_shown (t\<lparr>tu_log_entries := xs\<rparr>) = selection_shown t" "selection_shown (t\<lparr>tu_done := d\<rparr>) = selection_shown t"
  "selection_shown (t\<lparr>tu_files_touched := fs\<rparr>) = selection_shown t" "selection_shown (t\<lparr>tu_sent := rs\<rparr>) = selection_shown t"
  "selection_shown (t\<lparr>tu_total_input_tokens := k\<rparr>) = selection_shown t"
  "selection_shown (t\<lparr>tu_total_output_tokens := k\<rparr>) = selection_shown t"
  "selection_shown (t\<lparr>tu_total_cost_usd := c\<rparr>) = selection_shown t"
  "selection_shown (t\<lparr>tu_finished_node_count := m\<rparr>) = selection_shown t"
  by (simp_all add: selection_shown_def)

lemma selection_same [simp]:
  "selection_shown (set_node_status i nd t) = selection_shown t"
  "selection_shown (count_finished t) = selection_shown t" "selection_shown (finish wg s t) = selection_shown t"
  "selection_shown (touch_file f' p t) = selection_shown t" "selection_shown (add_tokens wg k k' c t) = selection_shown t"
  "selection_shown (send_response r t) = selection_shown t"
proof -
  show "selection_shown (set_node_status i nd t) = selection_shown t"
    by (simp add: selection_shown_def set_node_status_def)
qed (simp_all add: count_finished_def finish_def touch_file_def add_tokens_def send_response_def Let_def)

lemma selection_push [simp]: "selection_shown (push_event wg e t) = selection_shown t"
  by (cases "entry_of e") (simp_all add: push_event_def push_both_def)

lemma scroll_shows:
  "tu_selected_node t = 0 \<or> tu_selected_node t < length (tu_nodes t) \<Longrightarrow> selection_shown (scroll_nodes_to_selected t)"
  by (auto simp: selection_shown_def scroll_nodes_to_selected_def Let_def)

lemma select_shows: "i = 0 \<or> i < length (tu_nodes t) \<Longrightarrow> selection_shown (select_node i t)"
  unfolding select_node_def by (rule scroll_shows) simp

lemma select_running_shows: "selection_shown t \<Longrightarrow> selection_shown (select_running t)"
  by (auto simp: select_running_def running_position_def find_Some_iff intro!: select_shows split: option.split)

lemma node_event_shows:
  assumes "indexed t" "selection_shown t"
  shows "selection_shown (node_started n t)" "selection_shown (node_completed n t)" "selection_shown (node_failed n t)"
proof -
  have "length (tu_nodes (set_node_status i s t)) = length (tu_nodes t)" for i s by (simp add: set_node_status_def)
  then show "selection_shown (node_started n t)"
    using assms by (auto simp: node_started_def indexed_def intro!: select_shows split: option.split)
qed (use assms in \<open>simp_all add: node_completed_def node_failed_def split: option.split\<close>)

lemma event_shows:
  assumes "indexed t" "selection_shown t"
  shows "selection_shown (fst (handle_pipeline_event wg e t))"
  by (cases e) (simp_all add: node_event_shows select_running_shows assms)

lemma node_key_shows: "selection_shown t \<Longrightarrow> selection_shown (node_key wg kc t)"
  by (auto simp: node_key_def selection_shown_def [of t] intro!: select_shows)

lemma human_key_shows: "selection_shown t \<Longrightarrow> selection_shown (fst (handle_human_input_key key t))"
  by (simp add: handle_human_input_key_def split: key_code.split)

lemma toggle_shows: "selection_shown t \<Longrightarrow> selection_shown (toggle_focus wg t)"
  by (simp add: toggle_focus_def split: panel_focus.split)

lemma key_shows: "selection_shown t \<Longrightarrow> selection_shown (fst (handle_key wg key t))"
  by (simp add: handle_key_def human_key_shows toggle_shows node_key_shows split: panel_focus.split)

lemma mouse_shows: "selection_shown t \<Longrightarrow> selection_shown (fst (mouse_scroll wg up t))"
  by (auto simp: mouse_scroll_def selection_shown_def [of t] select_down_def intro!: scroll_shows
      split: panel_focus.split)

text \<open>Whatever message comes, the selected node is a node of the graph and lies in the visible part of its panel.\<close>

theorem selection_stays_shown:
  assumes "indexed t" "selection_shown t"
  shows "selection_shown (fst (tui_update wg m t))"
  by (cases m) (simp_all add: assms event_shows key_shows mouse_shows)

section \<open>Answers\<close>

definition question_open :: "'v tui \<Rightarrow> nat" where
  "question_open t = (if tu_pending_human_question t = None then 0 else 1)"

definition asks :: "tui_message \<Rightarrow> nat" where
  "asks m = (case m of Msg_HumanPromptRequest q \<Rightarrow> 1 | _ \<Rightarrow> 0)"

definition deliver :: "'v widgets \<Rightarrow> tui_message list \<Rightarrow> 'v tui \<Rightarrow> 'v tui" where
  "deliver wg ms t = fold (\<lambda>m u. fst (tui_update wg m u)) ms t"

definition same_answers :: "'v tui \<Rightarrow> 'v tui \<Rightarrow> bool" where
  "same_answers t t' \<longleftrightarrow> tu_sent t' = tu_sent t \<and> tu_pending_human_question t' = tu_pending_human_question t"

lemma same_answers_steps:
  "same_answers t (on_widgets f t)" "same_answers t (refresh_viewport wg t)" "same_answers t (push_event wg e t)"
  "same_answers t (scroll_nodes_to_selected t)" "same_answers t (select_node i t)" "same_answers t (select_running t)"
  "same_answers t (node_started n t)" "same_answers t (node_completed n t)" "same_answers t (node_failed n t)"
  "same_answers t (touch_file f' p t)" "same_answers t (add_tokens wg k k' c t)" "same_answers t (finish wg s t)"
  by (simp_all add: same_answers_def on_widgets_def refresh_viewport_def push_event_def push_both_def
      refresh_console_viewport_def scroll_nodes_to_selected_def select_node_def select_running_def node_started_def
      node_completed_def node_failed_def set_node_status_def count_finished_def touch_file_def add_tokens_def finish_def Let_def
      split: option.split)

lemmas answer_steps = same_answers_steps [unfolded same_answers_def, THEN conjunct1]
  same_answers_steps [unfolded same_answers_def, THEN conjunct2]

lemma event_answers: "same_answers t (fst (handle_pipeline_event wg e t))"
  by (cases e) (simp_all add: same_answers_def answer_steps)

lemma node_key_answers: "same_answers t (node_key wg kc t)"
  by (simp add: node_key_def same_answers_def answer_steps)

lemma mouse_answers: "same_answers t (fst (mouse_scroll wg up t))"
  by (simp add: mouse_scroll_def select_down_def same_answers_def answer_steps split: panel_focus.split)

lemma key_answers:
  "length (tu_sent (fst (handle_key wg key t))) + question_open (fst (handle_key wg key t)) \<le> length (tu_sent t) + question_open t"
proof (cases "tu_pending_human_question t")
  case None
  have "same_answers t (toggle_focus wg t)"
    by (simp add: same_answers_def toggle_focus_def on_widgets_def split: panel_focus.split)
  with None node_key_answers [of t wg "ke_code key"] show ?thesis
    by (simp add: handle_key_def same_answers_def question_open_def split: panel_focus.split)
next
  case (Some q)
  then show ?thesis
    by (simp add: handle_key_def handle_human_input_key_def send_response_def question_open_def Let_def split: key_code.split)
qed

lemma update_answers:
  "length (tu_sent (fst (tui_update wg m t))) + question_open (fst (tui_update wg m t))
     \<le> length (tu_sent t) + question_open t + asks m"
proof (cases m)
  case (Msg_PipelineEvent e)
  then show ?thesis using event_answers [of t wg e] by (simp add: same_answers_def question_open_def)
next
  case (Msg_KeyPress key)
  then show ?thesis using key_answers [of wg key t] by simp
next
  case (Msg_MouseScroll up)
  then show ?thesis using mouse_answers [of t wg up] by (simp add: same_answers_def question_open_def)
qed (simp_all add: question_open_def asks_def)

text \<open>No prompt is answered twice: whatever messages come, in whatever order, the answers sent and the question still
  open are together at most the prompts asked.\<close>

theorem answers_at_most_prompts:
  "length (tu_sent (deliver wg ms t)) + question_open (deliver wg ms t)
     \<le> length (tu_sent t) + question_open t + (\<Sum>m\<leftarrow>ms. asks m)"
proof (induction ms arbitrary: t)
  case (Cons m ms)
  have "deliver wg (m # ms) t = deliver wg ms (fst (tui_update wg m t))" by (simp add: deliver_def)
  with Cons [of "fst (tui_update wg m t)"] update_answers [of wg m t] show ?case by simp
qed (simp add: deliver_def)

section \<open>Examples\<close>

definition plain_widgets :: "unit widgets" where
  "plain_widgets = \<lparr>wg_start = (), wg_spinner = (\<lambda>b v. v), wg_stopwatch = id, wg_stop = id, wg_log_focus = (\<lambda>b v. v),
     wg_console_focus = (\<lambda>b v. v), wg_log_message = (\<lambda>m v. v), wg_console_message = (\<lambda>m v. v), wg_log_lines = (\<lambda>es v. v),
     wg_console_lines = (\<lambda>es v. v), wg_frames = 8, wg_add = (\<lambda>a b. b)\<rparr>"

definition sample_flags :: tui_flags where
  "sample_flags = \<lparr>tf_graph = sample_graph, tf_run_id = ''r1'', tf_pipeline_name = ''g'', tf_completed_node_ids = [],
     tf_has_response_tx = True\<rparr>"

lemma sample_flags_distinct: "distinct (node_ids (tf_graph sample_flags))"
  by code_simp

definition sample_loop :: "pipeline_event list" where
  "sample_loop = [NodeStarted ''s'' ''start'' 1, NodeCompleted ''s'' State.success 1 2,
     NodeStarted ''s'' ''start'' 3, NodeCompleted ''s'' State.success 1 4]"

text \<open>A node that runs again counts again, so that the progress line can say 2 of 1.\<close>

lemma loops_count_twice:
  "tu_finished_node_count (on_events plain_widgets sample_loop (fst (tui_init plain_widgets sample_flags))) = 2"
  by code_simp

theorem tui_shows_log_witness:
  "shown_status (on_events plain_widgets sample_loop (fst (tui_init plain_widgets sample_flags))) ''s'' = Some ND_Completed"
proof -
  have "shown_status (fst (tui_init plain_widgets sample_flags)) ''s'' = Some ND_Pending" by code_simp
  with tui_shows_log [OF tui_init_indexed [OF sample_flags_distinct], of plain_widgets sample_loop plain_widgets "''s''"]
  show ?thesis by (simp add: sample_loop_def)
qed

theorem tui_shows_run_witness:
  "let t = on_events plain_widgets (es_events (snd sample_result)) (fst (tui_init plain_widgets sample_flags)) in
    tu_done t \<and> shown_status t ''s'' = Some ND_Completed"
proof -
  obtain res t where r: "run sample_env default_engine_config sample_graph [] () = (Inr res, t)"
    using sample_visits unfolding sample_result_def by (auto split: prod.splits sum.splits)
  have g: "tf_graph sample_flags = sample_graph" "tf_completed_node_ids sample_flags = []" by (simp_all add: sample_flags_def)
  have d: "distinct (map gn_id (g_nodes sample_graph))" using sample_flags_distinct by (simp add: node_ids_def g)
  have s: "\<exists>n\<in>set (g_nodes sample_graph). gn_id n = ''s''" by code_simp
  have "case sample_result of (Inr res, t) \<Rightarrow> (case hm_get (er_node_outcomes res) ''s'' of Some out \<Rightarrow> \<not> is_failure out | None \<Rightarrow> False) | _ \<Rightarrow> False"
    by code_simp
  then have o: "case hm_get (er_node_outcomes res) ''s'' of Some out \<Rightarrow> \<not> is_failure out | None \<Rightarrow> False"
    using r by (simp add: sample_result_def)
  have "es_events (snd sample_result) = es_events t" using r by (simp add: sample_result_def)
  with tui_shows_run [OF r d g refl, of plain_widgets] s o show ?thesis
    by (auto simp: Let_def split: option.splits)
qed

theorem selection_stays_shown_witness:
  "selection_shown (fst (tui_update plain_widgets (Msg_MouseScroll False) (fst (tui_init plain_widgets sample_flags))))"
proof (rule selection_stays_shown)
  show "indexed (fst (tui_init plain_widgets sample_flags))" by (rule tui_init_indexed [OF sample_flags_distinct])
  show "selection_shown (fst (tui_init plain_widgets sample_flags))" by code_simp
qed

end
