(* ===== verification/Web_Events.thy ===== *)
theory Web_Events
  imports Events Utf8 Float64
begin

text \<open>
  The events of a run as the web page shows them, \<open>smasher-web/src/sse.rs\<close>: their names, their HTML and
  the stream that carries them.  A timestamp is nanoseconds since the epoch; the channel is the list of what its
  receiver returns.
\<close>

section \<open>Texts\<close>

fun event_name :: "pipeline_event \<Rightarrow> string" where
  "event_name (NodeStarted n ty t) = ''node_started''"
| "event_name (NodeCompleted n out ms t) = ''node_completed''"
| "event_name (NodeFailed n e ms t) = ''node_failed''"
| "event_name (EdgeTraversed from to label t) = ''edge_traversed''"
| "event_name (HumanPromptIssued n q t) = ''human_prompt_issued''"
| "event_name (HumanResponseReceived n r t) = ''human_response_received''"
| "event_name (ContextUpdated k t) = ''context_updated''"
| "event_name (CheckpointCreated n t) = ''checkpoint_created''"
| "event_name (PipelineStarted name t) = ''pipeline_started''"
| "event_name (PipelineCompleted out nodes ms t) = ''pipeline_completed''"
| "event_name (PipelineAborted reason t) = ''pipeline_aborted''"
| "event_name (LoopRestarted from to k t) = ''loop_restarted''"
| "event_name (AgentToolCallStarted n tool i p t) = ''agent_tool_call_started''"
| "event_name (AgentToolCallCompleted n tool i ms err p t) = ''agent_tool_call_completed''"
| "event_name (AgentMessage n txt t) = ''agent_message''"
| "event_name (AgentTurnStarted n turn t) = ''agent_turn_started''"
| "event_name (AgentTokenUsage n i out cost t) = ''agent_token_usage''"

definition two_digits :: "nat \<Rightarrow> string" where
  "two_digits n = (if n < 10 then ''0'' @ dec n else dec n)"

definition format_time :: "nat \<Rightarrow> string" where
  "format_time ts =
     (let s = ts div 10 ^ 9 mod 86400
      in two_digits (s div 3600) @ '':'' @ two_digits (s div 60 mod 60) @ '':'' @ two_digits (s mod 60))"

text \<open>A double with \<open>k\<close> decimals: its exact value, rounded to nearest and to even digits on a tie.\<close>

definition fixed_digits :: "nat \<Rightarrow> nat \<Rightarrow> string" where
  "fixed_digits k n =
     (let r = n mod 10 ^ k; ds = dec r
      in dec (n div 10 ^ k) @ ''.'' @ replicate (k - length ds) CHR ''0'' @ ds)"

fun fixed_point :: "nat \<Rightarrow> f64 \<Rightarrow> string" where
  "fixed_point k F_NaN = ''NaN''"
| "fixed_point k (F_Inf s) = (if s then ''-inf'' else ''inf'')"
| "fixed_point k (F_Fin s m e) =
     (if s then ''-'' else []) @
     fixed_digits k (if 0 \<le> e then m * 2 ^ nat e * 10 ^ k else round_half_even (m * 10 ^ k) (2 ^ nat (- e)))"

definition format_duration :: "nat \<Rightarrow> string" where
  "format_duration ms =
     (if ms < 1000 then dec ms @ ''ms''
      else if ms < 60000 then fixed_point 1 (f64_div (f64_of_nat ms) (f64_of_nat 1000)) @ ''s''
      else dec (ms div 60000) @ ''m '' @ dec (ms mod 60000 div 1000) @ ''s'')"

fun replace_char :: "char \<Rightarrow> string \<Rightarrow> string \<Rightarrow> string" where
  "replace_char c r [] = []"
| "replace_char c r (d # s) = (if d = c then r @ replace_char c r s else d # replace_char c r s)"

definition escape_html :: "string \<Rightarrow> string" where
  "escape_html s =
     replace_char CHR 0x22 ''&quot;'' (replace_char CHR ''>'' ''&gt;''
       (replace_char CHR ''<'' ''&lt;'' (replace_char CHR ''&'' ''&amp;'' s)))"

section \<open>Fragments\<close>

definition html_span :: "string \<Rightarrow> string \<Rightarrow> string" where
  "html_span cls body = ''<span class='' @ [CHR 0x22] @ cls @ [CHR 0x22] @ ''>'' @ body @ ''</span>''"

definition html_div :: "string \<Rightarrow> string \<Rightarrow> string" where
  "html_div cls body = ''<div class='' @ [CHR 0x22] @ cls @ [CHR 0x22] @ ''>'' @ body @ ''</div>''"

text \<open>The layout all fragments share: class, time, icon, kind and detail.\<close>

definition event_item :: "string \<Rightarrow> nat \<Rightarrow> string \<Rightarrow> string \<Rightarrow> string \<Rightarrow> string" where
  "event_item cls ts icon kind detail =
     html_div (''event-item '' @ cls)
       (html_span ''event-time'' (format_time ts) @ html_span ''event-icon'' icon @
        html_div ''event-body'' (html_span ''event-kind'' kind @ html_span ''event-detail'' detail))"

definition node_span :: "string \<Rightarrow> string" where
  "node_span n = html_span ''event-node'' (escape_html n)"

definition right_arrow :: string where "right_arrow = [CHR 0xE2, CHR 0x86, CHR 0x92]"
definition check_mark :: string where "check_mark = [CHR 0xE2, CHR 0x9C, CHR 0x93]"
definition cross_mark :: string where "cross_mark = [CHR 0xE2, CHR 0x9C, CHR 0x95]"

definition label_html :: "string option \<Rightarrow> string" where
  "label_html label = (case label of None \<Rightarrow> [] | Some l \<Rightarrow> '' '' @ html_span ''event-label'' (''['' @ escape_html l @ '']''))"

definition cost_part :: "f64 \<Rightarrow> string" where
  "cost_part cost = (if f64_lt (F_Fin False 0 0) cost then '' $'' @ fixed_point 2 cost else [])"

fun render_event_html :: "pipeline_event \<Rightarrow> string" where
  "render_event_html (PipelineStarted name t) =
     event_item ''event-pipeline_started'' t [CHR 0xE2, CHR 0x9A, CHR 0xA1] ''PIPELINE STARTED'' (escape_html name)"
| "render_event_html (PipelineCompleted out nodes ms t) =
     event_item ''event-pipeline_completed'' t check_mark ''PIPELINE COMPLETED''
       (dec nodes @ '' nodes '' @ [CHR 0xC2, CHR 0xB7] @ '' '' @ format_duration ms)"
| "render_event_html (PipelineAborted reason t) =
     event_item ''event-pipeline_aborted'' t cross_mark ''PIPELINE ABORTED'' (escape_html reason)"
| "render_event_html (NodeStarted n ty t) =
     event_item ''event-node_started'' t [CHR 0xE2, CHR 0x96, CHR 0xB6] ''NODE STARTED''
       (node_span n @ html_span ''event-tag'' (escape_html ty))"
| "render_event_html (NodeCompleted n out ms t) =
     event_item ''event-node_completed'' t check_mark ''NODE COMPLETED''
       (node_span n @ html_span ''event-duration'' (format_duration ms))"
| "render_event_html (NodeFailed n e ms t) =
     event_item ''event-node_failed'' t cross_mark ''NODE FAILED''
       (node_span n @ html_span ''event-duration'' (format_duration ms) @ html_span ''event-error'' (escape_html e))"
| "render_event_html (EdgeTraversed from to label t) =
     event_item ''event-edge_traversed'' t right_arrow ''EDGE''
       (escape_html from @ '' '' @ right_arrow @ '' '' @ escape_html to @ label_html label)"
| "render_event_html (LoopRestarted from to k t) =
     event_item ''event-loop_restarted'' t [CHR 0xE2, CHR 0x86, CHR 0xBB] (''LOOP #'' @ dec k)
       (escape_html from @ '' '' @ right_arrow @ '' '' @ escape_html to)"
| "render_event_html (HumanPromptIssued n q t) =
     event_item ''event-human_prompt_issued'' t ''?'' ''AWAITING INPUT'' (node_span n @ escape_html q)"
| "render_event_html (HumanResponseReceived n r t) =
     event_item ''event-human_response'' t [CHR 0xE2, CHR 0x9C, CHR 0x8E] ''INPUT RECEIVED'' (node_span n)"
| "render_event_html (ContextUpdated k t) =
     event_item ''event-context_updated'' t [CHR 0xE2, CHR 0x9F, CHR 0xB3] ''CTX UPDATE'' (escape_html k)"
| "render_event_html (CheckpointCreated n t) =
     event_item ''event-checkpoint'' t [CHR 0xE2, CHR 0x97, CHR 0x86] ''CHECKPOINT'' (escape_html n)"
| "render_event_html (AgentToolCallStarted n tool i p t) =
     event_item ''event-agent_tool_call_started'' t [CHR 0xF0, CHR 0x9F, CHR 0x94, CHR 0xA7] ''TOOL CALL''
       (node_span n @ html_span ''event-tool-name'' (escape_html tool))"
| "render_event_html (AgentToolCallCompleted n tool i ms err p t) =
     event_item (''event-agent_tool_call_completed'' @ (if err then '' is-error'' else [])) t
       (if err then cross_mark else check_mark) ''TOOL DONE''
       (node_span n @ html_span ''event-tool-name'' (escape_html tool) @
        html_span ''event-duration'' (format_duration ms) @ html_span ''event-result-preview'' (escape_html p))"
| "render_event_html (AgentMessage n txt t) =
     event_item ''event-agent_message'' t [CHR 0xF0, CHR 0x9F, CHR 0x92, CHR 0xAC] ''AGENT''
       (node_span n @ html_span ''event-agent-text'' (escape_html txt))"
| "render_event_html (AgentTurnStarted n turn t) =
     event_item ''event-agent_turn_started'' t [CHR 0xE2, CHR 0x86, CHR 0xBB] (''TURN '' @ dec (unat turn)) (node_span n)"
| "render_event_html (AgentTokenUsage n i out cost t) =
     event_item ''event-agent_token_usage'' t [CHR 0xE2, CHR 0x8A, CHR 0x9B] ''TOKENS''
       (node_span n @ '' in:'' @ dec i @ '' out:'' @ dec out @ cost_part cost)"

definition to_sse_event :: "pipeline_event \<Rightarrow> string \<times> string" where
  "to_sse_event e = (event_name e, render_event_html e)"

section \<open>The stream\<close>

datatype received = Received pipeline_event | Lagged nat | Closed

fun is_terminal :: "pipeline_event \<Rightarrow> bool" where
  "is_terminal (PipelineCompleted out nodes ms t) = True"
| "is_terminal (PipelineAborted reason t) = True"
| "is_terminal e = False"

fun event_stream :: "received list \<Rightarrow> (string \<times> string) list" where
  "event_stream [] = []"
| "event_stream (Received e # rs) = to_sse_event e # (if is_terminal e then [] else event_stream rs)"
| "event_stream (Lagged n # rs) = event_stream rs"
| "event_stream (Closed # rs) = []"

section \<open>No event adds markup to the page\<close>

text \<open>The tags of a text, each from its \<open><\<close> to its \<open>>\<close>.\<close>

fun tags_in :: "string \<Rightarrow> string \<Rightarrow> string list" and tags :: "string \<Rightarrow> string list" where
  "tags_in t [] = [t]"
| "tags_in t (c # s) = (if c = CHR ''>'' then (t @ [c]) # tags s else tags_in (t @ [c]) s)"
| "tags [] = []"
| "tags (c # s) = (if c = CHR ''<'' then tags_in [c] s else tags s)"

definition plain_text :: "string \<Rightarrow> bool" where
  "plain_text s \<longleftrightarrow> CHR ''<'' \<notin> set s"

definition whole_tags :: "string \<Rightarrow> bool" where
  "whole_tags s \<longleftrightarrow> (\<forall>r. tags (s @ r) = tags s @ tags r)"

lemma plain_tags: "plain_text s \<Longrightarrow> tags (s @ r) = tags r"
  by (induction s) (auto simp: plain_text_def)

lemma plain_no_tags: "plain_text s \<Longrightarrow> tags s = []"
  using plain_tags [of s "[]"] by simp

lemma whole_plain: "plain_text s \<Longrightarrow> whole_tags s"
  by (simp add: whole_tags_def plain_tags plain_no_tags)

lemma whole_append: "whole_tags s \<Longrightarrow> whole_tags t \<Longrightarrow> whole_tags (s @ t) \<and> tags (s @ t) = tags s @ tags t"
  by (simp add: whole_tags_def)

lemma tags_in_open: "CHR ''>'' \<notin> set s \<Longrightarrow> tags_in t (s @ CHR ''>'' # r) = (t @ s @ ''>'') # tags r"
  by (induction s arbitrary: t) auto

lemma tags_open: "CHR ''>'' \<notin> set s \<Longrightarrow> tags (CHR ''<'' # s @ CHR ''>'' # r) = (''<'' @ s @ ''>'') # tags r"
  by (simp add: tags_in_open)

definition open_tag :: "string \<Rightarrow> string \<Rightarrow> string" where
  "open_tag name cls = ''<'' @ name @ '' class='' @ [CHR 0x22] @ cls @ [CHR 0x22] @ ''>''"

lemma tags_element:
  assumes "CHR ''>'' \<notin> set cls" "CHR ''>'' \<notin> set name" "whole_tags body"
  shows "tags (open_tag name cls @ body @ ''</'' @ name @ ''>'' @ r) = [open_tag name cls] @ tags body @ [''</'' @ name @ ''>''] @ tags r"
proof -
  have c: "tags (''</'' @ name @ ''>'' @ r) = (''</'' @ name @ ''>'') # tags r"
    using tags_open [of "''/'' @ name" r] assms(2) by simp
  have "tags (open_tag name cls @ z) = open_tag name cls # tags z" for z
    using tags_open [of "name @ '' class='' @ [CHR 0x22] @ cls @ [CHR 0x22]" z] assms(1,2) by (simp add: open_tag_def)
  moreover have "tags (body @ z) = tags body @ tags z" for z using assms(3) by (simp add: whole_tags_def)
  ultimately show ?thesis using c by simp
qed

lemma html_element:
  assumes "CHR ''>'' \<notin> set cls" "whole_tags body"
  shows "whole_tags (html_span cls body)" "whole_tags (html_div cls body)"
    "tags (html_span cls body) = [open_tag ''span'' cls] @ tags body @ [''</span>'']"
    "tags (html_div cls body) = [open_tag ''div'' cls] @ tags body @ [''</div>'']"
proof -
  have s: "html_span cls body @ r = open_tag ''span'' cls @ body @ ''</'' @ ''span'' @ ''>'' @ r" for r
    by (simp add: html_span_def open_tag_def)
  have d: "html_div cls body @ r = open_tag ''div'' cls @ body @ ''</'' @ ''div'' @ ''>'' @ r" for r
    by (simp add: html_div_def open_tag_def)
  have es: "tags (html_span cls body @ r) = [open_tag ''span'' cls] @ tags body @ [''</span>''] @ tags r" for r
    unfolding s by (subst tags_element) (use assms in simp_all)
  have ed: "tags (html_div cls body @ r) = [open_tag ''div'' cls] @ tags body @ [''</div>''] @ tags r" for r
    unfolding d by (subst tags_element) (use assms in simp_all)
  show t: "tags (html_span cls body) = [open_tag ''span'' cls] @ tags body @ [''</span>'']"
    "tags (html_div cls body) = [open_tag ''div'' cls] @ tags body @ [''</div>'']"
    using es [of "[]"] ed [of "[]"] by simp_all
  show "whole_tags (html_span cls body)" "whole_tags (html_div cls body)"
    by (simp_all add: whole_tags_def es ed t)
qed

named_theorems plain_texts \<open>texts without a tag\<close>

lemma plain_text_simps [simp]:
  "plain_text []" "plain_text (c # s) \<longleftrightarrow> c \<noteq> CHR ''<'' \<and> plain_text s"
  "plain_text (s @ t) \<longleftrightarrow> plain_text s \<and> plain_text t"
  by (auto simp: plain_text_def)

lemma replace_char_set: "set (replace_char c r s) \<subseteq> set r \<union> (set s - {c})"
  by (induction s) auto

lemma plain_escape [plain_texts]: "plain_text (escape_html s)"
proof -
  have keep: "plain_text t \<Longrightarrow> plain_text r \<Longrightarrow> plain_text (replace_char c r t)" for c r t
    using replace_char_set [of c r t] by (auto simp: plain_text_def)
  have lt: "plain_text (replace_char CHR ''<'' ''&lt;'' t)" for t
    using replace_char_set [of "CHR ''<''" "''&lt;''" t] by (auto simp: plain_text_def)
  show ?thesis unfolding escape_html_def by (rule keep [OF keep [OF lt]]) simp_all
qed

lemma dec_plain_text [plain_texts]: "plain_text (dec n)"
  using dec_digits [of n] by (auto simp: plain_text_def list_all_iff is_ascii_digit_def code_def)

lemma plain_fixed [plain_texts]: "plain_text (fixed_point k x)"
proof -
  have "plain_text (fixed_digits k n)" for n
    by (simp add: fixed_digits_def Let_def dec_plain_text) (simp add: plain_text_def)
  then show ?thesis by (cases "(k, x)" rule: fixed_point.cases) simp_all
qed

lemma plain_numbers [plain_texts]: "plain_text (format_time t)" "plain_text (format_duration ms)" "plain_text (cost_part c)"
  by (simp_all add: format_time_def two_digits_def format_duration_def cost_part_def Let_def plain_texts)

lemma plain_marks [plain_texts]: "plain_text right_arrow" "plain_text check_mark" "plain_text cross_mark"
  by (simp_all add: right_arrow_def check_mark_def cross_mark_def)

lemma span_plain:
  "plain_text body \<Longrightarrow> CHR ''>'' \<notin> set cls \<Longrightarrow> tags (html_span cls body) = [open_tag ''span'' cls, ''</span>'']"
  "plain_text body \<Longrightarrow> CHR ''>'' \<notin> set cls \<Longrightarrow> whole_tags (html_span cls body)"
  by (simp_all add: html_element whole_plain plain_no_tags)

lemma whole_append_iff: "whole_tags s \<Longrightarrow> whole_tags t \<Longrightarrow> whole_tags (s @ t)"
  "whole_tags s \<Longrightarrow> whole_tags t \<Longrightarrow> tags (s @ t) = tags s @ tags t"
  using whole_append by blast+

text \<open>The tags of a fragment are those of its layout and of its detail.\<close>

lemma event_item_tags:
  assumes "CHR ''>'' \<notin> set cls" "plain_text icon" "plain_text kind" "whole_tags detail"
  shows "tags (event_item cls ts icon kind detail) =
    [open_tag ''div'' (''event-item '' @ cls), open_tag ''span'' ''event-time'', ''</span>'', open_tag ''span'' ''event-icon'', ''</span>'',
     open_tag ''div'' ''event-body'', open_tag ''span'' ''event-kind'', ''</span>'', open_tag ''span'' ''event-detail''] @
    tags detail @ [''</span>'', ''</div>'', ''</div>'']"
  unfolding event_item_def
  by (simp add: html_element whole_append_iff span_plain assms plain_texts)

definition blank_outcome :: outcome where
  "blank_outcome = success"

text \<open>The event with every text emptied and every number zero.\<close>

fun blank :: "pipeline_event \<Rightarrow> pipeline_event" where
  "blank (NodeStarted n ty t) = NodeStarted [] [] 0"
| "blank (NodeCompleted n out ms t) = NodeCompleted [] blank_outcome 0 0"
| "blank (NodeFailed n e ms t) = NodeFailed [] [] 0 0"
| "blank (EdgeTraversed from to label t) = EdgeTraversed [] [] (map_option (\<lambda>l. []) label) 0"
| "blank (HumanPromptIssued n q t) = HumanPromptIssued [] [] 0"
| "blank (HumanResponseReceived n r t) = HumanResponseReceived [] [] 0"
| "blank (ContextUpdated k t) = ContextUpdated [] 0"
| "blank (CheckpointCreated n t) = CheckpointCreated [] 0"
| "blank (PipelineStarted name t) = PipelineStarted [] 0"
| "blank (PipelineCompleted out nodes ms t) = PipelineCompleted blank_outcome 0 0 0"
| "blank (PipelineAborted reason t) = PipelineAborted [] 0"
| "blank (LoopRestarted from to k t) = LoopRestarted [] [] 0 0"
| "blank (AgentToolCallStarted n tool i p t) = AgentToolCallStarted [] [] [] [] 0"
| "blank (AgentToolCallCompleted n tool i ms err p t) = AgentToolCallCompleted [] [] [] 0 err [] 0"
| "blank (AgentMessage n txt t) = AgentMessage [] [] 0"
| "blank (AgentTurnStarted n turn t) = AgentTurnStarted [] 0 0"
| "blank (AgentTokenUsage n i out cost t) = AgentTokenUsage [] 0 0 F_NaN 0"

lemma label_tags:
  "whole_tags (label_html label)"
  "tags (label_html label) = (if label = None then [] else [open_tag ''span'' ''event-label'', ''</span>''])"
proof -
  have p: "whole_tags '' ''" "tags '' '' = []" by (simp_all add: whole_plain plain_no_tags)
  show "whole_tags (label_html label)" unfolding label_html_def
    by (cases label) (simp_all add: whole_append_iff(1) [OF p(1)] whole_plain span_plain plain_texts del: append_Cons append_Nil)
  show "tags (label_html label) = (if label = None then [] else [open_tag ''span'' ''event-label'', ''</span>''])"
    unfolding label_html_def
    by (cases label) (simp_all add: whole_append_iff(2) [OF p(1)] p whole_plain span_plain plain_texts del: append_Cons append_Nil)
qed

lemma plain_then:
  "plain_text s \<Longrightarrow> whole_tags t \<Longrightarrow> whole_tags (s @ t)" "plain_text s \<Longrightarrow> tags (s @ t) = tags t"
  "plain_text (c # s) \<Longrightarrow> tags (c # s @ t) = tags t" "plain_text (c # s) \<Longrightarrow> whole_tags t \<Longrightarrow> whole_tags (c # s @ t)"
  using plain_tags [of s t] plain_tags [of "c # s" t] whole_append_iff(1) [OF whole_plain, of s t]
    whole_append_iff(1) [OF whole_plain, of "c # s" t] by simp_all

lemma node_span_tags:
  "whole_tags (node_span n)" "tags (node_span n) = [open_tag ''span'' ''event-node'', ''</span>'']"
  by (simp_all add: node_span_def span_plain plain_texts)

lemmas html_tags = event_item_tags whole_append_iff span_plain node_span_tags label_tags plain_then plain_texts
  whole_plain plain_no_tags

text \<open>C11. 
  Whatever the names, texts and numbers of an event are, its fragment has the tags of the fragment with all of
  them empty: nothing a model, a tool, a person or a pipeline writes becomes markup of the page.
\<close>

theorem html_markup_fixed: "tags (render_event_html e) = tags (render_event_html (blank e))"
proof (cases e)
  case (AgentToolCallCompleted n tool i ms err p t)
  then show ?thesis by (cases err) (simp_all add: html_tags)
qed (simp_all add: html_tags)

section \<open>The text survives\<close>

text \<open>What a browser shows for the four entities.\<close>

fun decode_entities :: "string \<Rightarrow> string" where
  "decode_entities [] = []"
| "decode_entities (c # s) =
     (if starts_with (c # s) ''&amp;'' then CHR ''&'' # decode_entities (drop 4 s)
      else if starts_with (c # s) ''&lt;'' then CHR ''<'' # decode_entities (drop 3 s)
      else if starts_with (c # s) ''&gt;'' then CHR ''>'' # decode_entities (drop 3 s)
      else if starts_with (c # s) ''&quot;'' then CHR 0x22 # decode_entities (drop 5 s)
      else c # decode_entities s)"

definition escape_char :: "char \<Rightarrow> string" where
  "escape_char c = (if c = CHR ''&'' then ''&amp;'' else if c = CHR ''<'' then ''&lt;'' else if c = CHR ''>'' then ''&gt;''
     else if c = CHR 0x22 then ''&quot;'' else [c])"

lemma replace_char_append: "replace_char c r (s @ t) = replace_char c r s @ replace_char c r t"
  by (induction s) auto

lemma escape_html_Cons: "escape_html (c # s) = escape_char c @ escape_html s"
  by (simp add: escape_html_def escape_char_def replace_char_append)

text \<open>What the page shows of a text is the text.\<close>

theorem escape_html_decodes: "decode_entities (escape_html s) = s"
proof (induction s)
  case (Cons c s)
  then show ?case by (simp add: escape_html_Cons escape_char_def starts_with_def)
qed (simp add: escape_html_def)

section \<open>What a subscriber sees\<close>

text \<open>
  Up to the end of a run, the stream is the events received, in order, each once; it ends with the first event that
  ends the run, whatever the channel holds after it.
\<close>

definition received_events :: "received list \<Rightarrow> pipeline_event list" where
  "received_events rs = List.map_filter (\<lambda>r. case r of Received e \<Rightarrow> Some e | _ \<Rightarrow> None) (takeWhile (\<lambda>r. r \<noteq> Closed) rs)"

lemma received_events_simps [simp]:
  "received_events [] = []" "received_events (Received e # rs) = e # received_events rs"
  "received_events (Lagged n # rs) = received_events rs" "received_events (Closed # rs) = []"
  by (simp_all add: received_events_def map_filter_def)

theorem event_stream_spec:
  "event_stream rs =
     map to_sse_event (takeWhile (\<lambda>e. \<not> is_terminal e) (received_events rs) @
       take 1 (dropWhile (\<lambda>e. \<not> is_terminal e) (received_events rs)))"
  by (induction rs rule: event_stream.induct) auto

end
