(* ===== verification/Backends.thy ===== *)
theory Backends
  imports Handler Events Agent_Tools Preflight
begin

text \<open>
  The backends that answer a node with an agent session: those of the web server, \<open>smasher-web/src/backend.rs\<close>,
  those of the command line, \<open>llm_backends.rs\<close> and \<open>run.rs\<close>, and the bridge that turns the session's events
  into pipeline events and counts tokens.  The environment of a session, the tools' environment and the text of a
  JSON value are parameters.
\<close>

section \<open>A session per node\<close>

record 'w agent_kit =
  ak_session :: "'w session_env" \<comment> \<open>with the tools still to be registered\<close>
  ak_parse_json :: "string \<Rightarrow> string + json"
  ak_clock :: "'w \<Rightarrow> nat"
  ak_local_env :: "string \<Rightarrow> 'w exec_env" \<comment> \<open>of a working directory\<close>
  ak_session_id :: string
  ak_render :: "json \<Rightarrow> string"

definition context_parts :: "(json \<Rightarrow> string) \<Rightarrow> context_map \<Rightarrow> string list" where
  "context_parts render ctx =
     map (\<lambda>(k, v). k @ '': '' @ v) (filter (\<lambda>(k, v). \<not> starts_with k ''_'') (to_string_map render ctx))"

definition kit_env :: "'w agent_kit \<Rightarrow> string \<Rightarrow> 'w session_env" where
  "kit_env kit dir =
     (ak_session kit)\<lparr>sx_registry := register_shared_tools (ak_parse_json kit) (ak_clock kit) (ak_local_env kit dir) registry_new\<rparr>"

definition node_config :: "string \<Rightarrow> 32 word \<Rightarrow> string \<Rightarrow> string \<Rightarrow> session_config" where
  "node_config model max_turns system_prompt dir =
     config_working_directory dir (config_system_prompt system_prompt (config_max_turns max_turns
       (config_model model default_session_config)))"

definition session_error_text :: "session_error \<Rightarrow> string" where
  "session_error_text e =
     (case e of
        SessionLlm l \<Rightarrow> ''LLM error: '' @ llm_error_text l
      | Inactive \<Rightarrow> ''session is no longer active''
      | TurnLimitReached n \<Rightarrow> ''turn limit reached ('' @ dec (unat n) @ '' turns)''
      | Session.Cancelled \<Rightarrow> ''session cancelled''
      | SessionOther m \<Rightarrow> m)"

type_synonym 'w answered = "(handler_error fault + outcome) \<times> session \<times> 'w"

definition response_outcome :: "string \<Rightarrow> outcome" where
  "response_outcome text = success_with (JObject [(''response'', JString text)])"

text \<open>What a backend makes of the end of its session.\<close>

definition session_answer :: "string \<Rightarrow> session_error fault + session_output \<Rightarrow> handler_error fault + outcome" where
  "session_answer label r =
     (case r of
        Inr output \<Rightarrow> Inr (response_outcome (case so_text output of Some t \<Rightarrow> t | None \<Rightarrow> []))
      | Inl (Err e) \<Rightarrow> Inl (Err (OtherError (label @ session_error_text e)))
      | Inl (Panic p) \<Rightarrow> Inl (Panic p))"

definition run_session ::
  "'w agent_kit \<Rightarrow> string \<Rightarrow> session_config \<Rightarrow> string \<Rightarrow> string \<Rightarrow> 'w \<Rightarrow> 'w answered" where
  "run_session kit label config dir input w =
     (case process_input (kit_env kit dir) input (session_new config (ak_session_id kit)) w of
        (r, s, w1) \<Rightarrow> (session_answer label r, s, w1))"

section \<open>The backends\<close>

definition coding_instructions :: string where
  "coding_instructions =
     ''You have tools for reading files, writing files, editing files, running shell commands, grep, and glob. Use them to complete the task. Write all files in the current working directory.''"

definition coding_system_prompt :: "string list \<Rightarrow> string" where
  "coding_system_prompt parts =
     (if parts = [] then ''You are an AI coding assistant executing a pipeline step. '' @ coding_instructions
      else ''You are an AI coding assistant executing a pipeline step. Pipeline context:'' @ [CHR 0x0A] @
           join [CHR 0x0A] parts @ [CHR 0x0A, CHR 0x0A] @ coding_instructions)"

definition agent_generate ::
  "'w agent_kit \<Rightarrow> string \<Rightarrow> string \<Rightarrow> string \<Rightarrow> string option \<Rightarrow> context_map \<Rightarrow> 'w \<Rightarrow> 'w answered" where
  "agent_generate kit default_model dir prompt model ctx w =
     (let model_id = (case model of Some m \<Rightarrow> m | None \<Rightarrow> default_model);
          system_prompt = coding_system_prompt (context_parts (ak_render kit) ctx)
      in run_session kit ''Agent session error: '' (node_config model_id 50 system_prompt dir) dir prompt w)"

text \<open>The coordinator and the tool of the web server put the context into the input.\<close>

definition with_context :: "string \<Rightarrow> string list \<Rightarrow> string" where
  "with_context prompt parts =
     (if parts = [] then prompt else prompt @ [CHR 0x0A] @ ''Context:'' @ [CHR 0x0A] @ join [CHR 0x0A] parts)"

definition web_coordinate ::
  "'w agent_kit \<Rightarrow> string \<Rightarrow> string \<Rightarrow> string \<Rightarrow> json \<Rightarrow> context_map \<Rightarrow> 'w \<Rightarrow> 'w answered" where
  "web_coordinate kit model dir task config ctx w =
     run_session kit ''Manager agent session error: ''
       (node_config model 20 ''You are an AI coordination agent executing a manager task in a pipeline. Analyze the task, consider the configuration, and produce a clear result.'' dir)
       dir (with_context (''Task: '' @ task @ [CHR 0x0A] @ ''Config: '' @ ak_render kit config) (context_parts (ak_render kit) ctx)) w"

definition tool_prompt :: "string \<Rightarrow> string \<Rightarrow> string" where
  "tool_prompt tool_name args = ''Execute tool '' @ [CHR 0x27] @ tool_name @ [CHR 0x27] @ '' with arguments: '' @ args"

definition web_execute_tool ::
  "'w agent_kit \<Rightarrow> string \<Rightarrow> string \<Rightarrow> string \<Rightarrow> json \<Rightarrow> context_map \<Rightarrow> 'w \<Rightarrow> 'w answered" where
  "web_execute_tool kit model dir tool_name args ctx w =
     run_session kit ''Tool agent session error: ''
       (node_config model 20 ''You are an AI tool executor in a pipeline. Execute the specified tool operation and return the results.'' dir)
       dir (with_context (tool_prompt tool_name (ak_render kit args)) (context_parts (ak_render kit) ctx)) w"

text \<open>Those of the command line put it into the system prompt.\<close>

definition shown_parts :: "string list \<Rightarrow> string" where
  "shown_parts parts = (if parts = [] then ''(empty)'' else join [CHR 0x0A] parts)"

definition lines_of :: "string list \<Rightarrow> string" where
  "lines_of ls = join [CHR 0x0A] ls"

definition cli_coordinate ::
  "'w agent_kit \<Rightarrow> string \<Rightarrow> string \<Rightarrow> string \<Rightarrow> json \<Rightarrow> context_map \<Rightarrow> 'w \<Rightarrow> 'w answered" where
  "cli_coordinate kit model dir task config ctx w =
     (let system_prompt = lines_of
        [''You are an AI coordinator managing a pipeline step.'', ''Task: '' @ task, ''Config: '' @ ak_render kit config, [],
         ''Pipeline context:'', shown_parts (context_parts (ak_render kit) ctx), [],
         ''Analyze the task and provide your coordination response. You have tools for reading files, writing files, editing files, running shell commands, grep, and glob.'']
      in run_session kit ''Manager session error: '' (node_config model 30 system_prompt dir) dir task w)"

definition cli_execute_tool ::
  "'w agent_kit \<Rightarrow> string \<Rightarrow> string \<Rightarrow> string \<Rightarrow> json \<Rightarrow> context_map \<Rightarrow> 'w \<Rightarrow> 'w answered" where
  "cli_execute_tool kit model dir tool_name args ctx w =
     (let system_prompt = lines_of
        [''You are an AI assistant executing a tool in a pipeline.'', ''Tool: '' @ tool_name, ''Arguments: '' @ ak_render kit args, [],
         ''Pipeline context:'', shown_parts (context_parts (ak_render kit) ctx), [],
         ''Execute the requested tool operation. You have tools for reading files, writing files, editing files, running shell commands, grep, and glob.'']
      in run_session kit ''Tool session error: '' (node_config model 30 system_prompt dir) dir
           (tool_prompt tool_name (ak_render kit args)) w)"

definition web_available_tools :: "string list" where
  "web_available_tools = []"

definition cli_available_tools :: "string list" where
  "cli_available_tools = [''read_file'', ''write_file'', ''edit_file'', ''shell'', ''grep'', ''glob_files'']"

section \<open>The bridge of events\<close>

definition truncate_text :: "string \<Rightarrow> nat \<Rightarrow> string" where
  "truncate_text s max_len = (if length s \<le> max_len then s else take_chars max_len s @ ''...'')"

fun bridge_event :: "string \<Rightarrow> nat \<Rightarrow> session_event \<Rightarrow> pipeline_event option" where
  "bridge_event node_id now (SE_ToolCallStarted tool_name tool_call_id input_preview) =
     Some (AgentToolCallStarted node_id tool_name tool_call_id input_preview now)"
| "bridge_event node_id now (SE_ToolCallCompleted tool_name tool_call_id result is_error duration_ms) =
     Some (AgentToolCallCompleted node_id tool_name tool_call_id duration_ms is_error (truncate_text result 120) now)"
| "bridge_event node_id now (SE_TurnStarted turn_number) = Some (AgentTurnStarted node_id turn_number now)"
| "bridge_event node_id now (SE_TextDelta t) =
     (if length t > 10 then Some (AgentMessage node_id (truncate_text t 200) now) else None)"
| "bridge_event node_id now e = None"

text \<open>The counters are atomic 64-bit numbers, whose additions wrap.\<close>

record token_counters =
  tk_input :: "64 word"
  tk_output :: "64 word"

definition count_usage :: "response \<Rightarrow> token_counters \<Rightarrow> token_counters" where
  "count_usage r c =
     c\<lparr>tk_input := tk_input c + ucast (us_input_tokens (rs_usage r)),
       tk_output := tk_output c + ucast (us_output_tokens (rs_usage r))\<rparr>"

fun bridge_count :: "session_event \<Rightarrow> token_counters \<Rightarrow> token_counters" where
  "bridge_count (SE_AssistantMessage response) c = count_usage response c"
| "bridge_count e c = c"

datatype bridge_item = Bridged session_event nat | Missed nat

fun bridge :: "string \<Rightarrow> bridge_item list \<Rightarrow> token_counters \<Rightarrow> pipeline_event list \<times> token_counters" where
  "bridge node_id [] c = ([], c)"
| "bridge node_id (Bridged e now # rest) c =
     (case bridge node_id rest (bridge_count e c) of
        (es, c1) \<Rightarrow> ((case bridge_event node_id now e of Some pe \<Rightarrow> pe # es | None \<Rightarrow> es), c1))"
| "bridge node_id (Missed n # rest) c = bridge node_id rest c"

definition bridge_node_id :: "context_map \<Rightarrow> string" where
  "bridge_node_id ctx = (case context_get_string ctx ''_current_node_id'' of Some n \<Rightarrow> n | None \<Rightarrow> ''unknown'')"

section \<open>What a node's session leaves\<close>

lemma run_session_inv:
  assumes "joins_in_order (sx_join_all (ak_session kit))" "run_session kit label config dir input w = (r, s, w1)"
  shows "(\<nexists>p. r = Inl (Panic p)) \<and> accounts s"
proof -
  have j: "joins_in_order (sx_join_all (kit_env kit dir))" using assms(1) by (simp add: kit_env_def)
  obtain q where p: "process_input (kit_env kit dir) input (session_new config (ak_session_id kit)) w = (q, s, w1)"
    and r: "r = session_answer label q"
    using assms(2) by (auto simp: run_session_def split: prod.splits)
  from process_input_inv [OF j reachable_session_inv [OF j rs_new] p] show ?thesis
    by (auto simp: r session_answer_def session_inv_def split: sum.splits fault.splits)
qed

lemma bridge_counters:
  "length ts = length es \<Longrightarrow> snd (bridge n (map2 Bridged es ts) c) = fold count_usage (List.map_filter event_response es) c"
proof (induction es ts arbitrary: c rule: list_induct2')
  case (4 e es t ts)
  then show ?case by (cases e) (simp_all add: split_beta map_filter_def)
qed (simp_all add: map_filter_def)

lemma ucast_count: "(ucast (a + ucast b :: 64 word) :: 32 word) = ucast a + (b :: 32 word)"
proof transfer
  fix a b :: int
  have split: "take_bit 32 (x + y) = take_bit 32 (take_bit 32 x + take_bit 32 y)" for x y :: int
    by (simp add: take_bit_add)
  show "take_bit LENGTH(32) (take_bit LENGTH(64) (a + take_bit LENGTH(32) b)) = take_bit LENGTH(32) (take_bit LENGTH(64) a + b)"
    using split [of a "take_bit 32 b"] split [of "take_bit 64 a" b] by simp
qed
lemma fold_count_usage:
  "(ucast (tk_input (fold count_usage rs c)) :: 32 word) + us_input_tokens u =
     ucast (tk_input c) + us_input_tokens (usage_sum (map rs_usage rs) u)"
  "(ucast (tk_output (fold count_usage rs c)) :: 32 word) + us_output_tokens u =
     ucast (tk_output c) + us_output_tokens (usage_sum (map rs_usage rs) u)"
proof (induction rs arbitrary: c u)
  case (Cons r rs)
  {
    case 1
    show ?case using Cons(1) [of "count_usage r c" "usage_add u (rs_usage r)"]
      by (simp add: count_usage_def usage_add_def ucast_count algebra_simps)
  next
    case 2
    show ?case using Cons(2) [of "count_usage r c" "usage_add u (rs_usage r)"]
      by (simp add: count_usage_def usage_add_def ucast_count algebra_simps)
  }
qed simp_all

fun tool_started :: "pipeline_event \<Rightarrow> (string \<times> string) option" where
  "tool_started (AgentToolCallStarted n tool i p t) = Some (tool, i)"
| "tool_started e = None"

fun tool_completed :: "pipeline_event \<Rightarrow> (string \<times> string) option" where
  "tool_completed (AgentToolCallCompleted n tool i ms err p t) = Some (tool, i)"
| "tool_completed e = None"

lemma bridge_tools:
  "length ts = length es \<Longrightarrow>
     List.map_filter tool_started (fst (bridge n (map2 Bridged es ts) c)) = List.map_filter event_started es \<and>
     List.map_filter tool_completed (fst (bridge n (map2 Bridged es ts) c)) = List.map_filter event_completed es"
proof (induction es ts arbitrary: c rule: list_induct2')
  case (4 e es t ts)
  then show ?case by (cases e) (simp_all add: split_beta map_filter_def)
qed (simp_all add: map_filter_def)

text \<open>C32. 
  A node answered by an agent session never panics, and when the bridge receives every event of the session (its
  channel does not lag; what it misses in a lag it passes over), the page sees every tool call it saw starting
  complete, in the same order, and the counters grow by the tokens the session reports, as 32-bit numbers.
\<close>

theorem agent_node_accounted:
  assumes j: "joins_in_order (sx_join_all (ak_session kit))"
    and g: "agent_generate kit default_model dir prompt model ctx w = (r, s, w1)"
    and ts: "length ts = length (sn_events s)"
    and b: "bridge (bridge_node_id ctx) (map2 Bridged (sn_events s) ts) c = (es, c')"
  shows "(\<nexists>p. r = Inl (Panic p)) \<and> List.map_filter tool_started es = List.map_filter tool_completed es \<and>
    (ucast (tk_input c') :: 32 word) = ucast (tk_input c) + us_input_tokens (ss_total_usage (sn_state s)) \<and>
    (ucast (tk_output c') :: 32 word) = ucast (tk_output c) + us_output_tokens (ss_total_usage (sn_state s))"
proof -
  from run_session_inv [OF j g [unfolded agent_generate_def Let_def]]
  have np: "\<nexists>p. r = Inl (Panic p)" and acc: "accounts s" by blast+
  have c': "c' = fold count_usage (session_responses s) c"
    using bridge_counters [OF ts, of "bridge_node_id ctx" c] b acc by (simp add: accounts_def)
  have tools: "List.map_filter tool_started es = List.map_filter tool_completed es"
    using bridge_tools [OF ts, of "bridge_node_id ctx" c] b acc by (simp add: accounts_def)
  note sums = fold_count_usage [of "session_responses s" c default_usage]
  have "ss_total_usage (sn_state s) = usage_sum (map rs_usage (session_responses s)) default_usage"
    using acc by (simp add: accounts_def)
  with np tools sums show ?thesis by (simp add: c' default_usage_def)
qed

section \<open>Examples\<close>

definition sample_kit :: "(file_system \<times> unit) agent_kit" where
  "sample_kit =
     \<lparr>ak_session = \<lparr>sx_complete = (\<lambda>r w. (fst (sample_complete r ()), w)), sx_registry = registry_new, sx_join_all = join_sequential,
        sx_cancelled = (\<lambda>w. (False, w)), sx_parse_json = (\<lambda>s. None), sx_hash = (\<lambda>s. 0), sx_debug = (\<lambda>p. [])\<rparr>,
      ak_parse_json = (\<lambda>s. Inl []), ak_clock = (\<lambda>w. 0), ak_local_env = (\<lambda>dir. local_env 0 sample_os (environment_new dir)),
      ak_session_id = ''s'', ak_render = (\<lambda>v. [])\<rparr>"

theorem agent_node_accounted_witness:
  "\<nexists>p. fst (agent_generate sample_kit ''m'' ''/w'' ''hi'' None [] (sample_fs, ())) = Inl (Panic p)"
proof -
  obtain r s w1 where g: "agent_generate sample_kit ''m'' ''/w'' ''hi'' None [] (sample_fs, ()) = (r, s, w1)" by (metis prod_cases3)
  have j: "joins_in_order (sx_join_all (ak_session sample_kit))"
    by (simp add: sample_kit_def joins_in_order_sequential)
  obtain es c' where b: "bridge (bridge_node_id []) (map2 Bridged (sn_events s) (replicate (length (sn_events s)) 0))
      \<lparr>tk_input = 0, tk_output = 0\<rparr> = (es, c')" by force
  from agent_node_accounted [OF j g _ b] g show ?thesis by simp
qed

text \<open>The file tools name their file \<open>path\<close>, the preview of a call looks for \<open>file_path\<close>: it stays empty.\<close>

lemma own_file_tools_no_preview:
  assumes "tool \<in> {''read_file'', ''write_file'', ''edit_file''}" "map_of kvs ''file_path'' = None"
  shows "tool_input_preview_from_value tool (JObject kvs) = []"
proof -
  have low: "to_lower ''read_file'' = ''read_file''" "to_lower ''write_file'' = ''write_file''" "to_lower ''edit_file'' = ''edit_file''"
    by code_simp+
  have empty: "truncate_preview (input_str (JObject kvs) ''file_path'') 80 = []"
    by (simp add: input_str_def assms(2) truncate_preview_def char_count_def)
  from assms(1) consider "tool = ''read_file''" | "tool = ''write_file''" | "tool = ''edit_file''" by blast
  then show ?thesis by cases (simp_all add: tool_input_preview_from_value_def Let_def low empty)
qed

text \<open>A text that is short in characters and long in bytes is marked as cut although nothing is cut.\<close>

lemma take_chars_all: "char_count s \<le> n \<Longrightarrow> take_chars n s = s"
  by (induction n s rule: take_chars.induct) (auto simp: char_count_def split: nat.splits if_splits)

lemma marked_not_cut: "char_count s \<le> n \<Longrightarrow> n < length s \<Longrightarrow> truncate_text s n = s @ ''...''"
  by (simp add: truncate_text_def take_chars_all)

end
