(* ===== verification/Cli_Backends.thy ===== *)
theory Cli_Backends
  imports Backends Llm_Stream Sse
begin

text \<open>
  The backends of the command line that run a process for a node, \<open>smasher-cli/src/run.rs\<close>: the \<open>claude\<close> program,
  printing or streaming, with its count of consecutive timeouts, and the shell.  A process is what the outside
  world makes of a command: it is not started, fails, times out, or ends with its status and the bytes of its two
  outputs.
\<close>

section \<open>Processes\<close>

record process_command =
  pm_program :: string
  pm_args :: "string list"
  pm_directory :: string
  pm_removed_vars :: "string list"
  pm_only_vars :: "(string \<times> string) list option" \<comment> \<open>the whole environment, where it is cleared first\<close>

datatype process_end =
    Not_Spawned string
  | Broken string "string list" \<comment> \<open>the lines of standard output read before\<close>
  | Timed_Out "string list"
  | Ended "int option" string string \<comment> \<open>exit code, standard output, standard error\<close>

type_synonym 'w processes = "process_command \<Rightarrow> duration \<Rightarrow> 'w \<Rightarrow> process_end \<times> 'w"

definition exit_text :: "int option \<Rightarrow> string" where
  "exit_text status = (case status of Some c \<Rightarrow> (if c < 0 then ''-'' @ dec (nat (- c)) else dec (nat c)) | None \<Rightarrow> ''unknown'')"

section \<open>The stream of the claude program\<close>

record stream_state =
  sr_result :: "string option"
  sr_prev_input :: nat
  sr_prev_output :: nat
  sr_seen :: "string set"

definition stream_start :: stream_state where
  "stream_start = \<lparr>sr_result = None, sr_prev_input = 0, sr_prev_output = 0, sr_seen = {}\<rparr>"

definition str_at :: "string list \<Rightarrow> json \<Rightarrow> string" where
  "str_at path v = (case json_string (fold json_index path v) of Some s \<Rightarrow> s | None \<Rightarrow> [])"

definition u64_at :: "string list \<Rightarrow> json \<Rightarrow> nat" where
  "u64_at path v = (case json_u64 (fold json_index path v) of Some n \<Rightarrow> n | None \<Rightarrow> 0)"

fun json_f64 :: "json \<Rightarrow> f64 option" where
  "json_f64 (JNumber (JPosInt n)) = Some (f64_of_nat n)"
| "json_f64 (JNumber (JNegInt i)) = Some (round_frac (i < 0) (nat \<bar>i\<bar>) 1)"
| "json_f64 (JNumber (JFloat x)) = Some x"
| "json_f64 _ = None"

text \<open>The tokens of one message: what is reported is a running total, what is emitted the growth; messages that
  repeat an identifier count once.\<close>

definition message_tokens :: "string \<Rightarrow> nat \<Rightarrow> json \<Rightarrow> stream_state \<Rightarrow> pipeline_event list \<times> stream_state" where
  "message_tokens node_id now v st =
     (let msg_id = str_at [''message'', ''id''] v in
      if msg_id = [] \<or> msg_id \<in> sr_seen st then ([], st)
      else
        let cumulative_in = u64_at [''message'', ''usage'', ''input_tokens''] v;
            cumulative_out = u64_at [''message'', ''usage'', ''output_tokens''] v;
            delta_in = cumulative_in - sr_prev_input st;
            delta_out = cumulative_out - sr_prev_output st
        in (if delta_in > 0 \<or> delta_out > 0
            then [AgentTokenUsage node_id delta_in delta_out (F_Fin False 0 0) now] else [],
            st\<lparr>sr_seen := insert msg_id (sr_seen st), sr_prev_input := cumulative_in, sr_prev_output := cumulative_out\<rparr>))"

definition block_event :: "string \<Rightarrow> nat \<Rightarrow> json \<Rightarrow> pipeline_event option" where
  "block_event node_id now block =
     (case Option.bind (json_field ''type'' block) json_string of
        Some t \<Rightarrow>
          (if t = ''tool_use'' then
             let tool_name = str_at [''name''] block
             in Some (AgentToolCallStarted node_id tool_name (str_at [''id''] block)
                  (tool_input_preview_from_value tool_name (json_index ''input'' block)) now)
           else if t = ''text'' then Some (AgentMessage node_id (str_at [''text''] block) now)
           else None)
      | None \<Rightarrow> None)"

definition message_blocks :: "string \<Rightarrow> nat \<Rightarrow> json \<Rightarrow> pipeline_event list" where
  "message_blocks node_id now v =
     (case json_elements (fold json_index [''message'', ''content''] v) of
        Some blocks \<Rightarrow> List.map_filter (block_event node_id now) blocks
      | None \<Rightarrow> [])"

text \<open>With no emitter nothing is emitted, and the tokens are not followed either.\<close>

definition stream_object :: "bool \<Rightarrow> string \<Rightarrow> nat \<Rightarrow> json \<Rightarrow> stream_state \<Rightarrow> pipeline_event list \<times> stream_state" where
  "stream_object emits node_id now v st =
     (case Option.bind (json_field ''type'' v) json_string of
        Some t \<Rightarrow>
          (if t = ''assistant'' then
             (if emits then
                let (es, st1) = message_tokens node_id now v st in (es @ message_blocks node_id now v, st1)
              else ([], st))
           else if t = ''result'' then
             let st1 = st\<lparr>sr_result := Some (str_at [''result''] v)\<rparr>;
                 cost = (case json_f64 (json_index ''total_cost_usd'' v) of Some x \<Rightarrow> x | None \<Rightarrow> F_Fin False 0 0)
             in (if emits \<and> f64_lt (F_Fin False 0 0) cost then [AgentTokenUsage node_id 0 0 cost now] else [], st1)
           else ([], st))
      | None \<Rightarrow> ([], st))"

definition stream_line ::
  "(string \<Rightarrow> json option) \<Rightarrow> bool \<Rightarrow> string \<Rightarrow> nat \<Rightarrow> string \<Rightarrow> stream_state \<Rightarrow> pipeline_event list \<times> stream_state" where
  "stream_line parse_json emits node_id now line st =
     (let l = trim line in
      if l = [] then ([], st)
      else (case parse_json l of Some v \<Rightarrow> stream_object emits node_id now v st | None \<Rightarrow> ([], st)))"

text \<open>A line that is no UTF-8 ends the reading with an error.\<close>

fun stream_lines ::
  "(string \<Rightarrow> json option) \<Rightarrow> bool \<Rightarrow> string \<Rightarrow> nat \<Rightarrow> string list \<Rightarrow> stream_state \<Rightarrow> pipeline_event list \<times> stream_state option" where
  "stream_lines parse_json emits node_id now [] st = ([], Some st)"
| "stream_lines parse_json emits node_id now (l # ls) st =
     (if from_utf8_lossy l \<noteq> l then ([], None)
      else
        let (es, st1) = stream_line parse_json emits node_id now l st;
            (rest, st2) = stream_lines parse_json emits node_id now ls st1
        in (es @ rest, st2))"

section \<open>The claude backend\<close>

record claude_backend =
  cb_working_dir :: string
  cb_timeout :: duration
  cb_claude_path :: "string option"
  cb_streaming :: bool
  cb_emits :: bool
  cb_max_consecutive_timeouts :: "32 word"

definition combined_prompt :: "(json \<Rightarrow> string) \<Rightarrow> string \<Rightarrow> context_map \<Rightarrow> string" where
  "combined_prompt render prompt ctx =
     (let parts = context_parts render ctx in
      if parts = [] then prompt
      else ''Pipeline context:'' @ [CHR 0x0A] @ join [CHR 0x0A] parts @ [CHR 0x0A, CHR 0x0A] @ prompt)"

definition nested_session_vars :: "string list" where
  "nested_session_vars = [''CLAUDE_CODE_ENTRYPOINT'', ''CLAUDECODE'', ''CLAUDE_CODE_DISABLE_FEEDBACK_SURVEY'',
     ''CLAUDE_CODE_EXPERIMENTAL_AGENT_TEAMS'', ''CLAUDE_CODE_SESSION'']"

definition claude_command :: "(json \<Rightarrow> string) \<Rightarrow> claude_backend \<Rightarrow> string \<Rightarrow> context_map \<Rightarrow> process_command" where
  "claude_command render cb prompt ctx =
     \<lparr>pm_program = (case cb_claude_path cb of Some p \<Rightarrow> p | None \<Rightarrow> ''claude''),
      pm_args = [''--dangerously-skip-permissions''] @
        (if cb_streaming cb then [''--verbose'', ''--output-format'', ''stream-json''] else [''--print'']) @
        [''-p'', combined_prompt render prompt ctx],
      pm_directory = cb_working_dir cb, pm_removed_vars = nested_session_vars, pm_only_vars = None\<rparr>"

text \<open>The shared count of consecutive timeouts, a 32-bit number that wraps.\<close>

definition record_timeout :: "claude_backend \<Rightarrow> 32 word \<Rightarrow> (handler_error + outcome) \<times> 32 word" where
  "record_timeout cb timeouts =
     (let count = timeouts + 1; secs = dec (as_secs (cb_timeout cb)) in
      (if cb_max_consecutive_timeouts cb > 0 \<and> count \<ge> cb_max_consecutive_timeouts cb
       then Inl (OtherError (''aborting: '' @ dec (unat count) @ '' consecutive timeouts ('' @ secs @
              ''s each). Consider increasing --agent-timeout or simplifying node prompts.''))
       else Inr (failure (''claude CLI timed out after '' @ secs @ ''s ('' @ dec (unat count) @ ''/'' @
              dec (unat (cb_max_consecutive_timeouts cb)) @ '' consecutive timeouts)'')),
       count))"

definition read_stream ::
  "(string \<Rightarrow> json option) \<Rightarrow> nat \<Rightarrow> claude_backend \<Rightarrow> context_map \<Rightarrow> string list \<Rightarrow> pipeline_event list \<times> stream_state option" where
  "read_stream parse_json now cb ctx ls =
     (let node_id = (case context_get_string ctx ''_current_node_id'' of Some n \<Rightarrow> n | None \<Rightarrow> [])
      in if cb_streaming cb then stream_lines parse_json (cb_emits cb) node_id now ls stream_start else ([], Some stream_start))"

definition claude_generate ::
  "'w processes \<Rightarrow> (json \<Rightarrow> string) \<Rightarrow> (string \<Rightarrow> json option) \<Rightarrow> nat \<Rightarrow> claude_backend \<Rightarrow> string \<Rightarrow> context_map \<Rightarrow>
     32 word \<Rightarrow> 'w \<Rightarrow> (handler_error + outcome) \<times> pipeline_event list \<times> 32 word \<times> 'w" where
  "claude_generate run render parse_json now cb prompt ctx timeouts w =
     (case run (claude_command render cb prompt ctx) (cb_timeout cb) w of
        (Not_Spawned e, w1) \<Rightarrow> (Inl (OtherError (''failed to spawn claude CLI: '' @ e)), [], timeouts, w1)
      | (Broken e ls, w1) \<Rightarrow>
          (Inl (OtherError (''failed to run claude CLI: '' @ e)), fst (read_stream parse_json now cb ctx ls), timeouts, w1)
      | (Timed_Out ls, w1) \<Rightarrow>
          (let (r, n) = record_timeout cb timeouts in (r, fst (read_stream parse_json now cb ctx ls), n, w1))
      | (Ended status stdout stderr, w1) \<Rightarrow>
          (case read_stream parse_json now cb ctx (str_lines stdout) of
             (es, None) \<Rightarrow>
               (Inl (OtherError ''failed to run claude CLI: stream did not contain valid UTF-8''), es, timeouts, w1)
           | (es, Some st) \<Rightarrow>
               (if status \<noteq> Some 0
                then Inl (OtherError (''claude CLI exit code '' @ exit_text status @ '': '' @ from_utf8_lossy stderr))
                else Inr (response_outcome
                  (if cb_streaming cb then (case sr_result st of Some t \<Rightarrow> t | None \<Rightarrow> [])
                   else trim (from_utf8_lossy stdout))),
                es, 0, w1)))"

section \<open>The shell backend\<close>

definition kept_vars :: "string list" where
  "kept_vars = [''PATH'', ''HOME'', ''USER'', ''LANG'', ''TERM'', ''TMPDIR'', ''SHELL'']"

definition shell_vars :: "(string \<Rightarrow> string option) \<Rightarrow> (json \<Rightarrow> string) \<Rightarrow> context_map \<Rightarrow> (string \<times> string) list" where
  "shell_vars var render ctx =
     List.map_filter (\<lambda>v. map_option (\<lambda>x. (v, x)) (var v)) kept_vars @
     map (\<lambda>(k, v). (''SMASHER_CTX_'' @ k, v)) (filter (\<lambda>(k, v). \<not> starts_with k ''_'') (to_string_map render ctx))"

definition shell_command ::
  "(string \<Rightarrow> string option) \<Rightarrow> (json \<Rightarrow> string) \<Rightarrow> string \<Rightarrow> string \<Rightarrow> context_map \<Rightarrow> process_command" where
  "shell_command var render dir prompt ctx =
     \<lparr>pm_program = ''sh'', pm_args = [''-c'', prompt], pm_directory = dir, pm_removed_vars = [],
      pm_only_vars = Some (shell_vars var render ctx)\<rparr>"

definition json_int :: "int \<Rightarrow> json" where
  "json_int i = JNumber (if i < 0 then JNegInt i else JPosInt (nat i))"

definition shell_generate ::
  "'w processes \<Rightarrow> (string \<Rightarrow> string option) \<Rightarrow> (json \<Rightarrow> string) \<Rightarrow> string \<Rightarrow> duration \<Rightarrow> string \<Rightarrow> context_map \<Rightarrow> 'w \<Rightarrow>
     (handler_error + outcome) \<times> 'w" where
  "shell_generate run var render dir limit prompt ctx w =
     (case run (shell_command var render dir prompt ctx) limit w of
        (Not_Spawned e, w1) \<Rightarrow> (Inl (OtherError (''failed to spawn shell: '' @ e)), w1)
      | (Broken e ls, w1) \<Rightarrow> (Inl (OtherError (''shell command failed: '' @ e)), w1)
      | (Timed_Out ls, w1) \<Rightarrow> (Inl (OtherError (''shell command timed out after '' @ dec (as_secs limit) @ ''s'')), w1)
      | (Ended status stdout stderr, w1) \<Rightarrow>
          (let exit_code = (case status of Some c \<Rightarrow> c | None \<Rightarrow> - 1);
               out = from_utf8_lossy stdout; err = from_utf8_lossy stderr
           in (if status = Some 0
            then Inr (success_with (JObject [(''exit_code'', json_int exit_code), (''stderr'', JString err), (''stdout'', JString out)]))
            else Inr (failure (if trim err = [] then ''shell command exited with code '' @ exit_text (Some exit_code)
                   else ''exit code '' @ exit_text (Some exit_code) @ '': '' @ trim err)), w1)))"

section \<open>Consecutive timeouts\<close>

text \<open>The calls of one backend, one after the other, with how their processes ended.\<close>

fun claude_calls ::
  "'w processes \<Rightarrow> (json \<Rightarrow> string) \<Rightarrow> (string \<Rightarrow> json option) \<Rightarrow> nat \<Rightarrow> claude_backend \<Rightarrow> (string \<times> context_map) list \<Rightarrow>
     32 word \<Rightarrow> 'w \<Rightarrow> (process_end \<times> (handler_error + outcome)) list" where
  "claude_calls run render parse_json now cb [] timeouts w = []"
| "claude_calls run render parse_json now cb ((prompt, ctx) # calls) timeouts w =
     (let ended = fst (run (claude_command render cb prompt ctx) (cb_timeout cb) w);
          (r, es, n, w1) = claude_generate run render parse_json now cb prompt ctx timeouts w
      in (ended, r) # claude_calls run render parse_json now cb calls n w1)"

text \<open>A process that ended, with an output that could be read, whatever its exit code.\<close>

fun settled_end :: "claude_backend \<Rightarrow> process_end \<Rightarrow> bool" where
  "settled_end cb (Ended status stdout stderr) =
     (cb_streaming cb \<longrightarrow> list_all (\<lambda>l. from_utf8_lossy l = l) (str_lines stdout))"
| "settled_end cb e = False"

fun is_timeout :: "process_end \<Rightarrow> bool" where
  "is_timeout (Timed_Out ls) = True"
| "is_timeout e = False"

text \<open>The timeouts since the last process that settled.\<close>

definition timeouts_after :: "claude_backend \<Rightarrow> process_end \<Rightarrow> nat \<Rightarrow> nat" where
  "timeouts_after cb e n = (if is_timeout e then n + 1 else if settled_end cb e then 0 else n)"

definition aborts :: "handler_error + outcome \<Rightarrow> bool" where
  "aborts r \<longleftrightarrow> (case r of Inl (OtherError m) \<Rightarrow> starts_with m ''aborting: '' | _ \<Rightarrow> False)"

lemma stream_lines_None:
  "snd (stream_lines parse_json emits node_id now ls st) = None \<longleftrightarrow> \<not> list_all (\<lambda>l. from_utf8_lossy l = l) ls"
  by (induction ls arbitrary: st) (auto simp: split_beta Let_def)

lemma read_stream_settled:
  "snd (read_stream parse_json now cb ctx (str_lines stdout)) = None \<longleftrightarrow> \<not> settled_end cb (Ended status stdout stderr)"
  by (auto simp: read_stream_def Let_def stream_lines_None)

lemma aborts_simps [simp]:
  "aborts (Inr r) = False" "\<not> aborts (Inl (OtherError (''failed to spawn claude CLI: '' @ e)))"
  "\<not> aborts (Inl (OtherError (''failed to run claude CLI: '' @ e)))" "\<not> aborts (Inl (OtherError (''claude CLI exit code '' @ e)))"
  by (simp_all add: aborts_def starts_with_def)

lemma record_timeout_aborts:
  "aborts (fst (record_timeout cb n)) \<longleftrightarrow> 0 < cb_max_consecutive_timeouts cb \<and> cb_max_consecutive_timeouts cb \<le> n + 1"
  "snd (record_timeout cb n) = n + 1"
  by (auto simp: record_timeout_def Let_def aborts_def starts_with_def)

lemma claude_generate_counts:
  assumes "fst (run (claude_command render cb prompt ctx) (cb_timeout cb) w) = e"
    and "claude_generate run render parse_json now cb prompt ctx n w = (r, es, n1, w1)"
  shows "n1 = (if is_timeout e then n + 1 else if settled_end cb e then 0 else n)"
    and "aborts r \<longleftrightarrow> is_timeout e \<and> 0 < cb_max_consecutive_timeouts cb \<and> cb_max_consecutive_timeouts cb \<le> n + 1"
proof -
  obtain w2 where run: "run (claude_command render cb prompt ctx) (cb_timeout cb) w = (e, w2)"
    using assms(1) by (metis prod.collapse)
  have "n1 = (if is_timeout e then n + 1 else if settled_end cb e then 0 else n) \<and>
    (aborts r \<longleftrightarrow> is_timeout e \<and> 0 < cb_max_consecutive_timeouts cb \<and> cb_max_consecutive_timeouts cb \<le> n + 1)"
  proof (cases e)
    case (Timed_Out ls)
    then show ?thesis
      using assms(2) record_timeout_aborts [of cb n] by (auto simp: claude_generate_def run split_beta)
  next
    case (Ended status stdout stderr)
    obtain es0 q where q: "read_stream parse_json now cb ctx (str_lines stdout) = (es0, q)" by force
    show ?thesis
      using assms(2) read_stream_settled [of parse_json now cb ctx stdout status stderr] q
      by (cases q) (auto simp: claude_generate_def run Ended aborts_def starts_with_def split: if_splits)
  qed (use assms(2) in \<open>auto simp: claude_generate_def run aborts_def starts_with_def\<close>)
  then show "n1 = (if is_timeout e then n + 1 else if settled_end cb e then 0 else n)"
    and "aborts r \<longleftrightarrow> is_timeout e \<and> 0 < cb_max_consecutive_timeouts cb \<and> cb_max_consecutive_timeouts cb \<le> n + 1"
    by blast+
qed

lemma claude_calls_aborts:
  assumes "n + length calls < 2 ^ 32" "k < length calls"
  shows "let cs = claude_calls run render parse_json now cb calls (of_nat n) w; es = map fst cs in
    length cs = length calls \<and>
    (aborts (snd (cs ! k)) \<longleftrightarrow> is_timeout (es ! k) \<and> 0 < cb_max_consecutive_timeouts cb \<and>
       unat (cb_max_consecutive_timeouts cb) \<le> fold (timeouts_after cb) (take (Suc k) es) n)"
  using assms
proof (induction calls arbitrary: n k w)
  case (Cons call calls)
  obtain prompt ctx where call: "call = (prompt, ctx)" by force
  define e where "e = fst (run (claude_command render cb prompt ctx) (cb_timeout cb) w)"
  obtain r es n1 w1 where g: "claude_generate run render parse_json now cb prompt ctx (of_nat n) w = (r, es, n1, w1)"
    by (metis prod_cases4)
  note step = claude_generate_counts [OF e_def [symmetric] g]
  have n1: "n1 = of_nat (timeouts_after cb e n)" using step(1) by (simp add: timeouts_after_def add.commute)
  have "of_nat n + 1 = (of_nat (n + 1) :: 32 word)" by simp
  then have un: "unat (of_nat n + 1 :: 32 word) = n + 1" using Cons.prems(1) by (simp only: unat_of_nat) simp
  have "timeouts_after cb e n + length calls < 2 ^ 32" using Cons.prems(1) by (simp add: timeouts_after_def)
  note IH = Cons.IH [OF this]
  have len: "length (claude_calls run render parse_json now cb calls n1 w1) = length calls"
  proof (cases calls)
    case (Cons c cs)
    then show ?thesis using IH [of 0 w1] by (simp add: Let_def n1)
  qed simp
  show ?case
  proof (cases k)
    case 0
    have "aborts r \<longleftrightarrow> is_timeout e \<and> 0 < cb_max_consecutive_timeouts cb \<and> unat (cb_max_consecutive_timeouts cb) \<le> n + 1"
      using step(2) un by (simp add: word_le_nat_alt)
    then show ?thesis using 0 len by (auto simp: call g Let_def timeouts_after_def simp flip: e_def)
  next
    case (Suc j)
    then show ?thesis using IH [of j w1] Cons.prems(2) len by (simp add: call g Let_def n1 flip: e_def)
  qed
qed simp

text \<open>
  Of fewer than \<open>2 ^ 32\<close> calls, the one that answers with the abort error is a timeout at which the timeouts since the
  last process that settled reach the limit, never with the limit 0; processes that cannot be started or read are
  passed over.  The engine makes a failed outcome of that error.
\<close>

theorem timeouts_abort:
  assumes "length calls < 2 ^ 32" "k < length calls"
  shows "let cs = claude_calls run render parse_json now cb calls 0 w; es = map fst cs in
    aborts (snd (cs ! k)) \<longleftrightarrow> is_timeout (es ! k) \<and> 0 < cb_max_consecutive_timeouts cb \<and>
      unat (cb_max_consecutive_timeouts cb) \<le> fold (timeouts_after cb) (take (Suc k) es) 0"
  using claude_calls_aborts [of 0 calls k run render parse_json now cb w] assms by (simp add: Let_def)

theorem timeouts_abort_witness:
  "aborts (snd (claude_calls (\<lambda>c limit w. (Timed_Out [], w)) (\<lambda>v. []) (\<lambda>s. None) 0
     \<lparr>cb_working_dir = ''/w'', cb_timeout = 0, cb_claude_path = None, cb_streaming = False, cb_emits = False,
      cb_max_consecutive_timeouts = 2\<rparr> [(''p'', []), (''q'', [])] 0 () ! 1))"
proof -
  let ?cb = "\<lparr>cb_working_dir = ''/w'', cb_timeout = 0, cb_claude_path = None, cb_streaming = False, cb_emits = False,
      cb_max_consecutive_timeouts = 2\<rparr>"
  let ?run = "\<lambda>(c :: process_command) (limit :: duration) (w :: unit). (Timed_Out [], w)"
  let ?cs = "claude_calls ?run (\<lambda>v. []) (\<lambda>s. None) 0 ?cb [(''p'', []), (''q'', [])] 0 ()"
  have ends: "map fst ?cs = [Timed_Out [], Timed_Out []]" by (simp add: split_beta Let_def)
  then have len: "length ?cs = 2" by (metis length_map length_Cons list.size(3) numeral_2_eq_2)
  from timeouts_abort [of "[(''p'', []), (''q'', [])]" 1 ?run "\<lambda>v. []" "\<lambda>s. None" 0 ?cb "()"]
  show ?thesis unfolding Let_def ends by (simp add: timeouts_after_def)
qed

section \<open>Tokens of a stream\<close>

definition emitted_input :: "pipeline_event list \<Rightarrow> nat" where
  "emitted_input es = (\<Sum>e\<leftarrow>es. case e of AgentTokenUsage n i out cost t \<Rightarrow> i | _ \<Rightarrow> 0)"

definition emitted_output :: "pipeline_event list \<Rightarrow> nat" where
  "emitted_output es = (\<Sum>e\<leftarrow>es. case e of AgentTokenUsage n i out cost t \<Rightarrow> out | _ \<Rightarrow> 0)"

text \<open>The totals the program reports never fall.\<close>

fun totals_grow :: "(string \<Rightarrow> json option) \<Rightarrow> string \<Rightarrow> nat \<Rightarrow> string list \<Rightarrow> stream_state \<Rightarrow> bool" where
  "totals_grow parse_json node_id now [] st = True"
| "totals_grow parse_json node_id now (l # ls) st =
     (let st1 = snd (stream_line parse_json True node_id now l st) in
      sr_prev_input st \<le> sr_prev_input st1 \<and> sr_prev_output st \<le> sr_prev_output st1 \<and>
      totals_grow parse_json node_id now ls st1)"

lemma emitted_simps [simp]:
  "emitted_input [] = 0" "emitted_output [] = 0"
  "emitted_input (es @ es') = emitted_input es + emitted_input es'"
  "emitted_output (es @ es') = emitted_output es + emitted_output es'"
  by (simp_all add: emitted_input_def emitted_output_def)

lemma emitted_cost [simp]:
  "emitted_input [AgentTokenUsage n 0 0 c t] = 0" "emitted_output [AgentTokenUsage n 0 0 c t] = 0"
  by (simp_all add: emitted_input_def emitted_output_def)

lemma blocks_no_tokens:
  "emitted_input (message_blocks node_id now v) = 0" "emitted_output (message_blocks node_id now v) = 0"
proof -
  have ev: "block_event node_id now x = Some e \<Longrightarrow>
      (case e of AgentTokenUsage n i out cost t \<Rightarrow> i | _ \<Rightarrow> 0) = (0 :: nat) \<and>
      (case e of AgentTokenUsage n i out cost t \<Rightarrow> out | _ \<Rightarrow> 0) = (0 :: nat)" for x e
    by (auto simp: block_event_def Let_def split: option.splits if_splits)
  have "emitted_input (List.map_filter (block_event node_id now) bs) = 0 \<and>
      emitted_output (List.map_filter (block_event node_id now) bs) = 0" for bs
    using ev by (induction bs) (auto simp: map_filter_def emitted_input_def emitted_output_def)
  then show "emitted_input (message_blocks node_id now v) = 0" "emitted_output (message_blocks node_id now v) = 0"
    by (simp_all add: message_blocks_def split: option.split)
qed

lemma message_tokens_sum:
  assumes "message_tokens node_id now v st = (es, st1)"
  shows "emitted_input es = sr_prev_input st1 - sr_prev_input st" "emitted_output es = sr_prev_output st1 - sr_prev_output st"
  using assms by (auto simp: message_tokens_def Let_def emitted_input_def emitted_output_def split: if_splits)

lemma stream_line_sum:
  "emitted_input (fst (stream_line parse_json True node_id now l st)) =
     sr_prev_input (snd (stream_line parse_json True node_id now l st)) - sr_prev_input st \<and>
   emitted_output (fst (stream_line parse_json True node_id now l st)) =
     sr_prev_output (snd (stream_line parse_json True node_id now l st)) - sr_prev_output st"
proof -
  have "emitted_input (fst (stream_object True node_id now v st)) = sr_prev_input (snd (stream_object True node_id now v st)) - sr_prev_input st \<and>
      emitted_output (fst (stream_object True node_id now v st)) = sr_prev_output (snd (stream_object True node_id now v st)) - sr_prev_output st" for v
    using message_tokens_sum [of node_id now v st]
    by (cases "message_tokens node_id now v st")
       (auto simp: stream_object_def Let_def blocks_no_tokens split: option.splits)
  then show ?thesis by (simp add: stream_line_def Let_def split: option.split)
qed

lemma stream_lines_sum:
  assumes "totals_grow parse_json node_id now ls st" "stream_lines parse_json True node_id now ls st = (es, Some st1)"
  shows "sr_prev_input st + emitted_input es = sr_prev_input st1 \<and> sr_prev_output st + emitted_output es = sr_prev_output st1"
  using assms
proof (induction ls arbitrary: st es)
  case (Cons l ls)
  obtain es0 st0 where l: "stream_line parse_json True node_id now l st = (es0, st0)" by force
  obtain es2 q where ls: "stream_lines parse_json True node_id now ls st0 = (es2, q)" by force
  from Cons.prems(2) l ls have q: "q = Some st1" "es = es0 @ es2" by (auto split: if_splits)
  from Cons.prems(1) have g: "totals_grow parse_json node_id now ls st0" "sr_prev_input st \<le> sr_prev_input st0"
    "sr_prev_output st \<le> sr_prev_output st0" by (simp_all add: l Let_def)
  from Cons.IH [OF g(1) ls [unfolded q(1)]] stream_line_sum [of parse_json node_id now l st] g(2,3) show ?case
    by (simp add: l q(2))
qed simp

text \<open>
  As long as the totals the program reports do not fall, the tokens emitted for a node add up to the last total it
  reported, however often a message is repeated.
\<close>

theorem stream_tokens_total:
  assumes "totals_grow parse_json node_id now ls stream_start"
    and "stream_lines parse_json True node_id now ls stream_start = (es, Some st)"
  shows "emitted_input es = sr_prev_input st \<and> emitted_output es = sr_prev_output st"
  using stream_lines_sum [OF assms] by (simp add: stream_start_def)

definition sample_message :: "string \<Rightarrow> nat \<Rightarrow> json" where
  "sample_message i n = JObject [(''message'', JObject [(''id'', JString i), (''usage'', JObject [(''input_tokens'', JNumber (JPosInt n))])]),
     (''type'', JString ''assistant'')]"

definition sample_parser :: "string \<Rightarrow> json option" where
  "sample_parser l = (if l = ''a'' then Some (sample_message ''1'' 5) else if l = ''b'' then Some (sample_message ''2'' 12) else None)"

theorem stream_tokens_total_witness:
  "emitted_input (fst (stream_lines sample_parser True ''n'' 0 [''a'', ''a'', ''b''] stream_start)) = 12"
proof -
  have g: "totals_grow sample_parser ''n'' 0 [''a'', ''a'', ''b''] stream_start" by code_simp
  have some: "case snd (stream_lines sample_parser True ''n'' 0 [''a'', ''a'', ''b''] stream_start) of
      Some st \<Rightarrow> sr_prev_input st = 12 | None \<Rightarrow> False" by code_simp
  obtain es q where r: "stream_lines sample_parser True ''n'' 0 [''a'', ''a'', ''b''] stream_start = (es, q)" by force
  with some obtain st where q: "q = Some st" "sr_prev_input st = 12" by (auto split: option.splits)
  from stream_tokens_total [OF g r [unfolded q(1)]] show ?thesis unfolding r by (simp add: q(2))
qed

section \<open>What the shell sees\<close>

text \<open>
  A shell node sees nothing of the environment but seven variables and the entries of the context that are not
  internal, each under its prefix.
\<close>

theorem shell_environment:
  "(x, v) \<in> set (shell_vars var render ctx) \<longleftrightarrow>
     (x \<in> set kept_vars \<and> var x = Some v) \<or>
     (\<exists>k. x = ''SMASHER_CTX_'' @ k \<and> \<not> starts_with k ''_'' \<and> (k, v) \<in> set (to_string_map render ctx))"
proof -
  have kept: "(x, v) \<in> set (List.map_filter (\<lambda>y. map_option (\<lambda>z. (y, z)) (var y)) ys) \<longleftrightarrow> x \<in> set ys \<and> var x = Some v" for ys
    by (induction ys) (auto simp: map_filter_def)
  show ?thesis unfolding shell_vars_def set_append Un_iff kept by auto
qed

end
