(* ===== verification/Web_Runs.thy ===== *)
theory Web_Runs
  imports Pipeline Run_Dir Run_Store Http_Interviewer Web_Events Cli_Backends Rendering
begin

text \<open>
  The runs of the web server, \<open>smasher-web/src/state.rs\<close>, \<open>routes/api.rs\<close>, \<open>routes/questions.rs\<close> and \<open>error.rs\<close>: the
  record of a run, what every endpoint does to the records, what the end of an execution does, and the steps of
  clients and executions on the shared state.  Identifiers, the clock, the disk, SHA-256 and the texts of JSON, dates
  and errors of the system are parameters.
\<close>

section \<open>State\<close>

record web_run =
  wr_id :: string
  wr_dot_source :: string
  wr_graph :: graph
  wr_status :: run_status
  wr_started_at :: nat
  wr_completed_at :: "nat option"
  wr_event_log :: "pipeline_event list"
  wr_cancelled :: bool
  wr_questions :: hub
  wr_variables :: "string hmap"
  wr_error :: "string option"
  wr_tokens :: token_counters
  wr_working_dir :: "string option"

record app_state =
  ap_runs :: "web_run hmap"
  ap_default_model :: string
  ap_data_dir :: string

definition app_new :: "string \<Rightarrow> string \<Rightarrow> app_state" where
  "app_new default_model data_dir = \<lparr>ap_runs = [], ap_default_model = default_model, ap_data_dir = data_dir\<rparr>"

record run_summary =
  sm_id :: string
  sm_status :: string
  sm_started_at :: string
  sm_completed_at :: "string option"
  sm_graph_name :: "string option"
  sm_error :: "string option"
  sm_input_tokens :: nat
  sm_output_tokens :: nat
  sm_run_working_dir :: "string option"

fun run_status_name :: "run_status \<Rightarrow> string" where
  "run_status_name StRunning = ''Running''"
| "run_status_name StCompleted = ''Completed''"
| "run_status_name StFailed = ''Failed''"
| "run_status_name StAborted = ''Aborted''"

text \<open>The components of a path, without the empty and the current ones.\<close>

definition path_parts :: "string \<Rightarrow> string list" where
  "path_parts p = filter (\<lambda>c. c \<noteq> [] \<and> c \<noteq> ''.'') (split_char CHR ''/'' p)"

definition path_file_name :: "string \<Rightarrow> string option" where
  "path_file_name p =
     (let ps = path_parts p in if ps = [] \<or> last ps = ''..'' then None else Some (last ps))"

definition path_strip_prefix :: "string \<Rightarrow> string \<Rightarrow> string option" where
  "path_strip_prefix base p =
     (let b = path_parts base; ps = path_parts p in
      if starts_with p ''/'' = starts_with base ''/'' \<and> take (length b) ps = b then Some (join ''/'' (drop (length b) ps)) else None)"

definition to_summary :: "(nat \<Rightarrow> string) \<Rightarrow> web_run \<Rightarrow> run_summary" where
  "to_summary rfc3339 r =
     \<lparr>sm_id = wr_id r, sm_status = run_status_name (wr_status r), sm_started_at = rfc3339 (wr_started_at r),
      sm_completed_at = map_option rfc3339 (wr_completed_at r), sm_graph_name = g_name (wr_graph r),
      sm_error = wr_error r, sm_input_tokens = unat (tk_input (wr_tokens r)), sm_output_tokens = unat (tk_output (wr_tokens r)),
      sm_run_working_dir = map_option (\<lambda>dir.
        case path_file_name dir of Some name \<Rightarrow> ''artifacts/'' @ name | None \<Rightarrow> dir) (wr_working_dir r)\<rparr>"

section \<open>Errors\<close>

fun web_status :: "web_error \<Rightarrow> nat" where
  "web_status (WebNotFound m) = 404"
| "web_status (WebBadRequest m) = 400"
| "web_status (WebInternal m) = 500"
| "web_status (WebPipeline e) = 500"
| "web_status (WebIo m) = 500"
| "web_status (WebJson m) = 500"
| "web_status (WebParse e) = 422"
| "web_status (WebGraph e) = 422"

definition state_error_text :: "string \<Rightarrow> state_error \<Rightarrow> string" where
  "state_error_text io e =
     (case e of
        DeserializationError m \<Rightarrow> ''deserialization error: '' @ m
      | SerializationError m \<Rightarrow> ''serialization error: '' @ m
      | IoError \<Rightarrow> ''I/O error: '' @ io
      | State.NotFound i \<Rightarrow> ''run not found: '' @ i
      | ValidationError m \<Rightarrow> ''validation error: '' @ m)"

text \<open>What the state is given from outside.\<close>

record 'w web_world =
  ww_disk :: "'w disk"
  ww_manifest_json :: "run_manifest \<Rightarrow> string + string"
  ww_checkpoint_of :: "string \<Rightarrow> string + checkpoint"
  ww_sha256 :: "string \<Rightarrow> string"
  ww_rfc3339 :: "nat \<Rightarrow> string"
  ww_io_text :: string
  ww_engine_text :: "engine_error \<Rightarrow> string"

section \<open>Starting an execution\<close>

text \<open>What the spawned task is to execute.\<close>

record web_job =
  wj_run_id :: string
  wj_graph :: graph
  wj_model :: string
  wj_variables :: "string hmap"
  wj_config :: engine_config
  wj_checkpoint :: "checkpoint option"
  wj_working_dir :: string

definition new_record :: "string \<Rightarrow> string \<Rightarrow> graph \<Rightarrow> nat \<Rightarrow> string hmap \<Rightarrow> string \<Rightarrow> web_run" where
  "new_record run_id dot_source g now variables dir =
     \<lparr>wr_id = run_id, wr_dot_source = dot_source, wr_graph = g, wr_status = StRunning, wr_started_at = now,
      wr_completed_at = None, wr_event_log = [], wr_cancelled = False, wr_questions = hub_new, wr_variables = variables,
      wr_error = None, wr_tokens = \<lparr>tk_input = 0, tk_output = 0\<rparr>, wr_working_dir = Some dir\<rparr>"

definition insert_run :: "web_run \<Rightarrow> app_state \<Rightarrow> app_state" where
  "insert_run r app = app\<lparr>ap_runs := hm_insert (wr_id r) r (ap_runs app)\<rparr>"

definition create_directory ::
  "'w web_world \<Rightarrow> string \<Rightarrow> nat \<Rightarrow> graph \<Rightarrow> string \<Rightarrow> app_state \<Rightarrow> 'w \<Rightarrow> (web_error + run_manifest) \<times> 'w" where
  "create_directory ww run_id now g dot_source app w =
     (let graph_name = sanitize_graph_name (case g_name g of Some n \<Rightarrow> n | None \<Rightarrow> [])
      in case run_dir_create (ww_disk ww) (ww_manifest_json ww) (ww_sha256 ww) now
               (path_join (ap_data_dir app) ''artifacts'') run_id graph_name dot_source w of
           (Inl e, w1) \<Rightarrow> (Inl (WebInternal (''failed to create run directory: '' @ state_error_text (ww_io_text ww) e)), w1)
         | (Inr m, w1) \<Rightarrow> (Inr m, w1))"

record web_submit =
  wq_dot_source :: string
  wq_variables :: "string hmap"
  wq_model :: "string option"

record submit_reply =
  sp_run_id :: string
  sp_status :: string
  sp_run_working_dir :: "string option"

definition web_config :: "string option \<Rightarrow> engine_config" where
  "web_config checkpoint_dir =
     default_engine_config\<lparr>ec_max_steps := 1000, ec_enable_checkpointing := checkpoint_dir \<noteq> None,
       ec_checkpoint_dir := checkpoint_dir, ec_artifact_store := Some artifact_store_new\<rparr>"

definition submit_pipeline ::
  "'w web_world \<Rightarrow> string \<Rightarrow> nat \<Rightarrow> web_submit \<Rightarrow> app_state \<Rightarrow> 'w \<Rightarrow>
     (web_error fault + submit_reply) \<times> app_state \<times> web_job option \<times> 'w" where
  "submit_pipeline ww run_id now req app w =
     (let model = (case wq_model req of Some m \<Rightarrow> m | None \<Rightarrow> ap_default_model app);
          variables = hm_insert ''model'' model (wq_variables req)
      in case submit_graph (ap_default_model app) (wq_dot_source req) (hm_get (wq_variables req)) (wq_model req) of
           Inl e \<Rightarrow> (Inl e, app, None, w)
         | Inr resolved \<Rightarrow>
             (case create_directory ww run_id now resolved (wq_dot_source req) app w of
                (Inl e, w1) \<Rightarrow> (Inl (Err e), app, None, w1)
              | (Inr manifest, w1) \<Rightarrow>
                  (let dir = rd_root (mf_directories manifest);
                       job = \<lparr>wj_run_id = run_id, wj_graph = resolved, wj_model = model, wj_variables = variables,
                         wj_config = web_config (Some (rd_checkpoints (mf_directories manifest))), wj_checkpoint = None,
                         wj_working_dir = dir\<rparr>;
                       relative = (case path_strip_prefix (ap_data_dir app) dir of Some p \<Rightarrow> p | None \<Rightarrow> dir)
                   in (Inr \<lparr>sp_run_id = run_id, sp_status = ''Running'', sp_run_working_dir = Some relative\<rparr>,
                       insert_run (new_record run_id (wq_dot_source req) resolved now variables dir) app, Some job, w1))))"

section \<open>The other endpoints\<close>

definition find_run :: "string \<Rightarrow> app_state \<Rightarrow> web_error + web_run" where
  "find_run i app = (case hm_get (ap_runs app) i of Some r \<Rightarrow> Inr r | None \<Rightarrow> Inl (WebNotFound (''run '' @ i)))"

text \<open>The latest start first; the texts of dates are compared.\<close>


fun insert_later :: "run_summary \<Rightarrow> run_summary list \<Rightarrow> run_summary list" where
  "insert_later s [] = [s]"
| "insert_later s (t # ts) = (if sm_started_at t \<le> sm_started_at s then s # t # ts else t # insert_later s ts)"

definition list_runs :: "(nat \<Rightarrow> string) \<Rightarrow> app_state \<Rightarrow> run_summary list" where
  "list_runs rfc3339 app = foldr insert_later (map (\<lambda>(i, r). to_summary rfc3339 r) (ap_runs app)) []"

definition get_run :: "(nat \<Rightarrow> string) \<Rightarrow> string \<Rightarrow> app_state \<Rightarrow> web_error + run_summary" where
  "get_run rfc3339 i app = map_sum id (to_summary rfc3339) (find_run i app)"

definition get_tokens :: "string \<Rightarrow> app_state \<Rightarrow> web_error + nat \<times> nat" where
  "get_tokens i app = map_sum id (\<lambda>r. (unat (tk_input (wr_tokens r)), unat (tk_output (wr_tokens r)))) (find_run i app)"

definition update_run :: "string \<Rightarrow> (web_run \<Rightarrow> web_run) \<Rightarrow> app_state \<Rightarrow> app_state" where
  "update_run i f app =
     (case hm_get (ap_runs app) i of Some r \<Rightarrow> app\<lparr>ap_runs := hm_insert i (f r) (ap_runs app)\<rparr> | None \<Rightarrow> app)"

record cancel_reply =
  cl_success :: bool
  cl_status :: string

definition cancel_run :: "string \<Rightarrow> app_state \<Rightarrow> (web_error + cancel_reply) \<times> app_state" where
  "cancel_run i app =
     (case find_run i app of
        Inl e \<Rightarrow> (Inl e, app)
      | Inr r \<Rightarrow>
          (if wr_status r \<noteq> StRunning then (Inr \<lparr>cl_success = False, cl_status = run_status_name (wr_status r)\<rparr>, app)
           else (Inr \<lparr>cl_success = True, cl_status = ''Aborted''\<rparr>, update_run i (\<lambda>r. r\<lparr>wr_cancelled := True\<rparr>) app)))"

record resume_reply =
  re_run_id :: string
  re_status :: string
  re_resumed_from_node :: string

definition read_checkpoint :: "'w web_world \<Rightarrow> string \<Rightarrow> 'w \<Rightarrow> web_error + checkpoint" where
  "read_checkpoint ww run_dir w =
     (let path = path_join (path_join run_dir ''checkpoints'') ''checkpoint.json'' in
      case dk_read_to_string (ww_disk ww) path w of
        Inl e \<Rightarrow> Inl (WebInternal (''cannot read checkpoint at '' @ path @ '': '' @ ww_io_text ww))
      | Inr text \<Rightarrow>
          (case ww_checkpoint_of ww text of
             Inl m \<Rightarrow> Inl (WebInternal (''invalid checkpoint: '' @ m))
           | Inr cp \<Rightarrow> Inr cp))"

definition resume_run ::
  "'w web_world \<Rightarrow> string \<Rightarrow> nat \<Rightarrow> string \<Rightarrow> app_state \<Rightarrow> 'w \<Rightarrow>
     (web_error + resume_reply) \<times> app_state \<times> web_job option \<times> 'w" where
  "resume_run ww run_id now i app w =
     (case find_run i app of
        Inl e \<Rightarrow> (Inl e, app, None, w)
      | Inr r \<Rightarrow>
          (if wr_status r = StRunning
           then (Inl (WebBadRequest (''run '' @ i @ '' is still '' @ run_status_name (wr_status r) @ '' and cannot be resumed'')),
                 app, None, w)
           else
             (case wr_working_dir r of
                None \<Rightarrow> (Inl (WebInternal ''run has no working directory''), app, None, w)
              | Some run_dir \<Rightarrow>
                  (case read_checkpoint ww run_dir w of
                     Inl e \<Rightarrow> (Inl e, app, None, w)
                   | Inr cp \<Rightarrow>
                       (case create_directory ww run_id now (wr_graph r) (wr_dot_source r) app w of
                          (Inl e, w1) \<Rightarrow> (Inl e, app, None, w1)
                        | (Inr manifest, w1) \<Rightarrow>
                            (let dir = rd_root (mf_directories manifest);
                                 model = (case hm_get (wr_variables r) ''model'' of Some m \<Rightarrow> m | None \<Rightarrow> ap_default_model app);
                                 job = \<lparr>wj_run_id = run_id, wj_graph = wr_graph r, wj_model = model,
                                   wj_variables = wr_variables r, wj_config = web_config None, wj_checkpoint = Some cp,
                                   wj_working_dir = dir\<rparr>
                             in (Inr \<lparr>re_run_id = run_id, re_status = ''Running'', re_resumed_from_node = cp_current_node cp\<rparr>,
                                 insert_run (new_record run_id (wr_dot_source r) (wr_graph r) now (wr_variables r) dir) app,
                                 Some job, w1)))))))"

text \<open>The statuses of the nodes in the rendered graph, from the log.\<close>

fun node_status_step :: "pipeline_event \<Rightarrow> execution_status str_map \<Rightarrow> execution_status str_map" where
  "node_status_step (NodeStarted n ty t) m = m(n \<mapsto> ES_Running)"
| "node_status_step (NodeCompleted n out ms t) m = m(n \<mapsto> ES_Done)"
| "node_status_step (NodeFailed n e ms t) m = m(n \<mapsto> ES_Failed)"
| "node_status_step e m = m"

definition node_statuses :: "pipeline_event list \<Rightarrow> execution_status str_map" where
  "node_statuses es = fold node_status_step es Map.empty"

definition render_graph ::
  "(string \<Rightarrow> string) \<Rightarrow> 'w graphviz \<Rightarrow> (render_error \<Rightarrow> string) \<Rightarrow> string \<Rightarrow> app_state \<Rightarrow> 'w \<Rightarrow> (web_error + string) \<times> 'w" where
  "render_graph sha256 gz text_of_error i app w =
     (case find_run i app of
        Inl e \<Rightarrow> (Inl e, w)
      | Inr r \<Rightarrow>
          (case cached_render sha256 (status_render gz (node_statuses (wr_event_log r))) (wr_graph r) RF_Svg ([], w) of
             (Inl e, cache, w1) \<Rightarrow> (Inl (WebInternal (''graph render failed: '' @ text_of_error e)), w1)
           | (Inr out, cache, w1) \<Rightarrow> (Inr (ro_content out), w1)))"

definition web_list_questions :: "string \<Rightarrow> app_state \<Rightarrow> web_error + question_summary list" where
  "web_list_questions i app = map_sum id (\<lambda>r. list_questions (wr_questions r)) (find_run i app)"

definition web_answer_question :: "string \<Rightarrow> string \<Rightarrow> string \<Rightarrow> app_state \<Rightarrow> (web_error + answer_response) \<times> app_state" where
  "web_answer_question i qid answer app =
     (case find_run i app of
        Inl e \<Rightarrow> (Inl e, app)
      | Inr r \<Rightarrow>
          (let (reply, h) = answer_question qid answer (wr_questions r)
           in (Inr reply, update_run i (\<lambda>r. r\<lparr>wr_questions := h\<rparr>) app)))"

section \<open>An execution\<close>

text \<open>The task: a transform that fails is passed over; the variables are the context.\<close>

definition web_context :: "string hmap \<Rightarrow> context_map" where
  "web_context variables = fold (\<lambda>(k, v). context_set k (JString v)) variables []"

definition web_execute ::
  "(string \<Rightarrow> read_error + string) \<Rightarrow> 'w env \<Rightarrow> web_job \<Rightarrow> 'w \<Rightarrow>
     ((engine_error fault + execution_result) \<times> 'w engine_state) option" where
  "web_execute read env job w =
     (let ctx = web_context (wj_variables job);
          go = (\<lambda>g. case wj_checkpoint job of
                 Some cp \<Rightarrow> Some (run_from_checkpoint env (wj_config job) g cp ctx w)
               | None \<Rightarrow> Some (run env (wj_config job) g ctx w))
      in case apply_sub_pipeline_transform read (wj_working_dir job) (wj_graph job) of
           None \<Rightarrow> None
         | Some (Inr g) \<Rightarrow> go g
         | Some (Inl (Err e)) \<Rightarrow> go (wj_graph job)
         | Some (Inl (Panic p)) \<Rightarrow> Some (Inl (Panic p), initial_error_state ctx w))"

text \<open>Its end; a panic ends the task before it gets here.\<close>

definition finish_record :: "(engine_error \<Rightarrow> string) \<Rightarrow> nat \<Rightarrow> engine_error + 'r \<Rightarrow> web_run \<Rightarrow> web_run" where
  "finish_record engine_text now r record =
     (let ended = record\<lparr>wr_completed_at := Some now\<rparr> in
      case r of
        Inr x \<Rightarrow> ended\<lparr>wr_status := StCompleted\<rparr>
      | Inl e \<Rightarrow>
          (if e = Engine.Cancelled then ended\<lparr>wr_status := StAborted\<rparr>
           else ended\<lparr>wr_status := StFailed, wr_error := Some (engine_text e)\<rparr>))"

definition finish_execution :: "(engine_error \<Rightarrow> string) \<Rightarrow> nat \<Rightarrow> string \<Rightarrow> engine_error fault + 'r \<Rightarrow> app_state \<Rightarrow> app_state" where
  "finish_execution engine_text now i r app =
     (case r of
        Inr x \<Rightarrow> update_run i (finish_record engine_text now (Inr x :: engine_error + 'r)) app
      | Inl (Err e) \<Rightarrow> update_run i (finish_record engine_text now (Inl e :: engine_error + 'r)) app
      | Inl (Panic p) \<Rightarrow> app)"

definition web_events :: "string \<Rightarrow> received list \<Rightarrow> app_state \<Rightarrow> web_error + (string \<times> string) list" where
  "web_events i rs app = map_sum id (\<lambda>r. event_stream rs) (find_run i app)"

section \<open>Clients and executions\<close>

text \<open>
  The steps on the shared records: the endpoints, the logs, counters and questions of the executions, their ends,
  and whatever else happens outside.  The jobs are the tasks that have not ended.
\<close>

type_synonym 'w web_system = "app_state \<times> web_job list \<times> 'w"

definition new_jobs :: "web_job option \<Rightarrow> web_job list" where
  "new_jobs job = (case job of Some j \<Rightarrow> [j] | None \<Rightarrow> [])"

inductive web_step :: "'w web_world \<Rightarrow> 'w web_system \<Rightarrow> 'w web_system \<Rightarrow> bool" for ww :: "'w web_world" where
  Web_Submit: "submit_pipeline ww i now req app w = (reply, app', job, w') \<Longrightarrow> hm_get (ap_runs app) i = None \<Longrightarrow>
    web_step ww (app, jobs, w) (app', jobs @ new_jobs job, w')"
| Web_Resume: "resume_run ww i now old app w = (reply, app', job, w') \<Longrightarrow> hm_get (ap_runs app) i = None \<Longrightarrow>
    web_step ww (app, jobs, w) (app', jobs @ new_jobs job, w')"
| Web_Cancel: "cancel_run i app = (cancelled, app') \<Longrightarrow> web_step ww (app, jobs, w) (app', jobs, w)"
| Web_Answer: "web_answer_question i qid answer app = (said, app') \<Longrightarrow> web_step ww (app, jobs, w) (app', jobs, w)"
| Web_Question: "hm_get (ap_runs app) i = Some r \<Longrightarrow> hub_step uuid (wr_questions r) h \<Longrightarrow>
    web_step ww (app, jobs, w) (update_run i (\<lambda>r. r\<lparr>wr_questions := h\<rparr>) app, jobs, w)"
| Web_Log: "web_step ww (app, jobs, w) (update_run i (\<lambda>r. r\<lparr>wr_event_log := wr_event_log r @ [e]\<rparr>) app, jobs, w)"
| Web_Count: "web_step ww (app, jobs, w) (update_run i (\<lambda>r. r\<lparr>wr_tokens := bridge_count e (wr_tokens r)\<rparr>) app, jobs, w)"
| Web_Finish: "web_step ww (app, js @ job # ks, w)
    (finish_execution (ww_engine_text ww) now (wj_run_id job) (result :: engine_error fault + execution_result) app, js @ ks, w')"
| Web_Outside: "web_step ww (app, jobs, w) (app, jobs, w')"

inductive web_reachable :: "'w web_world \<Rightarrow> 'w web_system \<Rightarrow> bool" for ww :: "'w web_world" where
  Web_Init: "web_reachable ww (app_new default_model data_dir, [], w)"
| Web_Next: "web_reachable ww s \<Longrightarrow> web_step ww s s' \<Longrightarrow> web_reachable ww s'"

inductive_cases web_stepE: "web_step ww s s'"

definition run_ok :: "web_run \<Rightarrow> bool" where
  "run_ok r \<longleftrightarrow> (wr_status r = StRunning \<longleftrightarrow> wr_completed_at r = None) \<and> (wr_error r \<noteq> None \<longleftrightarrow> wr_status r = StFailed)"

definition runs_ok :: "app_state \<Rightarrow> web_job list \<Rightarrow> bool" where
  "runs_ok app jobs \<longleftrightarrow>
     (\<forall>i r. hm_get (ap_runs app) i = Some r \<longrightarrow> wr_id r = i \<and> run_ok r) \<and> distinct (map wj_run_id jobs) \<and>
     (\<forall>j\<in>set jobs. \<exists>r. hm_get (ap_runs app) (wj_run_id j) = Some r \<and> wr_status r = StRunning)"

text \<open>What a change that is not the end of an execution keeps of a record.\<close>

definition same_fate :: "web_run \<Rightarrow> web_run \<Rightarrow> bool" where
  "same_fate r r' \<longleftrightarrow> wr_id r' = wr_id r \<and> wr_status r' = wr_status r \<and> wr_completed_at r' = wr_completed_at r \<and>
     wr_error r' = wr_error r \<and> wr_graph r' = wr_graph r \<and> wr_dot_source r' = wr_dot_source r \<and>
     wr_working_dir r' = wr_working_dir r"

lemma same_fate_refl: "same_fate r r"
  by (simp add: same_fate_def)

lemma same_fate_trans: "same_fate r r' \<Longrightarrow> same_fate r' r'' \<Longrightarrow> same_fate r r''"
  by (simp add: same_fate_def)

lemma same_fate_ok: "same_fate r r' \<Longrightarrow> run_ok r \<Longrightarrow> run_ok r'"
  by (simp add: same_fate_def run_ok_def)

lemma hm_get_update_run:
  "hm_get (ap_runs (update_run i f app)) k =
     (if k = i then map_option f (hm_get (ap_runs app) i) else hm_get (ap_runs app) k)"
  by (simp add: update_run_def split: option.split)

text \<open>Every step starts a new run with its job, changes one run without changing its fate, or ends one.\<close>

definition starts_run :: "string \<Rightarrow> app_state \<Rightarrow> web_job list \<Rightarrow> app_state \<Rightarrow> web_job list \<Rightarrow> bool" where
  "starts_run i app jobs app' jobs' \<longleftrightarrow> hm_get (ap_runs app) i = None \<and>
     (\<exists>r job. wr_id r = i \<and> run_ok r \<and> wr_status r = StRunning \<and> wj_run_id job = i \<and> app' = insert_run r app \<and> jobs' = jobs @ [job])"

definition touches_runs :: "app_state \<Rightarrow> app_state \<Rightarrow> bool" where
  "touches_runs app app' \<longleftrightarrow> (\<forall>k. rel_option same_fate (hm_get (ap_runs app) k) (hm_get (ap_runs app') k))"

lemma touches_refl: "touches_runs app app"
  by (simp add: touches_runs_def option.rel_refl same_fate_refl)

lemma touches_update: "(\<And>r. same_fate r (f r)) \<Longrightarrow> touches_runs app (update_run i f app)"
  by (auto simp: touches_runs_def hm_get_update_run option.rel_map intro: option.rel_refl same_fate_refl)

lemma new_record_ok:
  "wr_id (new_record i s g now vs dir) = i" "run_ok (new_record i s g now vs dir)" "wr_status (new_record i s g now vs dir) = StRunning"
  by (simp_all add: new_record_def run_ok_def)

lemma submit_starts:
  assumes "submit_pipeline ww i now req app w = (reply, app', job, w')" "hm_get (ap_runs app) i = None"
  shows "(app' = app \<and> job = None) \<or> starts_run i app jobs app' (jobs @ new_jobs job)"
  using assms by (auto simp: submit_pipeline_def Let_def starts_run_def new_jobs_def new_record_ok intro!: exI
      split: sum.splits prod.splits)

lemma resume_starts:
  assumes "resume_run ww i now old app w = (reply, app', job, w')" "hm_get (ap_runs app) i = None"
  shows "(app' = app \<and> job = None) \<or> starts_run i app jobs app' (jobs @ new_jobs job)"
  using assms by (auto simp: resume_run_def Let_def starts_run_def new_jobs_def new_record_ok intro!: exI
      split: sum.splits prod.splits if_splits option.splits)

definition step_shape :: "'w web_world \<Rightarrow> 'w web_system \<Rightarrow> 'w web_system \<Rightarrow> bool" where
  "step_shape ww s s' \<longleftrightarrow> (case s of (app, jobs, w) \<Rightarrow> case s' of (app', jobs', w') \<Rightarrow>
     (\<exists>i. starts_run i app jobs app' jobs') \<or> (touches_runs app app' \<and> jobs' = jobs) \<or>
     (\<exists>js job ks now (result :: engine_error fault + execution_result). jobs = js @ job # ks \<and> jobs' = js @ ks \<and>
        app' = finish_execution (ww_engine_text ww) now (wj_run_id job) result app))"

lemma web_step_shape: "web_step ww s s' \<Longrightarrow> step_shape ww s s'"
proof (induction rule: web_step.induct)
  case (Web_Submit i now req app w reply app' job w' jobs)
  then show ?case using submit_starts [OF Web_Submit, of jobs] touches_refl by (auto simp: new_jobs_def step_shape_def)
next
  case (Web_Resume i now old app w reply app' job w' jobs)
  then show ?case using resume_starts [OF Web_Resume, of jobs] touches_refl by (auto simp: new_jobs_def step_shape_def)
next
  case (Web_Cancel i app cancelled app' jobs w)
  have "touches_runs app (update_run i (\<lambda>r. r\<lparr>wr_cancelled := True\<rparr>) app)" by (rule touches_update) (simp add: same_fate_def)
  then show ?case using Web_Cancel touches_refl by (auto simp: cancel_run_def step_shape_def split: sum.splits if_splits)
next
  case (Web_Answer i qid answer app said app' jobs w)
  have "touches_runs app (update_run i (\<lambda>r. r\<lparr>wr_questions := h\<rparr>) app)" for h by (rule touches_update) (simp add: same_fate_def)
  then show ?case using Web_Answer touches_refl by (auto simp: web_answer_question_def step_shape_def split: sum.splits prod.splits)
next
  case (Web_Question app i r uuid h jobs w)
  have "touches_runs app (update_run i (\<lambda>r. r\<lparr>wr_questions := h\<rparr>) app)" by (rule touches_update) (simp add: same_fate_def)
  then show ?case by (simp add: step_shape_def)
next
  case (Web_Log app jobs w i e)
  have "touches_runs app (update_run i (\<lambda>r. r\<lparr>wr_event_log := wr_event_log r @ [e]\<rparr>) app)"
    by (rule touches_update) (simp add: same_fate_def)
  then show ?case by (simp add: step_shape_def)
next
  case (Web_Count app jobs w i e)
  have "touches_runs app (update_run i (\<lambda>r. r\<lparr>wr_tokens := bridge_count e (wr_tokens r)\<rparr>) app)"
    by (rule touches_update) (simp add: same_fate_def)
  then show ?case by (simp add: step_shape_def)
next
  case (Web_Finish app js job ks w now result w')
  then show ?case unfolding step_shape_def by blast
next
  case (Web_Outside app jobs w w')
  then show ?case by (simp add: step_shape_def touches_refl)
qed

lemma starts_ok:
  assumes "starts_run i app jobs app' jobs'" "runs_ok app jobs"
  shows "runs_ok app' jobs'"
proof -
  from assms(1) obtain r job where none: "hm_get (ap_runs app) i = None" and r: "wr_id r = i" "run_ok r" "wr_status r = StRunning"
    and j: "wj_run_id job = i" and new: "app' = insert_run r app" "jobs' = jobs @ [job]"
    by (auto simp: starts_run_def)
  have "i \<notin> set (map wj_run_id jobs)" using assms(2) none by (force simp: runs_ok_def)
  with assms(2) r j none show ?thesis by (auto simp: runs_ok_def new insert_run_def)
qed

lemma touches_ok:
  assumes "touches_runs app app'" "runs_ok app jobs"
  shows "runs_ok app' jobs"
proof -
  have before: "\<exists>r. hm_get (ap_runs app) k = Some r \<and> same_fate r r'" if "hm_get (ap_runs app') k = Some r'" for k r'
    using assms(1) that unfolding touches_runs_def by (metis option.rel_cases option.discI option.inject)
  have after: "\<exists>r'. hm_get (ap_runs app') k = Some r' \<and> same_fate r r'" if "hm_get (ap_runs app) k = Some r" for k r
    using assms(1) that unfolding touches_runs_def by (metis option.rel_cases option.discI option.inject)
  show ?thesis unfolding runs_ok_def
  proof (intro conjI allI impI ballI)
    fix i r' assume "hm_get (ap_runs app') i = Some r'"
    with before obtain r where r: "hm_get (ap_runs app) i = Some r" "same_fate r r'" by blast
    with assms(2) have "wr_id r = i" "run_ok r" by (auto simp: runs_ok_def)
    with r(2) show "wr_id r' = i" "run_ok r'" by (auto simp: same_fate_def intro: same_fate_ok [OF r(2)])
  next
    show "distinct (map wj_run_id jobs)" using assms(2) by (simp add: runs_ok_def)
  next
    fix j assume "j \<in> set jobs"
    with assms(2) obtain r where "hm_get (ap_runs app) (wj_run_id j) = Some r" "wr_status r = StRunning" by (auto simp: runs_ok_def)
    with after show "\<exists>r. hm_get (ap_runs app') (wj_run_id j) = Some r \<and> wr_status r = StRunning"
      by (fastforce simp: same_fate_def)
  qed
qed

lemma finish_record_ok:
  "run_ok r \<Longrightarrow> wr_status r = StRunning \<Longrightarrow> run_ok (finish_record etext now q r) \<and> wr_id (finish_record etext now q r) = wr_id r"
  by (auto simp: finish_record_def run_ok_def Let_def split: sum.split)

lemma finish_get:
  "hm_get (ap_runs (finish_execution etext now i q app)) k =
     (if k = i \<and> \<not> (\<exists>p. q = Inl (Panic p))
      then map_option (finish_record etext now (case q of Inr x \<Rightarrow> Inr x | Inl (Err e) \<Rightarrow> Inl e)) (hm_get (ap_runs app) i)
      else hm_get (ap_runs app) k)"
  by (auto simp: finish_execution_def hm_get_update_run split: sum.splits fault.splits)

lemma ends_ok:
  assumes ok: "runs_ok app (js @ job # ks)"
  shows "runs_ok (finish_execution etext now (wj_run_id job) q app) (js @ ks)"
proof -
  let ?app = "finish_execution etext now (wj_run_id job) q app"
  have d: "distinct (map wj_run_id (js @ job # ks))" using ok by (simp only: runs_ok_def)
  then have "wj_run_id job \<notin> wj_run_id ` set (js @ ks)" by auto
  then have others: "wj_run_id j \<noteq> wj_run_id job" if "j \<in> set (js @ ks)" for j using that by (metis imageI)
  have running: "\<exists>r. hm_get (ap_runs app) (wj_run_id job) = Some r \<and> wr_status r = StRunning"
    using ok by (simp add: runs_ok_def)
  show ?thesis unfolding runs_ok_def
  proof (intro conjI allI impI ballI)
    fix i r' assume r': "hm_get (ap_runs ?app) i = Some r'"
    have "wr_id r' = i \<and> run_ok r'"
      using ok running r' finish_record_ok by (fastforce simp: runs_ok_def finish_get split: if_splits)
    then show "wr_id r' = i" "run_ok r'" by blast+
  next
    show "distinct (map wj_run_id (js @ ks))" using d by auto
  next
    fix j assume "j \<in> set (js @ ks)"
    with others have "wj_run_id j \<noteq> wj_run_id job" "j \<in> set (js @ job # ks)" by auto
    with ok have "\<exists>r. hm_get (ap_runs app) (wj_run_id j) = Some r \<and> wr_status r = StRunning" by (simp only: runs_ok_def)
    with \<open>wj_run_id j \<noteq> wj_run_id job\<close> show "\<exists>r. hm_get (ap_runs ?app) (wj_run_id j) = Some r \<and> wr_status r = StRunning"
      by (simp add: finish_get)
  qed
qed

lemma reachable_runs_ok:
  assumes "web_reachable ww (app, jobs, w)"
  shows "runs_ok app jobs"
proof -
  have "web_reachable ww s \<Longrightarrow> (case s of (app, jobs, w) \<Rightarrow> runs_ok app jobs)" for s
  proof (induction rule: web_reachable.induct)
    case (Web_Next s s')
    obtain app jobs w app' jobs' w' where s: "s = (app, jobs, w)" "s' = (app', jobs', w')" by (metis prod_cases3)
    from Web_Next s have ok: "runs_ok app jobs" and "step_shape ww s s'" by (simp_all add: web_step_shape)
    from this(2) show ?case
      using starts_ok [OF _ ok] touches_ok [OF _ ok] ends_ok ok by (auto simp: s step_shape_def)
  qed (simp add: app_new_def runs_ok_def)
  from this [OF assms] show ?thesis by simp
qed

text \<open>C19. 
  At every moment each record is stored under its own identifier, has an end exactly when it is not running and an
  error exactly when it failed, and every execution that has not ended belongs to one running record of its own.
\<close>

theorem web_runs_invariant:
  assumes "web_reachable ww (app, jobs, w)"
  shows "(\<forall>i r. hm_get (ap_runs app) i = Some r \<longrightarrow> wr_id r = i \<and> run_ok r) \<and> distinct (map wj_run_id jobs) \<and>
    (\<forall>j\<in>set jobs. \<exists>r. hm_get (ap_runs app) (wj_run_id j) = Some r \<and> wr_status r = StRunning)"
  using reachable_runs_ok [OF assms] unfolding runs_ok_def .

lemma step_keeps_ended:
  assumes "step_shape ww (app, jobs, w) (app', jobs', w')" "runs_ok app jobs"
    and r: "hm_get (ap_runs app) i = Some r" "wr_status r \<noteq> StRunning"
  shows "\<exists>r'. hm_get (ap_runs app') i = Some r' \<and> same_fate r r'"
proof -
  from assms(1) consider (starts) k where "starts_run k app jobs app' jobs'" | (touches) "touches_runs app app'"
    | (ends) js job ks now and result :: "engine_error fault + execution_result" where "jobs = js @ job # ks"
        "app' = finish_execution (ww_engine_text ww) now (wj_run_id job) result app"
    unfolding step_shape_def by auto
  then show ?thesis
  proof cases
    case starts
    then show ?thesis using r same_fate_refl [of r] by (auto simp: starts_run_def insert_run_def)
  next
    case touches
    then show ?thesis using r unfolding touches_runs_def by (metis option.rel_cases option.discI option.inject)
  next
    case ends
    have "\<exists>q. hm_get (ap_runs app) (wj_run_id job) = Some q \<and> wr_status q = StRunning"
      using assms(2) by (simp add: runs_ok_def ends(1))
    with r have "i \<noteq> wj_run_id job" by auto
    with r show ?thesis by (simp add: ends(2) finish_get same_fate_refl)
  qed
qed

text \<open>C8. 
  A run that has ended stays as it ended: no request, no other run and nothing late changes its status, its end, its
  error, its graph or its directory, and it is never lost.
\<close>

theorem ended_run_final:
  assumes "web_reachable ww (app, jobs, w)" "(web_step ww)\<^sup>*\<^sup>* (app, jobs, w) (app', jobs', w')"
    and r: "hm_get (ap_runs app) i = Some r" "wr_status r \<noteq> StRunning"
  shows "\<exists>r'. hm_get (ap_runs app') i = Some r' \<and> same_fate r r'"
proof -
  have inv: "web_reachable ww s \<Longrightarrow> (case s of (app, jobs, w) \<Rightarrow> runs_ok app jobs)" for s
    by (cases s) (simp add: reachable_runs_ok)
  have "web_reachable ww s' \<and> (\<exists>r'. hm_get (ap_runs (fst s')) i = Some r' \<and> same_fate r r')"
    if "(web_step ww)\<^sup>*\<^sup>* (app, jobs, w) s'" for s'
    using that
  proof (induction rule: rtranclp_induct)
    case base
    then show ?case using assms(1) r same_fate_refl by auto
  next
    case (step s s')
    obtain app1 jobs1 w1 app2 jobs2 w2 where s: "s = (app1, jobs1, w1)" "s' = (app2, jobs2, w2)" by (metis prod_cases3)
    from step.IH obtain r1 where r1: "hm_get (ap_runs app1) i = Some r1" "same_fate r r1" and reach: "web_reachable ww s"
      by (auto simp: s)
    have ok: "runs_ok app1 jobs1" using inv [OF reach] by (simp add: s)
    have shape: "step_shape ww (app1, jobs1, w1) (app2, jobs2, w2)" using web_step_shape [OF step.hyps(2)] by (simp add: s)
    have "wr_status r1 \<noteq> StRunning" using r1(2) r(2) by (simp add: same_fate_def)
    from step_keeps_ended [OF shape ok r1(1) this]
    obtain r2 where "hm_get (ap_runs app2) i = Some r2" "same_fate r1 r2" by blast
    then show ?case using same_fate_trans [OF r1(2)] Web_Next [OF reach step.hyps(2)] by (auto simp: s)
  qed
  from this [OF assms(2)] show ?thesis by simp
qed

text \<open>A cancellation that is reported as done leaves the run running, marked; only the end of the execution aborts it.\<close>

lemma cancelled_still_running:
  assumes "cancel_run i app = (Inr reply, app')" "cl_success reply"
  shows "cl_status reply = ''Aborted'' \<and>
    (\<exists>r. hm_get (ap_runs app') i = Some r \<and> wr_status r = StRunning \<and> wr_cancelled r)"
  using assms by (auto simp: cancel_run_def find_run_def hm_get_update_run split: option.splits if_splits)

text \<open>An execution that panics leaves its record running for ever: it can be neither cancelled nor resumed.\<close>

lemma panic_stays_running:
  "finish_execution etext now i (Inl (Panic p)) app = app"
  by (simp add: finish_execution_def)

lemma insert_later_mset: "mset (insert_later s ts) = add_mset s (mset ts)"
  by (induction ts) auto

lemma insert_later_sorted:
  "sorted_wrt (\<lambda>a b. sm_started_at b \<le> sm_started_at a) ts \<Longrightarrow> sorted_wrt (\<lambda>a b. sm_started_at b \<le> sm_started_at a) (insert_later s ts)"
proof (induction ts)
  case (Cons t ts)
  have "set (insert_later s ts) = insert s (set ts)" using insert_later_mset [of s ts] by (metis set_mset_add_mset_insert set_mset_mset)
  with Cons show ?case by (auto intro: order_trans)
qed simp

lemma listed_runs:
  "mset (list_runs rfc3339 app) = mset (map (\<lambda>(i, r). to_summary rfc3339 r) (ap_runs app))"
  "sorted_wrt (\<lambda>a b. sm_started_at b \<le> sm_started_at a) (list_runs rfc3339 app)"
proof -
  have "mset (foldr insert_later ss []) = mset ss" for ss by (induction ss) (simp_all add: insert_later_mset)
  then show "mset (list_runs rfc3339 app) = mset (map (\<lambda>(i, r). to_summary rfc3339 r) (ap_runs app))" by (simp add: list_runs_def)
  have "sorted_wrt (\<lambda>a b. sm_started_at b \<le> sm_started_at a) (foldr insert_later ss [])" for ss
    by (induction ss) (simp_all add: insert_later_sorted)
  then show "sorted_wrt (\<lambda>a b. sm_started_at b \<le> sm_started_at a) (list_runs rfc3339 app)" by (simp add: list_runs_def)
qed

section \<open>Examples\<close>

definition sample_web :: "unit web_world" where
  "sample_web =
     \<lparr>ww_disk = \<lparr>dk_create_dir_all = (\<lambda>p w. (Inr (), w)), dk_write = (\<lambda>p t w. (Inr (), w)), dk_read_to_string = (\<lambda>p w. Inl IoError)\<rparr>,
      ww_manifest_json = (\<lambda>m. Inr ''{}''), ww_checkpoint_of = (\<lambda>t. Inl ''no''), ww_sha256 = (\<lambda>s. ''0''), ww_rfc3339 = dec,
      ww_io_text = ''io'', ww_engine_text = (\<lambda>e. ''failed'')\<rparr>"

definition sample_request :: web_submit where
  "sample_request = \<lparr>wq_dot_source = sample_source, wq_variables = [], wq_model = None\<rparr>"

definition sample_app :: app_state where
  "sample_app = fst (snd (submit_pipeline sample_web ''r1'' 0 sample_request (app_new ''m'' ''/d'') ()))"

definition sample_jobs :: "web_job list" where
  "sample_jobs = new_jobs (fst (snd (snd (submit_pipeline sample_web ''r1'' 0 sample_request (app_new ''m'' ''/d'') ()))))"

lemma sample_submitted:
  "web_reachable sample_web (sample_app, sample_jobs, ())"
  "\<exists>r. hm_get (ap_runs sample_app) ''r1'' = Some r" "map wj_run_id sample_jobs = [''r1'']"
proof -
  obtain reply app job w where p: "submit_pipeline sample_web ''r1'' 0 sample_request (app_new ''m'' ''/d'') () = (reply, app, job, w)"
    by (metis prod_cases4)
  have "web_reachable sample_web (app, [] @ new_jobs job, w)"
    by (rule Web_Next [OF Web_Init Web_Submit [OF p]]) (simp add: app_new_def)
  then show "web_reachable sample_web (sample_app, sample_jobs, ())" by (simp add: sample_app_def sample_jobs_def p)
  obtain g where g: "submit_graph ''m'' sample_source Map.empty None = Inr g" using sample_submits by (auto simp: is_ok_iff)
  have e: "hm_get [] = Map.empty" by (simp add: fun_eq_iff)
  have "app = insert_run (new_record ''r1'' sample_source g 0 (hm_insert ''model'' ''m'' []) (path_join (path_join ''/d'' ''artifacts'') ''r1'')) (app_new ''m'' ''/d'')"
    "map wj_run_id (new_jobs job) = [''r1'']"
    using p by (auto simp: submit_pipeline_def sample_request_def app_new_def e g create_directory_def run_dir_create_def sample_web_def
        directories_of_def Let_def new_jobs_def)
  then show "\<exists>r. hm_get (ap_runs sample_app) ''r1'' = Some r" "map wj_run_id sample_jobs = [''r1'']"
    by (simp_all add: sample_app_def sample_jobs_def p insert_run_def new_record_ok)
qed

theorem web_runs_invariant_witness:
  "\<exists>r. hm_get (ap_runs sample_app) ''r1'' = Some r \<and> wr_id r = ''r1'' \<and> wr_status r = StRunning"
proof -
  from sample_submitted(3) obtain j where "sample_jobs = [j]" "wj_run_id j = ''r1''" by (auto simp: map_eq_Cons_conv)
  then have "j \<in> set sample_jobs" "wj_run_id j = ''r1''" by (metis list.set_intros(1))+
  with web_runs_invariant [OF sample_submitted(1)] show ?thesis by metis
qed

theorem ended_run_final_witness:
  "\<exists>app r. web_reachable sample_web (app, [], ()) \<and> hm_get (ap_runs app) ''r1'' = Some r \<and> wr_status r = StFailed \<and>
     (\<forall>app' reply. cancel_run ''r1'' app = (reply, app') \<longrightarrow> (\<exists>r'. hm_get (ap_runs app') ''r1'' = Some r' \<and> same_fate r r'))"
proof -
  from sample_submitted(3) obtain j where j: "sample_jobs = [j]" "wj_run_id j = ''r1''" by (auto simp: map_eq_Cons_conv)
  obtain r where r: "hm_get (ap_runs sample_app) ''r1'' = Some r" using sample_submitted(2) by blast
  let ?app = "finish_execution (ww_engine_text sample_web) 1 ''r1'' (Inl (Err NoStartNode) :: engine_error fault + execution_result) sample_app"
  let ?r = "finish_record (ww_engine_text sample_web) 1 (Inl NoStartNode :: engine_error + execution_result) r"
  have "web_step sample_web (sample_app, [] @ j # [], ())
      (finish_execution (ww_engine_text sample_web) 1 (wj_run_id j) (Inl (Err NoStartNode) :: engine_error fault + execution_result) sample_app, [] @ [], ())"
    by (rule Web_Finish)
  then have reach: "web_reachable sample_web (?app, [], ())"
    using Web_Next [OF sample_submitted(1)] by (simp add: j)
  have get: "hm_get (ap_runs ?app) ''r1'' = Some ?r" by (simp add: finish_get r)
  have failed: "wr_status ?r = StFailed" by (simp add: finish_record_def Let_def)
  have "\<exists>r'. hm_get (ap_runs app') ''r1'' = Some r' \<and> same_fate ?r r'" if "cancel_run ''r1'' ?app = (reply, app')" for app' reply
    using ended_run_final [OF reach _ get, of app' "[]" "()"] Web_Cancel [OF that] failed by (metis r_into_rtranclp run_status.distinct(3))
  with reach get failed show ?thesis by blast
qed

end
