(* ===== verification/Cli_Run.thy ===== *)
theory Cli_Run
  imports Pipeline Run_Dir Cli_Backends Web_Events Rendering Parallel Delegate Interviewer
begin

text \<open>
  The run and resume commands, \<open>smasher-cli/src/run.rs\<close> and \<open>resume.rs\<close>, and the progress log, \<open>headless.rs\<close>: loading
  and checking a pipeline, the choice of the run to continue, of the handlers and of the interviewer, and the lines
  printed for events.  Handlers that talk to a person are given as handlers; the terminal, the directory listing
  and the texts of parse errors are parameters.
\<close>

section \<open>Arguments\<close>

record run_args =
  ra_pipeline :: string
  ra_vars :: "string list"
  ra_model :: string
  ra_max_steps :: nat
  ra_stylesheet :: "string option"
  ra_render :: "string option"
  ra_worktree :: bool
  ra_allow_dirty :: bool
  ra_skip_preflight :: bool
  ra_skip_lint :: bool
  ra_backend :: string
  ra_agent_timeout :: nat
  ra_interviewer :: string
  ra_tui :: bool
  ra_no_tui :: bool
  ra_headless :: bool
  ra_resume :: bool
  ra_max_timeouts :: "32 word"

definition should_enable_tui :: "bool \<Rightarrow> run_args \<Rightarrow> bool" where
  "should_enable_tui stderr_is_terminal args =
     (if ra_no_tui args \<or> ra_headless args then False else if ra_tui args then True else stderr_is_terminal)"

definition infer_render_format :: "string \<Rightarrow> render_format" where
  "infer_render_format path =
     (case format_from_str_loose (last (split_char CHR ''.'' path)) of Some f \<Rightarrow> f | None \<Rightarrow> RF_Svg)"

section \<open>Loading and checking\<close>

definition run_load :: "(string \<Rightarrow> read_error + string) \<Rightarrow> run_args \<Rightarrow> (cli_error, graph \<times> string str_map) result" where
  "run_load read args =
     res_bind (map_sum (\<lambda>e. Err (CliIo e)) id (read (ra_pipeline args))) (\<lambda>dot_source.
     res_bind (map_sum (map_fault CliDotParse) id (parse_source dot_source)) (\<lambda>dot_graph.
     res_bind (map_sum (\<lambda>e. Err (CliResolution e)) id (resolve dot_graph)) (\<lambda>resolved.
     res_bind (map_sum Err id (parse_vars (ra_vars args) Map.empty)) (\<lambda>vs.
     let variables = vs(''model'' \<mapsto> ra_model args) in
     res_bind (load_stylesheet read (ra_stylesheet args)) (\<lambda>ss.
     let g = apply_transforms variables ss resolved in
     if ra_skip_lint args then Inr (g, variables)
     else res_bind (map_sum Err id (snd (lint_graph g))) (\<lambda>u. Inr (g, variables)))))))"

definition needs_llm :: "run_args \<Rightarrow> bool" where
  "needs_llm args \<longleftrightarrow> ra_backend args \<noteq> ''shell''"

definition no_keys :: cli_error where
  "no_keys = CliOther ''no API keys found. Set ANTHROPIC_API_KEY, OPENAI_API_KEY, or GEMINI_API_KEY.''"

definition probe_line :: "probe_result \<Rightarrow> string" where
  "probe_line p =
     ''  preflight '' @ pr_provider p @ ''/'' @ pr_model p @
     (if pr_passed p then '': ok ('' @ dec (unat (pr_latency_ms p)) @ ''ms)''
      else '': FAILED - '' @ (case pr_error p of Some e \<Rightarrow> e | None \<Rightarrow> ''unknown error''))"

text \<open>What a health check that was run makes of the start, with the lines it prints.\<close>

definition preflight_gate :: "preflight_error + preflight_report \<Rightarrow> string list \<times> (cli_error + unit)" where
  "preflight_gate r =
     (case r of
        Inr report \<Rightarrow> (map probe_line (pf_probes report), Inr ())
      | Inl (ProviderUnreachable n report) \<Rightarrow>
          (map probe_line (pf_probes report),
           Inl (CliOther (''preflight check failed: '' @ dec (Preflight.failure_count report) @
             '' provider(s) unreachable. Use --skip-preflight to bypass.''))))"

definition llm_checks ::
  "run_args \<Rightarrow> string list \<Rightarrow> (unit \<Rightarrow> preflight_error + preflight_report) \<Rightarrow> string list \<times> (cli_error + unit)" where
  "llm_checks args providers check =
     (if \<not> needs_llm args then ([], Inr ())
      else if providers = [] then ([], Inl no_keys)
      else if ra_skip_preflight args then ([], Inr ())
      else preflight_gate (check ()))"

section \<open>The run to continue\<close>

text \<open>What the listing of the artifacts directory shows of an entry; the manifest is none where it cannot be read or
  is no JSON.\<close>

record run_entry =
  ru_path :: string
  ru_is_dir :: bool
  ru_has_checkpoint :: bool
  ru_has_archive :: bool
  ru_manifest :: "json option"

record incomplete_run =
  ic_run_dir :: string
  ic_run_id :: string
  ic_created_at :: string

definition incomplete_of :: "string \<Rightarrow> run_entry \<Rightarrow> incomplete_run option" where
  "incomplete_of graph_hash e =
     (if \<not> ru_is_dir e \<or> \<not> ru_has_checkpoint e \<or> ru_has_archive e then None
      else
        (case ru_manifest e of
           None \<Rightarrow> None
         | Some m \<Rightarrow>
             (if json_string (json_index ''graph_hash'' m) \<noteq> Some graph_hash then None
              else Some \<lparr>ic_run_dir = ru_path e,
                ic_run_id = (case json_string (json_index ''run_id'' m) of Some i \<Rightarrow> i | None \<Rightarrow> []),
                ic_created_at = (case json_string (json_index ''created_at'' m) of Some t \<Rightarrow> t | None \<Rightarrow> ''unknown'')\<rparr>)))"

fun insert_by_id :: "incomplete_run \<Rightarrow> incomplete_run list \<Rightarrow> incomplete_run list" where
  "insert_by_id r [] = [r]"
| "insert_by_id r (t # ts) = (if ic_run_id t \<le> ic_run_id r then r # t # ts else t # insert_by_id r ts)"

definition find_latest_incomplete_run :: "run_entry list option \<Rightarrow> string \<Rightarrow> incomplete_run option" where
  "find_latest_incomplete_run entries graph_hash =
     (case entries of
        None \<Rightarrow> None
      | Some es \<Rightarrow>
          (case foldr insert_by_id (List.map_filter (incomplete_of graph_hash) es) [] of [] \<Rightarrow> None | r # _ \<Rightarrow> Some r))"

definition says_resume :: "string \<Rightarrow> bool" where
  "says_resume answer = (let a = to_lower (trim answer) in a = [] \<or> a = ''y'' \<or> a = ''yes'')"

text \<open>Which run is continued, if any; the answer is asked for on a terminal.\<close>

definition choose_run :: "run_args \<Rightarrow> bool \<Rightarrow> string \<Rightarrow> incomplete_run option \<Rightarrow> cli_error + incomplete_run option" where
  "choose_run args stderr_is_terminal answer found =
     (case found of
        Some r \<Rightarrow>
          Inr (if (if ra_resume args then True else if stderr_is_terminal then says_resume answer else False) then Some r else None)
      | None \<Rightarrow>
          (if ra_resume args then Inl (CliOther ''--resume specified but no incomplete run found for this pipeline'') else Inr None))"

definition resumed_completed_nodes :: "checkpoint option \<Rightarrow> string list" where
  "resumed_completed_nodes cp =
     (case cp of Some c \<Rightarrow> filter (\<lambda>i. i \<noteq> cp_current_node c) (cp_visited_nodes c) | None \<Rightarrow> [])"

definition run_config :: "run_args \<Rightarrow> run_manifest \<Rightarrow> engine_config" where
  "run_config args m =
     default_engine_config\<lparr>ec_max_steps := ra_max_steps args, ec_enable_checkpointing := True,
       ec_checkpoint_dir := Some (rd_checkpoints (mf_directories m)), ec_artifact_store := Some artifact_store_new\<rparr>"

section \<open>Handlers\<close>

text \<open>The handlers a run may need.\<close>

record 'w parts =
  pt_claude :: "'w backend"
  pt_agent :: "'w backend"
  pt_shell :: "'w backend"
  pt_interviewer :: "'w handler"
  pt_human_gate :: "'w handler"
  pt_manager :: "'w delegate_backend"
  pt_tool :: "'w delegate_backend"
  pt_parse_json :: "string \<Rightarrow> string + json"

definition codergen_for :: "'w parts \<Rightarrow> string \<Rightarrow> cli_error + 'w handler" where
  "codergen_for p name =
     (if name = ''claude-cli'' then Inr (codergen_handler (pt_claude p) (Some (pt_agent p)))
      else if name = ''agent'' then Inr (codergen_handler (pt_agent p) None)
      else if name = ''shell'' then Inr (codergen_handler (pt_shell p) None)
      else Inl (CliOther (''unknown --backend value '' @ quote1 name @ '': expected '' @ quote1 ''claude-cli'' @ '', '' @
             quote1 ''agent'' @ '', or '' @ quote1 ''shell'')))"

definition run_registry :: "run_args \<Rightarrow> 'w parts \<Rightarrow> cli_error + 'w registry" where
  "run_registry args p =
     map_sum id (\<lambda>codergen.
       let reg = register (pt_human_gate p) (register (pt_interviewer p) (register codergen default_registry));
           reg1 = (if needs_llm args
                   then register (tool_handler (pt_parse_json p) (pt_tool p)) (register (manager_handler (pt_parse_json p) (pt_manager p)) reg)
                   else reg)
       in register (parallel_handler default_parallel_config LastWriteWins) reg1)
     (codergen_for p (ra_backend args))"

text \<open>The interviewer: over the channel of the interface, on the console, or approving everything, with a limit in
  seconds.\<close>

datatype talker = On_Channel "nat option" | On_Console "nat option" | Approving

definition choose_interviewer :: "(string \<Rightarrow> string) \<Rightarrow> bool \<Rightarrow> string \<Rightarrow> cli_error + talker" where
  "choose_interviewer parse_error_of tui_enabled mode =
     (case strip_prefix mode ''timeout:'' of
        Some rest \<Rightarrow>
          (case parse_uint 64 rest of
             None \<Rightarrow> Inl (CliOther (''invalid timeout value: '' @ parse_error_of rest))
           | Some secs \<Rightarrow> Inr (if tui_enabled then On_Channel (Some secs) else On_Console (Some secs)))
      | None \<Rightarrow>
          Inr (if tui_enabled then On_Channel None else if mode = ''none'' then Approving else On_Console None))"

section \<open>The resume command\<close>

record resume_args =
  rs_run_dir :: "string option"
  rs_checkpoint :: "string option"
  rs_model :: string
  rs_max_steps :: nat
  rs_skip_preflight :: bool

definition resolve_checkpoint_path :: "(string \<Rightarrow> bool) \<Rightarrow> resume_args \<Rightarrow> cli_error + string" where
  "resolve_checkpoint_path is_there args =
     (case rs_checkpoint args of
        Some path \<Rightarrow> (if is_there path then Inr path else Inl (CliOther (''checkpoint file not found: '' @ path)))
      | None \<Rightarrow>
          (case rs_run_dir args of
             Some dir \<Rightarrow>
               (let path = path_join (path_join dir ''checkpoints'') ''checkpoint.json''
                in if is_there path then Inr path else Inl (CliOther (''no checkpoint found at: '' @ path)))
           | None \<Rightarrow> Inl (CliOther ''provide either <run_dir> or --checkpoint <path>'')))"

text \<open>The source of the graph, in the directory above that of the checkpoint.\<close>

definition find_dot_source :: "(string \<Rightarrow> bool) \<Rightarrow> (string \<Rightarrow> read_error + string) \<Rightarrow> string \<Rightarrow> cli_error + string" where
  "find_dot_source is_there read run_root =
     (let dot_path = path_join run_root ''graph.dot'' in
      if is_there dot_path then map_sum CliIo id (read dot_path)
      else if is_there (path_join run_root ''manifest.json'')
      then Inl (CliOther (''graph.dot not found in run directory: '' @ run_root))
      else Inl (CliOther (''cannot find DOT source in run directory: '' @ run_root @ ''. Expected graph.dot at '' @ dot_path)))"

definition resume_registry :: "'w backend \<Rightarrow> 'w registry" where
  "resume_registry backend = register (codergen_handler backend None) default_registry"

definition resume_config :: "resume_args \<Rightarrow> engine_config" where
  "resume_config args = default_engine_config\<lparr>ec_max_steps := rs_max_steps args, ec_enable_checkpointing := False\<rparr>"

definition resume_graph :: "string \<Rightarrow> (cli_error, graph) result" where
  "resume_graph dot_source =
     res_bind (map_sum (map_fault CliDotParse) id (parse_source dot_source)) (\<lambda>dot_graph.
     map_sum (\<lambda>e. Err (CliResolution e)) id (resolve dot_graph))"

section \<open>The progress log\<close>

definition ansi :: "string \<Rightarrow> string \<Rightarrow> string" where
  "ansi style s = CHR 0x1B # ''['' @ style @ ''m'' @ s @ CHR 0x1B # ''[0m''"

definition node_icon :: "string \<Rightarrow> string" where
  "node_icon ty =
     (if ty = ''interviewer'' then ansi ''35'' ''?'' else if ty = ''start'' then ansi ''32'' ''>''
      else if ty = ''exit'' then ansi ''32'' ''<'' else ansi ''34'' ''*'')"

definition seconds :: "nat \<Rightarrow> f64" where
  "seconds ms = f64_div (f64_of_nat ms) (f64_of_nat 1000)"

text \<open>The first line of a message, cut by bytes: a cut inside a character panics.\<close>

definition message_head :: "string \<Rightarrow> panic + string" where
  "message_head t =
     (let first_line = (case str_lines t of l # ls \<Rightarrow> l | [] \<Rightarrow> []) in
      if length first_line > 120 then map_sum id (\<lambda>s. s @ ''...'') (slice_to first_line 117) else Inr first_line)"

fun print_event :: "pipeline_event \<Rightarrow> panic + string list" where
  "print_event (NodeStarted n ty t) = Inr [''  '' @ node_icon ty @ '' '' @ ansi ''1'' n]"
| "print_event (NodeCompleted n out ms t) =
     Inr (if f64_ge (seconds ms) (f64_of_nat 1) then [''    '' @ ansi ''32'' ''done'' @ '' ('' @ fixed_point 1 (seconds ms) @ ''s)''] else [])"
| "print_event (NodeFailed n e ms t) = Inr [''    '' @ ansi ''31'' (''FAILED: '' @ e)]"
| "print_event (EdgeTraversed from to label t) =
     Inr [''    '' @ ansi ''2'' (''-> '' @ to @ (case label of Some l \<Rightarrow> '' ['' @ l @ '']'' | None \<Rightarrow> []))]"
| "print_event (HumanPromptIssued n q t) = Inr [''    '' @ ansi ''35'' q]"
| "print_event (HumanResponseReceived n r t) = Inr [''    '' @ ansi ''36'' (''> '' @ r)]"
| "print_event (AgentToolCallStarted n tool i preview t) =
     Inr [''    '' @ ansi ''2'' (''[tool] '' @ tool @ (if preview = [] then [] else '' '' @ preview))]"
| "print_event (AgentToolCallCompleted n tool i ms err preview t) =
     Inr (if ms \<ge> 1000
          then [''    '' @ ansi ''2'' (''[tool] '' @ tool @ '' '' @ (if err then ansi ''31'' ''ERR'' else ansi ''32'' ''ok'') @
                  '' ('' @ fixed_point 1 (seconds ms) @ ''s)'')]
          else [])"
| "print_event (AgentMessage n txt t) =
     map_sum id (\<lambda>s. if s = [] then [] else [''    '' @ ansi ''2'' s]) (message_head txt)"
| "print_event (AgentTurnStarted n turn t) = Inr (if turn > 1 then [''    '' @ ansi ''2'' (''turn '' @ dec (unat turn))] else [])"
| "print_event (PipelineCompleted out nodes ms t) =
     Inr [[], ansi ''1;32'' (''--- done ('' @ dec nodes @ '' nodes, '' @ fixed_point 1 (seconds ms) @ ''s) ---'')]"
| "print_event (PipelineAborted reason t) = Inr [[], ansi ''1;31'' (''--- aborted: '' @ reason @ '' ---'')]"
| "print_event e = Inr []"

text \<open>The log ends when its channel closes, or with the panic of an event.\<close>

fun log_events :: "received list \<Rightarrow> string list \<times> panic option" where
  "log_events [] = ([], None)"
| "log_events (Received e # rs) =
     (case print_event e of
        Inl p \<Rightarrow> ([], Some p)
      | Inr ls \<Rightarrow> (let (rest, p) = log_events rs in (ls @ rest, p)))"
| "log_events (Lagged n # rs) =
     (let (rest, p) = log_events rs in ((''  '' @ ansi ''33'' (''... skipped '' @ dec n @ '' events'')) # rest, p))"
| "log_events (Closed # rs) = ([], None)"

definition log_pipeline_events :: "string \<Rightarrow> received list \<Rightarrow> string list \<times> panic option" where
  "log_pipeline_events pipeline_name rs =
     (let (ls, p) = log_events rs in ([ansi ''1;36'' (''--- '' @ pipeline_name @ '' ---''), []] @ ls, p))"

section \<open>Which nodes have a handler\<close>

lemma handles_simps:
  "h_handles start_handler = (\<lambda>t. t = Start)" "h_handles exit_handler = (\<lambda>t. t = Exit)"
  "h_handles conditional_handler = (\<lambda>t. t = Conditional)" "h_handles (codergen_handler b c) = (\<lambda>t. t = Codergen)"
  "h_handles (tool_handler j d) = (\<lambda>t. t = Tool)" "h_handles (manager_handler j d) = (\<lambda>t. t = Manager)"
  "h_handles (parallel_handler pc ms) = (\<lambda>t. t = Parallel \<or> t = FanIn)"
  by (simp_all add: start_handler_def exit_handler_def conditional_handler_def codergen_handler_def tool_handler_def
      manager_handler_def parallel_handler_def)

lemma get_handler_empty: "get_handler [] t = None"
  by (simp add: get_handler_def)

lemma default_get:
  "get_handler default_registry t =
     (if t = Start then Some start_handler else if t = Exit then Some exit_handler
      else if t = Conditional then Some conditional_handler else None)"
  by (simp add: default_registry_def get_handler_register get_handler_empty handles_simps)

lemma run_registry_Inr:
  assumes "run_registry args p = Inr reg"
  obtains b c where "reg = register (parallel_handler default_parallel_config LastWriteWins)
    ((if needs_llm args
      then register (tool_handler (pt_parse_json p) (pt_tool p)) \<circ> register (manager_handler (pt_parse_json p) (pt_manager p))
      else id)
     (register (pt_human_gate p) (register (pt_interviewer p) (register (codergen_handler b c) default_registry))))"
  using assms by (auto simp: run_registry_def codergen_for_def Let_def split: if_splits)

text \<open>
  In a run every node has a handler but those of no type and those that stand for a sub-pipeline, and with the shell
  backend also those for tools and managers.
\<close>

theorem run_handlers:
  assumes r: "run_registry args p = Inr reg" and i: "h_handles (pt_interviewer p) = handles_interviews"
    and h: "h_handles (pt_human_gate p) = handles_interviews"
  shows "get_handler reg t = None \<longleftrightarrow> t \<in> {SubPipeline, Generic} \<or> (\<not> needs_llm args \<and> t \<in> {Tool, Manager})"
proof (rule run_registry_Inr [OF r])
  fix b c
  assume reg: "reg = register (parallel_handler default_parallel_config LastWriteWins)
    ((if needs_llm args
      then register (tool_handler (pt_parse_json p) (pt_tool p)) \<circ> register (manager_handler (pt_parse_json p) (pt_manager p))
      else id)
     (register (pt_human_gate p) (register (pt_interviewer p) (register (codergen_handler b c) default_registry))))"
  show ?thesis unfolding reg
    by (cases t) (simp_all add: get_handler_register default_get handles_simps i h handles_interviews_def)
qed

text \<open>A person is always asked by the plain interviewer: the human gate, registered after it, never runs, and with it
  neither the limits nor the default choices of the gates.\<close>

theorem human_gate_shadowed:
  assumes "run_registry args p = Inr reg" "h_handles (pt_interviewer p) = handles_interviews"
  shows "get_handler reg Interviewer = Some (pt_interviewer p)"
proof (rule run_registry_Inr [OF assms(1)])
  fix b c
  assume reg: "reg = register (parallel_handler default_parallel_config LastWriteWins)
    ((if needs_llm args
      then register (tool_handler (pt_parse_json p) (pt_tool p)) \<circ> register (manager_handler (pt_parse_json p) (pt_manager p))
      else id)
     (register (pt_human_gate p) (register (pt_interviewer p) (register (codergen_handler b c) default_registry))))"
  show ?thesis unfolding reg
    by (simp add: get_handler_register default_get handles_simps assms(2) handles_interviews_def)
qed

text \<open>A resumed pipeline has handlers for four types of nodes only: at every other node it fails.\<close>

theorem resume_handlers:
  "registry_execute (resume_registry b) n s =
     (if gn_type n \<in> {Start, Exit, Conditional, Codergen}
      then registry_execute (register (codergen_handler b None) default_registry) n s
      else (Inl (NoHandler (debug_node_type (gn_type n))), s))"
  by (cases "gn_type n") (simp_all add: resume_registry_def registry_execute_def get_handler_register default_get handles_simps)

section \<open>The latest incomplete run\<close>

lemma insert_by_id_mset: "mset (insert_by_id r ts) = add_mset r (mset ts)"
  by (induction ts) auto

lemma by_id_head:
  "foldr insert_by_id rs [] = r # ts \<Longrightarrow> r \<in> set rs \<and> (\<forall>x\<in>set rs. ic_run_id x \<le> ic_run_id r)"
proof (induction rs arbitrary: r ts)
  case (Cons a rs)
  show ?case
  proof (cases "foldr insert_by_id rs []")
    case Nil
    have "mset (foldr insert_by_id rs []) = mset rs" by (induction rs) (simp_all add: insert_by_id_mset)
    with Nil Cons.prems show ?thesis by auto
  next
    case (Cons b bs)
    from Cons.IH [OF Cons] Cons.prems Cons show ?thesis by (force split: if_splits)
  qed
qed simp

text \<open>
  The run to continue is an unfinished run of the same source, the latest of them by identifier, and there is none
  exactly when no entry is such a run.
\<close>

theorem latest_incomplete_spec:
  "case find_latest_incomplete_run (Some es) graph_hash of
     None \<Rightarrow> List.map_filter (incomplete_of graph_hash) es = []
   | Some r \<Rightarrow> list_ex (\<lambda>e. incomplete_of graph_hash e = Some r) es \<and>
       list_all (\<lambda>x. ic_run_id x \<le> ic_run_id r) (List.map_filter (incomplete_of graph_hash) es)"
proof -
  let ?rs = "List.map_filter (incomplete_of graph_hash) es"
  have mem: "x \<in> set ?rs \<longleftrightarrow> list_ex (\<lambda>e. incomplete_of graph_hash e = Some x) es" for x
    by (induction es) (auto simp: map_filter_def)
  show ?thesis
  proof (cases "foldr insert_by_id ?rs []")
    case Nil
    have "mset (foldr insert_by_id rs []) = mset rs" for rs by (induction rs) (simp_all add: insert_by_id_mset)
    with Nil have "?rs = []" by (metis mset_zero_iff_right mset.simps(1))
    with Nil show ?thesis by (simp add: find_latest_incomplete_run_def)
  next
    case (Cons r ts)
    from by_id_head [OF this] mem [of r] show ?thesis by (simp add: find_latest_incomplete_run_def Cons list_all_iff)
  qed
qed

section \<open>Examples\<close>

definition idle_handler :: "unit handler" where
  "idle_handler = \<lparr>h_name = ''idle'', h_handles = handles_interviews, h_execute = (\<lambda>n s. (Inr success, s))\<rparr>"

definition sample_parts :: "unit parts" where
  "sample_parts =
     \<lparr>pt_claude = (\<lambda>p m s. (Inr success, s)), pt_agent = (\<lambda>p m s. (Inr success, s)), pt_shell = (\<lambda>p m s. (Inr success, s)),
      pt_interviewer = idle_handler, pt_human_gate = idle_handler\<lparr>h_name := ''gate''\<rparr>,
      pt_manager = (\<lambda>n j s. (Inr success, s)), pt_tool = (\<lambda>n j s. (Inr success, s)), pt_parse_json = (\<lambda>s. Inl [])\<rparr>"

definition sample_args :: run_args where
  "sample_args =
     \<lparr>ra_pipeline = ''p.dot'', ra_vars = [''x=1''], ra_model = ''m'', ra_max_steps = 10, ra_stylesheet = None, ra_render = None,
      ra_worktree = False, ra_allow_dirty = False, ra_skip_preflight = True, ra_skip_lint = True, ra_backend = ''shell'',
      ra_agent_timeout = 600, ra_interviewer = ''auto'', ra_tui = False, ra_no_tui = True, ra_headless = False, ra_resume = False,
      ra_max_timeouts = 3\<rparr>"

lemma sample_registry: "\<exists>reg. run_registry sample_args sample_parts = Inr reg"
  by (simp add: run_registry_def codergen_for_def sample_args_def)

theorem run_handlers_witness:
  "\<exists>reg. run_registry sample_args sample_parts = Inr reg \<and> get_handler reg Tool = None \<and> get_handler reg FanIn \<noteq> None"
proof -
  obtain reg where r: "run_registry sample_args sample_parts = Inr reg" using sample_registry by blast
  have h: "h_handles (pt_interviewer sample_parts) = handles_interviews" "h_handles (pt_human_gate sample_parts) = handles_interviews"
    by (simp_all add: sample_parts_def idle_handler_def)
  have "\<not> needs_llm sample_args" by (simp add: needs_llm_def sample_args_def)
  with run_handlers [OF r h, of Tool] run_handlers [OF r h, of FanIn] r show ?thesis by simp
qed

theorem human_gate_shadowed_witness:
  "\<exists>reg. run_registry sample_args sample_parts = Inr reg \<and> map_option h_name (get_handler reg Interviewer) = Some ''idle''"
proof -
  obtain reg where r: "run_registry sample_args sample_parts = Inr reg" using sample_registry by blast
  from human_gate_shadowed [OF r] r show ?thesis by (simp add: sample_parts_def idle_handler_def)
qed

text \<open>A message cut inside a character panics, and ends the log.\<close>

lemma message_head_panics:
  "print_event (AgentMessage ''n'' (replicate 116 CHR ''a'' @ [CHR 0xC3, CHR 0xA9] @ replicate 10 CHR ''a'') 0) = Inl Char_Boundary"
  by code_simp

text \<open>The resume command reads the graph without its variables: a prompt keeps its placeholder.\<close>

definition placeholder_source :: string where
  "placeholder_source = ''digraph p { a [prompt='' @ [CHR 0x22] @ ''do {{x}}'' @ [CHR 0x22] @ ''] }''"

lemma resume_forgets_variables:
  "(case run_load (\<lambda>p. Inr placeholder_source) sample_args of Inr (g, vs) \<Rightarrow> map (\<lambda>n. gn_attrs n ''prompt'') (g_nodes g) | _ \<Rightarrow> []) =
     [Some (AString ''do 1'')]"
  "(case resume_graph placeholder_source of Inr g \<Rightarrow> map (\<lambda>n. gn_attrs n ''prompt'') (g_nodes g) | _ \<Rightarrow> []) = [Some (AString ''do {{x}}'')]"
  unfolding placeholder_source_def by code_simp+

end
