(* ===== verification/Conformance.thy ===== *)
theory Conformance
  imports Engine_Run Pipeline Agent_Tools Preflight Llm_Catalog Backends Web_Events Llm_Stream
begin

text \<open>
  The conformance adapter, \<open>smasher-conformance/src\<close>: the JSON of graphs, results and events (\<open>convert.rs\<close>), the
  rewriting of requests (\<open>tier1.rs\<close>), the dispatch of tools (\<open>tier2.rs\<close>) and the commands on DOT files (\<open>tier3.rs\<close>).
  Standard input is the text a command is given, standard output what it returns, with the exit code; lines on
  standard error are left out.  JSON texts, the client and the tools are parameters.  An object whose keys come from
  attributes is a map from keys to values, as in the code; every other object is the list of its sorted entries.
\<close>

section \<open>Graphs as JSON\<close>

definition json_of_f64 :: "f64 \<Rightarrow> json" where
  "json_of_f64 x = (case x of F_Fin s m e \<Rightarrow> JNumber (JFloat x) | _ \<Rightarrow> JNull)"

definition seconds_text :: "duration \<Rightarrow> string" where
  "seconds_text d =
     (if d div 10 ^ 6 mod 1000 > 0 then fixed_digits 3 (d div 10 ^ 6) @ ''s'' else dec (as_secs d) @ ''s'')"

fun node_attr_value_to_json :: "attr_val \<Rightarrow> json" where
  "node_attr_value_to_json (AString s) = JString s"
| "node_attr_value_to_json (ANumber n) = json_of_f64 n"
| "node_attr_value_to_json (ABool b) = JBool b"
| "node_attr_value_to_json (ADuration d) = JString (seconds_text d)"

fun node_type_to_shape :: "node_type \<Rightarrow> string" where
  "node_type_to_shape Start = ''Mdiamond''"
| "node_type_to_shape Exit = ''Msquare''"
| "node_type_to_shape Codergen = ''box''"
| "node_type_to_shape Conditional = ''diamond''"
| "node_type_to_shape Tool = ''component''"
| "node_type_to_shape Interviewer = ''hexagon''"
| "node_type_to_shape Parallel = ''parallelogram''"
| "node_type_to_shape FanIn = ''trapezium''"
| "node_type_to_shape Manager = ''house''"
| "node_type_to_shape SubPipeline = ''folder''"
| "node_type_to_shape Generic = ''ellipse''"

definition put_opt :: "string \<Rightarrow> json option \<Rightarrow> json str_map \<Rightarrow> json str_map" where
  "put_opt key v m = (case v of Some x \<Rightarrow> m(key \<mapsto> x) | None \<Rightarrow> m)"

definition node_to_json :: "graph_node \<Rightarrow> json str_map" where
  "node_to_json n =
     put_opt ''label'' (map_option JString (gn_label n))
       ((map_option node_attr_value_to_json \<circ> gn_attrs n)
          (''id'' \<mapsto> JString (gn_id n), ''shape'' \<mapsto> JString (node_type_to_shape (gn_type n))))"

definition edge_to_json :: "graph_edge \<Rightarrow> json str_map" where
  "edge_to_json e =
     put_opt ''priority'' (map_option (\<lambda>p. JNumber (if p < 0 then JNegInt p else JPosInt (nat p))) (ge_priority e))
       (put_opt ''condition'' (map_option JString (ge_condition e))
         (put_opt ''label'' (map_option JString (ge_label e))
           ((map_option node_attr_value_to_json \<circ> ge_attrs e)(''from'' \<mapsto> JString (ge_from e), ''to'' \<mapsto> JString (ge_to e)))))"

record graph_json =
  gj_nodes :: "json str_map list"
  gj_edges :: "json str_map list"

definition graph_to_json :: "graph \<Rightarrow> graph_json" where
  "graph_to_json g = \<lparr>gj_nodes = map node_to_json (g_nodes g), gj_edges = map edge_to_json (g_edges g)\<rparr>"

section \<open>Results and events as JSON\<close>

definition is_execution_success :: "execution_result \<Rightarrow> graph \<Rightarrow> bool" where
  "is_execution_success res g =
     (let visited_exits = filter (\<lambda>i. i \<in> set (er_visited_nodes res)) (map gn_id (exit_nodes g)) in
      if visited_exits = [] then False
      else list_all (\<lambda>i. case hm_get (er_node_outcomes res) i of Some (Success d) \<Rightarrow> True | _ \<Rightarrow> False) visited_exits)"

record result_json =
  rj_status :: string
  rj_context :: context_map
  rj_visited_nodes :: "string list"
  rj_steps_taken :: nat
  rj_node_outcomes :: "json hmap"

text \<open>An outcome that does not serialise is shown as null.\<close>

definition execution_result_to_json :: "(outcome \<Rightarrow> json option) \<Rightarrow> execution_result \<Rightarrow> graph \<Rightarrow> result_json" where
  "execution_result_to_json outcome_json res g =
     \<lparr>rj_status = (if is_execution_success res g then ''success'' else ''failure''),
      rj_context = er_final_context res, rj_visited_nodes = er_visited_nodes res, rj_steps_taken = er_steps_taken res,
      rj_node_outcomes = map (\<lambda>(k, out). (k, case outcome_json out of Some v \<Rightarrow> v | None \<Rightarrow> JNull)) (er_node_outcomes res)\<rparr>"

definition json_nat :: "nat \<Rightarrow> json" where
  "json_nat n = JNumber (JPosInt n)"

fun session_event_to_json :: "session_event \<Rightarrow> json" where
  "session_event_to_json (SE_SessionStarted i) = JObject [(''session_id'', JString i), (''type'', JString ''session_start'')]"
| "session_event_to_json (SE_TurnStarted n) = JObject [(''turn_number'', json_nat (unat n)), (''type'', JString ''turn_start'')]"
| "session_event_to_json (SE_AssistantMessage r) =
     JObject [(''text'', JString (case response_text r of Some t \<Rightarrow> t | None \<Rightarrow> [])), (''type'', JString ''assistant_message'')]"
| "session_event_to_json (SE_ToolCallStarted tool i preview) =
     JObject [(''input_preview'', JString preview), (''tool_call_id'', JString i), (''tool_name'', JString tool),
       (''type'', JString ''tool_call_start'')]"
| "session_event_to_json (SE_ToolCallCompleted tool i result err ms) =
     JObject [(''duration_ms'', json_nat ms), (''is_error'', JBool err), (''result'', JString result),
       (''tool_call_id'', JString i), (''tool_name'', JString tool), (''type'', JString ''tool_call_end'')]"
| "session_event_to_json (SE_TextDelta t) = JObject [(''text'', JString t), (''type'', JString ''text_delta'')]"
| "session_event_to_json (SE_SteeringApplied t) = JObject [(''text'', JString t), (''type'', JString ''steering_applied'')]"
| "session_event_to_json (SE_SessionCompleted i turns usage) =
     JObject [(''session_id'', JString i), (''total_turns'', json_nat (unat turns)), (''type'', JString ''session_end'')]"
| "session_event_to_json (SE_SessionError i e) =
     JObject [(''error'', JString e), (''session_id'', JString i), (''type'', JString ''session_error'')]"
| "session_event_to_json (SE_LoopDetected p n) =
     JObject [(''pattern'', JString p), (''type'', JString ''loop_detected''), (''window_size'', json_nat n)]"
| "session_event_to_json (SE_ContextWindowWarning used limit fraction) =
     JObject [(''fraction'', json_of_f64 fraction), (''limit'', json_nat limit), (''type'', JString ''context_window_warning''),
       (''used'', json_nat used)]"

section \<open>Requests\<close>

fun error_to_type :: "llm_error \<Rightarrow> string" where
  "error_to_type (Authentication _ _) = ''authentication''"
| "error_to_type (RateLimited _ _) = ''rate_limited''"
| "error_to_type (Timeout _ _) = ''timeout''"
| "error_to_type (ServerError _ _ _) = ''server_error''"
| "error_to_type (InvalidRequest _ _) = ''invalid_request''"
| "error_to_type (ModelNotFound _ _) = ''model_not_found''"
| "error_to_type (ContentFiltered _ _) = ''content_filtered''"
| "error_to_type (ContextLengthExceeded _ _) = ''context_length_exceeded''"
| "error_to_type (StreamError _ _) = ''stream_error''"
| "error_to_type (ResponseParse _ _) = ''response_parse''"
| "error_to_type (HttpError _ _) = ''http''"
| "error_to_type (Serialization _) = ''serialization''"
| "error_to_type (ProviderNotConfigured _) = ''provider_not_configured''"
| "error_to_type LlmCancelled = ''cancelled''"
| "error_to_type (AccessDenied _ _) = ''access_denied''"
| "error_to_type (QuotaExceeded _ _) = ''quota_exceeded''"
| "error_to_type (NetworkError _ _) = ''network_error''"
| "error_to_type (Aborted _) = ''aborted''"
| "error_to_type (InvalidToolCall _ _) = ''invalid_tool_call''"
| "error_to_type (NoObjectGenerated _ _) = ''no_object_generated''"
| "error_to_type (ConfigurationError _) = ''configuration_error''"
| "error_to_type (LlmOther _ _) = ''other''"

text \<open>Rewriting the elements of an array under a key of an object, in place.\<close>

definition update_elements :: "string \<Rightarrow> (json \<Rightarrow> json) \<Rightarrow> json \<Rightarrow> json" where
  "update_elements key f v =
     (case v of
        JObject kvs \<Rightarrow> (case map_of kvs key of Some (JArray xs) \<Rightarrow> JObject (bt_insert key (JArray (map f xs)) kvs) | _ \<Rightarrow> v)
      | _ \<Rightarrow> v)"

definition str_member :: "(string \<times> json) list \<Rightarrow> string \<Rightarrow> string" where
  "str_member kvs key = (case map_of kvs key of Some (JString s) \<Rightarrow> s | _ \<Rightarrow> [])"

definition content_parts :: "(string \<times> json) list \<Rightarrow> string \<Rightarrow> json" where
  "content_parts msg t =
     (if str_member msg ''role'' = ''tool'' then
        JArray [JObject [(''content'', JString t), (''is_error'', JBool False), (''kind'', JString ''tool_result''),
          (''tool_call_id'', JString (str_member msg ''tool_call_id''))]]
      else JArray [JObject [(''kind'', JString ''text''), (''text'', JString t)]])"

definition normalize_message :: "json \<Rightarrow> json" where
  "normalize_message v =
     (case v of
        JObject msg \<Rightarrow>
          (case map_of msg ''content'' of
             Some (JString t) \<Rightarrow> JObject (bt_insert ''content'' (content_parts msg t) msg)
           | _ \<Rightarrow> v)
      | _ \<Rightarrow> v)"

definition normalize_message_content :: "json \<Rightarrow> json" where
  "normalize_message_content = update_elements ''messages'' normalize_message"

definition function_tool :: "(string \<times> json) list \<Rightarrow> json" where
  "function_tool func =
     JObject (bt_insert ''parameters'' (case map_of func ''parameters'' of Some p \<Rightarrow> p | None \<Rightarrow> JObject [(''type'', JString ''object'')])
       (bt_insert ''description'' (case map_of func ''description'' of Some d \<Rightarrow> d | None \<Rightarrow> JString [])
         (case map_of func ''name'' of Some n \<Rightarrow> bt_insert ''name'' n [] | None \<Rightarrow> [])))"

definition normalize_tool :: "json \<Rightarrow> json" where
  "normalize_tool v =
     (case v of
        JObject tool \<Rightarrow>
          (if map_of tool ''type'' = Some (JString ''function'')
           then (case map_of tool ''function'' of Some (JObject func) \<Rightarrow> function_tool func | _ \<Rightarrow> v)
           else v)
      | _ \<Rightarrow> v)"

definition normalize_tools :: "json \<Rightarrow> json" where
  "normalize_tools = update_elements ''tools'' normalize_tool"

definition remove_member :: "string \<Rightarrow> json \<Rightarrow> json option \<times> json" where
  "remove_member key v =
     (case v of JObject kvs \<Rightarrow> (map_of kvs key, JObject (filter (\<lambda>(k, x). k \<noteq> key) kvs)) | _ \<Rightarrow> (None, v))"

definition schema_format :: "json \<Rightarrow> json" where
  "schema_format schema =
     JObject [(''name'', JString ''response''), (''schema'', schema), (''strict'', JBool False), (''type'', JString ''json_schema'')]"

definition put_member :: "string \<Rightarrow> json \<Rightarrow> json \<Rightarrow> json" where
  "put_member key x v = (case v of JObject kvs \<Rightarrow> JObject (bt_insert key x kvs) | _ \<Rightarrow> v)"

definition adapt_request_json :: "json \<Rightarrow> json \<times> string option" where
  "adapt_request_json value =
     (let (endpoint, v0) = remove_member ''_test_endpoint'' value;
          v1 = normalize_tools (normalize_message_content v0);
          (schema, v2) = remove_member ''response_schema'' v1
      in (case schema of Some s \<Rightarrow> put_member ''response_format'' (schema_format s) v2 | None \<Rightarrow> v2,
          Option.bind endpoint json_string))"

text \<open>What a completion prints, with its exit code.\<close>

definition error_json :: "string \<Rightarrow> string \<Rightarrow> json" where
  "error_json e ty = JObject [(''error'', JString e), (''error_type'', JString ty)]"

definition request_of_input ::
  "(string \<Rightarrow> string + json) \<Rightarrow> (json \<Rightarrow> string + request) \<Rightarrow> bool \<Rightarrow> string + string \<Rightarrow> json + request" where
  "request_of_input parse_json request_of streams input =
     res_bind (map_sum (\<lambda>e. error_json e ''stdin_read'') id input) (\<lambda>t.
     res_bind (map_sum (\<lambda>e. error_json e ''json_parse'') id (parse_json t)) (\<lambda>value.
     let v = fst (adapt_request_json value); v' = (if streams then put_member ''stream'' (JBool True) v else v)
     in map_sum (\<lambda>e. error_json e ''request_deserialize'') id (request_of v')))"

definition run_complete ::
  "(string \<Rightarrow> string + json) \<Rightarrow> (json \<Rightarrow> string + request) \<Rightarrow> (response \<Rightarrow> string + json) \<Rightarrow> 'w retry_env \<Rightarrow>
     ('w, 's) client option \<Rightarrow> string + string \<Rightarrow> 'w \<Rightarrow> (json \<times> int) \<times> 'w" where
  "run_complete parse_json request_of response_json renv client input w =
     (case request_of_input parse_json request_of False input of
        Inl e \<Rightarrow> ((e, 1), w)
      | Inr request \<Rightarrow>
          (case client of
             None \<Rightarrow> ((error_json ''no providers configured'' ''client_init'', 1), w)
           | Some c \<Rightarrow>
               (case client_complete renv c request w of
                  (Inr r, w1) \<Rightarrow>
                    ((case response_json r of Inr v \<Rightarrow> (v, 0) | Inl e \<Rightarrow> (error_json e ''serialization'', 1)), w1)
                | (Inl e, w1) \<Rightarrow> ((error_json (llm_error_text e) (error_to_type e), 1), w1))))"

text \<open>A stream is printed up to its first error; an event that does not serialise is left out.\<close>

fun print_stream :: "('e \<Rightarrow> json option) \<Rightarrow> (llm_error + 'e) list \<Rightarrow> json list \<times> int" where
  "print_stream event_json [] = ([], 0)"
| "print_stream event_json (Inr e # es) =
     (let (js, n) = print_stream event_json es in (case event_json e of Some j \<Rightarrow> j # js | None \<Rightarrow> js, n))"
| "print_stream event_json (Inl e # es) = ([error_json (llm_error_text e) (error_to_type e)], 1)"

definition run_stream ::
  "(string \<Rightarrow> string + json) \<Rightarrow> (json \<Rightarrow> string + request) \<Rightarrow> ('e \<Rightarrow> json option) \<Rightarrow> 'w retry_env \<Rightarrow>
     ('w, (llm_error + 'e) list) client option \<Rightarrow> string + string \<Rightarrow> 'w \<Rightarrow> (json list \<times> int) \<times> 'w" where
  "run_stream parse_json request_of event_json renv client input w =
     (case request_of_input parse_json request_of True input of
        Inl e \<Rightarrow> (([e], 1), w)
      | Inr request \<Rightarrow>
          (case client of
             None \<Rightarrow> (([error_json ''no providers configured'' ''client_init''], 1), w)
           | Some c \<Rightarrow>
               (case client_stream renv c request w of
                  (Inr es, w1) \<Rightarrow> (print_stream event_json es, w1)
                | (Inl e, w1) \<Rightarrow> (([error_json (llm_error_text e) (error_to_type e)], 1), w1))))"

definition model_json :: "model_info \<Rightarrow> json" where
  "model_json m =
     JObject [(''context_window'', json_nat (mi_context_window m)), (''display_name'', JString (mi_display_name m)),
       (''id'', JString (mi_id m)), (''max_output_tokens'', json_nat (mi_max_output_tokens m)),
       (''provider'', JString (provider_display (mi_provider m))), (''supports_images'', JBool (mi_supports_images m)),
       (''supports_streaming'', JBool (mi_supports_streaming m)), (''supports_tool_use'', JBool (mi_supports_tool_use m))]"

definition list_models :: "json list" where
  "list_models = concat (map (\<lambda>p. map model_json (models_for_provider p)) [Anthropic, OpenAi, Gemini])"

section \<open>Sessions and tools\<close>

definition conf_session_config :: "json \<Rightarrow> session_config \<Rightarrow> session_config" where
  "conf_session_config parsed config =
     (let c = (case Option.bind (json_field ''model'' parsed) json_string of Some m \<Rightarrow> config_model m config | None \<Rightarrow> config)
      in config_max_turns 10 (config_stream False c))"

definition status_error :: "string \<Rightarrow> json" where
  "status_error e = JObject [(''error'', JString e), (''status'', JString ''error'')]"

definition session_create :: "string \<Rightarrow> json" where
  "session_create session_id = JObject [(''session_id'', JString session_id), (''status'', JString ''created'')]"

text \<open>What the command on a session makes of its input: a refusal, with what it prints, or the prompt and the
  configuration.\<close>

definition process_request :: "(string \<Rightarrow> string + json) \<Rightarrow> string + string \<Rightarrow> json option + string \<times> session_config" where
  "process_request parse_json input =
     res_bind (map_sum (\<lambda>e. None) id (res_bind input parse_json)) (\<lambda>parsed.
     case Option.bind (json_field ''prompt'' parsed) json_string of
       None \<Rightarrow> Inl None
     | Some prompt \<Rightarrow>
         (let config = (case Option.bind (json_field ''system_prompt'' parsed) json_string of
                Some sp \<Rightarrow> config_system_prompt sp default_session_config | None \<Rightarrow> default_session_config)
          in case Option.bind (json_field ''_test_base_url'' parsed) json_string of
               Some u \<Rightarrow>
                 (if \<not> starts_with u ''http://'' \<and> \<not> starts_with u ''https://''
                  then Inl (Some (status_error (''invalid base URL: '' @ u)))
                  else Inr (prompt, conf_session_config parsed config))
             | None \<Rightarrow> Inr (prompt, conf_session_config parsed config)))"

definition process_reply :: "session_error + session_output \<Rightarrow> json \<times> int" where
  "process_reply r =
     (case r of
        Inr output \<Rightarrow>
          (let t = JString (case so_text output of Some s \<Rightarrow> s | None \<Rightarrow> []) in
           (JObject [(''output'', t), (''result'', t), (''status'', JString ''success''),
              (''turns'', json_nat (unat (so_turns_used output)))], 0))
      | Inl e \<Rightarrow> (status_error (session_error_text e), 1))"

definition events_request :: "(string \<Rightarrow> string + json) \<Rightarrow> string option \<Rightarrow> string \<times> session_config" where
  "events_request parse_json input =
     (let parsed = (case input of
            Some buf \<Rightarrow> (if trim buf = [] then JObject [] else case parse_json buf of Inr v \<Rightarrow> v | Inl e \<Rightarrow> JObject [])
          | None \<Rightarrow> JObject [])
      in (case Option.bind (json_field ''prompt'' parsed) json_string of Some p \<Rightarrow> p | None \<Rightarrow> ''Say hello'',
          conf_session_config parsed default_session_config))"

definition events_reply :: "session_event list \<Rightarrow> json list \<times> int" where
  "events_reply es = (if length es < 3 then ([], 1) else (map session_event_to_json es, 0))"

definition plain_error :: "string \<Rightarrow> json" where
  "plain_error e = JObject [(''error'', JString e)]"

definition dispatch_arguments :: "(string \<Rightarrow> string + json) \<Rightarrow> (json \<Rightarrow> string) \<Rightarrow> json \<Rightarrow> string option" where
  "dispatch_arguments parse_json render parsed =
     (case json_field ''arguments'' parsed of
        Some (JObject kvs) \<Rightarrow> Some (render (JObject kvs))
      | Some (JString s) \<Rightarrow> (case parse_json s of Inr (JObject kvs) \<Rightarrow> Some s | _ \<Rightarrow> None)
      | _ \<Rightarrow> None)"

definition tool_dispatch ::
  "(string \<Rightarrow> string + json) \<Rightarrow> (json \<Rightarrow> string) \<Rightarrow> 'w tool_registry \<Rightarrow> string + string \<Rightarrow> 'w \<Rightarrow>
     (panic + json option \<times> int) \<times> 'w" where
  "tool_dispatch parse_json render registry input w =
     (case res_bind input parse_json of
        Inl e \<Rightarrow> (Inr (None, 1), w)
      | Inr parsed \<Rightarrow>
          (case Option.bind (json_field ''tool_name'' parsed) json_string of
             None \<Rightarrow> (Inr (Some (plain_error ''missing tool_name''), 1), w)
           | Some tool_name \<Rightarrow>
               (case dispatch_arguments parse_json render parsed of
                  None \<Rightarrow> (Inr (Some (plain_error ''invalid arguments''), 1), w)
                | Some arguments \<Rightarrow>
                    (if \<not> has_tool tool_name registry then (Inr (Some (plain_error (''unknown tool: '' @ tool_name)), 1), w)
                     else
                       (case execute_tool registry tool_name arguments w of
                          (Inl p, w1) \<Rightarrow> (Inl p, w1)
                        | (Inr out, w1) \<Rightarrow>
                            (Inr (if to_is_error out then (Some (plain_error (to_content out)), 1)
                               else (Some (JObject [(''output'', JString (to_content out)), (''result'', JString (to_content out))]), 0)),
                             w1))))))"

definition steering :: "(string \<Rightarrow> string + json) \<Rightarrow> string + string \<Rightarrow> json option \<times> int" where
  "steering parse_json input =
     (case res_bind input parse_json of
        Inl e \<Rightarrow> (None, 1)
      | Inr parsed \<Rightarrow>
          (if json_field ''message'' parsed = None then (None, 1)
           else (Some (JObject [(''acknowledged'', JBool True), (''status'', JString ''queued'')]), 0)))"

section \<open>DOT files\<close>

definition load_dotfile :: "(string \<Rightarrow> read_error + string) \<Rightarrow> string \<Rightarrow> (cli_error, graph) result" where
  "load_dotfile read dotfile =
     res_bind (map_sum (\<lambda>e. Err (CliIo e)) id (read dotfile)) (\<lambda>contents.
     res_bind (map_sum (map_fault CliDotParse) id (parse_source contents)) (\<lambda>dot_graph.
     map_sum (\<lambda>e. Err (CliResolution e)) id (resolve dot_graph)))"

definition conf_parse :: "(string \<Rightarrow> read_error + string) \<Rightarrow> string \<Rightarrow> panic + graph_json option \<times> int" where
  "conf_parse read dotfile =
     (case load_dotfile read dotfile of
        Inl (Panic p) \<Rightarrow> Inl p
      | Inl (Err e) \<Rightarrow> Inr (None, 1)
      | Inr g \<Rightarrow> Inr (Some (graph_to_json g), 0))"

datatype shown_diagnostic = Load_Diagnostic string | Lint_Diagnostic diagnostic

definition conf_validate ::
  "(cli_error \<Rightarrow> string) \<Rightarrow> (string \<Rightarrow> read_error + string) \<Rightarrow> string \<Rightarrow> panic + shown_diagnostic list \<times> int" where
  "conf_validate text_of_error read dotfile =
     (case load_dotfile read dotfile of
        Inl (Panic p) \<Rightarrow> Inl p
      | Inl (Err e) \<Rightarrow>
          Inr ([Load_Diagnostic (case e of CliIo io \<Rightarrow> ''failed to read DOT file: '' @ text_of_error e | _ \<Rightarrow> text_of_error e)], 1)
      | Inr g \<Rightarrow> Inr (map Lint_Diagnostic (run_lint with_builtins g), 0))"

definition mock_generate :: "'w retry_env \<Rightarrow> ('w, 's) client \<Rightarrow> 'w backend" where
  "mock_generate renv client prompt model s =
     (let request = set_max_tokens 1000 (request_new (case model of Some m \<Rightarrow> m | None \<Rightarrow> ''gpt-4o'') [user_message prompt])
      in case client_complete renv client request (snd s) of
           (Inr r, w1) \<Rightarrow> (Inr (response_outcome (case response_text r of Some t \<Rightarrow> t | None \<Rightarrow> [])), fst s, w1)
         | (Inl e, w1) \<Rightarrow> (Inr (failure (llm_error_text e)), fst s, w1))"

definition conf_registry :: "'w backend \<Rightarrow> 'w registry" where
  "conf_registry backend = register (codergen_handler backend None) default_registry"

definition conf_config :: engine_config where
  "conf_config = default_engine_config\<lparr>ec_max_steps := 100, ec_enable_checkpointing := False\<rparr>"

definition conf_run ::
  "'w env \<Rightarrow> 'w retry_env \<Rightarrow> ('w, 's) client \<Rightarrow> (string \<Rightarrow> read_error + string) \<Rightarrow> string \<Rightarrow> 'w \<Rightarrow>
     panic + result_json option \<times> int" where
  "conf_run env renv client read dotfile w =
     (case load_dotfile read dotfile of
        Inl (Panic p) \<Rightarrow> Inl p
      | Inl (Err e) \<Rightarrow> Inr (None, 1)
      | Inr g \<Rightarrow>
          (case run (env\<lparr>e_registry := conf_registry (mock_generate renv client)\<rparr>) conf_config g [] w of
             (Inr res, s) \<Rightarrow>
               (let js = execution_result_to_json (e_outcome_json env) res g
                in Inr (Some js, if rj_status js = ''failure'' then 1 else 0))
           | (Inl (Err e), s) \<Rightarrow> Inr (None, 1)
           | (Inl (Panic p), s) \<Rightarrow> Inl p))"

definition list_handlers :: "(string \<times> string \<times> string) list" where
  "list_handlers =
     [(''start'', ''Mdiamond'', ''Start node handler''), (''exit'', ''Msquare'', ''Exit/done node handler''),
      (''codergen'', ''box'', ''Codergen code generation handler''),
      (''conditional'', ''diamond'', ''Conditional routing handler'')]"

section \<open>What a successful run has visited\<close>

lemma conf_get_handler:
  "get_handler (conf_registry b) t =
     (if t = Start then Some start_handler else if t = Exit then Some exit_handler
      else if t = Conditional then Some conditional_handler else if t = Codergen then Some (codergen_handler b None) else None)"
  by (cases t) (simp_all add: conf_registry_def default_registry_def get_handler_def register_def start_handler_def
      exit_handler_def conditional_handler_def codergen_handler_def)







definition conf_retry :: "unit retry_env" where
  "conf_retry = \<lparr>rx_powi = (\<lambda>x n. x), rx_random = (\<lambda>w. (F_NaN, w)), rx_sleep = (\<lambda>d w. w)\<rparr>"

definition conf_client :: "(unit, unit) client" where
  "conf_client = client_new"



section \<open>What the JSON of a graph says\<close>

lemma node_to_json_fields:
  "node_to_json n ''id'' = Some (JString (gn_id n))" "node_to_json n ''shape'' = Some (JString (node_type_to_shape (gn_type n)))"
  "node_to_json n ''label'' = (case gn_label n of Some l \<Rightarrow> Some (JString l) | None \<Rightarrow> map_option node_attr_value_to_json (gn_attrs n ''label''))"
  by (auto simp: node_to_json_def put_opt_def split: option.splits)

lemma edge_to_json_fields:
  "edge_to_json e ''from'' = Some (JString (ge_from e))" "edge_to_json e ''to'' = Some (JString (ge_to e))"
  by (auto simp: edge_to_json_def put_opt_def split: option.splits)

lemma node_type_to_shape_inj: "node_type_to_shape t = node_type_to_shape t' \<Longrightarrow> t = t'"
  by (cases t; cases t') simp_all

text \<open>C40. 
  The JSON of a graph determines its nodes, with their kinds, and the ends of its edges, in their order: whatever the
  attributes of a node or an edge are called, they do not replace its identifier, its kind or its ends.
\<close>

theorem graph_json_determines:
  assumes "graph_to_json g = graph_to_json g'"
  shows "map (\<lambda>n. (gn_id n, gn_type n)) (g_nodes g) = map (\<lambda>n. (gn_id n, gn_type n)) (g_nodes g') \<and>
    map (\<lambda>e. (ge_from e, ge_to e)) (g_edges g) = map (\<lambda>e. (ge_from e, ge_to e)) (g_edges g')"
proof -
  define node_key :: "json str_map \<Rightarrow> string \<times> node_type" where
    "node_key m = (case (m ''id'', m ''shape'') of
       (Some (JString i), Some (JString s)) \<Rightarrow> (i, the_inv node_type_to_shape s) | _ \<Rightarrow> ([], Generic))" for m
  define edge_key :: "json str_map \<Rightarrow> string \<times> string" where
    "edge_key m = (case (m ''from'', m ''to'') of (Some (JString a), Some (JString b)) \<Rightarrow> (a, b) | _ \<Rightarrow> ([], []))" for m
  have inj: "inj node_type_to_shape" by (auto intro: injI node_type_to_shape_inj)
  have k: "node_key (node_to_json n) = (gn_id n, gn_type n)" "edge_key (edge_to_json e) = (ge_from e, ge_to e)" for n e
    by (simp_all add: node_key_def edge_key_def node_to_json_fields edge_to_json_fields the_inv_f_f [OF inj])
  have "map node_to_json (g_nodes g) = map node_to_json (g_nodes g')" "map edge_to_json (g_edges g) = map edge_to_json (g_edges g')"
    using assms by (simp_all add: graph_to_json_def)
  then have "map node_key (map node_to_json (g_nodes g)) = map node_key (map node_to_json (g_nodes g'))"
    "map edge_key (map edge_to_json (g_edges g)) = map edge_key (map edge_to_json (g_edges g'))" by simp_all
  then show ?thesis by (simp add: k comp_def)
qed

text \<open>
  The shapes are not those the parser reads: a tool is shown by the shape of a parallel node and a parallel node by
  that of a tool, and four more kinds by shapes that stand for other kinds.
\<close>

lemma shape_read_back:
  "node_type_from_shape (node_type_to_shape t) = t \<longleftrightarrow> t \<notin> {Tool, Parallel, FanIn, SubPipeline, Generic}"
  by (cases t) (simp_all add: node_type_from_shape_def)

lemma shapes_swapped:
  "node_type_from_shape (node_type_to_shape Tool) = Parallel" "node_type_from_shape (node_type_to_shape Parallel) = Tool"
  by (simp_all add: node_type_from_shape_def)

text \<open>The handlers that are listed are those of a run, each with a shape of its kind.\<close>

theorem list_handlers_agree:
  "map (\<lambda>(name, shape, about). Some name) list_handlers =
     map (\<lambda>(name, shape, about). map_option h_name (get_handler (conf_registry b) (node_type_from_shape shape))) list_handlers \<and>
   (get_handler (conf_registry b) t \<noteq> None \<longleftrightarrow> list_ex (\<lambda>(name, shape, about). node_type_from_shape shape = t) list_handlers)"
  by (cases t) (simp_all add: list_handlers_def conf_get_handler node_type_from_shape_def start_handler_def
      exit_handler_def conditional_handler_def codergen_handler_def)

section \<open>Requests are rewritten once\<close>

text \<open>An object whose keys are sorted, as every object of the JSON library is.\<close>

fun well_keyed :: "json \<Rightarrow> bool" where
  "well_keyed (JObject kvs) = sorted_wrt (<) (map fst kvs)"
| "well_keyed v = True"

fun is_object :: "json \<Rightarrow> bool" where
  "is_object (JObject kvs) = True"
| "is_object v = False"

lemma sorted_entries_unique:
  fixes m m' :: "(string \<times> 'v) list"
  assumes "sorted_wrt (<) (map fst m)" "sorted_wrt (<) (map fst m')" "map_of m = map_of m'"
  shows "m = m'"
proof -
  have d: "distinct (map fst m)" "distinct (map fst m')" using assms(1,2) by (simp_all add: strict_sorted_iff)
  have "set m = set m'" using assms(3) map_of_eq_Some_iff [OF d(1)] map_of_eq_Some_iff [OF d(2)] by auto
  moreover have "sorted (map fst m)" "sorted (map fst m')" using assms(1,2) by (simp_all add: strict_sorted_iff)
  ultimately show ?thesis using d by (intro map_sorted_distinct_set_unique [of fst]) (auto simp: distinct_map)
qed

lemma object_ext:
  assumes "is_object v" "is_object v'" "well_keyed v" "well_keyed v'" "\<And>k. json_field k v = json_field k v'"
  shows "v = v'"
proof -
  obtain kvs kvs' where v: "v = JObject kvs" "v' = JObject kvs'" using assms(1,2) by (cases v; cases v') auto
  with assms(3-5) sorted_entries_unique [of kvs kvs'] show ?thesis by (auto simp: fun_eq_iff)
qed

lemma update_elements_fields:
  assumes "well_keyed v"
  shows "well_keyed (update_elements key f v) \<and> is_object (update_elements key f v) = is_object v \<and>
    json_field k (update_elements key f v) =
      (if k = key then (case json_field key v of Some (JArray xs) \<Rightarrow> Some (JArray (map f xs)) | r \<Rightarrow> r) else json_field k v)"
proof (cases v)
  case (JObject kvs)
  with assms bt_insert_props [of kvs key] show ?thesis
    by (auto simp: update_elements_def split: option.split json.split)
qed (auto simp: update_elements_def)

lemma remove_member_fields:
  assumes "well_keyed v"
  shows "well_keyed (snd (remove_member key v)) \<and> is_object (snd (remove_member key v)) = is_object v \<and>
    fst (remove_member key v) = json_field key v \<and>
    json_field k (snd (remove_member key v)) = (if k = key then None else json_field k v)"
proof (cases v)
  case (JObject kvs)
  have "map_of (filter (\<lambda>(k, x). k \<noteq> key) kvs) k = (if k = key then None else map_of kvs k)"
    by (induction kvs) auto
  moreover have "sorted_wrt (<) (map fst (filter (\<lambda>(k, x). k \<noteq> key) kvs))"
    using assms JObject by (auto simp: sorted_wrt_map intro: sorted_wrt_filter)
  ultimately show ?thesis by (simp add: remove_member_def JObject)
qed (auto simp: remove_member_def)

lemma put_member_fields:
  assumes "well_keyed v"
  shows "well_keyed (put_member key x v) \<and> is_object (put_member key x v) = is_object v \<and>
    json_field k (put_member key x v) = (if k = key \<and> is_object v then Some x else json_field k v)"
proof (cases v)
  case (JObject kvs)
  with assms bt_insert_props [of kvs key] show ?thesis by (auto simp: put_member_def)
qed (auto simp: put_member_def)

text \<open>
  What an adapted request holds: the endpoint and the schema are gone, the schema is in the format of the response,
  the messages and the tools are rewritten, and every other field is as it was.
\<close>

theorem adapt_request_fields:
  assumes "well_keyed v"
  shows "well_keyed (fst (adapt_request_json v)) \<and> is_object (fst (adapt_request_json v)) = is_object v \<and>
    snd (adapt_request_json v) = Option.bind (json_field ''_test_endpoint'' v) json_string \<and>
    json_field k (fst (adapt_request_json v)) =
      (if k = ''_test_endpoint'' \<or> k = ''response_schema'' then None
       else if k = ''response_format'' \<and> json_field ''response_schema'' v \<noteq> None
         then map_option schema_format (json_field ''response_schema'' v)
       else if k = ''messages''
         then (case json_field ''messages'' v of Some (JArray xs) \<Rightarrow> Some (JArray (map normalize_message xs)) | r \<Rightarrow> r)
       else if k = ''tools''
         then (case json_field ''tools'' v of Some (JArray xs) \<Rightarrow> Some (JArray (map normalize_tool xs)) | r \<Rightarrow> r)
       else json_field k v)"
proof -
  note r0 = remove_member_fields [OF assms, of "''_test_endpoint''"]
  define v0 where "v0 = snd (remove_member ''_test_endpoint'' v)"
  define v1 where "v1 = normalize_tools (normalize_message_content v0)"
  have w0: "well_keyed v0" using r0 by (simp add: v0_def)
  note u = update_elements_fields [OF w0, of "''messages''" normalize_message, folded normalize_message_content_def]
  note u' = update_elements_fields [OF conjunct1 [OF u], of "''tools''" normalize_tool, folded normalize_tools_def v1_def]
  note r1 = remove_member_fields [OF conjunct1 [OF u'], of "''response_schema''"]
  define v2 where "v2 = snd (remove_member ''response_schema'' v1)"
  have w2: "well_keyed v2" using r1 by (simp add: v2_def)
  note p = put_member_fields [OF w2, of "''response_format''"]
  have o: "json_field ''response_schema'' v \<noteq> None \<Longrightarrow> is_object v" by (cases v) simp_all
  have a: "adapt_request_json v =
    (case json_field ''response_schema'' v1 of Some s \<Rightarrow> put_member ''response_format'' (schema_format s) v2 | None \<Rightarrow> v2,
     Option.bind (json_field ''_test_endpoint'' v) json_string)"
    using r0 r1 by (simp add: adapt_request_json_def v0_def v1_def v2_def split_beta Let_def split: option.split)
  have s: "json_field ''response_schema'' v1 = json_field ''response_schema'' v" using u u' r0 by (simp add: v0_def)
  show ?thesis
    using r0 u u' r1 p o unfolding a fst_conv snd_conv s by (auto simp: v0_def [symmetric] v2_def [symmetric] split: option.split)
qed

lemma map_of_bt_insert_same: "map_of (bt_insert k v m) k = Some v"
  by (induction k v m rule: bt_insert.induct) auto

lemma normalize_message_content_is:
  "json_field ''content'' (normalize_message v) \<noteq> Some (JString t)"
  by (auto simp: normalize_message_def content_parts_def map_of_bt_insert_same split: json.splits option.splits)

lemma normalize_message_id: "(\<And>t. json_field ''content'' u \<noteq> Some (JString t)) \<Longrightarrow> normalize_message u = u"
  by (cases u) (auto simp: normalize_message_def split: option.split json.split)

lemma normalize_message_again: "normalize_message (normalize_message v) = normalize_message v"
  by (rule normalize_message_id) (rule normalize_message_content_is)

lemma normalize_tool_again: "normalize_tool (normalize_tool v) = normalize_tool v"
proof (cases "normalize_tool v = v")
  case False
  then obtain func where f: "normalize_tool v = function_tool func"
    by (auto simp: normalize_tool_def split: json.splits option.splits if_splits)
  have "map_of (bt_insert ''parameters'' p (bt_insert ''description'' d m)) ''type'' = None"
    if "m = [] \<or> (\<exists>n. m = bt_insert ''name'' n [])" for p d m
    using that by auto
  then have "normalize_tool (function_tool func) = function_tool func"
    unfolding function_tool_def normalize_tool_def by (auto split: option.split)
  with f show ?thesis by simp
qed simp

text \<open>
  Adapting a request again changes nothing, and an adapted request holds no endpoint, and no message whose content is
  a bare text.
\<close>

theorem adapt_request_again:
  assumes "well_keyed v" "u = fst (adapt_request_json v)"
  shows "adapt_request_json u = (u, None) \<and>
    (\<forall>xs. json_field ''messages'' u = Some (JArray xs) \<longrightarrow> list_all (\<lambda>m. \<forall>t. json_field ''content'' m \<noteq> Some (JString t)) xs)"
proof -
  note F = adapt_request_fields [OF assms(1), folded assms(2)]
  have w: "well_keyed u" using F by blast
  note G = adapt_request_fields [OF w]
  have "fst (adapt_request_json u) = u"
  proof (cases "is_object u")
    case True
    have e: "json_field ''_test_endpoint'' u = None" "json_field ''response_schema'' u = None"
      using F [of "''_test_endpoint''"] F [of "''response_schema''"] by simp_all
    have m: "(case json_field ''messages'' u of Some (JArray xs) \<Rightarrow> Some (JArray (map normalize_message xs)) | r \<Rightarrow> r) =
        json_field ''messages'' u"
      using F [of "''messages''"] by (auto simp: comp_def normalize_message_again split: option.splits json.splits)
    have t: "(case json_field ''tools'' u of Some (JArray xs) \<Rightarrow> Some (JArray (map normalize_tool xs)) | r \<Rightarrow> r) =
        json_field ''tools'' u"
      using F [of "''tools''"] by (auto simp: comp_def normalize_tool_again split: option.splits json.splits)
    have k: "json_field k (fst (adapt_request_json u)) = json_field k u" for k
      using G [of k] by (simp add: e m t)
    show ?thesis by (rule object_ext) (use G True w k in auto)
  next
    case False
    then have "json_field k u = None" for k by (cases u) simp_all
    with False show ?thesis
      by (cases u) (simp_all add: adapt_request_json_def remove_member_def normalize_tools_def normalize_message_content_def update_elements_def)
  qed
  moreover have "snd (adapt_request_json u) = None" using G F [of "''_test_endpoint''"] by simp
  moreover have "list_all (\<lambda>m. \<forall>t. json_field ''content'' m \<noteq> Some (JString t)) xs"
    if "json_field ''messages'' u = Some (JArray xs)" for xs
    using that F [of "''messages''"] by (auto simp: list_all_iff normalize_message_content_is split: option.splits json.splits)
  ultimately show ?thesis by (auto simp: prod_eq_iff)
qed

section \<open>Examples\<close>

definition sample_request_json :: json where
  "sample_request_json =
     JObject [(''_test_endpoint'', JString ''/v1''),
       (''messages'', JArray [JObject [(''content'', JString ''hi''), (''role'', JString ''user'')],
          JObject [(''content'', JString ''42''), (''role'', JString ''tool''), (''tool_call_id'', JString ''c1'')]]),
       (''response_schema'', JObject [(''type'', JString ''object'')])]"

theorem adapt_request_fields_witness:
  "snd (adapt_request_json sample_request_json) = Some ''/v1'' \<and>
   json_field ''response_schema'' (fst (adapt_request_json sample_request_json)) = None"
proof -
  have w: "well_keyed sample_request_json" by code_simp
  show ?thesis
    using adapt_request_fields [OF w, of "''response_schema''"] by (simp add: sample_request_json_def)
qed

theorem adapt_request_again_witness:
  "adapt_request_json (fst (adapt_request_json sample_request_json)) = (fst (adapt_request_json sample_request_json), None)"
proof -
  have w: "well_keyed sample_request_json" by code_simp
  show ?thesis using adapt_request_again [OF w refl] by blast
qed

text \<open>A label and an attribute of that name look the same.\<close>

definition labelled :: "string option \<Rightarrow> attr_val str_map \<Rightarrow> graph" where
  "labelled label attrs = \<lparr>g_name = None, g_nodes = [\<lparr>gn_id = ''a'', gn_type = Codergen, gn_label = label, gn_attrs = attrs\<rparr>],
     g_edges = [], g_default_node_attrs = Map.empty, g_default_edge_attrs = Map.empty, g_graph_attrs = Map.empty\<rparr>"

theorem graph_json_determines_witness:
  "map (\<lambda>n. (gn_id n, gn_type n)) (g_nodes (labelled (Some ''x'') Map.empty)) =
     map (\<lambda>n. (gn_id n, gn_type n)) (g_nodes (labelled None [''label'' \<mapsto> AString ''x''])) \<and>
   map (\<lambda>e. (ge_from e, ge_to e)) (g_edges (labelled (Some ''x'') Map.empty)) =
     map (\<lambda>e. (ge_from e, ge_to e)) (g_edges (labelled None [''label'' \<mapsto> AString ''x'']))"
  by (rule graph_json_determines)
    (auto simp: graph_to_json_def labelled_def node_to_json_def put_opt_def fun_eq_iff)

text \<open>A run that stops before an exit node is completed by the engine, and a failure here.\<close>

definition stopping_source :: string where
  "stopping_source = ''digraph p { s [shape=circle]; d [shape=diamond]; x [shape=Msquare]; s -> d }''"

lemma stopping_fails:
  "(case conf_run sample_env conf_retry conf_client (\<lambda>p. Inr stopping_source) ''f'' () of
      Inr (Some js, n) \<Rightarrow> n = 1 \<and> rj_visited_nodes js = [''s'', ''d''] | _ \<Rightarrow> False)"
  by code_simp

end
