(* ===== verification/Spec2Isabelle.thy ===== *)
theory Spec2Isabelle
  imports Run_Store Status Parallel Pipeline Patch Sse Subagent Rendering Llm_Objects Http_Interviewer
    Delegate Preflight Run_Dir Log_Sink Agent_Tools Tui Web_Runs Cli_Run Conformance
begin

text \<open>
  Smasher runs pipelines that are written as DOT graphs: a node is a task for a language model, a tool, a question to a
  person or a routing point, and an edge says where to go next.  This development models the crates under
  \<open>src/crates\<close>: \<open>smasher-attractor\<close> (language and engine), \<open>smasher-llm\<close> (providers of language models),
  \<open>smasher-agent\<close> (agent sessions with tools), \<open>smasher-cli\<close> and \<open>smasher-web\<close> (the two front ends), and
  \<open>smasher-conformance\<close> (an adapter for a test suite).  Each theory opens with what it holds; definitions have the names of the functions they
  translate, with a short prefix where two files use the same name.

  \<^bold>\<open>How a pipeline runs.\<close>  The text is tokenised, parsed and resolved to a graph; a linter and a validator look at the
  graph and transforms rewrite it; the engine then executes one node at a time with the node's handler, applies the
  outcome, and selects an edge, until it reaches an exit whose goals are met or an error.  A codergen handler calls
  a backend: an agent session, whose loop sends a conversation to a provider and executes the tools the answer asks
  for, or a process.  Interviewers put questions to people.  Every step emits an event, which logs, the terminal
  interface and the web pages show.  The web server keeps a record of every run and lets clients submit, watch,
  answer, cancel and resume.

  \<^bold>\<open>Foundations.\<close>  \<open>Prelude\<close>: results, panics, strings, durations and hash maps as the code has them.  \<open>Utf8\<close>: the
  bytes of a text.  \<open>Float64\<close>: the \<open>f64\<close> operations that the code uses, rounding included.  \<open>File_System\<close>: paths and
  a tree of files, directories and symbolic links.  \<open>State\<close> (\<open>state.rs\<close>): JSON values, the context, outcomes and
  checkpoints.

  \<^bold>\<open>Language.\<close>  \<open>Dot_Lexer\<close>, \<open>Dot_Parser\<close> (\<open>dot/\<close>), \<open>Graph\<close> (\<open>graph/mod.rs\<close>), \<open>Validation\<close>
  (\<open>graph/validation.rs\<close>), \<open>Lint\<close>, \<open>Condition\<close>, \<open>Stylesheet\<close>, \<open>Transforms\<close>, \<open>Composition\<close>, \<open>Rendering\<close>.  The lemmas
  give round trips (what prints parses back, and what parses can be printed), the well-formedness and the content of
  resolved graphs, and the cascade of styles.

  \<^bold>\<open>Execution.\<close>  \<open>Edge\<close>, \<open>Retry_Policy\<close>, \<open>Goals\<close>, \<open>Fidelity\<close>, \<open>Handler\<close>, \<open>Stats\<close>, \<open>Artifact\<close>, \<open>Events\<close>, \<open>Engine\<close>
  (\<open>engine.rs\<close>: \<open>engine_step\<close> is one iteration of \<open>execute_loop\<close>, \<open>run\<close> the whole), \<open>Engine_Run\<close> (the invariant of
  the loop, its refinement of an abstract machine, goals, limits, checkpoints, the log), \<open>Parallel\<close>, \<open>Delegate\<close>,
  \<open>Interviewer\<close>, \<open>Http_Interviewer\<close>, \<open>Preflight\<close>, \<open>Run_Dir\<close>, \<open>Run_Store\<close>, \<open>Log_Sink\<close>, \<open>Status\<close>, \<open>Server\<close>; and
  \<open>Pipeline\<close>, which joins language and execution from the source text on.

  \<^bold>\<open>Models and agents.\<close>  \<open>Llm_Types\<close>, \<open>Llm_Catalog\<close>, \<open>Llm_Client\<close>, \<open>Sse\<close>, \<open>Llm_Stream\<close>, \<open>Llm_Anthropic\<close>,
  \<open>Llm_OpenAi\<close>, \<open>Llm_Gemini\<close>, \<open>Llm_Adapters\<close>, \<open>Llm_Objects\<close> (\<open>smasher-llm\<close>): requests, responses and streams of
  three providers, retries and the tool loop; the lemmas compare a streamed answer with the whole one.
  \<open>Agent_Guards\<close>, \<open>Agent_Profile\<close>, \<open>Session\<close>, \<open>Subagent\<close>, \<open>Environment\<close>, \<open>Agent_Tools\<close>, \<open>Patch\<close> (\<open>smasher-agent\<close>):
  the conversation loop and its bookkeeping, confinement of file access, and what the tools do to files.

  \<^bold>\<open>Front ends.\<close>  \<open>Cli_Error\<close>, \<open>Backends\<close>, \<open>Cli_Backends\<close>, \<open>Cli_Run\<close>, \<open>Tui\<close> (\<open>smasher-cli\<close>), \<open>Web_Events\<close>, \<open>Web_Runs\<close>
  (\<open>smasher-web\<close>), \<open>Conformance\<close> (\<open>smasher-conformance\<close>).  \<open>Http_Interviewer\<close>, \<open>Subagent\<close>, \<open>Log_Sink\<close> and
  \<open>Web_Runs\<close> have step relations for the interleavings of clients, tasks and threads, with invariants by rule induction.

  \<^bold>\<open>Interfaces.\<close>  Locales state what a client relies on, and are interpreted on the code's own definitions: \<open>kv_store\<close>
  (contexts and hash maps), \<open>router\<close> (edge selection), \<open>run_store\<close> (the stores in memory and on disk), \<open>log_sink\<close> and
  \<open>durable_sink\<close>, \<open>patient_interviewer\<close>, \<open>text_renderer\<close>, \<open>streaming_provider\<close> and \<open>wire_provider\<close> (three providers).

  \<^bold>\<open>Representation.\<close>  Errors are the left of a sum and a panic is an error of its own.  Counters keep their width
  (\<open>32 word\<close>, \<open>64 word\<close>) where they can wrap; lengths are \<open>nat\<close>.  A \<open>HashMap\<close> whose order is visible is a list of
  pairs.  What lies outside the repository (the clock, the disk behind some stores, processes, HTTP, serde's JSON
  texts, SHA-256, graphviz, globbing, regular expressions, identifiers, channels) is a parameter, acting on an outside
  state \<open>'w\<close> where it has effects; theorems name what they need of it.

  \<^bold>\<open>Bounds.\<close>  The parser of statements gets one unit of fuel more than there are tokens: \<open>parse_graph_fuel\<close> shows that
  it never runs out, so \<open>parse\<close> always returns.  The engine's loop is a function whose termination rests on the step
  limit (\<open>check_limits\<close>), so every run ends.  \<open>apply_sub_pipelines\<close> is a partial function, shown to
  return.  Links are followed 40 times as on Linux (\<open>max_links\<close>); the recursive walk of directories takes a depth.

  \<^bold>\<open>Not modelled.\<close>  Start-up and argument parsing of the programs, the commands that archive, chat, complete, ingest,
  render and serve, git worktrees, the page templates and the start of the web server, the checks of layout and command
  line in \<open>layout_check.rs\<close> and \<open>cli_spec.rs\<close>, the drawing of the terminal interface, logging, serde's derived code,
  the broadcast channel itself and lock poisoning: input and output around the modelled functions, or library code.
  Characters are those of HOL's \<open>char\<close>; case conversion is its ASCII part.

  \<^bold>\<open>What is shown.\<close>  Execution: a run refines an abstract machine of nodes and outcomes and follows the edges of the
  graph; each error is tied to the state that causes it; the number of steps is bounded and success means that the
  goals are met; retries, failure cycles, checkpoints, resumption and the event log are as documented.  Language:
  whatever the parsers return is what its printed form parses to; resolution gives well-formed graphs with the content
  of the source; a rendered graph can be read back.  Agents: every tool call of a conversation is answered, the
  counters are the sums of the responses, sessions and subagents end in the state their result says; reads, writes,
  edits and patches change what they name.  Providers: an answer does not depend on how the transport cuts it.  Stores
  and front ends: two stores and two logs cannot be told apart; a waiting question can be answered; a run that
  has ended stays as it is; markup of events is fixed; the terminal interface shows what a run did.
\<close>

end
